(* ===== verification/Erllama_Base.thy ===== *)
theory Erllama_Base
  imports Complex_Main "HOL-Library.Word" "HOL-Library.Monad_Syntax"
begin

text \<open>
  Shared vocabulary of the development: the integer types of the C and C++ sources, the
  outcome of a C++ call that may throw, and generic lemmas on lists and words that the
  component theories share.

  Integers. Bytes, 32-bit and 64-bit unsigned values whose wrap-around or bit pattern
  matters are words (\<open>byte\<close>, \<open>u32\<close>, \<open>u64\<close>). Token ids, positions, sequence ids and
  the return codes of the C functions are \<open>int\<close>; where the source casts or compares with
  a limit of the type, the limit is written out (\<open>INT32_MAX\<close> and its kin).
\<close>

unbundle bit_operations_syntax

type_synonym byte = "8 word"
type_synonym u32 = "32 word"
type_synonym u64 = "64 word"
type_synonym llama_token = int
type_synonym llama_pos = int
type_synonym llama_seq_id = int

abbreviation INT32_MAX :: int where "INT32_MAX \<equiv> 2147483647"
abbreviation INT32_MIN :: int where "INT32_MIN \<equiv> - 2147483648"
abbreviation UINT32_MAX :: int where "UINT32_MAX \<equiv> 4294967295"
abbreviation SIZE_MAX :: nat where "SIZE_MAX \<equiv> 18446744073709551615"
abbreviation UINT64_MAX :: u64 where "UINT64_MAX \<equiv> - 1"

text \<open>
  A call into the C++ library either throws (whatever the exception is, the callers only
  use \<open>catch (...)\<close>) or returns a value.
\<close>

datatype 'a exc = Throw | Ret 'a

text \<open>\<open>try { return f; } catch (...) { return sentinel; }\<close>\<close>

definition catch_all :: "'a exc \<Rightarrow> 'a \<Rightarrow> 'a" where
  "catch_all r sentinel = (case r of Throw \<Rightarrow> sentinel | Ret v \<Rightarrow> v)"

lemma catch_all_simps [simp]:
  "catch_all Throw s = s"
  "catch_all (Ret v) s = v"
  by (simp_all add: catch_all_def)

text \<open>Collections that component proofs pass to the simplifier as a group.\<close>

named_theorems crc_simps \<open>bit-level facts of the CRC step\<close>
named_theorems enif_simps \<open>unfolding rules of the term getters\<close>
named_theorems life_simps \<open>unfolding rules of the resource life cycle\<close>
named_theorems kv_simps \<open>unfolding rules of the KV cell operations\<close>

subsection \<open>Lists\<close>

lemma foldl_distrib_append: "foldl f a (xs @ ys) = foldl f (foldl f a xs) ys"
  by simp

lemma nth_map_upt [simp]: "i < n \<Longrightarrow> map f [0..<n] ! i = f i"
  by simp

lemma list_all_nthI: "(\<And>i. i < length xs \<Longrightarrow> P (xs ! i)) \<Longrightarrow> list_all P xs"
  by (simp add: list_all_length)

text \<open>The element just written is read back; the others are kept.\<close>

lemma nth_update_cases:
  "i < length xs \<Longrightarrow> xs[i := v] ! j = (if i = j then v else xs ! j)"
  by simp

lemma nth_update_if: "xs[i := v] ! j = (if i = j \<and> i < length xs then v else xs ! j)"
  by (cases "i < length xs") (auto simp: nth_list_update list_update_beyond)

subsection \<open>Loops with a failing body\<close>

text \<open>
  A \<open>for\<close> loop whose body may violate an assertion (\<open>None\<close>): the first violation ends it.
\<close>

fun foldM :: "('a \<Rightarrow> 's \<Rightarrow> 's option) \<Rightarrow> 'a list \<Rightarrow> 's \<Rightarrow> 's option" where
  "foldM f [] s = Some s"
| "foldM f (x # xs) s = Option.bind (f x s) (foldM f xs)"

definition require :: "bool \<Rightarrow> unit option" where
  "require b = (if b then Some () else None)"

lemma require_simps [simp]: "require True = Some ()" "require False = None"
  by (simp_all add: require_def)

lemma bind_require [simp]: "Option.bind (require b) f = (if b then f () else None)"
  by (simp add: require_def)

lemma foldM_append: "foldM f (xs @ ys) s = Option.bind (foldM f xs s) (foldM f ys)"
proof (induction xs arbitrary: s)
  case (Cons x xs)
  then show ?case by (cases "f x s") simp_all
qed simp

text \<open>
  The loop rule: an invariant indexed by the number of iterations done, whose every
  iteration succeeds, holds at the end of a loop that succeeds.
\<close>

lemma foldM_rule:
  assumes "P 0 s"
    and "\<And>k t. k < length xs \<Longrightarrow> P k t \<Longrightarrow> \<exists>t'. f (xs ! k) t = Some t' \<and> P (Suc k) t'"
  shows "\<exists>t. foldM f xs s = Some t \<and> P (length xs) t"
  using assms
proof (induction xs rule: rev_induct)
  case (snoc x xs)
  have "\<exists>t. foldM f xs s = Some t \<and> P (length xs) t"
  proof (rule snoc.IH [OF snoc.prems(1)])
    fix k t assume "k < length xs" "P k t"
    then show "\<exists>t'. f (xs ! k) t = Some t' \<and> P (Suc k) t'"
      using snoc.prems(2) [of k t] by (simp add: nth_append)
  qed
  then obtain t where t: "foldM f xs s = Some t" "P (length xs) t" by blast
  with snoc.prems(2) [of "length xs" t] show ?case by (auto simp: foldM_append)
qed simp

lemma foldM_upt_rule:
  assumes "P 0 s" and "\<And>i t. i < n \<Longrightarrow> P i t \<Longrightarrow> \<exists>t'. f i t = Some t' \<and> P (Suc i) t'"
  shows "\<exists>t. foldM f [0..<n] s = Some t \<and> P n t"
  using foldM_rule [of P s "[0..<n]" f] assms by simp

subsection \<open>Words\<close>

lemma xor_cancel_zero: "(a XOR b = 0) \<longleftrightarrow> (a = (b :: 'a::len word))"
proof
  assume h: "a XOR b = 0"
  show "a = b"
  proof (rule bit_eqI)
    fix n
    from h have "bit (a XOR b) n = bit (0 :: 'a word) n" by simp
    then show "bit a n = bit b n" by (simp add: bit_xor_iff)
  qed
qed simp

lemma xor_right_cancel_iff [simp]: "(a XOR c = b XOR c) \<longleftrightarrow> (a = (b :: 'a::len word))"
  by (auto simp: bit_eq_iff bit_xor_iff)

lemma xor_left_cancel_iff [simp]: "(c XOR a = c XOR b) \<longleftrightarrow> (a = (b :: 'a::len word))"
  by (auto simp: bit_eq_iff bit_xor_iff)

lemma mask_8_u32: "(255 :: u32) = mask 8"
  by (simp add: mask_eq_decr_exp)

lemma bit_and_0xFF: "bit (x AND 255) n \<longleftrightarrow> n < 8 \<and> bit (x :: u32) n"
  unfolding mask_8_u32 by (auto simp: bit_and_iff bit_mask_iff)

end
