(* ===== verification/Crc32c.thy ===== *)
theory Crc32c
  imports Erllama_Base
begin

text \<open>
  The CRC32C checksum of \<open>c_src/crc32c.c\<close> (RFC 3720, Castagnoli polynomial in reflected
  form), used by \<open>nif_crc32c\<close> for the payload checksum of KVC cache files.
  The static table and its \<open>pthread_once\<close> control are an explicit state
  (\<open>crc_state\<close>); before initialisation the static table holds zeros.

  Shown: the table-driven loop computes the bit-serial division
  (\<open>crc_bit\<close> eight times per byte); initialisation is idempotent; digests may be
  computed incrementally; the step is injective, so every change confined to four
  consecutive bytes (any burst of up to 32 bits aligned in them) changes the digest.
\<close>

definition POLY :: u32 where
  "POLY = 0x82F63B78"

text \<open>One round of the inner loop of \<open>crc32c_table_build\<close>.\<close>

definition crc_bit :: "u32 \<Rightarrow> u32" where
  "crc_bit c = (if c AND 1 \<noteq> 0 then POLY XOR drop_bit 1 c else drop_bit 1 c)"

definition crc32c_table_build :: "u32 list" where
  "crc32c_table_build = map (\<lambda>i. (crc_bit ^^ 8) (of_nat i)) [0..<256]"

record crc_state =
  crc32c_table :: "u32 list"
  crc32c_table_once :: bool

definition crc_static :: crc_state where
  "crc_static = \<lparr>crc32c_table = replicate 256 0, crc32c_table_once = False\<rparr>"

text \<open>
  \<open>pthread_once\<close> returns its error code \<open>once_rc\<close> (0 on success) and runs the builder
  exactly once.
\<close>

definition erllama_crc32c_init :: "int \<Rightarrow> crc_state \<Rightarrow> int \<times> crc_state" where
  "erllama_crc32c_init once_rc s =
     (if once_rc \<noteq> 0 then (once_rc, s)
      else if crc32c_table_once s then (0, s)
      else (0, s\<lparr>crc32c_table := crc32c_table_build, crc32c_table_once := True\<rparr>))"

definition crc_step :: "u32 list \<Rightarrow> u32 \<Rightarrow> byte \<Rightarrow> u32" where
  "crc_step tab c d = (tab ! unat ((c XOR ucast d) AND 0xFF)) XOR drop_bit 8 c"

definition erllama_crc32c_update :: "crc_state \<Rightarrow> u32 \<Rightarrow> byte list \<Rightarrow> u32" where
  "erllama_crc32c_update s crc data = NOT (foldl (crc_step (crc32c_table s)) (NOT crc) data)"

text \<open>\<open>nif_crc32c\<close> on the bytes of its iodata argument.\<close>

definition nif_crc32c :: "crc_state \<Rightarrow> byte list \<Rightarrow> u32" where
  "nif_crc32c s bin = erllama_crc32c_update s 0 bin"

text \<open>The reference: bit-serial division, no table.\<close>

definition crc32c_ref :: "u32 \<Rightarrow> byte list \<Rightarrow> u32" where
  "crc32c_ref crc data = NOT (foldl (\<lambda>c d. (crc_bit ^^ 8) (c XOR ucast d)) (NOT crc) data)"

definition crc_ready :: "crc_state \<Rightarrow> bool" where
  "crc_ready s \<longleftrightarrow> crc32c_table s = crc32c_table_build"

subsection \<open>The bit step is linear and injective\<close>

lemma and_1_iff_bit_0: "(c AND 1 \<noteq> (0 :: u32)) \<longleftrightarrow> bit c 0"
  by (simp add: and_one_eq bit_0 odd_iff_mod_2_eq_one)

lemma bit_crc_bit [crc_simps]:
  "bit (crc_bit c) n \<longleftrightarrow> (bit c 0 \<and> bit POLY n) \<noteq> bit c (Suc n)"
  by (auto simp: crc_bit_def and_1_iff_bit_0 bit_xor_iff bit_drop_bit_eq)

lemma crc_bit_xor: "crc_bit (a XOR b) = crc_bit a XOR crc_bit b"
  by (rule bit_eqI) (auto simp: crc_simps bit_xor_iff)

lemma crc_bit_0 [simp]: "crc_bit 0 = 0"
  by (simp add: crc_bit_def)

lemma crc_bits_xor: "(crc_bit ^^ n) (a XOR b) = (crc_bit ^^ n) a XOR (crc_bit ^^ n) b"
  by (induction n) (simp_all add: crc_bit_xor)

lemma bit_POLY_31: "bit POLY 31"
  by (simp add: POLY_def bit_numeral_rec)

lemma crc_bit_eq_0D: "crc_bit c = 0 \<Longrightarrow> c = 0"
proof -
  assume h: "crc_bit c = 0"
  then have z: "(bit c 0 \<and> bit POLY n) = bit c (Suc n)" for n
    using bit_crc_bit [of c n] by auto
  have "\<not> bit c 32" using bit_imp_le_length [of c 32] by auto
  with z [of 31] bit_POLY_31 have c0: "\<not> bit c 0" by auto
  have "\<not> bit c n" for n
    using z c0 by (cases n) auto
  then show "c = 0" by (intro bit_eqI) simp
qed

lemma crc_bit_inj: "crc_bit a = crc_bit b \<longleftrightarrow> a = b"
proof
  assume "crc_bit a = crc_bit b"
  then have "crc_bit (a XOR b) = 0" by (simp add: crc_bit_xor)
  then show "a = b" using crc_bit_eq_0D xor_cancel_zero by blast
qed simp

lemma crc_bits_inj: "(crc_bit ^^ n) a = (crc_bit ^^ n) b \<longleftrightarrow> a = b"
  by (induction n) (simp_all add: crc_bit_inj)

text \<open>While the low bits are zero the step is a plain shift.\<close>

lemma crc_bits_high:
  assumes "\<forall>k<n. \<not> bit c k"
  shows "(crc_bit ^^ n) c = drop_bit n c"
  using assms
proof (induction n)
  case (Suc n)
  then have IH: "(crc_bit ^^ n) c = drop_bit n c" by simp
  have "\<not> bit (drop_bit n c) 0"
    using Suc.prems by (simp add: bit_drop_bit_eq)
  then have "crc_bit (drop_bit n c) = drop_bit 1 (drop_bit n c)"
    by (simp add: crc_bit_def and_1_iff_bit_0)
  then show ?case by (simp add: IH drop_bit_drop_bit)
qed simp

subsection \<open>The table step is eight bit steps\<close>

lemma crc_table_nth: "i < 256 \<Longrightarrow> crc32c_table_build ! i = (crc_bit ^^ 8) (of_nat i)"
  unfolding crc32c_table_build_def by simp

lemma unat_and_0xFF: "unat ((x :: u32) AND 255) < 256"
proof -
  have "unat (x AND 255) \<le> unat (255 :: u32)"
    by (rule word_and_le1 [THEN word_le_nat_alt [THEN iffD1]])
  then show ?thesis by simp
qed

lemma crc_step_bits: "crc_step crc32c_table_build c d = (crc_bit ^^ 8) (c XOR ucast d)"
proof -
  let ?x = "c XOR ucast d :: u32"
  let ?lo = "?x AND 255" and ?hi = "?x AND NOT 255"
  have split: "?x = ?lo XOR ?hi"
    by (rule bit_eqI) (auto simp: bit_and_0xFF bit_and_iff bit_not_iff bit_xor_iff
          mask_8_u32 bit_mask_iff)
  have hi: "(crc_bit ^^ 8) ?hi = drop_bit 8 ?hi"
    by (rule crc_bits_high) (simp add: bit_and_iff bit_not_iff mask_8_u32 bit_mask_iff)
  have shift: "drop_bit 8 ?hi = drop_bit 8 c"
    by (rule bit_eqI)
       (auto simp: bit_drop_bit_eq bit_and_iff bit_not_iff mask_8_u32 bit_mask_iff bit_xor_iff
          bit_ucast_iff dest: bit_imp_le_length)
  have "(crc_bit ^^ 8) ?x = (crc_bit ^^ 8) (?lo XOR ?hi)"
    by (rule arg_cong [OF split])
  also have "\<dots> = (crc_bit ^^ 8) ?lo XOR drop_bit 8 c"
    by (simp only: crc_bits_xor hi shift)
  finally show ?thesis
    by (simp add: crc_step_def crc_table_nth [OF unat_and_0xFF])
qed

lemma foldl_crc_step:
  "foldl (crc_step crc32c_table_build) c data =
     foldl (\<lambda>c d. (crc_bit ^^ 8) (c XOR ucast d)) c data"
  by (simp add: crc_step_bits cong: foldl_cong)

subsection \<open>Four bytes are absorbed as one little-endian word\<close>

definition word_le :: "byte list \<Rightarrow> u32" where
  "word_le ds = foldr (\<lambda>d w. ucast d XOR push_bit 8 w) ds 0"

lemma word_le_simps [simp]:
  "word_le [] = 0"
  "word_le (d # ds) = ucast d XOR push_bit 8 (word_le ds)"
  by (simp_all add: word_le_def)

lemma word_le_bound: "bit (word_le ds) n \<Longrightarrow> n < 8 * length ds"
proof (induction ds arbitrary: n)
  case (Cons d ds)
  from Cons.prems consider "bit d n" | "8 \<le> n" "bit (word_le ds) (n - 8)"
    by (auto simp: bit_xor_iff bit_ucast_iff bit_push_bit_iff)
  then show ?case
  proof cases
    case 1
    then show ?thesis by (auto dest: bit_imp_le_length)
  next
    case 2
    then show ?thesis using Cons.IH by fastforce
  qed
qed simp

lemma drop_push_word_le:
  assumes "length ds \<le> 3"
  shows "drop_bit 8 (push_bit 8 (word_le ds)) = word_le ds"
proof (rule bit_eqI)
  fix n
  have "n < 24" if "bit (word_le ds) n"
    using word_le_bound [OF that] assms by simp
  then show "bit (drop_bit 8 (push_bit 8 (word_le ds))) n = bit (word_le ds) n"
    by (auto simp: bit_drop_bit_eq bit_push_bit_iff)
qed

lemma bits_8_push: "(crc_bit ^^ 8) (push_bit 8 w) = drop_bit 8 (push_bit 8 w)"
  by (rule crc_bits_high) (simp add: bit_push_bit_iff)

text \<open>
  Feeding \<open>ds\<close> (at most four bytes) into state \<open>c\<close> is running the bit step
  \<open>8 * length ds\<close> times on \<open>c XOR word_le ds\<close>.
\<close>

lemma absorb_le:
  assumes "length ds \<le> 4"
  shows "foldl (\<lambda>c d. (crc_bit ^^ 8) (c XOR ucast d)) c ds =
           (crc_bit ^^ (8 * length ds)) (c XOR word_le ds)"
  using assms
proof (induction ds arbitrary: c)
  case (Cons d ds)
  let ?w = "word_le ds" and ?e = "c XOR ucast d :: u32"
  have len: "8 * length (d # ds) = 8 * length ds + 8" by simp
  have w: "(crc_bit ^^ 8) (push_bit 8 ?w) = ?w"
    using Cons.prems by (simp only: bits_8_push) (simp add: drop_push_word_le)
  have "(crc_bit ^^ (8 * length (d # ds))) (c XOR word_le (d # ds)) =
          (crc_bit ^^ (8 * length ds)) ((crc_bit ^^ 8) (?e XOR push_bit 8 ?w))"
    by (simp only: len funpow_add comp_apply word_le_simps xor.assoc)
  also have "\<dots> = (crc_bit ^^ (8 * length ds)) ((crc_bit ^^ 8) ?e XOR ?w)"
    by (simp only: crc_bits_xor w)
  also have "\<dots> = foldl (\<lambda>c d. (crc_bit ^^ 8) (c XOR ucast d)) c (d # ds)"
    using Cons by simp
  finally show ?case by simp
qed simp

lemma word_le_inj:
  assumes "length xs = length ys" and "length xs \<le> 4" and "word_le xs = word_le ys"
  shows "xs = ys"
  using assms
proof (induction xs ys rule: list_induct2)
  case (Cons x xs y ys)
  have eq: "bit (ucast x XOR push_bit 8 (word_le xs) :: u32) n =
            bit (ucast y XOR push_bit 8 (word_le ys) :: u32) n" for n
    using Cons.prems by simp
  have "bit x n = bit y n" if "n < 8" for n
    using eq [of n] that by (simp add: bit_xor_iff bit_ucast_iff bit_push_bit_iff)
  then have xy: "x = y" by (intro bit_word_eqI) simp
  have "drop_bit 8 (push_bit 8 (word_le xs)) = drop_bit 8 (push_bit 8 (word_le ys))"
    using Cons.prems xy by simp
  then have "word_le xs = word_le ys"
    using Cons.prems Cons.hyps by (simp add: drop_push_word_le)
  then show ?case using Cons xy by simp
qed simp

lemma crc_fold_inj:
  "foldl (\<lambda>c d. (crc_bit ^^ 8) (c XOR ucast d)) a ds =
     foldl (\<lambda>c d. (crc_bit ^^ 8) (c XOR ucast d)) b ds \<longleftrightarrow> a = b"
  by (induction ds arbitrary: a b) (simp_all add: crc_bits_inj)

lemma crc_byte: "(crc_bit ^^ 8) c =
   crc_bit (crc_bit (crc_bit (crc_bit (crc_bit (crc_bit (crc_bit (crc_bit c)))))))"
  by (simp add: numeral_eq_Suc)

lemma crc_ready_init: "crc_ready (snd (erllama_crc32c_init 0 crc_static))"
  by (simp add: crc_ready_def erllama_crc32c_init_def crc_static_def)

lemma crc_readyD: "crc_ready s \<Longrightarrow> crc32c_table s = crc32c_table_build"
  by (simp add: crc_ready_def)

subsection \<open>Properties\<close>

text \<open>
  C40: Once the table has been built, the table-driven loop of \<open>erllama_crc32c_update\<close>
  computes, on every input and from every running digest, the bit-serial division of the
  CRC32C polynomial.
\<close>

theorem crc32c_update_is_reference:
  "crc_ready s \<Longrightarrow> erllama_crc32c_update s crc data = crc32c_ref crc data"
  by (simp add: erllama_crc32c_update_def crc32c_ref_def crc_readyD foldl_crc_step)

theorem crc32c_update_is_reference_witness:
  "nif_crc32c (snd (erllama_crc32c_init 0 crc_static)) [97] = 0xC1D04330"
proof -
  have "crc32c_ref 0 [97] = 0xC1D04330"
    by (simp add: crc32c_ref_def crc_byte crc_bit_def POLY_def)
  then show ?thesis
    by (simp add: nif_crc32c_def crc32c_update_is_reference [OF crc_ready_init])
qed

text \<open>
  The digest is incremental, as the header of \<open>crc32c.h\<close> promises: passing the
  previous return value as \<open>crc\<close> continues the computation.
\<close>

theorem crc32c_incremental:
  "erllama_crc32c_update s (erllama_crc32c_update s crc xs) ys =
     erllama_crc32c_update s crc (xs @ ys)"
  by (simp add: erllama_crc32c_update_def)

text \<open>
  C39: Corruption detection. Two payloads of the same length that differ only inside a
  window of at most four consecutive bytes never have the same digest, whatever precedes
  and follows the window: every error burst of up to 32 bits inside such a window is
  detected when a cache file is read back.
\<close>

theorem crc32c_detects_burst:
  assumes "crc_ready s" and "length xs = length ys" and "length xs \<le> 4" and "xs \<noteq> ys"
  shows "nif_crc32c s (p @ xs @ q) \<noteq> nif_crc32c s (p @ ys @ q)"
proof
  assume "nif_crc32c s (p @ xs @ q) = nif_crc32c s (p @ ys @ q)"
  then have "word_le xs = word_le ys"
    using assms(1-3)
    by (simp add: nif_crc32c_def erllama_crc32c_update_def crc_readyD foldl_crc_step
        crc_fold_inj absorb_le crc_bits_inj)
  with assms(2,3) have "xs = ys" by (intro word_le_inj)
  with assms(4) show False by simp
qed

theorem crc32c_detects_burst_witness:
  "nif_crc32c (snd (erllama_crc32c_init 0 crc_static)) ([7] @ [1, 2, 3, 4] @ [9]) \<noteq>
     nif_crc32c (snd (erllama_crc32c_init 0 crc_static)) ([7] @ [1, 2, 0, 4] @ [9])"
  by (rule crc32c_detects_burst [OF crc_ready_init]) simp_all

text \<open>
  Table initialisation is idempotent: whatever sequence of calls to
  \<open>erllama_crc32c_init\<close> the load callback makes, as soon as one of them returns 0 the table is the
  built table, and it stays so; a failing \<open>pthread_once\<close> is returned to the caller and
  changes nothing.
\<close>

theorem crc32c_init_once:
  "crc_ready (foldl (\<lambda>s rc. snd (erllama_crc32c_init rc s)) crc_static rcs) = (0 \<in> set rcs)"
proof -
  have ne: "crc32c_table_build \<noteq> replicate 256 0"
  proof
    assume h: "crc32c_table_build = replicate 256 0"
    have "(crc_bit ^^ 8) (1 :: u32) = (crc_bit ^^ 8) 0"
      using arg_cong [OF h, of "\<lambda>t. t ! 1"] crc_table_nth [of 1]
      by (simp add: funpow_swap1 numeral_eq_Suc)
    then show False unfolding crc_bits_inj by simp
  qed
  have "crc_ready (foldl (\<lambda>s rc. snd (erllama_crc32c_init rc s)) s rcs) = (0 \<in> set rcs \<or> crc_ready s)"
    if "crc32c_table_once s = crc_ready s" for s
    using that
  proof (induction rcs arbitrary: s)
    case (Cons rc rcs)
    show ?case
      using Cons.IH [of "snd (erllama_crc32c_init rc s)"] Cons.prems
      by (auto simp: erllama_crc32c_init_def crc_ready_def)
  qed simp
  from this [of crc_static] ne show ?thesis
    by (simp add: crc_static_def crc_ready_def)
qed

end
