(* ===== verification/Erl_Term.thy ===== *)
theory Erl_Term
  imports Erllama_Base
begin

text \<open>
  Erlang terms as the NIF sees them, and the getters of \<open>erl_nif.h\<close> that the sources
  call. A list is a chain of cells, so improper lists exist, as in the VM. Erlang floats
  are always finite, hence exact rationals. A NIF call either raises \<open>badarg\<close> or returns a
  term (\<open>nif_ret\<close>). Getters return \<open>None\<close> where the C function returns 0.
\<close>

datatype rtype =
    MODEL_RT | CTX_RT | ADAPTER_RT | SAMPLER_RT | SPEC_RT | MTMD_RT | CHAT_TEMPLATES_RT | CHAT_PARAMS_RT

datatype eterm =
    EAtom string
  | EInt int
  | EFloat rat
  | EBin "byte list"
  | ENil
  | ECons eterm eterm
  | ETuple "eterm list"
  | EMap "(eterm \<times> eterm) list"
  | ERes rtype nat
  | EPid nat

datatype nif_ret = Badarg | Term eterm

definition enif_get_int :: "eterm \<Rightarrow> int option" where
  "enif_get_int t = (case t of EInt i \<Rightarrow> if INT32_MIN \<le> i \<and> i \<le> INT32_MAX then Some i else None
                     | _ \<Rightarrow> None)"

definition enif_get_uint :: "eterm \<Rightarrow> int option" where
  "enif_get_uint t = (case t of EInt i \<Rightarrow> if 0 \<le> i \<and> i \<le> UINT32_MAX then Some i else None
                      | _ \<Rightarrow> None)"

definition enif_get_long :: "eterm \<Rightarrow> int option" where
  "enif_get_long t =
     (case t of EInt i \<Rightarrow> if - (2 ^ 63) \<le> i \<and> i < 2 ^ 63 then Some i else None | _ \<Rightarrow> None)"

definition enif_get_ulong :: "eterm \<Rightarrow> int option" where
  "enif_get_ulong t =
     (case t of EInt i \<Rightarrow> if 0 \<le> i \<and> i < 2 ^ 64 then Some i else None | _ \<Rightarrow> None)"

definition enif_get_double :: "eterm \<Rightarrow> rat option" where
  "enif_get_double t = (case t of EFloat f \<Rightarrow> Some f | _ \<Rightarrow> None)"

text \<open>\<open>enif_get_atom(env, t, buf, size, LATIN1)\<close>: the name and its NUL must fit.\<close>

definition enif_get_atom :: "nat \<Rightarrow> eterm \<Rightarrow> string option" where
  "enif_get_atom sz t = (case t of EAtom s \<Rightarrow> if length s < sz then Some s else None | _ \<Rightarrow> None)"

definition enif_get_tuple :: "eterm \<Rightarrow> eterm list option" where
  "enif_get_tuple t = (case t of ETuple ts \<Rightarrow> Some ts | _ \<Rightarrow> None)"

definition enif_is_map :: "eterm \<Rightarrow> bool" where
  "enif_is_map t = (case t of EMap _ \<Rightarrow> True | _ \<Rightarrow> False)"

definition enif_is_list :: "eterm \<Rightarrow> bool" where
  "enif_is_list t = (case t of ENil \<Rightarrow> True | ECons _ _ \<Rightarrow> True | _ \<Rightarrow> False)"

definition enif_get_map_value :: "eterm \<Rightarrow> string \<Rightarrow> eterm option" where
  "enif_get_map_value t key = (case t of EMap kvs \<Rightarrow> map_of kvs (EAtom key) | _ \<Rightarrow> None)"

definition enif_get_resource :: "rtype \<Rightarrow> eterm \<Rightarrow> nat option" where
  "enif_get_resource rt t = (case t of ERes rt' i \<Rightarrow> if rt = rt' then Some i else None | _ \<Rightarrow> None)"

definition enif_get_local_pid :: "eterm \<Rightarrow> nat option" where
  "enif_get_local_pid t = (case t of EPid p \<Rightarrow> Some p | _ \<Rightarrow> None)"

definition enif_inspect_binary :: "eterm \<Rightarrow> byte list option" where
  "enif_inspect_binary t = (case t of EBin bs \<Rightarrow> Some bs | _ \<Rightarrow> None)"

text \<open>The cells of a list, and whether it ends in the empty list.\<close>

fun list_cells :: "eterm \<Rightarrow> eterm list" where
  "list_cells (ECons h t) = h # list_cells t"
| "list_cells _ = []"

fun proper_list :: "eterm \<Rightarrow> bool" where
  "proper_list ENil = True"
| "proper_list (ECons h t) = proper_list t"
| "proper_list _ = False"

definition enif_get_list_length :: "eterm \<Rightarrow> nat option" where
  "enif_get_list_length t = (if proper_list t then Some (length (list_cells t)) else None)"

text \<open>\<open>enif_inspect_iolist_as_binary\<close>: bytes, binaries and nested lists of them.\<close>

fun iolist_bytes :: "eterm \<Rightarrow> byte list option" where
  "iolist_bytes (EBin bs) = Some bs"
| "iolist_bytes ENil = Some []"
| "iolist_bytes (ECons (EInt i) t) =
     (if 0 \<le> i \<and> i < 256
      then (case iolist_bytes t of None \<Rightarrow> None | Some bs \<Rightarrow> Some (word_of_int i # bs))
      else None)"
| "iolist_bytes (ECons h t) =
     (case iolist_bytes h of None \<Rightarrow> None
      | Some as \<Rightarrow> (case iolist_bytes t of None \<Rightarrow> None | Some bs \<Rightarrow> Some (as @ bs)))"
| "iolist_bytes _ = None"

text \<open>\<open>enif_make_list_from_array\<close> and the reversed \<open>enif_make_list_cell\<close> loops.\<close>

fun mk_list :: "eterm list \<Rightarrow> eterm" where
  "mk_list [] = ENil"
| "mk_list (t # ts) = ECons t (mk_list ts)"

abbreviation atom_ok :: eterm where "atom_ok \<equiv> EAtom ''ok''"
abbreviation atom_true :: eterm where "atom_true \<equiv> EAtom ''true''"
abbreviation atom_false :: eterm where "atom_false \<equiv> EAtom ''false''"

definition erllama_error :: "eterm \<Rightarrow> nif_ret" where
  "erllama_error reason = Term (ETuple [EAtom ''error'', reason])"

definition err :: "string \<Rightarrow> nif_ret" where
  "err reason = erllama_error (EAtom reason)"

subsection \<open>Facts on terms\<close>

lemma list_cells_mk_list [simp]: "list_cells (mk_list ts) = ts"
  by (induction ts) auto

lemma proper_mk_list [simp]: "proper_list (mk_list ts)"
  by (induction ts) auto

lemma mk_list_cells: "proper_list t \<Longrightarrow> mk_list (list_cells t) = t"
  by (induction t) auto

lemma list_length_mk_list [simp]: "enif_get_list_length (mk_list ts) = Some (length ts)"
  by (simp add: enif_get_list_length_def)

lemma list_length_eq_Some:
  "enif_get_list_length t = Some n \<longleftrightarrow> proper_list t \<and> n = length (list_cells t)"
  by (auto simp: enif_get_list_length_def)

lemma mk_list_inject [simp]: "mk_list xs = mk_list ys \<longleftrightarrow> xs = ys"
  by (metis list_cells_mk_list)

lemma enif_get_int_EInt [simp]:
  "enif_get_int (EInt i) = (if INT32_MIN \<le> i \<and> i \<le> INT32_MAX then Some i else None)"
  by (simp add: enif_get_int_def)

lemma enif_get_int_SomeD: "enif_get_int t = Some i \<Longrightarrow> t = EInt i \<and> INT32_MIN \<le> i \<and> i \<le> INT32_MAX"
  by (auto simp: enif_get_int_def split: eterm.splits if_splits)

lemma enif_get_uint_SomeD: "enif_get_uint t = Some i \<Longrightarrow> t = EInt i \<and> 0 \<le> i \<and> i \<le> UINT32_MAX"
  by (auto simp: enif_get_uint_def split: eterm.splits if_splits)

lemma enif_get_tuple_ETuple [simp]: "enif_get_tuple (ETuple ts) = Some ts"
  by (simp add: enif_get_tuple_def)

lemma enif_get_resource_ERes [simp]:
  "enif_get_resource rt (ERes rt' i) = (if rt = rt' then Some i else None)"
  by (simp add: enif_get_resource_def)

lemma enif_get_atom_EAtom [simp]:
  "enif_get_atom n (EAtom s) = (if length s < n then Some s else None)"
  by (simp add: enif_get_atom_def)

lemma enif_get_map_value_EMap [simp]: "enif_get_map_value (EMap kvs) k = map_of kvs (EAtom k)"
  by (simp add: enif_get_map_value_def)

lemma err_inject [simp]: "err a = err b \<longleftrightarrow> a = b"
  by (simp add: err_def erllama_error_def)

lemma err_not_Badarg [simp]: "err a \<noteq> Badarg" "Badarg \<noteq> err a"
  by (simp_all add: err_def erllama_error_def)

lemma err_not_ok [simp]: "err a \<noteq> Term (EAtom s)" "Term (EAtom s) \<noteq> err a"
  by (simp_all add: err_def erllama_error_def)

lemma err_not_ok_tuple [simp]:
  "err a \<noteq> Term (ETuple (EAtom ''ok'' # ts))" "Term (ETuple (EAtom ''ok'' # ts)) \<noteq> err a"
  by (simp_all add: err_def erllama_error_def)

lemma iolist_bytes_mk_list_bytes:
  "iolist_bytes (mk_list (map (\<lambda>b. EInt (uint b)) bs)) = Some bs"
proof (induction bs)
  case (Cons b bs)
  have "uint b < 256" using uint_lt2p [of b] by simp
  then show ?case using Cons by simp
qed simp

end
