(* ===== verification/Nif_Util.thy ===== *)
theory Nif_Util
  imports Erl_Term
begin

text \<open>
  The helpers of \<open>c_src/erllama_nif_util.c\<close> shared by the NIF entry points: option-map
  getters, path copying, token-list parsing, vocabulary checks and the tokenize grow-retry
  protocol. A getter that returns 1 and writes \<open>*out\<close> is \<open>Some v\<close>; one that returns 0
  and leaves \<open>*out\<close> alone is \<open>None\<close>. Heap allocation is a parameter (\<open>alloc\<close>): whether
  the call succeeds.
\<close>

definition ERLLAMA_MAX_TOKENS :: int where
  "ERLLAMA_MAX_TOKENS = 16 * 1024 * 1024"

definition ERLLAMA_MAX_TOKEN_TEXT :: nat where
  "ERLLAMA_MAX_TOKEN_TEXT = 64 * 1024 * 1024"

definition ERLLAMA_N_SEQ_MAX_CAP :: int where
  "ERLLAMA_N_SEQ_MAX_CAP = 256"

definition copy_path :: "eterm \<Rightarrow> nat \<Rightarrow> byte list option" where
  "copy_path term cap =
     (case iolist_bytes term of None \<Rightarrow> None
      | Some bin \<Rightarrow>
          if length bin = 0 \<or> length bin \<ge> cap then None
          else if 0 \<in> set bin then None
          else Some bin)"

definition get_map_int31 :: "eterm \<Rightarrow> string \<Rightarrow> int option" where
  "get_map_int31 m key =
     (case enif_get_map_value m key of None \<Rightarrow> None
      | Some v \<Rightarrow> (case enif_get_uint v of None \<Rightarrow> None
                  | Some u \<Rightarrow> if u > INT32_MAX then None else Some u))"

definition get_map_uint :: "eterm \<Rightarrow> string \<Rightarrow> int option" where
  "get_map_uint m key =
     (case enif_get_map_value m key of None \<Rightarrow> None | Some v \<Rightarrow> enif_get_uint v)"

definition get_map_double :: "eterm \<Rightarrow> string \<Rightarrow> rat option" where
  "get_map_double m key =
     (case enif_get_map_value m key of None \<Rightarrow> None
      | Some v \<Rightarrow> (case enif_get_double v of Some d \<Rightarrow> Some d
                  | None \<Rightarrow> (case enif_get_long v of Some ll \<Rightarrow> Some (of_int ll) | None \<Rightarrow> None)))"

definition get_map_bool :: "eterm \<Rightarrow> string \<Rightarrow> bool option" where
  "get_map_bool m key =
     (case enif_get_map_value m key of None \<Rightarrow> None
      | Some v \<Rightarrow> if v = atom_true then Some True
                  else if v = atom_false then Some False else None)"

definition get_map_int32 :: "eterm \<Rightarrow> string \<Rightarrow> int option" where
  "get_map_int32 m key =
     (case enif_get_map_value m key of None \<Rightarrow> None | Some v \<Rightarrow> enif_get_int v)"

datatype enum_result = EnumAbsent | EnumBad | EnumValue int

definition get_map_atom_enum :: "eterm \<Rightarrow> string \<Rightarrow> (string \<times> int) list \<Rightarrow> enum_result" where
  "get_map_atom_enum m key table =
     (case enif_get_map_value m key of None \<Rightarrow> EnumAbsent
      | Some v \<Rightarrow> (case enif_get_atom 64 v of None \<Rightarrow> EnumBad
                  | Some buf \<Rightarrow> (case map_of table buf of None \<Rightarrow> EnumBad
                                | Some i \<Rightarrow> EnumValue i)))"

text \<open>
  \<open>get_map_float_list\<close>: \<open>None\<close> is the return value -1, \<open>Some []\<close> an absent key (or an
  empty list). Only the cells are walked: the tail of an improper list is not examined.
  \<open>fl\<close> is the conversion from double to float.
\<close>

fun read_floats :: "(rat \<Rightarrow> 'f) \<Rightarrow> nat \<Rightarrow> eterm list \<Rightarrow> 'f list \<Rightarrow> 'f list option" where
  "read_floats fl cap [] out = Some out"
| "read_floats fl cap (h # hs) out =
     (if length out \<ge> cap then None
      else (case enif_get_double h of
              Some d \<Rightarrow> read_floats fl cap hs (out @ [fl d])
            | None \<Rightarrow> (case enif_get_long h of
                         Some ll \<Rightarrow> read_floats fl cap hs (out @ [fl (of_int ll)])
                       | None \<Rightarrow> None)))"

definition get_map_float_list :: "(rat \<Rightarrow> 'f) \<Rightarrow> eterm \<Rightarrow> string \<Rightarrow> nat \<Rightarrow> 'f list option" where
  "get_map_float_list fl m key cap =
     (case enif_get_map_value m key of None \<Rightarrow> Some []
      | Some v \<Rightarrow> if \<not> enif_is_list v then None else read_floats fl cap (list_cells v) [])"

subsection \<open>Token lists\<close>

text \<open>The return code of \<open>read_token_list\<close>, with \<open>*out\<close> when it is 1.\<close>

datatype tok_read = TokOk "llama_token list" | TokRc int

fun read_tokens_loop :: "eterm list \<Rightarrow> llama_token list \<Rightarrow> tok_read" where
  "read_tokens_loop [] toks = TokOk toks"
| "read_tokens_loop (h # hs) toks =
     (case enif_get_int h of None \<Rightarrow> TokRc 0
      | Some v \<Rightarrow> if v < 0 then TokRc (-3) else read_tokens_loop hs (toks @ [v]))"

definition read_token_list :: "bool \<Rightarrow> eterm \<Rightarrow> tok_read" where
  "read_token_list alloc list =
     (case enif_get_list_length list of None \<Rightarrow> TokRc 0
      | Some n \<Rightarrow>
          if int n > ERLLAMA_MAX_TOKENS then TokRc (-2)
          else if n = 0 then TokOk []
          else if \<not> alloc then TokRc (-1)
          else read_tokens_loop (list_cells list) [])"

definition token_list_error :: "int \<Rightarrow> nif_ret" where
  "token_list_error rc =
     (if rc = -1 then err ''oom''
      else if rc = -2 then err ''too_large''
      else if rc = -3 then err ''invalid_token''
      else Badarg)"

text \<open>The index of the first token id outside the vocabulary, or -1.\<close>

fun first_oob_from :: "int \<Rightarrow> llama_token list \<Rightarrow> int \<Rightarrow> int" where
  "first_oob_from i [] n_vocab = -1"
| "first_oob_from i (t # ts) n_vocab =
     (if t \<ge> n_vocab then i else first_oob_from (i + 1) ts n_vocab)"

definition erllama_first_oob_token :: "llama_token list \<Rightarrow> int \<Rightarrow> int" where
  "erllama_first_oob_token toks n_vocab = first_oob_from 0 toks n_vocab"

subsection \<open>Tokenize grow-retry\<close>

datatype tok_status =
    ERLLAMA_TOK_OK "llama_token list"
  | ERLLAMA_TOK_OOM
  | ERLLAMA_TOK_EXCEPTION
  | ERLLAMA_TOK_TOO_LARGE
  | ERLLAMA_TOK_FAILED

text \<open>
  \<open>tokenize\<close> is \<open>llama_tokenize\<close> on the vocabulary, text and flags of the call, given the
  capacity of the buffer: its return value and what it left in the buffer.
\<close>

type_synonym tokenizer = "int \<Rightarrow> (int \<times> llama_token list) exc"

definition erllama_safe_tokenize :: "tokenizer \<Rightarrow> int \<Rightarrow> int \<times> llama_token list" where
  "erllama_safe_tokenize tokenize n_max = catch_all (tokenize n_max) (INT32_MIN, [])"

definition tok_finish :: "int \<times> llama_token list \<Rightarrow> tok_status" where
  "tok_finish r =
     (let n = fst r in
      if n = INT32_MIN then ERLLAMA_TOK_EXCEPTION
      else if n < 0 then ERLLAMA_TOK_FAILED
      else if n > ERLLAMA_MAX_TOKENS then ERLLAMA_TOK_TOO_LARGE
      else ERLLAMA_TOK_OK (take (nat n) (snd r)))"

definition erllama_tokenize_grow :: "tokenizer \<Rightarrow> bool \<Rightarrow> bool \<Rightarrow> int \<Rightarrow> tok_status" where
  "erllama_tokenize_grow tokenize alloc1 alloc2 len =
     (let n_max = (if len + 8 < 16 then 16 else len + 8) in
      if \<not> alloc1 then ERLLAMA_TOK_OOM
      else
        let r = erllama_safe_tokenize tokenize n_max; n = fst r in
        if n < 0 \<and> n \<noteq> INT32_MIN then
          let needed = - n in
          if needed > ERLLAMA_MAX_TOKENS then ERLLAMA_TOK_TOO_LARGE
          else if \<not> alloc2 then ERLLAMA_TOK_OOM
          else tok_finish (erllama_safe_tokenize tokenize needed)
        else tok_finish r)"

subsection \<open>Context parameters\<close>

text \<open>The fields of \<open>llama_context_params\<close> that \<open>erllama_parse_cparams\<close> may set.\<close>

record cparams =
  cp_n_ctx :: int
  cp_n_batch :: int
  cp_n_ubatch :: int
  cp_n_seq_max :: int
  cp_n_rs_seq :: int
  cp_n_threads :: int
  cp_n_threads_batch :: int
  cp_embeddings :: bool
  cp_offload_kqv :: bool
  cp_kv_unified :: bool
  cp_flash_attn_type :: int
  cp_type_k :: int
  cp_type_v :: int

definition FLASH_ATTN_TABLE :: "(string \<times> int) list" where
  "FLASH_ATTN_TABLE = [(''true'', 1), (''false'', 0), (''auto'', -1)]"

definition GGML_TYPE_TABLE :: "(string \<times> int) list" where
  "GGML_TYPE_TABLE =
     [(''f16'', 1), (''f32'', 0), (''bf16'', 30), (''q4_0'', 2), (''q5_0'', 6), (''q5_1'', 7),
      (''q8_0'', 8)]"

definition put_opt :: "'v option \<Rightarrow> ('v \<Rightarrow> 'p \<Rightarrow> 'p) \<Rightarrow> 'p \<Rightarrow> 'p" where
  "put_opt v f p = (case v of None \<Rightarrow> p | Some x \<Rightarrow> f x p)"

definition put_enum :: "enum_result \<Rightarrow> (int \<Rightarrow> 'p \<Rightarrow> 'p) \<Rightarrow> 'p option \<Rightarrow> 'p option" where
  "put_enum e f p =
     (case p of None \<Rightarrow> None
      | Some q \<Rightarrow> (case e of EnumAbsent \<Rightarrow> Some q | EnumBad \<Rightarrow> None | EnumValue i \<Rightarrow> Some (f i q)))"

definition parse_numbers :: "eterm \<Rightarrow> cparams \<Rightarrow> cparams option" where
  "parse_numbers m p =
     (let p1 = put_opt (get_map_uint m ''n_ctx'') (\<lambda>u p. p\<lparr>cp_n_ctx := u\<rparr>) p;
          p2 = put_opt (get_map_uint m ''n_batch'') (\<lambda>u p. p\<lparr>cp_n_batch := u\<rparr>) p1;
          p3 = put_opt (get_map_uint m ''n_ubatch'') (\<lambda>u p. p\<lparr>cp_n_ubatch := u\<rparr>) p2
      in case get_map_uint m ''n_seq_max'' of
           None \<Rightarrow> Some p3
         | Some u \<Rightarrow> if u > ERLLAMA_N_SEQ_MAX_CAP then None else Some (p3\<lparr>cp_n_seq_max := u\<rparr>))"

definition parse_rest :: "eterm \<Rightarrow> cparams \<Rightarrow> cparams" where
  "parse_rest m p =
     (let p1 = put_opt (get_map_uint m ''n_rs_seq'') (\<lambda>u p. p\<lparr>cp_n_rs_seq := u\<rparr>) p;
          p2 = put_opt (get_map_int31 m ''n_threads'') (\<lambda>u p. p\<lparr>cp_n_threads := u\<rparr>) p1;
          p3 = put_opt (get_map_int31 m ''n_threads_batch'')
                 (\<lambda>u p. p\<lparr>cp_n_threads_batch := u\<rparr>) p2;
          p4 = put_opt (get_map_bool m ''embeddings'') (\<lambda>b p. p\<lparr>cp_embeddings := b\<rparr>) p3;
          p5 = put_opt (get_map_bool m ''offload_kqv'') (\<lambda>b p. p\<lparr>cp_offload_kqv := b\<rparr>) p4
      in put_opt (get_map_bool m ''kv_unified'') (\<lambda>b p. p\<lparr>cp_kv_unified := b\<rparr>) p5)"

definition erllama_parse_cparams :: "eterm \<Rightarrow> cparams \<Rightarrow> cparams option" where
  "erllama_parse_cparams m p =
     (case parse_numbers m p of None \<Rightarrow> None
      | Some q \<Rightarrow>
          put_enum (get_map_atom_enum m ''type_v'' GGML_TYPE_TABLE) (\<lambda>i p. p\<lparr>cp_type_v := i\<rparr>)
            (put_enum (get_map_atom_enum m ''type_k'' GGML_TYPE_TABLE) (\<lambda>i p. p\<lparr>cp_type_k := i\<rparr>)
              (put_enum (get_map_atom_enum m ''flash_attn'' FLASH_ATTN_TABLE)
                (\<lambda>i p. p\<lparr>cp_flash_attn_type := i\<rparr>) (Some (parse_rest m q)))))"

subsection \<open>Buffers sized by a first call\<close>

text \<open>
  \<open>llama_vocab::tokenize\<close> (and every call with the same convention): the whole result
  \<open>res\<close> is computed first; it is copied when it fits in \<open>n_max\<close> slots, otherwise the
  negated size is returned and the buffer is left alone.
\<close>

definition llama_vocab_tokenize :: "llama_token list \<Rightarrow> tokenizer" where
  "llama_vocab_tokenize res n_tokens_max =
     (if int (length res) \<ge> INT32_MAX then Ret (INT32_MIN, [])
      else if n_tokens_max < int (length res) then Ret (- int (length res), [])
      else Ret (int (length res), res))"

text \<open>
  The contract of such a call: \<open>full v\<close> is what it would write with unlimited space.
\<close>

locale sized_call =
  fixes call :: "'v \<Rightarrow> int \<Rightarrow> (int \<times> 'a list) exc"
    and full :: "'v \<Rightarrow> 'a list"
  assumes call_fits:
      "int (length (full v)) < INT32_MAX \<Longrightarrow> int (length (full v)) \<le> n \<Longrightarrow>
         call v n = Ret (int (length (full v)), full v)"
    and call_short:
      "int (length (full v)) < INT32_MAX \<Longrightarrow> n < int (length (full v)) \<Longrightarrow>
         \<exists>buf. call v n = Ret (- int (length (full v)), buf)"
begin

lemma retry_gets_all:
  assumes "int (length (full v)) < INT32_MAX" and "0 \<le> n"
  shows "\<exists>m buf. catch_all (call v n) x = (m, buf) \<and>
           (if int (length (full v)) \<le> n then m = int (length (full v)) \<and> buf = full v
            else m = - int (length (full v)) \<and> m < 0 \<and> m \<noteq> INT32_MIN \<and>
                 catch_all (call v (- m)) x = (int (length (full v)), full v))"
proof (cases "int (length (full v)) \<le> n")
  case True
  with call_fits [OF assms(1)] show ?thesis by simp
next
  case False
  with call_short [OF assms(1), of n] call_fits [OF assms(1) order_refl] assms show ?thesis
    by auto
qed

end

interpretation vocab_tokenize: sized_call llama_vocab_tokenize "\<lambda>res. res"
  by unfold_locales (auto simp: llama_vocab_tokenize_def)

subsection \<open>Lemmas\<close>

lemma read_tokens_loop_ok:
  "read_tokens_loop hs toks = TokOk ts \<longleftrightarrow>
     (\<exists>us. ts = toks @ us \<and> hs = map EInt us \<and> (\<forall>u \<in> set us. 0 \<le> u \<and> u \<le> INT32_MAX))"
proof (induction hs arbitrary: toks)
  case (Cons h hs)
  show ?case
    by (cases h) (force simp: enif_get_int_def Cons.IH Cons_eq_map_conv)+
qed auto

lemma read_token_list_range:
  "read_token_list alloc list = TokOk ts \<Longrightarrow> t \<in> set ts \<Longrightarrow> 0 \<le> t \<and> t \<le> INT32_MAX"
  by (auto simp: read_token_list_def read_tokens_loop_ok split: option.splits if_splits)

lemma first_oob_from_bounds:
  "first_oob_from i ts n = -1 \<or> (i \<le> first_oob_from i ts n \<and> first_oob_from i ts n < i + int (length ts))"
  by (induction ts arbitrary: i) (auto, force+)

lemma first_oob_from_neg: "0 \<le> i \<Longrightarrow> first_oob_from i ts n < 0 \<longleftrightarrow> (\<forall>t \<in> set ts. t < n)"
  by (induction ts arbitrary: i) auto

lemma first_oob_none:
  "\<not> erllama_first_oob_token ts n \<ge> 0 \<longleftrightarrow> (\<forall>t \<in> set ts. t < n)"
  by (simp add: erllama_first_oob_token_def not_le first_oob_from_neg)

lemma tok_finish_simps:
  "tok_finish (INT32_MIN, b) = ERLLAMA_TOK_EXCEPTION"
  "0 \<le> n \<Longrightarrow> tok_finish (n, b) =
     (if n > ERLLAMA_MAX_TOKENS then ERLLAMA_TOK_TOO_LARGE else ERLLAMA_TOK_OK (take (nat n) b))"
  by (auto simp: tok_finish_def)

subsection \<open>Properties\<close>

text \<open>
  Token-list parsing accepts exactly the proper lists of at most
  \<open>ERLLAMA_MAX_TOKENS\<close> integers in the non-negative \<open>int32\<close> range, and returns them in
  order; a non-empty list also needs its allocation to succeed.
\<close>

theorem read_token_list_iff:
  "read_token_list alloc list = TokOk ts \<longleftrightarrow>
     proper_list list \<and> list_cells list = map EInt ts \<and> int (length ts) \<le> ERLLAMA_MAX_TOKENS
     \<and> (ts = [] \<or> alloc) \<and> (\<forall>t \<in> set ts. 0 \<le> t \<and> t \<le> INT32_MAX)"
proof (cases "proper_list list")
  case True
  then show ?thesis
    by (auto simp: read_token_list_def enif_get_list_length_def read_tokens_loop_ok)
next
  case False
  then show ?thesis by (simp add: read_token_list_def enif_get_list_length_def)
qed

theorem read_token_list_iff_witness:
  "read_token_list True (mk_list [EInt 1, EInt 15]) = TokOk [1, 15]
     \<and> read_token_list True (mk_list [EInt 1, EInt (-15)]) \<noteq> TokOk [1, -15]"
  by (simp add: read_token_list_iff ERLLAMA_MAX_TOKENS_def)

text \<open>
  The grow-retry protocol loses no token: whatever the first guess for the buffer was,
  the call returns the whole token list of the text, or reports exactly why not (list over
  the cap, or one of its two allocations failed).
\<close>

theorem tokenize_grow_complete:
  assumes "int (length res) < INT32_MAX" and "0 \<le> len"
  shows "erllama_tokenize_grow (llama_vocab_tokenize res) alloc1 alloc2 len =
     (if \<not> alloc1 then ERLLAMA_TOK_OOM
      else if int (length res) > ERLLAMA_MAX_TOKENS then ERLLAMA_TOK_TOO_LARGE
      else if int (length res) > max 16 (len + 8) \<and> \<not> alloc2 then ERLLAMA_TOK_OOM
      else ERLLAMA_TOK_OK res)"
proof -
  let ?n = "if len + 8 < 16 then 16 else len + 8 :: int"
  have n0: "0 \<le> ?n" and nm: "?n = max 16 (len + 8)" using assms(2) by auto
  from vocab_tokenize.retry_gets_all [OF assms(1) n0, of "(INT32_MIN, [])"]
  show ?thesis
    by (auto simp: erllama_tokenize_grow_def erllama_safe_tokenize_def Let_def tok_finish_simps nm
        split: if_splits)
qed

theorem tokenize_grow_complete_witness:
  "erllama_tokenize_grow (llama_vocab_tokenize (replicate 40 7)) True True 3 =
     ERLLAMA_TOK_OK (replicate 40 7)"
  by (subst tokenize_grow_complete) (simp_all add: ERLLAMA_MAX_TOKENS_def)

text \<open>
  \<open>erllama_parse_cparams\<close> never lets a context ask for more than
  \<open>ERLLAMA_N_SEQ_MAX_CAP\<close> sequences: starting from parameters within the cap, the result is
  within the cap, so every sequence id of the context indexes \<open>per_seq\<close>.
\<close>

theorem parse_cparams_seq_cap:
  assumes "cp_n_seq_max p \<le> ERLLAMA_N_SEQ_MAX_CAP" and "erllama_parse_cparams m p = Some q"
  shows "cp_n_seq_max q \<le> ERLLAMA_N_SEQ_MAX_CAP"
proof -
  have rest: "cp_n_seq_max (parse_rest m r) = cp_n_seq_max r" for r
    by (simp add: parse_rest_def put_opt_def Let_def split: option.split)
  from assms(2) obtain r where r: "parse_numbers m p = Some r"
    by (auto simp: erllama_parse_cparams_def split: option.splits)
  have "cp_n_seq_max q = cp_n_seq_max (parse_rest m r)"
    using assms(2) r
    by (auto simp: erllama_parse_cparams_def put_enum_def split: option.splits enum_result.splits)
  moreover have "cp_n_seq_max r \<le> ERLLAMA_N_SEQ_MAX_CAP"
    using r assms(1)
    by (auto simp: parse_numbers_def put_opt_def Let_def split: option.splits if_splits)
  ultimately show ?thesis by (simp add: rest)
qed

theorem parse_cparams_seq_cap_witness:
  "\<exists>q. erllama_parse_cparams (EMap [(EAtom ''n_seq_max'', EInt 256)])
          \<lparr>cp_n_ctx = 512, cp_n_batch = 2048, cp_n_ubatch = 512, cp_n_seq_max = 1, cp_n_rs_seq = 0,
           cp_n_threads = 4, cp_n_threads_batch = 4, cp_embeddings = False, cp_offload_kqv = True,
           cp_kv_unified = False, cp_flash_attn_type = -1, cp_type_k = 1, cp_type_v = 1\<rparr> = Some q
       \<and> cp_n_seq_max q \<le> ERLLAMA_N_SEQ_MAX_CAP"
  (is "\<exists>q. ?parse = Some q \<and> _")
proof -
  have "?parse \<noteq> None"
    by (simp add: erllama_parse_cparams_def parse_numbers_def parse_rest_def put_opt_def
        put_enum_def get_map_uint_def get_map_int31_def get_map_bool_def get_map_atom_enum_def
        enif_get_uint_def ERLLAMA_N_SEQ_MAX_CAP_def)
  then obtain q where q: "?parse = Some q" by blast
  have "cp_n_seq_max q \<le> ERLLAMA_N_SEQ_MAX_CAP"
    by (rule parse_cparams_seq_cap [OF _ q]) (simp add: ERLLAMA_N_SEQ_MAX_CAP_def)
  with q show ?thesis by blast
qed

end
