(* ===== verification/Lifecycle.thy ===== *)
theory Lifecycle
  imports Nif_Util
begin

text \<open>
  Life cycle of the native objects behind the NIF resources: \<open>erllama_nif.c\<close> (reference
  counts and destructors), \<open>nif_free_model\<close>, \<open>nif_new_context\<close> / \<open>nif_free_context\<close>,
  \<open>nif_adapter_load\<close> / \<open>nif_adapter_free\<close> and \<open>nif_mtmd_init\<close> / \<open>nif_mtmd_free\<close>.

  Every body runs under the mutex of the resource it changes, so it is one step. Contexts,
  adapters and multimodal projectors all borrow a model through \<open>model_res\<close> and keep it
  alive with \<open>enif_keep_resource\<close>; the record \<open>borrower\<close> has the fields the three structs
  share. \<open>m_term\<close> says that the VM still holds a term of the model; the
  destructor runs when the last reference goes. A borrower's destructor may run at any
  moment (its term is collected). \<open>freed\<close> logs the calls of
  \<open>llama_model_free\<close>, in order.

  Shown: the counters count the borrowers; the native model outlives every native context
  and adapter; it is freed at most once; a deferred release is never forgotten and admits
  no new borrower. The multimodal projector is not protected: \<open>nif_free_model\<close> does not
  look at \<open>active_mtmd\<close>.
\<close>

record model_res =
  m_model :: "nat option"
  active_contexts :: int
  active_adapters :: int
  active_mtmd :: int
  release_pending :: bool
  m_keeps :: int
  m_term :: bool

record borrower =
  b_rt :: rtype
  b_native :: bool
  b_model_res :: "nat option"

record life =
  models :: "nat \<rightharpoonup> model_res"
  borrowers :: "nat \<rightharpoonup> borrower"
  freed :: "nat list"

definition life_init :: life where
  "life_init = \<lparr>models = Map.empty, borrowers = Map.empty, freed = []\<rparr>"

subsection \<open>Dropping a model reference\<close>

definition model_unreferenced :: "model_res \<Rightarrow> bool" where
  "model_unreferenced m \<longleftrightarrow>
     active_contexts m = 0 \<and> active_adapters m = 0 \<and> active_mtmd m = 0"

text \<open>The second half of the three \<open>*_drops_*\<close> functions; the list is what was freed.\<close>

definition free_if_pending :: "model_res \<Rightarrow> model_res \<times> nat list" where
  "free_if_pending m =
     (case m_model m of
        Some p \<Rightarrow> if release_pending m \<and> model_unreferenced m
                   then (m\<lparr>m_model := None, release_pending := False\<rparr>, [p])
                   else (m, [])
      | None \<Rightarrow> (m, []))"

definition context_drops_model :: "model_res \<Rightarrow> model_res \<times> nat list" where
  "context_drops_model m =
     free_if_pending (if active_contexts m > 0
                      then m\<lparr>active_contexts := active_contexts m - 1\<rparr> else m)"

definition model_drops_adapter :: "model_res \<Rightarrow> model_res \<times> nat list" where
  "model_drops_adapter m =
     free_if_pending (if active_adapters m > 0
                      then m\<lparr>active_adapters := active_adapters m - 1\<rparr> else m)"

definition model_drops_mtmd :: "model_res \<Rightarrow> model_res \<times> nat list" where
  "model_drops_mtmd m =
     free_if_pending (if active_mtmd m > 0
                      then m\<lparr>active_mtmd := active_mtmd m - 1\<rparr> else m)"

definition drops :: "rtype \<Rightarrow> model_res \<Rightarrow> model_res \<times> nat list" where
  "drops rt = (case rt of CTX_RT \<Rightarrow> context_drops_model | ADAPTER_RT \<Rightarrow> model_drops_adapter
               | _ \<Rightarrow> model_drops_mtmd)"

text \<open>
  \<open>enif_release_resource\<close> on the model: the destructor \<open>model_dtor\<close> runs when the last
  reference goes, and frees the native model if it is still there.
\<close>

definition model_dtor :: "nat \<Rightarrow> model_res \<Rightarrow> life \<Rightarrow> life" where
  "model_dtor i m w =
     w\<lparr>models := (models w)(i := None),
       freed := freed w @ (case m_model m of Some p \<Rightarrow> [p] | None \<Rightarrow> [])\<rparr>"

definition release_model :: "nat \<Rightarrow> model_res \<Rightarrow> life \<Rightarrow> life" where
  "release_model i m w =
     (let m' = m\<lparr>m_keeps := m_keeps m - 1\<rparr> in
      if m_keeps m' \<le> 0 \<and> \<not> m_term m' then model_dtor i m' w
      else w\<lparr>models := (models w)(i := Some m')\<rparr>)"

text \<open>
  \<open>X_drops_model(m); enif_release_resource(m);\<close> for the model a borrower of type \<open>rt\<close> kept.
\<close>

definition drop_and_release :: "rtype \<Rightarrow> nat \<Rightarrow> life \<Rightarrow> life" where
  "drop_and_release rt i w =
     (case models w i of None \<Rightarrow> w
      | Some m \<Rightarrow> (case drops rt m of (m', fs) \<Rightarrow>
                     release_model i m' (w\<lparr>freed := freed w @ fs\<rparr>)))"

subsection \<open>Entry points\<close>

text \<open>The end of \<open>nif_load_model\<close>: the loaded native model \<open>p\<close> becomes resource \<open>i\<close>.\<close>

definition load_model_res :: "nat \<Rightarrow> nat \<Rightarrow> life \<Rightarrow> life" where
  "load_model_res i p w =
     w\<lparr>models := (models w)(i \<mapsto>
        \<lparr>m_model = Some p, active_contexts = 0, active_adapters = 0, active_mtmd = 0,
         release_pending = False, m_keeps = 0, m_term = True\<rparr>)\<rparr>"

text \<open>\<open>rc\<close> is what \<open>erllama_safe_model_free\<close> returns.\<close>

definition free_model_body :: "int \<Rightarrow> nat \<Rightarrow> life \<Rightarrow> life \<times> nif_ret" where
  "free_model_body rc i w =
     (case models w i of None \<Rightarrow> (w, Badarg)
      | Some m \<Rightarrow>
        (case m_model m of None \<Rightarrow> (w, err ''released'')
         | Some to_free \<Rightarrow>
             if active_contexts m > 0 \<or> active_adapters m > 0 then
               (w\<lparr>models := (models w)(i \<mapsto> m\<lparr>release_pending := True\<rparr>)\<rparr>,
                Term (ETuple [atom_ok, EAtom ''deferred'']))
             else
               (w\<lparr>models := (models w)(i \<mapsto> m\<lparr>m_model := None, release_pending := False\<rparr>),
                  freed := freed w @ [to_free]\<rparr>,
                if rc \<noteq> 0 then err ''exception'' else Term atom_ok)))"

definition nif_free_model :: "int \<Rightarrow> eterm \<Rightarrow> life \<Rightarrow> life \<times> nif_ret" where
  "nif_free_model rc a0 w =
     (case enif_get_resource MODEL_RT a0 of None \<Rightarrow> (w, Badarg) | Some i \<Rightarrow> free_model_body rc i w)"

text \<open>
  What \<open>enif_alloc_resource\<close> and \<open>pthread_mutex_init\<close> return inside \<open>nif_new_context\<close>,
  \<open>nif_adapter_load\<close> and \<open>nif_mtmd_init\<close>. The native constructors are parameters of the
  three: \<open>init\<close> says whether \<open>llama_init_from_model\<close>, \<open>llama_adapter_lora_init\<close> or
  \<open>mtmd_init_from_file\<close> gives an object for these arguments.
\<close>

record attach_env =
  alloc_ok :: bool
  mutex_ok :: bool

definition new_borrower :: "rtype \<Rightarrow> nat \<Rightarrow> borrower" where
  "new_borrower rt i = \<lparr>b_rt = rt, b_native = True, b_model_res = Some i\<rparr>"

text \<open>The part of the three that runs under \<open>m->mu\<close>.\<close>

definition attach ::
  "rtype \<Rightarrow> string \<Rightarrow> (model_res \<Rightarrow> model_res) \<Rightarrow> bool \<Rightarrow> attach_env \<Rightarrow> nat \<Rightarrow> nat \<Rightarrow> life \<Rightarrow> life \<times> nif_ret" where
  "attach rt failed count native_ok e i r w =
     (case models w i of None \<Rightarrow> (w, Badarg)
      | Some m \<Rightarrow>
          if m_model m = None \<or> release_pending m then (w, err ''released'')
          else if \<not> native_ok then (w, err failed)
          else if \<not> alloc_ok e then (w, err ''oom'')
          else if \<not> mutex_ok e then (w, err ''oom'')
          else (w\<lparr>models := (models w)(i \<mapsto> (count m)\<lparr>m_keeps := m_keeps m + 1\<rparr>),
                  borrowers := (borrowers w)(r \<mapsto> new_borrower rt i)\<rparr>,
                Term (ETuple [atom_ok, ERes rt r])))"

definition nif_new_context ::
  "cparams \<Rightarrow> (cparams \<Rightarrow> bool) \<Rightarrow> attach_env \<Rightarrow> eterm \<Rightarrow> eterm \<Rightarrow> nat \<Rightarrow> life \<Rightarrow> life \<times> nif_ret" where
  "nif_new_context defaults init e a0 a1 r w =
     (case enif_get_resource MODEL_RT a0 of None \<Rightarrow> (w, Badarg)
      | Some i \<Rightarrow>
          if \<not> enif_is_map a1 then (w, Badarg)
          else (case erllama_parse_cparams a1 defaults of None \<Rightarrow> (w, Badarg)
                | Some params \<Rightarrow>
                    attach CTX_RT ''context_failed''
                      (\<lambda>m. m\<lparr>active_contexts := active_contexts m + 1\<rparr>) (init params) e i r w))"

definition nif_adapter_load ::
  "(byte list \<Rightarrow> bool) \<Rightarrow> attach_env \<Rightarrow> eterm \<Rightarrow> eterm \<Rightarrow> nat \<Rightarrow> life \<Rightarrow> life \<times> nif_ret" where
  "nif_adapter_load init e a0 a1 r w =
     (case enif_get_resource MODEL_RT a0 of None \<Rightarrow> (w, Badarg)
      | Some i \<Rightarrow>
          (case copy_path a1 4097 of None \<Rightarrow> (w, Badarg)
           | Some path \<Rightarrow>
               attach ADAPTER_RT ''load_failed''
                 (\<lambda>m. m\<lparr>active_adapters := active_adapters m + 1\<rparr>) (init path) e i r w))"

record mtmd_params =
  use_gpu :: bool
  mp_n_threads :: int
  image_min_tokens :: int
  image_max_tokens :: int

definition mtmd_parse :: "eterm \<Rightarrow> mtmd_params \<Rightarrow> mtmd_params" where
  "mtmd_parse m p =
     (let p1 = put_opt (get_map_bool m ''use_gpu'') (\<lambda>b p. p\<lparr>use_gpu := b\<rparr>) p;
          p2 = put_opt (get_map_int31 m ''n_threads'') (\<lambda>u p. p\<lparr>mp_n_threads := u\<rparr>) p1;
          p3 = put_opt (get_map_int31 m ''image_min_tokens'') (\<lambda>u p. p\<lparr>image_min_tokens := u\<rparr>) p2
      in put_opt (get_map_int31 m ''image_max_tokens'') (\<lambda>u p. p\<lparr>image_max_tokens := u\<rparr>) p3)"

definition nif_mtmd_init ::
  "mtmd_params \<Rightarrow> (byte list \<Rightarrow> mtmd_params \<Rightarrow> bool) \<Rightarrow> attach_env \<Rightarrow> eterm \<Rightarrow> eterm \<Rightarrow> eterm \<Rightarrow> nat
     \<Rightarrow> life \<Rightarrow> life \<times> nif_ret" where
  "nif_mtmd_init defaults init e a0 a1 a2 r w =
     (case enif_get_resource MODEL_RT a0 of None \<Rightarrow> (w, Badarg)
      | Some i \<Rightarrow>
          (case copy_path a1 4097 of None \<Rightarrow> (w, Badarg)
           | Some path \<Rightarrow>
               if \<not> enif_is_map a2 then (w, Badarg)
               else attach MTMD_RT ''mmproj_load_failed''
                      (\<lambda>m. m\<lparr>active_mtmd := active_mtmd m + 1\<rparr>)
                      (init path (mtmd_parse a2 defaults)) e i r w))"

text \<open>\<open>nif_free_context\<close> gives the model back at once; \<open>rc\<close> is \<open>erllama_safe_free\<close>'s.\<close>

definition free_context_body :: "int \<Rightarrow> nat \<Rightarrow> life \<Rightarrow> life \<times> nif_ret" where
  "free_context_body rc r w =
     (case borrowers w r of None \<Rightarrow> (w, Badarg)
      | Some b \<Rightarrow>
          if b_rt b \<noteq> CTX_RT then (w, Badarg)
          else if \<not> b_native b then (w, err ''released'')
          else
            let w1 = w\<lparr>borrowers := (borrowers w)(r \<mapsto> b\<lparr>b_native := False, b_model_res := None\<rparr>)\<rparr>;
                w2 = (case b_model_res b of None \<Rightarrow> w1 | Some i \<Rightarrow> drop_and_release CTX_RT i w1)
            in (w2, if rc \<noteq> 0 then err ''exception'' else Term atom_ok))"

definition nif_free_context :: "int \<Rightarrow> eterm \<Rightarrow> life \<Rightarrow> life \<times> nif_ret" where
  "nif_free_context rc a0 w =
     (case enif_get_resource CTX_RT a0 of None \<Rightarrow> (w, Badarg) | Some r \<Rightarrow> free_context_body rc r w)"

text \<open>
  \<open>nif_adapter_free\<close> and \<open>nif_mtmd_free\<close> free the native object only; the model
  reference is dropped by the destructor.
\<close>

definition free_native :: "rtype \<Rightarrow> nat \<Rightarrow> life \<Rightarrow> life \<times> nif_ret" where
  "free_native rt r w =
     (case borrowers w r of None \<Rightarrow> (w, Badarg)
      | Some b \<Rightarrow>
          if b_rt b \<noteq> rt then (w, Badarg)
          else if \<not> b_native b then (w, err ''released'')
          else (w\<lparr>borrowers := (borrowers w)(r \<mapsto> b\<lparr>b_native := False\<rparr>)\<rparr>, Term atom_ok))"

definition nif_adapter_free :: "eterm \<Rightarrow> life \<Rightarrow> life \<times> nif_ret" where
  "nif_adapter_free a0 w =
     (case enif_get_resource ADAPTER_RT a0 of None \<Rightarrow> (w, Badarg)
      | Some r \<Rightarrow> free_native ADAPTER_RT r w)"

definition nif_mtmd_free :: "eterm \<Rightarrow> life \<Rightarrow> life \<times> nif_ret" where
  "nif_mtmd_free a0 w =
     (case enif_get_resource MTMD_RT a0 of None \<Rightarrow> (w, Badarg) | Some r \<Rightarrow> free_native MTMD_RT r w)"

text \<open>
  The destructors \<open>ctx_dtor\<close>, \<open>adapter_dtor\<close> and \<open>mtmd_dtor\<close>: the native object goes,
  then the model reference is dropped and released.
\<close>

definition borrower_dtor :: "nat \<Rightarrow> life \<Rightarrow> life" where
  "borrower_dtor r w =
     (case borrowers w r of None \<Rightarrow> w
      | Some b \<Rightarrow>
          let w1 = w\<lparr>borrowers := (borrowers w)(r := None)\<rparr>
          in case b_model_res b of None \<Rightarrow> w1 | Some i \<Rightarrow> drop_and_release (b_rt b) i w1)"

text \<open>The VM drops its last term of a model; borrowers may still keep the resource.\<close>

definition gc_model :: "nat \<Rightarrow> life \<Rightarrow> life" where
  "gc_model i w =
     (case models w i of None \<Rightarrow> w
      | Some m \<Rightarrow> if m_keeps m \<le> 0 then model_dtor i (m\<lparr>m_term := False\<rparr>) w
                  else w\<lparr>models := (models w)(i \<mapsto> m\<lparr>m_term := False\<rparr>)\<rparr>)"

subsection \<open>Runs\<close>

text \<open>
  Any order of calls and collections. A new resource id and a new native pointer are
  fresh; a term that the VM has collected is not passed to a NIF again.
\<close>

inductive life_step :: "life \<Rightarrow> life \<Rightarrow> bool" where
  step_load: "models w i = None \<Longrightarrow> p \<notin> set (freed w) \<Longrightarrow>
     \<forall>j m. models w j = Some m \<longrightarrow> m_model m \<noteq> Some p \<Longrightarrow>
     life_step w (load_model_res i p w)"
| step_free_model: "models w i = Some m \<Longrightarrow> m_term m \<Longrightarrow> life_step w (fst (nif_free_model rc (ERes MODEL_RT i) w))"
| step_new_context: "models w i = Some m \<Longrightarrow> m_term m \<Longrightarrow> borrowers w r = None \<Longrightarrow>
     life_step w (fst (nif_new_context dc fc e (ERes MODEL_RT i) a1 r w))"
| step_adapter_load: "models w i = Some m \<Longrightarrow> m_term m \<Longrightarrow> borrowers w r = None \<Longrightarrow>
     life_step w (fst (nif_adapter_load fa e (ERes MODEL_RT i) a1 r w))"
| step_mtmd_init: "models w i = Some m \<Longrightarrow> m_term m \<Longrightarrow> borrowers w r = None \<Longrightarrow>
     life_step w (fst (nif_mtmd_init dm fm e (ERes MODEL_RT i) a1 a2 r w))"
| step_free_context: "life_step w (fst (nif_free_context rc a0 w))"
| step_adapter_free: "life_step w (fst (nif_adapter_free a0 w))"
| step_mtmd_free: "life_step w (fst (nif_mtmd_free a0 w))"
| step_dtor: "life_step w (borrower_dtor r w)"
| step_gc_model: "life_step w (gc_model i w)"

inductive life_reachable :: "life \<Rightarrow> bool" where
  life_start: "life_reachable life_init"
| life_next: "life_reachable w \<Longrightarrow> life_step w w' \<Longrightarrow> life_reachable w'"

subsection \<open>The invariant\<close>

definition refs :: "rtype \<Rightarrow> nat \<Rightarrow> (nat \<rightharpoonup> borrower) \<Rightarrow> nat set" where
  "refs rt i B = {r. \<exists>b. B r = Some b \<and> b_rt b = rt \<and> b_model_res b = Some i}"

definition model_ok :: "(nat \<rightharpoonup> borrower) \<Rightarrow> nat \<Rightarrow> model_res \<Rightarrow> bool" where
  "model_ok B i m \<longleftrightarrow>
     active_contexts m = int (card (refs CTX_RT i B)) \<and>
     active_adapters m = int (card (refs ADAPTER_RT i B)) \<and>
     active_mtmd m = int (card (refs MTMD_RT i B)) \<and>
     m_keeps m = active_contexts m + active_adapters m + active_mtmd m \<and>
     (active_contexts m + active_adapters m > 0 \<longrightarrow> m_model m \<noteq> None) \<and>
     (release_pending m \<longrightarrow> m_model m \<noteq> None \<and> \<not> model_unreferenced m)"

definition borrower_ok :: "(nat \<rightharpoonup> model_res) \<Rightarrow> borrower \<Rightarrow> bool" where
  "borrower_ok M b \<longleftrightarrow>
     b_rt b \<in> {CTX_RT, ADAPTER_RT, MTMD_RT} \<and>
     (b_native b \<longrightarrow> b_model_res b \<noteq> None) \<and>
     (\<forall>i. b_model_res b = Some i \<longrightarrow> M i \<noteq> None)"

text \<open>The native model behind each resource; the freed log holds none of them.\<close>

definition native_of :: "(nat \<rightharpoonup> model_res) \<Rightarrow> nat \<rightharpoonup> nat" where
  "native_of M i = (case M i of None \<Rightarrow> None | Some m \<Rightarrow> m_model m)"

definition pointers_ok :: "(nat \<rightharpoonup> model_res) \<Rightarrow> nat list \<Rightarrow> bool" where
  "pointers_ok M fs \<longleftrightarrow>
     distinct fs \<and> inj_on (native_of M) (dom (native_of M)) \<and> ran (native_of M) \<inter> set fs = {}"

definition life_inv :: "life \<Rightarrow> bool" where
  "life_inv w \<longleftrightarrow>
     finite (dom (borrowers w)) \<and>
     (\<forall>i m. models w i = Some m \<longrightarrow> model_ok (borrowers w) i m) \<and>
     (\<forall>r b. borrowers w r = Some b \<longrightarrow> borrower_ok (models w) b) \<and>
     pointers_ok (models w) (freed w)"

lemma native_of_simps [simp]:
  "native_of Map.empty = Map.empty"
  "native_of (M(i := None)) = (native_of M)(i := None)"
  "native_of (M(i \<mapsto> m)) = (native_of M)(i := m_model m)"
  by (auto simp: native_of_def)

lemma native_of_Some: "M i = Some m \<Longrightarrow> native_of M i = m_model m"
  by (simp add: native_of_def)

lemma native_of_None: "M i = None \<Longrightarrow> native_of M i = None"
  by (simp add: native_of_def)

text \<open>Losing a pointer keeps \<open>pointers_ok\<close>, also when it is logged as freed.\<close>

lemma inj_on_map_upd_None: "inj_on f (dom f) \<Longrightarrow> inj_on (f(i := None)) (dom (f(i := None)))"
  by (auto simp: inj_on_def split: if_splits)

lemma ran_map_upd_None:
  assumes "inj_on f (dom f)" and "f i = Some p"
  shows "ran (f(i := None)) = ran f - {p}"
proof -
  have "f a = Some p \<longleftrightarrow> a = i" for a
    using assms by (metis domI inj_onD)
  then have "(\<exists>a. (f(i := None)) a = Some x) \<longleftrightarrow> (\<exists>a. f a = Some x) \<and> x \<noteq> p" for x
    by (metis fun_upd_apply option.distinct(1) option.inject)
  then show ?thesis by (auto simp: ran_def)
qed

lemma ran_map_upd_None_subset: "ran (f(i := None)) \<subseteq> ran f"
  by (auto simp: ran_def split: if_splits)

lemma life_invI [intro?]:
  assumes "finite (dom (borrowers w))"
    and "\<And>i m. models w i = Some m \<Longrightarrow> model_ok (borrowers w) i m"
    and "\<And>r b. borrowers w r = Some b \<Longrightarrow> borrower_ok (models w) b"
    and "pointers_ok (models w) (freed w)"
  shows "life_inv w"
  using assms by (simp add: life_inv_def)

lemma life_invD:
  assumes "life_inv w"
  shows inv_fin: "finite (dom (borrowers w))"
    and inv_model: "\<And>i m. models w i = Some m \<Longrightarrow> model_ok (borrowers w) i m"
    and inv_borrower: "\<And>r b. borrowers w r = Some b \<Longrightarrow> borrower_ok (models w) b"
    and inv_pointers: "pointers_ok (models w) (freed w)"
  using assms by (simp_all add: life_inv_def)

lemma pointers_ok_keep:
  "pointers_ok M fs \<Longrightarrow> M i = Some m \<Longrightarrow> m_model m' = m_model m \<Longrightarrow> pointers_ok (M(i \<mapsto> m')) fs"
proof -
  assume h: "pointers_ok M fs" and m: "M i = Some m" "m_model m' = m_model m"
  from m have "native_of (M(i \<mapsto> m')) = native_of M"
    by (auto simp: native_of_def fun_eq_iff)
  with h show ?thesis by (simp add: pointers_ok_def)
qed

lemma pointers_ok_lose:
  assumes "pointers_ok M fs" and "native_of M i = x"
  shows "inj_on ((native_of M)(i := None)) (dom ((native_of M)(i := None)))"
    and "distinct (fs @ (case x of Some p \<Rightarrow> [p] | None \<Rightarrow> []))"
    and "ran ((native_of M)(i := None)) \<inter> set (fs @ (case x of Some p \<Rightarrow> [p] | None \<Rightarrow> [])) = {}"
proof -
  from assms(1) have d: "distinct fs" and inj: "inj_on (native_of M) (dom (native_of M))"
    and disj: "ran (native_of M) \<inter> set fs = {}" by (simp_all add: pointers_ok_def)
  show "inj_on ((native_of M)(i := None)) (dom ((native_of M)(i := None)))"
    using inj by (rule inj_on_map_upd_None)
  show "distinct (fs @ (case x of Some p \<Rightarrow> [p] | None \<Rightarrow> []))"
    using d disj assms(2) ranI [of "native_of M" i] by (cases x) auto
  show "ran ((native_of M)(i := None)) \<inter> set (fs @ (case x of Some p \<Rightarrow> [p] | None \<Rightarrow> [])) = {}"
  proof (cases x)
    case None
    then show ?thesis using disj ran_map_upd_None_subset [of "native_of M" i] by auto
  next
    case (Some p)
    then show ?thesis using disj ran_map_upd_None [OF inj, of i p] assms(2) by auto
  qed
qed

lemma pointers_ok_remove:
  assumes "pointers_ok M fs" and "M i = Some m"
  shows "pointers_ok (M(i := None)) (fs @ (case m_model m of Some p \<Rightarrow> [p] | None \<Rightarrow> []))"
  using pointers_ok_lose [OF assms(1) native_of_Some [of M, OF assms(2)]]
  by (simp add: pointers_ok_def)

lemma pointers_ok_free:
  assumes "pointers_ok M fs" and "M i = Some m" and "m_model m = Some p" and "m_model m' = None"
  shows "pointers_ok (M(i \<mapsto> m')) (fs @ [p])"
  using pointers_ok_lose [OF assms(1) native_of_Some [of M, OF assms(2)]] assms(3,4)
  by (simp add: pointers_ok_def)

subsection \<open>Counting borrowers\<close>

lemma finite_refs: "finite (dom B) \<Longrightarrow> finite (refs rt i B)"
  by (rule finite_subset [of _ "dom B"]) (auto simp: refs_def)

lemma refs_add:
  "B r = None \<Longrightarrow> refs rt i (B(r \<mapsto> b)) =
     (if b_rt b = rt \<and> b_model_res b = Some i then insert r (refs rt i B) else refs rt i B)"
  by (auto simp: refs_def)

lemma refs_drop:
  "B r = Some b \<Longrightarrow> (\<And>b'. x = Some b' \<Longrightarrow> b_model_res b' = None) \<Longrightarrow>
     refs rt i (B(r := x)) =
       (if b_rt b = rt \<and> b_model_res b = Some i then refs rt i B - {r} else refs rt i B)"
  by (cases x) (auto simp: refs_def)

lemma refs_native: "B r = Some b \<Longrightarrow> refs rt i (B(r \<mapsto> b\<lparr>b_native := v\<rparr>)) = refs rt i B"
  by (auto simp: refs_def)

lemma card_refs_add:
  "finite (dom B) \<Longrightarrow> B r = None \<Longrightarrow>
     int (card (refs rt i (B(r \<mapsto> b)))) =
       int (card (refs rt i B)) + (if b_rt b = rt \<and> b_model_res b = Some i then 1 else 0)"
  using finite_refs [of B rt i] by (auto simp: refs_add card_insert_if) (auto simp: refs_def)

lemma card_refs_drop:
  assumes "finite (dom B)" and "B r = Some b" and x: "\<And>b'. x = Some b' \<Longrightarrow> b_model_res b' = None"
  shows "int (card (refs rt i (B(r := x)))) =
           int (card (refs rt i B)) - (if b_rt b = rt \<and> b_model_res b = Some i then 1 else 0)"
proof (cases "b_rt b = rt \<and> b_model_res b = Some i")
  case True
  then have r: "r \<in> refs rt i B" using assms(2) by (auto simp: refs_def)
  then have "card (refs rt i B) > 0"
    using finite_refs [OF assms(1)] by (auto simp: card_gt_0_iff)
  then show ?thesis
    using True r finite_refs [OF assms(1), of rt i] refs_drop [of B r b x, OF assms(2) x]
    by (simp add: of_nat_diff)
next
  case False
  then show ?thesis using refs_drop [of B r b x, OF assms(2) x] by auto
qed

lemma refs_pos:
  "finite (dom B) \<Longrightarrow> B r = Some b \<Longrightarrow> b_model_res b = Some i \<Longrightarrow> int (card (refs (b_rt b) i B)) > 0"
  using finite_refs [of B "b_rt b" i] by (auto simp: card_gt_0_iff refs_def)

subsection \<open>Every step keeps it\<close>

lemma model_ok_cong:
  "(\<And>rt. refs rt i B' = refs rt i B) \<Longrightarrow> model_ok B' i m = model_ok B i m"
  by (simp add: model_ok_def)

lemma model_ok_term: "model_ok B i (m\<lparr>m_term := t\<rparr>) = model_ok B i m"
  by (simp add: model_ok_def model_unreferenced_def)

lemma borrower_ok_dom: "borrower_ok M b \<Longrightarrow> dom M \<subseteq> dom M' \<Longrightarrow> borrower_ok M' b"
  by (auto simp: borrower_ok_def)

lemma life_inv_init: "life_inv life_init"
  by (simp add: life_inv_def life_init_def pointers_ok_def)

lemma refs_fresh_model:
  "life_inv w \<Longrightarrow> models w i = None \<Longrightarrow> refs rt i (borrowers w) = {}"
  using inv_borrower [of w] by (fastforce simp: borrower_ok_def refs_def)

lemma load_inv:
  assumes "life_inv w" "models w i = None" "p \<notin> set (freed w)"
    and "\<forall>j m. models w j = Some m \<longrightarrow> m_model m \<noteq> Some p"
  shows "life_inv (load_model_res i p w)"
proof
  show "finite (dom (borrowers (load_model_res i p w)))"
    using inv_fin [OF assms(1)] by (simp add: load_model_res_def)
  show "model_ok (borrowers (load_model_res i p w)) j m"
    if "models (load_model_res i p w) j = Some m" for j m
    using that inv_model [OF assms(1), of j m] refs_fresh_model [OF assms(1,2)]
    by (auto simp: load_model_res_def model_ok_def split: if_splits)
  show "borrower_ok (models (load_model_res i p w)) b"
    if "borrowers (load_model_res i p w) r = Some b" for r b
    using that inv_borrower [OF assms(1), of r b]
    by (auto simp: load_model_res_def borrower_ok_def)
  show "pointers_ok (models (load_model_res i p w)) (freed (load_model_res i p w))"
  proof -
    have "p \<notin> ran (native_of (models w))"
      using assms(4) by (auto simp: ran_def native_of_def split: option.splits)
    then show ?thesis
      using inv_pointers [OF assms(1)] assms(3) native_of_None [of "models w" i, OF assms(2)]
      by (auto simp: load_model_res_def pointers_ok_def inj_on_def ran_def)
  qed
qed

lemma attach_inv:
  assumes inv: "life_inv w" and r: "borrowers w r = None"
    and rt: "rt \<in> {CTX_RT, ADAPTER_RT, MTMD_RT}"
    and count: "\<And>m. active_contexts (count m) = active_contexts m + (if rt = CTX_RT then 1 else 0)"
      "\<And>m. active_adapters (count m) = active_adapters m + (if rt = ADAPTER_RT then 1 else 0)"
      "\<And>m. active_mtmd (count m) = active_mtmd m + (if rt = MTMD_RT then 1 else 0)"
      "\<And>m. m_model (count m) = m_model m" "\<And>m. release_pending (count m) = release_pending m"
  shows "life_inv (fst (attach rt failed count nat_ok e i r w))"
proof (cases "\<exists>m. models w i = Some m \<and> m_model m \<noteq> None \<and> \<not> release_pending m \<and> nat_ok
                 \<and> alloc_ok e \<and> mutex_ok e")
  case False
  then show ?thesis using inv by (auto simp: attach_def split: option.splits)
next
  case True
  then obtain m where m: "models w i = Some m" "m_model m \<noteq> None" "\<not> release_pending m"
    and ok: nat_ok "alloc_ok e" "mutex_ok e" by blast
  let ?B = "(borrowers w)(r \<mapsto> new_borrower rt i)"
  let ?m = "(count m)\<lparr>m_keeps := m_keeps m + 1\<rparr>"
  have fin: "finite (dom (borrowers w))" using inv by (simp add: life_inv_def)
  have old: "model_ok (borrowers w) j n" if "models w j = Some n" for j n
    using inv that by (simp add: life_inv_def)
  have card: "int (card (refs t j ?B)) =
      int (card (refs t j (borrowers w))) + (if rt = t \<and> i = j then 1 else 0)" for t j
    using card_refs_add [OF fin r, of t j "new_borrower rt i"] by (simp add: new_borrower_def)
  have "model_ok ?B i ?m"
    using old [OF m(1)] m rt by (auto simp: model_ok_def card count)
  moreover have "model_ok ?B j n" if "models w j = Some n" "j \<noteq> i" for j n
    using old [OF that(1)] that(2) card [of _ j] by (simp add: model_ok_def)
  moreover have "pointers_ok ((models w)(i \<mapsto> ?m)) (freed w)"
    by (rule pointers_ok_keep [OF inv_pointers [OF inv] m(1)]) (simp add: count)
  moreover have "borrower_ok ((models w)(i \<mapsto> ?m)) b" if "?B q = Some b" for q b
    using that inv_borrower [OF inv, of q b] rt
    by (auto simp: borrower_ok_def new_borrower_def split: if_splits)
  moreover have "fst (attach rt failed count nat_ok e i r w) =
      w\<lparr>models := (models w)(i \<mapsto> ?m), borrowers := ?B\<rparr>"
    using m ok by (auto simp: attach_def)
  ultimately show ?thesis
    using fin by (auto intro!: life_invI split: if_splits)
qed

text \<open>One reference less in the counter that \<open>drops\<close> decrements.\<close>

definition dec_count :: "rtype \<Rightarrow> model_res \<Rightarrow> model_res" where
  "dec_count rt m =
     m\<lparr>active_contexts := active_contexts m - (if rt = CTX_RT then 1 else 0),
       active_adapters := active_adapters m - (if rt = ADAPTER_RT then 1 else 0),
       active_mtmd := active_mtmd m - (if rt = MTMD_RT then 1 else 0)\<rparr>"

lemma dec_count_simps [simp]:
  "active_contexts (dec_count rt m) = active_contexts m - (if rt = CTX_RT then 1 else 0)"
  "active_adapters (dec_count rt m) = active_adapters m - (if rt = ADAPTER_RT then 1 else 0)"
  "active_mtmd (dec_count rt m) = active_mtmd m - (if rt = MTMD_RT then 1 else 0)"
  "m_model (dec_count rt m) = m_model m" "release_pending (dec_count rt m) = release_pending m"
  "m_keeps (dec_count rt m) = m_keeps m" "m_term (dec_count rt m) = m_term m"
  by (simp_all add: dec_count_def)

lemma dec_count_eqs:
  "dec_count CTX_RT m = m\<lparr>active_contexts := active_contexts m - 1\<rparr>"
  "dec_count ADAPTER_RT m = m\<lparr>active_adapters := active_adapters m - 1\<rparr>"
  "dec_count MTMD_RT m = m\<lparr>active_mtmd := active_mtmd m - 1\<rparr>"
  by (cases m, simp add: dec_count_def)+

lemma drops_eq:
  assumes "model_ok B i m" and "finite (dom B)" and "B r = Some b" and "b_model_res b = Some i"
    and "b_rt b \<in> {CTX_RT, ADAPTER_RT, MTMD_RT}"
  shows "drops (b_rt b) m = free_if_pending (dec_count (b_rt b) m)"
  using assms(1,5) refs_pos [OF assms(2-4)]
  by (elim insertE emptyE)
     (simp_all add: drops_def context_drops_model_def model_drops_adapter_def
       model_drops_mtmd_def dec_count_eqs model_ok_def)

lemma free_if_pending_cases:
  assumes "free_if_pending m = (m', fs)"
  obtains (kept) "m' = m" "fs = []" "release_pending m \<longrightarrow> m_model m = None \<or> \<not> model_unreferenced m"
  | (gone) p where "m' = m\<lparr>m_model := None, release_pending := False\<rparr>" "fs = [p]"
      "m_model m = Some p" "release_pending m" "model_unreferenced m"
  using assms by (auto simp: free_if_pending_def split: option.splits if_splits)

lemma dropped_model_ok:
  assumes inv: "model_ok B i m" "finite (dom B)" and b: "B r = Some b" "b_model_res b = Some i"
    and rt: "b_rt b \<in> {CTX_RT, ADAPTER_RT, MTMD_RT}"
    and x: "\<And>b'. x = Some b' \<Longrightarrow> b_model_res b' = None"
    and d: "drops (b_rt b) m = (m', fs)"
  shows "model_ok (B(r := x)) i (m'\<lparr>m_keeps := m_keeps m' - 1\<rparr>)"
proof -
  have card: "int (card (refs t i (B(r := x)))) =
      int (card (refs t i B)) - (if b_rt b = t then 1 else 0)" for t
    using card_refs_drop [of B r b x t i, OF inv(2) b(1) x] b(2) by simp
  have pos: "int (card (refs (b_rt b) i B)) > 0"
    using refs_pos [OF inv(2) b] .
  have "free_if_pending (dec_count (b_rt b) m) = (m', fs)"
    using d drops_eq [OF inv b rt] by simp
  then show ?thesis
  proof (cases rule: free_if_pending_cases)
    case kept
    then show ?thesis
      using inv(1) rt pos
      by (auto simp: model_ok_def card model_unreferenced_def split: if_splits)
  next
    case gone
    then show ?thesis
      using inv(1) rt pos
      by (auto simp: model_ok_def card model_unreferenced_def split: if_splits)
  qed
qed

lemma dropped_pointers_ok:
  assumes "pointers_ok M fs0" and "M i = Some m" and "free_if_pending (dec_count rt m) = (m', fs)"
  shows "pointers_ok (M(i \<mapsto> m'\<lparr>m_keeps := k\<rparr>)) (fs0 @ fs)"
  using assms(3)
proof (cases rule: free_if_pending_cases)
  case kept
  with pointers_ok_keep [OF assms(1,2)] show ?thesis by simp
next
  case (gone p)
  with pointers_ok_free [OF assms(1,2)] show ?thesis by simp
qed

lemma no_refs_left:
  assumes "model_ok B i m" and "finite (dom B)" and "m_keeps m \<le> 0"
    and b: "B r = Some b" "b_rt b \<in> {CTX_RT, ADAPTER_RT, MTMD_RT}"
  shows "b_model_res b \<noteq> Some i"
proof
  assume "b_model_res b = Some i"
  then have "int (card (refs (b_rt b) i B)) > 0"
    using refs_pos [OF assms(2) b(1)] by simp
  moreover have "int (card (refs CTX_RT i B)) + int (card (refs ADAPTER_RT i B)) +
      int (card (refs MTMD_RT i B)) \<le> 0"
    using assms(1,3) by (simp add: model_ok_def)
  ultimately show False using b(2) by auto
qed

lemma drop_release_inv:
  assumes inv: "life_inv w" and b: "borrowers w r = Some b" "b_model_res b = Some i"
    and x: "\<And>b'. x = Some b' \<Longrightarrow> b_model_res b' = None \<and> borrower_ok Map.empty b'"
  shows "life_inv (drop_and_release (b_rt b) i (w\<lparr>borrowers := (borrowers w)(r := x)\<rparr>))"
proof -
  let ?B = "(borrowers w)(r := x)"
  have bok: "borrower_ok (models w) c" if "?B q = Some c" for q c
    using that inv_borrower [OF inv, of q c] x by (auto simp: borrower_ok_def split: if_splits)
  obtain m where m: "models w i = Some m"
    using inv_borrower [OF inv b(1)] b(2) by (auto simp: borrower_ok_def)
  have rt: "b_rt b \<in> {CTX_RT, ADAPTER_RT, MTMD_RT}"
    using inv_borrower [OF inv b(1)] by (simp add: borrower_ok_def)
  obtain m' fs where d: "drops (b_rt b) m = (m', fs)" by fastforce
  let ?m = "m'\<lparr>m_keeps := m_keeps m' - 1\<rparr>"
  have x': "\<And>b'. x = Some b' \<Longrightarrow> b_model_res b' = None" using x by blast
  have ok: "model_ok ?B i ?m"
    by (rule dropped_model_ok [OF inv_model [OF inv m] inv_fin [OF inv] b rt x' d])
  have other: "model_ok ?B j n" if "models w j = Some n" "j \<noteq> i" for j n
    using inv_model [OF inv that(1)] refs_drop [of "borrowers w" r b x, OF b(1) x'] b(2) that(2)
    by (auto simp: model_ok_def)
  have free: "free_if_pending (dec_count (b_rt b) m) = (m', fs)"
    using d drops_eq [OF inv_model [OF inv m] inv_fin [OF inv] b rt] by simp
  have ptr: "pointers_ok ((models w)(i \<mapsto> ?m)) (freed w @ fs)"
    by (rule dropped_pointers_ok [OF inv_pointers [OF inv] m free])
  have fin: "finite (dom ?B)" using inv_fin [OF inv] by (simp add: dom_fun_upd)
  show ?thesis
  proof (cases "m_keeps ?m \<le> 0 \<and> \<not> m_term ?m")
    case True
    have "b_model_res c \<noteq> Some i" if "?B q = Some c" for q c
      using no_refs_left [OF ok fin _ that] bok [OF that] True by (simp add: borrower_ok_def)
    then have "borrower_ok ((models w)(i := None)) c" if "?B q = Some c" for q c
      using bok [OF that] that by (auto simp: borrower_ok_def)
    then show ?thesis
      using True m d fin other pointers_ok_remove [OF ptr, of i ?m]
      by (auto intro!: life_invI simp: drop_and_release_def release_model_def model_dtor_def
          Let_def split: if_splits)
  next
    case False
    then have eq: "drop_and_release (b_rt b) i (w\<lparr>borrowers := ?B\<rparr>) =
        w\<lparr>borrowers := ?B, freed := freed w @ fs, models := (models w)(i \<mapsto> ?m)\<rparr>"
      using m d by (auto simp: drop_and_release_def release_model_def Let_def)
    show ?thesis
      unfolding eq using fin ok other ptr bok
      by (auto intro!: life_invI simp: borrower_ok_def split: if_splits)
  qed
qed

lemma model_update_inv:
  assumes "life_inv w" and "models w i = Some m" and "model_ok (borrowers w) i m'"
    and "pointers_ok ((models w)(i \<mapsto> m')) fs"
  shows "life_inv (w\<lparr>models := (models w)(i \<mapsto> m'), freed := fs\<rparr>)"
proof
  show "borrower_ok (models (w\<lparr>models := (models w)(i \<mapsto> m'), freed := fs\<rparr>)) b"
    if "borrowers (w\<lparr>models := (models w)(i \<mapsto> m'), freed := fs\<rparr>) r = Some b" for r b
    using that inv_borrower [OF assms(1), of r b] by (simp add: borrower_ok_def)
qed (use inv_fin [OF assms(1)] inv_model [OF assms(1)] assms in \<open>auto split: if_splits\<close>)

lemma model_update_inv':
  assumes "life_inv w" and "models w i = Some m" and "model_ok (borrowers w) i m'"
    and "m_model m' = m_model m"
  shows "life_inv (w\<lparr>models := (models w)(i \<mapsto> m')\<rparr>)"
  using model_update_inv [OF assms(1-3) pointers_ok_keep [OF inv_pointers [OF assms(1)] assms(2,4)]]
  by simp

lemma native_update_inv:
  assumes inv: "life_inv w" and b: "borrowers w r = Some b"
  shows "life_inv (w\<lparr>borrowers := (borrowers w)(r \<mapsto> b\<lparr>b_native := False\<rparr>)\<rparr>)"
proof
  let ?w = "w\<lparr>borrowers := (borrowers w)(r \<mapsto> b\<lparr>b_native := False\<rparr>)\<rparr>"
  show "finite (dom (borrowers ?w))" using inv_fin [OF inv] by simp
  show "model_ok (borrowers ?w) i m" if "models ?w i = Some m" for i m
    using inv_model [OF inv, of i m] that refs_native [of "borrowers w", OF b]
    by (simp add: model_ok_def)
  show "borrower_ok (models ?w) c" if "borrowers ?w q = Some c" for q c
    using inv_borrower [OF inv, of q c] inv_borrower [OF inv b] that
    by (auto simp: borrower_ok_def split: if_splits)
  show "pointers_ok (models ?w) (freed ?w)" using inv_pointers [OF inv] by simp
qed

lemma free_model_inv:
  assumes inv: "life_inv w"
  shows "life_inv (fst (free_model_body rc i w))"
proof (cases "\<exists>m p. models w i = Some m \<and> m_model m = Some p")
  case False
  then show ?thesis using inv by (auto simp: free_model_body_def split: option.splits)
next
  case True
  then obtain m p where m: "models w i = Some m" "m_model m = Some p" by blast
  show ?thesis
  proof (cases "active_contexts m > 0 \<or> active_adapters m > 0")
    case True
    then have "model_ok (borrowers w) i (m\<lparr>release_pending := True\<rparr>)"
      using inv_model [OF inv m(1)] m by (auto simp: model_ok_def model_unreferenced_def)
    then have "life_inv (w\<lparr>models := (models w)(i \<mapsto> m\<lparr>release_pending := True\<rparr>)\<rparr>)"
      by (rule model_update_inv' [OF inv m(1)]) simp
    with True m show ?thesis by (simp add: free_model_body_def)
  next
    case False
    let ?m = "m\<lparr>m_model := None, release_pending := False\<rparr>"
    have "model_ok (borrowers w) i ?m"
      using inv_model [OF inv m(1)] False by (auto simp: model_ok_def)
    moreover have "pointers_ok ((models w)(i \<mapsto> ?m)) (freed w @ [p])"
      by (rule pointers_ok_free [OF inv_pointers [OF inv] m]) simp
    ultimately have "life_inv (w\<lparr>models := (models w)(i \<mapsto> ?m), freed := freed w @ [p]\<rparr>)"
      by (rule model_update_inv [OF inv m(1)])
    with False m show ?thesis by (simp add: free_model_body_def)
  qed
qed

lemma free_context_inv:
  assumes inv: "life_inv w"
  shows "life_inv (fst (free_context_body rc r w))"
proof (cases "\<exists>b. borrowers w r = Some b \<and> b_rt b = CTX_RT \<and> b_native b")
  case False
  then show ?thesis using inv by (auto simp: free_context_body_def split: option.splits)
next
  case True
  then obtain b where b: "borrowers w r = Some b" "b_rt b = CTX_RT" "b_native b" by blast
  obtain i where i: "b_model_res b = Some i"
    using inv_borrower [OF inv b(1)] b(3) by (auto simp: borrower_ok_def)
  have "life_inv (drop_and_release (b_rt b) i
          (w\<lparr>borrowers := (borrowers w)(r \<mapsto> b\<lparr>b_native := False, b_model_res := None\<rparr>)\<rparr>))"
    by (rule drop_release_inv [OF inv b(1) i]) (use b(2) in \<open>auto simp: borrower_ok_def\<close>)
  then show ?thesis using b i by (simp add: free_context_body_def)
qed

lemma dtor_inv:
  assumes inv: "life_inv w"
  shows "life_inv (borrower_dtor r w)"
proof (cases "borrowers w r")
  case None
  then show ?thesis using inv by (simp add: borrower_dtor_def)
next
  case (Some b)
  show ?thesis
  proof (cases "b_model_res b")
    case None
    then have "refs t j ((borrowers w)(r := None)) = refs t j (borrowers w)" for t j
      using Some by (auto simp: refs_def)
    then have "life_inv (w\<lparr>borrowers := (borrowers w)(r := None)\<rparr>)"
      using inv_fin [OF inv] inv_model [OF inv] inv_borrower [OF inv] inv_pointers [OF inv]
      by (intro life_invI) (auto simp: model_ok_def split: if_splits)
    with None Some show ?thesis by (simp add: borrower_dtor_def)
  next
    fix i assume i: "b_model_res b = Some i"
    have "life_inv (drop_and_release (b_rt b) i (w\<lparr>borrowers := (borrowers w)(r := None)\<rparr>))"
      by (rule drop_release_inv [OF inv Some i]) simp
    with Some i show ?thesis by (simp add: borrower_dtor_def)
  qed
qed

lemma gc_model_inv:
  assumes inv: "life_inv w"
  shows "life_inv (gc_model i w)"
proof (cases "models w i")
  case None
  then show ?thesis using inv by (simp add: gc_model_def)
next
  case (Some m)
  note fin = inv_fin [OF inv]
  show ?thesis
  proof (cases "m_keeps m \<le> 0")
    case True
    have "borrower_ok ((models w)(i := None)) c" if "borrowers w q = Some c" for q c
      using inv_borrower [OF inv that] no_refs_left [OF inv_model [OF inv Some] fin True that]
      by (auto simp: borrower_ok_def)
    then have "life_inv (model_dtor i (m\<lparr>m_term := False\<rparr>) w)"
      using fin inv_model [OF inv] pointers_ok_remove [OF inv_pointers [OF inv] Some]
      by (intro life_invI) (auto simp: model_dtor_def split: if_splits)
    with True Some show ?thesis by (simp add: gc_model_def)
  next
    case False
    have "model_ok (borrowers w) i (m\<lparr>m_term := False\<rparr>)"
      using inv_model [OF inv Some] by (simp only: model_ok_term)
    then have "life_inv (w\<lparr>models := (models w)(i \<mapsto> m\<lparr>m_term := False\<rparr>)\<rparr>)"
      by (rule model_update_inv' [OF inv Some]) simp
    with False Some show ?thesis by (simp add: gc_model_def)
  qed
qed

lemma nif_new_context_inv:
  "life_inv w \<Longrightarrow> borrowers w r = None \<Longrightarrow> life_inv (fst (nif_new_context dc fc e a0 a1 r w))"
  unfolding nif_new_context_def by (auto intro!: attach_inv split: option.split)

lemma nif_adapter_load_inv:
  "life_inv w \<Longrightarrow> borrowers w r = None \<Longrightarrow> life_inv (fst (nif_adapter_load fa e a0 a1 r w))"
  unfolding nif_adapter_load_def by (auto intro!: attach_inv split: option.split)

lemma nif_mtmd_init_inv:
  "life_inv w \<Longrightarrow> borrowers w r = None \<Longrightarrow> life_inv (fst (nif_mtmd_init dm fm e a0 a1 a2 r w))"
  unfolding nif_mtmd_init_def by (auto intro!: attach_inv split: option.split)

lemma free_native_inv: "life_inv w \<Longrightarrow> life_inv (fst (free_native rt r w))"
  by (auto simp: free_native_def intro: native_update_inv split: option.splits)

lemma nif_free_inv:
  assumes "life_inv w"
  shows "life_inv (fst (nif_free_model rc a0 w))" and "life_inv (fst (nif_free_context rc a0 w))"
    and "life_inv (fst (nif_adapter_free a0 w))" and "life_inv (fst (nif_mtmd_free a0 w))"
  using assms
  by (simp_all add: nif_free_model_def nif_free_context_def nif_adapter_free_def nif_mtmd_free_def
      free_model_inv free_context_inv free_native_inv split: option.split)

lemma life_step_inv: "life_step w w' \<Longrightarrow> life_inv w \<Longrightarrow> life_inv w'"
  by (induction rule: life_step.induct)
     (blast intro: load_inv nif_new_context_inv nif_adapter_load_inv nif_mtmd_init_inv nif_free_inv
       dtor_inv gc_model_inv)+

lemma life_reachable_inv: "life_reachable w \<Longrightarrow> life_inv w"
  by (induction rule: life_reachable.induct) (auto intro: life_inv_init life_step_inv)

subsection \<open>Properties\<close>

text \<open>Runs used by the witnesses: a model with a context, an adapter or a projector.\<close>

definition ok_env :: attach_env where
  "ok_env = \<lparr>alloc_ok = True, mutex_ok = True\<rparr>"

definition some_cparams :: cparams where
  "some_cparams =
     \<lparr>cp_n_ctx = 512, cp_n_batch = 2048, cp_n_ubatch = 512, cp_n_seq_max = 1, cp_n_rs_seq = 0,
      cp_n_threads = 4, cp_n_threads_batch = 4, cp_embeddings = False, cp_offload_kqv = True,
      cp_kv_unified = False, cp_flash_attn_type = -1, cp_type_k = 1, cp_type_v = 1\<rparr>"

definition some_mtmd_params :: mtmd_params where
  "some_mtmd_params =
     \<lparr>use_gpu = True, mp_n_threads = 4, image_min_tokens = -1, image_max_tokens = -1\<rparr>"

definition life_ctx :: life where
  "life_ctx = fst (nif_new_context some_cparams (\<lambda>_. True) ok_env (ERes MODEL_RT 0) (EMap []) 7
                     (load_model_res 0 100 life_init))"

definition life_deferred :: life where
  "life_deferred = fst (nif_free_model 0 (ERes MODEL_RT 0) life_ctx)"

definition life_mtmd :: life where
  "life_mtmd = fst (nif_mtmd_init some_mtmd_params (\<lambda>_ _. True) ok_env (ERes MODEL_RT 0) (EBin [97])
                      (EMap []) 8 (load_model_res 0 100 life_init))"

lemma parse_empty_cparams: "erllama_parse_cparams (EMap []) p = Some p"
  by (simp add: erllama_parse_cparams_def parse_numbers_def parse_rest_def put_opt_def
      put_enum_def get_map_uint_def get_map_int31_def get_map_bool_def get_map_atom_enum_def)

lemmas life_run_simps =
  life_ctx_def life_deferred_def life_mtmd_def nif_new_context_def nif_mtmd_init_def attach_def
  load_model_res_def life_init_def ok_env_def nif_free_model_def free_model_body_def
  new_borrower_def parse_empty_cparams copy_path_def enif_is_map_def

lemma reachable_load: "life_reachable (load_model_res 0 100 life_init)"
  by (rule life_next [OF life_start], rule step_load) (simp_all add: life_init_def)

text \<open>The first premises of a step on a model, discharged together.\<close>

lemma has_term_load: "\<exists>m. models (load_model_res 0 100 life_init) 0 = Some m \<and> m_term m"
  by (simp add: load_model_res_def)

lemma has_term_ctx: "\<exists>m. models life_ctx 0 = Some m \<and> m_term m"
  by (simp add: life_run_simps)

lemma has_term_mtmd: "\<exists>m. models life_mtmd 0 = Some m \<and> m_term m"
  by (simp add: life_run_simps)

lemma reachable_ctx: "life_reachable life_ctx"
  using has_term_load unfolding life_ctx_def
  by (auto intro!: life_next [OF reachable_load] step_new_context
      simp: load_model_res_def life_init_def)

lemma reachable_deferred: "life_reachable life_deferred"
  using has_term_ctx unfolding life_deferred_def
  by (auto intro!: life_next [OF reachable_ctx] step_free_model)

lemma reachable_mtmd: "life_reachable life_mtmd"
  using has_term_load unfolding life_mtmd_def
  by (auto intro!: life_next [OF reachable_load] step_mtmd_init
      simp: load_model_res_def life_init_def)

text \<open>
  C37: No use after free: in every reachable state, a context or adapter whose native
  pointer is set has a live model resource whose native model has not been freed, however
  calls, explicit frees and garbage collections were interleaved.
\<close>

theorem life_no_use_after_free:
  assumes "life_reachable w" and "borrowers w r = Some b" and "b_native b"
    and "b_rt b = CTX_RT \<or> b_rt b = ADAPTER_RT"
  shows "\<exists>i m. b_model_res b = Some i \<and> models w i = Some m \<and> m_model m \<noteq> None"
proof -
  note inv = life_reachable_inv [OF assms(1)]
  from inv_borrower [OF inv assms(2)] assms(3) obtain i m where
    i: "b_model_res b = Some i" and m: "models w i = Some m"
    by (auto simp: borrower_ok_def)
  have "active_contexts m + active_adapters m > 0"
    using refs_pos [OF inv_fin [OF inv] assms(2) i] inv_model [OF inv m] assms(4)
    by (auto simp: model_ok_def)
  then have "m_model m \<noteq> None" using inv_model [OF inv m] by (simp add: model_ok_def)
  with i m show ?thesis by blast
qed

theorem life_no_use_after_free_witness:
  "\<exists>i m. b_model_res (new_borrower CTX_RT 0) = Some i \<and> models life_ctx i = Some m \<and> m_model m \<noteq> None"
  by (rule life_no_use_after_free [OF reachable_ctx, of 7]) (simp_all add: life_run_simps)

text \<open>
  No double free: along every run the native models freed are pairwise distinct, and
  none of them is still the pointer of a live model resource.
\<close>

theorem life_no_double_free:
  assumes "life_reachable w"
  shows "distinct (freed w) \<and>
    (\<forall>i m p. models w i = Some m \<and> m_model m = Some p \<longrightarrow> p \<notin> set (freed w))"
  using inv_pointers [OF life_reachable_inv [OF assms]]
  by (auto simp: pointers_ok_def ran_def native_of_def) (metis (mono_tags) option.simps(5) disjoint_iff mem_Collect_eq)

theorem life_no_double_free_witness:
  "distinct (freed (borrower_dtor 7 life_deferred)) \<and> freed (borrower_dtor 7 life_deferred) = [100]"
proof -
  have "life_reachable (borrower_dtor 7 life_deferred)"
    by (rule life_next [OF reachable_deferred step_dtor])
  from life_no_double_free [OF this] show ?thesis
    by (simp add: borrower_dtor_def drop_and_release_def drops_def context_drops_model_def
        free_if_pending_def model_unreferenced_def release_model_def model_dtor_def life_run_simps)
qed

text \<open>
  C38: The release contract of \<open>{ok, deferred}\<close>: while a release is pending the native
  model is still there and somebody still borrows it (so a later destructor can complete
  the release), and no new context, adapter or projector can attach: each of the three
  calls, with well-formed arguments, changes nothing and returns \<open>{error, released}\<close>.
\<close>

theorem deferred_release_contract:
  assumes "life_reachable w" and "models w i = Some m" and "release_pending m"
  shows "m_model m \<noteq> None \<and> (\<exists>r b. borrowers w r = Some b \<and> b_model_res b = Some i)
    \<and> (\<forall>dc fc. erllama_parse_cparams (EMap kvs) dc \<noteq> None \<longrightarrow>
         nif_new_context dc fc e (ERes MODEL_RT i) (EMap kvs) r w = (w, err ''released''))
    \<and> (\<forall>fa path. copy_path path 4097 \<noteq> None \<longrightarrow>
         nif_adapter_load fa e (ERes MODEL_RT i) path r w = (w, err ''released''))
    \<and> (\<forall>dm fm path. copy_path path 4097 \<noteq> None \<longrightarrow>
         nif_mtmd_init dm fm e (ERes MODEL_RT i) path (EMap kvs) r w = (w, err ''released''))"
proof -
  note ok = inv_model [OF life_reachable_inv [OF assms(1)] assms(2)]
  have "refs CTX_RT i (borrowers w) \<union> refs ADAPTER_RT i (borrowers w) \<union> refs MTMD_RT i (borrowers w) \<noteq> {}"
    using ok assms(3) by (auto simp: model_ok_def model_unreferenced_def)
  then have "\<exists>r b. borrowers w r = Some b \<and> b_model_res b = Some i"
    by (auto simp: refs_def)
  then show ?thesis
    using ok assms(2,3)
    by (auto simp: model_ok_def nif_new_context_def nif_adapter_load_def nif_mtmd_init_def attach_def
        enif_is_map_def)
qed

theorem deferred_release_contract_witness:
  "nif_new_context some_cparams (\<lambda>_. True) ok_env (ERes MODEL_RT 0) (EMap []) 9 life_deferred =
     (life_deferred, err ''released'')"
proof -
  obtain m where "models life_deferred 0 = Some m" "release_pending m"
    by (simp add: life_run_simps)
  from deferred_release_contract [OF reachable_deferred this, of "[]" ok_env 9] show ?thesis
    by (simp add: parse_empty_cparams)
qed

text \<open>When \<open>r\<close> is the only borrower of model \<open>i\<close>, the counters after its drop are zero.\<close>

lemma last_drop_unreferenced:
  assumes "model_ok B i m" and b: "B r = Some b" "b_model_res b = Some i"
    and rt: "b_rt b \<in> {CTX_RT, ADAPTER_RT, MTMD_RT}"
    and only: "\<forall>q c. B q = Some c \<and> b_model_res c = Some i \<longrightarrow> q = r"
  shows "model_unreferenced (dec_count (b_rt b) m)"
proof -
  have "refs t i B = (if b_rt b = t then {r} else {})" for t
    using b only by (auto simp: refs_def)
  then show ?thesis
    using assms(1) rt by (auto simp: model_ok_def model_unreferenced_def)
qed

text \<open>
  A deferred release completes: when a release is pending and the destructor of the
  last borrower runs, the native model is freed then and there.
\<close>

theorem deferred_release_completes:
  assumes "life_reachable w" and "models w i = Some m" and "release_pending m"
    and "m_model m = Some p" and "borrowers w r = Some b" and "b_model_res b = Some i"
    and "\<forall>q c. borrowers w q = Some c \<and> b_model_res c = Some i \<longrightarrow> q = r"
  shows "p \<in> set (freed (borrower_dtor r w))"
proof -
  note inv = life_reachable_inv [OF assms(1)]
  have rt: "b_rt b \<in> {CTX_RT, ADAPTER_RT, MTMD_RT}"
    using inv_borrower [OF inv assms(5)] by (simp add: borrower_ok_def)
  have "drops (b_rt b) m = free_if_pending (dec_count (b_rt b) m)"
    by (rule drops_eq [OF inv_model [OF inv assms(2)] inv_fin [OF inv] assms(5,6) rt])
  moreover have "model_unreferenced (dec_count (b_rt b) m)"
    by (rule last_drop_unreferenced [OF inv_model [OF inv assms(2)] assms(5,6) rt assms(7)])
  ultimately show ?thesis
    using assms(2-6)
    by (simp add: borrower_dtor_def drop_and_release_def free_if_pending_def release_model_def
        model_dtor_def Let_def)
qed

theorem deferred_release_completes_witness: "100 \<in> set (freed (borrower_dtor 7 life_deferred))"
proof -
  obtain m where "models life_deferred 0 = Some m" "release_pending m" "m_model m = Some 100"
    by (simp add: life_run_simps)
  then show ?thesis
    by (rule deferred_release_completes [OF reachable_deferred, where b = "new_borrower CTX_RT 0"])
       (auto simp: life_run_simps split: if_splits)
qed

text \<open>
  The multimodal projector is not protected. \<open>nif_free_model\<close> looks at contexts and
  adapters only, so there is a run after which a projector that is still usable borrows a
  model whose native object has been freed.
\<close>

theorem mtmd_use_after_free:
  "\<exists>w r b i m p. life_reachable w \<and> borrowers w r = Some b \<and> b_rt b = MTMD_RT \<and> b_native b
     \<and> b_model_res b = Some i \<and> models w i = Some m \<and> active_mtmd m = 1
     \<and> m_model m = None \<and> freed w = [p]"
proof -
  let ?w = "fst (nif_free_model 0 (ERes MODEL_RT 0) life_mtmd)"
  have "life_reachable ?w"
    using has_term_mtmd by (auto intro: life_next [OF reachable_mtmd] step_free_model)
  moreover have "borrowers ?w 8 = Some (new_borrower MTMD_RT 0)" "freed ?w = [100]"
    "\<exists>m. models ?w 0 = Some m \<and> m_model m = None \<and> active_mtmd m = 1"
    by (simp_all add: life_run_simps)
  moreover have "b_rt (new_borrower MTMD_RT 0) = MTMD_RT" "b_native (new_borrower MTMD_RT 0)"
    "b_model_res (new_borrower MTMD_RT 0) = Some 0" by (simp_all add: new_borrower_def)
  ultimately show ?thesis by blast
qed

end
