(* ===== verification/Kv_Cells.thy ===== *)
theory Kv_Cells
  imports Erllama_Base "HOL-Library.AList" "HOL-Library.Signed_Division"
begin

text \<open>
  The cell table of the KV cache, \<open>llama-kv-cells.h\<close>: class \<open>llama_kv_cells\<close>, method by
  method. The state is the record \<open>kv_cells\<close> with the class's fields; \<open>std::map\<close> is an
  association list whose \<open>begin()\<close> is the smallest key, \<open>std::set\<close> and \<open>std::bitset\<close>
  are sets. A method returns \<open>None\<close> when one of its \<open>assert\<close>s fails (or when it would
  dereference \<open>end()\<close>). Positions are unbounded integers: the sources keep them below the
  context size.

  The class keeps two indexes next to the cells, \<open>used\<close> and \<open>seq_pos\<close>. \<open>cells_abs\<close>
  forgets them; \<open>cells_ok\<close> says that they describe the cells. Every mutator keeps
  \<open>cells_ok\<close>, violates no assertion under its documented precondition, and changes one
  abstract cell.
\<close>

definition LLAMA_MAX_SEQ :: nat where
  "LLAMA_MAX_SEQ = 256"

record kv_cell_ext =
  ext_x :: llama_pos
  ext_y :: llama_pos

type_synonym cell_ext = kv_cell_ext

definition ext_zero :: kv_cell_ext where
  "ext_zero = \<lparr>ext_x = 0, ext_y = 0\<rparr>"

definition is_2d_gt :: "kv_cell_ext \<Rightarrow> llama_pos \<Rightarrow> llama_pos \<Rightarrow> bool" where
  "is_2d_gt e ox oy \<longleftrightarrow> ext_y e > oy \<or> (ext_y e = oy \<and> ext_x e > ox)"

type_synonym pos_map = "(llama_pos \<times> int) list"

record kv_cells =
  kc_has_shift :: bool
  kc_used :: "nat set"
  kc_pos :: "llama_pos list"
  kc_ext :: "kv_cell_ext list"
  kc_shift :: "llama_pos list"
  kc_seq :: "nat set list"
  kc_seq_pos :: "nat \<Rightarrow> pos_map"

subsection \<open>Whole-table operations\<close>

definition cells_size :: "kv_cells \<Rightarrow> nat" where
  "cells_size c = length (kc_pos c)"

definition cells_reset :: "kv_cells \<Rightarrow> kv_cells" where
  "cells_reset c =
     \<lparr>kc_has_shift = False, kc_used = {},
      kc_pos = map (\<lambda>_. -1) (kc_pos c), kc_ext = map (\<lambda>_. ext_zero) (kc_ext c),
      kc_shift = map (\<lambda>_. 0) (kc_shift c), kc_seq = map (\<lambda>_. {}) (kc_seq c),
      kc_seq_pos = (\<lambda>_. [])\<rparr>"

definition reset_shift :: "kv_cells \<Rightarrow> kv_cells" where
  "reset_shift c = c\<lparr>kc_has_shift := False, kc_shift := map (\<lambda>_. 0) (kc_shift c)\<rparr>"

text \<open>\<open>resize\<close> of a default-constructed table; the vectors then all have length \<open>n\<close>.\<close>

definition cells_resize :: "nat \<Rightarrow> kv_cells" where
  "cells_resize n =
     cells_reset \<lparr>kc_has_shift = False, kc_used = {}, kc_pos = replicate n 0,
       kc_ext = replicate n ext_zero, kc_shift = replicate n 0, kc_seq = replicate n {},
       kc_seq_pos = (\<lambda>_. [])\<rparr>"

definition get_used :: "kv_cells \<Rightarrow> nat" where
  "get_used c = card (kc_used c)"

definition used_min :: "kv_cells \<Rightarrow> nat" where
  "used_min c = (if kc_used c = {} then 0 else Min (kc_used c))"

definition used_max_p1 :: "kv_cells \<Rightarrow> nat" where
  "used_max_p1 c = (if kc_used c = {} then 0 else Max (kc_used c) + 1)"

subsection \<open>The position index\<close>

definition seq_pos_dec :: "nat \<Rightarrow> llama_pos \<Rightarrow> (nat \<Rightarrow> pos_map) \<Rightarrow> (nat \<Rightarrow> pos_map) option" where
  "seq_pos_dec s p sp =
     (case map_of (sp s) p of None \<Rightarrow> None
      | Some k \<Rightarrow> Some (sp(s := if k - 1 = 0 then AList.delete p (sp s)
                               else AList.update p (k - 1) (sp s))))"

definition seq_pos_inc :: "nat \<Rightarrow> llama_pos \<Rightarrow> (nat \<Rightarrow> pos_map) \<Rightarrow> (nat \<Rightarrow> pos_map)" where
  "seq_pos_inc s p sp =
     sp(s := AList.update p ((case map_of (sp s) p of None \<Rightarrow> 0 | Some k \<Rightarrow> k) + 1) (sp s))"

definition seq_pos_rm :: "nat \<Rightarrow> kv_cells \<Rightarrow> kv_cells option" where
  "seq_pos_rm i c = do {
     sp \<leftarrow> foldM (\<lambda>s sp. if s \<in> kc_seq c ! i then seq_pos_dec s (kc_pos c ! i) sp else Some sp)
            [0..<LLAMA_MAX_SEQ] (kc_seq_pos c);
     Some (c\<lparr>kc_seq_pos := sp\<rparr>) }"

definition seq_pos_add :: "nat \<Rightarrow> kv_cells \<Rightarrow> kv_cells" where
  "seq_pos_add i c =
     c\<lparr>kc_seq_pos := fold (\<lambda>s sp. if s \<in> kc_seq c ! i then seq_pos_inc s (kc_pos c ! i) sp else sp)
                      [0..<LLAMA_MAX_SEQ] (kc_seq_pos c)\<rparr>"

subsection \<open>Queries\<close>

definition is_empty :: "kv_cells \<Rightarrow> nat \<Rightarrow> bool option" where
  "is_empty c i = do {
     require (i < cells_size c);
     require (kc_pos c ! i \<ge> -1);
     Some (kc_pos c ! i = -1) }"

definition seq_count :: "kv_cells \<Rightarrow> nat \<Rightarrow> nat option" where
  "seq_count c i = do {
     require (i < cells_size c);
     require (kc_pos c ! i \<noteq> -1);
     Some (card (kc_seq c ! i)) }"

definition seq_has :: "kv_cells \<Rightarrow> nat \<Rightarrow> nat \<Rightarrow> bool option" where
  "seq_has c i s = do { require (i < cells_size c); Some (s \<in> kc_seq c ! i) }"

definition seq_get :: "kv_cells \<Rightarrow> nat \<Rightarrow> nat option" where
  "seq_get c i = do {
     require (card (kc_seq c ! i) = 1);
     List.find (\<lambda>s. s \<in> kc_seq c ! i) [0..<LLAMA_MAX_SEQ] }"

definition cells_seq_pos_min :: "kv_cells \<Rightarrow> nat \<Rightarrow> llama_pos" where
  "cells_seq_pos_min c s = (if kc_seq_pos c s = [] then -1 else Min (fst ` set (kc_seq_pos c s)))"

definition cells_seq_pos_max :: "kv_cells \<Rightarrow> nat \<Rightarrow> llama_pos" where
  "cells_seq_pos_max c s = (if kc_seq_pos c s = [] then -1 else Max (fst ` set (kc_seq_pos c s)))"

definition pos_get :: "kv_cells \<Rightarrow> nat \<Rightarrow> llama_pos option" where
  "pos_get c i = do {
     require (i < cells_size c);
     require (kc_pos c ! i \<noteq> -1);
     Some (kc_pos c ! i) }"

definition ext_get :: "kv_cells \<Rightarrow> nat \<Rightarrow> kv_cell_ext option" where
  "ext_get c i = do {
     require (i < cells_size c);
     require (kc_pos c ! i \<noteq> -1);
     Some (kc_ext c ! i) }"

definition get_shift :: "kv_cells \<Rightarrow> nat \<Rightarrow> llama_pos option" where
  "get_shift c i = do {
     require (i < cells_size c);
     require (kc_pos c ! i \<noteq> -1);
     Some (kc_shift c ! i) }"

definition pos_in :: "kv_cells \<Rightarrow> nat \<Rightarrow> llama_pos \<Rightarrow> llama_pos \<Rightarrow> bool option" where
  "pos_in c i p0 p1 = do {
     require (i < cells_size c);
     Some (kc_pos c ! i \<ge> p0 \<and> kc_pos c ! i < p1) }"

subsection \<open>Mutators of one cell\<close>

text \<open>The assignments that empty a cell.\<close>

definition cell_clear :: "nat \<Rightarrow> kv_cells \<Rightarrow> kv_cells" where
  "cell_clear i c =
     c\<lparr>kc_pos := (kc_pos c)[i := -1], kc_ext := (kc_ext c)[i := ext_zero],
       kc_shift := (kc_shift c)[i := 0], kc_used := kc_used c - {i}\<rparr>"

definition cells_rm :: "nat \<Rightarrow> kv_cells \<Rightarrow> kv_cells option" where
  "cells_rm i c = do {
     require (i < cells_size c);
     require (kc_pos c ! i \<noteq> -1);
     c1 \<leftarrow> seq_pos_rm i c;
     Some (cell_clear i (c1\<lparr>kc_seq := (kc_seq c1)[i := {}]\<rparr>)) }"

definition cells_seq_rm :: "nat \<Rightarrow> nat \<Rightarrow> kv_cells \<Rightarrow> (kv_cells \<times> bool) option" where
  "cells_seq_rm i s c = do {
     require (i < cells_size c);
     require (s \<in> kc_seq c ! i);
     require (kc_pos c ! i \<noteq> -1);
     sp \<leftarrow> seq_pos_dec s (kc_pos c ! i) (kc_seq_pos c);
     let c1 = c\<lparr>kc_seq := (kc_seq c)[i := kc_seq c ! i - {s}], kc_seq_pos := sp\<rparr>;
     if kc_seq c1 ! i = {} then Some (cell_clear i c1, True) else Some (c1, False) }"

definition cells_seq_keep :: "nat \<Rightarrow> nat \<Rightarrow> kv_cells \<Rightarrow> (kv_cells \<times> bool) option" where
  "cells_seq_keep i s c = do {
     require (i < cells_size c);
     if s \<in> kc_seq c ! i then do {
       c1 \<leftarrow> seq_pos_rm i c;
       let c2 = c1\<lparr>kc_seq := (kc_seq c1)[i := {s}]\<rparr>;
       Some (c2\<lparr>kc_seq_pos := seq_pos_inc s (kc_pos c2 ! i) (kc_seq_pos c2)\<rparr>, False) }
     else if kc_seq c ! i \<noteq> {} then do {
       c1 \<leftarrow> seq_pos_rm i c;
       Some (cell_clear i (c1\<lparr>kc_seq := (kc_seq c1)[i := {}]\<rparr>), True) }
     else do { require (kc_pos c ! i = -1); Some (c, False) } }"

definition cells_seq_add :: "nat \<Rightarrow> nat \<Rightarrow> kv_cells \<Rightarrow> kv_cells option" where
  "cells_seq_add i s c = do {
     require (i < cells_size c);
     require (kc_pos c ! i \<noteq> -1);
     require (s \<notin> kc_seq c ! i);
     Some (c\<lparr>kc_seq := (kc_seq c)[i := insert s (kc_seq c ! i)],
             kc_seq_pos := seq_pos_inc s (kc_pos c ! i) (kc_seq_pos c)\<rparr>) }"

definition pos_set :: "nat \<Rightarrow> llama_pos \<Rightarrow> kv_cells \<Rightarrow> kv_cells option" where
  "pos_set i p c = do {
     require (i < cells_size c);
     require (kc_pos c ! i = -1);
     require (kc_seq c ! i = {});
     Some (c\<lparr>kc_pos := (kc_pos c)[i := p], kc_used := insert i (kc_used c)\<rparr>) }"

definition ext_set :: "nat \<Rightarrow> kv_cell_ext \<Rightarrow> kv_cells \<Rightarrow> kv_cells option" where
  "ext_set i e c = do {
     require (i < length (kc_ext c));
     Some (c\<lparr>kc_ext := (kc_ext c)[i := e]\<rparr>) }"

definition pos_add :: "nat \<Rightarrow> llama_pos \<Rightarrow> kv_cells \<Rightarrow> (kv_cells \<times> bool) option" where
  "pos_add i d c = do {
     require (i < cells_size c);
     require (kc_pos c ! i \<noteq> -1);
     c1 \<leftarrow> seq_pos_rm i c;
     let c2 = c1\<lparr>kc_pos := (kc_pos c1)[i := kc_pos c1 ! i + d],
                 kc_shift := (kc_shift c1)[i := kc_shift c1 ! i + d], kc_has_shift := True\<rparr>;
     if kc_pos c2 ! i < 0 then
       Some (c2\<lparr>kc_seq := (kc_seq c2)[i := {}], kc_pos := (kc_pos c2)[i := -1],
                kc_shift := (kc_shift c2)[i := 0], kc_used := kc_used c2 - {i}\<rparr>, True)
     else Some (seq_pos_add i c2, False) }"

text \<open>\<open>/=\<close> truncates towards zero; dividing by zero is undefined.\<close>

definition pos_div :: "nat \<Rightarrow> int \<Rightarrow> kv_cells \<Rightarrow> kv_cells option" where
  "pos_div i d c = do {
     require (i < cells_size c);
     require (kc_pos c ! i \<noteq> -1);
     require (d \<noteq> 0);
     let p_old = kc_pos c ! i;
     c1 \<leftarrow> seq_pos_rm i c;
     let c2 = c1\<lparr>kc_pos := (kc_pos c1)[i := kc_pos c1 ! i sdiv d]\<rparr>;
     let c3 = c2\<lparr>kc_shift := (kc_shift c2)[i := kc_shift c2 ! i + (p_old - kc_pos c2 ! i)]\<rparr>;
     Some ((seq_pos_add i c3)\<lparr>kc_has_shift := True\<rparr>) }"

subsection \<open>Saving and restoring cells\<close>

definition cells_cp :: "nat list \<Rightarrow> kv_cells \<Rightarrow> kv_cells option" where
  "cells_cp idxs c =
     foldM (\<lambda>j res. do {
         let idx = idxs ! j;
         require (idx < cells_size c);
         require (kc_shift c ! idx = 0);
         Some (res\<lparr>kc_pos := (kc_pos res)[j := kc_pos c ! idx],
                   kc_ext := (kc_ext res)[j := kc_ext c ! idx],
                   kc_seq := (kc_seq res)[j := kc_seq c ! idx]\<rparr>) })
       [0..<length idxs] (cells_resize (length idxs))"

definition set_cell :: "nat \<Rightarrow> nat \<Rightarrow> kv_cells \<Rightarrow> kv_cells \<Rightarrow> kv_cells option" where
  "set_cell idx j other c = do {
     require (idx < cells_size c);
     let was = kc_pos c ! idx;
     let c1 = (if was = -1 \<and> kc_pos other ! j \<noteq> -1 then c\<lparr>kc_used := insert idx (kc_used c)\<rparr> else c);
     let c2 = (if was \<noteq> -1 \<and> kc_pos other ! j = -1 then c1\<lparr>kc_used := kc_used c1 - {idx}\<rparr> else c1);
     c3 \<leftarrow> (if was \<noteq> -1 then seq_pos_rm idx c2 else Some c2);
     let c4 = c3\<lparr>kc_pos := (kc_pos c3)[idx := kc_pos other ! j],
                 kc_ext := (kc_ext c3)[idx := kc_ext other ! j],
                 kc_seq := (kc_seq c3)[idx := kc_seq other ! j]\<rparr>;
     let c5 = (if kc_pos c4 ! idx \<noteq> -1 then seq_pos_add idx c4 else c4);
     require (kc_shift c5 ! idx = 0);
     Some c5 }"

definition cells_set :: "nat list \<Rightarrow> kv_cells \<Rightarrow> kv_cells \<Rightarrow> kv_cells option" where
  "cells_set idxs other c = do {
     require (length idxs = cells_size other);
     foldM (\<lambda>j c. set_cell (idxs ! j) j other c) [0..<cells_size other] c }"

text \<open>The overloads for a contiguous range.\<close>

definition cells_cp_range :: "nat \<Rightarrow> nat \<Rightarrow> kv_cells \<Rightarrow> kv_cells option" where
  "cells_cp_range i n c = do { require (i + n \<le> cells_size c); cells_cp [i..<i + n] c }"

definition cells_set_range :: "nat \<Rightarrow> kv_cells \<Rightarrow> kv_cells \<Rightarrow> kv_cells option" where
  "cells_set_range i other c = do {
     require (i + cells_size other \<le> cells_size c);
     cells_set [i..<i + cells_size other] other c }"


subsection \<open>Abstraction and invariant\<close>

record kv_cell =
  cell_pos :: llama_pos
  cell_ext :: kv_cell_ext
  cell_shift :: llama_pos
  cell_seq :: "nat set"

definition cell_at :: "kv_cells \<Rightarrow> nat \<Rightarrow> kv_cell" where
  "cell_at c i = \<lparr>cell_pos = kc_pos c ! i, cell_ext = kc_ext c ! i, cell_shift = kc_shift c ! i,
                  cell_seq = kc_seq c ! i\<rparr>"

definition cells_abs :: "kv_cells \<Rightarrow> kv_cell list" where
  "cells_abs c = map (cell_at c) [0..<cells_size c]"

definition wf_cell :: "kv_cell \<Rightarrow> bool" where
  "wf_cell x \<longleftrightarrow> -1 \<le> cell_pos x \<and> cell_seq x \<subseteq> {..<LLAMA_MAX_SEQ}
                \<and> (cell_pos x = -1 \<longrightarrow> cell_seq x = {} \<and> cell_shift x = 0)"

definition hit :: "kv_cell \<Rightarrow> nat \<Rightarrow> llama_pos \<Rightarrow> int" where
  "hit x s p = (if cell_pos x = p \<and> s \<in> cell_seq x then 1 else 0)"

text \<open>How many cells hold position \<open>p\<close> for sequence \<open>s\<close>.\<close>

definition hits :: "kv_cell list \<Rightarrow> nat \<Rightarrow> llama_pos \<Rightarrow> int" where
  "hits cs s p = sum_list (map (\<lambda>x. hit x s p) cs)"

definition counts :: "(nat \<Rightarrow> pos_map) \<Rightarrow> (nat \<Rightarrow> llama_pos \<Rightarrow> int) \<Rightarrow> bool" where
  "counts sp F \<longleftrightarrow> (\<forall>s p. map_of (sp s) p = (if F s p = 0 then None else Some (F s p)))"

definition cells_ok :: "kv_cells \<Rightarrow> bool" where
  "cells_ok c \<longleftrightarrow>
     length (kc_ext c) = cells_size c \<and> length (kc_shift c) = cells_size c
     \<and> length (kc_seq c) = cells_size c
     \<and> kc_used c = {i. i < cells_size c \<and> kc_pos c ! i \<noteq> -1}
     \<and> (\<forall>i < cells_size c. wf_cell (cell_at c i))
     \<and> counts (kc_seq_pos c) (hits (cells_abs c))"

lemma length_cells_abs [simp]: "length (cells_abs c) = cells_size c"
  by (simp add: cells_abs_def)

lemma nth_cells_abs [simp]: "i < cells_size c \<Longrightarrow> cells_abs c ! i = cell_at c i"
  by (simp add: cells_abs_def)

lemma cell_at_simps [simp]:
  "cell_pos (cell_at c i) = kc_pos c ! i" "cell_ext (cell_at c i) = kc_ext c ! i"
  "cell_shift (cell_at c i) = kc_shift c ! i" "cell_seq (cell_at c i) = kc_seq c ! i"
  by (simp_all add: cell_at_def)

lemma cells_abs_id [simp]: "i < cells_size c \<Longrightarrow> (cells_abs c)[i := cell_at c i] = cells_abs c"
  by (metis list_update_id nth_cells_abs)

lemma cells_okD:
  assumes "cells_ok c"
  shows ok_lengths: "length (kc_ext c) = cells_size c" "length (kc_shift c) = cells_size c"
      "length (kc_seq c) = cells_size c" "length (kc_pos c) = cells_size c"
    and ok_used: "kc_used c = {i. i < cells_size c \<and> kc_pos c ! i \<noteq> -1}"
    and ok_wf: "\<And>i. i < cells_size c \<Longrightarrow> wf_cell (cell_at c i)"
    and ok_counts: "counts (kc_seq_pos c) (hits (cells_abs c))"
  using assms by (simp_all add: cells_ok_def cells_size_def)

lemma ok_pos: "cells_ok c \<Longrightarrow> i < cells_size c \<Longrightarrow> -1 \<le> kc_pos c ! i"
  and ok_seq_bound: "cells_ok c \<Longrightarrow> i < cells_size c \<Longrightarrow> kc_seq c ! i \<subseteq> {..<LLAMA_MAX_SEQ}"
  and ok_empty_seq: "cells_ok c \<Longrightarrow> i < cells_size c \<Longrightarrow> kc_pos c ! i = -1 \<Longrightarrow> kc_seq c ! i = {}"
  and ok_empty_shift: "cells_ok c \<Longrightarrow> i < cells_size c \<Longrightarrow> kc_pos c ! i = -1 \<Longrightarrow> kc_shift c ! i = 0"
  using ok_wf [of c i] by (simp_all add: wf_cell_def)

subsection \<open>Counting\<close>

lemma hit_nonneg [simp]: "0 \<le> hit x s p"
  by (simp add: hit_def)

lemma hits_nonneg [simp]: "0 \<le> hits cs s p"
  by (induction cs) (simp_all add: hits_def)

lemma hits_update:
  "i < length cs \<Longrightarrow> hits (cs[i := x]) s p = hits cs s p - hit (cs ! i) s p + hit x s p"
  by (induction cs arbitrary: i) (auto simp: hits_def split: nat.split)

lemma hits_ge_hit: "x \<in> set cs \<Longrightarrow> hit x s p \<le> hits cs s p"
  unfolding hits_def by (rule member_le_sum_list) auto

lemma hits_pos_iff: "hits cs s p \<noteq> 0 \<longleftrightarrow> (\<exists>x \<in> set cs. cell_pos x = p \<and> s \<in> cell_seq x)"
proof
  assume "hits cs s p \<noteq> 0"
  then have "\<exists>x \<in> set cs. hit x s p \<noteq> 0"
    unfolding hits_def by (induction cs) auto
  then show "\<exists>x \<in> set cs. cell_pos x = p \<and> s \<in> cell_seq x" by (auto simp: hit_def split: if_splits)
next
  assume "\<exists>x \<in> set cs. cell_pos x = p \<and> s \<in> cell_seq x"
  then obtain x where "x \<in> set cs" "hit x s p = 1" by (auto simp: hit_def)
  then show "hits cs s p \<noteq> 0" using hits_ge_hit [of x cs s p] by simp
qed

lemma countsD: "counts sp F \<Longrightarrow> map_of (sp s) p = (if F s p = 0 then None else Some (F s p))"
  by (simp add: counts_def)

lemma counts_cong: "counts sp F \<Longrightarrow> (\<And>s p. F s p = G s p) \<Longrightarrow> counts sp G"
  by (simp add: counts_def)

lemma seq_pos_dec_counts:
  assumes "counts sp F" and "F s p > 0"
  shows "\<exists>sp'. seq_pos_dec s p sp = Some sp'
           \<and> counts sp' (\<lambda>t q. F t q - (if t = s \<and> q = p then 1 else 0))"
  using assms by (auto simp: seq_pos_dec_def counts_def update_conv' delete_conv')

lemma seq_pos_inc_counts:
  assumes "counts sp F" and "F s p \<ge> 0"
  shows "counts (seq_pos_inc s p sp) (\<lambda>t q. F t q + (if t = s \<and> q = p then 1 else 0))"
  using assms by (auto simp: seq_pos_inc_def counts_def update_conv')

lemma seq_pos_rm_counts:
  assumes c: "counts (kc_seq_pos c) F" and S: "kc_seq c ! i \<subseteq> {..<LLAMA_MAX_SEQ}"
    and F: "\<And>s. s \<in> kc_seq c ! i \<Longrightarrow> F s (kc_pos c ! i) > 0"
  shows "\<exists>sp. seq_pos_rm i c = Some (c\<lparr>kc_seq_pos := sp\<rparr>)
           \<and> counts sp (\<lambda>s p. F s p - hit (cell_at c i) s p)"
proof -
  let ?F = "\<lambda>k s p. F s p - (if s < k then hit (cell_at c i) s p else 0)"
  let ?P = "\<lambda>k sp. counts sp (?F k)"
  have "\<exists>sp. foldM (\<lambda>s sp. if s \<in> kc_seq c ! i then seq_pos_dec s (kc_pos c ! i) sp else Some sp)
          [0..<LLAMA_MAX_SEQ] (kc_seq_pos c) = Some sp \<and> ?P LLAMA_MAX_SEQ sp"
  proof (rule foldM_upt_rule [of ?P])
    fix k sp assume sp: "?P k sp"
    show "\<exists>sp'. (if k \<in> kc_seq c ! i then seq_pos_dec k (kc_pos c ! i) sp else Some sp) = Some sp'
           \<and> ?P (Suc k) sp'"
    proof (cases "k \<in> kc_seq c ! i")
      case True
      from seq_pos_dec_counts [OF sp, of k "kc_pos c ! i"] F [OF True]
      obtain sp' where "seq_pos_dec k (kc_pos c ! i) sp = Some sp'"
        "counts sp' (\<lambda>t q. F t q - (if t < k then hit (cell_at c i) t q else 0)
           - (if t = k \<and> q = kc_pos c ! i then 1 else 0))" by auto
      with True show ?thesis
        by (auto elim!: counts_cong simp: hit_def)
    next
      case False
      with sp show ?thesis by (auto elim!: counts_cong simp: hit_def less_Suc_eq)
    qed
  qed (simp add: c)
  then obtain sp where "seq_pos_rm i c = Some (c\<lparr>kc_seq_pos := sp\<rparr>)" "?P LLAMA_MAX_SEQ sp"
    by (auto simp: seq_pos_rm_def)
  moreover have "?F LLAMA_MAX_SEQ = (\<lambda>s p. F s p - hit (cell_at c i) s p)"
    using S by (auto simp: hit_def fun_eq_iff)
  ultimately show ?thesis by auto
qed

lemma seq_pos_add_counts:
  assumes c: "counts (kc_seq_pos c) F" and S: "kc_seq c ! i \<subseteq> {..<LLAMA_MAX_SEQ}"
    and F: "\<And>s p. F s p \<ge> 0"
  shows "\<exists>sp. seq_pos_add i c = c\<lparr>kc_seq_pos := sp\<rparr>
           \<and> counts sp (\<lambda>s p. F s p + hit (cell_at c i) s p)"
proof -
  let ?f = "\<lambda>s sp. if s \<in> kc_seq c ! i then seq_pos_inc s (kc_pos c ! i) sp else sp"
  have upto: "counts (fold ?f [0..<k] (kc_seq_pos c))
          (\<lambda>s p. F s p + (if s < k then hit (cell_at c i) s p else 0))" for k
  proof (induction k)
    case (Suc k)
    show ?case
    proof (cases "k \<in> kc_seq c ! i")
      case True
      from seq_pos_inc_counts [OF Suc, of k "kc_pos c ! i"] F [of k "kc_pos c ! i"] True
      show ?thesis by (auto elim!: counts_cong simp: hit_def)
    next
      case False
      with Suc show ?thesis by (auto elim!: counts_cong simp: hit_def less_Suc_eq)
    qed
  qed (simp add: c)
  have "(\<lambda>s p. F s p + (if s < LLAMA_MAX_SEQ then hit (cell_at c i) s p else 0))
      = (\<lambda>s p. F s p + hit (cell_at c i) s p)"
    using S by (auto simp: hit_def fun_eq_iff)
  with upto [of LLAMA_MAX_SEQ] have "counts (fold ?f [0..<LLAMA_MAX_SEQ] (kc_seq_pos c))
      (\<lambda>s p. F s p + hit (cell_at c i) s p)" by simp
  then show ?thesis by (auto simp: seq_pos_add_def)
qed


subsection \<open>Every mutator refines one abstract cell update\<close>

lemma cells_ok_write:
  assumes ok: "cells_ok c" and i: "i < cells_size c" and x: "wf_cell x"
    and f: "kc_pos c' = (kc_pos c)[i := cell_pos x]" "kc_ext c' = (kc_ext c)[i := cell_ext x]"
      "kc_shift c' = (kc_shift c)[i := cell_shift x]" "kc_seq c' = (kc_seq c)[i := cell_seq x]"
    and u: "kc_used c' = (if cell_pos x = -1 then kc_used c - {i} else insert i (kc_used c))"
    and n: "counts (kc_seq_pos c') (\<lambda>s p. hits (cells_abs c) s p - hit (cell_at c i) s p + hit x s p)"
  shows "cells_ok c' \<and> cells_abs c' = (cells_abs c)[i := x]"
proof -
  note len = ok_lengths [OF ok]
  have sz: "cells_size c' = cells_size c" using f(1) by (simp add: cells_size_def)
  have at: "cell_at c' j = (if j = i then x else cell_at c j)" if "j < cells_size c" for j
    using that i len by (simp add: cell_at_def f nth_list_update)
  have abs: "cells_abs c' = (cells_abs c)[i := x]"
    by (rule nth_equalityI) (simp_all add: sz at nth_list_update)
  have "hits (cells_abs c') = (\<lambda>s p. hits (cells_abs c) s p - hit (cell_at c i) s p + hit x s p)"
    using i by (simp add: abs hits_update fun_eq_iff)
  moreover have "kc_used c' = {j. j < cells_size c' \<and> kc_pos c' ! j \<noteq> -1}"
    using i len(4) by (auto simp: u sz f(1) ok_used [OF ok] nth_list_update)
  ultimately show ?thesis
    using x n ok_wf [OF ok] abs len by (auto simp: cells_ok_def sz at f)
qed

lemma ok_hit_le: "i < cells_size c \<Longrightarrow> hit (cell_at c i) s p \<le> hits (cells_abs c) s p"
  by (rule hits_ge_hit) (simp add: cells_abs_def)

lemma ok_hits_pos:
  "i < cells_size c \<Longrightarrow> s \<in> kc_seq c ! i \<Longrightarrow> hits (cells_abs c) s (kc_pos c ! i) > 0"
  using ok_hit_le [of i c s "kc_pos c ! i"] by (simp add: hit_def)

text \<open>\<open>seq_pos_rm\<close> takes one cell out of the index.\<close>

lemma seq_pos_rm_ok:
  assumes "cells_ok c" and "i < cells_size c"
  obtains sp where "seq_pos_rm i c = Some (c\<lparr>kc_seq_pos := sp\<rparr>)"
    and "counts sp (\<lambda>s p. hits (cells_abs c) s p - hit (cell_at c i) s p)"
  using seq_pos_rm_counts [OF ok_counts [OF assms(1)] ok_seq_bound [OF assms]] ok_hits_pos [OF assms(2)]
  by blast

text \<open>\<open>seq_pos_add\<close> puts the new content of the cell back.\<close>

lemma seq_pos_add_ok:
  assumes "counts (kc_seq_pos c') (\<lambda>s p. hits (cells_abs c) s p - hit (cell_at c i) s p)"
    and "i < cells_size c" and "cell_seq (cell_at c' i) \<subseteq> {..<LLAMA_MAX_SEQ}"
  obtains sp where "seq_pos_add i c' = c'\<lparr>kc_seq_pos := sp\<rparr>"
    and "counts sp (\<lambda>s p. hits (cells_abs c) s p - hit (cell_at c i) s p + hit (cell_at c' i) s p)"
proof -
  have "\<exists>sp. seq_pos_add i c' = c'\<lparr>kc_seq_pos := sp\<rparr> \<and> counts sp
      (\<lambda>s p. (hits (cells_abs c) s p - hit (cell_at c i) s p) + hit (cell_at c' i) s p)"
    by (rule seq_pos_add_counts [OF assms(1)]) (use assms(3) ok_hit_le [OF assms(2)] in auto)
  then show ?thesis using that by blast
qed

definition cell_none :: kv_cell where
  "cell_none = \<lparr>cell_pos = -1, cell_ext = ext_zero, cell_shift = 0, cell_seq = {}\<rparr>"

lemma cell_none_simps [simp]:
  "cell_pos cell_none = -1" "cell_ext cell_none = ext_zero" "cell_shift cell_none = 0"
  "cell_seq cell_none = {}" "wf_cell cell_none" "hit cell_none s p = 0"
  by (simp_all add: cell_none_def wf_cell_def hit_def)

lemma cells_rm_ok:
  assumes ok: "cells_ok c" and i: "i < cells_size c" and p: "kc_pos c ! i \<noteq> -1"
  shows "\<exists>c'. cells_rm i c = Some c' \<and> cells_ok c' \<and> cells_abs c' = (cells_abs c)[i := cell_none]"
proof -
  from seq_pos_rm_ok [OF ok i] obtain sp where
    sp: "seq_pos_rm i c = Some (c\<lparr>kc_seq_pos := sp\<rparr>)"
      "counts sp (\<lambda>s p. hits (cells_abs c) s p - hit (cell_at c i) s p)" .
  let ?c = "cell_clear i ((c\<lparr>kc_seq_pos := sp\<rparr>)\<lparr>kc_seq := (kc_seq c)[i := {}]\<rparr>)"
  have "cells_ok ?c \<and> cells_abs ?c = (cells_abs c)[i := cell_none]"
    by (rule cells_ok_write [OF ok i]) (use sp(2) in \<open>simp_all add: cell_clear_def\<close>)
  then show ?thesis using sp(1) i p by (simp add: cells_rm_def)
qed

text \<open>What \<open>seq_rm\<close> makes of the cell.\<close>

definition cell_seq_rm :: "nat \<Rightarrow> kv_cell \<Rightarrow> kv_cell" where
  "cell_seq_rm s x = (if cell_seq x - {s} = {} then cell_none else x\<lparr>cell_seq := cell_seq x - {s}\<rparr>)"

lemma cells_seq_rm_ok:
  assumes ok: "cells_ok c" and i: "i < cells_size c" and s: "s \<in> kc_seq c ! i"
  shows "\<exists>c'. cells_seq_rm i s c = Some (c', kc_seq c ! i = {s}) \<and> cells_ok c'
            \<and> cells_abs c' = (cells_abs c)[i := cell_seq_rm s (cell_at c i)]"
proof -
  have p: "kc_pos c ! i \<noteq> -1" using ok_empty_seq [OF ok i] s by auto
  from seq_pos_dec_counts [OF ok_counts [OF ok] ok_hits_pos [OF i s]] obtain sp where
    sp: "seq_pos_dec s (kc_pos c ! i) (kc_seq_pos c) = Some sp"
      "counts sp (\<lambda>t q. hits (cells_abs c) t q - (if t = s \<and> q = kc_pos c ! i then 1 else 0))"
    by blast
  let ?c1 = "c\<lparr>kc_seq := (kc_seq c)[i := kc_seq c ! i - {s}], kc_seq_pos := sp\<rparr>"
  let ?x = "cell_seq_rm s (cell_at c i)"
  let ?c = "if kc_seq c ! i - {s} = {} then cell_clear i ?c1 else ?c1"
  have hit: "hit ?x t q = hit (cell_at c i) t q - (if t = s \<and> q = kc_pos c ! i then 1 else 0)" for t q
    using s by (auto simp: cell_seq_rm_def hit_def)
  have wf: "wf_cell ?x" using ok_wf [OF ok i] by (auto simp: cell_seq_rm_def wf_cell_def)
  have used: "i \<in> kc_used c" using i p by (simp add: ok_used [OF ok])
  have gone: "(kc_seq c)[i := kc_seq c ! i - {s}] = (kc_seq c)[i := {}]" if "kc_seq c ! i \<subseteq> {s}"
    using that by (metis Diff_eq_empty_iff)
  have "cells_ok ?c \<and> cells_abs ?c = (cells_abs c)[i := ?x]"
    by (rule cells_ok_write [OF ok i wf])
       (use sp(2) hit p used gone in \<open>auto simp: cell_clear_def cell_seq_rm_def elim!: counts_cong\<close>)
  moreover have "(kc_seq c ! i - {s} = {}) = (kc_seq c ! i = {s})" using s by auto
  ultimately show ?thesis
    using sp(1) i p s by (auto simp: cells_seq_rm_def ok_lengths [OF ok])
qed

definition cell_seq_keep :: "nat \<Rightarrow> kv_cell \<Rightarrow> kv_cell" where
  "cell_seq_keep s x =
     (if s \<in> cell_seq x then x\<lparr>cell_seq := {s}\<rparr> else if cell_seq x \<noteq> {} then cell_none else x)"

lemma cells_seq_keep_ok:
  assumes ok: "cells_ok c" and i: "i < cells_size c"
    and named: "kc_pos c ! i = -1 \<or> kc_seq c ! i \<noteq> {}"
  shows "\<exists>c'. cells_seq_keep i s c = Some (c', s \<notin> kc_seq c ! i \<and> kc_seq c ! i \<noteq> {}) \<and> cells_ok c'
            \<and> cells_abs c' = (cells_abs c)[i := cell_seq_keep s (cell_at c i)]"
proof -
  from seq_pos_rm_ok [OF ok i] obtain sp where
    sp: "seq_pos_rm i c = Some (c\<lparr>kc_seq_pos := sp\<rparr>)"
      "counts sp (\<lambda>s p. hits (cells_abs c) s p - hit (cell_at c i) s p)" .
  let ?x = "cell_seq_keep s (cell_at c i)"
  consider "s \<in> kc_seq c ! i" | "s \<notin> kc_seq c ! i" "kc_seq c ! i \<noteq> {}" | "kc_seq c ! i = {}" by blast
  then show ?thesis
  proof cases
    case 1
    let ?p = "kc_pos c ! i"
    let ?c = "c\<lparr>kc_seq := (kc_seq c)[i := {s}], kc_seq_pos := seq_pos_inc s ?p sp\<rparr>"
    have wf: "wf_cell ?x" using ok_wf [OF ok i] 1 by (auto simp: cell_seq_keep_def wf_cell_def)
    have p: "?p \<noteq> -1" using ok_empty_seq [OF ok i] 1 by auto
    have n: "counts (seq_pos_inc s ?p sp) (\<lambda>t q. hits (cells_abs c) t q - hit (cell_at c i) t q + hit ?x t q)"
      using seq_pos_inc_counts [OF sp(2), of s ?p] ok_hit_le [OF i, of s ?p] 1
      by (auto elim!: counts_cong simp: hit_def cell_seq_keep_def)
    have "cells_ok ?c \<and> cells_abs ?c = (cells_abs c)[i := ?x]"
      by (rule cells_ok_write [OF ok i wf])
         (use 1 p i n in \<open>auto simp: cell_seq_keep_def ok_used [OF ok]\<close>)
    with 1 sp(1) i show ?thesis by (simp add: cells_seq_keep_def)
  next
    case 2
    let ?c = "cell_clear i ((c\<lparr>kc_seq_pos := sp\<rparr>)\<lparr>kc_seq := (kc_seq c)[i := {}]\<rparr>)"
    have "cells_ok ?c \<and> cells_abs ?c = (cells_abs c)[i := cell_none]"
      by (rule cells_ok_write [OF ok i]) (use sp(2) in \<open>simp_all add: cell_clear_def\<close>)
    with 2 sp(1) i show ?thesis by (simp add: cells_seq_keep_def cell_seq_keep_def)
  next
    case 3
    then have "?x = cell_at c i" by (simp add: cell_seq_keep_def)
    with 3 named i ok show ?thesis by (auto simp: cells_seq_keep_def)
  qed
qed


lemma cells_seq_add_ok:
  assumes ok: "cells_ok c" and i: "i < cells_size c" and p: "kc_pos c ! i \<noteq> -1"
    and s: "s \<notin> kc_seq c ! i" "s < LLAMA_MAX_SEQ"
  shows "\<exists>c'. cells_seq_add i s c = Some c' \<and> cells_ok c'
            \<and> cells_abs c' = (cells_abs c)[i := (cell_at c i)\<lparr>cell_seq := insert s (kc_seq c ! i)\<rparr>]"
proof -
  let ?x = "(cell_at c i)\<lparr>cell_seq := insert s (kc_seq c ! i)\<rparr>"
  let ?c = "c\<lparr>kc_seq := (kc_seq c)[i := insert s (kc_seq c ! i)],
              kc_seq_pos := seq_pos_inc s (kc_pos c ! i) (kc_seq_pos c)\<rparr>"
  have wf: "wf_cell ?x" using ok_wf [OF ok i] s p by (auto simp: wf_cell_def)
  have n: "counts (kc_seq_pos ?c) (\<lambda>t q. hits (cells_abs c) t q - hit (cell_at c i) t q + hit ?x t q)"
    using seq_pos_inc_counts [OF ok_counts [OF ok], of s "kc_pos c ! i"] s
    by (auto elim!: counts_cong simp: hit_def)
  have "cells_ok ?c \<and> cells_abs ?c = (cells_abs c)[i := ?x]"
    by (rule cells_ok_write [OF ok i wf]) (use n p i in \<open>auto simp: ok_used [OF ok]\<close>)
  then show ?thesis using i p s by (simp add: cells_seq_add_def)
qed

lemma pos_set_ok:
  assumes ok: "cells_ok c" and i: "i < cells_size c" and p: "kc_pos c ! i = -1" "0 \<le> q"
  shows "\<exists>c'. pos_set i q c = Some c' \<and> cells_ok c'
            \<and> cells_abs c' = (cells_abs c)[i := (cell_at c i)\<lparr>cell_pos := q\<rparr>]"
proof -
  let ?x = "(cell_at c i)\<lparr>cell_pos := q\<rparr>"
  let ?c = "c\<lparr>kc_pos := (kc_pos c)[i := q], kc_used := insert i (kc_used c)\<rparr>"
  note e = ok_empty_seq [OF ok i p(1)]
  have wf: "wf_cell ?x" using ok_wf [OF ok i] p by (auto simp: wf_cell_def)
  have n: "counts (kc_seq_pos c) (\<lambda>t q. hits (cells_abs c) t q - hit (cell_at c i) t q + hit ?x t q)"
    using ok_counts [OF ok] e by (simp add: hit_def)
  have "cells_ok ?c \<and> cells_abs ?c = (cells_abs c)[i := ?x]"
    by (rule cells_ok_write [OF ok i wf]) (use n p in auto)
  then show ?thesis using i p e by (simp add: pos_set_def)
qed

lemma ext_set_ok:
  assumes ok: "cells_ok c" and i: "i < cells_size c"
  shows "\<exists>c'. ext_set i e c = Some c' \<and> cells_ok c'
            \<and> cells_abs c' = (cells_abs c)[i := (cell_at c i)\<lparr>cell_ext := e\<rparr>]"
proof -
  let ?x = "(cell_at c i)\<lparr>cell_ext := e\<rparr>"
  let ?c = "c\<lparr>kc_ext := (kc_ext c)[i := e]\<rparr>"
  have wf: "wf_cell ?x" using ok_wf [OF ok i] by (auto simp: wf_cell_def)
  have n: "counts (kc_seq_pos c) (\<lambda>t q. hits (cells_abs c) t q - hit (cell_at c i) t q + hit ?x t q)"
    using ok_counts [OF ok] by (simp add: hit_def)
  have "cells_ok ?c \<and> cells_abs ?c = (cells_abs c)[i := ?x]"
    by (rule cells_ok_write [OF ok i wf]) (use n i in \<open>auto simp: ok_used [OF ok]\<close>)
  then show ?thesis using i by (simp add: ext_set_def ok_lengths [OF ok])
qed

text \<open>A shift that makes the position negative empties the cell (its \<open>ext\<close> stays).\<close>

definition cell_pos_add :: "int \<Rightarrow> kv_cell \<Rightarrow> kv_cell" where
  "cell_pos_add d x =
     (if cell_pos x + d < 0 then x\<lparr>cell_pos := -1, cell_shift := 0, cell_seq := {}\<rparr>
      else x\<lparr>cell_pos := cell_pos x + d, cell_shift := cell_shift x + d\<rparr>)"

lemma pos_add_ok:
  assumes ok: "cells_ok c" and i: "i < cells_size c" and p: "kc_pos c ! i \<noteq> -1"
  shows "\<exists>c'. pos_add i d c = Some (c', kc_pos c ! i + d < 0) \<and> cells_ok c' \<and> kc_has_shift c'
            \<and> cells_abs c' = (cells_abs c)[i := cell_pos_add d (cell_at c i)]"
proof -
  from seq_pos_rm_ok [OF ok i] obtain sp where
    sp: "seq_pos_rm i c = Some (c\<lparr>kc_seq_pos := sp\<rparr>)"
      "counts sp (\<lambda>s p. hits (cells_abs c) s p - hit (cell_at c i) s p)" .
  let ?x = "cell_pos_add d (cell_at c i)"
  let ?c2 = "c\<lparr>kc_seq_pos := sp, kc_pos := (kc_pos c)[i := kc_pos c ! i + d],
               kc_shift := (kc_shift c)[i := kc_shift c ! i + d], kc_has_shift := True\<rparr>"
  note len = ok_lengths [OF ok]
  show ?thesis
  proof (cases "kc_pos c ! i + d < 0")
    case True
    let ?c = "?c2\<lparr>kc_seq := (kc_seq c)[i := {}], kc_pos := (kc_pos c)[i := -1],
                 kc_shift := (kc_shift c)[i := 0], kc_used := kc_used c - {i}\<rparr>"
    have wf: "wf_cell ?x" using True by (simp add: cell_pos_add_def wf_cell_def)
    have "cells_ok ?c \<and> cells_abs ?c = (cells_abs c)[i := ?x]"
      by (rule cells_ok_write [OF ok i wf]) (use True sp(2) in \<open>simp_all add: cell_pos_add_def hit_def\<close>)
    with True sp(1) i p show ?thesis by (simp add: pos_add_def len)
  next
    case False
    have wf: "wf_cell ?x" using False ok_wf [OF ok i] by (simp add: cell_pos_add_def wf_cell_def)
    have at: "cell_at ?c2 i = ?x" using False i len by (simp add: cell_at_def cell_pos_add_def)
    obtain sp' where sp': "seq_pos_add i ?c2 = ?c2\<lparr>kc_seq_pos := sp'\<rparr>"
      "counts sp' (\<lambda>s p. hits (cells_abs c) s p - hit (cell_at c i) s p + hit (cell_at ?c2 i) s p)"
    proof (rule seq_pos_add_ok)
      show "counts (kc_seq_pos ?c2) (\<lambda>s p. hits (cells_abs c) s p - hit (cell_at c i) s p)"
        using sp(2) by simp
      show "cell_seq (cell_at ?c2 i) \<subseteq> {..<LLAMA_MAX_SEQ}" using wf at by (simp add: wf_cell_def)
    qed (rule i)
    have n: "counts sp' (\<lambda>s p. hits (cells_abs c) s p - hit (cell_at c i) s p + hit ?x s p)"
      using sp'(2) by (simp only: at)
    have "cells_ok (?c2\<lparr>kc_seq_pos := sp'\<rparr>) \<and> cells_abs (?c2\<lparr>kc_seq_pos := sp'\<rparr>) = (cells_abs c)[i := ?x]"
      by (rule cells_ok_write [OF ok i wf])
         (use False n p i in \<open>auto simp: cell_pos_add_def ok_used [OF ok]\<close>)
    with False sp(1) sp'(1) i p show ?thesis by (simp add: pos_add_def len Let_def)
  qed
qed

definition cell_pos_div :: "int \<Rightarrow> kv_cell \<Rightarrow> kv_cell" where
  "cell_pos_div d x =
     x\<lparr>cell_pos := cell_pos x sdiv d,
       cell_shift := cell_shift x + (cell_pos x - cell_pos x sdiv d)\<rparr>"

lemma pos_div_ok:
  assumes ok: "cells_ok c" and i: "i < cells_size c" and p: "kc_pos c ! i \<noteq> -1" and d: "0 < d"
  shows "\<exists>c'. pos_div i d c = Some c' \<and> cells_ok c' \<and> kc_has_shift c'
            \<and> cells_abs c' = (cells_abs c)[i := cell_pos_div d (cell_at c i)]"
proof -
  from seq_pos_rm_ok [OF ok i] obtain sp where
    sp: "seq_pos_rm i c = Some (c\<lparr>kc_seq_pos := sp\<rparr>)"
      "counts sp (\<lambda>s p. hits (cells_abs c) s p - hit (cell_at c i) s p)" .
  let ?x = "cell_pos_div d (cell_at c i)"
  let ?q = "kc_pos c ! i sdiv d"
  let ?c3 = "c\<lparr>kc_seq_pos := sp, kc_pos := (kc_pos c)[i := ?q],
               kc_shift := (kc_shift c)[i := kc_shift c ! i + (kc_pos c ! i - ?q)]\<rparr>"
  note len = ok_lengths [OF ok]
  have "0 \<le> kc_pos c ! i" using ok_pos [OF ok i] p by simp
  then have q: "0 \<le> ?q" using d by (simp add: signed_divide_int_def sgn_if pos_imp_zdiv_nonneg_iff)
  have wf: "wf_cell ?x" using q ok_wf [OF ok i] by (simp add: cell_pos_div_def wf_cell_def)
  have at: "cell_at ?c3 i = ?x" using i len by (simp add: cell_at_def cell_pos_div_def)
  obtain sp' where sp': "seq_pos_add i ?c3 = ?c3\<lparr>kc_seq_pos := sp'\<rparr>"
    "counts sp' (\<lambda>s p. hits (cells_abs c) s p - hit (cell_at c i) s p + hit (cell_at ?c3 i) s p)"
  proof (rule seq_pos_add_ok)
    show "counts (kc_seq_pos ?c3) (\<lambda>s p. hits (cells_abs c) s p - hit (cell_at c i) s p)"
      using sp(2) by simp
    show "cell_seq (cell_at ?c3 i) \<subseteq> {..<LLAMA_MAX_SEQ}" using wf at by (simp add: wf_cell_def)
  qed (rule i)
  have n: "counts sp' (\<lambda>s p. hits (cells_abs c) s p - hit (cell_at c i) s p + hit ?x s p)"
    using sp'(2) by (simp only: at)
  let ?c = "?c3\<lparr>kc_seq_pos := sp', kc_has_shift := True\<rparr>"
  have "cells_ok ?c \<and> cells_abs ?c = (cells_abs c)[i := ?x]"
    by (rule cells_ok_write [OF ok i wf]) (use n p q i in \<open>auto simp: cell_pos_div_def ok_used [OF ok]\<close>)
  with sp(1) sp'(1) i p d show ?thesis by (simp add: pos_div_def len Let_def)
qed


lemma map_const_replicate: "map (\<lambda>_. a) xs = replicate (length xs) a"
  by (induction xs) simp_all

lemma cells_reset_ok:
  assumes "length (kc_ext c) = cells_size c" "length (kc_shift c) = cells_size c"
    "length (kc_seq c) = cells_size c"
  shows "cells_ok (cells_reset c) \<and> cells_abs (cells_reset c) = replicate (cells_size c) cell_none"
proof -
  have sz: "cells_size (cells_reset c) = cells_size c" by (simp add: cells_reset_def cells_size_def)
  have at: "cell_at (cells_reset c) i = cell_none" if "i < cells_size c" for i
    using that assms by (simp add: cell_at_def cells_reset_def cell_none_def cells_size_def)
  have abs: "cells_abs (cells_reset c) = replicate (cells_size c) cell_none"
    by (rule nth_equalityI) (simp_all add: sz at)
  have "counts (kc_seq_pos (cells_reset c)) (hits (cells_abs (cells_reset c)))"
    unfolding abs by (simp add: counts_def hits_def cells_reset_def sum_list_replicate)
  moreover have "kc_used (cells_reset c) =
      {i. i < cells_size (cells_reset c) \<and> kc_pos (cells_reset c) ! i \<noteq> -1}"
    by (auto simp: cells_reset_def cells_size_def)
  moreover have "length (kc_ext (cells_reset c)) = cells_size c"
    "length (kc_shift (cells_reset c)) = cells_size c" "length (kc_seq (cells_reset c)) = cells_size c"
    using assms by (simp_all add: cells_reset_def)
  ultimately show ?thesis using abs at by (simp add: cells_ok_def sz)
qed

lemma cells_resize_ok: "cells_ok (cells_resize n) \<and> cells_abs (cells_resize n) = replicate n cell_none"
  unfolding cells_resize_def using cells_reset_ok by (simp add: cells_size_def)

lemma cells_size_resize [simp]: "cells_size (cells_resize n) = n"
  using cells_resize_ok [of n] length_cells_abs [of "cells_resize n"] by simp

lemma cells_size_abs: "cells_abs c' = (cells_abs c)[i := x] \<Longrightarrow> cells_size c' = cells_size c"
  by (metis length_cells_abs length_list_update)

lemma cell_at_update:
  assumes "cells_abs c' = (cells_abs c)[k := x]" and "k < cells_size c" and "i < cells_size c"
  shows "cell_at c' i = (if i = k then x else cell_at c i)"
  using nth_cells_abs [of i c'] assms cells_size_abs [OF assms(1)]
  by (auto simp: nth_list_update split: if_splits)

lemma abs_nthD:
  assumes "cells_abs c = cs" and "i < cells_size c"
  shows "kc_pos c ! i = cell_pos (cs ! i)" "kc_ext c ! i = cell_ext (cs ! i)"
    "kc_shift c ! i = cell_shift (cs ! i)" "kc_seq c ! i = cell_seq (cs ! i)"
  using assms nth_cells_abs [of i c] by auto

subsection \<open>Restoring cells\<close>

lemma seq_pos_rm_used:
  "seq_pos_rm i (c\<lparr>kc_used := u\<rparr>) =
     map_option (\<lambda>c'. c\<lparr>kc_used := u, kc_seq_pos := kc_seq_pos c'\<rparr>) (seq_pos_rm i c)"
proof -
  let ?f = "\<lambda>s sp. if s \<in> kc_seq c ! i then seq_pos_dec s (kc_pos c ! i) sp else Some sp"
  have "(\<lambda>s sp. if s \<in> kc_seq (c\<lparr>kc_used := u\<rparr>) ! i
                then seq_pos_dec s (kc_pos (c\<lparr>kc_used := u\<rparr>) ! i) sp else Some sp) = ?f"
    by (simp cong: if_cong)
  then show ?thesis
    by (cases "foldM ?f [0..<LLAMA_MAX_SEQ] (kc_seq_pos c)") (simp_all add: seq_pos_rm_def)
qed

lemma seq_pos_add_shift [simp]: "kc_shift (seq_pos_add i c) = kc_shift c"
  by (simp add: seq_pos_add_def)

lemma set_cell_ok:
  assumes ok: "cells_ok c" and i: "i < cells_size c" and z: "kc_shift c ! i = 0"
    and x: "x = (cell_at c i)\<lparr>cell_pos := kc_pos other ! j, cell_ext := kc_ext other ! j,
                    cell_seq := kc_seq other ! j\<rparr>" "wf_cell x"
  shows "\<exists>c'. set_cell i j other c = Some c' \<and> cells_ok c' \<and> cells_abs c' = (cells_abs c)[i := x]"
proof -
  let ?o = "kc_pos other ! j"
  let ?u = "if ?o = -1 then kc_used c - {i} else insert i (kc_used c)"
  note len = ok_lengths [OF ok]
  have used: "kc_pos c ! i = -1 \<Longrightarrow> kc_used c - {i} = kc_used c"
    "kc_pos c ! i \<noteq> -1 \<Longrightarrow> insert i (kc_used c) = kc_used c"
    using i by (auto simp: ok_used [OF ok])
  from seq_pos_rm_ok [OF ok i] obtain sp where
    sp: "seq_pos_rm i c = Some (c\<lparr>kc_seq_pos := sp\<rparr>)"
      "counts sp (\<lambda>s p. hits (cells_abs c) s p - hit (cell_at c i) s p)" .
  have rm: "seq_pos_rm i (c\<lparr>kc_used := u\<rparr>) = Some (c\<lparr>kc_used := u, kc_seq_pos := sp\<rparr>)" for u
    by (simp add: seq_pos_rm_used sp(1))
  let ?sp = "if kc_pos c ! i \<noteq> -1 then sp else kc_seq_pos c"
  have n: "counts ?sp (\<lambda>s p. hits (cells_abs c) s p - hit (cell_at c i) s p)"
    using sp(2) ok_counts [OF ok] ok_empty_seq [OF ok i] by (auto simp: hit_def)
  let ?c4 = "c\<lparr>kc_used := ?u, kc_seq_pos := ?sp, kc_pos := (kc_pos c)[i := ?o],
               kc_ext := (kc_ext c)[i := kc_ext other ! j], kc_seq := (kc_seq c)[i := kc_seq other ! j]\<rparr>"
  have at: "cell_at ?c4 i = x" using i len by (simp add: cell_at_def x(1))
  obtain sp' where sp': "seq_pos_add i ?c4 = ?c4\<lparr>kc_seq_pos := sp'\<rparr>"
    "counts sp' (\<lambda>s p. hits (cells_abs c) s p - hit (cell_at c i) s p + hit (cell_at ?c4 i) s p)"
  proof (rule seq_pos_add_ok)
    show "counts (kc_seq_pos ?c4) (\<lambda>s p. hits (cells_abs c) s p - hit (cell_at c i) s p)" using n by simp
    show "cell_seq (cell_at ?c4 i) \<subseteq> {..<LLAMA_MAX_SEQ}" using x(2) at by (simp add: wf_cell_def)
  qed (rule i)
  define S where "S = (if ?o \<noteq> -1 then sp' else ?sp)"
  have c5: "(if ?o \<noteq> -1 then seq_pos_add i ?c4 else ?c4) = ?c4\<lparr>kc_seq_pos := S\<rparr>"
  proof (cases "?o = -1")
    case True
    then show ?thesis by (simp add: S_def)
  next
    case False
    then show ?thesis using sp'(1) by (simp only: S_def if_True simp_thms)
  qed
  have "counts S (\<lambda>s p. hits (cells_abs c) s p - hit (cell_at c i) s p + hit x s p)"
  proof (cases "?o = -1")
    case True
    then have "hit x s p = 0" for s p using x by (simp add: wf_cell_def hit_def)
    with n True show ?thesis by (simp add: S_def)
  next
    case False
    then have "S = sp'" by (simp add: S_def)
    with sp'(2) show ?thesis by (simp only: at)
  qed
  then have "cells_ok (?c4\<lparr>kc_seq_pos := S\<rparr>) \<and> cells_abs (?c4\<lparr>kc_seq_pos := S\<rparr>) = (cells_abs c)[i := x]"
    by (intro cells_ok_write [OF ok i x(2)]) (simp_all add: x(1))
  moreover have "set_cell i j other c = Some (?c4\<lparr>kc_seq_pos := S\<rparr>)"
    unfolding c5 [symmetric]
    using i z len used by (simp add: set_cell_def Let_def rm sp(1))
  ultimately show ?thesis by blast
qed


lemma cells_cp_ok:
  assumes "\<And>j. j < length idxs \<Longrightarrow> idxs ! j < cells_size c \<and> kc_shift c ! (idxs ! j) = 0"
  shows "\<exists>res. cells_cp idxs c = Some res \<and> cells_size res = length idxs
    \<and> (\<forall>j < length idxs. kc_pos res ! j = kc_pos c ! (idxs ! j) \<and> kc_ext res ! j = kc_ext c ! (idxs ! j)
          \<and> kc_seq res ! j = kc_seq c ! (idxs ! j))"
proof -
  let ?n = "length idxs"
  let ?P = "\<lambda>k res. length (kc_pos res) = ?n \<and> length (kc_ext res) = ?n \<and> length (kc_seq res) = ?n
      \<and> (\<forall>j < k. kc_pos res ! j = kc_pos c ! (idxs ! j) \<and> kc_ext res ! j = kc_ext c ! (idxs ! j)
          \<and> kc_seq res ! j = kc_seq c ! (idxs ! j))"
  have "\<exists>res. cells_cp idxs c = Some res \<and> ?P ?n res"
    unfolding cells_cp_def
  proof (rule foldM_upt_rule [of ?P])
    show "?P 0 (cells_resize ?n)" by (simp add: cells_resize_def cells_reset_def)
  next
    fix j res assume "j < ?n" "?P j res"
    then show "\<exists>t'. (do { let idx = idxs ! j; require (idx < cells_size c); require (kc_shift c ! idx = 0);
         Some (res\<lparr>kc_pos := (kc_pos res)[j := kc_pos c ! idx], kc_ext := (kc_ext res)[j := kc_ext c ! idx],
                   kc_seq := (kc_seq res)[j := kc_seq c ! idx]\<rparr>) }) = Some t' \<and> ?P (Suc j) t'"
      using assms [of j] by (auto simp: less_Suc_eq nth_list_update Let_def)
  qed
  then show ?thesis by (auto simp: cells_size_def)
qed

text \<open>
  Restoring saved cells undoes every change that was confined to them.
\<close>

lemma cells_set_restores:
  assumes ok0: "cells_ok c0" and ok: "cells_ok c" and len: "cells_size c = cells_size c0"
    and idx: "distinct idxs" "\<And>j. j < length idxs \<Longrightarrow> idxs ! j < cells_size c0"
    and z0: "\<And>j. j < length idxs \<Longrightarrow> kc_shift c0 ! (idxs ! j) = 0"
    and z: "\<And>j. j < length idxs \<Longrightarrow> kc_shift c ! (idxs ! j) = 0"
    and same: "\<And>i. i < cells_size c0 \<Longrightarrow> i \<notin> set idxs \<Longrightarrow> cell_at c i = cell_at c0 i"
    and saved: "cells_cp idxs c0 = Some sv"
  shows "\<exists>c'. cells_set idxs sv c = Some c' \<and> cells_ok c' \<and> cells_abs c' = cells_abs c0"
proof -
  let ?n = "length idxs" and ?s = "cells_size c0"
  have sv: "cells_size sv = ?n" "\<And>j. j < ?n \<Longrightarrow> kc_pos sv ! j = kc_pos c0 ! (idxs ! j)
      \<and> kc_ext sv ! j = kc_ext c0 ! (idxs ! j) \<and> kc_seq sv ! j = kc_seq c0 ! (idxs ! j)"
    using cells_cp_ok [of idxs c0] idx(2) z0 saved by auto
  let ?P = "\<lambda>k t. cells_ok t \<and> cells_size t = ?s
      \<and> (\<forall>i < ?s. cell_at t i = (if i \<in> set (take k idxs) then cell_at c0 i else cell_at c i))"
  have "\<exists>t. foldM (\<lambda>j c. set_cell (idxs ! j) j sv c) [0..<?n] c = Some t \<and> ?P ?n t"
  proof (rule foldM_upt_rule [of ?P])
    fix j t assume j: "j < ?n" and t: "?P j t"
    let ?i = "idxs ! j"
    note i = idx(2) [OF j]
    have fresh: "?i \<notin> set (take j idxs)" using idx(1) j
      by (metis in_set_conv_nth length_take less_imp_le min.absorb2 nth_eq_iff_index_eq
          nth_take order_less_irrefl order_less_trans)
    then have ti: "cell_at t ?i = cell_at c ?i" using t i by simp
    have x: "cell_at c0 ?i = (cell_at t ?i)\<lparr>cell_pos := kc_pos sv ! j, cell_ext := kc_ext sv ! j,
                cell_seq := kc_seq sv ! j\<rparr>"
      using sv(2) [OF j] z0 [OF j] z [OF j] unfolding ti by (simp add: cell_at_def)
    have "kc_shift t ! ?i = 0" using ti z [OF j] by (metis cell_at_simps(3))
    then have "\<exists>t'. set_cell ?i j sv t = Some t' \<and> cells_ok t'
        \<and> cells_abs t' = (cells_abs t)[?i := cell_at c0 ?i]"
      using t i by (intro set_cell_ok x ok_wf [OF ok0]) auto
    then obtain t' where t': "set_cell ?i j sv t = Some t'" "cells_ok t'"
      "cells_abs t' = (cells_abs t)[?i := cell_at c0 ?i]" by blast
    have size': "cells_size t' = ?s" using cells_size_abs [OF t'(3)] t by simp
    have "cell_at t' i = (if i = ?i then cell_at c0 ?i else cell_at t i)" if "i < ?s" for i
      using cell_at_update [OF t'(3), of i] that t i by simp
    then have "?P (Suc j) t'" using t' size' t j by (auto simp: take_Suc_conv_app_nth)
    with t'(1) show "\<exists>t'. set_cell ?i j sv t = Some t' \<and> ?P (Suc j) t'" by blast
  qed (use ok len in simp)
  then obtain t where t: "foldM (\<lambda>j c. set_cell (idxs ! j) j sv c) [0..<?n] c = Some t" "?P ?n t" by blast
  have "cells_abs t = cells_abs c0"
    by (rule nth_equalityI) (use t(2) same in auto)
  with t sv(1) show ?thesis by (auto simp: cells_set_def)
qed

subsection \<open>The position index answers for the cells\<close>

definition positions :: "kv_cell list \<Rightarrow> nat \<Rightarrow> llama_pos set" where
  "positions cs s = {cell_pos x |x. x \<in> set cs \<and> s \<in> cell_seq x}"

lemma finite_positions [simp]: "finite (positions cs s)"
proof -
  have "positions cs s \<subseteq> cell_pos ` set cs" by (auto simp: positions_def)
  then show ?thesis by (rule finite_subset) simp
qed

lemma seq_pos_keys: "cells_ok c \<Longrightarrow> fst ` set (kc_seq_pos c s) = positions (cells_abs c) s"
proof -
  assume "cells_ok c"
  then have "dom (map_of (kc_seq_pos c s)) = {p. hits (cells_abs c) s p \<noteq> 0}"
    using countsD [OF ok_counts, of c s] by (auto simp: dom_def split: if_splits)
  then show ?thesis by (auto simp: dom_map_of_conv_image_fst hits_pos_iff positions_def)
qed

lemma seq_pos_min_max:
  assumes "cells_ok c"
  shows "cells_seq_pos_min c s = (if positions (cells_abs c) s = {} then -1 else Min (positions (cells_abs c) s))"
    and "cells_seq_pos_max c s = (if positions (cells_abs c) s = {} then -1 else Max (positions (cells_abs c) s))"
  using seq_pos_keys [OF assms, of s]
  by (auto simp: cells_seq_pos_min_def cells_seq_pos_max_def)

end
