(* ===== verification/Kv_Cache.thy ===== *)
theory Kv_Cache
  imports Kv_Cells
begin

text \<open>
  The KV cache of \<open>llama-kv-cache.cpp\<close>: class \<open>llama_kv_cache\<close>, its operations on
  sequences (\<open>seq_rm\<close>, \<open>seq_cp\<close>, \<open>seq_keep\<close>, \<open>seq_add\<close>, \<open>seq_div\<close>, \<open>seq_pos_min\<close>,
  \<open>seq_pos_max\<close>, \<open>clear\<close>) and the placement of a batch (\<open>find_slot\<close>, \<open>apply_ubatch\<close>,
  \<open>prepare\<close>). \<open>None\<close> is a failed assertion, as in the cell table. The tensors and their
  buffers are not part of the state; \<open>kv_sc_info\<close> is the queue of stream copies that
  \<open>seq_cp\<close> leaves for the next update. \<open>kv_other\<close> stands for the cache whose cells are
  shared, through the two methods that are called on it.
\<close>

datatype swa_type = LLAMA_SWA_TYPE_NONE | LLAMA_SWA_TYPE_STANDARD | LLAMA_SWA_TYPE_CHUNKED
  | LLAMA_SWA_TYPE_SYMMETRIC

definition is_masked_swa :: "int \<Rightarrow> swa_type \<Rightarrow> llama_pos \<Rightarrow> llama_pos \<Rightarrow> bool option" where
  "is_masked_swa n_swa ty p0 p1 = do {
     require (p0 \<ge> 0 \<and> p1 \<ge> 0);
     (case ty of
        LLAMA_SWA_TYPE_NONE \<Rightarrow> Some False
      | LLAMA_SWA_TYPE_STANDARD \<Rightarrow> Some (p1 - p0 \<ge> n_swa)
      | LLAMA_SWA_TYPE_CHUNKED \<Rightarrow> do { require (n_swa \<noteq> 0); Some (p0 < (p1 div n_swa) * n_swa) }
      | LLAMA_SWA_TYPE_SYMMETRIC \<Rightarrow>
          (let half_n_swa = n_swa div 2; pos_diff = p1 - p0
           in Some (pos_diff < - half_n_swa \<or> pos_diff > half_n_swa))) }"

record kv_cache =
  kv_other :: "((int \<Rightarrow> llama_pos) \<times> (int \<Rightarrow> llama_pos)) option"
  kv_n_stream :: nat
  kv_seq_to_stream :: "nat list"
  kv_v_cells :: "kv_cells list"
  kv_v_heads :: "nat list"
  kv_sc_info :: "(nat \<times> nat) list"
  kv_n_swa :: int
  kv_swa_type :: swa_type
  kv_n_pos_per_embd :: nat

definition kv_get_size :: "kv_cache \<Rightarrow> nat" where
  "kv_get_size k = cells_size (kv_v_cells k ! 0)"

text \<open>
  The cell state that the constructor sets up for a cache with its own cells
  (\<open>other == nullptr\<close>); the tensors it allocates are not modelled.
\<close>

definition kv_new :: "bool \<Rightarrow> nat \<Rightarrow> nat \<Rightarrow> nat \<Rightarrow> int \<Rightarrow> swa_type \<Rightarrow> nat \<Rightarrow> kv_cache option" where
  "kv_new unified kv_size n_seq_max n_pad n_swa ty n_pos = do {
     let n_stream = (if unified then 1 else n_seq_max);
     require (n_pad \<noteq> 0 \<and> kv_size mod n_pad = 0);
     require (n_stream = 1 \<or> n_stream = n_seq_max);
     Some \<lparr>kv_other = None, kv_n_stream = n_stream,
           kv_seq_to_stream = (if n_stream > 1 then [0..<n_stream] else replicate LLAMA_MAX_SEQ 0),
           kv_v_cells = replicate n_stream (cells_resize kv_size), kv_v_heads = replicate n_stream 0,
           kv_sc_info = [], kv_n_swa = n_swa, kv_swa_type = ty, kv_n_pos_per_embd = n_pos\<rparr> }"

subsection \<open>Operations on sequences\<close>

definition kv_clear :: "kv_cache \<Rightarrow> kv_cache" where
  "kv_clear k = k\<lparr>kv_v_cells := map cells_reset (kv_v_cells k), kv_v_heads := map (\<lambda>_. 0) (kv_v_heads k)\<rparr>"

text \<open>
  The loop that \<open>seq_rm\<close>, \<open>seq_keep\<close> and \<open>seq_add\<close> run over the cells of a stream: \<open>body\<close>
  says whether the cell became empty, and \<open>new_head\<close> remembers the first such cell.
\<close>

definition scan_cells ::
  "(nat \<Rightarrow> kv_cells \<Rightarrow> (kv_cells \<times> bool) option) \<Rightarrow> kv_cells \<Rightarrow> (kv_cells \<times> nat) option" where
  "scan_cells body cells =
     foldM (\<lambda>i (c, new_head). do {
         (c', freed) \<leftarrow> body i c;
         Some (c', if freed \<and> new_head = cells_size c' then i else new_head) })
       [0..<cells_size cells] (cells, cells_size cells)"

definition put_stream :: "nat \<Rightarrow> kv_cells \<Rightarrow> nat \<Rightarrow> kv_cache \<Rightarrow> kv_cache" where
  "put_stream st c h k = k\<lparr>kv_v_cells := (kv_v_cells k)[st := c], kv_v_heads := (kv_v_heads k)[st := h]\<rparr>"

text \<open>\<open>if (new_head != cells.size() && new_head < head) head = new_head;\<close>\<close>

definition lower_head :: "nat \<Rightarrow> kv_cells \<Rightarrow> nat \<Rightarrow> nat" where
  "lower_head new_head c head = (if new_head \<noteq> cells_size c \<and> new_head < head then new_head else head)"

definition norm_p0 :: "llama_pos \<Rightarrow> llama_pos" where
  "norm_p0 p0 = (if p0 < 0 then 0 else p0)"

definition norm_p1 :: "llama_pos \<Rightarrow> llama_pos" where
  "norm_p1 p1 = (if p1 < 0 then INT32_MAX else p1)"

definition valid_seq :: "kv_cache \<Rightarrow> int \<Rightarrow> bool" where
  "valid_seq k s \<longleftrightarrow> 0 \<le> s \<and> s < int (length (kv_seq_to_stream k))"

definition stream_of :: "kv_cache \<Rightarrow> int \<Rightarrow> nat" where
  "stream_of k s = kv_seq_to_stream k ! nat s"

definition seq_rm_body ::
  "nat \<Rightarrow> llama_pos \<Rightarrow> llama_pos \<Rightarrow> nat \<Rightarrow> kv_cells \<Rightarrow> (kv_cells \<times> bool) option" where
  "seq_rm_body s p0 p1 i c = do {
     inr \<leftarrow> pos_in c i p0 p1;
     if \<not> inr then Some (c, False)
     else do {
       has \<leftarrow> seq_has c i s;
       if has then cells_seq_rm i s c else Some (c, False) } }"

definition rm_any_body ::
  "llama_pos \<Rightarrow> llama_pos \<Rightarrow> nat \<Rightarrow> kv_cells \<Rightarrow> (kv_cells \<times> bool) option" where
  "rm_any_body p0 p1 i c = do {
     inr \<leftarrow> pos_in c i p0 p1;
     if \<not> inr then Some (c, False) else do { c' \<leftarrow> cells_rm i c; Some (c', True) } }"

definition scan_stream ::
  "(nat \<Rightarrow> kv_cells \<Rightarrow> (kv_cells \<times> bool) option) \<Rightarrow> nat \<Rightarrow> kv_cache \<Rightarrow> kv_cache option" where
  "scan_stream body st k = do {
     (c, nh) \<leftarrow> scan_cells body (kv_v_cells k ! st);
     Some (put_stream st c (lower_head nh c (kv_v_heads k ! st)) k) }"

definition kv_seq_rm :: "int \<Rightarrow> llama_pos \<Rightarrow> llama_pos \<Rightarrow> kv_cache \<Rightarrow> (kv_cache \<times> bool) option" where
  "kv_seq_rm seq_id p0 p1 k =
     (if kv_other k \<noteq> None then Some (k, True)
      else do {
        require (seq_id = -1 \<or> valid_seq k seq_id);
        let p0 = norm_p0 p0;
        let p1 = norm_p1 p1;
        k' \<leftarrow> (if seq_id \<ge> 0
               then scan_stream (seq_rm_body (nat seq_id) p0 p1) (stream_of k seq_id) k
               else foldM (scan_stream (rm_any_body p0 p1)) [0..<kv_n_stream k] k);
        Some (k', True) })"

definition seq_cp_body ::
  "nat \<Rightarrow> nat \<Rightarrow> llama_pos \<Rightarrow> llama_pos \<Rightarrow> nat \<Rightarrow> kv_cells \<Rightarrow> kv_cells option" where
  "seq_cp_body src dst p0 p1 i c = do {
     inr \<leftarrow> pos_in c i p0 p1;
     if \<not> inr then Some c
     else do { has \<leftarrow> seq_has c i src; if has then cells_seq_add i dst c else Some c } }"

text \<open>One cell of a copy between streams: \<open>c0\<close> is the source table, \<open>c\<close> the target.\<close>

definition stream_cp_body :: "nat \<Rightarrow> nat \<Rightarrow> kv_cells \<Rightarrow> nat \<Rightarrow> kv_cells \<Rightarrow> kv_cells option" where
  "stream_cp_body src dst c0 i c = do {
     has \<leftarrow> seq_has c0 i src;
     if \<not> has then Some c
     else do {
       pos \<leftarrow> pos_get c0 i;
       shift \<leftarrow> get_shift c0 i;
       ext \<leftarrow> ext_get c0 i;
       let pos = (if shift \<noteq> 0 then pos - shift else pos);
       require (shift \<noteq> 0 \<longrightarrow> pos \<ge> 0);
       c1 \<leftarrow> pos_set i pos c;
       c2 \<leftarrow> cells_seq_add i dst c1;
       c3 \<leftarrow> (if shift \<noteq> 0 then map_option fst (pos_add i shift c2) else Some c2);
       ext_set i ext c3 } }"

definition kv_seq_cp :: "int \<Rightarrow> int \<Rightarrow> llama_pos \<Rightarrow> llama_pos \<Rightarrow> kv_cache \<Rightarrow> kv_cache option" where
  "kv_seq_cp src dst p0 p1 k =
     (if kv_other k \<noteq> None then Some k
      else do {
        require (valid_seq k src);
        require (valid_seq k dst);
        let s0 = stream_of k src;
        let s1 = stream_of k dst;
        if s0 = s1 then
          (if src = dst then Some k
           else do {
             c \<leftarrow> foldM (seq_cp_body (nat src) (nat dst) (norm_p0 p0) (norm_p1 p1))
                   [0..<cells_size (kv_v_cells k ! s0)] (kv_v_cells k ! s0);
             Some (k\<lparr>kv_v_cells := (kv_v_cells k)[s0 := c]\<rparr>) })
        else do {
          require (\<not> (p0 > 0 \<and> p0 + 1 < int (kv_get_size k)) \<and> \<not> (p1 > 0 \<and> p1 + 1 < int (kv_get_size k)));
          c \<leftarrow> foldM (stream_cp_body (nat src) (nat dst) (kv_v_cells k ! s0))
                [0..<cells_size (kv_v_cells k ! s0)] (cells_reset (kv_v_cells k ! s1));
          Some ((put_stream s1 c (kv_v_heads k ! s0) k)\<lparr>kv_sc_info := kv_sc_info k @ [(s0, s1)]\<rparr>) } })"

definition kv_seq_keep :: "int \<Rightarrow> kv_cache \<Rightarrow> kv_cache option" where
  "kv_seq_keep seq_id k =
     (if kv_other k \<noteq> None then Some k
      else do {
        require (valid_seq k seq_id);
        scan_stream (\<lambda>i. cells_seq_keep i (nat seq_id)) (stream_of k seq_id) k })"

definition seq_add_body ::
  "nat \<Rightarrow> llama_pos \<Rightarrow> llama_pos \<Rightarrow> int \<Rightarrow> nat \<Rightarrow> kv_cells \<Rightarrow> (kv_cells \<times> bool) option" where
  "seq_add_body s p0 p1 shift i c = do {
     inr \<leftarrow> pos_in c i p0 p1;
     if \<not> inr then Some (c, False)
     else do { has \<leftarrow> seq_has c i s; if has then pos_add i shift c else Some (c, False) } }"

definition kv_seq_add :: "int \<Rightarrow> llama_pos \<Rightarrow> llama_pos \<Rightarrow> int \<Rightarrow> kv_cache \<Rightarrow> kv_cache option" where
  "kv_seq_add seq_id p0 p1 shift k =
     (if kv_other k \<noteq> None then Some k
      else do {
        require (valid_seq k seq_id);
        require (kv_n_pos_per_embd k = 1);
        if shift = 0 \<or> norm_p0 p0 = norm_p1 p1 then Some k
        else do {
          let st = stream_of k seq_id;
          (c, nh) \<leftarrow> scan_cells (seq_add_body (nat seq_id) (norm_p0 p0) (norm_p1 p1) shift) (kv_v_cells k ! st);
          Some (put_stream st c (if nh \<noteq> cells_size c then nh else 0) k) } })"

definition seq_div_body ::
  "nat \<Rightarrow> llama_pos \<Rightarrow> llama_pos \<Rightarrow> int \<Rightarrow> nat \<Rightarrow> kv_cells \<Rightarrow> kv_cells option" where
  "seq_div_body s p0 p1 d i c = do {
     inr \<leftarrow> pos_in c i p0 p1;
     if \<not> inr then Some c
     else do { has \<leftarrow> seq_has c i s; if has then pos_div i d c else Some c } }"

definition kv_seq_div :: "int \<Rightarrow> llama_pos \<Rightarrow> llama_pos \<Rightarrow> int \<Rightarrow> kv_cache \<Rightarrow> kv_cache option" where
  "kv_seq_div seq_id p0 p1 d k =
     (if kv_other k \<noteq> None then Some k
      else do {
        require (valid_seq k seq_id);
        require (kv_n_pos_per_embd k = 1);
        if d = 1 \<or> norm_p0 p0 = norm_p1 p1 then Some k
        else do {
          let st = stream_of k seq_id;
          c \<leftarrow> foldM (seq_div_body (nat seq_id) (norm_p0 p0) (norm_p1 p1) d)
                [0..<cells_size (kv_v_cells k ! st)] (kv_v_cells k ! st);
          Some (k\<lparr>kv_v_cells := (kv_v_cells k)[st := c]\<rparr>) } })"

definition kv_seq_pos_min :: "int \<Rightarrow> kv_cache \<Rightarrow> llama_pos option" where
  "kv_seq_pos_min seq_id k =
     (case kv_other k of Some (f, _) \<Rightarrow> Some (f seq_id)
      | None \<Rightarrow> do { require (valid_seq k seq_id);
                    Some (cells_seq_pos_min (kv_v_cells k ! stream_of k seq_id) (nat seq_id)) })"

definition kv_seq_pos_max :: "int \<Rightarrow> kv_cache \<Rightarrow> llama_pos option" where
  "kv_seq_pos_max seq_id k =
     (case kv_other k of Some (_, f) \<Rightarrow> Some (f seq_id)
      | None \<Rightarrow> do { require (valid_seq k seq_id);
                    Some (cells_seq_pos_max (kv_v_cells k ! stream_of k seq_id) (nat seq_id)) })"

subsection \<open>Placing a batch\<close>

record ubatch =
  ub_n_tokens :: nat
  ub_n_seqs_unq :: nat
  ub_seq_id_unq :: "int list"
  ub_seq_id :: "int list list"
  ub_pos :: "llama_pos list"
  ub_is_pos_2d :: bool

record slot_info =
  si_s0 :: nat
  si_s1 :: nat
  si_strm :: "nat list"
  si_idxs :: "nat list list"

definition no_slot :: slot_info where
  "no_slot = \<lparr>si_s0 = 0, si_s1 = 0, si_strm = [], si_idxs = []\<rparr>"

text \<open>Whether a cell can take a token: it is empty, or the window has left it behind.\<close>

definition can_use_cell :: "kv_cache \<Rightarrow> kv_cells \<Rightarrow> nat \<Rightarrow> bool option" where
  "can_use_cell k cells idx = do {
     e \<leftarrow> is_empty cells idx;
     if e then Some True
     else do {
       n \<leftarrow> seq_count cells idx;
       if n = 1 then do {
         pos_cell \<leftarrow> pos_get cells idx;
         seq_id_cell \<leftarrow> seq_get cells idx;
         is_masked_swa (kv_n_swa k) (kv_swa_type k) pos_cell (cells_seq_pos_max cells seq_id_cell + 1) }
       else Some False } }"

text \<open>The \<open>for\<close> loop over \<open>n_test\<close> cells: head, number of cells tested, indices found.\<close>

fun test_cells ::
  "(nat \<Rightarrow> bool option) \<Rightarrow> bool \<Rightarrow> nat \<Rightarrow> nat \<Rightarrow> nat \<Rightarrow> nat list \<Rightarrow> (nat \<times> nat \<times> nat list) option" where
  "test_cells can cont 0 head tested idxs = Some (head, tested, idxs)"
| "test_cells can cont (Suc n) head tested idxs = do {
     u \<leftarrow> can head;
     if u then test_cells can cont n (head + 1) (tested + 1) (idxs @ [head])
     else if cont then Some (head + 1, tested + 1, idxs)
     else test_cells can cont n (head + 1) (tested + 1) idxs }"

text \<open>
  The \<open>while (true)\<close> loop. The result is \<open>None\<close> when it does not end or an assertion
  fails, \<open>Some None\<close> when it gives up (\<open>return { }\<close>), \<open>Some (Some idxs)\<close> when it breaks
  with the cells it found.
\<close>

partial_function (option) find_loop ::
  "(nat \<Rightarrow> bool option) \<Rightarrow> bool \<Rightarrow> nat \<Rightarrow> nat \<Rightarrow> nat \<Rightarrow> nat \<Rightarrow> nat \<Rightarrow> nat list \<Rightarrow> nat list option option" where
  "find_loop can cont n_tokens n_test sz head tested idxs =
     (if head + n_test > sz
      then find_loop can cont n_tokens n_test sz 0 (tested + (sz - head)) idxs
      else Option.bind (test_cells can cont n_test head tested idxs)
        (\<lambda>(head', tested', idxs').
           if length idxs' = n_tokens then Some (Some idxs')
           else if tested' \<ge> sz then Some None
           else find_loop can cont n_tokens n_test sz head' tested' (if cont then [] else idxs')))"

definition find_in_stream :: "kv_cache \<Rightarrow> nat \<Rightarrow> bool \<Rightarrow> nat \<Rightarrow> nat list option option" where
  "find_in_stream k st cont n_tokens =
     (let cells = kv_v_cells k ! st;
          h = kv_v_heads k ! st;
          head_cur = (if h > get_used cells + 2 * n_tokens then 0 else h)
      in if n_tokens > cells_size cells then Some None
         else find_loop (can_use_cell k cells) cont n_tokens (if cont then n_tokens else 1)
                (cells_size cells) head_cur 0 [])"

text \<open>The loop over the streams of the batch; \<open>no_slot\<close> is \<open>return { }\<close>.\<close>

fun find_streams ::
  "kv_cache \<Rightarrow> ubatch \<Rightarrow> bool \<Rightarrow> nat \<Rightarrow> nat list \<Rightarrow> slot_info \<Rightarrow> slot_info option" where
  "find_streams k ub cont n_tokens [] res = Some res"
| "find_streams k ub cont n_tokens (s # ss) res = do {
     let seq_id = ub_seq_id_unq ub ! s;
     require (s < length (ub_seq_id_unq ub) \<and> valid_seq k seq_id);
     require (kv_n_stream k > 1 \<longrightarrow> ub_seq_id ub ! (s * n_tokens) = [seq_id]);
     let st = stream_of k seq_id;
     r \<leftarrow> find_in_stream k st cont n_tokens;
     (case r of None \<Rightarrow> Some no_slot
      | Some idxs \<Rightarrow>
          find_streams k ub cont n_tokens ss
            \<lparr>si_s0 = min (si_s0 res) st, si_s1 = max (si_s1 res) st,
             si_strm = si_strm res @ [st], si_idxs = si_idxs res @ [idxs]\<rparr>) }"

definition kv_find_slot :: "ubatch \<Rightarrow> bool \<Rightarrow> kv_cache \<Rightarrow> slot_info option" where
  "kv_find_slot ub cont k = do {
     require (kv_n_stream k > 1 \<longrightarrow> ub_n_seqs_unq ub > 0 \<and> ub_n_tokens ub mod ub_n_seqs_unq ub = 0);
     let n_seqs = (if kv_n_stream k > 1 then ub_n_seqs_unq ub else 1);
     let n_tokens = ub_n_tokens ub div n_seqs;
     find_streams k ub cont n_tokens [0..<n_seqs]
       \<lparr>si_s0 = LLAMA_MAX_SEQ, si_s1 = 0, si_strm = [], si_idxs = []\<rparr> }"

definition si_size :: "slot_info \<Rightarrow> nat" where
  "si_size si = length (si_idxs si ! 0)"

text \<open>One token of the batch: \<open>rm\<close> is \<open>seq_pos_max_rm\<close>.\<close>

definition apply_token ::
  "slot_info \<Rightarrow> ubatch \<Rightarrow> nat \<Rightarrow> nat \<Rightarrow> kv_cache \<times> (nat \<Rightarrow> llama_pos)
     \<Rightarrow> (kv_cache \<times> (nat \<Rightarrow> llama_pos)) option" where
  "apply_token si ub s ii = (\<lambda>(k, rm). do {
     let i = s * si_size si + ii;
     let st = si_strm si ! s;
     let idx = si_idxs si ! s ! ii;
     let cells = kv_v_cells k ! st;
     e \<leftarrow> is_empty cells idx;
     (cells1, rm1) \<leftarrow> (if e then Some (cells, rm)
        else do {
          n \<leftarrow> seq_count cells idx;
          require (n = 1);
          seq_id \<leftarrow> seq_get cells idx;
          pos \<leftarrow> pos_get cells idx;
          c \<leftarrow> cells_rm idx cells;
          Some (c, rm(seq_id := max (rm seq_id) pos)) });
     cells2 \<leftarrow> pos_set idx (ub_pos ub ! i) cells1;
     cells3 \<leftarrow> (if ub_is_pos_2d ub
        then ext_set idx \<lparr>ext_x = ub_pos ub ! (i + ub_n_tokens ub * 2),
                          ext_y = ub_pos ub ! (i + ub_n_tokens ub)\<rparr> cells2
        else Some cells2);
     cells4 \<leftarrow> foldM (\<lambda>q c. cells_seq_add idx (nat q) c) (ub_seq_id ub ! i) cells3;
     Some (k\<lparr>kv_v_cells := (kv_v_cells k)[st := cells4]\<rparr>, rm1) })"

definition purge_seq :: "(nat \<Rightarrow> llama_pos) \<Rightarrow> nat \<Rightarrow> kv_cache \<Rightarrow> kv_cache option" where
  "purge_seq rm s k =
     (if rm s = -1 then Some k
      else do {
        require (s < length (kv_seq_to_stream k));
        let cells = kv_v_cells k ! stream_of k (int s);
        if cells_seq_pos_min cells s \<le> rm s
        then map_option fst (kv_seq_rm (int s) (cells_seq_pos_min cells s) (rm s + 1) k)
        else Some k })"

definition move_head :: "slot_info \<Rightarrow> nat \<Rightarrow> kv_cache \<Rightarrow> kv_cache option" where
  "move_head si s k = do {
     require (si_idxs si ! s \<noteq> []);
     Some (k\<lparr>kv_v_heads := (kv_v_heads k)[si_strm si ! s := last (si_idxs si ! s) + 1]\<rparr>) }"

definition kv_apply_ubatch :: "slot_info \<Rightarrow> ubatch \<Rightarrow> kv_cache \<Rightarrow> kv_cache option" where
  "kv_apply_ubatch si ub k =
     (if kv_other k \<noteq> None then Some k
      else do {
        require (si_idxs si \<noteq> [] \<and> ub_n_tokens ub = length (si_strm si) * si_size si);
        (k1, rm) \<leftarrow> foldM (\<lambda>s. foldM (apply_token si ub s) [0..<si_size si])
                     [0..<length (si_strm si)] (k, \<lambda>_. -1);
        k2 \<leftarrow> foldM (purge_seq rm) [0..<LLAMA_MAX_SEQ] k1;
        foldM (move_head si) [0..<length (si_strm si)] k2 })"

record saved_slot =
  sv_sinfo :: slot_info
  sv_heads_old :: "nat list"
  sv_cells :: "kv_cells list"

text \<open>
  The first half of \<open>prepare\<close>: place the batches one after the other and remember what
  each of them overwrites. The result has the cache, the saved states and whether all were
  placed.
\<close>

fun place_all ::
  "ubatch list \<Rightarrow> kv_cache \<Rightarrow> saved_slot list \<Rightarrow> (kv_cache \<times> saved_slot list \<times> bool) option" where
  "place_all [] k states = Some (k, states, True)"
| "place_all (ub # ubs) k states = do {
     si \<leftarrow> kv_find_slot ub False k;
     if si_idxs si = [] then Some (k, states, False)
     else do {
       saved \<leftarrow> foldM (\<lambda>s cs. do { c \<leftarrow> cells_cp (si_idxs si ! s) (kv_v_cells k ! (si_strm si ! s));
                                  Some (cs @ [c]) }) [0..<length (si_strm si)] [];
       k' \<leftarrow> kv_apply_ubatch si ub k;
       place_all ubs k' (states @ [\<lparr>sv_sinfo = si, sv_heads_old = kv_v_heads k, sv_cells = saved\<rparr>]) } }"

definition restore_stream :: "saved_slot \<Rightarrow> nat \<Rightarrow> kv_cache \<Rightarrow> kv_cache option" where
  "restore_stream sv s k = do {
     let st = si_strm (sv_sinfo sv) ! s;
     c \<leftarrow> cells_set (si_idxs (sv_sinfo sv) ! s) (sv_cells sv ! s) (kv_v_cells k ! st);
     Some (put_stream st c (sv_heads_old sv ! s) k) }"

definition kv_prepare :: "ubatch list \<Rightarrow> kv_cache \<Rightarrow> (kv_cache \<times> slot_info list) option" where
  "kv_prepare ubs k = do {
     (k1, states, success) \<leftarrow> place_all ubs k [];
     require (states \<noteq> [] \<or> \<not> success);
     k2 \<leftarrow> foldM (\<lambda>sv. foldM (restore_stream sv) [0..<length (si_strm (sv_sinfo sv))]) (rev states) k1;
     Some (k2, if success then map sv_sinfo states else []) }"


subsection \<open>Loops over the cells of one stream\<close>

lemma map_prefix_step:
  "k < length xs \<Longrightarrow> (map g (take k xs) @ drop k xs)[k := g (xs ! k)] = map g (take (Suc k) xs) @ drop (Suc k) xs"
  by (simp add: list_update_append take_Suc_conv_app_nth flip: Cons_nth_drop_Suc)

lemma foldM_cells_ok:
  assumes ok: "cells_ok c"
    and step: "\<And>i t. i < cells_size c \<Longrightarrow> cells_ok t \<Longrightarrow> cells_size t = cells_size c \<Longrightarrow>
        cell_at t i = cell_at c i \<Longrightarrow>
        \<exists>t'. body i t = Some t' \<and> cells_ok t' \<and> cells_abs t' = (cells_abs t)[i := g (cell_at c i)]"
  shows "\<exists>c'. foldM body [0..<cells_size c] c = Some c' \<and> cells_ok c' \<and> cells_abs c' = map g (cells_abs c)"
proof -
  let ?n = "cells_size c" and ?L = "cells_abs c"
  let ?P = "\<lambda>k t. cells_ok t \<and> cells_abs t = map g (take k ?L) @ drop k ?L"
  have "\<exists>t. foldM body [0..<?n] c = Some t \<and> ?P ?n t"
  proof (rule foldM_upt_rule [of ?P])
    fix k t assume k: "k < ?n" and t: "?P k t"
    have size: "cells_size t = ?n" using t length_cells_abs [of t] k by simp
    have "cells_abs t ! k = ?L ! k" using t k by (simp add: nth_append)
    then have "cell_at t k = cell_at c k" using k size by simp
    from step [OF k conjunct1 [OF t] size this] obtain t' where
      "body k t = Some t'" "cells_ok t'" "cells_abs t' = (cells_abs t)[k := g (cell_at c k)]" by blast
    with t k show "\<exists>t'. body k t = Some t' \<and> ?P (Suc k) t'" by (simp add: map_prefix_step [of k ?L g, simplified])
  qed (simp add: ok)
  then show ?thesis by simp
qed

lemma scan_cells_ok:
  assumes ok: "cells_ok c"
    and step: "\<And>i t. i < cells_size c \<Longrightarrow> cells_ok t \<Longrightarrow> cells_size t = cells_size c \<Longrightarrow>
        cell_at t i = cell_at c i \<Longrightarrow>
        \<exists>t' fr. body i t = Some (t', fr) \<and> cells_ok t' \<and> cells_abs t' = (cells_abs t)[i := g (cell_at c i)]"
  shows "\<exists>c' nh. scan_cells body c = Some (c', nh) \<and> cells_ok c' \<and> cells_abs c' = map g (cells_abs c)
           \<and> nh \<le> cells_size c"
proof -
  let ?n = "cells_size c" and ?L = "cells_abs c"
  let ?P = "\<lambda>k (t, nh). cells_ok t \<and> cells_abs t = map g (take k ?L) @ drop k ?L \<and> nh \<le> ?n"
  let ?f = "\<lambda>i (c, new_head). do { (c', freed) \<leftarrow> body i c;
         Some (c', if freed \<and> new_head = cells_size c' then i else new_head) }"
  have "\<exists>t. foldM ?f [0..<?n] (c, ?n) = Some t \<and> ?P ?n t"
  proof (rule foldM_upt_rule [of ?P])
    fix k and t :: "kv_cells \<times> nat" assume k: "k < ?n" and P: "?P k t"
    obtain u nh where t: "t = (u, nh)" by fastforce
    have u: "cells_ok u" "cells_abs u = map g (take k ?L) @ drop k ?L" "nh \<le> ?n" using P t by auto
    have size: "cells_size u = ?n" using u length_cells_abs [of u] k by simp
    have "cells_abs u ! k = ?L ! k" using u k by (simp add: nth_append)
    then have "cell_at u k = cell_at c k" using k size by simp
    from step [OF k u(1) size this] obtain t' fr where
      t': "body k u = Some (t', fr)" "cells_ok t'" "cells_abs t' = (cells_abs u)[k := g (cell_at c k)]" by blast
    with u k show "\<exists>t'. ?f k t = Some t' \<and> ?P (Suc k) t'"
      by (simp add: t map_prefix_step [of k ?L g, simplified])
  qed (simp add: ok)
  then show ?thesis by (auto simp: scan_cells_def)
qed

subsection \<open>Invariant of the cache and the sequences it holds\<close>

text \<open>
  Every occupied cell belongs to a sequence, the heads are inside their streams, and all
  streams have the same size. \<open>seq_cells k s\<close> is the content of sequence \<open>s\<close>: its cells
  with their positions.
\<close>

definition named :: "kv_cell \<Rightarrow> bool" where
  "named x \<longleftrightarrow> (cell_pos x \<noteq> -1 \<longrightarrow> cell_seq x \<noteq> {})"

definition kv_ok :: "kv_cache \<Rightarrow> bool" where
  "kv_ok k \<longleftrightarrow>
     kv_other k = None \<and> length (kv_v_cells k) = kv_n_stream k \<and> length (kv_v_heads k) = kv_n_stream k
     \<and> kv_n_stream k > 0 \<and> length (kv_seq_to_stream k) \<le> LLAMA_MAX_SEQ
     \<and> (\<forall>st \<in> set (kv_seq_to_stream k). st < kv_n_stream k)
     \<and> (\<forall>st < kv_n_stream k. cells_ok (kv_v_cells k ! st)
          \<and> cells_size (kv_v_cells k ! st) = kv_get_size k
          \<and> kv_v_heads k ! st \<le> kv_get_size k
          \<and> (\<forall>x \<in> set (cells_abs (kv_v_cells k ! st)). named x))"

definition cells_of :: "kv_cache \<Rightarrow> nat \<Rightarrow> kv_cell list" where
  "cells_of k st = cells_abs (kv_v_cells k ! st)"

definition holds :: "kv_cell list \<Rightarrow> nat \<Rightarrow> (nat \<times> llama_pos) set" where
  "holds cs s = {(i, cell_pos (cs ! i)) |i. i < length cs \<and> s \<in> cell_seq (cs ! i)}"

definition seq_cells :: "kv_cache \<Rightarrow> int \<Rightarrow> (nat \<times> llama_pos) set" where
  "seq_cells k s = holds (cells_of k (stream_of k s)) (nat s)"

lemma kv_okD:
  assumes "kv_ok k"
  shows kv_no_other: "kv_other k = None"
    and kv_lengths: "length (kv_v_cells k) = kv_n_stream k" "length (kv_v_heads k) = kv_n_stream k"
      "kv_n_stream k > 0" "length (kv_seq_to_stream k) \<le> LLAMA_MAX_SEQ"
    and kv_stream: "\<And>s. valid_seq k s \<Longrightarrow> stream_of k s < kv_n_stream k"
    and kv_seq_bound: "\<And>s. valid_seq k s \<Longrightarrow> nat s < LLAMA_MAX_SEQ"
    and kv_cells: "\<And>st. st < kv_n_stream k \<Longrightarrow> cells_ok (kv_v_cells k ! st)"
      "\<And>st. st < kv_n_stream k \<Longrightarrow> cells_size (kv_v_cells k ! st) = kv_get_size k"
      "\<And>st. st < kv_n_stream k \<Longrightarrow> kv_v_heads k ! st \<le> kv_get_size k"
      "\<And>st x. st < kv_n_stream k \<Longrightarrow> x \<in> set (cells_abs (kv_v_cells k ! st)) \<Longrightarrow> named x"
  using assms by (auto simp: kv_ok_def valid_seq_def stream_of_def)

text \<open>Writing back one stream whose table is well-formed keeps the invariant.\<close>

lemma kv_ok_put:
  assumes ok: "kv_ok k" and st: "st < kv_n_stream k" and c: "cells_ok c"
    "cells_size c = kv_get_size k" "\<And>x. x \<in> set (cells_abs c) \<Longrightarrow> named x" "h \<le> kv_get_size k"
  shows "kv_ok (put_stream st c h k)"
proof -
  have size: "kv_get_size (put_stream st c h k) = kv_get_size k"
  proof (cases "st = 0")
    case True
    then show ?thesis using kv_lengths(1) [OF ok] st c(2) by (simp add: kv_get_size_def put_stream_def)
  next
    case False
    then show ?thesis by (simp add: kv_get_size_def put_stream_def)
  qed
  show ?thesis
    unfolding kv_ok_def size using ok st c
    by (auto simp: kv_ok_def put_stream_def nth_list_update)
qed

lemma put_stream_simps [simp]:
  "kv_seq_to_stream (put_stream st c h k) = kv_seq_to_stream k"
  "kv_n_stream (put_stream st c h k) = kv_n_stream k"
  "kv_other (put_stream st c h k) = kv_other k"
  "stream_of (put_stream st c h k) s = stream_of k s"
  "valid_seq (put_stream st c h k) s = valid_seq k s"
  by (simp_all add: put_stream_def stream_of_def valid_seq_def)

lemma cells_of_put:
  "st < length (kv_v_cells k) \<Longrightarrow>
     cells_of (put_stream st c h k) st' = (if st' = st then cells_abs c else cells_of k st')"
  by (simp add: cells_of_def put_stream_def)

lemma put_cells_only:
  "st < length (kv_v_heads k) \<Longrightarrow>
     k\<lparr>kv_v_cells := (kv_v_cells k)[st := c]\<rparr> = put_stream st c (kv_v_heads k ! st) k"
  by (simp add: put_stream_def)

lemma holds_map_seq:
  assumes "\<And>x. x \<in> set cs \<Longrightarrow> s \<in> cell_seq (g x) \<longleftrightarrow> s \<in> cell_seq x \<and> P (cell_pos x)"
    and "\<And>x. x \<in> set cs \<Longrightarrow> s \<in> cell_seq (g x) \<Longrightarrow> cell_pos (g x) = cell_pos x"
  shows "holds (map g cs) s = {(i, p) \<in> holds cs s. P p}"
  unfolding holds_def using assms by (auto simp: in_set_conv_nth) force+


subsection \<open>Each operation as a map over cells\<close>

lemma size_abs_map: "cells_abs c' = map g (cells_abs c) \<Longrightarrow> cells_size c' = cells_size c"
  by (metis length_cells_abs length_map)

lemma scan_stream_ok:
  assumes ok: "kv_ok k" and st: "st < kv_n_stream k"
    and step: "\<And>i t. i < cells_size t \<Longrightarrow> cells_ok t \<Longrightarrow> named (cell_at t i) \<Longrightarrow>
        \<exists>t' fr. body i t = Some (t', fr) \<and> cells_ok t' \<and> cells_abs t' = (cells_abs t)[i := g (cell_at t i)]"
    and g: "\<And>x. named x \<Longrightarrow> named (g x)"
  shows "\<exists>c h. scan_stream body st k = Some (put_stream st c h k) \<and> kv_ok (put_stream st c h k)
           \<and> cells_abs c = map g (cells_of k st)"
proof -
  let ?c = "kv_v_cells k ! st"
  note cok = kv_cells [OF ok st]
  have nm: "named (cell_at ?c i)" if "i < cells_size ?c" for i
    using cok(4) [of "cell_at ?c i"] that by (simp add: cells_abs_def)
  obtain c nh where c: "scan_cells body ?c = Some (c, nh)" "cells_ok c"
    "cells_abs c = map g (cells_abs ?c)" "nh \<le> cells_size ?c"
    using scan_cells_ok [OF cok(1), of body g] step nm by (metis (no_types, lifting))
  let ?h = "lower_head nh c (kv_v_heads k ! st)"
  have "kv_ok (put_stream st c ?h k)"
    using cok c size_abs_map [OF c(3)] g
    by (intro kv_ok_put [OF ok st]) (auto simp: lower_head_def)
  with c show ?thesis by (auto simp: scan_stream_def cells_of_def)
qed

text \<open>The cells that \<open>seq_rm\<close> takes from a sequence.\<close>

definition in_range :: "llama_pos \<Rightarrow> llama_pos \<Rightarrow> llama_pos \<Rightarrow> bool" where
  "in_range p0 p1 p \<longleftrightarrow> norm_p0 p0 \<le> p \<and> p < norm_p1 p1"

lemma in_range_nonneg: "in_range p0 p1 p \<Longrightarrow> 0 \<le> p"
  by (auto simp: in_range_def norm_p0_def split: if_splits)

definition cell_rm_seq :: "nat \<Rightarrow> llama_pos \<Rightarrow> llama_pos \<Rightarrow> kv_cell \<Rightarrow> kv_cell" where
  "cell_rm_seq s p0 p1 x =
     (if in_range p0 p1 (cell_pos x) \<and> s \<in> cell_seq x then cell_seq_rm s x else x)"

definition cell_rm_any :: "llama_pos \<Rightarrow> llama_pos \<Rightarrow> kv_cell \<Rightarrow> kv_cell" where
  "cell_rm_any p0 p1 x = (if in_range p0 p1 (cell_pos x) then cell_none else x)"

lemma pos_in_eq: "i < cells_size c \<Longrightarrow>
    pos_in c i (norm_p0 p0) (norm_p1 p1) = Some (in_range p0 p1 (kc_pos c ! i))"
  by (simp add: pos_in_def in_range_def)

lemma seq_has_eq: "i < cells_size c \<Longrightarrow> seq_has c i s = Some (s \<in> kc_seq c ! i)"
  by (simp add: seq_has_def)

lemma seq_rm_body_ok:
  assumes "i < cells_size t" and "cells_ok t"
  shows "\<exists>t' fr. seq_rm_body s (norm_p0 p0) (norm_p1 p1) i t = Some (t', fr) \<and> cells_ok t'
           \<and> cells_abs t' = (cells_abs t)[i := cell_rm_seq s p0 p1 (cell_at t i)]"
  using assms cells_seq_rm_ok [of t i s]
  by (auto simp: seq_rm_body_def pos_in_eq seq_has_eq cell_rm_seq_def)

lemma rm_any_body_ok:
  assumes "i < cells_size t" and "cells_ok t"
  shows "\<exists>t' fr. rm_any_body (norm_p0 p0) (norm_p1 p1) i t = Some (t', fr) \<and> cells_ok t'
           \<and> cells_abs t' = (cells_abs t)[i := cell_rm_any p0 p1 (cell_at t i)]"
  using assms cells_rm_ok [of t i] in_range_nonneg [of p0 p1 "kc_pos t ! i"]
  by (auto simp: rm_any_body_def pos_in_eq cell_rm_any_def ex_bool_eq)

lemma named_rm [simp]: "named x \<Longrightarrow> named (cell_rm_seq s p0 p1 x)" "named x \<Longrightarrow> named (cell_rm_any p0 p1 x)"
  by (auto simp: named_def cell_rm_seq_def cell_rm_any_def cell_seq_rm_def)

lemma kv_seq_rm_cells:
  assumes ok: "kv_ok k" and s: "valid_seq k s"
  shows "\<exists>c h. kv_seq_rm s p0 p1 k = Some (put_stream (stream_of k s) c h k, True)
           \<and> kv_ok (put_stream (stream_of k s) c h k)
           \<and> cells_abs c = map (cell_rm_seq (nat s) p0 p1) (cells_of k (stream_of k s))"
proof -
  have "0 \<le> s" using s by (simp add: valid_seq_def)
  then have "kv_seq_rm s p0 p1 k = map_option (\<lambda>k'. (k', True))
      (scan_stream (seq_rm_body (nat s) (norm_p0 p0) (norm_p1 p1)) (stream_of k s) k)"
    using kv_no_other [OF ok] s by (simp add: kv_seq_rm_def map_conv_bind_option comp_def)
  moreover have "\<exists>c h. scan_stream (seq_rm_body (nat s) (norm_p0 p0) (norm_p1 p1)) (stream_of k s) k
       = Some (put_stream (stream_of k s) c h k) \<and> kv_ok (put_stream (stream_of k s) c h k)
       \<and> cells_abs c = map (cell_rm_seq (nat s) p0 p1) (cells_of k (stream_of k s))"
    by (intro scan_stream_ok [OF ok kv_stream [OF ok s]] seq_rm_body_ok named_rm(1))
  ultimately show ?thesis by (metis option.simps(9))
qed

lemma kv_seq_rm_all:
  assumes ok: "kv_ok k"
  shows "\<exists>k'. kv_seq_rm (-1) p0 p1 k = Some (k', True) \<and> kv_ok k'
           \<and> kv_seq_to_stream k' = kv_seq_to_stream k \<and> kv_n_stream k' = kv_n_stream k
           \<and> (\<forall>st < kv_n_stream k. cells_of k' st = map (cell_rm_any p0 p1) (cells_of k st))"
proof -
  let ?n = "kv_n_stream k" and ?g = "cell_rm_any p0 p1"
  let ?P = "\<lambda>m t. kv_ok t \<and> kv_seq_to_stream t = kv_seq_to_stream k \<and> kv_n_stream t = ?n
      \<and> (\<forall>st < ?n. cells_of t st = (if st < m then map ?g (cells_of k st) else cells_of k st))"
  have "\<exists>t. foldM (scan_stream (rm_any_body (norm_p0 p0) (norm_p1 p1))) [0..<?n] k = Some t \<and> ?P ?n t"
  proof (rule foldM_upt_rule [of ?P])
    fix m t assume m: "m < ?n" and t: "?P m t"
    from t have tok: "kv_ok t" and mt: "m < kv_n_stream t" using m by auto
    have "\<exists>c h. scan_stream (rm_any_body (norm_p0 p0) (norm_p1 p1)) m t = Some (put_stream m c h t)
        \<and> kv_ok (put_stream m c h t) \<and> cells_abs c = map ?g (cells_of t m)"
      by (intro scan_stream_ok [OF tok mt] rm_any_body_ok named_rm(2))
    then obtain c h where "scan_stream (rm_any_body (norm_p0 p0) (norm_p1 p1)) m t = Some (put_stream m c h t)"
      "kv_ok (put_stream m c h t)" "cells_abs c = map ?g (cells_of t m)" by blast
    with t m kv_lengths(1) [OF tok] show "\<exists>t'. scan_stream (rm_any_body (norm_p0 p0) (norm_p1 p1)) m t = Some t'
        \<and> ?P (Suc m) t'" by (auto simp: cells_of_put less_Suc_eq)
  qed (simp add: ok)
  then show ?thesis using kv_no_other [OF ok] by (auto simp: kv_seq_rm_def)
qed


lemma named_cell_at: "cells_ok t \<Longrightarrow> i < cells_size t \<Longrightarrow> named (cell_at t i) \<longleftrightarrow> kc_pos t ! i = -1 \<or> kc_seq t ! i \<noteq> {}"
  by (auto simp: named_def)

lemma named_keep [simp]: "named x \<Longrightarrow> named (cell_seq_keep s x)"
  by (auto simp: named_def cell_seq_keep_def)

lemma kv_seq_keep_cells:
  assumes ok: "kv_ok k" and s: "valid_seq k s"
  shows "\<exists>c h. kv_seq_keep s k = Some (put_stream (stream_of k s) c h k)
           \<and> kv_ok (put_stream (stream_of k s) c h k)
           \<and> cells_abs c = map (cell_seq_keep (nat s)) (cells_of k (stream_of k s))"
proof -
  have "\<exists>c h. scan_stream (\<lambda>i. cells_seq_keep i (nat s)) (stream_of k s) k
       = Some (put_stream (stream_of k s) c h k) \<and> kv_ok (put_stream (stream_of k s) c h k)
       \<and> cells_abs c = map (cell_seq_keep (nat s)) (cells_of k (stream_of k s))"
  proof (rule scan_stream_ok [OF ok kv_stream [OF ok s]])
    show "\<exists>t' fr. cells_seq_keep i (nat s) t = Some (t', fr) \<and> cells_ok t' \<and>
        cells_abs t' = (cells_abs t)[i := cell_seq_keep (nat s) (cell_at t i)]"
      if "i < cells_size t" "cells_ok t" "named (cell_at t i)" for i t
      using cells_seq_keep_ok [OF that(2,1)] that(3) named_cell_at [OF that(2,1)] by blast
  qed simp
  then show ?thesis using kv_no_other [OF ok] s by (simp add: kv_seq_keep_def)
qed

definition cell_add_seq :: "nat \<Rightarrow> llama_pos \<Rightarrow> llama_pos \<Rightarrow> int \<Rightarrow> kv_cell \<Rightarrow> kv_cell" where
  "cell_add_seq s p0 p1 d x =
     (if in_range p0 p1 (cell_pos x) \<and> s \<in> cell_seq x then cell_pos_add d x else x)"

definition cell_div_seq :: "nat \<Rightarrow> llama_pos \<Rightarrow> llama_pos \<Rightarrow> int \<Rightarrow> kv_cell \<Rightarrow> kv_cell" where
  "cell_div_seq s p0 p1 d x =
     (if in_range p0 p1 (cell_pos x) \<and> s \<in> cell_seq x then cell_pos_div d x else x)"

lemma seq_add_body_ok:
  assumes "i < cells_size t" and "cells_ok t"
  shows "\<exists>t' fr. seq_add_body s (norm_p0 p0) (norm_p1 p1) d i t = Some (t', fr) \<and> cells_ok t'
           \<and> cells_abs t' = (cells_abs t)[i := cell_add_seq s p0 p1 d (cell_at t i)]"
  using assms pos_add_ok [of t i d] in_range_nonneg [of p0 p1 "kc_pos t ! i"]
  by (auto simp: seq_add_body_def pos_in_eq seq_has_eq cell_add_seq_def)

lemma seq_div_body_ok:
  assumes "i < cells_size t" and "cells_ok t" and "0 < d"
  shows "\<exists>t'. seq_div_body s (norm_p0 p0) (norm_p1 p1) d i t = Some t' \<and> cells_ok t'
           \<and> cells_abs t' = (cells_abs t)[i := cell_div_seq s p0 p1 d (cell_at t i)]"
  using assms pos_div_ok [of t i d] in_range_nonneg [of p0 p1 "kc_pos t ! i"]
  by (auto simp: seq_div_body_def pos_in_eq seq_has_eq cell_div_seq_def)

lemma named_add_div [simp]:
  "named x \<Longrightarrow> named (cell_add_seq s p0 p1 d x)" "named x \<Longrightarrow> named (cell_div_seq s p0 p1 d x)"
  by (auto simp: named_def cell_add_seq_def cell_pos_add_def cell_div_seq_def cell_pos_div_def)

lemma cell_add_0 [simp]: "cell_add_seq s p0 p1 0 x = x"
  using in_range_nonneg [of p0 p1 "cell_pos x"] by (auto simp: cell_add_seq_def cell_pos_add_def)

lemma cell_empty_range:
  "norm_p0 p0 = norm_p1 p1 \<Longrightarrow> cell_add_seq s p0 p1 d x = x \<and> cell_div_seq s p0 p1 d x = x"
  by (auto simp: cell_add_seq_def cell_div_seq_def in_range_def)

lemma cell_div_1 [simp]: "cell_div_seq s p0 p1 1 x = x"
  by (simp add: cell_div_seq_def cell_pos_div_def)

lemma put_stream_id:
  assumes "kv_ok k" and "st < kv_n_stream k"
  shows "put_stream st (kv_v_cells k ! st) (kv_v_heads k ! st) k = k"
  by (simp add: put_stream_def)

lemma kv_seq_add_cells:
  assumes ok: "kv_ok k" and s: "valid_seq k s" and e: "kv_n_pos_per_embd k = 1"
  shows "\<exists>c h. kv_seq_add s p0 p1 d k = Some (put_stream (stream_of k s) c h k)
           \<and> kv_ok (put_stream (stream_of k s) c h k)
           \<and> cells_abs c = map (cell_add_seq (nat s) p0 p1 d) (cells_of k (stream_of k s))"
proof -
  let ?st = "stream_of k s" and ?g = "cell_add_seq (nat s) p0 p1 d"
  note st = kv_stream [OF ok s]
  note cok = kv_cells [OF ok st]
  show ?thesis
  proof (cases "d = 0 \<or> norm_p0 p0 = norm_p1 p1")
    case True
    then have "?g x = x" for x using cell_empty_range by auto
    then have "map ?g (cells_of k ?st) = cells_abs (kv_v_cells k ! ?st)" by (simp add: cells_of_def map_idI)
    with True kv_no_other [OF ok] s e ok put_stream_id [OF ok st] show ?thesis
      by (intro exI [of _ "kv_v_cells k ! ?st"] exI [of _ "kv_v_heads k ! ?st"]) (simp add: kv_seq_add_def)
  next
    case False
    obtain c nh where c: "scan_cells (seq_add_body (nat s) (norm_p0 p0) (norm_p1 p1) d) (kv_v_cells k ! ?st)
        = Some (c, nh)" "cells_ok c" "cells_abs c = map ?g (cells_abs (kv_v_cells k ! ?st))"
        "nh \<le> cells_size (kv_v_cells k ! ?st)"
      using scan_cells_ok [OF cok(1), of "seq_add_body (nat s) (norm_p0 p0) (norm_p1 p1) d" ?g] seq_add_body_ok
      by (metis (no_types, lifting))
    have "kv_ok (put_stream ?st c (if nh \<noteq> cells_size c then nh else 0) k)"
      using cok c size_abs_map [OF c(3)] by (intro kv_ok_put [OF ok st]) auto
    moreover have "kv_seq_add s p0 p1 d k = Some (put_stream ?st c (if nh \<noteq> cells_size c then nh else 0) k)"
      using False c(1) kv_no_other [OF ok] s e by (auto simp: kv_seq_add_def Let_def)
    ultimately show ?thesis unfolding cells_of_def c(3) [symmetric] by blast
  qed
qed

lemma kv_seq_div_cells:
  assumes ok: "kv_ok k" and s: "valid_seq k s" and e: "kv_n_pos_per_embd k = 1" and d: "0 < d"
  shows "\<exists>c. kv_seq_div s p0 p1 d k = Some (put_stream (stream_of k s) c (kv_v_heads k ! stream_of k s) k)
           \<and> kv_ok (put_stream (stream_of k s) c (kv_v_heads k ! stream_of k s) k)
           \<and> cells_abs c = map (cell_div_seq (nat s) p0 p1 d) (cells_of k (stream_of k s))"
proof -
  let ?st = "stream_of k s" and ?g = "cell_div_seq (nat s) p0 p1 d"
  note st = kv_stream [OF ok s]
  note cok = kv_cells [OF ok st]
  show ?thesis
  proof (cases "d = 1 \<or> norm_p0 p0 = norm_p1 p1")
    case True
    then have "?g x = x" for x using cell_empty_range by auto
    then have "map ?g (cells_of k ?st) = cells_abs (kv_v_cells k ! ?st)" by (simp add: cells_of_def map_idI)
    with True kv_no_other [OF ok] s e ok put_stream_id [OF ok st] show ?thesis
      by (intro exI [of _ "kv_v_cells k ! ?st"]) (simp add: kv_seq_div_def)
  next
    case False
    obtain c where c: "foldM (seq_div_body (nat s) (norm_p0 p0) (norm_p1 p1) d)
        [0..<cells_size (kv_v_cells k ! ?st)] (kv_v_cells k ! ?st) = Some c" "cells_ok c"
        "cells_abs c = map ?g (cells_abs (kv_v_cells k ! ?st))"
      using foldM_cells_ok [OF cok(1), of "seq_div_body (nat s) (norm_p0 p0) (norm_p1 p1) d" ?g]
        seq_div_body_ok [OF _ _ d] by (metis (no_types, lifting))
    have "kv_ok (put_stream ?st c (kv_v_heads k ! ?st) k)"
      using cok c size_abs_map [OF c(3)] by (intro kv_ok_put [OF ok st]) auto
    with False c kv_no_other [OF ok] s e put_cells_only [of ?st k c] st kv_lengths [OF ok] show ?thesis
      by (auto simp: kv_seq_div_def cells_of_def Let_def)
  qed
qed


subsection \<open>Copying a sequence\<close>

definition cell_cp_seq :: "nat \<Rightarrow> nat \<Rightarrow> llama_pos \<Rightarrow> llama_pos \<Rightarrow> kv_cell \<Rightarrow> kv_cell" where
  "cell_cp_seq src dst p0 p1 x =
     (if in_range p0 p1 (cell_pos x) \<and> src \<in> cell_seq x then x\<lparr>cell_seq := insert dst (cell_seq x)\<rparr> else x)"

lemma named_cp [simp]: "named x \<Longrightarrow> named (cell_cp_seq src dst p0 p1 x)"
  by (auto simp: named_def cell_cp_seq_def)

lemma kv_seq_cp_cells:
  assumes ok: "kv_ok k" and s: "valid_seq k src" "valid_seq k dst" "src \<noteq> dst"
    and st: "stream_of k src = stream_of k dst"
    and fresh: "\<And>x. x \<in> set (cells_of k (stream_of k src)) \<Longrightarrow> in_range p0 p1 (cell_pos x) \<Longrightarrow>
        nat src \<in> cell_seq x \<Longrightarrow> nat dst \<notin> cell_seq x"
  shows "\<exists>c. kv_seq_cp src dst p0 p1 k = Some (put_stream (stream_of k src) c (kv_v_heads k ! stream_of k src) k)
           \<and> kv_ok (put_stream (stream_of k src) c (kv_v_heads k ! stream_of k src) k)
           \<and> cells_abs c = map (cell_cp_seq (nat src) (nat dst) p0 p1) (cells_of k (stream_of k src))"
proof -
  let ?st = "stream_of k src" and ?g = "cell_cp_seq (nat src) (nat dst) p0 p1"
  let ?c = "kv_v_cells k ! ?st"
  note stn = kv_stream [OF ok s(1)]
  note cok = kv_cells [OF ok stn]
  have "\<exists>c. foldM (seq_cp_body (nat src) (nat dst) (norm_p0 p0) (norm_p1 p1)) [0..<cells_size ?c] ?c = Some c
      \<and> cells_ok c \<and> cells_abs c = map ?g (cells_abs ?c)"
  proof (rule foldM_cells_ok [OF cok(1)])
    fix i t assume i: "i < cells_size ?c" and t: "cells_ok t" "cells_size t = cells_size ?c"
      and at: "cell_at t i = cell_at ?c i"
    have eqs: "kc_pos t ! i = kc_pos ?c ! i" "kc_seq t ! i = kc_seq ?c ! i"
      using at by (simp_all add: cell_at_def)
    have mem: "cell_at ?c i \<in> set (cells_of k ?st)" using i by (simp add: cells_of_def cells_abs_def)
    show "\<exists>t'. seq_cp_body (nat src) (nat dst) (norm_p0 p0) (norm_p1 p1) i t = Some t' \<and> cells_ok t'
        \<and> cells_abs t' = (cells_abs t)[i := ?g (cell_at ?c i)]"
      using fresh [OF mem] cells_seq_add_ok [OF t(1), of i "nat dst"] kv_seq_bound [OF ok s(2)] i t
        in_range_nonneg [of p0 p1 "kc_pos t ! i"]
      by (auto simp: seq_cp_body_def pos_in_eq seq_has_eq cell_cp_seq_def eqs simp flip: at)
  qed
  then obtain c where c: "foldM (seq_cp_body (nat src) (nat dst) (norm_p0 p0) (norm_p1 p1))
      [0..<cells_size ?c] ?c = Some c" "cells_ok c" "cells_abs c = map ?g (cells_abs ?c)" by blast
  have "kv_ok (put_stream ?st c (kv_v_heads k ! ?st) k)"
    using cok c size_abs_map [OF c(3)] by (intro kv_ok_put [OF ok stn]) auto
  moreover have "kv_seq_cp src dst p0 p1 k = Some (put_stream ?st c (kv_v_heads k ! ?st) k)"
    using c(1) kv_no_other [OF ok] s st put_cells_only [of ?st k c] stn kv_lengths [OF ok]
    by (auto simp: kv_seq_cp_def Let_def)
  ultimately show ?thesis using c(3) unfolding cells_of_def by blast
qed

text \<open>A copy into another stream.\<close>

definition cell_cp_stream :: "nat \<Rightarrow> nat \<Rightarrow> kv_cell \<Rightarrow> kv_cell" where
  "cell_cp_stream src dst x = (if src \<in> cell_seq x then x\<lparr>cell_seq := {dst}\<rparr> else cell_none)"

lemma stream_cp_body_ok:
  assumes c0: "cells_ok c0" and i: "i < cells_size c0" and t: "cells_ok t" "cells_size t = cells_size c0"
    and at: "cell_at t i = cell_none" and dst: "dst < LLAMA_MAX_SEQ"
    and sh: "kc_shift c0 ! i = 0 \<or> 0 \<le> kc_pos c0 ! i - kc_shift c0 ! i"
  shows "\<exists>t'. stream_cp_body src dst c0 i t = Some t' \<and> cells_ok t'
           \<and> cells_abs t' = (cells_abs t)[i := cell_cp_stream src dst (cell_at c0 i)]"
proof (cases "src \<in> kc_seq c0 ! i")
  case False
  with i t at cells_abs_id [of i t] show ?thesis
    by (auto simp: stream_cp_body_def seq_has_eq cell_cp_stream_def)
next
  case True
  let ?p = "kc_pos c0 ! i" and ?d = "kc_shift c0 ! i"
  have p: "0 \<le> ?p" using ok_pos [OF c0 i] ok_empty_seq [OF c0 i] True by fastforce
  have it: "i < cells_size t" using i t by simp
  from at have ti: "kc_pos t ! i = -1" "kc_seq t ! i = {}" "kc_shift t ! i = 0"
    by (simp_all add: cell_at_def cell_none_def)
  from pos_set_ok [OF t(1) it ti(1), of "?p - ?d"] sh p obtain c1 where
    c1: "pos_set i (?p - ?d) t = Some c1" "cells_ok c1"
      "cells_abs c1 = (cells_abs t)[i := cell_none\<lparr>cell_pos := ?p - ?d\<rparr>]" using at by auto
  have i1: "i < cells_size c1" and a1: "cell_at c1 i = cell_none\<lparr>cell_pos := ?p - ?d\<rparr>"
    using it cells_size_abs [OF c1(3)] cell_at_update [OF c1(3) it it] by auto
  from a1 have f1: "kc_pos c1 ! i = ?p - ?d" "kc_seq c1 ! i = {}" by (simp_all add: cell_at_def cell_none_def)
  from cells_seq_add_ok [OF c1(2) i1, of dst] f1 sh p dst obtain c2 where
    c2: "cells_seq_add i dst c1 = Some c2" "cells_ok c2"
      "cells_abs c2 = (cells_abs c1)[i := (cell_at c1 i)\<lparr>cell_seq := {dst}\<rparr>]" by auto
  have i2: "i < cells_size c2" and a2: "cell_at c2 i = cell_none\<lparr>cell_pos := ?p - ?d, cell_seq := {dst}\<rparr>"
    using i1 cells_size_abs [OF c2(3)] cell_at_update [OF c2(3) i1 i1] a1 by auto
  have abs2: "cells_abs c2 = (cells_abs t)[i := cell_at c2 i]" using c1(3) c2(3) a1 a2 by simp
  have f2: "kc_pos c2 ! i = ?p - ?d" using a2 by (simp add: cell_at_def cell_none_def)
  let ?x = "cell_none\<lparr>cell_pos := ?p, cell_shift := ?d, cell_seq := {dst}\<rparr>"
  obtain c3 where c3: "(if ?d \<noteq> 0 then map_option fst (pos_add i ?d c2) else Some c2) = Some c3"
    "cells_ok c3" "cells_abs c3 = (cells_abs t)[i := ?x]"
  proof (cases "?d = 0")
    case True
    with a2 have "cell_at c2 i = ?x" by (simp add: cell_none_def)
    then show ?thesis using that [of c2] True c2(2) abs2 by simp
  next
    case False
    from pos_add_ok [OF c2(2) i2, of ?d] f2 sh p False obtain c' where
      "pos_add i ?d c2 = Some (c', ?p < 0)" "cells_ok c'"
      "cells_abs c' = (cells_abs c2)[i := cell_pos_add ?d (cell_at c2 i)]" by auto
    moreover have "cell_pos_add ?d (cell_at c2 i) = ?x" using a2 p by (simp add: cell_pos_add_def cell_none_def)
    ultimately show ?thesis using that [of c'] False abs2 by simp
  qed
  have i3: "i < cells_size c3" using cells_size_abs [OF c3(3)] it by simp
  have a3: "cell_at c3 i = ?x" using cell_at_update [OF c3(3) it it] by simp
  from ext_set_ok [OF c3(2) i3, of "kc_ext c0 ! i"] obtain c4 where
    c4: "ext_set i (kc_ext c0 ! i) c3 = Some c4" "cells_ok c4"
      "cells_abs c4 = (cells_abs c3)[i := (cell_at c3 i)\<lparr>cell_ext := kc_ext c0 ! i\<rparr>]" by blast
  have "cells_abs c4 = (cells_abs t)[i := cell_cp_stream src dst (cell_at c0 i)]"
    using c4(3) c3(3) True unfolding a3 by (simp add: cell_cp_stream_def cell_at_def cell_none_def)
  moreover have "stream_cp_body src dst c0 i t = Some c4"
    using True i p sh c1(1) c2(1) c3(1) c4(1)
    by (auto simp: stream_cp_body_def seq_has_eq pos_get_def get_shift_def ext_get_def Let_def)
  ultimately show ?thesis using c4(2) by blast
qed


lemma stream_cp_loop:
  assumes c0: "cells_ok c0" and c1: "cells_ok c1" "cells_size c1 = cells_size c0" and dst: "dst < LLAMA_MAX_SEQ"
    and sh: "\<And>i. i < cells_size c0 \<Longrightarrow> kc_shift c0 ! i = 0 \<or> 0 \<le> kc_pos c0 ! i - kc_shift c0 ! i"
  shows "\<exists>c. foldM (stream_cp_body src dst c0) [0..<cells_size c0] (cells_reset c1) = Some c \<and> cells_ok c
           \<and> cells_abs c = map (cell_cp_stream src dst) (cells_abs c0)"
proof -
  let ?n = "cells_size c0" and ?g = "cell_cp_stream src dst"
  let ?P = "\<lambda>k t. cells_ok t \<and> cells_abs t = map ?g (take k (cells_abs c0)) @ replicate (?n - k) cell_none"
  have start: "cells_ok (cells_reset c1)" "cells_abs (cells_reset c1) = replicate ?n cell_none"
    using cells_reset_ok [of c1] c1 ok_lengths [OF c1(1)] by auto
  have "\<exists>t. foldM (stream_cp_body src dst c0) [0..<?n] (cells_reset c1) = Some t \<and> ?P ?n t"
  proof (rule foldM_upt_rule [of ?P])
    fix k t assume k: "k < ?n" and t: "?P k t"
    have size: "cells_size t = ?n" using t length_cells_abs [of t] k by simp
    have "cells_abs t ! k = cell_none" using t k by (simp add: nth_append)
    then have at: "cell_at t k = cell_none" using k size by simp
    from stream_cp_body_ok [OF c0 k conjunct1 [OF t] size at dst sh [OF k]] obtain t' where
      t': "stream_cp_body src dst c0 k t = Some t'" "cells_ok t'"
      "cells_abs t' = (cells_abs t)[k := ?g (cell_at c0 k)]" by blast
    obtain m where m: "?n - k = Suc m" "?n - Suc k = m" using k by (cases "?n - k") auto
    have "cells_abs t' = map ?g (take (Suc k) (cells_abs c0)) @ replicate m cell_none"
      using t'(3) t k m by (simp add: list_update_append take_Suc_conv_app_nth)
    with t' m show "\<exists>t'. stream_cp_body src dst c0 k t = Some t' \<and> ?P (Suc k) t'" by auto
  qed (simp add: start)
  then show ?thesis by simp
qed

lemma named_cp_stream [simp]: "named (cell_cp_stream src dst x)"
  by (auto simp: named_def cell_cp_stream_def)

lemma kv_ok_sc: "kv_ok (k\<lparr>kv_sc_info := q\<rparr>) = kv_ok k"
  by (simp add: kv_ok_def kv_get_size_def)

lemma kv_seq_cp_stream_cells:
  assumes ok: "kv_ok k" and s: "valid_seq k src" "valid_seq k dst"
    and st: "stream_of k src \<noteq> stream_of k dst" and full: "p0 \<le> 0" "p1 \<le> 0"
    and sh: "\<And>x. x \<in> set (cells_of k (stream_of k src)) \<Longrightarrow> cell_shift x = 0 \<or> 0 \<le> cell_pos x - cell_shift x"
  shows "\<exists>k' c h. kv_seq_cp src dst p0 p1 k = Some k' \<and> kv_ok k'
           \<and> k' = (put_stream (stream_of k dst) c h k)
                    \<lparr>kv_sc_info := kv_sc_info k @ [(stream_of k src, stream_of k dst)]\<rparr>
           \<and> cells_abs c = map (cell_cp_stream (nat src) (nat dst)) (cells_of k (stream_of k src))"
proof -
  let ?s0 = "stream_of k src" and ?s1 = "stream_of k dst"
  let ?c0 = "kv_v_cells k ! ?s0" and ?c1 = "kv_v_cells k ! ?s1"
  note st0 = kv_stream [OF ok s(1)] and st1 = kv_stream [OF ok s(2)]
  note c0 = kv_cells [OF ok st0] and c1 = kv_cells [OF ok st1]
  have sh': "kc_shift ?c0 ! i = 0 \<or> 0 \<le> kc_pos ?c0 ! i - kc_shift ?c0 ! i" if "i < cells_size ?c0" for i
    using sh [of "cell_at ?c0 i"] that by (simp add: cells_of_def cells_abs_def)
  obtain c where c: "foldM (stream_cp_body (nat src) (nat dst) ?c0) [0..<cells_size ?c0] (cells_reset ?c1) = Some c"
    "cells_ok c" "cells_abs c = map (cell_cp_stream (nat src) (nat dst)) (cells_abs ?c0)"
    using stream_cp_loop [OF c0(1) c1(1) trans [OF c1(2) c0(2) [symmetric]] kv_seq_bound [OF ok s(2)] sh']
    by blast
  let ?k = "put_stream ?s1 c (kv_v_heads k ! ?s0) k"
  have "kv_ok ?k"
    using c0 c size_abs_map [OF c(3)] by (intro kv_ok_put [OF ok st1]) auto
  then have "kv_ok (?k\<lparr>kv_sc_info := kv_sc_info k @ [(?s0, ?s1)]\<rparr>)" by (simp only: kv_ok_sc)
  moreover have "kv_seq_cp src dst p0 p1 k = Some (?k\<lparr>kv_sc_info := kv_sc_info k @ [(?s0, ?s1)]\<rparr>)"
    using c(1) kv_no_other [OF ok] s st full by (auto simp: kv_seq_cp_def Let_def)
  ultimately show ?thesis using c(3) unfolding cells_of_def by blast
qed

subsection \<open>What the operations do to sequences\<close>

lemma seq_cells_put:
  assumes "kv_ok k" and "st < kv_n_stream k"
  shows "seq_cells (put_stream st c h k) t =
    (if stream_of k t = st then holds (cells_abs c) (nat t) else seq_cells k t)"
  using kv_lengths [OF assms(1)] assms(2) by (auto simp: seq_cells_def cells_of_put)

lemma seq_cells_sc [simp]: "seq_cells (k\<lparr>kv_sc_info := q\<rparr>) t = seq_cells k t"
  "stream_of (k\<lparr>kv_sc_info := q\<rparr>) t = stream_of k t" "valid_seq (k\<lparr>kv_sc_info := q\<rparr>) t = valid_seq k t"
  by (simp_all add: seq_cells_def cells_of_def stream_of_def valid_seq_def)

lemma positions_holds: "positions cs s = snd ` holds cs s"
  unfolding positions_def holds_def by (force simp: in_set_conv_nth)

lemma kv_seq_pos_max_eq:
  assumes "kv_ok k" and "valid_seq k s"
  shows "kv_seq_pos_max s k = Some (if seq_cells k s = {} then -1 else Max (snd ` seq_cells k s))"
    and "kv_seq_pos_min s k = Some (if seq_cells k s = {} then -1 else Min (snd ` seq_cells k s))"
  using assms kv_no_other [OF assms(1)] seq_pos_min_max [OF kv_cells(1) [OF assms(1) kv_stream [OF assms]]]
  by (auto simp: kv_seq_pos_max_def kv_seq_pos_min_def seq_cells_def cells_of_def positions_holds)

lemma holds_bounds:
  assumes "kv_ok k" and "valid_seq k s" and "(i, p) \<in> seq_cells k s"
  shows "0 \<le> p"
proof -
  let ?c = "kv_v_cells k ! stream_of k s"
  have ok: "cells_ok ?c" using kv_cells(1) [OF assms(1) kv_stream [OF assms(1,2)]] .
  from assms(3) have i: "i < cells_size ?c" "p = kc_pos ?c ! i" "nat s \<in> kc_seq ?c ! i"
    by (auto simp: seq_cells_def holds_def cells_of_def)
  with ok_pos [OF ok i(1)] ok_empty_seq [OF ok i(1)] show ?thesis by fastforce
qed

lemma finite_seq_cells [simp]: "finite (seq_cells k s)"
proof -
  have "holds cs t = (\<lambda>i. (i, cell_pos (cs ! i))) ` {i. i < length cs \<and> t \<in> cell_seq (cs ! i)}" for cs t
    by (auto simp: holds_def)
  then show ?thesis by (simp add: seq_cells_def)
qed


lemma cell_rm_seq_member:
  "t \<in> cell_seq (cell_rm_seq s p0 p1 x) \<longleftrightarrow> t \<in> cell_seq x \<and> \<not> (t = s \<and> in_range p0 p1 (cell_pos x))"
  "t \<in> cell_seq (cell_rm_seq s p0 p1 x) \<Longrightarrow> cell_pos (cell_rm_seq s p0 p1 x) = cell_pos x"
  by (auto simp: cell_rm_seq_def cell_seq_rm_def split: if_splits)

lemma holds_rm:
  "holds (map (cell_rm_seq s p0 p1) cs) t = {(i, p) \<in> holds cs t. \<not> (t = s \<and> in_range p0 p1 p)}"
  by (rule holds_map_seq) (simp_all add: cell_rm_seq_member)

lemma holds_cp:
  "src \<noteq> dst \<Longrightarrow> holds (map (cell_cp_seq src dst p0 p1) cs) t =
     (if t = dst then holds cs dst \<union> {(i, p) \<in> holds cs src. in_range p0 p1 p} else holds cs t)"
  unfolding holds_def by (auto simp: cell_cp_seq_def split: if_splits)

lemma holds_cp_stream:
  "holds (map (cell_cp_stream src dst) cs) t = (if t = dst then holds cs src else {})"
  unfolding holds_def by (auto simp: cell_cp_stream_def split: if_splits)

lemma holds_keep: "holds (map (cell_seq_keep s) cs) t = (if t = s then holds cs s else {})"
  unfolding holds_def by (auto simp: cell_seq_keep_def split: if_splits)

lemma valid_seq_nat: "valid_seq k s \<Longrightarrow> valid_seq k t \<Longrightarrow> nat s = nat t \<longleftrightarrow> s = t"
  by (auto simp: valid_seq_def)

text \<open>
  Cells as they are between two decodes: positions below the \<open>INT32_MAX\<close> that a negative
  \<open>p1\<close> stands for, and any pending shift smaller than the position.
\<close>

definition good_cell :: "kv_cell \<Rightarrow> bool" where
  "good_cell x \<longleftrightarrow> cell_pos x < INT32_MAX \<and> (cell_shift x = 0 \<or> 0 \<le> cell_pos x - cell_shift x)"

definition kv_inv :: "kv_cache \<Rightarrow> bool" where
  "kv_inv k \<longleftrightarrow> kv_ok k \<and> (\<forall>st < kv_n_stream k. \<forall>x \<in> set (cells_of k st). good_cell x)"

lemma good_cell_maps [simp]:
  "good_cell cell_none"
  "good_cell x \<Longrightarrow> good_cell (cell_rm_seq s p0 p1 x)"
  "good_cell x \<Longrightarrow> good_cell (cell_cp_seq src dst p0 p1 x)"
  "good_cell x \<Longrightarrow> good_cell (cell_cp_stream src dst x)"
  "good_cell x \<Longrightarrow> good_cell (cell_seq_keep s x)"
  by (auto simp: good_cell_def cell_rm_seq_def cell_seq_rm_def cell_cp_seq_def cell_cp_stream_def
      cell_seq_keep_def)

lemma kv_inv_put:
  assumes "kv_inv k" and "kv_ok (put_stream st c h k)" and "st < kv_n_stream k"
    and "\<And>x. x \<in> set (cells_abs c) \<Longrightarrow> good_cell x"
  shows "kv_inv (put_stream st c h k)"
  using assms kv_lengths(1) [of k] by (auto simp: kv_inv_def cells_of_put)

lemma kv_inv_sc: "kv_inv (k\<lparr>kv_sc_info := q\<rparr>) = kv_inv k"
  by (simp add: kv_inv_def kv_ok_sc cells_of_def)

lemma kv_rm_law:
  assumes inv: "kv_inv k" and s: "valid_seq k s"
  shows "\<exists>k'. kv_seq_rm s p0 p1 k = Some (k', True) \<and> kv_inv k' \<and> valid_seq k' = valid_seq k
           \<and> seq_cells k' s = {(i, p) \<in> seq_cells k s. \<not> in_range p0 p1 p}
           \<and> (\<forall>t. valid_seq k t \<and> t \<noteq> s \<longrightarrow> seq_cells k' t = seq_cells k t)"
proof -
  let ?st = "stream_of k s"
  have ok: "kv_ok k" using inv by (simp add: kv_inv_def)
  note st = kv_stream [OF ok s]
  from kv_seq_rm_cells [OF ok s] obtain c h where
    c: "kv_seq_rm s p0 p1 k = Some (put_stream ?st c h k, True)" "kv_ok (put_stream ?st c h k)"
      "cells_abs c = map (cell_rm_seq (nat s) p0 p1) (cells_of k ?st)" by blast
  have "kv_inv (put_stream ?st c h k)"
    using inv st c(3) by (intro kv_inv_put [OF inv c(2) st]) (auto simp: kv_inv_def)
  moreover have "seq_cells (put_stream ?st c h k) t =
      (if t = s then {(i, p) \<in> seq_cells k s. \<not> in_range p0 p1 p} else seq_cells k t)"
    if "valid_seq k t" for t
    using that valid_seq_nat [OF s that] seq_cells_put [OF ok st, of c h t]
    by (auto simp: c(3) holds_rm seq_cells_def)
  ultimately show ?thesis using c(1) s by (auto simp: fun_eq_iff)
qed

lemma kv_cp_law:
  assumes inv: "kv_inv k" and s: "valid_seq k src" "valid_seq k dst" "src \<noteq> dst"
    and empty: "seq_cells k dst = {}"
  shows "\<exists>k'. kv_seq_cp src dst (-1) (-1) k = Some k' \<and> kv_inv k' \<and> valid_seq k' = valid_seq k
           \<and> seq_cells k' dst = seq_cells k src \<and> seq_cells k' src = seq_cells k src"
proof -
  let ?s0 = "stream_of k src" and ?s1 = "stream_of k dst"
  have ok: "kv_ok k" and good: "\<And>st x. st < kv_n_stream k \<Longrightarrow> x \<in> set (cells_of k st) \<Longrightarrow> good_cell x"
    using inv by (auto simp: kv_inv_def)
  note st0 = kv_stream [OF ok s(1)] and st1 = kv_stream [OF ok s(2)]
  have ne: "nat src \<noteq> nat dst" using valid_seq_nat [OF s(1,2)] s(3) by simp
  show ?thesis
  proof (cases "?s0 = ?s1")
    case True
    have "nat dst \<notin> cell_seq x" if x: "x \<in> set (cells_of k ?s0)" for x
      using that empty True by (auto simp: seq_cells_def holds_def in_set_conv_nth)
    then obtain c where c: "kv_seq_cp src dst (-1) (-1) k = Some (put_stream ?s0 c (kv_v_heads k ! ?s0) k)"
      "kv_ok (put_stream ?s0 c (kv_v_heads k ! ?s0) k)"
      "cells_abs c = map (cell_cp_seq (nat src) (nat dst) (-1) (-1)) (cells_of k ?s0)"
      using kv_seq_cp_cells [OF ok s True] by blast
    have all: "in_range (-1) (-1) p" if "(i, p) \<in> holds (cells_of k ?s0) (nat src)" for i p
      using that good [OF st0] holds_bounds [OF ok s(1), of i p]
      by (auto simp: holds_def in_range_def norm_p0_def norm_p1_def good_cell_def seq_cells_def)
    have "kv_inv (put_stream ?s0 c (kv_v_heads k ! ?s0) k)"
      using good [OF st0] c(3) by (intro kv_inv_put [OF inv c(2) st0]) auto
    moreover have "holds (cells_abs c) (nat dst) = seq_cells k src" "holds (cells_abs c) (nat src) = seq_cells k src"
      using empty all ne by (auto simp: c(3) holds_cp [OF ne] seq_cells_def simp flip: True)
    then have "seq_cells (put_stream ?s0 c (kv_v_heads k ! ?s0) k) dst = seq_cells k src"
      "seq_cells (put_stream ?s0 c (kv_v_heads k ! ?s0) k) src = seq_cells k src"
      using seq_cells_put [OF ok st0, of c "kv_v_heads k ! ?s0"] True by metis+
    ultimately show ?thesis using c(1) by (auto simp: fun_eq_iff)
  next
    case False
    have "cell_shift x = 0 \<or> 0 \<le> cell_pos x - cell_shift x" if "x \<in> set (cells_of k ?s0)" for x
      using good [OF st0 that] by (simp add: good_cell_def)
    with kv_seq_cp_stream_cells [OF ok s(1,2) False, of "-1" "-1"] obtain k' c h where
      k': "kv_seq_cp src dst (-1) (-1) k = Some k'" "kv_ok k'"
        "k' = (put_stream ?s1 c h k)\<lparr>kv_sc_info := kv_sc_info k @ [(?s0, ?s1)]\<rparr>"
        "cells_abs c = map (cell_cp_stream (nat src) (nat dst)) (cells_of k ?s0)" by auto
    have ok': "kv_ok (put_stream ?s1 c h k)" using k'(2) unfolding k'(3) kv_ok_sc .
    have "kv_inv k'" unfolding k'(3) kv_inv_sc
      using good [OF st0] k'(4) by (intro kv_inv_put [OF inv ok' st1]) auto
    moreover have "seq_cells k' dst = seq_cells k src" "seq_cells k' src = seq_cells k src"
      using False by (simp_all add: k'(3,4) seq_cells_put [OF ok st1] holds_cp_stream) (simp add: seq_cells_def)
    ultimately show ?thesis using k'(1,3) by (auto simp: fun_eq_iff)
  qed
qed


subsection \<open>The memory interface\<close>

text \<open>
  What the NIF layer relies on of a sequence memory: removing a range touches one sequence
  only, copying a sequence into an empty one gives the same content, and the largest
  position is that of the content.
\<close>

locale kv_memory =
  fixes inv :: "'m \<Rightarrow> bool"
    and valid :: "'m \<Rightarrow> int \<Rightarrow> bool"
    and view :: "'m \<Rightarrow> int \<Rightarrow> (nat \<times> llama_pos) set"
    and rm :: "int \<Rightarrow> llama_pos \<Rightarrow> llama_pos \<Rightarrow> 'm \<Rightarrow> ('m \<times> bool) option"
    and cp :: "int \<Rightarrow> int \<Rightarrow> llama_pos \<Rightarrow> llama_pos \<Rightarrow> 'm \<Rightarrow> 'm option"
    and pmax :: "int \<Rightarrow> 'm \<Rightarrow> llama_pos option"
  assumes view_finite: "finite (view m s)"
    and view_bounds: "inv m \<Longrightarrow> valid m s \<Longrightarrow> (i, p) \<in> view m s \<Longrightarrow> 0 \<le> p \<and> p < INT32_MAX"
    and rm_law: "inv m \<Longrightarrow> valid m s \<Longrightarrow>
        \<exists>m'. rm s p0 p1 m = Some (m', True) \<and> inv m' \<and> valid m' = valid m
          \<and> view m' s = {(i, p) \<in> view m s. \<not> in_range p0 p1 p}
          \<and> (\<forall>t. valid m t \<and> t \<noteq> s \<longrightarrow> view m' t = view m t)"
    and cp_law: "inv m \<Longrightarrow> valid m src \<Longrightarrow> valid m dst \<Longrightarrow> src \<noteq> dst \<Longrightarrow> view m dst = {} \<Longrightarrow>
        \<exists>m'. cp src dst (-1) (-1) m = Some m' \<and> inv m' \<and> valid m' = valid m
          \<and> view m' dst = view m src \<and> view m' src = view m src"
    and pmax_law: "inv m \<Longrightarrow> valid m s \<Longrightarrow>
        pmax s m = Some (if view m s = {} then -1 else Max (snd ` view m s))"
begin

lemma pmax_truncated:
  assumes "inv m" and "valid m s" and "0 \<le> n" and "rm s n (-1) m = Some (m', ok)"
  shows "\<exists>p. pmax s m' = Some p \<and> p < n"
proof -
  from rm_law [OF assms(1,2), of n "-1"] assms(4) have
    m': "inv m'" "valid m' s" "view m' s = {(i, p) \<in> view m s. \<not> in_range n (-1) p}" using assms(2) by auto
  have small: "p < n" if "(i, p) \<in> view m' s" for i p
    using that view_bounds [OF assms(1,2), of i p] assms(3)
    by (auto simp: m'(3) in_range_def norm_p0_def norm_p1_def)
  show ?thesis
  proof (cases "view m' s = {}")
    case True
    then show ?thesis using pmax_law [OF m'(1,2)] assms(3) by simp
  next
    case False
    then have "Max (snd ` view m' s) \<in> snd ` view m' s" by (intro Max_in) (simp_all add: view_finite)
    then show ?thesis using pmax_law [OF m'(1,2)] False small by auto
  qed
qed

lemma rm_whole_empties:
  assumes "inv m" and "valid m s" and "rm s (-1) (-1) m = Some (m', ok)"
  shows "view m' s = {} \<and> pmax s m' = Some (-1)"
proof -
  from rm_law [OF assms(1,2), of "-1" "-1"] assms(3) have
    m': "inv m'" "valid m' s" "view m' s = {(i, p) \<in> view m s. \<not> in_range (-1) (-1) p}" using assms(2) by auto
  have "view m' s = {}"
    using view_bounds [OF assms(1,2)] by (auto simp: m'(3) in_range_def norm_p0_def norm_p1_def)
  then show ?thesis using pmax_law [OF m'(1,2)] by simp
qed

text \<open>A copied sequence survives whatever is removed from the original afterwards.\<close>

lemma copy_survives:
  assumes "inv m" and "valid m src" and "valid m dst" and "src \<noteq> dst" and "view m dst = {}"
  shows "\<exists>m1 m2. cp src dst (-1) (-1) m = Some m1 \<and> rm src p0 p1 m1 = Some (m2, True)
           \<and> view m2 dst = view m src \<and> pmax dst m2 = pmax src m"
proof -
  from cp_law [OF assms] obtain m1 where
    m1: "cp src dst (-1) (-1) m = Some m1" "inv m1" "valid m1 = valid m" "view m1 dst = view m src" by blast
  with rm_law [of m1 src p0 p1] assms obtain m2 where
    m2: "rm src p0 p1 m1 = Some (m2, True)" "inv m2" "valid m2 = valid m" "view m2 dst = view m src" by auto
  have "pmax dst m2 = pmax src m"
    using pmax_law [OF m2(2), of dst] pmax_law [OF assms(1,2)] m2 assms(3) by simp
  with m1 m2 show ?thesis by blast
qed

end

lemma seq_cells_bounds:
  assumes "kv_inv k" and "valid_seq k s" and "(i, p) \<in> seq_cells k s"
  shows "0 \<le> p \<and> p < INT32_MAX"
proof -
  have ok: "kv_ok k" using assms(1) by (simp add: kv_inv_def)
  have "\<forall>x \<in> set (cells_of k (stream_of k s)). good_cell x"
    using assms(1) kv_stream [OF ok assms(2)] by (simp add: kv_inv_def)
  then have "p < INT32_MAX" using assms(3) by (auto simp: seq_cells_def holds_def good_cell_def)
  with holds_bounds [OF ok assms(2,3)] show ?thesis by simp
qed

interpretation kv: kv_memory kv_inv valid_seq seq_cells kv_seq_rm kv_seq_cp kv_seq_pos_max
proof
  fix k s i p p0 p1 src dst
  show "finite (seq_cells k s)" by simp
  show "0 \<le> p \<and> p < INT32_MAX" if "kv_inv k" "valid_seq k s" "(i, p) \<in> seq_cells k s"
    using seq_cells_bounds [OF that] .
  show "\<exists>m'. kv_seq_rm s p0 p1 k = Some (m', True) \<and> kv_inv m' \<and> valid_seq m' = valid_seq k
      \<and> seq_cells m' s = {(i, p) \<in> seq_cells k s. \<not> in_range p0 p1 p}
      \<and> (\<forall>t. valid_seq k t \<and> t \<noteq> s \<longrightarrow> seq_cells m' t = seq_cells k t)"
    if "kv_inv k" "valid_seq k s" by (rule kv_rm_law [OF that])
  show "\<exists>m'. kv_seq_cp src dst (-1) (-1) k = Some m' \<and> kv_inv m' \<and> valid_seq m' = valid_seq k
      \<and> seq_cells m' dst = seq_cells k src \<and> seq_cells m' src = seq_cells k src"
    if "kv_inv k" "valid_seq k src" "valid_seq k dst" "src \<noteq> dst" "seq_cells k dst = {}"
    by (rule kv_cp_law [OF that])
  show "kv_seq_pos_max s k = Some (if seq_cells k s = {} then -1 else Max (snd ` seq_cells k s))"
    if "kv_inv k" "valid_seq k s" using that kv_seq_pos_max_eq(1) by (simp add: kv_inv_def)
qed

end
