(* ===== verification/Kv_Slots.thy ===== *)
theory Kv_Slots
  imports Kv_Cache
begin

text \<open>
  Placement of batches in the KV cache: \<open>find_slot\<close> terminates, finds cells whenever there
  are enough, and returns distinct usable ones; \<open>apply_ubatch\<close> adds exactly the tokens of
  the batch; \<open>prepare\<close> leaves the cells as they were.
\<close>

subsection \<open>The search loop\<close>

text \<open>The cells in the order in which the loop tests them, starting at \<open>h\<close>.\<close>

definition ring :: "nat \<Rightarrow> nat \<Rightarrow> nat \<Rightarrow> nat list" where
  "ring sz h m = map (\<lambda>k. (h + k) mod sz) [0..<m]"

lemma ring_0 [simp]: "ring sz h 0 = []"
  by (simp add: ring_def)

lemma ring_Suc: "ring sz h (Suc m) = h mod sz # ring sz (Suc h) m"
  by (simp add: ring_def upt_conv_Cons map_Suc_upt [symmetric] del: upt_Suc)

lemma ring_wrap: "ring sz sz m = ring sz 0 m"
  by (simp add: ring_def)

lemma set_ring: "0 < sz \<Longrightarrow> set (ring sz h sz) = {..<sz}"
proof -
  assume sz: "0 < sz"
  have "i \<in> (\<lambda>k. (h + k) mod sz) ` {0..<sz}" if "i < sz" for i
  proof
    let ?k = "(i + (sz - h mod sz)) mod sz"
    have "(h + ?k) mod sz = (h mod sz + (i + (sz - h mod sz))) mod sz" by (simp add: mod_simps)
    also have "h mod sz + (i + (sz - h mod sz)) = i + sz" using mod_less_divisor [OF sz, of h] by simp
    also have "\<dots> mod sz = i" using that by simp
    finally show "i = (h + ?k) mod sz" by simp
    show "?k \<in> {0..<sz}" using sz by simp
  qed
  then show ?thesis using sz by (auto simp: ring_def)
qed

lemma distinct_ring: "0 < sz \<Longrightarrow> distinct (ring sz h sz)"
  by (rule card_distinct) (simp add: set_ring, simp add: ring_def)

lemma find_loop_scan:
  assumes can: "\<And>i. i < sz \<Longrightarrow> can i = Some (us i)"
    and "h \<le> sz" and "t < sz" and "length xs < n"
  shows "find_loop can False n 1 sz h t xs =
    (let ys = xs @ filter us (ring sz h (sz - t)) in Some (if n \<le> length ys then Some (take n ys) else None))"
  using assms(2-4)
proof (induction "sz - t" arbitrary: h t xs)
  case 0
  then show ?case by simp
next
  case (Suc m)
  have step: "find_loop can False n 1 sz g t xs =
      (let ys = xs @ filter us (ring sz g (sz - t)) in Some (if n \<le> length ys then Some (take n ys) else None))"
    if g: "g < sz" for g
  proof -
    let ?xs = "if us g then xs @ [g] else xs"
    have r: "ring sz g (sz - t) = g # ring sz (Suc g) m" using Suc.hyps(2) g by (simp add: ring_Suc flip: Suc.hyps(2))
    have unf: "find_loop can False n 1 sz g t xs =
        (if length ?xs = n then Some (Some ?xs) else if t + 1 \<ge> sz then Some None
         else find_loop can False n 1 sz (Suc g) (t + 1) ?xs)"
      using g can [OF g] by (subst find_loop.simps) simp
    consider "length ?xs = n" | "length ?xs < n" "m = 0" | "length ?xs < n" "m > 0"
      using Suc.prems(3) by (cases "us g") force+
    then show ?thesis
    proof cases
      case 3
      have m: "m = sz - (t + 1)" "t + 1 < sz" "Suc g \<le> sz" using Suc.hyps(2) 3 g by auto
      from Suc.hyps(1) [OF m(1,3,2) 3(1)] m 3 show ?thesis
        unfolding unf r by (cases "us g") (simp_all add: Let_def)
    qed (use Suc.hyps(2) Suc.prems(3) in \<open>unfold unf r, auto simp: Let_def\<close>)
  qed
  show ?case
  proof (cases "h < sz")
    case False
    with Suc.prems have "h = sz" "0 < sz" by auto
    then show ?thesis using step [of 0] by (subst find_loop.simps) (simp add: ring_wrap)
  qed (rule step)
qed

lemma find_in_stream_spec:
  assumes can: "\<And>i. i < cells_size (kv_v_cells k ! st) \<Longrightarrow> can_use_cell k (kv_v_cells k ! st) i = Some (us i)"
    and h: "kv_v_heads k ! st \<le> cells_size (kv_v_cells k ! st)" and n: "0 < n"
  defines "U \<equiv> {i. i < cells_size (kv_v_cells k ! st) \<and> us i}"
  shows "\<exists>r. find_in_stream k st False n = Some r \<and> (r = None \<longleftrightarrow> card U < n)
    \<and> (\<forall>idxs. r = Some idxs \<longrightarrow> distinct idxs \<and> length idxs = n \<and> set idxs \<subseteq> U)"
proof -
  let ?c = "kv_v_cells k ! st" and ?sz = "cells_size (kv_v_cells k ! st)"
  have fin: "finite U" and le: "card U \<le> ?sz"
    using card_mono [of "{..<?sz}" U] by (auto simp: U_def)
  show ?thesis
  proof (cases "n > ?sz")
    case True
    then show ?thesis using le by (auto simp: find_in_stream_def Let_def)
  next
    case False
    then have sz: "0 < ?sz" using n by simp
    let ?h = "if kv_v_heads k ! st > get_used ?c + 2 * n then 0 else kv_v_heads k ! st"
    let ?ys = "filter us (ring ?sz ?h ?sz)"
    have ys: "distinct ?ys" "set ?ys = U" using distinct_ring [OF sz] set_ring [OF sz] by (auto simp: U_def)
    then have card: "length ?ys = card U" using distinct_card by fastforce
    have "find_loop (can_use_cell k ?c) False n 1 ?sz ?h 0 [] =
        (let ys = [] @ filter us (ring ?sz ?h (?sz - 0)) in Some (if n \<le> length ys then Some (take n ys) else None))"
      by (rule find_loop_scan) (use can h n sz in auto)
    then have "find_in_stream k st False n = Some (if n \<le> card U then Some (take n ?ys) else None)"
      using False card by (simp add: find_in_stream_def Let_def)
    moreover have "distinct (take n ?ys)" "set (take n ?ys) \<subseteq> U"
      using ys set_take_subset [of n ?ys] by auto
    ultimately show ?thesis using card by auto
  qed
qed

subsection \<open>Which cells can be used\<close>

lemma seq_get_single:
  assumes "cells_ok c" and "i < cells_size c" and "kc_seq c ! i = {s}"
  shows "seq_get c i = Some s"
proof -
  have "s < LLAMA_MAX_SEQ" using ok_seq_bound [OF assms(1,2)] assms(3) by simp
  then have "List.find (\<lambda>t. t = s) [0..<LLAMA_MAX_SEQ] = Some s"
    by (subst find_Some_iff) (rule exI [of _ s], simp)
  then show ?thesis using assms(3) by (simp add: seq_get_def)
qed

text \<open>
  Without a sliding window a cell is usable when it is empty; with one, also when it belongs
  to a single sequence that has moved past it.
\<close>

definition usable :: "kv_cache \<Rightarrow> kv_cells \<Rightarrow> nat \<Rightarrow> bool" where
  "usable k c i \<longleftrightarrow> kc_pos c ! i = -1 \<or>
     (\<exists>s. kc_seq c ! i = {s} \<and>
        is_masked_swa (kv_n_swa k) (kv_swa_type k) (kc_pos c ! i) (cells_seq_pos_max c s + 1) = Some True)"

lemma max_ge_cell:
  assumes "cells_ok c" and "i < cells_size c" and "s \<in> kc_seq c ! i"
  shows "kc_pos c ! i \<le> cells_seq_pos_max c s"
proof -
  have "kc_pos c ! i \<in> positions (cells_abs c) s"
    using assms(2,3) by (auto simp: positions_def cells_abs_def intro!: exI [of _ "cell_at c i"])
  then show ?thesis using seq_pos_min_max(2) [OF assms(1), of s] by (auto intro: Max_ge)
qed

lemma can_use_cell_total:
  assumes ok: "cells_ok c" and i: "i < cells_size c"
    and chunk: "kv_swa_type k = LLAMA_SWA_TYPE_CHUNKED \<longrightarrow> kv_n_swa k \<noteq> 0"
  shows "can_use_cell k c i = Some (usable k c i)"
proof (cases "kc_pos c ! i = -1")
  case True
  then show ?thesis using i by (simp add: can_use_cell_def is_empty_def usable_def)
next
  case False
  then have p: "0 \<le> kc_pos c ! i" using ok_pos [OF ok i] by simp
  show ?thesis
  proof (cases "\<exists>s. kc_seq c ! i = {s}")
    case True
    then obtain s where s: "kc_seq c ! i = {s}" by blast
    have "0 \<le> cells_seq_pos_max c s" using max_ge_cell [OF ok i, of s] s p by simp
    then have "\<exists>b. is_masked_swa (kv_n_swa k) (kv_swa_type k) (kc_pos c ! i) (cells_seq_pos_max c s + 1) = Some b"
      using p chunk by (cases "kv_swa_type k") (auto simp: is_masked_swa_def Let_def)
    then show ?thesis
      using False i p s seq_get_single [OF ok i s]
      by (auto simp: can_use_cell_def is_empty_def usable_def seq_count_def pos_get_def)
  next
    case False2: False
    then have "card (kc_seq c ! i) \<noteq> 1" by (auto simp: card_1_singleton_iff)
    with False False2 i p show ?thesis
      by (auto simp: can_use_cell_def is_empty_def usable_def seq_count_def)
  qed
qed

lemma usable_none: "kv_swa_type k = LLAMA_SWA_TYPE_NONE \<Longrightarrow> usable k c i \<longleftrightarrow> kc_pos c ! i = -1"
  by (auto simp: usable_def is_masked_swa_def)


subsection \<open>Slots for a whole batch\<close>

definition n_seqs_of :: "kv_cache \<Rightarrow> ubatch \<Rightarrow> nat" where
  "n_seqs_of k ub = (if kv_n_stream k > 1 then ub_n_seqs_unq ub else 1)"

definition n_per_stream :: "kv_cache \<Rightarrow> ubatch \<Rightarrow> nat" where
  "n_per_stream k ub = ub_n_tokens ub div n_seqs_of k ub"

text \<open>
  A batch as \<open>llama_batch_allocr\<close> splits it: at least one token, every token with a
  position and at least one sequence, and for several streams the same number of tokens for
  each of the sequences, which live in different streams.
\<close>

definition ub_ok :: "kv_cache \<Rightarrow> ubatch \<Rightarrow> bool" where
  "ub_ok k ub \<longleftrightarrow>
     0 < n_seqs_of k ub \<and> 0 < n_per_stream k ub \<and> ub_n_tokens ub = n_seqs_of k ub * n_per_stream k ub
     \<and> n_seqs_of k ub \<le> length (ub_seq_id_unq ub)
     \<and> (\<forall>s < n_seqs_of k ub. valid_seq k (ub_seq_id_unq ub ! s))
     \<and> distinct (map (\<lambda>s. stream_of k (ub_seq_id_unq ub ! s)) [0..<n_seqs_of k ub])
     \<and> (kv_n_stream k > 1 \<longrightarrow> (\<forall>s < n_seqs_of k ub. ub_seq_id ub ! (s * n_per_stream k ub) = [ub_seq_id_unq ub ! s]))
     \<and> (\<forall>i < ub_n_tokens ub. 0 \<le> ub_pos ub ! i \<and> ub_seq_id ub ! i \<noteq> [] \<and> distinct (ub_seq_id ub ! i)
          \<and> (\<forall>q \<in> set (ub_seq_id ub ! i). valid_seq k q))"

definition free_cells :: "kv_cache \<Rightarrow> nat \<Rightarrow> nat set" where
  "free_cells k st = {i. i < length (cells_of k st) \<and> cell_pos (cells_of k st ! i) = -1}"

definition slot_ok :: "kv_cache \<Rightarrow> ubatch \<Rightarrow> slot_info \<Rightarrow> bool" where
  "slot_ok k ub si \<longleftrightarrow>
     si_strm si = map (\<lambda>s. stream_of k (ub_seq_id_unq ub ! s)) [0..<n_seqs_of k ub]
     \<and> length (si_idxs si) = n_seqs_of k ub
     \<and> (\<forall>s < n_seqs_of k ub. distinct (si_idxs si ! s) \<and> length (si_idxs si ! s) = n_per_stream k ub
          \<and> set (si_idxs si ! s) \<subseteq> free_cells k (si_strm si ! s))"

lemma free_cells_eq:
  "free_cells k st = {i. i < cells_size (kv_v_cells k ! st) \<and> kc_pos (kv_v_cells k ! st) ! i = -1}"
  by (auto simp: free_cells_def cells_of_def)

lemma find_in_stream_free:
  assumes ok: "kv_ok k" and st: "st < kv_n_stream k" and swa: "kv_swa_type k = LLAMA_SWA_TYPE_NONE" and n: "0 < n"
  shows "\<exists>r. find_in_stream k st False n = Some r \<and> (r = None \<longleftrightarrow> card (free_cells k st) < n)
    \<and> (\<forall>idxs. r = Some idxs \<longrightarrow> distinct idxs \<and> length idxs = n \<and> set idxs \<subseteq> free_cells k st)"
  unfolding free_cells_eq
proof (rule find_in_stream_spec [OF _ _ n])
  note c = kv_cells [OF ok st]
  show "can_use_cell k (kv_v_cells k ! st) i = Some (kc_pos (kv_v_cells k ! st) ! i = -1)"
    if "i < cells_size (kv_v_cells k ! st)" for i
    using can_use_cell_total [OF c(1) that] swa by (simp add: usable_none)
  show "kv_v_heads k ! st \<le> cells_size (kv_v_cells k ! st)" using c by simp
qed

text \<open>The loop over the streams from \<open>s\<close> on, with the slots of the first \<open>s\<close> in \<open>res\<close>.\<close>

definition slots_upto :: "kv_cache \<Rightarrow> ubatch \<Rightarrow> nat \<Rightarrow> slot_info \<Rightarrow> bool" where
  "slots_upto k ub s res \<longleftrightarrow>
     si_strm res = map (\<lambda>s. stream_of k (ub_seq_id_unq ub ! s)) [0..<s] \<and> length (si_idxs res) = s
     \<and> (\<forall>j < s. distinct (si_idxs res ! j) \<and> length (si_idxs res ! j) = n_per_stream k ub
          \<and> set (si_idxs res ! j) \<subseteq> free_cells k (si_strm res ! j))"

lemma slots_upto_all: "slots_upto k ub (n_seqs_of k ub) res = slot_ok k ub res"
  by (simp add: slots_upto_def slot_ok_def)

lemma find_streams_ok:
  assumes ok: "kv_ok k" and swa: "kv_swa_type k = LLAMA_SWA_TYPE_NONE" and ub: "ub_ok k ub"
    and s: "s \<le> n_seqs_of k ub" and res: "slots_upto k ub s res"
  shows "\<exists>si. find_streams k ub False (n_per_stream k ub) [s..<n_seqs_of k ub] res = Some si
    \<and> (if \<forall>j \<in> {s..<n_seqs_of k ub}. n_per_stream k ub \<le> card (free_cells k (stream_of k (ub_seq_id_unq ub ! j)))
       then slot_ok k ub si else si_idxs si = [])"
  using s res
proof (induction "n_seqs_of k ub - s" arbitrary: s res)
  case 0
  then have "s = n_seqs_of k ub" by simp
  with 0(3) show ?case by (simp add: slots_upto_all)
next
  case (Suc m)
  let ?n = "n_seqs_of k ub" and ?p = "n_per_stream k ub"
  let ?q = "ub_seq_id_unq ub ! s"
  let ?st = "stream_of k ?q"
  have sn: "s < ?n" using Suc.hyps(2) by simp
  then have q: "valid_seq k ?q" "s < length (ub_seq_id_unq ub)" "0 < ?p"
    "kv_n_stream k > 1 \<longrightarrow> ub_seq_id ub ! (s * ?p) = [?q]" using ub by (auto simp: ub_ok_def)
  have cons: "[s..<?n] = s # [Suc s..<?n]" using sn by (simp add: upt_conv_Cons)
  have split: "{s..<?n} = insert s {Suc s..<?n}" using sn by auto
  from find_in_stream_free [OF ok kv_stream [OF ok q(1)] swa q(3)] obtain r where
    r: "find_in_stream k ?st False ?p = Some r" "r = None \<longleftrightarrow> card (free_cells k ?st) < ?p"
      "\<And>idxs. r = Some idxs \<Longrightarrow> distinct idxs \<and> length idxs = ?p \<and> set idxs \<subseteq> free_cells k ?st" by blast
  show ?case
  proof (cases r)
    case None
    with r(2) have "(\<forall>j \<in> {s..<?n}. ?p \<le> card (free_cells k (stream_of k (ub_seq_id_unq ub ! j)))) = False"
      using sn by force
    note neg = this
    show ?thesis unfolding neg if_False using None r(1) q by (simp add: cons no_slot_def)
  next
    case (Some idxs)
    let ?res = "\<lparr>si_s0 = min (si_s0 res) ?st, si_s1 = max (si_s1 res) ?st,
                 si_strm = si_strm res @ [?st], si_idxs = si_idxs res @ [idxs]\<rparr>"
    have "slots_upto k ub (Suc s) ?res"
      using Suc.prems(2) r(3) [OF Some] by (auto simp: slots_upto_def nth_append less_Suc_eq subset_iff)
    from Suc.hyps(1) [OF _ _ this] Suc.hyps(2) sn r(2) Some have
      "\<exists>si. find_streams k ub False ?p [Suc s..<?n] ?res = Some si
        \<and> (if \<forall>j \<in> {s..<?n}. ?p \<le> card (free_cells k (stream_of k (ub_seq_id_unq ub ! j)))
           then slot_ok k ub si else si_idxs si = [])"
      unfolding split by (simp add: not_less)
    moreover have "find_streams k ub False ?p [s..<?n] res = find_streams k ub False ?p [Suc s..<?n] ?res"
      using Some r(1) q by (simp add: cons Let_def)
    ultimately show ?thesis by (simp only:)
  qed
qed

lemma find_slot_ok:
  assumes ok: "kv_ok k" and swa: "kv_swa_type k = LLAMA_SWA_TYPE_NONE" and ub: "ub_ok k ub"
  shows "\<exists>si. kv_find_slot ub False k = Some si
    \<and> (if \<forall>s < n_seqs_of k ub. n_per_stream k ub \<le> card (free_cells k (stream_of k (ub_seq_id_unq ub ! s)))
       then slot_ok k ub si else si_idxs si = [])"
proof -
  have "0 < n_seqs_of k ub" and n: "ub_n_tokens ub = n_seqs_of k ub * n_per_stream k ub"
    using ub by (simp_all add: ub_ok_def)
  then have guard: "kv_n_stream k > 1 \<longrightarrow> ub_n_seqs_unq ub > 0 \<and> ub_n_tokens ub mod ub_n_seqs_unq ub = 0"
    by (auto simp: n_seqs_of_def split: if_splits)
  have "{0..<n_seqs_of k ub} = {s. s < n_seqs_of k ub}" by auto
  with find_streams_ok [OF ok swa ub, of 0 "\<lparr>si_s0 = LLAMA_MAX_SEQ, si_s1 = 0, si_strm = [], si_idxs = []\<rparr>"]
  show ?thesis using guard
    by (simp add: kv_find_slot_def slots_upto_def n_per_stream_def n_seqs_of_def Let_def del: mult_0_right)
qed


subsection \<open>Writing the tokens\<close>

lemma seq_adds_ok:
  assumes "cells_ok c" and "i < cells_size c" and "kc_pos c ! i \<noteq> -1" and "distinct (map nat qs)"
    and "\<And>q. q \<in> set qs \<Longrightarrow> nat q < LLAMA_MAX_SEQ \<and> nat q \<notin> kc_seq c ! i"
  shows "\<exists>c'. foldM (\<lambda>q c. cells_seq_add i (nat q) c) qs c = Some c' \<and> cells_ok c'
    \<and> cells_abs c' = (cells_abs c)[i := (cell_at c i)\<lparr>cell_seq := kc_seq c ! i \<union> nat ` set qs\<rparr>]"
  using assms
proof (induction qs arbitrary: c)
  case Nil
  have eq: "(cell_at c i)\<lparr>cell_seq := kc_seq c ! i \<union> nat ` set []\<rparr> = cell_at c i" by (simp add: cell_at_def)
  show ?case unfolding eq using Nil by simp
next
  case (Cons q qs)
  from Cons.prems cells_seq_add_ok [of c i "nat q"] obtain c1 where
    c1: "cells_seq_add i (nat q) c = Some c1" "cells_ok c1"
      "cells_abs c1 = (cells_abs c)[i := (cell_at c i)\<lparr>cell_seq := insert (nat q) (kc_seq c ! i)\<rparr>]" by auto
  have i1: "i < cells_size c1" using cells_size_abs [OF c1(3)] Cons.prems(2) by simp
  have a1: "cell_at c1 i = (cell_at c i)\<lparr>cell_seq := insert (nat q) (kc_seq c ! i)\<rparr>"
    using cell_at_update [OF c1(3) Cons.prems(2,2)] by simp
  then have f1: "kc_pos c1 ! i = kc_pos c ! i" "kc_seq c1 ! i = insert (nat q) (kc_seq c ! i)"
    by (simp_all add: cell_at_def)
  have "\<exists>c'. foldM (\<lambda>q c. cells_seq_add i (nat q) c) qs c1 = Some c' \<and> cells_ok c'
      \<and> cells_abs c' = (cells_abs c1)[i := (cell_at c1 i)\<lparr>cell_seq := kc_seq c1 ! i \<union> nat ` set qs\<rparr>]"
    using Cons.prems by (intro Cons.IH c1(2) i1) (auto simp: f1 image_iff)
  then show ?case using c1(1,3) by (auto simp: a1 f1)
qed

definition tok_cell :: "ubatch \<Rightarrow> nat \<Rightarrow> kv_cell \<Rightarrow> kv_cell" where
  "tok_cell ub i x =
     x\<lparr>cell_pos := ub_pos ub ! i,
       cell_ext := (if ub_is_pos_2d ub
                    then \<lparr>ext_x = ub_pos ub ! (i + ub_n_tokens ub * 2), ext_y = ub_pos ub ! (i + ub_n_tokens ub)\<rparr>
                    else cell_ext x),
       cell_seq := nat ` set (ub_seq_id ub ! i)\<rparr>"

text \<open>One token written into an empty cell.\<close>

lemma write_token_ok:
  assumes ok: "cells_ok c" and i: "idx < cells_size c" and e: "kc_pos c ! idx = -1"
    and ub: "0 \<le> ub_pos ub ! j" "distinct (map nat (ub_seq_id ub ! j))"
      "\<And>q. q \<in> set (ub_seq_id ub ! j) \<Longrightarrow> nat q < LLAMA_MAX_SEQ"
  shows "\<exists>c2 c3 c4. pos_set idx (ub_pos ub ! j) c = Some c2
    \<and> (if ub_is_pos_2d ub
       then ext_set idx \<lparr>ext_x = ub_pos ub ! (j + ub_n_tokens ub * 2), ext_y = ub_pos ub ! (j + ub_n_tokens ub)\<rparr> c2
       else Some c2) = Some c3
    \<and> foldM (\<lambda>q c. cells_seq_add idx (nat q) c) (ub_seq_id ub ! j) c3 = Some c4 \<and> cells_ok c4
    \<and> cells_abs c4 = (cells_abs c)[idx := tok_cell ub j (cell_at c idx)]"
proof -
  from pos_set_ok [OF ok i e ub(1)] obtain c2 where
    c2: "pos_set idx (ub_pos ub ! j) c = Some c2" "cells_ok c2"
      "cells_abs c2 = (cells_abs c)[idx := (cell_at c idx)\<lparr>cell_pos := ub_pos ub ! j\<rparr>]" by blast
  have i2: "idx < cells_size c2" using cells_size_abs [OF c2(3)] i by simp
  let ?e = "\<lparr>ext_x = ub_pos ub ! (j + ub_n_tokens ub * 2), ext_y = ub_pos ub ! (j + ub_n_tokens ub)\<rparr>"
  let ?x = "(cell_at c idx)\<lparr>cell_pos := ub_pos ub ! j, cell_ext := if ub_is_pos_2d ub then ?e else kc_ext c ! idx\<rparr>"
  have a2: "cell_at c2 idx = (cell_at c idx)\<lparr>cell_pos := ub_pos ub ! j\<rparr>" using cell_at_update [OF c2(3) i i] by simp
  obtain c3 where c3: "(if ub_is_pos_2d ub then ext_set idx ?e c2 else Some c2) = Some c3" "cells_ok c3"
    "cells_abs c3 = (cells_abs c)[idx := ?x]"
  proof (cases "ub_is_pos_2d ub")
    case True
    with ext_set_ok [OF c2(2) i2, of ?e] c2(3) a2 that show ?thesis by auto
  next
    case False
    with c2 that [of c2] show ?thesis by (simp add: cell_at_def)
  qed
  have i3: "idx < cells_size c3" using cells_size_abs [OF c3(3)] i by simp
  have a3: "cell_at c3 idx = ?x" using cell_at_update [OF c3(3) i i] by simp
  then have f3: "kc_pos c3 ! idx = ub_pos ub ! j" "kc_seq c3 ! idx = {}"
    using ok_empty_seq [OF ok i e] by (simp_all add: cell_at_def)
  have "\<exists>c'. foldM (\<lambda>q c. cells_seq_add idx (nat q) c) (ub_seq_id ub ! j) c3 = Some c' \<and> cells_ok c'
    \<and> cells_abs c' = (cells_abs c3)[idx := (cell_at c3 idx)\<lparr>cell_seq := kc_seq c3 ! idx \<union> nat ` set (ub_seq_id ub ! j)\<rparr>]"
    using ub f3 by (intro seq_adds_ok c3(2) i3) auto
  then obtain c4 where c4: "foldM (\<lambda>q c. cells_seq_add idx (nat q) c) (ub_seq_id ub ! j) c3 = Some c4" "cells_ok c4"
    "cells_abs c4 = (cells_abs c3)[idx := (cell_at c3 idx)\<lparr>cell_seq := nat ` set (ub_seq_id ub ! j)\<rparr>]"
    using f3 by auto
  have "cells_abs c4 = (cells_abs c)[idx := tok_cell ub j (cell_at c idx)]"
    unfolding c4(3) a3 c3(3) by (simp add: tok_cell_def)
  then show ?thesis using c2(1) c3(1) c4(1,2) by blast
qed

lemma ub_token:
  assumes "ub_ok k ub" and "kv_ok k" and "j < ub_n_tokens ub"
  shows "0 \<le> ub_pos ub ! j" "distinct (map nat (ub_seq_id ub ! j))" "ub_seq_id ub ! j \<noteq> []"
    "\<And>q. q \<in> set (ub_seq_id ub ! j) \<Longrightarrow> valid_seq k q"
    "\<And>q. q \<in> set (ub_seq_id ub ! j) \<Longrightarrow> nat q < LLAMA_MAX_SEQ"
proof -
  have t: "0 \<le> ub_pos ub ! j" "ub_seq_id ub ! j \<noteq> []" "distinct (ub_seq_id ub ! j)"
    "\<forall>q \<in> set (ub_seq_id ub ! j). valid_seq k q" using assms(1,3) by (auto simp: ub_ok_def)
  then show "0 \<le> ub_pos ub ! j" "ub_seq_id ub ! j \<noteq> []"
    "\<And>q. q \<in> set (ub_seq_id ub ! j) \<Longrightarrow> valid_seq k q" by auto
  show "distinct (map nat (ub_seq_id ub ! j))"
    unfolding distinct_map inj_on_def using t(3,4) valid_seq_nat [of k] by blast
  show "nat q < LLAMA_MAX_SEQ" if "q \<in> set (ub_seq_id ub ! j)" for q
    using kv_seq_bound [OF assms(2)] t(4) that by blast
qed


text \<open>Tokens \<open>base\<close>, \<open>base + 1\<close>, ... written to the cells \<open>xs\<close> of a stream.\<close>

definition placed :: "ubatch \<Rightarrow> nat \<Rightarrow> nat list \<Rightarrow> kv_cell list \<Rightarrow> kv_cell list \<Rightarrow> bool" where
  "placed ub base xs cs cs' \<longleftrightarrow>
     length cs' = length cs
     \<and> (\<forall>ii < length xs. cs' ! (xs ! ii) = tok_cell ub (base + ii) (cs ! (xs ! ii)))
     \<and> (\<forall>i < length cs. i \<notin> set xs \<longrightarrow> cs' ! i = cs ! i)"

lemma placed_nil: "placed ub base [] cs cs"
  by (simp add: placed_def)

lemma placed_snoc:
  assumes "placed ub base xs cs cs'" and "x < length cs" and "x \<notin> set xs" and "set xs \<subseteq> {..<length cs}"
  shows "placed ub base (xs @ [x]) cs (cs'[x := tok_cell ub (base + length xs) (cs' ! x)])"
  using assms by (auto simp: placed_def nth_append nth_list_update less_Suc_eq dest: nth_mem)

lemma apply_token_ok:
  assumes ok: "kv_ok k" and ub: "ub_ok k0 ub" "kv_ok k0" "s * si_size si + ii < ub_n_tokens ub"
    and st: "si_strm si ! s = st" "st < kv_n_stream k" and idx: "si_idxs si ! s ! ii = idx" "idx \<in> free_cells k st"
  shows "\<exists>c. apply_token si ub s ii (k, rm) = Some (put_stream st c (kv_v_heads k ! st) k, rm)
    \<and> kv_ok (put_stream st c (kv_v_heads k ! st) k)
    \<and> cells_abs c = (cells_of k st)[idx := tok_cell ub (s * si_size si + ii) (cells_of k st ! idx)]"
proof -
  let ?c = "kv_v_cells k ! st" and ?j = "s * si_size si + ii"
  note c = kv_cells [OF ok st(2)]
  note t = ub_token [OF ub]
  have i: "idx < cells_size ?c" "kc_pos ?c ! idx = -1" using idx(2) by (auto simp: free_cells_eq)
  from write_token_ok [OF c(1) i t(1,2,5)] obtain c2 c3 c4 where
    w: "pos_set idx (ub_pos ub ! ?j) ?c = Some c2"
      "(if ub_is_pos_2d ub then ext_set idx \<lparr>ext_x = ub_pos ub ! (?j + ub_n_tokens ub * 2),
          ext_y = ub_pos ub ! (?j + ub_n_tokens ub)\<rparr> c2 else Some c2) = Some c3"
      "foldM (\<lambda>q c. cells_seq_add idx (nat q) c) (ub_seq_id ub ! ?j) c3 = Some c4" "cells_ok c4"
      "cells_abs c4 = (cells_abs ?c)[idx := tok_cell ub ?j (cell_at ?c idx)]" by blast
  have "named (tok_cell ub ?j (cell_at ?c idx))" using t(3) by (simp add: named_def tok_cell_def)
  then have "named x" if "x \<in> set (cells_abs c4)" for x
    using that c(4) set_update_subset_insert [of "cells_abs ?c" idx] unfolding w(5) by blast
  then have "kv_ok (put_stream st c4 (kv_v_heads k ! st) k)"
    using c w(4) cells_size_abs [OF w(5)] by (intro kv_ok_put [OF ok st(2)]) auto
  moreover have "apply_token si ub s ii (k, rm) = Some (put_stream st c4 (kv_v_heads k ! st) k, rm)"
    using i w(1-3) st idx(1) kv_lengths [OF ok] by (simp add: apply_token_def is_empty_def put_cells_only Let_def)
  moreover have "cells_of k st ! idx = cell_at ?c idx" using i by (simp add: cells_of_def)
  ultimately show ?thesis using w(5) unfolding cells_of_def by auto
qed

lemma apply_stream_ok:
  assumes ok: "kv_ok k" and ub: "ub_ok k0 ub" "kv_ok k0" "s * si_size si + length xs \<le> ub_n_tokens ub"
    and st: "si_strm si ! s = st" "st < kv_n_stream k"
    and xs: "si_idxs si ! s = xs" "distinct xs" "set xs \<subseteq> free_cells k st"
  shows "\<exists>c. foldM (apply_token si ub s) [0..<length xs] (k, rm) = Some (put_stream st c (kv_v_heads k ! st) k, rm)
    \<and> kv_ok (put_stream st c (kv_v_heads k ! st) k)
    \<and> placed ub (s * si_size si) xs (cells_of k st) (cells_abs c)"
proof -
  let ?L = "cells_of k st" and ?h = "kv_v_heads k ! st" and ?b = "s * si_size si"
  have free: "x < length ?L" "cell_pos (?L ! x) = -1" if "x \<in> set xs" for x
    using xs(3) that by (auto simp: free_cells_def)
  let ?P = "\<lambda>m t. \<exists>c. t = (put_stream st c ?h k, rm) \<and> kv_ok (put_stream st c ?h k)
      \<and> placed ub ?b (take m xs) ?L (cells_abs c)"
  have "\<exists>t. foldM (apply_token si ub s) [0..<length xs] (k, rm) = Some t \<and> ?P (length xs) t"
  proof (rule foldM_upt_rule [of ?P])
    show "?P 0 (k, rm)"
      using ok put_stream_id [OF ok st(2)] placed_nil
      by (intro exI [of _ "kv_v_cells k ! st"]) (simp add: cells_of_def)
  next
    fix m t assume m: "m < length xs" and "?P m t"
    then obtain c where t: "t = (put_stream st c ?h k, rm)" and okc: "kv_ok (put_stream st c ?h k)"
      and pl: "placed ub ?b (take m xs) ?L (cells_abs c)" by blast
    have cells: "cells_of (put_stream st c ?h k) st = cells_abs c"
      using kv_lengths(1) [OF ok] st(2) by (simp add: cells_of_put)
    have fresh: "xs ! m \<notin> set (take m xs)"
      using xs(2) m by (metis distinct_take id_take_nth_drop not_distinct_conv_prefix)
    have free_m: "xs ! m \<in> free_cells (put_stream st c ?h k) st"
      using pl free [OF nth_mem [OF m]] fresh unfolding free_cells_def cells placed_def by (metis (mono_tags) mem_Collect_eq)
    have j: "?b + m < ub_n_tokens ub" using ub(3) m by simp
    from apply_token_ok [OF okc ub(1,2) j st(1) _ _ free_m, of rm] st(2) xs(1) obtain c' where
      c': "apply_token si ub s m t = Some (put_stream st c' (kv_v_heads (put_stream st c ?h k) ! st) (put_stream st c ?h k), rm)"
        "kv_ok (put_stream st c' (kv_v_heads (put_stream st c ?h k) ! st) (put_stream st c ?h k))"
        "cells_abs c' = (cells_abs c)[xs ! m := tok_cell ub (?b + m) (cells_abs c ! (xs ! m))]"
      unfolding t cells by auto
    have eq: "put_stream st c' (kv_v_heads (put_stream st c ?h k) ! st) (put_stream st c ?h k) = put_stream st c' ?h k"
      using kv_lengths [OF ok] st(2) by (simp add: put_stream_def)
    have "placed ub ?b (take m xs @ [xs ! m]) ?L (cells_abs c')"
      unfolding c'(3) using placed_snoc [OF pl free(1) [OF nth_mem [OF m]] fresh] free(1) m set_take_subset [of m xs]
      by force
    then show "\<exists>t'. apply_token si ub s m t = Some t' \<and> ?P (Suc m) t'"
      using c'(1,2) m unfolding eq by (auto simp: take_Suc_conv_app_nth)
  qed
  then show ?thesis by auto
qed

lemma purge_nothing: "foldM (purge_seq (\<lambda>_. -1)) ss k = Some k"
  by (induction ss) (simp_all add: purge_seq_def)


text \<open>The part of the cache that placement never changes.\<close>

definition kv_conf :: "kv_cache \<Rightarrow> nat \<times> nat list \<times> swa_type" where
  "kv_conf k = (kv_n_stream k, kv_seq_to_stream k, kv_swa_type k)"

lemma kv_conf_put [simp]: "kv_conf (put_stream st c h k) = kv_conf k"
  by (simp add: kv_conf_def put_stream_def)

lemma kv_conf_cong:
  assumes "kv_conf k' = kv_conf k"
  shows "kv_n_stream k' = kv_n_stream k" "kv_swa_type k' = kv_swa_type k" "valid_seq k' = valid_seq k"
    "stream_of k' = stream_of k" "n_seqs_of k' ub = n_seqs_of k ub" "n_per_stream k' ub = n_per_stream k ub"
    "ub_ok k' ub = ub_ok k ub"
proof -
  show e: "kv_n_stream k' = kv_n_stream k" "kv_swa_type k' = kv_swa_type k" "valid_seq k' = valid_seq k"
    "stream_of k' = stream_of k"
    using assms by (auto simp: kv_conf_def valid_seq_def stream_of_def fun_eq_iff)
  then show f: "n_seqs_of k' ub = n_seqs_of k ub" by (simp add: n_seqs_of_def)
  then show g: "n_per_stream k' ub = n_per_stream k ub" by (simp add: n_per_stream_def)
  show "ub_ok k' ub = ub_ok k ub" unfolding ub_ok_def e f g ..
qed

lemma move_head_ok:
  assumes ok: "kv_ok k" and st: "si_strm si ! s < kv_n_stream k" and xs: "si_idxs si ! s \<noteq> []"
    "last (si_idxs si ! s) < kv_get_size k"
  shows "\<exists>h. move_head si s k = Some (put_stream (si_strm si ! s) (kv_v_cells k ! (si_strm si ! s)) h k)
    \<and> kv_ok (put_stream (si_strm si ! s) (kv_v_cells k ! (si_strm si ! s)) h k)"
proof -
  let ?st = "si_strm si ! s" and ?h = "last (si_idxs si ! s) + 1"
  have "kv_ok (put_stream ?st (kv_v_cells k ! ?st) ?h k)"
    using kv_cells [OF ok st] xs(2) by (intro kv_ok_put [OF ok st]) auto
  then show ?thesis using xs(1) by (intro exI [of _ ?h]) (simp add: move_head_def put_stream_def)
qed

lemma move_heads_ok:
  assumes ok: "kv_ok k" and n: "\<And>s. s < n \<Longrightarrow> si_strm si ! s < kv_n_stream k \<and> si_idxs si ! s \<noteq> []
      \<and> last (si_idxs si ! s) < kv_get_size k"
  shows "\<exists>k'. foldM (move_head si) [0..<n] k = Some k' \<and> kv_ok k' \<and> kv_conf k' = kv_conf k
    \<and> kv_v_cells k' = kv_v_cells k"
proof -
  let ?P = "\<lambda>_ t. kv_ok t \<and> kv_conf t = kv_conf k \<and> kv_v_cells t = kv_v_cells k"
  have "\<exists>t. foldM (move_head si) [0..<n] k = Some t \<and> ?P n t"
  proof (rule foldM_upt_rule [of ?P])
    fix s t assume s: "s < n" and t: "?P s t"
    have size: "kv_get_size t = kv_get_size k" using t by (simp add: kv_get_size_def)
    from move_head_ok [of t si s] t n [OF s] kv_conf_cong(1) [of t k] size obtain h where
      "move_head si s t = Some (put_stream (si_strm si ! s) (kv_v_cells t ! (si_strm si ! s)) h t)"
      "kv_ok (put_stream (si_strm si ! s) (kv_v_cells t ! (si_strm si ! s)) h t)" by auto
    then show "\<exists>t'. move_head si s t = Some t' \<and> ?P (Suc s) t'" using t
      by (auto simp: put_stream_def kv_conf_def)
  qed (simp add: ok)
  then show ?thesis by blast
qed

lemma slot_okD:
  assumes ok: "kv_ok k" and ub: "ub_ok k ub" and si: "slot_ok k ub si" and s: "s < n_seqs_of k ub"
  shows "si_strm si ! s < kv_n_stream k" "length (si_idxs si ! s) = n_per_stream k ub"
    "distinct (si_idxs si ! s)" "set (si_idxs si ! s) \<subseteq> free_cells k (si_strm si ! s)" "si_idxs si ! s \<noteq> []"
    "s * n_per_stream k ub + n_per_stream k ub \<le> ub_n_tokens ub"
proof -
  have q: "valid_seq k (ub_seq_id_unq ub ! s)" and n: "0 < n_per_stream k ub"
    "ub_n_tokens ub = n_seqs_of k ub * n_per_stream k ub" using ub s by (auto simp: ub_ok_def)
  show "si_strm si ! s < kv_n_stream k" using si s kv_stream [OF ok q] by (simp add: slot_ok_def)
  show l: "length (si_idxs si ! s) = n_per_stream k ub" "distinct (si_idxs si ! s)"
    "set (si_idxs si ! s) \<subseteq> free_cells k (si_strm si ! s)" using si s unfolding slot_ok_def by blast+
  show "si_idxs si ! s \<noteq> []" using l(1) n(1) by auto
  have "Suc s * n_per_stream k ub \<le> n_seqs_of k ub * n_per_stream k ub" using s by (intro mult_le_mono1) simp
  then show "s * n_per_stream k ub + n_per_stream k ub \<le> ub_n_tokens ub" using n(2) by simp
qed

lemma slot_ok_lengths:
  assumes "ub_ok k ub" and "slot_ok k ub si"
  shows "length (si_strm si) = n_seqs_of k ub" "si_idxs si \<noteq> []" "si_size si = n_per_stream k ub"
    "distinct (si_strm si)"
proof -
  have n: "0 < n_seqs_of k ub" using assms(1) by (simp add: ub_ok_def)
  show "length (si_strm si) = n_seqs_of k ub" "si_idxs si \<noteq> []" "si_size si = n_per_stream k ub"
    using assms(2) n by (auto simp: slot_ok_def si_size_def)
  show "distinct (si_strm si)" using assms by (simp add: ub_ok_def slot_ok_def)
qed

text \<open>What a batch placed in slot \<open>si\<close> makes of the cells.\<close>

definition batch_placed :: "ubatch \<Rightarrow> slot_info \<Rightarrow> kv_cache \<Rightarrow> kv_cache \<Rightarrow> nat \<Rightarrow> bool" where
  "batch_placed ub si k k' m \<longleftrightarrow>
     (\<forall>s < m. placed ub (s * si_size si) (si_idxs si ! s) (cells_of k (si_strm si ! s)) (cells_of k' (si_strm si ! s)))
     \<and> (\<forall>st < kv_n_stream k. st \<notin> set (take m (si_strm si)) \<longrightarrow> cells_of k' st = cells_of k st)"

lemma apply_streams_ok:
  assumes ok: "kv_ok k" and ub: "ub_ok k ub" and si: "slot_ok k ub si"
  shows "\<exists>k'. foldM (\<lambda>s. foldM (apply_token si ub s) [0..<si_size si]) [0..<length (si_strm si)] (k, rm) = Some (k', rm)
    \<and> kv_ok k' \<and> kv_conf k' = kv_conf k \<and> batch_placed ub si k k' (length (si_strm si))"
proof -
  note len = slot_ok_lengths [OF ub si]
  let ?n = "length (si_strm si)" and ?b = "\<lambda>s. s * si_size si"
  let ?P = "\<lambda>m t. \<exists>k'. t = (k', rm) \<and> kv_ok k' \<and> kv_conf k' = kv_conf k \<and> batch_placed ub si k k' m"
  have "\<exists>t. foldM (\<lambda>s. foldM (apply_token si ub s) [0..<si_size si]) [0..<?n] (k, rm) = Some t \<and> ?P ?n t"
  proof (rule foldM_upt_rule [of ?P])
    show "?P 0 (k, rm)" using ok by (simp add: batch_placed_def)
  next
    fix s t assume s: "s < ?n" and "?P s t"
    then obtain k1 where t: "t = (k1, rm)" and k1: "kv_ok k1" "kv_conf k1 = kv_conf k" "batch_placed ub si k k1 s"
      by blast
    have sn: "s < n_seqs_of k ub" using s len(1) by simp
    note d = slot_okD [OF ok ub si sn]
    let ?st = "si_strm si ! s" and ?xs = "si_idxs si ! s"
    have fresh: "?st \<notin> set (take s (si_strm si))"
      using len(4) s by (metis distinct_take id_take_nth_drop not_distinct_conv_prefix)
    then have same: "cells_of k1 ?st = cells_of k ?st" using k1(3) d(1) by (simp add: batch_placed_def)
    have st1: "?st < kv_n_stream k1" using d(1) kv_conf_cong(1) [OF k1(2)] by simp
    have bound: "?b s + length ?xs \<le> ub_n_tokens ub" using d(2,6) len(3) by simp
    have free: "set ?xs \<subseteq> free_cells k1 ?st" using d(4) same by (simp add: free_cells_def)
    from apply_stream_ok [OF k1(1) ub ok bound refl st1 refl d(3) free, of rm] obtain c where
      c: "foldM (apply_token si ub s) [0..<length ?xs] (k1, rm) = Some (put_stream ?st c (kv_v_heads k1 ! ?st) k1, rm)"
        "kv_ok (put_stream ?st c (kv_v_heads k1 ! ?st) k1)" "placed ub (?b s) ?xs (cells_of k1 ?st) (cells_abs c)" by blast
    let ?k2 = "put_stream ?st c (kv_v_heads k1 ! ?st) k1"
    have cells: "cells_of ?k2 st = (if st = ?st then cells_abs c else cells_of k1 st)" for st
      using kv_lengths(1) [OF k1(1)] st1 by (simp add: cells_of_put)
    have old: "si_strm si ! j \<noteq> ?st" if "j < s" for j
      using len(4) s that by (simp add: nth_eq_iff_index_eq)
    have "batch_placed ub si k ?k2 (Suc s)"
      using k1(3) c(3) same s old unfolding batch_placed_def cells
      by (auto simp: less_Suc_eq take_Suc_conv_app_nth)
    then show "\<exists>t'. foldM (apply_token si ub s) [0..<si_size si] t = Some t' \<and> ?P (Suc s) t'"
      using c(1,2) k1(2) d(2) len(3) by (simp add: t)
  qed
  then show ?thesis by blast
qed

lemma kv_apply_ubatch_ok:
  assumes ok: "kv_ok k" and ub: "ub_ok k ub" and si: "slot_ok k ub si"
  shows "\<exists>k'. kv_apply_ubatch si ub k = Some k' \<and> kv_ok k' \<and> kv_conf k' = kv_conf k
    \<and> batch_placed ub si k k' (length (si_strm si))"
proof -
  note len = slot_ok_lengths [OF ub si]
  from apply_streams_ok [OF assms, of "\<lambda>_. -1"] obtain k1 where
    k1: "foldM (\<lambda>s. foldM (apply_token si ub s) [0..<si_size si]) [0..<length (si_strm si)] (k, \<lambda>_. -1) = Some (k1, \<lambda>_. -1)"
      "kv_ok k1" "kv_conf k1 = kv_conf k" "batch_placed ub si k k1 (length (si_strm si))" by blast
  have "si_strm si ! s < kv_n_stream k1 \<and> si_idxs si ! s \<noteq> [] \<and> last (si_idxs si ! s) < kv_get_size k1"
    if "s < length (si_strm si)" for s
  proof -
    have s: "s < n_seqs_of k ub" using that len(1) by simp
    note d = slot_okD [OF ok ub si s]
    have st1: "si_strm si ! s < kv_n_stream k1" using d(1) kv_conf_cong(1) [OF k1(3)] by simp
    have "placed ub (s * si_size si) (si_idxs si ! s) (cells_of k (si_strm si ! s)) (cells_of k1 (si_strm si ! s))"
      using k1(4) that by (simp add: batch_placed_def)
    then have "length (cells_of k (si_strm si ! s)) = kv_get_size k1"
      using kv_cells(2) [OF k1(2) st1] by (simp add: placed_def cells_of_def)
    moreover have "last (si_idxs si ! s) \<in> free_cells k (si_strm si ! s)" using d(4,5) last_in_set by blast
    ultimately show ?thesis using st1 d(5) by (simp add: free_cells_def)
  qed
  from move_heads_ok [OF k1(2) this] obtain k2 where
    k2: "foldM (move_head si) [0..<length (si_strm si)] k1 = Some k2" "kv_ok k2" "kv_conf k2 = kv_conf k1"
      "kv_v_cells k2 = kv_v_cells k1" by blast
  have "ub_n_tokens ub = length (si_strm si) * si_size si" using ub len by (simp add: ub_ok_def)
  then have "kv_apply_ubatch si ub k = Some k2"
    using k1(1) k2(1) kv_no_other [OF ok] len(2) by (simp add: kv_apply_ubatch_def purge_nothing)
  moreover have "batch_placed ub si k k2 (length (si_strm si))"
    using k1(4) k2(4) by (simp add: batch_placed_def cells_of_def)
  ultimately show ?thesis using k2(2,3) k1(3) by auto
qed


subsection \<open>Preparing batches leaves the cells alone\<close>

definition same_cells :: "kv_cache \<Rightarrow> kv_cache \<Rightarrow> bool" where
  "same_cells k k' \<longleftrightarrow> kv_conf k' = kv_conf k \<and> (\<forall>st < kv_n_stream k. cells_of k' st = cells_of k st)"

definition saved_ok :: "kv_cache \<Rightarrow> ubatch \<Rightarrow> saved_slot \<Rightarrow> bool" where
  "saved_ok k ub sv \<longleftrightarrow>
     slot_ok k ub (sv_sinfo sv) \<and> sv_heads_old sv = kv_v_heads k
     \<and> (\<forall>s < n_seqs_of k ub. cells_cp (si_idxs (sv_sinfo sv) ! s) (kv_v_cells k ! (si_strm (sv_sinfo sv) ! s))
          = Some (sv_cells sv ! s))"

lemma slot_cells_cp:
  assumes ok: "kv_ok k" and ub: "ub_ok k ub" and si: "slot_ok k ub si" and s: "s < n_seqs_of k ub"
  shows "\<exists>c. cells_cp (si_idxs si ! s) (kv_v_cells k ! (si_strm si ! s)) = Some c"
proof -
  note d = slot_okD [OF assms]
  have "i < cells_size (kv_v_cells k ! (si_strm si ! s)) \<and> kc_shift (kv_v_cells k ! (si_strm si ! s)) ! i = 0"
    if "i \<in> set (si_idxs si ! s)" for i
    using d(4) that ok_empty_shift [OF kv_cells(1) [OF ok d(1)], of i] by (auto simp: free_cells_eq)
  then show ?thesis using cells_cp_ok [of "si_idxs si ! s" "kv_v_cells k ! (si_strm si ! s)"] nth_mem by blast
qed

lemma save_loop_ok:
  assumes "kv_ok k" and "ub_ok k ub" and "slot_ok k ub si"
  shows "\<exists>cs. foldM (\<lambda>s cs. do { c \<leftarrow> cells_cp (si_idxs si ! s) (kv_v_cells k ! (si_strm si ! s)); Some (cs @ [c]) })
      [0..<length (si_strm si)] [] = Some cs
    \<and> (\<forall>s < n_seqs_of k ub. cells_cp (si_idxs si ! s) (kv_v_cells k ! (si_strm si ! s)) = Some (cs ! s))"
proof -
  let ?P = "\<lambda>m cs. length cs = m
      \<and> (\<forall>s < m. cells_cp (si_idxs si ! s) (kv_v_cells k ! (si_strm si ! s)) = Some (cs ! s))"
  note n = slot_ok_lengths(1) [OF assms(2,3)]
  have "\<exists>t. foldM (\<lambda>s cs. do { c \<leftarrow> cells_cp (si_idxs si ! s) (kv_v_cells k ! (si_strm si ! s)); Some (cs @ [c]) })
      [0..<length (si_strm si)] [] = Some t \<and> ?P (length (si_strm si)) t"
    by (rule foldM_upt_rule [of ?P])
       (use slot_cells_cp [OF assms] n in \<open>fastforce simp: nth_append less_Suc_eq\<close>)+
  then show ?thesis using n by auto
qed

lemma restore_stream_ok:
  assumes ok: "kv_ok k" and ub: "ub_ok k ub" and sv: "saved_ok k ub sv" and s: "s < n_seqs_of k ub"
    and kb: "kv_ok kb" "kv_conf kb = kv_conf k"
    and pl: "placed ub (s * si_size (sv_sinfo sv)) (si_idxs (sv_sinfo sv) ! s)
               (cells_of k (si_strm (sv_sinfo sv) ! s)) (cells_of kb (si_strm (sv_sinfo sv) ! s))"
  shows "\<exists>c. restore_stream sv s kb = Some (put_stream (si_strm (sv_sinfo sv) ! s) c (kv_v_heads k ! s) kb)
    \<and> kv_ok (put_stream (si_strm (sv_sinfo sv) ! s) c (kv_v_heads k ! s) kb)
    \<and> cells_abs c = cells_of k (si_strm (sv_sinfo sv) ! s)"
proof -
  let ?si = "sv_sinfo sv"
  let ?st = "si_strm ?si ! s" and ?xs = "si_idxs ?si ! s"
  let ?old = "kv_v_cells k ! ?st" and ?new = "kv_v_cells kb ! ?st"
  have si: "slot_ok k ub ?si" and heads: "sv_heads_old sv = kv_v_heads k"
    and cp: "cells_cp ?xs ?old = Some (sv_cells sv ! s)" using sv s by (auto simp: saved_ok_def)
  note d = slot_okD [OF ok ub si s]
  note c0 = kv_cells [OF ok d(1)]
  have stb: "?st < kv_n_stream kb" using d(1) kv_conf_cong(1) [OF kb(2)] by simp
  note cb = kv_cells [OF kb(1) stb]
  have size: "cells_size ?new = cells_size ?old" using pl by (simp add: placed_def cells_of_def)
  have idx: "?xs ! j < cells_size ?old" "kc_shift ?old ! (?xs ! j) = 0" if "j < length ?xs" for j
    using d(4) nth_mem [OF that] ok_empty_shift [OF c0(1)] by (auto simp: free_cells_eq)
  have z: "kc_shift ?new ! (?xs ! j) = 0" if "j < length ?xs" for j
  proof -
    have "cells_of kb ?st ! (?xs ! j) = tok_cell ub (s * si_size ?si + j) (cells_of k ?st ! (?xs ! j))"
      using pl that unfolding placed_def by blast
    then have "cell_at ?new (?xs ! j) = tok_cell ub (s * si_size ?si + j) (cell_at ?old (?xs ! j))"
      using idx(1) [OF that] size by (simp add: cells_of_def)
    then have "cell_shift (cell_at ?new (?xs ! j)) = cell_shift (cell_at ?old (?xs ! j))" by (simp add: tok_cell_def)
    then show ?thesis using idx(2) [OF that] by simp
  qed
  have same: "cell_at ?new i = cell_at ?old i" if "i < cells_size ?old" "i \<notin> set ?xs" for i
    using pl that size by (simp add: placed_def cells_of_def)
  from cells_set_restores [OF c0(1) cb(1) size d(3) idx z same cp] obtain c where
    c: "cells_set ?xs (sv_cells sv ! s) ?new = Some c" "cells_ok c" "cells_abs c = cells_abs ?old" by blast
  have "n_seqs_of k ub \<le> kv_n_stream k"
  proof -
    have "set (si_strm ?si) \<subseteq> {..<kv_n_stream k}"
      using slot_okD(1) [OF ok ub si] slot_ok_lengths(1) [OF ub si] by (auto simp: in_set_conv_nth)
    then show ?thesis
      using card_mono [of "{..<kv_n_stream k}" "set (si_strm ?si)"] slot_ok_lengths [OF ub si]
      by (simp add: distinct_card)
  qed
  then have h: "kv_v_heads k ! s \<le> kv_get_size k" using kv_cells(3) [OF ok, of s] s by simp
  have gs: "kv_get_size kb = kv_get_size k" using size c0(2) cb(2) by simp
  have cs: "cells_size c = kv_get_size kb" using c(3) c0(2) gs length_cells_abs by metis
  have "kv_ok (put_stream ?st c (kv_v_heads k ! s) kb)"
    using c c0(4) cs h gs by (intro kv_ok_put [OF kb(1) stb]) auto
  then show ?thesis using c heads by (auto simp: restore_stream_def cells_of_def)
qed

lemma restore_saved_ok:
  assumes ok: "kv_ok k" and ub: "ub_ok k ub" and sv: "saved_ok k ub sv"
    and kb: "kv_ok kb" "kv_conf kb = kv_conf k"
    and pl: "batch_placed ub (sv_sinfo sv) k kb (length (si_strm (sv_sinfo sv)))"
  shows "\<exists>k'. foldM (restore_stream sv) [0..<length (si_strm (sv_sinfo sv))] kb = Some k' \<and> kv_ok k'
    \<and> same_cells k k' \<and> (kv_n_stream k = 1 \<longrightarrow> kv_v_heads k' = kv_v_heads k)"
proof -
  let ?si = "sv_sinfo sv"
  let ?n = "length (si_strm ?si)"
  have si: "slot_ok k ub ?si" using sv by (simp add: saved_ok_def)
  note len = slot_ok_lengths [OF ub si]
  let ?P = "\<lambda>m t. kv_ok t \<and> kv_conf t = kv_conf k
      \<and> (\<forall>st < kv_n_stream k. cells_of t st = (if st \<in> set (drop m (si_strm ?si)) then cells_of kb st else cells_of k st))
      \<and> (0 < m \<and> kv_n_stream k = 1 \<longrightarrow> kv_v_heads t = kv_v_heads k)"
  have "\<exists>t. foldM (restore_stream sv) [0..<?n] kb = Some t \<and> ?P ?n t"
  proof (rule foldM_upt_rule [of ?P])
    show "?P 0 kb" using kb pl by (auto simp: batch_placed_def)
  next
    fix s t assume s: "s < ?n" and t: "?P s t"
    have sn: "s < n_seqs_of k ub" using s len(1) by simp
    note d = slot_okD [OF ok ub si sn]
    let ?st = "si_strm ?si ! s"
    have here: "?st \<in> set (drop s (si_strm ?si))" using s by (metis Cons_nth_drop_Suc list.set_intros(1))
    have drop: "set (drop s (si_strm ?si)) = insert ?st (set (drop (Suc s) (si_strm ?si)))"
      using s by (metis Cons_nth_drop_Suc list.simps(15))
    have gone: "?st \<notin> set (drop (Suc s) (si_strm ?si))"
      using s len(4) by (metis Cons_nth_drop_Suc distinct.simps(2) distinct_drop)
    have "placed ub (s * si_size ?si) (si_idxs ?si ! s) (cells_of k ?st) (cells_of t ?st)"
      using pl s t d(1) here by (simp add: batch_placed_def)
    from restore_stream_ok [OF ok ub sv sn _ _ this] t obtain c where
      c: "restore_stream sv s t = Some (put_stream ?st c (kv_v_heads k ! s) t)"
        "kv_ok (put_stream ?st c (kv_v_heads k ! s) t)" "cells_abs c = cells_of k ?st" by blast
    have st: "?st < length (kv_v_cells t)" using d(1) kv_lengths(1) [of t] t kv_conf_cong(1) [of t k] by simp
    have heads: "kv_v_heads (put_stream ?st c (kv_v_heads k ! s) t) = kv_v_heads k" if one: "kv_n_stream k = 1"
    proof -
      have "s = 0" "?st = 0" using one sn d(1) by (simp_all add: n_seqs_of_def)
      moreover have "length (kv_v_heads t) = 1" "length (kv_v_heads k) = 1"
        using t one kv_lengths(2) kv_conf_cong(1) [of t k] ok by simp_all
      ultimately show ?thesis by (simp add: put_stream_def list_eq_iff_nth_eq)
    qed
    show "\<exists>t'. restore_stream sv s t = Some t' \<and> ?P (Suc s) t'"
      using c t st gone heads unfolding drop by (auto simp: cells_of_put)
  qed
  then show ?thesis using len ub by (auto simp: same_cells_def ub_ok_def)
qed


lemma batch_placed_same:
  assumes "batch_placed ub si k k' m" and "same_cells k' k''" and "kv_n_stream k' = kv_n_stream k"
    and "\<And>s. s < m \<Longrightarrow> si_strm si ! s < kv_n_stream k"
  shows "batch_placed ub si k k'' m"
  using assms by (auto simp: batch_placed_def same_cells_def)

lemma place_and_restore:
  assumes "kv_ok k" and "kv_swa_type k = LLAMA_SWA_TYPE_NONE" and "\<And>ub. ub \<in> set ubs \<Longrightarrow> ub_ok k ub"
  shows "\<exists>k1 new ok k2. place_all ubs k states = Some (k1, states @ new, ok)
    \<and> (new = [] \<longrightarrow> ubs = [] \<or> \<not> ok)
    \<and> foldM (\<lambda>sv. foldM (restore_stream sv) [0..<length (si_strm (sv_sinfo sv))]) (rev new) k1 = Some k2
    \<and> kv_ok k2 \<and> same_cells k k2 \<and> (kv_n_stream k = 1 \<longrightarrow> kv_v_heads k2 = kv_v_heads k)"
  using assms
proof (induction ubs arbitrary: k states)
  case Nil
  then show ?case by (auto simp: same_cells_def)
next
  case (Cons ub ubs)
  note ok = Cons.prems(1) and swa = Cons.prems(2)
  have ub: "ub_ok k ub" using Cons.prems(3) by simp
  from find_slot_ok [OF ok swa ub] obtain si where
    si: "kv_find_slot ub False k = Some si" "slot_ok k ub si \<or> si_idxs si = []" by (auto split: if_splits)
  show ?case
  proof (cases "si_idxs si = []")
    case True
    then show ?thesis using si(1) ok by (auto simp: same_cells_def ex_bool_eq)
  next
    case False
    with si(2) have slot: "slot_ok k ub si" by simp
    from save_loop_ok [OF ok ub slot] obtain cs where
      cs: "foldM (\<lambda>s cs. do { c \<leftarrow> cells_cp (si_idxs si ! s) (kv_v_cells k ! (si_strm si ! s)); Some (cs @ [c]) })
          [0..<length (si_strm si)] [] = Some cs"
        "\<forall>s < n_seqs_of k ub. cells_cp (si_idxs si ! s) (kv_v_cells k ! (si_strm si ! s)) = Some (cs ! s)" by blast
    let ?sv = "\<lparr>sv_sinfo = si, sv_heads_old = kv_v_heads k, sv_cells = cs\<rparr>"
    have sv: "saved_ok k ub ?sv" using slot cs(2) by (simp add: saved_ok_def)
    from kv_apply_ubatch_ok [OF ok ub slot] obtain k' where
      k': "kv_apply_ubatch si ub k = Some k'" "kv_ok k'" "kv_conf k' = kv_conf k"
        "batch_placed ub si k k' (length (si_strm si))" by blast
    from Cons.IH [OF k'(2), of "states @ [?sv]"] Cons.prems(2,3) kv_conf_cong [OF k'(3)] obtain k1 new okb k2 where
      ih: "place_all ubs k' (states @ [?sv]) = Some (k1, (states @ [?sv]) @ new, okb)"
        "foldM (\<lambda>sv. foldM (restore_stream sv) [0..<length (si_strm (sv_sinfo sv))]) (rev new) k1 = Some k2"
        "kv_ok k2" "same_cells k' k2" by auto
    have conf2: "kv_conf k2 = kv_conf k" using ih(4) k'(3) by (simp add: same_cells_def)
    have "si_strm si ! s < kv_n_stream k" if "s < length (si_strm si)" for s
      using slot_okD(1) [OF ok ub slot] slot_ok_lengths(1) [OF ub slot] that by simp
    then have pl2: "batch_placed ub si k k2 (length (si_strm si))"
      using batch_placed_same [OF k'(4) ih(4)] kv_conf_cong(1) [OF k'(3)] by blast
    from restore_saved_ok [OF ok ub sv ih(3) conf2] pl2 obtain k3 where
      k3: "foldM (restore_stream ?sv) [0..<length (si_strm si)] k2 = Some k3" "kv_ok k3" "same_cells k k3"
        "kv_n_stream k = 1 \<longrightarrow> kv_v_heads k3 = kv_v_heads k" by auto
    have "place_all (ub # ubs) k states = Some (k1, states @ (?sv # new), okb)"
      using si(1) False cs(1) k'(1) ih(1) by simp
    moreover have "foldM (\<lambda>sv. foldM (restore_stream sv) [0..<length (si_strm (sv_sinfo sv))]) (rev (?sv # new)) k1
        = Some k3"
      using ih(2) k3(1) by (simp add: foldM_append)
    ultimately show ?thesis using k3 by blast
  qed
qed

subsection \<open>Properties\<close>

text \<open>A cache of one stream with four cells; sequence 0 holds positions 0 and 1.\<close>

definition demo_cells :: kv_cells where
  "demo_cells =
     \<lparr>kc_has_shift = False, kc_used = {0, 1}, kc_pos = [0, 1, -1, -1],
      kc_ext = [ext_zero, ext_zero, ext_zero, ext_zero], kc_shift = [0, 0, 0, 0],
      kc_seq = [{0}, {0}, {}, {}], kc_seq_pos = (\<lambda>_. [])(0 := [(0, 1), (1, 1)])\<rparr>"

definition demo_kv :: kv_cache where
  "demo_kv =
     \<lparr>kv_other = None, kv_n_stream = 1, kv_seq_to_stream = replicate LLAMA_MAX_SEQ 0,
      kv_v_cells = [demo_cells], kv_v_heads = [2], kv_sc_info = [], kv_n_swa = 0,
      kv_swa_type = LLAMA_SWA_TYPE_NONE, kv_n_pos_per_embd = 1\<rparr>"

definition demo_batch :: ubatch where
  "demo_batch =
     \<lparr>ub_n_tokens = 2, ub_n_seqs_unq = 1, ub_seq_id_unq = [0], ub_seq_id = [[0], [0]], ub_pos = [2, 3],
      ub_is_pos_2d = False\<rparr>"

lemma demo_abs: "cells_abs demo_cells =
   [\<lparr>cell_pos = 0, cell_ext = ext_zero, cell_shift = 0, cell_seq = {0}\<rparr>,
    \<lparr>cell_pos = 1, cell_ext = ext_zero, cell_shift = 0, cell_seq = {0}\<rparr>, cell_none, cell_none]"
  by (simp add: cells_abs_def cells_size_def demo_cells_def cell_at_def cell_none_def upt_rec)

lemma all_less_4: "(\<forall>i < (4::nat). P i) \<longleftrightarrow> P 0 \<and> P 1 \<and> P 2 \<and> P 3"
  by (auto simp: numeral_eq_Suc All_less_Suc)

lemma demo_cells_ok: "cells_ok demo_cells"
proof -
  have size: "cells_size demo_cells = 4" by (simp add: cells_size_def demo_cells_def)
  have "counts (kc_seq_pos demo_cells) (hits (cells_abs demo_cells))"
    unfolding demo_abs by (auto simp: counts_def hits_def hit_def demo_cells_def)
  moreover have "kc_used demo_cells = {i. i < 4 \<and> kc_pos demo_cells ! i \<noteq> -1}"
    by (auto simp: demo_cells_def numeral_eq_Suc less_Suc_eq)
  ultimately show ?thesis
    by (simp add: cells_ok_def size all_less_4 wf_cell_def LLAMA_MAX_SEQ_def)
       (simp add: demo_cells_def)
qed

lemma demo_kv_inv: "kv_inv demo_kv"
proof -
  have "kv_ok demo_kv"
    using demo_cells_ok demo_abs
    by (auto simp: kv_ok_def demo_kv_def kv_get_size_def cells_size_def demo_cells_def named_def)
  then show ?thesis
    by (auto simp: kv_inv_def demo_kv_def cells_of_def demo_abs good_cell_def)
qed

lemma demo_valid: "valid_seq demo_kv s \<longleftrightarrow> 0 \<le> s \<and> s < 256"
  by (simp add: valid_seq_def demo_kv_def LLAMA_MAX_SEQ_def)


lemma demo_ok: "kv_ok demo_kv" "kv_swa_type demo_kv = LLAMA_SWA_TYPE_NONE"
  using demo_kv_inv by (simp_all add: kv_inv_def demo_kv_def)

lemma holds_list:
  "holds cs s = set (map (\<lambda>i. (i, cell_pos (cs ! i))) (filter (\<lambda>i. s \<in> cell_seq (cs ! i)) [0..<length cs]))"
  by (auto simp: holds_def)

lemma demo_seq_cells: "seq_cells demo_kv s = (if s \<le> 0 then {(0, 0), (1, 1)} else {})" if "s < 256"
proof -
  have "stream_of demo_kv s = 0"
    using that by (simp add: stream_of_def demo_kv_def LLAMA_MAX_SEQ_def)
  then have "seq_cells demo_kv s = holds (cells_abs demo_cells) (nat s)"
    by (simp add: seq_cells_def cells_of_def demo_kv_def)
  also have "\<dots> = (if nat s = 0 then {(0, 0), (1, 1)} else {})"
    unfolding demo_abs holds_list by (simp add: upt_rec)
  finally show ?thesis by simp
qed

lemma demo_free: "free_cells demo_kv 0 = {2, 3}"
  unfolding free_cells_def cells_of_def
  by (auto simp: demo_kv_def demo_abs less_Suc_eq numeral_eq_Suc)

lemma demo_batch_ok: "ub_ok demo_kv demo_batch"
  by (auto simp: ub_ok_def n_seqs_of_def n_per_stream_def demo_batch_def demo_valid less_2_cases_iff)

lemma demo_batch_counts [simp]: "n_seqs_of demo_kv demo_batch = 1" "n_per_stream demo_kv demo_batch = 2"
  "stream_of demo_kv 0 = 0" "ub_seq_id_unq demo_batch = [0]"
  by (simp_all add: n_seqs_of_def n_per_stream_def demo_kv_def demo_batch_def stream_of_def LLAMA_MAX_SEQ_def)

text \<open>
  C1: Removing a range from a sequence is exact: it violates no assertion, keeps the
  invariant, takes from that sequence precisely the cells with positions in the range, and
  leaves every other sequence as it was, also where cells are shared.
\<close>

theorem kv_seq_rm_exact:
  assumes "kv_inv k" and "valid_seq k s"
  shows "\<exists>k'. kv_seq_rm s p0 p1 k = Some (k', True) \<and> kv_inv k'
    \<and> seq_cells k' s = {(i, p) \<in> seq_cells k s. \<not> in_range p0 p1 p}
    \<and> (\<forall>t. valid_seq k t \<and> t \<noteq> s \<longrightarrow> seq_cells k' t = seq_cells k t)"
  using kv.rm_law [OF assms] by blast

theorem kv_seq_rm_exact_witness:
  "\<exists>k'. kv_seq_rm 0 1 (-1) demo_kv = Some (k', True) \<and> seq_cells k' 0 = {(0, 0)}"
proof -
  have v: "valid_seq demo_kv 0" by (simp add: demo_valid)
  from kv_seq_rm_exact [OF demo_kv_inv v, of 1 "-1"] obtain k' where
    "kv_seq_rm 0 1 (-1) demo_kv = Some (k', True)"
    "seq_cells k' 0 = {(i, p) \<in> seq_cells demo_kv 0. \<not> in_range 1 (-1) p}" by (elim exE conjE)
  moreover have "\<not> in_range 1 (-1) 0" "in_range 1 (-1) 1"
    by (simp_all add: in_range_def norm_p0_def norm_p1_def)
  then have "{(i, p) \<in> {(0::nat, 0), (1, 1)}. \<not> in_range 1 (-1) p} = {(0, 0)}" by auto
  moreover have "seq_cells demo_kv 0 = {(0, 0), (1, 1)}" using demo_seq_cells [of 0] by simp
  ultimately show ?thesis by (metis (no_types))
qed

text \<open>
  A copied sequence is independent of the original: after copying \<open>src\<close> into the empty
  sequence \<open>dst\<close> (cells shared in one stream, or duplicated in another) and then removing
  any range of \<open>src\<close>, \<open>dst\<close> still has every position \<open>src\<close> had.
\<close>

theorem kv_copy_survives:
  assumes "kv_inv k" and "valid_seq k src" and "valid_seq k dst" and "src \<noteq> dst" and "seq_cells k dst = {}"
  shows "\<exists>k1 k2. kv_seq_cp src dst (-1) (-1) k = Some k1 \<and> kv_seq_rm src p0 p1 k1 = Some (k2, True)
    \<and> seq_cells k2 dst = seq_cells k src \<and> kv_seq_pos_max dst k2 = kv_seq_pos_max src k"
  by (rule kv.copy_survives [OF assms])

theorem kv_copy_survives_witness:
  "\<exists>k1 k2. kv_seq_cp 0 3 (-1) (-1) demo_kv = Some k1 \<and> kv_seq_rm 0 (-1) (-1) k1 = Some (k2, True)
     \<and> seq_cells k2 3 = {(0, 0), (1, 1)} \<and> kv_seq_pos_max 3 k2 = kv_seq_pos_max 0 demo_kv"
  using kv_copy_survives [OF demo_kv_inv, of 0 3 "-1" "-1"] by (simp add: demo_valid demo_seq_cells)

text \<open>
  Truncation bounds the next position: after \<open>seq_rm(s, n, -1)\<close> the largest position
  of the sequence is below \<open>n\<close> (-1 when nothing is left).
\<close>

theorem kv_truncate_bounds:
  assumes "kv_inv k" and "valid_seq k s" and "0 \<le> n"
  shows "\<exists>k' p. kv_seq_rm s n (-1) k = Some (k', True) \<and> kv_seq_pos_max s k' = Some p \<and> p < n"
  using kv.rm_law [OF assms(1,2), of n "-1"] kv.pmax_truncated [OF assms] by blast

theorem kv_truncate_bounds_witness:
  "\<exists>k' p. kv_seq_rm 0 1 (-1) demo_kv = Some (k', True) \<and> kv_seq_pos_max 0 k' = Some p \<and> p < 1"
  by (rule kv_truncate_bounds [OF demo_kv_inv]) (simp_all add: demo_valid)










text \<open>
  \<open>seq_pos_min\<close> and \<open>seq_pos_max\<close> answer for the cells: the smallest and the largest
  position among the cells of the sequence, -1 when it has none.
\<close>

theorem kv_seq_pos_index:
  assumes "kv_ok k" and "valid_seq k s"
  shows "kv_seq_pos_min s k = Some (if seq_cells k s = {} then -1 else Min (snd ` seq_cells k s))
    \<and> kv_seq_pos_max s k = Some (if seq_cells k s = {} then -1 else Max (snd ` seq_cells k s))"
  using kv_seq_pos_max_eq [OF assms] by simp

theorem kv_seq_pos_index_witness: "kv_seq_pos_max 0 demo_kv = Some 1 \<and> kv_seq_pos_max 3 demo_kv = Some (-1)"
  using kv_seq_pos_index [OF demo_ok(1), of 0] kv_seq_pos_index [OF demo_ok(1), of 3]
  by (simp add: demo_valid demo_seq_cells)

text \<open>
  The accumulated shift is kept with opposite signs: \<open>pos_add\<close> preserves the difference
  of position and shift (the position the K data was rotated for), \<open>pos_div\<close> preserves
  their sum instead, so a divided cell asks for a shift in the wrong direction.
\<close>

theorem kv_shift_sign:
  assumes "cells_ok c" and "i < cells_size c" and "kc_pos c ! i \<noteq> -1" and "0 < d" and "0 \<le> kc_pos c ! i + e"
  shows "(\<exists>c'. pos_add i e c = Some (c', False)
            \<and> kc_pos c' ! i - kc_shift c' ! i = kc_pos c ! i - kc_shift c ! i)
    \<and> (\<exists>c'. pos_div i d c = Some c' \<and> kc_pos c' ! i + kc_shift c' ! i = kc_pos c ! i + kc_shift c ! i)"
proof
  from pos_add_ok [OF assms(1-3), of e] assms(5) obtain c' where
    c': "pos_add i e c = Some (c', False)" "cells_abs c' = (cells_abs c)[i := cell_pos_add e (cell_at c i)]" by auto
  have "cell_at c' i = cell_pos_add e (cell_at c i)" using cell_at_update [OF c'(2) assms(2,2)] by simp
  with assms(5) have "kc_pos c' ! i - kc_shift c' ! i = kc_pos c ! i - kc_shift c ! i"
    by (simp add: cell_pos_add_def cell_at_def)
  with c'(1) show "\<exists>c'. pos_add i e c = Some (c', False)
      \<and> kc_pos c' ! i - kc_shift c' ! i = kc_pos c ! i - kc_shift c ! i" by blast
next
  from pos_div_ok [OF assms(1-4)] obtain c' where
    c': "pos_div i d c = Some c'" "cells_abs c' = (cells_abs c)[i := cell_pos_div d (cell_at c i)]" by blast
  have "cell_at c' i = cell_pos_div d (cell_at c i)" using cell_at_update [OF c'(2) assms(2,2)] by simp
  then have "kc_pos c' ! i + kc_shift c' ! i = kc_pos c ! i + kc_shift c ! i"
    by (simp add: cell_pos_div_def cell_at_def)
  with c'(1) show "\<exists>c'. pos_div i d c = Some c' \<and> kc_pos c' ! i + kc_shift c' ! i = kc_pos c ! i + kc_shift c ! i"
    by blast
qed

theorem kv_shift_sign_witness:
  "\<exists>c'. pos_div 1 2 demo_cells = Some c' \<and> kc_pos c' ! 1 + kc_shift c' ! 1 = 1"
proof -
  have h: "1 < cells_size demo_cells" "kc_pos demo_cells ! 1 \<noteq> -1" "0 \<le> kc_pos demo_cells ! 1 + 0"
    "kc_pos demo_cells ! 1 + kc_shift demo_cells ! 1 = 1" by (simp_all add: demo_cells_def cells_size_def)
  from kv_shift_sign [OF demo_cells_ok h(1,2) _ h(3), of 2] h(4) show ?thesis by auto
qed

text \<open>
  Copying a sequence twice into the same target of one stream is not idempotent: the
  second copy meets cells that already belong to the target and violates the precondition
  of \<open>seq_add\<close> (an assertion in a debug build, a position counted twice otherwise).
\<close>

theorem kv_seq_cp_twice:
  "\<exists>k1. kv_seq_cp 0 3 (-1) (-1) demo_kv = Some k1 \<and> kv_seq_cp 0 3 (-1) (-1) k1 = None"
proof -
  have d: "stream_of demo_kv 3 = 0" "cells_of demo_kv 0 = cells_abs demo_cells" "kv_v_heads demo_kv ! 0 = 2"
    by (simp_all add: stream_of_def demo_kv_def LLAMA_MAX_SEQ_def cells_of_def)
  have "nat 3 \<notin> cell_seq x" if "x \<in> set (cells_of demo_kv 0)" for x
    using that unfolding d demo_abs by auto
  then obtain c where
    c: "kv_seq_cp 0 3 (-1) (-1) demo_kv = Some (put_stream 0 c 2 demo_kv)"
      "cells_abs c = map (cell_cp_seq 0 3 (-1) (-1)) (cells_abs demo_cells)"
    using kv_seq_cp_cells [OF demo_ok(1), of 0 3 "-1" "-1"] d by (auto simp: demo_valid)
  let ?k = "put_stream 0 c 2 demo_kv"
  have size: "cells_size c = 4" using arg_cong [OF c(2), of length] by (simp add: cells_size_def demo_cells_def)
  have c0: "kc_pos c ! 0 = 0" "kc_seq c ! 0 = {0, 3}"
    using abs_nthD [OF c(2), of 0] size
    by (auto simp: demo_abs cell_cp_seq_def in_range_def norm_p0_def norm_p1_def)
  have "seq_cp_body 0 3 (norm_p0 (-1)) (norm_p1 (-1)) 0 c = None"
    using size c0 by (simp add: seq_cp_body_def pos_in_def seq_has_def cells_seq_add_def norm_p0_def norm_p1_def)
  then have "foldM (seq_cp_body 0 3 (norm_p0 (-1)) (norm_p1 (-1))) [0..<cells_size c] c = None"
    by (simp add: size upt_rec)
  then have "kv_seq_cp 0 3 (-1) (-1) ?k = None"
    by (simp add: kv_seq_cp_def put_stream_def demo_kv_def valid_seq_def stream_of_def LLAMA_MAX_SEQ_def Let_def)
  with c(1) show ?thesis by blast
qed

end
