(* ===== verification/Safe_Shim.thy ===== *)
theory Safe_Shim
  imports Erl_Term
begin

text \<open>
  The exception-safe shims of \<open>c_src/erllama_safe.cpp\<close> over the C interface of llama.cpp.
  The compute engine behind that interface is the record \<open>llama_api\<close>: \<open>'n\<close> is the state of
  one \<open>llama_context\<close>, \<open>'s\<close> that of one sampler chain. Every function of it may throw
  (\<open>exc\<close>); one that changes the state returns the state it leaves, also when it throws.
  A shim is \<open>catch_all\<close> with the sentinel that the source returns.

  Pointers to models and vocabularies are numbers, \<open>None\<close> is \<open>NULL\<close>. Logits and embeddings
  are rationals (every finite float is one); the rounding operations of \<open>float\<close> arithmetic
  are the parameters \<open>float_ops\<close>.
\<close>

text \<open>\<open>struct llama_batch\<close>: a \<open>NULL\<close> array is \<open>None\<close>; \<open>n_tokens\<close> is the length of \<open>b_token\<close>.\<close>

record llama_batch =
  b_token :: "llama_token list"
  b_pos :: "llama_pos list option"
  b_seq_id :: "llama_seq_id list list option"
  b_logits :: "bool list option"

record ('n, 's) llama_api =
  llama_get_model :: "'n \<Rightarrow> nat option exc"
  llama_model_get_vocab :: "nat \<Rightarrow> nat option exc"
  llama_vocab_n_tokens :: "nat \<Rightarrow> int exc"
  llama_vocab_is_eog :: "nat \<Rightarrow> llama_token \<Rightarrow> bool exc"
  llama_model_n_embd :: "nat option \<Rightarrow> int exc"
  llama_n_ctx :: "'n \<Rightarrow> nat exc"
  llama_n_batch :: "'n \<Rightarrow> nat exc"
  llama_decode :: "(nat \<Rightarrow> bool) \<Rightarrow> llama_batch \<Rightarrow> 'n \<Rightarrow> int exc \<times> 'n"
  llama_get_logits_ith :: "'n \<Rightarrow> int \<Rightarrow> rat list option exc"
  llama_get_memory :: "'n \<Rightarrow> bool exc"
  llama_memory_seq_rm :: "llama_seq_id \<Rightarrow> llama_pos \<Rightarrow> llama_pos \<Rightarrow> 'n \<Rightarrow> bool exc \<times> 'n"
  llama_memory_seq_cp :: "llama_seq_id \<Rightarrow> llama_seq_id \<Rightarrow> llama_pos \<Rightarrow> llama_pos \<Rightarrow> 'n \<Rightarrow> unit exc \<times> 'n"
  llama_memory_seq_pos_max :: "llama_seq_id \<Rightarrow> 'n \<Rightarrow> llama_pos exc"
  llama_state_seq_get_size :: "llama_seq_id \<Rightarrow> 'n \<Rightarrow> nat exc"
  llama_state_seq_get_data :: "nat \<Rightarrow> llama_seq_id \<Rightarrow> 'n \<Rightarrow> (nat \<times> byte list) exc"
  llama_state_seq_set_data :: "byte list \<Rightarrow> llama_seq_id \<Rightarrow> 'n \<Rightarrow> nat exc \<times> 'n"
  llama_set_embeddings :: "bool \<Rightarrow> 'n \<Rightarrow> unit exc \<times> 'n"
  llama_get_embeddings_seq :: "'n \<Rightarrow> llama_seq_id \<Rightarrow> rat list option exc"
  llama_get_embeddings :: "'n \<Rightarrow> rat list option exc"
  llama_sampler_sample :: "'s \<Rightarrow> 'n \<Rightarrow> int \<Rightarrow> llama_token exc \<times> 's"

record float_ops =
  f_log_sum_exp :: "rat list \<Rightarrow> rat"
  f_sub :: "rat \<Rightarrow> rat \<Rightarrow> rat"

definition ERLLAMA_DECODE_EXC_SENTINEL :: int where
  "ERLLAMA_DECODE_EXC_SENTINEL = INT32_MIN"

definition erllama_safe_get_model :: "('n, 's) llama_api \<Rightarrow> 'n \<Rightarrow> nat option" where
  "erllama_safe_get_model api n = catch_all (llama_get_model api n) None"

definition erllama_safe_model_get_vocab :: "('n, 's) llama_api \<Rightarrow> nat \<Rightarrow> nat option" where
  "erllama_safe_model_get_vocab api m = catch_all (llama_model_get_vocab api m) None"

definition erllama_safe_vocab_n_tokens :: "('n, 's) llama_api \<Rightarrow> nat \<Rightarrow> int" where
  "erllama_safe_vocab_n_tokens api v = catch_all (llama_vocab_n_tokens api v) 0"

definition erllama_safe_vocab_is_eog :: "('n, 's) llama_api \<Rightarrow> nat \<Rightarrow> llama_token \<Rightarrow> bool" where
  "erllama_safe_vocab_is_eog api v tok = catch_all (llama_vocab_is_eog api v tok) False"

definition erllama_safe_n_embd :: "('n, 's) llama_api \<Rightarrow> nat option \<Rightarrow> int" where
  "erllama_safe_n_embd api m = catch_all (llama_model_n_embd api m) 0"

definition erllama_safe_n_ctx :: "('n, 's) llama_api \<Rightarrow> 'n \<Rightarrow> nat" where
  "erllama_safe_n_ctx api n = catch_all (llama_n_ctx api n) 0"

definition erllama_safe_n_batch :: "('n, 's) llama_api \<Rightarrow> 'n \<Rightarrow> nat" where
  "erllama_safe_n_batch api n = catch_all (llama_n_batch api n) 0"

definition erllama_safe_decode ::
  "('n, 's) llama_api \<Rightarrow> (nat \<Rightarrow> bool) \<Rightarrow> llama_batch \<Rightarrow> 'n \<Rightarrow> int \<times> 'n" where
  "erllama_safe_decode api poll b n =
     (let (r, n') = llama_decode api poll b n in (catch_all r ERLLAMA_DECODE_EXC_SENTINEL, n'))"

definition erllama_safe_sampler_sample ::
  "('n, 's) llama_api \<Rightarrow> 's \<Rightarrow> 'n \<Rightarrow> int \<Rightarrow> llama_token \<times> 's" where
  "erllama_safe_sampler_sample api s n idx =
     (let (r, s') = llama_sampler_sample api s n idx in (catch_all r (-1), s'))"

definition erllama_safe_state_seq_get_size :: "('n, 's) llama_api \<Rightarrow> 'n \<Rightarrow> int \<Rightarrow> nat" where
  "erllama_safe_state_seq_get_size api n seq_id = catch_all (llama_state_seq_get_size api seq_id n) SIZE_MAX"

definition erllama_safe_state_seq_get_data ::
  "('n, 's) llama_api \<Rightarrow> 'n \<Rightarrow> nat \<Rightarrow> int \<Rightarrow> nat \<times> byte list" where
  "erllama_safe_state_seq_get_data api n sz seq_id =
     catch_all (llama_state_seq_get_data api sz seq_id n) (SIZE_MAX, [])"

definition erllama_safe_state_seq_set_data ::
  "('n, 's) llama_api \<Rightarrow> byte list \<Rightarrow> int \<Rightarrow> 'n \<Rightarrow> nat \<times> 'n" where
  "erllama_safe_state_seq_set_data api src seq_id n =
     (let (r, n') = llama_state_seq_set_data api src seq_id n in (catch_all r 0, n'))"

text \<open>The memory shims look the memory object up first; \<open>Ret False\<close> is a \<open>NULL\<close> memory.\<close>

definition erllama_safe_memory_seq_rm ::
  "('n, 's) llama_api \<Rightarrow> int \<Rightarrow> int \<Rightarrow> int \<Rightarrow> 'n \<Rightarrow> int \<times> 'n" where
  "erllama_safe_memory_seq_rm api seq_id p0 p1 n =
     (case llama_get_memory api n of
        Throw \<Rightarrow> (-1, n)
      | Ret mem \<Rightarrow>
          if \<not> mem then (-1, n)
          else let (r, n') = llama_memory_seq_rm api seq_id p0 p1 n
               in (catch_all (case r of Throw \<Rightarrow> Throw | Ret b \<Rightarrow> Ret (if b then 0 else -1)) (-1), n'))"

definition erllama_safe_memory_seq_cp ::
  "('n, 's) llama_api \<Rightarrow> int \<Rightarrow> int \<Rightarrow> 'n \<Rightarrow> int \<times> 'n" where
  "erllama_safe_memory_seq_cp api src dst n =
     (case llama_get_memory api n of
        Throw \<Rightarrow> (-1, n)
      | Ret mem \<Rightarrow>
          if \<not> mem then (-1, n)
          else let (r, n') = llama_memory_seq_cp api src dst (-1) (-1) n
               in (catch_all (case r of Throw \<Rightarrow> Throw | Ret _ \<Rightarrow> Ret 0) (-1), n'))"

definition erllama_safe_memory_seq_pos_max :: "('n, 's) llama_api \<Rightarrow> 'n \<Rightarrow> int \<Rightarrow> int" where
  "erllama_safe_memory_seq_pos_max api n seq_id =
     (case llama_get_memory api n of
        Throw \<Rightarrow> -2
      | Ret mem \<Rightarrow> if \<not> mem then -2 else catch_all (llama_memory_seq_pos_max api seq_id n) (-2))"

definition erllama_safe_set_embeddings :: "('n, 's) llama_api \<Rightarrow> bool \<Rightarrow> 'n \<Rightarrow> int \<times> 'n" where
  "erllama_safe_set_embeddings api v n =
     (let (r, n') = llama_set_embeddings api v n
      in (catch_all (case r of Throw \<Rightarrow> Throw | Ret _ \<Rightarrow> Ret 0) (-1), n'))"

definition erllama_safe_get_embeddings_seq :: "('n, 's) llama_api \<Rightarrow> 'n \<Rightarrow> int \<Rightarrow> rat list option" where
  "erllama_safe_get_embeddings_seq api n seq_id = catch_all (llama_get_embeddings_seq api n seq_id) None"

definition erllama_safe_get_embeddings :: "('n, 's) llama_api \<Rightarrow> 'n \<Rightarrow> rat list option" where
  "erllama_safe_get_embeddings api n = catch_all (llama_get_embeddings api n) None"

text \<open>
  \<open>erllama_safe_batch_init\<close>: the arrays of a batch of the wanted size, or (allocation failed
  or threw) a batch with a \<open>NULL\<close> array, \<open>None\<close>. Rows are appended by the callers.
\<close>

definition erllama_safe_batch_init :: "bool \<Rightarrow> llama_batch option" where
  "erllama_safe_batch_init ok =
     (if ok then Some \<lparr>b_token = [], b_pos = Some [], b_seq_id = Some [], b_logits = Some []\<rparr> else None)"

text \<open>\<open>llama_batch_get_one\<close> leaves positions, sequences and logits flags to \<open>llama_decode\<close>.\<close>

definition erllama_safe_batch_get_one :: "llama_token list \<Rightarrow> llama_batch" where
  "erllama_safe_batch_get_one toks = \<lparr>b_token = toks, b_pos = None, b_seq_id = None, b_logits = None\<rparr>"

definition push_row :: "llama_token \<Rightarrow> llama_pos \<Rightarrow> llama_seq_id \<Rightarrow> bool \<Rightarrow> llama_batch \<Rightarrow> llama_batch" where
  "push_row tok pos seq_id lg b =
     b\<lparr>b_token := b_token b @ [tok],
       b_pos := map_option (\<lambda>xs. xs @ [pos]) (b_pos b),
       b_seq_id := map_option (\<lambda>xs. xs @ [[seq_id]]) (b_seq_id b),
       b_logits := map_option (\<lambda>xs. xs @ [lg]) (b_logits b)\<rparr>"

subsection \<open>Logprobs and argmax\<close>

text \<open>
  \<open>erllama_safe_top_logprobs\<close>: the number of entries written, those entries and the logprob of
  the sampled token; -1 when there is no row or a call throws. \<open>std::partial_sort\<close> leaves
  the order of equal logits open: here the smaller id comes first.
\<close>

definition top_ids :: "rat list \<Rightarrow> nat \<Rightarrow> nat \<Rightarrow> nat list" where
  "top_ids lg n_vocab k = take k (sort_key (\<lambda>i. - (lg ! i)) [0..<n_vocab])"

definition erllama_safe_top_logprobs ::
  "('n, 's) llama_api \<Rightarrow> float_ops \<Rightarrow> 'n \<Rightarrow> int \<Rightarrow> int \<Rightarrow> int \<Rightarrow> llama_token
     \<Rightarrow> int \<times> (llama_token \<times> rat) list \<times> rat" where
  "erllama_safe_top_logprobs api fo n idx n_vocab k sampled =
     (case llama_get_logits_ith api n idx of
        Throw \<Rightarrow> (-1, [], 0)
      | Ret None \<Rightarrow> (-1, [], 0)
      | Ret (Some lg) \<Rightarrow>
          if n_vocab \<le> 0 then (-1, [], 0)
          else
            let lse = f_log_sum_exp fo (take (nat n_vocab) lg);
                slp = (if sampled \<ge> 0 \<and> sampled < n_vocab then f_sub fo (lg ! nat sampled) lse else 0)
            in if k \<le> 0 then (0, [], slp)
               else
                 let k' = (if k > n_vocab then n_vocab else k) in
                 (k', map (\<lambda>i. (int i, f_sub fo (lg ! i) lse)) (top_ids lg (nat n_vocab) (nat k')), slp))"

text \<open>The argmax loop: strictly greater values replace the best one.\<close>

fun argmax_from :: "rat list \<Rightarrow> nat \<Rightarrow> nat \<Rightarrow> rat \<Rightarrow> nat" where
  "argmax_from [] v best best_v = best"
| "argmax_from (x # xs) v best best_v =
     (if x > best_v then argmax_from xs (v + 1) v x else argmax_from xs (v + 1) best best_v)"

definition argmax_row :: "rat list \<Rightarrow> nat \<Rightarrow> nat" where
  "argmax_row lg n_vocab = argmax_from (drop 1 (take n_vocab lg)) 1 0 (lg ! 0)"

text \<open>
  The rows in turn. \<open>None\<close> is the dereference of a \<open>NULL\<close> row, which the source does not
  guard against.
\<close>

fun argmax_rows :: "('n, 's) llama_api \<Rightarrow> 'n \<Rightarrow> nat \<Rightarrow> nat \<Rightarrow> nat \<Rightarrow> int list exc option" where
  "argmax_rows api n n_vocab i 0 = Some (Ret [])"
| "argmax_rows api n n_vocab i (Suc k) =
     (case llama_get_logits_ith api n (int i) of
        Throw \<Rightarrow> Some Throw
      | Ret None \<Rightarrow> None
      | Ret (Some lg) \<Rightarrow>
          (case argmax_rows api n n_vocab (Suc i) k of
             Some (Ret out) \<Rightarrow> Some (Ret (int (argmax_row lg n_vocab) # out))
           | r \<Rightarrow> r))"

text \<open>
  \<open>erllama_safe_forward_with_argmax\<close>: the return code, what it wrote to \<open>out_argmax\<close>, and
  the context it leaves. \<open>init\<close> is the outcome of \<open>llama_batch_init\<close>: it may throw, and it
  may return a batch without arrays.
\<close>

definition forward_batch :: "llama_token list \<Rightarrow> int \<Rightarrow> llama_batch" where
  "forward_batch toks start_pos =
     foldl (\<lambda>b i. push_row (toks ! i) (start_pos + int i) 0 True b)
       \<lparr>b_token = [], b_pos = Some [], b_seq_id = Some [], b_logits = Some []\<rparr> [0..<length toks]"

definition erllama_safe_forward_with_argmax ::
  "('n, 's) llama_api \<Rightarrow> bool exc \<Rightarrow> (nat \<Rightarrow> bool) \<Rightarrow> llama_token list \<Rightarrow> int \<Rightarrow> int \<Rightarrow> 'n
     \<Rightarrow> (int \<times> int list \<times> 'n) option" where
  "erllama_safe_forward_with_argmax api init poll toks n_vocab start_pos n =
     (if toks = [] \<or> n_vocab \<le> 0 then Some (-2, [], n)
      else (case init of
         Throw \<Rightarrow> Some (-3, [], n)
       | Ret False \<Rightarrow> Some (-2, [], n)
       | Ret True \<Rightarrow>
           (let (r, n') = llama_decode api poll (forward_batch toks start_pos) n in
            case r of
              Throw \<Rightarrow> Some (-3, [], n')
            | Ret rc \<Rightarrow>
                if rc \<noteq> 0 then Some (-1, [], n')
                else (case argmax_rows api n' (nat n_vocab) 0 (length toks) of
                        None \<Rightarrow> None
                      | Some Throw \<Rightarrow> Some (-3, [], n')
                      | Some (Ret out) \<Rightarrow> Some (0, out, n')))))"

end
