(* ===== verification/Nif_Context.thy ===== *)
theory Nif_Context
  imports Nif_Util Safe_Shim
begin

text \<open>
  The context and sampler resources of \<open>c_src/erllama_nif_int.h\<close>, the decode interrupt of
  \<open>c_src/erllama_nif_context.c\<close> and the KV entry points of \<open>c_src/erllama_nif_kv.c\<close>.

  The state \<open>nif_state\<close> maps resource numbers to resources. A call runs under the
  context's mutex, so it is one step. The exceptions are the abort flag and the clock, which
  other threads change while a decode runs: the record \<open>interrupts\<close> gives what one decode
  reads of them.

  \<open>alloc what i\<close> says whether the allocation of \<open>what\<close> succeeds (\<open>i\<close> numbers the
  allocations of a loop).
\<close>

type_synonym allocs = "string \<Rightarrow> nat \<Rightarrow> bool"

record per_seq =
  last_logits_idx :: int
  next_pos :: int

record ('n, 's) context_res =
  c_ctx :: "'n option"
  decode_ready :: bool
  decode_budget_ns :: u64
  decode_deadline_ns :: u64
  abort_flag :: bool
  c_smpl :: "'s option"
  c_per_seq :: "per_seq list"

record 's sampler_res =
  s_chain :: "'s option"
  s_ctx_res :: nat
  s_n_probs :: int

record ('n, 's) nif_state =
  ctxs :: "nat \<Rightarrow> ('n, 's) context_res option"
  samplers :: "nat \<Rightarrow> 's sampler_res option"

definition ERLLAMA_LOGITS_LAST :: int where
  "ERLLAMA_LOGITS_LAST = -2"

text \<open>The part of \<open>nif_new_context\<close> that fills the resource of a context just created.\<close>

definition new_context_res :: "'n \<Rightarrow> u64 \<Rightarrow> ('n, 's) context_res" where
  "new_context_res n budget =
     \<lparr>c_ctx = Some n, decode_ready = False, decode_budget_ns = budget, decode_deadline_ns = 0,
      abort_flag = False, c_smpl = None,
      c_per_seq = replicate (nat ERLLAMA_N_SEQ_MAX_CAP) \<lparr>last_logits_idx = -1, next_pos = 0\<rparr>\<rparr>"

definition decode_budget_of :: "eterm \<Rightarrow> u64" where
  "decode_budget_of opts =
     (case get_map_uint opts ''decode_budget_ms'' of
        None \<Rightarrow> 30000 * 1000000
      | Some u \<Rightarrow> word_of_int u * 1000000)"

abbreviation seq_of :: "('n, 's) context_res \<Rightarrow> int \<Rightarrow> per_seq" where
  "seq_of c s \<equiv> c_per_seq c ! nat s"

definition set_seq :: "int \<Rightarrow> per_seq \<Rightarrow> ('n, 's) context_res \<Rightarrow> ('n, 's) context_res" where
  "set_seq s p c = c\<lparr>c_per_seq := (c_per_seq c)[nat s := p]\<rparr>"

definition put_ctx :: "nat \<Rightarrow> ('n, 's) context_res \<Rightarrow> ('n, 's) nif_state \<Rightarrow> ('n, 's) nif_state" where
  "put_ctx i c w = w\<lparr>ctxs := (ctxs w)(i \<mapsto> c)\<rparr>"

definition erllama_ctx_vocab :: "('n, 's) llama_api \<Rightarrow> 'n \<Rightarrow> nat option \<times> int" where
  "erllama_ctx_vocab api n =
     (let vocab = (case erllama_safe_get_model api n of
                     None \<Rightarrow> None | Some m \<Rightarrow> erllama_safe_model_get_vocab api m)
      in (vocab, case vocab of None \<Rightarrow> 0 | Some v \<Rightarrow> erllama_safe_vocab_n_tokens api v))"

subsection \<open>The decode interrupt\<close>

text \<open>
  What one decode reads from outside: the clock when it is armed; whether an abort has been
  requested since, and the clock, at the \<open>k\<close>-th call of the abort callback; and both when
  the error is classified.
\<close>

record interrupts =
  now_armed :: u64
  poll_flag :: "nat \<Rightarrow> bool"
  poll_now :: "nat \<Rightarrow> u64"
  end_flag :: bool
  end_now :: u64

definition erllama_decode_abort_cb :: "u64 \<Rightarrow> bool \<Rightarrow> u64 \<Rightarrow> bool" where
  "erllama_decode_abort_cb deadline flag now =
     (if flag then True else if deadline = 0 then False else now \<ge> deadline)"

definition arm_decode :: "u64 \<Rightarrow> ('n, 's) context_res \<Rightarrow> ('n, 's) context_res" where
  "arm_decode now c =
     c\<lparr>abort_flag := False,
       decode_deadline_ns := (if decode_budget_ns c = 0 then 0 else now + decode_budget_ns c)\<rparr>"

definition classify_decode_error :: "u64 \<Rightarrow> ('n, 's) context_res \<Rightarrow> int \<Rightarrow> eterm" where
  "classify_decode_error now c rc =
     (if abort_flag c then EAtom ''decode_aborted''
      else if decode_deadline_ns c \<noteq> 0 \<and> now \<ge> decode_deadline_ns c then EAtom ''decode_timeout''
      else ETuple [EAtom ''decode_failed'', EInt rc])"

text \<open>
  The decode itself: the callback reads the deadline of the resource and the flag of the
  moment, which \<open>nif_request_abort\<close> may set at any time and only \<open>arm_decode\<close> clears.
\<close>

definition run_decode ::
  "('n, 's) llama_api \<Rightarrow> interrupts \<Rightarrow> llama_batch \<Rightarrow> 'n \<Rightarrow> ('n, 's) context_res
     \<Rightarrow> int \<times> ('n, 's) context_res" where
  "run_decode api it b n c =
     (let (rc, n') = erllama_safe_decode api
            (\<lambda>k. erllama_decode_abort_cb (decode_deadline_ns c) (abort_flag c \<or> poll_flag it k) (poll_now it k)) b n
      in (rc, c\<lparr>c_ctx := Some n', abort_flag := abort_flag c \<or> end_flag it\<rparr>))"

text \<open>The reason of a decode that failed, as every caller of \<open>erllama_safe_decode\<close> computes it.\<close>

definition decode_why :: "interrupts \<Rightarrow> ('n, 's) context_res \<Rightarrow> int \<Rightarrow> eterm" where
  "decode_why it c rc =
     (if rc = ERLLAMA_DECODE_EXC_SENTINEL then EAtom ''exception''
      else classify_decode_error (end_now it) c rc)"

definition nif_request_abort :: "eterm \<Rightarrow> ('n, 's) nif_state \<Rightarrow> ('n, 's) nif_state \<times> nif_ret" where
  "nif_request_abort ctx w =
     (case enif_get_resource CTX_RT ctx of None \<Rightarrow> (w, Badarg)
      | Some i \<Rightarrow>
          (case ctxs w i of None \<Rightarrow> (w, Badarg)
           | Some c \<Rightarrow>
               if c_ctx c = None then (w, err ''released'')
               else (put_ctx i (c\<lparr>abort_flag := True\<rparr>) w, Term atom_ok)))"

subsection \<open>KV pack and unpack\<close>

text \<open>
  The common head of the entry points: fetch the context resource and take the lock
  (\<open>erllama_lock_ctx\<close>); \<open>body\<close> runs with the live native context.
\<close>

definition with_ctx ::
  "nat \<Rightarrow> ('n, 's) nif_state \<Rightarrow> ('n \<Rightarrow> ('n, 's) context_res \<Rightarrow> ('n, 's) nif_state \<times> nif_ret)
     \<Rightarrow> ('n, 's) nif_state \<times> nif_ret" where
  "with_ctx i w body =
     (case ctxs w i of None \<Rightarrow> (w, Badarg)
      | Some c \<Rightarrow> (case c_ctx c of None \<Rightarrow> (w, err ''released'') | Some n \<Rightarrow> body n c))"

definition kv_pack_body ::
  "('n, 's) llama_api \<Rightarrow> allocs \<Rightarrow> int \<Rightarrow> 'n \<Rightarrow> nif_ret" where
  "kv_pack_body api alloc seq_id n =
     (let need = erllama_safe_state_seq_get_size api n seq_id in
      if need = SIZE_MAX then err ''exception''
      else if need = 0 then (if alloc ''empty'' 0 then Term (EBin []) else err ''oom'')
      else if \<not> alloc ''out'' 0 then err ''oom''
      else
        let (written, out) = erllama_safe_state_seq_get_data api n need seq_id in
        if written = SIZE_MAX then err ''exception''
        else if written = 0 \<or> written > need then err ''pack_failed''
        else if written < need \<and> \<not> alloc ''shrink'' 0 then err ''oom''
        else Term (EBin (take written out)))"

definition nif_kv_pack ::
  "('n, 's) llama_api \<Rightarrow> allocs \<Rightarrow> eterm list \<Rightarrow> ('n, 's) nif_state \<Rightarrow> ('n, 's) nif_state \<times> nif_ret" where
  "nif_kv_pack api alloc argv w =
     (case enif_get_resource CTX_RT (argv ! 0) of None \<Rightarrow> (w, Badarg)
      | Some i \<Rightarrow>
          if length argv = 4 then
            (case enif_get_int (argv ! 3) of None \<Rightarrow> (w, Badarg)
             | Some sid \<Rightarrow>
                 if sid < 0 then (w, Badarg)
                 else with_ctx i w (\<lambda>n c. (w, kv_pack_body api alloc sid n)))
          else with_ctx i w (\<lambda>n c. (w, kv_pack_body api alloc 0 n)))"

text \<open>
  Refreshing the tracking of a sequence from the memory: shared by \<open>nif_kv_unpack\<close> and
  \<open>nif_kv_seq_rm\<close>; sequence ids past the array are not tracked.
\<close>

definition refresh_seq ::
  "('n, 's) llama_api \<Rightarrow> int \<Rightarrow> 'n \<Rightarrow> ('n, 's) context_res \<Rightarrow> ('n, 's) context_res" where
  "refresh_seq api seq_id n c =
     (if seq_id < ERLLAMA_N_SEQ_MAX_CAP then
        let pos_max = erllama_safe_memory_seq_pos_max api n seq_id
        in set_seq seq_id \<lparr>last_logits_idx = -1, next_pos = (if pos_max < 0 then 0 else pos_max + 1)\<rparr> c
      else c)"

definition nif_kv_unpack ::
  "('n, 's) llama_api \<Rightarrow> eterm \<Rightarrow> eterm \<Rightarrow> eterm \<Rightarrow> ('n, 's) nif_state \<Rightarrow> ('n, 's) nif_state \<times> nif_ret" where
  "nif_kv_unpack api ctx bin seq w =
     (case enif_get_resource CTX_RT ctx of None \<Rightarrow> (w, Badarg)
      | Some i \<Rightarrow>
        (case enif_inspect_binary bin of None \<Rightarrow> (w, Badarg)
         | Some input \<Rightarrow>
           (case enif_get_int seq of None \<Rightarrow> (w, Badarg)
            | Some seq_id \<Rightarrow>
                if seq_id < 0 then (w, Badarg)
                else with_ctx i w (\<lambda>n c.
                  let (consumed, n') = erllama_safe_state_seq_set_data api input seq_id n;
                      c1 = c\<lparr>c_ctx := Some n', decode_ready := False\<rparr>;
                      c2 = refresh_seq api seq_id n' c1
                  in (put_ctx i c2 w,
                      if consumed = 0 \<or> consumed \<noteq> length input then err ''unpack_failed''
                      else Term atom_ok)))))"

definition nif_kv_seq_rm ::
  "('n, 's) llama_api \<Rightarrow> eterm \<Rightarrow> eterm \<Rightarrow> eterm \<Rightarrow> eterm \<Rightarrow> ('n, 's) nif_state
     \<Rightarrow> ('n, 's) nif_state \<times> nif_ret" where
  "nif_kv_seq_rm api ctx seq p0 p1 w =
     (case enif_get_resource CTX_RT ctx of None \<Rightarrow> (w, Badarg)
      | Some i \<Rightarrow>
        (case (enif_get_int seq, enif_get_int p0, enif_get_int p1) of
           (Some seq_id, Some q0, Some q1) \<Rightarrow>
             if seq_id < 0 then (w, Badarg)
             else with_ctx i w (\<lambda>n c.
               let (rc, n') = erllama_safe_memory_seq_rm api seq_id q0 q1 n;
                   c1 = c\<lparr>c_ctx := Some n', decode_ready := False\<rparr>;
                   c2 = refresh_seq api seq_id n' c1
               in (put_ctx i c2 w, if rc \<noteq> 0 then err ''unpack_failed'' else Term atom_ok))
         | _ \<Rightarrow> (w, Badarg)))"

text \<open>The copy once the source is known not to be empty.\<close>

definition kv_seq_cp_body ::
  "('n, 's) llama_api \<Rightarrow> int \<Rightarrow> int \<Rightarrow> int \<Rightarrow> 'n \<Rightarrow> ('n, 's) context_res \<Rightarrow> ('n, 's) context_res \<times> nif_ret" where
  "kv_seq_cp_body api src dst src_max n c =
     (let (rc, n1) = erllama_safe_memory_seq_cp api src dst n;
          dst_max = (if rc = 0 then erllama_safe_memory_seq_pos_max api n1 dst else -2)
      in if rc \<noteq> 0 \<or> dst_max \<noteq> src_max then
           let (_, n2) = erllama_safe_memory_seq_rm api dst 0 (-1) n1
           in (set_seq dst \<lparr>last_logits_idx = -1, next_pos = 0\<rparr> (c\<lparr>c_ctx := Some n2\<rparr>), err ''seq_cp_failed'')
         else
           (set_seq dst \<lparr>last_logits_idx = -1, next_pos = dst_max + 1\<rparr>
              (c\<lparr>c_ctx := Some n1, decode_ready := False\<rparr>), Term atom_ok))"

definition nif_kv_seq_cp ::
  "('n, 's) llama_api \<Rightarrow> eterm \<Rightarrow> eterm \<Rightarrow> eterm \<Rightarrow> ('n, 's) nif_state \<Rightarrow> ('n, 's) nif_state \<times> nif_ret" where
  "nif_kv_seq_cp api ctx srct dstt w =
     (case enif_get_resource CTX_RT ctx of None \<Rightarrow> (w, Badarg)
      | Some i \<Rightarrow>
        (case (enif_get_int srct, enif_get_int dstt) of
           (Some src, Some dst) \<Rightarrow>
             if src < 0 \<or> src \<ge> ERLLAMA_N_SEQ_MAX_CAP \<or> dst < 0 \<or> dst \<ge> ERLLAMA_N_SEQ_MAX_CAP \<or> src = dst
             then (w, Badarg)
             else with_ctx i w (\<lambda>n c.
               let src_max = erllama_safe_memory_seq_pos_max api n src in
               if src_max < 0 then (w, err ''seq_cp_failed'')
               else let (c', r) = kv_seq_cp_body api src dst src_max n c in (put_ctx i c' w, r))
         | _ \<Rightarrow> (w, Badarg)))"

end
