(* ===== verification/Nif_Decode.thy ===== *)
theory Nif_Decode
  imports Nif_Context
begin

text \<open>
  The decode paths of \<open>c_src/erllama_nif_decode.c\<close>: the multi-sequence tick \<open>nif_step\<close>, the
  single-sequence \<open>nif_prefill\<close> and \<open>nif_decode_one\<close>, embeddings and the argmax pass.
\<close>

subsection \<open>nif_step: operations\<close>

record step_op =
  so_seq_id :: int
  so_is_prefill :: bool
  so_prefill_tokens :: "llama_token list"
  so_sampler :: nat
  so_sampled :: llama_token
  so_eog :: bool
  so_lp :: "(rat \<times> (llama_token \<times> rat) list) option"

definition zero_op :: step_op where
  "zero_op = \<lparr>so_seq_id = 0, so_is_prefill = False, so_prefill_tokens = [], so_sampler = 0,
              so_sampled = 0, so_eog = False, so_lp = None\<rparr>"

text \<open>One entry \<open>{SeqId, {Tag, Arg}}\<close>; \<open>None\<close> is \<open>badarg\<close>. \<open>ci\<close> is the context of the call.\<close>

definition parse_op ::
  "bool \<Rightarrow> nat \<Rightarrow> (nat \<Rightarrow> 's sampler_res option) \<Rightarrow> eterm \<Rightarrow> step_op option" where
  "parse_op alloc ci samp head = do {
     outer \<leftarrow> enif_get_tuple head;
     require (length outer = 2);
     seq_id \<leftarrow> enif_get_int (outer ! 0);
     require (0 \<le> seq_id \<and> seq_id < ERLLAMA_N_SEQ_MAX_CAP);
     inner \<leftarrow> enif_get_tuple (outer ! 1);
     require (length inner = 2);
     tag \<leftarrow> enif_get_atom 16 (inner ! 0);
     if tag = ''prefill'' then
       (case read_token_list alloc (inner ! 1) of
          TokRc _ \<Rightarrow> None
        | TokOk toks \<Rightarrow>
            if toks = [] then None
            else Some (zero_op\<lparr>so_seq_id := seq_id, so_is_prefill := True, so_prefill_tokens := toks\<rparr>))
     else if tag = ''decode'' then do {
       si \<leftarrow> enif_get_resource SAMPLER_RT (inner ! 1);
       s \<leftarrow> samp si;
       require (s_ctx_res s = ci);
       Some (zero_op\<lparr>so_seq_id := seq_id, so_sampler := si\<rparr>) }
     else None }"

fun parse_ops ::
  "(nat \<Rightarrow> bool) \<Rightarrow> nat \<Rightarrow> (nat \<Rightarrow> 's sampler_res option) \<Rightarrow> eterm list \<Rightarrow> step_op list \<Rightarrow> step_op list option" where
  "parse_ops alloc ci samp [] ops = Some ops"
| "parse_ops alloc ci samp (h # hs) ops =
     (case parse_op (alloc (length ops)) ci samp h of None \<Rightarrow> None
      | Some op \<Rightarrow> parse_ops alloc ci samp hs (ops @ [op]))"

subsection \<open>nif_step: sampling before the batch\<close>

text \<open>
  One operation of the pre-sample loop: the early return, or the operation with its token.
  The sampler chain is left as \<open>llama_sampler_sample\<close> left it.
\<close>

definition sample_logprobs ::
  "('n, 's) llama_api \<Rightarrow> float_ops \<Rightarrow> bool \<Rightarrow> nat option \<Rightarrow> 'n \<Rightarrow> int \<Rightarrow> int \<Rightarrow> llama_token
     \<Rightarrow> (rat \<times> (llama_token \<times> rat) list) option" where
  "sample_logprobs api fo alloc vocab n li n_probs tok =
     (case vocab of None \<Rightarrow> None
      | Some v \<Rightarrow>
          if n_probs > 0 \<and> alloc then
            let (got, tops, slp) =
                  erllama_safe_top_logprobs api fo n li (erllama_safe_vocab_n_tokens api v) n_probs tok
            in if got > 0 then Some (slp, tops) else None
          else None)"

definition presample_op ::
  "('n, 's) llama_api \<Rightarrow> float_ops \<Rightarrow> bool \<Rightarrow> nat option \<Rightarrow> 'n \<Rightarrow> ('n, 's) context_res \<Rightarrow> step_op
     \<Rightarrow> (nat \<Rightarrow> 's sampler_res option) \<Rightarrow> (nat \<Rightarrow> 's sampler_res option) \<times> (nif_ret + step_op)" where
  "presample_op api fo alloc vocab n c op samp =
     (if so_is_prefill op then (samp, Inr op)
      else
        let li0 = last_logits_idx (seq_of c (so_seq_id op));
            li = (if li0 = ERLLAMA_LOGITS_LAST then -1 else li0)
        in if li0 \<noteq> ERLLAMA_LOGITS_LAST \<and> li0 < 0 then (samp, Inl (err ''no_logits''))
           else
             (case samp (so_sampler op) of None \<Rightarrow> (samp, Inl Badarg)
              | Some s \<Rightarrow>
                (case s_chain s of None \<Rightarrow> (samp, Inl (err ''released''))
                 | Some chain \<Rightarrow>
                   let (tok, chain') = erllama_safe_sampler_sample api chain n li;
                       samp' = samp(so_sampler op \<mapsto> s\<lparr>s_chain := Some chain'\<rparr>)
                   in if tok < 0 then (samp', Inl (err ''exception''))
                      else
                        (samp', Inr (op\<lparr>so_sampled := tok,
                           so_eog := (case vocab of None \<Rightarrow> False | Some v \<Rightarrow> erllama_safe_vocab_is_eog api v tok),
                           so_lp := sample_logprobs api fo alloc vocab n li (s_n_probs s) tok\<rparr>)))))"

fun presample ::
  "('n, 's) llama_api \<Rightarrow> float_ops \<Rightarrow> (nat \<Rightarrow> bool) \<Rightarrow> nat option \<Rightarrow> 'n \<Rightarrow> ('n, 's) context_res
     \<Rightarrow> step_op list \<Rightarrow> step_op list \<Rightarrow> (nat \<Rightarrow> 's sampler_res option)
     \<Rightarrow> (nat \<Rightarrow> 's sampler_res option) \<times> (nif_ret + step_op list)" where
  "presample api fo alloc vocab n c [] ops samp = (samp, Inr ops)"
| "presample api fo alloc vocab n c (op # rest) ops samp =
     (case presample_op api fo (alloc (length ops)) vocab n c op samp of
        (samp', Inl r) \<Rightarrow> (samp', Inl r)
      | (samp', Inr op') \<Rightarrow> presample api fo alloc vocab n c rest (ops @ [op']) samp')"

subsection \<open>nif_step: the batch\<close>

definition slice_tokens :: "step_op \<Rightarrow> llama_token list" where
  "slice_tokens op = (if so_is_prefill op then so_prefill_tokens op else [so_sampled op])"

definition slice_n :: "step_op \<Rightarrow> int" where
  "slice_n op = (if so_is_prefill op then int (length (so_prefill_tokens op)) else 1)"

definition total_rows :: "step_op list \<Rightarrow> int" where
  "total_rows ops = foldl (\<lambda>t op. t + slice_n op) 0 ops"

text \<open>The rows of one operation; the last one asks for logits, its row number is returned.\<close>

definition push_slice :: "int \<Rightarrow> step_op \<Rightarrow> llama_batch \<Rightarrow> llama_batch" where
  "push_slice start_pos op b =
     foldl (\<lambda>b j. push_row (slice_tokens op ! j) (start_pos + int j) (so_seq_id op)
                    (j = length (slice_tokens op) - 1) b)
       b [0..<length (slice_tokens op)]"

fun build_batch ::
  "('n, 's) context_res \<Rightarrow> step_op list \<Rightarrow> llama_batch \<Rightarrow> int list \<Rightarrow> llama_batch \<times> int list" where
  "build_batch c [] b idxs = (b, idxs)"
| "build_batch c (op # ops) b idxs =
     (let b' = push_slice (next_pos (seq_of c (so_seq_id op))) op b
      in build_batch c ops b' (idxs @ [int (length (b_token b')) - 1]))"

fun commit_ops :: "(step_op \<times> int) list \<Rightarrow> ('n, 's) context_res \<Rightarrow> ('n, 's) context_res" where
  "commit_ops [] c = c"
| "commit_ops ((op, idx) # rest) c =
     (let p = seq_of c (so_seq_id op)
      in commit_ops rest
           (set_seq (so_seq_id op) \<lparr>last_logits_idx = idx, next_pos = next_pos p + slice_n op\<rparr> c))"

definition op_result :: "step_op \<Rightarrow> eterm" where
  "op_result op =
     ETuple [EInt (so_seq_id op),
       if so_is_prefill op then EAtom ''prefilled''
       else (case so_lp op of
               Some (slp, tops) \<Rightarrow>
                 ETuple [EAtom ''token'', EInt (so_sampled op), EInt (if so_eog op then 1 else 0),
                   ETuple [EFloat slp, mk_list (map (\<lambda>(i, l). ETuple [EInt i, EFloat l]) tops)]]
             | None \<Rightarrow> ETuple [EAtom ''token'', EInt (so_sampled op), EInt (if so_eog op then 1 else 0)])]"

text \<open>From the sampled operations on: size checks, batch, decode, commit, result.\<close>

definition step_decode ::
  "('n, 's) llama_api \<Rightarrow> allocs \<Rightarrow> interrupts \<Rightarrow> 'n \<Rightarrow> ('n, 's) context_res \<Rightarrow> step_op list
     \<Rightarrow> ('n, 's) context_res \<times> nif_ret" where
  "step_decode api alloc it n c ops =
     (let total = total_rows ops in
      if total \<le> 0 \<or> total > INT32_MAX then (c, err ''batch_overflow'')
      else if total > int (erllama_safe_n_batch api n) then (c, err ''batch_overflow'')
      else (case erllama_safe_batch_init (alloc ''batch'' 0) of None \<Rightarrow> (c, err ''oom'')
        | Some b0 \<Rightarrow>
            if \<not> alloc ''last_logits_idx_new'' 0 then (c, err ''oom'')
            else
              let (b, idxs) = build_batch c ops b0 [];
                  (dr, c1) = run_decode api it b n (arm_decode (now_armed it) c)
              in if dr \<noteq> 0 then (c1\<lparr>decode_ready := False\<rparr>, erllama_error (decode_why it c1 dr))
                 else
                   (commit_ops (zip ops idxs) c1\<lparr>decode_ready := True\<rparr>,
                    if alloc ''results'' 0 then Term (ETuple [atom_ok, mk_list (map op_result ops)])
                    else err ''oom'')))"

text \<open>The tick once its operations are parsed and the lock is taken: sample, then decode.\<close>

definition step_run ::
  "('n, 's) llama_api \<Rightarrow> float_ops \<Rightarrow> allocs \<Rightarrow> interrupts \<Rightarrow> nat \<Rightarrow> step_op list \<Rightarrow> 'n \<Rightarrow> ('n, 's) context_res
     \<Rightarrow> ('n, 's) nif_state \<Rightarrow> ('n, 's) nif_state \<times> nif_ret" where
  "step_run api fo alloc it i ops n c w =
     (case presample api fo (alloc ''logprobs'') (fst (erllama_ctx_vocab api n)) n c ops [] (samplers w) of
        (samp', Inl r) \<Rightarrow> (w\<lparr>samplers := samp'\<rparr>, r)
      | (samp', Inr ops') \<Rightarrow>
          let (c', r) = step_decode api alloc it n c ops'
          in (put_ctx i c' (w\<lparr>samplers := samp'\<rparr>), r))"

definition nif_step ::
  "('n, 's) llama_api \<Rightarrow> float_ops \<Rightarrow> allocs \<Rightarrow> interrupts \<Rightarrow> eterm \<Rightarrow> eterm \<Rightarrow> ('n, 's) nif_state
     \<Rightarrow> ('n, 's) nif_state \<times> nif_ret" where
  "nif_step api fo alloc it ctx ops_t w =
     (case enif_get_resource CTX_RT ctx of None \<Rightarrow> (w, Badarg)
      | Some i \<Rightarrow>
        (case enif_get_list_length ops_t of None \<Rightarrow> (w, Badarg)
         | Some n_ops \<Rightarrow>
           if n_ops = 0 then (w, Term (ETuple [atom_ok, mk_list []]))
           else if \<not> alloc ''ops'' 0 then (w, err ''oom'')
           else
             (case parse_ops (alloc ''tokens'') i (samplers w) (list_cells ops_t) [] of
                None \<Rightarrow> (w, Badarg)
              | Some ops \<Rightarrow> with_ctx i w (\<lambda>n c. step_run api fo alloc it i ops n c w))))"

subsection \<open>Single-sequence paths\<close>

text \<open>
  The checks that \<open>nif_prefill\<close>, \<open>nif_embed\<close> and \<open>nif_forward_with_argmax\<close> share before they
  hand tokens to \<open>llama_decode\<close>; \<open>Some r\<close> is the early return. \<open>nif_embed\<close> looks at the
  embedding size between the token and the size checks (\<open>mid\<close>).
\<close>

definition check_vocab :: "('n, 's) llama_api \<Rightarrow> 'n \<Rightarrow> llama_token list \<Rightarrow> nif_ret option" where
  "check_vocab api n toks =
     (let n_vocab = snd (erllama_ctx_vocab api n) in
      if n_vocab \<le> 0 then Some (err ''exception'')
      else if erllama_first_oob_token toks n_vocab \<ge> 0 then Some (err ''invalid_token'')
      else None)"

definition check_sizes :: "('n, 's) llama_api \<Rightarrow> 'n \<Rightarrow> llama_token list \<Rightarrow> nif_ret option" where
  "check_sizes api n toks =
     (let n_ctx = erllama_safe_n_ctx api n; n_batch = erllama_safe_n_batch api n in
      if n_ctx = 0 \<or> n_batch = 0 then Some (err ''exception'')
      else if length toks \<ge> n_ctx then Some (err ''context_overflow'')
      else if length toks > n_batch then Some (err ''batch_overflow'')
      else None)"

definition prefill_body ::
  "('n, 's) llama_api \<Rightarrow> interrupts \<Rightarrow> llama_token list \<Rightarrow> 'n \<Rightarrow> ('n, 's) context_res
     \<Rightarrow> ('n, 's) context_res \<times> nif_ret" where
  "prefill_body api it toks n c =
     (case check_vocab api n toks of Some r \<Rightarrow> (c, r)
      | None \<Rightarrow>
        (case check_sizes api n toks of Some r \<Rightarrow> (c, r)
         | None \<Rightarrow>
             let (dr, c1) = run_decode api it (erllama_safe_batch_get_one toks) n c;
                 c2 = (if dr = 0 then c1\<lparr>decode_ready := True\<rparr> else c1)
             in (c2, if dr = ERLLAMA_DECODE_EXC_SENTINEL then err ''exception''
                     else if dr \<noteq> 0 then erllama_error (EInt dr)
                     else Term atom_ok)))"

definition nif_prefill ::
  "('n, 's) llama_api \<Rightarrow> allocs \<Rightarrow> interrupts \<Rightarrow> eterm \<Rightarrow> eterm \<Rightarrow> ('n, 's) nif_state
     \<Rightarrow> ('n, 's) nif_state \<times> nif_ret" where
  "nif_prefill api alloc it ctx toks_t w =
     (case enif_get_resource CTX_RT ctx of None \<Rightarrow> (w, Badarg)
      | Some i \<Rightarrow>
        (case read_token_list (alloc ''tokens'' 0) toks_t of
           TokRc rc \<Rightarrow> (w, token_list_error rc)
         | TokOk toks \<Rightarrow>
             if toks = [] then (w, Term atom_ok)
             else with_ctx i w (\<lambda>n c.
               let (c', r) = prefill_body api it toks n c in (put_ctx i c' w, r))))"

text \<open>
  \<open>nif_decode_one\<close>. \<open>greedy\<close> is the chain that \<open>build_default_greedy_chain\<close> returns, \<open>None\<close>
  when it cannot be built.
\<close>

definition decode_one_body ::
  "('n, 's) llama_api \<Rightarrow> 's option \<Rightarrow> interrupts \<Rightarrow> 'n \<Rightarrow> ('n, 's) context_res
     \<Rightarrow> ('n, 's) context_res \<times> nif_ret" where
  "decode_one_body api greedy it n c =
     (if \<not> decode_ready c then (c, err ''no_logits'')
      else (case (case c_smpl c of Some s \<Rightarrow> Some s | None \<Rightarrow> greedy) of
         None \<Rightarrow> (c, err ''oom'')
       | Some smpl \<Rightarrow>
           let (tok, smpl') = erllama_safe_sampler_sample api smpl n (-1);
               c1 = c\<lparr>c_smpl := Some smpl'\<rparr>
           in if tok < 0 then (c1, err ''exception'')
              else
                let eog = (case fst (erllama_ctx_vocab api n) of None \<Rightarrow> False
                           | Some v \<Rightarrow> erllama_safe_vocab_is_eog api v tok);
                    (rc, c2) = run_decode api it (erllama_safe_batch_get_one [tok]) n
                                 (arm_decode (now_armed it) c1);
                    c3 = c2\<lparr>decode_ready := (rc = 0)\<rparr>
                in (c3, if rc \<noteq> 0 then erllama_error (decode_why it c2 rc)
                        else Term (ETuple [if eog then EAtom ''eog'' else atom_ok, EInt tok]))))"

definition nif_decode_one ::
  "('n, 's) llama_api \<Rightarrow> 's option \<Rightarrow> interrupts \<Rightarrow> eterm \<Rightarrow> ('n, 's) nif_state
     \<Rightarrow> ('n, 's) nif_state \<times> nif_ret" where
  "nif_decode_one api greedy it ctx w =
     (case enif_get_resource CTX_RT ctx of None \<Rightarrow> (w, Badarg)
      | Some i \<Rightarrow> with_ctx i w (\<lambda>n c.
          let (c', r) = decode_one_body api greedy it n c in (put_ctx i c' w, r)))"

subsection \<open>Embeddings\<close>

definition embed_read ::
  "('n, 's) llama_api \<Rightarrow> bool \<Rightarrow> nat \<Rightarrow> 'n \<Rightarrow> nif_ret" where
  "embed_read api alloc n_embd n =
     (case (case erllama_safe_get_embeddings_seq api n 0 of
              Some e \<Rightarrow> Some e | None \<Rightarrow> erllama_safe_get_embeddings api n) of
        None \<Rightarrow> err ''embed_failed''
      | Some embd \<Rightarrow>
          if \<not> alloc then err ''oom''
          else Term (ETuple [atom_ok, mk_list (map (\<lambda>i. EFloat (embd ! i)) [0..<n_embd])]))"

definition embed_body ::
  "('n, 's) llama_api \<Rightarrow> allocs \<Rightarrow> interrupts \<Rightarrow> llama_token list \<Rightarrow> 'n \<Rightarrow> ('n, 's) context_res
     \<Rightarrow> ('n, 's) context_res \<times> nif_ret" where
  "embed_body api alloc it toks n c =
     (case check_vocab api n toks of Some r \<Rightarrow> (c, r)
      | None \<Rightarrow>
        let n_embd = erllama_safe_n_embd api (erllama_safe_get_model api n) in
        if n_embd \<le> 0 then (c, err ''embed_failed'')
        else (case check_sizes api n toks of Some r \<Rightarrow> (c, r)
         | None \<Rightarrow>
             let (rc, n1) = erllama_safe_set_embeddings api True n; c0 = c\<lparr>c_ctx := Some n1\<rparr> in
             if rc \<noteq> 0 then (c0, err ''exception'')
             else
               let (dr, c1) = run_decode api it (erllama_safe_batch_get_one toks) n1
                                (arm_decode (now_armed it) c0)
               in if dr \<noteq> 0 then (c1, erllama_error (decode_why it c1 dr))
                  else (c1\<lparr>decode_ready := False\<rparr>,
                        embed_read api (alloc ''vec'' 0) (nat n_embd) (the (c_ctx c1)))))"

definition nif_embed ::
  "('n, 's) llama_api \<Rightarrow> allocs \<Rightarrow> interrupts \<Rightarrow> eterm \<Rightarrow> eterm \<Rightarrow> ('n, 's) nif_state
     \<Rightarrow> ('n, 's) nif_state \<times> nif_ret" where
  "nif_embed api alloc it ctx toks_t w =
     (case enif_get_resource CTX_RT ctx of None \<Rightarrow> (w, Badarg)
      | Some i \<Rightarrow>
        (case read_token_list (alloc ''tokens'' 0) toks_t of
           TokRc rc \<Rightarrow> (w, token_list_error rc)
         | TokOk toks \<Rightarrow>
             if toks = [] then (w, err ''invalid_token'')
             else with_ctx i w (\<lambda>n c.
               let (c', r) = embed_body api alloc it toks n c in (put_ctx i c' w, r))))"

subsection \<open>Forward pass with argmax\<close>

text \<open>\<open>None\<close> is the crash on a missing row of logits; \<open>poll\<close> is the abort callback during the decode.\<close>

definition forward_body ::
  "('n, 's) llama_api \<Rightarrow> allocs \<Rightarrow> bool exc \<Rightarrow> (nat \<Rightarrow> bool) \<Rightarrow> llama_token list \<Rightarrow> 'n \<Rightarrow> ('n, 's) context_res
     \<Rightarrow> (('n, 's) context_res \<times> nif_ret) option" where
  "forward_body api alloc init poll toks n c =
     (case check_vocab api n toks of Some r \<Rightarrow> Some (c, r)
      | None \<Rightarrow>
        (case check_sizes api n toks of Some r \<Rightarrow> Some (c, r)
         | None \<Rightarrow>
             let (vocab, n_vocab) = erllama_ctx_vocab api n;
                 pos_max = erllama_safe_memory_seq_pos_max api n 0
             in if pos_max = -2 then Some (c, err ''exception'')
                else if \<not> alloc ''out'' 0 then Some (c, err ''oom'')
                else
                  let start_pos = (if pos_max < 0 then 0 else pos_max + 1) in
                  (case erllama_safe_forward_with_argmax api init poll toks n_vocab start_pos n of
                     None \<Rightarrow> None
                   | Some (frc, out, n') \<Rightarrow>
                       let c1 = c\<lparr>c_ctx := Some n'\<rparr> in
                       if frc \<noteq> 0 then
                         Some (c1, err (if frc = -2 then ''oom'' else if frc = -3 then ''exception''
                                        else ''decode_failed''))
                       else
                         Some (c1\<lparr>decode_ready := True\<rparr>,
                           Term (ETuple [atom_ok, mk_list (map (\<lambda>t.
                             if (case vocab of None \<Rightarrow> False | Some v \<Rightarrow> erllama_safe_vocab_is_eog api v t)
                             then EAtom ''eos'' else EInt t) out)])))))"

definition nif_forward_with_argmax ::
  "('n, 's) llama_api \<Rightarrow> allocs \<Rightarrow> bool exc \<Rightarrow> (nat \<Rightarrow> bool) \<Rightarrow> eterm \<Rightarrow> eterm \<Rightarrow> ('n, 's) nif_state
     \<Rightarrow> (('n, 's) nif_state \<times> nif_ret) option" where
  "nif_forward_with_argmax api alloc init poll ctx toks_t w =
     (case enif_get_resource CTX_RT ctx of None \<Rightarrow> Some (w, Badarg)
      | Some i \<Rightarrow>
        (case read_token_list (alloc ''tokens'' 0) toks_t of
           TokRc rc \<Rightarrow> Some (w, token_list_error rc)
         | TokOk toks \<Rightarrow>
             if toks = [] then Some (w, Term (ETuple [atom_ok, mk_list []]))
             else
               (case ctxs w i of None \<Rightarrow> Some (w, Badarg)
                | Some c \<Rightarrow>
                    (case c_ctx c of None \<Rightarrow> Some (w, err ''released'')
                     | Some n \<Rightarrow> map_option (\<lambda>(c', r). (put_ctx i c' w, r))
                                  (forward_body api alloc init poll toks n c)))))"


subsection \<open>Rows of a batch\<close>

type_synonym row = "llama_token \<times> llama_pos \<times> llama_seq_id \<times> bool"

definition batch_of :: "row list \<Rightarrow> llama_batch" where
  "batch_of rs = \<lparr>b_token = map fst rs, b_pos = Some (map (fst \<circ> snd) rs),
     b_seq_id = Some (map (\<lambda>r. [fst (snd (snd r))]) rs), b_logits = Some (map (snd \<circ> snd \<circ> snd) rs)\<rparr>"

definition op_rows :: "int \<Rightarrow> step_op \<Rightarrow> row list" where
  "op_rows p op = map (\<lambda>j. (slice_tokens op ! j, p + int j, so_seq_id op, j = length (slice_tokens op) - 1))
                    [0..<length (slice_tokens op)]"

definition step_rows :: "('n, 's) context_res \<Rightarrow> step_op list \<Rightarrow> row list" where
  "step_rows c ops = concat (map (\<lambda>op. op_rows (next_pos (seq_of c (so_seq_id op))) op) ops)"

fun logit_rows :: "int \<Rightarrow> step_op list \<Rightarrow> int list" where
  "logit_rows off [] = []"
| "logit_rows off (op # ops) = (off + slice_n op - 1) # logit_rows (off + slice_n op) ops"

lemma batch_init_simps [simp]:
  "erllama_safe_batch_init True = Some (batch_of [])" "erllama_safe_batch_init False = None"
  by (simp_all add: erllama_safe_batch_init_def batch_of_def)

lemma batch_init_Some [simp]: "erllama_safe_batch_init b = Some x \<longleftrightarrow> b \<and> x = batch_of []"
  by (auto simp: erllama_safe_batch_init_def batch_of_def)

lemma batch_init_None [simp]: "erllama_safe_batch_init b = None \<longleftrightarrow> \<not> b"
  by (auto simp: erllama_safe_batch_init_def)

lemma push_row_batch_of [simp]: "push_row t p s l (batch_of rs) = batch_of (rs @ [(t, p, s, l)])"
  by (simp add: push_row_def batch_of_def)

lemma b_token_batch_of [simp]: "b_token (batch_of rs) = map fst rs"
  by (simp add: batch_of_def)

lemma foldl_push_rows:
  "foldl (\<lambda>b j. push_row (f j) (g j) s (h j) b) (batch_of rs) js = batch_of (rs @ map (\<lambda>j. (f j, g j, s, h j)) js)"
  by (induction js arbitrary: rs) simp_all

lemma push_slice_rows: "push_slice p op (batch_of rs) = batch_of (rs @ op_rows p op)"
  by (simp add: push_slice_def op_rows_def foldl_push_rows)

lemma length_op_rows [simp]: "length (op_rows p op) = length (slice_tokens op)"
  by (simp add: op_rows_def)

lemma slice_n_eq: "slice_n op = int (length (slice_tokens op))"
  by (simp add: slice_n_def slice_tokens_def)

lemma build_batch_rows:
  "build_batch c ops (batch_of rs) idxs =
     (batch_of (rs @ step_rows c ops), idxs @ logit_rows (int (length rs)) ops)"
proof (induction ops arbitrary: rs idxs)
  case Nil
  then show ?case by (simp add: step_rows_def)
next
  case (Cons op ops)
  show ?case
    by (simp add: push_slice_rows Cons.IH step_rows_def slice_n_eq Let_def algebra_simps)
qed

lemma total_rows_eq: "total_rows ops = int (length (step_rows c ops))"
proof -
  have "foldl (\<lambda>t op. t + slice_n op) t ops = t + int (length (step_rows c ops))" for t
    by (induction ops arbitrary: t) (simp_all add: step_rows_def slice_n_eq)
  then show ?thesis by (simp add: total_rows_def)
qed

lemma length_logit_rows [simp]: "length (logit_rows off ops) = length ops"
  by (induction ops arbitrary: off) simp_all

text \<open>The row that an operation asks logits for is its last token, at its last position.\<close>

lemma last_op_row:
  assumes "slice_tokens op \<noteq> []"
  shows "op_rows p op ! (length (slice_tokens op) - 1) =
           (last (slice_tokens op), p + slice_n op - 1, so_seq_id op, True)"
  using assms by (auto simp: op_rows_def slice_n_eq last_conv_nth int_ops)

lemma logit_row_is_last:
  assumes "k < length ops" "\<forall>op\<in>set ops. slice_tokens op \<noteq> []"
  shows "length rs \<le> nat (logit_rows (int (length rs)) ops ! k) \<and>
         0 \<le> logit_rows (int (length rs)) ops ! k \<and>
         nat (logit_rows (int (length rs)) ops ! k) < length (rs @ step_rows c ops) \<and>
         (rs @ step_rows c ops) ! nat (logit_rows (int (length rs)) ops ! k) =
           (last (slice_tokens (ops ! k)), next_pos (seq_of c (so_seq_id (ops ! k))) + slice_n (ops ! k) - 1,
            so_seq_id (ops ! k), True)"
  using assms
proof (induction ops arbitrary: rs k)
  case (Cons op ops)
  let ?p = "next_pos (seq_of c (so_seq_id op))"
  have ne: "slice_tokens op \<noteq> []" using Cons.prems by simp
  show ?case
  proof (cases k)
    case 0
    from ne obtain m where m: "length (slice_tokens op) = Suc m" by (cases "slice_tokens op") auto
    have "op_rows ?p op ! m = (last (slice_tokens op), ?p + slice_n op - 1, so_seq_id op, True)"
      using last_op_row [OF ne, of ?p] by (simp add: m)
    moreover have "nat (int (length rs) + slice_n op - 1) = length rs + m" "m < length (op_rows ?p op)"
      by (simp_all add: slice_n_eq m nat_add_distrib)
    ultimately show ?thesis using 0
      by (simp add: step_rows_def nth_append m slice_n_eq)
  next
    case (Suc k')
    have eq: "rs @ step_rows c (op # ops) = (rs @ op_rows ?p op) @ step_rows c ops"
      by (simp add: step_rows_def)
    have "logit_rows (int (length rs)) (op # ops) ! k = logit_rows (int (length (rs @ op_rows ?p op))) ops ! k'"
      by (simp add: Suc slice_n_eq)
    with Cons.IH [of k' "rs @ op_rows ?p op"] Cons.prems Suc eq show ?thesis by auto
  qed
qed simp

subsection \<open>Committing the operations\<close>

definition ctx_ok :: "('n, 's) context_res \<Rightarrow> bool" where
  "ctx_ok c \<longleftrightarrow> length (c_per_seq c) = nat ERLLAMA_N_SEQ_MAX_CAP"

definition op_ok :: "step_op \<Rightarrow> bool" where
  "op_ok op \<longleftrightarrow> 0 \<le> so_seq_id op \<and> so_seq_id op < ERLLAMA_N_SEQ_MAX_CAP \<and>
     (so_is_prefill op \<longrightarrow> so_prefill_tokens op \<noteq> [] \<and> (\<forall>t\<in>set (so_prefill_tokens op). 0 \<le> t \<and> t \<le> INT32_MAX))"

lemma op_ok_slice: "op_ok op \<Longrightarrow> slice_tokens op \<noteq> []"
  by (auto simp: op_ok_def slice_tokens_def)

lemma ctx_ok_simps [simp]:
  "ctx_ok (set_seq s p c) = ctx_ok c"
  "ctx_ok (c\<lparr>c_ctx := x\<rparr>) = ctx_ok c"
  "ctx_ok (c\<lparr>decode_ready := r\<rparr>) = ctx_ok c"
  "ctx_ok (c\<lparr>abort_flag := f\<rparr>) = ctx_ok c"
  "ctx_ok (c\<lparr>c_smpl := sm\<rparr>) = ctx_ok c"
  "ctx_ok (c\<lparr>decode_deadline_ns := d\<rparr>) = ctx_ok c"
  by (simp_all add: ctx_ok_def set_seq_def)

lemma set_seq_simps [simp]:
  "c_ctx (set_seq s p c) = c_ctx c"
  "decode_ready (set_seq s p c) = decode_ready c"
  "decode_budget_ns (set_seq s p c) = decode_budget_ns c"
  "c_smpl (set_seq s p c) = c_smpl c"
  by (simp_all add: set_seq_def)

lemma seq_of_set_seq:
  "ctx_ok c \<Longrightarrow> 0 \<le> s \<Longrightarrow> s < ERLLAMA_N_SEQ_MAX_CAP \<Longrightarrow> 0 \<le> t \<Longrightarrow>
     seq_of (set_seq s p c) t = (if s = t then p else seq_of c t)"
  by (auto simp: ctx_ok_def set_seq_def)

lemma commit_ops_simps [simp]:
  "c_ctx (commit_ops xs c) = c_ctx c"
  "ctx_ok (commit_ops xs c) = ctx_ok c"
  by (induction xs c rule: commit_ops.induct) (simp_all add: Let_def)

lemma commit_ops_other:
  "ctx_ok c \<Longrightarrow> \<forall>op\<in>set (map fst xs). op_ok op \<Longrightarrow> 0 \<le> t \<Longrightarrow> t \<notin> set (map (so_seq_id \<circ> fst) xs) \<Longrightarrow>
     seq_of (commit_ops xs c) t = seq_of c t"
proof (induction xs c rule: commit_ops.induct)
  case (2 op idx rest c)
  then show ?case by (auto simp: Let_def seq_of_set_seq op_ok_def)
qed simp

lemma commit_ops_nth:
  assumes "ctx_ok c" "\<forall>op\<in>set (map fst xs). op_ok op" "distinct (map (so_seq_id \<circ> fst) xs)" "k < length xs"
  shows "seq_of (commit_ops xs c) (so_seq_id (fst (xs ! k))) =
           \<lparr>last_logits_idx = snd (xs ! k),
            next_pos = next_pos (seq_of c (so_seq_id (fst (xs ! k)))) + slice_n (fst (xs ! k))\<rparr>"
  using assms
proof (induction xs c arbitrary: k rule: commit_ops.induct)
  case (2 op idx rest c)
  let ?c1 = "set_seq (so_seq_id op)
     \<lparr>last_logits_idx = idx, next_pos = next_pos (seq_of c (so_seq_id op)) + slice_n op\<rparr> c"
  have op: "0 \<le> so_seq_id op" "so_seq_id op < ERLLAMA_N_SEQ_MAX_CAP" and c1: "ctx_ok ?c1"
    using 2 by (simp_all add: op_ok_def)
  show ?case
  proof (cases k)
    case 0
    have "seq_of (commit_ops rest ?c1) (so_seq_id op) = seq_of ?c1 (so_seq_id op)"
      using 2 op by (intro commit_ops_other [OF c1]) auto
    then show ?thesis using 0 2 op by (simp add: Let_def seq_of_set_seq)
  next
    case (Suc k')
    then have k': "k' < length rest" using 2 by simp
    let ?t = "so_seq_id (fst (rest ! k'))"
    have "?t \<in> set (map (so_seq_id \<circ> fst) rest)" using k' by force
    then have ne: "so_seq_id op \<noteq> ?t" using 2(4) by (metis comp_apply distinct.simps(2) fst_conv list.simps(9))
    have "fst (rest ! k') \<in> set (map fst rest)" using k' by force
    then have "0 \<le> ?t" using 2(3) by (auto simp: op_ok_def)
    then have "seq_of ?c1 ?t = seq_of c ?t" using 2 op ne by (simp add: seq_of_set_seq)
    moreover have "seq_of (commit_ops rest ?c1) ?t =
        \<lparr>last_logits_idx = snd (rest ! k'), next_pos = next_pos (seq_of ?c1 ?t) + slice_n (fst (rest ! k'))\<rparr>"
      using 2(1) [OF refl, of k'] 2(3,4) c1 k' by simp
    ultimately show ?thesis by (simp add: Suc Let_def)
  qed
qed simp


subsection \<open>Parsed and sampled operations\<close>

lemma parse_op_ok: "parse_op a ci samp h = Some op \<Longrightarrow> op_ok op"
proof -
  assume p: "parse_op a ci samp h = Some op"
  have toks: "toks \<noteq> [] \<and> (\<forall>t\<in>set toks. 0 \<le> t \<and> t \<le> INT32_MAX)"
    if "read_token_list a t = TokOk toks" "toks \<noteq> []" for t toks
    using that read_token_list_range by blast
  show ?thesis using p
    by (auto simp: parse_op_def zero_op_def op_ok_def bind_eq_Some_conv split: if_splits tok_read.splits
             dest!: toks)
qed

lemma parse_ops_ok:
  "parse_ops a ci samp hs ops = Some ops' \<Longrightarrow> \<forall>op\<in>set ops. op_ok op \<Longrightarrow>
     (\<forall>op\<in>set ops'. op_ok op) \<and> length ops' = length ops + length hs"
  by (induction a ci samp hs ops rule: parse_ops.induct)
     (auto split: option.splits dest: parse_op_ok)

lemma presample_op_ok:
  "presample_op api fo a vocab n c op samp = (samp', Inr op') \<Longrightarrow>
     op_ok op' = op_ok op \<and> so_seq_id op' = so_seq_id op \<and> so_is_prefill op' = so_is_prefill op \<and>
     so_prefill_tokens op' = so_prefill_tokens op"
  by (auto simp: presample_op_def Let_def op_ok_def split: if_splits option.splits prod.splits)

lemma presample_ok:
  "presample api fo a vocab n c rest ops samp = (samp', Inr ops') \<Longrightarrow> \<forall>op\<in>set (ops @ rest). op_ok op \<Longrightarrow>
     (\<forall>op\<in>set ops'. op_ok op) \<and> map so_seq_id ops' = map so_seq_id (ops @ rest)"
proof (induction api fo a vocab n c rest ops samp rule: presample.induct)
  case (2 api fo a vocab n c op rest ops samp)
  then obtain s1 op1 where p: "presample_op api fo (a (length ops)) vocab n c op samp = (s1, Inr op1)"
    by (auto split: prod.splits sum.splits)
  note q = presample_op_ok [OF p]
  show ?case using 2(1) [OF p [symmetric] refl] 2(2,3) p q by auto
qed simp


lemma error_not_ok [simp]:
  "erllama_error x \<noteq> Term (ETuple (EAtom ''ok'' # ts))" "erllama_error x \<noteq> Badarg"
  "Term (ETuple (EAtom ''ok'' # ts)) \<noteq> erllama_error x"
  "erllama_error x = erllama_error y \<longleftrightarrow> x = y"
  by (simp_all add: erllama_error_def)

lemma arm_decode_simps [simp]:
  "c_per_seq (arm_decode now c) = c_per_seq c"
  "c_ctx (arm_decode now c) = c_ctx c"
  "c_smpl (arm_decode now c) = c_smpl c"
  "decode_ready (arm_decode now c) = decode_ready c"
  "ctx_ok (arm_decode now c) = ctx_ok c"
  by (simp_all add: arm_decode_def ctx_ok_def)

lemma run_decode_keeps:
  assumes "run_decode api it b n c = (rc, c')"
  shows "c_per_seq c' = c_per_seq c" "c_smpl c' = c_smpl c" "decode_ready c' = decode_ready c"
    "ctx_ok c' = ctx_ok c" "decode_deadline_ns c' = decode_deadline_ns c" "abort_flag c' = (abort_flag c \<or> end_flag it)"
  using assms by (auto simp: run_decode_def Let_def ctx_ok_def split: prod.splits)

lemma run_decode_native:
  "run_decode api it b n c = (rc, c') \<Longrightarrow>
     \<exists>poll n'. erllama_safe_decode api poll b n = (rc, n') \<and> c_ctx c' = Some n'"
  by (auto simp: run_decode_def Let_def split: prod.splits)

lemma step_decode_ok:
  assumes "step_decode api alloc it n c ops = (c', Term (ETuple [atom_ok, x]))"
  shows "\<exists>c1. run_decode api it (batch_of (step_rows c ops)) n (arm_decode (now_armed it) c) = (0, c1) \<and>
           c' = commit_ops (zip ops (logit_rows 0 ops)) c1\<lparr>decode_ready := True\<rparr> \<and>
           x = mk_list (map op_result ops) \<and> length (step_rows c ops) \<le> erllama_safe_n_batch api n"
  using assms build_batch_rows [of c ops "[]" "[]"]
  by (auto simp: step_decode_def Let_def total_rows_eq [of ops c] split: if_splits option.splits prod.splits)

lemma presample_op_err:
  "presample_op api fo a vocab n c op samp = (samp', Inl r) \<Longrightarrow> r = Badarg \<or> (\<exists>x. r = err x)"
  by (auto simp: presample_op_def Let_def split: if_splits option.splits prod.splits)

lemma presample_err:
  "presample api fo a vocab n c rest ops samp = (samp', Inl r) \<Longrightarrow> r = Badarg \<or> (\<exists>x. r = err x)"
  by (induction api fo a vocab n c rest ops samp rule: presample.induct)
     (auto split: prod.splits sum.splits dest: presample_op_err)

lemma step_run_cases:
  assumes "step_run api fo alloc it i ops n c w = (w', r)"
  shows "(\<exists>samp'. presample api fo (alloc ''logprobs'') (fst (erllama_ctx_vocab api n)) n c ops [] (samplers w)
              = (samp', Inl r) \<and> w' = w\<lparr>samplers := samp'\<rparr>) \<or>
         (\<exists>samp' ops' c'. presample api fo (alloc ''logprobs'') (fst (erllama_ctx_vocab api n)) n c ops [] (samplers w)
              = (samp', Inr ops') \<and> step_decode api alloc it n c ops' = (c', r) \<and>
              w' = put_ctx i c' (w\<lparr>samplers := samp'\<rparr>))"
proof -
  obtain samp' x where p: "presample api fo (alloc ''logprobs'') (fst (erllama_ctx_vocab api n)) n c ops [] (samplers w)
    = (samp', x)" by fastforce
  show ?thesis
  proof (cases x)
    case (Inl r')
    with p assms show ?thesis by (simp add: step_run_def)
  next
    case (Inr ops')
    obtain c' r' where "step_decode api alloc it n c ops' = (c', r')" by fastforce
    with p Inr assms show ?thesis by (simp add: step_run_def)
  qed
qed

lemma nif_step_cases:
  assumes "nif_step api fo alloc it (ERes CTX_RT i) ops_t w = (w', r)"
  shows "(w' = w \<and> (r = Badarg \<or> (\<exists>x. r = err x) \<or> r = Term (ETuple [atom_ok, ENil]))) \<or>
         (\<exists>c n ops. ctxs w i = Some c \<and> c_ctx c = Some n \<and>
            parse_ops (alloc ''tokens'') i (samplers w) (list_cells ops_t) [] = Some ops \<and>
            step_run api fo alloc it i ops n c w = (w', r))"
  using assms
  by (auto simp: nif_step_def with_ctx_def split: option.splits if_splits)

lemma nif_step_okE:
  assumes "nif_step api fo alloc it (ERes CTX_RT i) ops_t w = (w', Term (ETuple [atom_ok, mk_list rs]))"
    and "rs \<noteq> []"
  obtains c n ops0 ops c' samp' where
    "ctxs w i = Some c" "c_ctx c = Some n"
    "parse_ops (alloc ''tokens'') i (samplers w) (list_cells ops_t) [] = Some ops0"
    "presample api fo (alloc ''logprobs'') (fst (erllama_ctx_vocab api n)) n c ops0 [] (samplers w) = (samp', Inr ops)"
    "step_decode api alloc it n c ops = (c', Term (ETuple [atom_ok, mk_list rs]))"
    "w' = put_ctx i c' (w\<lparr>samplers := samp'\<rparr>)"
proof -
  have "mk_list rs \<noteq> ENil" using assms(2) by (cases rs) auto
  with nif_step_cases [OF assms(1)] obtain c n ops where h: "ctxs w i = Some c" "c_ctx c = Some n"
    "parse_ops (alloc ''tokens'') i (samplers w) (list_cells ops_t) [] = Some ops"
    "step_run api fo alloc it i ops n c w = (w', Term (ETuple [atom_ok, mk_list rs]))" by auto
  from step_run_cases [OF h(4)] show thesis
    by (auto dest!: presample_err intro: that [OF h(1-3)])
qed


lemma put_ctx_simps [simp]:
  "ctxs (put_ctx i c w) = (ctxs w)(i \<mapsto> c)" "samplers (put_ctx i c w) = samplers w"
  by (simp_all add: put_ctx_def)

lemma seq_of_commit_ready: "seq_of (c\<lparr>decode_ready := r\<rparr>) s = seq_of c s"
  by simp

lemma shims_ignore_decode [simp]:
  "erllama_safe_n_batch (api\<lparr>llama_decode := g\<rparr>) = erllama_safe_n_batch api"
  "erllama_safe_get_model (api\<lparr>llama_decode := g\<rparr>) = erllama_safe_get_model api"
  "erllama_safe_model_get_vocab (api\<lparr>llama_decode := g\<rparr>) = erllama_safe_model_get_vocab api"
  "erllama_safe_vocab_is_eog (api\<lparr>llama_decode := g\<rparr>) = erllama_safe_vocab_is_eog api"
  "erllama_safe_vocab_n_tokens (api\<lparr>llama_decode := g\<rparr>) = erllama_safe_vocab_n_tokens api"
  "erllama_safe_sampler_sample (api\<lparr>llama_decode := g\<rparr>) = erllama_safe_sampler_sample api"
  "erllama_safe_top_logprobs (api\<lparr>llama_decode := g\<rparr>) = erllama_safe_top_logprobs api"
  by (simp_all add: fun_eq_iff erllama_safe_n_batch_def erllama_safe_get_model_def
      erllama_safe_model_get_vocab_def erllama_safe_vocab_n_tokens_def erllama_safe_vocab_is_eog_def
      erllama_safe_sampler_sample_def erllama_safe_top_logprobs_def)

lemma ctx_vocab_ignores_decode [simp]: "erllama_ctx_vocab (api\<lparr>llama_decode := g\<rparr>) = erllama_ctx_vocab api"
  unfolding erllama_ctx_vocab_def fun_eq_iff shims_ignore_decode by simp

lemma presample_op_ignores_decode [simp]:
  "presample_op (api\<lparr>llama_decode := g\<rparr>) = presample_op api"
  unfolding presample_op_def sample_logprobs_def fun_eq_iff shims_ignore_decode by simp

lemma presample_ignores_decode [simp]:
  "presample (api\<lparr>llama_decode := g\<rparr>) fo a vocab n c rest ops samp = presample api fo a vocab n c rest ops samp"
  by (induction api fo a vocab n c rest ops samp rule: presample.induct) (auto split: prod.splits sum.splits)

lemma run_decode_cong:
  assumes "\<And>poll. g poll b n = llama_decode api poll b n"
  shows "run_decode (api\<lparr>llama_decode := g\<rparr>) it b n c = run_decode api it b n c"
  using assms by (simp add: run_decode_def erllama_safe_decode_def)

lemma step_decode_in_bounds:
  assumes g: "\<And>poll b. b_token b \<noteq> [] \<Longrightarrow> length (b_token b) \<le> erllama_safe_n_batch api n \<Longrightarrow>
      g poll b n = llama_decode api poll b n"
  shows "step_decode (api\<lparr>llama_decode := g\<rparr>) alloc it n c ops = step_decode api alloc it n c ops"
proof -
  let ?b = "batch_of (step_rows c ops)"
  have "run_decode (api\<lparr>llama_decode := g\<rparr>) it ?b n c' = run_decode api it ?b n c'"
    if "\<not> (total_rows ops \<le> 0)" "\<not> (total_rows ops > int (erllama_safe_n_batch api n))" for c'
    using that by (intro run_decode_cong g) (auto simp: total_rows_eq [of ops c])
  then show ?thesis
    using build_batch_rows [of c ops "[]" "[]"]
    by (auto simp: step_decode_def Let_def split: option.splits)
qed

lemma step_decode_error:
  assumes "step_decode api alloc it n c ops = (c', r)" "alloc ''results'' 0"
  shows "(\<exists>x. r = Term (ETuple [atom_ok, x])) \<or>
     c_per_seq c' = c_per_seq c \<and> (c' = c \<or> \<not> decode_ready c')"
proof (cases "\<exists>x. r = Term (ETuple [atom_ok, x])")
  case False
  with assms show ?thesis
    by (auto simp: step_decode_def Let_def run_decode_def split: if_splits option.splits prod.splits)
qed simp

end
