(* ===== verification/Demo_Engine.thy ===== *)
theory Demo_Engine
  imports Nif_Decode
begin

text \<open>
  An instance of the engine parameter for the witnesses: the state of a context is the list
  of its KV cells (sequence, position) and the sequence of each row of the last batch;
  decoding appends the rows, an abort leaves the cells. The chain counts its samples.
  The token sampled at row \<open>i\<close> is 100 times the sequence of that row plus the count.
\<close>

record demo_ctx =
  d_cells :: "(llama_seq_id \<times> llama_pos) list"
  d_rows :: "llama_seq_id list"

definition demo_max :: "llama_seq_id \<Rightarrow> demo_ctx \<Rightarrow> llama_pos" where
  "demo_max s d = foldl max (-1) (map snd (filter (\<lambda>c. fst c = s) (d_cells d)))"

definition demo_decode :: "(nat \<Rightarrow> bool) \<Rightarrow> llama_batch \<Rightarrow> demo_ctx \<Rightarrow> int exc \<times> demo_ctx" where
  "demo_decode poll b d =
     (if poll 0 then (Ret 2, d\<lparr>d_rows := []\<rparr>)
      else
        let seqs = (case b_seq_id b of Some ss \<Rightarrow> map hd ss | None \<Rightarrow> map (\<lambda>_. 0) (b_token b));
            poss = (case b_pos b of Some ps \<Rightarrow> ps
                    | None \<Rightarrow> map (\<lambda>j. demo_max 0 d + 1 + int j) [0..<length (b_token b)])
        in (Ret 0, \<lparr>d_cells = d_cells d @ zip seqs poss, d_rows = seqs\<rparr>))"

definition demo_sample :: "nat \<Rightarrow> demo_ctx \<Rightarrow> int \<Rightarrow> llama_token exc \<times> nat" where
  "demo_sample k d i =
     (let j = (if i < 0 then length (d_rows d) - 1 else nat i) in
      if j < length (d_rows d) then (Ret (100 * d_rows d ! j + int k), Suc k) else (Throw, k))"

definition demo_api :: "(demo_ctx, nat) llama_api" where
  "demo_api = \<lparr>
     llama_get_model = (\<lambda>n. Ret (Some 0)),
     llama_model_get_vocab = (\<lambda>m. Ret (Some 0)),
     llama_vocab_n_tokens = (\<lambda>v. Ret 1000),
     llama_vocab_is_eog = (\<lambda>v t. Ret (t = 2)),
     llama_model_n_embd = (\<lambda>m. Ret 2),
     llama_n_ctx = (\<lambda>n. Ret 16),
     llama_n_batch = (\<lambda>n. Ret 4),
     llama_decode = demo_decode,
     llama_get_logits_ith = (\<lambda>n i. Ret (if i < int (length (d_rows n)) then Some [0, 3, 1] else None)),
     llama_get_memory = (\<lambda>n. Ret True),
     llama_memory_seq_rm = (\<lambda>s p0 p1 n. (Ret True,
        n\<lparr>d_cells := filter (\<lambda>(q, p). q \<noteq> s \<or> p < p0 \<or> (p1 \<ge> 0 \<and> p \<ge> p1)) (d_cells n)\<rparr>)),
     llama_memory_seq_cp = (\<lambda>s t p0 p1 n. (Ret (),
        n\<lparr>d_cells := d_cells n @ map (\<lambda>(q, p). (t, p)) (filter (\<lambda>(q, p). q = s) (d_cells n))\<rparr>)),
     llama_memory_seq_pos_max = (\<lambda>s n. Ret (demo_max s n)),
     llama_state_seq_get_size = (\<lambda>s n. Ret (length (d_cells n))),
     llama_state_seq_get_data = (\<lambda>sz s n. Ret (length (d_cells n), map (word_of_int \<circ> snd) (d_cells n))),
     llama_state_seq_set_data = (\<lambda>bs s n. (Ret (length bs),
        n\<lparr>d_cells := d_cells n @ map (\<lambda>b. (s, uint b)) bs\<rparr>)),
     llama_set_embeddings = (\<lambda>v n. (Ret (), n)),
     llama_get_embeddings_seq = (\<lambda>n s. Ret None),
     llama_get_embeddings = (\<lambda>n. Ret (Some [1, 2])),
     llama_sampler_sample = demo_sample\<rparr>"

definition demo_fo :: float_ops where
  "demo_fo = \<lparr>f_log_sum_exp = (\<lambda>xs. 4), f_sub = (-)\<rparr>"

definition demo_it :: interrupts where
  "demo_it = \<lparr>now_armed = 10, poll_flag = (\<lambda>_. False), poll_now = (\<lambda>_. 11), end_flag = False, end_now = 12\<rparr>"

definition demo_ok :: allocs where
  "demo_ok = (\<lambda>_ _. True)"

text \<open>Context 0 with one sampler, before anything ran.\<close>

definition demo_w0 :: "(demo_ctx, nat) nif_state" where
  "demo_w0 = \<lparr>ctxs = [0 \<mapsto> new_context_res \<lparr>d_cells = [], d_rows = []\<rparr> 1000],
              samplers = [5 \<mapsto> \<lparr>s_chain = Some 7, s_ctx_res = 0, s_n_probs = 0\<rparr>]\<rparr>"

definition op_prefill :: "int \<Rightarrow> int list \<Rightarrow> eterm" where
  "op_prefill s ts = ETuple [EInt s, ETuple [EAtom ''prefill'', mk_list (map EInt ts)]]"

definition op_decode :: "int \<Rightarrow> eterm" where
  "op_decode s = ETuple [EInt s, ETuple [EAtom ''decode'', ERes SAMPLER_RT 5]]"

definition demo_step :: "eterm list \<Rightarrow> (demo_ctx, nat) nif_state \<Rightarrow> (demo_ctx, nat) nif_state \<times> nif_ret" where
  "demo_step ops w = nif_step demo_api demo_fo demo_ok demo_it (ERes CTX_RT 0) (mk_list ops) w"

text \<open>After a prefill of sequences 4 and 3.\<close>

definition demo_w1 :: "(demo_ctx, nat) nif_state" where
  "demo_w1 = fst (demo_step [op_prefill 4 [13], op_prefill 3 [11, 12]] demo_w0)"

end
