(* ===== verification/Nif_Props.thy ===== *)
theory Nif_Props
  imports Demo_Engine
begin

text \<open>
  The properties of the context, KV and decode entry points, with their witnesses on the
  small engine of \<open>Demo_Engine\<close>.
\<close>

subsection \<open>The tick\<close>

text \<open>
  C9: Every token a successful tick returns is in KV when it returns. The results are
  those of operations whose rows, and no others, made up the one batch that
  \<open>llama_decode\<close> accepted. When no sequence occurs twice, each sequence of the tick advances by
  its rows, placed from its next position on without a gap; the row its next sample will use
  is its own last row, decoded with logits; and every other sequence's tracking is untouched.
\<close>

theorem step_returned_is_committed:
  assumes step: "nif_step api fo alloc it (ERes CTX_RT i) ops_t w = (w', Term (ETuple [atom_ok, mk_list rs]))"
    and ne: "rs \<noteq> []" and c: "ctxs w i = Some c" "ctx_ok c"
  shows "\<exists>ops n n' poll c'. c_ctx c = Some n \<and> ctxs w' i = Some c' \<and> c_ctx c' = Some n' \<and> ctx_ok c' \<and>
      rs = map op_result ops \<and>
      erllama_safe_decode api poll (batch_of (step_rows c ops)) n = (0, n') \<and>
      (distinct (map so_seq_id ops) \<longrightarrow>
        (\<forall>op\<in>set ops. let p = seq_of c (so_seq_id op); p' = seq_of c' (so_seq_id op) in
           next_pos p' = next_pos p + slice_n op \<and>
           0 \<le> last_logits_idx p' \<and> nat (last_logits_idx p') < length (step_rows c ops) \<and>
           step_rows c ops ! nat (last_logits_idx p') =
             (last (slice_tokens op), next_pos p' - 1, so_seq_id op, True)) \<and>
        (\<forall>s\<ge>0. s \<notin> set (map so_seq_id ops) \<longrightarrow> seq_of c' s = seq_of c s))"
proof -
  from step ne obtain c0 n ops0 ops c' samp' where h: "ctxs w i = Some c0" "c_ctx c0 = Some n"
    "parse_ops (alloc ''tokens'') i (samplers w) (list_cells ops_t) [] = Some ops0"
    "presample api fo (alloc ''logprobs'') (fst (erllama_ctx_vocab api n)) n c0 ops0 [] (samplers w) = (samp', Inr ops)"
    "step_decode api alloc it n c0 ops = (c', Term (ETuple [atom_ok, mk_list rs]))"
    "w' = put_ctx i c' (w\<lparr>samplers := samp'\<rparr>)" by (rule nif_step_okE)
  have c0: "c0 = c" using h(1) c by simp
  have ok: "\<forall>op\<in>set ops. op_ok op" using presample_ok [OF h(4)] parse_ops_ok [OF h(3)] by simp
  from step_decode_ok [OF h(5)] obtain c1 where
    run: "run_decode api it (batch_of (step_rows c ops)) n (arm_decode (now_armed it) c) = (0, c1)"
    and c': "c' = commit_ops (zip ops (logit_rows 0 ops)) c1\<lparr>decode_ready := True\<rparr>"
    and rs: "rs = map op_result ops" by (auto simp: c0)
  note k = run_decode_keeps [OF run]
  from run_decode_native [OF run] obtain poll n' where
    dec: "erllama_safe_decode api poll (batch_of (step_rows c ops)) n = (0, n')" "c_ctx c1 = Some n'" by blast
  let ?xs = "zip ops (logit_rows 0 ops)"
  have c1: "ctx_ok c1" "c_per_seq c1 = c_per_seq c" using k c(2) by simp_all
  have xs: "map fst ?xs = ops" "map (so_seq_id \<circ> fst) ?xs = map so_seq_id ops"
    by (simp_all flip: map_map)
  have tracked: "let p = seq_of c (so_seq_id op); p' = seq_of c' (so_seq_id op) in
           next_pos p' = next_pos p + slice_n op \<and>
           0 \<le> last_logits_idx p' \<and> nat (last_logits_idx p') < length (step_rows c ops) \<and>
           step_rows c ops ! nat (last_logits_idx p') =
             (last (slice_tokens op), next_pos p' - 1, so_seq_id op, True)"
    if "distinct (map so_seq_id ops)" and op: "op \<in> set ops" for op
  proof -
    from op obtain k where k: "k < length ops" "op = ops ! k" by (metis in_set_conv_nth)
    have "seq_of c' (so_seq_id op) = \<lparr>last_logits_idx = logit_rows 0 ops ! k,
            next_pos = next_pos (seq_of c (so_seq_id op)) + slice_n op\<rparr>"
      using commit_ops_nth [of c1 ?xs k] that k ok c1 xs by (simp add: c')
    moreover have "\<forall>op\<in>set ops. slice_tokens op \<noteq> []" using ok op_ok_slice by blast
    ultimately show ?thesis
      using logit_row_is_last [of k ops "[]" c] k by (simp add: Let_def)
  qed
  have others: "seq_of c' s = seq_of c s" if "0 \<le> s" "s \<notin> set (map so_seq_id ops)" for s
    using commit_ops_other [of c1 ?xs s] that ok c1 xs by (simp add: c')
  have "ctx_ok c'" "c_ctx c' = Some n'" using c1 dec(2) by (simp_all add: c')
  with dec(1) tracked others rs h(2,6) c0 show ?thesis by auto
qed


theorem step_returned_is_committed_witness:
  "\<exists>ops n' poll c'. ctxs (fst (demo_step [op_decode 3] demo_w1)) 0 = Some c' \<and> c_ctx c' = Some n' \<and>
     erllama_safe_decode demo_api poll (batch_of (step_rows (the (ctxs demo_w1 0)) ops))
       (the (c_ctx (the (ctxs demo_w1 0)))) = (0, n') \<and>
     [ETuple [EInt 3, ETuple [EAtom ''token'', EInt 307, EInt 0]]] = map op_result ops"
proof -
  have r: "snd (demo_step [op_decode 3] demo_w1) =
     Term (ETuple [atom_ok, mk_list [ETuple [EInt 3, ETuple [EAtom ''token'', EInt 307, EInt 0]]]])"
    by code_simp
  have s: "nif_step demo_api demo_fo demo_ok demo_it (ERes CTX_RT 0) (mk_list [op_decode 3]) demo_w1 =
     (fst (demo_step [op_decode 3] demo_w1),
      Term (ETuple [atom_ok, mk_list [ETuple [EInt 3, ETuple [EAtom ''token'', EInt 307, EInt 0]]]]))"
    using r by (simp add: demo_step_def prod_eq_iff)
  have c: "ctxs demo_w1 0 = Some (the (ctxs demo_w1 0))" by code_simp
  have ok: "ctx_ok (the (ctxs demo_w1 0))" unfolding ctx_ok_def by code_simp
  have "\<exists>ops n n' poll c'. c_ctx (the (ctxs demo_w1 0)) = Some n \<and>
     ctxs (fst (demo_step [op_decode 3] demo_w1)) 0 = Some c' \<and> c_ctx c' = Some n' \<and>
     [ETuple [EInt 3, ETuple [EAtom ''token'', EInt 307, EInt 0]]] = map op_result ops \<and>
     erllama_safe_decode demo_api poll (batch_of (step_rows (the (ctxs demo_w1 0)) ops)) n = (0, n')"
    using step_returned_is_committed [OF s list.distinct(2) c ok]
    by (elim exE conjE) (intro exI conjI; assumption)
  then show ?thesis by (elim exE conjE) (intro exI conjI; simp)
qed

text \<open>
  C32: The tick hands \<open>llama_decode\<close> no empty batch and none with more rows than the
  context's \<open>n_batch\<close>: whatever an engine does on such batches, the outcome is the same.
\<close>

theorem step_never_oversizes:
  assumes "\<And>poll b n. b_token b \<noteq> [] \<Longrightarrow> length (b_token b) \<le> erllama_safe_n_batch api n \<Longrightarrow>
      g poll b n = llama_decode api poll b n"
  shows "nif_step (api\<lparr>llama_decode := g\<rparr>) fo alloc it ctx ops_t w = nif_step api fo alloc it ctx ops_t w"
proof -
  have "step_decode (api\<lparr>llama_decode := g\<rparr>) alloc it n c ops = step_decode api alloc it n c ops" for n c ops
    using assms by (rule step_decode_in_bounds)
  note eq = this
  show ?thesis
    unfolding nif_step_def step_run_def presample_ignores_decode ctx_vocab_ignores_decode eq ..
qed

theorem step_never_oversizes_witness:
  "nif_step (demo_api\<lparr>llama_decode := \<lambda>poll b n.
       if b_token b \<noteq> [] \<and> length (b_token b) \<le> 4 then demo_decode poll b n else (Throw, n)\<rparr>)
     demo_fo demo_ok demo_it (ERes CTX_RT 0) (mk_list [op_decode 3]) demo_w1 =
   demo_step [op_decode 3] demo_w1"
  unfolding demo_step_def
  by (rule step_never_oversizes) (simp add: erllama_safe_n_batch_def demo_api_def)



text \<open>
  A tick that asks to decode a sequence left out of the tick before it samples the row of
  another sequence: the tracked row index is one of an older batch, though it is documented to
  be one of the last batch or -1. Here sequences 4 and 3 are prefilled (rows 0 and 2), then only 3
  decodes; the token returned for 4 comes from row 0 of that batch, which belongs to 3.
\<close>

theorem step_stale_logits:
  "(let (w2, r2) = nif_step demo_api demo_fo demo_ok demo_it (ERes CTX_RT 0) (mk_list [op_decode 3]) demo_w1;
        (w3, r3) = nif_step demo_api demo_fo demo_ok demo_it (ERes CTX_RT 0) (mk_list [op_decode 4]) w2
    in r2 = Term (ETuple [atom_ok, mk_list [ETuple [EInt 3, ETuple [EAtom ''token'', EInt 307, EInt 0]]]]) \<and>
       r3 = Term (ETuple [atom_ok, mk_list [ETuple [EInt 4, ETuple [EAtom ''token'', EInt 308, EInt 0]]]]) \<and>
       map_option (\<lambda>c. map_option d_rows (c_ctx c)) (ctxs w2 0) = Some (Some [3]))"
  by code_simp

text \<open>
  A tick refused with \<open>batch_overflow\<close> has already consumed a sample: the chain has
  accepted a token that is in no batch. The documentation asks the caller to shrink the
  prefill slices and try again; the chain (grammar, penalties, random state) is then one
  token ahead of the sequence.
\<close>

theorem step_overflow_consumes_sample:
  "\<exists>w'. nif_step demo_api demo_fo demo_ok demo_it (ERes CTX_RT 0)
           (mk_list [op_decode 3, op_prefill 4 [1, 2, 3, 4]]) demo_w1 = (w', err ''batch_overflow'') \<and>
        ctxs w' 0 = ctxs demo_w1 0 \<and>
        map_option s_chain (samplers demo_w1 5) = Some (Some 7) \<and>
        map_option s_chain (samplers w' 5) = Some (Some 8)"
proof (intro exI conjI)
  show "nif_step demo_api demo_fo demo_ok demo_it (ERes CTX_RT 0)
           (mk_list [op_decode 3, op_prefill 4 [1, 2, 3, 4]]) demo_w1 =
         (fst (demo_step [op_decode 3, op_prefill 4 [1, 2, 3, 4]] demo_w1), err ''batch_overflow'')"
    (is "?l = _") 
  proof -
    have "snd ?l = err ''batch_overflow''" by code_simp
    then show ?thesis by (simp add: demo_step_def prod_eq_iff)
  qed
qed code_simp+

text \<open>
  \<open>nif_prefill\<close> decodes without arming the interrupt, so the deadline of an earlier decode
  is still in force: a prefill later than that deadline is aborted at once, however fast it is.
  Here the tick at time 10 has a budget of 1000 and the prefill polls at time 5000.
\<close>

theorem prefill_stale_deadline:
  "snd (nif_prefill demo_api demo_ok (demo_it\<lparr>poll_now := \<lambda>_. 5000\<rparr>) (ERes CTX_RT 0) (mk_list [EInt 1]) demo_w0)
     = Term atom_ok \<and>
   snd (nif_prefill demo_api demo_ok (demo_it\<lparr>poll_now := \<lambda>_. 5000\<rparr>) (ERes CTX_RT 0) (mk_list [EInt 1]) demo_w1)
     = erllama_error (EInt 2)"
  by (intro conjI; code_simp)

end
