(* ===== verification/Nif_Kv.thy ===== *)
theory Nif_Kv
  imports Nif_Props Kv_Slots
begin

text \<open>
  The KV entry points of \<open>c_src/erllama_nif_kv.c\<close>: whatever they do to the memory, the tracking of
  the sequence agrees with it afterwards. For an engine whose memory is the KV cache of
  \<open>Kv_Cache\<close> the laws of that cache carry over to the entry points.
\<close>

text \<open>The tracking of a sequence agrees with the memory and holds no logits.\<close>

definition in_sync :: "('n, 's) llama_api \<Rightarrow> ('n, 's) context_res \<Rightarrow> int \<Rightarrow> bool" where
  "in_sync api c s \<longleftrightarrow>
     (\<exists>n. c_ctx c = Some n \<and> \<not> decode_ready c \<and>
        seq_of c s = \<lparr>last_logits_idx = -1,
          next_pos = max 0 (erllama_safe_memory_seq_pos_max api n s + 1)\<rparr>)"

lemma refresh_seq_simps [simp]:
  "c_ctx (refresh_seq api s n c) = c_ctx c"
  "decode_ready (refresh_seq api s n c) = decode_ready c"
  "ctx_ok (refresh_seq api s n c) = ctx_ok c"
  by (simp_all add: refresh_seq_def Let_def)

lemma refresh_seq_of:
  assumes "ctx_ok c" "0 \<le> s" "s < ERLLAMA_N_SEQ_MAX_CAP" "0 \<le> t"
  shows "seq_of (refresh_seq api s n c) t =
    (if t = s then \<lparr>last_logits_idx = -1, next_pos = max 0 (erllama_safe_memory_seq_pos_max api n s + 1)\<rparr>
     else seq_of c t)"
  using assms by (auto simp: refresh_seq_def Let_def seq_of_set_seq)

lemma with_ctx_live [simp]:
  "ctxs w i = Some c \<Longrightarrow> c_ctx c = Some n \<Longrightarrow> with_ctx i w body = body n c"
  by (simp add: with_ctx_def)

text \<open>\<open>nif_kv_seq_rm\<close> on a live context and a tracked sequence, in terms of the memory call.\<close>

lemma nif_kv_seq_rm_run:
  assumes "ctxs w i = Some c" "c_ctx c = Some n" "ctx_ok c"
    and "0 \<le> s" "s < ERLLAMA_N_SEQ_MAX_CAP" "enif_get_int p0 = Some q0" "enif_get_int p1 = Some q1"
    and "erllama_safe_memory_seq_rm api s q0 q1 n = (rc, n')"
  shows "\<exists>c'. nif_kv_seq_rm api (ERes CTX_RT i) (EInt s) p0 p1 w =
        (put_ctx i c' w, if rc \<noteq> 0 then err ''unpack_failed'' else Term atom_ok) \<and>
      c_ctx c' = Some n' \<and> in_sync api c' s \<and> (\<forall>t\<ge>0. t \<noteq> s \<longrightarrow> seq_of c' t = seq_of c t)"
proof -
  have "s \<le> INT32_MAX" "INT32_MIN \<le> s" using assms by (simp_all add: ERLLAMA_N_SEQ_MAX_CAP_def)
  then show ?thesis
    using assms by (auto simp: nif_kv_seq_rm_def in_sync_def refresh_seq_of)
qed

text \<open>A copy that \<open>nif_kv_seq_cp\<close> verifies.\<close>

lemma nif_kv_seq_cp_run:
  assumes "ctxs w i = Some c" "c_ctx c = Some n" "ctx_ok c"
    and "0 \<le> s" "s < ERLLAMA_N_SEQ_MAX_CAP" "0 \<le> t" "t < ERLLAMA_N_SEQ_MAX_CAP" "s \<noteq> t"
    and "erllama_safe_memory_seq_cp api s t n = (0, n')"
    and "0 \<le> erllama_safe_memory_seq_pos_max api n s"
    and "erllama_safe_memory_seq_pos_max api n' t = erllama_safe_memory_seq_pos_max api n s"
  shows "\<exists>c'. nif_kv_seq_cp api (ERes CTX_RT i) (EInt s) (EInt t) w = (put_ctx i c' w, Term atom_ok) \<and>
      c_ctx c' = Some n' \<and> in_sync api c' t \<and> (\<forall>u\<ge>0. u \<noteq> t \<longrightarrow> seq_of c' u = seq_of c u)"
proof -
  have "s \<le> INT32_MAX" "INT32_MIN \<le> s" "t \<le> INT32_MAX" "INT32_MIN \<le> t"
    using assms by (simp_all add: ERLLAMA_N_SEQ_MAX_CAP_def)
  then show ?thesis
    using assms by (auto simp: nif_kv_seq_cp_def kv_seq_cp_body_def Let_def in_sync_def seq_of_set_seq)
qed

subsection \<open>An engine whose memory is the KV cache\<close>

text \<open>
  \<open>llama_memory_seq_rm\<close> and its kin of \<open>llama-context.cpp\<close> call the methods of the cache
  \<open>mem n\<close>. Nothing is said of a call that violates an assertion of the cache.
\<close>

definition kv_backed :: "('n, 's) llama_api \<Rightarrow> ('n \<Rightarrow> kv_cache) \<Rightarrow> bool" where
  "kv_backed api mem \<longleftrightarrow>
     (\<forall>n. llama_get_memory api n = Ret True) \<and>
     (\<forall>n s p0 p1 k' b. kv_seq_rm s p0 p1 (mem n) = Some (k', b) \<longrightarrow>
        (\<exists>n'. llama_memory_seq_rm api s p0 p1 n = (Ret b, n') \<and> mem n' = k')) \<and>
     (\<forall>n s t p0 p1 k'. kv_seq_cp s t p0 p1 (mem n) = Some k' \<longrightarrow>
        (\<exists>n'. llama_memory_seq_cp api s t p0 p1 n = (Ret (), n') \<and> mem n' = k')) \<and>
     (\<forall>n s p. kv_seq_pos_max s (mem n) = Some p \<longrightarrow> llama_memory_seq_pos_max api s n = Ret p)"

lemma kv_backedD:
  assumes "kv_backed api mem"
  shows "kv_seq_rm s p0 p1 (mem n) = Some (k', b) \<Longrightarrow>
      \<exists>n'. erllama_safe_memory_seq_rm api s p0 p1 n = (if b then 0 else -1, n') \<and> mem n' = k'"
    and "kv_seq_cp s t (-1) (-1) (mem n) = Some k' \<Longrightarrow>
      \<exists>n'. erllama_safe_memory_seq_cp api s t n = (0, n') \<and> mem n' = k'"
    and "kv_seq_pos_max s (mem n) = Some p \<Longrightarrow> erllama_safe_memory_seq_pos_max api n s = p"
proof -
  show "kv_seq_rm s p0 p1 (mem n) = Some (k', b) \<Longrightarrow>
      \<exists>n'. erllama_safe_memory_seq_rm api s p0 p1 n = (if b then 0 else -1, n') \<and> mem n' = k'"
    using assms unfolding kv_backed_def erllama_safe_memory_seq_rm_def by fastforce
  show "kv_seq_cp s t (-1) (-1) (mem n) = Some k' \<Longrightarrow>
      \<exists>n'. erllama_safe_memory_seq_cp api s t n = (0, n') \<and> mem n' = k'"
    using assms unfolding kv_backed_def erllama_safe_memory_seq_cp_def by fastforce
  show "kv_seq_pos_max s (mem n) = Some p \<Longrightarrow> erllama_safe_memory_seq_pos_max api n s = p"
    using assms by (simp add: kv_backed_def erllama_safe_memory_seq_pos_max_def)
qed

text \<open>The instance for the witnesses: the state of the context is the cache.\<close>

definition kv_engine :: "(kv_cache, nat) llama_api" where
  "kv_engine = \<lparr>
     llama_get_model = (\<lambda>n. Ret (Some 0)), llama_model_get_vocab = (\<lambda>m. Ret (Some 0)),
     llama_vocab_n_tokens = (\<lambda>v. Ret 1000), llama_vocab_is_eog = (\<lambda>v t. Ret (t = 2)),
     llama_model_n_embd = (\<lambda>m. Ret 2), llama_n_ctx = (\<lambda>n. Ret 16), llama_n_batch = (\<lambda>n. Ret 4),
     llama_decode = (\<lambda>poll b n. (Ret 0, n)), llama_get_logits_ith = (\<lambda>n i. Ret None),
     llama_get_memory = (\<lambda>n. Ret True),
     llama_memory_seq_rm = (\<lambda>s p0 p1 n. case kv_seq_rm s p0 p1 n of None \<Rightarrow> (Throw, n) | Some (n', b) \<Rightarrow> (Ret b, n')),
     llama_memory_seq_cp = (\<lambda>s t p0 p1 n. case kv_seq_cp s t p0 p1 n of None \<Rightarrow> (Throw, n) | Some n' \<Rightarrow> (Ret (), n')),
     llama_memory_seq_pos_max = (\<lambda>s n. case kv_seq_pos_max s n of None \<Rightarrow> Throw | Some p \<Rightarrow> Ret p),
     llama_state_seq_get_size = (\<lambda>s n. Ret 0), llama_state_seq_get_data = (\<lambda>sz s n. Ret (0, [])),
     llama_state_seq_set_data = (\<lambda>bs s n. (Ret 0, n)), llama_set_embeddings = (\<lambda>v n. (Ret (), n)),
     llama_get_embeddings_seq = (\<lambda>n s. Ret None), llama_get_embeddings = (\<lambda>n. Ret None),
     llama_sampler_sample = (\<lambda>s n i. (Ret 7, Suc s))\<rparr>"

lemma kv_engine_backed: "kv_backed kv_engine (\<lambda>n. n)"
  by (auto simp: kv_backed_def kv_engine_def split: option.splits)

definition kv_c :: "(kv_cache, nat) context_res" where
  "kv_c = new_context_res demo_kv 1000"

definition kv_w :: "(kv_cache, nat) nif_state" where
  "kv_w = \<lparr>ctxs = [0 \<mapsto> kv_c], samplers = Map.empty\<rparr>"

lemma kv_w_simps [simp]: "ctxs kv_w 0 = Some kv_c" "c_ctx kv_c = Some demo_kv" "ctx_ok kv_c"
  by (simp_all add: kv_w_def kv_c_def new_context_res_def ctx_ok_def)

subsection \<open>Properties\<close>

text \<open>
  After \<open>nif_kv_seq_rm\<close> on a tracked sequence, whether or not the memory accepted the
  removal, the sequence's next position is the one after the memory's largest, it has no
  logits, the context is not ready, and no other sequence's tracking changed.
\<close>

theorem kv_seq_rm_resyncs:
  assumes "ctxs w i = Some c" "c_ctx c = Some n" "ctx_ok c"
    and "0 \<le> s" "s < ERLLAMA_N_SEQ_MAX_CAP" "enif_get_int p0 = Some q0" "enif_get_int p1 = Some q1"
  shows "\<exists>c' rc n'. nif_kv_seq_rm api (ERes CTX_RT i) (EInt s) p0 p1 w =
        (put_ctx i c' w, if rc \<noteq> 0 then err ''unpack_failed'' else Term atom_ok) \<and>
      erllama_safe_memory_seq_rm api s q0 q1 n = (rc, n') \<and> c_ctx c' = Some n' \<and>
      in_sync api c' s \<and> (\<forall>t\<ge>0. t \<noteq> s \<longrightarrow> seq_of c' t = seq_of c t)"
proof -
  obtain rc n' where r: "erllama_safe_memory_seq_rm api s q0 q1 n = (rc, n')" by fastforce
  from nif_kv_seq_rm_run [OF assms r] r show ?thesis by blast
qed

theorem kv_seq_rm_resyncs_witness:
  "\<exists>c' rc n'. nif_kv_seq_rm kv_engine (ERes CTX_RT 0) (EInt 0) (EInt 1) (EInt (-1)) kv_w =
        (put_ctx 0 c' kv_w, if rc \<noteq> 0 then err ''unpack_failed'' else Term atom_ok) \<and>
      erllama_safe_memory_seq_rm kv_engine 0 1 (-1) demo_kv = (rc, n') \<and> c_ctx c' = Some n' \<and>
      in_sync kv_engine c' 0 \<and> (\<forall>t\<ge>0. t \<noteq> 0 \<longrightarrow> seq_of c' t = seq_of kv_c t)"
  by (rule kv_seq_rm_resyncs) (simp_all add: ERLLAMA_N_SEQ_MAX_CAP_def)

text \<open>
  \<open>nif_kv_unpack\<close> leaves the same agreement, also when the state was rejected, and reports
  success exactly when the whole binary was consumed.
\<close>

theorem kv_unpack_resyncs:
  assumes "ctxs w i = Some c" "c_ctx c = Some n" "ctx_ok c" "0 \<le> s" "s < ERLLAMA_N_SEQ_MAX_CAP"
  shows "\<exists>c' k n'. nif_kv_unpack api (ERes CTX_RT i) (EBin bs) (EInt s) w =
        (put_ctx i c' w, if k = 0 \<or> k \<noteq> length bs then err ''unpack_failed'' else Term atom_ok) \<and>
      erllama_safe_state_seq_set_data api bs s n = (k, n') \<and> c_ctx c' = Some n' \<and>
      in_sync api c' s \<and> (\<forall>t\<ge>0. t \<noteq> s \<longrightarrow> seq_of c' t = seq_of c t)"
proof -
  obtain k n' where r: "erllama_safe_state_seq_set_data api bs s n = (k, n')" by fastforce
  have "s \<le> INT32_MAX" "INT32_MIN \<le> s" using assms by (simp_all add: ERLLAMA_N_SEQ_MAX_CAP_def)
  then show ?thesis
    using assms r by (auto simp: nif_kv_unpack_def in_sync_def refresh_seq_of enif_inspect_binary_def)
qed

theorem kv_unpack_resyncs_witness:
  "\<exists>c' k n'. nif_kv_unpack demo_api (ERes CTX_RT 0) (EBin [0, 1]) (EInt 4) demo_w1 =
        (put_ctx 0 c' demo_w1, if k = 0 \<or> k \<noteq> length [0 :: byte, 1] then err ''unpack_failed'' else Term atom_ok) \<and>
      erllama_safe_state_seq_set_data demo_api [0, 1] 4 (the (c_ctx (the (ctxs demo_w1 0)))) = (k, n') \<and>
      c_ctx c' = Some n' \<and> in_sync demo_api c' 4 \<and>
      (\<forall>t\<ge>0. t \<noteq> 4 \<longrightarrow> seq_of c' t = seq_of (the (ctxs demo_w1 0)) t)"
proof (rule kv_unpack_resyncs)
  show "ctxs demo_w1 0 = Some (the (ctxs demo_w1 0))" by code_simp
  show "c_ctx (the (ctxs demo_w1 0)) = Some (the (c_ctx (the (ctxs demo_w1 0))))" by code_simp
  show "ctx_ok (the (ctxs demo_w1 0))" unfolding ctx_ok_def by code_simp
qed (simp_all add: ERLLAMA_N_SEQ_MAX_CAP_def)

text \<open>
  \<open>nif_kv_seq_cp\<close> answers ok only for a copy it has verified: the source is not empty, the
  destination now ends where the source does, and the destination's tracking follows suit.
\<close>

theorem kv_seq_cp_verified:
  assumes "nif_kv_seq_cp api (ERes CTX_RT i) (EInt s) (EInt t) w = (w', Term atom_ok)"
    and "ctxs w i = Some c" "c_ctx c = Some n" "ctx_ok c"
  shows "\<exists>c' n'. ctxs w' i = Some c' \<and> erllama_safe_memory_seq_cp api s t n = (0, n') \<and> c_ctx c' = Some n' \<and>
      0 \<le> erllama_safe_memory_seq_pos_max api n s \<and>
      erllama_safe_memory_seq_pos_max api n' t = erllama_safe_memory_seq_pos_max api n s \<and>
      in_sync api c' t \<and> (\<forall>u\<ge>0. u \<noteq> t \<longrightarrow> seq_of c' u = seq_of c u)"
proof -
  obtain rc n' where r: "erllama_safe_memory_seq_cp api s t n = (rc, n')" by fastforce
  then show ?thesis
    using assms
    by (auto simp: nif_kv_seq_cp_def kv_seq_cp_body_def Let_def in_sync_def seq_of_set_seq
             split: if_splits prod.splits)
qed

theorem kv_seq_cp_verified_witness:
  "\<exists>c' n'. ctxs (fst (nif_kv_seq_cp demo_api (ERes CTX_RT 0) (EInt 3) (EInt 9) demo_w1)) 0 = Some c' \<and>
      erllama_safe_memory_seq_cp demo_api 3 9 (the (c_ctx (the (ctxs demo_w1 0)))) = (0, n') \<and> in_sync demo_api c' 9"
proof -
  have "snd (nif_kv_seq_cp demo_api (ERes CTX_RT 0) (EInt 3) (EInt 9) demo_w1) = Term atom_ok" by code_simp
  then have s: "nif_kv_seq_cp demo_api (ERes CTX_RT 0) (EInt 3) (EInt 9) demo_w1 =
     (fst (nif_kv_seq_cp demo_api (ERes CTX_RT 0) (EInt 3) (EInt 9) demo_w1), Term atom_ok)"
    by (simp add: prod_eq_iff)
  have c: "ctxs demo_w1 0 = Some (the (ctxs demo_w1 0))" by code_simp
  have n: "c_ctx (the (ctxs demo_w1 0)) = Some (the (c_ctx (the (ctxs demo_w1 0))))" by code_simp
  have ok: "ctx_ok (the (ctxs demo_w1 0))" unfolding ctx_ok_def by code_simp
  from kv_seq_cp_verified [OF s c n ok] show ?thesis by (elim exE conjE) (intro exI conjI; assumption)
qed

text \<open>
  C10: Trimming a session on the KV cache: \<open>kv_seq_rm(Ctx, S, P, -1)\<close> succeeds, the next
  position of \<open>S\<close> is at most \<open>P\<close>, and the cells of \<open>S\<close> are those it had below \<open>P\<close>.
\<close>

theorem kv_trim_session:
  assumes "kv_backed api mem" "ctxs w i = Some c" "c_ctx c = Some n" "ctx_ok c"
    and "kv_inv (mem n)" "valid_seq (mem n) s" "0 \<le> s" "s < ERLLAMA_N_SEQ_MAX_CAP"
    and "0 \<le> p" "p \<le> INT32_MAX"
  shows "\<exists>c' n'. nif_kv_seq_rm api (ERes CTX_RT i) (EInt s) (EInt p) (EInt (-1)) w = (put_ctx i c' w, Term atom_ok) \<and>
     c_ctx c' = Some n' \<and> kv_inv (mem n') \<and> last_logits_idx (seq_of c' s) = -1 \<and> next_pos (seq_of c' s) \<le> p \<and>
     seq_cells (mem n') s = {(j, q) \<in> seq_cells (mem n) s. \<not> in_range p (-1) q}"
proof -
  from kv.rm_law [OF assms(5,6), of p "-1"] obtain k' where
    k': "kv_seq_rm s p (-1) (mem n) = Some (k', True)" "kv_inv k'"
      "seq_cells k' s = {(j, q) \<in> seq_cells (mem n) s. \<not> in_range p (-1) q}" by blast
  from kv.pmax_truncated [OF assms(5,6,9) k'(1)] obtain q where
    q: "kv_seq_pos_max s k' = Some q" "q < p" by blast
  from kv_backedD(1) [OF assms(1) k'(1)] obtain n' where
    n': "erllama_safe_memory_seq_rm api s p (-1) n = (0, n')" "mem n' = k'" by auto
  have "erllama_safe_memory_seq_pos_max api n' s = q"
    using kv_backedD(3) [OF assms(1), of s n'] q n' by simp
  moreover have gets: "enif_get_int (EInt p) = Some p" "enif_get_int (EInt (-1)) = Some (-1)"
    using assms(9,10) by simp_all
  from nif_kv_seq_rm_run [OF assms(2-4,7,8) gets n'(1)] obtain c' where
    "nif_kv_seq_rm api (ERes CTX_RT i) (EInt s) (EInt p) (EInt (-1)) w = (put_ctx i c' w, Term atom_ok)"
    "c_ctx c' = Some n'" "in_sync api c' s" by auto
  ultimately show ?thesis using k' q n'(2) assms(9) by (auto simp: in_sync_def)
qed

theorem kv_trim_session_witness:
  "\<exists>c' n'. nif_kv_seq_rm kv_engine (ERes CTX_RT 0) (EInt 0) (EInt 1) (EInt (-1)) kv_w = (put_ctx 0 c' kv_w, Term atom_ok) \<and>
     c_ctx c' = Some n' \<and> kv_inv n' \<and> last_logits_idx (seq_of c' 0) = -1 \<and> next_pos (seq_of c' 0) \<le> 1 \<and>
     seq_cells n' 0 = {(j, q) \<in> seq_cells demo_kv 0. \<not> in_range 1 (-1) q}"
  by (rule kv_trim_session [OF kv_engine_backed kv_w_simps])
     (simp_all add: demo_kv_inv demo_valid ERLLAMA_N_SEQ_MAX_CAP_def)

text \<open>
  C11: Forking a session on the KV cache: copying a non-empty sequence into an empty one
  succeeds, the destination gets exactly the source's cells and continues where the source does.
\<close>

theorem kv_fork_session:
  assumes "kv_backed api mem" "ctxs w i = Some c" "c_ctx c = Some n" "ctx_ok c"
    and "kv_inv (mem n)" "valid_seq (mem n) s" "valid_seq (mem n) t" "s \<noteq> t"
    and "seq_cells (mem n) s \<noteq> {}" "seq_cells (mem n) t = {}"
    and "0 \<le> s" "s < ERLLAMA_N_SEQ_MAX_CAP" "0 \<le> t" "t < ERLLAMA_N_SEQ_MAX_CAP"
  shows "\<exists>c' n'. nif_kv_seq_cp api (ERes CTX_RT i) (EInt s) (EInt t) w = (put_ctx i c' w, Term atom_ok) \<and>
     c_ctx c' = Some n' \<and> kv_inv (mem n') \<and>
     seq_cells (mem n') t = seq_cells (mem n) s \<and> seq_cells (mem n') s = seq_cells (mem n) s \<and>
     last_logits_idx (seq_of c' t) = -1 \<and> next_pos (seq_of c' t) = Max (snd ` seq_cells (mem n) s) + 1"
proof -
  let ?M = "Max (snd ` seq_cells (mem n) s)"
  from kv.cp_law [OF assms(5-8,10)] obtain k' where
    k': "kv_seq_cp s t (-1) (-1) (mem n) = Some k'" "kv_inv k'" "valid_seq k' = valid_seq (mem n)"
      "seq_cells k' t = seq_cells (mem n) s" "seq_cells k' s = seq_cells (mem n) s" by blast
  from kv_backedD(2) [OF assms(1) k'(1)] obtain n' where
    n': "erllama_safe_memory_seq_cp api s t n = (0, n')" "mem n' = k'" by blast
  have M: "0 \<le> ?M"
  proof -
    have "?M \<in> snd ` seq_cells (mem n) s" using assms(9) kv.view_finite by (intro Max_in) simp_all
    then show ?thesis using kv.view_bounds [OF assms(5,6)] by auto
  qed
  have src: "erllama_safe_memory_seq_pos_max api n s = ?M"
    using kv_backedD(3) [OF assms(1)] kv.pmax_law [OF assms(5,6)] assms(9) by simp
  have dst: "erllama_safe_memory_seq_pos_max api n' t = ?M"
    using kv_backedD(3) [OF assms(1), of t n'] kv.pmax_law [OF k'(2), of t] assms(7,9) k' n'(2) by simp
  from nif_kv_seq_cp_run [OF assms(2-4,11-14,8) n'(1)] src dst M obtain c' where
    "nif_kv_seq_cp api (ERes CTX_RT i) (EInt s) (EInt t) w = (put_ctx i c' w, Term atom_ok)"
    "c_ctx c' = Some n'" "in_sync api c' t" by auto
  then show ?thesis using k' n'(2) dst M by (auto simp: in_sync_def)
qed

theorem kv_fork_session_witness:
  "\<exists>c' n'. nif_kv_seq_cp kv_engine (ERes CTX_RT 0) (EInt 0) (EInt 3) kv_w = (put_ctx 0 c' kv_w, Term atom_ok) \<and>
     c_ctx c' = Some n' \<and> kv_inv n' \<and>
     seq_cells n' 3 = seq_cells demo_kv 0 \<and> seq_cells n' 0 = seq_cells demo_kv 0 \<and>
     last_logits_idx (seq_of c' 3) = -1 \<and> next_pos (seq_of c' 3) = Max (snd ` seq_cells demo_kv 0) + 1"
  by (rule kv_fork_session [OF kv_engine_backed kv_w_simps])
     (simp_all add: demo_kv_inv demo_valid demo_seq_cells ERLLAMA_N_SEQ_MAX_CAP_def)

end
