(* ===== verification/Kv_State.thy ===== *)
theory Kv_State
  imports Kv_Slots
begin

text \<open>
  Saving and restoring sequences: \<open>state_write\<close> and \<open>state_read\<close> of \<open>llama-kv-cache.cpp\<close> with the
  tensors they copy, the host readers and writers of \<open>llama-context.cpp\<close>, and the entry points
  \<open>state_seq_get_size\<close>, \<open>state_seq_get_data\<close> and \<open>state_seq_set_data\<close> (with flags 0: the
  variants that keep data on the device are not modelled).

  A tensor is its bytes. Integers are copied as they lie in memory, least significant byte
  first. \<open>None\<close> is a failed assertion; an exception is a value. The readers queue what goes
  to the tensors and store it when the call ends, also after an exception. The writers copy from
  the tensors at the end too; here the bytes are fetched where they are asked for, and the size query,
  which copies nothing, counts the same chunks.
\<close>

declare find_loop.simps [code]

subsection \<open>Integers in memory\<close>

fun le_bytes :: "nat \<Rightarrow> int \<Rightarrow> byte list" where
  "le_bytes 0 x = []"
| "le_bytes (Suc n) x = word_of_int x # le_bytes n (x div 256)"

fun of_le :: "byte list \<Rightarrow> int" where
  "of_le [] = 0"
| "of_le (b # bs) = uint b + 256 * of_le bs"

definition signed32 :: "int \<Rightarrow> int" where
  "signed32 x = (if x > INT32_MAX then x - 2 ^ 32 else x)"

subsection \<open>Tensors\<close>

text \<open>The part of \<open>ggml_type_traits\<close> that decides the size of a row.\<close>

record type_traits =
  tt_id :: int
  tt_blck_size :: nat
  tt_type_size :: nat

definition ggml_row_size :: "type_traits \<Rightarrow> nat \<Rightarrow> nat" where
  "ggml_row_size t ne = tt_type_size t * ne div tt_blck_size t"

definition ggml_backend_tensor_get :: "byte list \<Rightarrow> nat \<Rightarrow> nat \<Rightarrow> byte list option" where
  "ggml_backend_tensor_get t off n =
     (if n = 0 then Some [] else do { require (off + n \<le> length t); Some (take n (drop off t)) })"

definition ggml_backend_tensor_set :: "byte list \<Rightarrow> nat \<Rightarrow> byte list \<Rightarrow> byte list option" where
  "ggml_backend_tensor_set t off bs =
     (if bs = [] then Some t
      else do { require (off + length bs \<le> length t); Some (take off t @ bs @ drop (off + length bs) t) })"

text \<open>
  A layer: types and widths of its keys and values, and one tensor per stream. \<open>ly_v_stream\<close> is
  \<open>None\<close> for models that keep no values.
\<close>

record kv_layer =
  ly_k_type :: type_traits
  ly_n_embd_k :: nat
  ly_k_stream :: "byte list list"
  ly_v_type :: type_traits
  ly_n_embd_v :: nat
  ly_v_stream :: "byte list list option"

record kv_store =
  ks_cache :: kv_cache
  ks_n_seq_max :: nat
  ks_v_trans :: bool
  ks_layers :: "kv_layer list"

definition k_size_row :: "kv_layer \<Rightarrow> nat" where
  "k_size_row ly = ggml_row_size (ly_k_type ly) (ly_n_embd_k ly)"

definition v_size_row :: "kv_layer \<Rightarrow> nat" where
  "v_size_row ly = ggml_row_size (ly_v_type ly) (ly_n_embd_v ly)"

subsection \<open>Writing\<close>

text \<open>
  A writer is given a list of chunks, one for each \<open>io.write\<close> and \<open>io.write_tensor\<close>. Whether a
  cell belongs to the sequence to be saved (\<open>-1\<close>: all sequences):
\<close>

definition add_cell :: "kv_cache \<Rightarrow> kv_cells \<Rightarrow> int \<Rightarrow> nat \<Rightarrow> bool option" where
  "add_cell k cells seq_id i = do {
     e \<leftarrow> is_empty cells i;
     has \<leftarrow> (if e then Some False else if seq_id = -1 then Some True else seq_has cells i (nat seq_id));
     if has \<and> seq_id \<noteq> -1 then do {
       p \<leftarrow> pos_get cells i;
       is_masked \<leftarrow> is_masked_swa (kv_n_swa k) (kv_swa_type k) p (cells_seq_pos_max cells (nat seq_id));
       Some (\<not> is_masked) }
     else Some has }"

text \<open>The scan for ranges: the count, the start of the open range (the size: none), the closed ranges.\<close>

definition range_step ::
  "(nat \<Rightarrow> bool option) \<Rightarrow> nat \<Rightarrow> nat \<Rightarrow> nat \<times> nat \<times> (nat \<times> nat) list \<Rightarrow> (nat \<times> nat \<times> (nat \<times> nat) list) option" where
  "range_step add sz i = (\<lambda>(cnt, beg, rs). do {
     a \<leftarrow> add i;
     if a then Some (cnt + 1, if beg = sz then i else beg, rs)
     else if beg \<noteq> sz then Some (cnt, sz, rs @ [(beg, i)])
     else Some (cnt, beg, rs) })"

definition cell_ranges :: "(nat \<Rightarrow> bool option) \<Rightarrow> nat \<Rightarrow> (nat \<times> (nat \<times> nat) list) option" where
  "cell_ranges add sz = do {
     (cnt, beg, rs) \<leftarrow> foldM (range_step add sz) [0..<sz] (0, sz, []);
     let rs' = (if beg \<noteq> sz then rs @ [(beg, sz)] else rs);
     require (cnt = sum_list (map (\<lambda>(a, b). b - a) rs'));
     Some (cnt, rs') }"

definition write_cell :: "kv_store \<Rightarrow> kv_cells \<Rightarrow> int \<Rightarrow> nat \<Rightarrow> byte list list option" where
  "write_cell st cells seq_id i = do {
     seq_ids \<leftarrow> foldM (\<lambda>cur ids.
         if int cur = seq_id \<or> seq_id = -1
         then do { has \<leftarrow> seq_has cells i cur; Some (if has then ids @ [cur] else ids) }
         else Some ids) [0..<ks_n_seq_max st] [];
     pos \<leftarrow> pos_get cells i;
     ext \<leftarrow> (if kv_n_pos_per_embd (ks_cache st) > 1
             then do { e \<leftarrow> ext_get cells i; Some [le_bytes 4 (ext_x e) @ le_bytes 4 (ext_y e)] }
             else Some []);
     Some ([le_bytes 4 pos, le_bytes 4 (int (length seq_ids))] @ ext @ map (\<lambda>q. le_bytes 4 (int q)) seq_ids) }"

definition range_cells :: "(nat \<times> nat) list \<Rightarrow> nat list" where
  "range_cells rs = concat (map (\<lambda>(a, b). [a..<b]) rs)"

definition state_write_meta :: "kv_store \<Rightarrow> nat \<Rightarrow> (nat \<times> nat) list \<Rightarrow> int \<Rightarrow> byte list list option" where
  "state_write_meta st strm rs seq_id =
     map_option concat (those (map (write_cell st (kv_v_cells (ks_cache st) ! strm) seq_id) (range_cells rs)))"

text \<open>One \<open>write_tensor\<close> per range; \<open>base\<close> is the first element of row \<open>j\<close> of a transposed tensor.\<close>

definition write_rows :: "byte list \<Rightarrow> nat \<Rightarrow> nat \<Rightarrow> (nat \<times> nat) list \<Rightarrow> byte list list option" where
  "write_rows t row base rs =
     those (map (\<lambda>(a, b). ggml_backend_tensor_get t ((a + base) * row) ((b - a) * row)) rs)"

definition write_k :: "nat \<Rightarrow> (nat \<times> nat) list \<Rightarrow> kv_layer \<Rightarrow> byte list list option" where
  "write_k strm rs ly = do {
     cs \<leftarrow> write_rows (ly_k_stream ly ! strm) (k_size_row ly) 0 rs;
     Some ([le_bytes 4 (tt_id (ly_k_type ly)), le_bytes 8 (int (k_size_row ly))] @ cs) }"

definition write_v :: "nat \<Rightarrow> (nat \<times> nat) list \<Rightarrow> kv_layer \<Rightarrow> byte list list option" where
  "write_v strm rs ly =
     (case ly_v_stream ly of None \<Rightarrow> Some []
      | Some vs \<Rightarrow> do {
          cs \<leftarrow> write_rows (vs ! strm) (v_size_row ly) 0 rs;
          Some ([le_bytes 4 (tt_id (ly_v_type ly)), le_bytes 8 (int (v_size_row ly))] @ cs) })"

definition write_v_trans :: "nat \<Rightarrow> nat \<Rightarrow> (nat \<times> nat) list \<Rightarrow> kv_layer \<Rightarrow> byte list list option" where
  "write_v_trans kv_size strm rs ly =
     (case ly_v_stream ly of None \<Rightarrow> Some []
      | Some vs \<Rightarrow> do {
          let v_size_el = tt_type_size (ly_v_type ly);
          cs \<leftarrow> those (map (\<lambda>j. write_rows (vs ! strm) v_size_el (j * kv_size) rs) [0..<ly_n_embd_v ly]);
          Some ([le_bytes 4 (tt_id (ly_v_type ly)), le_bytes 4 (int v_size_el), le_bytes 4 (int (ly_n_embd_v ly))]
                @ concat cs) })"

definition state_write_data :: "kv_store \<Rightarrow> nat \<Rightarrow> (nat \<times> nat) list \<Rightarrow> byte list list option" where
  "state_write_data st strm rs = do {
     ks \<leftarrow> those (map (write_k strm rs) (ks_layers st));
     vs \<leftarrow> (if \<not> ks_v_trans st then those (map (write_v strm rs) (ks_layers st))
            else those (map (write_v_trans (cells_size (kv_v_cells (ks_cache st) ! strm)) strm rs) (ks_layers st)));
     Some ([le_bytes 4 (if ks_v_trans st then 1 else 0), le_bytes 4 (int (length (ks_layers st)))]
           @ concat ks @ concat vs) }"

definition write_stream :: "kv_store \<Rightarrow> int \<Rightarrow> nat \<Rightarrow> byte list list option" where
  "write_stream st seq_id s = do {
     let cells = kv_v_cells (ks_cache st) ! s;
     (cell_count, rs) \<leftarrow> cell_ranges (add_cell (ks_cache st) cells seq_id) (cells_size cells);
     if cell_count = 0 then Some [le_bytes 4 0]
     else do {
       meta \<leftarrow> state_write_meta st s rs seq_id;
       data \<leftarrow> state_write_data st s rs;
       Some (le_bytes 4 (int cell_count) # meta @ data) } }"

definition state_write :: "int \<Rightarrow> kv_store \<Rightarrow> byte list list option" where
  "state_write seq_id st =
     (if kv_other (ks_cache st) \<noteq> None then Some []
      else do {
        parts \<leftarrow> those (map (write_stream st seq_id) [0..<kv_n_stream (ks_cache st)]);
        Some (le_bytes 4 (int (kv_n_stream (ks_cache st))) # concat parts) })"

subsection \<open>The writers\<close>

definition io_magic :: int where
  "io_magic = 0xaf143cd8"

text \<open>\<open>llama_io_write_host\<close>: the bytes stored, and whether all chunks fit (otherwise it threw).\<close>

fun host_write :: "nat \<Rightarrow> byte list list \<Rightarrow> byte list \<times> bool" where
  "host_write buf_size [] = ([], True)"
| "host_write buf_size (c # cs) =
     (if length c > buf_size then ([], False)
      else let (bs, ok) = host_write (buf_size - length c) cs in (c @ bs, ok))"

definition state_seq_chunks :: "int \<Rightarrow> kv_store \<Rightarrow> byte list list option" where
  "state_seq_chunks seq_id st = do {
     cs \<leftarrow> state_write seq_id st;
     Some (le_bytes 4 io_magic # le_bytes 4 seq_id # cs) }"

definition state_seq_get_size :: "int \<Rightarrow> kv_store \<Rightarrow> nat option" where
  "state_seq_get_size seq_id st = do { cs \<leftarrow> state_seq_chunks seq_id st; Some (sum_list (map length cs)) }"

definition state_seq_get_data :: "int \<Rightarrow> nat \<Rightarrow> kv_store \<Rightarrow> (nat \<times> byte list) option" where
  "state_seq_get_data seq_id dst_size st = do {
     cs \<leftarrow> state_seq_chunks seq_id st;
     let (bs, ok) = host_write dst_size cs;
     Some (if ok then length bs else 0, bs) }"

subsection \<open>The reader\<close>

text \<open>\<open>llama_io_read_host\<close>: \<open>None\<close> when the buffer ends (it throws).\<close>

definition io_read :: "nat \<Rightarrow> byte list \<Rightarrow> (byte list \<times> byte list) option" where
  "io_read n rest = (if n > length rest then None else Some (take n rest, drop n rest))"

definition read_u32 :: "byte list \<Rightarrow> (int \<times> byte list) option" where
  "read_u32 rest = do { (b, r) \<leftarrow> io_read 4 rest; Some (of_le b, r) }"

definition read_i32 :: "byte list \<Rightarrow> (int \<times> byte list) option" where
  "read_i32 rest = do { (b, r) \<leftarrow> io_read 4 rest; Some (signed32 (of_le b), r) }"

definition read_u64 :: "byte list \<Rightarrow> (int \<times> byte list) option" where
  "read_u64 rest = do { (b, r) \<leftarrow> io_read 8 rest; Some (of_le b, r) }"

definition read_ext :: "nat \<Rightarrow> byte list \<Rightarrow> (cell_ext \<times> byte list) option" where
  "read_ext n_pos rest =
     (if n_pos > 1 then do { (x, r) \<leftarrow> read_i32 rest; (y, r) \<leftarrow> read_i32 r; Some (\<lparr>ext_x = x, ext_y = y\<rparr>, r) }
      else Some (ext_zero, rest))"

datatype tensor_ref = KTensor nat nat | VTensor nat nat

text \<open>The queue of tensor stores: tensor, offset and bytes.\<close>

type_synonym rinfos = "(tensor_ref \<times> nat \<times> byte list) list"

text \<open>How a reading function ends: with an exception, or returning \<open>false\<close> or \<open>true\<close>.\<close>

datatype read_end = RThrow | RFalse | RTrue

definition read_try :: "('a \<times> byte list) option \<Rightarrow> byte list \<Rightarrow> rinfos \<Rightarrow> ('a \<Rightarrow> byte list \<Rightarrow> read_end \<times> byte list \<times> rinfos)
     \<Rightarrow> read_end \<times> byte list \<times> rinfos" where
  "read_try r rest q f = (case r of None \<Rightarrow> (RThrow, rest, q) | Some (v, rest') \<Rightarrow> f v rest')"

text \<open>\<open>io.read_tensor\<close> for a list of tensors, offsets and sizes.\<close>

fun read_tensors :: "(tensor_ref \<times> nat \<times> nat) list \<Rightarrow> byte list \<Rightarrow> rinfos \<Rightarrow> read_end \<times> byte list \<times> rinfos" where
  "read_tensors [] rest q = (RTrue, rest, q)"
| "read_tensors ((t, off, n) # ts) rest q =
     (if n > length rest then (RThrow, rest, q)
      else read_tensors ts (drop n rest) (q @ [(t, off, take n rest)]))"

definition is_contiguous :: "slot_info \<Rightarrow> bool" where
  "is_contiguous si =
     (if si_idxs si = [] \<or> si_idxs si ! 0 = [] then True
      else if length (si_idxs si) > 1 then False
      else list_all (\<lambda>i. si_idxs si ! 0 ! i = si_idxs si ! 0 ! 0 + i) [0..<length (si_idxs si ! 0)])"

text \<open>Where the rows of \<open>n\<close> cells go: one block if the cells are contiguous.\<close>

definition row_reads :: "slot_info \<Rightarrow> nat \<Rightarrow> tensor_ref \<Rightarrow> nat \<Rightarrow> nat \<Rightarrow> (tensor_ref \<times> nat \<times> nat) list" where
  "row_reads si n t row base =
     (if n = 0 then []
      else if is_contiguous si then [(t, (si_idxs si ! 0 ! 0 + base) * row, n * row)]
      else map (\<lambda>i. (t, (si_idxs si ! 0 ! i + base) * row, row)) [0..<n])"

definition read_k :: "slot_info \<Rightarrow> nat \<Rightarrow> nat \<Rightarrow> nat \<Rightarrow> kv_layer \<Rightarrow> byte list \<Rightarrow> rinfos \<Rightarrow> read_end \<times> byte list \<times> rinfos" where
  "read_k si n strm il ly rest q =
     read_try (read_i32 rest) rest q (\<lambda>k_type_i_ref rest.
       if tt_id (ly_k_type ly) \<noteq> k_type_i_ref then (RFalse, rest, q)
       else read_try (read_u64 rest) rest q (\<lambda>k_size_row_ref rest.
         if int (k_size_row ly) \<noteq> k_size_row_ref then (RFalse, rest, q)
         else read_tensors (row_reads si n (KTensor il strm) (k_size_row ly) 0) rest q))"

definition read_v :: "slot_info \<Rightarrow> nat \<Rightarrow> nat \<Rightarrow> nat \<Rightarrow> kv_layer \<Rightarrow> byte list \<Rightarrow> rinfos \<Rightarrow> read_end \<times> byte list \<times> rinfos" where
  "read_v si n strm il ly rest q =
     (if ly_v_stream ly = None then (RTrue, rest, q)
      else read_try (read_i32 rest) rest q (\<lambda>v_type_i_ref rest.
        if tt_id (ly_v_type ly) \<noteq> v_type_i_ref then (RFalse, rest, q)
        else read_try (read_u64 rest) rest q (\<lambda>v_size_row_ref rest.
          if int (v_size_row ly) \<noteq> v_size_row_ref then (RFalse, rest, q)
          else read_tensors (row_reads si n (VTensor il strm) (v_size_row ly) 0) rest q)))"

definition read_v_trans ::
  "nat \<Rightarrow> slot_info \<Rightarrow> nat \<Rightarrow> nat \<Rightarrow> nat \<Rightarrow> kv_layer \<Rightarrow> byte list \<Rightarrow> rinfos \<Rightarrow> read_end \<times> byte list \<times> rinfos" where
  "read_v_trans kv_size si n strm il ly rest q =
     (if ly_v_stream ly = None then (RTrue, rest, q)
      else read_try (read_i32 rest) rest q (\<lambda>v_type_i_ref rest.
        if tt_id (ly_v_type ly) \<noteq> v_type_i_ref then (RFalse, rest, q)
        else read_try (read_u32 rest) rest q (\<lambda>v_size_el_ref rest.
          if int (tt_type_size (ly_v_type ly)) \<noteq> v_size_el_ref then (RFalse, rest, q)
          else read_try (read_u32 rest) rest q (\<lambda>n_embd_v_gqa_ref rest.
            if int (ly_n_embd_v ly) \<noteq> n_embd_v_gqa_ref then (RFalse, rest, q)
            else read_tensors
              (concat (map (\<lambda>j. row_reads si n (VTensor il strm) (tt_type_size (ly_v_type ly)) (j * kv_size))
                 [0..<ly_n_embd_v ly])) rest q))))"

text \<open>A loop over the layers, with their numbers, that ends at the first failure.\<close>

fun read_layers ::
  "(nat \<Rightarrow> kv_layer \<Rightarrow> byte list \<Rightarrow> rinfos \<Rightarrow> read_end \<times> byte list \<times> rinfos) \<Rightarrow> nat \<Rightarrow> kv_layer list
     \<Rightarrow> byte list \<Rightarrow> rinfos \<Rightarrow> read_end \<times> byte list \<times> rinfos" where
  "read_layers f il [] rest q = (RTrue, rest, q)"
| "read_layers f il (ly # lys) rest q =
     (case f il ly rest q of
        (RTrue, rest', q') \<Rightarrow> read_layers f (Suc il) lys rest' q'
      | r \<Rightarrow> r)"

definition state_read_data ::
  "kv_store \<Rightarrow> nat \<Rightarrow> nat \<Rightarrow> slot_info \<Rightarrow> byte list \<Rightarrow> rinfos \<Rightarrow> read_end \<times> byte list \<times> rinfos" where
  "state_read_data st strm n si rest q =
     (let sz = cells_size (kv_v_cells (ks_cache st) ! strm) in
      read_try (read_u32 rest) rest q (\<lambda>v_trans rest.
      read_try (read_u32 rest) rest q (\<lambda>n_layer rest.
        if n_layer \<noteq> int (length (ks_layers st)) then (RFalse, rest, q)
        else if n > sz then (RFalse, rest, q)
        else if ks_v_trans st \<noteq> (v_trans \<noteq> 0) then (RFalse, rest, q)
        else
          (case read_layers (read_k si n strm) 0 (ks_layers st) rest q of
             (RTrue, rest', q') \<Rightarrow>
               if \<not> ks_v_trans st then read_layers (read_v si n strm) 0 (ks_layers st) rest' q'
               else read_layers (read_v_trans sz si n strm) 0 (ks_layers st) rest' q'
           | r \<Rightarrow> r))))"

subsection \<open>Reading the cells\<close>

text \<open>The loop that reads the cells of a single sequence: positions and extensions.\<close>

fun read_cells :: "nat \<Rightarrow> nat \<Rightarrow> byte list \<Rightarrow> (llama_pos \<times> cell_ext) list
     \<Rightarrow> read_end \<times> byte list \<times> (llama_pos \<times> cell_ext) list" where
  "read_cells n_pos 0 rest acc = (RTrue, rest, acc)"
| "read_cells n_pos (Suc n) rest acc =
     (case do { (pos, r) \<leftarrow> read_i32 rest; (m, r) \<leftarrow> read_u32 r; Some (pos, m, r) } of
        None \<Rightarrow> (RThrow, rest, acc)
      | Some (pos, n_seq_id, r) \<Rightarrow>
          if n_seq_id \<noteq> 1 then (RFalse, r, acc)
          else
            (case do { (ext, r) \<leftarrow> read_ext n_pos r; (q, r) \<leftarrow> read_i32 r; Some (ext, r) } of
               None \<Rightarrow> (RThrow, rest, acc)
             | Some (ext, r) \<Rightarrow> read_cells n_pos n r (acc @ [(pos, ext)])))"

text \<open>
  The batch it is put into; \<open>n_pos_per_embd\<close> is 1, or 4 for models with several positions per
  token, of which the second and third are the extension.
\<close>

definition restore_ubatch :: "nat \<Rightarrow> int \<Rightarrow> (llama_pos \<times> cell_ext) list \<Rightarrow> ubatch" where
  "restore_ubatch n_pos dest cells =
     \<lparr>ub_n_tokens = length cells, ub_n_seqs_unq = 1, ub_seq_id_unq = [dest],
      ub_seq_id = replicate (length cells) [dest],
      ub_pos = map fst cells @
        (if n_pos > 1 then map (ext_y \<circ> snd) cells @ map (ext_x \<circ> snd) cells @ replicate ((n_pos - 3) * length cells) 0
         else []),
      ub_is_pos_2d = (n_pos \<ge> 3)\<rparr>"

definition check_restored :: "slot_info \<Rightarrow> ubatch \<Rightarrow> int \<Rightarrow> kv_cells \<Rightarrow> unit option" where
  "check_restored si ub dest cells = do {
     require (length (si_strm si) = 1);
     require (length (si_idxs si ! 0) = ub_n_tokens ub);
     foldM (\<lambda>i _. do {
         p \<leftarrow> pos_get cells (si_idxs si ! 0 ! i);
         require (p = ub_pos ub ! i);
         has \<leftarrow> seq_has cells (si_idxs si ! 0 ! i) (nat dest);
         require has }) [0..<ub_n_tokens ub] () }"

definition read_meta_seq ::
  "nat \<Rightarrow> nat \<Rightarrow> int \<Rightarrow> byte list \<Rightarrow> kv_cache \<Rightarrow> (read_end \<times> byte list \<times> slot_info \<times> kv_cache) option" where
  "read_meta_seq strm cell_count dest rest k = do {
     (k1, _) \<leftarrow> kv_seq_rm dest (-1) (-1) k;
     (case read_cells (kv_n_pos_per_embd k) cell_count rest [] of
        (RTrue, r, cells) \<Rightarrow> do {
          let ub = restore_ubatch (kv_n_pos_per_embd k) dest cells;
          si \<leftarrow> kv_find_slot ub False k1;
          if si_idxs si = [] then Some (RFalse, r, si, k1)
          else do {
            k2 \<leftarrow> kv_apply_ubatch si ub k1;
            check_restored si ub dest (kv_v_cells k2 ! strm);
            Some (RTrue, r, si, k2) } }
      | (e, r, _) \<Rightarrow> Some (e, r, no_slot, k1)) }"

text \<open>The restore of a whole cache, cell by cell.\<close>

fun read_seq_ids ::
  "nat \<Rightarrow> nat \<Rightarrow> nat \<Rightarrow> byte list \<Rightarrow> kv_cells \<Rightarrow> (read_end \<times> byte list \<times> kv_cells) option" where
  "read_seq_ids n_seq_max i 0 rest c = Some (RTrue, rest, c)"
| "read_seq_ids n_seq_max i (Suc n) rest c =
     (case read_i32 rest of None \<Rightarrow> Some (RThrow, rest, c)
      | Some (q, r) \<Rightarrow>
          if q < 0 \<or> q \<ge> int n_seq_max then Some (RFalse, r, c)
          else do { c' \<leftarrow> cells_seq_add i (nat q) c; read_seq_ids n_seq_max i n r c' })"

fun read_all_cells ::
  "nat \<Rightarrow> nat \<Rightarrow> nat list \<Rightarrow> byte list \<Rightarrow> kv_cells \<Rightarrow> (read_end \<times> byte list \<times> kv_cells) option" where
  "read_all_cells n_seq_max n_pos [] rest c = Some (RTrue, rest, c)"
| "read_all_cells n_seq_max n_pos (i # is) rest c =
     (case do { (pos, r) \<leftarrow> read_i32 rest; (m, r) \<leftarrow> read_u32 r; Some (pos, m, r) } of
        None \<Rightarrow> Some (RThrow, rest, c)
      | Some (pos, n_seq_id, r) \<Rightarrow> do {
          c1 \<leftarrow> pos_set i pos c;
          (case read_ext n_pos r of
             None \<Rightarrow> Some (RThrow, r, c1)
           | Some (ext, r) \<Rightarrow> do {
               c2 \<leftarrow> (if n_pos > 1 then ext_set i ext c1 else Some c1);
               (e, r, c3) \<leftarrow> read_seq_ids n_seq_max i (nat n_seq_id) r c2;
               if e = RTrue then read_all_cells n_seq_max n_pos is r c3 else Some (e, r, c3) }) })"

text \<open>\<open>clear(true)\<close> zeroes the tensors too.\<close>

definition clear_data :: "kv_layer \<Rightarrow> kv_layer" where
  "clear_data ly = ly\<lparr>ly_k_stream := map (map (\<lambda>_. 0)) (ly_k_stream ly),
                      ly_v_stream := map_option (map (map (\<lambda>_. 0))) (ly_v_stream ly)\<rparr>"

definition clear_store :: "kv_store \<Rightarrow> kv_store" where
  "clear_store st = st\<lparr>ks_cache := kv_clear (ks_cache st), ks_layers := map clear_data (ks_layers st)\<rparr>"

definition read_meta_all ::
  "nat \<Rightarrow> nat \<Rightarrow> byte list \<Rightarrow> kv_store \<Rightarrow> (read_end \<times> byte list \<times> slot_info \<times> kv_store) option" where
  "read_meta_all strm cell_count rest st =
     (if cell_count > cells_size (kv_v_cells (ks_cache st) ! strm) then Some (RFalse, rest, no_slot, st)
      else do {
        let st1 = clear_store st;
        let k = ks_cache st1;
        (e, r, c) \<leftarrow> read_all_cells (ks_n_seq_max st) (kv_n_pos_per_embd k) [0..<cell_count] rest (kv_v_cells k ! strm);
        let k1 = k\<lparr>kv_v_cells := (kv_v_cells k)[strm := c]\<rparr>;
        if e \<noteq> RTrue then Some (e, r, no_slot, st1\<lparr>ks_cache := k1\<rparr>)
        else
          Some (RTrue, r, \<lparr>si_s0 = strm, si_s1 = strm, si_strm = [strm], si_idxs = [[0..<cell_count]]\<rparr>,
                st1\<lparr>ks_cache := k1\<lparr>kv_v_heads := (kv_v_heads k1)[strm := 0]\<rparr>\<rparr>) })"

definition state_read_meta ::
  "nat \<Rightarrow> nat \<Rightarrow> int \<Rightarrow> byte list \<Rightarrow> kv_store \<Rightarrow> (read_end \<times> byte list \<times> slot_info \<times> kv_store) option" where
  "state_read_meta strm cell_count dest rest st =
     (if dest \<noteq> -1
      then map_option (\<lambda>(e, r, si, k). (e, r, si, st\<lparr>ks_cache := k\<rparr>)) (read_meta_seq strm cell_count dest rest (ks_cache st))
      else read_meta_all strm cell_count rest st)"

subsection \<open>Restoring\<close>

text \<open>
  One stream of the saved state. An exception of \<open>state_read_meta\<close> leaves as it is; any other
  failure first empties what was restored. The flag says whether an exception left.
\<close>

definition read_stream ::
  "int \<Rightarrow> nat \<Rightarrow> byte list \<times> rinfos \<times> kv_store \<Rightarrow> (bool \<times> byte list \<times> rinfos \<times> kv_store) option" where
  "read_stream seq_id s = (\<lambda>(rest, q, st).
     (case read_u32 rest of None \<Rightarrow> Some (True, rest, q, st)
      | Some (cell_count, rest) \<Rightarrow>
          if cell_count = 0 then Some (False, rest, q, st)
          else do {
            let strm = (if seq_id = -1 then s else stream_of (ks_cache st) seq_id);
            (e, rest, si, st1) \<leftarrow> state_read_meta strm (nat cell_count) seq_id rest st;
            if e = RThrow then Some (True, rest, q, st1)
            else do {
              let (e2, rest, q) = (if e = RTrue then state_read_data st1 strm (nat cell_count) si rest q
                                   else (RFalse, rest, q));
              if e2 = RTrue then Some (False, rest, q, st1)
              else if seq_id = -1 then Some (True, rest, q, clear_store st1)
              else do {
                (k, _) \<leftarrow> kv_seq_rm seq_id (-1) (-1) (ks_cache st1);
                Some (True, rest, q, st1\<lparr>ks_cache := k\<rparr>) } } }))"

fun read_streams ::
  "int \<Rightarrow> nat list \<Rightarrow> byte list \<times> rinfos \<times> kv_store \<Rightarrow> (bool \<times> byte list \<times> rinfos \<times> kv_store) option" where
  "read_streams seq_id [] x = Some (False, x)"
| "read_streams seq_id (s # ss) x = do {
     (thrown, y) \<leftarrow> read_stream seq_id s x;
     if thrown then Some (True, y) else read_streams seq_id ss y }"

definition state_read :: "int \<Rightarrow> byte list \<Rightarrow> kv_store \<Rightarrow> (bool \<times> byte list \<times> rinfos \<times> kv_store) option" where
  "state_read seq_id rest st =
     (if kv_other (ks_cache st) \<noteq> None then Some (False, rest, [], st)
      else do {
        require (seq_id = -1 \<or> valid_seq (ks_cache st) seq_id);
        (case read_u32 rest of None \<Rightarrow> Some (True, rest, [], st)
         | Some (n, rest) \<Rightarrow>
             if n \<noteq> int (kv_n_stream (ks_cache st)) then Some (True, rest, [], st)
             else read_streams seq_id [0..<kv_n_stream (ks_cache st)] (rest, [], st)) })"

text \<open>The destructor of the reader stores what was queued.\<close>

definition flush_one :: "tensor_ref \<times> nat \<times> byte list \<Rightarrow> kv_layer list \<Rightarrow> kv_layer list option" where
  "flush_one = (\<lambda>(t, off, bs) lys.
     (case t of
        KTensor il s \<Rightarrow> do {
          let ly = lys ! il;
          x \<leftarrow> ggml_backend_tensor_set (ly_k_stream ly ! s) off bs;
          Some (lys[il := ly\<lparr>ly_k_stream := (ly_k_stream ly)[s := x]\<rparr>]) }
      | VTensor il s \<Rightarrow> do {
          let ly = lys ! il;
          vs \<leftarrow> ly_v_stream ly;
          x \<leftarrow> ggml_backend_tensor_set (vs ! s) off bs;
          Some (lys[il := ly\<lparr>ly_v_stream := Some (vs[s := x])\<rparr>]) }))"

definition flush :: "rinfos \<Rightarrow> kv_store \<Rightarrow> kv_store option" where
  "flush q st = do { lys \<leftarrow> foldM flush_one q (ks_layers st); Some (st\<lparr>ks_layers := lys\<rparr>) }"

definition state_seq_set_data :: "int \<Rightarrow> byte list \<Rightarrow> kv_store \<Rightarrow> (nat \<times> kv_store) option" where
  "state_seq_set_data seq_id src st =
     (case do { (magic, r) \<leftarrow> read_u32 src; require (magic = io_magic); (q, r) \<leftarrow> read_i32 r; Some r } of
        None \<Rightarrow> Some (0, st)
      | Some rest \<Rightarrow> do {
          (thrown, rest', q, st1) \<leftarrow> state_read seq_id rest st;
          st2 \<leftarrow> flush q st1;
          Some (if thrown then 0 else length src - length rest', st2) })"

end
