(* ===== verification/Kv_State_Write.thy ===== *)
theory Kv_State_Write
  imports Kv_State
begin

text \<open>
  What \<open>state_write\<close> stores. The invariant \<open>store_ok\<close> of a cache with its tensors, the bytes
  \<open>seq_bytes\<close> a saved sequence has, and the proof that the size query and the copy into a buffer
  of that size agree with them.
\<close>

subsection \<open>Integers\<close>

lemma length_le_bytes [simp]: "length (le_bytes n x) = n"
  by (induction n arbitrary: x) simp_all

lemma of_le_bytes: "of_le (le_bytes n x) = x mod 256 ^ n"
proof (induction n arbitrary: x)
  case (Suc n)
  have "x mod 256 ^ Suc n = x mod 256 + 256 * (x div 256 mod 256 ^ n)"
    using zmod_zmult2_eq [of "256 ^ n" x 256] by (simp add: mult.commute)
  moreover have "uint (word_of_int x :: byte) = x mod 256" by (simp add: uint_word_of_int)
  ultimately show ?case using Suc by simp
qed simp

lemma io_read_append [simp]: "length b = n \<Longrightarrow> io_read n (b @ r) = Some (b, r)"
  by (simp add: io_read_def)

lemma read_ints:
  shows read_u32_le: "0 \<le> x \<Longrightarrow> x \<le> UINT32_MAX \<Longrightarrow> read_u32 (le_bytes 4 x @ r) = Some (x, r)"
    and read_i32_le: "INT32_MIN \<le> x \<Longrightarrow> x \<le> INT32_MAX \<Longrightarrow> read_i32 (le_bytes 4 x @ r) = Some (x, r)"
    and read_u64_le: "0 \<le> x \<Longrightarrow> x < 2 ^ 64 \<Longrightarrow> read_u64 (le_bytes 8 x @ r) = Some (x, r)"
proof -
  show "0 \<le> x \<Longrightarrow> x \<le> UINT32_MAX \<Longrightarrow> read_u32 (le_bytes 4 x @ r) = Some (x, r)"
    by (simp add: read_u32_def of_le_bytes)
  show "0 \<le> x \<Longrightarrow> x < 2 ^ 64 \<Longrightarrow> read_u64 (le_bytes 8 x @ r) = Some (x, r)"
    by (simp add: read_u64_def of_le_bytes)
  assume x: "INT32_MIN \<le> x" "x \<le> INT32_MAX"
  have "signed32 (x mod 4294967296) = x"
  proof (cases "0 \<le> x")
    case True
    with x show ?thesis by (simp add: signed32_def)
  next
    case False
    then have "(x + 4294967296) mod 4294967296 = x + 4294967296" using x by (intro mod_pos_pos_trivial) simp_all
    then have "x mod 4294967296 = x + 4294967296" by (simp only: mod_add_self2)
    with False x show ?thesis by (simp add: signed32_def)
  qed
  then show "read_i32 (le_bytes 4 x @ r) = Some (x, r)" by (simp add: read_i32_def of_le_bytes)
qed

subsection \<open>Ranges\<close>

lemma range_cells_append: "range_cells (rs @ rs') = range_cells rs @ range_cells rs'"
  by (simp add: range_cells_def)

lemma range_cells_simps [simp]: "range_cells [] = []" "range_cells [(a, b)] = [a..<b]"
  by (simp_all add: range_cells_def)

lemma length_range_cells: "length (range_cells rs) = sum_list (map (\<lambda>(a, b). b - a) rs)"
  by (simp add: range_cells_def length_concat comp_def case_prod_unfold)

text \<open>The scan writes the cells it counts as ranges, in order.\<close>

lemma cell_ranges_ok:
  assumes add: "\<And>i. i < sz \<Longrightarrow> add i = Some (P i)"
  shows "\<exists>rs. cell_ranges add sz = Some (length (filter P [0..<sz]), rs) \<and> range_cells rs = filter P [0..<sz]
    \<and> (\<forall>(a, b) \<in> set rs. a \<le> b \<and> b \<le> sz)"
proof -
  let ?I = "\<lambda>i (cnt, beg, rs). cnt = length (filter P [0..<i]) \<and> (beg = sz \<or> beg < i)
      \<and> range_cells rs @ (if beg = sz then [] else [beg..<i]) = filter P [0..<i]
      \<and> (\<forall>(a, b) \<in> set rs. a \<le> b \<and> b \<le> sz)"
  have "\<exists>t. foldM (range_step add sz) [0..<sz] (0, sz, []) = Some t \<and> ?I sz t"
  proof (rule foldM_upt_rule [of ?I])
    fix i t assume i: "i < sz" and t: "?I i t"
    obtain cnt beg rs where [simp]: "t = (cnt, beg, rs)" by (cases t)
    have I: "cnt = length (filter P [0..<i])" "beg = sz \<or> beg < i"
      "range_cells rs @ (if beg = sz then [] else [beg..<i]) = filter P [0..<i]"
      "\<forall>(a, b) \<in> set rs. a \<le> b \<and> b \<le> sz" using t by auto
    show "\<exists>t'. range_step add sz i t = Some t' \<and> ?I (Suc i) t'"
    proof (cases "P i")
      case True
      have "range_cells rs @ (if (if beg = sz then i else beg) = sz then [] else [if beg = sz then i else beg..<Suc i])
          = filter P [0..<Suc i]"
        using True I(2) i by (auto simp: I(3) [symmetric])
      moreover have "beg \<noteq> sz \<longrightarrow> beg < Suc i" using I(2) by auto
      ultimately show ?thesis using True I(1,4) i by (intro exI [of _ "(cnt + 1, if beg = sz then i else beg, rs)"])
        (simp add: range_step_def add)
    next
      case False
      show ?thesis
      proof (cases "beg = sz")
        case True
        then show ?thesis using False I i by (intro exI [of _ t]) (simp add: range_step_def add)
      next
        case open_range: False
        have "\<forall>(a, b) \<in> set (rs @ [(beg, i)]). a \<le> b \<and> b \<le> sz" using I(2,4) open_range i by simp
        then show ?thesis using False I(1,3) i open_range
          by (intro exI [of _ "(cnt, sz, rs @ [(beg, i)])"]) (simp add: range_step_def add range_cells_append)
      qed
    qed
  qed simp
  then obtain t where t: "foldM (range_step add sz) [0..<sz] (0, sz, []) = Some t" "?I sz t" by blast
  obtain cnt beg rs where eq: "t = (cnt, beg, rs)" by (cases t)
  note f = t(1) [unfolded eq] and I = t(2) [unfolded eq prod.case]
  let ?rs = "if beg \<noteq> sz then rs @ [(beg, sz)] else rs"
  have rs: "range_cells ?rs = filter P [0..<sz]" "\<forall>(a, b) \<in> set ?rs. a \<le> b \<and> b \<le> sz"
    using I by (auto simp: range_cells_append)
  have "cnt = sum_list (map (\<lambda>(a, b). b - a) ?rs)" using I rs(1) length_range_cells [of ?rs] by simp
  then show ?thesis using f rs I by (intro exI [of _ ?rs]) (simp add: cell_ranges_def Let_def)
qed

subsection \<open>Rows of a tensor\<close>

definition row_at :: "nat \<Rightarrow> 'a list \<Rightarrow> nat \<Rightarrow> 'a list" where
  "row_at row t i = take row (drop (i * row) t)"

lemma length_row_at: "(i + 1) * row \<le> length t \<Longrightarrow> length (row_at row t i) = row"
  by (simp add: row_at_def)

lemma row_ats_range: "a \<le> b \<Longrightarrow> take ((b - a) * row) (drop (a * row) t) = concat (map (row_at row t) [a..<b])"
proof (induction b)
  case (Suc b)
  show ?case
  proof (cases "a \<le> b")
    case True
    then have "Suc b - a = Suc (b - a)" by simp
    then have "(Suc b - a) * row = (b - a) * row + row" by simp
    then have "take ((Suc b - a) * row) (drop (a * row) t) = take ((b - a) * row) (drop (a * row) t) @
        take row (drop ((b - a) * row + a * row) t)" by (simp add: take_add)
    moreover have "(b - a) * row + a * row = b * row" using True by (simp flip: add_mult_distrib)
    ultimately show ?thesis using Suc True by (simp add: row_at_def)
  next
    case False
    with Suc.prems have "a = Suc b" by simp
    then show ?thesis by simp
  qed
qed simp

lemma those_map_ok: "(\<And>x. x \<in> set xs \<Longrightarrow> f x = Some (g x)) \<Longrightarrow> those (map f xs) = Some (map g xs)"
  by (induction xs) auto

lemma those_map_ex:
  assumes "\<And>x. x \<in> set xs \<Longrightarrow> \<exists>y. f x = Some y \<and> h y = g x"
  shows "\<exists>ys. those (map f xs) = Some ys \<and> map h ys = map g xs"
  using assms
proof (induction xs)
  case (Cons x xs)
  from Cons.prems [of x] obtain y where "f x = Some y" "h y = g x" by auto
  moreover from Cons obtain ys where "those (map f xs) = Some ys" "map h ys = map g xs" by auto
  ultimately show ?case by (intro exI [of _ "y # ys"]) simp
qed simp

lemma concat_map_concat: "concat (concat xss) = concat (map concat xss)"
  by (induction xss) simp_all

lemma write_rows_ok:
  assumes rs: "\<forall>(a, b) \<in> set rs. a \<le> b \<and> (b + base) * row \<le> length t"
  shows "\<exists>cs. write_rows t row base rs = Some cs \<and>
    concat cs = concat (map (\<lambda>i. row_at row t (i + base)) (range_cells rs))"
proof -
  have get: "ggml_backend_tensor_get t ((a + base) * row) ((b - a) * row) =
      Some (concat (map (\<lambda>i. row_at row t (i + base)) [a..<b]))" if "(a, b) \<in> set rs" for a b
  proof -
    have ab: "a \<le> b" "(b + base) * row \<le> length t" using rs that by auto
    have "(a + base) * row + (b - a) * row = (b + base) * row" using ab(1) by (simp flip: add_mult_distrib)
    moreover have "[a + base..<b + base] = map (\<lambda>i. i + base) [a..<b]" by (rule nth_equalityI) simp_all
    then have "take ((b - a) * row) (drop ((a + base) * row) t) = concat (map (\<lambda>i. row_at row t (i + base)) [a..<b])"
      using row_ats_range [of "a + base" "b + base" row t] ab(1) by (simp add: comp_def)
    ultimately show ?thesis using ab(2) by (auto simp: ggml_backend_tensor_get_def)
  qed
  then have "write_rows t row base rs =
      Some (map (\<lambda>(a, b). concat (map (\<lambda>i. row_at row t (i + base)) [a..<b])) rs)"
    unfolding write_rows_def by (intro those_map_ok) auto
  moreover have "concat (map (\<lambda>(a, b). concat (map (\<lambda>i. row_at row t (i + base)) [a..<b])) rs) =
      concat (map (\<lambda>i. row_at row t (i + base)) (range_cells rs))"
    by (induction rs) (auto simp: range_cells_def)
  ultimately show ?thesis by blast
qed

subsection \<open>Well-formed stores\<close>

text \<open>Every tensor has room for the cells of its stream.\<close>

definition v_len :: "kv_store \<Rightarrow> kv_layer \<Rightarrow> nat" where
  "v_len st ly = (if ks_v_trans st then ly_n_embd_v ly * tt_type_size (ly_v_type ly) else v_size_row ly)"

definition tensors_ok :: "kv_store \<Rightarrow> bool" where
  "tensors_ok st \<longleftrightarrow>
     (\<forall>ly \<in> set (ks_layers st).
        length (ly_k_stream ly) = kv_n_stream (ks_cache st)
        \<and> (\<forall>t \<in> set (ly_k_stream ly). length t = kv_get_size (ks_cache st) * k_size_row ly)
        \<and> (\<forall>vs. ly_v_stream ly = Some vs \<longrightarrow> length vs = kv_n_stream (ks_cache st)
              \<and> (\<forall>t \<in> set vs. length t = kv_get_size (ks_cache st) * v_len st ly)))"

text \<open>Every number that is written fits its field.\<close>

definition fits :: "kv_store \<Rightarrow> bool" where
  "fits st \<longleftrightarrow>
     int (kv_n_stream (ks_cache st)) \<le> UINT32_MAX \<and> int (kv_get_size (ks_cache st)) \<le> UINT32_MAX
     \<and> int (length (ks_layers st)) \<le> UINT32_MAX
     \<and> (\<forall>ly \<in> set (ks_layers st).
          INT32_MIN \<le> tt_id (ly_k_type ly) \<and> tt_id (ly_k_type ly) \<le> INT32_MAX \<and> int (k_size_row ly) < 2 ^ 64
          \<and> INT32_MIN \<le> tt_id (ly_v_type ly) \<and> tt_id (ly_v_type ly) \<le> INT32_MAX \<and> int (v_size_row ly) < 2 ^ 64
          \<and> int (tt_type_size (ly_v_type ly)) \<le> UINT32_MAX \<and> int (ly_n_embd_v ly) \<le> UINT32_MAX)
     \<and> (\<forall>st' < kv_n_stream (ks_cache st). \<forall>x \<in> set (cells_of (ks_cache st) st').
          INT32_MIN \<le> ext_x (cell_ext x) \<and> ext_x (cell_ext x) \<le> INT32_MAX
          \<and> INT32_MIN \<le> ext_y (cell_ext x) \<and> ext_y (cell_ext x) \<le> INT32_MAX)"

definition store_ok :: "kv_store \<Rightarrow> bool" where
  "store_ok st \<longleftrightarrow> kv_inv (ks_cache st) \<and> tensors_ok st \<and> fits st"

lemma store_okD:
  assumes "store_ok st"
  shows "kv_inv (ks_cache st)" "kv_ok (ks_cache st)" "tensors_ok st" "fits st"
  using assms by (simp_all add: store_ok_def kv_inv_def)

subsection \<open>What is written\<close>

definition k_bytes :: "nat \<Rightarrow> nat list \<Rightarrow> kv_layer \<Rightarrow> byte list" where
  "k_bytes strm I ly =
     le_bytes 4 (tt_id (ly_k_type ly)) @ le_bytes 8 (int (k_size_row ly))
       @ concat (map (row_at (k_size_row ly) (ly_k_stream ly ! strm)) I)"

definition v_bytes :: "nat \<Rightarrow> nat list \<Rightarrow> kv_layer \<Rightarrow> byte list" where
  "v_bytes strm I ly =
     (case ly_v_stream ly of None \<Rightarrow> []
      | Some vs \<Rightarrow> le_bytes 4 (tt_id (ly_v_type ly)) @ le_bytes 8 (int (v_size_row ly))
          @ concat (map (row_at (v_size_row ly) (vs ! strm)) I))"

definition vt_bytes :: "nat \<Rightarrow> nat \<Rightarrow> nat list \<Rightarrow> kv_layer \<Rightarrow> byte list" where
  "vt_bytes sz strm I ly =
     (case ly_v_stream ly of None \<Rightarrow> []
      | Some vs \<Rightarrow> le_bytes 4 (tt_id (ly_v_type ly)) @ le_bytes 4 (int (tt_type_size (ly_v_type ly)))
          @ le_bytes 4 (int (ly_n_embd_v ly))
          @ concat (map (\<lambda>j. concat (map (\<lambda>i. row_at (tt_type_size (ly_v_type ly)) (vs ! strm) (i + j * sz)) I))
              [0..<ly_n_embd_v ly]))"

definition data_bytes :: "kv_store \<Rightarrow> nat \<Rightarrow> nat list \<Rightarrow> byte list" where
  "data_bytes st strm I =
     le_bytes 4 (if ks_v_trans st then 1 else 0) @ le_bytes 4 (int (length (ks_layers st)))
       @ concat (map (k_bytes strm I) (ks_layers st))
       @ concat (map (if ks_v_trans st then vt_bytes (kv_get_size (ks_cache st)) strm I else v_bytes strm I) (ks_layers st))"

lemma tensors_okD:
  assumes "tensors_ok st" "ly \<in> set (ks_layers st)" "strm < kv_n_stream (ks_cache st)"
  shows "length (ly_k_stream ly ! strm) = kv_get_size (ks_cache st) * k_size_row ly"
    and "ly_v_stream ly = Some vs \<Longrightarrow> length (vs ! strm) = kv_get_size (ks_cache st) * v_len st ly"
    and "strm < length (ly_k_stream ly)" and "ly_v_stream ly = Some vs \<Longrightarrow> strm < length vs"
  using assms by (auto simp: tensors_ok_def)

lemma state_write_data_ok:
  assumes ok: "tensors_ok st" "kv_ok (ks_cache st)" and strm: "strm < kv_n_stream (ks_cache st)"
    and rs: "\<forall>(a, b) \<in> set rs. a \<le> b \<and> b \<le> kv_get_size (ks_cache st)"
  shows "\<exists>cs. state_write_data st strm rs = Some cs \<and> concat cs = data_bytes st strm (range_cells rs)"
proof -
  let ?I = "range_cells rs" and ?n = "kv_get_size (ks_cache st)"
  note t = tensors_okD [OF ok(1) _ strm]
  have rows: "\<forall>(a, b) \<in> set rs. a \<le> b \<and> (b + base) * row \<le> len" if "(?n + base) * row \<le> len" for base row len
  proof -
    have "(b + base) * row \<le> len" if "b \<le> ?n" for b
      using that by (intro le_trans [OF mult_le_mono1 \<open>(?n + base) * row \<le> len\<close>]) simp
    then show ?thesis using rs by auto
  qed
  have k: "\<exists>y. write_k strm rs ly = Some y \<and> concat y = k_bytes strm ?I ly" if "ly \<in> set (ks_layers st)" for ly
    using write_rows_ok [OF rows [of 0 "k_size_row ly" "length (ly_k_stream ly ! strm)"]] t(1) [OF that]
    by (auto simp: write_k_def k_bytes_def)
  have v: "\<exists>y. write_v strm rs ly = Some y \<and> concat y = v_bytes strm ?I ly"
    if "ly \<in> set (ks_layers st)" "\<not> ks_v_trans st" for ly
  proof (cases "ly_v_stream ly")
    case (Some vs)
    then show ?thesis
      using write_rows_ok [OF rows [of 0 "v_size_row ly" "length (vs ! strm)"]] t(2) [OF that(1) Some] that(2)
      by (auto simp: write_v_def v_bytes_def v_len_def)
  qed (simp add: write_v_def v_bytes_def)
  have vt: "\<exists>y. write_v_trans ?n strm rs ly = Some y \<and> concat y = vt_bytes ?n strm ?I ly"
    if ly: "ly \<in> set (ks_layers st)" "ks_v_trans st" for ly
  proof (cases "ly_v_stream ly")
    case (Some vs)
    let ?el = "tt_type_size (ly_v_type ly)"
    have w: "\<exists>y. write_rows (vs ! strm) ?el (j * ?n) rs = Some y \<and>
        concat y = concat (map (\<lambda>i. row_at ?el (vs ! strm) (i + j * ?n)) ?I)" if "j \<in> set [0..<ly_n_embd_v ly]" for j
    proof (intro write_rows_ok rows)
      have "Suc j * ?n * ?el \<le> ly_n_embd_v ly * ?n * ?el" using that by (intro mult_le_mono1) simp
      then show "(?n + j * ?n) * ?el \<le> length (vs ! strm)"
        using t(2) [OF ly(1) Some] ly(2) by (simp add: v_len_def ac_simps)
    qed
    have "\<exists>ys. those (map (\<lambda>j. write_rows (vs ! strm) ?el (j * ?n) rs) [0..<ly_n_embd_v ly]) = Some ys
        \<and> map concat ys = map (\<lambda>j. concat (map (\<lambda>i. row_at ?el (vs ! strm) (i + j * ?n)) ?I)) [0..<ly_n_embd_v ly]"
      by (rule those_map_ex, rule w)
    then show ?thesis using Some by (auto simp: write_v_trans_def vt_bytes_def Let_def concat_map_concat)
  qed (simp add: write_v_trans_def vt_bytes_def)
  have "\<exists>ks. those (map (write_k strm rs) (ks_layers st)) = Some ks \<and> map concat ks = map (k_bytes strm ?I) (ks_layers st)"
    by (rule those_map_ex, rule k)
  then obtain ks where
    ks: "those (map (write_k strm rs) (ks_layers st)) = Some ks" "map concat ks = map (k_bytes strm ?I) (ks_layers st)" by blast
  have sz: "cells_size (kv_v_cells (ks_cache st) ! strm) = ?n" using kv_cells(2) [OF ok(2) strm] .
  show ?thesis
  proof (cases "ks_v_trans st")
    case True
    have "\<exists>vs. those (map (write_v_trans ?n strm rs) (ks_layers st)) = Some vs
        \<and> map concat vs = map (vt_bytes ?n strm ?I) (ks_layers st)" by (rule those_map_ex, rule vt [OF _ True])
    with True ks sz show ?thesis by (auto simp add: state_write_data_def data_bytes_def concat_map_concat)
  next
    case False
    have "\<exists>vs. those (map (write_v strm rs) (ks_layers st)) = Some vs
        \<and> map concat vs = map (v_bytes strm ?I) (ks_layers st)" by (rule those_map_ex, rule v [OF _ False])
    with False ks sz show ?thesis by (auto simp add: state_write_data_def data_bytes_def concat_map_concat)
  qed
qed

text \<open>The cells of a sequence in its stream, and what is written of one.\<close>

definition seq_idxs :: "kv_cache \<Rightarrow> int \<Rightarrow> nat list" where
  "seq_idxs k s = filter (\<lambda>i. nat s \<in> cell_seq (cells_of k (stream_of k s) ! i)) [0..<kv_get_size k]"

definition cell_bytes :: "nat \<Rightarrow> int \<Rightarrow> kv_cell \<Rightarrow> byte list" where
  "cell_bytes n_pos s x =
     le_bytes 4 (cell_pos x) @ le_bytes 4 1
       @ (if n_pos > 1 then le_bytes 4 (ext_x (cell_ext x)) @ le_bytes 4 (ext_y (cell_ext x)) else []) @ le_bytes 4 s"

lemma seq_ids_of_one:
  assumes "i < cells_size c" "0 \<le> s"
  shows "foldM (\<lambda>cur ids. if int cur = s \<or> s = -1
         then do { has \<leftarrow> seq_has c i cur; Some (if has then ids @ [cur] else ids) } else Some ids) [0..<n] []
      = Some (if nat s < n \<and> nat s \<in> kc_seq c ! i then [nat s] else [])"
  using assms by (induction n) (auto simp: foldM_append seq_has_eq)

lemma write_cell_ok:
  assumes "i < cells_size c" "kc_pos c ! i \<noteq> -1" "nat s \<in> kc_seq c ! i" "0 \<le> s" "s < int (ks_n_seq_max st)"
  shows "\<exists>cs. write_cell st c s i = Some cs \<and> concat cs = cell_bytes (kv_n_pos_per_embd (ks_cache st)) s (cell_at c i)"
proof -
  have "nat s < ks_n_seq_max st" using assms by simp
  then show ?thesis using assms unfolding write_cell_def seq_ids_of_one [OF assms(1,4)]
    by (simp add: cell_bytes_def pos_get_def ext_get_def)
qed

text \<open>Without a window, the cells written are those of the sequence.\<close>

lemma add_cell_ok:
  assumes "kv_swa_type k = LLAMA_SWA_TYPE_NONE" "cells_ok c" "i < cells_size c" "0 \<le> s"
  shows "add_cell k c s i = Some (nat s \<in> kc_seq c ! i)"
proof (cases "kc_pos c ! i = -1")
  case True
  then show ?thesis using assms ok_empty_seq [OF assms(2,3)] by (simp add: add_cell_def is_empty_def)
next
  case False
  then have pos: "0 \<le> kc_pos c ! i" using ok_pos [OF assms(2,3)] by simp
  have "0 \<le> cells_seq_pos_max c (nat s)" if "nat s \<in> kc_seq c ! i"
    using max_ge_cell [OF assms(2,3) that] pos by simp
  then show ?thesis using assms False pos
    by (auto simp: add_cell_def is_empty_def seq_has_eq pos_get_def is_masked_swa_def)
qed

definition seq_local :: "kv_cache \<Rightarrow> int \<Rightarrow> bool" where
  "seq_local k s \<longleftrightarrow>
     (\<forall>st < kv_n_stream k. st \<noteq> stream_of k s \<longrightarrow> (\<forall>x \<in> set (cells_of k st). nat s \<notin> cell_seq x))"

text \<open>The bytes of one sequence.\<close>

definition seq_stream_bytes :: "kv_store \<Rightarrow> int \<Rightarrow> byte list" where
  "seq_stream_bytes st s =
     (let k = ks_cache st; strm = stream_of k s; I = seq_idxs k s in
      le_bytes 4 (int (length I)) @
      (if I = [] then []
       else concat (map (\<lambda>i. cell_bytes (kv_n_pos_per_embd k) s (cells_of k strm ! i)) I) @ data_bytes st strm I))"

definition seq_bytes :: "kv_store \<Rightarrow> int \<Rightarrow> byte list" where
  "seq_bytes st s =
     le_bytes 4 io_magic @ le_bytes 4 s @ le_bytes 4 (int (kv_n_stream (ks_cache st)))
       @ concat (map (\<lambda>j. if j = stream_of (ks_cache st) s then seq_stream_bytes st s else le_bytes 4 0)
           [0..<kv_n_stream (ks_cache st)])"

lemma write_stream_ok:
  assumes st: "store_ok st" and s: "valid_seq (ks_cache st) s" "s < int (ks_n_seq_max st)"
    and swa: "kv_swa_type (ks_cache st) = LLAMA_SWA_TYPE_NONE" and loc: "seq_local (ks_cache st) s"
    and j: "j < kv_n_stream (ks_cache st)"
  shows "\<exists>cs. write_stream st s j = Some cs \<and>
    concat cs = (if j = stream_of (ks_cache st) s then seq_stream_bytes st s else le_bytes 4 0)"
proof -
  let ?k = "ks_cache st"
  let ?c = "kv_v_cells ?k ! j"
  let ?P = "\<lambda>i. nat s \<in> kc_seq ?c ! i"
  note ok = store_okD [OF st]
  have c: "cells_ok ?c" "cells_size ?c = kv_get_size ?k" using kv_cells [OF ok(2) j] by simp_all
  have s0: "0 \<le> s" using s(1) by (simp add: valid_seq_def)
  from cell_ranges_ok [of "cells_size ?c" _ ?P, OF add_cell_ok [OF swa c(1) _ s0]] obtain rs where
    rs: "cell_ranges (add_cell ?k ?c s) (cells_size ?c) = Some (length (filter ?P [0..<cells_size ?c]), rs)"
      "range_cells rs = filter ?P [0..<cells_size ?c]" "\<forall>(a, b) \<in> set rs. a \<le> b \<and> b \<le> kv_get_size ?k"
    using c(2) by auto
  show ?thesis
  proof (cases "j = stream_of ?k s")
    case False
    have "filter ?P [0..<cells_size ?c] = []"
      using loc False j by (auto simp: filter_empty_conv seq_local_def cells_of_def cells_abs_def)
    with False rs(1) show ?thesis by (simp add: write_stream_def)
  next
    case True
    have I: "filter ?P [0..<cells_size ?c] = seq_idxs ?k s"
      unfolding seq_idxs_def cells_of_def True [symmetric] using c(2) by (intro filter_cong) simp_all
    have w: "\<exists>y. write_cell st ?c s i = Some y \<and> concat y = cell_bytes (kv_n_pos_per_embd ?k) s (cells_of ?k j ! i)"
      if "i \<in> set (seq_idxs ?k s)" for i
    proof -
      have i: "i < cells_size ?c" "nat s \<in> kc_seq ?c ! i"
        using that by (auto simp: I [symmetric])
      then have "kc_pos ?c ! i \<noteq> -1" using ok_empty_seq [OF c(1) i(1)] by auto
      with write_cell_ok [OF i(1) _ i(2) s0 s(2)] i(1) show ?thesis by (simp add: cells_of_def)
    qed
    have "\<exists>ys. those (map (write_cell st ?c s) (seq_idxs ?k s)) = Some ys \<and>
        map concat ys = map (\<lambda>i. cell_bytes (kv_n_pos_per_embd ?k) s (cells_of ?k j ! i)) (seq_idxs ?k s)"
      by (rule those_map_ex, rule w)
    then obtain ys where
      ys: "those (map (write_cell st ?c s) (seq_idxs ?k s)) = Some ys"
        "map concat ys = map (\<lambda>i. cell_bytes (kv_n_pos_per_embd ?k) s (cells_of ?k j ! i)) (seq_idxs ?k s)" by blast
    from state_write_data_ok [OF ok(3,2) j rs(3)] obtain cs where
      cs: "state_write_data st j rs = Some cs" "concat cs = data_bytes st j (seq_idxs ?k s)" using rs(2) I by auto
    show ?thesis
      using rs(1,2) I ys cs True
      by (simp add: write_stream_def state_write_meta_def seq_stream_bytes_def Let_def concat_map_concat)
  qed
qed

lemma host_write_fits: "sum_list (map length cs) \<le> n \<Longrightarrow> host_write n cs = (concat cs, True)"
  by (induction cs arbitrary: n) auto

lemma state_seq_get_ok:
  assumes st: "store_ok st" and s: "valid_seq (ks_cache st) s" "s < int (ks_n_seq_max st)"
    and swa: "kv_swa_type (ks_cache st) = LLAMA_SWA_TYPE_NONE" and loc: "seq_local (ks_cache st) s"
  shows "state_seq_get_size s st = Some (length (seq_bytes st s))"
    and "state_seq_get_data s (length (seq_bytes st s)) st = Some (length (seq_bytes st s), seq_bytes st s)"
proof -
  have w: "\<exists>y. write_stream st s j = Some y \<and> concat y =
      (if j = stream_of (ks_cache st) s then seq_stream_bytes st s else le_bytes 4 0)"
    if "j \<in> set [0..<kv_n_stream (ks_cache st)]" for j using write_stream_ok [OF assms, of j] that by simp
  have "\<exists>ys. those (map (write_stream st s) [0..<kv_n_stream (ks_cache st)]) = Some ys \<and>
      map concat ys = map (\<lambda>j. if j = stream_of (ks_cache st) s then seq_stream_bytes st s else le_bytes 4 0)
         [0..<kv_n_stream (ks_cache st)]" by (rule those_map_ex, rule w)
  then obtain ys where
    ys: "those (map (write_stream st s) [0..<kv_n_stream (ks_cache st)]) = Some ys"
      "map concat ys = map (\<lambda>j. if j = stream_of (ks_cache st) s then seq_stream_bytes st s else le_bytes 4 0)
         [0..<kv_n_stream (ks_cache st)]" by blast
  then have "\<exists>cs. state_seq_chunks s st = Some cs \<and> concat cs = seq_bytes st s"
    using kv_no_other [OF store_okD(2) [OF st]]
    by (simp add: state_seq_chunks_def state_write_def seq_bytes_def concat_map_concat)
  then obtain cs where cs: "state_seq_chunks s st = Some cs" "concat cs = seq_bytes st s" by blast
  have len: "sum_list (map length cs) = length (seq_bytes st s)" by (simp add: length_concat flip: cs(2))
  show "state_seq_get_size s st = Some (length (seq_bytes st s))" by (simp add: state_seq_get_size_def cs(1) len)
  show "state_seq_get_data s (length (seq_bytes st s)) st = Some (length (seq_bytes st s), seq_bytes st s)"
    using host_write_fits [of cs "length (seq_bytes st s)"] cs len by (simp add: state_seq_get_data_def)
qed

end
