(* ===== verification/Kv_State_Data.thy ===== *)
theory Kv_State_Data
  imports Kv_State_Write
begin

text \<open>
  Reading the tensor data back: the queue \<open>state_read_data\<close> builds from the saved bytes, in one
  block for contiguous cells and row by row otherwise, and the effect of storing it. The key and
  value rows of the chosen cells become those of the saved cells (\<open>moved\<close>); no other byte changes.
\<close>

subsection \<open>Storing rows\<close>

definition put_at :: "'a list \<Rightarrow> nat \<Rightarrow> 'a list \<Rightarrow> 'a list" where
  "put_at t off bs = take off t @ bs @ drop (off + length bs) t"

lemma length_put_at [simp]: "off + length bs \<le> length t \<Longrightarrow> length (put_at t off bs) = length t"
  by (simp add: put_at_def)

lemma nth_put_at:
  "off + length bs \<le> length t \<Longrightarrow> i < length t \<Longrightarrow>
     put_at t off bs ! i = (if off \<le> i \<and> i < off + length bs then bs ! (i - off) else t ! i)"
  by (auto simp: put_at_def nth_append)

lemma tensor_set_put_at:
  "off + length bs \<le> length t \<Longrightarrow> ggml_backend_tensor_set t off bs = Some (put_at t off bs)"
  by (simp add: ggml_backend_tensor_set_def put_at_def)

lemma put_at_append:
  assumes "off + length (a @ b) \<le> length t"
  shows "put_at t off (a @ b) = put_at (put_at t off a) (off + length a) b"
proof -
  have "off + length a \<le> length t" using assms by simp
  then show ?thesis using assms by (intro nth_equalityI) (auto simp: nth_put_at nth_append)
qed

lemma row_bound:
  fixes i j y row :: nat
  assumes "i \<noteq> j" "y < row"
  shows "\<not> (i * row \<le> j * row + y \<and> j * row + y < i * row + row)"
proof (cases "j < i")
  case True
  then have "Suc j * row \<le> i * row" by (intro mult_le_mono1) simp
  with assms(2) show ?thesis by simp
next
  case False
  with assms(1) have "Suc i * row \<le> j * row" by (intro mult_le_mono1) simp
  then show ?thesis by simp
qed

lemma row_at_put:
  assumes i: "(i + 1) * row \<le> length t" and r: "length r = row" and j: "(j + 1) * row \<le> length t"
  shows "row_at row (put_at t (i * row) r) j = (if j = i then r else row_at row t j)"
proof (rule nth_equalityI)
  have len: "length (put_at t (i * row) r) = length t" using i r by simp
  show "length (row_at row (put_at t (i * row) r) j) = length (if j = i then r else row_at row t j)"
    using length_row_at [OF j] length_row_at [of j row "put_at t (i * row) r"] len j r by simp
  fix y assume "y < length (row_at row (put_at t (i * row) r) j)"
  then have y: "y < row" by (simp add: row_at_def)
  have idx: "j * row + y < length t" using y j by simp
  have at: "row_at row u j ! y = u ! (j * row + y)" if "length u = length t" for u :: "'a list"
    using y that idx by (simp add: row_at_def)
  show "row_at row (put_at t (i * row) r) j ! y = (if j = i then r else row_at row t j) ! y"
    using row_bound [of i j y row] y i r idx by (auto simp: at [OF len] at nth_put_at)
qed

definition put_rows :: "nat \<Rightarrow> (nat \<times> 'a list) list \<Rightarrow> 'a list \<Rightarrow> 'a list" where
  "put_rows row ps t = foldl (\<lambda>t (i, r). put_at t (i * row) r) t ps"

lemma put_rows_simps [simp]:
  "put_rows row [] t = t"
  "put_rows row ((i, r) # ps) t = put_rows row ps (put_at t (i * row) r)"
  "put_rows row (ps @ qs) t = put_rows row qs (put_rows row ps t)"
  by (simp_all add: put_rows_def)

lemma put_rows_at:
  assumes "\<forall>(i, r) \<in> set ps. length r = row \<and> (i + 1) * row \<le> length t" "distinct (map fst ps)"
  shows "length (put_rows row ps t) = length t \<and> (\<forall>j. (j + 1) * row \<le> length t \<longrightarrow>
      row_at row (put_rows row ps t) j = (case map_of ps j of None \<Rightarrow> row_at row t j | Some r \<Rightarrow> r))"
  using assms
proof (induction ps arbitrary: t)
  case (Cons p ps)
  obtain i r where p: "p = (i, r)" by fastforce
  have r: "length r = row" "(i + 1) * row \<le> length t" using Cons.prems by (auto simp: p)
  then have len: "length (put_at t (i * row) r) = length t" by simp
  have none: "map_of ps i = None" using Cons.prems(2) by (simp add: p map_of_eq_None_iff)
  have ih: "length (put_rows row ps (put_at t (i * row) r)) = length t \<and> (\<forall>j. (j + 1) * row \<le> length t \<longrightarrow>
      row_at row (put_rows row ps (put_at t (i * row) r)) j =
        (case map_of ps j of None \<Rightarrow> row_at row (put_at t (i * row) r) j | Some r \<Rightarrow> r))"
    using Cons.IH [of "put_at t (i * row) r"] Cons.prems unfolding len by (auto simp: p)
  show ?case
  proof (intro conjI allI impI)
    show "length (put_rows row (p # ps) t) = length t" using ih by (simp add: p)
    fix j assume j: "(j + 1) * row \<le> length t"
    show "row_at row (put_rows row (p # ps) t) j = (case map_of (p # ps) j of None \<Rightarrow> row_at row t j | Some r \<Rightarrow> r)"
      using ih j none row_at_put [OF r(2,1) j] by (auto simp: p split: option.splits)
  qed
qed simp

text \<open>A block of contiguous rows is stored like its rows.\<close>

lemma put_block:
  assumes "\<forall>r \<in> set rows. length r = row" "(h + length rows) * row \<le> length t"
  shows "put_at t (h * row) (concat rows) = put_rows row (zip [h..<h + length rows] rows) t"
  using assms
proof (induction rows arbitrary: h t)
  case Nil
  then show ?case by (simp add: put_at_def)
next
  case (Cons r rows)
  have lr: "length r = row" "length (concat rows) = length rows * row"
    using Cons.prems(1) by (simp, induction rows) (auto simp: algebra_simps)
  have b: "h * row + length (r @ concat rows) \<le> length t" using Cons.prems(2) lr by (simp add: algebra_simps)
  have "put_at t (h * row) (concat (r # rows)) = put_at (put_at t (h * row) r) (Suc h * row) (concat rows)"
    using put_at_append [OF b] lr(1) by (simp add: add.commute)
  also have "\<dots> = put_rows row (zip [Suc h..<Suc h + length rows] rows) (put_at t (h * row) r)"
    using Cons.prems b lr by (intro Cons.IH) (auto simp: algebra_simps)
  finally show ?case by (simp add: upt_conv_Cons del: upt_Suc)
qed

subsection \<open>The queue of stores\<close>

fun tensor_of :: "kv_layer list \<Rightarrow> tensor_ref \<Rightarrow> byte list" where
  "tensor_of lys (KTensor il s) = ly_k_stream (lys ! il) ! s"
| "tensor_of lys (VTensor il s) = the (ly_v_stream (lys ! il)) ! s"

fun valid_ref :: "kv_layer list \<Rightarrow> tensor_ref \<Rightarrow> bool" where
  "valid_ref lys (KTensor il s) \<longleftrightarrow> il < length lys \<and> s < length (ly_k_stream (lys ! il))"
| "valid_ref lys (VTensor il s) \<longleftrightarrow>
     il < length lys \<and> (\<exists>vs. ly_v_stream (lys ! il) = Some vs \<and> s < length vs)"

text \<open>What stores do not change.\<close>

definition shape :: "kv_layer \<Rightarrow> type_traits \<times> nat \<times> nat list \<times> type_traits \<times> nat \<times> nat list option" where
  "shape ly = (ly_k_type ly, ly_n_embd_k ly, map length (ly_k_stream ly), ly_v_type ly, ly_n_embd_v ly,
               map_option (map length) (ly_v_stream ly))"

definition apply_stores :: "byte list \<Rightarrow> (nat \<times> byte list) list \<Rightarrow> byte list" where
  "apply_stores t xs = foldl (\<lambda>t (off, bs). put_at t off bs) t xs"

lemma apply_stores_simps [simp]:
  "apply_stores t [] = t" "apply_stores t ((off, bs) # xs) = apply_stores (put_at t off bs) xs"
  "apply_stores t (xs @ ys) = apply_stores (apply_stores t xs) ys"
  by (simp_all add: apply_stores_def)

definition stores_of :: "tensor_ref \<Rightarrow> rinfos \<Rightarrow> (nat \<times> byte list) list" where
  "stores_of t q = map snd (filter (\<lambda>x. fst x = t) q)"

lemma stores_of_append: "stores_of t (q @ q') = stores_of t q @ stores_of t q'"
  by (simp add: stores_of_def)

lemma shape_valid_ref:
  assumes "map shape lys' = map shape lys"
  shows "valid_ref lys' t = valid_ref lys t" and "valid_ref lys t \<Longrightarrow> length (tensor_of lys' t) = length (tensor_of lys t)"
proof -
  have len: "length lys' = length lys" using assms by (metis length_map)
  have sh: "shape (lys' ! il) = shape (lys ! il)" if "il < length lys" for il
    using arg_cong [OF assms, of "\<lambda>x. x ! il"] that len by simp
  have k: "map length (ly_k_stream (lys' ! il)) = map length (ly_k_stream (lys ! il))" if "il < length lys" for il
    using sh [OF that] by (simp add: shape_def)
  have v: "map_option (map length) (ly_v_stream (lys' ! il)) = map_option (map length) (ly_v_stream (lys ! il))"
    if "il < length lys" for il
    using sh [OF that] by (simp add: shape_def)
  show "valid_ref lys' t = valid_ref lys t"
  proof (cases t)
    case (KTensor il s)
    then show ?thesis using len map_eq_imp_length_eq [OF k] by auto
  next
    case (VTensor il s)
    have e: "(\<exists>vs. x = Some vs \<and> s < length vs) \<longleftrightarrow> (\<exists>ns. map_option (map length) x = Some ns \<and> s < length ns)"
      for x :: "byte list list option" by auto
    show ?thesis unfolding VTensor valid_ref.simps e using len v [of il] by (metis (no_types))
  qed
  show "length (tensor_of lys' t) = length (tensor_of lys t)" if "valid_ref lys t"
  proof (cases t)
    case (KTensor il s)
    then show ?thesis using that arg_cong [OF k, of il "\<lambda>x. x ! s"] map_eq_imp_length_eq [OF k, of il] by simp
  next
    case (VTensor il s)
    with that obtain vs where vs: "il < length lys" "ly_v_stream (lys ! il) = Some vs" "s < length vs" by auto
    then obtain vs' where vs': "ly_v_stream (lys' ! il) = Some vs'" "map length vs' = map length vs"
      using v [OF vs(1)] by auto
    have "map length vs' ! s = map length vs ! s" using vs'(2) by simp
    then have "length (vs' ! s) = length (vs ! s)" using vs(3) map_eq_imp_length_eq [OF vs'(2)] by simp
    then show ?thesis using VTensor vs vs'(1) by simp
  qed
qed

lemma flush_one_ok:
  assumes "valid_ref lys t" "off + length bs \<le> length (tensor_of lys t)"
  shows "\<exists>lys'. flush_one (t, off, bs) lys = Some lys' \<and> map shape lys' = map shape lys
    \<and> (\<forall>u. valid_ref lys u \<longrightarrow> tensor_of lys' u = (if u = t then put_at (tensor_of lys t) off bs else tensor_of lys u))"
proof (cases t)
  case (KTensor il s)
  let ?ly = "lys ! il"
  let ?x = "put_at (ly_k_stream ?ly ! s) off bs"
  let ?ly' = "?ly\<lparr>ly_k_stream := (ly_k_stream ?ly)[s := ?x]\<rparr>"
  have ok: "il < length lys" "s < length (ly_k_stream ?ly)" "off + length bs \<le> length (ly_k_stream ?ly ! s)"
    using assms KTensor by simp_all
  have "shape ?ly' = shape ?ly" using ok by (simp add: shape_def map_update list_update_same_conv)
  then have "map shape (lys[il := ?ly']) = map shape lys"
    by (metis list_update_id map_update)
  moreover have "flush_one (t, off, bs) lys = Some (lys[il := ?ly'])"
    using ok KTensor by (simp add: flush_one_def tensor_set_put_at Let_def)
  moreover have "tensor_of (lys[il := ?ly']) u = (if u = t then put_at (tensor_of lys t) off bs else tensor_of lys u)"
    if "valid_ref lys u" for u
    using that ok KTensor by (cases u) (auto simp: nth_list_update)
  ultimately show ?thesis by blast
next
  case (VTensor il s)
  let ?ly = "lys ! il"
  obtain vs where ok: "il < length lys" "ly_v_stream ?ly = Some vs" "s < length vs" "off + length bs \<le> length (vs ! s)"
    using assms VTensor by auto
  let ?x = "put_at (vs ! s) off bs"
  let ?ly' = "?ly\<lparr>ly_v_stream := Some (vs[s := ?x])\<rparr>"
  have "shape ?ly' = shape ?ly" using ok by (simp add: shape_def map_update list_update_same_conv)
  then have "map shape (lys[il := ?ly']) = map shape lys"
    by (metis list_update_id map_update)
  moreover have "flush_one (t, off, bs) lys = Some (lys[il := ?ly'])"
    using ok VTensor by (simp add: flush_one_def tensor_set_put_at Let_def)
  moreover have "tensor_of (lys[il := ?ly']) u = (if u = t then put_at (tensor_of lys t) off bs else tensor_of lys u)"
    if "valid_ref lys u" for u
    using that ok VTensor by (cases u) (auto simp: nth_list_update)
  ultimately show ?thesis by blast
qed

lemma flush_all_ok:
  assumes "\<forall>(t, off, bs) \<in> set q. valid_ref lys t \<and> off + length bs \<le> length (tensor_of lys t)"
  shows "\<exists>lys'. foldM flush_one q lys = Some lys' \<and> map shape lys' = map shape lys
    \<and> (\<forall>u. valid_ref lys u \<longrightarrow> tensor_of lys' u = apply_stores (tensor_of lys u) (stores_of u q))"
  using assms
proof (induction q arbitrary: lys)
  case (Cons x q)
  obtain t off bs where x: "x = (t, off, bs)" by (cases x)
  from Cons.prems flush_one_ok [of lys t off bs] obtain lys1 where
    l1: "flush_one x lys = Some lys1" "map shape lys1 = map shape lys"
      "\<forall>u. valid_ref lys u \<longrightarrow> tensor_of lys1 u = (if u = t then put_at (tensor_of lys t) off bs else tensor_of lys u)"
    unfolding x by auto
  note same = shape_valid_ref [OF l1(2)]
  have "\<forall>(t, off, bs) \<in> set q. valid_ref lys1 t \<and> off + length bs \<le> length (tensor_of lys1 t)"
    using Cons.prems same by auto
  from Cons.IH [OF this] obtain lys' where
    l': "foldM flush_one q lys1 = Some lys'" "map shape lys' = map shape lys1"
      "\<forall>u. valid_ref lys1 u \<longrightarrow> tensor_of lys' u = apply_stores (tensor_of lys1 u) (stores_of u q)" by blast
  have "tensor_of lys' u = apply_stores (tensor_of lys u) (stores_of u (x # q))" if "valid_ref lys u" for u
    using that l1(3) l'(3) same(1) by (auto simp: stores_of_def x)
  then show ?case using l1 l' by auto
qed (simp add: stores_of_def)

subsection \<open>Reading the tensors\<close>

lemma read_tensors_append:
  "read_tensors ts rest q = (RTrue, rest', q') \<Longrightarrow> read_tensors (ts @ us) rest q = read_tensors us rest' q'"
  by (induction ts rest q rule: read_tensors.induct) (auto split: if_splits)

text \<open>What a block of rows leaves in the queue.\<close>

definition row_queue :: "slot_info \<Rightarrow> tensor_ref \<Rightarrow> nat \<Rightarrow> nat \<Rightarrow> byte list list \<Rightarrow> rinfos" where
  "row_queue si t row base rows =
     (if is_contiguous si then [(t, (si_idxs si ! 0 ! 0 + base) * row, concat rows)]
      else map (\<lambda>i. (t, (si_idxs si ! 0 ! i + base) * row, rows ! i)) [0..<length rows])"

lemma length_concat_rows: "\<forall>r \<in> set rows. length r = row \<Longrightarrow> length (concat rows) = length rows * row"
  by (induction rows) auto

lemma read_scatter:
  assumes "\<forall>i < n. length (rows ! i) = row" "n \<le> length rows"
  shows "read_tensors (map (\<lambda>i. (t, f i, row)) [0..<n]) (concat (take n rows) @ r) q =
    (RTrue, r, q @ map (\<lambda>i. (t, f i, rows ! i)) [0..<n])"
  using assms
proof (induction n arbitrary: r)
  case (Suc n)
  have n: "n < length rows" using Suc.prems by simp
  have "read_tensors (map (\<lambda>i. (t, f i, row)) [0..<n]) (concat (take n rows) @ rows ! n @ r) q =
    (RTrue, rows ! n @ r, q @ map (\<lambda>i. (t, f i, rows ! i)) [0..<n])"
    using Suc by simp
  from read_tensors_append [OF this, of "[(t, f n, row)]"] show ?case
    using Suc.prems(1) n by (simp add: take_Suc_conv_app_nth)
qed simp

lemma read_rows_ok:
  assumes "rows \<noteq> []" "\<forall>r \<in> set rows. length r = row"
  shows "read_tensors (row_reads si (length rows) t row base) (concat rows @ r) q =
    (RTrue, r, q @ row_queue si t row base rows)"
proof (cases "is_contiguous si")
  case True
  then show ?thesis using assms(1) length_concat_rows [OF assms(2)] by (simp add: row_reads_def row_queue_def)
next
  case False
  have "\<forall>i < length rows. length (rows ! i) = row" using assms(2) by simp
  from read_scatter [OF this le_refl] False show ?thesis using assms(1) by (simp add: row_reads_def row_queue_def)
qed

lemma read_blocks_ok:
  assumes "\<And>j. j < n \<Longrightarrow> length (rows j) = m \<and> (\<forall>r \<in> set (rows j). length r = row)" "0 < m"
  shows "read_tensors (concat (map (\<lambda>j. row_reads si m t row (b j)) [0..<n]))
      (concat (map (\<lambda>j. concat (rows j)) [0..<n]) @ r) q =
    (RTrue, r, q @ concat (map (\<lambda>j. row_queue si t row (b j) (rows j)) [0..<n]))"
  using assms
proof (induction n arbitrary: r)
  case (Suc n)
  have "read_tensors (concat (map (\<lambda>j. row_reads si m t row (b j)) [0..<n]))
      (concat (map (\<lambda>j. concat (rows j)) [0..<n]) @ concat (rows n) @ r) q =
    (RTrue, concat (rows n) @ r, q @ concat (map (\<lambda>j. row_queue si t row (b j) (rows j)) [0..<n]))"
    using Suc.prems by (intro Suc.IH) (blast intro: less_SucI)+
  from read_tensors_append [OF this, of "row_reads si m t row (b n)"]
    read_rows_ok [of "rows n" row si t "b n" r] Suc.prems(1) [of n] Suc.prems(2)
  show ?case by (cases "rows n") auto
qed simp

text \<open>The queue stores the rows in the cells of the slot.\<close>

lemma contiguous_idxs:
  assumes "si_idxs si = [J]" "J \<noteq> []" "is_contiguous si"
  shows "J = [J ! 0..<J ! 0 + length J]"
proof (rule nth_equalityI)
  fix i assume i: "i < length J"
  have "list_all (\<lambda>i. J ! i = J ! 0 + i) [0..<length J]"
    using assms unfolding is_contiguous_def by (simp split: if_splits)
  then have "J ! i = J ! 0 + i" using i unfolding list_all_iff by (elim ballE [where x = i]) simp_all
  with i show "J ! i = [J ! 0..<J ! 0 + length J] ! i" by simp
qed simp

lemma row_queue_stores:
  assumes J: "si_idxs si = [J]" "length J = length rows" "rows \<noteq> []" and rows: "\<forall>r \<in> set rows. length r = row"
    and T: "\<forall>i \<in> set J. (i + base + 1) * row \<le> length T"
  shows "\<forall>(u, off, bs) \<in> set (row_queue si t row base rows). u = t \<and> off + length bs \<le> length T"
    and "apply_stores T (map snd (row_queue si t row base rows)) = put_rows row (zip (map (\<lambda>i. i + base) J) rows) T"
proof -
  have ne: "J \<noteq> []" using J by auto
  have bound: "(J ! i + base) * row + row \<le> length T" if "i < length J" for i
    using T that by (force simp: algebra_simps)
  have "(\<forall>(u, off, bs) \<in> set (row_queue si t row base rows). u = t \<and> off + length bs \<le> length T) \<and>
    apply_stores T (map snd (row_queue si t row base rows)) = put_rows row (zip (map (\<lambda>i. i + base) J) rows) T"
  proof (cases "is_contiguous si")
    case True
    let ?h = "J ! 0 + base"
    note cont = contiguous_idxs [OF J(1) ne True]
    have "map (\<lambda>i. i + base) J = [?h..<?h + length rows]"
      by (subst cont) (rule nth_equalityI, simp_all add: J(2))
    moreover have "J ! (length J - 1) = J ! 0 + (length J - 1)"
      using arg_cong [OF cont, of "\<lambda>x. x ! (length J - 1)"] ne by (simp del: upt_Suc)
    then have b: "(?h + length rows) * row \<le> length T"
      using bound [of "length J - 1"] J(2,3) ne by (cases rows) (auto simp: algebra_simps)
    moreover have "?h * row + length (concat rows) \<le> length T"
      using b length_concat_rows [OF rows] by (simp add: add_mult_distrib)
    ultimately show ?thesis
      using True put_block [OF rows b] J by (simp add: row_queue_def)
  next
    case False
    have "apply_stores T (map (\<lambda>i. ((J ! i + base) * row, rows ! i)) [0..<n]) =
        put_rows row (zip (map (\<lambda>i. i + base) (take n J)) (take n rows)) T" if "n \<le> length rows" for n
      using that
    proof (induction n)
      case (Suc n)
      then show ?case using J(2) by (simp add: take_Suc_conv_app_nth)
    qed simp
    from this [of "length rows"] False J bound rows show ?thesis
      by (auto simp: row_queue_def comp_def)
  qed
  then show "\<forall>(u, off, bs) \<in> set (row_queue si t row base rows). u = t \<and> off + length bs \<le> length T"
    "apply_stores T (map snd (row_queue si t row base rows)) = put_rows row (zip (map (\<lambda>i. i + base) J) rows) T"
    by blast+
qed

text \<open>A loop over the layers.\<close>

lemma read_layers_ok:
  assumes "\<And>m r q. m < length lys \<Longrightarrow> f (il + m) (lys ! m) (bytes m @ r) q = (RTrue, r, q @ Q m)"
  shows "read_layers f il lys (concat (map bytes [0..<length lys]) @ r) q =
    (RTrue, r, q @ concat (map Q [0..<length lys]))"
  using assms
proof (induction lys arbitrary: il bytes Q q)
  case (Cons ly lys)
  have "f il ly (bytes 0 @ concat (map (\<lambda>m. bytes (Suc m)) [0..<length lys]) @ r) q =
      (RTrue, concat (map (\<lambda>m. bytes (Suc m)) [0..<length lys]) @ r, q @ Q 0)"
    using Cons.prems [of 0] by simp
  moreover have "read_layers f (Suc il) lys (concat (map (\<lambda>m. bytes (Suc m)) [0..<length lys]) @ r) (q @ Q 0) =
      (RTrue, r, (q @ Q 0) @ concat (map (\<lambda>m. Q (Suc m)) [0..<length lys]))"
    using Cons.prems [of "Suc _"] by (intro Cons.IH) simp
  moreover have split: "map bytes [0..<length (ly # lys)] = bytes 0 # map (\<lambda>m. bytes (Suc m)) [0..<length lys]"
    "map Q [0..<length (ly # lys)] = Q 0 # map (\<lambda>m. Q (Suc m)) [0..<length lys]"
    by (simp_all add: upt_conv_Cons map_Suc_upt [symmetric] comp_def del: upt_Suc)
  ultimately show ?case unfolding split by simp
qed simp

subsection \<open>Reading back what was written\<close>

text \<open>Two stores for the same model; the number of cells may differ.\<close>

definition same_layers :: "kv_store \<Rightarrow> kv_store \<Rightarrow> bool" where
  "same_layers A B \<longleftrightarrow>
     kv_n_stream (ks_cache A) = kv_n_stream (ks_cache B)
     \<and> ks_v_trans A = ks_v_trans B
     \<and> list_all2 (\<lambda>a b. ly_k_type a = ly_k_type b \<and> ly_n_embd_k a = ly_n_embd_k b \<and> ly_v_type a = ly_v_type b
          \<and> ly_n_embd_v a = ly_n_embd_v b \<and> (ly_v_stream a = None \<longleftrightarrow> ly_v_stream b = None))
         (ks_layers A) (ks_layers B)"

definition same_layout :: "kv_store \<Rightarrow> kv_store \<Rightarrow> bool" where
  "same_layout A B \<longleftrightarrow>
     same_layers A B \<and> kv_n_pos_per_embd (ks_cache A) = kv_n_pos_per_embd (ks_cache B)"

lemma same_layersD:
  assumes "same_layers A B"
  shows "length (ks_layers A) = length (ks_layers B)"
    and "m < length (ks_layers B) \<Longrightarrow> ly_k_type (ks_layers A ! m) = ly_k_type (ks_layers B ! m)"
    and "m < length (ks_layers B) \<Longrightarrow> k_size_row (ks_layers A ! m) = k_size_row (ks_layers B ! m)"
    and "m < length (ks_layers B) \<Longrightarrow> ly_v_type (ks_layers A ! m) = ly_v_type (ks_layers B ! m)"
    and "m < length (ks_layers B) \<Longrightarrow> v_size_row (ks_layers A ! m) = v_size_row (ks_layers B ! m)"
    and "m < length (ks_layers B) \<Longrightarrow> ly_n_embd_v (ks_layers A ! m) = ly_n_embd_v (ks_layers B ! m)"
    and "m < length (ks_layers B) \<Longrightarrow> ly_v_stream (ks_layers A ! m) = None \<longleftrightarrow> ly_v_stream (ks_layers B ! m) = None"
    and "ks_v_trans A = ks_v_trans B" and "kv_n_stream (ks_cache A) = kv_n_stream (ks_cache B)"
  using assms by (auto simp: same_layers_def list_all2_conv_all_nth k_size_row_def v_size_row_def)

lemma fitsD:
  assumes "fits st"
  shows "int (kv_n_stream (ks_cache st)) \<le> UINT32_MAX" "int (kv_get_size (ks_cache st)) \<le> UINT32_MAX"
    "int (length (ks_layers st)) \<le> UINT32_MAX"
    and "\<And>ly. ly \<in> set (ks_layers st) \<Longrightarrow> INT32_MIN \<le> tt_id (ly_k_type ly) \<and> tt_id (ly_k_type ly) \<le> INT32_MAX
          \<and> int (k_size_row ly) < 2 ^ 64"
    and "\<And>ly. ly \<in> set (ks_layers st) \<Longrightarrow> INT32_MIN \<le> tt_id (ly_v_type ly) \<and> tt_id (ly_v_type ly) \<le> INT32_MAX
          \<and> int (v_size_row ly) < 2 ^ 64"
    and "\<And>ly. ly \<in> set (ks_layers st) \<Longrightarrow>
          int (tt_type_size (ly_v_type ly)) \<le> UINT32_MAX \<and> int (ly_n_embd_v ly) \<le> UINT32_MAX"
    and "\<And>s x. s < kv_n_stream (ks_cache st) \<Longrightarrow> x \<in> set (cells_of (ks_cache st) s) \<Longrightarrow>
          INT32_MIN \<le> ext_x (cell_ext x) \<and> ext_x (cell_ext x) \<le> INT32_MAX
          \<and> INT32_MIN \<le> ext_y (cell_ext x) \<and> ext_y (cell_ext x) \<le> INT32_MAX"
  using assms unfolding fits_def by blast+

text \<open>The rows of a layer for the cells \<open>I\<close> of stream \<open>strm\<close>.\<close>

definition k_rows :: "kv_store \<Rightarrow> nat \<Rightarrow> nat list \<Rightarrow> nat \<Rightarrow> byte list list" where
  "k_rows st strm I m =
     (let ly = ks_layers st ! m in map (row_at (k_size_row ly) (ly_k_stream ly ! strm)) I)"

definition v_row :: "kv_store \<Rightarrow> kv_layer \<Rightarrow> nat" where
  "v_row st ly = (if ks_v_trans st then tt_type_size (ly_v_type ly) else v_size_row ly)"

text \<open>The values of a cell are one row, or one element in each of the \<open>n_embd_v\<close> rows.\<close>

definition v_parts :: "kv_store \<Rightarrow> kv_layer \<Rightarrow> nat" where
  "v_parts st ly = (if ks_v_trans st then ly_n_embd_v ly else 1)"

definition v_rows :: "kv_store \<Rightarrow> nat \<Rightarrow> nat list \<Rightarrow> nat \<Rightarrow> nat \<Rightarrow> byte list list" where
  "v_rows st strm I m j =
     (let ly = ks_layers st ! m in
      map (\<lambda>i. row_at (v_row st ly) (the (ly_v_stream ly) ! strm) (i + j * kv_get_size (ks_cache st))) I)"

definition k_queue :: "kv_store \<Rightarrow> nat \<Rightarrow> slot_info \<Rightarrow> (nat \<Rightarrow> byte list list) \<Rightarrow> nat \<Rightarrow> rinfos" where
  "k_queue st strm si rows m = row_queue si (KTensor m strm) (k_size_row (ks_layers st ! m)) 0 (rows m)"

definition v_queue :: "kv_store \<Rightarrow> nat \<Rightarrow> slot_info \<Rightarrow> (nat \<Rightarrow> nat \<Rightarrow> byte list list) \<Rightarrow> nat \<Rightarrow> rinfos" where
  "v_queue st strm si rows m =
     (let ly = ks_layers st ! m in
      if ly_v_stream ly = None then []
      else concat (map (\<lambda>j. row_queue si (VTensor m strm) (v_row st ly) (j * kv_get_size (ks_cache st)) (rows m j))
             [0..<v_parts st ly]))"

definition data_queue ::
  "kv_store \<Rightarrow> nat \<Rightarrow> slot_info \<Rightarrow> (nat \<Rightarrow> byte list list) \<Rightarrow> (nat \<Rightarrow> nat \<Rightarrow> byte list list) \<Rightarrow> rinfos" where
  "data_queue st strm si kr vr =
     concat (map (k_queue st strm si kr) [0..<length (ks_layers st)])
       @ concat (map (v_queue st strm si vr) [0..<length (ks_layers st)])"

lemma row_lengths:
  assumes A: "tensors_ok A" "a < kv_n_stream (ks_cache A)" "set I \<subseteq> {..<kv_get_size (ks_cache A)}"
    and m: "m < length (ks_layers A)"
  shows "\<forall>r \<in> set (k_rows A a I m). length r = k_size_row (ks_layers A ! m)"
    and "ly_v_stream (ks_layers A ! m) \<noteq> None \<Longrightarrow> j < v_parts A (ks_layers A ! m) \<Longrightarrow>
      \<forall>r \<in> set (v_rows A a I m j). length r = v_row A (ks_layers A ! m)"
proof -
  let ?ly = "ks_layers A ! m" and ?n = "kv_get_size (ks_cache A)"
  have ly: "?ly \<in> set (ks_layers A)" using m by simp
  note t = tensors_okD [OF A(1) ly A(2)]
  have b: "(i + 1) * row \<le> ?n * row" if "i \<in> set I" for i row using A(3) that by (intro mult_le_mono1) auto
  show "\<forall>r \<in> set (k_rows A a I m). length r = k_size_row ?ly"
    using b t(1) by (auto simp: k_rows_def Let_def intro!: length_row_at)
  assume v: "ly_v_stream ?ly \<noteq> None" and j: "j < v_parts A ?ly"
  then obtain vs where vs: "ly_v_stream ?ly = Some vs" by blast
  have "(i + j * ?n + 1) * v_row A ?ly \<le> length (vs ! a)" if "i \<in> set I" for i
  proof (cases "ks_v_trans A")
    case True
    have "i + j * ?n + 1 \<le> Suc j * ?n" using A(3) that by auto
    also have "\<dots> \<le> ly_n_embd_v ?ly * ?n" using j True by (intro mult_le_mono1) (simp add: v_parts_def)
    finally have "(i + j * ?n + 1) * v_row A ?ly \<le> ly_n_embd_v ?ly * ?n * v_row A ?ly" by (rule mult_le_mono1)
    also have "\<dots> = length (vs ! a)" using t(2) [OF vs] True by (simp add: v_len_def v_row_def)
    finally show ?thesis .
  next
    case False
    then show ?thesis using t(2) [OF vs] j b [OF that] by (simp add: v_len_def v_row_def v_parts_def)
  qed
  then show "\<forall>r \<in> set (v_rows A a I m j). length r = v_row A ?ly"
    using vs by (auto simp: v_rows_def Let_def intro!: length_row_at)
qed

lemma read_k_ok:
  assumes A: "store_ok A" "a < kv_n_stream (ks_cache A)" "set I \<subseteq> {..<kv_get_size (ks_cache A)}" "I \<noteq> []"
    and lay: "same_layers A B" and m: "m < length (ks_layers B)"
  shows "read_k si (length I) b m (ks_layers B ! m) (k_bytes a I (ks_layers A ! m) @ r) q =
    (RTrue, r, q @ k_queue B b si (k_rows A a I) m)"
proof -
  note ok = store_okD [OF A(1)] and l = same_layersD [OF lay]
  have mA: "m < length (ks_layers A)" using m l(1) by simp
  then have ly: "ks_layers A ! m \<in> set (ks_layers A)" by simp
  note f = fitsD(4) [OF ok(4) ly]
  have "read_tensors (row_reads si (length I) (KTensor m b) (k_size_row (ks_layers B ! m)) 0)
      (concat (k_rows A a I m) @ r) q = (RTrue, r, q @ k_queue B b si (k_rows A a I) m)"
    using read_rows_ok [of "k_rows A a I m" "k_size_row (ks_layers B ! m)" si "KTensor m b" 0 r q]
      row_lengths(1) [OF ok(3) A(2,3) mA] A(4) l(3) [OF m] by (simp add: k_queue_def k_rows_def Let_def)
  then show ?thesis
    using f l(2,3) [OF m]
    by (simp add: read_k_def k_bytes_def read_try_def read_i32_le read_u64_le k_rows_def Let_def)
qed

lemma read_v_ok:
  assumes A: "store_ok A" "a < kv_n_stream (ks_cache A)" "set I \<subseteq> {..<kv_get_size (ks_cache A)}" "I \<noteq> []"
    and lay: "same_layers A B" and m: "m < length (ks_layers B)"
  shows "\<not> ks_v_trans B \<Longrightarrow> read_v si (length I) b m (ks_layers B ! m) (v_bytes a I (ks_layers A ! m) @ r) q =
      (RTrue, r, q @ v_queue B b si (v_rows A a I) m)"
    and "ks_v_trans B \<Longrightarrow> read_v_trans (kv_get_size (ks_cache B)) si (length I) b m (ks_layers B ! m)
        (vt_bytes (kv_get_size (ks_cache A)) a I (ks_layers A ! m) @ r) q =
      (RTrue, r, q @ v_queue B b si (v_rows A a I) m)"
proof -
  let ?lyA = "ks_layers A ! m" and ?lyB = "ks_layers B ! m"
  let ?nA = "kv_get_size (ks_cache A)" and ?nB = "kv_get_size (ks_cache B)"
  note ok = store_okD [OF A(1)] and l = same_layersD [OF lay]
  have mA: "m < length (ks_layers A)" using m l(1) by simp
  then have ly: "?lyA \<in> set (ks_layers A)" by simp
  note f = fitsD(5,6) [OF ok(4) ly] and rl = row_lengths(2) [OF ok(3) A(2,3) mA]
  have rows: "read_tensors (concat (map (\<lambda>j. row_reads si (length I) (VTensor m b) (v_row B ?lyB) (j * ?nB)) [0..<v_parts B ?lyB]))
      (concat (map (\<lambda>j. concat (v_rows A a I m j)) [0..<v_parts B ?lyB]) @ r) q =
      (RTrue, r, q @ v_queue B b si (v_rows A a I) m)" if "ly_v_stream ?lyA \<noteq> None"
  proof -
    have "v_parts A ?lyA = v_parts B ?lyB" "v_row A ?lyA = v_row B ?lyB"
      using l(4,5,6) [OF m] l(8) by (simp_all add: v_parts_def v_row_def)
    moreover have "length (v_rows A a I m j) = length I" for j by (simp add: v_rows_def Let_def)
    ultimately show ?thesis
      using read_blocks_ok [of "v_parts B ?lyB" "v_rows A a I m" "length I" "v_row B ?lyB" si "VTensor m b"
          "\<lambda>j. j * ?nB" r q] rl [OF that] A(4) l(7) [OF m] that by (auto simp: v_queue_def Let_def)
  qed
  show "read_v si (length I) b m ?lyB (v_bytes a I ?lyA @ r) q = (RTrue, r, q @ v_queue B b si (v_rows A a I) m)"
    if "\<not> ks_v_trans B"
  proof (cases "ly_v_stream ?lyA")
    case None
    then show ?thesis using l(7) [OF m] by (simp add: read_v_def v_bytes_def v_queue_def Let_def)
  next
    case (Some vs)
    obtain vsB where "ly_v_stream ?lyB = Some vsB" using Some l(7) [OF m] by fastforce
    then show ?thesis using Some f(1) l(4,5,8) m rows that
      by (simp add: read_v_def v_bytes_def read_try_def read_i32_le read_u64_le v_rows_def v_row_def v_parts_def Let_def)
  qed
  show "read_v_trans ?nB si (length I) b m ?lyB (vt_bytes ?nA a I ?lyA @ r) q =
      (RTrue, r, q @ v_queue B b si (v_rows A a I) m)" if "ks_v_trans B"
  proof (cases "ly_v_stream ?lyA")
    case None
    then show ?thesis using l(7) [OF m] by (simp add: read_v_trans_def vt_bytes_def v_queue_def Let_def)
  next
    case (Some vs)
    obtain vsB where "ly_v_stream ?lyB = Some vsB" using Some l(7) [OF m] by fastforce
    then show ?thesis using Some f l(4,6,8) m rows that
      by (simp add: read_v_trans_def vt_bytes_def read_try_def read_i32_le read_u32_le v_rows_def v_row_def v_parts_def Let_def)
  qed
qed

lemma state_read_data_ok:
  assumes A: "store_ok A" "a < kv_n_stream (ks_cache A)" "set I \<subseteq> {..<kv_get_size (ks_cache A)}" "I \<noteq> []"
    and lay: "same_layers A B" and B: "kv_ok (ks_cache B)" "b < kv_n_stream (ks_cache B)"
    and I: "length I \<le> kv_get_size (ks_cache B)"
  shows "state_read_data B b (length I) si (data_bytes A a I @ r) q =
    (RTrue, r, q @ data_queue B b si (k_rows A a I) (v_rows A a I))"
proof -
  note ok = store_okD [OF A(1)] and l = same_layersD [OF lay]
  let ?L = "[0..<length (ks_layers B)]" and ?nA = "kv_get_size (ks_cache A)" and ?nB = "kv_get_size (ks_cache B)"
  have sz: "cells_size (kv_v_cells (ks_cache B) ! b) = ?nB" using kv_cells(2) [OF B] .
  have layers: "map g (ks_layers A) = map (\<lambda>m. g (ks_layers A ! m)) ?L" for g :: "kv_layer \<Rightarrow> byte list"
    using l(1) by (metis map_nth map_map comp_apply map_cong)
  have k: "read_layers (read_k si (length I) b) 0 (ks_layers B) (concat (map (k_bytes a I) (ks_layers A)) @ r) q =
      (RTrue, r, q @ concat (map (k_queue B b si (k_rows A a I)) ?L))" for r q
    unfolding layers by (rule read_layers_ok) (simp add: read_k_ok [OF A lay])
  have v: "read_layers (read_v si (length I) b) 0 (ks_layers B) (concat (map (v_bytes a I) (ks_layers A)) @ r) q =
      (RTrue, r, q @ concat (map (v_queue B b si (v_rows A a I)) ?L))" if "\<not> ks_v_trans B" for r q
    unfolding layers by (rule read_layers_ok) (simp add: read_v_ok(1) [OF A lay _ that])
  have vt: "read_layers (read_v_trans ?nB si (length I) b) 0 (ks_layers B)
      (concat (map (vt_bytes ?nA a I) (ks_layers A)) @ r) q =
      (RTrue, r, q @ concat (map (v_queue B b si (v_rows A a I)) ?L))" if "ks_v_trans B" for r q
    unfolding layers by (rule read_layers_ok) (simp add: read_v_ok(2) [OF A lay _ that])
  show ?thesis
    using I l(1,8) fitsD(3) [OF ok(4)] k v vt sz
    by (simp add: state_read_data_def data_bytes_def read_try_def read_u32_le data_queue_def)
qed

subsection \<open>The tensors after a restore\<close>

lemma length_put_rows:
  "\<forall>(i, r) \<in> set ps. length r = row \<and> (i + 1) * row \<le> length t \<Longrightarrow> length (put_rows row ps t) = length t"
  by (induction ps arbitrary: t) auto

lemma blocks_stores:
  assumes J: "si_idxs si = [J]" "J \<noteq> []"
    and rows: "\<And>j. j < P \<Longrightarrow> length (rows j) = length J \<and> (\<forall>r \<in> set (rows j). length r = row)"
    and T: "\<And>i j. j < P \<Longrightarrow> i \<in> set J \<Longrightarrow> (i + b j + 1) * row \<le> length T"
  shows "(\<forall>(u, off, bs) \<in> set (concat (map (\<lambda>j. row_queue si t row (b j) (rows j)) [0..<P])).
        u = t \<and> off + length bs \<le> length T)
    \<and> apply_stores T (map snd (concat (map (\<lambda>j. row_queue si t row (b j) (rows j)) [0..<P]))) =
      put_rows row (concat (map (\<lambda>j. zip (map (\<lambda>i. i + b j) J) (rows j)) [0..<P])) T"
  using rows T
proof (induction P)
  case (Suc P)
  let ?ps = "concat (map (\<lambda>j. zip (map (\<lambda>i. i + b j) J) (rows j)) [0..<P])"
  have ih: "(\<forall>(u, off, bs) \<in> set (concat (map (\<lambda>j. row_queue si t row (b j) (rows j)) [0..<P])).
        u = t \<and> off + length bs \<le> length T)
    \<and> apply_stores T (map snd (concat (map (\<lambda>j. row_queue si t row (b j) (rows j)) [0..<P]))) = put_rows row ?ps T"
  proof (rule Suc.IH)
    fix j assume "j < P"
    then show "length (rows j) = length J \<and> (\<forall>r \<in> set (rows j). length r = row)" by (intro Suc.prems(1) less_SucI)
  next
    fix i j assume "j < P" "i \<in> set J"
    then show "(i + b j + 1) * row \<le> length T" by (intro Suc.prems(2) less_SucI)
  qed
  have rP: "length (rows P) = length J" "\<forall>r \<in> set (rows P). length r = row" "rows P \<noteq> []"
    using Suc.prems(1) [of P] J(2) by auto
  have TP: "\<forall>i \<in> set J. (i + b P + 1) * row \<le> length T" using Suc.prems(2) [of P] by simp
  have "\<forall>(i, r) \<in> set ?ps. length r = row \<and> (i + 1) * row \<le> length T"
  proof -
    have "length r = row \<and> (i + 1) * row \<le> length T" if j: "j < P" and z: "(i, r) \<in> set (zip (map (\<lambda>i. i + b j) J) (rows j))" for i r j
      using Suc.prems(1) [of j] Suc.prems(2) [of j] j set_zip_leftD [OF z] set_zip_rightD [OF z] by auto
    then show ?thesis by auto
  qed
  then have len: "length (put_rows row ?ps T) = length T" by (rule length_put_rows)
  note last = row_queue_stores [OF J(1) rP(1) [symmetric] rP(3,2), of "b P" _ t]
  have "apply_stores (put_rows row ?ps T) (map snd (row_queue si t row (b P) (rows P))) =
      put_rows row (zip (map (\<lambda>i. i + b P) J) (rows P)) (put_rows row ?ps T)"
    by (rule last(2)) (unfold len, rule TP)
  with ih last(1) [OF TP] show ?case by auto
qed simp

lemma map_of_shift:
  assumes "inj g"
  shows "map_of (zip (map g J) (map h I)) (g i) = map_option h (map_of (zip J I) i)"
proof -
  have "map_of (map (\<lambda>(x, y). (g x, h y)) zs) (g i) = map_option h (map_of zs i)" for zs
    using assms by (induction zs) (auto simp: inj_eq)
  then show ?thesis by (simp add: zip_map_map)
qed

lemma map_of_blocks:
  fixes n :: nat
  assumes "set J \<subseteq> {..<n}" "i < n"
  shows "map_of (concat (map (\<lambda>j. zip (map (\<lambda>i. i + j * n) J) (map (f j) I)) [0..<P])) (i + l * n) =
    (if l < P then map_option (f l) (map_of (zip J I) i) else None)"
proof (induction P)
  case (Suc P)
  have "map_of (zip (map (\<lambda>i. i + P * n) J) (map (f P) I)) (i + l * n) =
      (if l = P then map_option (f P) (map_of (zip J I) i) else None)"
  proof (cases "l = P")
    case True
    then show ?thesis using map_of_shift [of "\<lambda>i. i + P * n" J "f P" I i] by (simp add: inj_def)
  next
    case False
    have "i + l * n \<noteq> i' + P * n" if "i' \<in> set J" for i'
    proof
      assume "i + l * n = i' + P * n"
      then have "(i + l * n) div n = (i' + P * n) div n" by simp
      then show False using assms that False by auto
    qed
    then show ?thesis using False by (force simp: map_of_eq_None_iff dest: set_zip_leftD)
  qed
  then show ?case using Suc by (auto simp: map_add_def less_Suc_eq split: option.splits)
qed simp

lemma distinct_blocks:
  fixes n :: nat
  assumes "set J \<subseteq> {..<n}" "distinct J"
  shows "distinct (concat (map (\<lambda>j. map (\<lambda>i. i + j * n) J) [0..<P]))"
proof (induction P)
  case (Suc P)
  have "i' + P * n \<noteq> i + j * n" if "i \<in> set J" "i' \<in> set J" "j < P" for i i' j
  proof
    assume "i' + P * n = i + j * n"
    then have "(i + j * n) div n = (i' + P * n) div n" by simp
    moreover have "i < n" "i' < n" using assms(1) that by auto
    ultimately show False using that(3) by auto
  qed
  then have "set (concat (map (\<lambda>j. map (\<lambda>i. i + j * n) J) [0..<P])) \<inter> set (map (\<lambda>i. i + P * n) J) = {}" by auto
  then show ?case using Suc assms(2) by (simp add: distinct_map inj_on_def)
qed simp

text \<open>The key row and the value rows of a cell.\<close>

definition k_cell :: "kv_store \<Rightarrow> nat \<Rightarrow> nat \<Rightarrow> nat \<Rightarrow> byte list" where
  "k_cell st m strm i = (let ly = ks_layers st ! m in row_at (k_size_row ly) (ly_k_stream ly ! strm) i)"

definition v_cell :: "kv_store \<Rightarrow> nat \<Rightarrow> nat \<Rightarrow> nat \<Rightarrow> byte list list" where
  "v_cell st m strm i =
     (let ly = ks_layers st ! m in
      case ly_v_stream ly of None \<Rightarrow> []
      | Some vs \<Rightarrow> map (\<lambda>j. row_at (v_row st ly) (vs ! strm) (i + j * kv_get_size (ks_cache st))) [0..<v_parts st ly])"

lemma k_rows_cell: "k_rows st strm I m = map (k_cell st m strm) I"
  by (simp add: k_rows_def k_cell_def Let_def)

lemma stores_of_concat:
  assumes "\<forall>m < L. \<forall>x \<in> set (Q m). fst x = f m" "inj f"
  shows "stores_of (f m) (concat (map Q [0..<L])) = (if m < L then map snd (Q m) else [])"
    and "(\<And>m. t \<noteq> f m) \<Longrightarrow> stores_of t (concat (map Q [0..<L])) = []"
proof -
  have f: "filter (\<lambda>x. fst x = f m) (Q j) = (if j = m then Q m else [])" if "j < L" for j
    using assms that by (auto simp: filter_empty_conv inj_eq intro: filter_True)
  have "stores_of (f m) (concat (map Q [0..<l])) = (if m < l then map snd (Q m) else [])" if "l \<le> L" for l
    using that by (induction l) (auto simp: stores_of_def f)
  then show "stores_of (f m) (concat (map Q [0..<L])) = (if m < L then map snd (Q m) else [])" by simp
  show "stores_of t (concat (map Q [0..<L])) = []" if "\<And>m. t \<noteq> f m"
    using assms(1) that by (fastforce simp: stores_of_def filter_empty_conv)
qed

text \<open>
  \<open>restored B b J v A a I\<close>: the cell \<open>J ! r\<close> of stream \<open>b\<close> has the value that \<open>I ! r\<close> has in stream
  \<open>a\<close> of the other store, every other cell the old one.
\<close>

definition moved :: "nat list \<Rightarrow> nat list \<Rightarrow> nat \<Rightarrow> (nat \<Rightarrow> 'x) \<Rightarrow> (nat \<Rightarrow> nat \<Rightarrow> 'x) \<Rightarrow> nat \<Rightarrow> nat \<Rightarrow> 'x" where
  "moved J I b src old s i =
     (if s = b then (case map_of (zip J I) i of None \<Rightarrow> old b i | Some i' \<Rightarrow> src i') else old s i)"

lemma row_queue_refs: "x \<in> set (row_queue si t row base rows) \<Longrightarrow> fst x = t"
  by (auto simp: row_queue_def split: if_splits)

lemma queue_refs:
  "x \<in> set (k_queue B b si kr m) \<Longrightarrow> fst x = KTensor m b"
  "x \<in> set (v_queue B b si vr m) \<Longrightarrow> fst x = VTensor m b"
  by (auto simp: k_queue_def v_queue_def Let_def dest: row_queue_refs split: if_splits)

lemma data_queue_stores:
  fixes B b si kr vr
  defines "q \<equiv> data_queue B b si kr vr"
  shows "m < length (ks_layers B) \<Longrightarrow> stores_of (KTensor m b) q = map snd (k_queue B b si kr m)"
    and "m < length (ks_layers B) \<Longrightarrow> stores_of (VTensor m b) q = map snd (v_queue B b si vr m)"
    and "s \<noteq> b \<Longrightarrow> stores_of (KTensor m s) q = []" and "s \<noteq> b \<Longrightarrow> stores_of (VTensor m s) q = []"
proof -
  let ?L = "length (ks_layers B)"
  have inj: "inj (\<lambda>m. KTensor m b)" "inj (\<lambda>m. VTensor m b)" by (simp_all add: inj_def)
  have "\<forall>m < ?L. \<forall>x \<in> set (k_queue B b si kr m). fst x = KTensor m b"
    "\<forall>m < ?L. \<forall>x \<in> set (v_queue B b si vr m). fst x = VTensor m b" using queue_refs by blast+
  note k = stores_of_concat [OF this(1) inj(1)] and v = stores_of_concat [OF this(2) inj(2)]
  show "m < ?L \<Longrightarrow> stores_of (KTensor m b) q = map snd (k_queue B b si kr m)"
    "m < ?L \<Longrightarrow> stores_of (VTensor m b) q = map snd (v_queue B b si vr m)"
    "s \<noteq> b \<Longrightarrow> stores_of (KTensor m s) q = []" "s \<noteq> b \<Longrightarrow> stores_of (VTensor m s) q = []"
    using k(1) [of m] k(2) [of "VTensor m b"] k(2) [of "VTensor m s"] k(2) [of "KTensor m s"]
      v(1) [of m] v(2) [of "KTensor m b"] v(2) [of "KTensor m s"] v(2) [of "VTensor m s"]
    by (simp_all add: q_def data_queue_def stores_of_append)
qed

lemma shape_fields:
  assumes "map shape lys' = map shape lys" "m < length lys"
  shows "k_size_row (lys' ! m) = k_size_row (lys ! m)" "v_size_row (lys' ! m) = v_size_row (lys ! m)"
    "ly_v_type (lys' ! m) = ly_v_type (lys ! m)" "ly_n_embd_v (lys' ! m) = ly_n_embd_v (lys ! m)"
    "ly_v_stream (lys' ! m) = None \<longleftrightarrow> ly_v_stream (lys ! m) = None"
proof -
  have "length lys' = length lys" using assms(1) by (metis length_map)
  then have "shape (lys' ! m) = shape (lys ! m)" using arg_cong [OF assms(1), of "\<lambda>x. x ! m"] assms(2) by simp
  then have f: "ly_k_type (lys' ! m) = ly_k_type (lys ! m)" "ly_n_embd_k (lys' ! m) = ly_n_embd_k (lys ! m)"
    "ly_v_type (lys' ! m) = ly_v_type (lys ! m)" "ly_n_embd_v (lys' ! m) = ly_n_embd_v (lys ! m)"
    "map_option (map length) (ly_v_stream (lys' ! m)) = map_option (map length) (ly_v_stream (lys ! m))"
    by (auto simp: shape_def)
  then show "k_size_row (lys' ! m) = k_size_row (lys ! m)" "v_size_row (lys' ! m) = v_size_row (lys ! m)"
    "ly_v_type (lys' ! m) = ly_v_type (lys ! m)" "ly_n_embd_v (lys' ! m) = ly_n_embd_v (lys ! m)"
    by (simp_all add: k_size_row_def v_size_row_def)
  show "ly_v_stream (lys' ! m) = None \<longleftrightarrow> ly_v_stream (lys ! m) = None" using f(5) by (metis option.map_disc_iff)
qed

lemma v_bound:
  assumes "tensors_ok B" "m < length (ks_layers B)" "b < kv_n_stream (ks_cache B)" "ly_v_stream (ks_layers B ! m) = Some vs"
    and "i < kv_get_size (ks_cache B)" "j < v_parts B (ks_layers B ! m)"
  shows "(i + j * kv_get_size (ks_cache B) + 1) * v_row B (ks_layers B ! m) \<le> length (vs ! b)"
proof -
  let ?ly = "ks_layers B ! m" and ?n = "kv_get_size (ks_cache B)"
  have ly: "?ly \<in> set (ks_layers B)" using assms(2) by simp
  have "i + j * ?n + 1 \<le> Suc j * ?n" using assms(5) by simp
  also have "\<dots> \<le> v_parts B ?ly * ?n" using assms(6) by (intro mult_le_mono1) simp
  finally have "(i + j * ?n + 1) * v_row B ?ly \<le> v_parts B ?ly * ?n * v_row B ?ly" by (rule mult_le_mono1)
  also have "\<dots> = length (vs ! b)" using tensors_okD(2) [OF assms(1) ly assms(3,4)]
    by (simp add: v_len_def v_row_def v_parts_def)
  finally show ?thesis .
qed

text \<open>Where the stores of one layer go, and what they leave.\<close>

lemma k_queue_effect:
  assumes B: "tensors_ok B" "b < kv_n_stream (ks_cache B)" and m: "m < length (ks_layers B)"
    and J: "si_idxs si = [J]" "distinct J" "set J \<subseteq> {..<kv_get_size (ks_cache B)}" "length J = length I" "I \<noteq> []"
    and rows: "kr m = map f I" "\<forall>r \<in> set (kr m). length r = k_size_row (ks_layers B ! m)"
  defines "T \<equiv> ly_k_stream (ks_layers B ! m) ! b" and "row \<equiv> k_size_row (ks_layers B ! m)"
  shows "\<forall>(u, off, bs) \<in> set (k_queue B b si kr m). u = KTensor m b \<and> off + length bs \<le> length T"
    and "i < kv_get_size (ks_cache B) \<Longrightarrow> row_at row (apply_stores T (map snd (k_queue B b si kr m))) i =
      (case map_of (zip J I) i of None \<Rightarrow> row_at row T i | Some i' \<Rightarrow> f i')"
proof -
  let ?n = "kv_get_size (ks_cache B)"
  have ly: "ks_layers B ! m \<in> set (ks_layers B)" using m by simp
  have len: "length T = ?n * row" using tensors_okD(1) [OF B(1) ly B(2)] by (simp add: T_def row_def)
  have b: "(i + 1) * row \<le> length T" if "i < ?n" for i unfolding len using that by (intro mult_le_mono1) simp
  have T: "\<forall>i \<in> set J. (i + 0 + 1) * row \<le> length T" using b J(3) by auto
  have kr: "length J = length (kr m)" "kr m \<noteq> []" "\<forall>r \<in> set (kr m). length r = row"
    using rows J(4,5) by (auto simp: row_def)
  note q = row_queue_stores [OF J(1) kr T, of "KTensor m b"]
  show "\<forall>(u, off, bs) \<in> set (k_queue B b si kr m). u = KTensor m b \<and> off + length bs \<le> length T"
    using q(1) by (simp add: k_queue_def row_def)
  assume i: "i < ?n"
  have ps: "\<forall>(i, r) \<in> set (zip J (kr m)). length r = row \<and> (i + 1) * row \<le> length T"
    using T kr(3) by (auto dest: set_zip_leftD set_zip_rightD)
  have "distinct (map fst (zip J (kr m)))" using J(2) kr(1) by simp
  from put_rows_at [OF ps this] b [OF i]
  have "row_at row (put_rows row (zip J (kr m)) T) i =
      (case map_of (zip J (kr m)) i of None \<Rightarrow> row_at row T i | Some r \<Rightarrow> r)" by blast
  moreover have "map_of (zip J (kr m)) i = map_option f (map_of (zip J I) i)"
    using map_of_shift [of "\<lambda>i. i" J f I i] rows(1) by simp
  ultimately show "row_at row (apply_stores T (map snd (k_queue B b si kr m))) i =
      (case map_of (zip J I) i of None \<Rightarrow> row_at row T i | Some i' \<Rightarrow> f i')"
    using q(2) by (simp add: k_queue_def row_def split: option.splits)
qed

lemma v_queue_effect:
  assumes B: "tensors_ok B" "b < kv_n_stream (ks_cache B)" and m: "m < length (ks_layers B)"
    and J: "si_idxs si = [J]" "distinct J" "set J \<subseteq> {..<kv_get_size (ks_cache B)}" "length J = length I" "I \<noteq> []"
    and v: "ly_v_stream (ks_layers B ! m) = Some vs"
    and rows: "\<And>j. vr m j = map (f j) I"
      "\<And>j. j < v_parts B (ks_layers B ! m) \<Longrightarrow> \<forall>r \<in> set (vr m j). length r = v_row B (ks_layers B ! m)"
  defines "T \<equiv> vs ! b" and "row \<equiv> v_row B (ks_layers B ! m)" and "n \<equiv> kv_get_size (ks_cache B)"
  shows "\<forall>(u, off, bs) \<in> set (v_queue B b si vr m). u = VTensor m b \<and> off + length bs \<le> length T"
    and "i < n \<Longrightarrow> j < v_parts B (ks_layers B ! m) \<Longrightarrow>
      row_at row (apply_stores T (map snd (v_queue B b si vr m))) (i + j * n) =
      (case map_of (zip J I) i of None \<Rightarrow> row_at row T (i + j * n) | Some i' \<Rightarrow> f j i')"
proof -
  let ?P = "v_parts B (ks_layers B ! m)"
  let ?ps = "concat (map (\<lambda>j. zip (map (\<lambda>i. i + j * n) J) (vr m j)) [0..<?P])"
  have b: "(i + j * n + 1) * row \<le> length T" if "i < n" "j < ?P" for i j
    using v_bound [OF B(1) m B(2) v] that by (simp add: T_def row_def n_def)
  have ne: "J \<noteq> []" using J(4,5) by auto
  have r: "length (vr m j) = length J \<and> (\<forall>r \<in> set (vr m j). length r = row)" if "j < ?P" for j
    using rows that J(4) by (simp add: row_def)
  have T: "(i + j * n + 1) * row \<le> length T" if "j < ?P" "i \<in> set J" for i j
    using b J(3) that by (auto simp: n_def)
  have q: "(\<forall>(u, off, bs) \<in> set (concat (map (\<lambda>j. row_queue si (VTensor m b) row (j * n) (vr m j)) [0..<?P])).
        u = VTensor m b \<and> off + length bs \<le> length T)
    \<and> apply_stores T (map snd (concat (map (\<lambda>j. row_queue si (VTensor m b) row (j * n) (vr m j)) [0..<?P]))) =
      put_rows row ?ps T"
    by (rule blocks_stores [OF J(1) ne r T])
  then show "\<forall>(u, off, bs) \<in> set (v_queue B b si vr m). u = VTensor m b \<and> off + length bs \<le> length T"
    using v by (simp add: v_queue_def row_def n_def Let_def)
  assume i: "i < n" and j: "j < ?P"
  have ps: "\<forall>(i, r) \<in> set ?ps. length r = row \<and> (i + 1) * row \<le> length T"
  proof -
    have "length u = row \<and> (i + 1) * row \<le> length T" if l: "l < ?P" and z: "(i, u) \<in> set (zip (map (\<lambda>i. i + l * n) J) (vr m l))" for i u l
      using r [OF l] T [OF l] set_zip_leftD [OF z] set_zip_rightD [OF z] by auto
    then show ?thesis by auto
  qed
  have "map fst (zip (map (\<lambda>i. i + j * n) J) (vr m j)) = map (\<lambda>i. i + j * n) J" for j
    using rows(1) J(4) by simp
  then have "map fst ?ps = concat (map (\<lambda>j. map (\<lambda>i. i + j * n) J) [0..<?P])" by (simp add: map_concat comp_def)
  then have "distinct (map fst ?ps)" using distinct_blocks [of J n] J(2,3) by (simp add: n_def)
  from put_rows_at [OF ps this] b [OF i j]
  have "row_at row (put_rows row ?ps T) (i + j * n) =
      (case map_of ?ps (i + j * n) of None \<Rightarrow> row_at row T (i + j * n) | Some r \<Rightarrow> r)" by blast
  moreover have "map_of ?ps (i + j * n) = map_option (f j) (map_of (zip J I) i)"
    using map_of_blocks [of J n i f I ?P j] J(3) i j rows(1) by (simp add: n_def)
  ultimately show "row_at row (apply_stores T (map snd (v_queue B b si vr m))) (i + j * n) =
      (case map_of (zip J I) i of None \<Rightarrow> row_at row T (i + j * n) | Some i' \<Rightarrow> f j i')"
    using q v by (simp add: v_queue_def row_def n_def Let_def split: option.splits)
qed

lemma flush_data_ok:
  assumes A: "store_ok A" "a < kv_n_stream (ks_cache A)" "set I \<subseteq> {..<kv_get_size (ks_cache A)}" "I \<noteq> []"
    and lay: "same_layers A B" and B: "tensors_ok B" "b < kv_n_stream (ks_cache B)"
    and J: "si_idxs si = [J]" "distinct J" "set J \<subseteq> {..<kv_get_size (ks_cache B)}" "length J = length I"
  shows "\<exists>B'. flush (data_queue B b si (k_rows A a I) (v_rows A a I)) B = Some B'
    \<and> B' = B\<lparr>ks_layers := ks_layers B'\<rparr> \<and> map shape (ks_layers B') = map shape (ks_layers B)
    \<and> (\<forall>m < length (ks_layers B). \<forall>s < kv_n_stream (ks_cache B). \<forall>i < kv_get_size (ks_cache B).
         k_cell B' m s i = moved J I b (k_cell A m a) (k_cell B m) s i
         \<and> v_cell B' m s i = moved J I b (v_cell A m a) (v_cell B m) s i)"
proof -
  let ?L = "length (ks_layers B)" and ?n = "kv_get_size (ks_cache B)" and ?kr = "k_rows A a I" and ?vr = "v_rows A a I"
  let ?q = "data_queue B b si ?kr ?vr"
  let ?f = "\<lambda>m j i. row_at (v_row A (ks_layers A ! m)) (the (ly_v_stream (ks_layers A ! m)) ! a)
      (i + j * kv_get_size (ks_cache A))"
  note ok = store_okD [OF A(1)] and l = same_layersD [OF lay]
  have mA: "m < length (ks_layers A)" if "m < ?L" for m using that l(1) by simp
  have lyB: "ks_layers B ! m \<in> set (ks_layers B)" if "m < ?L" for m using that by simp
  have kr: "?kr m = map (k_cell A m a) I" "m < ?L \<Longrightarrow> \<forall>r \<in> set (?kr m). length r = k_size_row (ks_layers B ! m)" for m
    using row_lengths(1) [OF ok(3) A(2,3) mA, of m] l(3) [of m] by (simp_all add: k_rows_cell)
  have vr: "?vr m j = map (?f m j) I" for m j by (simp add: v_rows_def Let_def)
  have same: "v_parts A (ks_layers A ! m) = v_parts B (ks_layers B ! m)" "v_row A (ks_layers A ! m) = v_row B (ks_layers B ! m)"
    if "m < ?L" for m using l(4,5,6) [OF that] l(8) by (simp_all add: v_parts_def v_row_def)
  have vl: "\<forall>r \<in> set (?vr m j). length r = v_row B (ks_layers B ! m)"
    if "m < ?L" "ly_v_stream (ks_layers B ! m) = Some vs" "j < v_parts B (ks_layers B ! m)" for m j vs
    using row_lengths(2) [OF ok(3) A(2,3) mA [OF that(1)], of j] l(7) [OF that(1)] that same [OF that(1)] by simp
  note ke = k_queue_effect [where kr = ?kr, OF B _ J A(4) kr(1)]
  have ve: "(\<forall>(u, off, bs) \<in> set (v_queue B b si ?vr m). u = VTensor m b \<and> off + length bs \<le> length (vs ! b)) \<and>
      (\<forall>i < ?n. \<forall>j < v_parts B (ks_layers B ! m).
        row_at (v_row B (ks_layers B ! m)) (apply_stores (vs ! b) (map snd (v_queue B b si ?vr m))) (i + j * ?n) =
        (case map_of (zip J I) i of None \<Rightarrow> row_at (v_row B (ks_layers B ! m)) (vs ! b) (i + j * ?n) | Some i' \<Rightarrow> ?f m j i'))"
    if m: "m < ?L" and vs: "ly_v_stream (ks_layers B ! m) = Some vs" for m vs
    using v_queue_effect [OF B m J A(4) vs, of ?vr "?f m", OF vr vl [OF m vs]] by blast
  have bounds: "\<forall>(t, off, bs) \<in> set ?q. valid_ref (ks_layers B) t \<and> off + length bs \<le> length (tensor_of (ks_layers B) t)"
  proof -
    have "valid_ref (ks_layers B) t \<and> off + length bs \<le> length (tensor_of (ks_layers B) t)"
      if m: "m < ?L" and x: "(t, off, bs) \<in> set (k_queue B b si ?kr m)" for m t off bs
      using ke(1) [OF m kr(2) [OF m]] x m tensors_okD(3) [OF B(1) lyB [OF m] B(2)] by auto
    moreover have "valid_ref (ks_layers B) t \<and> off + length bs \<le> length (tensor_of (ks_layers B) t)"
      if m: "m < ?L" and x: "(t, off, bs) \<in> set (v_queue B b si ?vr m)" for m t off bs
    proof -
      obtain vs where vs: "ly_v_stream (ks_layers B ! m) = Some vs"
        using x by (cases "ly_v_stream (ks_layers B ! m)") (auto simp: v_queue_def)
      with ve [OF m vs] x m tensors_okD(4) [OF B(1) lyB [OF m] B(2) vs] show ?thesis by auto
    qed
    ultimately show ?thesis by (auto simp: data_queue_def)
  qed
  from flush_all_ok [OF this] obtain lys' where
    lys': "foldM flush_one ?q (ks_layers B) = Some lys'" "map shape lys' = map shape (ks_layers B)"
      "\<forall>u. valid_ref (ks_layers B) u \<longrightarrow> tensor_of lys' u = apply_stores (tensor_of (ks_layers B) u) (stores_of u ?q)" by blast
  let ?B' = "B\<lparr>ks_layers := lys'\<rparr>"
  note sf = shape_fields [OF lys'(2)]
  have "k_cell ?B' m s i = moved J I b (k_cell A m a) (k_cell B m) s i" if m: "m < ?L" and s: "s < kv_n_stream (ks_cache B)" and i: "i < ?n" for m s i
  proof -
    have "valid_ref (ks_layers B) (KTensor m s)" using m tensors_okD(3) [OF B(1) lyB [OF m] s] by simp
    then have t: "ly_k_stream (lys' ! m) ! s = apply_stores (ly_k_stream (ks_layers B ! m) ! s) (stores_of (KTensor m s) ?q)"
      using lys'(3) by fastforce
    show ?thesis
    proof (cases "s = b")
      case True
      have "k_cell ?B' m b i = row_at (k_size_row (ks_layers B ! m)) (apply_stores (ly_k_stream (ks_layers B ! m) ! b)
          (map snd (k_queue B b si ?kr m))) i"
        using t [unfolded True] data_queue_stores(1) [of m B b si ?kr ?vr] m sf(1) [OF m] by (simp add: k_cell_def Let_def)
      then show ?thesis unfolding True moved_def ke(2) [OF m kr(2) [OF m] i] by (simp add: k_cell_def [of B] Let_def split: option.splits)
    next
      case False
      then show ?thesis using t data_queue_stores(3) [of s b m B si ?kr ?vr] sf(1) [OF m]
        by (simp add: k_cell_def moved_def Let_def)
    qed
  qed
  moreover have "v_cell ?B' m s i = moved J I b (v_cell A m a) (v_cell B m) s i"
    if m: "m < ?L" and s: "s < kv_n_stream (ks_cache B)" and i: "i < ?n" for m s i
  proof (cases "ly_v_stream (ks_layers B ! m)")
    case None
    then show ?thesis using sf(5) [OF m] l(7) [OF m] by (simp add: v_cell_def moved_def Let_def split: option.splits)
  next
    case (Some vs)
    obtain vs' where vs': "ly_v_stream (lys' ! m) = Some vs'" using sf(5) [OF m] Some by fastforce
    obtain vsA where vsA: "ly_v_stream (ks_layers A ! m) = Some vsA" using l(7) [OF m] Some by fastforce
    have "valid_ref (ks_layers B) (VTensor m s)" using m tensors_okD(4) [OF B(1) lyB [OF m] s Some] Some by simp
    then have t: "vs' ! s = apply_stores (vs ! s) (stores_of (VTensor m s) ?q)"
      using lys'(3) vs' Some by fastforce
    have r: "v_row ?B' (lys' ! m) = v_row B (ks_layers B ! m)" "v_parts ?B' (lys' ! m) = v_parts B (ks_layers B ! m)"
      using sf(2,3,4) [OF m] by (simp_all add: v_row_def v_parts_def)
    show ?thesis
    proof (cases "s = b")
      case True
      note tb = t [unfolded True data_queue_stores(2) [OF m]]
      have "row_at (v_row B (ks_layers B ! m)) (vs' ! b) (i + j * ?n) =
          (case map_of (zip J I) i of None \<Rightarrow> row_at (v_row B (ks_layers B ! m)) (vs ! b) (i + j * ?n) | Some i' \<Rightarrow> ?f m j i')"
        if "j < v_parts B (ks_layers B ! m)" for j
        unfolding tb using conjunct2 [OF ve [OF m Some]] i that by blast
      then have "v_cell ?B' m b i = map (\<lambda>j. case map_of (zip J I) i of
          None \<Rightarrow> row_at (v_row B (ks_layers B ! m)) (vs ! b) (i + j * ?n) | Some i' \<Rightarrow> ?f m j i') [0..<v_parts B (ks_layers B ! m)]"
        using vs' r by (simp add: v_cell_def Let_def)
      then show ?thesis unfolding True moved_def
        using Some vsA same [OF m] by (cases "map_of (zip J I) i") (simp_all add: v_cell_def Let_def)
    next
      case False
      then show ?thesis using data_queue_stores(4) [of s b m B si ?kr ?vr]
        by (simp add: v_cell_def moved_def Some vs' t r Let_def)
    qed
  qed
  ultimately show ?thesis using lys'(1,2) by (intro exI [of _ ?B']) (simp add: flush_def)
qed

subsection \<open>Reading the cells\<close>

definition cell_meta :: "nat \<Rightarrow> kv_cell \<Rightarrow> llama_pos \<times> cell_ext" where
  "cell_meta n_pos x = (cell_pos x, if n_pos > 1 then cell_ext x else ext_zero)"

lemma read_cells_ok:
  assumes "\<forall>x \<in> set xs. 0 \<le> cell_pos x \<and> cell_pos x \<le> INT32_MAX
      \<and> INT32_MIN \<le> ext_x (cell_ext x) \<and> ext_x (cell_ext x) \<le> INT32_MAX
      \<and> INT32_MIN \<le> ext_y (cell_ext x) \<and> ext_y (cell_ext x) \<le> INT32_MAX"
    and s: "0 \<le> s" "s \<le> INT32_MAX"
  shows "read_cells n_pos (length xs) (concat (map (cell_bytes n_pos s) xs) @ r) acc =
    (RTrue, r, acc @ map (cell_meta n_pos) xs)"
  using assms(1)
proof (induction xs arbitrary: acc)
  case (Cons x xs)
  have x: "INT32_MIN \<le> cell_pos x" "cell_pos x \<le> INT32_MAX"
    "INT32_MIN \<le> ext_x (cell_ext x)" "ext_x (cell_ext x) \<le> INT32_MAX"
    "INT32_MIN \<le> ext_y (cell_ext x)" "ext_y (cell_ext x) \<le> INT32_MAX" "INT32_MIN \<le> s" using Cons.prems s by auto
  have ext: "read_ext n_pos ((if n_pos > 1 then le_bytes 4 (ext_x (cell_ext x)) @ le_bytes 4 (ext_y (cell_ext x)) else [])
      @ r') = Some (snd (cell_meta n_pos x), r')" for r'
    by (simp add: read_ext_def read_i32_le [OF x(3,4)] read_i32_le [OF x(5,6)] cell_meta_def)
  let ?E = "if n_pos > 1 then le_bytes 4 (ext_x (cell_ext x)) @ le_bytes 4 (ext_y (cell_ext x)) else []"
  have "concat (map (cell_bytes n_pos s) (x # xs)) @ r =
      le_bytes 4 (cell_pos x) @ le_bytes 4 1 @ ?E @ le_bytes 4 s @ concat (map (cell_bytes n_pos s) xs) @ r"
    by (simp add: cell_bytes_def)
  note step = this [simplified]
  show ?case
    using Cons by (simp add: step read_i32_le [OF x(1,2)] read_i32_le [OF x(7) s(2)] read_u32_le ext [simplified])
       (simp add: cell_meta_def)
qed simp

end
