(* ===== verification/Kv_Roundtrip.thy ===== *)
theory Kv_Roundtrip
  imports Kv_State_Data
begin

text \<open>
  Restoring a saved sequence: the cells \<open>state_read_meta\<close> places (\<open>replaced\<close>), and, with the tensor
  data, the round trip from one cache to another. Two cases in which a restore that reports success
  does not restore: an empty sequence, and a whole cache with more than one stream.
\<close>

subsection \<open>Placing the restored cells\<close>

text \<open>The cells a sequence may be restored into: empty ones, and those only it uses.\<close>

definition room :: "kv_cache \<Rightarrow> int \<Rightarrow> nat set" where
  "room k t = {i. i < kv_get_size k \<and> cell_seq (cells_of k (stream_of k t) ! i) \<subseteq> {nat t}}"

definition restored_cell :: "nat \<Rightarrow> int \<Rightarrow> kv_cell \<Rightarrow> kv_cell \<Rightarrow> bool" where
  "restored_cell n_pos t x y \<longleftrightarrow>
     cell_pos y = cell_pos x \<and> cell_seq y = {nat t} \<and> cell_shift y = 0 \<and> (n_pos \<ge> 3 \<longrightarrow> cell_ext y = cell_ext x)"

lemma length_cells_of: "kv_ok k \<Longrightarrow> st < kv_n_stream k \<Longrightarrow> length (cells_of k st) = kv_get_size k"
  using kv_cells(2) [of k st] by (simp add: cells_of_def)

lemma rm_whole_cell:
  assumes "kv_inv k" "st < kv_n_stream k" "x \<in> set (cells_of k st)"
  shows "cell_pos (cell_rm_seq s (-1) (-1) x) = -1 \<longleftrightarrow> cell_seq x \<subseteq> {s}"
proof -
  have ok: "kv_ok k" "good_cell x" using assms by (auto simp: kv_inv_def)
  obtain i where i: "i < cells_size (kv_v_cells k ! st)" "x = cell_at (kv_v_cells k ! st) i"
    using assms(3) by (auto simp: cells_of_def cells_abs_def)
  then have wf: "wf_cell x" using ok_wf [OF kv_cells(1) [OF ok(1) assms(2)]] by simp
  have nm: "named x" using kv_cells(4) [OF ok(1) assms(2)] assms(3) by (simp add: cells_of_def)
  have "in_range (-1) (-1) (cell_pos x)" if "cell_pos x \<noteq> -1"
    using wf ok(2) that by (auto simp: in_range_def norm_p0_def norm_p1_def wf_cell_def good_cell_def)
  then show ?thesis using wf nm
    by (cases "cell_pos x = -1")
       (auto simp: cell_rm_seq_def cell_seq_rm_def wf_cell_def named_def cell_none_def)
qed

lemma restore_ub_simps:
  assumes "cs \<noteq> []"
  shows "n_seqs_of k (restore_ubatch n_pos t cs) = 1" "n_per_stream k (restore_ubatch n_pos t cs) = length cs"
    "ub_n_tokens (restore_ubatch n_pos t cs) = length cs" "ub_seq_id_unq (restore_ubatch n_pos t cs) = [t]"
    "i < length cs \<Longrightarrow> ub_pos (restore_ubatch n_pos t cs) ! i = fst (cs ! i)"
    "i < length cs \<Longrightarrow> ub_seq_id (restore_ubatch n_pos t cs) ! i = [t]"
  by (simp_all add: n_seqs_of_def n_per_stream_def restore_ubatch_def nth_append)

lemma restore_ub_ok:
  assumes "cs \<noteq> []" "valid_seq k t" "\<forall>c \<in> set cs. 0 \<le> fst c"
  shows "ub_ok k (restore_ubatch n_pos t cs)"
  unfolding ub_ok_def restore_ub_simps [OF assms(1)]
  using assms restore_ub_simps(5,6) [OF assms(1)] by simp

lemma tok_cell_restored:
  assumes "i < length xs" "cell_shift y = 0" "n_pos = 1 \<or> n_pos \<ge> 3"
  shows "restored_cell n_pos t (xs ! i) (tok_cell (restore_ubatch n_pos t (map (cell_meta n_pos) xs)) i y)"
  using assms
  by (auto simp: restored_cell_def tok_cell_def restore_ubatch_def cell_meta_def nth_append comp_def)

lemma room_after_rm:
  assumes inv: "kv_inv k" and t: "valid_seq k t"
    and k1: "cells_of k1 (stream_of k t) = map (cell_rm_seq (nat t) (-1) (-1)) (cells_of k (stream_of k t))"
  shows "free_cells k1 (stream_of k t) = room k t"
proof -
  have ok: "kv_ok k" using inv by (simp add: kv_inv_def)
  note st = kv_stream [OF ok t]
  have "cell_pos (map (cell_rm_seq (nat t) (-1) (-1)) (cells_of k (stream_of k t)) ! i) = -1 \<longleftrightarrow>
      cell_seq (cells_of k (stream_of k t) ! i) \<subseteq> {nat t}" if "i < kv_get_size k" for i
    using rm_whole_cell [OF inv st, of "cells_of k (stream_of k t) ! i" "nat t"] that length_cells_of [OF ok st] by simp
  then show ?thesis using length_cells_of [OF ok st] by (auto simp: free_cells_def room_def k1)
qed

lemma check_restored_ok:
  assumes "length (si_strm si) = 1" "si_idxs si = [J]" "length J = ub_n_tokens ub"
    and "\<And>i. i < length J \<Longrightarrow> J ! i < cells_size c \<and> kc_pos c ! (J ! i) = ub_pos ub ! i \<and> kc_pos c ! (J ! i) \<noteq> -1
          \<and> nat t \<in> kc_seq c ! (J ! i)"
  shows "check_restored si ub t c = Some ()"
proof -
  have "\<exists>u. foldM (\<lambda>i _. do {
         p \<leftarrow> pos_get c (si_idxs si ! 0 ! i);
         require (p = ub_pos ub ! i);
         has \<leftarrow> seq_has c (si_idxs si ! 0 ! i) (nat t);
         require has }) [0..<ub_n_tokens ub] () = Some u \<and> True"
  proof (rule foldM_upt_rule [of "\<lambda>_ _. True"])
    fix i and u :: unit assume "i < ub_n_tokens ub"
    with assms(4) [of i] assms(1-3) show "\<exists>u'. do {
         p \<leftarrow> pos_get c (si_idxs si ! 0 ! i);
         require (p = ub_pos ub ! i);
         has \<leftarrow> seq_has c (si_idxs si ! 0 ! i) (nat t);
         require has } = Some u' \<and> True" by (simp add: pos_get_def seq_has_def)
  qed simp
  then show ?thesis using assms(1-3) by (auto simp: check_restored_def)
qed

text \<open>
  The cells of the destination after its sequence has been replaced by the cells \<open>xs\<close>, placed
  at \<open>J\<close>.
\<close>

definition replaced :: "kv_cache \<Rightarrow> int \<Rightarrow> kv_cell list \<Rightarrow> nat list \<Rightarrow> kv_cache \<Rightarrow> bool" where
  "replaced k t xs J k' \<longleftrightarrow>
     kv_inv k' \<and> kv_conf k' = kv_conf k \<and> kv_get_size k' = kv_get_size k
     \<and> (\<forall>r < length xs. restored_cell (kv_n_pos_per_embd k) t (xs ! r) (cells_of k' (stream_of k t) ! (J ! r)))
     \<and> (\<forall>i < kv_get_size k. i \<notin> set J \<longrightarrow>
          cells_of k' (stream_of k t) ! i = cell_rm_seq (nat t) (-1) (-1) (cells_of k (stream_of k t) ! i))
     \<and> (\<forall>st < kv_n_stream k. st \<noteq> stream_of k t \<longrightarrow> cells_of k' st = cells_of k st)"

lemma restore_place:
  assumes inv: "kv_inv k" and t: "valid_seq k t" and swa: "kv_swa_type k = LLAMA_SWA_TYPE_NONE"
    and pos: "kv_n_pos_per_embd k = 1 \<or> kv_n_pos_per_embd k \<ge> 3"
    and xs: "xs \<noteq> []" "\<forall>x \<in> set xs. 0 \<le> cell_pos x \<and> cell_pos x < INT32_MAX"
    and fit: "length xs \<le> card (room k t)"
    and k1: "kv_ok k1" "k1 = put_stream (stream_of k t) c h k"
      "cells_abs c = map (cell_rm_seq (nat t) (-1) (-1)) (cells_of k (stream_of k t))"
  defines "ub \<equiv> restore_ubatch (kv_n_pos_per_embd k) t (map (cell_meta (kv_n_pos_per_embd k)) xs)"
  shows "\<exists>si J k2. kv_find_slot ub False k1 = Some si \<and> si_idxs si = [J] \<and> distinct J \<and> length J = length xs
    \<and> set J \<subseteq> room k t \<and> kv_apply_ubatch si ub k1 = Some k2
    \<and> check_restored si ub t (kv_v_cells k2 ! stream_of k t) = Some () \<and> replaced k t xs J k2"
proof -
  let ?b = "stream_of k t" and ?n = "kv_n_pos_per_embd k"
  let ?cs = "map (cell_meta ?n) xs"
  have ok: "kv_ok k" using inv by (simp add: kv_inv_def)
  note st = kv_stream [OF ok t]
  have conf: "kv_conf k1 = kv_conf k" by (simp add: k1(2))
  note cc = kv_conf_cong [OF conf]
  have cells1: "cells_of k1 s = (if s = ?b then map (cell_rm_seq (nat t) (-1) (-1)) (cells_of k ?b) else cells_of k s)" for s
    using kv_lengths(1) [OF ok] st k1(3) by (simp add: k1(2) cells_of_put)
  have size1: "kv_get_size k1 = kv_get_size k"
    using length_cells_of [OF ok st] length_cells_of [OF k1(1), of ?b] cells1 [of ?b] st cc(1) by simp
  have free: "free_cells k1 ?b = room k t" by (rule room_after_rm [OF inv t]) (simp add: cells1)
  have ub: "ub_ok k1 ub" unfolding ub_def
    using xs t cc(3) by (intro restore_ub_ok) (auto simp: cell_meta_def)
  have u: "n_seqs_of k1 ub = 1" "n_per_stream k1 ub = length xs" "ub_n_tokens ub = length xs" "ub_seq_id_unq ub = [t]"
    using restore_ub_simps(1-4) [of ?cs] xs(1) by (simp_all add: ub_def)
  have "\<forall>s < n_seqs_of k1 ub. n_per_stream k1 ub \<le> card (free_cells k1 (stream_of k1 (ub_seq_id_unq ub ! s)))"
    using fit by (simp add: u cc(4) free)
  with find_slot_ok [OF k1(1) _ ub] swa cc(2) obtain si where
    si: "kv_find_slot ub False k1 = Some si" "slot_ok k1 ub si" by auto
  then have sis: "si_strm si = [?b]" "length (si_idxs si) = 1" by (simp_all add: slot_ok_def u cc(4))
  then obtain J where J: "si_idxs si = [J]" by (metis length_0_conv length_Suc_conv One_nat_def)
  have Jp: "distinct J" "length J = length xs" "set J \<subseteq> room k t"
    using si(2) by (auto simp: slot_ok_def u J sis(1) free)
  from kv_apply_ubatch_ok [OF k1(1) ub si(2)] obtain k2 where
    k2: "kv_apply_ubatch si ub k1 = Some k2" "kv_ok k2" "kv_conf k2 = kv_conf k1"
      "batch_placed ub si k1 k2 (length (si_strm si))" by blast
  have pl: "placed ub 0 J (cells_of k1 ?b) (cells_of k2 ?b)"
    and oth: "\<And>s. s < kv_n_stream k1 \<Longrightarrow> s \<noteq> ?b \<Longrightarrow> cells_of k2 s = cells_of k1 s"
    using k2(4) by (auto simp: batch_placed_def sis(1) J)
  have st2: "?b < kv_n_stream k2" using st cc(1) kv_conf_cong(1) [OF k2(3)] by simp
  have len2: "length (cells_of k2 ?b) = kv_get_size k"
    using pl length_cells_of [OF k1(1), of ?b] st cc(1) size1 by (simp add: placed_def)
  have size2: "kv_get_size k2 = kv_get_size k" using len2 length_cells_of [OF k2(2) st2] by simp
  have new: "restored_cell ?n t (xs ! r) (cells_of k2 ?b ! (J ! r))" if r: "r < length xs" for r
  proof -
    have "J ! r \<in> free_cells k1 ?b" using Jp r free by (metis nth_mem subset_iff)
    then have e: "J ! r < length (cells_of k1 ?b)" "cell_pos (cells_of k1 ?b ! (J ! r)) = -1" by (simp_all add: free_cells_def)
    have sz1: "J ! r < cells_size (kv_v_cells k1 ! ?b)" using e(1) by (simp add: cells_of_def)
    have "?b < kv_n_stream k1" using st cc(1) by simp
    from ok_empty_shift [OF kv_cells(1) [OF k1(1) this] sz1] e(2) sz1
    have "cell_shift (cells_of k1 ?b ! (J ! r)) = 0" by (simp add: cells_of_def)
    moreover have "cells_of k2 ?b ! (J ! r) = tok_cell ub r (cells_of k1 ?b ! (J ! r))"
      using pl r Jp(2) by (simp add: placed_def)
    ultimately show ?thesis using tok_cell_restored [OF r _ pos] by (simp add: ub_def)
  qed
  have old: "cells_of k2 ?b ! i = cell_rm_seq (nat t) (-1) (-1) (cells_of k ?b ! i)"
    if "i < kv_get_size k" "i \<notin> set J" for i
    using pl that length_cells_of [OF ok st] by (simp add: placed_def cells1)
  have good: "good_cell x" if s: "s < kv_n_stream k2" and x: "x \<in> set (cells_of k2 s)" for s x
  proof (cases "s = ?b")
    case False
    then have "cells_of k2 s = cells_of k s" using oth [of s] s cc(1) kv_conf_cong(1) [OF k2(3)] by (simp add: cells1)
    then show ?thesis using inv s x cc(1) kv_conf_cong(1) [OF k2(3)] by (auto simp: kv_inv_def)
  next
    case True
    with x len2 obtain i where i: "i < kv_get_size k" "x = cells_of k2 ?b ! i" by (auto simp: in_set_conv_nth)
    show ?thesis
    proof (cases "i \<in> set J")
      case True
      then obtain r where r: "r < length xs" "i = J ! r" using Jp(2) by (auto simp: in_set_conv_nth)
      then show ?thesis using new [OF r(1)] xs(2) i(2) by (auto simp: restored_cell_def good_cell_def)
    next
      case False
      have "cells_of k ?b ! i \<in> set (cells_of k ?b)" using i(1) length_cells_of [OF ok st] by simp
      then show ?thesis using old [OF i(1) False] i(2) inv st by (auto simp: kv_inv_def)
    qed
  qed
  have "replaced k t xs J k2"
    unfolding replaced_def using good k2(2,3) conf size2 new old oth cc(1) by (auto simp: kv_inv_def cells1)
  moreover have "check_restored si ub t (kv_v_cells k2 ! ?b) = Some ()"
  proof (rule check_restored_ok [OF _ J])
    fix i assume i: "i < length J"
    have ci: "J ! i < cells_size (kv_v_cells k2 ! ?b)"
      using subsetD [OF Jp(3) nth_mem [OF i]] len2 by (simp add: room_def cells_of_def)
    have "ub_pos ub ! i = cell_pos (xs ! i)"
      using restore_ub_simps(5) [of ?cs i] xs(1) i Jp(2) by (simp add: ub_def cell_meta_def)
    moreover have "0 \<le> cell_pos (xs ! i)" using xs(2) i Jp(2) by simp
    ultimately show "J ! i < cells_size (kv_v_cells k2 ! ?b) \<and> kc_pos (kv_v_cells k2 ! ?b) ! (J ! i) = ub_pos ub ! i
        \<and> kc_pos (kv_v_cells k2 ! ?b) ! (J ! i) \<noteq> -1 \<and> nat t \<in> kc_seq (kv_v_cells k2 ! ?b) ! (J ! i)"
      using new [of i] i Jp(2) ci by (auto simp: restored_cell_def cells_of_def)
  qed (simp_all add: sis u Jp)
  ultimately show ?thesis using si(1) J Jp k2(1) by blast
qed

lemma read_meta_seq_ok:
  assumes inv: "kv_inv k" and t: "valid_seq k t" and swa: "kv_swa_type k = LLAMA_SWA_TYPE_NONE"
    and pos: "kv_n_pos_per_embd k = 1 \<or> kv_n_pos_per_embd k \<ge> 3"
    and xs: "xs \<noteq> []" "\<forall>x \<in> set xs. 0 \<le> cell_pos x \<and> cell_pos x < INT32_MAX
      \<and> INT32_MIN \<le> ext_x (cell_ext x) \<and> ext_x (cell_ext x) \<le> INT32_MAX
      \<and> INT32_MIN \<le> ext_y (cell_ext x) \<and> ext_y (cell_ext x) \<le> INT32_MAX"
    and s: "0 \<le> s" "s \<le> INT32_MAX" and fit: "length xs \<le> card (room k t)"
  shows "\<exists>si J k2. read_meta_seq (stream_of k t) (length xs) t
        (concat (map (cell_bytes (kv_n_pos_per_embd k) s) xs) @ r) k = Some (RTrue, r, si, k2)
    \<and> si_idxs si = [J] \<and> distinct J \<and> length J = length xs \<and> set J \<subseteq> room k t \<and> replaced k t xs J k2"
proof -
  let ?n = "kv_n_pos_per_embd k"
  have ok: "kv_ok k" using inv by (simp add: kv_inv_def)
  from kv_seq_rm_cells [OF ok t, of "-1" "-1"] obtain c h where
    c: "kv_seq_rm t (-1) (-1) k = Some (put_stream (stream_of k t) c h k, True)"
      "kv_ok (put_stream (stream_of k t) c h k)"
      "cells_abs c = map (cell_rm_seq (nat t) (-1) (-1)) (cells_of k (stream_of k t))" by blast
  have xs': "\<forall>x \<in> set xs. 0 \<le> cell_pos x \<and> cell_pos x < INT32_MAX" using xs(2) by blast
  have cells: "read_cells ?n (length xs) (concat (map (cell_bytes ?n s) xs) @ r) [] = (RTrue, r, [] @ map (cell_meta ?n) xs)"
    by (rule read_cells_ok [OF _ s]) (use xs(2) in force)
  from restore_place [OF inv t swa pos xs(1) xs' fit c(2) refl c(3)] obtain si J k2 where
    r: "kv_find_slot (restore_ubatch ?n t (map (cell_meta ?n) xs)) False (put_stream (stream_of k t) c h k) = Some si"
      "si_idxs si = [J]" "distinct J" "length J = length xs" "set J \<subseteq> room k t"
      "kv_apply_ubatch si (restore_ubatch ?n t (map (cell_meta ?n) xs)) (put_stream (stream_of k t) c h k) = Some k2"
      "check_restored si (restore_ubatch ?n t (map (cell_meta ?n) xs)) t (kv_v_cells k2 ! stream_of k t) = Some ()"
      "replaced k t xs J k2" by blast
  then show ?thesis using c(1) cells by (simp add: read_meta_seq_def Let_def)
qed

text \<open>Streams without cells are skipped.\<close>

lemma read_empty_streams:
  "read_streams t js (concat (map (\<lambda>_. le_bytes 4 0) js) @ r, q, st) = Some (False, r, q, st)"
  by (induction js) (simp_all add: read_stream_def read_u32_le)

lemma read_streams_append:
  "read_streams t (js @ ks) x =
     Option.bind (read_streams t js x) (\<lambda>(thrown, y). if thrown then Some (True, y) else read_streams t ks y)"
proof (induction js arbitrary: x)
  case (Cons j js)
  then show ?case by (cases "read_stream t j x") (auto split: prod.splits)
qed simp

lemma seq_idxs_props:
  assumes inv: "kv_inv k" and s: "valid_seq k s"
  shows "set (seq_idxs k s) \<subseteq> {..<kv_get_size k}" "distinct (seq_idxs k s)"
    and "i \<in> set (seq_idxs k s) \<Longrightarrow> cells_of k (stream_of k s) ! i \<in> set (cells_of k (stream_of k s))"
    and "i \<in> set (seq_idxs k s) \<Longrightarrow> 0 \<le> cell_pos (cells_of k (stream_of k s) ! i) \<and> cell_pos (cells_of k (stream_of k s) ! i) < INT32_MAX"
proof -
  have ok: "kv_ok k" using inv by (simp add: kv_inv_def)
  note len = length_cells_of [OF ok kv_stream [OF ok s]]
  show "set (seq_idxs k s) \<subseteq> {..<kv_get_size k}" "distinct (seq_idxs k s)" by (auto simp: seq_idxs_def)
  assume i: "i \<in> set (seq_idxs k s)"
  then have b: "i < kv_get_size k" "nat s \<in> cell_seq (cells_of k (stream_of k s) ! i)" by (auto simp: seq_idxs_def)
  then show m: "cells_of k (stream_of k s) ! i \<in> set (cells_of k (stream_of k s))" using len by simp
  have "(i, cell_pos (cells_of k (stream_of k s) ! i)) \<in> seq_cells k s" using b len by (auto simp: seq_cells_def holds_def)
  then show "0 \<le> cell_pos (cells_of k (stream_of k s) ! i) \<and> cell_pos (cells_of k (stream_of k s) ! i) < INT32_MAX"
    using holds_bounds [OF ok s] m inv kv_stream [OF ok s] by (auto simp: kv_inv_def good_cell_def)
qed

lemma read_saved_stream:
  assumes A: "store_ok A" "valid_seq (ks_cache A) s" "seq_idxs (ks_cache A) s \<noteq> []" and lay: "same_layout A B"
    and B: "store_ok B" "valid_seq (ks_cache B) t" "kv_swa_type (ks_cache B) = LLAMA_SWA_TYPE_NONE"
      "kv_n_pos_per_embd (ks_cache B) = 1 \<or> kv_n_pos_per_embd (ks_cache B) \<ge> 3"
    and fit: "length (seq_idxs (ks_cache A) s) \<le> card (room (ks_cache B) t)"
  shows "\<exists>si J k2. read_stream t j (seq_stream_bytes A s @ r, q, B) =
        Some (False, r, q @ data_queue (B\<lparr>ks_cache := k2\<rparr>) (stream_of (ks_cache B) t) si
             (k_rows A (stream_of (ks_cache A) s) (seq_idxs (ks_cache A) s))
             (v_rows A (stream_of (ks_cache A) s) (seq_idxs (ks_cache A) s)), B\<lparr>ks_cache := k2\<rparr>)
    \<and> si_idxs si = [J] \<and> distinct J \<and> length J = length (seq_idxs (ks_cache A) s) \<and> set J \<subseteq> room (ks_cache B) t
    \<and> replaced (ks_cache B) t (map ((!) (cells_of (ks_cache A) (stream_of (ks_cache A) s))) (seq_idxs (ks_cache A) s)) J k2"
proof -
  let ?kA = "ks_cache A" and ?kB = "ks_cache B"
  let ?a = "stream_of ?kA s" and ?b = "stream_of ?kB t" and ?I = "seq_idxs ?kA s"
  let ?xs = "map ((!) (cells_of ?kA ?a)) ?I"
  note okA = store_okD [OF A(1)] and okB = store_okD [OF B(1)]
  note sp = seq_idxs_props [OF okA(1) A(2)]
  note a = kv_stream [OF okA(2) A(2)] and b = kv_stream [OF okB(2) B(2)]
  have s: "0 \<le> s" "s \<le> INT32_MAX" using A(2) kv_seq_bound [OF okA(2) A(2)]
    by (auto simp: valid_seq_def LLAMA_MAX_SEQ_def)
  have xs: "\<forall>x \<in> set ?xs. 0 \<le> cell_pos x \<and> cell_pos x < INT32_MAX
      \<and> INT32_MIN \<le> ext_x (cell_ext x) \<and> ext_x (cell_ext x) \<le> INT32_MAX
      \<and> INT32_MIN \<le> ext_y (cell_ext x) \<and> ext_y (cell_ext x) \<le> INT32_MAX"
    using fitsD(7) [OF okA(4) a] sp(3,4) by simp
  have ne: "?xs \<noteq> []" using A(3) by simp
  let ?D = "data_bytes A ?a ?I @ r"
  have fitx: "length ?xs \<le> card (room ?kB t)" using fit by simp
  from read_meta_seq_ok [OF okB(1) B(2,3,4) ne xs s fitx, of ?D] obtain si J k2 where
    m: "read_meta_seq ?b (length ?xs) t (concat (map (cell_bytes (kv_n_pos_per_embd ?kB) s) ?xs) @ ?D) ?kB
          = Some (RTrue, ?D, si, k2)"
      "si_idxs si = [J]" "distinct J" "length J = length ?xs" "set J \<subseteq> room ?kB t" "replaced ?kB t ?xs J k2" by blast
  let ?B2 = "B\<lparr>ks_cache := k2\<rparr>"
  have k2: "kv_ok k2" "kv_get_size k2 = kv_get_size ?kB" "kv_n_stream k2 = kv_n_stream ?kB"
    using m(6) kv_conf_cong(1) [of k2 ?kB] by (auto simp: replaced_def kv_inv_def)
  have card: "length ?I \<le> kv_get_size ?kB"
  proof -
    have "card (set J) \<le> card {..<kv_get_size ?kB}" using m(5) by (intro card_mono) (auto simp: room_def)
    then show ?thesis using m(3,4) by (simp add: distinct_card)
  qed
  have "same_layers A ?B2" using lay k2(3) by (simp add: same_layout_def same_layers_def)
  then have data: "state_read_data ?B2 ?b (length ?I) si (data_bytes A ?a ?I @ r) q =
      (RTrue, r, q @ data_queue ?B2 ?b si (k_rows A ?a ?I) (v_rows A ?a ?I))"
    using k2 b card by (intro state_read_data_ok [OF A(1) a sp(1) A(3)]) simp_all
  have cnt: "read_u32 (le_bytes 4 (int (length ?I)) @ r') = Some (int (length ?I), r')" for r'
    using card fitsD(2) [OF okB(4)] by (intro read_u32_le) simp_all
  have "0 \<le> t" using B(2) by (simp add: valid_seq_def)
  then have "read_stream t j (seq_stream_bytes A s @ r, q, B) =
      Some (False, r, q @ data_queue ?B2 ?b si (k_rows A ?a ?I) (v_rows A ?a ?I), ?B2)"
    using A(3) cnt m(1) data lay
    by (simp add: read_stream_def seq_stream_bytes_def Let_def state_read_meta_def comp_def same_layout_def)
  then show ?thesis using m(2-6) by auto
qed

subsection \<open>Properties\<close>

lemma cells_other_cache:
  assumes "kv_get_size k2 = kv_get_size (ks_cache B)"
  shows "k_cell (B\<lparr>ks_cache := k2\<rparr>) = k_cell B" "v_cell (B\<lparr>ks_cache := k2\<rparr>) = v_cell B"
  using assms by (simp_all add: k_cell_def v_cell_def v_row_def v_parts_def fun_eq_iff Let_def split: option.split)

lemma concat_one_stream:
  assumes "a < n"
  shows "concat (map (\<lambda>j. if j = a then x else z) [0..<n]) =
    concat (map (\<lambda>_. z) [0..<a]) @ x @ concat (map (\<lambda>_. z) [Suc a..<n])"
proof -
  have "[0..<n] = [0..<a] @ a # [Suc a..<n]" using assms upt_add_eq_append [of 0 a "n - a"] by (simp add: upt_conv_Cons)
  moreover have "map (\<lambda>j. if j = a then x else z) [0..<a] = map (\<lambda>_. z) [0..<a]"
    "map (\<lambda>j. if j = a then x else z) [Suc a..<n] = map (\<lambda>_. z) [Suc a..<n]" by (auto intro: map_cong)
  ultimately show ?thesis by (simp only: map_append concat_append list.map concat.simps simp_thms if_True)
qed

lemma read_saved:
  assumes A: "store_ok A" "valid_seq (ks_cache A) s" "seq_idxs (ks_cache A) s \<noteq> []" and lay: "same_layout A B"
    and B: "store_ok B" "valid_seq (ks_cache B) t" "kv_swa_type (ks_cache B) = LLAMA_SWA_TYPE_NONE"
      "kv_n_pos_per_embd (ks_cache B) = 1 \<or> kv_n_pos_per_embd (ks_cache B) \<ge> 3"
    and fit: "length (seq_idxs (ks_cache A) s) \<le> card (room (ks_cache B) t)"
  shows "\<exists>si J k2. state_read t (drop 8 (seq_bytes A s)) B =
        Some (False, [], data_queue (B\<lparr>ks_cache := k2\<rparr>) (stream_of (ks_cache B) t) si
             (k_rows A (stream_of (ks_cache A) s) (seq_idxs (ks_cache A) s))
             (v_rows A (stream_of (ks_cache A) s) (seq_idxs (ks_cache A) s)), B\<lparr>ks_cache := k2\<rparr>)
    \<and> si_idxs si = [J] \<and> distinct J \<and> length J = length (seq_idxs (ks_cache A) s) \<and> set J \<subseteq> room (ks_cache B) t
    \<and> replaced (ks_cache B) t (map ((!) (cells_of (ks_cache A) (stream_of (ks_cache A) s))) (seq_idxs (ks_cache A) s)) J k2"
proof -
  let ?a = "stream_of (ks_cache A) s" and ?n = "kv_n_stream (ks_cache B)"
  note okA = store_okD [OF A(1)] and okB = store_okD [OF B(1)]
  have n: "kv_n_stream (ks_cache A) = ?n" using lay by (simp add: same_layout_def same_layers_def)
  have a: "?a < ?n" using kv_stream [OF okA(2) A(2)] n by simp
  let ?z = "le_bytes 4 0"
  let ?r = "concat (map (\<lambda>_. ?z) [Suc ?a..<?n])"
  have bytes: "drop 8 (seq_bytes A s) = le_bytes 4 (int ?n) @
      concat (map (\<lambda>_. ?z) [0..<?a]) @ seq_stream_bytes A s @ ?r"
    by (simp add: seq_bytes_def n concat_one_stream [OF a])
  have cnt: "read_u32 (le_bytes 4 (int ?n) @ r') = Some (int ?n, r')" for r'
    using fitsD(1) [OF okB(4)] by (intro read_u32_le) simp_all
  from read_saved_stream [OF assms, of ?a ?r "[]"] obtain si J k2 where
    r: "read_stream t ?a (seq_stream_bytes A s @ ?r, [], B) =
        Some (False, ?r, [] @ data_queue (B\<lparr>ks_cache := k2\<rparr>) (stream_of (ks_cache B) t) si
             (k_rows A ?a (seq_idxs (ks_cache A) s)) (v_rows A ?a (seq_idxs (ks_cache A) s)), B\<lparr>ks_cache := k2\<rparr>)"
      "si_idxs si = [J]" "distinct J" "length J = length (seq_idxs (ks_cache A) s)" "set J \<subseteq> room (ks_cache B) t"
      "replaced (ks_cache B) t (map ((!) (cells_of (ks_cache A) ?a)) (seq_idxs (ks_cache A) s)) J k2" by blast
  have "[0..<?n] = [0..<?a] @ ?a # [Suc ?a..<?n]" using a upt_add_eq_append [of 0 ?a "?n - ?a"] by (simp add: upt_conv_Cons)
  moreover have "read_streams t [Suc ?a..<?n] (?r, q, st) = Some (False, [], q, st)" for q st
    using read_empty_streams [of t "[Suc ?a..<?n]" "[]" q st] by simp
  ultimately have "read_streams t [0..<?n] (concat (map (\<lambda>_. ?z) [0..<?a]) @ seq_stream_bytes A s @ ?r, [], B) =
      Some (False, [], data_queue (B\<lparr>ks_cache := k2\<rparr>) (stream_of (ks_cache B) t) si
             (k_rows A ?a (seq_idxs (ks_cache A) s)) (v_rows A ?a (seq_idxs (ks_cache A) s)), B\<lparr>ks_cache := k2\<rparr>)"
    using r(1) by (simp only: read_streams_append read_empty_streams) simp
  then have "state_read t (drop 8 (seq_bytes A s)) B =
      Some (False, [], data_queue (B\<lparr>ks_cache := k2\<rparr>) (stream_of (ks_cache B) t) si
             (k_rows A ?a (seq_idxs (ks_cache A) s)) (v_rows A ?a (seq_idxs (ks_cache A) s)), B\<lparr>ks_cache := k2\<rparr>)"
    using kv_no_other [OF okB(2)] B(2) by (simp add: state_read_def bytes cnt)
  then show ?thesis using r(2-6) by blast
qed

text \<open>Saving a sequence and restoring the bytes into another store.\<close>

lemma save_restore:
  assumes A: "store_ok A" "valid_seq (ks_cache A) s" "seq_idxs (ks_cache A) s \<noteq> []" and lay: "same_layout A B"
    and B: "store_ok B" "valid_seq (ks_cache B) t" "kv_swa_type (ks_cache B) = LLAMA_SWA_TYPE_NONE"
      "kv_n_pos_per_embd (ks_cache B) = 1 \<or> kv_n_pos_per_embd (ks_cache B) \<ge> 3"
    and fit: "length (seq_idxs (ks_cache A) s) \<le> card (room (ks_cache B) t)"
  shows "\<exists>B' J. state_seq_set_data t (seq_bytes A s) B = Some (length (seq_bytes A s), B')
    \<and> distinct J \<and> length J = length (seq_idxs (ks_cache A) s) \<and> set J \<subseteq> room (ks_cache B) t
    \<and> replaced (ks_cache B) t (map ((!) (cells_of (ks_cache A) (stream_of (ks_cache A) s))) (seq_idxs (ks_cache A) s)) J (ks_cache B')
    \<and> (\<forall>m < length (ks_layers B). \<forall>st < kv_n_stream (ks_cache B). \<forall>i < kv_get_size (ks_cache B).
         k_cell B' m st i = moved J (seq_idxs (ks_cache A) s) (stream_of (ks_cache B) t)
           (k_cell A m (stream_of (ks_cache A) s)) (k_cell B m) st i
         \<and> v_cell B' m st i = moved J (seq_idxs (ks_cache A) s) (stream_of (ks_cache B) t)
           (v_cell A m (stream_of (ks_cache A) s)) (v_cell B m) st i)"
proof -
  let ?kA = "ks_cache A" and ?kB = "ks_cache B"
  let ?a = "stream_of ?kA s" and ?b = "stream_of ?kB t" and ?I = "seq_idxs ?kA s"
  note okA = store_okD [OF A(1)] and okB = store_okD [OF B(1)]
  from read_saved [OF assms] obtain si J k2 where
    r: "state_read t (drop 8 (seq_bytes A s)) B = Some (False, [],
          data_queue (B\<lparr>ks_cache := k2\<rparr>) ?b si (k_rows A ?a ?I) (v_rows A ?a ?I), B\<lparr>ks_cache := k2\<rparr>)"
      "si_idxs si = [J]" "distinct J" "length J = length ?I" "set J \<subseteq> room ?kB t"
      "replaced ?kB t (map ((!) (cells_of ?kA ?a)) ?I) J k2" by blast
  let ?B2 = "B\<lparr>ks_cache := k2\<rparr>"
  have k2: "kv_get_size k2 = kv_get_size ?kB" "kv_n_stream k2 = kv_n_stream ?kB"
    using r(6) kv_conf_cong(1) [of k2 ?kB] by (auto simp: replaced_def)
  have "same_layers A ?B2" using lay k2(2) by (simp add: same_layout_def same_layers_def)
  moreover have "tensors_ok ?B2" using okB(3) k2 by (simp add: tensors_ok_def v_len_def)
  moreover have "?b < kv_n_stream (ks_cache ?B2)" using kv_stream [OF okB(2) B(2)] k2(2) by simp
  moreover have "set J \<subseteq> {..<kv_get_size (ks_cache ?B2)}" using r(5) k2(1) by (auto simp: room_def)
  ultimately obtain B' where
    B': "flush (data_queue ?B2 ?b si (k_rows A ?a ?I) (v_rows A ?a ?I)) ?B2 = Some B'"
      "B' = ?B2\<lparr>ks_layers := ks_layers B'\<rparr>"
      "\<forall>m < length (ks_layers B). \<forall>st < kv_n_stream ?kB. \<forall>i < kv_get_size ?kB.
         k_cell B' m st i = moved J ?I ?b (k_cell A m ?a) (k_cell B m) st i
         \<and> v_cell B' m st i = moved J ?I ?b (v_cell A m ?a) (v_cell B m) st i"
    using flush_data_ok [OF A(1) kv_stream [OF okA(2) A(2)] seq_idxs_props(1) [OF okA(1) A(2)] A(3), of ?B2 ?b si J]
      r(2-4) cells_other_cache [of k2 B] k2 by auto
  have cache: "ks_cache B' = k2" using arg_cong [OF B'(2), of ks_cache] by simp
  have s: "0 \<le> s" "s \<le> INT32_MAX" using A(2) kv_seq_bound [OF okA(2) A(2)]
    by (auto simp: valid_seq_def LLAMA_MAX_SEQ_def)
  have hdr: "seq_bytes A s = le_bytes 4 io_magic @ le_bytes 4 s @ drop 8 (seq_bytes A s)" by (simp add: seq_bytes_def)
  have "state_seq_set_data t (le_bytes 4 io_magic @ le_bytes 4 s @ drop 8 (seq_bytes A s)) B =
      Some (length (seq_bytes A s), B')"
  proof -
    have "read_u32 (le_bytes 4 io_magic @ x) = Some (io_magic, x)" for x by (rule read_u32_le) (simp_all add: io_magic_def)
    moreover have "read_i32 (le_bytes 4 s @ x) = Some (s, x)" for x using s by (intro read_i32_le) simp_all
    moreover have "length (le_bytes 4 io_magic @ le_bytes 4 s @ drop 8 (seq_bytes A s)) = length (seq_bytes A s)"
      using arg_cong [OF hdr, of length] by simp
    ultimately show ?thesis using r(1) B'(1) by (simp add: state_seq_set_data_def)
  qed
  then show ?thesis using hdr r(3-6) B'(3) cache by (intro exI [of _ B'] exI [of _ J]) simp
qed


text \<open>
  The restore of an empty sequence does nothing at all: a sequence without cells is saved as a valid
  state, of which the reader skips every stream, so \<open>state_seq_set_data\<close> reports that it consumed
  the whole buffer and the destination keeps the cells, keys and values it had before.
\<close>

theorem kv_restore_empty_keeps:
  assumes "store_ok A" "store_ok B" "kv_n_stream (ks_cache A) = kv_n_stream (ks_cache B)"
    and "kv_swa_type (ks_cache A) = LLAMA_SWA_TYPE_NONE"
    and "valid_seq (ks_cache A) s" "s < int (ks_n_seq_max A)" "seq_local (ks_cache A) s"
    and "valid_seq (ks_cache B) t" "seq_idxs (ks_cache A) s = []"
  shows "\<exists>bs. state_seq_get_data s (length bs) A = Some (length bs, bs) \<and> length bs > 0
    \<and> state_seq_set_data t bs B = Some (length bs, B)"
proof -
  let ?n = "kv_n_stream (ks_cache B)"
  note okA = store_okD [OF assms(1)] and okB = store_okD [OF assms(2)]
  have hdr: "seq_bytes A s = le_bytes 4 io_magic @ le_bytes 4 s @ le_bytes 4 (int ?n) @
      concat (map (\<lambda>_. le_bytes 4 0) [0..<?n])"
    using assms(3,9) by (simp add: seq_bytes_def seq_stream_bytes_def cong: if_cong)
  have s: "0 \<le> s" "s \<le> INT32_MAX" using assms(5) kv_seq_bound [OF okA(2) assms(5)]
    by (auto simp: valid_seq_def LLAMA_MAX_SEQ_def)
  have "read_u32 (le_bytes 4 io_magic @ x) = Some (io_magic, x)" "read_i32 (le_bytes 4 s @ x) = Some (s, x)"
    "read_u32 (le_bytes 4 (int ?n) @ x) = Some (int ?n, x)" for x
    using s fitsD(1) [OF okB(4)] by (simp_all add: read_u32_le read_i32_le io_magic_def)
  then have "state_seq_set_data t (seq_bytes A s) B = Some (length (seq_bytes A s), B)"
    using read_empty_streams [of t "[0..<?n]" "[]" "[]" B] kv_no_other [OF okB(2)] assms(8)
    by (simp add: state_seq_set_data_def state_read_def hdr flush_def)
  moreover have "length (seq_bytes A s) > 0" by (simp add: hdr)
  ultimately show ?thesis using state_seq_get_ok(2) [OF assms(1,5,6,4,7)] by blast
qed

text \<open>The witness: the demonstration cache with one layer, whose values are stored transposed.\<close>

definition demo_layer :: kv_layer where
  "demo_layer =
     \<lparr>ly_k_type = \<lparr>tt_id = 1, tt_blck_size = 1, tt_type_size = 2\<rparr>, ly_n_embd_k = 1,
      ly_k_stream = [[1, 2, 3, 4, 5, 6, 7, 8]],
      ly_v_type = \<lparr>tt_id = 1, tt_blck_size = 1, tt_type_size = 2\<rparr>, ly_n_embd_v = 2,
      ly_v_stream = Some [[11, 12, 13, 14, 15, 16, 17, 18, 19, 20, 21, 22, 23, 24, 25, 26]]\<rparr>"

definition demo_store :: kv_store where
  "demo_store = \<lparr>ks_cache = demo_kv, ks_n_seq_max = 4, ks_v_trans = True, ks_layers = [demo_layer]\<rparr>"

lemma demo_size: "kv_get_size demo_kv = 4" "kv_n_stream demo_kv = 1" "cells_of demo_kv 0 = cells_abs demo_cells"
  by (simp_all add: kv_get_size_def demo_kv_def cells_size_def demo_cells_def cells_of_def)

lemma demo_stream: "s < 256 \<Longrightarrow> stream_of demo_kv s = 0"
  by (simp add: stream_of_def demo_kv_def LLAMA_MAX_SEQ_def)

lemma demo_store_ok: "store_ok demo_store"
proof -
  have "tensors_ok demo_store"
    by (simp add: tensors_ok_def demo_store_def demo_layer_def demo_size k_size_row_def ggml_row_size_def v_len_def)
  moreover have "fits demo_store"
    by (simp add: fits_def demo_store_def demo_layer_def demo_size demo_abs k_size_row_def v_size_row_def ggml_row_size_def
        ext_zero_def cell_none_def)
  ultimately show ?thesis by (simp add: store_ok_def demo_kv_inv) (simp add: demo_store_def demo_kv_inv)
qed

lemma demo_idxs: "seq_idxs demo_kv 0 = [0, 1]"
  by (simp add: seq_idxs_def demo_stream demo_size demo_abs upt_rec cell_none_def)

lemma demo_room: "room demo_kv 3 = {2, 3}"
proof -
  have "room demo_kv 3 = set (filter (\<lambda>i. cell_seq (cells_abs demo_cells ! i) \<subseteq> {3}) [0..<4])"
    by (auto simp: room_def demo_stream demo_size)
  then show ?thesis by (simp add: demo_abs upt_rec cell_none_def numeral_2_eq_2 numeral_3_eq_3)
qed

lemma demo_ready:
  "same_layout demo_store demo_store" "kv_swa_type (ks_cache demo_store) = LLAMA_SWA_TYPE_NONE"
  "kv_n_pos_per_embd (ks_cache demo_store) = 1 \<or> kv_n_pos_per_embd (ks_cache demo_store) \<ge> 3"
  "valid_seq (ks_cache demo_store) 0" "0 < int (ks_n_seq_max demo_store)" "seq_local (ks_cache demo_store) 0"
  "valid_seq (ks_cache demo_store) 3" "seq_idxs (ks_cache demo_store) 0 \<noteq> []"
  "length (seq_idxs (ks_cache demo_store) 0) \<le> card (room (ks_cache demo_store) 3)"
proof -
  have c: "ks_cache demo_store = demo_kv" by (simp add: demo_store_def)
  show "same_layout demo_store demo_store" "kv_swa_type (ks_cache demo_store) = LLAMA_SWA_TYPE_NONE"
    "kv_n_pos_per_embd (ks_cache demo_store) = 1 \<or> kv_n_pos_per_embd (ks_cache demo_store) \<ge> 3"
    "valid_seq (ks_cache demo_store) 0" "0 < int (ks_n_seq_max demo_store)" "seq_local (ks_cache demo_store) 0"
    "valid_seq (ks_cache demo_store) 3" "seq_idxs (ks_cache demo_store) 0 \<noteq> []"
    "length (seq_idxs (ks_cache demo_store) 0) \<le> card (room (ks_cache demo_store) 3)"
    using demo_ok(2) by (simp_all add: c same_layout_def same_layers_def list_all2_same seq_local_def demo_size demo_stream
        demo_valid demo_idxs demo_room) (simp_all add: demo_store_def demo_kv_def)
qed


theorem kv_restore_empty_keeps_witness:
  "\<exists>bs. state_seq_get_data 3 (length bs) demo_store = Some (length bs, bs) \<and> length bs > 0
    \<and> state_seq_set_data 0 bs demo_store = Some (length bs, demo_store) \<and> seq_idxs (ks_cache demo_store) 0 = [0, 1]"
proof -
  have c: "ks_cache demo_store = demo_kv" by (simp add: demo_store_def)
  have "seq_idxs demo_kv 3 = []" by (simp add: seq_idxs_def demo_stream demo_size demo_abs upt_rec cell_none_def)
  then have h: "kv_n_stream (ks_cache demo_store) = kv_n_stream (ks_cache demo_store)"
    "kv_swa_type (ks_cache demo_store) = LLAMA_SWA_TYPE_NONE"
    "valid_seq (ks_cache demo_store) 3" "3 < int (ks_n_seq_max demo_store)" "seq_local (ks_cache demo_store) 3"
    "valid_seq (ks_cache demo_store) 0" "seq_idxs (ks_cache demo_store) 3 = []"
    using demo_ok(2) by (simp_all add: c seq_local_def demo_size demo_stream demo_valid) (simp add: demo_store_def)
  from kv_restore_empty_keeps [OF demo_store_ok demo_store_ok h] show ?thesis by (simp add: c demo_idxs)
qed

text \<open>A cache with two streams, each with one cell in use.\<close>

definition two_streams :: kv_store where
  "two_streams =
     \<lparr>ks_cache =
        \<lparr>kv_other = None, kv_n_stream = 2, kv_seq_to_stream = [0, 1],
         kv_v_cells =
           [\<lparr>kc_has_shift = False, kc_used = {0}, kc_pos = [0, -1], kc_ext = [ext_zero, ext_zero], kc_shift = [0, 0],
             kc_seq = [{0}, {}], kc_seq_pos = (\<lambda>_. [])(0 := [(0, 1)])\<rparr>,
            \<lparr>kc_has_shift = False, kc_used = {0}, kc_pos = [0, -1], kc_ext = [ext_zero, ext_zero], kc_shift = [0, 0],
             kc_seq = [{1}, {}], kc_seq_pos = (\<lambda>_. [])(1 := [(0, 1)])\<rparr>],
         kv_v_heads = [1, 1], kv_sc_info = [], kv_n_swa = 0,
         kv_swa_type = LLAMA_SWA_TYPE_NONE, kv_n_pos_per_embd = 1\<rparr>,
      ks_n_seq_max = 2, ks_v_trans = False,
      ks_layers =
        [\<lparr>ly_k_type = \<lparr>tt_id = 0, tt_blck_size = 1, tt_type_size = 1\<rparr>, ly_n_embd_k = 1, ly_k_stream = [[1, 2], [3, 4]],
          ly_v_type = \<lparr>tt_id = 0, tt_blck_size = 1, tt_type_size = 1\<rparr>, ly_n_embd_v = 1,
          ly_v_stream = Some [[5, 6], [7, 8]]\<rparr>]\<rparr>"

definition whole_restore :: "kv_store \<Rightarrow> (bool \<times> nat \<times> nat list list) option" where
  "whole_restore st = do {
     cs \<leftarrow> state_write (-1) st;
     (thrown, rest, q, st') \<leftarrow> state_read (-1) (concat cs) st;
     Some (thrown, length rest,
       map (\<lambda>c. filter (\<lambda>i. kc_pos c ! i \<noteq> -1) [0..<cells_size c]) (kv_v_cells (ks_cache st'))) }"

text \<open>
  The restore of a whole cache with several streams loses all of them but the last: for each
  stream that has cells, \<open>state_read\<close> with sequence \<open>-1\<close> empties the whole cache, the streams it
  has just restored included. The state of the cache above is read back to its last byte without
  an exception, and its first stream is empty afterwards.
\<close>

theorem kv_whole_restore_loses_streams: "whole_restore two_streams = Some (False, 0, [[], [0]])"
  by code_simp

end
