(* ===== verification/Nif_State.thy ===== *)
theory Nif_State
  imports Nif_Kv Kv_Roundtrip
begin

text \<open>
  Moving a session between contexts: \<open>nif_kv_pack\<close> and \<open>nif_kv_unpack\<close> of \<open>erllama_nif_context.c\<close>
  over an engine whose memory is the KV cache with its tensors (\<open>Kv_State\<close>).
\<close>

subsection \<open>What a restored sequence holds\<close>

lemma replaced_seq_cells:
  assumes inv: "kv_inv k" "valid_seq k t" and J: "set J \<subseteq> room k t" "length J = length xs"
    and rep: "replaced k t xs J k'"
  shows "seq_cells k' t = {(J ! r, cell_pos (xs ! r)) |r. r < length xs}"
proof -
  let ?b = "stream_of k t"
  have ok: "kv_ok k" "kv_ok k'" using inv rep by (auto simp: replaced_def kv_inv_def)
  have conf: "stream_of k' = stream_of k" "kv_n_stream k' = kv_n_stream k"
    using rep kv_conf_cong [of k' k] by (simp_all add: replaced_def)
  note st = kv_stream [OF ok(1) inv(2)]
  have len: "length (cells_of k ?b) = kv_get_size k" "length (cells_of k' ?b) = kv_get_size k"
    using length_cells_of [OF ok(1) st] length_cells_of [OF ok(2), of ?b] st conf rep by (simp_all add: replaced_def)
  have new: "restored_cell (kv_n_pos_per_embd k) t (xs ! r) (cells_of k' ?b ! (J ! r))" if "r < length xs" for r
    using rep that by (simp add: replaced_def)
  have old: "nat t \<notin> cell_seq (cells_of k' ?b ! i)" if i: "i < kv_get_size k" "i \<notin> set J" for i
  proof -
    let ?x = "cells_of k ?b ! i"
    have "in_range (-1) (-1) (cell_pos ?x)" if h: "nat t \<in> cell_seq ?x"
    proof -
      have "(i, cell_pos ?x) \<in> seq_cells k t" using h i(1) len(1) by (auto simp: seq_cells_def holds_def)
      from kv.view_bounds [OF inv this] show ?thesis by (auto simp: in_range_def norm_p0_def norm_p1_def)
    qed
    then show ?thesis using rep i by (auto simp: replaced_def cell_rm_seq_member)
  qed
  show ?thesis (is "?l = ?r")
  proof (intro set_eqI iffI)
    fix x assume "x \<in> ?l"
    then obtain i where i: "i < kv_get_size k" "nat t \<in> cell_seq (cells_of k' ?b ! i)" "x = (i, cell_pos (cells_of k' ?b ! i))"
      using len(2) conf by (auto simp: seq_cells_def holds_def)
    then have "i \<in> set J" using old by blast
    then obtain r where "r < length xs" "i = J ! r" using J(2) by (auto simp: in_set_conv_nth)
    then show "x \<in> ?r" using new i(3) by (auto simp: restored_cell_def)
  next
    fix x assume "x \<in> ?r"
    then obtain r where r: "r < length xs" "x = (J ! r, cell_pos (xs ! r))" by blast
    then have "J ! r \<in> room k t" using subsetD [OF J(1) nth_mem] J(2) by simp
    then have "J ! r < kv_get_size k" by (simp add: room_def)
    then show "x \<in> ?l" using new [OF r(1)] r(2) len(2) conf by (auto simp: seq_cells_def holds_def restored_cell_def)
  qed
qed

lemma seq_cells_idxs:
  assumes "kv_inv k" "valid_seq k s"
  shows "snd ` seq_cells k s = set (map (\<lambda>i. cell_pos (cells_of k (stream_of k s) ! i)) (seq_idxs k s))"
proof -
  have ok: "kv_ok k" using assms(1) by (simp add: kv_inv_def)
  show ?thesis using length_cells_of [OF ok kv_stream [OF ok assms(2)]]
    by (auto simp: seq_cells_def holds_def seq_idxs_def image_iff)
qed

lemma replaced_positions:
  assumes k: "kv_inv k" "valid_seq k t" and A: "kv_inv kA" "valid_seq kA s"
    and J: "set J \<subseteq> room k t" "length J = length (seq_idxs kA s)"
    and rep: "replaced k t (map ((!) (cells_of kA (stream_of kA s))) (seq_idxs kA s)) J k'"
  shows "snd ` seq_cells k' t = snd ` seq_cells kA s"
proof -
  let ?I = "seq_idxs kA s" and ?p = "\<lambda>i. cell_pos (cells_of kA (stream_of kA s) ! i)"
  have "seq_cells k' t = (\<lambda>r. (J ! r, ?p (?I ! r))) ` {..<length ?I}"
    using replaced_seq_cells [OF k J(1) _ rep] J(2) by auto
  then have "snd ` seq_cells k' t = (\<lambda>r. ?p (?I ! r)) ` {..<length ?I}" by (simp add: image_image)
  also have "\<dots> = ?p ` set ?I" by (simp add: set_conv_nth image_image flip: image_Collect) (auto simp: set_conv_nth)
  finally show ?thesis by (simp add: seq_cells_idxs [OF A])
qed

text \<open>The rows of the restored cells.\<close>

lemma moved_cells:
  assumes "\<forall>l < L. \<forall>st < N. \<forall>i < kv_get_size k. K l st i = moved J I b (K' l) (K0 l) st i \<and> V l st i = moved J I b (V' l) (V0 l) st i"
    and "b < N" "set J \<subseteq> room k t" "distinct J" "length J = length I" "l < L" "r < length J"
  shows "K l b (J ! r) = K' l (I ! r) \<and> V l b (J ! r) = V' l (I ! r)"
proof -
  have "J ! r \<in> room k t" using subsetD [OF assms(3) nth_mem [OF assms(7)]] .
  then have "J ! r < kv_get_size k" by (simp add: room_def)
  moreover have "map_of (zip J I) (J ! r) = Some (I ! r)" using assms(4,5,7) by (simp add: map_of_zip_nth)
  ultimately show ?thesis using assms(1,2,6) by (simp add: moved_def)
qed

subsection \<open>An engine with state\<close>

text \<open>
  \<open>llama_state_seq_get_size\<close> and its kin synchronize and call the methods of the context, which
  reach the cache and its tensors \<open>mem n\<close>. Nothing is said of a call that violates an assertion.
\<close>

definition state_backed :: "('n, 's) llama_api \<Rightarrow> ('n \<Rightarrow> kv_store) \<Rightarrow> bool" where
  "state_backed api mem \<longleftrightarrow>
     kv_backed api (\<lambda>n. ks_cache (mem n)) \<and>
     (\<forall>n s sz. state_seq_get_size s (mem n) = Some sz \<longrightarrow> llama_state_seq_get_size api s n = Ret sz) \<and>
     (\<forall>n s sz r. state_seq_get_data s sz (mem n) = Some r \<longrightarrow> llama_state_seq_get_data api sz s n = Ret r) \<and>
     (\<forall>n s bs r st'. state_seq_set_data s bs (mem n) = Some (r, st') \<longrightarrow>
        (\<exists>n'. llama_state_seq_set_data api bs s n = (Ret r, n') \<and> mem n' = st'))"

lemma state_backedD:
  assumes "state_backed api mem"
  shows "kv_backed api (\<lambda>n. ks_cache (mem n))"
    and "state_seq_get_size s (mem n) = Some sz \<Longrightarrow> erllama_safe_state_seq_get_size api n s = sz"
    and "state_seq_get_data s sz (mem n) = Some r \<Longrightarrow> erllama_safe_state_seq_get_data api n sz s = r"
    and "state_seq_set_data s bs (mem n) = Some (m, st') \<Longrightarrow>
      \<exists>n'. erllama_safe_state_seq_set_data api bs s n = (m, n') \<and> mem n' = st'"
proof -
  note [simp] = erllama_safe_state_seq_get_size_def erllama_safe_state_seq_get_data_def erllama_safe_state_seq_set_data_def
  show "kv_backed api (\<lambda>n. ks_cache (mem n))" using assms by (simp add: state_backed_def)
  show "state_seq_get_size s (mem n) = Some sz \<Longrightarrow> erllama_safe_state_seq_get_size api n s = sz"
    using assms by (simp add: state_backed_def)
  show "state_seq_get_data s sz (mem n) = Some r \<Longrightarrow> erllama_safe_state_seq_get_data api n sz s = r"
    using assms by (cases r) (simp add: state_backed_def)
  show "state_seq_set_data s bs (mem n) = Some (m, st') \<Longrightarrow>
      \<exists>n'. erllama_safe_state_seq_set_data api bs s n = (m, n') \<and> mem n' = st'"
    using assms by (fastforce simp: state_backed_def)
qed

lemma pack_ok:
  assumes "state_backed api mem" "ctxs w i = Some c" "c_ctx c = Some n" "0 \<le> s" "s < ERLLAMA_N_SEQ_MAX_CAP"
    and "alloc ''out'' 0" "state_seq_get_size s (mem n) = Some (length bs)" "bs \<noteq> []" "length bs \<noteq> SIZE_MAX"
    and "state_seq_get_data s (length bs) (mem n) = Some (length bs, bs)"
  shows "nif_kv_pack api alloc [ERes CTX_RT i, toks, n_toks, EInt s] w = (w, Term (EBin bs))"
proof -
  have "s \<le> INT32_MAX" "INT32_MIN \<le> s" using assms by (simp_all add: ERLLAMA_N_SEQ_MAX_CAP_def)
  then show ?thesis
    using assms(2-6,8,9) state_backedD(2) [OF assms(1,7)] state_backedD(3) [OF assms(1,10)]
    by (simp add: nif_kv_pack_def with_ctx_def kv_pack_body_def Let_def)
qed


subsection \<open>Properties\<close>


text \<open>The instance for the witness: the state of the context is the store.\<close>

definition store_engine :: "(kv_store, nat) llama_api" where
  "store_engine = \<lparr>
     llama_get_model = (\<lambda>n. Ret (Some 0)), llama_model_get_vocab = (\<lambda>m. Ret (Some 0)),
     llama_vocab_n_tokens = (\<lambda>v. Ret 1000), llama_vocab_is_eog = (\<lambda>v t. Ret (t = 2)),
     llama_model_n_embd = (\<lambda>m. Ret 2), llama_n_ctx = (\<lambda>n. Ret 16), llama_n_batch = (\<lambda>n. Ret 4),
     llama_decode = (\<lambda>poll b n. (Ret 0, n)), llama_get_logits_ith = (\<lambda>n i. Ret None),
     llama_get_memory = (\<lambda>n. Ret True),
     llama_memory_seq_rm = (\<lambda>s p0 p1 n. case kv_seq_rm s p0 p1 (ks_cache n) of
       None \<Rightarrow> (Throw, n) | Some (k, b) \<Rightarrow> (Ret b, n\<lparr>ks_cache := k\<rparr>)),
     llama_memory_seq_cp = (\<lambda>s t p0 p1 n. case kv_seq_cp s t p0 p1 (ks_cache n) of
       None \<Rightarrow> (Throw, n) | Some k \<Rightarrow> (Ret (), n\<lparr>ks_cache := k\<rparr>)),
     llama_memory_seq_pos_max = (\<lambda>s n. case kv_seq_pos_max s (ks_cache n) of None \<Rightarrow> Throw | Some p \<Rightarrow> Ret p),
     llama_state_seq_get_size = (\<lambda>s n. case state_seq_get_size s n of None \<Rightarrow> Throw | Some sz \<Rightarrow> Ret sz),
     llama_state_seq_get_data = (\<lambda>sz s n. case state_seq_get_data s sz n of None \<Rightarrow> Throw | Some r \<Rightarrow> Ret r),
     llama_state_seq_set_data = (\<lambda>bs s n. case state_seq_set_data s bs n of None \<Rightarrow> (Throw, n) | Some (r, n') \<Rightarrow> (Ret r, n')),
     llama_set_embeddings = (\<lambda>v n. (Ret (), n)),
     llama_get_embeddings_seq = (\<lambda>n s. Ret None), llama_get_embeddings = (\<lambda>n. Ret None),
     llama_sampler_sample = (\<lambda>s n i. (Ret 7, Suc s))\<rparr>"

lemma store_engine_backed: "state_backed store_engine (\<lambda>n. n)"
  by (auto simp: state_backed_def kv_backed_def store_engine_def split: option.splits)

definition store_c :: "(kv_store, nat) context_res" where
  "store_c = new_context_res demo_store 1000"

definition store_w :: "(kv_store, nat) nif_state" where
  "store_w = \<lparr>ctxs = [0 \<mapsto> store_c, 1 \<mapsto> store_c], samplers = Map.empty\<rparr>"

lemma store_w_simps:
  "ctxs store_w 0 = Some store_c" "c_ctx store_c = Some demo_store" "ctxs store_w 1 = Some store_c" "ctx_ok store_c"
  by (simp_all add: store_w_def store_c_def new_context_res_def ctx_ok_def)

lemma demo_saved_size: "state_seq_get_size 0 demo_store \<noteq> Some SIZE_MAX"
proof -
  have "state_seq_get_size 0 demo_store = Some 84" by code_simp
  then show ?thesis by simp
qed


end
