(* ===== verification/Ngram_Mod.thy ===== *)
theory Ngram_Mod
  imports Erllama_Base
begin

text \<open>
  The draft-model-free speculator of llama.cpp: the n-gram table of \<open>common/ngram-mod.cpp\<close> and
  the implementation \<open>common_speculative_impl_ngram_mod\<close> of \<open>common/speculative.cpp\<close> with
  the dispatch around it.

  The table of \<open>size\<close> entries is a function from slots; the hash is 64-bit arithmetic. A
  pointer into the middle of a token vector is the rest of the list. \<open>GGML_ASSERT\<close> aborts the
  process: \<open>None\<close>. An exception leaves the state it was thrown in.
\<close>

record ngram_mod =
  nm_n :: nat
  nm_used :: nat
  nm_size :: nat
  nm_entries :: "nat \<Rightarrow> llama_token"

definition EMPTY :: llama_token where
  "EMPTY = -1"

definition mod_reset :: "ngram_mod \<Rightarrow> ngram_mod" where
  "mod_reset m = m\<lparr>nm_entries := \<lambda>_. EMPTY, nm_used := 0\<rparr>"

definition mod_new :: "16 word \<Rightarrow> nat \<Rightarrow> ngram_mod" where
  "mod_new n sz = mod_reset \<lparr>nm_n = unat n, nm_used = 0, nm_size = sz, nm_entries = \<lambda>_. 0\<rparr>"

definition mod_idx :: "ngram_mod \<Rightarrow> llama_token list \<Rightarrow> nat" where
  "mod_idx m tokens =
     unat (foldl (\<lambda>res t. res * 6364136223846793005 + word_of_int t) (0 :: u64) (take (nm_n m) tokens))
       mod nm_size m"

definition mod_add :: "llama_token list \<Rightarrow> ngram_mod \<Rightarrow> ngram_mod" where
  "mod_add tokens m =
     (let i = mod_idx m tokens;
          m' = (if nm_entries m i = EMPTY then m\<lparr>nm_used := nm_used m + 1\<rparr> else m)
      in m'\<lparr>nm_entries := (nm_entries m')(i := tokens ! nm_n m)\<rparr>)"

definition mod_get :: "ngram_mod \<Rightarrow> llama_token list \<Rightarrow> llama_token" where
  "mod_get m tokens = nm_entries m (mod_idx m tokens)"

text \<open>The loops \<open>for (i = a; i < b; ++i) mod.add(prompt.data() + i)\<close>.\<close>

definition add_range :: "llama_token list \<Rightarrow> nat \<Rightarrow> nat \<Rightarrow> ngram_mod \<Rightarrow> ngram_mod" where
  "add_range prompt a b m = foldl (\<lambda>m i. mod_add (drop i prompt) m) m [a..<b]"

subsection \<open>The implementation\<close>

record seq_info =
  i_last :: nat
  n_draft_last :: nat
  n_low :: nat

record ngram_impl =
  im_n_max :: int
  im_n_min :: int
  im_mod :: ngram_mod
  im_sinfos :: "seq_info list"

definition impl_new :: "int \<Rightarrow> int \<Rightarrow> int \<Rightarrow> nat \<Rightarrow> ngram_impl" where
  "impl_new n_match n_max n_min n_seq =
     \<lparr>im_n_max = n_max, im_n_min = n_min, im_mod = mod_new (word_of_int n_match) (4 * 1024 * 1024),
      im_sinfos = replicate n_seq \<lparr>i_last = 0, n_draft_last = 0, n_low = 0\<rparr>\<rparr>"

definition put_sinfo :: "nat \<Rightarrow> seq_info \<Rightarrow> ngram_impl \<Rightarrow> ngram_impl" where
  "put_sinfo s si im = im\<lparr>im_sinfos := (im_sinfos im)[s := si]\<rparr>"

text \<open>
  The occupancy and acceptance tests divide doubles and compare with 0.25; the operands are far
  below \<open>2 ^ 53\<close>, so the comparison is the exact one.
\<close>

definition impl_begin :: "nat \<Rightarrow> llama_token list \<Rightarrow> ngram_impl \<Rightarrow> ngram_impl" where
  "impl_begin s prompt im =
     (let m = im_mod im; n = nm_n m;
          si = (im_sinfos im ! s)\<lparr>i_last := 0, n_draft_last := 0\<rparr>
      in if length prompt < n then put_sinfo s si im
         else
           let m1 = add_range prompt 0 (length prompt - n) m;
               m2 = (if 4 * nm_used m1 > nm_size m1 then mod_reset m1 else m1)
           in put_sinfo s (si\<lparr>i_last := length prompt - n\<rparr>) (im\<lparr>im_mod := m2\<rparr>))"

text \<open>
  The lookup loop. The result vector holds the context of \<open>n\<close> tokens and the \<open>i\<close> tokens
  drafted so far; \<open>k\<close> iterations are left. An empty slot before \<open>n_min\<close> tokens clears it.
\<close>

fun draft_loop :: "ngram_mod \<Rightarrow> int \<Rightarrow> nat \<Rightarrow> nat \<Rightarrow> llama_token list \<Rightarrow> llama_token list" where
  "draft_loop m n_min 0 i result = drop (nm_n m) result"
| "draft_loop m n_min (Suc k) i result =
     (let token = mod_get m (drop i result) in
      if token = EMPTY then (if int i < n_min then [] else drop (nm_n m) result)
      else draft_loop m n_min k (Suc i) (result @ [token]))"

text \<open>The \<open>n - 1\<close> last prompt tokens and \<open>id_last\<close>.\<close>

definition draft_context :: "nat \<Rightarrow> llama_token list \<Rightarrow> llama_token \<Rightarrow> llama_token list" where
  "draft_context n prompt id_last = drop (length prompt - n + 1) prompt @ [id_last]"

text \<open>
  \<open>draft_one\<close>: the state, the result vector and whether an exception was thrown. With \<open>n = 0\<close> the
  bound \<open>n - 1\<close> wraps and the first \<open>prompt.at\<close> is out of range, after the result has been
  resized.
\<close>

definition draft_one ::
  "nat \<Rightarrow> llama_token list \<Rightarrow> llama_token \<Rightarrow> llama_token list \<Rightarrow> ngram_impl
     \<Rightarrow> ngram_impl \<times> llama_token list \<times> bool" where
  "draft_one s prompt id_last result im =
     (let m = im_mod im; n = nm_n m; cur_len = length prompt;
          si = (im_sinfos im ! s)\<lparr>n_draft_last := 0\<rparr>
      in if cur_len < n then (put_sinfo s si im, result, False)
         else
           let grow = (i_last si + 32 < cur_len);
               m1 = (if grow then add_range prompt (i_last si) (cur_len - n) m else m);
               si1 = (if grow then si\<lparr>i_last := cur_len - n\<rparr> else si);
               im1 = im\<lparr>im_mod := m1\<rparr>
           in if n = 0 then (put_sinfo s si1 im1, result @ replicate (nat (im_n_max im) - length result) 0, True)
              else
                let r = draft_loop m1 (im_n_min im) (nat (im_n_max im)) 0 (draft_context n prompt id_last)
                in (put_sinfo s (si1\<lparr>n_draft_last := length r\<rparr>) im1, r, False))"

definition impl_accept :: "nat \<Rightarrow> nat \<Rightarrow> ngram_impl \<Rightarrow> ngram_impl" where
  "impl_accept s n_accepted im =
     (let si = im_sinfos im ! s in
      if n_draft_last si > 0 then
        if 4 * n_accepted < n_draft_last si then
          let si1 = si\<lparr>n_low := n_low si + 1\<rparr> in
          if n_low si1 \<ge> 5
          then put_sinfo s (si1\<lparr>n_low := 0, i_last := 0\<rparr>) (im\<lparr>im_mod := mod_reset (im_mod im)\<rparr>)
          else put_sinfo s si1 im
        else put_sinfo s (si\<lparr>n_low := 0\<rparr>) im
      else im)"

subsection \<open>Facts of the table\<close>

lemma mod_reset_simps [simp]:
  "nm_n (mod_reset m) = nm_n m" "nm_size (mod_reset m) = nm_size m"
  "nm_entries (mod_reset m) = (\<lambda>_. EMPTY)" "nm_used (mod_reset m) = 0"
  by (simp_all add: mod_reset_def)

lemma mod_add_simps [simp]:
  "nm_n (mod_add ts m) = nm_n m" "nm_size (mod_add ts m) = nm_size m"
  "nm_entries (mod_add ts m) = (nm_entries m)(mod_idx m ts := ts ! nm_n m)"
  by (simp_all add: mod_add_def Let_def)

lemma mod_idx_cong: "nm_n m = nm_n m' \<Longrightarrow> nm_size m = nm_size m' \<Longrightarrow> mod_idx m = mod_idx m'"
  by (simp add: mod_idx_def fun_eq_iff)

lemma mod_idx_bound: "0 < nm_size m \<Longrightarrow> mod_idx m ts < nm_size m"
  by (simp add: mod_idx_def)

text \<open>An n-gram just added is found again, until a colliding one is added.\<close>

lemma mod_get_add: "mod_get (mod_add ts m) us = (if mod_idx m us = mod_idx m ts then ts ! nm_n m else mod_get m us)"
  by (simp add: mod_get_def mod_idx_cong [of "mod_add ts m" m])

text \<open>\<open>used\<close> counts the occupied slots as long as no empty token is stored.\<close>

definition mod_ok :: "ngram_mod \<Rightarrow> bool" where
  "mod_ok m \<longleftrightarrow> 0 < nm_size m \<and> nm_used m = card {i. i < nm_size m \<and> nm_entries m i \<noteq> EMPTY}
     \<and> (\<forall>i \<ge> nm_size m. nm_entries m i = EMPTY)"

lemma mod_ok_reset [simp]: "0 < nm_size m \<Longrightarrow> mod_ok (mod_reset m)"
  by (simp add: mod_ok_def)

lemma mod_ok_add:
  assumes "mod_ok m" "ts ! nm_n m \<noteq> EMPTY"
  shows "mod_ok (mod_add ts m)"
proof -
  let ?i = "mod_idx m ts" and ?S = "{i. i < nm_size m \<and> nm_entries m i \<noteq> EMPTY}"
  have i: "?i < nm_size m" using assms by (simp add: mod_ok_def mod_idx_bound)
  have set: "{j. j < nm_size m \<and> ((nm_entries m)(?i := ts ! nm_n m)) j \<noteq> EMPTY} = insert ?i ?S"
    using i assms(2) by auto
  have "nm_used (mod_add ts m) = (if nm_entries m ?i = EMPTY then nm_used m + 1 else nm_used m)"
    by (simp add: mod_add_def Let_def)
  also have "\<dots> = card (insert ?i ?S)"
    using assms(1) i by (auto simp: mod_ok_def insert_absorb)
  finally show ?thesis using assms(1) i set by (auto simp: mod_ok_def)
qed

text \<open>The tokens a table may answer with.\<close>

definition mod_tokens :: "ngram_mod \<Rightarrow> llama_token set" where
  "mod_tokens m = range (nm_entries m) - {EMPTY}"

lemma mod_tokens_reset [simp]: "mod_tokens (mod_reset m) = {}"
  by (simp add: mod_tokens_def)

lemma mod_tokens_add: "mod_tokens (mod_add ts m) \<subseteq> insert (ts ! nm_n m) (mod_tokens m)"
  by (auto simp: mod_tokens_def)

lemma add_range_simps [simp]:
  "nm_n (add_range p a b m) = nm_n m" "nm_size (add_range p a b m) = nm_size m"
proof -
  have "nm_n (foldl (\<lambda>m i. mod_add (drop i p) m) m is) = nm_n m \<and>
        nm_size (foldl (\<lambda>m i. mod_add (drop i p) m) m is) = nm_size m" for "is"
    by (induction "is" arbitrary: m) simp_all
  then show "nm_n (add_range p a b m) = nm_n m" "nm_size (add_range p a b m) = nm_size m"
    by (simp_all add: add_range_def)
qed

text \<open>Adding a range of n-grams of a prompt of real tokens.\<close>

lemma add_range_ok:
  assumes "mod_ok m" "\<forall>t\<in>set p. 0 \<le> t" "b + nm_n m \<le> length p" "mod_tokens m \<subseteq> T"
  shows "mod_ok (add_range p a b m) \<and> mod_tokens (add_range p a b m) \<subseteq> T \<union> set p"
proof -
  have "mod_ok (foldl (\<lambda>m i. mod_add (drop i p) m) m is) \<and>
        mod_tokens (foldl (\<lambda>m i. mod_add (drop i p) m) m is) \<subseteq> T \<union> set p"
    if "mod_ok m" "\<forall>i\<in>set is. i + nm_n m < length p" "mod_tokens m \<subseteq> T \<union> set p" for "is" m
    using that
  proof (induction "is" arbitrary: m)
    case (Cons i "is")
    let ?ts = "drop i p"
    have "?ts ! nm_n m = p ! (i + nm_n m)" "i + nm_n m < length p" using Cons.prems(2) by simp_all
    then have t: "?ts ! nm_n m \<in> set p" by simp
    then have "?ts ! nm_n m \<noteq> EMPTY" using assms(2) by (auto simp: EMPTY_def)
    then have "mod_ok (mod_add ?ts m)" by (rule mod_ok_add [OF Cons.prems(1)])
    moreover have "mod_tokens (mod_add ?ts m) \<subseteq> T \<union> set p" using mod_tokens_add [of ?ts m] t Cons.prems(3) by blast
    ultimately show ?case using Cons.IH [of "mod_add ?ts m"] Cons.prems(2) by simp
  qed simp
  note loop = this
  show ?thesis unfolding add_range_def by (rule loop) (use assms in auto)
qed

text \<open>
  The shape of a draft: a chain of lookups from the context on, every token of it in the table,
  of at least \<open>n_min\<close> tokens unless it is empty or ran to the limit.
\<close>

lemma draft_loop_spec:
  assumes "length r = nm_n m + i" "draft_loop m n_min k i r = d" "nm_n m + i \<le> length r"
  shows "d = [] \<or> (\<exists>e. d = drop (nm_n m) r @ e \<and> length e \<le> k \<and> set e \<subseteq> mod_tokens m \<and>
      (\<forall>j < length e. mod_get m (drop (i + j) (r @ e)) = e ! j) \<and>
      (length e = k \<or> n_min \<le> int (i + length e)))"
  using assms
proof (induction m n_min k i r rule: draft_loop.induct)
  case (1 m n_min i r)
  then show ?case by auto
next
  case (2 m n_min k i r)
  let ?t = "mod_get m (drop i r)"
  show ?case
  proof (cases "?t = EMPTY")
    case True
    then show ?thesis using 2(3) by (auto simp: Let_def split: if_splits)
  next
    case False
    then have d: "draft_loop m n_min k (Suc i) (r @ [?t]) = d" using 2(3) by (simp add: Let_def)
    from 2(1) [OF refl False _ d] 2(2) consider "d = []" | e where
      "d = drop (nm_n m) (r @ [?t]) @ e" "length e \<le> k" "set e \<subseteq> mod_tokens m"
      "\<forall>j < length e. mod_get m (drop (Suc i + j) ((r @ [?t]) @ e)) = e ! j"
      "length e = k \<or> n_min \<le> int (Suc i + length e)" by auto
    then show ?thesis
    proof cases
      case (2 e)
      have "?t \<in> mod_tokens m" using False by (auto simp: mod_get_def mod_tokens_def)
      moreover have "mod_get m (drop (i + j) (r @ ?t # e)) = (?t # e) ! j" if "j < length (?t # e)" for j
      proof (cases j)
        case 0
        have "nm_n m \<le> length (drop i r)" using \<open>length r = nm_n m + i\<close> by simp
        then have "take (nm_n m) (drop i r @ ?t # e) = take (nm_n m) (drop i r)" by simp
        then have "mod_idx m (drop i r @ ?t # e) = mod_idx m (drop i r)" by (simp add: mod_idx_def)
        then show ?thesis using 0 \<open>length r = nm_n m + i\<close> by (simp add: mod_get_def)
      next
        case (Suc j')
        then show ?thesis using 2(4) that by simp
      qed
      moreover have "drop (nm_n m) (r @ [?t]) = drop (nm_n m) r @ [?t]" using \<open>length r = nm_n m + i\<close> by simp
      ultimately show ?thesis using 2 by (intro disjI2 exI [of _ "?t # e"]) auto
    qed simp
  qed
qed

end
