(* ===== verification/Spec_Nif.thy ===== *)
theory Spec_Nif
  imports Nif_Util Ngram_Mod
begin

text \<open>
  The speculator resource of \<open>c_src/erllama_spec_nif.cpp\<close> over \<open>common_speculative\<close> of
  \<open>common/speculative.cpp\<close> with its one implementation, \<open>Ngram_Mod\<close>. The draft parameters of a
  sequence point at the holder's own prompt and result vectors. A \<open>GGML_ASSERT\<close> that fails
  aborts the virtual machine: \<open>None\<close>. The call counters, timers and per-position acceptance
  statistics, which nothing reads, are left out.
\<close>

text \<open>\<open>cs_drafting\<close> is the flag of each \<open>dparams\<close>; \<open>cs_impl_last\<close> whether \<open>impl_last\<close> is set.\<close>

record common_speculative =
  cs_drafting :: "bool list"
  cs_id_last :: "llama_token list"
  cs_impl :: ngram_impl
  cs_impl_last :: "bool list"

record spec_holder =
  sh_spec :: "common_speculative option"
  sh_n_seq :: nat
  sh_prompts :: "llama_token list list"
  sh_results :: "llama_token list list"
  sh_last_draft_len :: "nat list"

definition common_speculative_init :: "int \<Rightarrow> int \<Rightarrow> int \<Rightarrow> nat \<Rightarrow> common_speculative" where
  "common_speculative_init n_match n_max n_min n_seq =
     \<lparr>cs_drafting = replicate n_seq False, cs_id_last = replicate n_seq 0,
      cs_impl = impl_new n_match n_max n_min n_seq, cs_impl_last = replicate n_seq False\<rparr>"

text \<open>
  \<open>impl->draft\<close>: every drafting sequence in turn, until one throws. Results and prompts are the
  holder's vectors.
\<close>

fun draft_all ::
  "nat list \<Rightarrow> llama_token list list \<Rightarrow> common_speculative \<Rightarrow> llama_token list list
     \<Rightarrow> common_speculative \<times> llama_token list list \<times> bool" where
  "draft_all [] prompts cs results = (cs, results, False)"
| "draft_all (s # ss) prompts cs results =
     (if \<not> cs_drafting cs ! s then draft_all ss prompts cs results
      else
        let (im, r, thrown) = draft_one s (prompts ! s) (cs_id_last cs ! s) (results ! s) (cs_impl cs);
            cs' = cs\<lparr>cs_impl := im\<rparr>; results' = results[s := r]
        in if thrown then (cs', results', True) else draft_all ss prompts cs' results')"

text \<open>
  \<open>common_speculative_draft\<close>. There is one implementation, so the loop over them runs once. The
  caller's limit \<open>n_max\<close> is -1 (\<open>nif_spec_draft\<close> sets it), so no draft is truncated.
\<close>

definition common_speculative_draft ::
  "llama_token list list \<Rightarrow> common_speculative \<Rightarrow> llama_token list list
     \<Rightarrow> (common_speculative \<times> llama_token list list \<times> bool) option" where
  "common_speculative_draft prompts cs results =
     (let n = length (cs_drafting cs) in
      if list_ex (\<lambda>s. cs_drafting cs ! s \<and> results ! s \<noteq> []) [0..<n] then None
      else if list_all (\<lambda>s. \<not> cs_drafting cs ! s) [0..<n] then Some (cs, results, False)
      else
        let (cs1, results1, thrown) = draft_all [0..<n] prompts cs results in
        if thrown then Some (cs1, results1, True)
        else
          Some (cs1\<lparr>cs_impl_last := map (\<lambda>s. cs_impl_last cs1 ! s \<or> cs_drafting cs1 ! s \<and> results1 ! s \<noteq> [])
                       [0..<n],
                     cs_drafting := replicate n False\<rparr>,
                results1, False))"

definition common_speculative_accept ::
  "nat \<Rightarrow> 16 word \<Rightarrow> common_speculative \<Rightarrow> common_speculative option" where
  "common_speculative_accept s n_accepted cs =
     (if \<not> cs_impl_last cs ! s then (if n_accepted = 0 then Some cs else None)
      else Some (cs\<lparr>cs_impl := impl_accept s (unat n_accepted) (cs_impl cs)\<rparr>))"

subsection \<open>Entry points\<close>

text \<open>
  \<open>read_tokens\<close> appends to the vector as it goes: the vector it leaves and whether the list was
  well formed.
\<close>

fun read_tokens_into :: "eterm list \<Rightarrow> llama_token list \<Rightarrow> llama_token list \<times> bool" where
  "read_tokens_into [] out = (out, True)"
| "read_tokens_into (h # hs) out =
     (case enif_get_int h of None \<Rightarrow> (out, False)
      | Some v \<Rightarrow> if v < 0 then (out, False) else read_tokens_into hs (out @ [v]))"

definition read_tokens :: "eterm \<Rightarrow> llama_token list \<Rightarrow> llama_token list \<times> bool" where
  "read_tokens list out =
     (case enif_get_list_length list of None \<Rightarrow> (out, False)
      | Some n \<Rightarrow> read_tokens_into (list_cells list) out)"

type_synonym spec_state = "nat \<Rightarrow> spec_holder option"

text \<open>An option of \<open>nif_spec_new\<close>: absent keeps the default, too small is \<open>badarg\<close> (\<open>None\<close>).\<close>

definition spec_opt :: "eterm \<Rightarrow> string \<Rightarrow> int \<Rightarrow> int \<Rightarrow> int option" where
  "spec_opt cfg key least dflt =
     (case get_map_int31 cfg key of None \<Rightarrow> Some dflt | Some i \<Rightarrow> if i < least then None else Some i)"

definition spec_n_seq :: "eterm \<Rightarrow> nat option" where
  "spec_n_seq cfg =
     (case get_map_uint cfg ''n_seq'' of None \<Rightarrow> Some 1
      | Some u \<Rightarrow> if u < 1 \<or> u > 256 then None else Some (nat u))"

definition nif_spec_new :: "nat \<Rightarrow> bool \<Rightarrow> eterm \<Rightarrow> spec_state \<Rightarrow> spec_state \<times> nif_ret" where
  "nif_spec_new fresh alloc cfg w =
     (if \<not> enif_is_map cfg then (w, Badarg)
      else
        (case (spec_opt cfg ''n_match'' 1 24, spec_opt cfg ''n_max'' 1 64, spec_opt cfg ''n_min'' 0 48,
               spec_n_seq cfg) of
           (Some n_match, Some n_max, Some n_min, Some n_seq) \<Rightarrow>
             if \<not> alloc then (w, err ''oom'')
             else
               (w(fresh \<mapsto> \<lparr>sh_spec = Some (common_speculative_init n_match n_max n_min n_seq),
                   sh_n_seq = n_seq, sh_prompts = replicate n_seq [], sh_results = replicate n_seq [],
                   sh_last_draft_len = replicate n_seq 0\<rparr>),
                Term (ETuple [atom_ok, ERes SPEC_RT fresh]))
         | _ \<Rightarrow> (w, Badarg)))"

text \<open>Lock, liveness and sequence bound, shared by the entry points on a sequence.\<close>

definition with_spec ::
  "nat \<Rightarrow> int \<Rightarrow> spec_state \<Rightarrow> (spec_holder \<Rightarrow> common_speculative \<Rightarrow> (spec_holder \<times> nif_ret) option)
     \<Rightarrow> (spec_state \<times> nif_ret) option" where
  "with_spec i seq w body =
     (case w i of None \<Rightarrow> Some (w, Badarg)
      | Some h \<Rightarrow>
        (case sh_spec h of None \<Rightarrow> Some (w, err ''released'')
         | Some cs \<Rightarrow>
             if seq \<ge> int (sh_n_seq h) then Some (w, Badarg)
             else map_option (\<lambda>(h', r). (w(i \<mapsto> h'), r)) (body h cs)))"

definition spec_begin_body :: "nat \<Rightarrow> eterm \<Rightarrow> spec_holder \<Rightarrow> common_speculative \<Rightarrow> (spec_holder \<times> nif_ret) option" where
  "spec_begin_body s toks h cs =
     (let (p, good) = read_tokens toks [];
          h1 = h\<lparr>sh_prompts := (sh_prompts h)[s := p]\<rparr>
      in if \<not> good then Some (h1, Badarg)
         else Some (h1\<lparr>sh_last_draft_len := (sh_last_draft_len h)[s := 0],
                       sh_spec := Some (cs\<lparr>cs_impl := impl_begin s p (cs_impl cs)\<rparr>)\<rparr>,
                    Term atom_ok))"

definition nif_spec_begin :: "eterm \<Rightarrow> eterm \<Rightarrow> eterm \<Rightarrow> spec_state \<Rightarrow> (spec_state \<times> nif_ret) option" where
  "nif_spec_begin ref seq_t toks w =
     (case enif_get_resource SPEC_RT ref of None \<Rightarrow> Some (w, Badarg)
      | Some i \<Rightarrow>
        (case enif_get_int seq_t of None \<Rightarrow> Some (w, Badarg)
         | Some seq \<Rightarrow>
             if seq < 0 then Some (w, Badarg)
             else with_spec i seq w (spec_begin_body (nat seq) toks)))"

definition spec_draft_body ::
  "nat \<Rightarrow> llama_token \<Rightarrow> eterm \<Rightarrow> spec_holder \<Rightarrow> common_speculative \<Rightarrow> (spec_holder \<times> nif_ret) option" where
  "spec_draft_body s id_last toks h cs =
     (let (p, good) = read_tokens toks (sh_prompts h ! s);
          h1 = h\<lparr>sh_prompts := (sh_prompts h)[s := p]\<rparr>
      in if \<not> good then Some (h1, Badarg)
         else
           let results = (sh_results h)[s := []];
               cs1 = cs\<lparr>cs_drafting := (cs_drafting cs)[s := True], cs_id_last := (cs_id_last cs)[s := id_last]\<rparr>
           in (case common_speculative_draft (sh_prompts h1) cs1 results of
                 None \<Rightarrow> None
               | Some (cs2, results2, thrown) \<Rightarrow>
                   let h2 = h1\<lparr>sh_spec := Some cs2, sh_results := results2,
                               sh_last_draft_len := (sh_last_draft_len h)
                                 [s := if thrown then 0 else length (results2 ! s)]\<rparr>
                   in Some (h2, if thrown then err ''exception''
                                else Term (ETuple [atom_ok, mk_list (map EInt (results2 ! s))]))))"

definition nif_spec_draft ::
  "eterm \<Rightarrow> eterm \<Rightarrow> eterm \<Rightarrow> eterm \<Rightarrow> spec_state \<Rightarrow> (spec_state \<times> nif_ret) option" where
  "nif_spec_draft ref seq_t last_t toks w =
     (case enif_get_resource SPEC_RT ref of None \<Rightarrow> Some (w, Badarg)
      | Some i \<Rightarrow>
        (case (enif_get_int seq_t, enif_get_int last_t) of
           (Some seq, Some id_last) \<Rightarrow>
             if seq < 0 \<or> id_last < 0 then Some (w, Badarg)
             else with_spec i seq w (spec_draft_body (nat seq) id_last toks)
         | _ \<Rightarrow> Some (w, Badarg)))"

definition spec_accept_body :: "nat \<Rightarrow> int \<Rightarrow> spec_holder \<Rightarrow> common_speculative \<Rightarrow> (spec_holder \<times> nif_ret) option" where
  "spec_accept_body s n_acc h cs =
     (if n_acc > int (sh_last_draft_len h ! s) then Some (h, Badarg)
      else
        map_option (\<lambda>cs'. (h\<lparr>sh_spec := Some cs', sh_last_draft_len := (sh_last_draft_len h)[s := 0]\<rparr>, Term atom_ok))
          (if sh_last_draft_len h ! s > 0 then common_speculative_accept s (word_of_int n_acc) cs else Some cs))"

definition nif_spec_accept :: "eterm \<Rightarrow> eterm \<Rightarrow> eterm \<Rightarrow> spec_state \<Rightarrow> (spec_state \<times> nif_ret) option" where
  "nif_spec_accept ref seq_t acc_t w =
     (case enif_get_resource SPEC_RT ref of None \<Rightarrow> Some (w, Badarg)
      | Some i \<Rightarrow>
        (case (enif_get_int seq_t, enif_get_uint acc_t) of
           (Some seq, Some n_acc) \<Rightarrow>
             if seq < 0 then Some (w, Badarg)
             else with_spec i seq w (spec_accept_body (nat seq) n_acc)
         | _ \<Rightarrow> Some (w, Badarg)))"

definition nif_spec_free :: "eterm \<Rightarrow> spec_state \<Rightarrow> spec_state \<times> nif_ret" where
  "nif_spec_free ref w =
     (case enif_get_resource SPEC_RT ref of None \<Rightarrow> (w, Badarg)
      | Some i \<Rightarrow>
        (case w i of None \<Rightarrow> (w, Badarg)
         | Some h \<Rightarrow>
             (case sh_spec h of None \<Rightarrow> (w, err ''released'')
              | Some cs \<Rightarrow> (w(i \<mapsto> h\<lparr>sh_spec := None\<rparr>), Term atom_ok))))"

subsection \<open>The invariant of a speculator\<close>

definition impl_ok :: "nat \<Rightarrow> ngram_impl \<Rightarrow> bool" where
  "impl_ok n im \<longleftrightarrow> length (im_sinfos im) = n \<and> 0 < nm_n (im_mod im)"

definition cs_ok :: "nat \<Rightarrow> common_speculative \<Rightarrow> bool" where
  "cs_ok n cs \<longleftrightarrow> length (cs_drafting cs) = n \<and> length (cs_id_last cs) = n \<and> length (cs_impl_last cs) = n
     \<and> impl_ok n (cs_impl cs)"

definition holder_ok :: "spec_holder \<Rightarrow> bool" where
  "holder_ok h \<longleftrightarrow> length (sh_prompts h) = sh_n_seq h \<and> length (sh_results h) = sh_n_seq h
     \<and> length (sh_last_draft_len h) = sh_n_seq h
     \<and> (\<forall>cs. sh_spec h = Some cs \<longrightarrow> cs_ok (sh_n_seq h) cs \<and> cs_drafting cs = replicate (sh_n_seq h) False
          \<and> (\<forall>s < sh_n_seq h. sh_last_draft_len h ! s > 0 \<longrightarrow> cs_impl_last cs ! s))"

lemma put_sinfo_ok [simp]: "impl_ok n (put_sinfo s si im) = impl_ok n im"
  by (simp add: impl_ok_def put_sinfo_def)

lemma impl_ok_mod [simp]: "nm_n m = nm_n (im_mod im) \<Longrightarrow> impl_ok n (im\<lparr>im_mod := m\<rparr>) = impl_ok n im"
  by (simp add: impl_ok_def)

lemma impl_begin_ok [simp]: "impl_ok n (impl_begin s p im) = impl_ok n im"
  by (simp add: impl_begin_def Let_def)

lemma impl_accept_ok [simp]: "impl_ok n (impl_accept s k im) = impl_ok n im"
  by (simp add: impl_accept_def Let_def)

lemma impl_ok_pos: "impl_ok n im \<Longrightarrow> 0 < nm_n (im_mod im)"
  by (simp add: impl_ok_def)

lemma draft_one_ok:
  assumes "draft_one s p l r im = (im', r', thrown)" "impl_ok n im"
  shows "impl_ok n im' \<and> \<not> thrown"
  using assms impl_ok_pos [OF assms(2)] by (auto simp: draft_one_def Let_def split: if_splits)

lemma draft_all_ok:
  assumes "draft_all ss prompts cs results = (cs', results', thrown)" "cs_ok n cs"
  shows "cs_ok n cs' \<and> \<not> thrown \<and> cs_drafting cs' = cs_drafting cs \<and> cs_impl_last cs' = cs_impl_last cs \<and>
    length results' = length results \<and> (\<forall>s. \<not> cs_drafting cs ! s \<longrightarrow> results' ! s = results ! s)"
  using assms
proof (induction ss arbitrary: cs results)
  case (Cons s ss)
  show ?case
  proof (cases "cs_drafting cs ! s")
    case True
    obtain im r th where d: "draft_one s (prompts ! s) (cs_id_last cs ! s) (results ! s) (cs_impl cs) = (im, r, th)"
      by (metis prod_cases3)
    have "impl_ok n (cs_impl cs)" using Cons.prems(2) by (simp add: cs_ok_def)
    with draft_one_ok [OF d] have im: "impl_ok n im" "\<not> th" by simp_all
    have "draft_all ss prompts (cs\<lparr>cs_impl := im\<rparr>) (results[s := r]) = (cs', results', thrown)"
      using Cons.prems(1) True d im by simp
    note rec = Cons.IH [OF this]
    have "cs_ok n (cs\<lparr>cs_impl := im\<rparr>)" using Cons.prems(2) im by (simp add: cs_ok_def)
    note rec' = rec [OF this]
    have "results' ! t = results ! t" if "\<not> cs_drafting cs ! t" for t
    proof -
      have "t \<noteq> s" using that True by auto
      then show ?thesis using rec' that by simp
    qed
    with rec' show ?thesis by simp
  next
    case False
    then have "draft_all ss prompts cs results = (cs', results', thrown)" using Cons.prems(1) by simp
    from Cons.IH [OF this Cons.prems(2)] show ?thesis .
  qed
qed simp

text \<open>One draft for sequence \<open>s\<close>: no other sequence is drafting, so no assertion fails.\<close>

lemma speculative_draft_ok:
  assumes "cs_ok n cs" "cs_drafting cs = (replicate n False)[s := True]" "s < n" "results ! s = []"
    and "length results = n"
  obtains cs' results' where "common_speculative_draft prompts cs results = Some (cs', results', False)"
    "cs_ok n cs'" "cs_drafting cs' = replicate n False" "length results' = n"
    "\<And>t. t < n \<Longrightarrow> cs_impl_last cs ! t \<or> t = s \<and> results' ! s \<noteq> [] \<Longrightarrow> cs_impl_last cs' ! t"
proof -
  have dr: "cs_drafting cs ! t \<longleftrightarrow> t = s" if "t < n" for t
    using assms(2) that by (simp add: nth_update_if)
  have n: "length (cs_drafting cs) = n" using assms(2) by simp
  obtain cs1 results1 th where a: "draft_all [0..<n] prompts cs results = (cs1, results1, th)" by (metis prod_cases3)
  note b = draft_all_ok [OF a assms(1)]
  let ?cs' = "cs1\<lparr>cs_impl_last := map (\<lambda>s. cs_impl_last cs1 ! s \<or> cs_drafting cs1 ! s \<and> results1 ! s \<noteq> []) [0..<n],
       cs_drafting := replicate n False\<rparr>"
  have no_abort: "\<not> list_ex (\<lambda>t. cs_drafting cs ! t \<and> results ! t \<noteq> []) [0..<n]"
    using dr assms(4) by (auto simp: list_ex_iff)
  have drafts: "\<not> list_all (\<lambda>t. \<not> cs_drafting cs ! t) [0..<n]" using dr assms(3) by (auto simp: list_all_iff)
  have "common_speculative_draft prompts cs results = Some (?cs', results1, False)"
  proof -
    have "th = False" using b by simp
    then show ?thesis
      unfolding common_speculative_draft_def Let_def n if_not_P [OF no_abort] if_not_P [OF drafts] a
      by simp
  qed
  moreover have "cs_ok n ?cs'" using b by (simp add: cs_ok_def)
  ultimately show thesis using that [of ?cs' results1] b assms(5) dr by (auto simp: nth_append)
qed

lemma holder_ok_prompts [simp]: "holder_ok (h\<lparr>sh_prompts := (sh_prompts h)[s := p]\<rparr>) = holder_ok h"
  by (simp add: holder_ok_def)

lemma spec_begin_ok:
  assumes "holder_ok h" "sh_spec h = Some cs"
  shows "\<exists>h' r. spec_begin_body s toks h cs = Some (h', r) \<and> holder_ok h'"
proof -
  obtain p good where r: "read_tokens toks [] = (p, good)" by fastforce
  show ?thesis
    using assms r
    by (cases good) (auto simp: spec_begin_body_def holder_ok_def cs_ok_def nth_update_if)
qed

lemma spec_draft_ok:
  assumes "holder_ok h" "sh_spec h = Some cs" "s < sh_n_seq h"
  shows "\<exists>h' r. spec_draft_body s id_last toks h cs = Some (h', r) \<and> holder_ok h'"
proof -
  obtain p good where r: "read_tokens toks (sh_prompts h ! s) = (p, good)" by fastforce
  show ?thesis
  proof (cases good)
    case False
    then show ?thesis using assms(1) r by (simp add: spec_draft_body_def)
  next
    case True
    let ?n = "sh_n_seq h"
    let ?cs1 = "cs\<lparr>cs_drafting := (cs_drafting cs)[s := True], cs_id_last := (cs_id_last cs)[s := id_last]\<rparr>"
    have h: "cs_ok ?n cs" "cs_drafting cs = replicate ?n False" "length (sh_results h) = ?n"
      "\<forall>t < ?n. sh_last_draft_len h ! t > 0 \<longrightarrow> cs_impl_last cs ! t"
      using assms by (simp_all add: holder_ok_def)
    have "cs_ok ?n ?cs1" using h(1) by (simp add: cs_ok_def)
    with speculative_draft_ok [of ?n ?cs1 s "(sh_results h)[s := []]" "(sh_prompts h)[s := p]"] h assms(3)
    obtain cs' results' where d:
      "common_speculative_draft ((sh_prompts h)[s := p]) ?cs1 ((sh_results h)[s := []]) = Some (cs', results', False)"
      "cs_ok ?n cs'" "cs_drafting cs' = replicate ?n False" "length results' = ?n"
      "\<And>t. t < ?n \<Longrightarrow> cs_impl_last cs ! t \<or> t = s \<and> results' ! s \<noteq> [] \<Longrightarrow> cs_impl_last cs' ! t" by auto
    show ?thesis using assms h True r d by (auto simp: spec_draft_body_def holder_ok_def nth_update_if)
  qed
qed

lemma spec_accept_ok:
  assumes "holder_ok h" "sh_spec h = Some cs" "s < sh_n_seq h"
  shows "\<exists>h' r. spec_accept_body s n_acc h cs = Some (h', r) \<and> holder_ok h'"
  using assms
  by (auto simp: spec_accept_body_def common_speculative_accept_def holder_ok_def cs_ok_def nth_update_if)

subsection \<open>Reachable speculators\<close>

datatype spec_call =
    SpecNew nat bool eterm
  | SpecBegin eterm eterm eterm
  | SpecDraft eterm eterm eterm eterm
  | SpecAccept eterm eterm eterm
  | SpecFree eterm

fun spec_step :: "spec_call \<Rightarrow> spec_state \<Rightarrow> (spec_state \<times> nif_ret) option" where
  "spec_step (SpecNew fresh alloc cfg) w = Some (nif_spec_new fresh alloc cfg w)"
| "spec_step (SpecBegin ref s toks) w = nif_spec_begin ref s toks w"
| "spec_step (SpecDraft ref s l toks) w = nif_spec_draft ref s l toks w"
| "spec_step (SpecAccept ref s n) w = nif_spec_accept ref s n w"
| "spec_step (SpecFree ref) w = Some (nif_spec_free ref w)"

text \<open>A configuration whose n-gram length is not a multiple of \<open>2 ^ 16\<close>.\<close>

definition n_match_fits :: "spec_call \<Rightarrow> bool" where
  "n_match_fits c =
     (case c of SpecNew _ _ cfg \<Rightarrow>
        (case spec_opt cfg ''n_match'' 1 24 of None \<Rightarrow> True | Some n \<Rightarrow> (word_of_int n :: 16 word) \<noteq> 0)
      | _ \<Rightarrow> True)"

inductive spec_reach :: "spec_state \<Rightarrow> bool" where
  start: "spec_reach (\<lambda>_. None)"
| step: "spec_reach w \<Longrightarrow> n_match_fits c \<Longrightarrow> spec_step c w = Some (w', r) \<Longrightarrow> spec_reach w'"

definition all_ok :: "spec_state \<Rightarrow> bool" where
  "all_ok w \<longleftrightarrow> (\<forall>i h. w i = Some h \<longrightarrow> holder_ok h)"

lemma with_spec_ok:
  assumes "all_ok w"
    and "\<And>h cs. holder_ok h \<Longrightarrow> sh_spec h = Some cs \<Longrightarrow> seq < int (sh_n_seq h) \<Longrightarrow>
           \<exists>h' r. body h cs = Some (h', r) \<and> holder_ok h'"
  shows "\<exists>w' r. with_spec i seq w body = Some (w', r) \<and> all_ok w'"
proof (cases "w i")
  case (Some h)
  then have ok: "holder_ok h" using assms(1) by (auto simp: all_ok_def)
  show ?thesis
  proof (cases "sh_spec h")
    case None
    then show ?thesis using Some assms(1) by (simp add: with_spec_def)
  next
    case spec: (Some cs)
    show ?thesis
    proof (cases "seq < int (sh_n_seq h)")
      case True
      from assms(2) [OF ok spec this] obtain h' r where "body h cs = Some (h', r)" "holder_ok h'" by blast
      with Some spec True assms(1) show ?thesis by (simp add: with_spec_def all_ok_def)
    next
      case False
      then show ?thesis using Some spec assms(1) by (simp add: with_spec_def)
    qed
  qed
qed (simp add: with_spec_def assms)

lemma spec_new_ok:
  assumes "all_ok w" "n_match_fits (SpecNew fresh alloc cfg)"
  shows "all_ok (fst (nif_spec_new fresh alloc cfg w))"
proof -
  have "unat (word_of_int n :: 16 word) > 0" if "spec_opt cfg ''n_match'' 1 24 = Some n" for n
    using assms(2) that by (simp add: n_match_fits_def unat_gt_0)
  then show ?thesis using assms(1)
    by (auto simp: nif_spec_new_def all_ok_def holder_ok_def cs_ok_def impl_ok_def common_speculative_init_def
        impl_new_def mod_new_def split: option.splits)
qed

lemma spec_step_ok:
  assumes "all_ok w" "n_match_fits c"
  shows "\<exists>w' r. spec_step c w = Some (w', r) \<and> all_ok w'"
proof (cases c)
  case (SpecNew fresh alloc cfg)
  then show ?thesis using spec_new_ok [of w fresh alloc cfg] assms by (cases "nif_spec_new fresh alloc cfg w") simp
next
  case (SpecBegin ref s toks)
  show ?thesis
    using assms(1) with_spec_ok [OF assms(1) spec_begin_ok]
    by (auto simp: SpecBegin nif_spec_begin_def split: option.splits)
next
  case (SpecDraft ref s l toks)
  have *: "\<exists>w' r. with_spec i seq w (spec_draft_body (nat seq) id_last toks) = Some (w', r) \<and> all_ok w'"
    if "0 \<le> seq" for i seq id_last
    using that by (intro with_spec_ok [OF assms(1)] spec_draft_ok) auto
  show ?thesis using assms(1) * by (auto simp: SpecDraft nif_spec_draft_def split: option.splits)
next
  case (SpecAccept ref s n)
  have *: "\<exists>w' r. with_spec i seq w (spec_accept_body (nat seq) n_acc) = Some (w', r) \<and> all_ok w'"
    if "0 \<le> seq" for i seq n_acc
    using that by (intro with_spec_ok [OF assms(1)] spec_accept_ok) auto
  show ?thesis using assms(1) * by (auto simp: SpecAccept nif_spec_accept_def split: option.splits)
next
  case (SpecFree ref)
  then show ?thesis using assms(1)
    by (auto simp: nif_spec_free_def all_ok_def holder_ok_def split: option.splits)
qed

lemma spec_reach_ok: "spec_reach w \<Longrightarrow> all_ok w"
proof (induction rule: spec_reach.induct)
  case (step w c w' r)
  then show ?case using spec_step_ok [of w c] by auto
qed (simp add: all_ok_def)

subsection \<open>Properties\<close>

lemma length_draft_context: "0 < n \<Longrightarrow> n \<le> length p \<Longrightarrow> length (draft_context n p l) = n"
  by (simp add: draft_context_def)


lemma draft_loop_numeral:
  "draft_loop m n_min (numeral k) i r =
     (let token = mod_get m (drop i r) in
      if token = EMPTY then (if int i < n_min then [] else drop (nm_n m) r)
      else draft_loop m n_min (pred_numeral k) (Suc i) (r @ [token]))"
  by (simp add: numeral_eq_Suc)



definition spec_cfg :: "int \<Rightarrow> eterm" where
  "spec_cfg n = EMap [(EAtom ''n_match'', EInt n), (EAtom ''n_max'', EInt 4), (EAtom ''n_seq'', EInt 2)]"

definition demo_spec :: spec_state where
  "demo_spec = fst (nif_spec_new 0 True (spec_cfg 2) (\<lambda>_. None))"


lemma replicate_small: "replicate 2 x = [x, x]" "replicate 4 x = [x, x, x, x]"
  by (simp_all add: numeral_eq_Suc)

text \<open>
  That restriction is needed: \<open>n_match\<close> 65536 is truncated to an n-gram length of 0, the first draft
  throws after it has resized its result, the sequence stays marked as drafting, and the
  next draft on another sequence fails an assertion.
\<close>

theorem spec_wrapped_n_match_aborts:
  "\<exists>w. foldM (\<lambda>c w. map_option fst (spec_step c w))
         [SpecNew 0 True (spec_cfg 65536), SpecDraft (ERes SPEC_RT 0) (EInt 0) (EInt 5) (mk_list [EInt 1])]
         (\<lambda>_. None) = Some w \<and>
       spec_step (SpecDraft (ERes SPEC_RT 0) (EInt 1) (EInt 5) (mk_list [EInt 1])) w = None"
proof -
  let ?c = "common_speculative_init 65536 4 48 2"
  have d: "draft_one 0 [1] 5 [] (cs_impl ?c) = (cs_impl ?c, [0, 0, 0, 0], True)"
    by (simp add: draft_one_def common_speculative_init_def impl_new_def mod_new_def put_sinfo_def Let_def replicate_small)
  show ?thesis
    using d
    by (simp add: nif_spec_new_def spec_cfg_def spec_opt_def spec_n_seq_def get_map_int31_def get_map_uint_def
        enif_is_map_def enif_get_uint_def nif_spec_draft_def with_spec_def spec_draft_body_def read_tokens_def
        common_speculative_draft_def common_speculative_init_def
        upt_conv_Cons replicate_small enif_get_list_length_def Let_def)
qed

text \<open>
  A draft call rejected with \<open>badarg\<close> for a bad token still appends the tokens before it to the
  speculator's record of the sequence.
\<close>

theorem spec_draft_badarg_keeps_prefix:
  "\<exists>w. nif_spec_draft (ERes SPEC_RT 0) (EInt 0) (EInt 5) (mk_list [EInt 1, EInt 2, EInt (-1)]) demo_spec = Some (w, Badarg) \<and>
     map_option sh_prompts (demo_spec 0) = Some [[], []] \<and> map_option sh_prompts (w 0) = Some [[1, 2], []]"
proof -
  show ?thesis
    by (simp add: demo_spec_def nif_spec_new_def spec_cfg_def spec_opt_def spec_n_seq_def get_map_int31_def get_map_uint_def
        enif_is_map_def enif_get_uint_def nif_spec_draft_def with_spec_def spec_draft_body_def read_tokens_def
        common_speculative_init_def
        replicate_small enif_get_list_length_def Let_def)
qed

end
