(* ===== verification/Nif_Spec_Step.thy ===== *)
theory Nif_Spec_Step
  imports Demo_Engine
begin

text \<open>
  The speculative tick \<open>nif_spec_step\<close> of \<open>c_src/erllama_nif_decode.c\<close>: sample one token; when
  it is the first of the draft, decode the whole draft, verify it row by row, roll back what
  was rejected and decode the correcting token. Property: it commits what single decoding
  would have committed, on any engine whose logits depend only on the tokens before them.
\<close>

text \<open>
  The working state of the call: the context resource, with its native state, and the sampler
  chain. \<open>spec_fail\<close> is the error return once the KV may be torn.
\<close>

definition spec_fail :: "int \<Rightarrow> eterm \<Rightarrow> ('n, 's) context_res \<Rightarrow> ('n, 's) context_res \<times> nif_ret" where
  "spec_fail seq_id why c =
     (set_seq seq_id ((seq_of c seq_id)\<lparr>last_logits_idx := -1\<rparr>) (c\<lparr>decode_ready := False\<rparr>), erllama_error why)"

definition spec_decode_single ::
  "('n, 's) llama_api \<Rightarrow> bool \<Rightarrow> interrupts \<Rightarrow> llama_token \<Rightarrow> int \<Rightarrow> int \<Rightarrow> 'n \<Rightarrow> ('n, 's) context_res
     \<Rightarrow> int \<times> ('n, 's) context_res" where
  "spec_decode_single api alloc it tok pos seq_id n c =
     (case erllama_safe_batch_init alloc of
        None \<Rightarrow> (ERLLAMA_DECODE_EXC_SENTINEL, c)
      | Some b \<Rightarrow> run_decode api it (push_row tok pos seq_id True b) n (arm_decode (now_armed it) c))"

text \<open>The tracking of the sequence after a successful call.\<close>

definition spec_commit :: "int \<Rightarrow> int \<Rightarrow> int \<Rightarrow> ('n, 's) context_res \<Rightarrow> ('n, 's) context_res" where
  "spec_commit seq_id idx pos c =
     set_seq seq_id \<lparr>last_logits_idx = idx, next_pos = pos\<rparr> (c\<lparr>decode_ready := True\<rparr>)"

definition spec_ok :: "llama_token list \<Rightarrow> bool \<Rightarrow> int \<Rightarrow> nif_ret" where
  "spec_ok committed eog n_acc =
     Term (ETuple [atom_ok, ETuple [EAtom ''spec'', mk_list (map EInt committed),
                                    EInt (if eog then 1 else 0), EInt n_acc]])"

text \<open>
  The verify loop over the rows from \<open>i\<close> on: the tokens still to be matched are the argument. The
  outcome, and the chain after the samples taken.
\<close>

datatype verdict =
    SampleFailed
  | Mismatch int llama_token
  | EogAt int
  | AllMatched

fun verify_rows ::
  "('n, 's) llama_api \<Rightarrow> nat \<Rightarrow> 'n \<Rightarrow> int \<Rightarrow> llama_token list \<Rightarrow> 's \<Rightarrow> verdict \<times> 's" where
  "verify_rows api vocab n i [] chain = (AllMatched, chain)"
| "verify_rows api vocab n i (d # ds) chain =
     (let (si, chain') = erllama_safe_sampler_sample api chain n (i - 1) in
      if si < 0 then (SampleFailed, chain')
      else if si \<noteq> d then (Mismatch i si, chain')
      else if erllama_safe_vocab_is_eog api vocab d then (EogAt i, chain')
      else verify_rows api vocab n (i + 1) ds chain')"

definition draft_batch :: "llama_token list \<Rightarrow> int \<Rightarrow> int \<Rightarrow> llama_batch \<Rightarrow> llama_batch" where
  "draft_batch draft pos seq_id b =
     foldl (\<lambda>b j. push_row (draft ! j) (pos + int j) seq_id True b) b [0..<length draft]"

text \<open>
  The end of a hit: decode the correction (or bonus) token at its position, after the rejected
  rows have been removed. \<open>done\<close> are the draft tokens committed.
\<close>

definition spec_tail ::
  "('n, 's) llama_api \<Rightarrow> allocs \<Rightarrow> interrupts \<Rightarrow> int \<Rightarrow> llama_token list \<Rightarrow> llama_token \<Rightarrow> int \<Rightarrow> bool
     \<Rightarrow> 'n \<Rightarrow> ('n, 's) context_res \<Rightarrow> ('n, 's) context_res \<times> nif_ret" where
  "spec_tail api alloc it seq_id done tok pos eog n c =
     (let (dr, c') = spec_decode_single api (alloc ''batch'' 1) it tok pos seq_id n c in
      if dr \<noteq> 0 then spec_fail seq_id (decode_why it c' dr) c'
      else (spec_commit seq_id 0 (pos + 1) c', spec_ok (done @ [tok]) eog (int (length done))))"

text \<open>After the draft batch has been decoded: verify, roll back, finish.\<close>

definition spec_verified ::
  "('n, 's) llama_api \<Rightarrow> allocs \<Rightarrow> interrupts \<Rightarrow> nat \<Rightarrow> int \<Rightarrow> llama_token list \<Rightarrow> int
     \<Rightarrow> 's \<Rightarrow> 'n \<Rightarrow> ('n, 's) context_res \<Rightarrow> 's \<times> ('n, 's) context_res \<times> nif_ret" where
  "spec_verified api alloc it vocab seq_id draft pos chain n c =
     (case verify_rows api vocab n 1 (tl draft) chain of
        (SampleFailed, chain') \<Rightarrow> (chain', spec_fail seq_id (EAtom ''exception'') c)
      | (EogAt i, chain') \<Rightarrow>
          let (rrc, n') = (if i + 1 < int (length draft)
                           then erllama_safe_memory_seq_rm api seq_id (pos + i + 1) (-1) n else (0, n));
              c' = c\<lparr>c_ctx := Some n'\<rparr>
          in (chain',
              if rrc \<noteq> 0 then spec_fail seq_id (EAtom ''decode_failed'') c'
              else (spec_commit seq_id i (pos + i + 1) c', spec_ok (take (nat i + 1) draft) True (i + 1)))
      | (Mismatch i tok, chain') \<Rightarrow>
          let (rrc, n') = erllama_safe_memory_seq_rm api seq_id (pos + i) (-1) n; c' = c\<lparr>c_ctx := Some n'\<rparr>
          in (chain',
              if rrc \<noteq> 0 then spec_fail seq_id (EAtom ''decode_failed'') c'
              else spec_tail api alloc it seq_id (take (nat i) draft) tok (pos + i)
                     (erllama_safe_vocab_is_eog api vocab tok) n' c')
      | (AllMatched, chain') \<Rightarrow>
          let (bonus, chain2) = erllama_safe_sampler_sample api chain' n (int (length draft) - 1)
          in (chain2,
              if bonus < 0 then spec_fail seq_id (EAtom ''exception'') c
              else spec_tail api alloc it seq_id draft bonus (pos + int (length draft))
                     (erllama_safe_vocab_is_eog api vocab bonus) n c))"

text \<open>
  From the first sample on. \<open>it0\<close> are the interrupts of the first decode of the call, \<open>it1\<close>
  those of the one that decodes the correction.
\<close>

definition spec_run ::
  "('n, 's) llama_api \<Rightarrow> allocs \<Rightarrow> interrupts \<Rightarrow> interrupts \<Rightarrow> nat \<Rightarrow> int \<Rightarrow> llama_token list
     \<Rightarrow> 's \<Rightarrow> 'n \<Rightarrow> ('n, 's) context_res \<Rightarrow> 's \<times> ('n, 's) context_res \<times> nif_ret" where
  "spec_run api alloc it0 it1 vocab seq_id draft chain n c =
     (let p = seq_of c seq_id; pos = next_pos p;
          (s0, chain1) = erllama_safe_sampler_sample api chain n (last_logits_idx p)
      in if s0 < 0 then (chain1, spec_fail seq_id (EAtom ''exception'') c)
         else
           let eog0 = erllama_safe_vocab_is_eog api vocab s0 in
           if \<not> alloc ''committed'' 0 then (chain1, c, err ''oom'')
           else if s0 \<noteq> hd draft \<or> eog0 then
             let (dr, c') = spec_decode_single api (alloc ''batch'' 0) it0 s0 pos seq_id n c
             in (chain1,
                 if dr \<noteq> 0 then spec_fail seq_id (decode_why it0 c' dr) c'
                 else (spec_commit seq_id 0 (pos + 1) c', spec_ok [s0] eog0 (if s0 = hd draft then 1 else 0)))
           else
             (case erllama_safe_batch_init (alloc ''batch'' 0) of
                None \<Rightarrow> (chain1, c, err ''oom'')
              | Some b \<Rightarrow>
                  let (dr, c') = run_decode api it0 (draft_batch draft pos seq_id b) n (arm_decode (now_armed it0) c)
                  in if dr \<noteq> 0 then (chain1, spec_fail seq_id (decode_why it0 c' dr) c')
                     else spec_verified api alloc it1 vocab seq_id draft pos chain1 (the (c_ctx c')) c'))"

text \<open>The checks under the locks, in the order of the code; \<open>Inl\<close> is the early return.\<close>

definition spec_checks ::
  "('n, 's) llama_api \<Rightarrow> nat \<Rightarrow> 's sampler_res \<Rightarrow> int \<Rightarrow> llama_token list \<Rightarrow> 'n \<Rightarrow> ('n, 's) context_res
     \<Rightarrow> nif_ret + (nat \<times> 's)" where
  "spec_checks api i s seq_id draft n c =
     (if \<not> decode_ready c \<or> last_logits_idx (seq_of c seq_id) < 0 then Inl (err ''no_logits'')
      else (case erllama_ctx_vocab api n of
         (None, _) \<Rightarrow> Inl (err ''exception'')
       | (Some vocab, n_vocab) \<Rightarrow>
           if n_vocab \<le> 0 then Inl (err ''exception'')
           else if erllama_first_oob_token draft n_vocab \<ge> 0 then Inl (err ''invalid_token'')
           else if erllama_safe_n_batch api n = 0 \<or> length draft > erllama_safe_n_batch api n
             then Inl (err ''batch_overflow'')
           else (case s_chain s of None \<Rightarrow> Inl (err ''released'')
             | Some chain \<Rightarrow>
                 if s_ctx_res s \<noteq> i \<or> s_n_probs s > 0 then Inl Badarg else Inr (vocab, chain))))"

definition nif_spec_step ::
  "('n, 's) llama_api \<Rightarrow> allocs \<Rightarrow> interrupts \<Rightarrow> interrupts \<Rightarrow> eterm \<Rightarrow> eterm \<Rightarrow> eterm \<Rightarrow> eterm
     \<Rightarrow> ('n, 's) nif_state \<Rightarrow> ('n, 's) nif_state \<times> nif_ret" where
  "nif_spec_step api alloc it0 it1 ctx samp seq_t draft_t w =
     (case enif_get_resource CTX_RT ctx of None \<Rightarrow> (w, Badarg)
      | Some i \<Rightarrow>
        (case enif_get_resource SAMPLER_RT samp of None \<Rightarrow> (w, Badarg)
         | Some j \<Rightarrow>
           (case samplers w j of None \<Rightarrow> (w, Badarg)
            | Some s \<Rightarrow>
              (case enif_get_int seq_t of None \<Rightarrow> (w, Badarg)
               | Some seq_id \<Rightarrow>
                   if seq_id < 0 \<or> seq_id \<ge> ERLLAMA_N_SEQ_MAX_CAP then (w, Badarg)
                   else
                     (case read_token_list (alloc ''draft'' 0) draft_t of
                        TokRc rc \<Rightarrow> (w, token_list_error rc)
                      | TokOk draft \<Rightarrow>
                          if draft = [] then (w, Badarg)
                          else with_ctx i w (\<lambda>n c.
                            (case spec_checks api i s seq_id draft n c of
                               Inl r \<Rightarrow> (w, r)
                             | Inr (vocab, chain) \<Rightarrow>
                                 let (chain', c', r) = spec_run api alloc it0 it1 vocab seq_id draft chain n c
                                 in (put_ctx i c' (w\<lparr>samplers := (samplers w)(j \<mapsto> s\<lparr>s_chain := Some chain'\<rparr>)\<rparr>),
                                     r))))))))"

subsection \<open>Sequential decoding\<close>

text \<open>
  The reference: \<open>smp\<close> draws one token from a chain and the tokens of the sequence so far;
  \<open>gen\<close> draws \<open>k\<close> tokens, each appended before the next is drawn.
\<close>

fun gen :: "('s \<Rightarrow> llama_token list \<Rightarrow> llama_token \<times> 's) \<Rightarrow> nat \<Rightarrow> 's \<Rightarrow> llama_token list \<Rightarrow> llama_token list \<times> 's" where
  "gen smp 0 ch h = ([], ch)"
| "gen smp (Suc k) ch h =
     (let (t, ch1) = smp ch h; (ts, ch2) = gen smp k ch1 (h @ [t]) in (t # ts, ch2))"

lemma gen_snoc:
  "gen smp (Suc k) ch h =
     (let (ts, ch1) = gen smp k ch h; (t, ch2) = smp ch1 (h @ ts) in (ts @ [t], ch2))"
proof (induction k arbitrary: ch h)
  case (Suc k)
  have step: "gen smp (Suc n) ch h = (let r = gen smp n (snd (smp ch h)) (h @ [fst (smp ch h)])
                in (fst (smp ch h) # fst r, snd r))" for n ch h
    by (simp add: split_beta Let_def)
  show ?case
    unfolding step [of "Suc k"] Suc.IH [of "snd (smp ch h)" "h @ [fst (smp ch h)]"]
    by (simp add: split_beta Let_def)
qed (simp add: split_beta Let_def)

lemma gen_extend:
  "gen smp k ch h = (ts, ch1) \<Longrightarrow> smp ch1 (h @ ts) = (t, ch2) \<Longrightarrow> gen smp (Suc k) ch h = (ts @ [t], ch2)"
  by (simp add: gen_snoc del: gen.simps)

text \<open>
  An engine for one sequence \<open>s\<close>: \<open>content\<close> are the tokens in its KV, \<open>rows\<close> the tokens that a
  row of logits was computed from. Sampling depends on those tokens only; a successful decode
  appends its tokens, each row seeing those up to its own; removing a tail keeps the rest,
  and the logits. Nothing is asked of a call that fails.
\<close>

definition causal_engine ::
  "('n, 's) llama_api \<Rightarrow> int \<Rightarrow> ('n \<Rightarrow> llama_token list) \<Rightarrow> ('n \<Rightarrow> int \<Rightarrow> llama_token list option)
     \<Rightarrow> ('s \<Rightarrow> llama_token list \<Rightarrow> llama_token \<times> 's) \<Rightarrow> bool" where
  "causal_engine api s content rows smp \<longleftrightarrow>
     (\<forall>ch n idx h. rows n idx = Some h \<longrightarrow>
        llama_sampler_sample api ch n idx = (Ret (fst (smp ch h)), snd (smp ch h)) \<and> 0 \<le> fst (smp ch h)) \<and>
     (\<forall>poll n n' toks. toks \<noteq> [] \<longrightarrow>
        llama_decode api poll
          (batch_of (map (\<lambda>j. (toks ! j, int (length (content n)) + int j, s, True)) [0..<length toks])) n = (Ret 0, n') \<longrightarrow>
        content n' = content n @ toks \<and>
        (\<forall>j < length toks. rows n' (int j) = Some (content n @ take (Suc j) toks))) \<and>
     (\<forall>n n' p. p \<le> length (content n) \<longrightarrow>
        llama_memory_seq_rm api s (int p) (-1) n = (Ret True, n') \<longrightarrow>
        content n' = take p (content n) \<and> rows n' = rows n)"

lemma causal_sample:
  assumes "causal_engine api s content rows smp" "rows n idx = Some h"
  shows "erllama_safe_sampler_sample api ch n idx = smp ch h" "0 \<le> fst (smp ch h)"
  using assms by (simp_all add: causal_engine_def erllama_safe_sampler_sample_def)

lemma causal_decode:
  assumes "causal_engine api s content rows smp" "toks \<noteq> []"
    and "erllama_safe_decode api poll
          (batch_of (map (\<lambda>j. (toks ! j, int (length (content n)) + int j, s, True)) [0..<length toks])) n = (0, n')"
  shows "content n' = content n @ toks" "j < length toks \<Longrightarrow> rows n' (int j) = Some (content n @ take (Suc j) toks)"
proof -
  let ?b = "batch_of (map (\<lambda>j. (toks ! j, int (length (content n)) + int j, s, True)) [0..<length toks])"
  obtain r n1 where d: "llama_decode api poll ?b n = (r, n1)" by fastforce
  with assms(3) have "r = Ret 0" "n1 = n'"
    by (cases r; simp add: erllama_safe_decode_def ERLLAMA_DECODE_EXC_SENTINEL_def)+
  with d have "llama_decode api poll ?b n = (Ret 0, n')" by simp
  with assms(1,2) show "content n' = content n @ toks"
    "j < length toks \<Longrightarrow> rows n' (int j) = Some (content n @ take (Suc j) toks)"
    unfolding causal_engine_def by blast+
qed

lemma causal_rm:
  assumes "causal_engine api s content rows smp" "p \<le> length (content n)"
    and "erllama_safe_memory_seq_rm api s (int p) (-1) n = (0, n')"
  shows "content n' = take p (content n)" "rows n' = rows n"
proof -
  have "llama_memory_seq_rm api s (int p) (-1) n = (Ret True, n')"
    using assms(3)
    by (auto simp: erllama_safe_memory_seq_rm_def split: exc.splits if_splits prod.splits)
  with assms(1,2) show "content n' = take p (content n)" "rows n' = rows n"
    unfolding causal_engine_def by blast+
qed

lemma draft_batch_rows:
  "draft_batch toks pos s (batch_of []) = batch_of (map (\<lambda>j. (toks ! j, pos + int j, s, True)) [0..<length toks])"
  by (simp add: draft_batch_def foldl_push_rows)

text \<open>The verify loop takes exactly the samples sequential decoding would take.\<close>

lemma verify_rows_gen:
  assumes eng: "causal_engine api s content rows smp"
    and rows: "\<And>j. j < length draft \<Longrightarrow> rows n (int j) = Some (h @ take (Suc j) draft)"
    and i: "0 < i" "i \<le> length draft" "gen smp i ch0 h = (take i draft, ch)"
    and v: "verify_rows api vocab n (int i) (drop i draft) ch = (v, ch')"
  shows "case v of SampleFailed \<Rightarrow> False
    | Mismatch k t \<Rightarrow> \<exists>j. k = int j \<and> i \<le> j \<and> j < length draft \<and> gen smp (Suc j) ch0 h = (take j draft @ [t], ch')
        \<and> (\<forall>l. i \<le> l \<and> l < j \<longrightarrow> \<not> erllama_safe_vocab_is_eog api vocab (draft ! l))
    | EogAt k \<Rightarrow> \<exists>j. k = int j \<and> i \<le> j \<and> j < length draft \<and> gen smp (Suc j) ch0 h = (take (Suc j) draft, ch')
        \<and> erllama_safe_vocab_is_eog api vocab (draft ! j)
        \<and> (\<forall>l. i \<le> l \<and> l < j \<longrightarrow> \<not> erllama_safe_vocab_is_eog api vocab (draft ! l))
    | AllMatched \<Rightarrow> gen smp (length draft) ch0 h = (draft, ch')
        \<and> (\<forall>l. i \<le> l \<and> l < length draft \<longrightarrow> \<not> erllama_safe_vocab_is_eog api vocab (draft ! l))"
  using i v
proof (induction "length draft - i" arbitrary: i ch)
  case 0
  then show ?case by auto
next
  case (Suc x)
  then have lt: "i < length draft" by simp
  then have d: "drop i draft = draft ! i # drop (Suc i) draft" by (simp add: Cons_nth_drop_Suc)
  have row: "rows n (int i - 1) = Some (h @ take i draft)"
    using rows [of "i - 1"] Suc.prems(1) lt by (simp add: of_nat_diff)
  obtain t ch1 where t: "smp ch (h @ take i draft) = (t, ch1)" by fastforce
  have samp: "erllama_safe_sampler_sample api ch n (int i - 1) = (t, ch1)" "0 \<le> t"
    using causal_sample [OF eng row, of ch] t by simp_all
  have g: "gen smp (Suc i) ch0 h = (take i draft @ [t], ch1)" by (rule gen_extend [OF Suc.prems(3) t])
  consider "t \<noteq> draft ! i" | "t = draft ! i" "erllama_safe_vocab_is_eog api vocab (draft ! i)"
    | "t = draft ! i" "\<not> erllama_safe_vocab_is_eog api vocab (draft ! i)" by blast
  then show ?case
  proof cases
    case 1
    then have "v = Mismatch (int i) t" "ch' = ch1" using Suc.prems(4) d samp by simp_all
    then show ?thesis using g lt by auto
  next
    case 2
    then have "v = EogAt (int i)" "ch' = ch1" using Suc.prems(4) d samp by simp_all
    then show ?thesis using g lt 2 by (auto simp: take_Suc_conv_app_nth)
  next
    case 3
    have g': "gen smp (Suc i) ch0 h = (take (Suc i) draft, ch1)" using g 3(1) lt by (simp add: take_Suc_conv_app_nth)
    have v': "verify_rows api vocab n (int (Suc i)) (drop (Suc i) draft) ch1 = (v, ch')"
      using Suc.prems(4) d samp 3 by (simp add: add.commute)
    have "x = length draft - Suc i" using Suc.hyps(2) by simp
    from Suc.hyps(1) [OF this _ _ g' v'] lt have ih: "case v of SampleFailed \<Rightarrow> False
      | Mismatch k t \<Rightarrow> \<exists>j. k = int j \<and> Suc i \<le> j \<and> j < length draft \<and> gen smp (Suc j) ch0 h = (take j draft @ [t], ch')
          \<and> (\<forall>l. Suc i \<le> l \<and> l < j \<longrightarrow> \<not> erllama_safe_vocab_is_eog api vocab (draft ! l))
      | EogAt k \<Rightarrow> \<exists>j. k = int j \<and> Suc i \<le> j \<and> j < length draft \<and> gen smp (Suc j) ch0 h = (take (Suc j) draft, ch')
          \<and> erllama_safe_vocab_is_eog api vocab (draft ! j)
          \<and> (\<forall>l. Suc i \<le> l \<and> l < j \<longrightarrow> \<not> erllama_safe_vocab_is_eog api vocab (draft ! l))
      | AllMatched \<Rightarrow> gen smp (length draft) ch0 h = (draft, ch')
          \<and> (\<forall>l. Suc i \<le> l \<and> l < length draft \<longrightarrow> \<not> erllama_safe_vocab_is_eog api vocab (draft ! l))" by simp
    have "\<not> erllama_safe_vocab_is_eog api vocab (draft ! l)" if "i \<le> l" "l < Suc i" for l
      using that 3(2) le_antisym [of i l] by (metis less_Suc_eq_le)
    with ih show ?thesis by (cases v) (fastforce dest: Suc_leD simp: not_less_eq_eq [symmetric])+
  qed
qed

text \<open>
  What a successful speculative tick establishes, for a sequence whose KV held \<open>h\<close> and a chain
  \<open>ch\<close>: the committed tokens are the next ones of sequential decoding, the KV holds exactly
  them in addition, and the tracking points past the last one and at its logits.
\<close>

definition spec_post ::
  "('n, 's) llama_api \<Rightarrow> nat \<Rightarrow> int \<Rightarrow> ('n \<Rightarrow> llama_token list) \<Rightarrow> ('n \<Rightarrow> int \<Rightarrow> llama_token list option)
     \<Rightarrow> ('s \<Rightarrow> llama_token list \<Rightarrow> llama_token \<times> 's) \<Rightarrow> llama_token list \<Rightarrow> 's
     \<Rightarrow> 's \<Rightarrow> ('n, 's) context_res \<Rightarrow> nif_ret \<Rightarrow> bool" where
  "spec_post api vocab s content rows smp h ch ch' c' r \<longleftrightarrow>
     (\<exists>toks acc n'. r = spec_ok toks (erllama_safe_vocab_is_eog api vocab (last toks)) acc \<and> toks \<noteq> [] \<and>
        (\<forall>t\<in>set (butlast toks). \<not> erllama_safe_vocab_is_eog api vocab t) \<and>
        gen smp (length toks) ch h = (toks, ch') \<and>
        c_ctx c' = Some n' \<and> content n' = h @ toks \<and> decode_ready c' \<and>
        next_pos (seq_of c' s) = int (length (content n')) \<and>
        rows n' (last_logits_idx (seq_of c' s)) = Some (content n'))"

lemma spec_ok_is_ok: "\<exists>x. spec_ok toks eog acc = Term (ETuple [atom_ok, x])"
  by (simp add: spec_ok_def)

lemma spec_fail_not_ok [simp]: "spec_fail s why c \<noteq> (c', Term (ETuple (EAtom ''ok'' # x)))"
  "(c', Term (ETuple (EAtom ''ok'' # x))) \<noteq> spec_fail s why c"
  by (auto simp: spec_fail_def)

lemma seq_of_spec_commit [simp]:
  "ctx_ok c \<Longrightarrow> 0 \<le> s \<Longrightarrow> s < ERLLAMA_N_SEQ_MAX_CAP \<Longrightarrow>
     seq_of (spec_commit s idx pos c) s = \<lparr>last_logits_idx = idx, next_pos = pos\<rparr>"
  by (simp add: spec_commit_def seq_of_set_seq)

lemma spec_commit_simps [simp]:
  "c_ctx (spec_commit s idx pos c) = c_ctx c" "decode_ready (spec_commit s idx pos c)"
  by (simp_all add: spec_commit_def)


text \<open>Decoding one token, at the position after the content.\<close>

lemma spec_decode_single_ok:
  assumes "causal_engine api s content rows smp" "pos = int (length (content n))"
    and "spec_decode_single api al it tok pos s n c = (0, c')"
  shows "\<exists>n'. c_ctx c' = Some n' \<and> content n' = content n @ [tok] \<and> rows n' 0 = Some (content n @ [tok])
     \<and> ctx_ok c' = ctx_ok c"
proof -
  have "erllama_safe_batch_init al = Some (batch_of [])"
    using assms(3) by (cases al; simp add: spec_decode_single_def ERLLAMA_DECODE_EXC_SENTINEL_def)
  then have run: "run_decode api it (batch_of [(tok, pos, s, True)]) n (arm_decode (now_armed it) c) = (0, c')"
    using assms(3) by (simp add: spec_decode_single_def)
  obtain poll n' where d: "erllama_safe_decode api poll (batch_of [(tok, pos, s, True)]) n = (0, n')" "c_ctx c' = Some n'"
    using run_decode_native [OF run] by blast
  have "erllama_safe_decode api poll
          (batch_of (map (\<lambda>j. ([tok] ! j, int (length (content n)) + int j, s, True)) [0..<length [tok]])) n = (0, n')"
    using d(1) assms(2) by simp
  from causal_decode [OF assms(1) _ this] have "content n' = content n @ [tok]"
    "rows n' (int 0) = Some (content n @ take (Suc 0) [tok])" by simp_all
  then show ?thesis using d(2) run_decode_keeps(4) [OF run] by simp
qed

lemma spec_tail_post:
  assumes "causal_engine api s content rows smp" "0 \<le> s" "s < ERLLAMA_N_SEQ_MAX_CAP" "ctx_ok c"
    and "content n = h @ done" "pos = int (length (content n))"
    and "gen smp (Suc (length done)) ch h = (done @ [tok], ch')"
    and "\<forall>t\<in>set done. \<not> erllama_safe_vocab_is_eog api vocab t"
    and "spec_tail api alloc it s done tok pos (erllama_safe_vocab_is_eog api vocab tok) n c =
           (c', Term (ETuple [atom_ok, x]))"
  shows "spec_post api vocab s content rows smp h ch ch' c' (Term (ETuple [atom_ok, x]))"
proof -
  obtain dr c1 where d: "spec_decode_single api (alloc ''batch'' 1) it tok pos s n c = (dr, c1)" by fastforce
  have "dr = 0" using assms(9) d by (auto simp: spec_tail_def split: if_splits)
  with d obtain n' where n': "c_ctx c1 = Some n'" "content n' = content n @ [tok]" "rows n' 0 = Some (content n @ [tok])"
    "ctx_ok c1" using spec_decode_single_ok [OF assms(1,6)] assms(4) by blast
  have c': "c' = spec_commit s 0 (pos + 1) c1"
    "Term (ETuple [atom_ok, x]) = spec_ok (done @ [tok]) (erllama_safe_vocab_is_eog api vocab tok) (int (length done))"
    using assms(9) d \<open>dr = 0\<close> by (simp_all add: spec_tail_def)
  show ?thesis
    unfolding spec_post_def
    by (rule exI [of _ "done @ [tok]"], rule exI [of _ "int (length done)"], rule exI [of _ n'])
       (use n' c' assms in simp)
qed

lemma spec_verified_post:
  assumes eng: "causal_engine api s content rows smp" and s: "0 \<le> s" "s < ERLLAMA_N_SEQ_MAX_CAP"
    and c: "ctx_ok c" "c_ctx c = Some n" and draft: "draft \<noteq> []"
    and cont: "content n = h @ draft" "pos = int (length h)"
    and rows: "\<And>j. j < length draft \<Longrightarrow> rows n (int j) = Some (h @ take (Suc j) draft)"
    and g: "gen smp 1 ch h = (take 1 draft, ch1)" "\<not> erllama_safe_vocab_is_eog api vocab (hd draft)"
    and r: "spec_verified api alloc it vocab s draft pos ch1 n c = (ch', c', Term (ETuple [atom_ok, x]))"
  shows "spec_post api vocab s content rows smp h ch ch' c' (Term (ETuple [atom_ok, x]))"
proof -
  obtain v ch2 where v: "verify_rows api vocab n 1 (tl draft) ch1 = (v, ch2)" by fastforce
  have one: "1 \<le> length draft" using draft by (cases draft) auto
  have v1: "verify_rows api vocab n (int 1) (drop 1 draft) ch1 = (v, ch2)" using v by (simp add: drop_Suc)
  note gen = verify_rows_gen [OF eng rows zero_less_one one g(1) v1]
  have first: "\<not> erllama_safe_vocab_is_eog api vocab (draft ! 0)" using g(2) draft by (simp add: hd_conv_nth)
  have noeog: "\<not> erllama_safe_vocab_is_eog api vocab t"
    if "t \<in> set (take k draft)" "\<forall>l. 1 \<le> l \<and> l < k \<longrightarrow> \<not> erllama_safe_vocab_is_eog api vocab (draft ! l)" for t k
  proof -
    from that(1) obtain l where "l < k" "t = draft ! l" by (auto simp: in_set_conv_nth)
    with that(2) first show ?thesis by (cases l) auto
  qed
  show ?thesis
  proof (cases v)
    case SampleFailed
    then show ?thesis using gen by simp
  next
    case (Mismatch k t)
    with gen obtain j where j: "k = int j" "1 \<le> j" "j < length draft"
      "gen smp (Suc j) ch h = (take j draft @ [t], ch2)"
      "\<forall>l. 1 \<le> l \<and> l < j \<longrightarrow> \<not> erllama_safe_vocab_is_eog api vocab (draft ! l)" by auto
    obtain rrc n' where rm: "erllama_safe_memory_seq_rm api s (int (length h + j)) (-1) n = (rrc, n')" by fastforce
    have "rrc = 0" using r v Mismatch j(1) rm cont(2) by (auto simp: spec_verified_def Let_def split: if_splits)
    with rm causal_rm [OF eng, of "length h + j" n n'] cont(1) j(3)
    have n': "content n' = h @ take j draft" by simp
    have tail: "spec_tail api alloc it s (take j draft) t (pos + int j) (erllama_safe_vocab_is_eog api vocab t) n' (c\<lparr>c_ctx := Some n'\<rparr>)
        = (c', Term (ETuple [atom_ok, x]))" "ch' = ch2"
      using r v Mismatch j(1) rm cont(2) \<open>rrc = 0\<close> by (simp_all add: spec_verified_def)
    have ok: "ctx_ok (c\<lparr>c_ctx := Some n'\<rparr>)" "pos + int j = int (length (content n'))"
      "gen smp (Suc (length (take j draft))) ch h = (take j draft @ [t], ch2)"
      using c(1) n' j cont(2) by simp_all
    show ?thesis unfolding tail(2)
      by (rule spec_tail_post [OF eng s ok(1) n' ok(2,3) _ tail(1)]) (use noeog j(5) in blast)
  next
    case (EogAt k)
    with gen obtain j where j: "k = int j" "1 \<le> j" "j < length draft"
      "gen smp (Suc j) ch h = (take (Suc j) draft, ch2)" "erllama_safe_vocab_is_eog api vocab (draft ! j)"
      "\<forall>l. 1 \<le> l \<and> l < j \<longrightarrow> \<not> erllama_safe_vocab_is_eog api vocab (draft ! l)" by auto
    have pk: "pos + k + 1 = int (length h + Suc j)" "k + 1 < int (length draft) \<longleftrightarrow> Suc j < length draft"
      "nat k + 1 = Suc j" using j(1) cont(2) by auto
    obtain rrc n' where rm: "(if k + 1 < int (length draft)
        then erllama_safe_memory_seq_rm api s (pos + k + 1) (-1) n else (0, n)) = (rrc, n')" by fastforce
    note v' = r [unfolded spec_verified_def v EogAt prod.case verdict.case rm Let_def]
    have "rrc = 0" using v' by (auto split: if_splits)
    with rm causal_rm [OF eng, of "length h + Suc j" n n'] cont(1) j(3)
    have n': "content n' = h @ take (Suc j) draft" "rows n' (int j) = Some (h @ take (Suc j) draft)"
      using rows [of j] unfolding pk by (auto split: if_splits)
    have c': "c' = spec_commit s k (int (length h + Suc j)) (c\<lparr>c_ctx := Some n'\<rparr>)" "ch' = ch2"
      "Term (ETuple [atom_ok, x]) = spec_ok (take (Suc j) draft) True (k + 1)"
      using v' \<open>rrc = 0\<close> unfolding pk by simp_all
    have t: "last (take (Suc j) draft) = draft ! j" "butlast (take (Suc j) draft) = take j draft"
      "length (take (Suc j) draft) = Suc j" "take (Suc j) draft \<noteq> []"
      using j(3) draft by (simp_all add: take_Suc_conv_app_nth)
    have pos: "seq_of c' s = \<lparr>last_logits_idx = int j, next_pos = int (length (content n'))\<rparr>"
      using n'(1) t(3) c(1) s j(1) by (simp add: c'(1))
    have "\<forall>t\<in>set (butlast (take (Suc j) draft)). \<not> erllama_safe_vocab_is_eog api vocab t"
      using noeog [OF _ j(6)] t(2) by simp
    then show ?thesis
      unfolding spec_post_def c'(2,3) pos
      by (intro exI [of _ "take (Suc j) draft"] exI [of _ "k + 1"] exI [of _ n'] conjI)
         (use n' t j(4,5) c'(1) in \<open>simp_all del: gen.simps take_eq_Nil\<close>)
  next
    case AllMatched
    with gen have all: "gen smp (length draft) ch h = (draft, ch2)"
      "\<forall>l. 1 \<le> l \<and> l < length draft \<longrightarrow> \<not> erllama_safe_vocab_is_eog api vocab (draft ! l)" by auto
    obtain t ch3 where t: "smp ch2 (h @ draft) = (t, ch3)" by fastforce
    have row: "rows n (int (length draft) - 1) = Some (h @ draft)"
      using rows [of "length draft - 1"] one by (simp add: of_nat_diff)
    have samp: "erllama_safe_sampler_sample api ch2 n (int (length draft) - 1) = (t, ch3)" "0 \<le> t"
      using causal_sample [OF eng row, of ch2] t by simp_all
    have tail: "spec_tail api alloc it s draft t (pos + int (length draft)) (erllama_safe_vocab_is_eog api vocab t) n c
        = (c', Term (ETuple [atom_ok, x]))" "ch' = ch3"
      using r v AllMatched samp by (simp_all add: spec_verified_def)
    have pos: "pos + int (length draft) = int (length (content n))" using cont by simp
    show ?thesis unfolding tail(2)
      by (rule spec_tail_post [OF eng s c(1) cont(1) pos gen_extend [OF all(1) t] _ tail(1)])
         (use noeog [OF _ all(2)] in simp)
  qed
qed

lemma spec_run_post:
  assumes eng: "causal_engine api s content rows smp" and s: "0 \<le> s" "s < ERLLAMA_N_SEQ_MAX_CAP"
    and c: "ctx_ok c" "draft \<noteq> []"
    and at: "next_pos (seq_of c s) = int (length (content n))"
      "rows n (last_logits_idx (seq_of c s)) = Some (content n)"
    and r: "spec_run api alloc it0 it1 vocab s draft ch n c = (ch', c', Term (ETuple [atom_ok, x]))"
  shows "spec_post api vocab s content rows smp (content n) ch ch' c' (Term (ETuple [atom_ok, x]))"
proof -
  let ?h = "content n" and ?pos = "next_pos (seq_of c s)"
  obtain t ch1 where t: "smp ch ?h = (t, ch1)" by fastforce
  have samp: "erllama_safe_sampler_sample api ch n (last_logits_idx (seq_of c s)) = (t, ch1)" "0 \<le> t"
    using causal_sample [OF eng at(2), of ch] t by simp_all
  have g1: "gen smp 1 ch ?h = ([t], ch1)" using t by simp
  have al: "alloc ''committed'' 0" using r samp by (auto simp: spec_run_def Let_def split: if_splits)
  let ?miss = "t \<noteq> hd draft \<or> erllama_safe_vocab_is_eog api vocab t"
  show ?thesis
  proof (cases ?miss)
    case True
    obtain dr c1 where d: "spec_decode_single api (alloc ''batch'' 0) it0 t ?pos s n c = (dr, c1)" by fastforce
    have "dr = 0" using r samp al True d by (auto simp: spec_run_def Let_def split: if_splits)
    with d obtain n' where n': "c_ctx c1 = Some n'" "content n' = ?h @ [t]" "rows n' 0 = Some (?h @ [t])" "ctx_ok c1"
      using spec_decode_single_ok [OF eng at(1)] c(1) by blast
    have c': "c' = spec_commit s 0 (?pos + 1) c1" "ch' = ch1" "Term (ETuple [atom_ok, x]) =
        spec_ok [t] (erllama_safe_vocab_is_eog api vocab t) (if t = hd draft then 1 else 0)"
      using r samp al True d \<open>dr = 0\<close> by (simp_all add: spec_run_def Let_def)
    show ?thesis
      unfolding spec_post_def c'(2,3)
      by (rule exI [of _ "[t]"], rule exI [of _ "if t = hd draft then 1 else 0"], rule exI [of _ n'])
         (use n' c'(1) at(1) s t in simp)
  next
    case False
    then have hit: "t = hd draft" "\<not> erllama_safe_vocab_is_eog api vocab (hd draft)" by auto
    have al2: "alloc ''batch'' 0" using r samp al False by (cases "alloc ''batch'' 0") (auto simp: spec_run_def Let_def)
    let ?b = "batch_of (map (\<lambda>j. (draft ! j, int (length ?h) + int j, s, True)) [0..<length draft])"
    obtain dr c1 where d: "run_decode api it0 ?b n (arm_decode (now_armed it0) c) = (dr, c1)" by fastforce
    have "dr = 0" using r samp al al2 False d
      by (auto simp: spec_run_def Let_def draft_batch_rows at(1) split: if_splits)
    with d have run: "run_decode api it0 ?b n (arm_decode (now_armed it0) c) = (0, c1)" by simp
    from run_decode_native [OF run] obtain poll n1 where
      n1: "erllama_safe_decode api poll ?b n = (0, n1)" "c_ctx c1 = Some n1" by blast
    note dec = causal_decode [OF eng c(2) n1(1)]
    have ok1: "ctx_ok c1" using run_decode_keeps(4) [OF run] c(1) by simp
    have v: "spec_verified api alloc it1 vocab s draft ?pos ch1 n1 c1 = (ch', c', Term (ETuple [atom_ok, x]))"
      using r samp al al2 False run n1(2) by (simp add: spec_run_def Let_def draft_batch_rows at(1))
    have g: "gen smp 1 ch ?h = (take 1 draft, ch1)" using g1 hit(1) c(2) by (cases draft) simp_all
    show ?thesis by (rule spec_verified_post [OF eng s ok1 n1(2) c(2) dec(1) at(1) dec(2) g hit(2) v])
  qed
qed

text \<open>
  C3: A speculative tick is sequential decoding done faster. On an engine whose logits depend only on the
  tokens before them, whenever the tick succeeds: the committed tokens are exactly those
  that drawing and decoding one token at a time would have produced from the same chain, and
  the chain is left in the same state; the KV holds the old tokens and these, rejected draft
  rows are gone; the sequence continues after them with the logits of the last one; only
  the last committed token can end the generation, and the flag returned says so.
\<close>

theorem spec_step_is_sequential:
  assumes "causal_engine api s content rows smp"
    and "ctxs w i = Some c" "ctx_ok c" "c_ctx c = Some n"
    and "samplers w j = Some sr" "s_chain sr = Some ch"
    and "next_pos (seq_of c s) = int (length (content n))"
    and "rows n (last_logits_idx (seq_of c s)) = Some (content n)"
    and "nif_spec_step api alloc it0 it1 (ERes CTX_RT i) (ERes SAMPLER_RT j) (EInt s) draft_t w
           = (w', Term (ETuple [atom_ok, x]))"
  shows "\<exists>vocab ch' c' sr'. fst (erllama_ctx_vocab api n) = Some vocab \<and> ctxs w' i = Some c' \<and>
     samplers w' j = Some sr' \<and> s_chain sr' = Some ch' \<and>
     spec_post api vocab s content rows smp (content n) ch ch' c' (Term (ETuple [atom_ok, x]))"
proof -
  have s: "0 \<le> s" "s < ERLLAMA_N_SEQ_MAX_CAP" "enif_get_int (EInt s) = Some s"
    using assms(9) assms(2,5)
    by (auto simp: nif_spec_step_def ERLLAMA_N_SEQ_MAX_CAP_def split: if_splits)
  obtain draft where draft: "read_token_list (alloc ''draft'' 0) draft_t = TokOk draft" "draft \<noteq> []"
    using assms(5,9) s
    by (auto simp: nif_spec_step_def token_list_error_def split: if_splits tok_read.splits)
  have run: "(case spec_checks api i sr s draft n c of
               Inl r \<Rightarrow> (w, r)
             | Inr (vocab, chain) \<Rightarrow>
                 let (chain', c', r) = spec_run api alloc it0 it1 vocab s draft chain n c
                 in (put_ctx i c' (w\<lparr>samplers := (samplers w)(j \<mapsto> sr\<lparr>s_chain := Some chain'\<rparr>)\<rparr>), r))
        = (w', Term (ETuple [atom_ok, x]))"
    using assms(2,4,5,9) s draft by (simp add: nif_spec_step_def with_ctx_def)
  have not_ok: "spec_checks api i sr s draft n c \<noteq> Inl (Term (ETuple [atom_ok, x]))"
    by (auto simp: spec_checks_def split: option.splits prod.splits)
  with run obtain vocab chain where k: "spec_checks api i sr s draft n c = Inr (vocab, chain)"
    by (cases "spec_checks api i sr s draft n c") auto
  then have vc: "fst (erllama_ctx_vocab api n) = Some vocab" "chain = ch"
    using assms(6) by (auto simp: spec_checks_def split: option.splits prod.splits if_splits)
  obtain ch' c' r where p: "spec_run api alloc it0 it1 vocab s draft ch n c = (ch', c', r)" by (metis prod_cases3)
  have r: "r = Term (ETuple [atom_ok, x])"
    and w': "w' = put_ctx i c' (w\<lparr>samplers := (samplers w)(j \<mapsto> sr\<lparr>s_chain := Some ch'\<rparr>)\<rparr>)"
    using run k vc(2) p by simp_all
  have "spec_post api vocab s content rows smp (content n) ch ch' c' (Term (ETuple [atom_ok, x]))"
    by (rule spec_run_post [OF assms(1) s(1,2) assms(3) draft(2) assms(7,8) p [unfolded r]])
  then show ?thesis using vc(1) w' by auto
qed

subsection \<open>Witness\<close>

text \<open>
  An engine on token lists: the state is the content and the prefixes of the last rows. The
  sampler answers 10 plus the number of tokens so far, and counts. A draft of 13, 14, 99
  after three tokens is accepted twice and corrected once.
\<close>

type_synonym line_ctx = "llama_token list \<times> llama_token list list"

definition line_rows :: "line_ctx \<Rightarrow> int \<Rightarrow> llama_token list option" where
  "line_rows n i = (if 0 \<le> i \<and> nat i < length (snd n) then Some (snd n ! nat i) else None)"

definition line_smp :: "nat \<Rightarrow> llama_token list \<Rightarrow> llama_token \<times> nat" where
  "line_smp k h = (10 + int (length h), Suc k)"

definition line_api :: "(line_ctx, nat) llama_api" where
  "line_api = \<lparr>
     llama_get_model = (\<lambda>n. Ret (Some 0)), llama_model_get_vocab = (\<lambda>m. Ret (Some 0)),
     llama_vocab_n_tokens = (\<lambda>v. Ret 1000), llama_vocab_is_eog = (\<lambda>v t. Ret (t = 2)),
     llama_model_n_embd = (\<lambda>m. Ret 2), llama_n_ctx = (\<lambda>n. Ret 16), llama_n_batch = (\<lambda>n. Ret 4),
     llama_decode = (\<lambda>poll b n. (Ret 0, (fst n @ b_token b,
        map (\<lambda>j. fst n @ take (Suc j) (b_token b)) [0..<length (b_token b)]))),
     llama_get_logits_ith = (\<lambda>n i. Ret None),
     llama_get_memory = (\<lambda>n. Ret True),
     llama_memory_seq_rm = (\<lambda>s p0 p1 n. (Ret True, (take (nat p0) (fst n), snd n))),
     llama_memory_seq_cp = (\<lambda>s t p0 p1 n. (Ret (), n)),
     llama_memory_seq_pos_max = (\<lambda>s n. Ret (int (length (fst n)) - 1)),
     llama_state_seq_get_size = (\<lambda>s n. Ret 0), llama_state_seq_get_data = (\<lambda>sz s n. Ret (0, [])),
     llama_state_seq_set_data = (\<lambda>bs s n. (Ret 0, n)), llama_set_embeddings = (\<lambda>v n. (Ret (), n)),
     llama_get_embeddings_seq = (\<lambda>n s. Ret None), llama_get_embeddings = (\<lambda>n. Ret None),
     llama_sampler_sample = (\<lambda>ch n i. case line_rows n i of None \<Rightarrow> (Throw, ch)
        | Some h \<Rightarrow> (Ret (fst (line_smp ch h)), snd (line_smp ch h)))\<rparr>"

lemma line_engine: "causal_engine line_api s fst line_rows line_smp"
proof -
  have bt: "map (fst \<circ> (\<lambda>j. (toks ! j, f j, s, True))) [0..<length toks] = toks" for toks :: "llama_token list" and f
    by (simp add: comp_def map_nth)
  show ?thesis
    by (auto simp: causal_engine_def line_api_def line_rows_def line_smp_def bt)
qed

definition line_c :: "(line_ctx, nat) context_res" where
  "line_c = set_seq 1 \<lparr>last_logits_idx = 0, next_pos = 3\<rparr>
     ((new_context_res ([5, 6, 7], [[5, 6, 7]]) 1000)\<lparr>decode_ready := True\<rparr>)"

definition line_w :: "(line_ctx, nat) nif_state" where
  "line_w = \<lparr>ctxs = [0 \<mapsto> line_c], samplers = [5 \<mapsto> \<lparr>s_chain = Some 0, s_ctx_res = 0, s_n_probs = 0\<rparr>]\<rparr>"

theorem spec_step_is_sequential_witness:
  "\<exists>ch' c' vocab. ctxs (fst (nif_spec_step line_api demo_ok demo_it demo_it (ERes CTX_RT 0) (ERes SAMPLER_RT 5) (EInt 1)
        (mk_list [EInt 13, EInt 14, EInt 99]) line_w)) 0 = Some c' \<and>
     spec_post line_api vocab 1 fst line_rows line_smp [5, 6, 7] 0 ch' c' (spec_ok [13, 14, 15] False 2)"
proof -
  let ?r = "nif_spec_step line_api demo_ok demo_it demo_it (ERes CTX_RT 0) (ERes SAMPLER_RT 5) (EInt 1)
        (mk_list [EInt 13, EInt 14, EInt 99]) line_w"
  have "snd ?r = spec_ok [13, 14, 15] False 2" by code_simp
  then have r: "?r = (fst ?r, Term (ETuple [atom_ok, ETuple [EAtom ''spec'', mk_list (map EInt [13, 14, 15]), EInt 0, EInt 2]]))"
    by (simp add: prod_eq_iff spec_ok_def)
  have w: "ctxs line_w 0 = Some line_c" "samplers line_w 5 = Some \<lparr>s_chain = Some 0, s_ctx_res = 0, s_n_probs = 0\<rparr>"
    by (simp_all add: line_w_def)
  have ok: "ctx_ok line_c" by (simp add: line_c_def new_context_res_def ctx_ok_def set_seq_def)
  have n: "c_ctx line_c = Some ([5, 6, 7], [[5, 6, 7]])" by (simp add: line_c_def new_context_res_def)
  have p: "seq_of line_c 1 = \<lparr>last_logits_idx = 0, next_pos = 3\<rparr>"
    by code_simp
  have pos: "next_pos (seq_of line_c 1) = int (length (fst ([5, 6, 7] :: llama_token list, [[5, 6, 7]] :: llama_token list list)))"
    unfolding p by simp
  have row: "line_rows ([5, 6, 7], [[5, 6, 7]]) (last_logits_idx (seq_of line_c 1)) = Some (fst ([5, 6, 7], [[5, 6, 7]]))"
    unfolding p by (simp add: line_rows_def)
  have ch: "s_chain \<lparr>s_chain = Some (0::nat), s_ctx_res = 0, s_n_probs = 0\<rparr> = Some 0" by simp
  from spec_step_is_sequential [OF line_engine w(1) ok n w(2) ch pos row r]
  show ?thesis unfolding spec_ok_def fst_conv by auto
qed

end
