(* ===== verification/Sampler_Heap.thy ===== *)
theory Sampler_Heap
  imports Erllama_Base "HOL-Library.Multiset"
begin

text \<open>
  The native sampler objects of \<open>llama-sampler.cpp\<close> and who owns them. An object is a stage or
  a chain of stages; a pointer is its index in the heap, a freed object is \<open>None\<close>. Using or
  freeing an object that is not there is undefined behaviour, the value \<open>None\<close> of the
  operations. A call that may throw does so when \<open>e_ok\<close> of the running number of the call says so;
  the shims of \<open>erllama_safe.cpp\<close> turn that into \<open>NULL\<close> or an error code. Destructors do not throw.
\<close>

datatype bias_val = Bias rat | NegInfinity

text \<open>
  The stages, with the arguments of their constructors. A grammar carries the tokens it has
  accepted since it was compiled.
\<close>

datatype stage =
    SGreedy
  | SDist u32
  | STopK int
  | STopP rat nat
  | SMinP rat nat
  | STypical rat nat
  | STemp rat
  | STempExt rat rat rat
  | SXtc rat rat nat u32
  | STopNSigma rat
  | SMirostat int u32 rat rat int
  | SMirostatV2 u32 rat rat
  | SPenalties int int rat rat rat
  | SDry rat rat int int "byte list list"
  | SInfill
  | SLogitBias int "(llama_token \<times> bias_val) list"
  | SGrammar bool "byte list" "byte list list" "llama_token list" "llama_token list"

datatype native = NStage stage | NChain "nat list"

type_synonym heap = "native option list"

record sworld =
  w_heap :: heap
  w_tick :: nat

text \<open>Whether the next allocation or call succeeds.\<close>

definition try_call :: "(nat \<Rightarrow> bool) \<Rightarrow> sworld \<Rightarrow> bool \<times> sworld" where
  "try_call ok w = (ok (w_tick w), w\<lparr>w_tick := Suc (w_tick w)\<rparr>)"

definition new_native :: "native \<Rightarrow> sworld \<Rightarrow> nat \<times> sworld" where
  "new_native x w = (length (w_heap w), w\<lparr>w_heap := w_heap w @ [Some x]\<rparr>)"

text \<open>\<open>erllama_safe_sampler_init_*\<close> and \<open>erllama_safe_sampler_chain_init\<close>; \<open>None\<close> is \<open>NULL\<close>.\<close>

definition safe_init :: "(nat \<Rightarrow> bool) \<Rightarrow> native \<Rightarrow> sworld \<Rightarrow> nat option \<times> sworld" where
  "safe_init ok x w =
     (let (b, w1) = try_call ok w in if b then map_prod Some id (new_native x w1) else (None, w1))"

definition deref :: "nat \<Rightarrow> heap \<Rightarrow> native option" where
  "deref p h = (if p < length h then h ! p else None)"

text \<open>\<open>llama_sampler_free\<close>, with \<open>llama_sampler_chain_free\<close> for the members of a chain.\<close>

function free_list :: "nat list \<Rightarrow> heap \<Rightarrow> heap option" where
  "free_list [] h = Some h"
| "free_list (p # ps) h =
     (case deref p h of None \<Rightarrow> None
      | Some (NStage s) \<Rightarrow> free_list ps (h[p := None])
      | Some (NChain qs) \<Rightarrow> free_list (qs @ ps) (h[p := None]))"
  by pat_completeness auto

lemma freed_fewer: "deref p h = Some x \<Longrightarrow>
    length (filter (\<lambda>y. y \<noteq> None) (h[p := None])) < length (filter (\<lambda>y. y \<noteq> None) h)"
proof (induction h arbitrary: p)
  case (Cons y h)
  then show ?case by (cases p) (auto simp: deref_def split: if_splits)
qed (simp add: deref_def)

termination free_list
  by (relation "measure (\<lambda>(ps, h). length (filter (\<lambda>y. y \<noteq> None) h))") (auto dest: freed_fewer)

definition safe_sampler_free :: "nat \<Rightarrow> sworld \<Rightarrow> sworld option" where
  "safe_sampler_free p w = map_option (\<lambda>h. w\<lparr>w_heap := h\<rparr>) (free_list [p] (w_heap w))"

text \<open>\<open>erllama_safe_sampler_chain_add\<close>: 0, or -1 when the vector could not grow.\<close>

definition safe_chain_add :: "(nat \<Rightarrow> bool) \<Rightarrow> nat \<Rightarrow> nat \<Rightarrow> sworld \<Rightarrow> (int \<times> sworld) option" where
  "safe_chain_add ok chain s w =
     (let (b, w1) = try_call ok w in
      case deref chain (w_heap w1) of
        Some (NChain qs) \<Rightarrow>
          Some (if b then (0, w1\<lparr>w_heap := (w_heap w1)[chain := Some (NChain (qs @ [s]))]\<rparr>) else (-1, w1))
      | _ \<Rightarrow> None)"

text \<open>\<open>erllama_safe_sampler_clone\<close> of a stage: the clone of a grammar has accepted what the original has.\<close>

definition safe_clone :: "(nat \<Rightarrow> bool) \<Rightarrow> nat \<Rightarrow> sworld \<Rightarrow> (nat option \<times> sworld) option" where
  "safe_clone ok p w =
     (case deref p (w_heap w) of
        Some (NStage s) \<Rightarrow> Some (safe_init ok (NStage s) w)
      | _ \<Rightarrow> None)"

fun stage_accept :: "llama_token \<Rightarrow> stage \<Rightarrow> stage" where
  "stage_accept t (SGrammar lazy g ps ts acc) = SGrammar lazy g ps ts (acc @ [t])"
| "stage_accept t s = s"

text \<open>\<open>llama_sampler_accept\<close> of a stage, and of the members of a chain.\<close>

definition accept_stage :: "llama_token \<Rightarrow> nat \<Rightarrow> heap \<Rightarrow> heap option" where
  "accept_stage t p h =
     (case deref p h of Some (NStage s) \<Rightarrow> Some (h[p := Some (NStage (stage_accept t s))]) | _ \<Rightarrow> None)"

definition safe_accept :: "(nat \<Rightarrow> bool) \<Rightarrow> nat \<Rightarrow> llama_token \<Rightarrow> sworld \<Rightarrow> (int \<times> sworld) option" where
  "safe_accept ok p t w =
     (let (b, w1) = try_call ok w in
      if b then map_option (\<lambda>h. (0, w1\<lparr>w_heap := h\<rparr>)) (accept_stage t p (w_heap w1)) else Some (-1, w1))"

definition chain_accept :: "llama_token \<Rightarrow> nat \<Rightarrow> heap \<Rightarrow> heap option" where
  "chain_accept t chain h =
     (case deref chain h of Some (NChain qs) \<Rightarrow> foldM (accept_stage t) qs h | _ \<Rightarrow> None)"

subsection \<open>Ownership\<close>

text \<open>
  \<open>own h p\<close> is what the owner of \<open>p\<close> owns: the object, and the members of a chain. \<open>heap_inv h R\<close>
  says that the owned pointers \<open>R\<close> account for every object that is allocated, each exactly once:
  nothing has leaked, and nothing is owned twice.
\<close>

definition own :: "heap \<Rightarrow> nat \<Rightarrow> nat multiset" where
  "own h p = (case deref p h of Some (NChain qs) \<Rightarrow> add_mset p (mset qs) | _ \<Rightarrow> {#p#})"

definition is_stage :: "heap \<Rightarrow> nat \<Rightarrow> bool" where
  "is_stage h p \<longleftrightarrow> (\<exists>s. deref p h = Some (NStage s))"

definition root_ok :: "heap \<Rightarrow> nat \<Rightarrow> bool" where
  "root_ok h p \<longleftrightarrow> is_stage h p \<or> (\<exists>qs. deref p h = Some (NChain qs) \<and> (\<forall>q \<in> set qs. is_stage h q))"

definition live :: "heap \<Rightarrow> nat set" where
  "live h = {p. deref p h \<noteq> None}"

definition heap_inv :: "heap \<Rightarrow> nat multiset \<Rightarrow> bool" where
  "heap_inv h R \<longleftrightarrow> (\<Sum>p\<in>#R. own h p) = mset_set (live h) \<and> (\<forall>p \<in># R. root_ok h p)"

subsection \<open>Steps that keep the heap accounted for\<close>

lemma deref_update: "p < length h \<Longrightarrow> deref q (h[p := x]) = (if q = p then x else deref q h)"
  by (auto simp: deref_def)

lemma deref_append: "deref q (h @ [x]) = (if q = length h then x else deref q h)"
  by (auto simp: deref_def nth_append)

lemma deref_SomeD: "deref p h = Some x \<Longrightarrow> p < length h"
  by (auto simp: deref_def split: if_splits)

lemma live_finite [simp]: "finite (live h)"
proof (rule finite_subset)
  show "live h \<subseteq> {..<length h}" by (auto simp: live_def deref_def split: if_splits)
qed simp

lemma own_self: "p \<in># own h p"
  by (simp add: own_def split: option.splits native.splits)

lemma root_ok_own_live: "root_ok h p \<Longrightarrow> set_mset (own h p) \<subseteq> live h"
  by (auto simp: root_ok_def own_def is_stage_def live_def)

definition owned :: "heap \<Rightarrow> nat multiset \<Rightarrow> nat multiset" where
  "owned h R = (\<Sum>p\<in>#R. own h p)"

lemma owned_simps [simp]: "owned h {#} = {#}" "owned h (add_mset p R) = own h p + owned h R"
  "owned h (R + Q) = owned h R + owned h Q"
  by (simp_all add: owned_def)

lemma owned_mem: "q \<in># owned h R \<longleftrightarrow> (\<exists>p \<in># R. q \<in># own h p)"
  by (simp add: owned_def)

lemma owned_cong: "(\<And>p. p \<in># R \<Longrightarrow> own h' p = own h p) \<Longrightarrow> owned h' R = owned h R"
  unfolding owned_def by (intro arg_cong [where f = sum_mset] image_mset_cong)

lemma heap_invD:
  assumes "heap_inv h R"
  shows "owned h R = mset_set (live h)" "p \<in># R \<Longrightarrow> root_ok h p"
  using assms by (auto simp: heap_inv_def owned_def)

lemma heap_invI: "owned h R = mset_set (live h) \<Longrightarrow> (\<And>p. p \<in># R \<Longrightarrow> root_ok h p) \<Longrightarrow> heap_inv h R"
  by (auto simp: heap_inv_def owned_def)

lemma heap_inv_live: "heap_inv h R \<Longrightarrow> p \<in># R \<Longrightarrow> q \<in># own h p \<Longrightarrow> q \<in> live h"
  by (metis heap_invD(2) root_ok_own_live subsetD)

lemma heap_inv_count: "heap_inv h R \<Longrightarrow> count (owned h R) q \<le> 1"
  by (simp add: heap_invD(1) count_mset_set')

text \<open>What one root owns, no other root owns.\<close>

lemma heap_inv_disjoint:
  assumes "heap_inv h (add_mset p R)" "q \<in># own h p" "r \<in># R"
  shows "q \<notin># own h r"
proof
  assume "q \<in># own h r"
  then have "q \<in># owned h R" using assms(3) by (auto simp: owned_mem)
  then have "count (owned h (add_mset p R)) q \<ge> 2" using assms(2) by (simp add: Suc_le_eq add_mono numeral_2_eq_2
    flip: count_greater_zero_iff)
  then show False using heap_inv_count [OF assms(1), of q] by simp
qed

lemma heap_inv_distinct: "heap_inv h (add_mset p R) \<Longrightarrow> count (own h p) q \<le> 1"
  using heap_inv_count [of h "add_mset p R" q] by simp

lemma is_stage_cong: "deref q h' = deref q h \<Longrightarrow> is_stage h' q = is_stage h q"
  by (simp add: is_stage_def)

lemma own_cong: "deref p h' = deref p h \<Longrightarrow> own h' p = own h p"
  by (simp add: own_def)

lemma root_ok_cong: "(\<And>q. q \<in># own h p \<Longrightarrow> deref q h' = deref q h) \<Longrightarrow> root_ok h p \<Longrightarrow> root_ok h' p"
  using own_self [of p h] by (auto simp: root_ok_def is_stage_def own_def)

lemma heap_inv_new:
  assumes "heap_inv h R" "x = NChain [] \<or> x = NStage s"
  shows "heap_inv (h @ [Some x]) (add_mset (length h) R)"
proof (rule heap_invI)
  have fresh: "length h \<notin> live h" by (simp add: live_def deref_def)
  have same: "deref q (h @ [Some x]) = deref q h" if "q \<in> live h" for q
    using that fresh by (auto simp: deref_append)
  have "own (h @ [Some x]) p = own h p" if "p \<in># R" for p
    using heap_inv_live [OF assms(1) that own_self] by (intro own_cong same)
  then have "owned (h @ [Some x]) R = owned h R" by (rule owned_cong)
  moreover have "own (h @ [Some x]) (length h) = {#length h#}" using assms(2) by (auto simp: own_def deref_append)
  moreover have "live (h @ [Some x]) = insert (length h) (live h)" by (auto simp: live_def deref_append)
  ultimately show "owned (h @ [Some x]) (add_mset (length h) R) = mset_set (live (h @ [Some x]))"
    using fresh heap_invD(1) [OF assms(1)] by simp
  fix p assume "p \<in># add_mset (length h) R"
  then consider "p = length h" | "p \<in># R" by auto
  then show "root_ok (h @ [Some x]) p"
  proof cases
    case 1
    then show ?thesis using assms(2) by (auto simp: root_ok_def is_stage_def deref_append)
  next
    case 2
    show ?thesis by (rule root_ok_cong [OF _ heap_invD(2) [OF assms(1) 2]]) (rule same, rule heap_inv_live [OF assms(1) 2])
  qed
qed

lemma heap_inv_chain_add:
  assumes inv: "heap_inv h (add_mset s (add_mset c R))" and c: "deref c h = Some (NChain qs)" and s: "is_stage h s"
  shows "heap_inv (h[c := Some (NChain (qs @ [s]))]) (add_mset c R)"
proof (rule heap_invI)
  let ?h = "h[c := Some (NChain (qs @ [s]))]"
  have d: "deref q ?h = (if q = c then Some (NChain (qs @ [s])) else deref q h)" for q
    using deref_SomeD [OF c] by (rule deref_update)
  have inv': "heap_inv h (add_mset c (add_mset s R))" using inv by (simp add: add_mset_commute)
  have sc: "s \<noteq> c" using s c by (auto simp: is_stage_def)
  have nc: "c \<notin># own h p" if "p \<in># R" for p using heap_inv_disjoint [OF inv' own_self] that by simp
  have "own ?h p = own h p" if "p \<in># R" for p
    using nc [OF that] own_self [of p h] by (intro own_cong) (auto simp: d)
  then have "owned ?h R = owned h R" by (rule owned_cong)
  moreover have "own ?h c = own h c + own h s" using c s by (auto simp: own_def d is_stage_def)
  moreover have "live ?h = live h" using c by (auto simp: live_def d)
  ultimately show "owned ?h (add_mset c R) = mset_set (live ?h)"
    using heap_invD(1) [OF inv] by (simp add: add_ac)
  fix p assume "p \<in># add_mset c R"
  then consider "p = c" | "p \<in># R" by auto
  then show "root_ok ?h p"
  proof cases
    case 1
    have "\<forall>q \<in> set qs. is_stage h q" using heap_invD(2) [OF inv, of c] c by (auto simp: root_ok_def is_stage_def)
    then have "\<forall>q \<in> set (qs @ [s]). is_stage ?h q" using s c sc by (auto simp: is_stage_def d)
    then show ?thesis using 1 by (auto simp: root_ok_def d)
  next
    case 2
    have "root_ok h p" using heap_invD(2) [OF inv, of p] 2 by simp
    then show ?thesis using nc [OF 2] by (rule_tac root_ok_cong [of h p]) (auto simp: d)
  qed
qed

lemma free_stages:
  "distinct ps \<Longrightarrow> \<forall>p \<in> set ps. is_stage h p \<Longrightarrow>
    \<exists>h'. free_list ps h = Some h' \<and> length h' = length h \<and> (\<forall>q. deref q h' = (if q \<in> set ps then None else deref q h))"
proof (induction ps arbitrary: h)
  case (Cons p ps)
  then obtain s where s: "deref p h = Some (NStage s)" by (auto simp: is_stage_def)
  note d = deref_update [OF deref_SomeD [OF s]]
  have "\<forall>q \<in> set ps. is_stage (h[p := None]) q" using Cons.prems by (auto simp: is_stage_def d)
  with Cons.IH [of "h[p := None]"] Cons.prems(1) obtain h' where
    "free_list ps (h[p := None]) = Some h'" "length h' = length h"
    "\<forall>q. deref q h' = (if q \<in> set ps then None else deref q (h[p := None]))" by auto
  then show ?case using s by (auto simp: d)
qed simp

lemma heap_inv_free:
  assumes inv: "heap_inv h (add_mset p R)"
  shows "\<exists>h'. free_list [p] h = Some h' \<and> heap_inv h' R \<and> (\<forall>q. q \<notin># own h p \<longrightarrow> deref q h' = deref q h)"
proof -
  have ok: "root_ok h p" using heap_invD(2) [OF inv] by simp
  obtain h' where h': "free_list [p] h = Some h'" "\<forall>q. deref q h' = (if q \<in># own h p then None else deref q h)"
  proof (cases "is_stage h p")
    case True
    then show ?thesis using free_stages [of "[p]" h] that by (auto simp: own_def is_stage_def)
  next
    case False
    with ok obtain qs where qs: "deref p h = Some (NChain qs)" "\<forall>q \<in> set qs. is_stage h q" by (auto simp: root_ok_def)
    note d = deref_update [OF deref_SomeD [OF qs(1)]]
    have o: "own h p = add_mset p (mset qs)" using qs(1) by (simp add: own_def)
    have "count (mset (p # qs)) q \<le> 1" for q using heap_inv_distinct [OF inv, of q] o by simp
    then have "distinct (p # qs)" by (metis distinct_count_atmost_1 le_antisym count_list_0_iff count_greater_eq_one_iff in_multiset_in_set count_eq_zero_iff not_less_eq_eq One_nat_def le_zero_eq)
    then have dist: "p \<notin> set qs" "distinct qs" by simp_all
    have "\<forall>q \<in> set qs. is_stage (h[p := None]) q" using qs(2) dist(1) by (auto simp: is_stage_def d)
    from free_stages [OF dist(2) this] obtain h' where
      "free_list qs (h[p := None]) = Some h'"
      "\<forall>q. deref q h' = (if q \<in> set qs then None else deref q (h[p := None]))" by blast
    then show ?thesis using qs(1) that [of h'] by (auto simp: o d)
  qed
  have keep: "deref q h' = deref q h" if "r \<in># R" "q \<in># own h r" for q r
    using h'(2) heap_inv_disjoint [OF inv _ that(1), of q] that(2) by auto
  have "own h' r = own h r" if "r \<in># R" for r using keep [OF that own_self] by (rule own_cong)
  then have R: "owned h' R = owned h R" by (rule owned_cong)
  have "owned h' R = mset_set (live h')"
  proof (rule multiset_eqI)
    fix q
    have sum: "count (own h p) q + count (owned h R) q = count (mset_set (live h)) q"
      using heap_invD(1) [OF inv] by (metis count_union owned_simps(2))
    have "q \<in> live h' \<longleftrightarrow> q \<in> live h \<and> q \<notin># own h p" using h'(2) by (auto simp: live_def)
    then show "count (owned h' R) q = count (mset_set (live h')) q"
    proof (cases "q \<in># own h p")
      case True
      then have "count (own h p) q = 1" using heap_inv_distinct [OF inv, of q] by (metis One_nat_def Suc_leI
            count_greater_zero_iff le_antisym)
      then have "count (owned h R) q = 0" using sum by (simp add: count_mset_set' split: if_splits)
      then show ?thesis using R True \<open>q \<in> live h' \<longleftrightarrow> q \<in> live h \<and> q \<notin># own h p\<close> by (simp add: count_mset_set')
    next
      case False
      then show ?thesis using sum R \<open>q \<in> live h' \<longleftrightarrow> q \<in> live h \<and> q \<notin># own h p\<close>
        by (simp add: count_mset_set' not_in_iff)
    qed
  qed
  moreover have "root_ok h' r" if r: "r \<in># R" for r
  proof (rule root_ok_cong)
    show "deref q h' = deref q h" if "q \<in># own h r" for q using keep [OF r that] .
    show "root_ok h r" using heap_invD(2) [OF inv, of r] r by simp
  qed
  moreover have "deref q h' = deref q h" if "q \<notin># own h p" for q using h'(2) that by simp
  ultimately show ?thesis using h'(1) by (intro exI [of _ h'] conjI heap_invI) simp_all
qed

end
