(* ===== verification/Sampler_Chain.thy ===== *)
theory Sampler_Chain
  imports Sampler_Heap Nif_Util
begin

text \<open>
  The sampler entry points of \<open>erllama_nif_sampler.c\<close>: the chain builder, the cache of compiled
  grammars of a context, and the resources that own chains.

  What the engine answers is the record \<open>smp_env\<close>: which calls succeed, the conversion of doubles to
  floats, the vocabulary of the model, which grammars compile, and \<open>llama_tokenize\<close> and
  \<open>llama_token_to_piece\<close> for the generation prompt. Strings are bytes; a C string ends at its NUL.
  Only the state these functions touch is in \<open>smp_ctx\<close>. Every step is one call under the
  mutex of its context.
\<close>

record smp_env =
  e_ok :: "nat \<Rightarrow> bool"
  e_fl :: "rat \<Rightarrow> rat"
  e_vocab :: bool
  e_n_vocab :: int
  e_eos :: llama_token
  e_is_eog :: "llama_token \<Rightarrow> bool"
  e_grammar_ok :: "bool \<Rightarrow> byte list \<Rightarrow> byte list list \<Rightarrow> llama_token list \<Rightarrow> bool"
  e_tokenize :: "byte list \<Rightarrow> tokenizer"
  e_piece :: "llama_token \<Rightarrow> int \<times> byte list"

definition cstr :: "byte list \<Rightarrow> byte list" where
  "cstr bs = takeWhile (\<lambda>b. b \<noteq> 0) bs"

subsection \<open>Chains\<close>

type_synonym chain_step = "sworld \<Rightarrow> (string option \<times> sworld) option"

definition chain_append :: "(nat \<Rightarrow> bool) \<Rightarrow> nat \<Rightarrow> nat option \<Rightarrow> sworld \<Rightarrow> (int \<times> sworld) option" where
  "chain_append ok chain stage w =
     (case stage of None \<Rightarrow> Some (-1, w)
      | Some s \<Rightarrow> do {
          (rc, w1) \<leftarrow> safe_chain_add ok chain s w;
          if rc \<noteq> 0 then do { w2 \<leftarrow> safe_sampler_free s w1; Some (-1, w2) } else Some (0, w1) })"

definition fail_chain :: "string \<Rightarrow> nat \<Rightarrow> chain_step" where
  "fail_chain e chain w = do { w1 \<leftarrow> safe_sampler_free chain w; Some (Some e, w1) }"

definition chain_append_or_fail :: "(nat \<Rightarrow> bool) \<Rightarrow> nat \<Rightarrow> nat option \<Rightarrow> chain_step" where
  "chain_append_or_fail ok chain stage w = do {
     (rc, w1) \<leftarrow> chain_append ok chain stage w;
     if rc \<noteq> 0 then fail_chain ''oom'' chain w1 else Some (None, w1) }"

definition add_stage :: "(nat \<Rightarrow> bool) \<Rightarrow> nat \<Rightarrow> stage \<Rightarrow> chain_step" where
  "add_stage ok chain s w = (let (p, w1) = safe_init ok (NStage s) w in chain_append_or_fail ok chain p w1)"

definition build_default_greedy_chain :: "(nat \<Rightarrow> bool) \<Rightarrow> sworld \<Rightarrow> (nat option \<times> sworld) option" where
  "build_default_greedy_chain ok w =
     (let (c, w1) = safe_init ok (NChain []) w in
      case c of None \<Rightarrow> Some (None, w1)
      | Some chain \<Rightarrow>
          let (g, w2) = safe_init ok (NStage SGreedy) w1 in
          (case g of None \<Rightarrow> do { w3 \<leftarrow> safe_sampler_free chain w2; Some (None, w3) }
           | Some greedy \<Rightarrow> do {
               (rc, w3) \<leftarrow> safe_chain_add ok chain greedy w2;
               if rc \<noteq> 0 then do {
                 w4 \<leftarrow> safe_sampler_free greedy w3;
                 w5 \<leftarrow> safe_sampler_free chain w4;
                 Some (None, w5) }
               else Some (Some chain, w3) }))"

text \<open>\<open>read_string_list\<close>: the strings up to their NUL; \<open>None\<close> for a bad term or a failed allocation.\<close>

fun read_strings :: "(nat \<Rightarrow> bool) \<Rightarrow> eterm list \<Rightarrow> byte list list \<Rightarrow> sworld \<Rightarrow> byte list list option \<times> sworld" where
  "read_strings ok [] acc w = (Some acc, w)"
| "read_strings ok (h # hs) acc w =
     (case iolist_bytes h of None \<Rightarrow> (None, w)
      | Some bs \<Rightarrow>
          let (b, w1) = try_call ok w in
          if \<not> b then (None, w1) else read_strings ok hs (acc @ [cstr bs]) w1)"

definition read_string_list :: "(nat \<Rightarrow> bool) \<Rightarrow> eterm \<Rightarrow> sworld \<Rightarrow> byte list list option \<times> sworld" where
  "read_string_list ok list w =
     (case enif_get_list_length list of None \<Rightarrow> (None, w)
      | Some n \<Rightarrow>
          if n = 0 then (Some [], w)
          else let (b, w1) = try_call ok w in
            if \<not> b then (None, w1) else read_strings ok (list_cells list) [] w1)"

subsection \<open>The cache of compiled grammars\<close>

record gc_entry =
  ge_bytes :: "byte list"
  ge_hash :: u64
  ge_tmpl :: "nat option"
  ge_lru :: u64

record smp_ctx =
  x_live :: bool
  x_smpl :: "nat option"
  x_gcache :: "gc_entry list"
  x_tick :: u64
  x_hits :: u64
  x_misses :: u64

definition ERLLAMA_GRAMMAR_CACHE_N :: nat where
  "ERLLAMA_GRAMMAR_CACHE_N = 4"

definition empty_entry :: gc_entry where
  "empty_entry = \<lparr>ge_bytes = [], ge_hash = 0, ge_tmpl = None, ge_lru = 0\<rparr>"

definition new_smp_ctx :: smp_ctx where
  "new_smp_ctx = \<lparr>x_live = True, x_smpl = None, x_gcache = replicate ERLLAMA_GRAMMAR_CACHE_N empty_entry,
     x_tick = 0, x_hits = 0, x_misses = 0\<rparr>"

definition grammar_hash :: "byte list \<Rightarrow> u64" where
  "grammar_hash bs = foldl (\<lambda>h b. (h XOR ucast b) * 1099511628211) 1469598103934665603 bs"

definition entry_matches :: "byte list \<Rightarrow> gc_entry \<Rightarrow> bool" where
  "entry_matches bs e \<longleftrightarrow> ge_tmpl e \<noteq> None \<and> ge_hash e = grammar_hash bs \<and> length (ge_bytes e) = length bs \<and> ge_bytes e = bs"

fun cache_find :: "byte list \<Rightarrow> gc_entry list \<Rightarrow> nat \<Rightarrow> nat option" where
  "cache_find bs [] i = None"
| "cache_find bs (e # es) i = (if entry_matches bs e then Some i else cache_find bs es (Suc i))"

definition grammar_cache_get :: "byte list \<Rightarrow> smp_ctx \<Rightarrow> nat option \<times> smp_ctx" where
  "grammar_cache_get bs c =
     (case cache_find bs (x_gcache c) 0 of
        Some i \<Rightarrow>
          let t = x_tick c + 1; e = x_gcache c ! i in
          (ge_tmpl e, c\<lparr>x_tick := t, x_gcache := (x_gcache c)[i := e\<lparr>ge_lru := t\<rparr>], x_hits := x_hits c + 1\<rparr>)
      | None \<Rightarrow> (None, c\<lparr>x_misses := x_misses c + 1\<rparr>))"

text \<open>The scan for the slot to use: the first empty one, else the one used least recently.\<close>

fun victim_from :: "gc_entry list \<Rightarrow> nat \<Rightarrow> nat \<Rightarrow> u64 \<Rightarrow> nat" where
  "victim_from [] i victim oldest = victim"
| "victim_from (e # es) i victim oldest =
     (if ge_tmpl e = None then i
      else if ge_lru e < oldest then victim_from es (Suc i) i (ge_lru e)
      else victim_from es (Suc i) victim oldest)"

definition grammar_cache_put ::
  "(nat \<Rightarrow> bool) \<Rightarrow> byte list \<Rightarrow> nat \<Rightarrow> smp_ctx \<Rightarrow> sworld \<Rightarrow> (smp_ctx \<times> sworld) option" where
  "grammar_cache_put ok bs tmpl c w =
     (let victim = victim_from (x_gcache c) 0 0 UINT64_MAX; (b, w1) = try_call ok w in
      if \<not> b then do { w2 \<leftarrow> safe_sampler_free tmpl w1; Some (c, w2) }
      else do {
        let e = x_gcache c ! victim;
        let t = x_tick c + 1;
        w2 \<leftarrow> (case ge_tmpl e of None \<Rightarrow> Some w1 | Some old \<Rightarrow> safe_sampler_free old w1);
        Some (c\<lparr>x_tick := t,
                x_gcache := (x_gcache c)[victim :=
                  \<lparr>ge_bytes = bs, ge_hash = grammar_hash bs, ge_tmpl = Some tmpl, ge_lru = t\<rparr>]\<rparr>, w2) })"

fun clear_entries :: "gc_entry list \<Rightarrow> sworld \<Rightarrow> (gc_entry list \<times> sworld) option" where
  "clear_entries [] w = Some ([], w)"
| "clear_entries (e # es) w = do {
     w1 \<leftarrow> (case ge_tmpl e of None \<Rightarrow> Some w | Some t \<Rightarrow> safe_sampler_free t w);
     (es', w2) \<leftarrow> clear_entries es w1;
     Some (e\<lparr>ge_bytes := [], ge_hash := 0, ge_tmpl := None\<rparr> # es', w2) }"

definition grammar_cache_clear :: "smp_ctx \<Rightarrow> sworld \<Rightarrow> (smp_ctx \<times> sworld) option" where
  "grammar_cache_clear c w = do { (es, w1) \<leftarrow> clear_entries (x_gcache c) w; Some (c\<lparr>x_gcache := es\<rparr>, w1) }"

subsection \<open>The grammar stage\<close>

definition erllama_is_space :: "byte \<Rightarrow> bool" where
  "erllama_is_space ch \<longleftrightarrow> ch = 32 \<or> ch = 9 \<or> ch = 10 \<or> ch = 13"

text \<open>The loop that feeds the tokens of the generation prompt; \<open>first\<close> is \<open>i = 0\<close>.\<close>

fun accept_tokens :: "smp_env \<Rightarrow> nat \<Rightarrow> byte list \<Rightarrow> bool \<Rightarrow> llama_token list \<Rightarrow> sworld \<Rightarrow> (int \<times> sworld) option" where
  "accept_tokens env g text first [] w = Some (0, w)"
| "accept_tokens env g text first (t # ts) w =
     (let (pn, piece) = e_piece env t in
      if first \<and> pn > 0 \<and> erllama_is_space (piece ! 0) \<and> \<not> erllama_is_space (text ! 0)
      then accept_tokens env g text False ts w
      else do {
        (rc, w1) \<leftarrow> safe_accept (e_ok env) g t w;
        if rc \<noteq> 0 then Some (-1, w1) else accept_tokens env g text False ts w1 })"

definition grammar_accept_prefill :: "smp_env \<Rightarrow> nat \<Rightarrow> byte list \<Rightarrow> sworld \<Rightarrow> (int \<times> sworld) option" where
  "grammar_accept_prefill env g text w =
     (let cap = int (length text) + 16; (b, w1) = try_call (e_ok env) w in
      if \<not> b then Some (-1, w1)
      else
        let (n, toks) = erllama_safe_tokenize (e_tokenize env text) cap in
        if n < 0 then Some (-1, w1) else accept_tokens env g text True (take (nat n) toks) w1)"

text \<open>The key: the bytes of a plain grammar, or the buffer composed for the others.\<close>

definition token_le :: "llama_token \<Rightarrow> byte list" where
  "token_le t = (let u = (word_of_int t :: u32) in
     [ucast u, ucast (drop_bit 8 u), ucast (drop_bit 16 u), ucast (drop_bit 24 u)])"

definition composed :: "bool \<Rightarrow> byte list list \<Rightarrow> llama_token list \<Rightarrow> bool" where
  "composed lazy patterns toks \<longleftrightarrow> lazy \<or> patterns \<noteq> [] \<or> toks \<noteq> []"

definition grammar_key :: "bool \<Rightarrow> byte list \<Rightarrow> byte list list \<Rightarrow> llama_token list \<Rightarrow> byte list" where
  "grammar_key lazy gbnf patterns toks =
     (if composed lazy patterns toks
      then (if lazy then 1 else 0) # gbnf @ [0] @ concat (map (\<lambda>p. p @ [0]) patterns) @ concat (map token_le toks)
      else gbnf)"

definition grammar_stage :: "bool \<Rightarrow> byte list \<Rightarrow> byte list list \<Rightarrow> llama_token list \<Rightarrow> stage" where
  "grammar_stage lazy gbnf patterns toks =
     (if lazy then SGrammar True (cstr gbnf) patterns toks [] else SGrammar False (cstr gbnf) [] [] [])"

fun stage_compiles :: "smp_env \<Rightarrow> stage \<Rightarrow> bool" where
  "stage_compiles env (SGrammar lazy g ps ts acc) = e_grammar_ok env lazy g ps ts"
| "stage_compiles env s = True"

text \<open>The compiled template: from the cache, or new; an error atom when there is none.\<close>

definition grammar_template ::
  "smp_env \<Rightarrow> byte list \<Rightarrow> stage \<Rightarrow> smp_ctx \<Rightarrow> sworld \<Rightarrow> (string + nat) \<times> bool \<times> smp_ctx \<times> sworld" where
  "grammar_template env key s c w =
     (let (hit, c1) = grammar_cache_get key c in
      case hit of Some t \<Rightarrow> (Inr t, True, c1, w)
      | None \<Rightarrow>
          let (b, w1) = try_call (e_ok env) w in
          if \<not> b then (Inl ''oom'', False, c1, w1)
          else
            let (b, w2) = try_call (e_ok env) w1 in
            if b \<and> stage_compiles env s
            then let (t, w3) = new_native (NStage s) w2 in (Inr t, False, c1, w3)
            else (Inl ''grammar_failed'', False, c1, w2))"

text \<open>What follows: clone, cache, feed the prompt, append.\<close>

definition grammar_attach ::
  "smp_env \<Rightarrow> nat \<Rightarrow> byte list \<Rightarrow> bool \<Rightarrow> byte list \<Rightarrow> nat \<Rightarrow> bool \<Rightarrow> smp_ctx \<Rightarrow> sworld
     \<Rightarrow> (string option \<times> smp_ctx \<times> sworld) option" where
  "grammar_attach env chain key lazy prefill tmpl from_cache c w = do {
     (g, w1) \<leftarrow> safe_clone (e_ok env) tmpl w;
     (c2, w2) \<leftarrow> (if from_cache then Some (c, w1) else grammar_cache_put (e_ok env) key tmpl c w1);
     (case g of None \<Rightarrow> Some (Some ''grammar_failed'', c2, w2)
      | Some g \<Rightarrow> do {
          (rc, w3) \<leftarrow> (if \<not> lazy \<and> prefill \<noteq> [] then grammar_accept_prefill env g prefill w2 else Some (0, w2));
          if rc \<noteq> 0 then do { w4 \<leftarrow> safe_sampler_free g w3; Some (Some ''grammar_prefill_failed'', c2, w4) }
          else do {
            (rc, w4) \<leftarrow> chain_append (e_ok env) chain (Some g) w3;
            Some (if rc \<noteq> 0 then Some ''oom'' else None, c2, w4) } }) }"

definition append_grammar_sampler ::
  "smp_env \<Rightarrow> eterm \<Rightarrow> nat \<Rightarrow> byte list \<Rightarrow> smp_ctx \<Rightarrow> sworld \<Rightarrow> (string option \<times> smp_ctx \<times> sworld) option" where
  "append_grammar_sampler env cfg chain gbnf c w =
     (if \<not> e_vocab env then Some (Some ''exception'', c, w)
      else
        let lazy = (get_map_bool cfg ''grammar_lazy'' = Some True);
            (pats, w1) = (case enif_get_map_value cfg ''trigger_patterns'' of
                            None \<Rightarrow> (Some [], w) | Some v \<Rightarrow> read_string_list (e_ok env) v w) in
        case pats of None \<Rightarrow> Some (Some ''badarg'', c, w1)
        | Some patterns \<Rightarrow>
            let (toks, w2) = (case enif_get_map_value cfg ''trigger_tokens'' of
                                None \<Rightarrow> (TokOk [], w1)
                              | Some v \<Rightarrow> let (b, w2) = try_call (e_ok env) w1 in (read_token_list b v, w2)) in
            case toks of TokRc _ \<Rightarrow> Some (Some ''badarg'', c, w2)
            | TokOk trig \<Rightarrow>
                (case (case enif_get_map_value cfg ''grammar_prefill'' of None \<Rightarrow> Some [] | Some v \<Rightarrow> iolist_bytes v) of
                   None \<Rightarrow> Some (Some ''badarg'', c, w2)
                 | Some prefill \<Rightarrow>
                     let (b, w3) = (if composed lazy patterns trig then try_call (e_ok env) w2 else (True, w2));
                         key = grammar_key lazy gbnf patterns trig in
                     if \<not> b then Some (Some ''oom'', c, w3)
                     else
                       (case grammar_template env key (grammar_stage lazy gbnf patterns trig) c w3 of
                          (Inl e, _, c1, w4) \<Rightarrow> Some (Some e, c1, w4)
                        | (Inr tmpl, from_cache, c1, w4) \<Rightarrow>
                            grammar_attach env chain key lazy prefill tmpl from_cache c1 w4)))"

subsection \<open>The other stages\<close>

definition vocab_size :: "smp_env \<Rightarrow> int" where
  "vocab_size env = (if e_vocab env then e_n_vocab env else 0)"

definition parse_bias :: "smp_env \<Rightarrow> eterm \<Rightarrow> (llama_token \<times> bias_val) option" where
  "parse_bias env t =
     (case enif_get_tuple t of
        Some [a, b] \<Rightarrow>
          (case (enif_get_int a, enif_get_double b) of
             (Some tok, Some d) \<Rightarrow>
               if tok < 0 \<or> tok \<ge> vocab_size env then None else Some (tok, Bias (e_fl env d))
           | _ \<Rightarrow> None)
      | _ \<Rightarrow> None)"

definition append_logit_bias_sampler :: "smp_env \<Rightarrow> eterm \<Rightarrow> nat \<Rightarrow> chain_step" where
  "append_logit_bias_sampler env cfg chain w =
     (let v = enif_get_map_value cfg ''logit_bias'' in
      case (case v of None \<Rightarrow> Some 0 | Some l \<Rightarrow> enif_get_list_length l) of
        None \<Rightarrow> fail_chain ''badarg'' chain w
      | Some n_user \<Rightarrow>
          let ignore_eos = (get_map_bool cfg ''ignore_eos'' = Some True) in
          if n_user = 0 \<and> \<not> ignore_eos then Some (None, w)
          else if \<not> e_vocab env \<or> vocab_size env \<le> 0 then Some (None, w)
          else
            let eogs = (if ignore_eos \<and> e_eos env \<noteq> -1 then filter (e_is_eog env) [0..vocab_size env - 1] else []) in
            if n_user + length eogs = 0 then Some (None, w)
            else
              let (b, w1) = try_call (e_ok env) w in
              if \<not> b then fail_chain ''oom'' chain w1
              else
                (case those (map (parse_bias env) (case v of None \<Rightarrow> [] | Some l \<Rightarrow> list_cells l)) of
                   None \<Rightarrow> fail_chain ''badarg'' chain w1
                 | Some biases \<Rightarrow>
                     add_stage (e_ok env) chain
                       (SLogitBias (vocab_size env) (biases @ map (\<lambda>t. (t, NegInfinity)) eogs)) w1))"

text \<open>The breakers used when the caller gives none: newline, colon, quote, star.\<close>

definition default_breakers :: "byte list list" where
  "default_breakers = [[10], [58], [34], [42]]"

definition append_dry_sampler :: "smp_env \<Rightarrow> eterm \<Rightarrow> rat \<Rightarrow> rat \<Rightarrow> int \<Rightarrow> int \<Rightarrow> nat \<Rightarrow> chain_step" where
  "append_dry_sampler env cfg multiplier base allowed last_n chain w =
     (if \<not> e_vocab env then Some (None, w)
      else
        let (user, w1) = (case enif_get_map_value cfg ''dry_sequence_breakers'' of
                            None \<Rightarrow> (Some [], w) | Some v \<Rightarrow> read_string_list (e_ok env) v w) in
        case user of None \<Rightarrow> fail_chain ''badarg'' chain w1
        | Some breakers \<Rightarrow>
            add_stage (e_ok env) chain
              (SDry (e_fl env multiplier) (e_fl env base) allowed last_n
                 (if breakers \<noteq> [] then breakers else default_breakers)) w1)"

end
