(* ===== verification/Sampler_Nif.thy ===== *)
theory Sampler_Nif
  imports Sampler_Chain
begin

text \<open>
  Building a chain from a configuration map, and the entry points that build, install, use and
  free chains (\<open>erllama_nif_sampler.c\<close>), with the parts of \<open>nif_decode_one\<close>, \<open>nif_free_context\<close>
  and the destructors that do so.
\<close>

subsection \<open>The builder\<close>

definition dflt :: "'a option \<Rightarrow> 'a \<Rightarrow> 'a" where
  "dflt x d = (case x of None \<Rightarrow> d | Some v \<Rightarrow> v)"

text \<open>The double nearest to one tenth.\<close>

definition double_tenth :: rat where
  "double_tenth = 3602879701896397 / 36028797018963968"

definition when_step :: "bool \<Rightarrow> chain_step \<Rightarrow> chain_step" where
  "when_step b f = (if b then f else (\<lambda>w. Some (None, w)))"

text \<open>Steps in sequence; the first that fails, which has freed the chain, ends it.\<close>

fun run_steps :: "chain_step list \<Rightarrow> chain_step" where
  "run_steps [] w = Some (None, w)"
| "run_steps (f # fs) w = do { (e, w1) \<leftarrow> f w; (case e of Some a \<Rightarrow> Some (Some a, w1) | None \<Rightarrow> run_steps fs w1) }"

definition mirostat_steps :: "smp_env \<Rightarrow> eterm \<Rightarrow> u32 \<Rightarrow> nat \<Rightarrow> chain_step list" where
  "mirostat_steps env cfg seed chain =
     (let fl = e_fl env; add = add_stage (e_ok env) chain;
          temp = get_map_double cfg ''temperature'';
          tau = dflt (get_map_double cfg ''mirostat_tau'') 5;
          eta = dflt (get_map_double cfg ''mirostat_eta'') double_tenth in
      [when_step (temp \<noteq> None \<and> dflt temp 0 > 0) (add (STemp (fl (dflt temp 0)))),
       add (if get_map_int31 cfg ''mirostat'' = Some 1
            then SMirostat (vocab_size env) seed (fl tau) (fl eta) 100
            else SMirostatV2 seed (fl tau) (fl eta))])"

definition filter_steps :: "smp_env \<Rightarrow> eterm \<Rightarrow> u32 \<Rightarrow> nat \<Rightarrow> chain_step list" where
  "filter_steps env cfg seed chain =
     (let fl = e_fl env; add = add_stage (e_ok env) chain; num = get_map_double cfg; int31 = get_map_int31 cfg;
          rep = dflt (num ''repetition_penalty'') 1;
          freq = dflt (num ''frequency_penalty'') 0;
          present = dflt (num ''presence_penalty'') 0;
          min_keep = nat (max 1 (dflt (int31 ''min_keep'') 1));
          dry_mult = dflt (num ''dry_multiplier'') 0;
          tns = dflt (num ''top_n_sigma'') (-1);
          top_k = dflt (int31 ''top_k'') 0;
          typical = dflt (num ''typical_p'') 1;
          top_p = dflt (num ''top_p'') 1;
          min_p = dflt (num ''min_p'') 0;
          xtc_p = dflt (num ''xtc_probability'') 0 in
      [when_step (rep \<noteq> 1 \<or> freq \<noteq> 0 \<or> present \<noteq> 0)
         (add (SPenalties (vocab_size env) (dflt (int31 ''penalty_last_n'') 64) (fl rep) (fl freq) (fl present))),
       when_step (dry_mult > 0)
         (append_dry_sampler env cfg dry_mult (dflt (num ''dry_base'') (7 / 4)) (dflt (int31 ''dry_allowed_length'') 2)
            (dflt (int31 ''dry_penalty_last_n'') 64) chain),
       when_step (tns > 0) (add (STopNSigma (fl tns))),
       when_step (top_k > 0) (add (STopK top_k)),
       when_step (typical < 1) (add (STypical (fl typical) min_keep)),
       when_step (top_p < 1) (add (STopP (fl top_p) min_keep)),
       when_step (min_p > 0) (add (SMinP (fl min_p) min_keep)),
       when_step (xtc_p > 0) (add (SXtc (fl xtc_p) (fl (dflt (num ''xtc_threshold'') double_tenth)) min_keep seed)),
       when_step (get_map_bool cfg ''infill'' = Some True \<and> e_vocab env) (add SInfill)])"

definition terminal_steps :: "smp_env \<Rightarrow> eterm \<Rightarrow> u32 \<Rightarrow> nat \<Rightarrow> chain_step list" where
  "terminal_steps env cfg seed chain =
     (let fl = e_fl env; add = add_stage (e_ok env) chain; temp = dflt (get_map_double cfg ''temperature'') 0;
          range = dflt (get_map_double cfg ''dynatemp_range'') 0;
          exponent = dflt (get_map_double cfg ''dynatemp_exponent'') 1 in
      if temp > 0
      then [add (if range > 0 then STempExt (fl temp) (fl range) (fl exponent) else STemp (fl temp)), add (SDist seed)]
      else [add SGreedy])"

definition chain_steps :: "smp_env \<Rightarrow> eterm \<Rightarrow> u32 \<Rightarrow> nat \<Rightarrow> chain_step list" where
  "chain_steps env cfg seed chain =
     append_logit_bias_sampler env cfg chain #
     (if dflt (get_map_int31 cfg ''mirostat'') 0 \<in> {1, 2}
      then mirostat_steps env cfg seed chain
      else filter_steps env cfg seed chain @ terminal_steps env cfg seed chain)"

definition grammar_of :: "eterm \<Rightarrow> byte list option option" where
  "grammar_of cfg =
     (case enif_get_map_value cfg ''grammar'' of None \<Rightarrow> Some None
      | Some v \<Rightarrow> (case iolist_bytes v of None \<Rightarrow> None | Some bs \<Rightarrow> if bs = [] then None else Some (Some bs)))"

definition seed_of :: "eterm \<Rightarrow> u32 option" where
  "seed_of cfg =
     (case enif_get_map_value cfg ''seed'' of None \<Rightarrow> Some 0 | Some v \<Rightarrow> map_option word_of_int (enif_get_ulong v))"

definition build_sampler_chain_from_map ::
  "smp_env \<Rightarrow> eterm \<Rightarrow> smp_ctx \<Rightarrow> sworld \<Rightarrow> ((string + nat) \<times> smp_ctx \<times> sworld) option" where
  "build_sampler_chain_from_map env cfg c w =
     (if \<not> enif_is_map cfg then Some (Inl ''badarg'', c, w)
      else
        (case (grammar_of cfg, seed_of cfg) of
           (Some gram, Some seed) \<Rightarrow>
             let (p, w1) = safe_init (e_ok env) (NChain []) w in
             (case p of None \<Rightarrow> Some (Inl ''oom'', c, w1)
              | Some chain \<Rightarrow> do {
                  (e, c1, w2) \<leftarrow> (case gram of None \<Rightarrow> Some (None, c, w1)
                                 | Some g \<Rightarrow> append_grammar_sampler env cfg chain g c w1);
                  (case e of
                     Some a \<Rightarrow> do { w3 \<leftarrow> safe_sampler_free chain w2; Some (Inl a, c1, w3) }
                   | None \<Rightarrow> do {
                       (e, w3) \<leftarrow> run_steps (chain_steps env cfg seed chain) w2;
                       Some (case e of Some a \<Rightarrow> Inl a | None \<Rightarrow> Inr chain, c1, w3) }) })
         | _ \<Rightarrow> Some (Inl ''badarg'', c, w)))"

subsection \<open>Entry points\<close>

text \<open>A sampler resource; contexts and samplers are numbered in the order they were made.\<close>

record smp_res =
  r_chain :: "nat option"
  r_ctx :: nat
  r_n_probs :: int

record smp_state =
  m_world :: sworld
  m_ctxs :: "smp_ctx list"
  m_smps :: "smp_res list"

definition chain_from_args ::
  "smp_env \<Rightarrow> eterm \<Rightarrow> eterm \<Rightarrow> smp_state \<Rightarrow> ((nif_ret + nat \<times> nat) \<times> smp_state) option" where
  "chain_from_args env ctx cfg st =
     (case enif_get_resource CTX_RT ctx of None \<Rightarrow> Some (Inl Badarg, st)
      | Some i \<Rightarrow>
          if i \<ge> length (m_ctxs st) \<or> \<not> enif_is_map cfg then Some (Inl Badarg, st)
          else if \<not> x_live (m_ctxs st ! i) then Some (Inl (err ''released''), st)
          else do {
            (r, c, w) \<leftarrow> build_sampler_chain_from_map env cfg (m_ctxs st ! i) (m_world st);
            let st1 = st\<lparr>m_world := w, m_ctxs := (m_ctxs st)[i := c]\<rparr>;
            Some (case r of Inl e \<Rightarrow> Inl (err e) | Inr chain \<Rightarrow> Inr (i, chain), st1) })"

text \<open>Replacing the chain of a context frees the old one.\<close>

definition set_smpl :: "nat \<Rightarrow> nat option \<Rightarrow> smp_state \<Rightarrow> smp_state option" where
  "set_smpl i new st = do {
     w \<leftarrow> (case x_smpl (m_ctxs st ! i) of None \<Rightarrow> Some (m_world st) | Some old \<Rightarrow> safe_sampler_free old (m_world st));
     Some (st\<lparr>m_world := w, m_ctxs := (m_ctxs st)[i := (m_ctxs st ! i)\<lparr>x_smpl := new\<rparr>]\<rparr>) }"

definition nif_configure_sampler :: "smp_env \<Rightarrow> eterm \<Rightarrow> eterm \<Rightarrow> smp_state \<Rightarrow> (nif_ret \<times> smp_state) option" where
  "nif_configure_sampler env ctx cfg st = do {
     (r, st1) \<leftarrow> chain_from_args env ctx cfg st;
     (case r of Inl ret \<Rightarrow> Some (ret, st1)
      | Inr (i, chain) \<Rightarrow> do { st2 \<leftarrow> set_smpl i (Some chain) st1; Some (Term atom_ok, st2) }) }"

definition nif_set_grammar :: "smp_env \<Rightarrow> eterm \<Rightarrow> eterm \<Rightarrow> smp_state \<Rightarrow> (nif_ret \<times> smp_state) option" where
  "nif_set_grammar env ctx g st = nif_configure_sampler env ctx (EMap [(EAtom ''grammar'', g)]) st"

definition nif_clear_sampler :: "eterm \<Rightarrow> smp_state \<Rightarrow> (nif_ret \<times> smp_state) option" where
  "nif_clear_sampler ctx st =
     (case enif_get_resource CTX_RT ctx of None \<Rightarrow> Some (Badarg, st)
      | Some i \<Rightarrow>
          if i \<ge> length (m_ctxs st) then Some (Badarg, st)
          else do { st1 \<leftarrow> set_smpl i None st; Some (Term atom_ok, st1) })"

text \<open>The number of log probabilities, clamped to 0..32.\<close>

definition n_probs_of :: "eterm \<Rightarrow> int" where
  "n_probs_of cfg = (case get_map_int31 cfg ''logprobs'' of None \<Rightarrow> 0 | Some np \<Rightarrow> min 32 (max 0 np))"

definition nif_sampler_new :: "smp_env \<Rightarrow> eterm \<Rightarrow> eterm \<Rightarrow> smp_state \<Rightarrow> (nif_ret \<times> smp_state) option" where
  "nif_sampler_new env ctx cfg st = do {
     (r, st1) \<leftarrow> chain_from_args env ctx cfg st;
     (case r of Inl ret \<Rightarrow> Some (ret, st1)
      | Inr (i, chain) \<Rightarrow>
          let (alloc, w1) = try_call (e_ok env) (m_world st1);
              (mutex, w2) = (if alloc then try_call (e_ok env) w1 else (False, w1)) in
          if \<not> (alloc \<and> mutex)
          then do { w3 \<leftarrow> safe_sampler_free chain w2; Some (err ''oom'', st1\<lparr>m_world := w3\<rparr>) }
          else
            Some (Term (ETuple [atom_ok, ERes SAMPLER_RT (length (m_smps st1))]),
                  st1\<lparr>m_world := w2,
                      m_smps := m_smps st1 @ [\<lparr>r_chain = Some chain, r_ctx = i, r_n_probs = n_probs_of cfg\<rparr>]\<rparr>)) }"

definition drop_chain :: "nat \<Rightarrow> smp_state \<Rightarrow> smp_state option" where
  "drop_chain j st =
     (case r_chain (m_smps st ! j) of None \<Rightarrow> Some st
      | Some chain \<Rightarrow> do {
          w \<leftarrow> safe_sampler_free chain (m_world st);
          Some (st\<lparr>m_world := w, m_smps := (m_smps st)[j := (m_smps st ! j)\<lparr>r_chain := None\<rparr>]\<rparr>) })"

definition nif_sampler_free :: "eterm \<Rightarrow> smp_state \<Rightarrow> (nif_ret \<times> smp_state) option" where
  "nif_sampler_free smp st =
     (case enif_get_resource SAMPLER_RT smp of None \<Rightarrow> Some (Badarg, st)
      | Some j \<Rightarrow>
          if j \<ge> length (m_smps st) then Some (Badarg, st)
          else if r_chain (m_smps st ! j) = None then Some (err ''released'', st)
          else do { st1 \<leftarrow> drop_chain j st; Some (Term atom_ok, st1) })"

definition nif_grammar_cache_stats :: "eterm \<Rightarrow> smp_state \<Rightarrow> nif_ret \<times> smp_state" where
  "nif_grammar_cache_stats ctx st =
     (case enif_get_resource CTX_RT ctx of None \<Rightarrow> (Badarg, st)
      | Some i \<Rightarrow>
          if i \<ge> length (m_ctxs st) then (Badarg, st)
          else (Term (EMap [(EAtom ''hits'', EInt (uint (x_hits (m_ctxs st ! i)))),
                            (EAtom ''misses'', EInt (uint (x_misses (m_ctxs st ! i))))]), st))"

text \<open>The greedy chain that \<open>nif_decode_one\<close> makes when none is configured.\<close>

definition ensure_smpl :: "smp_env \<Rightarrow> nat \<Rightarrow> smp_state \<Rightarrow> (bool \<times> smp_state) option" where
  "ensure_smpl env i st =
     (case x_smpl (m_ctxs st ! i) of Some _ \<Rightarrow> Some (True, st)
      | None \<Rightarrow> do {
          (p, w) \<leftarrow> build_default_greedy_chain (e_ok env) (m_world st);
          Some (p \<noteq> None, st\<lparr>m_world := w, m_ctxs := (m_ctxs st)[i := (m_ctxs st ! i)\<lparr>x_smpl := p\<rparr>]\<rparr>) })"

text \<open>\<open>nif_free_context\<close> and the destructor of a context; the cache goes with the destructor.\<close>

definition free_context_smpl :: "nat \<Rightarrow> smp_state \<Rightarrow> smp_state option" where
  "free_context_smpl i st =
     (if \<not> x_live (m_ctxs st ! i) then Some st
      else do {
        st1 \<leftarrow> set_smpl i None st;
        Some (st1\<lparr>m_ctxs := (m_ctxs st1)[i := (m_ctxs st1 ! i)\<lparr>x_live := False\<rparr>]\<rparr>) })"

definition ctx_dtor_smpl :: "nat \<Rightarrow> smp_state \<Rightarrow> smp_state option" where
  "ctx_dtor_smpl i st = do {
     (c, w) \<leftarrow> grammar_cache_clear (m_ctxs st ! i) (m_world st);
     st1 \<leftarrow> set_smpl i None (st\<lparr>m_world := w, m_ctxs := (m_ctxs st)[i := c]\<rparr>);
     Some (st1\<lparr>m_ctxs := (m_ctxs st1)[i := (m_ctxs st1 ! i)\<lparr>x_live := False\<rparr>]\<rparr>) }"

text \<open>
  A run: calls in any order, each with any arguments, on contexts of one model; sampling tells a
  chain the token it chose.
\<close>

datatype smp_op =
    NewContext
  | Configure eterm eterm
  | SetGrammar eterm eterm
  | ClearSampler eterm
  | SamplerNew eterm eterm
  | SamplerFree eterm
  | DecodeOne nat llama_token
  | Sample nat llama_token
  | FreeContext nat
  | CtxDtor nat
  | SamplerDtor nat

definition sample_chain :: "nat option \<Rightarrow> llama_token \<Rightarrow> smp_state \<Rightarrow> smp_state option" where
  "sample_chain p t st =
     (case p of None \<Rightarrow> Some st
      | Some chain \<Rightarrow> do {
          h \<leftarrow> chain_accept t chain (w_heap (m_world st));
          Some (st\<lparr>m_world := (m_world st)\<lparr>w_heap := h\<rparr>\<rparr>) })"

fun smp_run :: "smp_env \<Rightarrow> smp_op \<Rightarrow> smp_state \<Rightarrow> smp_state option" where
  "smp_run env NewContext st = Some (st\<lparr>m_ctxs := m_ctxs st @ [new_smp_ctx]\<rparr>)"
| "smp_run env (Configure ctx cfg) st = map_option snd (nif_configure_sampler env ctx cfg st)"
| "smp_run env (SetGrammar ctx g) st = map_option snd (nif_set_grammar env ctx g st)"
| "smp_run env (ClearSampler ctx) st = map_option snd (nif_clear_sampler ctx st)"
| "smp_run env (SamplerNew ctx cfg) st = map_option snd (nif_sampler_new env ctx cfg st)"
| "smp_run env (SamplerFree smp) st = map_option snd (nif_sampler_free smp st)"
| "smp_run env (DecodeOne i t) st =
     (if i \<ge> length (m_ctxs st) \<or> \<not> x_live (m_ctxs st ! i) then Some st
      else do { (ok, st1) \<leftarrow> ensure_smpl env i st; sample_chain (x_smpl (m_ctxs st1 ! i)) t st1 })"
| "smp_run env (Sample j t) st =
     (if j \<ge> length (m_smps st) then Some st else sample_chain (r_chain (m_smps st ! j)) t st)"
| "smp_run env (FreeContext i) st = (if i \<ge> length (m_ctxs st) then Some st else free_context_smpl i st)"
| "smp_run env (CtxDtor i) st = (if i \<ge> length (m_ctxs st) then Some st else ctx_dtor_smpl i st)"
| "smp_run env (SamplerDtor j) st = (if j \<ge> length (m_smps st) then Some st else drop_chain j st)"

definition smp_init :: smp_state where
  "smp_init = \<lparr>m_world = \<lparr>w_heap = [], w_tick = 0\<rparr>, m_ctxs = [], m_smps = []\<rparr>"

definition smp_exec :: "smp_env \<Rightarrow> smp_op list \<Rightarrow> smp_state option" where
  "smp_exec env ops = foldM (smp_run env) ops smp_init"

end
