(* ===== verification/Sampler_Steps.thy ===== *)
theory Sampler_Steps
  imports Sampler_Nif
begin

text \<open>
  What the steps of the builder do to the heap: every step succeeds or fails without undefined behaviour,
  keeps every object accounted for, touches no object of another owner (\<open>keeps\<close>), and on success
  appends the stages it is to append.
\<close>

subsection \<open>Frames\<close>

definition keeps :: "heap \<Rightarrow> heap \<Rightarrow> nat multiset \<Rightarrow> bool" where
  "keeps h h' R \<longleftrightarrow> (\<forall>r \<in># R. \<forall>q \<in># own h r. deref q h' = deref q h)"

definition stage_at :: "heap \<Rightarrow> nat \<Rightarrow> stage option" where
  "stage_at h q = (case deref q h of Some (NStage s) \<Rightarrow> Some s | _ \<Rightarrow> None)"

definition is_chain :: "heap \<Rightarrow> nat \<Rightarrow> bool" where
  "is_chain h p \<longleftrightarrow> (\<exists>qs. deref p h = Some (NChain qs))"

definition chain_stages :: "heap \<Rightarrow> nat \<Rightarrow> stage list" where
  "chain_stages h p = (case deref p h of Some (NChain qs) \<Rightarrow> List.map_filter (stage_at h) qs | _ \<Rightarrow> [])"

lemma keepsD: "keeps h h' R \<Longrightarrow> r \<in># R \<Longrightarrow> q \<in># own h r \<Longrightarrow> deref q h' = deref q h"
  by (simp add: keeps_def)

lemma keepsI: "(\<And>r q. r \<in># R \<Longrightarrow> q \<in># own h r \<Longrightarrow> deref q h' = deref q h) \<Longrightarrow> keeps h h' R"
  by (simp add: keeps_def)

lemma keeps_refl [simp]: "keeps h h R"
  by (simp add: keeps_def)

lemma keeps_own: "keeps h h' R \<Longrightarrow> r \<in># R \<Longrightarrow> own h' r = own h r"
  by (rule own_cong) (rule keepsD [OF _ _ own_self])

lemma keeps_owned: "keeps h h' R \<Longrightarrow> Q \<subseteq># R \<Longrightarrow> owned h' Q = owned h Q"
  by (rule owned_cong) (auto dest: keeps_own mset_subset_eqD)

lemma keeps_trans: "keeps h h1 R \<Longrightarrow> keeps h1 h2 R \<Longrightarrow> keeps h h2 R"
  using keeps_own [of h h1 R] by (intro keepsI) (metis keepsD)

lemma keeps_subset: "keeps h h' R \<Longrightarrow> Q \<subseteq># R \<Longrightarrow> keeps h h' Q"
  by (rule keepsI) (meson keepsD mset_subset_eqD)

lemma keeps_stage: "keeps h h' R \<Longrightarrow> r \<in># R \<Longrightarrow> stage_at h' r = stage_at h r"
  using keepsD [OF _ _ own_self] by (simp add: stage_at_def)

lemma map_filter_same: "(\<And>x. x \<in> set xs \<Longrightarrow> f x = g x) \<Longrightarrow> List.map_filter f xs = List.map_filter g xs"
  by (induction xs) (simp_all add: List.map_filter_simps split: option.split)

lemma keeps_chain:
  assumes "keeps h h' R" "r \<in># R"
  shows "is_chain h' r = is_chain h r" "chain_stages h' r = chain_stages h r"
proof -
  have d: "deref q h' = deref q h" if "q \<in># own h r" for q using keepsD [OF assms that] .
  show "is_chain h' r = is_chain h r" using d [OF own_self] by (simp add: is_chain_def)
  show "chain_stages h' r = chain_stages h r"
  proof (cases "\<exists>qs. deref r h = Some (NChain qs)")
    case True
    then obtain qs where qs: "deref r h = Some (NChain qs)" by blast
    then have "stage_at h' q = stage_at h q" if "q \<in> set qs" for q
      using d [of q] that by (simp add: own_def stage_at_def)
    then show ?thesis using qs d [OF own_self] by (simp add: chain_stages_def map_filter_same [of qs "stage_at h'" "stage_at h"])
  next
    case False
    then show ?thesis using d [OF own_self] by (auto simp: chain_stages_def split: option.splits native.splits)
  qed
qed

lemma keeps_live: "heap_inv h R \<Longrightarrow> (\<And>q. q \<in> live h \<Longrightarrow> deref q h' = deref q h) \<Longrightarrow> keeps h h' R"
  by (rule keepsI) (blast dest: heap_inv_live)

lemma try_call_simps [simp]: "fst (try_call ok w) = ok (w_tick w)" "w_heap (snd (try_call ok w)) = w_heap w"
  by (simp_all add: try_call_def)

lemma try_callE: obtains b w1 where "try_call ok w = (b, w1)" "w_heap w1 = w_heap w"
  by (auto simp: try_call_def)

lemma new_native_ok:
  assumes "heap_inv (w_heap w) R" "x = NChain [] \<or> x = NStage s" "new_native x w = (p, w')"
  shows "heap_inv (w_heap w') (add_mset p R)" "keeps (w_heap w) (w_heap w') R" "deref p (w_heap w') = Some x"
proof -
  have e: "p = length (w_heap w)" "w_heap w' = w_heap w @ [Some x]" using assms(3) by (auto simp: new_native_def)
  show "heap_inv (w_heap w') (add_mset p R)" using heap_inv_new [OF assms(1,2)] e by simp
  show "keeps (w_heap w) (w_heap w') R"
    by (rule keeps_live [OF assms(1)]) (auto simp: e deref_append live_def dest: deref_SomeD)
  show "deref p (w_heap w') = Some x" by (simp add: e deref_append)
qed

lemma safe_init_ok:
  assumes "heap_inv (w_heap w) R" "x = NChain [] \<or> x = NStage s" "safe_init ok x w = (r, w')"
  shows "keeps (w_heap w) (w_heap w') R"
    and "r = None \<Longrightarrow> w_heap w' = w_heap w"
    and "r = Some p \<Longrightarrow> heap_inv (w_heap w') (add_mset p R) \<and> deref p (w_heap w') = Some x"
proof -
  obtain b w1 where t: "try_call ok w = (b, w1)" "w_heap w1 = w_heap w" by (rule try_callE)
  obtain q w2 where n: "new_native x w1 = (q, w2)" by fastforce
  have h1: "heap_inv (w_heap w1) R" using assms(1) t(2) by simp
  note N = new_native_ok [OF h1 assms(2) n]
  have r: "r = (if b then Some q else None)" "w' = (if b then w2 else w1)" using assms(3) t(1) n by (auto simp: safe_init_def)
  show "keeps (w_heap w) (w_heap w') R" using r N(2) t(2) by simp
  show "r = None \<Longrightarrow> w_heap w' = w_heap w" using r t(2) by (simp split: if_splits)
  show "r = Some p \<Longrightarrow> heap_inv (w_heap w') (add_mset p R) \<and> deref p (w_heap w') = Some x"
    using r N by (simp split: if_splits)
qed

lemma safe_sampler_free_ok:
  assumes "heap_inv (w_heap w) (add_mset p R)"
  shows "\<exists>w'. safe_sampler_free p w = Some w' \<and> heap_inv (w_heap w') R \<and> keeps (w_heap w) (w_heap w') R"
proof -
  from heap_inv_free [OF assms] obtain h' where
    h': "free_list [p] (w_heap w) = Some h'" "heap_inv h' R" "\<forall>q. q \<notin># own (w_heap w) p \<longrightarrow> deref q h' = deref q (w_heap w)"
    by blast
  have "keeps (w_heap w) h' R" using h'(3) heap_inv_disjoint [OF assms] by (intro keepsI) blast
  then show ?thesis using h' by (simp add: safe_sampler_free_def)
qed

lemma safe_chain_add_ok:
  assumes inv: "heap_inv (w_heap w) (add_mset s (add_mset chain R))"
    and c: "is_chain (w_heap w) chain" and s: "stage_at (w_heap w) s = Some x"
  shows "\<exists>rc w'. safe_chain_add ok chain s w = Some (rc, w') \<and> keeps (w_heap w) (w_heap w') R \<and>
     (if rc = 0 then heap_inv (w_heap w') (add_mset chain R) \<and> is_chain (w_heap w') chain \<and>
        chain_stages (w_heap w') chain = chain_stages (w_heap w) chain @ [x]
      else w_heap w' = w_heap w)"
proof -
  let ?h = "w_heap w"
  obtain b w1 where t: "try_call ok w = (b, w1)" "w_heap w1 = ?h" by (rule try_callE)
  obtain qs where qs: "deref chain ?h = Some (NChain qs)" using c by (auto simp: is_chain_def)
  have st: "is_stage ?h s" using s by (auto simp: stage_at_def is_stage_def split: option.splits native.splits)
  let ?h' = "?h[chain := Some (NChain (qs @ [s]))]"
  have d: "deref q ?h' = (if q = chain then Some (NChain (qs @ [s])) else deref q ?h)" for q
    using deref_SomeD [OF qs] by (rule deref_update)
  have inv': "heap_inv ?h' (add_mset chain R)" by (rule heap_inv_chain_add [OF inv qs st])
  have nc: "chain \<notin># own ?h r" if "r \<in># R" for r
    using heap_inv_disjoint [of ?h chain "add_mset s R" chain r] inv own_self [of chain ?h] that by (simp add: add_mset_commute)
  have k: "keeps ?h ?h' R" using nc by (intro keepsI) (auto simp: d)
  have "\<forall>q \<in> set qs. q \<noteq> chain"
    using heap_invD(2) [OF inv, of chain] qs by (auto simp: root_ok_def is_stage_def)
  then have "stage_at ?h' q = stage_at ?h q" if "q \<in> set qs" for q using that by (auto simp: stage_at_def d)
  moreover have "stage_at ?h' s = Some x" using s qs by (auto simp: stage_at_def d split: if_splits)
  ultimately have "chain_stages ?h' chain = chain_stages ?h chain @ [x]"
    using qs map_filter_same [of qs "stage_at ?h'" "stage_at ?h"]
    by (simp add: chain_stages_def d List.map_filter_def)
  then show ?thesis using t qs inv' k by (cases b) (auto simp: safe_chain_add_def is_chain_def d)
qed

lemma chain_append_ok:
  assumes inv: "heap_inv (w_heap w) (add_mset s (add_mset chain R))"
    and c: "is_chain (w_heap w) chain" and s: "stage_at (w_heap w) s = Some x"
  shows "\<exists>rc w'. chain_append ok chain (Some s) w = Some (rc, w') \<and> keeps (w_heap w) (w_heap w') R \<and>
     heap_inv (w_heap w') (add_mset chain R) \<and> is_chain (w_heap w') chain \<and>
     chain_stages (w_heap w') chain = chain_stages (w_heap w) chain @ (if rc = 0 then [x] else [])"
proof -
  from safe_chain_add_ok [OF assms] obtain rc w1 where
    a: "safe_chain_add ok chain s w = Some (rc, w1)" "keeps (w_heap w) (w_heap w1) R"
      "if rc = 0 then heap_inv (w_heap w1) (add_mset chain R) \<and> is_chain (w_heap w1) chain \<and>
        chain_stages (w_heap w1) chain = chain_stages (w_heap w) chain @ [x] else w_heap w1 = w_heap w" by blast
  show ?thesis
  proof (cases "rc = 0")
    case True
    then show ?thesis using a by (simp add: chain_append_def)
  next
    case False
    then have w1: "w_heap w1 = w_heap w" using a(3) by simp
    from safe_sampler_free_ok [of w1 s "add_mset chain R"] inv w1 obtain w2 where
      f: "safe_sampler_free s w1 = Some w2" "heap_inv (w_heap w2) (add_mset chain R)"
        "keeps (w_heap w) (w_heap w2) (add_mset chain R)" by auto
    have "keeps (w_heap w) (w_heap w2) R" by (rule keeps_subset [OF f(3)]) simp
    then show ?thesis using False a(1) f keeps_chain [OF f(3), of chain] c by (simp add: chain_append_def)
  qed
qed

subsection \<open>Steps\<close>

definition step_post :: "nat \<Rightarrow> stage list \<Rightarrow> nat multiset \<Rightarrow> sworld \<Rightarrow> string option \<Rightarrow> sworld \<Rightarrow> bool" where
  "step_post chain adds R w e w' \<longleftrightarrow> keeps (w_heap w) (w_heap w') R \<and>
     (if e = None then heap_inv (w_heap w') (add_mset chain R) \<and> is_chain (w_heap w') chain \<and>
        chain_stages (w_heap w') chain = chain_stages (w_heap w) chain @ adds
      else heap_inv (w_heap w') R)"

definition step_ok :: "nat \<Rightarrow> stage list \<Rightarrow> chain_step \<Rightarrow> bool" where
  "step_ok chain adds f \<longleftrightarrow>
     (\<forall>w R. heap_inv (w_heap w) (add_mset chain R) \<longrightarrow> is_chain (w_heap w) chain \<longrightarrow>
       (\<exists>e w'. f w = Some (e, w') \<and> step_post chain adds R w e w'))"

lemma step_okI:
  assumes "\<And>w R. heap_inv (w_heap w) (add_mset chain R) \<Longrightarrow> is_chain (w_heap w) chain \<Longrightarrow>
       \<exists>e w'. f w = Some (e, w') \<and> step_post chain adds R w e w'"
  shows "step_ok chain adds f"
  using assms by (simp add: step_ok_def)

lemma step_okD:
  assumes "step_ok chain adds f" "heap_inv (w_heap w) (add_mset chain R)" "is_chain (w_heap w) chain"
  shows "\<exists>e w'. f w = Some (e, w') \<and> step_post chain adds R w e w'"
  using assms by (simp add: step_ok_def)

lemma step_post_heap: "w_heap w1 = w_heap w \<Longrightarrow> step_post chain adds R w1 e w' = step_post chain adds R w e w'"
  by (simp add: step_post_def)

text \<open>Allocations before a step leave the heap alone.\<close>

lemma step_ok_after:
  assumes "step_ok chain adds f" "heap_inv (w_heap w) (add_mset chain R)" "is_chain (w_heap w) chain"
    and "w_heap w1 = w_heap w"
  shows "\<exists>e w'. f w1 = Some (e, w') \<and> step_post chain adds R w e w'"
  using step_okD [OF assms(1), of w1 R] assms(2-4) step_post_heap [OF assms(4)] by simp

text \<open>A step that fails before it reaches the chain, after allocations that left the heap alone.\<close>

lemma fail_chain_ok:
  assumes "heap_inv (w_heap w) (add_mset chain R)" "w_heap w1 = w_heap w"
  shows "\<exists>w'. fail_chain a chain w1 = Some (Some a, w') \<and> step_post chain adds R w (Some a) w'"
  using safe_sampler_free_ok [of w1 chain R] assms by (auto simp: fail_chain_def step_post_def)

lemma step_ok_skip [intro]: "step_ok chain [] (\<lambda>w. Some (None, w))"
  by (rule step_okI) (auto simp: step_post_def)

lemma step_ok_when [intro]: "step_ok chain adds f \<Longrightarrow> step_ok chain (if b then adds else []) (when_step b f)"
  using step_ok_skip by (simp add: when_step_def)

lemma add_stage_ok [intro]: "step_ok chain [s] (add_stage ok chain s)"
proof (rule step_okI)
  fix w :: sworld and R assume inv: "heap_inv (w_heap w) (add_mset chain R)" and c: "is_chain (w_heap w) chain"
  obtain r w1 where i: "safe_init ok (NStage s) w = (r, w1)" by fastforce
  note I = safe_init_ok [OF inv _ i]
  show "\<exists>e w'. add_stage ok chain s w = Some (e, w') \<and> step_post chain [s] R w e w'"
  proof (cases r)
    case None
    with I(2) have "w_heap w1 = w_heap w" by simp
    from fail_chain_ok [OF inv this, of "''oom''" "[s]"] show ?thesis
      using None i by (auto simp: add_stage_def chain_append_or_fail_def chain_append_def)
  next
    case (Some p)
    with I have p: "heap_inv (w_heap w1) (add_mset p (add_mset chain R))" "stage_at (w_heap w1) p = Some s"
      "keeps (w_heap w) (w_heap w1) (add_mset chain R)" by (auto simp: stage_at_def)
    note kc = keeps_chain [OF p(3), of chain]
    have k1: "keeps (w_heap w) (w_heap w1) R" by (rule keeps_subset [OF p(3)]) simp
    from chain_append_ok [OF p(1) _ p(2), of ok] kc c obtain rc w2 where
      a: "chain_append ok chain (Some p) w1 = Some (rc, w2)" "keeps (w_heap w1) (w_heap w2) R"
        "heap_inv (w_heap w2) (add_mset chain R)" "is_chain (w_heap w2) chain"
        "chain_stages (w_heap w2) chain = chain_stages (w_heap w) chain @ (if rc = 0 then [s] else [])" by auto
    have k2: "keeps (w_heap w) (w_heap w2) R" by (rule keeps_trans [OF k1 a(2)])
    show ?thesis
    proof (cases "rc = 0")
      case True
      then show ?thesis using Some i a k2 by (simp add: add_stage_def chain_append_or_fail_def step_post_def)
    next
      case False
      from fail_chain_ok [OF a(3) refl, of "''oom''" "[s]"] obtain w3 where
        "fail_chain ''oom'' chain w2 = Some (Some ''oom'', w3)" "step_post chain [s] R w2 (Some ''oom'') w3"
        by blast
      then show ?thesis using False Some i a(1) keeps_trans [OF k2]
        by (auto simp: add_stage_def chain_append_or_fail_def step_post_def)
    qed
  qed
qed

lemma step_post_trans:
  assumes "step_post chain as R w None w1" "step_post chain bs R w1 e w2"
  shows "step_post chain (as @ bs) R w e w2"
  using assms keeps_trans [of "w_heap w" "w_heap w1" R "w_heap w2"] by (auto simp: step_post_def)

lemma run_steps_ok:
  "list_all2 (step_ok chain) addss fs \<Longrightarrow> step_ok chain (concat addss) (run_steps fs)"
proof (induction addss fs rule: list_all2_induct)
  case Nil
  have "run_steps [] = (\<lambda>w. Some (None, w))" by (rule ext) simp
  then show ?case using step_ok_skip by simp
next
  case (Cons adds addss f fs)
  show ?case
  proof (rule step_okI)
    fix w :: sworld and R assume inv: "heap_inv (w_heap w) (add_mset chain R)" and c: "is_chain (w_heap w) chain"
    from step_okD [OF Cons.hyps(1) inv c] obtain e w1 where
      1: "f w = Some (e, w1)" "step_post chain adds R w e w1" by blast
    show "\<exists>e w'. run_steps (f # fs) w = Some (e, w') \<and> step_post chain (concat (adds # addss)) R w e w'"
    proof (cases e)
      case None
      with 1(2) have "heap_inv (w_heap w1) (add_mset chain R)" "is_chain (w_heap w1) chain" by (simp_all add: step_post_def)
      from step_okD [OF Cons.IH this] obtain e2 w2 where
        "run_steps fs w1 = Some (e2, w2)" "step_post chain (concat addss) R w1 e2 w2" by blast
      then show ?thesis using None 1 step_post_trans by (intro exI [of _ e2] exI [of _ w2]) auto
    next
      case (Some a)
      then show ?thesis using 1 by (simp add: step_post_def)
    qed
  qed
qed

end
