(* ===== verification/Sampler_Build.thy ===== *)
theory Sampler_Build
  imports Sampler_Steps
begin

text \<open>
  What the builder builds. \<open>chain_spec\<close> lists the stages that a configuration asks for, in the
  order of the chain; the steps of \<open>Sampler_Nif\<close> append exactly these, or free everything.
\<close>

subsection \<open>The stages a configuration asks for\<close>

definition strings_of :: "eterm \<Rightarrow> byte list list option" where
  "strings_of v = (if proper_list v then those (map (map_option cstr \<circ> iolist_bytes) (list_cells v)) else None)"

definition logit_spec :: "smp_env \<Rightarrow> eterm \<Rightarrow> stage list" where
  "logit_spec env cfg =
     (let user = (case enif_get_map_value cfg ''logit_bias'' of None \<Rightarrow> [] | Some l \<Rightarrow> list_cells l);
          eogs = (if get_map_bool cfg ''ignore_eos'' = Some True \<and> e_eos env \<noteq> -1
                  then filter (e_is_eog env) [0..vocab_size env - 1] else []) in
      if vocab_size env \<le> 0 \<or> user = [] \<and> eogs = [] then []
      else [SLogitBias (vocab_size env) (the (those (map (parse_bias env) user)) @ map (\<lambda>t. (t, NegInfinity)) eogs)])"

definition dry_spec :: "smp_env \<Rightarrow> eterm \<Rightarrow> rat \<Rightarrow> rat \<Rightarrow> int \<Rightarrow> int \<Rightarrow> stage list" where
  "dry_spec env cfg multiplier base allowed last_n =
     (let user = (case enif_get_map_value cfg ''dry_sequence_breakers'' of None \<Rightarrow> [] | Some v \<Rightarrow> the (strings_of v)) in
      if e_vocab env
      then [SDry (e_fl env multiplier) (e_fl env base) allowed last_n (if user \<noteq> [] then user else default_breakers)]
      else [])"

definition mirostat_spec :: "smp_env \<Rightarrow> eterm \<Rightarrow> u32 \<Rightarrow> stage list list" where
  "mirostat_spec env cfg seed =
     (let fl = e_fl env; temp = dflt (get_map_double cfg ''temperature'') 0;
          tau = dflt (get_map_double cfg ''mirostat_tau'') 5;
          eta = dflt (get_map_double cfg ''mirostat_eta'') double_tenth in
      [if temp > 0 then [STemp (fl temp)] else [],
       [if get_map_int31 cfg ''mirostat'' = Some 1
        then SMirostat (vocab_size env) seed (fl tau) (fl eta) 100 else SMirostatV2 seed (fl tau) (fl eta)]])"

definition filter_spec :: "smp_env \<Rightarrow> eterm \<Rightarrow> u32 \<Rightarrow> stage list list" where
  "filter_spec env cfg seed =
     (let fl = e_fl env; num = get_map_double cfg; int31 = get_map_int31 cfg;
          rep = dflt (num ''repetition_penalty'') 1; freq = dflt (num ''frequency_penalty'') 0;
          present = dflt (num ''presence_penalty'') 0; min_keep = nat (max 1 (dflt (int31 ''min_keep'') 1));
          dry_mult = dflt (num ''dry_multiplier'') 0; tns = dflt (num ''top_n_sigma'') (-1);
          top_k = dflt (int31 ''top_k'') 0; typical = dflt (num ''typical_p'') 1; top_p = dflt (num ''top_p'') 1;
          min_p = dflt (num ''min_p'') 0; xtc_p = dflt (num ''xtc_probability'') 0 in
      [if rep \<noteq> 1 \<or> freq \<noteq> 0 \<or> present \<noteq> 0
       then [SPenalties (vocab_size env) (dflt (int31 ''penalty_last_n'') 64) (fl rep) (fl freq) (fl present)] else [],
       if dry_mult > 0
       then dry_spec env cfg dry_mult (dflt (num ''dry_base'') (7 / 4)) (dflt (int31 ''dry_allowed_length'') 2)
              (dflt (int31 ''dry_penalty_last_n'') 64) else [],
       if tns > 0 then [STopNSigma (fl tns)] else [],
       if top_k > 0 then [STopK top_k] else [],
       if typical < 1 then [STypical (fl typical) min_keep] else [],
       if top_p < 1 then [STopP (fl top_p) min_keep] else [],
       if min_p > 0 then [SMinP (fl min_p) min_keep] else [],
       if xtc_p > 0 then [SXtc (fl xtc_p) (fl (dflt (num ''xtc_threshold'') double_tenth)) min_keep seed] else [],
       if get_map_bool cfg ''infill'' = Some True \<and> e_vocab env then [SInfill] else []])"

definition terminal_spec :: "smp_env \<Rightarrow> eterm \<Rightarrow> u32 \<Rightarrow> stage list list" where
  "terminal_spec env cfg seed =
     (let fl = e_fl env; temp = dflt (get_map_double cfg ''temperature'') 0;
          range = dflt (get_map_double cfg ''dynatemp_range'') 0;
          exponent = dflt (get_map_double cfg ''dynatemp_exponent'') 1 in
      if temp > 0 then [[if range > 0 then STempExt (fl temp) (fl range) (fl exponent) else STemp (fl temp)], [SDist seed]]
      else [[SGreedy]])"

definition chain_spec :: "smp_env \<Rightarrow> eterm \<Rightarrow> u32 \<Rightarrow> stage list" where
  "chain_spec env cfg seed =
     logit_spec env cfg @
     concat (if dflt (get_map_int31 cfg ''mirostat'') 0 \<in> {1, 2}
             then mirostat_spec env cfg seed else filter_spec env cfg seed @ terminal_spec env cfg seed)"

subsection \<open>The steps append them\<close>

lemma read_strings_run:
  "read_strings ok hs acc w = (r, w') \<Longrightarrow> w_heap w' = w_heap w \<and>
     (\<forall>ss. r = Some ss \<longrightarrow> map_option ((@) acc) (those (map (map_option cstr \<circ> iolist_bytes) hs)) = Some ss)"
proof (induction hs arbitrary: acc w)
  case (Cons h hs)
  show ?case
  proof (cases "iolist_bytes h")
    case (Some bs)
    obtain b w1 where t: "try_call ok w = (b, w1)" "w_heap w1 = w_heap w" by (rule try_callE)
    then show ?thesis using Cons.prems Some Cons.IH [of "acc @ [cstr bs]" w1]
      by (cases b) (auto simp: option.map_comp comp_def)
  qed (use Cons.prems in auto)
qed auto

lemma read_string_list_run:
  assumes "read_string_list ok v w = (r, w')"
  shows "w_heap w' = w_heap w" "r = Some ss \<Longrightarrow> strings_of v = Some ss"
proof -
  obtain b w1 where t: "try_call ok w = (b, w1)" "w_heap w1 = w_heap w" by (rule try_callE)
  then have "w_heap w' = w_heap w \<and> (\<forall>ss. r = Some ss \<longrightarrow> strings_of v = Some ss)"
    using assms read_strings_run [of ok "list_cells v" "[]" w1 r w']
    by (auto simp: read_string_list_def strings_of_def enif_get_list_length_def option.map_ident split: if_splits)
  then show "w_heap w' = w_heap w" "r = Some ss \<Longrightarrow> strings_of v = Some ss" by simp_all
qed

lemma logit_step_ok: "step_ok chain (logit_spec env cfg) (append_logit_bias_sampler env cfg chain)"
proof (rule step_okI)
  fix w :: sworld and R assume inv: "heap_inv (w_heap w) (add_mset chain R)" and c: "is_chain (w_heap w) chain"
  let ?s = "logit_spec env cfg"
  let ?goal = "\<lambda>r. \<exists>e w'. r = Some (e, w') \<and> step_post chain ?s R w e w'"
  obtain b w1 where t: "try_call (e_ok env) w = (b, w1)" "w_heap w1 = w_heap w" by (rule try_callE)
  have fail: "?goal (fail_chain a chain w')" if "w_heap w' = w_heap w" for a w'
    using fail_chain_ok [OF inv that] by blast
  have skip: "?goal (Some (None, w))" if "?s = []" using that inv c by (simp add: step_post_def)
  have add: "?goal (add_stage (e_ok env) chain s w1)" if "?s = [s]" for s
    using step_ok_after [OF add_stage_ok inv c t(2)] that by simp
  let ?v = "enif_get_map_value cfg ''logit_bias''"
  let ?user = "case ?v of None \<Rightarrow> [] | Some l \<Rightarrow> list_cells l"
  let ?ign = "get_map_bool cfg ''ignore_eos'' = Some True"
  let ?eogs = "if ?ign \<and> e_eos env \<noteq> -1 then filter (e_is_eog env) [0..vocab_size env - 1] else []"
  show "?goal (append_logit_bias_sampler env cfg chain w)"
  proof (cases "case ?v of None \<Rightarrow> Some 0 | Some l \<Rightarrow> enif_get_list_length l")
    case None
    then show ?thesis using fail [OF refl] by (simp add: append_logit_bias_sampler_def)
  next
    case (Some n)
    then have n: "n = length ?user" by (auto simp: enif_get_list_length_def split: option.splits if_splits)
    have spec: "?s = (if vocab_size env \<le> 0 \<or> ?user = [] \<and> ?eogs = [] then []
        else [SLogitBias (vocab_size env) (the (those (map (parse_bias env) ?user)) @ map (\<lambda>t. (t, NegInfinity)) ?eogs)])"
      by (simp add: logit_spec_def Let_def)
    consider "n = 0 \<and> \<not> ?ign \<or> \<not> e_vocab env \<or> vocab_size env \<le> 0 \<or> n + length ?eogs = 0"
      | "\<not> (n = 0 \<and> \<not> ?ign)" "e_vocab env" "\<not> vocab_size env \<le> 0" "n + length ?eogs \<noteq> 0" by blast
    then show ?thesis
    proof cases
      case 1
      then have "?s = []" unfolding spec n by (auto simp: vocab_size_def)
      moreover have "append_logit_bias_sampler env cfg chain w = Some (None, w)"
        using 1 Some by (auto simp: append_logit_bias_sampler_def Let_def)
      ultimately show ?thesis using skip by simp
    next
      case 2
      then have c: "(n = 0 \<and> \<not> ?ign) = False" "(n = 0 \<and> ?eogs = []) = False" by auto
      have run: "append_logit_bias_sampler env cfg chain w =
          (if \<not> b then fail_chain ''oom'' chain w1
           else case those (map (parse_bias env) ?user) of None \<Rightarrow> fail_chain ''badarg'' chain w1
             | Some bs \<Rightarrow> add_stage (e_ok env) chain (SLogitBias (vocab_size env) (bs @ map (\<lambda>t. (t, NegInfinity)) ?eogs)) w1)"
        using Some t(1) 2(2,3) by (simp add: append_logit_bias_sampler_def Let_def c split del: if_split cong: if_cong)
      show ?thesis
      proof (cases "those (map (parse_bias env) ?user)")
        case None
        then show ?thesis using fail [OF t(2)] run by simp
      next
        case bs: (Some bs)
        have "\<not> (?user = [] \<and> ?eogs = [])" using 2(4) n by auto
        then have "?s = [SLogitBias (vocab_size env) (bs @ map (\<lambda>t. (t, NegInfinity)) ?eogs)]"
          unfolding spec using 2(3) bs by simp
        then show ?thesis using add fail [OF t(2)] run bs by simp
      qed
    qed
  qed
qed

lemma dry_step_ok:
  "step_ok chain (dry_spec env cfg m b a l) (append_dry_sampler env cfg m b a l chain)"
proof (rule step_okI)
  fix w :: sworld and R assume inv: "heap_inv (w_heap w) (add_mset chain R)" and c: "is_chain (w_heap w) chain"
  let ?v = "enif_get_map_value cfg ''dry_sequence_breakers''"
  obtain r w1 where r: "(case ?v of None \<Rightarrow> (Some [], w) | Some v \<Rightarrow> read_string_list (e_ok env) v w) = (r, w1)" by fastforce
  then have w1: "w_heap w1 = w_heap w"
    and ss: "r = Some ss \<Longrightarrow> (case ?v of None \<Rightarrow> [] | Some v \<Rightarrow> the (strings_of v)) = ss" for ss
    using read_string_list_run by (fastforce split: option.splits)+
  show "\<exists>e w'. append_dry_sampler env cfg m b a l chain w = Some (e, w') \<and> step_post chain (dry_spec env cfg m b a l) R w e w'"
  proof (cases "e_vocab env")
    case False
    then show ?thesis using inv c by (simp add: append_dry_sampler_def dry_spec_def step_post_def)
  next
    case True
    show ?thesis
    proof (cases r)
      case None
      then show ?thesis using fail_chain_ok [OF inv w1, of "''badarg''" "dry_spec env cfg m b a l"] True r by (auto simp: append_dry_sampler_def)
    next
      case (Some ss)
      then show ?thesis using step_ok_after [OF add_stage_ok inv c w1] True r ss [OF Some]
        by (simp add: append_dry_sampler_def dry_spec_def Let_def)
    qed
  qed
qed

lemma chain_steps_ok: "step_ok chain (chain_spec env cfg seed) (run_steps (chain_steps env cfg seed chain))"
proof -
  note [intro] = step_ok_when [where adds = "[s]" for s, simplified] dry_step_ok
  have w: "step_ok chain (if b then x else []) (when_step b' f)" if "b = b'" "step_ok chain x f" for b b' x f
    using step_ok_when [OF that(2), of b] that(1) by simp
  have "list_all2 (step_ok chain) (mirostat_spec env cfg seed) (mirostat_steps env cfg seed chain)"
    unfolding mirostat_spec_def mirostat_steps_def Let_def
    by (intro list_all2_Cons [THEN iffD2] conjI list_all2_Nil [THEN iffD2] w add_stage_ok) (auto simp: dflt_def split: option.splits)
  moreover have "list_all2 (step_ok chain) (filter_spec env cfg seed) (filter_steps env cfg seed chain)"
    unfolding filter_spec_def filter_steps_def Let_def
    by (simp only: list_all2_Cons list_all2_Nil) (intro conjI TrueI w refl add_stage_ok dry_step_ok)
  moreover have "list_all2 (step_ok chain) (terminal_spec env cfg seed) (terminal_steps env cfg seed chain)"
    by (auto simp: terminal_spec_def terminal_steps_def Let_def)
  ultimately have "list_all2 (step_ok chain)
      (logit_spec env cfg # (if dflt (get_map_int31 cfg ''mirostat'') 0 \<in> {1, 2}
             then mirostat_spec env cfg seed else filter_spec env cfg seed @ terminal_spec env cfg seed))
      (chain_steps env cfg seed chain)"
    using logit_step_ok by (simp add: chain_steps_def list_all2_appendI)
  from run_steps_ok [OF this] show ?thesis by (simp add: chain_spec_def)
qed

end
