(* ===== verification/Sampler_Cache.thy ===== *)
theory Sampler_Cache
  imports Sampler_Chain
begin

text \<open>
  The cache of compiled grammars as what it is meant to be: a list of at most four keys, the one
  used last first (\<open>lru_get\<close>, \<open>lru_put\<close>). The four slots of a context, searched in order and stamped with
  a tick, refine it (\<open>cache_view\<close>) as long as the 64-bit tick does not wrap.
\<close>

subsection \<open>The abstract cache\<close>

type_synonym lru = "(byte list \<times> nat) list"

definition lru_get :: "byte list \<Rightarrow> lru \<Rightarrow> nat option \<times> lru" where
  "lru_get k xs = (case map_of xs k of None \<Rightarrow> (None, xs) | Some t \<Rightarrow> (Some t, (k, t) # filter (\<lambda>x. fst x \<noteq> k) xs))"

definition lru_put :: "byte list \<Rightarrow> nat \<Rightarrow> lru \<Rightarrow> lru" where
  "lru_put k t xs = (k, t) # take (ERLLAMA_GRAMMAR_CACHE_N - 1) xs"

subsection \<open>The slots as such a cache\<close>

definition used :: "gc_entry list \<Rightarrow> gc_entry list" where
  "used es = filter (\<lambda>e. ge_tmpl e \<noteq> None) es"

definition recent :: "gc_entry list \<Rightarrow> gc_entry list" where
  "recent es = rev (sort_key ge_lru (used es))"

definition slot_pair :: "gc_entry \<Rightarrow> byte list \<times> nat" where
  "slot_pair e = (ge_bytes e, the (ge_tmpl e))"

definition cache_view :: "smp_ctx \<Rightarrow> lru" where
  "cache_view c = map slot_pair (recent (x_gcache c))"

definition cache_wf :: "smp_ctx \<Rightarrow> bool" where
  "cache_wf c \<longleftrightarrow> length (x_gcache c) = ERLLAMA_GRAMMAR_CACHE_N \<and>
     distinct (map ge_bytes (used (x_gcache c))) \<and> distinct (map ge_lru (used (x_gcache c))) \<and>
     (\<forall>e \<in> set (used (x_gcache c)). ge_hash e = grammar_hash (ge_bytes e) \<and> ge_lru e \<le> x_tick c)"

lemma used_update:
  assumes "i < length es" "ge_tmpl e \<noteq> None"
  shows "mset (used (es[i := e])) + (if ge_tmpl (es ! i) \<noteq> None then {#es ! i#} else {#}) = add_mset e (mset (used es))"
proof -
  obtain M where M: "mset es = add_mset (es ! i) M" using assms(1) by (metis mset_add nth_mem_mset)
  then have "mset (es[i := e]) = add_mset e M" using assms(1) by (simp add: mset_update)
  then show ?thesis using M assms(2) by (simp add: used_def mset_filter)
qed

text \<open>A stamp above all others puts the entry in front.\<close>

lemma recent_newest:
  assumes m: "mset us = add_mset e (mset vs)" and d: "distinct (map ge_lru vs)"
    and top: "\<And>v. v \<in> set vs \<Longrightarrow> ge_lru v < ge_lru e"
  shows "rev (sort_key ge_lru us) = e # rev (sort_key ge_lru vs)"
proof -
  have "sort_key ge_lru us = sort_key ge_lru vs @ [e]"
  proof (rule sort_key_inj_key_eq)
    show "mset us = mset (sort_key ge_lru vs @ [e])" using m by simp
    have "set us = insert e (set vs)" using m by (metis set_mset_add_mset_insert set_mset_mset)
    moreover have "ge_lru e \<notin> ge_lru ` set vs" using top by fastforce
    moreover have "inj_on ge_lru (set vs)" using d by (simp add: distinct_map)
    ultimately show "inj_on ge_lru (set us)" by auto
    show "sorted (map ge_lru (sort_key ge_lru vs @ [e]))" using top by (auto simp: sorted_append intro: less_imp_le)
  qed
  then show ?thesis by simp
qed

text \<open>Taking an entry out of the slots takes it out of the list.\<close>

lemma recent_remove:
  assumes m: "mset us = add_mset e (mset vs)" and d: "distinct (map ge_lru us)"
  shows "rev (sort_key ge_lru vs) = filter (\<lambda>x. x \<noteq> e) (rev (sort_key ge_lru us))"
proof -
  have du: "distinct us" using d by (simp add: distinct_map)
  have e: "e \<in> set us" "e \<notin> set vs"
  proof -
    show "e \<in> set us" using m by (metis union_single_eq_member set_mset_mset)
    have "count (mset us) e \<le> 1" using du by (simp add: distinct_count_atmost_1)
    then show "e \<notin> set vs" using m by (simp add: count_mset_0_iff)
  qed
  have vs: "mset vs = mset (filter (\<lambda>x. x \<noteq> e) us)" proof -
    have "mset (filter (\<lambda>x. x \<noteq> e) us) = mset (filter (\<lambda>x. x \<noteq> e) vs)" using m by (simp add: mset_filter)
    moreover have "filter (\<lambda>x. x \<noteq> e) vs = vs" using e(2) by (intro filter_True) auto
    ultimately show ?thesis by simp
  qed
  have "sort_key ge_lru vs = filter (\<lambda>x. x \<noteq> e) (sort_key ge_lru us)"
  proof (rule sort_key_inj_key_eq)
    show "mset vs = mset (filter (\<lambda>x. x \<noteq> e) (sort_key ge_lru us))" using vs by simp
    have "set vs \<subseteq> set us" using m by (metis mset_subset_eq_add_mset_cancel set_mset_mono set_mset_mset
        mset_subset_eq_insertD order_refl subset_insertI set_mset_add_mset_insert)
    then show "inj_on ge_lru (set vs)" using d by (auto simp: distinct_map intro: inj_on_subset)
    show "sorted (map ge_lru (filter (\<lambda>x. x \<noteq> e) (sort_key ge_lru us)))" by (rule sorted_filter) simp
  qed
  then show ?thesis by (simp add: rev_filter)
qed


lemma tick_above: "t < UINT64_MAX \<Longrightarrow> l \<le> t \<Longrightarrow> l < t + 1" for t :: u64
proof (rule le_less_trans)
  assume "t < UINT64_MAX"
  then have "unat t < unat UINT64_MAX" by (simp add: word_less_nat_alt)
  moreover have "unat UINT64_MAX = 18446744073709551615" by (simp add: unsigned_minus_1_eq_mask mask_eq_exp_minus_1)
  ultimately have "unat t + unat (1 :: u64) < 2 ^ LENGTH(64)" by simp
  then have "unat (t + 1) = unat t + 1" using unat_add_lem [of t 1] by simp
  then show "t < t + 1" by (simp add: word_less_nat_alt)
qed

text \<open>A fresh stamp on a slot, when \<open>vs\<close> are the entries that stay.\<close>

lemma stamp_slot:
  assumes wf: "cache_wf c" and t: "x_tick c < UINT64_MAX" and i: "i < length (x_gcache c)"
    and e: "ge_tmpl e \<noteq> None" "ge_hash e = grammar_hash (ge_bytes e)" "ge_lru e = x_tick c + 1"
    and vs: "mset (used ((x_gcache c)[i := e])) = add_mset e (mset vs)" "set vs \<subseteq> set (used (x_gcache c))" "distinct vs"
    and k: "\<And>v. v \<in> set vs \<Longrightarrow> ge_bytes v \<noteq> ge_bytes e"
    and c': "x_gcache c' = (x_gcache c)[i := e]" "x_tick c' = x_tick c + 1"
  shows "cache_wf c' \<and> cache_view c' = slot_pair e # map slot_pair (rev (sort_key ge_lru vs))"
proof -
  let ?us = "used (x_gcache c)" and ?us' = "used ((x_gcache c)[i := e])"
  have top: "ge_lru v < ge_lru e" if "v \<in> set vs" for v
    using tick_above [OF t, of "ge_lru v"] wf vs(2) that e(3) by (auto simp: cache_wf_def)
  have inj: "inj_on ge_lru (set vs)" "inj_on ge_bytes (set vs)"
    using wf vs(2) by (auto simp: cache_wf_def distinct_map intro: inj_on_subset)
  have dv: "distinct (map ge_lru vs)" "distinct (map ge_bytes vs)" using inj vs(3) by (simp_all add: distinct_map)
  have set: "set ?us' = insert e (set vs)" using vs(1) by (metis set_mset_add_mset_insert set_mset_mset)
  have dist: "distinct (map f ?us') = distinct (map f (e # vs))" for f :: "gc_entry \<Rightarrow> 'b"
    using vs(1) by (intro mset_eq_imp_distinct_iff) simp
  have "distinct (map ge_lru ?us')" unfolding dist using dv(1) top by fastforce
  moreover have "distinct (map ge_bytes ?us')" unfolding dist using dv(2) k by fastforce
  moreover have "ge_hash x = grammar_hash (ge_bytes x) \<and> ge_lru x \<le> x_tick c + 1" if "x \<in> set ?us'" for x
    using that e(2,3) top wf vs(2) by (auto simp: set cache_wf_def intro: less_imp_le)
  ultimately have "cache_wf c'" using wf c' by (simp add: cache_wf_def)
  moreover have "recent (x_gcache c') = e # rev (sort_key ge_lru vs)"
    unfolding recent_def c' by (rule recent_newest [OF vs(1) dv(1) top])
  ultimately show ?thesis by (simp add: cache_view_def)
qed

subsection \<open>Lookups\<close>

lemma used_matches: "cache_wf c \<Longrightarrow> e \<in> set (x_gcache c) \<Longrightarrow> entry_matches k e \<longleftrightarrow> e \<in> set (used (x_gcache c)) \<and> ge_bytes e = k"
  by (auto simp: entry_matches_def used_def cache_wf_def)

lemma cache_find_None: "cache_find k es i = None \<longleftrightarrow> (\<forall>e \<in> set es. \<not> entry_matches k e)"
  by (induction k es i rule: cache_find.induct) auto

lemma cache_find_Some: "cache_find k es i = Some j \<Longrightarrow> i \<le> j \<and> j - i < length es \<and> entry_matches k (es ! (j - i))"
proof (induction k es i rule: cache_find.induct)
  case (2 k e es i)
  then show ?case by (cases "entry_matches k e") (auto simp: nth_Cons' Suc_le_eq)
qed simp

lemma recent_set: "set (recent es) = set (used es)"
  by (simp add: recent_def)

lemma view_lookup_None: "map_of (cache_view c) k = None \<longleftrightarrow> (\<forall>e \<in> set (used (x_gcache c)). ge_bytes e \<noteq> k)"
  by (force simp: cache_view_def map_of_eq_None_iff slot_pair_def recent_set image_iff)

lemma view_lookup_Some:
  assumes "cache_wf c" "e \<in> set (used (x_gcache c))"
  shows "map_of (cache_view c) (ge_bytes e) = ge_tmpl e"
proof -
  have "mset (recent (x_gcache c)) = mset (used (x_gcache c))" by (simp add: recent_def)
  then have "distinct (map ge_bytes (recent (x_gcache c))) = distinct (map ge_bytes (used (x_gcache c)))"
    by (intro mset_eq_imp_distinct_iff) simp
  then have "distinct (map fst (cache_view c))"
    using assms(1) by (simp add: cache_wf_def cache_view_def slot_pair_def comp_def)
  moreover have "(ge_bytes e, the (ge_tmpl e)) \<in> set (cache_view c)"
    using assms(2) by (force simp: cache_view_def slot_pair_def recent_set)
  moreover have "ge_tmpl e \<noteq> None" using assms(2) by (simp add: used_def)
  ultimately show ?thesis by (metis map_of_is_SomeI option.collapse)
qed

lemma used_remove:
  assumes "cache_wf c" "e \<in> set (used (x_gcache c))" and vs: "vs = remove1 e (used (x_gcache c))"
  shows "mset (used (x_gcache c)) = add_mset e (mset vs)" "set vs \<subseteq> set (used (x_gcache c))" "distinct vs"
    "\<And>v. v \<in> set vs \<Longrightarrow> ge_bytes v \<noteq> ge_bytes e"
    "rev (sort_key ge_lru vs) = filter (\<lambda>x. x \<noteq> e) (recent (x_gcache c))"
proof -
  have d: "distinct (used (x_gcache c))" "distinct (map ge_lru (used (x_gcache c)))" "inj_on ge_bytes (set (used (x_gcache c)))"
    using assms(1) by (simp_all add: cache_wf_def distinct_map)
  show m: "mset (used (x_gcache c)) = add_mset e (mset vs)" using assms(2) by (simp add: vs)
  show "set vs \<subseteq> set (used (x_gcache c))" "distinct vs" using d(1) by (simp_all add: vs set_remove1_subset distinct_remove1)
  show "\<And>v. v \<in> set vs \<Longrightarrow> ge_bytes v \<noteq> ge_bytes e" using d(1,3) assms(2) by (auto simp: vs inj_on_def)
  show "rev (sort_key ge_lru vs) = filter (\<lambda>x. x \<noteq> e) (recent (x_gcache c))"
    unfolding recent_def by (rule recent_remove [OF m d(2)])
qed

lemma cache_get_refines:
  assumes wf: "cache_wf c" and t: "x_tick c < UINT64_MAX" and g: "grammar_cache_get k c = (r, c')"
  shows "lru_get k (cache_view c) = (r, cache_view c') \<and> cache_wf c' \<and> x_tick c' \<le> x_tick c + 1"
proof (cases "cache_find k (x_gcache c) 0")
  case None
  then have "\<forall>e \<in> set (used (x_gcache c)). ge_bytes e \<noteq> k"
    using used_matches [OF wf] by (auto simp: cache_find_None used_def)
  then have "map_of (cache_view c) k = None" by (simp add: view_lookup_None)
  moreover have "r = None" "c' = c\<lparr>x_misses := x_misses c + 1\<rparr>" using g None by (simp_all add: grammar_cache_get_def)
  ultimately show ?thesis using wf tick_above [OF t order_refl] by (simp add: lru_get_def cache_view_def cache_wf_def)
next
  case (Some i)
  let ?e = "x_gcache c ! i"
  let ?n = "?e\<lparr>ge_lru := x_tick c + 1\<rparr>"
  have i: "i < length (x_gcache c)" "entry_matches k ?e" using cache_find_Some [OF Some] by simp_all
  then have e: "?e \<in> set (used (x_gcache c))" "ge_bytes ?e = k" using used_matches [OF wf] nth_mem by blast+
  define vs where "vs = remove1 ?e (used (x_gcache c))"
  note V = used_remove [OF wf e(1) vs_def]
  have us: "ge_tmpl ?e \<noteq> None" using e(1) by (simp add: used_def)
  have m: "mset (used ((x_gcache c)[i := ?n])) = add_mset ?n (mset vs)"
    using used_update [OF i(1), of ?n] us V(1) by (simp add: add_mset_commute)
  have c': "r = ge_tmpl ?e" "x_gcache c' = (x_gcache c)[i := ?n]" "x_tick c' = x_tick c + 1"
    using g Some by (auto simp: grammar_cache_get_def Let_def)
  have "ge_hash ?e = grammar_hash (ge_bytes ?e)" using wf e(1) by (simp add: cache_wf_def)
  with stamp_slot [OF wf t i(1), of ?n vs c'] us m V(2-4) c'
  have wf': "cache_wf c'" "cache_view c' = slot_pair ?n # map slot_pair (filter (\<lambda>x. x \<noteq> ?e) (recent (x_gcache c)))"
    by (simp_all add: V(5))
  have "inj_on ge_bytes (set (used (x_gcache c)))" using wf by (simp add: cache_wf_def distinct_map)
  then have "filter (\<lambda>x. x \<noteq> ?e) (recent (x_gcache c)) = filter (\<lambda>x. ge_bytes x \<noteq> k) (recent (x_gcache c))"
    using e by (intro filter_cong) (auto simp: recent_set inj_on_def)
  then have "cache_view c' = (k, the (ge_tmpl ?e)) # filter (\<lambda>x. fst x \<noteq> k) (cache_view c)"
    using wf'(2) e(2) by (simp add: cache_view_def slot_pair_def filter_map comp_def)
  then show ?thesis using view_lookup_Some [OF wf e(1)] wf'(1) c' us e(2) by (auto simp: lru_get_def)
qed

subsection \<open>Insertions\<close>

lemma victim_empty:
  "e \<in> set es \<Longrightarrow> ge_tmpl e = None \<Longrightarrow>
     i \<le> victim_from es i v m \<and> victim_from es i v m - i < length es \<and> ge_tmpl (es ! (victim_from es i v m - i)) = None"
proof (induction es i v m rule: victim_from.induct)
  case (2 a es i v m)
  show ?case
  proof (cases "ge_tmpl a = None")
    case False
    then have "e \<in> set es" using 2 by auto
    then show ?thesis using False 2 by (cases "ge_lru a < m") (auto simp: nth_Cons' Suc_le_eq)
  qed simp
qed simp

lemma victim_oldest:
  "\<forall>e \<in> set es. ge_tmpl e \<noteq> None \<Longrightarrow>
     (victim_from es i v m = v \<and> (\<forall>e \<in> set es. m \<le> ge_lru e)) \<or>
     (i \<le> victim_from es i v m \<and> victim_from es i v m - i < length es \<and> ge_lru (es ! (victim_from es i v m - i)) < m \<and>
      (\<forall>e \<in> set es. ge_lru (es ! (victim_from es i v m - i)) \<le> ge_lru e))"
proof (induction es i v m rule: victim_from.induct)
  case (2 a es i v m)
  then have a: "ge_tmpl a \<noteq> None" "\<forall>e \<in> set es. ge_tmpl e \<noteq> None" by auto
  show ?case
  proof (cases "ge_lru a < m")
    case True
    let ?r = "victim_from es (Suc i) i (ge_lru a)"
    have r: "victim_from (a # es) i v m = ?r" using True a(1) by auto
    from 2(1) [OF a(1) True a(2)] consider "?r = i" "\<forall>e \<in> set es. ge_lru a \<le> ge_lru e"
      | "Suc i \<le> ?r" "?r - Suc i < length es" "ge_lru (es ! (?r - Suc i)) < ge_lru a" "\<forall>e \<in> set es. ge_lru (es ! (?r - Suc i)) \<le> ge_lru e" by blast
    then show ?thesis
    proof cases
      case 1
      then show ?thesis unfolding r using True by auto
    next
      case 2
      then have "(a # es) ! (?r - i) = es ! (?r - Suc i)" by (simp add: nth_Cons')
      then show ?thesis unfolding r using 2 True by auto
    qed
  next
    case False
    let ?r = "victim_from es (Suc i) v m"
    have r: "victim_from (a # es) i v m = ?r" using False a(1) by auto
    from 2(2) [OF a(1) False a(2)] consider "?r = v" "\<forall>e \<in> set es. m \<le> ge_lru e"
      | "Suc i \<le> ?r" "?r - Suc i < length es" "ge_lru (es ! (?r - Suc i)) < m" "\<forall>e \<in> set es. ge_lru (es ! (?r - Suc i)) \<le> ge_lru e" by blast
    then show ?thesis
    proof cases
      case 1
      then show ?thesis unfolding r using False by auto
    next
      case 2
      then have "(a # es) ! (?r - i) = es ! (?r - Suc i)" by (simp add: nth_Cons')
      then show ?thesis unfolding r using 2 False by auto
    qed
  qed
qed simp

text \<open>Without its oldest entry, the list is all but its last.\<close>

lemma recent_oldest:
  assumes "e \<in> set us" "\<forall>x \<in> set us. ge_lru e \<le> ge_lru x" "distinct (map ge_lru us)" "n = length us - 1"
  shows "filter (\<lambda>x. x \<noteq> e) (rev (sort_key ge_lru us)) = take n (rev (sort_key ge_lru us))"
proof (cases "sort_key ge_lru us")
  case Nil
  then show ?thesis by simp
next
  case (Cons x xs)
  have "sorted (map ge_lru (x # xs))" unfolding Cons [symmetric] by simp
  then have "ge_lru x \<le> ge_lru y" if "y \<in> set (x # xs)" for y using that by auto
  moreover have set: "set (x # xs) = set us" unfolding Cons [symmetric] by simp
  ultimately have "ge_lru x = ge_lru e" using assms(1,2) by (metis antisym list.set_intros(1))
  then have "x = e" using assms(1,3) set by (auto simp: distinct_map inj_on_def)
  moreover have "distinct (x # xs)" unfolding Cons [symmetric] using assms(3) by (simp add: distinct_map)
  moreover have "length xs = n" using assms(4) Cons by (metis diff_Suc_1 length_Cons length_sort)
  ultimately show ?thesis using Cons by (auto simp: filter_id_conv)
qed


lemma victim_lt: "length es = ERLLAMA_GRAMMAR_CACHE_N \<Longrightarrow> victim_from es 0 0 m < length es"
proof -
  have "victim_from es i v m = v \<or> victim_from es i v m < i + length es" for i v
    by (induction es i v m rule: victim_from.induct) auto
  from this [of 0 0] show "length es = ERLLAMA_GRAMMAR_CACHE_N \<Longrightarrow> ?thesis" by (auto simp: ERLLAMA_GRAMMAR_CACHE_N_def)
qed

text \<open>What stays when a new entry takes the victim's slot.\<close>

lemma victim_stays:
  assumes wf: "cache_wf c" and t: "x_tick c < UINT64_MAX"
  defines "v \<equiv> victim_from (x_gcache c) 0 0 UINT64_MAX"
  shows "\<exists>vs. mset (used (x_gcache c)) = (if ge_tmpl (x_gcache c ! v) \<noteq> None then {#x_gcache c ! v#} else {#}) + mset vs \<and>
    set vs \<subseteq> set (used (x_gcache c)) \<and> distinct vs \<and>
    map slot_pair (rev (sort_key ge_lru vs)) = take (ERLLAMA_GRAMMAR_CACHE_N - 1) (cache_view c)"
proof (cases "\<exists>e \<in> set (x_gcache c). ge_tmpl e = None")
  case True
  then obtain e where e: "e \<in> set (x_gcache c)" "ge_tmpl e = None" by blast
  then have "ge_tmpl (x_gcache c ! v) = None" using victim_empty [OF e, of 0 0 UINT64_MAX] by (simp add: v_def)
  moreover have "distinct (used (x_gcache c))" using wf by (simp add: cache_wf_def distinct_map)
  moreover have "length (used (x_gcache c)) < length (x_gcache c)"
    unfolding used_def using e by (intro length_filter_less) auto
  then have "length (cache_view c) \<le> ERLLAMA_GRAMMAR_CACHE_N - 1" using wf by (simp add: cache_view_def recent_def cache_wf_def)
  ultimately show ?thesis by (intro exI [of _ "used (x_gcache c)"]) (simp add: cache_view_def recent_def)
next
  case False
  then have us: "used (x_gcache c) = x_gcache c" by (simp add: used_def)
  have len: "length (x_gcache c) = ERLLAMA_GRAMMAR_CACHE_N" using wf by (simp add: cache_wf_def)
  let ?e = "x_gcache c ! v"
  have v: "v < length (x_gcache c)" unfolding v_def by (rule victim_lt [OF len])
  have "\<not> UINT64_MAX \<le> ge_lru (x_gcache c ! 0)"
  proof -
    have "0 < length (x_gcache c)" using len by (simp add: ERLLAMA_GRAMMAR_CACHE_N_def)
    then have "x_gcache c ! 0 \<in> set (used (x_gcache c))" unfolding us by (rule nth_mem)
    then have "ge_lru (x_gcache c ! 0) \<le> x_tick c" using wf by (simp add: cache_wf_def)
    then show ?thesis using t by simp
  qed
  moreover have "x_gcache c ! 0 \<in> set (x_gcache c)" using len by (intro nth_mem) (simp add: ERLLAMA_GRAMMAR_CACHE_N_def)
  ultimately have old: "\<forall>x \<in> set (used (x_gcache c)). ge_lru ?e \<le> ge_lru x"
    using victim_oldest [of "x_gcache c" 0 0 UINT64_MAX] False by (auto simp: us v_def)
  have e: "?e \<in> set (used (x_gcache c))" using v by (simp add: us)
  define vs where "vs = remove1 ?e (used (x_gcache c))"
  note V = used_remove [OF wf e vs_def]
  have d: "distinct (map ge_lru (used (x_gcache c)))" using wf by (simp add: cache_wf_def)
  have "rev (sort_key ge_lru vs) = take (ERLLAMA_GRAMMAR_CACHE_N - 1) (recent (x_gcache c))"
    unfolding V(5) unfolding recent_def by (rule recent_oldest [OF e old d]) (simp add: us len)
  then have "map slot_pair (rev (sort_key ge_lru vs)) = take (ERLLAMA_GRAMMAR_CACHE_N - 1) (cache_view c)"
    by (simp add: cache_view_def take_map)
  moreover have "ge_tmpl ?e \<noteq> None" using e by (simp add: used_def)
  ultimately show ?thesis using V(1-3) by (intro exI [of _ vs]) simp
qed

lemma cache_put_refines:
  assumes wf: "cache_wf c" and t: "x_tick c < UINT64_MAX" and new: "map_of (cache_view c) k = None"
    and p: "grammar_cache_put ok k tmpl c w = Some (c', w')"
  shows "cache_view c' = (if ok (w_tick w) then lru_put k tmpl (cache_view c) else cache_view c) \<and>
    cache_wf c' \<and> x_tick c' \<le> x_tick c + 1"
proof (cases "ok (w_tick w)")
  case False
  then have "c' = c" using p by (auto simp: grammar_cache_put_def try_call_def bind_eq_Some_conv)
  then show ?thesis using False wf tick_above [OF t order_refl] by simp
next
  case True
  define v where "v = victim_from (x_gcache c) 0 0 UINT64_MAX"
  let ?n = "\<lparr>ge_bytes = k, ge_hash = grammar_hash k, ge_tmpl = Some tmpl, ge_lru = x_tick c + 1\<rparr>"
  have c': "x_gcache c' = (x_gcache c)[v := ?n]" "x_tick c' = x_tick c + 1"
    using p True by (auto simp: grammar_cache_put_def try_call_def bind_eq_Some_conv Let_def v_def)
  have v: "v < length (x_gcache c)" unfolding v_def by (rule victim_lt) (use wf in \<open>simp add: cache_wf_def\<close>)
  from victim_stays [OF wf t] obtain vs where
    vs: "mset (used (x_gcache c)) = (if ge_tmpl (x_gcache c ! v) \<noteq> None then {#x_gcache c ! v#} else {#}) + mset vs"
      "set vs \<subseteq> set (used (x_gcache c))" "distinct vs"
      "map slot_pair (rev (sort_key ge_lru vs)) = take (ERLLAMA_GRAMMAR_CACHE_N - 1) (cache_view c)"
    unfolding v_def by blast
  have "mset (used ((x_gcache c)[v := ?n])) = add_mset ?n (mset vs)"
    using used_update [OF v, of ?n] vs(1) by (auto simp: add_mset_commute split: if_splits)
  moreover have "ge_bytes x \<noteq> k" if "x \<in> set vs" for x using new vs(2) that by (auto simp: view_lookup_None)
  ultimately show ?thesis using stamp_slot [OF wf t v, of ?n vs c'] vs c' True by (simp add: lru_put_def slot_pair_def)
qed

text \<open>
  C15: The grammar cache is a least-recently-used list of at most four keys. A lookup answers what the
  list holds and moves it to the front; storing a compiled grammar for a key that is not there
  puts it in front and drops the one used longest ago when there are four; a failed allocation leaves
  the list alone. This holds until the 64-bit tick wraps.
\<close>

theorem grammar_cache_lru:
  assumes "cache_wf c" and "x_tick c < UINT64_MAX"
  shows "lru_get k (cache_view c) = (fst (grammar_cache_get k c), cache_view (snd (grammar_cache_get k c))) \<and>
     cache_wf (snd (grammar_cache_get k c)) \<and>
     (\<forall>c' w'. map_of (cache_view c) k = None \<longrightarrow> grammar_cache_put ok k tmpl c w = Some (c', w') \<longrightarrow>
        cache_view c' = (if ok (w_tick w) then lru_put k tmpl (cache_view c) else cache_view c) \<and> cache_wf c')"
proof (intro conjI allI impI)
  note get = cache_get_refines [OF assms surjective_pairing, of k]
  show "lru_get k (cache_view c) = (fst (grammar_cache_get k c), cache_view (snd (grammar_cache_get k c)))"
    "cache_wf (snd (grammar_cache_get k c))" using get by (blast, blast)
  fix c' w' assume "map_of (cache_view c) k = None" "grammar_cache_put ok k tmpl c w = Some (c', w')"
  from cache_put_refines [OF assms this]
  show "cache_view c' = (if ok (w_tick w) then lru_put k tmpl (cache_view c) else cache_view c)" "cache_wf c'" by (blast, blast)
qed

theorem grammar_cache_lru_witness:
  "cache_wf new_smp_ctx \<and> lru_get [114] (cache_view new_smp_ctx) = (None, []) \<and>
     cache_view (fst (the (grammar_cache_put (\<lambda>_. True) [114] 7 new_smp_ctx \<lparr>w_heap = [], w_tick = 0\<rparr>))) = [([114], 7)]"
proof -
  let ?w = "\<lparr>w_heap = [], w_tick = 0\<rparr>"
  have wf: "cache_wf new_smp_ctx"
    by (simp add: cache_wf_def new_smp_ctx_def ERLLAMA_GRAMMAR_CACHE_N_def used_def empty_entry_def)
  have tick: "x_tick new_smp_ctx < UINT64_MAX" by (simp add: new_smp_ctx_def) code_simp
  have view: "cache_view new_smp_ctx = []"
    by (simp add: cache_view_def recent_def new_smp_ctx_def ERLLAMA_GRAMMAR_CACHE_N_def used_def empty_entry_def)
  have put: "grammar_cache_put (\<lambda>_. True) [114] 7 new_smp_ctx ?w \<noteq> None"
    by (simp add: grammar_cache_put_def try_call_def new_smp_ctx_def ERLLAMA_GRAMMAR_CACHE_N_def empty_entry_def numeral_eq_Suc)
  from grammar_cache_lru [OF wf tick, of "[114]" "\<lambda>_. True" 7 ?w] put view wf show ?thesis
    by (auto simp: lru_get_def lru_put_def)
qed

end
