(* ===== verification/Sampler_Grammar.thy ===== *)
theory Sampler_Grammar
  imports Sampler_Build Sampler_Cache
begin

text \<open>
  The grammar stage: a template from the cache or compiled, its clone fed with the generation
  prompt. The templates of a cache are owned by its entries (\<open>entry_roots\<close>), each is the compiled grammar
  of a request with the key of the entry, and none has accepted a token (\<open>cache_inv\<close>).
\<close>

subsection \<open>Accepting tokens\<close>

lemma stage_at_SomeD: "stage_at h p = Some s \<Longrightarrow> deref p h = Some (NStage s)"
  by (auto simp: stage_at_def split: option.splits native.splits)

lemma deref_restage:
  assumes "stage_at h p = Some s"
  shows "deref q (h[p := Some (NStage s')]) = (if q = p then Some (NStage s') else deref q h)"
  by (rule deref_update [OF deref_SomeD [OF stage_at_SomeD [OF assms]]])

lemma heap_inv_shape:
  assumes "heap_inv h R"
    and "\<And>q. deref q h' = deref q h \<or> is_stage h q \<and> is_stage h' q"
  shows "heap_inv h' R"
proof -
  have st: "is_stage h' q = is_stage h q" for q using assms(2) [of q] is_stage_cong by blast
  have own: "own h' q = own h q" for q using assms(2) [of q] by (auto simp: own_def is_stage_def)
  have "deref q h' = None \<longleftrightarrow> deref q h = None" for q using assms(2) [of q] by (auto simp: is_stage_def)
  then have "live h' = live h" by (simp add: live_def)
  moreover have "root_ok h' p = root_ok h p" for p
  proof -
    have "deref p h' = Some (NChain qs) \<longleftrightarrow> deref p h = Some (NChain qs)" for qs
      using assms(2) [of p] by (auto simp: is_stage_def)
    then show ?thesis by (simp add: root_ok_def st)
  qed
  ultimately show ?thesis using assms(1) by (simp add: heap_inv_def own)
qed

lemma heap_inv_restage:
  assumes "heap_inv h R" "stage_at h p = Some s"
  shows "heap_inv (h[p := Some (NStage s')]) R"
  using stage_at_SomeD [OF assms(2)]
  by (intro heap_inv_shape [OF assms(1)]) (auto simp: deref_restage [OF assms(2)] is_stage_def)

lemma accept_stage_ok:
  assumes "heap_inv h (add_mset g R)" "stage_at h g = Some s"
  shows "\<exists>h'. accept_stage t g h = Some h' \<and> heap_inv h' (add_mset g R) \<and> keeps h h' R \<and> stage_at h' g = Some (stage_accept t s)"
proof -
  let ?h = "h[g := Some (NStage (stage_accept t s))]"
  have "accept_stage t g h = Some ?h" using stage_at_SomeD [OF assms(2)] by (simp add: accept_stage_def)
  moreover have "g \<notin># own h r" if "r \<in># R" for r using heap_inv_disjoint [OF assms(1) own_self that] .
  then have "keeps h ?h R" by (intro keepsI) (auto simp: deref_restage [OF assms(2)])
  ultimately show ?thesis using heap_inv_restage [OF assms] by (simp add: stage_at_def deref_restage [OF assms(2)])
qed

text \<open>A stage after it has accepted tokens.\<close>

definition accepted :: "llama_token list \<Rightarrow> stage \<Rightarrow> stage" where
  "accepted ts s = foldl (\<lambda>s t. stage_accept t s) s ts"

lemma accept_tokens_ok:
  assumes "heap_inv (w_heap w) (add_mset g R)" "stage_at (w_heap w) g = Some s"
  shows "\<exists>rc w' ts. accept_tokens env g prm first toks w = Some (rc, w') \<and> heap_inv (w_heap w') (add_mset g R) \<and>
     keeps (w_heap w) (w_heap w') R \<and> stage_at (w_heap w') g = Some (accepted ts s)"
  using assms
proof (induction env g prm first toks w arbitrary: s rule: accept_tokens.induct)
  case (1 env g prm first w)
  then show ?case by (intro exI [of _ 0] exI [of _ w] exI [of _ "[]"]) (simp add: accepted_def)
next
  case (2 env g prm first t toks w)
  obtain pn piece where p: "e_piece env t = (pn, piece)" by fastforce
  show ?case
  proof (cases "first \<and> pn > 0 \<and> erllama_is_space (piece ! 0) \<and> \<not> erllama_is_space (prm ! 0)")
    case True
    then show ?thesis using 2(1) [OF p [symmetric] refl True 2(3,4)] p by simp
  next
    case False
    obtain b w1 where c: "try_call (e_ok env) w = (b, w1)" "w_heap w1 = w_heap w" by (rule try_callE)
    show ?thesis
    proof (cases b)
      case True
      from accept_stage_ok [of "w_heap w1" g R s t] c(2) 2(3,4) obtain h' where
        h': "accept_stage t g (w_heap w1) = Some h'" "heap_inv h' (add_mset g R)" "keeps (w_heap w) h' R"
          "stage_at h' g = Some (stage_accept t s)" by auto
      let ?w = "w1\<lparr>w_heap := h'\<rparr>"
      have sa: "safe_accept (e_ok env) g t w = Some (0, ?w)" using c(1) True h'(1) by (simp add: safe_accept_def)
      from 2(2) [OF p [symmetric] refl False, of "(0, ?w)" 0 ?w "stage_accept t s"] h'(2,4) sa obtain rc w2 ts where
        "accept_tokens env g prm False toks ?w = Some (rc, w2)" "heap_inv (w_heap w2) (add_mset g R)"
        "keeps h' (w_heap w2) R" "stage_at (w_heap w2) g = Some (accepted ts (stage_accept t s))" by auto
      then show ?thesis using p False sa keeps_trans [OF h'(3)]
        by (intro exI [of _ rc] exI [of _ w2] exI [of _ "t # ts"]) (auto simp: accepted_def)
    next
      case False2: False
      then have "safe_accept (e_ok env) g t w = Some (-1, w1)" using c(1) by (simp add: safe_accept_def)
      then have "accept_tokens env g prm first (t # toks) w = Some (-1, w1)" using p False by (auto simp: Let_def)
      then show ?thesis using c(2) 2(3,4) by (intro exI [of _ "-1"] exI [of _ w1] exI [of _ "[]"]) (simp add: accepted_def)
    qed
  qed
qed

lemma grammar_accept_prefill_ok:
  assumes "heap_inv (w_heap w) (add_mset g R)" "stage_at (w_heap w) g = Some s"
  shows "\<exists>rc w' ts. grammar_accept_prefill env g prm w = Some (rc, w') \<and> heap_inv (w_heap w') (add_mset g R) \<and>
     keeps (w_heap w) (w_heap w') R \<and> stage_at (w_heap w') g = Some (accepted ts s)"
proof -
  obtain b w1 where c: "try_call (e_ok env) w = (b, w1)" "w_heap w1 = w_heap w" by (rule try_callE)
  obtain n toks where t: "erllama_safe_tokenize (e_tokenize env prm) (int (length prm) + 16) = (n, toks)" by fastforce
  have none: ?thesis if "grammar_accept_prefill env g prm w = Some (-1, w1)"
    using that c(2) assms by (intro exI [of _ "-1"] exI [of _ w1] exI [of _ "[]"]) (simp add: accepted_def)
  show ?thesis
  proof (cases "b \<and> n \<ge> 0")
    case True
    then show ?thesis using accept_tokens_ok [of w1 g R s env prm True "take (nat n) toks"] assms c t
      by (auto simp: grammar_accept_prefill_def Let_def)
  next
    case False
    then show ?thesis using c t by (intro none) (auto simp: grammar_accept_prefill_def Let_def)
  qed
qed

subsection \<open>The cache\<close>

definition opt_root :: "nat option \<Rightarrow> nat multiset" where
  "opt_root x = (case x of None \<Rightarrow> {#} | Some p \<Rightarrow> {#p#})"

lemma opt_root_simps [simp]: "opt_root None = {#}" "opt_root (Some p) = {#p#}"
  by (simp_all add: opt_root_def)

definition entry_roots :: "gc_entry list \<Rightarrow> nat multiset" where
  "entry_roots es = (\<Sum>e\<leftarrow>es. opt_root (ge_tmpl e))"

lemma entry_roots_simps [simp]: "entry_roots [] = {#}" "entry_roots (e # es) = opt_root (ge_tmpl e) + entry_roots es"
  by (simp_all add: entry_roots_def)

lemma entry_roots_update:
  "i < length es \<Longrightarrow> entry_roots (es[i := e]) + opt_root (ge_tmpl (es ! i)) = entry_roots es + opt_root (ge_tmpl e)"
proof (induction es arbitrary: i)
  case (Cons a es)
  then show ?case
  proof (cases i)
    case (Suc j)
    then have "entry_roots (es[j := e]) + opt_root (ge_tmpl (es ! j)) = entry_roots es + opt_root (ge_tmpl e)" using Cons by simp
    then show ?thesis using Suc by (simp add: add.assoc)
  qed (simp add: ac_simps)
qed simp

lemma entry_roots_member: "e \<in> set es \<Longrightarrow> ge_tmpl e = Some t \<Longrightarrow> t \<in># entry_roots es"
  by (induction es) auto

definition compiled_for :: "smp_env \<Rightarrow> byte list \<Rightarrow> stage \<Rightarrow> bool" where
  "compiled_for env key s \<longleftrightarrow>
     (\<exists>lazy gbnf patterns toks. key = grammar_key lazy gbnf patterns toks \<and> s = grammar_stage lazy gbnf patterns toks) \<and>
     stage_compiles env s"

definition entry_ok :: "smp_env \<Rightarrow> heap \<Rightarrow> gc_entry \<Rightarrow> bool" where
  "entry_ok env h e \<longleftrightarrow>
     (case ge_tmpl e of None \<Rightarrow> True
      | Some t \<Rightarrow> ge_hash e = grammar_hash (ge_bytes e) \<and> (\<exists>s. stage_at h t = Some s \<and> compiled_for env (ge_bytes e) s))"

definition cache_inv :: "smp_env \<Rightarrow> heap \<Rightarrow> smp_ctx \<Rightarrow> bool" where
  "cache_inv env h c \<longleftrightarrow> length (x_gcache c) = ERLLAMA_GRAMMAR_CACHE_N \<and> (\<forall>e \<in> set (x_gcache c). entry_ok env h e)"

lemma entry_ok_keeps: "keeps h h' R \<Longrightarrow> (\<And>t. ge_tmpl e = Some t \<Longrightarrow> t \<in># R) \<Longrightarrow> entry_ok env h e \<Longrightarrow> entry_ok env h' e"
  by (auto simp: entry_ok_def keeps_stage split: option.splits)

lemma cache_inv_keeps:
  assumes "keeps h h' R" "entry_roots (x_gcache c) \<subseteq># R" "cache_inv env h c"
  shows "cache_inv env h' c"
  unfolding cache_inv_def
proof (intro conjI ballI)
  show "length (x_gcache c) = ERLLAMA_GRAMMAR_CACHE_N" using assms(3) by (simp add: cache_inv_def)
  fix e assume e: "e \<in> set (x_gcache c)"
  show "entry_ok env h' e"
  proof (rule entry_ok_keeps [OF assms(1)])
    show "entry_ok env h e" using assms(3) e by (simp add: cache_inv_def)
    show "t \<in># R" if "ge_tmpl e = Some t" for t using mset_subset_eqD [OF assms(2) entry_roots_member [OF e that]] .
  qed
qed

lemma grammar_cache_get_ok:
  assumes "grammar_cache_get bs c = (r, c')" "cache_inv env h c"
  shows "x_live c' = x_live c" "x_smpl c' = x_smpl c" "entry_roots (x_gcache c') = entry_roots (x_gcache c)" "cache_inv env h c'"
    and "r = Some t \<Longrightarrow> t \<in># entry_roots (x_gcache c) \<and> (\<exists>s. stage_at h t = Some s \<and> compiled_for env bs s)"
proof -
  have "x_live c' = x_live c \<and> x_smpl c' = x_smpl c \<and> entry_roots (x_gcache c') = entry_roots (x_gcache c) \<and> cache_inv env h c' \<and>
    (\<forall>t. r = Some t \<longrightarrow> t \<in># entry_roots (x_gcache c) \<and> (\<exists>s. stage_at h t = Some s \<and> compiled_for env bs s))"
  proof (cases "cache_find bs (x_gcache c) 0")
    case None
    then show ?thesis using assms by (auto simp: grammar_cache_get_def cache_inv_def)
  next
    case (Some i)
    let ?e = "x_gcache c ! i" and ?l = "x_tick c + 1"
    have i: "i < length (x_gcache c)" "entry_matches bs ?e" using cache_find_Some [OF Some] by simp_all
    have e: "?e \<in> set (x_gcache c)" "entry_ok env h ?e" using i(1) assms(2) by (simp_all add: cache_inv_def)
    have r: "r = ge_tmpl ?e" "x_gcache c' = (x_gcache c)[i := ?e\<lparr>ge_lru := ?l\<rparr>]" "x_live c' = x_live c" "x_smpl c' = x_smpl c"
      using assms(1) Some by (auto simp: grammar_cache_get_def Let_def)
    have "entry_ok env h (?e\<lparr>ge_lru := ?l\<rparr>)" using e(2) by (simp add: entry_ok_def split: option.splits)
    then have "cache_inv env h c'" using assms(2) r(2) by (auto simp: cache_inv_def dest!: set_update_subset_insert [THEN subsetD])
    moreover have "entry_roots (x_gcache c') = entry_roots (x_gcache c)"
      using entry_roots_update [OF i(1), of "?e\<lparr>ge_lru := ?l\<rparr>"] r(2) by simp
    moreover have "t \<in># entry_roots (x_gcache c) \<and> (\<exists>s. stage_at h t = Some s \<and> compiled_for env bs s)" if "r = Some t" for t
      using that r(1) e i(2) entry_roots_member [OF e(1)] by (auto simp: entry_ok_def entry_matches_def)
    ultimately show ?thesis using r by blast
  qed
  then show "x_live c' = x_live c" "x_smpl c' = x_smpl c" "entry_roots (x_gcache c') = entry_roots (x_gcache c)" "cache_inv env h c'"
    "r = Some t \<Longrightarrow> t \<in># entry_roots (x_gcache c) \<and> (\<exists>s. stage_at h t = Some s \<and> compiled_for env bs s)" by blast+
qed

lemma grammar_cache_put_ok:
  assumes inv: "heap_inv (w_heap w) (add_mset tmpl (entry_roots (x_gcache c) + Q))" and ci: "cache_inv env (w_heap w) c"
    and s: "stage_at (w_heap w) tmpl = Some s" "compiled_for env bs s"
  shows "\<exists>c' w'. grammar_cache_put ok bs tmpl c w = Some (c', w') \<and> heap_inv (w_heap w') (entry_roots (x_gcache c') + Q) \<and>
    keeps (w_heap w) (w_heap w') Q \<and> cache_inv env (w_heap w') c' \<and> x_live c' = x_live c \<and> x_smpl c' = x_smpl c"
proof -
  obtain b w1 where t: "try_call ok w = (b, w1)" "w_heap w1 = w_heap w" by (rule try_callE)
  show ?thesis
  proof (cases b)
    case False
    from safe_sampler_free_ok [of w1 tmpl "entry_roots (x_gcache c) + Q"] inv t(2) obtain w2 where
      f: "safe_sampler_free tmpl w1 = Some w2" "heap_inv (w_heap w2) (entry_roots (x_gcache c) + Q)"
        "keeps (w_heap w) (w_heap w2) (entry_roots (x_gcache c) + Q)" by auto
    have "keeps (w_heap w) (w_heap w2) Q" "cache_inv env (w_heap w2) c"
      using keeps_subset [OF f(3)] cache_inv_keeps [OF f(3) _ ci] by simp_all
    then show ?thesis using f t False by (simp add: grammar_cache_put_def)
  next
    case True
    define v where "v = victim_from (x_gcache c) 0 0 UINT64_MAX"
    let ?e = "x_gcache c ! v" and ?n = "\<lparr>ge_bytes = bs, ge_hash = grammar_hash bs, ge_tmpl = Some tmpl, ge_lru = x_tick c + 1\<rparr>"
    let ?es = "(x_gcache c)[v := ?n]" and ?rest = "entry_roots ((x_gcache c)[v := empty_entry])"
    have v: "v < length (x_gcache c)" unfolding v_def by (rule victim_lt) (use ci in \<open>simp add: cache_inv_def\<close>)
    have old: "entry_roots (x_gcache c) = opt_root (ge_tmpl ?e) + ?rest"
      using entry_roots_update [OF v, of empty_entry] by (simp add: empty_entry_def ac_simps)
    have new: "entry_roots ?es = add_mset tmpl ?rest"
      using entry_roots_update [OF v, of ?n] by (simp add: old add_ac)
    have inv1: "heap_inv (w_heap w1) (opt_root (ge_tmpl ?e) + (add_mset tmpl (?rest + Q)))" using inv t(2) by (simp add: old add_ac)
    obtain w2 where w2: "(case ge_tmpl ?e of None \<Rightarrow> Some w1 | Some o' \<Rightarrow> safe_sampler_free o' w1) = Some w2"
      "heap_inv (w_heap w2) (add_mset tmpl (?rest + Q))" "keeps (w_heap w) (w_heap w2) (add_mset tmpl (?rest + Q))"
    proof (cases "ge_tmpl ?e")
      case None
      then show ?thesis using inv1 t(2) that [of w1] by simp
    next
      case (Some o')
      then have "opt_root (ge_tmpl ?e) + add_mset tmpl (?rest + Q) = add_mset o' (add_mset tmpl (?rest + Q))"
        by (simp add: add_mset_commute)
      from safe_sampler_free_ok [OF inv1 [unfolded this]] show ?thesis using Some t(2) that by auto
    qed
    have kQ: "keeps (w_heap w) (w_heap w2) Q" "keeps (w_heap w) (w_heap w2) ?rest"
      by (auto intro: keeps_subset [OF w2(3)])
    have others: "entry_ok env (w_heap w2) e'" if "j < length (x_gcache c)" "j \<noteq> v" "e' = x_gcache c ! j" for j e'
    proof (rule entry_ok_keeps [OF kQ(2)])
      show "entry_ok env (w_heap w) e'" using ci that by (simp add: cache_inv_def)
      have "e' = (x_gcache c)[v := empty_entry] ! j" using that by simp
      then have "e' \<in> set ((x_gcache c)[v := empty_entry])" using that(1) by (metis length_list_update nth_mem)
      then show "\<And>t. ge_tmpl e' = Some t \<Longrightarrow> t \<in># ?rest" by (rule entry_roots_member)
    qed
    have n: "entry_ok env (w_heap w2) ?n"
      using s keeps_stage [OF w2(3), of tmpl] by (auto simp: entry_ok_def)
    have "entry_ok env (w_heap w2) (?es ! j)" if "j < length (x_gcache c)" for j
      using others [OF that _ refl] n v by (cases "j = v") simp_all
    then have "cache_inv env (w_heap w2) (c\<lparr>x_tick := x_tick c + 1, x_gcache := ?es\<rparr>)"
      using ci by (auto simp: cache_inv_def in_set_conv_nth)
    then show ?thesis using w2 t True kQ(1) new by (simp add: grammar_cache_put_def v_def [symmetric] Let_def)
  qed
qed

end
