(* ===== verification/Sampler_Inv.thy ===== *)
theory Sampler_Inv
  imports Sampler_Grammar
begin

text \<open>
  The builder as a whole: every way it can end leaves the heap accounted for, the cache
  well-formed, and on success a chain of the stages that were asked for. From this, the
  invariant of all runs.
\<close>

subsection \<open>The grammar stage\<close>

lemma grammar_template_ok:
  assumes inv: "heap_inv (w_heap w) (entry_roots (x_gcache c) + Q)" and ci: "cache_inv env (w_heap w) c"
    and run: "grammar_template env (grammar_key lazy gbnf ps ts) (grammar_stage lazy gbnf ps ts) c w = (r, fc, c1, w1)"
  defines "own1 \<equiv> entry_roots (x_gcache c1) + Q"
  shows "keeps (w_heap w) (w_heap w1) own1" "cache_inv env (w_heap w1) c1" "x_live c1 = x_live c" "x_smpl c1 = x_smpl c"
    and "r = Inl e \<Longrightarrow> heap_inv (w_heap w1) own1"
    and "r = Inr t \<Longrightarrow> heap_inv (w_heap w1) (if fc then own1 else add_mset t own1) \<and>
      (\<exists>s. stage_at (w_heap w1) t = Some s \<and> compiled_for env (grammar_key lazy gbnf ps ts) s)"
proof -
  let ?key = "grammar_key lazy gbnf ps ts" and ?s = "grammar_stage lazy gbnf ps ts"
  obtain hit c' where g: "grammar_cache_get ?key c = (hit, c')" by fastforce
  note G = grammar_cache_get_ok [OF g ci]
  obtain b wa where a: "try_call (e_ok env) w = (b, wa)" "w_heap wa = w_heap w" by (rule try_callE)
  obtain b' wb where b: "try_call (e_ok env) wa = (b', wb)" "w_heap wb = w_heap wa" by (rule try_callE)
  obtain p wc where n: "new_native (NStage ?s) wb = (p, wc)" by fastforce
  have inv': "heap_inv (w_heap wb) (entry_roots (x_gcache c') + Q)" using inv a(2) b(2) G(3) by simp
  note N = new_native_ok [OF inv' disjI2 [OF refl] n]
  have res: "(r, fc, c1, w1) = (case hit of Some t \<Rightarrow> (Inr t, True, c', w)
      | None \<Rightarrow> if \<not> b then (Inl ''oom'', False, c', wa)
          else if b' \<and> stage_compiles env ?s then (Inr p, False, c', wc) else (Inl ''grammar_failed'', False, c', wb))"
    using run by (cases hit; cases b; cases "b' \<and> stage_compiles env ?s")
      (auto simp: grammar_template_def g a(1) b(1) n)
  then have c1: "c1 = c'" by (simp split: option.splits if_splits)
  consider (hit) t where "hit = Some t" "r = Inr t" "fc" "w1 = w"
    | (none) e where "r = Inl e" "w_heap w1 = w_heap w"
    | (made) "r = Inr p" "\<not> fc" "w1 = wc" "stage_compiles env ?s"
    using res a(2) b(2) by (cases hit; cases b; cases "b' \<and> stage_compiles env ?s") auto
  then have "keeps (w_heap w) (w_heap w1) own1 \<and> cache_inv env (w_heap w1) c1 \<and>
     (\<forall>e. r = Inl e \<longrightarrow> heap_inv (w_heap w1) own1) \<and>
     (\<forall>t. r = Inr t \<longrightarrow> heap_inv (w_heap w1) (if fc then own1 else add_mset t own1) \<and>
      (\<exists>s. stage_at (w_heap w1) t = Some s \<and> compiled_for env ?key s))"
  proof cases
    case hit
    then show ?thesis using inv G(3,4) G(5) [of t] c1 by (simp add: own1_def)
  next
    case none
    then show ?thesis using inv G(3,4) c1 by (simp add: own1_def)
  next
    case made
    have "stage_at (w_heap w1) p = Some ?s" using N(3) made by (simp add: stage_at_def)
    moreover have "compiled_for env ?key ?s" using made(4) by (auto simp: compiled_for_def)
    moreover have k: "keeps (w_heap w) (w_heap w1) own1" using N(2) made a(2) b(2) c1 by (simp add: own1_def)
    moreover have "cache_inv env (w_heap w1) c1" using cache_inv_keeps [OF k, of c1] G(4) c1 by (simp add: own1_def)
    ultimately show ?thesis using N(1) made c1 by (simp add: own1_def)
  qed
  then show "keeps (w_heap w) (w_heap w1) own1" "cache_inv env (w_heap w1) c1"
    "r = Inl e \<Longrightarrow> heap_inv (w_heap w1) own1"
    "r = Inr t \<Longrightarrow> heap_inv (w_heap w1) (if fc then own1 else add_mset t own1) \<and>
      (\<exists>s. stage_at (w_heap w1) t = Some s \<and> compiled_for env (grammar_key lazy gbnf ps ts) s)" by blast+
  show "x_live c1 = x_live c" "x_smpl c1 = x_smpl c" using G(1,2) c1 by simp_all
qed

text \<open>The clone, once the template has found its place: fed and appended.\<close>

lemma grammar_append_ok:
  assumes inv: "heap_inv (w_heap w) (add_mset g (add_mset chain Q))" and c: "is_chain (w_heap w) chain"
    and s: "stage_at (w_heap w) g = Some s"
  shows "\<exists>e w' ts. do {
          (rc, w3) \<leftarrow> (if pre then grammar_accept_prefill env g prm w else Some (0, w));
          if rc \<noteq> 0 then do { w4 \<leftarrow> safe_sampler_free g w3; Some (Some ''grammar_prefill_failed'', c2, w4) }
          else do {
            (rc, w4) \<leftarrow> chain_append (e_ok env) chain (Some g) w3;
            Some (if rc \<noteq> 0 then Some ''oom'' else None, c2, w4) } } = Some (e, c2, w') \<and>
     keeps (w_heap w) (w_heap w') Q \<and> heap_inv (w_heap w') (add_mset chain Q) \<and> is_chain (w_heap w') chain \<and>
     chain_stages (w_heap w') chain = chain_stages (w_heap w) chain @ (if e = None then [accepted ts s] else [])"
proof -
  obtain rc w3 ts where 3: "(if pre then grammar_accept_prefill env g prm w else Some (0, w)) = Some (rc, w3)"
    "heap_inv (w_heap w3) (add_mset g (add_mset chain Q))" "keeps (w_heap w) (w_heap w3) (add_mset chain Q)"
    "stage_at (w_heap w3) g = Some (accepted ts s)"
  proof (cases pre)
    case True
    then show ?thesis using grammar_accept_prefill_ok [OF inv s, of env prm] that by auto
  next
    case False
    then show ?thesis using that [of 0 w "[]"] inv s by (simp add: accepted_def)
  qed
  note ch = keeps_chain [OF 3(3), of chain]
  have k3: "keeps (w_heap w) (w_heap w3) Q" by (rule keeps_subset [OF 3(3)]) simp
  show ?thesis
  proof (cases "rc = 0")
    case True
    from chain_append_ok [OF 3(2) _ 3(4), of "e_ok env"] ch c obtain rc4 w4 where
      "chain_append (e_ok env) chain (Some g) w3 = Some (rc4, w4)" "keeps (w_heap w3) (w_heap w4) Q"
      "heap_inv (w_heap w4) (add_mset chain Q)" "is_chain (w_heap w4) chain"
      "chain_stages (w_heap w4) chain = chain_stages (w_heap w) chain @ (if rc4 = 0 then [accepted ts s] else [])" by auto
    then show ?thesis using True 3(1) keeps_trans [OF k3]
      by (intro exI [of _ "if rc4 \<noteq> 0 then Some ''oom'' else None"] exI [of _ w4] exI [of _ ts]) simp
  next
    case False
    from safe_sampler_free_ok [OF 3(2)] obtain w4 where
      4: "safe_sampler_free g w3 = Some w4" "heap_inv (w_heap w4) (add_mset chain Q)" "keeps (w_heap w3) (w_heap w4) (add_mset chain Q)"
      by blast
    have "keeps (w_heap w3) (w_heap w4) Q" by (rule keeps_subset [OF 4(3)]) simp
    then show ?thesis using False 3(1) 4 keeps_trans [OF k3] ch keeps_chain [OF 4(3), of chain] c
      by (intro exI [of _ "Some ''grammar_prefill_failed''"] exI [of _ w4] exI [of _ ts]) simp
  qed
qed

definition grammar_post :: "smp_env \<Rightarrow> nat \<Rightarrow> byte list \<Rightarrow> nat multiset \<Rightarrow> smp_ctx \<Rightarrow> sworld
    \<Rightarrow> string option \<Rightarrow> smp_ctx \<Rightarrow> sworld \<Rightarrow> bool" where
  "grammar_post env chain key Q c w e c' w' \<longleftrightarrow>
     heap_inv (w_heap w') (add_mset chain (entry_roots (x_gcache c') + Q)) \<and> keeps (w_heap w) (w_heap w') Q \<and>
     cache_inv env (w_heap w') c' \<and> x_live c' = x_live c \<and> x_smpl c' = x_smpl c \<and> is_chain (w_heap w') chain \<and>
     (\<exists>s ts. (e = None \<longrightarrow> compiled_for env key s) \<and>
        chain_stages (w_heap w') chain = chain_stages (w_heap w) chain @ (if e = None then [accepted ts s] else []))"

lemma grammar_attach_ok:
  assumes inv: "heap_inv (w_heap w) ((if fc then {#} else {#t#}) + (entry_roots (x_gcache c) + add_mset chain Q))"
    and ci: "cache_inv env (w_heap w) c" and ch: "is_chain (w_heap w) chain"
    and s: "stage_at (w_heap w) t = Some s" "compiled_for env key s"
  shows "\<exists>e c' w'. grammar_attach env chain key lazy prm t fc c w = Some (e, c', w') \<and> grammar_post env chain key Q c w e c' w'"
proof -
  let ?T = "if fc then {#} else {#t#}"
  let ?R = "?T + (entry_roots (x_gcache c) + add_mset chain Q)"
  obtain r w1 where i: "safe_init (e_ok env) (NStage s) w = (r, w1)" by fastforce
  note I = safe_init_ok [OF inv disjI2 [OF refl] i]
  have cl: "safe_clone (e_ok env) t w = Some (r, w1)" using stage_at_SomeD [OF s(1)] i by (simp add: safe_clone_def)
  have inv1: "heap_inv (w_heap w1) (opt_root r + ?R)"
  proof (cases r)
    case (Some p)
    have "heap_inv (w_heap w1) (add_mset p ?R)" using I(3) [OF Some] by (rule conjunct1)
    then show ?thesis using Some by (simp add: add_mset_commute)
  qed (use I(2) inv in simp)
  have ci1: "cache_inv env (w_heap w1) c" by (rule cache_inv_keeps [OF I(1) _ ci]) (simp add: subset_mset.add_increasing)
  have st1: "stage_at (w_heap w1) t = Some s" if "\<not> fc" using keeps_stage [OF I(1), of t] that s(1) by simp
  let ?Q = "opt_root r + add_mset chain Q"
  obtain c2 w2 where 2: "(if fc then Some (c, w1) else grammar_cache_put (e_ok env) key t c w1) = Some (c2, w2)"
    "heap_inv (w_heap w2) (entry_roots (x_gcache c2) + ?Q)" "keeps (w_heap w1) (w_heap w2) ?Q"
    "cache_inv env (w_heap w2) c2" "x_live c2 = x_live c" "x_smpl c2 = x_smpl c"
  proof (cases fc)
    case True
    then show ?thesis using that [of c w1] inv1 ci1 by (simp add: ac_simps)
  next
    case False
    then have "opt_root r + ?R = add_mset t (entry_roots (x_gcache c) + ?Q)" by (simp add: ac_simps)
    from grammar_cache_put_ok [OF inv1 [unfolded this] ci1 st1 [OF False] s(2), of "e_ok env"] show ?thesis
      using False that by auto
  qed
  have k1: "keeps (w_heap w) (w_heap w1) (add_mset chain Q)" by (rule keeps_subset [OF I(1)]) (simp add: subset_mset.add_increasing)
  have k2: "keeps (w_heap w1) (w_heap w2) (add_mset chain Q)" by (rule keeps_subset [OF 2(3)]) simp
  note k12 = keeps_trans [OF k1 k2]
  note ch2 = keeps_chain [OF k12, of chain]
  show ?thesis
  proof (cases r)
    case None
    have "keeps (w_heap w) (w_heap w2) Q" by (rule keeps_subset [OF k12]) simp
    then show ?thesis using None cl 2 ch ch2
      by (intro exI [of _ "Some ''grammar_failed''"] exI [of _ c2] exI [of _ w2]) (simp add: grammar_attach_def grammar_post_def)
  next
    case (Some g)
    have "g \<in># ?Q" using Some by simp
    then have g: "stage_at (w_heap w2) g = Some s" using keeps_stage [OF 2(3), of g] I(3) Some by (simp add: stage_at_def)
    let ?P = "entry_roots (x_gcache c2) + Q"
    have "heap_inv (w_heap w2) (add_mset g (add_mset chain ?P))" using 2(2) Some by (simp add: ac_simps)
    from grammar_append_ok [OF this _ g, of "\<not> lazy \<and> prm \<noteq> []" env prm c2] ch ch2 obtain e w' ts where
      a: "do {
          (rc, w3) \<leftarrow> (if \<not> lazy \<and> prm \<noteq> [] then grammar_accept_prefill env g prm w2 else Some (0, w2));
          if rc \<noteq> 0 then do { w4 \<leftarrow> safe_sampler_free g w3; Some (Some ''grammar_prefill_failed'', c2, w4) }
          else do {
            (rc, w4) \<leftarrow> chain_append (e_ok env) chain (Some g) w3;
            Some (if rc \<noteq> 0 then Some ''oom'' else None, c2, w4) } } = Some (e, c2, w')"
        "keeps (w_heap w2) (w_heap w') ?P" "heap_inv (w_heap w') (add_mset chain ?P)" "is_chain (w_heap w') chain"
        "chain_stages (w_heap w') chain = chain_stages (w_heap w) chain @ (if e = None then [accepted ts s] else [])" by auto
    have "cache_inv env (w_heap w') c2" by (rule cache_inv_keeps [OF a(2) _ 2(4)]) simp
    moreover have "keeps (w_heap w) (w_heap w') Q"
      by (rule keeps_trans [OF keeps_subset [OF k12] keeps_subset [OF a(2)]]) simp_all
    ultimately have "grammar_post env chain key Q c w e c2 w'" using a(3-5) 2(5,6) s(2) by (auto simp: grammar_post_def)
    moreover have "grammar_attach env chain key lazy prm t fc c w = Some (e, c2, w')"
      using cl 2(1) a(1) Some by (simp add: grammar_attach_def)
    ultimately show ?thesis by blast
  qed
qed

end
