(* ===== verification/Sampler_Runs.thy ===== *)
theory Sampler_Runs
  imports Sampler_Inv
begin

text \<open>
  The builder and the entry points as wholes, and the invariant of every run: \<open>smp_inv\<close>. It says that
  contexts, caches and sampler resources own every native object exactly once, that every chain
  in use ends in the one stage that selects a token, and that the caches are well-formed.
\<close>

subsection \<open>The builder\<close>

definition trigger_words :: "eterm \<Rightarrow> byte list list" where
  "trigger_words cfg = (case enif_get_map_value cfg ''trigger_patterns'' of None \<Rightarrow> [] | Some v \<Rightarrow> the (strings_of v))"

definition trigger_ids :: "eterm \<Rightarrow> llama_token list" where
  "trigger_ids cfg =
     (case enif_get_map_value cfg ''trigger_tokens'' of None \<Rightarrow> []
      | Some v \<Rightarrow> (case read_token_list True v of TokOk ts \<Rightarrow> ts | TokRc _ \<Rightarrow> []))"

definition request_key :: "eterm \<Rightarrow> byte list \<Rightarrow> byte list" where
  "request_key cfg gbnf =
     grammar_key (get_map_bool cfg ''grammar_lazy'' = Some True) gbnf (trigger_words cfg) (trigger_ids cfg)"

lemma read_token_list_alloc: "read_token_list b v = TokOk ts \<Longrightarrow> read_token_list True v = TokOk ts"
  by (auto simp: read_token_list_def split: option.splits if_splits)

lemma grammar_post_heap: "w_heap w1 = w_heap w \<Longrightarrow> grammar_post env chain key Q c w1 e c' w' = grammar_post env chain key Q c w e c' w'"
  by (simp add: grammar_post_def)

lemma grammar_post_fail:
  assumes "heap_inv (w_heap w) (add_mset chain (entry_roots (x_gcache c) + Q))" "cache_inv env (w_heap w) c"
    and "is_chain (w_heap w) chain" "w_heap w1 = w_heap w"
  shows "grammar_post env chain key Q c w (Some a) c w1"
  using assms by (simp add: grammar_post_def)

lemma grammar_make_ok:
  assumes inv: "heap_inv (w_heap w) (add_mset chain (entry_roots (x_gcache c) + Q))" and ci: "cache_inv env (w_heap w) c"
    and ch: "is_chain (w_heap w) chain" and key: "key = grammar_key lazy gbnf ps ts"
  shows "\<exists>e c' w'. (case grammar_template env key (grammar_stage lazy gbnf ps ts) c w of
            (Inl e, _, c1, w1) \<Rightarrow> Some (Some e, c1, w1)
          | (Inr t, fc, c1, w1) \<Rightarrow> grammar_attach env chain key lazy prm t fc c1 w1) = Some (e, c', w') \<and>
     grammar_post env chain key Q c w e c' w'"
proof -
  let ?Q = "add_mset chain Q"
  obtain r fc c1 w1 where run: "grammar_template env key (grammar_stage lazy gbnf ps ts) c w = (r, fc, c1, w1)"
    by (metis surj_pair)
  have inv0: "heap_inv (w_heap w) (entry_roots (x_gcache c) + ?Q)" using inv by simp
  note T = grammar_template_ok [OF inv0 ci run [unfolded key]]
  note ch1 = keeps_chain [OF T(1), of chain]
  have k: "keeps (w_heap w) (w_heap w1) Q"
    by (rule keeps_subset [OF T(1)]) (metis add_mset_add_single subset_mset.add_increasing mset_subset_eq_add_left
        subset_mset.order_trans subset_mset.zero_le subset_mset.order_refl union_commute)
  show ?thesis
  proof (cases r)
    case (Inl a)
    then show ?thesis using run T(2-4) T(5) [OF Inl] ch1 ch k
      by (intro exI [of _ "Some a"] exI [of _ c1] exI [of _ w1]) (simp add: grammar_post_def)
  next
    case (Inr t)
    from T(6) [OF Inr] obtain s where s: "stage_at (w_heap w1) t = Some s" "compiled_for env key s" using key by blast
    have i: "heap_inv (w_heap w1) ((if fc then {#} else {#t#}) + (entry_roots (x_gcache c1) + ?Q))"
      using T(6) [OF Inr, THEN conjunct1] by (cases fc) (simp_all add: add_mset_commute)
    from grammar_attach_ok [OF i T(2) _ s, of lazy prm] ch ch1 obtain e c' w' where
      "grammar_attach env chain key lazy prm t fc c1 w1 = Some (e, c', w')" "grammar_post env chain key Q c1 w1 e c' w'" by auto
    then show ?thesis using run Inr T(3,4) keeps_trans [OF k] ch1
      by (intro exI [of _ e] exI [of _ c'] exI [of _ w']) (simp add: grammar_post_def)
  qed
qed

lemma append_grammar_ok:
  assumes inv: "heap_inv (w_heap w) (add_mset chain (entry_roots (x_gcache c) + Q))" and ci: "cache_inv env (w_heap w) c"
    and ch: "is_chain (w_heap w) chain"
  shows "\<exists>e c' w'. append_grammar_sampler env cfg chain gbnf c w = Some (e, c', w') \<and>
    grammar_post env chain (request_key cfg gbnf) Q c w e c' w'"
proof -
  let ?goal = "\<lambda>x. \<exists>e c' w'. x = Some (e, c', w') \<and> grammar_post env chain (request_key cfg gbnf) Q c w e c' w'"
  have fail: "?goal (Some (Some a, c, w'))" if "w_heap w' = w_heap w" for a w'
    using grammar_post_fail [OF inv ci ch that] by blast
  let ?lazy = "get_map_bool cfg ''grammar_lazy'' = Some True"
  obtain pats w1 where p: "(case enif_get_map_value cfg ''trigger_patterns'' of
      None \<Rightarrow> (Some [], w) | Some v \<Rightarrow> read_string_list (e_ok env) v w) = (pats, w1)" by fastforce
  then have w1: "w_heap w1 = w_heap w" and ps: "pats = Some ps \<Longrightarrow> trigger_words cfg = ps" for ps
    using read_string_list_run by (fastforce simp: trigger_words_def split: option.splits)+
  obtain toks w2 where t: "(case enif_get_map_value cfg ''trigger_tokens'' of None \<Rightarrow> (TokOk [], w1)
      | Some v \<Rightarrow> let (b, w2) = try_call (e_ok env) w1 in (read_token_list b v, w2)) = (toks, w2)" by fastforce
  then have w2: "w_heap w2 = w_heap w" and ts: "toks = TokOk ts \<Longrightarrow> trigger_ids cfg = ts" for ts
    using w1 read_token_list_alloc by (auto simp: trigger_ids_def try_call_def split: option.splits)
  let ?pre = "case enif_get_map_value cfg ''grammar_prefill'' of None \<Rightarrow> Some [] | Some v \<Rightarrow> iolist_bytes v"
  show ?thesis
  proof (cases "e_vocab env")
    case False
    then show ?thesis using fail [OF refl] by (simp add: append_grammar_sampler_def)
  next
    case vocab: True
    show ?thesis
    proof (cases pats)
      case None
      then show ?thesis using fail [OF w1] vocab p by (simp add: append_grammar_sampler_def)
    next
      case pats: (Some ps)
      show ?thesis
      proof (cases toks)
        case (TokRc rc)
        then show ?thesis using fail [OF w2] vocab p t pats by (simp add: append_grammar_sampler_def)
      next
        case toks: (TokOk ts)
        obtain b w3 where a: "(if composed ?lazy ps ts then try_call (e_ok env) w2 else (True, w2)) = (b, w3)" by fastforce
        then have w3: "w_heap w3 = w_heap w" using w2 by (auto simp: try_call_def split: if_splits)
        have key: "grammar_key ?lazy gbnf ps ts = request_key cfg gbnf"
          using \<open>\<And>ps. pats = Some ps \<Longrightarrow> _\<close> [OF pats] \<open>\<And>ts. toks = TokOk ts \<Longrightarrow> _\<close> [OF toks] by (simp add: request_key_def)
        have run: "append_grammar_sampler env cfg chain gbnf c w =
            (case ?pre of None \<Rightarrow> Some (Some ''badarg'', c, w2)
             | Some prm \<Rightarrow> if \<not> b then Some (Some ''oom'', c, w3)
                else (case grammar_template env (grammar_key ?lazy gbnf ps ts) (grammar_stage ?lazy gbnf ps ts) c w3 of
                   (Inl e, _, c1, w1) \<Rightarrow> Some (Some e, c1, w1)
                 | (Inr t, fc, c1, w1) \<Rightarrow> grammar_attach env chain (grammar_key ?lazy gbnf ps ts) ?lazy prm t fc c1 w1))"
          unfolding append_grammar_sampler_def using vocab p t pats toks a
          by (simp add: Let_def split del: if_split cong: if_cong option.case_cong)
        have inv3: "heap_inv (w_heap w3) (add_mset chain (entry_roots (x_gcache c) + Q))" "cache_inv env (w_heap w3) c"
          "is_chain (w_heap w3) chain" using inv ci ch w3 by simp_all
        from grammar_make_ok [OF inv3 key [symmetric]] grammar_post_heap [OF w3] have
          "?goal (case grammar_template env (request_key cfg gbnf) (grammar_stage ?lazy gbnf ps ts) c w3 of
                   (Inl e, _, c1, w1) \<Rightarrow> Some (Some e, c1, w1)
                 | (Inr t, fc, c1, w1) \<Rightarrow> grammar_attach env chain (request_key cfg gbnf) ?lazy prm t fc c1 w1)" for prm
          by blast
        then show ?thesis unfolding run key using fail [OF w2] fail [OF w3] by (cases ?pre; cases b) simp_all
      qed
    qed
  qed
qed


definition selects :: "stage \<Rightarrow> bool" where
  "selects s = (case s of SGreedy \<Rightarrow> True | SDist _ \<Rightarrow> True | SMirostat _ _ _ _ _ \<Rightarrow> True | SMirostatV2 _ _ _ \<Rightarrow> True | _ \<Rightarrow> False)"

text \<open>A usable chain: the last stage selects a token, the ones before it do not.\<close>

definition typed_stages :: "stage list \<Rightarrow> bool" where
  "typed_stages ss \<longleftrightarrow> ss \<noteq> [] \<and> selects (last ss) \<and> \<not> list_ex selects (butlast ss)"

lemma typed_stages_append: "\<not> list_ex selects pre \<Longrightarrow> typed_stages ss \<Longrightarrow> typed_stages (pre @ ss)"
  by (simp add: typed_stages_def butlast_append)

lemma typed_stages_last: "selects s \<Longrightarrow> typed_stages [s]"
  by (simp add: typed_stages_def)

lemma selects_simps [simp]:
  "selects SGreedy" "selects (SDist u)" "selects (SMirostat i u x y j)" "selects (SMirostatV2 u x y)"
  "\<not> selects (STopK i)" "\<not> selects (STopP p n)" "\<not> selects (SMinP p n)" "\<not> selects (STypical p n)" "\<not> selects (STemp x)"
  "\<not> selects (STempExt x y z)" "\<not> selects (SXtc x y n u)" "\<not> selects (STopNSigma x)" "\<not> selects (SPenalties i j x y z)"
  "\<not> selects (SDry x y i j bs)" "\<not> selects SInfill" "\<not> selects (SLogitBias i ps)" "\<not> selects (SGrammar lz g bs ts acc)"
  by (simp_all add: selects_def)

lemma selects_accept [simp]: "selects (stage_accept t s) = selects s"
  by (cases s) simp_all

lemma selects_accepted [simp]: "selects (accepted ts s) = selects s"
  unfolding accepted_def by (induction ts arbitrary: s) simp_all

lemma compiled_for_grammar: "compiled_for env key s \<Longrightarrow> \<not> selects s"
  by (auto simp: compiled_for_def grammar_stage_def split: if_splits)

lemma chain_spec_typed: "typed_stages (chain_spec env cfg seed)"
proof -
  have "\<not> list_ex selects (logit_spec env cfg)" by (simp add: logit_spec_def Let_def)
  moreover have "typed_stages (concat (mirostat_spec env cfg seed))"
    by (auto simp: mirostat_spec_def Let_def typed_stages_def)
  moreover have "\<not> list_ex selects (concat (filter_spec env cfg seed))"
    by (simp add: filter_spec_def dry_spec_def Let_def)
  moreover have "typed_stages (concat (terminal_spec env cfg seed))"
    by (auto simp: terminal_spec_def Let_def typed_stages_def)
  ultimately show ?thesis by (simp add: chain_spec_def typed_stages_append)
qed

text \<open>What a call of the builder leaves: the stages of the chain, or nothing.\<close>

definition built :: "smp_env \<Rightarrow> eterm \<Rightarrow> stage list \<Rightarrow> bool" where
  "built env cfg ss \<longleftrightarrow> (\<exists>seed gram. seed_of cfg = Some seed \<and> grammar_of cfg = Some gram \<and>
     (case gram of None \<Rightarrow> ss = chain_spec env cfg seed
      | Some g \<Rightarrow> \<exists>s ts. compiled_for env (request_key cfg g) s \<and> ss = accepted ts s # chain_spec env cfg seed))"

lemma built_typed: "built env cfg ss \<Longrightarrow> typed_stages ss"
  using chain_spec_typed typed_stages_append [of "[accepted ts s]" for ts s]
  by (auto simp: built_def compiled_for_grammar split: option.splits)

definition build_post :: "smp_env \<Rightarrow> eterm \<Rightarrow> nat multiset \<Rightarrow> smp_ctx \<Rightarrow> sworld \<Rightarrow> string + nat \<Rightarrow> smp_ctx \<Rightarrow> sworld \<Rightarrow> bool" where
  "build_post env cfg Q c w r c' w' \<longleftrightarrow>
     keeps (w_heap w) (w_heap w') Q \<and> cache_inv env (w_heap w') c' \<and> x_live c' = x_live c \<and> x_smpl c' = x_smpl c \<and>
     heap_inv (w_heap w') ((case r of Inl _ \<Rightarrow> {#} | Inr p \<Rightarrow> {#p#}) + (entry_roots (x_gcache c') + Q)) \<and>
     (\<forall>p. r = Inr p \<longrightarrow> is_chain (w_heap w') p \<and> built env cfg (chain_stages (w_heap w') p))"

lemma build_ok:
  assumes inv: "heap_inv (w_heap w) (entry_roots (x_gcache c) + Q)" and ci: "cache_inv env (w_heap w) c"
  shows "\<exists>r c' w'. build_sampler_chain_from_map env cfg c w = Some (r, c', w') \<and> build_post env cfg Q c w r c' w'"
proof -
  let ?goal = "\<lambda>x. \<exists>r c' w'. x = Some (r, c', w') \<and> build_post env cfg Q c w r c' w'"
  have fail: "?goal (Some (Inl a, c, w'))" if "w_heap w' = w_heap w" for a w'
    using that inv ci by (simp add: build_post_def)
  show ?thesis
  proof (cases "enif_is_map cfg \<and> grammar_of cfg \<noteq> None \<and> seed_of cfg \<noteq> None")
    case False
    then show ?thesis using fail [OF refl] by (auto simp: build_sampler_chain_from_map_def split: option.splits)
  next
    case True
    then obtain gram seed where gs: "grammar_of cfg = Some gram" "seed_of cfg = Some seed" by blast
    obtain p w1 where i: "safe_init (e_ok env) (NChain []) w = (p, w1)" by fastforce
    note I = safe_init_ok [OF inv disjI1 [OF refl] i]
    show ?thesis
    proof (cases p)
      case None
      then show ?thesis using fail [of w1] I(2) True gs i by (simp add: build_sampler_chain_from_map_def)
    next
      case (Some chain)
      from I(3) [OF Some] have c1: "heap_inv (w_heap w1) (add_mset chain (entry_roots (x_gcache c) + Q))"
        "is_chain (w_heap w1) chain" "chain_stages (w_heap w1) chain = []"
        by (simp_all add: is_chain_def chain_stages_def List.map_filter_def)
      have ci1: "cache_inv env (w_heap w1) c" by (rule cache_inv_keeps [OF I(1) _ ci]) simp
      have k1: "keeps (w_heap w) (w_heap w1) Q" by (rule keeps_subset [OF I(1)]) simp
      obtain e c' w2 where g: "(case gram of None \<Rightarrow> Some (None, c, w1)
          | Some g \<Rightarrow> append_grammar_sampler env cfg chain g c w1) = Some (e, c', w2)"
        "heap_inv (w_heap w2) (add_mset chain (entry_roots (x_gcache c') + Q))" "keeps (w_heap w1) (w_heap w2) Q"
        "cache_inv env (w_heap w2) c'" "x_live c' = x_live c" "x_smpl c' = x_smpl c" "is_chain (w_heap w2) chain"
        "e = None \<Longrightarrow> (case gram of None \<Rightarrow> chain_stages (w_heap w2) chain = []
           | Some g \<Rightarrow> \<exists>s ts. compiled_for env (request_key cfg g) s \<and> chain_stages (w_heap w2) chain = [accepted ts s])"
      proof (cases gram)
        case None
        then show ?thesis using that [of None c w1] c1 ci1 by simp
      next
        case (Some g)
        from append_grammar_ok [OF c1(1) ci1 c1(2), of cfg g] obtain e c' w2 where
          "append_grammar_sampler env cfg chain g c w1 = Some (e, c', w2)"
          "grammar_post env chain (request_key cfg g) Q c w1 e c' w2" by blast
        moreover from this(2) c1(3) have "e = None \<Longrightarrow> \<exists>s ts. compiled_for env (request_key cfg g) s \<and>
            chain_stages (w_heap w2) chain = [accepted ts s]" by (auto simp: grammar_post_def)
        ultimately show ?thesis using Some that [of e c' w2] by (simp add: grammar_post_def)
      qed
      note k2 = keeps_trans [OF k1 g(3)]
      show ?thesis
      proof (cases e)
        case e: (Some a)
        from safe_sampler_free_ok [OF g(2)] obtain w3 where
          f: "safe_sampler_free chain w2 = Some w3" "heap_inv (w_heap w3) (entry_roots (x_gcache c') + Q)"
            "keeps (w_heap w2) (w_heap w3) (entry_roots (x_gcache c') + Q)" by blast
        have "cache_inv env (w_heap w3) c'" by (rule cache_inv_keeps [OF f(3) _ g(4)]) simp
        moreover have "keeps (w_heap w2) (w_heap w3) Q" by (rule keeps_subset [OF f(3)]) simp
        ultimately have "build_post env cfg Q c w (Inl a) c' w3" using f(2) g(5,6) keeps_trans [OF k2] by (simp add: build_post_def)
        moreover have "build_sampler_chain_from_map env cfg c w = Some (Inl a, c', w3)"
          using True gs i Some g(1) e f(1) by (simp add: build_sampler_chain_from_map_def)
        ultimately show ?thesis by blast
      next
        case e: None
        from step_okD [OF chain_steps_ok g(2,7), of env cfg seed] obtain e3 w3 where
          s: "run_steps (chain_steps env cfg seed chain) w2 = Some (e3, w3)"
            "step_post chain (chain_spec env cfg seed) (entry_roots (x_gcache c') + Q) w2 e3 w3" by blast
        then have k3: "keeps (w_heap w2) (w_heap w3) (entry_roots (x_gcache c') + Q)" by (simp add: step_post_def)
        have "cache_inv env (w_heap w3) c'" by (rule cache_inv_keeps [OF k3 _ g(4)]) simp
        moreover have "keeps (w_heap w2) (w_heap w3) Q" by (rule keeps_subset [OF k3]) simp
        ultimately have "build_post env cfg Q c w (case e3 of Some a \<Rightarrow> Inl a | None \<Rightarrow> Inr chain) c' w3"
          using s(2) g(5,6) g(8) [OF e] gs keeps_trans [OF k2]
          by (auto simp: build_post_def step_post_def built_def split: option.splits)
        moreover have "build_sampler_chain_from_map env cfg c w = Some (case e3 of Some a \<Rightarrow> Inl a | None \<Rightarrow> Inr chain, c', w3)"
          using True gs i Some g(1) e s(1) by (simp add: build_sampler_chain_from_map_def)
        ultimately show ?thesis by blast
      qed
    qed
  qed
qed

end
