(* ===== verification/Sampler_Safe.thy ===== *)
theory Sampler_Safe
  imports Sampler_Runs
begin

text \<open>
  The invariant of every run of the sampler entry points, and what it gives: no call can free or use an
  object that is gone, none leaks one, and every chain that is installed is usable.
\<close>

subsection \<open>Sampling and clearing\<close>

lemma accept_members:
  "distinct qs \<Longrightarrow> \<forall>q \<in> set qs. is_stage h q \<Longrightarrow>
     \<exists>h'. foldM (accept_stage t) qs h = Some h' \<and>
       (\<forall>q. deref q h' = (if q \<in> set qs then map_option (\<lambda>s. NStage (stage_accept t s)) (stage_at h q) else deref q h))"
proof (induction qs arbitrary: h)
  case (Cons p qs)
  then obtain s where s: "stage_at h p = Some s" by (auto simp: is_stage_def stage_at_def)
  let ?h = "h[p := Some (NStage (stage_accept t s))]"
  note d = deref_restage [OF s, of _ "stage_accept t s"]
  have "\<forall>q \<in> set qs. is_stage ?h q" using Cons.prems by (auto simp: is_stage_def d)
  with Cons.IH [of ?h] Cons.prems(1) obtain h' where
    h': "foldM (accept_stage t) qs ?h = Some h'"
    "\<forall>q. deref q h' = (if q \<in> set qs then map_option (\<lambda>s. NStage (stage_accept t s)) (stage_at ?h q) else deref q ?h)" by auto
  have "accept_stage t p h = Some ?h" using stage_at_SomeD [OF s] by (simp add: accept_stage_def)
  moreover have "stage_at ?h q = stage_at h q" if "q \<in> set qs" for q using that Cons.prems(1) by (auto simp: stage_at_def d)
  ultimately show ?case using h' s Cons.prems(1) by (intro exI [of _ h']) (auto simp: d)
qed simp

lemma chain_members:
  assumes "heap_inv h (add_mset p R)" "deref p h = Some (NChain qs)"
  shows "distinct (p # qs)" "\<forall>q \<in> set qs. is_stage h q" "own h p = mset (p # qs)"
proof -
  show o: "own h p = mset (p # qs)" using assms(2) by (simp add: own_def)
  have "count (mset (p # qs)) q \<le> 1" for q using heap_inv_distinct [OF assms(1), of q] o by simp
  then show "distinct (p # qs)"
    by (metis distinct_count_atmost_1 count_mset_0_iff le_antisym One_nat_def Suc_leI count_greater_zero_iff in_multiset_in_set)
  show "\<forall>q \<in> set qs. is_stage h q"
    using heap_invD(2) [OF assms(1), of p] assms(2) by (auto simp: root_ok_def is_stage_def)
qed

lemma chain_accept_ok:
  assumes inv: "heap_inv h (add_mset p R)" and c: "is_chain h p"
  shows "\<exists>h'. chain_accept t p h = Some h' \<and> heap_inv h' (add_mset p R) \<and> keeps h h' R \<and> is_chain h' p \<and>
     chain_stages h' p = map (stage_accept t) (chain_stages h p)"
proof -
  obtain qs where qs: "deref p h = Some (NChain qs)" using c by (auto simp: is_chain_def)
  note M = chain_members [OF inv qs]
  from accept_members [of qs h t] M obtain h' where
    h': "foldM (accept_stage t) qs h = Some h'"
    "\<And>q. deref q h' = (if q \<in> set qs then map_option (\<lambda>s. NStage (stage_accept t s)) (stage_at h q) else deref q h)" by auto
  have st: "stage_at h' q = map_option (stage_accept t) (stage_at h q)" if "q \<in> set qs" for q
    using h'(2) [of q] that by (cases "stage_at h q") (simp_all add: stage_at_def)
  have "heap_inv h' (add_mset p R)"
  proof (rule heap_inv_shape [OF inv])
    fix q show "deref q h' = deref q h \<or> is_stage h q \<and> is_stage h' q"
      using M(2) h'(2) [of q] by (cases "q \<in> set qs") (auto simp: is_stage_def stage_at_def)
  qed
  moreover have "keeps h h' R"
  proof (rule keepsI)
    fix r q assume "r \<in># R" "q \<in># own h r"
    then have "q \<notin># own h p" using heap_inv_disjoint [OF inv, of q r] by blast
    then show "deref q h' = deref q h" using M(3) h'(2) [of q] by simp
  qed
  moreover have d: "deref p h' = Some (NChain qs)" using h'(2) [of p] M(1) qs by simp
  moreover have "List.map_filter (stage_at h') qs = map (stage_accept t) (List.map_filter (stage_at h) qs)"
    using st M(2) by (induction qs) (auto simp: List.map_filter_simps is_stage_def stage_at_def split: option.splits)
  ultimately show ?thesis using h'(1) qs by (simp add: chain_accept_def is_chain_def chain_stages_def)
qed

lemma clear_entries_ok:
  "heap_inv (w_heap w) (entry_roots es + Q) \<Longrightarrow>
     \<exists>es' w'. clear_entries es w = Some (es', w') \<and> heap_inv (w_heap w') Q \<and> keeps (w_heap w) (w_heap w') Q \<and>
       length es' = length es \<and> (\<forall>e \<in> set es'. ge_tmpl e = None)"
proof (induction es arbitrary: w)
  case (Cons e es)
  obtain w1 where 1: "(case ge_tmpl e of None \<Rightarrow> Some w | Some t \<Rightarrow> safe_sampler_free t w) = Some w1"
    "heap_inv (w_heap w1) (entry_roots es + Q)" "keeps (w_heap w) (w_heap w1) (entry_roots es + Q)"
  proof (cases "ge_tmpl e")
    case (Some t)
    then show ?thesis using safe_sampler_free_ok [of w t "entry_roots es + Q"] Cons.prems that by auto
  qed (use Cons.prems that in auto)
  have k: "keeps (w_heap w) (w_heap w1) Q" by (rule keeps_subset [OF 1(3)]) simp
  from Cons.IH [OF 1(2)] show ?case using 1(1) keeps_trans [OF k] by auto
qed auto

lemma entry_roots_none: "\<forall>e \<in> set es. ge_tmpl e = None \<Longrightarrow> entry_roots es = {#}"
  by (induction es) auto

subsection \<open>The invariant\<close>

definition ctx_roots :: "smp_ctx \<Rightarrow> nat multiset" where
  "ctx_roots c = opt_root (x_smpl c) + entry_roots (x_gcache c)"

definition roots :: "smp_state \<Rightarrow> nat multiset" where
  "roots st = (\<Sum>c\<leftarrow>m_ctxs st. ctx_roots c) + (\<Sum>r\<leftarrow>m_smps st. opt_root (r_chain r))"

definition chain_ok :: "heap \<Rightarrow> nat option \<Rightarrow> bool" where
  "chain_ok h p = (case p of None \<Rightarrow> True | Some p \<Rightarrow> is_chain h p \<and> typed_stages (chain_stages h p))"

definition smp_ctx_ok :: "smp_env \<Rightarrow> heap \<Rightarrow> smp_ctx \<Rightarrow> bool" where
  "smp_ctx_ok env h c \<longleftrightarrow> cache_inv env h c \<and> chain_ok h (x_smpl c)"

text \<open>\<open>X\<close> are the objects a call holds in its own variables.\<close>

definition smp_inv :: "smp_env \<Rightarrow> nat multiset \<Rightarrow> smp_state \<Rightarrow> bool" where
  "smp_inv env X st \<longleftrightarrow> heap_inv (w_heap (m_world st)) (X + roots st) \<and>
     (\<forall>c \<in> set (m_ctxs st). smp_ctx_ok env (w_heap (m_world st)) c) \<and>
     (\<forall>r \<in> set (m_smps st). chain_ok (w_heap (m_world st)) (r_chain r))"

lemma sum_list_others:
  fixes f :: "'a \<Rightarrow> 'b multiset"
  assumes "i < length xs" "f z = {#}"
  shows "(\<Sum>x\<leftarrow>xs[i := y]. f x) = f y + (\<Sum>x\<leftarrow>xs[i := z]. f x)"
  using assms(1)
proof (induction xs arbitrary: i)
  case (Cons a xs)
  then show ?case by (cases i) (simp_all add: assms(2) ac_simps)
qed simp

definition blank_res :: smp_res where
  "blank_res = \<lparr>r_chain = None, r_ctx = 0, r_n_probs = 0\<rparr>"

definition ctx_others :: "nat \<Rightarrow> smp_state \<Rightarrow> nat multiset" where
  "ctx_others i st = roots (st\<lparr>m_ctxs := (m_ctxs st)[i := new_smp_ctx]\<rparr>)"

definition smp_others :: "nat \<Rightarrow> smp_state \<Rightarrow> nat multiset" where
  "smp_others j st = roots (st\<lparr>m_smps := (m_smps st)[j := blank_res]\<rparr>)"

lemma new_ctx_roots [simp]: "ctx_roots new_smp_ctx = {#}"
  by (simp add: ctx_roots_def new_smp_ctx_def empty_entry_def ERLLAMA_GRAMMAR_CACHE_N_def numeral_eq_Suc)

lemma roots_ctx: "i < length (m_ctxs st) \<Longrightarrow>
    roots (st\<lparr>m_world := w, m_ctxs := (m_ctxs st)[i := c]\<rparr>) = ctx_roots c + ctx_others i st"
  using sum_list_others [of i "m_ctxs st" ctx_roots new_smp_ctx c] by (simp add: roots_def ctx_others_def add.assoc)

lemma roots_ctx_self: "i < length (m_ctxs st) \<Longrightarrow> roots st = ctx_roots (m_ctxs st ! i) + ctx_others i st"
  using roots_ctx [where st = st and i = i and c = "m_ctxs st ! i" and w = "m_world st"] by simp

lemma roots_smp: "j < length (m_smps st) \<Longrightarrow>
    roots (st\<lparr>m_world := w, m_smps := (m_smps st)[j := r]\<rparr>) = opt_root (r_chain r) + smp_others j st"
  using sum_list_others [of j "m_smps st" "\<lambda>r. opt_root (r_chain r)" blank_res r]
  by (simp add: roots_def smp_others_def blank_res_def ac_simps)

lemma roots_smp_self: "j < length (m_smps st) \<Longrightarrow> roots st = opt_root (r_chain (m_smps st ! j)) + smp_others j st"
  using roots_smp [where st = st and j = j and r = "m_smps st ! j" and w = "m_world st"] by simp

lemma ctx_roots_member: "c \<in> set (m_ctxs st) \<Longrightarrow> ctx_roots c \<subseteq># roots st"
  by (auto simp: roots_def in_set_conv_decomp subset_mset.add_increasing subset_mset.add_increasing2)

lemma smp_roots_member: "r \<in> set (m_smps st) \<Longrightarrow> opt_root (r_chain r) \<subseteq># roots st"
  by (auto simp: roots_def in_set_conv_decomp subset_mset.add_increasing subset_mset.add_increasing2)

lemma chain_ok_keeps: "keeps h h' R \<Longrightarrow> opt_root p \<subseteq># R \<Longrightarrow> chain_ok h p \<Longrightarrow> chain_ok h' p"
  using keeps_chain [of h h' R] by (cases p) (auto simp: chain_ok_def dest: mset_subset_eqD)

lemma smp_ctx_ok_keeps: "keeps h h' R \<Longrightarrow> ctx_roots c \<subseteq># R \<Longrightarrow> smp_ctx_ok env h c \<Longrightarrow> smp_ctx_ok env h' c"
  unfolding smp_ctx_ok_def ctx_roots_def using chain_ok_keeps cache_inv_keeps
  by (meson mset_subset_eq_add_left mset_subset_eq_add_right subset_mset.order_trans)

lemma ctx_others_member: "k < length (m_ctxs st) \<Longrightarrow> k \<noteq> i \<Longrightarrow> ctx_roots (m_ctxs st ! k) \<subseteq># ctx_others i st"
  unfolding ctx_others_def by (rule ctx_roots_member) (metis length_list_update nth_list_update_neq nth_mem
      smp_state.select_convs(2) smp_state.surjective smp_state.update_convs(2))

lemma smp_others_member: "k < length (m_smps st) \<Longrightarrow> k \<noteq> j \<Longrightarrow> opt_root (r_chain (m_smps st ! k)) \<subseteq># smp_others j st"
  unfolding smp_others_def by (rule smp_roots_member) (metis length_list_update nth_list_update_neq nth_mem
      smp_state.select_convs(3) smp_state.surjective smp_state.update_convs(3))

lemma ctx_others_smp: "r \<in> set (m_smps st) \<Longrightarrow> opt_root (r_chain r) \<subseteq># ctx_others i st"
  unfolding ctx_others_def by (rule smp_roots_member) simp

lemma smp_others_ctx: "c \<in> set (m_ctxs st) \<Longrightarrow> ctx_roots c \<subseteq># smp_others j st"
  unfolding smp_others_def by (rule ctx_roots_member) simp

text \<open>A call that works on one context, or on one sampler, and leaves what the others own alone.\<close>

lemma smp_inv_ctx:
  assumes inv: "smp_inv env X st" and i: "i < length (m_ctxs st)"
    and h: "heap_inv (w_heap w) (X' + (ctx_roots c + ctx_others i st))"
    and k: "keeps (w_heap (m_world st)) (w_heap w) (ctx_others i st)" and c: "smp_ctx_ok env (w_heap w) c"
  shows "smp_inv env X' (st\<lparr>m_world := w, m_ctxs := (m_ctxs st)[i := c]\<rparr>)"
proof -
  have "smp_ctx_ok env (w_heap w) ((m_ctxs st)[i := c] ! k)" if "k < length (m_ctxs st)" for k
  proof (cases "k = i")
    case False
    have "smp_ctx_ok env (w_heap (m_world st)) (m_ctxs st ! k)" using inv that by (simp add: smp_inv_def)
    then show ?thesis using smp_ctx_ok_keeps [OF k ctx_others_member [OF that False]] False by simp
  qed (use c i in simp)
  moreover have "chain_ok (w_heap w) (r_chain r)" if "r \<in> set (m_smps st)" for r
    using chain_ok_keeps [OF k ctx_others_smp [OF that]] inv that by (simp add: smp_inv_def)
  ultimately show ?thesis using h roots_ctx [OF i] by (auto simp: smp_inv_def in_set_conv_nth)
qed

lemma smp_inv_smp:
  assumes inv: "smp_inv env X st" and j: "j < length (m_smps st)"
    and h: "heap_inv (w_heap w) (X' + (opt_root (r_chain r) + smp_others j st))"
    and k: "keeps (w_heap (m_world st)) (w_heap w) (smp_others j st)" and r: "chain_ok (w_heap w) (r_chain r)"
  shows "smp_inv env X' (st\<lparr>m_world := w, m_smps := (m_smps st)[j := r]\<rparr>)"
proof -
  have "chain_ok (w_heap w) (r_chain ((m_smps st)[j := r] ! k))" if "k < length (m_smps st)" for k
  proof (cases "k = j")
    case False
    have "chain_ok (w_heap (m_world st)) (r_chain (m_smps st ! k))" using inv that by (simp add: smp_inv_def)
    then show ?thesis using chain_ok_keeps [OF k smp_others_member [OF that False]] False by simp
  qed (use r j in simp)
  moreover have "smp_ctx_ok env (w_heap w) c" if "c \<in> set (m_ctxs st)" for c
    using smp_ctx_ok_keeps [OF k smp_others_ctx [OF that]] inv that by (simp add: smp_inv_def)
  ultimately show ?thesis using h roots_smp [OF j] by (auto simp: smp_inv_def in_set_conv_nth)
qed


subsection \<open>Every call keeps it\<close>

lemma add_left: "X + (A + B) = A + (X + B)" for X :: "'a multiset"
  by (rule add.left_commute)

lemma smp_inv_at:
  assumes "smp_inv env X st" "i < length (m_ctxs st)"
  shows "heap_inv (w_heap (m_world st)) (X + (opt_root (x_smpl (m_ctxs st ! i)) + entry_roots (x_gcache (m_ctxs st ! i)) + ctx_others i st))"
    "cache_inv env (w_heap (m_world st)) (m_ctxs st ! i)" "chain_ok (w_heap (m_world st)) (x_smpl (m_ctxs st ! i))"
  using assms roots_ctx_self [OF assms(2)] by (simp_all add: smp_inv_def smp_ctx_ok_def ctx_roots_def)

lemma set_smpl_ok:
  assumes inv: "smp_inv env (opt_root new + X) st" and i: "i < length (m_ctxs st)"
    and c: "chain_ok (w_heap (m_world st)) new"
  shows "\<exists>st'. set_smpl i new st = Some st' \<and> smp_inv env X st' \<and> length (m_ctxs st') = length (m_ctxs st) \<and>
    x_smpl (m_ctxs st' ! i) = new \<and> keeps (w_heap (m_world st)) (w_heap (m_world st')) (opt_root new)"
proof -
  let ?c = "m_ctxs st ! i" and ?w = "m_world st"
  note I = smp_inv_at [OF inv i]
  let ?R = "opt_root new + (X + (entry_roots (x_gcache ?c) + ctx_others i st))"
  have h: "heap_inv (w_heap ?w) (opt_root (x_smpl ?c) + ?R)" using I(1) by (simp add: ac_simps)
  obtain w' where w': "(case x_smpl ?c of None \<Rightarrow> Some ?w | Some old \<Rightarrow> safe_sampler_free old ?w) = Some w'"
    "heap_inv (w_heap w') ?R" "keeps (w_heap ?w) (w_heap w') ?R"
  proof (cases "x_smpl ?c")
    case (Some p)
    then show ?thesis using safe_sampler_free_ok [of ?w p ?R] h that by auto
  qed (use h that in auto)
  have "smp_inv env X (st\<lparr>m_world := w', m_ctxs := (m_ctxs st)[i := ?c\<lparr>x_smpl := new\<rparr>]\<rparr>)"
  proof (rule smp_inv_ctx [OF inv i])
    show "heap_inv (w_heap w') (X + (ctx_roots (?c\<lparr>x_smpl := new\<rparr>) + ctx_others i st))"
      using w'(2) by (simp add: ctx_roots_def ac_simps)
    show "keeps (w_heap ?w) (w_heap w') (ctx_others i st)"
      by (rule keeps_subset [OF w'(3)]) (simp add: subset_mset.add_increasing)
    have "cache_inv env (w_heap w') ?c"
      by (rule cache_inv_keeps [OF w'(3) _ I(2)]) (simp add: subset_mset.add_increasing)
    moreover have "chain_ok (w_heap w') new" by (rule chain_ok_keeps [OF w'(3) _ c]) simp
    ultimately show "smp_ctx_ok env (w_heap w') (?c\<lparr>x_smpl := new\<rparr>)" by (simp add: smp_ctx_ok_def cache_inv_def)
  qed
  moreover have "keeps (w_heap ?w) (w_heap w') (opt_root new)" by (rule keeps_subset [OF w'(3)]) simp
  ultimately show ?thesis using w'(1) i by (simp add: set_smpl_def)
qed

lemma smp_inv_live:
  assumes "smp_inv env X st" "i < length (m_ctxs st)"
  shows "smp_inv env X (st\<lparr>m_ctxs := (m_ctxs st)[i := (m_ctxs st ! i)\<lparr>x_live := b\<rparr>]\<rparr>)"
  using smp_inv_ctx [OF assms, of "m_world st" X "(m_ctxs st ! i)\<lparr>x_live := b\<rparr>"] smp_inv_at [OF assms]
  by (simp add: ctx_roots_def smp_ctx_ok_def cache_inv_def)

lemma chain_from_args_ok:
  assumes inv: "smp_inv env {#} st"
  shows "\<exists>r st'. chain_from_args env ctx cfg st = Some (r, st') \<and>
     smp_inv env (case r of Inl _ \<Rightarrow> {#} | Inr (_, p) \<Rightarrow> {#p#}) st' \<and>
     (\<forall>i p. r = Inr (i, p) \<longrightarrow> i < length (m_ctxs st') \<and> is_chain (w_heap (m_world st')) p \<and>
        built env cfg (chain_stages (w_heap (m_world st')) p)) \<and>
     (\<forall>i. enif_get_resource CTX_RT ctx = Some i \<longrightarrow> i < length (m_ctxs st) \<longrightarrow>
        (\<forall>k p. r = Inr (k, p) \<longrightarrow> k = i) \<and> x_smpl (m_ctxs st' ! i) = x_smpl (m_ctxs st ! i) \<and>
        keeps (w_heap (m_world st)) (w_heap (m_world st')) (opt_root (x_smpl (m_ctxs st ! i))))"
proof -
  have skip: ?thesis if "chain_from_args env ctx cfg st = Some (Inl e, st)" for e
    using that inv by simp
  show ?thesis
  proof (cases "enif_get_resource CTX_RT ctx")
    case None
    then show ?thesis by (intro skip) (simp add: chain_from_args_def)
  next
    case (Some i)
    show ?thesis
    proof (cases "i \<ge> length (m_ctxs st) \<or> \<not> enif_is_map cfg")
      case True
      then show ?thesis using Some by (intro skip) (simp add: chain_from_args_def)
    next
      case False
      then have i: "i < length (m_ctxs st)" and m: "enif_is_map cfg" by auto
      let ?c = "m_ctxs st ! i" and ?w = "m_world st"
      show ?thesis
      proof (cases "x_live ?c")
        case False
        then show ?thesis using Some i m by (intro skip) (simp add: chain_from_args_def)
      next
        case live: True
        note I = smp_inv_at [OF inv i]
        let ?Q = "opt_root (x_smpl ?c) + ctx_others i st"
        have "heap_inv (w_heap ?w) (entry_roots (x_gcache ?c) + ?Q)" using I(1) by (simp add: ac_simps)
        from build_ok [OF this I(2), of cfg] obtain r c w where
          b: "build_sampler_chain_from_map env cfg ?c ?w = Some (r, c, w)" "build_post env cfg ?Q ?c ?w r c w" by blast
        let ?X = "case r of Inl _ \<Rightarrow> {#} | Inr p \<Rightarrow> {#p#}"
        let ?st = "st\<lparr>m_world := w, m_ctxs := (m_ctxs st)[i := c]\<rparr>"
        note B = b(2) [unfolded build_post_def]
        have k: "keeps (w_heap ?w) (w_heap w) ?Q" using B by simp
        have "smp_inv env ?X ?st"
        proof (rule smp_inv_ctx [OF inv i])
          show "heap_inv (w_heap w) (?X + (ctx_roots c + ctx_others i st))" using B by (simp add: ctx_roots_def ac_simps)
          show "keeps (w_heap ?w) (w_heap w) (ctx_others i st)" by (rule keeps_subset [OF k]) simp
          have "chain_ok (w_heap w) (x_smpl ?c)" by (rule chain_ok_keeps [OF k _ I(3)]) simp
          then show "smp_ctx_ok env (w_heap w) c" using B by (simp add: smp_ctx_ok_def)
        qed
        moreover have "keeps (w_heap ?w) (w_heap w) (opt_root (x_smpl ?c))" by (rule keeps_subset [OF k]) simp
        ultimately show ?thesis using b(1) B Some i m live by (cases r) (auto simp: chain_from_args_def)
      qed
    qed
  qed
qed

lemma configure_ok:
  assumes "smp_inv env {#} st"
  shows "\<exists>ret st'. nif_configure_sampler env ctx cfg st = Some (ret, st') \<and> smp_inv env {#} st'"
proof -
  from chain_from_args_ok [OF assms] obtain r st1 where
    r: "chain_from_args env ctx cfg st = Some (r, st1)"
      "smp_inv env (case r of Inl _ \<Rightarrow> {#} | Inr (_, p) \<Rightarrow> {#p#}) st1"
      "\<And>i p. r = Inr (i, p) \<Longrightarrow> i < length (m_ctxs st1) \<and> is_chain (w_heap (m_world st1)) p \<and>
        built env cfg (chain_stages (w_heap (m_world st1)) p)" by metis
  show ?thesis
  proof (cases r)
    case (Inl ret)
    then show ?thesis using r by (simp add: nif_configure_sampler_def)
  next
    case (Inr ip)
    then obtain i p where ip: "r = Inr (i, p)" by (cases ip) simp
    have "chain_ok (w_heap (m_world st1)) (Some p)" using r(3) [OF ip] built_typed by (auto simp: chain_ok_def)
    with set_smpl_ok [of env "Some p" "{#}" st1 i] r(2) r(3) [OF ip] ip obtain st2 where
      "set_smpl i (Some p) st1 = Some st2" "smp_inv env {#} st2" by auto
    then show ?thesis using r(1) ip by (simp add: nif_configure_sampler_def)
  qed
qed

end
