(* ===== verification/Sampler_Exec.thy ===== *)
theory Sampler_Exec
  imports Sampler_Safe
begin

text \<open>Every entry point keeps the invariant, so every run does.\<close>

lemma clear_sampler_ok:
  assumes "smp_inv env {#} st"
  shows "\<exists>ret st'. nif_clear_sampler ctx st = Some (ret, st') \<and> smp_inv env {#} st'"
proof (cases "enif_get_resource CTX_RT ctx")
  case (Some i)
  show ?thesis
  proof (cases "i < length (m_ctxs st)")
    case True
    from set_smpl_ok [of env None "{#}" st i] assms True show ?thesis
      using Some by (auto simp: nif_clear_sampler_def chain_ok_def)
  qed (use Some assms in \<open>simp add: nif_clear_sampler_def\<close>)
qed (use assms in \<open>simp add: nif_clear_sampler_def\<close>)

lemma smp_inv_world:
  assumes "smp_inv env X st" "heap_inv (w_heap w) (X' + roots st)" "keeps (w_heap (m_world st)) (w_heap w) (roots st)"
  shows "smp_inv env X' (st\<lparr>m_world := w\<rparr>)"
proof -
  have "smp_ctx_ok env (w_heap w) c" if "c \<in> set (m_ctxs st)" for c
    using smp_ctx_ok_keeps [OF assms(3) ctx_roots_member [OF that]] assms(1) that by (simp add: smp_inv_def)
  moreover have "chain_ok (w_heap w) (r_chain r)" if "r \<in> set (m_smps st)" for r
    using chain_ok_keeps [OF assms(3) smp_roots_member [OF that]] assms(1) that by (simp add: smp_inv_def)
  ultimately show ?thesis using assms(2) by (simp add: smp_inv_def roots_def)
qed

lemma smp_inv_tick: "smp_inv env X st \<Longrightarrow> w_heap w = w_heap (m_world st) \<Longrightarrow> smp_inv env X (st\<lparr>m_world := w\<rparr>)"
  by (rule smp_inv_world [where X = X]) (simp_all add: smp_inv_def)

lemma sampler_new_ok:
  assumes "smp_inv env {#} st"
  shows "\<exists>ret st'. nif_sampler_new env ctx cfg st = Some (ret, st') \<and> smp_inv env {#} st'"
proof -
  from chain_from_args_ok [OF assms] obtain r st1 where
    r: "chain_from_args env ctx cfg st = Some (r, st1)"
      "smp_inv env (case r of Inl _ \<Rightarrow> {#} | Inr (_, p) \<Rightarrow> {#p#}) st1"
      "\<And>i p. r = Inr (i, p) \<Longrightarrow> i < length (m_ctxs st1) \<and> is_chain (w_heap (m_world st1)) p \<and>
        built env cfg (chain_stages (w_heap (m_world st1)) p)" by metis
  show ?thesis
  proof (cases r)
    case (Inl ret)
    then show ?thesis using r by (simp add: nif_sampler_new_def)
  next
    case (Inr ip)
    then obtain i p where ip: "r = Inr (i, p)" by (cases ip) simp
    have inv1: "smp_inv env {#p#} st1" using r(2) ip by simp
    obtain a w1 where a: "try_call (e_ok env) (m_world st1) = (a, w1)" "w_heap w1 = w_heap (m_world st1)" by (rule try_callE)
    obtain m w2 where m: "(if a then try_call (e_ok env) w1 else (False, w1)) = (m, w2)" by fastforce
    then have w2: "w_heap w2 = w_heap (m_world st1)" using a(2) by (auto simp: try_call_def split: if_splits)
    have inv2: "smp_inv env {#p#} (st1\<lparr>m_world := w2\<rparr>)" by (rule smp_inv_tick [OF inv1 w2])
    show ?thesis
    proof (cases "a \<and> m")
      case False
      from inv2 have "heap_inv (w_heap w2) (add_mset p (roots st1))" by (simp add: smp_inv_def roots_def)
      from safe_sampler_free_ok [OF this] obtain w3 where
        w3: "safe_sampler_free p w2 = Some w3" "heap_inv (w_heap w3) (roots st1)" "keeps (w_heap w2) (w_heap w3) (roots st1)" by blast
      have "smp_inv env {#} (st1\<lparr>m_world := w3\<rparr>)" using smp_inv_world [OF inv1, of w3 "{#}"] w3 w2 by simp
      then show ?thesis using False r(1) ip a(1) m w3(1) by (auto simp: nif_sampler_new_def)
    next
      case True
      have "chain_ok (w_heap w2) (Some p)" using r(3) [OF ip] built_typed w2 by (auto simp: chain_ok_def)
      then have "smp_inv env {#} (st1\<lparr>m_world := w2,
          m_smps := m_smps st1 @ [\<lparr>r_chain = Some p, r_ctx = i, r_n_probs = n_probs_of cfg\<rparr>]\<rparr>)"
        using inv2 by (auto simp: smp_inv_def roots_def)
      then show ?thesis using True r(1) ip a(1) m by (simp add: nif_sampler_new_def)
    qed
  qed
qed

lemma drop_chain_ok:
  assumes inv: "smp_inv env {#} st" and j: "j < length (m_smps st)"
  shows "\<exists>st'. drop_chain j st = Some st' \<and> smp_inv env {#} st'"
proof (cases "r_chain (m_smps st ! j)")
  case None
  then show ?thesis using inv by (simp add: drop_chain_def)
next
  case (Some p)
  then have "heap_inv (w_heap (m_world st)) (add_mset p (smp_others j st))"
    using inv roots_smp_self [OF j] by (simp add: smp_inv_def)
  from safe_sampler_free_ok [OF this] obtain w where
    w: "safe_sampler_free p (m_world st) = Some w" "heap_inv (w_heap w) (smp_others j st)"
      "keeps (w_heap (m_world st)) (w_heap w) (smp_others j st)" by blast
  have "smp_inv env {#} (st\<lparr>m_world := w, m_smps := (m_smps st)[j := (m_smps st ! j)\<lparr>r_chain := None\<rparr>]\<rparr>)"
    by (rule smp_inv_smp [OF inv j]) (use w in \<open>simp_all add: chain_ok_def\<close>)
  then show ?thesis using w(1) Some by (simp add: drop_chain_def)
qed

lemma sampler_free_ok:
  assumes "smp_inv env {#} st"
  shows "\<exists>ret st'. nif_sampler_free smp st = Some (ret, st') \<and> smp_inv env {#} st'"
proof (cases "enif_get_resource SAMPLER_RT smp")
  case (Some j)
  show ?thesis
  proof (cases "j < length (m_smps st)")
    case True
    from drop_chain_ok [OF assms True] show ?thesis using Some assms by (auto simp: nif_sampler_free_def)
  qed (use Some assms in \<open>simp add: nif_sampler_free_def\<close>)
qed (use assms in \<open>simp add: nif_sampler_free_def\<close>)

text \<open>Sampling changes the members of one chain only.\<close>

lemma typed_accept: "typed_stages (map (stage_accept t) ss) = typed_stages ss"
proof -
  have "list_ex selects (map (stage_accept t) xs) = list_ex selects xs" for xs by (induction xs) simp_all
  then show ?thesis by (cases "ss = []") (simp_all add: typed_stages_def last_map flip: map_butlast)
qed

lemma sample_run:
  assumes h: "heap_inv (w_heap w) (opt_root p + R)" and c: "chain_ok (w_heap w) p" and w: "w = m_world st"
  shows "\<exists>w'. sample_chain p t st = Some (st\<lparr>m_world := w'\<rparr>) \<and> heap_inv (w_heap w') (opt_root p + R) \<and>
    keeps (w_heap w) (w_heap w') R \<and> chain_ok (w_heap w') p"
proof (cases p)
  case None
  then show ?thesis using h w by (intro exI [of _ w]) (simp add: sample_chain_def chain_ok_def)
next
  case (Some q)
  from chain_accept_ok [of "w_heap w" q R t] h c Some obtain h' where
    "chain_accept t q (w_heap w) = Some h'" "heap_inv h' (add_mset q R)" "keeps (w_heap w) h' R" "is_chain h' q"
    "chain_stages h' q = map (stage_accept t) (chain_stages (w_heap w) q)" by (auto simp: chain_ok_def)
  then show ?thesis using Some c w
    by (intro exI [of _ "w\<lparr>w_heap := h'\<rparr>"]) (simp add: sample_chain_def chain_ok_def typed_accept)
qed

lemma sample_ctx_ok:
  assumes inv: "smp_inv env {#} st" and i: "i < length (m_ctxs st)"
  shows "\<exists>st'. sample_chain (x_smpl (m_ctxs st ! i)) t st = Some st' \<and> smp_inv env {#} st'"
proof -
  let ?c = "m_ctxs st ! i"
  note I = smp_inv_at [OF inv i]
  let ?R = "entry_roots (x_gcache ?c) + ctx_others i st"
  have "heap_inv (w_heap (m_world st)) (opt_root (x_smpl ?c) + ?R)" using I(1) by (simp add: add.assoc)
  from sample_run [OF this I(3) refl, of t] obtain w where
    w: "sample_chain (x_smpl ?c) t st = Some (st\<lparr>m_world := w\<rparr>)" "heap_inv (w_heap w) (opt_root (x_smpl ?c) + ?R)"
      "keeps (w_heap (m_world st)) (w_heap w) ?R" "chain_ok (w_heap w) (x_smpl ?c)" by blast
  have "smp_inv env {#} (st\<lparr>m_world := w, m_ctxs := (m_ctxs st)[i := ?c]\<rparr>)"
  proof (rule smp_inv_ctx [OF inv i])
    show "heap_inv (w_heap w) ({#} + (ctx_roots ?c + ctx_others i st))" using w(2) by (simp add: ctx_roots_def add.assoc)
    show "keeps (w_heap (m_world st)) (w_heap w) (ctx_others i st)" by (rule keeps_subset [OF w(3)]) simp
    show "smp_ctx_ok env (w_heap w) ?c" using cache_inv_keeps [OF w(3) _ I(2)] w(4) by (simp add: smp_ctx_ok_def)
  qed
  then show ?thesis using w(1) by simp
qed

lemma sample_smp_ok:
  assumes inv: "smp_inv env {#} st" and j: "j < length (m_smps st)"
  shows "\<exists>st'. sample_chain (r_chain (m_smps st ! j)) t st = Some st' \<and> smp_inv env {#} st'"
proof -
  let ?r = "m_smps st ! j"
  have h: "heap_inv (w_heap (m_world st)) (opt_root (r_chain ?r) + smp_others j st)"
    using inv roots_smp_self [OF j] by (simp add: smp_inv_def)
  have c: "chain_ok (w_heap (m_world st)) (r_chain ?r)" using inv j by (simp add: smp_inv_def)
  from sample_run [OF h c refl, of t] obtain w where
    w: "sample_chain (r_chain ?r) t st = Some (st\<lparr>m_world := w\<rparr>)"
      "heap_inv (w_heap w) (opt_root (r_chain ?r) + smp_others j st)"
      "keeps (w_heap (m_world st)) (w_heap w) (smp_others j st)" "chain_ok (w_heap w) (r_chain ?r)" by blast
  have "smp_inv env {#} (st\<lparr>m_world := w, m_smps := (m_smps st)[j := ?r]\<rparr>)"
    by (rule smp_inv_smp [OF inv j]) (use w in simp_all)
  then show ?thesis using w(1) by simp
qed

lemma build_default_ok:
  assumes inv: "heap_inv (w_heap w) R"
  shows "\<exists>p w'. build_default_greedy_chain ok w = Some (p, w') \<and> keeps (w_heap w) (w_heap w') R \<and>
     heap_inv (w_heap w') (opt_root p + R) \<and> chain_ok (w_heap w') p"
proof -
  obtain c w1 where 1: "safe_init ok (NChain []) w = (c, w1)" by fastforce
  note C = safe_init_ok [OF inv disjI1 [OF refl] 1]
  show ?thesis
  proof (cases c)
    case None
    then show ?thesis using 1 C(1,2) inv by (auto simp: build_default_greedy_chain_def chain_ok_def)
  next
    case (Some chain)
    from C(3) [OF Some] have inv1: "heap_inv (w_heap w1) (add_mset chain R)"
      and ch: "is_chain (w_heap w1) chain" "chain_stages (w_heap w1) chain = []"
      by (simp_all add: is_chain_def chain_stages_def List.map_filter_def)
    obtain g w2 where 2: "safe_init ok (NStage SGreedy) w1 = (g, w2)" by fastforce
    note G = safe_init_ok [OF inv1 disjI2 [OF refl] 2]
    have k2: "keeps (w_heap w) (w_heap w2) R" by (rule keeps_trans [OF C(1) keeps_subset [OF G(1)]]) simp
    have free: "\<exists>w'. safe_sampler_free chain w3 = Some w' \<and> keeps (w_heap w) (w_heap w') R \<and> heap_inv (w_heap w') R"
      if "heap_inv (w_heap w3) (add_mset chain R)" "keeps (w_heap w) (w_heap w3) R" for w3
      using safe_sampler_free_ok [OF that(1)] keeps_trans [OF that(2)] by blast
    show ?thesis
    proof (cases g)
      case None
      then have "heap_inv (w_heap w2) (add_mset chain R)" using G(2) inv1 by simp
      from free [OF this k2] show ?thesis using 1 2 Some None
        by (auto simp: build_default_greedy_chain_def chain_ok_def)
    next
      case g: (Some greedy)
      note K = keeps_chain [OF G(1), of chain]
      have s: "stage_at (w_heap w2) greedy = Some SGreedy" using G(3) [OF g] by (simp add: stage_at_def)
      have c2: "is_chain (w_heap w2) chain" "chain_stages (w_heap w2) chain = []" using K ch by simp_all
      from safe_chain_add_ok [OF G(3) [OF g, THEN conjunct1] c2(1) s, of ok] obtain rc w3 where
        a: "safe_chain_add ok chain greedy w2 = Some (rc, w3)" "keeps (w_heap w2) (w_heap w3) R"
          "if rc = 0 then heap_inv (w_heap w3) (add_mset chain R) \<and> is_chain (w_heap w3) chain \<and>
             chain_stages (w_heap w3) chain = chain_stages (w_heap w2) chain @ [SGreedy] else w_heap w3 = w_heap w2" by blast
      note k3 = keeps_trans [OF k2 a(2)]
      show ?thesis
      proof (cases "rc = 0")
        case True
        then show ?thesis using 1 2 Some g a c2(2) k3
          by (intro exI [of _ "Some chain"] exI [of _ w3])
            (simp add: build_default_greedy_chain_def chain_ok_def typed_stages_last)
      next
        case False
        then have "heap_inv (w_heap w3) (add_mset greedy (add_mset chain R))" using a(3) G(3) [OF g] by simp
        from safe_sampler_free_ok [OF this] obtain w4 where
          w4: "safe_sampler_free greedy w3 = Some w4" "heap_inv (w_heap w4) (add_mset chain R)"
            "keeps (w_heap w3) (w_heap w4) (add_mset chain R)" by blast
        have "keeps (w_heap w) (w_heap w4) R" by (rule keeps_trans [OF k3 keeps_subset [OF w4(3)]]) simp
        from free [OF w4(2) this] show ?thesis using 1 2 Some g a(1) w4(1) False
          by (auto simp: build_default_greedy_chain_def chain_ok_def)
      qed
    qed
  qed
qed

lemma ensure_smpl_ok:
  assumes inv: "smp_inv env {#} st" and i: "i < length (m_ctxs st)"
  shows "\<exists>b st'. ensure_smpl env i st = Some (b, st') \<and> smp_inv env {#} st' \<and> length (m_ctxs st') = length (m_ctxs st)"
proof (cases "x_smpl (m_ctxs st ! i)")
  case (Some p)
  then show ?thesis using inv by (intro exI [of _ True] exI [of _ st]) (simp add: ensure_smpl_def)
next
  case None
  let ?c = "m_ctxs st ! i"
  note I = smp_inv_at [OF inv i]
  let ?R = "entry_roots (x_gcache ?c) + ctx_others i st"
  have "heap_inv (w_heap (m_world st)) ?R" using I(1) None by simp
  from build_default_ok [OF this, of "e_ok env"] obtain p w where
    p: "build_default_greedy_chain (e_ok env) (m_world st) = Some (p, w)" "keeps (w_heap (m_world st)) (w_heap w) ?R"
      "heap_inv (w_heap w) (opt_root p + ?R)" "chain_ok (w_heap w) p" by blast
  have "smp_inv env {#} (st\<lparr>m_world := w, m_ctxs := (m_ctxs st)[i := ?c\<lparr>x_smpl := p\<rparr>]\<rparr>)"
  proof (rule smp_inv_ctx [OF inv i])
    show "heap_inv (w_heap w) ({#} + (ctx_roots (?c\<lparr>x_smpl := p\<rparr>) + ctx_others i st))" using p(3) by (simp add: ctx_roots_def add.assoc)
    show "keeps (w_heap (m_world st)) (w_heap w) (ctx_others i st)" by (rule keeps_subset [OF p(2)]) simp
    show "smp_ctx_ok env (w_heap w) (?c\<lparr>x_smpl := p\<rparr>)" using cache_inv_keeps [OF p(2) _ I(2)] p(4) by (simp add: smp_ctx_ok_def cache_inv_def)
  qed
  then show ?thesis using p(1) None by (simp add: ensure_smpl_def)
qed

lemma free_context_ok:
  assumes inv: "smp_inv env {#} st" and i: "i < length (m_ctxs st)"
  shows "\<exists>st'. free_context_smpl i st = Some st' \<and> smp_inv env {#} st'"
proof (cases "x_live (m_ctxs st ! i)")
  case True
  from set_smpl_ok [of env None "{#}" st i] inv i obtain st1 where
    "set_smpl i None st = Some st1" "smp_inv env {#} st1" "length (m_ctxs st1) = length (m_ctxs st)" by (auto simp: chain_ok_def)
  then show ?thesis using True i smp_inv_live [of env "{#}" st1 i False] by (simp add: free_context_smpl_def)
qed (use inv in \<open>simp add: free_context_smpl_def\<close>)

lemma ctx_dtor_ok:
  assumes inv: "smp_inv env {#} st" and i: "i < length (m_ctxs st)"
  shows "\<exists>st'. ctx_dtor_smpl i st = Some st' \<and> smp_inv env {#} st'"
proof -
  let ?c = "m_ctxs st ! i"
  note I = smp_inv_at [OF inv i]
  let ?Q = "opt_root (x_smpl ?c) + ctx_others i st"
  have "heap_inv (w_heap (m_world st)) (entry_roots (x_gcache ?c) + ?Q)" using I(1) by (simp add: ac_simps)
  from clear_entries_ok [OF this] obtain es w where
    e: "clear_entries (x_gcache ?c) (m_world st) = Some (es, w)" "heap_inv (w_heap w) ?Q"
      "keeps (w_heap (m_world st)) (w_heap w) ?Q" "length es = length (x_gcache ?c)" "\<forall>e \<in> set es. ge_tmpl e = None" by blast
  let ?c1 = "?c\<lparr>x_gcache := es\<rparr>" and ?st = "st\<lparr>m_world := w, m_ctxs := (m_ctxs st)[i := ?c\<lparr>x_gcache := es\<rparr>]\<rparr>"
  have "smp_inv env {#} ?st"
  proof (rule smp_inv_ctx [OF inv i])
    show "heap_inv (w_heap w) ({#} + (ctx_roots ?c1 + ctx_others i st))"
      using e(2) entry_roots_none [OF e(5)] by (simp add: ctx_roots_def)
    show "keeps (w_heap (m_world st)) (w_heap w) (ctx_others i st)" by (rule keeps_subset [OF e(3)]) simp
    have "chain_ok (w_heap w) (x_smpl ?c)" by (rule chain_ok_keeps [OF e(3) _ I(3)]) simp
    then show "smp_ctx_ok env (w_heap w) ?c1" using I(2) e(4,5) by (simp add: smp_ctx_ok_def cache_inv_def entry_ok_def)
  qed
  with set_smpl_ok [of env None "{#}" ?st i] i obtain st1 where
    "set_smpl i None ?st = Some st1" "smp_inv env {#} st1" "length (m_ctxs st1) = length (m_ctxs st)" by (auto simp: chain_ok_def)
  then show ?thesis using e(1) i smp_inv_live [of env "{#}" st1 i False]
    by (simp add: ctx_dtor_smpl_def grammar_cache_clear_def)
qed

lemma new_ctx_ok: "smp_ctx_ok env h new_smp_ctx"
  by (simp add: smp_ctx_ok_def cache_inv_def chain_ok_def new_smp_ctx_def entry_ok_def empty_entry_def)

lemma smp_run_ok:
  assumes inv: "smp_inv env {#} st"
  shows "\<exists>st'. smp_run env op st = Some st' \<and> smp_inv env {#} st'"
proof (cases op)
  case NewContext
  have "roots (st\<lparr>m_ctxs := m_ctxs st @ [new_smp_ctx]\<rparr>) = roots st" by (simp add: roots_def)
  then show ?thesis using NewContext inv new_ctx_ok by (simp add: smp_inv_def)
next
  case (Configure ctx cfg)
  then show ?thesis using configure_ok [OF inv, of ctx cfg] by auto
next
  case (SetGrammar ctx g)
  then show ?thesis using configure_ok [OF inv, of ctx "EMap [(EAtom ''grammar'', g)]"] by (auto simp: nif_set_grammar_def)
next
  case (ClearSampler ctx)
  then show ?thesis using clear_sampler_ok [OF inv, of ctx] by auto
next
  case (SamplerNew ctx cfg)
  then show ?thesis using sampler_new_ok [OF inv, of ctx cfg] by auto
next
  case (SamplerFree smp)
  then show ?thesis using sampler_free_ok [OF inv, of smp] by auto
next
  case (DecodeOne i t)
  show ?thesis
  proof (cases "i < length (m_ctxs st)")
    case True
    from ensure_smpl_ok [OF inv True] obtain b st1 where
      1: "ensure_smpl env i st = Some (b, st1)" "smp_inv env {#} st1" "i < length (m_ctxs st1)" using True by auto
    from sample_ctx_ok [OF 1(2,3)] show ?thesis using DecodeOne 1(1) inv by simp
  qed (use DecodeOne inv in simp)
next
  case (Sample j t)
  then show ?thesis using sample_smp_ok [OF inv, of j t] inv by (cases "j < length (m_smps st)") simp_all
next
  case (FreeContext i)
  then show ?thesis using free_context_ok [OF inv, of i] inv by (cases "i < length (m_ctxs st)") simp_all
next
  case (CtxDtor i)
  then show ?thesis using ctx_dtor_ok [OF inv, of i] inv by (cases "i < length (m_ctxs st)") simp_all
next
  case (SamplerDtor j)
  then show ?thesis using drop_chain_ok [OF inv, of j] inv by (cases "j < length (m_smps st)") simp_all
qed

lemma smp_inv_init: "smp_inv env {#} smp_init"
  by (simp add: smp_inv_def smp_init_def roots_def heap_inv_def live_def deref_def)

lemma smp_exec_ok: "\<exists>st. smp_exec env ops = Some st \<and> smp_inv env {#} st"
proof -
  have "smp_inv env {#} st \<Longrightarrow> \<exists>st'. foldM (smp_run env) ops st = Some st' \<and> smp_inv env {#} st'" for st
  proof (induction ops arbitrary: st)
    case (Cons op ops)
    from smp_run_ok [OF Cons.prems, of op] obtain st1 where "smp_run env op st = Some st1" "smp_inv env {#} st1" by blast
    then show ?case using Cons.IH [of st1] by simp
  qed simp
  then show ?thesis unfolding smp_exec_def using smp_inv_init .
qed

end
