(* ===== verification/Sampler_Props.thy ===== *)
theory Sampler_Props
  imports Sampler_Exec
begin

text \<open>What the sampler entry points guarantee to the Erlang side, over every run of them.\<close>

subsection \<open>Nothing is left when the resources are gone\<close>

definition teardown :: "smp_state \<Rightarrow> smp_op list" where
  "teardown st = map CtxDtor [0..<length (m_ctxs st)] @ map SamplerDtor [0..<length (m_smps st)]"

lemma set_smpl_None_ctxs:
  assumes "set_smpl i None st = Some st'"
  shows "m_ctxs st' = (m_ctxs st)[i := (m_ctxs st ! i)\<lparr>x_smpl := None\<rparr>] \<and> m_smps st' = m_smps st"
  using assms by (auto simp: set_smpl_def bind_eq_Some_conv)

lemma clear_entries_none: "clear_entries es w = Some (es', w') \<Longrightarrow> \<forall>e \<in> set es'. ge_tmpl e = None"
  by (induction es arbitrary: w es' w') (auto simp: bind_eq_Some_conv)

lemma ctx_dtor_effect:
  assumes "smp_run env (CtxDtor i) st = Some st'" "i < length (m_ctxs st)"
  shows "\<exists>c. m_ctxs st' = (m_ctxs st)[i := c] \<and> ctx_roots c = {#} \<and> m_smps st' = m_smps st"
proof -
  obtain es w st1 where
    1: "clear_entries (x_gcache (m_ctxs st ! i)) (m_world st) = Some (es, w)"
      "set_smpl i None (st\<lparr>m_world := w, m_ctxs := (m_ctxs st)[i := (m_ctxs st ! i)\<lparr>x_gcache := es\<rparr>]\<rparr>) = Some st1"
      "st' = st1\<lparr>m_ctxs := (m_ctxs st1)[i := (m_ctxs st1 ! i)\<lparr>x_live := False\<rparr>]\<rparr>"
    using assms by (auto simp: ctx_dtor_smpl_def grammar_cache_clear_def bind_eq_Some_conv)
  have "entry_roots es = {#}" using entry_roots_none clear_entries_none [OF 1(1)] by blast
  then show ?thesis using set_smpl_None_ctxs [OF 1(2)] 1(3) assms(2) by (auto simp: ctx_roots_def)
qed

lemma smp_dtor_effect:
  assumes "smp_run env (SamplerDtor j) st = Some st'" "j < length (m_smps st)"
  shows "\<exists>r. m_smps st' = (m_smps st)[j := r] \<and> r_chain r = None \<and> m_ctxs st' = m_ctxs st"
  using assms by (auto simp: drop_chain_def bind_eq_Some_conv split: option.splits
      intro: exI [of _ "m_smps st ! j"] simp flip: list_update_id)

lemma ctx_dtors_run:
  assumes "smp_inv env {#} st" "n \<le> length (m_ctxs st)"
  shows "\<exists>st'. foldM (smp_run env) (map CtxDtor [0..<n]) st = Some st' \<and> smp_inv env {#} st' \<and>
    length (m_ctxs st') = length (m_ctxs st) \<and> (\<forall>i < n. ctx_roots (m_ctxs st' ! i) = {#}) \<and> m_smps st' = m_smps st"
  using assms(2)
proof (induction n)
  case (Suc n)
  then obtain st1 where 1: "foldM (smp_run env) (map CtxDtor [0..<n]) st = Some st1" "smp_inv env {#} st1"
    "length (m_ctxs st1) = length (m_ctxs st)" "\<forall>i < n. ctx_roots (m_ctxs st1 ! i) = {#}" "m_smps st1 = m_smps st" by auto
  from smp_run_ok [OF 1(2)] obtain st2 where 2: "smp_run env (CtxDtor n) st1 = Some st2" "smp_inv env {#} st2" by blast
  from ctx_dtor_effect [OF 2(1)] Suc.prems 1(3) obtain c where
    "m_ctxs st2 = (m_ctxs st1)[n := c]" "ctx_roots c = {#}" "m_smps st2 = m_smps st1" by auto
  then show ?case using 1 2 Suc.prems by (simp add: foldM_append nth_list_update less_Suc_eq del: smp_run.simps)
qed (use assms(1) in simp)

lemma smp_dtors_run:
  assumes "smp_inv env {#} st" "n \<le> length (m_smps st)"
  shows "\<exists>st'. foldM (smp_run env) (map SamplerDtor [0..<n]) st = Some st' \<and> smp_inv env {#} st' \<and>
    length (m_smps st') = length (m_smps st) \<and> (\<forall>j < n. r_chain (m_smps st' ! j) = None) \<and> m_ctxs st' = m_ctxs st"
  using assms(2)
proof (induction n)
  case (Suc n)
  then obtain st1 where 1: "foldM (smp_run env) (map SamplerDtor [0..<n]) st = Some st1" "smp_inv env {#} st1"
    "length (m_smps st1) = length (m_smps st)" "\<forall>j < n. r_chain (m_smps st1 ! j) = None" "m_ctxs st1 = m_ctxs st" by auto
  from smp_run_ok [OF 1(2)] obtain st2 where 2: "smp_run env (SamplerDtor n) st1 = Some st2" "smp_inv env {#} st2" by blast
  from smp_dtor_effect [OF 2(1)] Suc.prems 1(3) obtain r where
    "m_smps st2 = (m_smps st1)[n := r]" "r_chain r = None" "m_ctxs st2 = m_ctxs st1" by auto
  then show ?case using 1 2 Suc.prems by (simp add: foldM_append nth_list_update less_Suc_eq del: smp_run.simps)
qed (use assms(1) in simp)

lemma sum_list_zero: "\<forall>x \<in> set xs. f x = ({#} :: 'b multiset) \<Longrightarrow> (\<Sum>x\<leftarrow>xs. f x) = {#}"
  by (induction xs) simp_all

lemma teardown_run:
  assumes "smp_inv env {#} st"
  shows "\<exists>st'. foldM (smp_run env) (teardown st) st = Some st' \<and> live (w_heap (m_world st')) = {}"
proof -
  from ctx_dtors_run [OF assms order_refl] obtain st1 where
    1: "foldM (smp_run env) (map CtxDtor [0..<length (m_ctxs st)]) st = Some st1" "smp_inv env {#} st1"
      "length (m_ctxs st1) = length (m_ctxs st)" "\<forall>i < length (m_ctxs st). ctx_roots (m_ctxs st1 ! i) = {#}" "m_smps st1 = m_smps st" by blast
  from smp_dtors_run [OF 1(2) order_refl] obtain st2 where
    2: "foldM (smp_run env) (map SamplerDtor [0..<length (m_smps st1)]) st1 = Some st2" "smp_inv env {#} st2"
      "length (m_smps st2) = length (m_smps st1)" "\<forall>j < length (m_smps st1). r_chain (m_smps st2 ! j) = None" "m_ctxs st2 = m_ctxs st1" by blast
  have "(\<Sum>c\<leftarrow>m_ctxs st2. ctx_roots c) = {#}" using 1(3,4) 2(5) by (intro sum_list_zero) (auto simp: in_set_conv_nth)
  moreover have "(\<Sum>r\<leftarrow>m_smps st2. opt_root (r_chain r)) = {#}" using 2(3,4) by (intro sum_list_zero) (auto simp: in_set_conv_nth)
  ultimately have "roots st2 = {#}" by (simp add: roots_def)
  then have "live (w_heap (m_world st2)) = {}" using 2(2) by (simp add: smp_inv_def heap_inv_def mset_set_empty_iff)
  then show ?thesis using 1 2 by (simp add: teardown_def foldM_append)
qed

text \<open>
  C12: No sequence of calls to the sampler entry points, with whatever arguments and whichever
  allocations and native calls fail, frees or uses a native object that is gone; and once the
  destructors of the contexts and samplers have run no object is left allocated.
\<close>

theorem sampler_memory_safe:
  "\<exists>st. smp_exec env ops = Some st \<and>
     (\<exists>st'. smp_exec env (ops @ teardown st) = Some st' \<and> live (w_heap (m_world st')) = {})"
proof -
  obtain st where "smp_exec env ops = Some st" "smp_inv env {#} st" using smp_exec_ok by blast
  then show ?thesis using teardown_run [of env st] by (simp add: smp_exec_def foldM_append)
qed

subsection \<open>Every installed chain can sample\<close>

definition installed :: "smp_state \<Rightarrow> nat option list" where
  "installed st = map x_smpl (m_ctxs st) @ map r_chain (m_smps st)"

text \<open>An engine where every call succeeds, with a vocabulary of 128 tokens that are their bytes.\<close>

definition demo_smp_env :: smp_env where
  "demo_smp_env = \<lparr>e_ok = (\<lambda>_. True), e_fl = (\<lambda>x. x), e_vocab = True, e_n_vocab = 128, e_eos = 2, e_is_eog = (\<lambda>t. t = 2),
     e_grammar_ok = (\<lambda>_ _ _ _. True), e_tokenize = (\<lambda>bs. llama_vocab_tokenize (map (int \<circ> unat) bs)),
     e_piece = (\<lambda>t. (1, [word_of_int t]))\<rparr>"

text \<open>
  C14: Whatever calls were made, every chain a context or a sampler holds ends in a stage that
  selects a token, and no stage before it does: sampling never meets a chain that selects
  nothing, or twice.
\<close>

theorem sampler_chains_typed:
  assumes "smp_exec env ops = Some st" and "Some p \<in> set (installed st)"
  shows "is_chain (w_heap (m_world st)) p \<and> typed_stages (chain_stages (w_heap (m_world st)) p)"
proof -
  have "smp_inv env {#} st" using smp_exec_ok [of env ops] assms(1) by auto
  then have "chain_ok (w_heap (m_world st)) (Some p)"
    using assms(2) by (auto simp: smp_inv_def installed_def smp_ctx_ok_def image_iff)
  then show ?thesis by (simp add: chain_ok_def)
qed

theorem sampler_chains_typed_witness:
  "\<exists>st. smp_exec demo_smp_env [NewContext, Configure (ERes CTX_RT 0) (EMap [(EAtom ''top_k'', EInt 40)]), SamplerNew (ERes CTX_RT 0) (EMap [])] = Some st \<and>
     Some 0 \<in> set (installed st) \<and> Some 3 \<in> set (installed st) \<and>
     is_chain (w_heap (m_world st)) 0 \<and> typed_stages (chain_stages (w_heap (m_world st)) 0)"
proof -
  let ?ops = "[NewContext, Configure (ERes CTX_RT 0) (EMap [(EAtom ''top_k'', EInt 40)]), SamplerNew (ERes CTX_RT 0) (EMap [])]"
  have run: "map_option (\<lambda>st. (Some 0 \<in> set (installed st), Some 3 \<in> set (installed st))) (smp_exec demo_smp_env ?ops) = Some (True, True)"
    by code_simp
  then obtain st where st: "smp_exec demo_smp_env ?ops = Some st" "Some 0 \<in> set (installed st)" "Some 3 \<in> set (installed st)" by auto
  from sampler_chains_typed [OF st(1,2)] st show ?thesis by (intro exI [of _ st]) simp
qed

lemma exec_inv: "smp_exec env ops = Some st \<Longrightarrow> smp_inv env {#} st"
  using smp_exec_ok [of env ops] by auto



subsection \<open>What the cache key does not tell apart\<close>

text \<open>
  Two lazy requests for one grammar: triggered by the words \<open>a\<close>, empty, empty, and
  triggered by token 97. The words end in NULs, the token is four bytes, and neither part says how long it is.
\<close>

definition words_cfg :: "byte list \<Rightarrow> eterm" where
  "words_cfg g = EMap [(EAtom ''grammar'', EBin g), (EAtom ''grammar_lazy'', EAtom ''true''),
     (EAtom ''trigger_patterns'', mk_list [EBin [97], EBin [], EBin []])]"

definition token_cfg :: "byte list \<Rightarrow> eterm" where
  "token_cfg g = EMap [(EAtom ''grammar'', EBin g), (EAtom ''grammar_lazy'', EAtom ''true''),
     (EAtom ''trigger_tokens'', mk_list [EInt 97])]"

definition stages_after :: "smp_op list \<Rightarrow> stage list option" where
  "stages_after ops =
     map_option (\<lambda>st. case x_smpl (m_ctxs st ! 0) of None \<Rightarrow> [] | Some p \<Rightarrow> chain_stages (w_heap (m_world st)) p)
       (smp_exec demo_smp_env ops)"

text \<open>
  The key of the grammar cache is ambiguous: a request triggered by token 97, made on
  a context that has served the same grammar triggered by the words \<open>a\<close>, empty and empty, is given the grammar
  of the earlier request. Alone, it gets its own.
\<close>

theorem grammar_key_collides:
  "request_key (words_cfg g) g = request_key (token_cfg g) g \<and>
   stages_after [NewContext, Configure (ERes CTX_RT 0) (token_cfg [114])] = Some [SGrammar True [114] [] [97] [], SGreedy] \<and>
   stages_after [NewContext, Configure (ERes CTX_RT 0) (words_cfg [114]), Configure (ERes CTX_RT 0) (token_cfg [114])]
     = Some [SGrammar True [114] [[97], [], []] [] [], SGreedy]"
proof (intro conjI)
  have "trigger_words (words_cfg g) = [[97], [], []]" "trigger_ids (words_cfg g) = []"
    "trigger_words (token_cfg g) = []" "trigger_ids (token_cfg g) = [97]"
    by (simp_all add: trigger_words_def trigger_ids_def words_cfg_def token_cfg_def enif_get_map_value_def strings_of_def
        cstr_def read_token_list_def ERLLAMA_MAX_TOKENS_def enif_get_int_def enif_get_list_length_def)
  moreover have "get_map_bool (words_cfg g) ''grammar_lazy'' = get_map_bool (token_cfg g) ''grammar_lazy''"
    by (simp add: words_cfg_def token_cfg_def get_map_bool_def enif_get_map_value_def)
  ultimately show "request_key (words_cfg g) g = request_key (token_cfg g) g"
    by (simp add: request_key_def grammar_key_def composed_def token_le_def)
  show "stages_after [NewContext, Configure (ERes CTX_RT 0) (token_cfg [114])] = Some [SGrammar True [114] [] [97] [], SGreedy]"
    by code_simp
  show "stages_after [NewContext, Configure (ERes CTX_RT 0) (words_cfg [114]), Configure (ERes CTX_RT 0) (token_cfg [114])]
     = Some [SGrammar True [114] [[97], [], []] [] [], SGreedy]"
    by code_simp
qed

end
