(* ===== verification/Adapter_Nif.thy ===== *)
theory Adapter_Nif
  imports Nif_Util
begin

text \<open>
  Applying LoRA adapters (\<open>erllama_nif_adapter.c\<close>): the calls that take the mutexes of adapters and
  contexts, as threads that interleave at every lock and unlock. An adapter resource is named by its
  address, which orders the locks; the native adapter it wraps is an identifier, and \<open>freed\<close> lists
  those that \<open>llama_adapter_lora_free\<close> has deleted. A context refers to native adapters in its
  table \<open>loras\<close> (\<open>llama_context::set_adapters_lora\<close>).

  Arguments are read before any lock is taken, by \<open>set_adapters_args\<close>. Scales are rationals; \<open>fl\<close> is the
  conversion to \<open>float\<close>, \<open>dbl\<close> that of an integer to \<open>double\<close>.
\<close>

subsection \<open>The table of a context\<close>

type_synonym lora_table = "(nat \<times> rat) list"

definition nonzero :: "lora_table \<Rightarrow> lora_table" where
  "nonzero arr = filter (\<lambda>x. snd x \<noteq> 0) arr"

definition adapters_lora_are_same :: "lora_table \<Rightarrow> lora_table \<Rightarrow> bool" where
  "adapters_lora_are_same arr tab \<longleftrightarrow>
     (\<forall>x \<in> set (nonzero arr). map_of tab (fst x) = Some (snd x)) \<and> length (nonzero arr) = length tab"

text \<open>\<open>std::unordered_map::insert\<close> keeps the value of a key that is there.\<close>

definition table_insert :: "nat \<times> rat \<Rightarrow> lora_table \<Rightarrow> lora_table" where
  "table_insert x tab = (if map_of tab (fst x) = None then tab @ [x] else tab)"

text \<open>\<open>fault = Some k\<close>: the new table or its \<open>k\<close>-th insertion throws.\<close>

definition set_adapters_lora :: "nat option \<Rightarrow> lora_table \<Rightarrow> lora_table \<Rightarrow> int \<times> lora_table" where
  "set_adapters_lora fault arr tab =
     (if adapters_lora_are_same arr tab then (0, tab)
      else case fault of
        None \<Rightarrow> (0, fold table_insert (nonzero arr) [])
      | Some 0 \<Rightarrow> (-1, tab)
      | Some (Suc k) \<Rightarrow> (-1, fold table_insert (take k (nonzero arr)) []))"

subsection \<open>The arguments\<close>

definition read_pair :: "(rat \<Rightarrow> rat) \<Rightarrow> (int \<Rightarrow> rat) \<Rightarrow> eterm \<Rightarrow> (nat \<times> rat) option" where
  "read_pair fl dbl t =
     (case enif_get_tuple t of
        Some [a, x] \<Rightarrow>
          (case enif_get_resource ADAPTER_RT a of None \<Rightarrow> None
           | Some w \<Rightarrow>
               (case enif_get_double x of Some d \<Rightarrow> Some (w, fl d)
                | None \<Rightarrow> map_option (\<lambda>i. (w, fl (dbl i))) (enif_get_long x)))
      | _ \<Rightarrow> None)"

definition set_adapters_args :: "(rat \<Rightarrow> rat) \<Rightarrow> (int \<Rightarrow> rat) \<Rightarrow> bool \<Rightarrow> eterm \<Rightarrow> eterm \<Rightarrow> nif_ret + nat \<times> (nat \<times> rat) list" where
  "set_adapters_args fl dbl alloc ctx list =
     (case (enif_get_resource CTX_RT ctx, enif_get_list_length list) of
        (Some c, Some n) \<Rightarrow>
          if n > 0 \<and> \<not> alloc then Inl (err ''oom'')
          else (case those (map (read_pair fl dbl) (list_cells list)) of None \<Rightarrow> Inl Badarg | Some l \<Rightarrow> Inr (c, l))
      | _ \<Rightarrow> Inl Badarg)"

text \<open>
  The entries in the order of their addresses. \<open>qsort\<close> may order equal addresses in any way; the arrays
  are filled by \<open>ae_idx\<close>, so this does not show.
\<close>

record ad_entry =
  ae_w :: nat
  ae_scale :: rat
  ae_idx :: nat

definition sorted_entries :: "(nat \<times> rat) list \<Rightarrow> ad_entry list" where
  "sorted_entries l =
     sort_key ae_w (map (\<lambda>i. \<lparr>ae_w = fst (l ! i), ae_scale = snd (l ! i), ae_idx = i\<rparr>) [0..<length l])"

text \<open>The test \<open>entries[k].w == entries[k - 1].w\<close> for \<open>k > 0\<close>.\<close>

definition repeated :: "ad_entry list \<Rightarrow> nat \<Rightarrow> bool" where
  "repeated es k \<longleftrightarrow> k > 0 \<and> ae_w (es ! k) = ae_w (es ! (k - 1))"

definition fill_arrays :: "(nat \<Rightarrow> nat option) \<Rightarrow> ad_entry list \<Rightarrow> lora_table" where
  "fill_arrays native es =
     fold (\<lambda>e arr. arr[ae_idx e := (the (native (ae_w e)), ae_scale e)]) es (replicate (length es) (0, 0))"

subsection \<open>Threads\<close>

datatype lockid = AdMu nat | CtxMu nat

record ad_world =
  owner :: "lockid \<Rightarrow> nat option"
  native :: "nat \<Rightarrow> nat option"
  freed :: "nat list"
  ctx_live :: "nat \<Rightarrow> bool"
  loras :: "nat \<Rightarrow> lora_table"
  bad_use :: bool

datatype ad_call = CSet nat "(nat \<times> rat) list" | CFree nat | CDecode nat | CFreeCtx nat

text \<open>
  Where a thread is. The first six are the phases of \<open>nif_set_adapters\<close>: the loop that locks, the loop
  that unlocks after a released adapter, filling the arrays, the lock of the context, the
  native call, the loop that unlocks; \<open>Want\<close> and \<open>Held\<close> are the other calls before and under
  their lock.
\<close>

datatype ad_pc = Locking nat | Bailing nat nat | Build | WantCtx | HaveCtx | Unlocking nat nif_ret | Want | Held | Done nif_ret

record ad_thread =
  th_call :: ad_call
  th_pc :: ad_pc
  th_arr :: lora_table

definition acquire :: "nat \<Rightarrow> lockid \<Rightarrow> ad_world \<Rightarrow> ad_world option" where
  "acquire i l w = (if owner w l = None then Some (w\<lparr>owner := (owner w)(l := Some i)\<rparr>) else None)"

definition release :: "lockid \<Rightarrow> ad_world \<Rightarrow> ad_world" where
  "release l w = w\<lparr>owner := (owner w)(l := None)\<rparr>"

definition goto :: "ad_pc \<Rightarrow> ad_thread \<Rightarrow> ad_thread" where
  "goto pc t = t\<lparr>th_pc := pc\<rparr>"

definition set_step :: "nat option \<Rightarrow> nat \<Rightarrow> nat \<Rightarrow> (nat \<times> rat) list \<Rightarrow> ad_thread \<Rightarrow> ad_world \<Rightarrow> (ad_thread \<times> ad_world) option" where
  "set_step fault i c l t w =
     (let es = sorted_entries l; n = length es in
      case th_pc t of
        Locking k \<Rightarrow>
          if k \<ge> n then Some (goto Build t, w)
          else if repeated es k then Some (goto (Locking (Suc k)) t, w)
          else map_option (\<lambda>w1. (goto (if native w1 (ae_w (es ! k)) = None then Bailing k 0 else Locking (Suc k)) t, w1))
                 (acquire i (AdMu (ae_w (es ! k))) w)
      | Bailing k j \<Rightarrow>
          if j > k then Some (goto (Done (err ''released'')) t, w)
          else Some (goto (Bailing k (Suc j)) t, if repeated es j then w else release (AdMu (ae_w (es ! j))) w)
      | Build \<Rightarrow> Some (goto WantCtx (t\<lparr>th_arr := fill_arrays (native w) es\<rparr>), w)
      | WantCtx \<Rightarrow> map_option (\<lambda>w1. (goto HaveCtx t, w1)) (acquire i (CtxMu c) w)
      | HaveCtx \<Rightarrow>
          if \<not> ctx_live w c then Some (goto (Unlocking 0 (err ''released'')) t, release (CtxMu c) w)
          else
            let (rc, tab) = set_adapters_lora fault (th_arr t) (loras w c) in
            Some (goto (Unlocking 0 (if rc \<noteq> 0 then err ''exception'' else Term atom_ok)) t,
                  release (CtxMu c) (w\<lparr>loras := (loras w)(c := tab)\<rparr>))
      | Unlocking j r \<Rightarrow>
          if j \<ge> n then Some (goto (Done r) t, w)
          else Some (goto (Unlocking (Suc j) r) t, if repeated es j then w else release (AdMu (ae_w (es ! j))) w)
      | _ \<Rightarrow> None)"

text \<open>The others hold one lock. A decode goes through the table of its context.\<close>

fun call_lock :: "ad_call \<Rightarrow> lockid" where
  "call_lock (CSet c l) = CtxMu c"
| "call_lock (CFree a) = AdMu a"
| "call_lock (CDecode c) = CtxMu c"
| "call_lock (CFreeCtx c) = CtxMu c"

fun under_lock :: "ad_call \<Rightarrow> ad_world \<Rightarrow> nif_ret \<times> ad_world" where
  "under_lock (CSet c l) w = (Badarg, w)"
| "under_lock (CFree a) w =
     (case native w a of None \<Rightarrow> (err ''released'', w)
      | Some x \<Rightarrow> (Term atom_ok, w\<lparr>native := (native w)(a := None), freed := x # freed w\<rparr>))"
| "under_lock (CDecode c) w =
     (if \<not> ctx_live w c then (err ''released'', w)
      else (Term atom_ok, w\<lparr>bad_use := bad_use w \<or> list_ex (\<lambda>x. fst x \<in> set (freed w)) (loras w c)\<rparr>))"
| "under_lock (CFreeCtx c) w =
     (if \<not> ctx_live w c then (err ''released'', w) else (Term atom_ok, w\<lparr>ctx_live := (ctx_live w)(c := False)\<rparr>))"

definition thread_step :: "(nat \<Rightarrow> nat option) \<Rightarrow> nat \<Rightarrow> ad_thread \<Rightarrow> ad_world \<Rightarrow> (ad_thread \<times> ad_world) option" where
  "thread_step fault i t w =
     (case th_call t of
        CSet c l \<Rightarrow> set_step (fault i) i c l t w
      | call \<Rightarrow>
          (case th_pc t of
             Want \<Rightarrow> map_option (\<lambda>w1. (goto Held t, w1)) (acquire i (call_lock call) w)
           | Held \<Rightarrow> let (r, w1) = under_lock call w in Some (goto (Done r) t, release (call_lock call) w1)
           | _ \<Rightarrow> None))"

record ad_sys =
  sy_world :: ad_world
  sy_threads :: "ad_thread list"

definition ad_step :: "(nat \<Rightarrow> nat option) \<Rightarrow> nat \<Rightarrow> ad_sys \<Rightarrow> ad_sys option" where
  "ad_step fault i s =
     (if i \<ge> length (sy_threads s) then None
      else map_option (\<lambda>(t, w). \<lparr>sy_world = w, sy_threads = (sy_threads s)[i := t]\<rparr>)
             (thread_step fault i (sy_threads s ! i) (sy_world s)))"

definition start_thread :: "ad_call \<Rightarrow> ad_thread" where
  "start_thread call = \<lparr>th_call = call, th_pc = (case call of CSet c l \<Rightarrow> Locking 0 | _ \<Rightarrow> Want), th_arr = []\<rparr>"

definition ad_start :: "ad_world \<Rightarrow> ad_call list \<Rightarrow> ad_sys" where
  "ad_start w calls = \<lparr>sy_world = w, sy_threads = map start_thread calls\<rparr>"

text \<open>The threads take turns in the order \<open>is\<close>; \<open>None\<close> when one is told to step that cannot.\<close>

definition ad_exec :: "(nat \<Rightarrow> nat option) \<Rightarrow> nat list \<Rightarrow> ad_sys \<Rightarrow> ad_sys option" where
  "ad_exec fault is s = foldM (ad_step fault) is s"

end
