(* ===== verification/Adapter_Locks.thy ===== *)
theory Adapter_Locks
  imports Adapter_Nif "HOL-Library.Multiset"
begin

text \<open>
  The locks of the adapter calls: what each thread holds where it is (\<open>held\<close>), that the mutexes agree
  with it in every reachable state, that no adapter a thread is about to pass can be
  released meanwhile, that the calls cannot block each other for good, and that they end.
\<close>

subsection \<open>Locks are ordered\<close>

instantiation lockid :: linorder
begin

definition less_eq_lockid :: "lockid \<Rightarrow> lockid \<Rightarrow> bool" where
  "less_eq_lockid l m =
     (case l of AdMu a \<Rightarrow> (case m of AdMu b \<Rightarrow> a \<le> b | CtxMu _ \<Rightarrow> True)
      | CtxMu c \<Rightarrow> (case m of AdMu _ \<Rightarrow> False | CtxMu d \<Rightarrow> c \<le> d))"

definition less_lockid :: "lockid \<Rightarrow> lockid \<Rightarrow> bool" where
  "less_lockid l m = (l \<le> m \<and> \<not> m \<le> l)"

instance
  by standard (auto simp: less_eq_lockid_def less_lockid_def split: lockid.splits)

end

lemma lockid_less [simp]:
  "AdMu a < AdMu b \<longleftrightarrow> a < b" "AdMu a < CtxMu c" "\<not> CtxMu c < AdMu a"
  by (auto simp: less_eq_lockid_def less_lockid_def)

subsection \<open>The entries in order\<close>

definition locks_upto :: "ad_entry list \<Rightarrow> nat \<Rightarrow> lockid set" where
  "locks_upto es k = (\<lambda>e. AdMu (ae_w e)) ` set (take k es)"

lemma locks_upto_0 [simp]: "locks_upto es 0 = {}"
  by (simp add: locks_upto_def)

lemma locks_upto_Suc: "k < length es \<Longrightarrow> locks_upto es (Suc k) = insert (AdMu (ae_w (es ! k))) (locks_upto es k)"
  by (simp add: locks_upto_def take_Suc_conv_app_nth)

lemma locks_upto_mono: "j \<le> k \<Longrightarrow> locks_upto es j \<subseteq> locks_upto es k"
  unfolding locks_upto_def by (intro image_mono set_take_subset_set_take)

lemma sorted_entries_props [simp]:
  "length (sorted_entries l) = length l" "sorted (map ae_w (sorted_entries l))"
  by (simp_all add: sorted_entries_def)

lemma sorted_le: "sorted (map ae_w es) \<Longrightarrow> j \<le> k \<Longrightarrow> k < length es \<Longrightarrow> ae_w (es ! j) \<le> ae_w (es ! k)"
  using sorted_nth_mono [of "map ae_w es" j k] by simp

text \<open>An entry repeats the one before it exactly when its lock is among those before it.\<close>

lemma repeated_iff:
  assumes "sorted (map ae_w es)" "k < length es"
  shows "repeated es k \<longleftrightarrow> AdMu (ae_w (es ! k)) \<in> locks_upto es k"
proof
  assume "repeated es k"
  then obtain j where "k = Suc j" "ae_w (es ! k) = ae_w (es ! j)" by (cases k) (auto simp: repeated_def)
  then show "AdMu (ae_w (es ! k)) \<in> locks_upto es k" using assms(2) by (simp add: locks_upto_Suc)
next
  assume "AdMu (ae_w (es ! k)) \<in> locks_upto es k"
  then obtain j where j: "j < k" "ae_w (es ! j) = ae_w (es ! k)"
    using assms(2) by (auto simp: locks_upto_def in_set_conv_nth)
  then have "ae_w (es ! j) \<le> ae_w (es ! (k - 1))" "ae_w (es ! (k - 1)) \<le> ae_w (es ! k)"
    using sorted_le [OF assms(1), of j "k - 1"] sorted_le [OF assms(1), of "k - 1" k] assms(2) by simp_all
  then show "repeated es k" using j by (simp add: repeated_def)
qed

lemma new_lock_above:
  assumes "sorted (map ae_w es)" "k < length es" "\<not> repeated es k" "m \<in> locks_upto es k"
  shows "m < AdMu (ae_w (es ! k))"
proof -
  obtain j where j: "j < k" "m = AdMu (ae_w (es ! j))" using assms(2,4) by (auto simp: locks_upto_def in_set_conv_nth)
  have "ae_w (es ! j) \<noteq> ae_w (es ! k)" using repeated_iff [OF assms(1,2)] assms(3,4) j(2) by auto
  then show ?thesis using sorted_le [OF assms(1), of j k] j assms(2) by simp
qed

subsection \<open>What a thread holds\<close>

definition held :: "ad_thread \<Rightarrow> lockid set" where
  "held t =
     (case th_call t of
        CSet c l \<Rightarrow>
          (let es = sorted_entries l; n = length es in
           case th_pc t of
             Locking k \<Rightarrow> locks_upto es k
           | Bailing k j \<Rightarrow> locks_upto es (Suc k) - locks_upto es j
           | Build \<Rightarrow> locks_upto es n
           | WantCtx \<Rightarrow> locks_upto es n
           | HaveCtx \<Rightarrow> insert (CtxMu c) (locks_upto es n)
           | Unlocking j r \<Rightarrow> locks_upto es n - locks_upto es j
           | _ \<Rightarrow> {})
      | call \<Rightarrow> (case th_pc t of Held \<Rightarrow> {call_lock call} | _ \<Rightarrow> {}))"

text \<open>The counters are in range, and the phase belongs to the call.\<close>

definition pc_ok :: "ad_thread \<Rightarrow> bool" where
  "pc_ok t \<longleftrightarrow>
     (case th_call t of
        CSet c l \<Rightarrow>
          (case th_pc t of
             Locking k \<Rightarrow> k \<le> length l
           | Bailing k j \<Rightarrow> k < length l \<and> j \<le> Suc k
           | Unlocking j r \<Rightarrow> j \<le> length l
           | Want \<Rightarrow> False
           | Held \<Rightarrow> False
           | _ \<Rightarrow> True)
      | _ \<Rightarrow> (case th_pc t of Want \<Rightarrow> True | Held \<Rightarrow> True | Done _ \<Rightarrow> True | _ \<Rightarrow> False))"

text \<open>The adapters a thread has found usable and will pass to the native call.\<close>

definition relied :: "ad_thread \<Rightarrow> nat set" where
  "relied t =
     (case th_call t of
        CSet c l \<Rightarrow>
          (case th_pc t of
             Locking k \<Rightarrow> ae_w ` set (take k (sorted_entries l))
           | Build \<Rightarrow> ae_w ` set (sorted_entries l)
           | WantCtx \<Rightarrow> ae_w ` set (sorted_entries l)
           | HaveCtx \<Rightarrow> ae_w ` set (sorted_entries l)
           | _ \<Rightarrow> {})
      | _ \<Rightarrow> {})"

definition natives_of :: "(nat \<Rightarrow> nat option) \<Rightarrow> (nat \<times> rat) list \<Rightarrow> lora_table" where
  "natives_of nt l = map (\<lambda>x. (the (nt (fst x)), snd x)) l"

definition thread_ok :: "(nat \<Rightarrow> nat option) \<Rightarrow> ad_thread \<Rightarrow> bool" where
  "thread_ok nt t \<longleftrightarrow> pc_ok t \<and> (\<forall>a \<in> relied t. nt a \<noteq> None) \<and>
     (\<forall>c l. th_call t = CSet c l \<longrightarrow> th_pc t \<in> {WantCtx, HaveCtx} \<longrightarrow> th_arr t = natives_of nt l)"

lemma relied_held: "AdMu ` relied t \<subseteq> held t"
  by (auto simp: relied_def held_def locks_upto_def Let_def split: ad_call.splits ad_pc.splits)

lemma entries_wrappers: "ae_w ` set (sorted_entries l) = fst ` set l"
  by (force simp: sorted_entries_def in_set_conv_nth image_iff)

lemma thread_ok_frame:
  assumes "thread_ok nt t" "\<And>a. AdMu a \<in> held t \<Longrightarrow> nt' a = nt a"
  shows "thread_ok nt' t"
proof -
  have same: "nt' a = nt a" if "a \<in> relied t" for a using assms(2) relied_held [of t] that by blast
  have "natives_of nt' l = natives_of nt l" if "th_call t = CSet c l" "th_pc t \<in> {WantCtx, HaveCtx}" for c l
  proof -
    have "relied t = fst ` set l" using that by (elim insertE emptyE) (simp_all add: relied_def entries_wrappers)
    then have "nt' (fst x) = nt (fst x)" if "x \<in> set l" for x using same that by blast
    then show ?thesis by (simp add: natives_of_def)
  qed
  then show ?thesis using assms(1) same by (auto simp: thread_ok_def)
qed


subsection \<open>What a step does\<close>

definition step_effect :: "nat \<Rightarrow> ad_thread \<Rightarrow> ad_world \<Rightarrow> ad_thread \<Rightarrow> ad_world \<Rightarrow> bool" where
  "step_effect i t w t' w' \<longleftrightarrow>
     th_call t' = th_call t \<and> thread_ok (native w') t' \<and>
     owner w' = (\<lambda>l. if l \<in> held t' then Some i else if l \<in> held t then None else owner w l) \<and>
     (\<forall>l \<in> held t' - held t. owner w l = None) \<and>
     (\<forall>a. native w' a \<noteq> native w a \<longrightarrow> AdMu a \<in> held t \<and> native w' a = None)"

lemma step_effectI:
  assumes "th_call t' = th_call t" "thread_ok (native w') t'"
    and "\<And>l. owner w' l = (if l \<in> held t' then Some i else if l \<in> held t then None else owner w l)"
    and "\<And>l. l \<in> held t' \<Longrightarrow> l \<notin> held t \<Longrightarrow> owner w l = None"
    and "\<And>a. native w' a \<noteq> native w a \<Longrightarrow> AdMu a \<in> held t \<and> native w' a = None"
  shows "step_effect i t w t' w'"
  using assms unfolding step_effect_def by (intro conjI ext) blast+

lemma goto_simps [simp]: "th_call (goto pc t) = th_call t" "th_pc (goto pc t) = pc" "th_arr (goto pc t) = th_arr t"
  by (simp_all add: goto_def)

lemma release_simps [simp]:
  "owner (release l w) = (owner w)(l := None)" "native (release l w) = native w" "freed (release l w) = freed w"
  "ctx_live (release l w) = ctx_live w" "loras (release l w) = loras w"
  by (simp_all add: release_def)

lemma acquire_Some: "acquire i l w = Some w' \<longleftrightarrow> owner w l = None \<and> w' = w\<lparr>owner := (owner w)(l := Some i)\<rparr>"
  by (auto simp: acquire_def)

text \<open>Filling the arrays by the original index undoes the sort.\<close>

lemma fold_fill:
  assumes "\<forall>e \<in> set es. ae_idx e < n" "distinct (map ae_idx es)" "length arr = n"
  shows "length (fold (\<lambda>e arr. arr[ae_idx e := f e]) es arr) = n \<and>
    (\<forall>e \<in> set es. fold (\<lambda>e arr. arr[ae_idx e := f e]) es arr ! ae_idx e = f e) \<and>
    (\<forall>k. k \<notin> ae_idx ` set es \<longrightarrow> fold (\<lambda>e arr. arr[ae_idx e := f e]) es arr ! k = arr ! k)"
  using assms
proof (induction es arbitrary: arr)
  case (Cons e es)
  from Cons.IH [of "arr[ae_idx e := f e]"] Cons.prems show ?case by (auto simp: image_iff)
qed simp

lemma fill_arrays_natives: "fill_arrays nt (sorted_entries l) = natives_of nt l"
proof (rule nth_equalityI)
  let ?es = "sorted_entries l" and ?f = "\<lambda>e. (the (nt (ae_w e)), ae_scale e)"
  let ?arr = "fold (\<lambda>e arr. arr[ae_idx e := ?f e]) ?es (replicate (length l) (0, 0))"
  have m: "mset ?es = mset (map (\<lambda>i. \<lparr>ae_w = fst (l ! i), ae_scale = snd (l ! i), ae_idx = i\<rparr>) [0..<length l])"
    by (simp add: sorted_entries_def)
  have set: "set ?es = (\<lambda>i. \<lparr>ae_w = fst (l ! i), ae_scale = snd (l ! i), ae_idx = i\<rparr>) ` {..<length l}"
    unfolding mset_eq_setD [OF m] by (simp add: atLeast0LessThan)
  have "mset (map ae_idx ?es) = mset (map ae_idx (map (\<lambda>i. \<lparr>ae_w = fst (l ! i), ae_scale = snd (l ! i), ae_idx = i\<rparr>) [0..<length l]))"
    unfolding mset_map m ..
  then have "mset (map ae_idx ?es) = mset [0..<length l]" by (simp only: map_map comp_def ad_entry.simps map_ident)
  then have "distinct (map ae_idx ?es)" by (metis distinct_upt mset_eq_imp_distinct_iff)
  then have F: "length ?arr = length l" "\<forall>e \<in> set ?es. ?arr ! ae_idx e = ?f e"
    using fold_fill [of ?es "length l" "replicate (length l) (0, 0)" ?f] set by auto
  have a: "fill_arrays nt ?es = ?arr" by (simp add: fill_arrays_def)
  show "length (fill_arrays nt ?es) = length (natives_of nt l)" unfolding a using F(1) by (simp add: natives_of_def)
  fix k assume "k < length (fill_arrays nt ?es)"
  then have k: "k < length l" unfolding a using F(1) by simp
  let ?e = "\<lparr>ae_w = fst (l ! k), ae_scale = snd (l ! k), ae_idx = k\<rparr>"
  have "?e \<in> set ?es" using k set by auto
  then have "?arr ! ae_idx ?e = ?f ?e" using F(2) by blast
  then show "fill_arrays nt ?es ! k = natives_of nt l ! k" unfolding a using k by (simp add: natives_of_def)
qed

lemma take_Suc_relied: "k < length l \<Longrightarrow>
    ae_w ` set (take (Suc k) (sorted_entries l)) = insert (ae_w (sorted_entries l ! k)) (ae_w ` set (take k (sorted_entries l)))"
  by (simp add: take_Suc_conv_app_nth)


lemma effect_same:
  assumes "\<And>l. owner w l = Some i \<longleftrightarrow> l \<in> held t"
    and "th_call t' = th_call t" "thread_ok (native w) t'" "held t' = held t"
  shows "step_effect i t w t' w"
  using assms by (intro step_effectI) auto

lemma effect_acquire:
  assumes "\<And>l. owner w l = Some i \<longleftrightarrow> l \<in> held t" and "acquire i l w = Some w'"
    and "th_call t' = th_call t" "thread_ok (native w) t'" "held t' = insert l (held t)"
  shows "step_effect i t w t' w'"
  using assms by (intro step_effectI) (auto simp: acquire_Some)

lemma effect_release:
  assumes "\<And>l. owner w l = Some i \<longleftrightarrow> l \<in> held t"
    and "th_call t' = th_call t" "thread_ok (native w') t'" "l \<in> held t" "held t' = held t - {l}"
    and "owner w' = (owner w)(l := None)"
    and "\<And>a. native w' a \<noteq> native w a \<Longrightarrow> AdMu a \<in> held t \<and> native w' a = None"
  shows "step_effect i t w t' w'"
  using assms by (intro step_effectI) auto

lemma wrapper_in: "k < length l \<Longrightarrow> AdMu (ae_w (sorted_entries l ! k)) \<in> locks_upto (sorted_entries l) k \<Longrightarrow>
    ae_w (sorted_entries l ! k) \<in> ae_w ` set (take k (sorted_entries l))"
  by (auto simp: locks_upto_def)

lemma set_step_effect:
  assumes ok: "thread_ok (native w) t" and own: "\<And>m. owner w m = Some i \<longleftrightarrow> m \<in> held t"
    and call: "th_call t = CSet c l" and step: "set_step fault i c l t w = Some (t', w')"
  shows "step_effect i t w t' w'"
proof -
  let ?es = "sorted_entries l" and ?n = "length l"
  note rep = repeated_iff [OF sorted_entries_props(2) [of l]]
  have pc: "pc_ok t" and rel: "\<And>a. a \<in> relied t \<Longrightarrow> native w a \<noteq> None"
    and arr: "th_pc t \<in> {WantCtx, HaveCtx} \<Longrightarrow> th_arr t = natives_of (native w) l"
    using ok call by (auto simp: thread_ok_def)
  note defs = thread_ok_def pc_ok_def relied_def held_def call
  note S = step [unfolded set_step_def Let_def sorted_entries_props(1)]
  show ?thesis
  proof (cases "th_pc t")
    case (Locking k)
    then have k: "k \<le> ?n" using pc call by (simp add: pc_ok_def)
    consider "k = ?n" | "k < ?n" "repeated ?es k" | "k < ?n" "\<not> repeated ?es k" using k by linarith
    then show ?thesis
    proof cases
      case 1
      then have t': "t' = goto Build t" "w' = w" using S Locking by simp_all
      show ?thesis unfolding t' by (rule effect_same [OF own]) (use rel Locking 1 in \<open>auto simp: defs Let_def\<close>)
    next
      case 2
      then have t': "t' = goto (Locking (Suc k)) t" "w' = w" using S Locking by simp_all
      have mem: "AdMu (ae_w (?es ! k)) \<in> locks_upto ?es k" using rep [of k] 2 by simp
      show ?thesis unfolding t' by (rule effect_same [OF own])
        (use rel Locking 2 wrapper_in [OF 2(1) mem] mem in \<open>auto simp: defs Let_def locks_upto_Suc take_Suc_relied\<close>)
    next
      case 3
      let ?m = "AdMu (ae_w (?es ! k))"
      obtain w1 where a: "acquire i ?m w = Some w1" and
        t': "t' = goto (if native w1 (ae_w (?es ! k)) = None then Bailing k 0 else Locking (Suc k)) t" "w' = w1"
        using S Locking 3 by auto
      have n1: "native w1 = native w" using a by (auto simp: acquire_Some)
      show ?thesis unfolding t'(2) by (rule effect_acquire [OF own a])
        (use rel Locking 3 n1 t'(1) in \<open>auto simp: defs Let_def locks_upto_Suc take_Suc_relied\<close>)
    qed
  next
    case (Bailing k j)
    then have kj: "k < ?n" "j \<le> Suc k" using pc call by (simp_all add: pc_ok_def)
    show ?thesis
    proof (cases "j > k")
      case True
      then have t': "t' = goto (Done (err ''released'')) t" "w' = w" and j: "j = Suc k" using S Bailing kj by simp_all
      show ?thesis unfolding t' by (rule effect_same [OF own]) (use Bailing j in \<open>auto simp: defs Let_def\<close>)
    next
      case False
      let ?m = "AdMu (ae_w (?es ! j))"
      from False kj have j: "j < ?n" "j \<le> k" by simp_all
      have t': "t' = goto (Bailing k (Suc j)) t" "w' = (if repeated ?es j then w else release ?m w)" using S Bailing False by simp_all
      have ok': "thread_ok nt t'" for nt using kj Bailing False by (simp add: t' defs)
      show ?thesis
      proof (cases "repeated ?es j")
        case True
        then have "?m \<in> locks_upto ?es j" using rep [of j] j(1) by simp
        then show ?thesis unfolding t' using True
          by (simp, intro effect_same [OF own]) (use ok' t' Bailing j in \<open>auto simp: held_def call Let_def locks_upto_Suc\<close>)
      next
        case False
        then have m: "?m \<notin> locks_upto ?es j" using rep [of j] j(1) by simp
        have "?m \<in> locks_upto ?es (Suc k)" using locks_upto_mono [of "Suc j" "Suc k" ?es] j by (auto simp: locks_upto_Suc)
        then have "?m \<in> held t" using m Bailing by (simp add: held_def call Let_def)
        then show ?thesis using False m
          by (intro effect_release [OF own, where l = ?m]) (use ok' t' Bailing j in \<open>auto simp: held_def call Let_def locks_upto_Suc\<close>)
      qed
    qed
  next
    case Build
    then have t': "t' = goto WantCtx (t\<lparr>th_arr := natives_of (native w) l\<rparr>)" "w' = w" using S by (auto simp: fill_arrays_natives)
    show ?thesis unfolding t' by (rule effect_same [OF own]) (use Build rel in \<open>auto simp: defs Let_def\<close>)
  next
    case WantCtx
    then obtain w1 where a: "acquire i (CtxMu c) w = Some w1" and t': "t' = goto HaveCtx t" "w' = w1" using S by auto
    show ?thesis unfolding t' by (rule effect_acquire [OF own a]) (use WantCtx rel arr in \<open>auto simp: defs Let_def\<close>)
  next
    case HaveCtx
    then obtain r where t': "t' = goto (Unlocking 0 r) t" "owner w' = (owner w)(CtxMu c := None)" "native w' = native w"
      using S by (auto split: if_splits prod.splits)
    have "CtxMu c \<notin> locks_upto ?es ?n" by (auto simp: locks_upto_def)
    then show ?thesis
      by (intro effect_release [OF own, where l = "CtxMu c"]) (use HaveCtx t' in \<open>auto simp: defs Let_def\<close>)
  next
    case (Unlocking j r)
    then have j: "j \<le> ?n" using pc call by (simp add: pc_ok_def)
    show ?thesis
    proof (cases "j = ?n")
      case True
      then have t': "t' = goto (Done r) t" "w' = w" using S Unlocking by simp_all
      show ?thesis unfolding t' by (rule effect_same [OF own]) (use Unlocking True in \<open>auto simp: defs Let_def\<close>)
    next
      case False
      let ?m = "AdMu (ae_w (?es ! j))"
      from False j have j: "j < ?n" by simp
      have t': "t' = goto (Unlocking (Suc j) r) t" "w' = (if repeated ?es j then w else release ?m w)" using S Unlocking j by simp_all
      have ok': "thread_ok nt t'" for nt using j Unlocking by (simp add: t' defs)
      show ?thesis
      proof (cases "repeated ?es j")
        case True
        then have "?m \<in> locks_upto ?es j" using rep [of j] j by simp
        then show ?thesis unfolding t' using True
          by (simp, intro effect_same [OF own]) (use ok' t' Unlocking j in \<open>auto simp: held_def call Let_def locks_upto_Suc\<close>)
      next
        case False
        then have m: "?m \<notin> locks_upto ?es j" using rep [of j] j by simp
        have "?m \<in> locks_upto ?es ?n" using locks_upto_mono [of "Suc j" ?n ?es] j by (auto simp: locks_upto_Suc)
        then have "?m \<in> held t" using m Unlocking by (simp add: held_def call Let_def)
        then show ?thesis using False m
          by (intro effect_release [OF own, where l = ?m]) (use ok' t' Unlocking j in \<open>auto simp: held_def call Let_def locks_upto_Suc\<close>)
      qed
    qed
  qed (use S pc call in \<open>auto simp: pc_ok_def\<close>)
qed


lemma other_step_effect:
  assumes ok: "thread_ok (native w) t" and own: "\<And>m. owner w m = Some i \<longleftrightarrow> m \<in> held t"
    and call: "\<And>c l. th_call t \<noteq> CSet c l" and step: "thread_step fault i t w = Some (t', w')"
  shows "step_effect i t w t' w'"
proof -
  let ?call = "th_call t" and ?m = "call_lock (th_call t)"
  have ok': "thread_ok nt (goto pc t)" if "pc = Held \<or> (\<exists>r. pc = Done r)" for nt pc
    using that call by (auto simp: thread_ok_def pc_ok_def relied_def split: ad_call.splits)
  have h: "held (goto pc t) = (if pc = Held then {?m} else {})" for pc
    using call by (auto simp: held_def split: ad_call.splits ad_pc.splits)
  have ht: "held t = (if th_pc t = Held then {?m} else {})"
    using call by (auto simp: held_def split: ad_call.splits ad_pc.splits)
  consider w1 where "th_pc t = Want" "acquire i ?m w = Some w1" "t' = goto Held t" "w' = w1"
    | r w1 where "th_pc t = Held" "under_lock ?call w = (r, w1)" "t' = goto (Done r) t" "w' = release ?m w1"
    using step call by (auto simp: thread_step_def split: ad_call.splits ad_pc.splits prod.splits)
  then show ?thesis
  proof cases
    case 1
    show ?thesis unfolding 1(4) by (rule effect_acquire [OF own 1(2)]) (use 1 ok' in \<open>auto simp: h ht\<close>)
  next
    case 2
    have o: "owner w1 = owner w" using 2(2) call by (cases ?call) (auto split: option.splits if_splits)
    have n: "?m = AdMu a \<and> native w1 a = None" if "native w1 a \<noteq> native w a" for a
      using 2(2) call that by (cases ?call) (auto split: option.splits if_splits)
    show ?thesis unfolding 2(4) by (rule effect_release [OF own, where l = ?m]) (use 2 o ok' in \<open>auto simp: h ht dest!: n\<close>)
  qed
qed

lemma thread_step_effect:
  assumes "thread_ok (native w) t" "\<And>m. owner w m = Some i \<longleftrightarrow> m \<in> held t" "thread_step fault i t w = Some (t', w')"
  shows "step_effect i t w t' w'"
proof (cases "\<exists>c l. th_call t = CSet c l")
  case True
  then obtain c l where c: "th_call t = CSet c l" by blast
  show ?thesis by (rule set_step_effect [OF assms(1,2) c]) (use assms(3) c in \<open>simp add: thread_step_def\<close>)
qed (use other_step_effect assms in blast)

subsection \<open>Every reachable state\<close>

definition locks_ok :: "ad_sys \<Rightarrow> bool" where
  "locks_ok s \<longleftrightarrow>
     (\<forall>l j. owner (sy_world s) l = Some j \<longleftrightarrow> j < length (sy_threads s) \<and> l \<in> held (sy_threads s ! j)) \<and>
     (\<forall>j < length (sy_threads s). thread_ok (native (sy_world s)) (sy_threads s ! j))"

lemma ad_stepE:
  assumes "ad_step fault i s = Some s'"
  obtains t' w' where "i < length (sy_threads s)" "thread_step fault i (sy_threads s ! i) (sy_world s) = Some (t', w')"
    "s' = \<lparr>sy_world = w', sy_threads = (sy_threads s)[i := t']\<rparr>"
  using assms by (auto simp: ad_step_def split: if_splits)

lemma locks_ok_step:
  assumes inv: "locks_ok s" and step: "ad_step fault i s = Some s'"
  shows "locks_ok s'"
proof -
  obtain t' w' where i: "i < length (sy_threads s)" and run: "thread_step fault i (sy_threads s ! i) (sy_world s) = Some (t', w')"
    and s': "s' = \<lparr>sy_world = w', sy_threads = (sy_threads s)[i := t']\<rparr>" using step by (rule ad_stepE)
  let ?t = "sy_threads s ! i" and ?w = "sy_world s" and ?ts = "sy_threads s"
  have own: "owner ?w l = Some j \<longleftrightarrow> j < length ?ts \<and> l \<in> held (?ts ! j)" for l j using inv by (simp add: locks_ok_def)
  have "step_effect i ?t ?w t' w'"
    by (rule thread_step_effect [OF _ _ run]) (use inv own i in \<open>simp_all add: locks_ok_def\<close>)
  note E = this [unfolded step_effect_def]
  have free: "owner ?w l = None" if "l \<in> held t'" "l \<notin> held ?t" for l using E that by blast
  have o': "owner w' l = (if l \<in> held t' then Some i else if l \<in> held ?t then None else owner ?w l)" for l
    using E by metis
  have others: "l \<notin> held (?ts ! j)" if "l \<in> held ?t \<or> l \<in> held t'" "j < length ?ts" "j \<noteq> i" for l j
    using own [of l i] own [of l j] free [of l] that i by auto
  have "owner w' l = Some j \<longleftrightarrow> j < length ?ts \<and> l \<in> held (?ts[i := t'] ! j)" for l j
    using own [of l j] own [of l i] others [of l j] i unfolding o' by (cases "j = i") auto
  moreover have "thread_ok (native w') (?ts[i := t'] ! j)" if j: "j < length ?ts" for j
  proof (cases "j = i")
    case True
    then show ?thesis using E i by simp
  next
    case False
    have "thread_ok (native w') (?ts ! j)"
    proof (rule thread_ok_frame)
      show "thread_ok (native ?w) (?ts ! j)" using inv j by (simp add: locks_ok_def)
      show "native w' a = native ?w a" if "AdMu a \<in> held (?ts ! j)" for a using E others [OF _ j False] that by blast
    qed
    then show ?thesis using False by simp
  qed
  ultimately show ?thesis by (simp add: locks_ok_def s')
qed

lemma start_held: "held (start_thread call) = {}"
  by (simp add: held_def start_thread_def split: ad_call.splits)

lemma locks_ok_start: "owner w = (\<lambda>_. None) \<Longrightarrow> locks_ok (ad_start w calls)"
  by (auto simp: locks_ok_def ad_start_def start_held)
    (auto simp: start_thread_def thread_ok_def pc_ok_def relied_def split: ad_call.splits)

lemma ad_exec_rule:
  assumes "ad_exec fault is s = Some s'" "P s" "\<And>i s s'. P s \<Longrightarrow> ad_step fault i s = Some s' \<Longrightarrow> P s'"
  shows "P s'"
  using assms(1,2) unfolding ad_exec_def
  by (induction "is" arbitrary: s) (auto simp: bind_eq_Some_conv dest: assms(3))

lemma locks_ok_exec: "owner w = (\<lambda>_. None) \<Longrightarrow> ad_exec fault is (ad_start w calls) = Some s \<Longrightarrow> locks_ok s"
  by (erule ad_exec_rule) (auto intro: locks_ok_start locks_ok_step)

subsection \<open>Nobody waits for ever\<close>

definition wanted :: "ad_thread \<Rightarrow> lockid option" where
  "wanted t =
     (case th_call t of
        CSet c l \<Rightarrow>
          (case th_pc t of
             Locking k \<Rightarrow>
               if k < length l \<and> \<not> repeated (sorted_entries l) k then Some (AdMu (ae_w (sorted_entries l ! k))) else None
           | WantCtx \<Rightarrow> Some (CtxMu c)
           | _ \<Rightarrow> None)
      | call \<Rightarrow> (case th_pc t of Want \<Rightarrow> Some (call_lock call) | _ \<Rightarrow> None))"

lemma stuck_wants:
  assumes "pc_ok t" "thread_step fault i t w = None" "\<And>r. th_pc t \<noteq> Done r"
  shows "\<exists>l. wanted t = Some l \<and> owner w l \<noteq> None"
  using assms
  by (auto simp: thread_step_def set_step_def Let_def wanted_def pc_ok_def acquire_def
      split: ad_call.splits ad_pc.splits if_splits prod.splits)

lemma wanted_above:
  assumes "pc_ok t" "wanted t = Some l" "m \<in> held t"
  shows "m < l"
  using assms new_lock_above [OF sorted_entries_props(2)]
  by (auto simp: wanted_def held_def Let_def locks_upto_def split: ad_call.splits ad_pc.splits if_splits)

lemma done_holds_nothing: "th_pc t = Done r \<Longrightarrow> held t = {}"
  by (simp add: held_def split: ad_call.splits)

text \<open>
  The contract that rules out a cycle of waiting threads: each wants a lock above all it holds.
\<close>

locale ordered_locks =
  fixes holds :: "'t \<Rightarrow> 'l::linorder set" and wants :: "'t \<Rightarrow> 'l option" and well :: "'t \<Rightarrow> bool"
  assumes above: "well t \<Longrightarrow> wants t = Some l \<Longrightarrow> m \<in> holds t \<Longrightarrow> m < l"
begin

lemma no_cycle:
  assumes "finite W" "W \<noteq> {}"
    and wait: "\<And>t. t \<in> W \<Longrightarrow> well t \<and> (\<exists>l. wants t = Some l \<and> (\<exists>u \<in> W. l \<in> holds u))"
  shows False
proof -
  let ?L = "(\<lambda>t. the (wants t)) ` W"
  have fin: "finite ?L" "?L \<noteq> {}" using assms(1,2) by simp_all
  then obtain t where t: "t \<in> W" "Max ?L = the (wants t)" using Max_in by blast
  from wait [OF t(1)] obtain u where u: "u \<in> W" "Max ?L \<in> holds u" using t(2) by auto
  from wait [OF u(1)] obtain l where l: "well u" "wants u = Some l" by blast
  then have "l \<in> ?L" using u(1) by force
  then have "l \<le> Max ?L" using fin by simp
  then show False using above [OF l u(2)] by simp
qed

end

interpretation ad: ordered_locks held wanted pc_ok
  by unfold_locales (rule wanted_above)

lemma no_deadlock:
  assumes inv: "locks_ok s" and stuck: "\<And>i. ad_step fault i s = None" and i: "i < length (sy_threads s)"
  shows "\<exists>r. th_pc (sy_threads s ! i) = Done r"
proof (rule ccontr)
  let ?ts = "sy_threads s" and ?w = "sy_world s"
  let ?W = "{t \<in> set ?ts. \<forall>r. th_pc t \<noteq> Done r}"
  assume "\<not> ?thesis"
  then have "?W \<noteq> {}" using i by force
  moreover have "pc_ok t \<and> (\<exists>l. wanted t = Some l \<and> (\<exists>u \<in> ?W. l \<in> held u))" if "t \<in> ?W" for t
  proof -
    obtain j where j: "j < length ?ts" "t = ?ts ! j" using \<open>t \<in> ?W\<close> by (auto simp: in_set_conv_nth)
    have pc: "pc_ok t" using inv j by (simp add: locks_ok_def thread_ok_def)
    have "thread_step fault j t ?w = None" using stuck [of j] j by (simp add: ad_step_def)
    from stuck_wants [OF pc this] that obtain l where l: "wanted t = Some l" "owner ?w l \<noteq> None" by blast
    then obtain k where "k < length ?ts" "l \<in> held (?ts ! k)" using inv by (auto simp: locks_ok_def)
    then have "?ts ! k \<in> ?W" "l \<in> held (?ts ! k)" using done_holds_nothing by auto
    then show ?thesis using pc l(1) by blast
  qed
  ultimately show False using ad.no_cycle [of ?W] by simp
qed

subsection \<open>Every call ends\<close>

fun pc_left :: "nat \<Rightarrow> ad_pc \<Rightarrow> nat" where
  "pc_left n (Locking k) = (n - k) + n + 6"
| "pc_left n (Bailing k j) = Suc k - j + 2"
| "pc_left n Build = n + 5"
| "pc_left n WantCtx = n + 4"
| "pc_left n HaveCtx = n + 3"
| "pc_left n (Unlocking j r) = n - j + 2"
| "pc_left n Want = 2"
| "pc_left n Held = 1"
| "pc_left n (Done r) = 0"

definition call_length :: "ad_call \<Rightarrow> nat" where
  "call_length call = (case call of CSet c l \<Rightarrow> length l | _ \<Rightarrow> 0)"

definition steps_left :: "ad_thread \<Rightarrow> nat" where
  "steps_left t = pc_left (call_length (th_call t)) (th_pc t)"

text \<open>No call takes more steps than this.\<close>

definition ad_budget :: "ad_call list \<Rightarrow> nat" where
  "ad_budget calls = (\<Sum>call\<leftarrow>calls. 2 * call_length call + 6)"

lemma step_shorter: "pc_ok t \<Longrightarrow> thread_step fault i t w = Some (t', w') \<Longrightarrow> steps_left t' < steps_left t"
  by (auto simp: thread_step_def set_step_def Let_def steps_left_def call_length_def pc_ok_def
      split: ad_call.splits ad_pc.splits if_splits prod.splits)

lemma sum_list_update_less:
  "i < length ts \<Longrightarrow> f t' < (f (ts ! i) :: nat) \<Longrightarrow> (\<Sum>t\<leftarrow>ts[i := t']. f t) < (\<Sum>t\<leftarrow>ts. f t)"
proof (induction ts arbitrary: i)
  case (Cons t ts)
  then show ?case by (cases i) simp_all
qed simp

lemma exec_shorter:
  "locks_ok s \<Longrightarrow> ad_exec fault is s = Some s' \<Longrightarrow>
     length is + (\<Sum>t\<leftarrow>sy_threads s'. steps_left t) \<le> (\<Sum>t\<leftarrow>sy_threads s. steps_left t)"
proof (induction "is" arbitrary: s)
  case (Cons i "is")
  from Cons.prems(2) obtain s1 where 1: "ad_step fault i s = Some s1" "ad_exec fault is s1 = Some s'"
    by (auto simp: ad_exec_def bind_eq_Some_conv)
  obtain t' w' where 2: "i < length (sy_threads s)" "thread_step fault i (sy_threads s ! i) (sy_world s) = Some (t', w')"
    "s1 = \<lparr>sy_world = w', sy_threads = (sy_threads s)[i := t']\<rparr>" using 1(1) by (rule ad_stepE)
  have "pc_ok (sy_threads s ! i)" using Cons.prems(1) 2(1) by (simp add: locks_ok_def thread_ok_def)
  from sum_list_update_less [OF 2(1), of steps_left, OF step_shorter [OF this 2(2)]]
  have "(\<Sum>t\<leftarrow>sy_threads s1. steps_left t) < (\<Sum>t\<leftarrow>sy_threads s. steps_left t)" using 2(3) by simp
  then show ?case using Cons.IH [OF locks_ok_step [OF Cons.prems(1) 1(1)] 1(2)] by simp
qed (simp add: ad_exec_def)

lemma start_budget: "(\<Sum>t\<leftarrow>sy_threads (ad_start w calls). steps_left t) \<le> ad_budget calls"
  unfolding ad_start_def ad_budget_def
  by (induction calls) (auto simp: steps_left_def start_thread_def call_length_def split: ad_call.splits)

end
