(* ===== verification/Adapter_Props.thy ===== *)
theory Adapter_Props
  imports Adapter_Locks
begin

text \<open>
  What the adapter calls guarantee when they run at the same time, and what they do not: an adapter that is
  freed stays in the table of every context it was applied to.
\<close>

subsection \<open>Natives\<close>

text \<open>Loaded adapters wrap different native adapters, none of them freed; tables have no key twice.\<close>

definition world_ok :: "ad_world \<Rightarrow> bool" where
  "world_ok w \<longleftrightarrow>
     (\<forall>a x. native w a = Some x \<longrightarrow> x \<notin> set (freed w)) \<and>
     (\<forall>a b x. native w a = Some x \<longrightarrow> native w b = Some x \<longrightarrow> a = b) \<and>
     (\<forall>c. distinct (map fst (loras w c)))"

definition fresh_world :: "ad_world \<Rightarrow> bool" where
  "fresh_world w \<longleftrightarrow> owner w = (\<lambda>_. None) \<and> world_ok w"

lemma table_insert_map: "map_of (fold table_insert xs tab) = map_of (tab @ xs)"
proof (induction xs arbitrary: tab)
  case (Cons x xs)
  have "map_of (table_insert x tab @ xs) = map_of (tab @ x # xs)"
  proof
    fix p show "map_of (table_insert x tab @ xs) p = map_of (tab @ x # xs) p"
      by (cases "map_of tab p") (auto simp: table_insert_def map_add_def split: option.splits)
  qed
  then show ?case using Cons.IH by simp
qed simp

lemma table_insert_distinct: "distinct (map fst tab) \<Longrightarrow> distinct (map fst (fold table_insert xs tab))"
proof (induction xs arbitrary: tab)
  case (Cons x xs)
  then have "distinct (map fst (table_insert x tab))"
    by (auto simp: table_insert_def map_of_eq_None_iff)
  then show ?case using Cons.IH by simp
qed simp

lemma set_adapters_distinct: "distinct (map fst tab) \<Longrightarrow> distinct (map fst (snd (set_adapters_lora f arr tab)))"
  by (auto simp: set_adapters_lora_def table_insert_distinct split: option.splits nat.splits)

text \<open>With no adapter twice, comparing counts and scales is enough.\<close>

lemma set_adapters_exact:
  assumes "distinct (map fst arr)" "distinct (map fst tab)"
  shows "fst (set_adapters_lora None arr tab) = 0 \<and> map_of (snd (set_adapters_lora None arr tab)) = map_of (nonzero arr)"
proof (cases "adapters_lora_are_same arr tab")
  case True
  have d: "distinct (map fst (nonzero arr))" using assms(1) by (simp add: nonzero_def distinct_map_filter)
  have "set (nonzero arr) \<subseteq> set tab"
  proof
    fix x assume "x \<in> set (nonzero arr)"
    then have "map_of tab (fst x) = Some (snd x)" using True by (simp add: adapters_lora_are_same_def)
    then show "x \<in> set tab" using map_of_SomeD by fastforce
  qed
  moreover have "card (set (nonzero arr)) = card (set tab)"
    using True d assms(2) by (simp add: adapters_lora_are_same_def distinct_card distinct_map)
  ultimately have "set (nonzero arr) = set tab" by (simp add: card_subset_eq)
  then have "map_of (nonzero arr) = map_of tab" using d assms(2) by (simp add: map_of_inject_set)
  then show ?thesis using True by (simp add: set_adapters_lora_def)
next
  case False
  then show ?thesis by (simp add: set_adapters_lora_def table_insert_map)
qed

definition same_natives :: "ad_world \<Rightarrow> ad_world \<Rightarrow> bool" where
  "same_natives w w' \<longleftrightarrow> native w' = native w \<and> freed w' = freed w"

lemma step_natives:
  assumes "thread_step fault i t w = Some (t', w')"
  shows "same_natives w w' \<or> (\<exists>a x. native w a = Some x \<and> native w' = (native w)(a := None) \<and> freed w' = x # freed w)"
proof (cases "th_call t")
  case (CSet c l)
  then have "set_step (fault i) i c l t w = Some (t', w')" using assms by (simp add: thread_step_def)
  then have "same_natives w w'"
    by (auto simp: set_step_def Let_def same_natives_def acquire_Some split: ad_pc.splits if_splits prod.splits)
  then show ?thesis by blast
next
  case (CFree a)
  then show ?thesis using assms
    by (auto simp: thread_step_def same_natives_def acquire_Some Let_def split: ad_pc.splits option.splits prod.splits)
qed (use assms in \<open>auto simp: thread_step_def same_natives_def acquire_Some Let_def split: ad_pc.splits if_splits prod.splits\<close>)

lemma step_loras:
  assumes "thread_step fault i t w = Some (t', w')" "\<forall>c. distinct (map fst (loras w c))"
  shows "\<forall>c. distinct (map fst (loras w' c))"
proof (cases "th_call t")
  case (CSet c l)
  then have "set_step (fault i) i c l t w = Some (t', w')" using assms(1) by (simp add: thread_step_def)
  then have "loras w' = loras w \<or>
      (\<exists>rc tab. set_adapters_lora (fault i) (th_arr t) (loras w c) = (rc, tab) \<and> loras w' = (loras w)(c := tab))"
    by (auto simp: set_step_def Let_def acquire_Some split: ad_pc.splits if_splits prod.splits)
  then show ?thesis using assms(2) set_adapters_distinct [of "loras w c" "fault i" "th_arr t"] by auto
next
  case (CFree a)
  then show ?thesis using assms
    by (auto simp: thread_step_def acquire_Some Let_def split: ad_pc.splits option.splits prod.splits)
qed (use assms in \<open>auto simp: thread_step_def acquire_Some Let_def split: ad_pc.splits if_splits prod.splits\<close>)

lemma world_ok_step:
  assumes "world_ok (sy_world s)" "ad_step fault i s = Some s'"
  shows "world_ok (sy_world s')"
proof -
  obtain t' w' where run: "thread_step fault i (sy_threads s ! i) (sy_world s) = Some (t', w')" and w: "sy_world s' = w'"
    using assms(2) by (auto elim: ad_stepE)
  have "\<forall>c. distinct (map fst (loras w' c))" using step_loras [OF run] assms(1) by (simp add: world_ok_def)
  then show ?thesis using step_natives [OF run] assms(1) unfolding w world_ok_def same_natives_def
    by (elim disjE exE conjE) (auto split: if_splits)
qed

lemma exec_ok:
  assumes "fresh_world w" "ad_exec fault is (ad_start w calls) = Some s"
  shows "locks_ok s" "world_ok (sy_world s)"
proof -
  show "locks_ok s" by (rule locks_ok_exec [OF _ assms(2)]) (use assms(1) in \<open>simp add: fresh_world_def\<close>)
  show "world_ok (sy_world s)"
    by (rule ad_exec_rule [OF assms(2), where P = "\<lambda>s. world_ok (sy_world s)"])
      (use assms(1) world_ok_step in \<open>auto simp: fresh_world_def ad_start_def\<close>)
qed

subsection \<open>Guarantees\<close>

text \<open>Two adapters, 0 and 1, wrapped as natives 10 and 11, and one context.\<close>

definition demo_world :: ad_world where
  "demo_world = \<lparr>owner = (\<lambda>_. None), native = [0 \<mapsto> 10, 1 \<mapsto> 11], freed = [], ctx_live = (\<lambda>c. c = 0), loras = (\<lambda>_. []), bad_use = False\<rparr>"

lemma demo_world_fresh: "fresh_world demo_world"
  by (simp add: fresh_world_def demo_world_def world_ok_def)

text \<open>
  C16: However the adapter calls, decodes and context releases of any number of threads interleave, with
  the same adapters listed in any order and more than once, none waits for ever: a run has at
  most \<open>ad_budget\<close> steps, and when no thread can step every call has returned.
\<close>

theorem adapter_calls_finish:
  assumes "fresh_world w" and "ad_exec fault is (ad_start w calls) = Some s"
  shows "length is \<le> ad_budget calls \<and>
     ((\<forall>i. ad_step fault i s = None) \<longrightarrow> (\<forall>t \<in> set (sy_threads s). \<exists>r. th_pc t = Done r))"
proof (intro conjI impI ballI)
  have start: "locks_ok (ad_start w calls)" using assms(1) by (simp add: locks_ok_start fresh_world_def)
  show "length is \<le> ad_budget calls" using exec_shorter [OF start assms(2)] start_budget [of w calls] by linarith
  fix t assume stuck: "\<forall>i. ad_step fault i s = None" and "t \<in> set (sy_threads s)"
  then obtain i where "i < length (sy_threads s)" "t = sy_threads s ! i" by (auto simp: in_set_conv_nth)
  then show "\<exists>r. th_pc t = Done r" using no_deadlock [OF exec_ok(1) [OF assms]] stuck by blast
qed



theorem adapter_calls_finish_witness:
  "\<exists>s. ad_exec (\<lambda>_. None) [0, 0, 0, 0] (ad_start demo_world [CSet 0 [(0, 1), (1, 1)], CSet 0 [(1, 2), (0, 1)]]) = Some s \<and>
     length [0::nat, 0, 0, 0] \<le> ad_budget [CSet 0 [(0, 1), (1, 1)], CSet 0 [(1, 2), (0, 1)]] \<and>
     ((\<forall>i. ad_step (\<lambda>_. None) i s = None) \<longrightarrow> (\<forall>t \<in> set (sy_threads s). \<exists>r. th_pc t = Done r))"
proof -
  let ?s = "ad_exec (\<lambda>_. None) [0, 0, 0, 0] (ad_start demo_world [CSet 0 [(0, 1), (1, 1)], CSet 0 [(1, 2), (0, 1)]])"
  have "map_option (\<lambda>s. map th_pc (sy_threads s)) ?s = Some [WantCtx, Locking 0]" by code_simp
  then obtain s where s: "?s = Some s" by auto
  from adapter_calls_finish [OF demo_world_fresh s] s show ?thesis by blast
qed

text \<open>
  C17: When \<open>nif_set_adapters\<close> makes the native call, the array it passes holds the native adapter of each
  wrapper of its list, in the order of the list, and none of them has been freed: no other thread
  can release one between the check and the use.
\<close>

theorem adapters_alive_in_call:
  assumes "fresh_world w" and "ad_exec fault is (ad_start w calls) = Some s" and "t \<in> set (sy_threads s)"
    and "th_call t = CSet c l" and "th_pc t = HaveCtx"
  shows "map Some (map fst (th_arr t)) = map (\<lambda>x. native (sy_world s) (fst x)) l \<and> map snd (th_arr t) = map snd l \<and>
     (\<forall>x \<in> set (th_arr t). fst x \<notin> set (freed (sy_world s)))"
proof -
  note ok = exec_ok [OF assms(1,2)]
  obtain i where i: "i < length (sy_threads s)" "t = sy_threads s ! i" using assms(3) by (auto simp: in_set_conv_nth)
  then have t: "thread_ok (native (sy_world s)) t" using ok(1) by (simp add: locks_ok_def)
  then have arr: "th_arr t = natives_of (native (sy_world s)) l" using assms(4,5) by (simp add: thread_ok_def)
  have "relied t = fst ` set l" using assms(4,5) by (simp add: relied_def entries_wrappers)
  then have some: "native (sy_world s) (fst x) \<noteq> None" if "x \<in> set l" for x using t that by (auto simp: thread_ok_def)
  then have "map Some (map fst (th_arr t)) = map (\<lambda>x. native (sy_world s) (fst x)) l" by (auto simp: arr natives_of_def)
  moreover have "fst y \<notin> set (freed (sy_world s))" if "y \<in> set (th_arr t)" for y
  proof -
    from that [unfolded arr natives_of_def] obtain x where x: "x \<in> set l" "fst y = the (native (sy_world s) (fst x))"
      unfolding set_map by (elim imageE) simp
    then show ?thesis using ok(2) some [OF x(1)] by (auto simp: world_ok_def)
  qed
  ultimately show ?thesis by (simp add: arr natives_of_def comp_def)
qed

theorem adapters_alive_in_call_witness:
  "\<exists>s t. ad_exec (\<lambda>_. None) [0, 0, 0, 0, 0] (ad_start demo_world [CSet 0 [(1, 2), (0, 1)], CFree 1]) = Some s \<and>
     t \<in> set (sy_threads s) \<and> th_pc t = HaveCtx \<and> map Some (map fst (th_arr t)) = [native (sy_world s) 1, native (sy_world s) 0]"
proof -
  let ?s = "ad_exec (\<lambda>_. None) [0, 0, 0, 0, 0] (ad_start demo_world [CSet 0 [(1, 2), (0, 1)], CFree 1])"
  have "map_option (\<lambda>s. map (\<lambda>t. (th_call t, th_pc t)) (sy_threads s)) ?s = Some [(CSet 0 [(1, 2), (0, 1)], HaveCtx), (CFree 1, Want)]"
    by code_simp
  then obtain s t u where s: "?s = Some s" and t: "sy_threads s = [t, u]" "th_call t = CSet 0 [(1, 2), (0, 1)]" "th_pc t = HaveCtx"
    by (auto simp: map_eq_Cons_conv)
  from adapters_alive_in_call [OF demo_world_fresh s _ t(2,3)] t(1)
  have "map Some (map fst (th_arr t)) = [native (sy_world s) 1, native (sy_world s) 0]" by simp
  then show ?thesis using s t by auto
qed

text \<open>
  C18: A \<open>set_adapters\<close> call on a live context that lists no adapter twice and whose native call does not
  throw answers ok and leaves the context with exactly the adapters of its list that have a
  non-zero scale, each with its scale, whatever was applied before.
\<close>

theorem set_adapters_installs:
  assumes "fresh_world w" and "ad_exec fault is (ad_start w calls) = Some s"
    and "ad_step fault i s = Some s'" and "i < length (sy_threads s)"
    and "th_call (sy_threads s ! i) = CSet c l" and "th_pc (sy_threads s ! i) = HaveCtx"
    and "distinct (map fst l)" and "ctx_live (sy_world s) c" and "fault i = None"
  shows "th_pc (sy_threads s' ! i) = Unlocking 0 (Term atom_ok) \<and>
     map_of (loras (sy_world s') c) =
       map_of (map (\<lambda>x. (the (native (sy_world s) (fst x)), snd x)) (filter (\<lambda>x. snd x \<noteq> 0) l))"
proof -
  let ?t = "sy_threads s ! i" and ?w = "sy_world s"
  note ok = exec_ok [OF assms(1,2)]
  have t: "thread_ok (native ?w) ?t" using ok(1) assms(4) by (simp add: locks_ok_def)
  then have arr: "th_arr ?t = natives_of (native ?w) l" using assms(5,6) by (simp add: thread_ok_def)
  have "relied ?t = fst ` set l" using assms(5,6) by (simp add: relied_def entries_wrappers)
  then have some: "native ?w (fst x) \<noteq> None" if "x \<in> set l" for x using t that by (auto simp: thread_ok_def)
  have "inj_on (\<lambda>a. the (native ?w a)) (fst ` set l)"
  proof (rule inj_onI)
    fix a b assume "a \<in> fst ` set l" "b \<in> fst ` set l" "the (native ?w a) = the (native ?w b)"
    then obtain x where "native ?w a = Some x" "native ?w b = Some x" using some by fastforce
    then show "a = b" using ok(2) by (auto simp: world_ok_def)
  qed
  then have "distinct (map (\<lambda>a. the (native ?w a)) (map fst l))"
    unfolding distinct_map [of _ "map fst l"] using assms(7) by simp
  then have d: "distinct (map fst (th_arr ?t))" by (simp add: arr natives_of_def comp_def)
  have "distinct (map fst (loras ?w c))" using ok(2) by (simp add: world_ok_def)
  from set_adapters_exact [OF d this] obtain tab where
    tab: "set_adapters_lora None (th_arr ?t) (loras ?w c) = (0, tab)" "map_of tab = map_of (nonzero (th_arr ?t))"
    by (cases "set_adapters_lora None (th_arr ?t) (loras ?w c)") auto
  have "thread_step fault i ?t ?w = Some (goto (Unlocking 0 (Term atom_ok)) ?t, release (CtxMu c) (?w\<lparr>loras := (loras ?w)(c := tab)\<rparr>))"
    using assms(5,6,8,9) tab(1) by (simp add: thread_step_def set_step_def)
  then have "s' = \<lparr>sy_world = release (CtxMu c) (?w\<lparr>loras := (loras ?w)(c := tab)\<rparr>),
      sy_threads = (sy_threads s)[i := goto (Unlocking 0 (Term atom_ok)) ?t]\<rparr>" using assms(3,4) by (simp add: ad_step_def)
  then show ?thesis using tab(2) assms(4) by (simp add: arr natives_of_def nonzero_def filter_map comp_def)
qed

theorem set_adapters_installs_witness:
  "\<exists>s s'. ad_exec (\<lambda>_. None) [0, 0, 0, 0, 0] (ad_start demo_world [CSet 0 [(1, 2), (0, 0)]]) = Some s \<and>
     ad_step (\<lambda>_. None) 0 s = Some s' \<and> th_pc (sy_threads s' ! 0) = Unlocking 0 (Term atom_ok)"
proof -
  let ?s = "ad_exec (\<lambda>_. None) [0, 0, 0, 0, 0] (ad_start demo_world [CSet 0 [(1, 2), (0, 0)]])"
  have "map_option (\<lambda>s. (map (\<lambda>t. (th_call t, th_pc t)) (sy_threads s), ctx_live (sy_world s) 0, Option.is_none (ad_step (\<lambda>_. None) 0 s))) ?s =
      Some ([(CSet 0 [(1, 2), (0, 0)], HaveCtx)], True, False)"
    by code_simp
  then obtain s t s' where s: "?s = Some s" and t: "sy_threads s = [t]" "th_call t = CSet 0 [(1, 2), (0, 0)]" "th_pc t = HaveCtx"
    and c: "ctx_live (sy_world s) 0" and s': "ad_step (\<lambda>_. None) 0 s = Some s'"
    by (auto simp: map_eq_Cons_conv Option.is_none_def)
  from set_adapters_installs [OF demo_world_fresh s s'] t c s s' show ?thesis by auto
qed

subsection \<open>What is left behind\<close>

text \<open>
  Freeing an adapter does not take it out of the contexts it was applied to: after
  \<open>set_adapters\<close> and \<open>adapter_free\<close>, both answered ok, the table of the context refers to freed
  memory, and the next decode goes through it.
\<close>

theorem adapter_free_leaves_dangling:
  "map_option (\<lambda>s. (map th_pc (sy_threads s), loras (sy_world s) 0, freed (sy_world s), bad_use (sy_world s)))
     (ad_exec (\<lambda>_. None) [0, 0, 0, 0, 0, 0, 0, 1, 1, 2, 2] (ad_start demo_world [CSet 0 [(0, 1)], CFree 0, CDecode 0])) =
   Some ([Done (Term atom_ok), Done (Term atom_ok), Done (Term atom_ok)], [(10, 1)], [10], True)"
  by code_simp

text \<open>
  Listing an adapter twice can keep another one applied: the comparison counts the list
  but the table has each adapter once.
\<close>

theorem adapters_twice_keeps_other:
  "set_adapters_lora None [(10, 1), (10, 1)] [(10, 1), (11, 1)] = (0, [(10, 1), (11, 1)])"
  by code_simp

end
