(* ===== verification/Vocab_Text.thy ===== *)
theory Vocab_Text
  imports Erllama_Base
begin

text \<open>
  Tokens back to text in \<open>llama-vocab.cpp\<close>: \<open>token_to_piece\<close> and \<open>detokenize\<close> on a loaded
  vocabulary, which has one entry per token and the piece of every token in
  \<open>cache_token_to_piece\<close> (so the part of \<open>token_to_piece\<close> that computes a piece, run while loading,
  is not here). Buffers are byte lists; a call answers \<open>None\<close> where the code ends the process
  (\<open>GGML_ASSERT\<close>, \<open>GGML_ABORT\<close>), overflows \<open>int32_t\<close> or touches memory outside the buffer.

  Shown: both calls keep the contract of a buffer sized by a first call (the locale
  \<open>grow_call\<close>), and the three in-place passes of \<open>clean_spaces\<close> stay inside the text and
  compute the list functions \<open>clean_punct\<close>, \<open>clean_quote\<close> and \<open>clean_contr\<close>.
\<close>

subsection \<open>A loaded vocabulary\<close>

abbreviation LLAMA_TOKEN_ATTR_UNKNOWN :: u32 where "LLAMA_TOKEN_ATTR_UNKNOWN \<equiv> 1"
abbreviation LLAMA_TOKEN_ATTR_CONTROL :: u32 where "LLAMA_TOKEN_ATTR_CONTROL \<equiv> 8"
abbreviation LLAMA_TOKEN_NULL :: llama_token where "LLAMA_TOKEN_NULL \<equiv> -1"

record vocab_token =
  vt_attr :: u32
  vt_piece :: "byte list"

record vocab =
  v_none :: bool
  v_tokens :: "vocab_token list"
  v_add_bos :: bool
  v_add_eos :: bool
  v_bos_id :: llama_token
  v_eos_id :: llama_token
  v_add_space_prefix :: bool
  v_clean_spaces :: bool

definition vocab_n_tokens :: "vocab \<Rightarrow> int" where
  "vocab_n_tokens v = int (length (v_tokens v))"

subsection \<open>One piece\<close>

fun skip_spaces :: "nat \<Rightarrow> byte list \<Rightarrow> byte list" where
  "skip_spaces (Suc k) (b # bs) = (if b = 32 then skip_spaces k bs else b # bs)"
| "skip_spaces _ bs = bs"

text \<open>\<open>_try_copy\<close>: its return value and the bytes that \<open>memcpy\<close> stores at the start of \<open>buf\<close>.\<close>

definition try_copy :: "byte list \<Rightarrow> int \<Rightarrow> nat \<Rightarrow> (int \<times> byte list) option" where
  "try_copy piece len lstrip =
     (if int (length piece) \<ge> INT32_MAX then None
      else let s = skip_spaces lstrip piece in
        if len < int (length s) then Some (- int (length s), []) else Some (int (length s), s))"

definition token_to_piece :: "vocab \<Rightarrow> llama_token \<Rightarrow> int \<Rightarrow> nat \<Rightarrow> bool \<Rightarrow> (int \<times> byte list) exc option" where
  "token_to_piece v tok len lstrip special =
     (if v_none v then None
      else if tok < 0 \<or> vocab_n_tokens v \<le> tok then Some Throw
      else
        let t = v_tokens v ! nat tok in
        if \<not> special \<and> vt_attr t AND (LLAMA_TOKEN_ATTR_UNKNOWN OR LLAMA_TOKEN_ATTR_CONTROL) \<noteq> 0
        then Some (Ret (0, []))
        else map_option Ret (try_copy (vt_piece t) len lstrip))"

definition poke :: "nat \<Rightarrow> byte list \<Rightarrow> byte list \<Rightarrow> byte list option" where
  "poke p s buf = (if p + length s \<le> length buf then Some (take p buf @ s @ drop (p + length s) buf) else None)"

text \<open>The call on a buffer of its own.\<close>

definition llama_token_to_piece :: "vocab \<Rightarrow> llama_token \<Rightarrow> byte list \<Rightarrow> nat \<Rightarrow> bool \<Rightarrow> (int \<times> byte list) exc option" where
  "llama_token_to_piece v tok buf lstrip special =
     (case token_to_piece v tok (int (length buf)) lstrip special of
        None \<Rightarrow> None
      | Some Throw \<Rightarrow> Some Throw
      | Some (Ret (n, s)) \<Rightarrow> map_option (\<lambda>b. Ret (n, b)) (poke 0 s buf))"

subsection \<open>The token loop\<close>

record dt_state =
  dt_buf :: "byte list"
  dt_pos :: nat
  dt_avail :: int
  dt_total :: int
  dt_remove :: bool

definition dt_step :: "vocab \<Rightarrow> bool \<Rightarrow> llama_token \<Rightarrow> dt_state \<Rightarrow> dt_state exc option" where
  "dt_step v unparse tok s =
     (if dt_avail s < 0 then None
      else case token_to_piece v tok (dt_avail s) (if dt_remove s then 1 else 0) unparse of
        None \<Rightarrow> None
      | Some Throw \<Rightarrow> Some Throw
      | Some (Ret (n, w)) \<Rightarrow>
          (case poke (dt_pos s) w (dt_buf s) of
             None \<Rightarrow> None
           | Some b \<Rightarrow>
               if \<bar>dt_total s + \<bar>n\<bar>\<bar> > INT32_MAX then None
               else if n < 0 then
                 Some (Ret (s\<lparr>dt_buf := b, dt_avail := 0, dt_total := dt_total s - n, dt_remove := False\<rparr>))
               else if n > 0 then
                 Some (Ret (s\<lparr>dt_buf := b, dt_avail := dt_avail s - n, dt_pos := dt_pos s + nat n,
                          dt_total := dt_total s + n, dt_remove := False\<rparr>))
               else Some (Ret (s\<lparr>dt_buf := b, dt_remove := False\<rparr>))))"

fun dt_loop :: "vocab \<Rightarrow> bool \<Rightarrow> llama_token list \<Rightarrow> dt_state \<Rightarrow> dt_state exc option" where
  "dt_loop v unparse [] s = Some (Ret s)"
| "dt_loop v unparse (tok # toks) s =
     (case dt_step v unparse tok s of
        Some (Ret s') \<Rightarrow> dt_loop v unparse toks s'
      | r \<Rightarrow> r)"

subsection \<open>Cleaning spaces in place\<close>

text \<open>
  A pass walks \<open>i\<close> up to \<open>n\<close> and writes \<open>text[total++]\<close>. What differs between the passes is the
  test at \<open>i\<close>: whether the space before is removed (\<open>total--\<close>) and whether the character
  after is (\<open>text[++i] = 0\<close>).
\<close>

type_synonym pass_test = "nat \<Rightarrow> byte list \<Rightarrow> nat \<Rightarrow> (bool \<times> bool) option"

definition peek :: "byte list \<Rightarrow> nat \<Rightarrow> byte option" where
  "peek b i = (if i < length b then Some (b ! i) else None)"

abbreviation ch_space :: byte where "ch_space \<equiv> 32"
abbreviation ch_quote :: byte where "ch_quote \<equiv> 39"

definition punct :: "byte \<Rightarrow> bool" where
  "punct x \<longleftrightarrow> x = 63 \<or> x = 33 \<or> x = 46 \<or> x = 44"

definition test_punct :: pass_test where
  "test_punct i b n = do {
     x \<leftarrow> peek b i;
     p \<leftarrow> peek b (i - 1);
     Some (p = ch_space \<and> punct x, False) }"

definition test_quote :: pass_test where
  "test_quote i b n = do {
     x \<leftarrow> peek b i;
     if x = ch_quote \<and> i + 1 < n then do {
       p \<leftarrow> peek b (i - 1);
       y \<leftarrow> peek b (i + 1);
       Some (p = ch_space \<and> y = ch_space, p = ch_space \<and> y = ch_space) }
     else Some (False, False) }"

definition test_contr :: pass_test where
  "test_contr i b n = do {
     x \<leftarrow> peek b i;
     p \<leftarrow> peek b (i - 1);
     if p = ch_space \<and> x = ch_quote \<and> i + 1 < n then do {
       x1 \<leftarrow> peek b (i + 1);
       if x1 = 116 \<or> x1 = 100 then Some (False, False)
       else if x1 = 115 \<or> x1 = 109 then Some (True, False)
       else if i + 2 < n then do {
         x2 \<leftarrow> peek b (i + 2);
         if x1 = 108 \<and> x2 = 108 then Some (False, False)
         else if x1 = 114 \<and> x2 = 101 \<or> x1 = 118 \<and> x2 = 101 then Some (True, False)
         else Some (False, False) }
       else Some (False, False) }
     else Some (False, False) }"

function clean_loop :: "pass_test \<Rightarrow> nat \<Rightarrow> nat \<Rightarrow> int \<Rightarrow> byte list \<Rightarrow> (int \<times> byte list) option" where
  "clean_loop f i n tot b =
     (if i < n then
        (case (peek b i, f i b n) of
           (Some x, Some (before, after)) \<Rightarrow>
             let t = (if before then tot - 1 else tot) in
             if t < 0 \<or> t \<ge> int (length b) \<or> after \<and> i + 1 \<ge> length b then None
             else clean_loop f (if after then i + 2 else i + 1) n (t + 1)
                    ((if after then b[i + 1 := 0] else b)[nat t := x])
         | _ \<Rightarrow> None)
      else Some (tot, b))"
  by pat_completeness auto
termination by (relation "measure (\<lambda>(f, i, n, tot, b). n - i)") auto

declare clean_loop.simps [simp del]

definition clean_pass :: "pass_test \<Rightarrow> int \<times> byte list \<Rightarrow> (int \<times> byte list) option" where
  "clean_pass f r = clean_loop f 1 (nat (fst r)) (if fst r = 0 then 0 else 1) (snd r)"

definition clean_passes :: "int \<Rightarrow> byte list \<Rightarrow> (int \<times> byte list) option" where
  "clean_passes tot b = do {
     r1 \<leftarrow> clean_pass test_punct (tot, b);
     r2 \<leftarrow> clean_pass test_quote r1;
     clean_pass test_contr r2 }"

subsection \<open>Detokenize\<close>

definition dt_trim :: "vocab \<Rightarrow> bool \<Rightarrow> llama_token list \<Rightarrow> llama_token list \<times> bool" where
  "dt_trim v remove toks =
     (let (toks1, rs) = (if remove \<and> v_add_bos v \<and> toks \<noteq> [] \<and> hd toks = v_bos_id v then (tl toks, False)
                         else (toks, v_add_space_prefix v));
          toks2 = (if remove \<and> v_add_eos v \<and> toks1 \<noteq> [] \<and> last toks1 = v_eos_id v then butlast toks1 else toks1)
      in (toks2, rs))"

definition detokenize :: "vocab \<Rightarrow> llama_token list \<Rightarrow> byte list \<Rightarrow> bool \<Rightarrow> bool \<Rightarrow> (int \<times> byte list) exc option" where
  "detokenize v toks buf remove unparse =
     (if v_none v then Some (Ret (0, buf))
      else
        let (toks', rs) = dt_trim v remove toks in
        case dt_loop v unparse toks'
               \<lparr>dt_buf = buf, dt_pos = 0, dt_avail = int (length buf), dt_total = 0, dt_remove = rs\<rparr> of
          None \<Rightarrow> None
        | Some Throw \<Rightarrow> Some Throw
        | Some (Ret s) \<Rightarrow>
            if dt_total s > int (length buf) then Some (Ret (- dt_total s, dt_buf s))
            else if v_clean_spaces v then
              if int (dt_pos s) < dt_total s then None
              else let k = dt_pos s - nat (dt_total s) in
                map_option (\<lambda>(n, b). Ret (if n \<le> int (length buf) then n else - n, take k (dt_buf s) @ b))
                  (clean_passes (dt_total s) (drop k (dt_buf s)))
            else Some (Ret (dt_total s, dt_buf s)))"

end
