(* ===== verification/Vocab_Clean.thy ===== *)
theory Vocab_Clean
  imports Vocab_Text
begin

text \<open>
  What the passes of \<open>clean_spaces\<close> compute. A pass keeps everything before \<open>i\<close> as it was read
  or as output already written, so it is a scan of the text with the character before
  (\<open>scan\<close>); the scan is in turn a function on lists, one per pass.
\<close>

subsection \<open>The functions\<close>

fun clean_punct :: "byte list \<Rightarrow> byte list" where
  "clean_punct (a # b # r) = (if a = ch_space \<and> punct b then clean_punct (b # r) else a # clean_punct (b # r))"
| "clean_punct r = r"

fun clean_quote :: "byte list \<Rightarrow> byte list" where
  "clean_quote (a # b # c # r) =
     (if a = ch_space \<and> b = ch_quote \<and> c = ch_space then b # clean_quote r else a # clean_quote (b # c # r))"
| "clean_quote r = r"

text \<open>A contraction whose space goes: \<open>'s\<close>, \<open>'m\<close>, \<open>'re\<close>, \<open>'ve\<close>.\<close>

definition contraction :: "byte list \<Rightarrow> bool" where
  "contraction r = (case r of
       q # x # r' \<Rightarrow> q = ch_quote \<and> (x = 115 \<or> x = 109 \<or> (x = 114 \<or> x = 118) \<and> r' \<noteq> [] \<and> hd r' = 101)
     | _ \<Rightarrow> False)"

fun clean_contr :: "byte list \<Rightarrow> byte list" where
  "clean_contr (a # r) = (if a = ch_space \<and> contraction r then clean_contr r else a # clean_contr r)"
| "clean_contr [] = []"

definition cleaned :: "byte list \<Rightarrow> byte list" where
  "cleaned bs = clean_contr (clean_quote (clean_punct bs))"

lemma length_clean_punct: "length (clean_punct bs) \<le> length bs"
  by (induction bs rule: clean_punct.induct) auto

lemma length_clean_quote: "length (clean_quote bs) \<le> length bs"
  by (induction bs rule: clean_quote.induct) auto

lemma length_clean_contr: "length (clean_contr bs) \<le> length bs"
  by (induction bs rule: clean_contr.induct) auto

lemma length_cleaned: "length (cleaned bs) \<le> length bs"
  unfolding cleaned_def using length_clean_punct length_clean_quote length_clean_contr le_trans by metis

subsection \<open>A pass is a scan\<close>

function scan :: "(byte \<Rightarrow> byte list \<Rightarrow> bool \<times> bool) \<Rightarrow> byte list \<Rightarrow> byte \<Rightarrow> byte list \<Rightarrow> byte list" where
  "scan g acc p [] = acc"
| "scan g acc p (x # r) =
     (let a = (if fst (g p (x # r)) then butlast acc else acc) in
      if snd (g p (x # r)) then scan g (a @ [x]) 0 (tl r) else scan g (a @ [x]) x r)"
  by pat_completeness auto
termination by (relation "measure (\<lambda>(g, acc, p, r). length r)") auto

definition pass_for :: "pass_test \<Rightarrow> (byte \<Rightarrow> byte list \<Rightarrow> bool \<times> bool) \<Rightarrow> bool" where
  "pass_for f g \<longleftrightarrow>
     (\<forall>i b n. 0 < i \<longrightarrow> i < n \<longrightarrow> n \<le> length b \<longrightarrow> f i b n = Some (g (b ! (i - 1)) (drop i (take n b)))) \<and>
     (\<forall>p x r. snd (g p (x # r)) \<longrightarrow> r \<noteq> [])"

lemma drop_take_cases:
  assumes "i < n" "n \<le> length b"
  shows "drop i (take n b) = b ! i # drop (Suc i) (take n b)"
  using Cons_nth_drop_Suc [of i "take n b"] assms by simp

lemma scan_plain: "g p (x # r) = (False, False) \<Longrightarrow> scan g acc p (x # r) = scan g (acc @ [x]) x r"
  by simp

lemma take_written:
  assumes "t \<le> i" "i < length b" "0 < t" "t1 = (if d then t - 1 else t)"
  shows "take (Suc t1) (b[t1 := x]) = (if d then butlast (take t b) else take t b) @ [x]"
proof (cases d)
  case True
  with assms obtain u where "t = Suc u" "t1 = u" "u < length b" by (cases t) auto
  with True show ?thesis by (simp add: take_Suc_conv_app_nth butlast_append)
qed (use assms in \<open>simp add: take_Suc_conv_app_nth\<close>)

lemma clean_loop_scan:
  assumes fg: "pass_for f g"
    and "0 < i" "i \<le> n" "n \<le> length b" "0 < t" "t \<le> i"
    and R: "R = scan g (take t b) (b ! (i - 1)) (drop i (take n b))"
  shows "\<exists>b'. clean_loop f i n (int t) b = Some (int (length R), b') \<and> length b' = length b \<and>
           take (length R) b' = R \<and> length R \<le> n"
  using assms(2-)
proof (induction "n - i" arbitrary: i b t R rule: less_induct)
  case less
  show ?case
  proof (cases "i < n")
    case False
    with less.prems have "R = take t b" "i = n" by simp_all
    with less.prems False show ?thesis by (subst clean_loop.simps) simp
  next
    case True
    let ?x = "b ! i" and ?r = "drop (Suc i) (take n b)"
    have split: "drop i (take n b) = ?x # ?r"
      by (rule drop_take_cases [OF True less.prems(3)])
    obtain d k where dk: "g (b ! (i - 1)) (?x # ?r) = (d, k)" by fastforce
    have f: "f i b n = Some (d, k)" using fg True less.prems split dk by (simp add: pass_for_def)
    have k: "i + 1 < n" if k
    proof -
      have "\<forall>p x r. snd (g p (x # r)) \<longrightarrow> r \<noteq> []" using fg by (simp add: pass_for_def)
      then have "?r \<noteq> []" using dk that by (metis snd_conv)
      then show ?thesis by simp
    qed
    define t1 where "t1 = (if d then t - 1 else t)"
    define j where "j = (if k then i + 2 else i + 1)"
    define b1 where "b1 = (if k then b[i + 1 := 0] else b)[t1 := ?x]"
    have t1: "t1 \<le> i" "t1 < length b" "(if d then int t - 1 else int t) = int t1"
      using less.prems True by (auto simp: t1_def)
    have "peek b i = Some ?x" "\<not> (k \<and> length b \<le> i + 1)" "\<not> (int t1 < 0 \<or> int (length b) \<le> int t1)"
      using True less.prems(3) k t1(2) by (auto simp: peek_def)
    then have step: "clean_loop f i n (int t) b = clean_loop f j n (int (Suc t1)) b1"
      using True f t1(3) by (subst clean_loop.simps) (auto simp: Let_def j_def b1_def add.commute)
    have b1: "length b1 = length b" "take (Suc t1) b1 = (if d then butlast (take t b) else take t b) @ [?x]"
      "b1 ! (j - 1) = (if k then 0 else ?x)" "drop j (take n b1) = (if k then tl ?r else ?r)"
    proof -
      show "length b1 = length b" by (simp add: b1_def)
      show "take (Suc t1) b1 = (if d then butlast (take t b) else take t b) @ [?x]"
        using take_written [OF less.prems(5) _ less.prems(4) t1_def, of b ?x]
          take_written [OF less.prems(5) _ less.prems(4) t1_def, of "b[i + 1 := 0]" ?x] True less.prems(3,5)
        by (simp add: b1_def)
      show "b1 ! (j - 1) = (if k then 0 else ?x)"
        using True less.prems(3) t1(1) k by (cases "t1 = i"; cases k) (simp_all add: b1_def j_def nth_list_update)
      show "drop j (take n b1) = (if k then tl ?r else ?r)"
      proof -
        have "tl ?r = drop (Suc (Suc i)) (take n b)" by (simp add: drop_Suc tl_drop)
        then show ?thesis using t1(1) by (simp add: b1_def j_def drop_update_cancel take_update_swap)
      qed
    qed
    have "R = scan g (take (Suc t1) b1) (b1 ! (j - 1)) (drop j (take n b1))"
      using less.prems(6) dk unfolding b1(2-4) split by (simp add: Let_def)
    moreover have "n - j < n - i" "0 < j" "j \<le> n" "Suc t1 \<le> j" using True t1 k by (auto simp: j_def)
    ultimately show ?thesis
      using less.hyps [of j "b1" "Suc t1" R] less.prems(3) b1(1) step by simp
  qed
qed

text \<open>A pass over the first \<open>n\<close> bytes of a buffer.\<close>

lemma clean_pass_scan:
  assumes "pass_for f g" and "n \<le> length b"
    and scan: "\<And>a p r. scan g (a @ [p]) p r = a @ h (p # r)" and "h [] = []"
  shows "\<exists>b'. clean_pass f (int n, b) = Some (int (length (h (take n b))), b') \<and> length b' = length b \<and>
           take (length (h (take n b))) b' = h (take n b) \<and> length (h (take n b)) \<le> n"
proof (cases "n = 0")
  case True
  then show ?thesis using assms(4) by (simp add: clean_pass_def clean_loop.simps)
next
  case False
  then have b: "take 1 b = [b ! 0]" "take n b = b ! 0 # drop 1 (take n b)"
    using assms(2) by (cases b; cases n; simp)+
  have sc: "scan g [p] p r = h (p # r)" for p r using scan [of "[]" p r] by simp
  have "scan g (take 1 b) (b ! 0) (drop 1 (take n b)) = h (take n b)"
    unfolding b(1) by (rule trans [OF sc], rule arg_cong [of _ _ h], rule b(2) [symmetric])
  with clean_loop_scan [OF assms(1), of 1 n b 1 "h (take n b)"] False assms(2) show ?thesis
    by (simp add: clean_pass_def)
qed

subsection \<open>The three passes\<close>

definition g_punct :: "byte \<Rightarrow> byte list \<Rightarrow> bool \<times> bool" where
  "g_punct p r = (p = ch_space \<and> punct (hd r), False)"

definition g_quote :: "byte \<Rightarrow> byte list \<Rightarrow> bool \<times> bool" where
  "g_quote p r = (let c = (case r of x # y # _ \<Rightarrow> p = ch_space \<and> x = ch_quote \<and> y = ch_space | _ \<Rightarrow> False) in (c, c))"

definition g_contr :: "byte \<Rightarrow> byte list \<Rightarrow> bool \<times> bool" where
  "g_contr p r = (p = ch_space \<and> contraction r, False)"

lemma scan_punct: "scan g_punct (a @ [p]) p r = a @ clean_punct (p # r)"
  by (induction r arbitrary: a p) (auto simp: g_punct_def Let_def simp flip: append_assoc)

lemma scan_contr: "scan g_contr (a @ [p]) p r = a @ clean_contr (p # r)"
  by (induction r arbitrary: a p) (auto simp: g_contr_def contraction_def Let_def simp flip: append_assoc)

lemma scan_quote0: "scan g_quote (a @ [q]) 0 r = scan g_quote (a @ [q]) q r" if "q \<noteq> ch_space"
  using that by (cases r) (auto simp: g_quote_def Let_def split: list.splits)

lemma scan_quote: "scan g_quote (a @ [p]) p r = a @ clean_quote (p # r)"
proof (induction "length r" arbitrary: a p r rule: less_induct)
  case less
  consider "r = []" | x where "r = [x]" | x y s where "r = x # y # s"
    by (cases r rule: list.exhaust; cases "tl r") auto
  then show ?case
  proof cases
    case (3 x y s)
    show ?thesis
    proof (cases "p = ch_space \<and> x = ch_quote \<and> y = ch_space")
      case True
      have "scan g_quote (a @ [x]) 0 s = (a @ [x]) @ clean_quote s"
      proof (cases s)
        case (Cons z u)
        have "scan g_quote (a @ [x]) 0 s = scan g_quote ((a @ [x]) @ [z]) z u"
          by (simp add: Cons g_quote_def Let_def split: list.split)
        also have "\<dots> = (a @ [x]) @ clean_quote (z # u)" by (rule less) (simp add: 3 Cons)
        finally show ?thesis by (simp add: Cons)
      qed simp
      with True 3 show ?thesis by (simp add: g_quote_def Let_def)
    next
      case False
      have "scan g_quote (a @ [p]) p r = scan g_quote ((a @ [p]) @ [x]) x (y # s)"
        unfolding 3 by (rule scan_plain) (use False in \<open>auto simp: g_quote_def Let_def\<close>)
      also have "\<dots> = (a @ [p]) @ clean_quote (x # y # s)" by (rule less) (simp add: 3)
      finally show ?thesis using False by (simp add: 3)
    qed
  qed (simp_all add: g_quote_def Let_def)
qed

lemma pass_punct: "pass_for test_punct g_punct"
  by (auto simp: pass_for_def test_punct_def g_punct_def peek_def hd_drop_conv_nth)

lemma pass_quote: "pass_for test_quote g_quote"
  unfolding pass_for_def
proof (intro conjI allI impI)
  fix i n and b :: "byte list" assume h: "0 < i" "i < n" "n \<le> length b"
  show "test_quote i b n = Some (g_quote (b ! (i - 1)) (drop i (take n b)))"
    using h drop_take_cases [OF h(2,3)] drop_take_cases [of "Suc i" n b]
    by (cases "Suc i < n") (auto simp: test_quote_def g_quote_def peek_def Let_def)
qed (auto simp: g_quote_def Let_def split: list.splits)

lemma pass_contr: "pass_for test_contr g_contr"
  unfolding pass_for_def
proof (intro conjI allI impI)
  fix i n and b :: "byte list" assume h: "0 < i" "i < n" "n \<le> length b"
  note dc = drop_take_cases [OF h(2,3)] drop_take_cases [of "Suc i" n b] drop_take_cases [of "Suc (Suc i)" n b]
  consider "n = Suc i" | "n = Suc (Suc i)" | "Suc (Suc i) < n" using h by linarith
  then show "test_contr i b n = Some (g_contr (b ! (i - 1)) (drop i (take n b)))"
    by cases (use h dc in \<open>auto simp: test_contr_def g_contr_def contraction_def peek_def\<close>)
qed (auto simp: g_contr_def)

lemma clean_passes_cleaned:
  assumes "n \<le> length b"
  shows "\<exists>b'. clean_passes (int n) b = Some (int (length (cleaned (take n b))), b') \<and> length b' = length b \<and>
           take (length (cleaned (take n b))) b' = cleaned (take n b)"
proof -
  obtain b1 where b1: "clean_pass test_punct (int n, b) = Some (int (length (clean_punct (take n b))), b1)"
    "length b1 = length b" "take (length (clean_punct (take n b))) b1 = clean_punct (take n b)"
    "length (clean_punct (take n b)) \<le> n"
    using clean_pass_scan [OF pass_punct assms, of clean_punct] scan_punct by auto
  let ?p = "clean_punct (take n b)"
  obtain b2 where b2: "clean_pass test_quote (int (length ?p), b1) = Some (int (length (clean_quote ?p)), b2)"
    "length b2 = length b1" "take (length (clean_quote ?p)) b2 = clean_quote ?p" "length (clean_quote ?p) \<le> length ?p"
    using clean_pass_scan [OF pass_quote, of "length ?p" b1 clean_quote] scan_quote b1 assms by auto
  let ?q = "clean_quote ?p"
  obtain b3 where "clean_pass test_contr (int (length ?q), b2) = Some (int (length (clean_contr ?q)), b3)"
    "length b3 = length b2" "take (length (clean_contr ?q)) b3 = clean_contr ?q"
    using clean_pass_scan [OF pass_contr, of "length ?q" b2 clean_contr] scan_contr b1 b2 assms by auto
  with b1 b2 show ?thesis by (simp add: clean_passes_def cleaned_def)
qed

end
