(* ===== verification/Vocab_Detok.thy ===== *)
theory Vocab_Detok
  imports Vocab_Clean
begin

text \<open>
  \<open>token_to_piece\<close> and \<open>detokenize\<close> against their contract. Both answer the size they
  need, negated, when the buffer is too small, and their result otherwise; \<open>detokenize\<close> may then
  answer less than it needed, since the spaces are cleaned in the buffer. The locale
  \<open>grow_call\<close> states this and what the callers conclude from it.
\<close>

subsection \<open>The contract\<close>

locale grow_call =
  fixes call :: "'v \<Rightarrow> byte list \<Rightarrow> (int \<times> byte list) exc option"
    and dom :: "'v \<Rightarrow> bool"
    and need :: "'v \<Rightarrow> nat"
    and full :: "'v \<Rightarrow> byte list"
  assumes need_int32: "dom v \<Longrightarrow> int (need v) \<le> INT32_MAX"
    and full_le: "dom v \<Longrightarrow> length (full v) \<le> need v"
    and call_fits: "dom v \<Longrightarrow> need v \<le> length b \<Longrightarrow>
      \<exists>b'. call v b = Some (Ret (int (length (full v)), b')) \<and> length b' = length b \<and>
           take (length (full v)) b' = full v"
    and call_short: "dom v \<Longrightarrow> length b < need v \<Longrightarrow>
      \<exists>b'. call v b = Some (Ret (- int (need v), b')) \<and> length b' = length b"
begin

text \<open>A second call, on a buffer of the size the first one asked for, gives the whole result.\<close>

lemma first_call:
  assumes "dom v"
  shows "\<exists>m b'. call v b = Some (Ret (m, b')) \<and> m \<noteq> INT32_MIN \<and> length b' = length b \<and>
           (if need v \<le> length b then m = int (length (full v)) \<and> take (nat m) b' = full v
            else m = - int (need v) \<and> m < 0)"
  using call_fits [OF assms, of b] call_short [OF assms, of b] need_int32 [OF assms]
  by (cases "need v \<le> length b") force+

lemma second_call:
  assumes "dom v" and "length b = need v"
  shows "\<exists>b'. call v b = Some (Ret (int (length (full v)), b')) \<and> length b' = need v \<and>
           take (length (full v)) b' = full v"
  using call_fits [OF assms(1), of b] assms(2) by auto

end

subsection \<open>One piece\<close>

definition vocab_ok :: "vocab \<Rightarrow> bool" where
  "vocab_ok v \<longleftrightarrow> \<not> v_none v \<and> (\<forall>t \<in> set (v_tokens v). int (length (vt_piece t)) < INT32_MAX)"

definition in_vocab :: "vocab \<Rightarrow> llama_token \<Rightarrow> bool" where
  "in_vocab v tok \<longleftrightarrow> 0 \<le> tok \<and> tok < vocab_n_tokens v"

text \<open>The bytes a token stands for: nothing, for a control or unknown token that is not asked for.\<close>

definition piece :: "vocab \<Rightarrow> bool \<Rightarrow> llama_token \<Rightarrow> byte list" where
  "piece v special tok =
     (let t = v_tokens v ! nat tok in
      if \<not> special \<and> vt_attr t AND (LLAMA_TOKEN_ATTR_UNKNOWN OR LLAMA_TOKEN_ATTR_CONTROL) \<noteq> 0 then []
      else vt_piece t)"

lemma length_skip_spaces: "length (skip_spaces k bs) \<le> length bs"
  by (induction k bs rule: skip_spaces.induct) auto

lemma skip_spaces_0 [simp]: "skip_spaces 0 bs = bs" "skip_spaces k [] = []"
  by (cases k; simp)+

lemma token_to_piece_eq:
  assumes "vocab_ok v" "in_vocab v tok" "0 \<le> len"
  shows "token_to_piece v tok len k special =
     Some (Ret (let s = skip_spaces k (piece v special tok) in
       if len < int (length s) then (- int (length s), []) else (int (length s), s)))"
proof -
  have "v_tokens v ! nat tok \<in> set (v_tokens v)" using assms(2) by (simp add: in_vocab_def vocab_n_tokens_def nat_less_iff)
  then have "int (length (vt_piece (v_tokens v ! nat tok))) < INT32_MAX" using assms(1) by (simp add: vocab_ok_def)
  then show ?thesis using assms
    by (simp add: token_to_piece_def vocab_ok_def in_vocab_def piece_def try_copy_def Let_def)
qed

lemma length_piece: "vocab_ok v \<Longrightarrow> in_vocab v tok \<Longrightarrow> int (length (piece v special tok)) < INT32_MAX"
  by (auto simp: piece_def Let_def vocab_ok_def in_vocab_def vocab_n_tokens_def nat_less_iff)

lemma poke_ok:
  "p + length s \<le> length b \<Longrightarrow>
     \<exists>b'. poke p s b = Some b' \<and> length b' = length b \<and> take (p + length s) b' = take p b @ s"
  by (simp add: poke_def)

interpretation one_piece: grow_call
  "\<lambda>(v, tok, special) b. llama_token_to_piece v tok b 0 special"
  "\<lambda>(v, tok, special). vocab_ok v \<and> in_vocab v tok"
  "\<lambda>(v, tok, special). length (piece v special tok)"
  "\<lambda>(v, tok, special). piece v special tok"
proof unfold_locales
  fix x :: "vocab \<times> llama_token \<times> bool" and b :: "byte list"
  obtain v tok special where x: "x = (v, tok, special)" by (cases x) auto
  assume "case x of (v, tok, special) \<Rightarrow> vocab_ok v \<and> in_vocab v tok"
  then have ok: "vocab_ok v" "in_vocab v tok" by (simp_all add: x)
  show "int (case x of (v, tok, special) \<Rightarrow> length (piece v special tok)) \<le> INT32_MAX"
    using length_piece [OF ok] by (simp add: x less_imp_le)
  {
    assume "(case x of (v, tok, special) \<Rightarrow> length (piece v special tok)) \<le> length b"
    then show "\<exists>b'. (case x of (v, tok, special) \<Rightarrow> \<lambda>b. llama_token_to_piece v tok b 0 special) b =
        Some (Ret (int (length (case x of (v, tok, special) \<Rightarrow> piece v special tok)), b')) \<and> length b' = length b \<and>
        take (length (case x of (v, tok, special) \<Rightarrow> piece v special tok)) b' = (case x of (v, tok, special) \<Rightarrow> piece v special tok)"
      by (simp add: x llama_token_to_piece_def token_to_piece_eq [OF ok] Let_def poke_def)
  next
    assume "length b < (case x of (v, tok, special) \<Rightarrow> length (piece v special tok))"
    then show "\<exists>b'. (case x of (v, tok, special) \<Rightarrow> \<lambda>b. llama_token_to_piece v tok b 0 special) b =
        Some (Ret (- int (case x of (v, tok, special) \<Rightarrow> length (piece v special tok)), b')) \<and> length b' = length b"
      by (simp add: x llama_token_to_piece_def token_to_piece_eq [OF ok] Let_def poke_def)
  }
qed (auto split: prod.splits)

subsection \<open>The token loop\<close>

fun text_pieces :: "vocab \<Rightarrow> bool \<Rightarrow> bool \<Rightarrow> llama_token list \<Rightarrow> byte list list" where
  "text_pieces v unparse rs [] = []"
| "text_pieces v unparse rs (t # ts) =
     skip_spaces (if rs then 1 else 0) (piece v unparse t) # text_pieces v unparse False ts"

definition dt_ok :: "dt_state \<Rightarrow> bool" where
  "dt_ok s \<longleftrightarrow> dt_pos s \<le> length (dt_buf s) \<and> 0 \<le> dt_total s \<and>
     (dt_avail s = int (length (dt_buf s)) - int (dt_pos s) \<and> dt_total s = int (dt_pos s) \<or>
      dt_avail s = 0 \<and> dt_total s > int (length (dt_buf s)))"

lemma dt_step_ok:
  assumes ok: "vocab_ok v" "in_vocab v tok" and s: "dt_ok s"
    and q: "q = skip_spaces (if dt_remove s then 1 else 0) (piece v unparse tok)"
    and le: "dt_total s + int (length q) \<le> INT32_MAX"
  shows "\<exists>s'. dt_step v unparse tok s = Some (Ret s') \<and> dt_ok s' \<and> length (dt_buf s') = length (dt_buf s) \<and>
     dt_total s' = dt_total s + int (length q) \<and> \<not> dt_remove s' \<and>
     (dt_total s' \<le> int (length (dt_buf s)) \<longrightarrow> take (dt_pos s') (dt_buf s') = take (dt_pos s) (dt_buf s) @ q)"
proof -
  have a0: "0 \<le> dt_avail s" and p: "dt_pos s \<le> length (dt_buf s)" and t0: "0 \<le> dt_total s"
    using s by (auto simp: dt_ok_def)
  have piece: "token_to_piece v tok (dt_avail s) (if dt_remove s then 1 else 0) unparse =
      Some (Ret (if dt_avail s < int (length q) then (- int (length q), []) else (int (length q), q)))"
    by (simp only: token_to_piece_eq [OF ok a0] q Let_def)
  show ?thesis
  proof (cases "dt_avail s < int (length q)")
    case True
    then have "length q > 0" using a0 by linarith
    with True show ?thesis using a0 p t0 le s unfolding dt_step_def piece
      by (auto simp: poke_def dt_ok_def)
  next
    case False
    then have fit: "dt_pos s + length q \<le> length (dt_buf s)" using s by (auto simp: dt_ok_def)
    then obtain b where b: "poke (dt_pos s) q (dt_buf s) = Some b" "length b = length (dt_buf s)"
      "take (dt_pos s + length q) b = take (dt_pos s) (dt_buf s) @ q"
      using poke_ok by blast
    show ?thesis
    proof (cases "q = []")
      case True
      then show ?thesis using False a0 p t0 le s b unfolding dt_step_def piece
        by (auto simp: dt_ok_def)
    next
      case nonempty: False
      then have "dt_avail s > 0" using False by (cases "dt_avail s = 0") auto
      then show ?thesis using False nonempty a0 p t0 le s b unfolding dt_step_def piece
        by (auto simp: dt_ok_def)
    qed
  qed
qed

lemma dt_loop_ok:
  assumes "vocab_ok v" "\<forall>t \<in> set toks. in_vocab v t" "dt_ok s"
    and "q = concat (text_pieces v unparse (dt_remove s) toks)"
    and "dt_total s + int (length q) \<le> INT32_MAX"
  shows "\<exists>s'. dt_loop v unparse toks s = Some (Ret s') \<and> dt_ok s' \<and> length (dt_buf s') = length (dt_buf s) \<and>
     dt_total s' = dt_total s + int (length q) \<and>
     (dt_total s' \<le> int (length (dt_buf s)) \<longrightarrow> take (dt_pos s') (dt_buf s') = take (dt_pos s) (dt_buf s) @ q)"
  using assms(2-)
proof (induction toks arbitrary: s q)
  case (Cons tok toks)
  let ?q = "skip_spaces (if dt_remove s then 1 else 0) (piece v unparse tok)"
  let ?r = "concat (text_pieces v unparse False toks)"
  have q: "q = ?q @ ?r" using Cons.prems(3) by simp
  then have le: "dt_total s + int (length ?q) \<le> INT32_MAX" using Cons.prems(4) by simp
  obtain s1 where s1: "dt_step v unparse tok s = Some (Ret s1)" "dt_ok s1" "length (dt_buf s1) = length (dt_buf s)"
    "dt_total s1 = dt_total s + int (length ?q)" "\<not> dt_remove s1"
    "dt_total s1 \<le> int (length (dt_buf s)) \<longrightarrow> take (dt_pos s1) (dt_buf s1) = take (dt_pos s) (dt_buf s) @ ?q"
    using dt_step_ok [OF assms(1) _ Cons.prems(2) refl le] Cons.prems(1) by auto
  have "?r = concat (text_pieces v unparse (dt_remove s1) toks)" "dt_total s1 + int (length ?r) \<le> INT32_MAX"
    using s1(4,5) Cons.prems(4) q by simp_all
  from Cons.IH [OF _ s1(2) this] Cons.prems(1) obtain s2 where s2: "dt_loop v unparse toks s1 = Some (Ret s2)" "dt_ok s2"
    "length (dt_buf s2) = length (dt_buf s1)" "dt_total s2 = dt_total s1 + int (length ?r)"
    "dt_total s2 \<le> int (length (dt_buf s1)) \<longrightarrow> take (dt_pos s2) (dt_buf s2) = take (dt_pos s1) (dt_buf s1) @ ?r"
    by auto
  have "take (dt_pos s2) (dt_buf s2) = take (dt_pos s) (dt_buf s) @ q" if "dt_total s2 \<le> int (length (dt_buf s))"
    using that s1(3,4,6) s2(4,5) q by simp
  with s1 s2 q show ?case by (intro exI [of _ s2]) simp
qed auto

subsection \<open>Detokenize\<close>

definition detok_raw :: "vocab \<Rightarrow> llama_token list \<Rightarrow> bool \<Rightarrow> bool \<Rightarrow> byte list" where
  "detok_raw v toks remove unparse =
     concat (text_pieces v unparse (snd (dt_trim v remove toks)) (fst (dt_trim v remove toks)))"

definition detok_text :: "vocab \<Rightarrow> llama_token list \<Rightarrow> bool \<Rightarrow> bool \<Rightarrow> byte list" where
  "detok_text v toks remove unparse =
     (if v_clean_spaces v then cleaned (detok_raw v toks remove unparse) else detok_raw v toks remove unparse)"

definition detok_dom :: "vocab \<times> llama_token list \<times> bool \<times> bool \<Rightarrow> bool" where
  "detok_dom x = (case x of (v, toks, remove, unparse) \<Rightarrow>
     vocab_ok v \<and> (\<forall>t \<in> set toks. in_vocab v t) \<and> int (length (detok_raw v toks remove unparse)) \<le> INT32_MAX)"

lemma dt_trim_subset: "set (fst (dt_trim v remove toks)) \<subseteq> set toks"
proof -
  have "set (tl xs) \<subseteq> set xs" for xs :: "llama_token list" by (cases xs) auto
  then show ?thesis by (auto simp: dt_trim_def Let_def split: if_splits dest!: in_set_butlastD)
qed

lemma detokenize_eq:
  assumes "detok_dom (v, toks, remove, unparse)"
  shows "\<exists>b. detokenize v toks buf remove unparse =
     Some (Ret (if length (detok_raw v toks remove unparse) \<le> length buf
                then int (length (detok_text v toks remove unparse))
                else - int (length (detok_raw v toks remove unparse)), b)) \<and> length b = length buf \<and>
     (length (detok_raw v toks remove unparse) \<le> length buf \<longrightarrow>
        take (length (detok_text v toks remove unparse)) b = detok_text v toks remove unparse)"
proof -
  let ?raw = "detok_raw v toks remove unparse"
  obtain ts rs where tr: "dt_trim v remove toks = (ts, rs)" by fastforce
  let ?s = "\<lparr>dt_buf = buf, dt_pos = 0, dt_avail = int (length buf), dt_total = 0, dt_remove = rs\<rparr>"
  have dom: "vocab_ok v" "\<forall>t \<in> set ts. in_vocab v t" "int (length ?raw) \<le> INT32_MAX" "\<not> v_none v"
    using assms dt_trim_subset [of v remove toks] by (auto simp: detok_dom_def tr vocab_ok_def)
  have "dt_ok ?s" "?raw = concat (text_pieces v unparse (dt_remove ?s) ts)" "dt_total ?s + int (length ?raw) \<le> INT32_MAX"
    using dom(3) by (simp_all add: dt_ok_def detok_raw_def tr)
  from dt_loop_ok [OF dom(1,2) this] obtain s where s: "dt_loop v unparse ts ?s = Some (Ret s)" "dt_ok s"
    "length (dt_buf s) = length buf" "dt_total s = int (length ?raw)"
    "length ?raw \<le> length buf \<longrightarrow> take (dt_pos s) (dt_buf s) = ?raw"
    by auto
  note run = detokenize_def tr s(1,3,4) dom(4) detok_text_def
  show ?thesis
  proof (cases "length ?raw \<le> length buf")
    case False
    then show ?thesis by (simp add: run)
  next
    case True
    then have pos: "dt_pos s = length ?raw" "take (length ?raw) (dt_buf s) = ?raw" using s by (auto simp: dt_ok_def)
    show ?thesis
    proof (cases "v_clean_spaces v")
      case False
      with True pos show ?thesis by (simp add: run)
    next
      case clean: True
      obtain b where "clean_passes (int (length ?raw)) (dt_buf s) = Some (int (length (cleaned ?raw)), b)"
        "length b = length buf" "take (length (cleaned ?raw)) b = cleaned ?raw"
        using clean_passes_cleaned [of "length ?raw" "dt_buf s"] True s(3) pos(2) by auto
      moreover have "length (cleaned ?raw) \<le> length buf" using length_cleaned True le_trans by blast
      ultimately show ?thesis using True clean pos by (simp add: run Let_def)
    qed
  qed
qed

interpretation detok: grow_call
  "\<lambda>(v, toks, remove, unparse) b. detokenize v toks b remove unparse"
  detok_dom
  "\<lambda>(v, toks, remove, unparse). length (detok_raw v toks remove unparse)"
  "\<lambda>(v, toks, remove, unparse). detok_text v toks remove unparse"
proof unfold_locales
  fix x :: "vocab \<times> llama_token list \<times> bool \<times> bool" and b :: "byte list"
  obtain v toks remove unparse where x: "x = (v, toks, remove, unparse)" by (cases x) auto
  assume dom: "detok_dom x"
  show "int (case x of (v, toks, remove, unparse) \<Rightarrow> length (detok_raw v toks remove unparse)) \<le> INT32_MAX"
    using dom by (simp add: x detok_dom_def)
  show "length (case x of (v, toks, remove, unparse) \<Rightarrow> detok_text v toks remove unparse)
      \<le> (case x of (v, toks, remove, unparse) \<Rightarrow> length (detok_raw v toks remove unparse))"
    using length_cleaned by (simp add: x detok_text_def)
  note eq = detokenize_eq [of v toks remove unparse b] dom
  {
    assume "(case x of (v, toks, remove, unparse) \<Rightarrow> length (detok_raw v toks remove unparse)) \<le> length b"
    with eq show "\<exists>b'. (case x of (v, toks, remove, unparse) \<Rightarrow> \<lambda>b. detokenize v toks b remove unparse) b =
        Some (Ret (int (length (case x of (v, toks, remove, unparse) \<Rightarrow> detok_text v toks remove unparse)), b')) \<and>
        length b' = length b \<and>
        take (length (case x of (v, toks, remove, unparse) \<Rightarrow> detok_text v toks remove unparse)) b' =
          (case x of (v, toks, remove, unparse) \<Rightarrow> detok_text v toks remove unparse)"
      by (auto simp: x)
  next
    assume "length b < (case x of (v, toks, remove, unparse) \<Rightarrow> length (detok_raw v toks remove unparse))"
    with eq show "\<exists>b'. (case x of (v, toks, remove, unparse) \<Rightarrow> \<lambda>b. detokenize v toks b remove unparse) b =
        Some (Ret (- int (case x of (v, toks, remove, unparse) \<Rightarrow> length (detok_raw v toks remove unparse)), b')) \<and>
        length b' = length b"
      by (auto simp: x)
  }
qed

text \<open>The domain excludes no text below 2 GiB; past that \<open>int32_t\<close> overflows.\<close>

lemma dt_loop_overflow:
  assumes "vocab_ok v" "\<forall>t \<in> set toks. in_vocab v t" "dt_ok s"
    and "INT32_MAX < dt_total s + int (length (concat (text_pieces v unparse (dt_remove s) toks)))"
    and "dt_total s \<le> INT32_MAX"
  shows "dt_loop v unparse toks s = None"
  using assms(2-)
proof (induction toks arbitrary: s)
  case (Cons tok toks)
  let ?q = "skip_spaces (if dt_remove s then 1 else 0) (piece v unparse tok)"
  show ?case
  proof (cases "dt_total s + int (length ?q) \<le> INT32_MAX")
    case True
    then obtain s1 where s1: "dt_step v unparse tok s = Some (Ret s1)" "dt_ok s1"
      "dt_total s1 = dt_total s + int (length ?q)" "\<not> dt_remove s1"
      using dt_step_ok [OF assms(1) _ Cons.prems(2) refl True] Cons.prems(1) by auto
    with True Cons.prems show ?thesis by (simp add: Cons.IH)
  next
    case False
    have a0: "0 \<le> dt_avail s" "0 \<le> dt_total s" using Cons.prems(2) by (auto simp: dt_ok_def)
    have ok: "in_vocab v tok" using Cons.prems(1) by simp
    define q where "q = ?q"
    have "token_to_piece v tok (dt_avail s) (if dt_remove s then 1 else 0) unparse =
      Some (Ret (if dt_avail s < int (length q) then (- int (length q), []) else (int (length q), q)))"
      by (simp only: token_to_piece_eq [OF assms(1) ok a0(1)] Let_def q_def)
    moreover have "INT32_MAX < dt_total s + int (length q)" using False by (simp add: q_def)
    ultimately have "dt_step v unparse tok s = None"
      using a0 by (cases "dt_avail s < int (length q)"; cases "poke (dt_pos s) q (dt_buf s)")
        (auto simp: dt_step_def split: option.split)
    then show ?thesis by simp
  qed
qed simp

end
