(* ===== verification/Tokens_Nif.thy ===== *)
theory Tokens_Nif
  imports Lifecycle Vocab_Detok
begin

text \<open>
  \<open>erllama_nif_tokens.c\<close>: text to tokens and back. A model resource is that of \<open>Lifecycle\<close>;
  \<open>te_vocab\<close> is \<open>llama_model_get_vocab\<close> on its native model and \<open>te_tokenize\<close>
  \<open>llama_tokenize\<close> on a vocabulary with a tokenizer, a text and the two flags. \<open>te_junk\<close> is what
  fresh memory holds. \<open>alloc k i\<close> says whether the allocation of buffer \<open>k\<close> (in round
  \<open>i\<close> of a loop) succeeds. As in \<open>Vocab_Text\<close>, \<open>None\<close> is the end of the process or an access
  outside a buffer. The sizes stay below \<open>2 ^ 45\<close>, so that \<open>size_t\<close> never wraps.
\<close>

record text_env =
  te_models :: "nat \<rightharpoonup> model_res"
  te_vocab :: "nat \<Rightarrow> vocab option"
  te_tokenize :: "vocab \<Rightarrow> byte list \<Rightarrow> bool \<Rightarrow> bool \<Rightarrow> tokenizer"
  te_junk :: "nat \<Rightarrow> byte"


type_synonym text_allocs = "string \<Rightarrow> nat \<Rightarrow> bool"

definition fresh_buf :: "text_env \<Rightarrow> nat \<Rightarrow> byte list" where
  "fresh_buf e n = map (te_junk e) [0..<n]"

text \<open>\<open>enif_realloc\<close> to a larger size.\<close>

definition grown_buf :: "text_env \<Rightarrow> byte list \<Rightarrow> nat \<Rightarrow> byte list" where
  "grown_buf e b n = take n b @ map (te_junk e) [length b..<n]"

text \<open>\<open>erllama_lock_model_live\<close>: the native model, unless it is gone or its release is pending.\<close>

definition erllama_lock_model_live :: "model_res \<Rightarrow> nat option" where
  "erllama_lock_model_live m = (if release_pending m then None else m_model m)"

definition erllama_model_vocab :: "text_env \<Rightarrow> nat \<Rightarrow> vocab option \<times> int" where
  "erllama_model_vocab e p =
     (case te_vocab e p of None \<Rightarrow> (None, 0) | Some v \<Rightarrow> (Some v, vocab_n_tokens v))"

definition erllama_bin_from :: "text_allocs \<Rightarrow> byte list \<Rightarrow> nif_ret" where
  "erllama_bin_from alloc bs = (if alloc ''bin'' 0 then Term (EBin bs) else err ''oom'')"

subsection \<open>Tokenize\<close>

definition tok_reply :: "tok_status \<Rightarrow> nif_ret" where
  "tok_reply st =
     (case st of
        ERLLAMA_TOK_OOM \<Rightarrow> err ''oom''
      | ERLLAMA_TOK_EXCEPTION \<Rightarrow> err ''exception''
      | ERLLAMA_TOK_TOO_LARGE \<Rightarrow> err ''too_large''
      | ERLLAMA_TOK_FAILED \<Rightarrow> err ''tokenize_failed''
      | ERLLAMA_TOK_OK ts \<Rightarrow> Term (mk_list (map EInt ts)))"

definition nif_tokenize :: "text_env \<Rightarrow> text_allocs \<Rightarrow> eterm \<Rightarrow> eterm \<Rightarrow> eterm \<Rightarrow> nif_ret option" where
  "nif_tokenize e alloc a0 a1 a2 =
     (case Option.bind (enif_get_resource MODEL_RT a0) (te_models e) of
        None \<Rightarrow> Some Badarg
      | Some m \<Rightarrow>
          (case iolist_bytes a1 of
             None \<Rightarrow> Some Badarg
           | Some bs \<Rightarrow>
               if length bs > ERLLAMA_MAX_TOKEN_TEXT then Some (err ''too_large'')
               else if \<not> enif_is_map a2 then Some Badarg
               else
                 let add_special = (case get_map_bool a2 ''add_special'' of Some b \<Rightarrow> b | None \<Rightarrow> True);
                     parse_special = (case get_map_bool a2 ''parse_special'' of Some b \<Rightarrow> b | None \<Rightarrow> False)
                 in case erllama_lock_model_live m of
                      None \<Rightarrow> Some (err ''released'')
                    | Some p \<Rightarrow>
                        (case fst (erllama_model_vocab e p) of
                           None \<Rightarrow> Some (err ''exception'')
                         | Some v \<Rightarrow>
                             if v_none v then None
                             else Some (tok_reply (erllama_tokenize_grow (te_tokenize e v bs add_special parse_special)
                                    (alloc ''tokens'' 0) (alloc ''tokens'' 1) (int (length bs)))))))"

subsection \<open>The pieces of a token list\<close>

definition erllama_safe_token_to_piece :: "vocab \<Rightarrow> llama_token \<Rightarrow> byte list \<Rightarrow> nat \<Rightarrow> bool \<Rightarrow> (int \<times> byte list) option" where
  "erllama_safe_token_to_piece v tok buf lstrip special =
     map_option (\<lambda>r. catch_all r (INT32_MIN, buf)) (llama_token_to_piece v tok buf lstrip special)"

text \<open>The buffer that holds the piece of \<open>tok\<close> and its size, or the value of \<open>err\<close>.\<close>

definition take_piece :: "text_env \<Rightarrow> text_allocs \<Rightarrow> vocab \<Rightarrow> nat \<Rightarrow> llama_token \<Rightarrow> (int + nat \<times> byte list) option" where
  "take_piece e alloc v i tok =
     (case erllama_safe_token_to_piece v tok (fresh_buf e 256) 0 False of
        None \<Rightarrow> None
      | Some (got, buf) \<Rightarrow>
          if got = INT32_MIN then Some (Inl 1)
          else if got < 0 then
            let need = - got in
            if need \<le> 0 \<or> need > 2 ^ 20 then Some (Inl 1)
            else if \<not> alloc ''grown'' i then Some (Inl 2)
            else (case erllama_safe_token_to_piece v tok (fresh_buf e (nat need)) 0 False of
                    None \<Rightarrow> None
                  | Some (got, buf) \<Rightarrow>
                      if got = INT32_MIN \<or> got < 0 then Some (Inl 1) else Some (Inr (nat got, buf)))
          else Some (Inr (nat got, buf)))"

definition append_piece :: "text_env \<Rightarrow> text_allocs \<Rightarrow> nat \<Rightarrow> nat \<times> byte list \<Rightarrow> nat \<times> byte list \<Rightarrow> (int + nat \<times> byte list) option" where
  "append_piece e alloc i p w =
     (let (got, buf) = p; (used, out) = w in
      if used + got > length out \<and> \<not> alloc ''new_out'' i then Some (Inl 2)
      else
        let out1 = (if used + got > length out then grown_buf e out ((used + got) * 2 + 16) else out) in
        if length buf < got then None
        else map_option (\<lambda>out2. Inr (used + got, out2)) (poke used (take got buf) out1))"

fun piece_loop :: "text_env \<Rightarrow> text_allocs \<Rightarrow> vocab \<Rightarrow> nat \<Rightarrow> llama_token list \<Rightarrow> nat \<times> byte list \<Rightarrow> (int + nat \<times> byte list) option" where
  "piece_loop e alloc v i [] w = Some (Inr w)"
| "piece_loop e alloc v i (tok # toks) w =
     (case take_piece e alloc v i tok of
        Some (Inr p) \<Rightarrow>
          (case append_piece e alloc i p w of
             Some (Inr w') \<Rightarrow> piece_loop e alloc v (Suc i) toks w'
           | r \<Rightarrow> r)
      | r \<Rightarrow> r)"

definition nif_detokenize :: "text_env \<Rightarrow> text_allocs \<Rightarrow> eterm \<Rightarrow> eterm \<Rightarrow> nif_ret option" where
  "nif_detokenize e alloc a0 a1 =
     (case Option.bind (enif_get_resource MODEL_RT a0) (te_models e) of
        None \<Rightarrow> Some Badarg
      | Some m \<Rightarrow>
          (case read_token_list (alloc ''tokens'' 0) a1 of
             TokRc rc \<Rightarrow> Some (token_list_error rc)
           | TokOk toks \<Rightarrow>
               if toks = [] then Some (erllama_bin_from alloc [])
               else case erllama_lock_model_live m of
                 None \<Rightarrow> Some (err ''released'')
               | Some p \<Rightarrow>
                   (case erllama_model_vocab e p of
                      (None, _) \<Rightarrow> Some (err ''exception'')
                    | (Some v, n_vocab) \<Rightarrow>
                        if n_vocab \<le> 0 \<or> erllama_first_oob_token toks n_vocab \<ge> 0 then Some (err ''invalid_token'')
                        else if length toks > 2 ^ 24 then Some (err ''too_large'')
                        else if \<not> alloc ''out'' 0 then Some (err ''oom'')
                        else (case piece_loop e alloc v 0 toks (0, fresh_buf e (length toks * 32 + 16)) of
                                None \<Rightarrow> None
                              | Some (Inl k) \<Rightarrow> Some (if k = 2 then err ''oom'' else err ''invalid_token'')
                              | Some (Inr (used, out)) \<Rightarrow> Some (erllama_bin_from alloc (take used out))))))"

subsection \<open>Detokenize with options\<close>

definition erllama_safe_detokenize :: "vocab \<Rightarrow> llama_token list \<Rightarrow> byte list \<Rightarrow> bool \<Rightarrow> bool \<Rightarrow> (int \<times> byte list) option" where
  "erllama_safe_detokenize v toks buf remove unparse =
     map_option (\<lambda>r. catch_all r (INT32_MIN, buf)) (detokenize v toks buf remove unparse)"

definition detok_finish :: "text_allocs \<Rightarrow> int \<times> byte list \<Rightarrow> nif_ret" where
  "detok_finish alloc r =
     (let (wrote, buf) = r in
      if wrote < 0 then err ''exception'' else erllama_bin_from alloc (take (nat wrote) buf))"

definition detok_run :: "text_env \<Rightarrow> text_allocs \<Rightarrow> vocab \<Rightarrow> llama_token list \<Rightarrow> bool \<Rightarrow> bool \<Rightarrow> nif_ret option" where
  "detok_run e alloc v toks remove unparse =
     (if \<not> alloc ''buf'' 0 then Some (err ''oom'')
      else case erllama_safe_detokenize v toks (fresh_buf e (length toks * 32 + 16)) remove unparse of
        None \<Rightarrow> None
      | Some (wrote, buf) \<Rightarrow>
          if wrote < 0 \<and> wrote \<noteq> INT32_MIN then
            if \<not> alloc ''bigger'' 0 then Some (err ''oom'')
            else map_option (detok_finish alloc)
                   (erllama_safe_detokenize v toks (grown_buf e buf (nat (- wrote))) remove unparse)
          else Some (detok_finish alloc (wrote, buf)))"

definition nif_detokenize_opts :: "text_env \<Rightarrow> text_allocs \<Rightarrow> eterm \<Rightarrow> eterm \<Rightarrow> eterm \<Rightarrow> nif_ret option" where
  "nif_detokenize_opts e alloc a0 a1 a2 =
     (case Option.bind (enif_get_resource MODEL_RT a0) (te_models e) of
        None \<Rightarrow> Some Badarg
      | Some m \<Rightarrow>
          if \<not> enif_is_map a2 then Some Badarg
          else
            let remove = (case get_map_bool a2 ''remove_special'' of Some b \<Rightarrow> b | None \<Rightarrow> False);
                unparse = (case get_map_bool a2 ''unparse_special'' of Some b \<Rightarrow> b | None \<Rightarrow> False)
            in case read_token_list (alloc ''tokens'' 0) a1 of
                 TokRc rc \<Rightarrow> Some (token_list_error rc)
               | TokOk toks \<Rightarrow>
                   if toks = [] then Some (erllama_bin_from alloc [])
                   else case erllama_lock_model_live m of
                     None \<Rightarrow> Some (err ''released'')
                   | Some p \<Rightarrow>
                       (case erllama_model_vocab e p of
                          (None, _) \<Rightarrow> Some (err ''invalid_token'')
                        | (Some v, n_vocab) \<Rightarrow>
                            if n_vocab \<le> 0 \<or> erllama_first_oob_token toks n_vocab \<ge> 0 then Some (err ''invalid_token'')
                            else detok_run e alloc v toks remove unparse))"

subsection \<open>Lemmas\<close>

lemma length_bufs [simp]:
  "length (fresh_buf e n) = n" "length b \<le> n \<Longrightarrow> length (grown_buf e b n) = n"
  "length b \<le> n \<Longrightarrow> take (length b) (grown_buf e b n) = b"
  by (simp_all add: fresh_buf_def grown_buf_def)

lemma take_grown: "k \<le> length b \<Longrightarrow> length b \<le> n \<Longrightarrow> take k (grown_buf e b n) = take k b"
  by (simp add: grown_buf_def)

lemma safe_piece:
  assumes "vocab_ok v" "in_vocab v tok"
  shows "\<exists>m b'. erllama_safe_token_to_piece v tok b 0 special = Some (m, b') \<and> m \<noteq> INT32_MIN \<and> length b' = length b \<and>
           (if length (piece v special tok) \<le> length b
            then m = int (length (piece v special tok)) \<and> take (nat m) b' = piece v special tok
            else m = - int (length (piece v special tok)) \<and> m < 0)"
proof -
  obtain m b' where "llama_token_to_piece v tok b 0 special = Some (Ret (m, b'))" "m \<noteq> INT32_MIN" "length b' = length b"
    "if length (piece v special tok) \<le> length b
     then m = int (length (piece v special tok)) \<and> take (nat m) b' = piece v special tok
     else m = - int (length (piece v special tok)) \<and> m < 0"
    using one_piece.first_call [of "(v, tok, special)" b] assms by auto
  then show ?thesis by (intro exI [of _ m] exI [of _ b']) (simp add: erllama_safe_token_to_piece_def)
qed

lemma safe_piece_sized:
  assumes "vocab_ok v" "in_vocab v tok" "length b = length (piece v special tok)"
  shows "\<exists>b'. erllama_safe_token_to_piece v tok b 0 special = Some (int (length (piece v special tok)), b') \<and>
           length b' = length (piece v special tok) \<and> take (length (piece v special tok)) b' = piece v special tok"
  using one_piece.second_call [of "(v, tok, special)" b] assms
  by (auto simp: erllama_safe_token_to_piece_def)

definition piece_limit :: nat where "piece_limit = 2 ^ 20"

lemma take_piece_ok:
  assumes "vocab_ok v" "in_vocab v tok"
  shows "(\<exists>buf. take_piece e alloc v i tok = Some (Inr (length (piece v False tok), buf)) \<and>
            length (piece v False tok) \<le> length buf \<and> take (length (piece v False tok)) buf = piece v False tok \<and>
            length (piece v False tok) \<le> piece_limit)
       \<or> take_piece e alloc v i tok = Some (Inl 1) \<and> length (piece v False tok) > piece_limit
       \<or> take_piece e alloc v i tok = Some (Inl 2) \<and> \<not> alloc ''grown'' i"
proof -
  let ?p = "piece v False tok"
  obtain m b where mb: "erllama_safe_token_to_piece v tok (fresh_buf e 256) 0 False = Some (m, b)" "m \<noteq> INT32_MIN"
    "length b = 256" "if length ?p \<le> 256 then m = int (length ?p) \<and> take (nat m) b = ?p else m = - int (length ?p) \<and> m < 0"
    using safe_piece [OF assms, of "fresh_buf e 256" False] by auto
  show ?thesis
  proof (cases "length ?p \<le> 256")
    case True
    then have "m = int (length ?p)" "take (length ?p) b = ?p" using mb(4) by auto
    with True mb(1-3) show ?thesis by (simp add: take_piece_def piece_limit_def)
  next
    case False
    obtain b2 where b2: "erllama_safe_token_to_piece v tok (fresh_buf e (length ?p)) 0 False = Some (int (length ?p), b2)"
      "length b2 = length ?p" "take (length ?p) b2 = ?p"
      using safe_piece_sized [OF assms, of "fresh_buf e (length ?p)" False] by auto
    have "int (length ?p) \<noteq> INT32_MIN" by linarith
    with mb b2 False show ?thesis by (auto simp: take_piece_def Let_def piece_limit_def)
  qed
qed

lemma append_piece_ok:
  assumes "used \<le> length out" "n \<le> length buf" "take n buf = p" "length p = n"
  shows "(\<exists>out'. append_piece e alloc i (n, buf) (used, out) = Some (Inr (used + n, out')) \<and>
            used + n \<le> length out' \<and> take (used + n) out' = take used out @ p)
       \<or> append_piece e alloc i (n, buf) (used, out) = Some (Inl 2) \<and> \<not> alloc ''new_out'' i"
proof (cases "used + n > length out")
  case False
  with assms poke_ok [of used p out] show ?thesis by (auto simp: append_piece_def)
next
  case True
  let ?out = "grown_buf e out ((used + n) * 2 + 16)"
  have len: "length out \<le> (used + n) * 2 + 16" using True by simp
  have "length ?out = (used + n) * 2 + 16" by (rule length_bufs(2) [OF len])
  then obtain b where b: "poke used p ?out = Some b" "length b = length ?out" "take (used + length p) b = take used ?out @ p"
    using poke_ok [of used p ?out] assms by auto
  show ?thesis
    using True assms b take_grown [OF assms(1) len] length_bufs(2) [OF len]
    by (cases "alloc ''new_out'' i") (simp_all add: append_piece_def Let_def)
qed

lemma piece_loop_ok:
  assumes "vocab_ok v" "\<forall>t \<in> set toks. in_vocab v t" "used \<le> length out"
  shows "(\<exists>out'. piece_loop e alloc v i toks (used, out) =
              Some (Inr (used + length (concat (map (piece v False) toks)), out')) \<and>
            take (used + length (concat (map (piece v False) toks))) out' = take used out @ concat (map (piece v False) toks) \<and>
            (\<forall>t \<in> set toks. length (piece v False t) \<le> piece_limit))
       \<or> piece_loop e alloc v i toks (used, out) = Some (Inl 1) \<and> (\<exists>t \<in> set toks. length (piece v False t) > piece_limit)
       \<or> piece_loop e alloc v i toks (used, out) = Some (Inl 2) \<and> (\<exists>k j. \<not> alloc k j)"
  using assms(2,3)
proof (induction toks arbitrary: i used out)
  case (Cons tok toks)
  let ?p = "piece v False tok"
  have tok: "in_vocab v tok" "\<forall>t \<in> set toks. in_vocab v t" using Cons.prems(1) by auto
  consider buf where "take_piece e alloc v i tok = Some (Inr (length ?p, buf))" "length ?p \<le> length buf"
      "take (length ?p) buf = ?p" "length ?p \<le> piece_limit"
    | "take_piece e alloc v i tok = Some (Inl 1)" "length ?p > piece_limit"
    | "take_piece e alloc v i tok = Some (Inl 2)" "\<not> alloc ''grown'' i"
    using take_piece_ok [OF assms(1) tok(1), of e alloc i] by blast
  then show ?case
  proof cases
    case (1 buf)
    consider out' where "append_piece e alloc i (length ?p, buf) (used, out) = Some (Inr (used + length ?p, out'))"
        "used + length ?p \<le> length out'" "take (used + length ?p) out' = take used out @ ?p"
      | "append_piece e alloc i (length ?p, buf) (used, out) = Some (Inl 2)" "\<not> alloc ''new_out'' i"
      using append_piece_ok [OF Cons.prems(2) 1(2,3) refl, of e alloc i] by blast
    then show ?thesis
    proof cases
      case a: (1 out')
      from Cons.IH [OF tok(2) a(2), of "Suc i"] show ?thesis
        using 1 a by (auto simp: add.assoc)
    qed (use 1 in auto)
  qed auto
qed simp

text \<open>A model that can be asked, with the vocabulary that the call finds.\<close>

definition has_vocab :: "text_env \<Rightarrow> nat \<Rightarrow> vocab \<Rightarrow> bool" where
  "has_vocab e i v \<longleftrightarrow>
     (\<exists>m p. te_models e i = Some m \<and> \<not> release_pending m \<and> m_model m = Some p \<and> te_vocab e p = Some v)"

definition all_tokens :: "vocab \<Rightarrow> llama_token list \<Rightarrow> bool" where
  "all_tokens v ts \<longleftrightarrow> int (length ts) \<le> ERLLAMA_MAX_TOKENS \<and> (\<forall>t \<in> set ts. in_vocab v t \<and> t \<le> INT32_MAX)"

lemma read_all_tokens:
  assumes "all_tokens v ts"
  shows "read_token_list al (mk_list (map EInt ts)) = (if ts = [] \<or> al then TokOk ts else TokRc (-1))"
proof -
  have "read_tokens_loop (map EInt ts) [] = TokOk ts"
    using assms by (auto simp: read_tokens_loop_ok all_tokens_def in_vocab_def)
  then show ?thesis using assms by (simp add: read_token_list_def all_tokens_def)
qed

lemma all_tokens_valid:
  assumes "all_tokens v ts" "ts \<noteq> []"
  shows "\<not> (vocab_n_tokens v \<le> 0 \<or> erllama_first_oob_token ts (vocab_n_tokens v) \<ge> 0)" "length ts \<le> 2 ^ 24"
    "\<forall>t \<in> set ts. in_vocab v t"
proof -
  have "hd ts \<in> set ts" using assms(2) by simp
  then have "\<not> vocab_n_tokens v \<le> 0" using assms(1) by (force simp: all_tokens_def in_vocab_def)
  moreover have "\<not> erllama_first_oob_token ts (vocab_n_tokens v) \<ge> 0"
    unfolding first_oob_none using assms(1) by (simp add: all_tokens_def in_vocab_def)
  ultimately show "\<not> (vocab_n_tokens v \<le> 0 \<or> erllama_first_oob_token ts (vocab_n_tokens v) \<ge> 0)" by blast
  show "length ts \<le> 2 ^ 24" "\<forall>t \<in> set ts. in_vocab v t"
    using assms(1) by (simp_all add: all_tokens_def ERLLAMA_MAX_TOKENS_def)
qed

end
