(* ===== verification/Tokens_Props.thy ===== *)
theory Tokens_Props
  imports Tokens_Nif
begin

text \<open>
  What the text NIFs answer: the bytes of the tokens, whatever the buffers were first sized to.
  The two-argument \<open>nif_detokenize\<close>, whose output keys the session cache, concatenates the pieces, so the key
  of a longer list extends that of a shorter one; the output of \<open>nif_detokenize_opts\<close> does not have this
  property.
\<close>

lemma has_vocabE:
  assumes "has_vocab e i v"
  obtains m p where "te_models e i = Some m" "erllama_lock_model_live m = Some p"
    "erllama_model_vocab e p = (Some v, vocab_n_tokens v)"
  using assms by (auto simp: has_vocab_def erllama_lock_model_live_def erllama_model_vocab_def)

lemma detokenize_run:
  assumes "has_vocab e i v" "all_tokens v ts" "ts \<noteq> []" "alloc ''tokens'' 0" "alloc ''out'' 0"
  shows "nif_detokenize e alloc (ERes MODEL_RT i) (mk_list (map EInt ts)) =
     (case piece_loop e alloc v 0 ts (0, fresh_buf e (length ts * 32 + 16)) of
        None \<Rightarrow> None
      | Some (Inl k) \<Rightarrow> Some (if k = 2 then err ''oom'' else err ''invalid_token'')
      | Some (Inr (used, out)) \<Rightarrow> Some (erllama_bin_from alloc (take used out)))"
proof -
  from assms(1) obtain m p where "te_models e i = Some m" "erllama_lock_model_live m = Some p"
    "erllama_model_vocab e p = (Some v, vocab_n_tokens v)" by (rule has_vocabE)
  then show ?thesis
    using all_tokens_valid [OF assms(2,3)] assms(3-5)
    by (simp add: nif_detokenize_def read_all_tokens [OF assms(2)])
qed

lemma detokenize_oom:
  assumes "has_vocab e i v" "all_tokens v ts" "ts \<noteq> []" "\<not> (alloc ''tokens'' 0 \<and> alloc ''out'' 0)"
  shows "nif_detokenize e alloc (ERes MODEL_RT i) (mk_list (map EInt ts)) = Some (err ''oom'')"
proof -
  from assms(1) obtain m p where "te_models e i = Some m" "erllama_lock_model_live m = Some p"
    "erllama_model_vocab e p = (Some v, vocab_n_tokens v)" by (rule has_vocabE)
  then show ?thesis
    using all_tokens_valid [OF assms(2,3)] assms(3,4)
    by (cases "alloc ''tokens'' 0") (simp_all add: nif_detokenize_def read_all_tokens [OF assms(2)] token_list_error_def)
qed

lemma bin_from_cases:
  "erllama_bin_from alloc bs = Term (EBin bs) \<or> erllama_bin_from alloc bs = err ''oom'' \<and> (\<exists>k j. \<not> alloc k j)"
  by (auto simp: erllama_bin_from_def)

text \<open>What \<open>nif_detokenize\<close> answers, if no allocation fails.\<close>

definition detok_reply :: "vocab \<Rightarrow> llama_token list \<Rightarrow> nif_ret" where
  "detok_reply v ts =
     (if \<exists>t \<in> set ts. length (piece v False t) > piece_limit then err ''invalid_token''
      else Term (EBin (concat (map (piece v False) ts))))"

lemma detokenize_reply:
  assumes "has_vocab e i v" "vocab_ok v" "all_tokens v ts"
  shows "\<exists>r. nif_detokenize e alloc (ERes MODEL_RT i) (mk_list (map EInt ts)) = Some r \<and>
     (r = detok_reply v ts \<or> r = err ''oom'' \<and> (\<exists>k j. \<not> alloc k j))"
proof (cases "ts = []")
  case True
  from assms(1) obtain m where "te_models e i = Some m" by (auto simp: has_vocab_def)
  with True show ?thesis using bin_from_cases [of alloc "[]"]
    by (auto simp: nif_detokenize_def read_token_list_def enif_get_list_length_def ERLLAMA_MAX_TOKENS_def detok_reply_def)
next
  case ne: False
  show ?thesis
  proof (cases "alloc ''tokens'' 0 \<and> alloc ''out'' 0")
    case False
    with detokenize_oom [OF assms(1,3) ne] show ?thesis by blast
  next
    case True
    have run: "nif_detokenize e alloc (ERes MODEL_RT i) (mk_list (map EInt ts)) =
       (case piece_loop e alloc v 0 ts (0, fresh_buf e (length ts * 32 + 16)) of
          None \<Rightarrow> None
        | Some (Inl k) \<Rightarrow> Some (if k = 2 then err ''oom'' else err ''invalid_token'')
        | Some (Inr (used, out)) \<Rightarrow> Some (erllama_bin_from alloc (take used out)))"
      using True by (intro detokenize_run assms(1,3) ne) auto
    note valid = all_tokens_valid [OF assms(3) ne]
    let ?out = "fresh_buf e (length ts * 32 + 16)"
    from piece_loop_ok [OF assms(2) valid(3), of 0 ?out e alloc 0] bin_from_cases [of alloc "concat (map (piece v False) ts)"]
    show ?thesis unfolding run by (auto simp: detok_reply_def) blast+
  qed
qed

lemma opts_run:
  assumes "has_vocab e i v" "all_tokens v ts" "ts \<noteq> []" "alloc ''tokens'' 0"
  shows "nif_detokenize_opts e alloc (ERes MODEL_RT i) (mk_list (map EInt ts)) (EMap kvs) =
     detok_run e alloc v ts (get_map_bool (EMap kvs) ''remove_special'' = Some True)
       (get_map_bool (EMap kvs) ''unparse_special'' = Some True)"
proof -
  from assms(1) obtain m p where "te_models e i = Some m" "erllama_lock_model_live m = Some p"
    "erllama_model_vocab e p = (Some v, vocab_n_tokens v)" by (rule has_vocabE)
  moreover have "(case x of Some b \<Rightarrow> b | None \<Rightarrow> False) = (x = Some True)" for x by (auto split: option.split)
  ultimately show ?thesis
    using all_tokens_valid [OF assms(2,3)] assms(3,4)
    by (simp add: nif_detokenize_opts_def read_all_tokens [OF assms(2)] enif_is_map_def)
qed

lemma opts_empty:
  assumes "has_vocab e i v"
  shows "nif_detokenize_opts e alloc (ERes MODEL_RT i) ENil (EMap kvs) = Some (erllama_bin_from alloc [])"
  using assms by (auto simp: has_vocab_def nif_detokenize_opts_def read_token_list_def enif_get_list_length_def
      ERLLAMA_MAX_TOKENS_def enif_is_map_def Let_def)

lemma opts_oom:
  assumes "has_vocab e i v" "all_tokens v ts" "ts \<noteq> []" "\<not> alloc ''tokens'' 0"
  shows "nif_detokenize_opts e alloc (ERes MODEL_RT i) (mk_list (map EInt ts)) (EMap kvs) = Some (err ''oom'')"
proof -
  from assms(1) obtain m p where "te_models e i = Some m" by (rule has_vocabE)
  with assms(3,4) show ?thesis
    by (simp add: nif_detokenize_opts_def read_all_tokens [OF assms(2)] token_list_error_def enif_is_map_def)
qed

lemma detok_run_ok:
  assumes dom: "detok_dom (v, ts, remove, unparse)"
  shows "\<exists>r. detok_run e alloc v ts remove unparse = Some r \<and>
     (r = Term (EBin (detok_text v ts remove unparse)) \<or> r = err ''oom'' \<and> (\<exists>k j. \<not> alloc k j))"
proof (cases "alloc ''buf'' 0")
  case False
  then show ?thesis by (auto simp: detok_run_def)
next
  case True
  let ?x = "(v, ts, remove, unparse)" and ?b = "fresh_buf e (length ts * 32 + 16)"
  let ?t = "detok_text v ts remove unparse" and ?raw = "detok_raw v ts remove unparse"
  obtain m b where mb: "detokenize v ts ?b remove unparse = Some (Ret (m, b))" "m \<noteq> INT32_MIN" "length b = length ts * 32 + 16"
    "if length ?raw \<le> length ts * 32 + 16 then m = int (length ?t) \<and> take (nat m) b = ?t else m = - int (length ?raw) \<and> m < 0"
    using detok.first_call [OF dom, of ?b] by auto
  have safe: "erllama_safe_detokenize v ts ?b remove unparse = Some (m, b)" using mb(1) by (simp add: erllama_safe_detokenize_def)
  show ?thesis
  proof (cases "length ?raw \<le> length ts * 32 + 16")
    case fits: True
    then have "m = int (length ?t)" "take (length ?t) b = ?t" using mb(4) by auto
    with True safe bin_from_cases [of alloc ?t] show ?thesis by (simp add: detok_run_def detok_finish_def)
  next
    case False
    then have m: "m = - int (length ?raw)" "m < 0" using mb(4) by auto
    let ?g = "grown_buf e b (nat (- m))"
    have "length ?g = length ?raw" using False mb(3) m by (subst length_bufs) auto
    then obtain b2 where "detokenize v ts ?g remove unparse = Some (Ret (int (length ?t), b2))" "take (length ?t) b2 = ?t"
      using detok.second_call [OF dom, of ?g] by auto
    then have "erllama_safe_detokenize v ts ?g remove unparse = Some (int (length ?t), b2)" "take (length ?t) b2 = ?t"
      by (simp_all add: erllama_safe_detokenize_def)
    with True safe m mb(2) bin_from_cases [of alloc ?t] show ?thesis
      by (cases "alloc ''bigger'' 0") (auto simp: detok_run_def detok_finish_def)
  qed
qed

subsection \<open>A model to ask\<close>

definition demo_vocab :: vocab where
  "demo_vocab =
     \<lparr>v_none = False,
      v_tokens = [\<lparr>vt_attr = 8, vt_piece = [60, 115, 62]\<rparr>, \<lparr>vt_attr = 4, vt_piece = [32, 72, 105]\<rparr>,
                  \<lparr>vt_attr = 4, vt_piece = [32, 33]\<rparr>, \<lparr>vt_attr = 4, vt_piece = [32]\<rparr>, \<lparr>vt_attr = 4, vt_piece = [63]\<rparr>],
      v_add_bos = True, v_add_eos = False, v_bos_id = 0, v_eos_id = -1,
      v_add_space_prefix = True, v_clean_spaces = True\<rparr>"

definition demo_text_env :: "vocab \<Rightarrow> text_env" where
  "demo_text_env v =
     \<lparr>te_models = [0 \<mapsto> \<lparr>m_model = Some 7, active_contexts = 0, active_adapters = 0, active_mtmd = 0,
                         release_pending = False, m_keeps = 0, m_term = True\<rparr>],
      te_vocab = (\<lambda>p. if p = 7 then Some v else None), te_tokenize = (\<lambda>_ _ _ _ _. Throw), te_junk = (\<lambda>_. 0)\<rparr>"

abbreviation always :: text_allocs where "always \<equiv> \<lambda>_ _. True"

lemma demo_has_vocab [simp]: "has_vocab (demo_text_env v) 0 v"
  by (simp add: has_vocab_def demo_text_env_def)

lemma demo_vocab_ok [simp]: "vocab_ok demo_vocab"
  by (simp add: vocab_ok_def demo_vocab_def)

lemma demo_all_tokens [simp]:
  "all_tokens demo_vocab ts \<longleftrightarrow> int (length ts) \<le> ERLLAMA_MAX_TOKENS \<and> (\<forall>t \<in> set ts. 0 \<le> t \<and> t < 5)"
  by (force simp: all_tokens_def in_vocab_def vocab_n_tokens_def demo_vocab_def)

lemma demo_pieces [simp]:
  "piece demo_vocab False 0 = []" "piece demo_vocab s 1 = [32, 72, 105]" "piece demo_vocab s 2 = [32, 33]"
  "piece demo_vocab s 3 = [32]" "piece demo_vocab s 4 = [63]"
  by (simp_all add: piece_def demo_vocab_def)

subsection \<open>Properties\<close>

text \<open>
  C30: Detokenizing for the cache key answers exactly the bytes of the tokens, piece after piece,
  with control tokens left out: it never writes outside its buffer, never stops the VM, and no first
  size of a buffer changes the answer. It refuses tokens of more than a mebibyte, and
  can otherwise only fail because an allocation does.
\<close>

theorem detokenize_exact:
  assumes "has_vocab e i v" and "vocab_ok v" and "all_tokens v ts"
  shows "\<exists>r. nif_detokenize e alloc (ERes MODEL_RT i) (mk_list (map EInt ts)) = Some r \<and>
     (r = (if \<exists>t \<in> set ts. length (piece v False t) > 2 ^ 20 then err ''invalid_token''
           else Term (EBin (concat (map (piece v False) ts))))
      \<or> r = err ''oom'' \<and> (\<exists>k j. \<not> alloc k j))"
  using detokenize_reply [OF assms, of alloc] by (simp add: detok_reply_def piece_limit_def)

theorem detokenize_exact_witness:
  "nif_detokenize (demo_text_env demo_vocab) always (ERes MODEL_RT 0) (mk_list (map EInt [0, 1, 2])) =
     Some (Term (EBin [32, 72, 105, 32, 33]))"
  using detokenize_exact [of "demo_text_env demo_vocab" 0 demo_vocab "[0, 1, 2]" always]
  by (simp add: ERLLAMA_MAX_TOKENS_def)

text \<open>
  Cache keys extend: if a token list and a longer one that starts with it both have a key, the first
  key is a prefix of the second, and the rest is the key of the remaining tokens.
\<close>

theorem detokenize_keys_extend:
  assumes "has_vocab e i v" and "vocab_ok v" and "all_tokens v (ts @ us)"
    and "nif_detokenize e alloc (ERes MODEL_RT i) (mk_list (map EInt (ts @ us))) = Some (Term (EBin key))"
  shows "\<exists>k1 k2. key = k1 @ k2 \<and>
     nif_detokenize e always (ERes MODEL_RT i) (mk_list (map EInt ts)) = Some (Term (EBin k1)) \<and>
     nif_detokenize e always (ERes MODEL_RT i) (mk_list (map EInt us)) = Some (Term (EBin k2))"
proof -
  have parts: "all_tokens v ts" "all_tokens v us" using assms(3) by (simp_all add: all_tokens_def)
  have whole: "Term (EBin key) = detok_reply v (ts @ us)"
    using detokenize_reply [OF assms(1-3), of alloc] assms(4) by (auto simp: err_def erllama_error_def)
  then have small: "\<forall>t \<in> set ts \<union> set us. length (piece v False t) \<le> piece_limit"
    and key: "key = concat (map (piece v False) ts) @ concat (map (piece v False) us)"
    by (auto simp: detok_reply_def err_def erllama_error_def not_less split: if_splits)
  from small have "detok_reply v ts = Term (EBin (concat (map (piece v False) ts)))"
    "detok_reply v us = Term (EBin (concat (map (piece v False) us)))"
    by (force simp: detok_reply_def not_less)+
  with detokenize_reply [OF assms(1,2) parts(1), of always] detokenize_reply [OF assms(1,2) parts(2), of always] key
  show ?thesis by auto
qed

theorem detokenize_keys_extend_witness:
  "\<exists>k1 k2. [32, 72, 105, 32, 33] = k1 @ k2 \<and>
     nif_detokenize (demo_text_env demo_vocab) always (ERes MODEL_RT 0) (mk_list (map EInt [0, 1])) = Some (Term (EBin k1)) \<and>
     nif_detokenize (demo_text_env demo_vocab) always (ERes MODEL_RT 0) (mk_list (map EInt [2])) = Some (Term (EBin k2))"
proof (rule detokenize_keys_extend [of _ _ demo_vocab])
  show "nif_detokenize (demo_text_env demo_vocab) always (ERes MODEL_RT 0) (mk_list (map EInt ([0, 1] @ [2]))) =
      Some (Term (EBin [32, 72, 105, 32, 33]))"
    using detokenize_reply [of "demo_text_env demo_vocab" 0 demo_vocab "[0, 1, 2]" always]
    by (simp add: ERLLAMA_MAX_TOKENS_def detok_reply_def piece_limit_def)
qed (simp_all add: ERLLAMA_MAX_TOKENS_def)

text \<open>
  C31: Detokenizing with options: whatever the buffer was first sized to, the answer is the text of
  the tokens as a function of them alone (the pieces, less the first or last special token and the
  leading space where asked, with the spaces cleaned by list functions), although the code cleans
  the spaces in place and answers less than it asked room for.
\<close>

theorem detokenize_opts_exact:
  assumes "has_vocab e i v" and "vocab_ok v" and "all_tokens v ts"
    and "remove = (get_map_bool (EMap kvs) ''remove_special'' = Some True)"
    and "unparse = (get_map_bool (EMap kvs) ''unparse_special'' = Some True)"
    and "int (length (detok_raw v ts remove unparse)) \<le> INT32_MAX"
  shows "\<exists>r. nif_detokenize_opts e alloc (ERes MODEL_RT i) (mk_list (map EInt ts)) (EMap kvs) = Some r \<and>
     (r = Term (EBin (detok_text v ts remove unparse)) \<or> r = err ''oom'' \<and> (\<exists>k j. \<not> alloc k j))"
proof -
  consider "ts = []" | "ts \<noteq> []" "\<not> alloc ''tokens'' 0" | "ts \<noteq> []" "alloc ''tokens'' 0" by blast
  then show ?thesis
  proof cases
    case 1
    then have "detok_text v ts remove unparse = []"
      by (auto simp: detok_text_def detok_raw_def dt_trim_def cleaned_def)
    with 1 opts_empty [OF assms(1)] bin_from_cases [of alloc "[]"] show ?thesis by auto
  next
    case 2
    with opts_oom [OF assms(1,3)] show ?thesis by auto
  next
    case 3
    have "detok_dom (v, ts, remove, unparse)"
      using assms(2,6) all_tokens_valid(3) [OF assms(3) 3(1)] by (simp add: detok_dom_def)
    from detok_run_ok [OF this] opts_run [OF assms(1,3) 3(1), of alloc kvs] 3(2) show ?thesis by (simp add: assms(4,5))
  qed
qed

theorem detokenize_opts_exact_witness:
  "nif_detokenize_opts (demo_text_env demo_vocab) always (ERes MODEL_RT 0) (mk_list (map EInt [0, 1, 2]))
      (EMap [(EAtom ''remove_special'', atom_true)]) = Some (Term (EBin [32, 72, 105, 33]))"
proof -
  have raw: "detok_raw demo_vocab [0, 1, 2] True False = [32, 72, 105, 32, 33]"
    by (simp add: detok_raw_def dt_trim_def demo_vocab_def piece_def)
  have "detok_text demo_vocab [0, 1, 2] True False = [32, 72, 105, 33]"
    unfolding detok_text_def raw by (simp add: demo_vocab_def cleaned_def punct_def contraction_def)
  with raw detokenize_opts_exact [of "demo_text_env demo_vocab" 0 demo_vocab "[0, 1, 2]" True
      "[(EAtom ''remove_special'', atom_true)]" False always]
  show ?thesis by (simp add: ERLLAMA_MAX_TOKENS_def get_map_bool_def)
qed

text \<open>
  Tokenizing answers all the tokens of the text, in order, whatever the first guess for
  the buffer was, and the flags reach the tokenizer as the options say (special tokens added and
  their text not parsed, by default). Past \<open>ERLLAMA_MAX_TOKENS\<close> the answer is an error.
\<close>

theorem tokenize_exact:
  assumes "has_vocab e i v" and "\<not> v_none v" and "iolist_bytes txt = Some bs" and "length bs \<le> ERLLAMA_MAX_TOKEN_TEXT"
    and "te_tokenize e v bs (get_map_bool (EMap kvs) ''add_special'' \<noteq> Some False)
           (get_map_bool (EMap kvs) ''parse_special'' = Some True) = llama_vocab_tokenize res"
    and "int (length res) < INT32_MAX"
  shows "\<exists>r. nif_tokenize e alloc (ERes MODEL_RT i) txt (EMap kvs) = Some r \<and>
     (r = (if int (length res) > ERLLAMA_MAX_TOKENS then err ''too_large'' else Term (mk_list (map EInt res)))
      \<or> r = err ''oom'' \<and> (\<exists>k j. \<not> alloc k j))"
proof -
  from assms(1) obtain m p where mp: "te_models e i = Some m" "erllama_lock_model_live m = Some p"
    "erllama_model_vocab e p = (Some v, vocab_n_tokens v)" by (rule has_vocabE)
  have flags: "(case x of Some b \<Rightarrow> b | None \<Rightarrow> True) = (x \<noteq> Some False)"
    "(case x of Some b \<Rightarrow> b | None \<Rightarrow> False) = (x = Some True)" for x by (auto split: option.split)
  have "nif_tokenize e alloc (ERes MODEL_RT i) txt (EMap kvs) =
     Some (tok_reply (erllama_tokenize_grow (llama_vocab_tokenize res) (alloc ''tokens'' 0) (alloc ''tokens'' 1) (int (length bs))))"
    using mp assms(2-5) by (simp add: nif_tokenize_def enif_is_map_def Let_def flags)
  also have "\<dots> = Some (if \<not> alloc ''tokens'' 0 then err ''oom''
      else if int (length res) > ERLLAMA_MAX_TOKENS then err ''too_large''
      else if int (length res) > max 16 (int (length bs) + 8) \<and> \<not> alloc ''tokens'' 1 then err ''oom''
      else Term (mk_list (map EInt res)))"
    by (simp add: tokenize_grow_complete [OF assms(6)] tok_reply_def)
  finally show ?thesis by auto
qed

definition demo_tok_env :: text_env where
  "demo_tok_env = (demo_text_env demo_vocab)\<lparr>te_tokenize := (\<lambda>_ bs add parse.
     llama_vocab_tokenize ((if add then [0] else []) @ map uint bs))\<rparr>"

theorem tokenize_exact_witness:
  "nif_tokenize demo_tok_env always (ERes MODEL_RT 0) (EBin [1, 2, 4]) (EMap []) =
     Some (Term (mk_list [EInt 0, EInt 1, EInt 2, EInt 4]))"
proof -
  have "has_vocab demo_tok_env 0 demo_vocab" by (simp add: has_vocab_def demo_tok_env_def demo_text_env_def)
  from tokenize_exact [OF this, of "EBin [1, 2, 4]" "[1, 2, 4]" "[]" "[0, 1, 2, 4]" always] show ?thesis
    by (simp add: demo_tok_env_def demo_vocab_def get_map_bool_def ERLLAMA_MAX_TOKEN_TEXT_def ERLLAMA_MAX_TOKENS_def)
qed

subsection \<open>What the keys could not be, and what the calls do not check\<close>

text \<open>
  The text with options does not extend: a space that ends the text of a prefix is gone from the
  text of the whole list.
\<close>

theorem detokenize_opts_not_extending:
  "detok_text demo_vocab [1, 3] False False = [72, 105, 32]"
  "detok_text demo_vocab [1, 3, 4] False False = [72, 105, 63]"
proof -
  have "detok_raw demo_vocab [1, 3] False False = [72, 105, 32]"
    "detok_raw demo_vocab [1, 3, 4] False False = [72, 105, 32, 63]"
    by (simp_all add: detok_raw_def dt_trim_def demo_vocab_def piece_def)
  then show "detok_text demo_vocab [1, 3] False False = [72, 105, 32]"
    "detok_text demo_vocab [1, 3, 4] False False = [72, 105, 63]"
    by (simp_all add: detok_text_def demo_vocab_def cleaned_def punct_def contraction_def)
qed

text \<open>
  A model without a vocabulary (\<open>tokenizer.ggml.model\<close> is \<open>no_vocab\<close>) has dummy tokens, which pass the
  check of the ids; the assertion of \<open>token_get_attr\<close> then ends the VM.
\<close>

theorem detokenize_no_vocab_aborts:
  assumes "has_vocab e i v" "v_none v" "0 < vocab_n_tokens v"
  shows "nif_detokenize e always (ERes MODEL_RT i) (mk_list [EInt 0]) = None"
proof -
  have "all_tokens v [0]" using assms(3) by (simp add: all_tokens_def in_vocab_def ERLLAMA_MAX_TOKENS_def)
  from detokenize_run [OF assms(1) this, of always] assms(2) show ?thesis
    by (simp add: take_piece_def erllama_safe_token_to_piece_def llama_token_to_piece_def token_to_piece_def)
qed

text \<open>A text of 2 GiB overflows the total that \<open>detokenize\<close> counts in \<open>int32_t\<close>.\<close>

theorem detokenize_opts_overflows:
  assumes "has_vocab e i v" "vocab_ok v" "all_tokens v ts" "ts \<noteq> []"
    and "INT32_MAX < int (length (detok_raw v ts False False))"
  shows "nif_detokenize_opts e always (ERes MODEL_RT i) (mk_list (map EInt ts)) (EMap []) = None"
proof -
  have "\<not> v_none v" using assms(2) by (simp add: vocab_ok_def)
  moreover have "dt_trim v False ts = (ts, v_add_space_prefix v)" by (simp add: dt_trim_def)
  ultimately have "detokenize v ts b False False = None" for b
    using assms(5) dt_loop_overflow [OF assms(2) all_tokens_valid(3) [OF assms(3,4)], of
        "\<lparr>dt_buf = b, dt_pos = 0, dt_avail = int (length b), dt_total = 0, dt_remove = v_add_space_prefix v\<rparr>" False]
    by (simp add: detokenize_def detok_raw_def dt_ok_def)
  then have "detok_run e always v ts False False = None" by (simp add: detok_run_def erllama_safe_detokenize_def)
  with opts_run [OF assms(1,3,4), of always "[]"] show ?thesis by (simp add: get_map_bool_def)
qed

text \<open>So do \<open>2 ^ 24\<close> tokens, the most that a list may have, with a piece of 128 bytes each.\<close>

definition wide_vocab :: vocab where
  "wide_vocab = \<lparr>v_none = False, v_tokens = [\<lparr>vt_attr = 4, vt_piece = replicate 128 45\<rparr>],
     v_add_bos = False, v_add_eos = False, v_bos_id = -1, v_eos_id = -1, v_add_space_prefix = False, v_clean_spaces = False\<rparr>"

theorem detokenize_opts_overflows_witness:
  "nif_detokenize_opts (demo_text_env wide_vocab) always (ERes MODEL_RT 0)
     (mk_list (map EInt (replicate (2 ^ 24) 0))) (EMap []) = None"
proof (rule detokenize_opts_overflows [of _ _ wide_vocab])
  have pieces: "text_pieces v False False (replicate n t) = replicate n (piece v False t)" for v n t
    by (induction n) auto
  have "length (detok_raw wide_vocab (replicate n 0) False False) = n * 128" for n
    by (simp add: detok_raw_def dt_trim_def wide_vocab_def pieces length_concat piece_def sum_list_replicate)
  then show "INT32_MAX < int (length (detok_raw wide_vocab (replicate (2 ^ 24) 0) False False))" by simp
qed (simp_all add: all_tokens_def in_vocab_def vocab_n_tokens_def vocab_ok_def wide_vocab_def ERLLAMA_MAX_TOKENS_def)

end
