(* ===== verification/Mtmd_Chunks.thy ===== *)
theory Mtmd_Chunks
  imports Nif_Util Vocab_Text
begin

text \<open>
  From a prompt with media markers to the chunks that are evaluated (\<open>mtmd_tokenizer\<close> of
  \<open>tools/mtmd/mtmd.cpp\<close>). The record \<open>mtmd_ctx\<close> has the fields of \<open>mtmd_context\<close> that the tokenizer
  reads; the image and audio preprocessors, the output sizes of the vision encoder and
  \<open>llama_tokenize\<close> are its function fields, over images of any type \<open>'i\<close>. Video is not compiled
  in (\<open>MTMD_VIDEO\<close> is off), so that no bitmap is lazy.

  A call answers \<open>None\<close> where an assertion ends the process, \<open>Some (Inl rc)\<close> where it returns an error
  code; an exception is the code 2 that \<open>mtmd_tokenize\<close> returns for it.
\<close>

subsection \<open>Calls that fail or abort\<close>

definition mbind :: "('e + 'a) option \<Rightarrow> ('a \<Rightarrow> ('e + 'b) option) \<Rightarrow> ('e + 'b) option" where
  "mbind m f = (case m of None \<Rightarrow> None | Some (Inl e) \<Rightarrow> Some (Inl e) | Some (Inr x) \<Rightarrow> f x)"

definition mret :: "'a \<Rightarrow> ('e + 'a) option" where
  "mret x = Some (Inr x)"

definition mfail :: "'e \<Rightarrow> ('e + 'a) option" where
  "mfail e = Some (Inl e)"

definition massert :: "bool \<Rightarrow> ('e + 'a) option \<Rightarrow> ('e + 'a) option" where
  "massert b m = (if b then m else None)"

fun mfold :: "('a \<Rightarrow> 's \<Rightarrow> ('e + 's) option) \<Rightarrow> 'a list \<Rightarrow> 's \<Rightarrow> ('e + 's) option" where
  "mfold f [] s = mret s"
| "mfold f (x # xs) s = mbind (f x s) (mfold f xs)"

lemma mbind_simps [simp]:
  "mbind None f = None" "mbind (Some (Inl e)) f = Some (Inl e)" "mbind (Some (Inr x)) f = f x"
  "mbind (mret x) f = f x" "mbind (mfail e) f = Some (Inl e)"
  by (simp_all add: mbind_def mret_def mfail_def)

lemma mbind_eq_Inr: "mbind m f = Some (Inr y) \<longleftrightarrow> (\<exists>x. m = Some (Inr x) \<and> f x = Some (Inr y))"
  by (auto simp: mbind_def split: option.splits sum.splits)

lemma massert_eq_Inr [simp]: "massert b m = Some (Inr y) \<longleftrightarrow> b \<and> m = Some (Inr y)"
  by (simp add: massert_def)

lemma mret_eq_Inr [simp]: "mret x = Some (Inr y) \<longleftrightarrow> x = y" "mfail e = Some (Inr y) \<longleftrightarrow> False"
  by (auto simp: mret_def mfail_def)

subsection \<open>Bitmaps and chunks\<close>

text \<open>The bytes of an image are \<open>nx * ny * 3\<close>, those of an audio clip its samples, four bytes each.\<close>

record bitmap =
  bm_nx :: nat
  bm_ny :: nat
  bm_is_audio :: bool
  bm_mergeable :: bool
  bm_data :: "byte list"

definition can_merge_with :: "bitmap \<Rightarrow> bitmap \<Rightarrow> bool" where
  "can_merge_with a b \<longleftrightarrow>
     bm_mergeable a \<and> bm_mergeable b \<and> \<not> bm_is_audio a \<and> \<not> bm_is_audio b \<and> bm_nx a = bm_nx b \<and> bm_ny a = bm_ny b"

datatype pos_type = MTMD_POS_TYPE_NORMAL | MTMD_POS_TYPE_MROPE | MTMD_POS_TYPE_HUNYUANVL

record 'i image_tokens =
  it_nx :: nat
  it_ny :: nat
  it_pos :: pos_type
  it_image_idx :: nat
  it_n_temporal_merge :: nat
  it_entries :: "'i list"

definition image_n_tokens :: "'i image_tokens \<Rightarrow> nat" where
  "image_n_tokens t =
     (if it_pos t = MTMD_POS_TYPE_HUNYUANVL then ((it_nx t + 1) * it_ny t + 2) mod 2 ^ 32
      else
        let nz = length (it_entries t); k = it_n_temporal_merge t;
            nz' = (if k > 1 then (if nz mod k \<noteq> 0 then nz div k + 1 else nz div k) else nz)
        in (it_nx t * it_ny t * nz') mod 2 ^ 32)"

definition image_n_pos :: "'i image_tokens \<Rightarrow> nat" where
  "image_n_pos t =
     (case it_pos t of
        MTMD_POS_TYPE_MROPE \<Rightarrow> max (it_nx t) (it_ny t)
      | MTMD_POS_TYPE_NORMAL \<Rightarrow> image_n_tokens t
      | MTMD_POS_TYPE_HUNYUANVL \<Rightarrow> image_n_tokens t)"

datatype 'i chunk = TextChunk "llama_token list" | ImageChunk "'i image_tokens" | AudioChunk nat 'i

fun chunk_n_tokens :: "'i chunk \<Rightarrow> nat" where
  "chunk_n_tokens (TextChunk toks) = length toks"
| "chunk_n_tokens (ImageChunk t) = image_n_tokens t"
| "chunk_n_tokens (AudioChunk n _) = n"

fun chunk_n_pos :: "'i chunk \<Rightarrow> nat" where
  "chunk_n_pos (TextChunk toks) = length toks"
| "chunk_n_pos (ImageChunk t) = image_n_pos t"
| "chunk_n_pos (AudioChunk n _) = n"

subsection \<open>The context\<close>

text \<open>\<open>mtmd_image_preproc_out\<close>: an overview of size 0 by 0 is no overview.\<close>

record 'i preproc_out =
  pp_entries :: "'i list"
  pp_overview :: 'i
  pp_grid_x :: nat
  pp_grid_y :: nat

record 'i mtmd_ctx =
  mc_vision :: bool
  mc_audio :: bool
  mc_marker :: "byte list"
  mc_vocab :: "vocab option"
  mc_tokenize :: "byte list \<Rightarrow> bool \<Rightarrow> tokenizer"
  mc_mrope :: bool
  mc_hunyuanvl :: bool
  mc_temporal_merge :: nat
  mc_img_beg :: "byte list"
  mc_img_end :: "byte list"
  mc_aud_beg :: "byte list"
  mc_aud_end :: "byte list"
  mc_ov_img_start :: "llama_token list"
  mc_ov_img_end :: "llama_token list"
  mc_slices_start :: "llama_token list"
  mc_slices_end :: "llama_token list"
  mc_sli_img_start :: "llama_token list"
  mc_sli_img_end :: "llama_token list"
  mc_sli_img_mid :: "llama_token list"
  mc_row_end :: "llama_token list"
  mc_row_end_trail :: bool
  mc_ov_img_first :: bool
  mc_sli_img_tmpl :: "(nat \<Rightarrow> nat \<Rightarrow> byte list) option"
  mc_n_embd_out :: nat
  mc_dims :: "'i \<Rightarrow> nat \<times> nat"
  mc_no_image :: 'i
  mc_preproc_image :: "bitmap \<Rightarrow> 'i preproc_out exc"
  mc_preproc_audio :: "byte list \<Rightarrow> 'i list option exc"
  mc_n_output :: "'i \<Rightarrow> nat"
  mc_n_output_x :: "'i \<Rightarrow> nat"
  mc_n_output_y :: "'i \<Rightarrow> nat"
  mc_n_output_audio :: "'i \<Rightarrow> nat"

definition decode_use_mrope :: "'i mtmd_ctx \<Rightarrow> bool" where
  "decode_use_mrope c = mc_mrope c"

definition pos_type_of :: "'i mtmd_ctx \<Rightarrow> pos_type" where
  "pos_type_of c = (if mc_mrope c then MTMD_POS_TYPE_MROPE else MTMD_POS_TYPE_NORMAL)"

definition has_overview :: "'i mtmd_ctx \<Rightarrow> 'i preproc_out \<Rightarrow> bool" where
  "has_overview c p \<longleftrightarrow> fst (mc_dims c (pp_overview p)) > 0 \<or> snd (mc_dims c (pp_overview p)) > 0"

subsection \<open>Text\<close>

text \<open>\<open>std::string::find\<close> from the start of the list.\<close>

fun find_sub :: "byte list \<Rightarrow> byte list \<Rightarrow> nat option" where
  "find_sub d xs =
     (if take (length d) xs = d then Some 0
      else case xs of [] \<Rightarrow> None | _ # ys \<Rightarrow> map_option Suc (find_sub d ys))"

declare find_sub.simps [simp del]

text \<open>\<open>split_text\<close>; the constructor of \<open>mtmd_context\<close> refuses an empty marker.\<close>

function split_text :: "byte list \<Rightarrow> byte list \<Rightarrow> byte list list" where
  "split_text d xs =
     (if d = [] then [xs]
      else case find_sub d xs of
        None \<Rightarrow> (if xs = [] then [] else [xs])
      | Some p \<Rightarrow> (if p > 0 then [take p xs] else []) @ d # split_text d (drop (p + length d) xs))"
  by pat_completeness auto

lemma find_sub_bound: "find_sub d xs = Some p \<Longrightarrow> p + length d \<le> length xs \<and> take (length d) (drop p xs) = d"
proof (induction d xs arbitrary: p rule: find_sub.induct)
  case (1 d xs)
  show ?case
  proof (cases "take (length d) xs = d")
    case True
    then have "length d \<le> length xs" by (metis length_take min.cobounded1)
    with True 1(2) show ?thesis by (subst (asm) find_sub.simps) auto
  next
    case False
    with 1 show ?thesis by (subst (asm) (2) find_sub.simps) (auto split: list.splits)
  qed
qed

lemma find_sub_shorter: "find_sub d xs = Some p \<Longrightarrow> d \<noteq> [] \<Longrightarrow> length (drop (p + length d) xs) < length xs"
  using find_sub_bound [of d xs p] by (cases d) auto

termination split_text
  by (relation "measure (\<lambda>(d, xs). length xs)") (use find_sub_shorter in auto)

declare split_text.simps [simp del]

text \<open>\<open>mtmd_tokenize_text_internal\<close>, with \<open>add_special\<close> false as always here.\<close>

definition tokenize_text :: "'i mtmd_ctx \<Rightarrow> byte list \<Rightarrow> bool \<Rightarrow> (int + llama_token list) option" where
  "tokenize_text c txt parse =
     (if mc_vocab c = None then mfail 2
      else case mc_tokenize c txt parse (int (length txt)) of
        Throw \<Rightarrow> mfail 2
      | Ret (n, buf) \<Rightarrow>
          if n = INT32_MIN then mfail 2
          else if n < 0 then
            (case mc_tokenize c txt parse (- n) of
               Throw \<Rightarrow> mfail 2
             | Ret (check, buf) \<Rightarrow> massert (check = - n) (mret (take (nat (- n)) buf)))
          else mret (take (nat n) buf))"

definition add_tokens :: "llama_token list \<Rightarrow> 'i chunk list \<Rightarrow> 'i chunk list" where
  "add_tokens toks cur =
     (if toks = [] then cur
      else case (if cur = [] then None else Some (last cur)) of
        Some (TextChunk ts) \<Rightarrow> butlast cur @ [TextChunk (ts @ toks)]
      | _ \<Rightarrow> cur @ [TextChunk toks])"

definition add_text :: "'i mtmd_ctx \<Rightarrow> byte list \<Rightarrow> bool \<Rightarrow> 'i chunk list \<Rightarrow> (int + 'i chunk list) option" where
  "add_text c txt parse cur = mbind (tokenize_text c txt parse) (\<lambda>toks. mret (add_tokens toks cur))"

text \<open>\<open>if (!s.empty()) add_text(s, true)\<close>\<close>

definition add_mark :: "'i mtmd_ctx \<Rightarrow> byte list \<Rightarrow> 'i chunk list \<Rightarrow> (int + 'i chunk list) option" where
  "add_mark c txt cur = (if txt = [] then mret cur else add_text c txt True cur)"

subsection \<open>Images\<close>

definition tile_chunk :: "'i mtmd_ctx \<Rightarrow> 'i \<Rightarrow> (int + 'i chunk) option" where
  "tile_chunk c img =
     (let n = mc_n_output c img in
      massert (n > 0)
        (mret (ImageChunk \<lparr>it_nx = n, it_ny = 1, it_pos = MTMD_POS_TYPE_NORMAL, it_image_idx = 0,
                 it_n_temporal_merge = 1, it_entries = [img]\<rparr>)))"

definition no_size :: "'i mtmd_ctx \<Rightarrow> 'i \<Rightarrow> bool" where
  "no_size c img \<longleftrightarrow> fst (mc_dims c img) = 0 \<or> snd (mc_dims c img) = 0"

definition split_batch_to_chunk :: "'i mtmd_ctx \<Rightarrow> 'i preproc_out \<Rightarrow> (int + 'i chunk list) option" where
  "split_batch_to_chunk c p =
     (if no_size c (pp_overview p) then mfail 2
      else mbind (tile_chunk c (pp_overview p)) (\<lambda>ov.
        mfold (\<lambda>img cs. if no_size c img then mfail 2 else mbind (tile_chunk c img) (\<lambda>t. mret (cs @ [t])))
          (pp_entries p) [ov]))"

definition slice_start :: "'i mtmd_ctx \<Rightarrow> nat \<Rightarrow> nat \<Rightarrow> 'i chunk list \<Rightarrow> (int + 'i chunk list) option" where
  "slice_start c y x cur =
     (if mc_sli_img_start c \<noteq> [] then mret (add_tokens (mc_sli_img_start c) cur)
      else case mc_sli_img_tmpl c of
        None \<Rightarrow> mret cur
      | Some tmpl \<Rightarrow> add_text c (tmpl (y + 1) (x + 1)) True cur)"

definition add_slice :: "'i mtmd_ctx \<Rightarrow> 'i chunk list \<Rightarrow> nat \<Rightarrow> nat \<Rightarrow> nat \<Rightarrow> 'i chunk list \<Rightarrow> (int + 'i chunk list) option" where
  "add_slice c tiles n_col y x cur =
     mbind (slice_start c y x cur) (\<lambda>cur.
       let cur = add_tokens (mc_sli_img_end c) (cur @ [tiles ! (y * n_col + x)])
       in mret (if x = n_col - 1 then cur else add_tokens (mc_sli_img_mid c) cur))"

definition add_row :: "'i mtmd_ctx \<Rightarrow> 'i chunk list \<Rightarrow> nat \<Rightarrow> nat \<Rightarrow> nat \<Rightarrow> 'i chunk list \<Rightarrow> (int + 'i chunk list) option" where
  "add_row c tiles n_row n_col y cur =
     mbind (mfold (add_slice c tiles n_col y) [0..<n_col] cur) (\<lambda>cur.
       mret (if y \<noteq> n_row - 1 \<or> mc_row_end_trail c then add_tokens (mc_row_end c) cur else cur))"

definition add_overview :: "'i mtmd_ctx \<Rightarrow> 'i chunk \<Rightarrow> 'i chunk list \<Rightarrow> 'i chunk list" where
  "add_overview c ov cur = add_tokens (mc_ov_img_end c) (add_tokens (mc_ov_img_start c) cur @ [ov])"

text \<open>The llava-uhd layout: an overview and a grid of slices.\<close>

definition add_tiles :: "'i mtmd_ctx \<Rightarrow> 'i preproc_out \<Rightarrow> 'i chunk list \<Rightarrow> (int + 'i chunk list) option" where
  "add_tiles c p cur =
     mbind (split_batch_to_chunk c p) (\<lambda>chunks.
       let ov = hd chunks; tiles = tl chunks; n_col = pp_grid_x p; n_row = pp_grid_y p;
           cur1 = (if mc_ov_img_first c then add_overview c ov cur else cur)
       in mbind (if tiles = [] then mret cur1
                 else massert (length tiles = n_row * n_col)
                   (mbind (mfold (add_row c tiles n_row n_col) [0..<n_row] (add_tokens (mc_slices_start c) cur1))
                      (\<lambda>cur. mret (add_tokens (mc_slices_end c) cur))))
            (\<lambda>cur2. mret (if mc_ov_img_first c then cur2 else add_overview c ov cur2)))"

definition whole_image :: "'i mtmd_ctx \<Rightarrow> nat \<Rightarrow> 'i list \<Rightarrow> nat \<Rightarrow> 'i image_tokens" where
  "whole_image c idx entries n_tokens =
     (let t = \<lparr>it_nx = (if decode_use_mrope c then mc_n_output_x c (hd entries) else n_tokens),
               it_ny = (if decode_use_mrope c then mc_n_output_y c (hd entries) else 1),
               it_pos = pos_type_of c, it_image_idx = 0, it_n_temporal_merge = mc_temporal_merge c, it_entries = entries\<rparr>
      in if mc_hunyuanvl c then t\<lparr>it_pos := MTMD_POS_TYPE_HUNYUANVL, it_image_idx := idx\<rparr> else t)"

text \<open>The number of output tokens of the entries; entries merged in time count once.\<close>

definition entries_n_tokens :: "'i mtmd_ctx \<Rightarrow> 'i list \<Rightarrow> nat" where
  "entries_n_tokens c es =
     (if mc_temporal_merge c = 2 then sum_list (map (mc_n_output c) (take 1 es)) else sum_list (map (mc_n_output c) es))"

definition add_whole :: "'i mtmd_ctx \<Rightarrow> nat \<Rightarrow> 'i preproc_out \<Rightarrow> 'i chunk list \<Rightarrow> (int + 'i chunk list) option" where
  "add_whole c idx p cur =
     (if pp_entries p = [] then mfail 2
      else
        let n = entries_n_tokens c (pp_entries p); t = whole_image c idx (pp_entries p) n
        in massert (mc_hunyuanvl c \<longrightarrow> n = image_n_tokens t) (mret (cur @ [ImageChunk t])))"

text \<open>Preprocessing the bitmaps of one marker, more than one only if they were merged.\<close>

definition preproc_step :: "'i mtmd_ctx \<Rightarrow> nat \<Rightarrow> bitmap \<Rightarrow> 'i preproc_out \<Rightarrow> (int + 'i preproc_out) option" where
  "preproc_step c n_bitmaps bmp p =
     massert (\<not> bm_is_audio bmp)
       (if bm_nx bmp = 0 \<or> bm_ny bmp = 0 then mfail 2
        else case mc_preproc_image c bmp of
          Throw \<Rightarrow> mfail 2
        | Ret q \<Rightarrow>
            let p1 = p\<lparr>pp_entries := pp_entries p @ pp_entries q\<rparr> in
            if pp_grid_x q > 0 \<and> pp_grid_y q > 0 \<or> has_overview c q then
              massert (n_bitmaps = 1)
                (mret (p1\<lparr>pp_grid_x := pp_grid_x q, pp_grid_y := pp_grid_y q, pp_overview := pp_overview q\<rparr>))
            else mret p1)"

definition add_image :: "'i mtmd_ctx \<Rightarrow> bitmap list \<Rightarrow> 'i chunk list \<times> nat \<Rightarrow> (int + 'i chunk list \<times> nat) option" where
  "add_image c bitmaps s =
     (if \<not> mc_vision c then mfail 2
      else mbind (add_mark c (mc_img_beg c) (fst s)) (\<lambda>cur.
        mbind (mfold (preproc_step c (length bitmaps)) bitmaps
                 \<lparr>pp_entries = [], pp_overview = mc_no_image c, pp_grid_x = 0, pp_grid_y = 0\<rparr>) (\<lambda>p.
          mbind (if pp_grid_x p > 0 \<and> pp_grid_y p > 0 \<or> has_overview c p
                 then massert (length bitmaps = 1) (add_tiles c p cur)
                 else add_whole c (snd s) p cur) (\<lambda>cur.
            mbind (add_mark c (mc_img_end c) cur) (\<lambda>cur. mret (cur, snd s + 1))))))"

subsection \<open>Audio\<close>

text \<open>A clip that was decoded has its samples; it is a placeholder if there are none.\<close>

definition add_audio :: "'i mtmd_ctx \<Rightarrow> bitmap list \<Rightarrow> 'i chunk list \<times> nat \<Rightarrow> (int + 'i chunk list \<times> nat) option" where
  "add_audio c bitmaps s =
     massert (length bitmaps = 1)
       (let b = hd bitmaps in
        if \<not> mc_audio c \<or> bm_nx b = 0 then mfail 2
        else mbind (add_mark c (mc_aud_beg c) (fst s)) (\<lambda>cur.
          let samples = (if bm_data b = [] then replicate (4 * bm_nx b) 0 else bm_data b) in
          massert (if bm_data b = [] then bm_ny b = 1 else length (bm_data b) > 4 \<and> length (bm_data b) mod 4 = 0)
            (case mc_preproc_audio c samples of
               Ret (Some mels) \<Rightarrow>
                 mbind (add_mark c (mc_aud_end c) (cur @ map (\<lambda>m. AudioChunk (mc_n_output_audio c m) m) mels))
                   (\<lambda>cur. mret (cur, snd s))
             | _ \<Rightarrow> mfail 2)))"

definition add_media :: "'i mtmd_ctx \<Rightarrow> bitmap list \<Rightarrow> 'i chunk list \<times> nat \<Rightarrow> (int + 'i chunk list \<times> nat) option" where
  "add_media c bitmaps s =
     massert (bitmaps \<noteq> []) (if \<not> bm_is_audio (hd bitmaps) then add_image c bitmaps s else add_audio c bitmaps s)"

subsection \<open>The tokenizer\<close>

datatype part = TextPart "byte list" | MediaPart bitmap

text \<open>The constructor: one bitmap per marker, in order, and none left over.\<close>

fun make_parts :: "byte list \<Rightarrow> byte list list \<Rightarrow> bitmap list \<Rightarrow> (int + part list) option" where
  "make_parts marker [] bms = (if bms = [] then mret [] else mfail 2)"
| "make_parts marker (s # ss) bms =
     (if s = marker then
        (case bms of [] \<Rightarrow> mfail 2 | b # bs \<Rightarrow> mbind (make_parts marker ss bs) (\<lambda>ps. mret (MediaPart b # ps)))
      else mbind (make_parts marker ss bms) (\<lambda>ps. mret (TextPart s # ps)))"

text \<open>The bitmaps that share a marker, and the parts that are left.\<close>

fun group_mergeable :: "nat \<Rightarrow> part list \<Rightarrow> bitmap list list \<times> part list" where
  "group_mergeable n [] = ([], [])"
| "group_mergeable n (TextPart s # ps) = (let (g, qs) = group_mergeable n ps in (g, TextPart s # qs))"
| "group_mergeable n (MediaPart a # MediaPart b # ps) =
     (if n > 1 \<and> can_merge_with a b
      then (let (g, qs) = group_mergeable n ps in ([a, b] # g, MediaPart a # qs))
      else (let (g, qs) = group_mergeable n (MediaPart b # ps) in ([a] # g, MediaPart a # qs)))"
| "group_mergeable n (MediaPart a # ps) = (let (g, qs) = group_mergeable n ps in ([a] # g, MediaPart a # qs))"

fun add_parts :: "'i mtmd_ctx \<Rightarrow> bool \<Rightarrow> part list \<Rightarrow> bitmap list list \<Rightarrow> 'i chunk list \<times> nat \<Rightarrow>
    (int + 'i chunk list \<times> bitmap list list) option" where
  "add_parts c parse [] g s = mret (fst s, g)"
| "add_parts c parse (TextPart t # ps) g s =
     mbind (add_text c t parse (fst s)) (\<lambda>cur. add_parts c parse ps g (cur, snd s))"
| "add_parts c parse (MediaPart b # ps) g s =
     (case g of [] \<Rightarrow> mfail 1
      | bms # g' \<Rightarrow> mbind (add_media c bms s) (add_parts c parse ps g'))"

definition add_bos :: "vocab \<Rightarrow> 'i chunk list \<Rightarrow> 'i chunk list" where
  "add_bos v cur =
     (case cur of TextChunk ts # cs \<Rightarrow> TextChunk (v_bos_id v # ts) # cs | _ \<Rightarrow> TextChunk [v_bos_id v] # cur)"

definition add_specials :: "'i mtmd_ctx \<Rightarrow> bool \<Rightarrow> 'i chunk list \<Rightarrow> 'i chunk list" where
  "add_specials c add_special cur =
     (case mc_vocab c of None \<Rightarrow> cur
      | Some v \<Rightarrow>
          let cur1 = (if add_special \<and> v_add_bos v then add_bos v cur else cur)
          in if add_special \<and> v_add_eos v then add_tokens [v_eos_id v] cur1 else cur1)"

definition mtmd_tokenize :: "'i mtmd_ctx \<Rightarrow> byte list \<Rightarrow> bool \<Rightarrow> bool \<Rightarrow> bitmap list \<Rightarrow> (int + 'i chunk list) option" where
  "mtmd_tokenize c txt add_special parse_special bitmaps =
     mbind (make_parts (mc_marker c) (split_text (mc_marker c) txt) bitmaps) (\<lambda>parts.
       let n_merge = (if mc_vision c then mc_temporal_merge c else 1); (g, ps) = group_mergeable n_merge parts
       in massert (n_merge \<le> 2)
         (mbind (add_parts c parse_special ps g ([], 0)) (\<lambda>(cur, rest).
            if rest \<noteq> [] then mfail 1 else mret (add_specials c add_special cur))))"

end
