(* ===== verification/Mtmd_Eval.thy ===== *)
theory Mtmd_Eval
  imports Mtmd_Chunks Safe_Shim
begin

text \<open>
  Evaluating chunks (\<open>mtmd-helper.cpp\<close>, \<open>mtmd-helper-common.h\<close>, \<open>mtmd_encode_chunk\<close>). The engine is the record
  \<open>media_engine\<close>: decoding a batch of tokens and one of embeddings, as the \<open>k\<close>-th decode of the
  call, and the attention mode. The vision and audio encoders are \<open>me_encode\<close>, which fills a
  vector that the code has sized. \<open>None\<close> is a failed assertion or a read past the embeddings.
\<close>

record decoder_pos =
  dp_t :: int
  dp_x :: int
  dp_y :: int
  dp_z :: int

text \<open>A view of embeddings handed to \<open>llama_decode\<close>: one list of floats per row.\<close>

record embd_view =
  ev_embd :: "rat list list"
  ev_pos :: "llama_pos list"
  ev_seq_id :: "llama_seq_id list"
  ev_logits :: "bool list"

record ('n, 'i) media_engine =
  me_decode :: "nat \<Rightarrow> llama_batch \<Rightarrow> 'n \<Rightarrow> int exc \<times> 'n"
  me_decode_embd :: "nat \<Rightarrow> embd_view \<Rightarrow> 'n \<Rightarrow> int exc \<times> 'n"
  me_set_causal :: "bool \<Rightarrow> 'n \<Rightarrow> 'n"
  me_n_embd_inp :: nat
  me_non_causal :: "'i chunk \<Rightarrow> bool"
  me_placeholder :: "'i \<Rightarrow> bool"
  me_encode :: "bool \<Rightarrow> 'i list \<Rightarrow> (nat \<Rightarrow> rat) option exc"

definition helper_n_tokens :: "'i chunk list \<Rightarrow> nat" where
  "helper_n_tokens cs = sum_list (map chunk_n_tokens cs)"

definition helper_n_pos :: "'i chunk list \<Rightarrow> int" where
  "helper_n_pos cs = sum_list (map (\<lambda>c. int (chunk_n_pos c)) cs)"

definition image_decoder_pos :: "'i image_tokens \<Rightarrow> int \<Rightarrow> nat \<Rightarrow> decoder_pos" where
  "image_decoder_pos t pos_0 i =
     (case it_pos t of
        MTMD_POS_TYPE_MROPE \<Rightarrow>
          \<lparr>dp_t = pos_0, dp_x = pos_0 + int (i mod it_nx t), dp_y = pos_0 + int (i div it_nx t), dp_z = 0\<rparr>
      | MTMD_POS_TYPE_NORMAL \<Rightarrow>
          \<lparr>dp_t = pos_0 + int i, dp_x = pos_0 + int i, dp_y = pos_0 + int i, dp_z = pos_0 + int i\<rparr>
      | MTMD_POS_TYPE_HUNYUANVL \<Rightarrow>
          if i = 0 \<or> i = image_n_tokens t - 1 then
            \<lparr>dp_t = pos_0 + int i, dp_x = pos_0 + int i, dp_y = pos_0 + int i, dp_z = pos_0 + int i\<rparr>
          else
            \<lparr>dp_t = pos_0 + int i, dp_x = int ((i - 1) div (it_nx t + 1)), dp_y = int ((i - 1) mod (it_nx t + 1)),
             dp_z = int (it_image_idx t)\<rparr>)"

subsection \<open>A batch of embeddings\<close>

record embd_batch =
  eb_n_tokens :: nat
  eb_n_pos :: nat
  eb_n_embd :: nat
  eb_embd :: "rat list"
  eb_pos :: "llama_pos list"
  eb_seq :: llama_seq_id

definition embd_batch_new :: "rat list \<Rightarrow> nat \<Rightarrow> nat \<Rightarrow> nat \<Rightarrow> embd_batch option" where
  "embd_batch_new embd n_tokens n_pos n_embd =
     (if n_tokens > 0 \<and> n_pos > 0 \<and> n_embd > 0
      then Some \<lparr>eb_n_tokens = n_tokens, eb_n_pos = n_pos, eb_n_embd = n_embd, eb_embd = embd,
                 eb_pos = replicate (n_tokens * n_pos) 0, eb_seq = 0\<rparr>
      else None)"

definition set_position_normal :: "int \<Rightarrow> int \<Rightarrow> embd_batch \<Rightarrow> embd_batch" where
  "set_position_normal pos_0 seq_id b =
     b\<lparr>eb_seq := seq_id,
       eb_pos := map (\<lambda>i. pos_0 + int i) [0..<eb_n_tokens b] @ drop (eb_n_tokens b) (eb_pos b)\<rparr>"

definition set_position_mrope_2d :: "decoder_pos list \<Rightarrow> int \<Rightarrow> embd_batch \<Rightarrow> embd_batch option" where
  "set_position_mrope_2d rel seq_id b =
     (if eb_n_pos b = 4 \<and> rel \<noteq> [] \<and> length rel = eb_n_tokens b
      then Some (b\<lparr>eb_seq := seq_id, eb_pos := map dp_t rel @ map dp_y rel @ map dp_x rel @ map dp_z rel\<rparr>)
      else None)"

definition set_position_mrope_1d :: "int \<Rightarrow> int \<Rightarrow> embd_batch \<Rightarrow> embd_batch option" where
  "set_position_mrope_1d pos_0 seq_id b =
     (if eb_n_pos b = 4
      then Some (b\<lparr>eb_seq := seq_id,
                   eb_pos := concat (replicate 4 (map (\<lambda>i. pos_0 + int i) [0..<eb_n_tokens b]))\<rparr>)
      else None)"

text \<open>
  The view; \<open>llama_decode\<close> reads \<open>n_tokens * n_embd\<close> floats from its pointer, so the view exists only if
  they are there.
\<close>

definition view_rows :: "nat \<Rightarrow> nat \<Rightarrow> nat \<Rightarrow> rat list \<Rightarrow> rat list list" where
  "view_rows n_embd offset n embd = map (\<lambda>i. take n_embd (drop ((offset + i) * n_embd) embd)) [0..<n]"

definition get_view :: "nat \<Rightarrow> nat \<Rightarrow> embd_batch \<Rightarrow> embd_view option" where
  "get_view offset n b =
     (if n > 0 \<and> offset + n \<le> eb_n_tokens b \<and> (offset + n) * eb_n_embd b \<le> length (eb_embd b)
      then Some \<lparr>ev_embd = view_rows (eb_n_embd b) offset n (eb_embd b),
                 ev_pos = (if eb_n_pos b > 1
                           then concat (map (\<lambda>i. take n (drop (i * eb_n_tokens b + offset) (eb_pos b))) [0..<eb_n_pos b])
                           else take n (drop offset (eb_pos b))),
                 ev_seq_id = replicate n (eb_seq b), ev_logits = replicate n False\<rparr>
      else None)"

subsection \<open>Decoding\<close>

text \<open>The result of a step: what it returned, \<open>*new_n_past\<close>, the engine and the decodes so far.\<close>

type_synonym 'n eval_res = "(int exc \<times> int \<times> 'n \<times> nat) option"

fun media_loop :: "('n, 'i) media_engine \<Rightarrow> embd_batch \<Rightarrow> nat \<Rightarrow> nat \<Rightarrow> nat \<Rightarrow> 'n \<times> nat \<Rightarrow> (int exc \<times> 'n \<times> nat) option" where
  "media_loop e b n_batch i_batch 0 s = Some (Ret 0, s)"
| "media_loop e b n_batch i_batch (Suc left) s =
     (let offset = i_batch * n_batch; n = min n_batch (eb_n_tokens b - offset) in
      case get_view offset n b of
        None \<Rightarrow> None
      | Some v \<Rightarrow>
          (let (r, st) = me_decode_embd e (snd s) v (fst s); s' = (st, Suc (snd s)) in
           case r of
             Throw \<Rightarrow> Some (Throw, s')
           | Ret rc \<Rightarrow> if rc \<noteq> 0 then Some (Ret rc, s') else media_loop e b n_batch (Suc i_batch) left s'))"

definition media_positions :: "'i mtmd_ctx \<Rightarrow> 'i chunk \<Rightarrow> int \<Rightarrow> int \<Rightarrow> embd_batch \<Rightarrow> embd_batch option" where
  "media_positions c ch n_past seq_id b =
     (if decode_use_mrope c then
        (case ch of
           ImageChunk t \<Rightarrow> set_position_mrope_2d (map (image_decoder_pos t n_past) [0..<image_n_tokens t]) seq_id b
         | AudioChunk _ _ \<Rightarrow> set_position_mrope_1d n_past seq_id b
         | TextChunk _ \<Rightarrow> None)
      else Some (set_position_normal n_past seq_id b))"

definition decode_image_chunk ::
  "'i mtmd_ctx \<Rightarrow> ('n, 'i) media_engine \<Rightarrow> 'i chunk \<Rightarrow> rat list \<Rightarrow> int \<Rightarrow> int \<Rightarrow> nat \<Rightarrow> int \<Rightarrow> 'n \<times> nat \<Rightarrow> 'n eval_res" where
  "decode_image_chunk c e ch embd n_past seq_id n_batch new_n_past s =
     (if n_batch = 0 then None
      else case ch of TextChunk _ \<Rightarrow> Some (Ret (-1), new_n_past, s)
      | _ \<Rightarrow>
          let n_tokens = chunk_n_tokens ch; n_img_batches = (n_tokens + n_batch - 1) div n_batch in
          case Option.bind (embd_batch_new embd n_tokens (if decode_use_mrope c then 4 else 1) (me_n_embd_inp e))
                 (media_positions c ch n_past seq_id) of
            None \<Rightarrow> None
          | Some b \<Rightarrow>
              let non_causal = me_non_causal e ch;
                  st = (if non_causal then me_set_causal e False (fst s) else fst s)
              in map_option (\<lambda>(r, st', k). (r, if r = Ret 0 then n_past + int (chunk_n_pos ch) else new_n_past,
                                if non_causal then me_set_causal e True st' else st', k))
                   (media_loop e b n_batch 0 n_img_batches (st, snd s)))"

text \<open>\<open>mtmd_encode_chunk\<close>: its return value and \<open>out_embd\<close>; an exception of the encoder is the code 1.\<close>

definition encode_entries :: "'i mtmd_ctx \<Rightarrow> ('n, 'i) media_engine \<Rightarrow> bool \<Rightarrow> 'i list \<Rightarrow> nat \<Rightarrow> int \<times> rat list" where
  "encode_entries c e audio es n_tokens =
     (if list_ex (me_placeholder e) es then (1, [])
      else case me_encode e audio es of
        Ret (Some f) \<Rightarrow> (0, map f [0..<mc_n_embd_out c * n_tokens])
      | _ \<Rightarrow> (1, []))"

definition mtmd_encode_chunk :: "'i mtmd_ctx \<Rightarrow> ('n, 'i) media_engine \<Rightarrow> 'i chunk \<Rightarrow> int \<times> rat list" where
  "mtmd_encode_chunk c e ch =
     (case ch of
        TextChunk _ \<Rightarrow> (0, [])
      | ImageChunk t \<Rightarrow> if \<not> mc_vision c then (1, []) else encode_entries c e False (it_entries t) (image_n_tokens t)
      | AudioChunk n m \<Rightarrow> if \<not> mc_audio c then (1, []) else encode_entries c e True [m] n)"

definition text_batch :: "llama_token list \<Rightarrow> int \<Rightarrow> int \<Rightarrow> bool \<Rightarrow> llama_batch" where
  "text_batch toks n_past seq_id want_logits =
     \<lparr>b_token = toks, b_pos = Some (map (\<lambda>j. n_past + int j) [0..<length toks]),
      b_seq_id = Some (replicate (length toks) [seq_id]),
      b_logits = Some (map (\<lambda>j. want_logits \<and> Suc j = length toks) [0..<length toks])\<rparr>"

function text_loop ::
  "('n, 'i) media_engine \<Rightarrow> nat \<Rightarrow> int \<Rightarrow> bool \<Rightarrow> llama_token list \<Rightarrow> int \<Rightarrow> int \<Rightarrow> 'n \<times> nat \<Rightarrow> 'n eval_res" where
  "text_loop e n_batch seq_id logits_last toks n_past new_n_past s =
     (if n_batch = 0 then None
      else if toks = [] then Some (Ret 0, new_n_past, s)
      else
        let b = take n_batch toks; left = drop n_batch toks;
            (r, st) = me_decode e (snd s) (text_batch b n_past seq_id (logits_last \<and> left = [])) (fst s);
            s' = (st, Suc (snd s))
        in case r of
             Throw \<Rightarrow> Some (Throw, new_n_past, s')
           | Ret rc \<Rightarrow>
               if rc \<noteq> 0 then Some (Ret rc, new_n_past, s')
               else text_loop e n_batch seq_id logits_last left (n_past + int (length b)) (new_n_past + int (length b)) s')"
  by pat_completeness auto
termination
  by (relation "measure (\<lambda>(e, n_batch, seq_id, logits_last, toks, n_past, new_n_past, s). length toks)") auto

declare text_loop.simps [simp del]

definition eval_chunk_single ::
  "'i mtmd_ctx \<Rightarrow> ('n, 'i) media_engine \<Rightarrow> 'i chunk \<Rightarrow> int \<Rightarrow> int \<Rightarrow> nat \<Rightarrow> bool \<Rightarrow> int \<Rightarrow> 'n \<times> nat \<Rightarrow> 'n eval_res" where
  "eval_chunk_single c e ch n_past seq_id n_batch logits_last new_n_past s =
     (if n_batch = 0 then None
      else case ch of
        TextChunk toks \<Rightarrow> text_loop e n_batch seq_id logits_last toks n_past new_n_past s
      | _ \<Rightarrow>
          let (rc, embd) = mtmd_encode_chunk c e ch in
          if rc \<noteq> 0 then Some (Ret rc, new_n_past, s)
          else decode_image_chunk c e ch embd n_past seq_id n_batch new_n_past s)"

text \<open>\<open>mtmd_helper_eval_chunks\<close>: \<open>n_past\<close> and \<open>*new_n_past\<close>.\<close>

fun eval_loop ::
  "'i mtmd_ctx \<Rightarrow> ('n, 'i) media_engine \<Rightarrow> int \<Rightarrow> nat \<Rightarrow> bool \<Rightarrow> 'i chunk list \<Rightarrow> int \<Rightarrow> int \<Rightarrow> 'n \<times> nat \<Rightarrow> 'n eval_res" where
  "eval_loop c e seq_id n_batch logits_last [] n_past new_n_past s = Some (Ret 0, new_n_past, s)"
| "eval_loop c e seq_id n_batch logits_last (ch # chs) n_past new_n_past s =
     (case eval_chunk_single c e ch n_past seq_id n_batch (chs = [] \<and> logits_last) n_past s of
        Some (Ret rc, n_past', s') \<Rightarrow>
          if rc \<noteq> 0 then Some (Ret rc, new_n_past, s')
          else eval_loop c e seq_id n_batch logits_last chs n_past' n_past' s'
      | Some (Throw, n_past', s') \<Rightarrow> Some (Throw, new_n_past, s')
      | None \<Rightarrow> None)"

definition helper_eval_chunks ::
  "'i mtmd_ctx \<Rightarrow> ('n, 'i) media_engine \<Rightarrow> 'i chunk list \<Rightarrow> int \<Rightarrow> int \<Rightarrow> nat \<Rightarrow> bool \<Rightarrow> int \<Rightarrow> 'n \<Rightarrow> 'n eval_res" where
  "helper_eval_chunks c e chs n_past seq_id n_batch logits_last new_n_past n =
     eval_loop c e seq_id n_batch logits_last chs n_past new_n_past (n, 0)"

end
