(* ===== verification/Mtmd_Rows.thy ===== *)
theory Mtmd_Rows
  imports Mtmd_Eval
begin

text \<open>
  What the evaluation of a prompt feeds to the engine. A row is a token or an embedding with its
  positions (one, or four with M-RoPE), its sequence and whether its logits are wanted. Of an engine that
  appends the rows of every successful decode to a log, the log grows by exactly the rows of the chunks, in
  order and each at its own position, however they were split into batches.
\<close>

datatype row_input = RowToken llama_token | RowEmbd "rat list"

record fed_row =
  r_input :: row_input
  r_pos :: "llama_pos list"
  r_seq :: llama_seq_id
  r_logits :: bool

definition batch_rows :: "llama_batch \<Rightarrow> fed_row list" where
  "batch_rows b =
     map (\<lambda>j. \<lparr>r_input = RowToken (b_token b ! j), r_pos = [the (b_pos b) ! j], r_seq = hd (the (b_seq_id b) ! j),
              r_logits = the (b_logits b) ! j\<rparr>) [0..<length (b_token b)]"

text \<open>The positions of a view of \<open>n\<close> rows lie in blocks of \<open>n\<close>, one per dimension.\<close>

definition embd_rows :: "embd_view \<Rightarrow> fed_row list" where
  "embd_rows v =
     (let n = length (ev_embd v) in
      map (\<lambda>j. \<lparr>r_input = RowEmbd (ev_embd v ! j),
               r_pos = map (\<lambda>d. ev_pos v ! (d * n + j)) [0..<length (ev_pos v) div n],
               r_seq = ev_seq_id v ! j, r_logits = ev_logits v ! j\<rparr>) [0..<n])"

definition logs :: "('n, 'i) media_engine \<Rightarrow> ('n \<Rightarrow> fed_row list) \<Rightarrow> bool" where
  "logs e fed \<longleftrightarrow>
     (\<forall>k b n n'. me_decode e k b n = (Ret 0, n') \<longrightarrow> fed n' = fed n @ batch_rows b) \<and>
     (\<forall>k v n n'. me_decode_embd e k v n = (Ret 0, n') \<longrightarrow> fed n' = fed n @ embd_rows v) \<and>
     (\<forall>x n. fed (me_set_causal e x n) = fed n)"

subsection \<open>The rows of a prompt\<close>

definition media_pos :: "'i mtmd_ctx \<Rightarrow> 'i chunk \<Rightarrow> int \<Rightarrow> nat \<Rightarrow> llama_pos list" where
  "media_pos c ch n_past j =
     (if decode_use_mrope c then
        (case ch of
           ImageChunk t \<Rightarrow> (let p = image_decoder_pos t n_past j in [dp_t p, dp_y p, dp_x p, dp_z p])
         | _ \<Rightarrow> replicate 4 (n_past + int j))
      else [n_past + int j])"

definition chunk_rows :: "'i mtmd_ctx \<Rightarrow> ('n, 'i) media_engine \<Rightarrow> int \<Rightarrow> int \<Rightarrow> bool \<Rightarrow> 'i chunk \<Rightarrow> fed_row list" where
  "chunk_rows c e seq_id n_past want ch =
     (case ch of
        TextChunk toks \<Rightarrow>
          map (\<lambda>j. \<lparr>r_input = RowToken (toks ! j), r_pos = [n_past + int j], r_seq = seq_id,
                   r_logits = want \<and> Suc j = length toks\<rparr>) [0..<length toks]
      | _ \<Rightarrow>
          map (\<lambda>j. \<lparr>r_input = RowEmbd (take (me_n_embd_inp e) (drop (j * me_n_embd_inp e) (snd (mtmd_encode_chunk c e ch)))),
                   r_pos = media_pos c ch n_past j, r_seq = seq_id, r_logits = False\<rparr>) [0..<chunk_n_tokens ch])"

fun prompt_rows :: "'i mtmd_ctx \<Rightarrow> ('n, 'i) media_engine \<Rightarrow> int \<Rightarrow> bool \<Rightarrow> int \<Rightarrow> 'i chunk list \<Rightarrow> fed_row list" where
  "prompt_rows c e seq_id want n_past [] = []"
| "prompt_rows c e seq_id want n_past (ch # chs) =
     chunk_rows c e seq_id n_past (chs = [] \<and> want) ch @ prompt_rows c e seq_id want (n_past + int (chunk_n_pos ch)) chs"

subsection \<open>Text\<close>

definition token_row :: "int \<Rightarrow> int \<Rightarrow> bool \<Rightarrow> llama_token list \<Rightarrow> nat \<Rightarrow> fed_row" where
  "token_row seq_id n_past want toks j =
     \<lparr>r_input = RowToken (toks ! j), r_pos = [n_past + int j], r_seq = seq_id, r_logits = want \<and> Suc j = length toks\<rparr>"

lemma batch_rows_text:
  "batch_rows (text_batch toks n_past seq_id want) = map (token_row seq_id n_past want toks) [0..<length toks]"
  by (simp add: batch_rows_def text_batch_def token_row_def)

lemma shift_upt: "map (\<lambda>j. f (m + j)) [0..<k] = map f [m..<m + k]"
  by (rule nth_equalityI) auto

lemma token_rows_split:
  assumes "m < length toks"
  shows "map (token_row seq_id n_past want toks) [0..<length toks] =
     map (token_row seq_id n_past False (take m toks)) [0..<m] @
     map (token_row seq_id (n_past + int m) want (drop m toks)) [0..<length toks - m]"
proof -
  have "[0..<length toks] = [0..<m] @ [m..<m + (length toks - m)]"
    using upt_add_eq_append [of 0 m "length toks - m"] assms by simp
  then have "map f [0..<length toks] = map f [0..<m] @ map (\<lambda>j. f (m + j)) [0..<length toks - m]" for f :: "nat \<Rightarrow> fed_row"
    by (simp add: shift_upt)
  then show ?thesis using assms by (auto simp: token_row_def)
qed

lemma text_loop_rows:
  assumes "logs e fed" "0 < n_batch" "text_loop e n_batch seq_id want toks n_past new_n_past s = Some (Ret 0, np, s')"
  shows "fed (fst s') = fed (fst s) @ map (token_row seq_id n_past want toks) [0..<length toks] \<and>
     np = new_n_past + int (length toks)"
  using assms(3)
proof (induction "length toks" arbitrary: toks n_past new_n_past s rule: less_induct)
  case less
  show ?case
  proof (cases "toks = []")
    case True
    with less.prems assms(2) show ?thesis by (subst (asm) text_loop.simps) simp
  next
    case False
    let ?b = "take n_batch toks" and ?left = "drop n_batch toks"
    obtain r st where d: "me_decode e (snd s) (text_batch ?b n_past seq_id (want \<and> ?left = [])) (fst s) = (r, st)" by fastforce
    have r: "r = Ret 0" and rest: "text_loop e n_batch seq_id want ?left (n_past + int (length ?b))
        (new_n_past + int (length ?b)) (st, Suc (snd s)) = Some (Ret 0, np, s')"
      using less.prems [unfolded text_loop.simps [of e n_batch seq_id want toks n_past new_n_past s]] False assms(2)
      by (auto simp: d d [simplified] Let_def split: exc.splits if_splits)
    have fed: "fed st = fed (fst s) @ map (token_row seq_id n_past (want \<and> ?left = []) ?b) [0..<length ?b]"
      using assms(1) d unfolding r logs_def batch_rows_text [symmetric] by blast
    have "length ?left < length toks" using False assms(2) by simp
    from less.hyps [OF this rest] have ih: "fed (fst s') = fed st @
        map (token_row seq_id (n_past + int (length ?b)) want ?left) [0..<length ?left]"
      "np = new_n_past + int (length ?b) + int (length ?left)" by simp_all
    have "int (length ?b) + int (length ?left) = int (length toks)" by simp
    then have np: "np = new_n_past + int (length toks)" using ih(2) by linarith
    show ?thesis
    proof (cases "n_batch < length toks")
      case True
      then have "length ?b = n_batch" "?left \<noteq> []" by simp_all
      with token_rows_split [OF True, of seq_id n_past want] fed ih(1) np show ?thesis by simp
    next
      case False
      with fed ih(1) np show ?thesis by simp
    qed
  qed
qed

subsection \<open>Media\<close>

definition row_of :: "embd_batch \<Rightarrow> nat \<Rightarrow> fed_row" where
  "row_of b j =
     \<lparr>r_input = RowEmbd (take (eb_n_embd b) (drop (j * eb_n_embd b) (eb_embd b))),
      r_pos = map (\<lambda>d. eb_pos b ! (d * eb_n_tokens b + j)) [0..<eb_n_pos b], r_seq = eb_seq b, r_logits = False\<rparr>"

definition batch_ok :: "embd_batch \<Rightarrow> bool" where
  "batch_ok b \<longleftrightarrow> length (eb_pos b) = eb_n_pos b * eb_n_tokens b \<and> 0 < eb_n_pos b \<and> 0 < eb_n_tokens b \<and> 0 < eb_n_embd b"

lemma nth_concat_blocks:
  assumes "\<And>i. i < m \<Longrightarrow> length (f i) = n" "d < m" "j < n"
  shows "concat (map f [0..<m]) ! (d * n + j) = f d ! j" "length (concat (map f [0..<m])) = m * n"
proof -
  have len: "length (concat (map f [0..<k])) = k * n" if "k \<le> m" for k
    using that assms(1) by (induction k) auto
  have "concat (map f [0..<k]) ! (d * n + j) = f d ! j" if "k \<le> m" "d < k" for k
    using that
  proof (induction k)
    case (Suc k)
    show ?case
    proof (cases "d = k")
      case True
      with Suc.prems show ?thesis using len [of k] by (simp add: nth_append)
    next
      case False
      have "d * n + j < (d + 1) * n" using assms(3) by simp
      also have "\<dots> \<le> k * n" using False Suc.prems by (intro mult_le_mono1) simp
      finally show ?thesis using False Suc len [of k] by (simp add: nth_append)
    qed
  qed simp
  then show "concat (map f [0..<m]) ! (d * n + j) = f d ! j" "length (concat (map f [0..<m])) = m * n"
    using assms(2) len [of m] by simp_all
qed

lemma get_view_rows:
  assumes b: "batch_ok b" and v: "get_view offset n b = Some v"
  shows "embd_rows v = map (\<lambda>j. row_of b (offset + j)) [0..<n]" "length (ev_embd v) = n"
proof -
  let ?N = "eb_n_tokens b" and ?D = "eb_n_pos b"
  let ?f = "\<lambda>i. take n (drop (i * ?N + offset) (eb_pos b))"
  have n: "0 < n" "offset + n \<le> ?N" using v by (simp_all add: get_view_def split: if_splits)
  have len: "length (?f i) = n" if "i < ?D" for i
  proof -
    have "i * ?N + offset + n \<le> (i + 1) * ?N" using n(2) by simp
    also have "\<dots> \<le> ?D * ?N" using that by (intro mult_le_mono1) simp
    finally show ?thesis using b by (simp add: batch_ok_def)
  qed
  have pos: "ev_pos v = concat (map ?f [0..<?D])"
    using v b by (cases "?D = 1") (auto simp: get_view_def batch_ok_def split: if_splits)
  have flat: "ev_pos v ! (d * n + j) = eb_pos b ! (d * ?N + (offset + j))" if "d < ?D" "j < n" for d j
  proof -
    have "ev_pos v ! (d * n + j) = ?f d ! j" unfolding pos by (rule nth_concat_blocks(1) [OF len that])
    also have "\<dots> = eb_pos b ! (d * ?N + (offset + j))" using len [OF that(1)] that(2) by (simp add: add.assoc)
    finally show ?thesis .
  qed
  have dims: "length (ev_pos v) div n = ?D"
    using nth_concat_blocks(2) [where f = ?f and m = ?D and n = n and d = 0 and j = 0] len n(1) b
    by (simp add: pos batch_ok_def)
  have fields: "ev_embd v = view_rows (eb_n_embd b) offset n (eb_embd b)" "ev_seq_id v = replicate n (eb_seq b)"
    "ev_logits v = replicate n False"
    using v by (auto simp: get_view_def split: if_splits)
  show "length (ev_embd v) = n" by (simp add: fields view_rows_def)
  then show "embd_rows v = map (\<lambda>j. row_of b (offset + j)) [0..<n]"
    by (auto simp: embd_rows_def Let_def dims row_of_def fields view_rows_def flat)
qed

lemma ceil_div_le:
  assumes "0 < k" "(n + k - 1) div k \<le> i"
  shows "n \<le> i * (k :: nat)"
proof -
  have "(n + k - 1) div k < i + 1" using assms(2) by simp
  then have "n + k - 1 < (i + 1) * k" using div_less_iff_less_mult [OF assms(1)] by blast
  then show ?thesis using assms(1) by simp
qed

lemma media_loop_rows:
  assumes "logs e fed" "batch_ok b" "0 < n_batch"
    and "left = (eb_n_tokens b + n_batch - 1) div n_batch - i" "i * n_batch \<le> eb_n_tokens b + n_batch - 1"
    and "media_loop e b n_batch i left s = Some (Ret 0, s')"
  shows "fed (fst s') = fed (fst s) @ map (row_of b) [i * n_batch..<eb_n_tokens b]"
  using assms(4-)
proof (induction left arbitrary: i s)
  case 0
  have "(eb_n_tokens b + n_batch - 1) div n_batch \<le> i" using 0(1) by simp
  then have "eb_n_tokens b \<le> i * n_batch" by (rule ceil_div_le [OF assms(3)])
  with 0 show ?case by simp
next
  case (Suc left)
  let ?N = "eb_n_tokens b" and ?off = "i * n_batch"
  let ?n = "min n_batch (?N - ?off)"
  obtain v where v: "get_view ?off ?n b = Some v" using Suc.prems(3) by (auto simp: Let_def split: option.splits)
  obtain st where d: "me_decode_embd e (snd s) v (fst s) = (Ret 0, st)"
    and rest: "media_loop e b n_batch (Suc i) left (st, Suc (snd s)) = Some (Ret 0, s')"
    using Suc.prems(3) by (auto simp: Let_def v split: prod.splits exc.splits if_splits)
  have n: "0 < ?n" using v by (auto simp: get_view_def split: if_splits)
  then have off: "?off < ?N" by simp
  have "fed st = fed (fst s) @ map (\<lambda>j. row_of b (?off + j)) [0..<?n]"
    using assms(1) d get_view_rows(1) [OF assms(2) v] unfolding logs_def by metis
  also have "map (\<lambda>j. row_of b (?off + j)) [0..<?n] = map (row_of b) [?off..<?off + ?n]"
    by (rule shift_upt)
  finally have "fed st = fed (fst s) @ map (row_of b) [?off..<?off + ?n]" .
  moreover have "fed (fst s') = fed st @ map (row_of b) [Suc i * n_batch..<?N]"
  proof -
    have "left = (?N + n_batch - 1) div n_batch - Suc i" using Suc.prems(1) by linarith
    from Suc.IH [OF this _ rest] off show ?thesis by simp
  qed
  moreover have "[?off..<?off + ?n] @ [Suc i * n_batch..<?N] = [?off..<?N]"
  proof (cases "n_batch \<le> ?N - ?off")
    case True
    then have "?off + ?n = Suc i * n_batch" "Suc i * n_batch \<le> ?N" using off by simp_all
    then show ?thesis using upt_add_eq_append [of ?off "Suc i * n_batch" "?N - Suc i * n_batch"]
      by (simp add: add.commute)
  next
    case False
    then have "?off + ?n = ?N" "?N \<le> Suc i * n_batch" using off by simp_all
    then show ?thesis by simp
  qed
  ultimately show ?case by (metis append.assoc map_append)
qed

subsection \<open>Chunks and prompts\<close>

lemma concat_replicate_blocks: "d < k \<Longrightarrow> j < length xs \<Longrightarrow> concat (replicate k xs) ! (d * length xs + j) = xs ! j"
  using nth_concat_blocks(1) [of k "\<lambda>_. xs" "length xs" d j] by (simp add: map_replicate_const)

lemma upt_4: "[0..<4] = [0, 1, 2, 3 :: nat]"
  by (simp add: upt_rec)

lemma media_batch:
  assumes "Option.bind (embd_batch_new embd (chunk_n_tokens ch) (if decode_use_mrope c then 4 else 1) (me_n_embd_inp e))
      (media_positions c ch n_past seq_id) = Some b"
  shows "batch_ok b" "eb_n_tokens b = chunk_n_tokens ch"
    "j < chunk_n_tokens ch \<Longrightarrow> row_of b j =
       \<lparr>r_input = RowEmbd (take (me_n_embd_inp e) (drop (j * me_n_embd_inp e) embd)),
        r_pos = media_pos c ch n_past j, r_seq = seq_id, r_logits = False\<rparr>"
proof -
  let ?N = "chunk_n_tokens ch"
  have pos: "0 < ?N" "0 < me_n_embd_inp e" using assms by (auto simp: embd_batch_new_def split: if_splits)
  have blocks: "(as @ bs @ cs @ ds) ! (0 * n + j) = as ! j \<and> (as @ bs @ cs @ ds) ! (1 * n + j) = bs ! j \<and>
      (as @ bs @ cs @ ds) ! (2 * n + j) = cs ! j \<and> (as @ bs @ cs @ ds) ! (3 * n + j) = ds ! j"
    if "length as = n" "length bs = n" "length cs = n" "length ds = n" "j < n" for as bs cs ds :: "int list" and n j
    using that by (simp add: nth_append)
  have *: "batch_ok b \<and> eb_n_tokens b = ?N \<and> eb_n_embd b = me_n_embd_inp e \<and> eb_embd b = embd \<and> eb_seq b = seq_id \<and>
      (\<forall>j < ?N. map (\<lambda>d. eb_pos b ! (d * ?N + j)) [0..<eb_n_pos b] = media_pos c ch n_past j)"
  proof (cases "decode_use_mrope c")
    case False
    then show ?thesis using assms pos
      by (auto simp: embd_batch_new_def media_positions_def set_position_normal_def batch_ok_def media_pos_def nth_append
          split: if_splits)
  next
    case mrope: True
    show ?thesis
    proof (cases ch)
      case (ImageChunk t)
      let ?r = "map (image_decoder_pos t n_past) [0..<image_n_tokens t]"
      have N: "?N = image_n_tokens t" by (simp add: ImageChunk)
      have b: "b = \<lparr>eb_n_tokens = ?N, eb_n_pos = 4, eb_n_embd = me_n_embd_inp e, eb_embd = embd,
          eb_pos = map dp_t ?r @ map dp_y ?r @ map dp_x ?r @ map dp_z ?r, eb_seq = seq_id\<rparr>"
        using assms mrope pos N
        by (auto simp: embd_batch_new_def media_positions_def set_position_mrope_2d_def ImageChunk split: if_splits)
      have "map (\<lambda>d. eb_pos b ! (d * ?N + j)) [0..<eb_n_pos b] = media_pos c ch n_past j" if "j < ?N" for j
        using blocks [of "map dp_t ?r" ?N "map dp_y ?r" "map dp_x ?r" "map dp_z ?r" j] that
        by (simp add: b upt_4 media_pos_def mrope ImageChunk Let_def)
      then show ?thesis using pos by (simp add: b batch_ok_def N)
    next
      case (AudioChunk n m)
      let ?l = "map (\<lambda>i. n_past + int i) [0..<?N]"
      have b: "b = \<lparr>eb_n_tokens = ?N, eb_n_pos = 4, eb_n_embd = me_n_embd_inp e, eb_embd = embd,
          eb_pos = concat (replicate 4 ?l), eb_seq = seq_id\<rparr>"
        using assms mrope pos
        by (auto simp: embd_batch_new_def media_positions_def set_position_mrope_1d_def AudioChunk split: if_splits)
      have "map (\<lambda>d. eb_pos b ! (d * ?N + j)) [0..<eb_n_pos b] = media_pos c ch n_past j" if "j < ?N" for j
      proof -
        have p: "eb_pos b ! (d * ?N + j) = n_past + int j" if "d < 4" for d
          using concat_replicate_blocks [OF that, of j ?l] \<open>j < ?N\<close> by (simp add: b)
        have "eb_n_pos b = 4" by (simp add: b)
        then have "map (\<lambda>d. eb_pos b ! (d * ?N + j)) [0..<eb_n_pos b] = map (\<lambda>_. n_past + int j) [0..<4]"
          by (intro map_cong) (auto simp: p)
        then show ?thesis by (simp add: media_pos_def mrope AudioChunk map_replicate_const)
      qed
      then show ?thesis using pos by (simp add: b batch_ok_def length_concat sum_list_replicate)
    qed (use assms mrope pos in \<open>auto simp: media_positions_def embd_batch_new_def\<close>)
  qed
  then show "batch_ok b" "eb_n_tokens b = ?N" by simp_all
  show "j < ?N \<Longrightarrow> row_of b j = \<lparr>r_input = RowEmbd (take (me_n_embd_inp e) (drop (j * me_n_embd_inp e) embd)),
        r_pos = media_pos c ch n_past j, r_seq = seq_id, r_logits = False\<rparr>"
    using * by (simp add: row_of_def)
qed

lemma decode_image_rows:
  assumes "logs e fed" "decode_image_chunk c e ch embd n_past seq_id n_batch np0 s = Some (Ret 0, np, s')"
  shows "fed (fst s') = fed (fst s) @
      map (\<lambda>j. \<lparr>r_input = RowEmbd (take (me_n_embd_inp e) (drop (j * me_n_embd_inp e) embd)),
               r_pos = media_pos c ch n_past j, r_seq = seq_id, r_logits = False\<rparr>) [0..<chunk_n_tokens ch] \<and>
    np = n_past + int (chunk_n_pos ch)"
proof -
  have nb: "0 < n_batch" and media: "\<not> (\<exists>ts. ch = TextChunk ts)"
    using assms(2) by (auto simp: decode_image_chunk_def split: if_splits chunk.splits)
  let ?new = "Option.bind (embd_batch_new embd (chunk_n_tokens ch) (if decode_use_mrope c then 4 else 1) (me_n_embd_inp e))
      (media_positions c ch n_past seq_id)"
  let ?left = "(chunk_n_tokens ch + n_batch - 1) div n_batch"
  obtain b where b: "?new = Some b"
    using assms(2) nb media by (cases ch) (auto simp: decode_image_chunk_def Let_def split: option.splits)
  let ?st = "if me_non_causal e ch then me_set_causal e False (fst s) else fst s"
  obtain st' k where l: "media_loop e b n_batch 0 ?left (?st, snd s) = Some (Ret 0, st', k)"
    and s': "s' = (if me_non_causal e ch then me_set_causal e True st' else st', k)" "np = n_past + int (chunk_n_pos ch)"
    using assms(2) nb media b by (cases ch) (auto simp: decode_image_chunk_def Let_def split: if_splits)
  note mb = media_batch [OF b]
  have "fed st' = fed ?st @ map (row_of b) [0..<chunk_n_tokens ch]"
    using media_loop_rows [OF assms(1) mb(1) nb _ _ l] by (simp add: mb(2))
  moreover have "fed ?st = fed (fst s)" "fed (fst s') = fed st'" using assms(1) by (simp_all add: logs_def s')
  moreover have "map (row_of b) [0..<chunk_n_tokens ch] =
      map (\<lambda>j. \<lparr>r_input = RowEmbd (take (me_n_embd_inp e) (drop (j * me_n_embd_inp e) embd)),
               r_pos = media_pos c ch n_past j, r_seq = seq_id, r_logits = False\<rparr>) [0..<chunk_n_tokens ch]"
    by (rule map_cong) (simp_all add: mb(3))
  ultimately show ?thesis using s'(2) by simp
qed

lemma eval_chunk_rows:
  assumes "logs e fed" "eval_chunk_single c e ch n_past seq_id n_batch want n_past s = Some (Ret 0, np, s')"
  shows "fed (fst s') = fed (fst s) @ chunk_rows c e seq_id n_past want ch \<and> np = n_past + int (chunk_n_pos ch)"
proof (cases ch)
  case (TextChunk toks)
  with assms(2) have "0 < n_batch" "text_loop e n_batch seq_id want toks n_past n_past s = Some (Ret 0, np, s')"
    by (auto simp: eval_chunk_single_def split: if_splits)
  from text_loop_rows [OF assms(1) this] show ?thesis by (simp add: TextChunk chunk_rows_def token_row_def)
next
  case (ImageChunk t)
  with assms(2) have "decode_image_chunk c e ch (snd (mtmd_encode_chunk c e ch)) n_past seq_id n_batch n_past s = Some (Ret 0, np, s')"
    by (auto simp: eval_chunk_single_def split: if_splits prod.splits)
  from decode_image_rows [OF assms(1) this] show ?thesis by (simp add: ImageChunk chunk_rows_def)
next
  case (AudioChunk n m)
  with assms(2) have "decode_image_chunk c e ch (snd (mtmd_encode_chunk c e ch)) n_past seq_id n_batch n_past s = Some (Ret 0, np, s')"
    by (auto simp: eval_chunk_single_def split: if_splits prod.splits)
  from decode_image_rows [OF assms(1) this] show ?thesis by (simp add: AudioChunk chunk_rows_def)
qed

lemma eval_loop_rows:
  assumes "logs e fed" "eval_loop c e seq_id n_batch want chs n_past np0 s = Some (Ret 0, np, s')"
  shows "fed (fst s') = fed (fst s) @ prompt_rows c e seq_id want n_past chs \<and>
     np = (if chs = [] then np0 else n_past + helper_n_pos chs)"
  using assms(2)
proof (induction chs arbitrary: n_past np0 s)
  case (Cons ch chs)
  obtain np1 s1 where 1: "eval_chunk_single c e ch n_past seq_id n_batch (chs = [] \<and> want) n_past s = Some (Ret 0, np1, s1)"
    and 2: "eval_loop c e seq_id n_batch want chs np1 np1 s1 = Some (Ret 0, np, s')"
    using Cons.prems by (auto split: option.splits exc.splits if_splits)
  from eval_chunk_rows [OF assms(1) 1] Cons.IH [OF 2] show ?case by (auto simp: helper_n_pos_def)
qed simp

end
