(* ===== verification/Mtmd_Flat.thy ===== *)
theory Mtmd_Flat
  imports Mtmd_Chunks
begin

text \<open>
  What the chunk list of a prompt holds. \<open>flat\<close> reads a chunk list as one sequence of tokens and media
  chunks; the tokenizer's state is \<open>chunks_ok\<close> if no text chunk is empty and no two are adjacent.
  Every operation of the tokenizer appends the items that the functions \<open>*_items\<close> give, and
  keeps \<open>chunks_ok\<close>.
\<close>

type_synonym 'i item = "llama_token + 'i chunk"

fun is_text :: "'i chunk \<Rightarrow> bool" where
  "is_text (TextChunk _) = True"
| "is_text _ = False"

definition chunk_items :: "'i chunk \<Rightarrow> 'i item list" where
  "chunk_items c = (case c of TextChunk ts \<Rightarrow> map Inl ts | _ \<Rightarrow> [Inr c])"

definition flat :: "'i chunk list \<Rightarrow> 'i item list" where
  "flat cs = concat (map chunk_items cs)"

definition chunks_ok :: "'i chunk list \<Rightarrow> bool" where
  "chunks_ok cs \<longleftrightarrow> TextChunk [] \<notin> set cs \<and> successively (\<lambda>a b. \<not> (is_text a \<and> is_text b)) cs"

lemma flat_simps [simp]: "flat [] = []" "flat (c # cs) = chunk_items c @ flat cs" "flat (as @ bs) = flat as @ flat bs"
  by (simp_all add: flat_def)

lemma chunk_items_media [simp]:
  "chunk_items (TextChunk ts) = map Inl ts" "\<not> is_text c \<Longrightarrow> chunk_items c = [Inr c]"
  by (cases c; simp add: chunk_items_def)+

lemma chunks_ok_Nil [simp]: "chunks_ok []"
  by (simp add: chunks_ok_def)

lemma chunks_ok_snoc: "chunks_ok (cs @ [c]) \<longleftrightarrow>
   chunks_ok cs \<and> c \<noteq> TextChunk [] \<and> (cs = [] \<or> \<not> (is_text (last cs) \<and> is_text c))"
  by (auto simp: chunks_ok_def successively_append_iff)

lemma chunks_ok_Cons: "chunks_ok (c # cs) \<longleftrightarrow>
   chunks_ok cs \<and> c \<noteq> TextChunk [] \<and> (cs = [] \<or> \<not> (is_text c \<and> is_text (hd cs)))"
  by (cases cs) (auto simp: chunks_ok_def)

subsection \<open>Appending\<close>

definition appends :: "'i item list \<Rightarrow> 'i chunk list \<Rightarrow> 'i chunk list \<Rightarrow> bool" where
  "appends items cur cur' \<longleftrightarrow> (chunks_ok cur \<longrightarrow> chunks_ok cur') \<and> flat cur' = flat cur @ items"

lemma appends_refl [simp]: "appends [] cur cur"
  by (simp add: appends_def)

lemma appends_trans: "appends a x y \<Longrightarrow> appends b y z \<Longrightarrow> appends (a @ b) x z"
  by (simp add: appends_def)

lemma appends_media: "\<not> is_text c \<Longrightarrow> appends [Inr c] cur (cur @ [c])"
  by (auto simp: appends_def chunks_ok_snoc)

lemma appends_tokens: "appends (map Inl toks) cur (add_tokens toks cur)"
proof -
  consider "toks = []" | "toks \<noteq> []" "cur = [] \<or> \<not> is_text (last cur)"
    | cs ts where "toks \<noteq> []" "cur = cs @ [TextChunk ts]"
    by (cases cur rule: rev_cases) (auto elim: is_text.elims)
  then show ?thesis
  proof cases
    case 2
    then have "add_tokens toks cur = cur @ [TextChunk toks]"
      by (auto simp: add_tokens_def split: chunk.split)
    with 2 show ?thesis by (auto simp: appends_def chunks_ok_snoc)
  next
    case 3
    then have "add_tokens toks cur = cs @ [TextChunk (ts @ toks)]" by (simp add: add_tokens_def)
    with 3 show ?thesis by (auto simp: appends_def chunks_ok_snoc)
  qed (simp add: add_tokens_def)
qed

lemma add_tokens_simps [simp]:
  "flat (add_tokens toks cur) = flat cur @ map Inl toks" "chunks_ok cur \<Longrightarrow> chunks_ok (add_tokens toks cur)"
  using appends_tokens [of toks cur] by (simp_all add: appends_def)

text \<open>An overview of the loops: what each round appends.\<close>

lemma mfold_appends:
  assumes "mfold f xs cur = Some (Inr cur')"
    and "\<And>x a b. x \<in> set xs \<Longrightarrow> f x a = Some (Inr b) \<Longrightarrow> appends (g x) a b"
  shows "appends (concat (map g xs)) cur cur'"
  using assms
proof (induction xs arbitrary: cur)
  case (Cons x xs)
  then obtain b where b: "f x cur = Some (Inr b)" "mfold f xs b = Some (Inr cur')" by (auto simp: mbind_eq_Inr)
  then have "appends (g x) cur b" "appends (concat (map g xs)) b cur'" using Cons by auto
  then show ?case by (auto dest: appends_trans)
qed simp

subsection \<open>Text and marks\<close>

definition toks_of :: "'i mtmd_ctx \<Rightarrow> byte list \<Rightarrow> bool \<Rightarrow> llama_token list" where
  "toks_of c txt parse = (case tokenize_text c txt parse of Some (Inr ts) \<Rightarrow> ts | _ \<Rightarrow> [])"

definition text_items :: "'i mtmd_ctx \<Rightarrow> byte list \<Rightarrow> bool \<Rightarrow> 'i item list" where
  "text_items c txt parse = map Inl (toks_of c txt parse)"

definition mark_items :: "'i mtmd_ctx \<Rightarrow> byte list \<Rightarrow> 'i item list" where
  "mark_items c txt = (if txt = [] then [] else text_items c txt True)"

lemma add_text_appends: "add_text c txt parse cur = Some (Inr cur') \<Longrightarrow> appends (text_items c txt parse) cur cur'"
  using appends_tokens by (auto simp: add_text_def mbind_eq_Inr text_items_def toks_of_def)

lemma add_mark_appends: "add_mark c txt cur = Some (Inr cur') \<Longrightarrow> appends (mark_items c txt) cur cur'"
  by (auto simp: add_mark_def mark_items_def dest: add_text_appends split: if_splits)

subsection \<open>Images\<close>

definition tile :: "'i mtmd_ctx \<Rightarrow> 'i \<Rightarrow> 'i chunk" where
  "tile c img = ImageChunk \<lparr>it_nx = mc_n_output c img, it_ny = 1, it_pos = MTMD_POS_TYPE_NORMAL, it_image_idx = 0,
     it_n_temporal_merge = 1, it_entries = [img]\<rparr>"

lemma is_text_tile [simp]: "\<not> is_text (tile c img)"
  by (simp add: tile_def)

lemma tile_chunk_eq: "tile_chunk c img = Some (Inr t) \<longleftrightarrow> t = tile c img \<and> mc_n_output c img > 0"
  by (auto simp: tile_chunk_def tile_def Let_def)

lemma tiles_mfold:
  "mfold (\<lambda>img cs. if no_size c img then mfail 2 else mbind (tile_chunk c img) (\<lambda>t. mret (cs @ [t]))) es a = Some (Inr b)
     \<Longrightarrow> b = a @ map (tile c) es"
proof (induction es arbitrary: a)
  case (Cons e es)
  then have "mfold (\<lambda>img cs. if no_size c img then mfail 2 else mbind (tile_chunk c img) (\<lambda>t. mret (cs @ [t]))) es
      (a @ [tile c e]) = Some (Inr b)"
    by (auto simp: mbind_eq_Inr tile_chunk_eq split: if_splits)
  from Cons.IH [OF this] show ?case by simp
qed simp

lemma split_batch_eq:
  assumes "split_batch_to_chunk c p = Some (Inr cs)"
  shows "cs = map (tile c) (pp_overview p # pp_entries p)"
proof -
  show ?thesis using assms
    by (auto simp: split_batch_to_chunk_def mbind_eq_Inr tile_chunk_eq split: if_splits dest!: tiles_mfold)
qed

definition slice_items :: "'i mtmd_ctx \<Rightarrow> 'i chunk list \<Rightarrow> nat \<Rightarrow> nat \<Rightarrow> nat \<Rightarrow> 'i item list" where
  "slice_items c tiles n_col y x =
     (if mc_sli_img_start c \<noteq> [] then map Inl (mc_sli_img_start c)
      else case mc_sli_img_tmpl c of None \<Rightarrow> [] | Some tmpl \<Rightarrow> text_items c (tmpl (y + 1) (x + 1)) True)
     @ [Inr (tiles ! (y * n_col + x))] @ map Inl (mc_sli_img_end c)
     @ (if x = n_col - 1 then [] else map Inl (mc_sli_img_mid c))"

definition row_items :: "'i mtmd_ctx \<Rightarrow> 'i chunk list \<Rightarrow> nat \<Rightarrow> nat \<Rightarrow> nat \<Rightarrow> 'i item list" where
  "row_items c tiles n_row n_col y =
     concat (map (slice_items c tiles n_col y) [0..<n_col])
     @ (if y \<noteq> n_row - 1 \<or> mc_row_end_trail c then map Inl (mc_row_end c) else [])"

definition overview_items :: "'i mtmd_ctx \<Rightarrow> 'i chunk \<Rightarrow> 'i item list" where
  "overview_items c ov = map Inl (mc_ov_img_start c) @ [Inr ov] @ map Inl (mc_ov_img_end c)"

definition tiles_items :: "'i mtmd_ctx \<Rightarrow> 'i preproc_out \<Rightarrow> 'i item list" where
  "tiles_items c p =
     (let ov = overview_items c (tile c (pp_overview p)); tiles = map (tile c) (pp_entries p);
          grid = (if tiles = [] then []
                  else map Inl (mc_slices_start c)
                       @ concat (map (row_items c tiles (pp_grid_y p) (pp_grid_x p)) [0..<pp_grid_y p])
                       @ map Inl (mc_slices_end c))
      in if mc_ov_img_first c then ov @ grid else grid @ ov)"

lemma add_slice_appends:
  assumes "add_slice c tiles n_col y x cur = Some (Inr cur')" "\<not> is_text (tiles ! (y * n_col + x))"
  shows "appends (slice_items c tiles n_col y x) cur cur'"
proof -
  obtain a where a: "slice_start c y x cur = Some (Inr a)"
    and cur': "cur' = (let cur = add_tokens (mc_sli_img_end c) (a @ [tiles ! (y * n_col + x)])
       in if x = n_col - 1 then cur else add_tokens (mc_sli_img_mid c) cur)"
    using assms(1) by (auto simp: add_slice_def mbind_eq_Inr Let_def)
  have "appends (if mc_sli_img_start c \<noteq> [] then map Inl (mc_sli_img_start c)
      else case mc_sli_img_tmpl c of None \<Rightarrow> [] | Some tmpl \<Rightarrow> text_items c (tmpl (y + 1) (x + 1)) True) cur a"
    using a appends_tokens by (auto simp: slice_start_def dest: add_text_appends split: if_splits option.splits)
  note h = appends_trans [OF this appends_trans [OF appends_media [OF assms(2)]
      appends_trans [OF appends_tokens [of "mc_sli_img_end c"]]]]
  show ?thesis
  proof (cases "x = n_col - 1")
    case True
    show ?thesis unfolding slice_items_def cur' Let_def if_P [OF True] by (rule h [OF appends_refl])
  next
    case False
    show ?thesis unfolding slice_items_def cur' Let_def if_not_P [OF False] by (rule h [OF appends_tokens])
  qed
qed

lemma add_row_appends:
  assumes "add_row c tiles n_row n_col y cur = Some (Inr cur')" "\<forall>x < n_col. \<not> is_text (tiles ! (y * n_col + x))"
  shows "appends (row_items c tiles n_row n_col y) cur cur'"
proof -
  obtain a where a: "mfold (add_slice c tiles n_col y) [0..<n_col] cur = Some (Inr a)"
    and cur': "cur' = (if y \<noteq> n_row - 1 \<or> mc_row_end_trail c then add_tokens (mc_row_end c) a else a)"
    using assms(1) by (auto simp: add_row_def mbind_eq_Inr)
  have "appends (concat (map (slice_items c tiles n_col y) [0..<n_col])) cur a"
    by (rule mfold_appends [OF a]) (use assms(2) in \<open>auto intro: add_slice_appends\<close>)
  note h = this
  show ?thesis
  proof (cases "y \<noteq> n_row - 1 \<or> mc_row_end_trail c")
    case True
    show ?thesis unfolding row_items_def cur' if_P [OF True] by (rule appends_trans [OF h appends_tokens])
  next
    case False
    show ?thesis unfolding row_items_def cur' if_not_P [OF False] by (rule appends_trans [OF h appends_refl])
  qed
qed

lemma add_overview_appends: "\<not> is_text ov \<Longrightarrow> appends (overview_items c ov) cur (add_overview c ov cur)"
  unfolding overview_items_def add_overview_def
  by (rule appends_trans [OF appends_tokens appends_trans [OF appends_media appends_tokens]])

lemma add_tiles_appends:
  assumes "add_tiles c p cur = Some (Inr cur')"
  shows "appends (tiles_items c p) cur cur'"
proof -
  let ?ov = "tile c (pp_overview p)" and ?tiles = "map (tile c) (pp_entries p)"
  let ?R = "pp_grid_y p" and ?C = "pp_grid_x p"
  let ?cur1 = "if mc_ov_img_first c then add_overview c ?ov cur else cur"
  let ?grid = "if ?tiles = [] then [] else map Inl (mc_slices_start c)
      @ concat (map (row_items c ?tiles ?R ?C) [0..<?R]) @ map Inl (mc_slices_end c)"
  obtain cs where cs: "split_batch_to_chunk c p = Some (Inr cs)" using assms by (auto simp: add_tiles_def mbind_eq_Inr)
  from split_batch_eq [OF this] have hd: "hd cs = ?ov" "tl cs = ?tiles" by simp_all
  have "mbind (if ?tiles = [] then mret ?cur1 else massert (length ?tiles = ?R * ?C)
      (mbind (mfold (add_row c ?tiles ?R ?C) [0..<?R] (add_tokens (mc_slices_start c) ?cur1))
        (\<lambda>cur. mret (add_tokens (mc_slices_end c) cur))))
      (\<lambda>cur2. mret (if mc_ov_img_first c then cur2 else add_overview c ?ov cur2)) = Some (Inr cur')"
    using assms unfolding add_tiles_def cs mbind_simps(3) Let_def hd .
  then obtain cur2 where c2: "(if ?tiles = [] then mret ?cur1 else massert (length ?tiles = ?R * ?C)
      (mbind (mfold (add_row c ?tiles ?R ?C) [0..<?R] (add_tokens (mc_slices_start c) ?cur1))
        (\<lambda>cur. mret (add_tokens (mc_slices_end c) cur)))) = Some (Inr cur2)"
    and cur': "cur' = (if mc_ov_img_first c then cur2 else add_overview c ?ov cur2)"
    unfolding mbind_eq_Inr mret_eq_Inr by blast
  have grid: "appends ?grid ?cur1 cur2"
  proof (cases "pp_entries p = []")
    case False
    then obtain a where a: "mfold (add_row c ?tiles ?R ?C) [0..<?R] (add_tokens (mc_slices_start c) ?cur1) = Some (Inr a)"
      and len: "length (pp_entries p) = ?R * ?C" and cur2: "cur2 = add_tokens (mc_slices_end c) a"
      using c2 by (auto simp: mbind_eq_Inr)
    have "appends (concat (map (row_items c ?tiles ?R ?C) [0..<?R])) (add_tokens (mc_slices_start c) ?cur1) a"
    proof (rule mfold_appends [OF a])
      fix y s t assume y: "y \<in> set [0..<?R]" and row: "add_row c ?tiles ?R ?C y s = Some (Inr t)"
      have "y * ?C + x < length (pp_entries p)" if "x < ?C" for x
      proof -
        have "y * ?C + x < (y + 1) * ?C" using that by simp
        also have "\<dots> \<le> ?R * ?C" using y by (intro mult_le_mono1) simp
        finally show ?thesis by (simp add: len)
      qed
      then show "appends (row_items c ?tiles ?R ?C y) s t" by (intro add_row_appends [OF row]) simp
    qed
    from appends_trans [OF appends_tokens appends_trans [OF this appends_tokens]] show ?thesis
      using False by (simp add: cur2)
  qed (use c2 in auto)
  show ?thesis
  proof (cases "mc_ov_img_first c")
    case True
    from grid have "appends ?grid (add_overview c ?ov cur) cur'" by (simp only: True if_True cur')
    from appends_trans [OF add_overview_appends [OF is_text_tile] this] True show ?thesis
      by (simp add: tiles_items_def Let_def)
  next
    case False
    from grid have "appends ?grid cur cur2" by (simp only: False if_False)
    from appends_trans [OF this add_overview_appends [OF is_text_tile]] False show ?thesis
      by (simp add: tiles_items_def Let_def cur')
  qed
qed

subsection \<open>Media\<close>

definition preproc_of :: "'i mtmd_ctx \<Rightarrow> bitmap list \<Rightarrow> 'i preproc_out" where
  "preproc_of c bms =
     (let p0 = \<lparr>pp_entries = [], pp_overview = mc_no_image c, pp_grid_x = 0, pp_grid_y = 0\<rparr> in
      case mfold (preproc_step c (length bms)) bms p0 of Some (Inr p) \<Rightarrow> p | _ \<Rightarrow> p0)"

definition image_items :: "'i mtmd_ctx \<Rightarrow> bitmap list \<Rightarrow> nat \<Rightarrow> 'i item list" where
  "image_items c bms idx =
     (let p = preproc_of c bms in
      mark_items c (mc_img_beg c)
      @ (if pp_grid_x p > 0 \<and> pp_grid_y p > 0 \<or> has_overview c p then tiles_items c p
         else [Inr (ImageChunk (whole_image c idx (pp_entries p) (entries_n_tokens c (pp_entries p))))])
      @ mark_items c (mc_img_end c))"

definition audio_items :: "'i mtmd_ctx \<Rightarrow> bitmap \<Rightarrow> 'i item list" where
  "audio_items c b =
     mark_items c (mc_aud_beg c)
     @ (case mc_preproc_audio c (if bm_data b = [] then replicate (4 * bm_nx b) 0 else bm_data b) of
          Ret (Some mels) \<Rightarrow> map (\<lambda>m. Inr (AudioChunk (mc_n_output_audio c m) m)) mels | _ \<Rightarrow> [])
     @ mark_items c (mc_aud_end c)"

definition media_items :: "'i mtmd_ctx \<Rightarrow> bitmap list \<Rightarrow> nat \<Rightarrow> 'i item list" where
  "media_items c bms idx = (if bm_is_audio (hd bms) then audio_items c (hd bms) else image_items c bms idx)"

lemma add_image_appends:
  assumes "add_image c bms s = Some (Inr s')"
  shows "appends (image_items c bms (snd s)) (fst s) (fst s') \<and> snd s' = snd s + 1"
proof -
  let ?p = "preproc_of c bms"
  let ?tiled = "pp_grid_x ?p > 0 \<and> pp_grid_y ?p > 0 \<or> has_overview c ?p"
  have v: "mc_vision c" using assms by (auto simp: add_image_def split: if_splits)
  obtain cur1 p cur2 cur3 where b: "add_mark c (mc_img_beg c) (fst s) = Some (Inr cur1)"
    and p: "mfold (preproc_step c (length bms)) bms
        \<lparr>pp_entries = [], pp_overview = mc_no_image c, pp_grid_x = 0, pp_grid_y = 0\<rparr> = Some (Inr p)"
    and m: "(if pp_grid_x p > 0 \<and> pp_grid_y p > 0 \<or> has_overview c p
             then massert (length bms = 1) (add_tiles c p cur1) else add_whole c (snd s) p cur1) = Some (Inr cur2)"
    and e: "add_mark c (mc_img_end c) cur2 = Some (Inr cur3)" and s': "s' = (cur3, snd s + 1)"
    using assms unfolding add_image_def if_not_P [OF v [THEN not_not [THEN iffD2]]] mbind_eq_Inr mret_eq_Inr by blast
  have pp: "?p = p" by (simp add: preproc_of_def p)
  have "appends (if ?tiled then tiles_items c ?p
      else [Inr (ImageChunk (whole_image c (snd s) (pp_entries ?p) (entries_n_tokens c (pp_entries ?p))))]) cur1 cur2"
    using m unfolding pp
    by (auto simp: add_whole_def Let_def intro: add_tiles_appends appends_media split: if_splits)
  from appends_trans [OF add_mark_appends [OF b] appends_trans [OF this add_mark_appends [OF e]]] s'
  show ?thesis by (simp add: image_items_def Let_def)
qed

lemma appends_audio: "appends (map (\<lambda>m. Inr (AudioChunk (f m) m)) mels) cur (cur @ map (\<lambda>m. AudioChunk (f m) m) mels)"
proof (induction mels arbitrary: cur)
  case (Cons m mels)
  have "appends [Inr (AudioChunk (f m) m)] cur (cur @ [AudioChunk (f m) m])" by (rule appends_media) simp
  from appends_trans [OF this Cons.IH] show ?case by simp
qed simp

lemma add_audio_appends:
  assumes "add_audio c bms s = Some (Inr s')"
  shows "appends (audio_items c (hd bms)) (fst s) (fst s') \<and> snd s' = snd s"
proof -
  let ?b = "hd bms"
  let ?samples = "if bm_data ?b = [] then replicate (4 * bm_nx ?b) 0 else bm_data ?b"
  obtain cur1 mels cur2 where b: "add_mark c (mc_aud_beg c) (fst s) = Some (Inr cur1)"
    and p: "mc_preproc_audio c ?samples = Ret (Some mels)"
    and e: "add_mark c (mc_aud_end c) (cur1 @ map (\<lambda>m. AudioChunk (mc_n_output_audio c m) m) mels) = Some (Inr cur2)"
    and s': "s' = (cur2, snd s)"
    using assms
    by (auto simp: add_audio_def Let_def mbind_eq_Inr massert_def mret_def mfail_def
        split: if_splits exc.splits option.splits)
  from appends_trans [OF add_mark_appends [OF b] appends_trans [OF appends_audio add_mark_appends [OF e]]] s' p
  show ?thesis by (simp add: audio_items_def)
qed

lemma add_media_appends:
  assumes "add_media c bms s = Some (Inr s')"
  shows "appends (media_items c bms (snd s)) (fst s) (fst s') \<and>
     snd s' = snd s + (if bm_is_audio (hd bms) then 0 else 1)"
  using assms add_image_appends [of c bms s s'] add_audio_appends [of c bms s s']
  by (auto simp: add_media_def media_items_def split: if_splits)

subsection \<open>The prompt\<close>

text \<open>The items of the parts; images are numbered from \<open>idx\<close>.\<close>

fun parts_items :: "'i mtmd_ctx \<Rightarrow> bool \<Rightarrow> part list \<Rightarrow> bitmap list list \<Rightarrow> nat \<Rightarrow> 'i item list" where
  "parts_items c parse [] g idx = []"
| "parts_items c parse (TextPart t # ps) g idx = text_items c t parse @ parts_items c parse ps g idx"
| "parts_items c parse (MediaPart b # ps) g idx =
     (case g of [] \<Rightarrow> []
      | bms # g' \<Rightarrow> media_items c bms idx @
          parts_items c parse ps g' (if bm_is_audio (hd bms) then idx else idx + 1))"

lemma add_parts_appends:
  assumes "add_parts c parse ps g s = Some (Inr (cur', rest))"
  shows "appends (parts_items c parse ps g (snd s)) (fst s) cur'"
  using assms
proof (induction ps arbitrary: g s)
  case (Cons p ps)
  show ?case
  proof (cases p)
    case (TextPart t)
    with Cons.prems obtain cur where "add_text c t parse (fst s) = Some (Inr cur)"
      "add_parts c parse ps g (cur, snd s) = Some (Inr (cur', rest))" by (auto simp: mbind_eq_Inr)
    then show ?thesis using appends_trans [OF add_text_appends] Cons.IH TextPart by fastforce
  next
    case (MediaPart b)
    with Cons.prems obtain bms g' s1 where g: "g = bms # g'" and s1: "add_media c bms s = Some (Inr s1)"
      "add_parts c parse ps g' s1 = Some (Inr (cur', rest))"
      by (auto simp: mbind_eq_Inr split: list.splits)
    from add_media_appends [OF s1(1)] Cons.IH [OF s1(2)] show ?thesis
      by (auto simp: MediaPart g dest: appends_trans)
  qed
qed simp

definition bos_items :: "'i mtmd_ctx \<Rightarrow> bool \<Rightarrow> 'i item list" where
  "bos_items c add_special =
     (case mc_vocab c of Some v \<Rightarrow> if add_special \<and> v_add_bos v then [Inl (v_bos_id v)] else [] | None \<Rightarrow> [])"

definition eos_items :: "'i mtmd_ctx \<Rightarrow> bool \<Rightarrow> 'i item list" where
  "eos_items c add_special =
     (case mc_vocab c of Some v \<Rightarrow> if add_special \<and> v_add_eos v then [Inl (v_eos_id v)] else [] | None \<Rightarrow> [])"

lemma add_bos_ok: "chunks_ok cur \<Longrightarrow> chunks_ok (add_bos v cur) \<and> flat (add_bos v cur) = Inl (v_bos_id v) # flat cur"
  by (auto simp: add_bos_def chunks_ok_Cons split: list.split chunk.split)

lemma add_specials_ok:
  assumes "chunks_ok cur"
  shows "chunks_ok (add_specials c add_special cur)"
    "flat (add_specials c add_special cur) = bos_items c add_special @ flat cur @ eos_items c add_special"
  using assms add_bos_ok [OF assms]
  by (auto simp: add_specials_def bos_items_def eos_items_def Let_def split: option.split)

subsection \<open>One bitmap to each marker\<close>

fun media_of :: "part list \<Rightarrow> bitmap list" where
  "media_of [] = []"
| "media_of (TextPart _ # ps) = media_of ps"
| "media_of (MediaPart b # ps) = b # media_of ps"

lemma make_parts_ok:
  "make_parts m ss bms = Some (Inr ps) \<Longrightarrow> media_of ps = bms \<and>
     ss = map (\<lambda>p. case p of TextPart t \<Rightarrow> t | MediaPart _ \<Rightarrow> m) ps \<and> TextPart m \<notin> set ps"
proof (induction ss arbitrary: bms ps)
  case (Cons s ss)
  then show ?case by (cases "s = m") (force simp: mbind_eq_Inr split: list.splits)+
qed (auto split: if_splits)

lemma make_parts_mismatch:
  "length (filter (\<lambda>s. s = m) ss) \<noteq> length bms \<Longrightarrow> make_parts m ss bms = Some (Inl 2)"
  by (induction m ss bms rule: make_parts.induct) (auto simp: mfail_def split: list.split)

lemma make_parts_match:
  "length (filter (\<lambda>s. s = m) ss) = length bms \<Longrightarrow> \<exists>ps. make_parts m ss bms = Some (Inr ps)"
  by (induction m ss bms rule: make_parts.induct) (auto simp: mbind_eq_Inr length_Suc_conv split: list.split)

lemma group_plain:
  assumes "\<forall>b \<in> set (media_of ps). \<not> bm_mergeable b"
  shows "group_mergeable n ps = (map (\<lambda>b. [b]) (media_of ps), ps)"
  using assms by (induction n ps rule: group_mergeable.induct) (auto simp: can_merge_with_def)

text \<open>The text between the markers is the text of the prompt.\<close>

lemma split_text_concat: "d \<noteq> [] \<Longrightarrow> concat (split_text d xs) = xs"
proof (induction d xs rule: split_text.induct)
  case (1 d xs)
  show ?case
  proof (cases "find_sub d xs")
    case None
    with 1 show ?thesis by (subst split_text.simps) simp
  next
    case (Some p)
    then have d: "take (length d) (drop p xs) = d" using find_sub_bound by blast
    have "d @ drop (p + length d) xs = take (length d) (drop p xs) @ drop (length d) (drop p xs)"
      by (simp only: d drop_drop add.commute)
    also have "\<dots> = drop p xs" by (rule append_take_drop_id)
    finally have "take p xs @ d @ drop (p + length d) xs = xs" by simp
    then show ?thesis using 1 Some by (subst split_text.simps) auto
  qed
qed

text \<open>The markers of the prompt are the parts that equal the marker.\<close>

definition n_markers :: "'i mtmd_ctx \<Rightarrow> byte list \<Rightarrow> nat" where
  "n_markers c txt = length (filter (\<lambda>s. s = mc_marker c) (split_text (mc_marker c) txt))"

lemma mtmd_tokenize_ok:
  assumes "mtmd_tokenize c txt add parse bms = Some (Inr cs)" and "\<forall>b \<in> set bms. \<not> bm_mergeable b"
  obtains ps where "make_parts (mc_marker c) (split_text (mc_marker c) txt) bms = Some (Inr ps)"
    "chunks_ok cs"
    "flat cs = bos_items c add @ parts_items c parse ps (map (\<lambda>b. [b]) bms) 0 @ eos_items c add"
proof -
  obtain ps where ps: "make_parts (mc_marker c) (split_text (mc_marker c) txt) bms = Some (Inr ps)"
    using assms(1) by (auto simp: mtmd_tokenize_def mbind_eq_Inr)
  have "media_of ps = bms" using make_parts_ok [OF ps] by simp
  then have g: "group_mergeable n ps = (map (\<lambda>b. [b]) bms, ps)" for n
    using group_plain [of ps n] assms(2) by simp
  obtain cur where cur: "add_parts c parse ps (map (\<lambda>b. [b]) bms) ([], 0) = Some (Inr (cur, []))"
    "cs = add_specials c add cur"
    using assms(1) by (auto simp: mtmd_tokenize_def ps g Let_def mbind_eq_Inr split: if_splits)
  have "appends (parts_items c parse ps (map (\<lambda>b. [b]) bms) 0) [] cur" using add_parts_appends [OF cur(1)] by simp
  then have "chunks_ok cur" "flat cur = parts_items c parse ps (map (\<lambda>b. [b]) bms) 0" by (simp_all add: appends_def)
  with that [OF ps] add_specials_ok [of cur c add] cur(2) show ?thesis by simp
qed

lemma mtmd_tokenize_mismatch:
  "n_markers c txt \<noteq> length bms \<Longrightarrow> mtmd_tokenize c txt add parse bms = Some (Inl 2)"
  using make_parts_mismatch [of "mc_marker c" "split_text (mc_marker c) txt" bms]
  by (simp add: n_markers_def mtmd_tokenize_def)

end
