(* ===== verification/Mtmd_Nif.thy ===== *)
theory Mtmd_Nif
  imports Mtmd_Eval Nif_Context
begin

text \<open>
  The multimodal entry points: \<open>erllama_mtmd_prefill_run\<close> and the capability probes of
  \<open>erllama_mtmd_nif.cpp\<close> and \<open>nif_media_prefill\<close> of \<open>erllama_nif_decode.c\<close>. Loading and releasing a
  projector are in \<open>Lifecycle\<close>. \<open>load\<close> decodes the bytes of a media item
  (\<open>mtmd_helper_bitmap_init_from_buf\<close>). The engine decodes under the abort callback; the
  deadline is off during the call, and \<open>end_flag\<close> of the interrupts is the abort flag after it.
\<close>

subsection \<open>Capabilities\<close>

definition caps_map :: "bool \<Rightarrow> bool \<Rightarrow> int \<Rightarrow> byte list option \<Rightarrow> eterm" where
  "caps_map vision audio sample_rate marker =
     EMap ([(EAtom ''vision'', if vision then atom_true else atom_false),
            (EAtom ''audio'', if audio then atom_true else atom_false)]
           @ (if sample_rate > 0 then [(EAtom ''audio_sample_rate'', EInt sample_rate)] else [])
           @ (case marker of Some m \<Rightarrow> [(EAtom ''marker'', EBin m)] | None \<Rightarrow> []))"

text \<open>\<open>projs\<close> maps projector resources to their native context, \<open>None\<close> after a release.\<close>

definition nif_mtmd_caps :: "(nat \<Rightarrow> 'i mtmd_ctx option option) \<Rightarrow> ('i mtmd_ctx \<Rightarrow> int exc) \<Rightarrow> bool \<Rightarrow> eterm \<Rightarrow> nif_ret" where
  "nif_mtmd_caps projs rate alloc a0 =
     (case Option.bind (enif_get_resource MTMD_RT a0) projs of
        None \<Rightarrow> Badarg
      | Some None \<Rightarrow> err ''released''
      | Some (Some c) \<Rightarrow>
          (case rate c of
             Throw \<Rightarrow> err ''exception''
           | Ret r \<Rightarrow> Term (ETuple [atom_ok,
               caps_map (mc_vision c) (mc_audio c) r (if alloc then Some (mc_marker c) else None)])))"

definition nif_mtmd_caps_file :: "(byte list \<Rightarrow> (bool \<times> bool) exc) \<Rightarrow> byte list \<Rightarrow> bool \<Rightarrow> eterm \<Rightarrow> nif_ret" where
  "nif_mtmd_caps_file cap default_marker alloc a0 =
     (case copy_path a0 4097 of
        None \<Rightarrow> Badarg
      | Some p \<Rightarrow>
          (case cap p of
             Throw \<Rightarrow> err ''mmproj_load_failed''
           | Ret (vision, audio) \<Rightarrow> Term (ETuple [atom_ok,
               caps_map vision audio (-1) (if alloc then Some default_marker else None)])))"

subsection \<open>The prefill\<close>

text \<open>The media items, \<open>True\<close> for audio, decoded in order; the declared kind must be the decoded one.\<close>

fun load_items :: "(byte list \<Rightarrow> bitmap option exc) \<Rightarrow> (bool \<times> byte list) list \<Rightarrow> bitmap list \<Rightarrow> int + bitmap list" where
  "load_items load [] bms = Inr bms"
| "load_items load ((is_audio, bytes) # its) bms =
     (case load bytes of
        Throw \<Rightarrow> Inl (-5)
      | Ret None \<Rightarrow> Inl (-1)
      | Ret (Some b) \<Rightarrow> if is_audio \<noteq> bm_is_audio b then Inl (-1) else load_items load its (bms @ [b]))"

type_synonym 'n run_res = "(int \<times> int \<times> int \<times> 'n) option"

text \<open>The return code, \<open>*out_n_tokens\<close>, \<open>*out_n_past\<close> and the engine.\<close>

definition erllama_mtmd_prefill_run ::
  "'i mtmd_ctx \<Rightarrow> ('n, 'i) media_engine \<Rightarrow> (byte list \<Rightarrow> bitmap option exc) \<Rightarrow> nat exc \<Rightarrow> byte list \<Rightarrow>
   (bool \<times> byte list) list \<Rightarrow> bool \<Rightarrow> int \<Rightarrow> nat \<Rightarrow> int \<Rightarrow> 'n \<Rightarrow> 'n run_res" where
  "erllama_mtmd_prefill_run c e load n_ctx prompt items add_special seq_id n_batch n_past n =
     (case load_items load items [] of
        Inl rc \<Rightarrow> Some (rc, 0, n_past, n)
      | Inr bms \<Rightarrow>
          (case mtmd_tokenize c prompt add_special True bms of
             None \<Rightarrow> None
           | Some (Inl trc) \<Rightarrow> Some (if trc = 1 then -2 else -3, 0, n_past, n)
           | Some (Inr chunks) \<Rightarrow>
               (case n_ctx of
                  Throw \<Rightarrow> Some (-5, 0, n_past, n)
                | Ret nc \<Rightarrow>
                    if nc = 0 \<or> (n_past + helper_n_pos chunks) mod 2 ^ 32 \<ge> int nc then Some (-6, 0, n_past, n)
                    else (case helper_eval_chunks c e chunks n_past seq_id n_batch True n_past n of
                            None \<Rightarrow> None
                          | Some (Throw, _, n', _) \<Rightarrow> Some (-5, 0, n_past, n')
                          | Some (Ret erc, np, n', _) \<Rightarrow>
                              if erc \<noteq> 0 then Some (-4, 0, n_past, n')
                              else Some (0, int (helper_n_tokens chunks), np, n')))))"

fun read_media_items :: "eterm list \<Rightarrow> (bool \<times> byte list) list option" where
  "read_media_items [] = Some []"
| "read_media_items (h # hs) =
     (case enif_get_tuple h of
        Some [kind, bin] \<Rightarrow>
          (case enif_inspect_binary bin of
             None \<Rightarrow> None
           | Some bytes \<Rightarrow>
               if bytes = [] then None
               else if kind = EAtom ''audio'' then map_option (Cons (True, bytes)) (read_media_items hs)
               else if kind = EAtom ''image'' then map_option (Cons (False, bytes)) (read_media_items hs)
               else None)
      | _ \<Rightarrow> None)"

definition media_why :: "bool \<Rightarrow> int \<Rightarrow> string" where
  "media_why aborted rc =
     (if rc = -1 then ''media_decode_failed''
      else if rc = -2 then ''marker_mismatch''
      else if rc = -3 then ''media_preprocess_failed''
      else if rc = -4 then (if aborted then ''decode_aborted'' else ''decode_failed'')
      else if rc = -6 then ''context_overflow''
      else ''exception'')"

definition media_prefill_body ::
  "('n, 's) llama_api \<Rightarrow> 'i mtmd_ctx \<Rightarrow> ('n, 'i) media_engine \<Rightarrow> (byte list \<Rightarrow> bitmap option exc) \<Rightarrow> interrupts \<Rightarrow>
   byte list \<Rightarrow> (bool \<times> byte list) list \<Rightarrow> bool \<Rightarrow> int \<Rightarrow> 'n \<Rightarrow> ('n, 's) context_res \<Rightarrow>
   (('n, 's) context_res \<times> nif_ret) option" where
  "media_prefill_body api c e load it prompt items add_special seq_id n r =
     (let n_batch = erllama_safe_n_batch api n in
      if n_batch = 0 then Some (r, err ''exception'')
      else
        let n_past = next_pos (seq_of r seq_id); r1 = r\<lparr>abort_flag := False, decode_deadline_ns := 0\<rparr> in
        case erllama_mtmd_prefill_run c e load (llama_n_ctx api n) prompt items add_special seq_id n_batch n_past n of
          None \<Rightarrow> None
        | Some (rc, n_tokens, new_n_past, n') \<Rightarrow>
            let r2 = r1\<lparr>c_ctx := Some n', abort_flag := end_flag it\<rparr> in
            if rc \<noteq> 0 then
              Some (set_seq seq_id ((seq_of r2 seq_id)\<lparr>last_logits_idx := -1\<rparr>) (r2\<lparr>decode_ready := False\<rparr>),
                    err (media_why (end_flag it) rc))
            else
              Some (set_seq seq_id \<lparr>last_logits_idx = ERLLAMA_LOGITS_LAST, next_pos = new_n_past\<rparr> (r2\<lparr>decode_ready := True\<rparr>),
                    Term (ETuple [atom_ok, EInt n_tokens, EInt (new_n_past - n_past)])))"

definition nif_media_prefill ::
  "('n, 's) llama_api \<Rightarrow> ('n, 'i) media_engine \<Rightarrow> (byte list \<Rightarrow> bitmap option exc) \<Rightarrow> interrupts \<Rightarrow>
   (nat \<Rightarrow> 'i mtmd_ctx option option) \<Rightarrow> eterm list \<Rightarrow> ('n, 's) nif_state \<Rightarrow> (('n, 's) nif_state \<times> nif_ret) option" where
  "nif_media_prefill api e load it projs argv w =
     (case (Option.bind (enif_get_resource CTX_RT (argv ! 0)) (\<lambda>i. map_option (\<lambda>r. (i, r)) (ctxs w i)),
            Option.bind (enif_get_resource MTMD_RT (argv ! 1)) projs) of
        (Some (i, r), Some h) \<Rightarrow>
          (case iolist_bytes (argv ! 2) of
             None \<Rightarrow> Some (w, Badarg)
           | Some prompt \<Rightarrow>
               if length prompt > ERLLAMA_MAX_TOKEN_TEXT then Some (w, err ''too_large'')
               else case enif_get_list_length (argv ! 3) of
                 None \<Rightarrow> Some (w, Badarg)
               | Some n_items \<Rightarrow>
                   if n_items > 64 then Some (w, Badarg)
                   else (case (read_media_items (list_cells (argv ! 3)), enif_get_int (argv ! 4)) of
                      (Some items, Some seq_id) \<Rightarrow>
                        if seq_id < 0 \<or> seq_id \<ge> ERLLAMA_N_SEQ_MAX_CAP then Some (w, Badarg)
                        else
                          let add_special = (case get_map_bool (argv ! 5) ''add_special'' of Some b \<Rightarrow> b | None \<Rightarrow> True)
                          in (case (c_ctx r, h) of
                                (Some n, Some c) \<Rightarrow>
                                  map_option (\<lambda>(r', ret). (put_ctx i r' w, ret))
                                    (media_prefill_body api c e load it prompt items add_special seq_id n r)
                              | _ \<Rightarrow> Some (w, err ''released''))
                    | _ \<Rightarrow> Some (w, Badarg)))
      | _ \<Rightarrow> Some (w, Badarg))"

end
