(* ===== verification/Mtmd_Safe.thy ===== *)
theory Mtmd_Safe
  imports Mtmd_Rows Mtmd_Flat Mtmd_Nif
begin

text \<open>
  The evaluation of a prompt never trips an assertion, reads only embeddings that were computed and
  never decodes more than \<open>n_batch\<close> rows at once, if the projector was loaded for the model of the
  context; and what \<open>nif_media_prefill\<close> does with the result.
\<close>

text \<open>An engine that refuses batches of no or of too many rows.\<close>

definition capped :: "nat \<Rightarrow> ('n, 'i) media_engine \<Rightarrow> ('n, 'i) media_engine" where
  "capped m e =
     e\<lparr>me_decode := (\<lambda>k b n. if 0 < length (b_token b) \<and> length (b_token b) \<le> m then me_decode e k b n else (Throw, n)),
       me_decode_embd := (\<lambda>k v n. if 0 < length (ev_embd v) \<and> length (ev_embd v) \<le> m then me_decode_embd e k v n else (Throw, n))\<rparr>"

lemma capped_simps [simp]:
  "me_set_causal (capped m e) = me_set_causal e" "me_n_embd_inp (capped m e) = me_n_embd_inp e"
  "me_non_causal (capped m e) = me_non_causal e" "mtmd_encode_chunk c (capped m e) = mtmd_encode_chunk c e"
  by (simp_all add: capped_def mtmd_encode_chunk_def encode_entries_def fun_eq_iff split: chunk.split)

lemma view_size: "get_view offset n b = Some v \<Longrightarrow> length (ev_embd v) = n \<and> 0 < n"
  by (auto simp: get_view_def view_rows_def split: if_splits)

lemma capped_media_loop: "media_loop (capped n_batch e) b n_batch i left s = media_loop e b n_batch i left s"
proof (induction left arbitrary: i s)
  case (Suc left)
  let ?n = "min n_batch (eb_n_tokens b - i * n_batch)"
  show ?case
  proof (cases "get_view (i * n_batch) ?n b")
    case (Some v)
    then have "me_decode_embd (capped n_batch e) (snd s) v = me_decode_embd e (snd s) v"
      using view_size [OF Some] by (cases "ev_embd v") (auto simp: capped_def)
    then show ?thesis using Some Suc by (simp add: Let_def split: prod.split exc.split)
  qed (simp add: Let_def)
qed simp

lemma capped_text_loop:
  "text_loop (capped n_batch e) n_batch seq_id want toks n_past np s = text_loop e n_batch seq_id want toks n_past np s"
proof (induction "length toks" arbitrary: toks n_past np s rule: less_induct)
  case less
  show ?case
  proof (cases "n_batch = 0 \<or> toks = []")
    case True
    then show ?thesis by (subst (1 2) text_loop.simps) auto
  next
    case False
    let ?b = "text_batch (take n_batch toks) n_past seq_id (want \<and> drop n_batch toks = [])"
    have "me_decode (capped n_batch e) (snd s) ?b = me_decode e (snd s) ?b"
      using False by (auto simp: capped_def text_batch_def)
    moreover have "length (drop n_batch toks) < length toks" using False by simp
    ultimately show ?thesis using False less
      by (subst (1 2) text_loop.simps) (simp add: Let_def split: prod.split exc.split)
  qed
qed

lemma capped_eval_single:
  "eval_chunk_single c (capped n_batch e) ch n_past seq_id n_batch want np s =
   eval_chunk_single c e ch n_past seq_id n_batch want np s"
  by (simp only: eval_chunk_single_def decode_image_chunk_def capped_media_loop capped_text_loop capped_simps)

lemma capped_eval_loop:
  "eval_loop c (capped n_batch e) seq_id n_batch want chs n_past np s = eval_loop c e seq_id n_batch want chs n_past np s"
  by (induction chs arbitrary: n_past np s) (simp_all add: capped_eval_single split: option.split exc.split)

subsection \<open>No assertion fails\<close>

lemma lt_ceil_div:
  assumes "0 < (k :: nat)" "i < (n + k - 1) div k"
  shows "i * k < n"
proof -
  have "i + 1 \<le> (n + k - 1) div k" using assms(2) by simp
  then have "(i + 1) * k \<le> n + k - 1" using assms(1) less_eq_div_iff_mult_less_eq by blast
  then show ?thesis using assms(1) by simp
qed

lemma media_loop_defined:
  assumes "batch_ok b" "0 < n_batch" "length (eb_embd b) = eb_n_embd b * eb_n_tokens b"
    and "i + left = (eb_n_tokens b + n_batch - 1) div n_batch"
  shows "media_loop e b n_batch i left s \<noteq> None"
  using assms(4)
proof (induction left arbitrary: i s)
  case (Suc left)
  let ?off = "i * n_batch" and ?N = "eb_n_tokens b"
  let ?n = "min n_batch (?N - ?off)"
  have "?off < ?N" using Suc.prems by (intro lt_ceil_div [OF assms(2)]) simp
  then have n: "0 < ?n" "?off + ?n \<le> ?N" using assms(2) by simp_all
  have "(?off + ?n) * eb_n_embd b \<le> ?N * eb_n_embd b" by (rule mult_le_mono1 [OF n(2)])
  then obtain v where "get_view ?off ?n b = Some v" using n assms(3) by (auto simp: get_view_def mult.commute)
  then show ?case using Suc.IH [of "Suc i"] Suc.prems by (auto simp: Let_def split: prod.split exc.split)
qed simp

lemma text_loop_defined: "0 < n_batch \<Longrightarrow> text_loop e n_batch seq_id want toks n_past np s \<noteq> None"
proof (induction "length toks" arbitrary: toks n_past np s rule: less_induct)
  case less
  show ?case
  proof (cases "toks = []")
    case True
    then show ?thesis using less.prems by (subst text_loop.simps) simp
  next
    case False
    then have "length (drop n_batch toks) < length toks" using less.prems by simp
    from less.hyps [OF this less.prems] False less.prems show ?thesis
      by (subst text_loop.simps) (auto simp: Let_def split: prod.split exc.split)
  qed
qed

definition loaded_for :: "'i mtmd_ctx \<Rightarrow> ('n, 'i) media_engine \<Rightarrow> bool" where
  "loaded_for c e \<longleftrightarrow> mc_n_embd_out c = me_n_embd_inp e \<and> 0 < me_n_embd_inp e"

definition sized_chunk :: "'i chunk \<Rightarrow> bool" where
  "sized_chunk ch \<longleftrightarrow> is_text ch \<or> 0 < chunk_n_tokens ch"

lemma encode_length:
  assumes "mtmd_encode_chunk c e ch = (rc, embd)" "rc = 0" "\<not> is_text ch"
  shows "length embd = mc_n_embd_out c * chunk_n_tokens ch"
  using assms by (cases ch) (auto simp: mtmd_encode_chunk_def encode_entries_def split: if_splits exc.splits option.splits)

lemma media_batch_defined:
  assumes "0 < chunk_n_tokens ch" "0 < me_n_embd_inp e" "\<not> is_text ch"
  shows "\<exists>b. Option.bind (embd_batch_new embd (chunk_n_tokens ch) (if decode_use_mrope c then 4 else 1) (me_n_embd_inp e))
      (media_positions c ch n_past seq_id) = Some b \<and> eb_embd b = embd \<and> eb_n_embd b = me_n_embd_inp e"
  using assms
  by (cases ch) (auto simp: embd_batch_new_def media_positions_def set_position_mrope_2d_def
      set_position_mrope_1d_def set_position_normal_def)

lemma eval_chunk_defined:
  assumes "loaded_for c e" "sized_chunk ch" "0 < n_batch"
  shows "eval_chunk_single c e ch n_past seq_id n_batch want np s \<noteq> None"
proof (cases "is_text ch")
  case True
  then obtain toks where "ch = TextChunk toks" by (cases ch) auto
  then show ?thesis using text_loop_defined [OF assms(3), of e seq_id want toks n_past np s] assms(3)
    by (simp add: eval_chunk_single_def)
next
  case media: False
  obtain rc embd where en: "mtmd_encode_chunk c e ch = (rc, embd)" by fastforce
  show ?thesis
  proof (cases "rc = 0")
    case False
    with media en assms(3) show ?thesis by (cases ch) (auto simp: eval_chunk_single_def)
  next
    case True
    obtain b where b: "Option.bind (embd_batch_new embd (chunk_n_tokens ch) (if decode_use_mrope c then 4 else 1)
        (me_n_embd_inp e)) (media_positions c ch n_past seq_id) = Some b" "eb_embd b = embd" "eb_n_embd b = me_n_embd_inp e"
      using media_batch_defined [of ch e embd c n_past seq_id] assms media by (auto simp: loaded_for_def sized_chunk_def)
    note mb = media_batch(1,2) [OF b(1)]
    have len: "length (eb_embd b) = eb_n_embd b * eb_n_tokens b"
      using encode_length [OF en True media] assms(1) by (simp add: b(2,3) mb(2) loaded_for_def)
    have "media_loop e b n_batch 0 ((chunk_n_tokens ch + n_batch - 1) div n_batch) t \<noteq> None" for t
      using media_loop_defined [OF mb(1) assms(3) len, where i = 0 and e = e and s = t
          and left = "(chunk_n_tokens ch + n_batch - 1) div n_batch"] by (simp add: mb(2))
    with b(1) en True media assms(3) show ?thesis
      by (cases ch) (auto simp: eval_chunk_single_def decode_image_chunk_def Let_def)
  qed
qed

lemma eval_loop_defined:
  assumes "loaded_for c e" "\<forall>ch \<in> set chs. sized_chunk ch" "0 < n_batch"
  shows "eval_loop c e seq_id n_batch want chs n_past np s \<noteq> None"
  using assms(2)
proof (induction chs arbitrary: n_past np s)
  case (Cons ch chs)
  then show ?case using eval_chunk_defined [OF assms(1) _ assms(3), of ch]
    by (auto split: option.split exc.split)
qed simp

text \<open>A projector of a wider model than the context's reads past the embeddings, one of a narrower model does not stop it.\<close>

lemma foreign_media_loop:
  assumes "batch_ok b" "0 < n_batch" "length (eb_embd b) < eb_n_embd b * eb_n_tokens b"
    and "\<forall>k v n. \<exists>n'. me_decode_embd e k v n = (Ret 0, n')"
    and "i + left = (eb_n_tokens b + n_batch - 1) div n_batch" "0 < left"
  shows "media_loop e b n_batch i left s = None"
  using assms(5,6)
proof (induction left arbitrary: i s)
  case (Suc left)
  let ?off = "i * n_batch" and ?N = "eb_n_tokens b"
  let ?n = "min n_batch (?N - ?off)"
  show ?case
  proof (cases "get_view ?off ?n b")
    case (Some v)
    have "left \<noteq> 0"
    proof
      assume "left = 0"
      then have "(?N + n_batch - 1) div n_batch \<le> i + 1" using Suc.prems by simp
      then have "?N \<le> (i + 1) * n_batch" by (rule ceil_div_le [OF assms(2)])
      moreover have "?off < ?N" using Suc.prems by (intro lt_ceil_div [OF assms(2)]) simp
      ultimately have "?off + ?n = ?N" by simp
      then show False using Some assms(3) by (auto simp: get_view_def mult.commute split: if_splits)
    qed
    moreover obtain n' where "me_decode_embd e (snd s) v (fst s) = (Ret 0, n')" using assms(4) by blast
    ultimately show ?thesis using Some Suc by (simp add: Let_def)
  qed (simp add: Let_def)
qed simp

subsection \<open>The entry point\<close>

lemma run_ok:
  assumes "erllama_mtmd_prefill_run c e load n_ctx prompt items add seq_id n_batch n_past n = Some (0, nt, np, n')"
  obtains bms chunks k where "load_items load items [] = Inr bms"
    "mtmd_tokenize c prompt add True bms = Some (Inr chunks)"
    "eval_loop c e seq_id n_batch True chunks n_past n_past (n, 0) = Some (Ret 0, np, n', k)"
    "nt = int (helper_n_tokens chunks)"
proof -
  have "\<exists>bms. load_items load items [] = Inr bms"
  proof -
    have "load_items load its acc = Inl rc \<Longrightarrow> rc \<noteq> 0" for its acc rc
      by (induction load its acc rule: load_items.induct) (auto split: exc.splits option.splits if_splits)
    with assms show ?thesis
      by (cases "load_items load items []") (auto simp: erllama_mtmd_prefill_run_def)
  qed
  with assms that show ?thesis
    by (auto simp: erllama_mtmd_prefill_run_def helper_eval_chunks_def split: option.splits sum.splits exc.splits if_splits)
qed

text \<open>The call with arguments that parse, on a live context and projector.\<close>

definition media_args :: "nat \<Rightarrow> nat \<Rightarrow> eterm \<Rightarrow> eterm \<Rightarrow> int \<Rightarrow> eterm \<Rightarrow> eterm list" where
  "media_args i j prompt items seq_id opts = [ERes CTX_RT i, ERes MTMD_RT j, prompt, items, EInt seq_id, opts]"

lemma media_prefill_call:
  assumes "ctxs w i = Some r" "c_ctx r = Some n" "projs j = Some (Some c)" "iolist_bytes ptxt = Some prompt"
    "length prompt \<le> ERLLAMA_MAX_TOKEN_TEXT" "enif_get_list_length its = Some k" "k \<le> 64"
    "read_media_items (list_cells its) = Some items" "0 \<le> seq_id" "seq_id < ERLLAMA_N_SEQ_MAX_CAP"
  shows "nif_media_prefill api e load it projs (media_args i j ptxt its seq_id opts) w =
     map_option (\<lambda>(r', ret). (put_ctx i r' w, ret))
       (media_prefill_body api c e load it prompt items (get_map_bool opts ''add_special'' \<noteq> Some False) seq_id n r)"
proof -
  have flag: "(case x of Some b \<Rightarrow> b | None \<Rightarrow> True) = (x \<noteq> Some False)" for x by (auto split: option.split)
  have "seq_id \<le> INT32_MAX" "INT32_MIN \<le> seq_id" using assms(9,10) by (simp_all add: ERLLAMA_N_SEQ_MAX_CAP_def)
  then show ?thesis using assms by (simp add: nif_media_prefill_def media_args_def flag)
qed

text \<open>What the body does with the result of the run.\<close>

lemma media_prefill_body_run:
  assumes "erllama_safe_n_batch api n \<noteq> 0" and "erllama_mtmd_prefill_run c e load (llama_n_ctx api n) prompt items add seq_id
      (erllama_safe_n_batch api n) (next_pos (seq_of r seq_id)) n = Some (rc, nt, np, n')"
  shows "media_prefill_body api c e load it prompt items add seq_id n r = Some
    (let r2 = r\<lparr>decode_deadline_ns := 0, c_ctx := Some n', abort_flag := end_flag it\<rparr> in
     if rc \<noteq> 0 then (set_seq seq_id ((seq_of r seq_id)\<lparr>last_logits_idx := -1\<rparr>) (r2\<lparr>decode_ready := False\<rparr>),
                     err (media_why (end_flag it) rc))
     else (set_seq seq_id \<lparr>last_logits_idx = ERLLAMA_LOGITS_LAST, next_pos = np\<rparr> (r2\<lparr>decode_ready := True\<rparr>),
           Term (ETuple [atom_ok, EInt nt, EInt (np - next_pos (seq_of r seq_id))])))"
  using assms by (simp add: media_prefill_body_def Let_def)

lemma media_prefill_body_ok:
  assumes "media_prefill_body api c e load it prompt items add seq_id n r = Some (r', Term (ETuple [atom_ok, EInt nt, EInt np]))"
  obtains n' where "erllama_mtmd_prefill_run c e load (llama_n_ctx api n) prompt items add seq_id (erllama_safe_n_batch api n)
      (next_pos (seq_of r seq_id)) n = Some (0, nt, next_pos (seq_of r seq_id) + np, n')"
    "erllama_safe_n_batch api n \<noteq> 0"
    "r' = set_seq seq_id \<lparr>last_logits_idx = ERLLAMA_LOGITS_LAST, next_pos = next_pos (seq_of r seq_id) + np\<rparr>
      (r\<lparr>decode_deadline_ns := 0, c_ctx := Some n', abort_flag := end_flag it, decode_ready := True\<rparr>)"
proof -
  have nb: "erllama_safe_n_batch api n \<noteq> 0" using assms
    by (cases "erllama_safe_n_batch api n = 0") (auto simp: media_prefill_body_def Let_def)
  obtain rc nt' np' n' where run: "erllama_mtmd_prefill_run c e load (llama_n_ctx api n) prompt items add seq_id
      (erllama_safe_n_batch api n) (next_pos (seq_of r seq_id)) n = Some (rc, nt', np', n')"
    using assms nb by (auto simp: media_prefill_body_def Let_def split: option.splits)
  note body = media_prefill_body_run [OF nb run, of it] assms
  have "rc = 0" "nt' = nt" "np' = next_pos (seq_of r seq_id) + np" using body by (auto simp: Let_def split: if_splits)
  with body nb run that [of n'] show ?thesis by (simp add: Let_def)
qed

end
