(* ===== verification/Mtmd_Props.thy ===== *)
theory Mtmd_Props
  imports Mtmd_Safe Nif_State "HOL-Library.Code_Target_Nat"
begin

text \<open>
  The properties of the multimodal prefill: the chunks that a prompt becomes, the rows that a call decodes, the
  safety of the evaluation, and the calls that go wrong. The witnesses run on \<open>media_demo\<close>, a projector whose
  images become four embeddings in a 2 by 2 grid with M-RoPE positions, and on an engine that keeps
  the log of the rows it decodes, three at a time.
\<close>

subsection \<open>An instance\<close>

definition media_demo :: "nat mtmd_ctx" where
  "media_demo = \<lparr>
     mc_vision = True, mc_audio = True, mc_marker = [60, 109, 62],
     mc_vocab = Some \<lparr>v_none = False, v_tokens = [],
       v_add_bos = True, v_add_eos = False, v_bos_id = 1, v_eos_id = -1, v_add_space_prefix = False, v_clean_spaces = False\<rparr>,
     mc_tokenize = (\<lambda>t parse n. Ret (int (length t), map uint t)),
     mc_mrope = True, mc_hunyuanvl = False, mc_temporal_merge = 1,
     mc_img_beg = [91], mc_img_end = [], mc_aud_beg = [], mc_aud_end = [],
     mc_ov_img_start = [], mc_ov_img_end = [], mc_slices_start = [], mc_slices_end = [],
     mc_sli_img_start = [], mc_sli_img_end = [], mc_sli_img_mid = [], mc_row_end = [], mc_row_end_trail = False,
     mc_ov_img_first = True, mc_sli_img_tmpl = None, mc_n_embd_out = 1, mc_dims = (\<lambda>i. (0, 0)), mc_no_image = 0,
     mc_preproc_image = (\<lambda>b. Ret \<lparr>pp_entries = [7], pp_overview = 0, pp_grid_x = 0, pp_grid_y = 0\<rparr>),
     mc_preproc_audio = (\<lambda>bs. Ret (Some [8])),
     mc_n_output = (\<lambda>i. 4), mc_n_output_x = (\<lambda>i. 2), mc_n_output_y = (\<lambda>i. 2), mc_n_output_audio = (\<lambda>i. 2)\<rparr>"

definition media_demo_engine :: "nat \<Rightarrow> (fed_row list, nat) media_engine" where
  "media_demo_engine n_embd = \<lparr>
     me_decode = (\<lambda>k b n. (Ret 0, n @ batch_rows b)),
     me_decode_embd = (\<lambda>k v n. (Ret 0, n @ embd_rows v)),
     me_set_causal = (\<lambda>x n. n), me_n_embd_inp = n_embd, me_non_causal = (\<lambda>c. True),
     me_placeholder = (\<lambda>i. False), me_encode = (\<lambda>audio es. Ret (Some of_nat))\<rparr>"

definition media_demo_load :: "byte list \<Rightarrow> bitmap option exc" where
  "media_demo_load bs = Ret (Some \<lparr>bm_nx = length bs, bm_ny = 1, bm_is_audio = (hd bs = 82), bm_mergeable = False,
     bm_data = concat (map (\<lambda>b. [b, b, b, b]) bs)\<rparr>)"

definition media_demo_api :: "(fed_row list, nat) llama_api" where
  "media_demo_api = \<lparr>
     llama_get_model = (\<lambda>n. Ret (Some 0)), llama_model_get_vocab = (\<lambda>m. Ret (Some 0)),
     llama_vocab_n_tokens = (\<lambda>v. Ret 200), llama_vocab_is_eog = (\<lambda>v t. Ret False), llama_model_n_embd = (\<lambda>m. Ret 1),
     llama_n_ctx = (\<lambda>n. Ret 32), llama_n_batch = (\<lambda>n. Ret 3),
     llama_decode = (\<lambda>poll b n. (Ret 0, n @ batch_rows b)),
     llama_get_logits_ith = (\<lambda>n i. Ret None), llama_get_memory = (\<lambda>n. Ret True),
     llama_memory_seq_rm = (\<lambda>s p0 p1 n. (Ret True, n)), llama_memory_seq_cp = (\<lambda>s t p0 p1 n. (Ret (), n)),
     llama_memory_seq_pos_max = (\<lambda>s n. Ret (int (length n) - 1)), llama_state_seq_get_size = (\<lambda>s n. Ret 0),
     llama_state_seq_get_data = (\<lambda>sz s n. Ret (0, [])), llama_state_seq_set_data = (\<lambda>bs s n. (Ret 0, n)),
     llama_set_embeddings = (\<lambda>v n. (Ret (), n)), llama_get_embeddings_seq = (\<lambda>n s. Ret None),
     llama_get_embeddings = (\<lambda>n. Ret None), llama_sampler_sample = (\<lambda>k n i. (Throw, k))\<rparr>"

definition media_demo_it :: interrupts where
  "media_demo_it = \<lparr>now_armed = 0, poll_flag = (\<lambda>_. False), poll_now = (\<lambda>_. 1), end_flag = False, end_now = 2\<rparr>"

definition media_demo_w :: "(fed_row list, nat) nif_state" where
  "media_demo_w = \<lparr>ctxs = [0 \<mapsto> new_context_res [] 1000], samplers = Map.empty\<rparr>"

definition media_item :: "string \<Rightarrow> byte list \<Rightarrow> eterm" where
  "media_item kind bs = ETuple [EAtom kind, EBin bs]"

definition media_demo_call :: "nat \<Rightarrow> byte list \<Rightarrow> eterm list \<Rightarrow> ((fed_row list, nat) nif_state \<times> nif_ret) option" where
  "media_demo_call n_embd prompt items =
     nif_media_prefill media_demo_api (media_demo_engine n_embd) media_demo_load media_demo_it [0 \<mapsto> Some media_demo]
       (media_args 0 0 (EBin prompt) (mk_list items) 2 (EMap [])) media_demo_w"

text \<open>What a witness reads of the outcome: the log, the sequence, whether a sampler may run, and the reply.\<close>

definition media_demo_view ::
  "((fed_row list, nat) nif_state \<times> nif_ret) option \<Rightarrow> (fed_row list option \<times> per_seq \<times> bool \<times> nif_ret) option" where
  "media_demo_view res =
     Option.bind res (\<lambda>(w, ret). map_option (\<lambda>r. (c_ctx r, seq_of r 2, decode_ready r, ret)) (ctxs w 0))"

lemma media_demo_logs: "logs (media_demo_engine k) (\<lambda>n. n)"
  by (simp add: logs_def media_demo_engine_def)

lemma media_demo_state: "ctxs media_demo_w 0 = Some (new_context_res [] 1000)" "c_ctx (new_context_res n b) = Some n"
  "next_pos (c_per_seq (new_context_res n b) ! 2) = 0" "length (c_per_seq (new_context_res n b)) = 256"
  by (simp_all add: media_demo_w_def new_context_res_def ERLLAMA_N_SEQ_MAX_CAP_def)

text \<open>The reply to a prompt that starts with an image, and to one that ends in a clip.\<close>

lemma media_demo_reply:
  "map_option snd (media_demo_call 1 [60, 109, 62, 65, 66, 67, 68] [media_item ''image'' [1]]) =
     Some (Term (ETuple [atom_ok, EInt 10, EInt 8]))"
  "map_option snd (media_demo_call 1 [65, 60, 109, 62] [media_item ''audio'' [82, 3]]) =
     Some (Term (ETuple [atom_ok, EInt 4, EInt 4]))"
  by code_simp+

definition media_demo_clip :: bitmap where
  "media_demo_clip = \<lparr>bm_nx = 2, bm_ny = 1, bm_is_audio = True, bm_mergeable = False, bm_data = [82, 82, 82, 82, 3, 3, 3, 3]\<rparr>"

lemma media_demo_chunks:
  "mtmd_tokenize media_demo [65, 60, 109, 62] True True [media_demo_clip] = Some (Inr [TextChunk [1, 65], AudioChunk 2 8])"
  "n_markers media_demo [65] = 0" "mc_marker media_demo = [60, 109, 62]"
  by code_simp+

subsection \<open>The chunks of a prompt\<close>

text \<open>
  C22: The chunks that the tokenizer makes of a prompt hold exactly the tokens of its texts and the
  chunks of its media, in order, between the special tokens; no text chunk is empty and no two are
  adjacent. The texts and the markers between them are the prompt, each marker stands for one bitmap,
  and any other number of bitmaps is refused with the code 2 of a failed preprocessing.
\<close>

theorem mtmd_chunks_exact:
  assumes "\<forall>b \<in> set bms. \<not> bm_mergeable b" "mc_marker c \<noteq> []"
  shows "(n_markers c prompt \<noteq> length bms \<longrightarrow> mtmd_tokenize c prompt add parse bms = Some (Inl 2)) \<and>
    (\<forall>cs. mtmd_tokenize c prompt add parse bms = Some (Inr cs) \<longrightarrow>
      chunks_ok cs \<and>
      (\<exists>ps. media_of ps = bms \<and> TextPart (mc_marker c) \<notin> set ps \<and>
        concat (map (\<lambda>p. case p of TextPart t \<Rightarrow> t | MediaPart _ \<Rightarrow> mc_marker c) ps) = prompt \<and>
        flat cs = bos_items c add @ parts_items c parse ps (map (\<lambda>b. [b]) bms) 0 @ eos_items c add))"
proof (intro conjI allI impI)
  fix cs
  assume tok: "mtmd_tokenize c prompt add parse bms = Some (Inr cs)"
  obtain ps where ps: "make_parts (mc_marker c) (split_text (mc_marker c) prompt) bms = Some (Inr ps)" "chunks_ok cs"
    "flat cs = bos_items c add @ parts_items c parse ps (map (\<lambda>b. [b]) bms) 0 @ eos_items c add"
    by (rule mtmd_tokenize_ok [OF tok assms(1)])
  then show "chunks_ok cs" by simp
  from make_parts_ok [OF ps(1)] split_text_concat [OF assms(2), of prompt] ps(3)
  show "\<exists>ps. media_of ps = bms \<and> TextPart (mc_marker c) \<notin> set ps \<and>
        concat (map (\<lambda>p. case p of TextPart t \<Rightarrow> t | MediaPart _ \<Rightarrow> mc_marker c) ps) = prompt \<and>
        flat cs = bos_items c add @ parts_items c parse ps (map (\<lambda>b. [b]) bms) 0 @ eos_items c add"
    by (intro exI [of _ ps]) simp
qed (rule mtmd_tokenize_mismatch)

theorem mtmd_chunks_exact_witness:
  "mtmd_tokenize media_demo [65] True True [media_demo_clip] = Some (Inl 2) \<and>
   chunks_ok [TextChunk [1, 65], AudioChunk 2 (8 :: nat)]"
  using mtmd_chunks_exact [of "[media_demo_clip]" media_demo "[65]" True True]
    mtmd_chunks_exact [of "[media_demo_clip]" media_demo "[65, 60, 109, 62]" True True]
  by (simp add: media_demo_chunks) (simp add: media_demo_clip_def)

subsection \<open>The rows of a call\<close>

lemma media_prefill_ok_args:
  assumes "nif_media_prefill api e load it projs (media_args i j ptxt its seq_id opts) w =
      Some (w', Term (ETuple [atom_ok, EInt nt, EInt np]))"
    and "ctxs w i = Some r" "c_ctx r = Some n" "projs j = Some (Some c)"
  obtains prompt items r' where "iolist_bytes ptxt = Some prompt" "read_media_items (list_cells its) = Some items"
    "0 \<le> seq_id" "seq_id < ERLLAMA_N_SEQ_MAX_CAP" "w' = put_ctx i r' w"
    "media_prefill_body api c e load it prompt items (get_map_bool opts ''add_special'' \<noteq> Some False) seq_id n r =
       Some (r', Term (ETuple [atom_ok, EInt nt, EInt np]))"
proof -
  have flag: "(case x of Some b \<Rightarrow> b | None \<Rightarrow> True) = (x \<noteq> Some False)" for x by (auto split: option.split)
  have no_err: "err why \<noteq> Term (ETuple [atom_ok, EInt nt, EInt np])" for why
    by (simp add: err_def erllama_error_def)
  note u = assms(1) [unfolded nif_media_prefill_def media_args_def flag]
  obtain prompt where p: "iolist_bytes ptxt = Some prompt"
    using u assms(2-) by (cases "iolist_bytes ptxt") auto
  obtain k where k: "enif_get_list_length its = Some k"
    using u assms(2-) p no_err by (cases "enif_get_list_length its") (auto split: if_splits)
  obtain items where items: "read_media_items (list_cells its) = Some items"
    using u assms(2-) p k no_err by (cases "read_media_items (list_cells its)") (auto split: if_splits)
  show ?thesis
    using u assms(2-) p k items no_err that [OF p items]
    by (auto simp: Let_def split: if_splits option.splits)
qed

lemma media_prefill_ok_rows:
  assumes "logs e fed" "ctxs w i = Some r" "c_ctx r = Some n" "projs j = Some (Some c)"
    and "nat seq_id < length (c_per_seq r)"
    and "nif_media_prefill api e load it projs (media_args i j ptxt its seq_id opts) w =
      Some (w', Term (ETuple [atom_ok, EInt nt, EInt np]))"
  obtains prompt items bms cs n' r' where "iolist_bytes ptxt = Some prompt"
    "read_media_items (list_cells its) = Some items" "load_items load items [] = Inr bms"
    "mtmd_tokenize c prompt (get_map_bool opts ''add_special'' \<noteq> Some False) True bms = Some (Inr cs)"
    "ctxs w' = (ctxs w)(i \<mapsto> r')" "c_ctx r' = Some n'" "decode_ready r'"
    "fed n' = fed n @ prompt_rows c e seq_id True (next_pos (seq_of r seq_id)) cs"
    "nt = int (helper_n_tokens cs)" "np = helper_n_pos cs"
    "seq_of r' seq_id = \<lparr>last_logits_idx = ERLLAMA_LOGITS_LAST, next_pos = next_pos (seq_of r seq_id) + np\<rparr>"
    "\<And>s. nat s \<noteq> nat seq_id \<Longrightarrow> seq_of r' s = seq_of r s"
proof -
  let ?add = "get_map_bool opts ''add_special'' \<noteq> Some False" and ?p = "next_pos (seq_of r seq_id)"
  obtain prompt items r' where a: "iolist_bytes ptxt = Some prompt" "read_media_items (list_cells its) = Some items"
    "0 \<le> seq_id" "seq_id < ERLLAMA_N_SEQ_MAX_CAP" "w' = put_ctx i r' w"
    and body: "media_prefill_body api c e load it prompt items ?add seq_id n r = Some (r', Term (ETuple [atom_ok, EInt nt, EInt np]))"
    by (rule media_prefill_ok_args [OF assms(6,2,3,4)])
  obtain n' where run: "erllama_mtmd_prefill_run c e load (llama_n_ctx api n) prompt items ?add seq_id
      (erllama_safe_n_batch api n) ?p n = Some (0, nt, ?p + np, n')"
    and r': "r' = set_seq seq_id \<lparr>last_logits_idx = ERLLAMA_LOGITS_LAST, next_pos = ?p + np\<rparr>
      (r\<lparr>decode_deadline_ns := 0, c_ctx := Some n', abort_flag := end_flag it, decode_ready := True\<rparr>)"
    by (rule media_prefill_body_ok [OF body])
  obtain bms cs k where c: "load_items load items [] = Inr bms" "mtmd_tokenize c prompt ?add True bms = Some (Inr cs)"
    and ev: "eval_loop c e seq_id (erllama_safe_n_batch api n) True cs ?p ?p (n, 0) = Some (Ret 0, ?p + np, n', k)"
    and nt: "nt = int (helper_n_tokens cs)"
    by (rule run_ok [OF run])
  from eval_loop_rows [OF assms(1) ev] have "fed n' = fed n @ prompt_rows c e seq_id True ?p cs" "np = helper_n_pos cs"
    by (auto simp: helper_n_pos_def split: if_splits)
  then show ?thesis using that [OF a(1,2) c, of r' n'] nt assms(5) by (simp add: a(5) put_ctx_def r' set_seq_def)
qed

text \<open>
  C21: A prefill that answers \<open>{ok, NTokens, NPos}\<close> has decoded exactly the rows of the chunks of the prompt, in order, from
  the position at which the sequence stood, whatever the batch size: each token at its own position, each
  embedding at the position or the four positions that its chunk gives it. Only the logits of the last token
  are asked for. The counts of the reply are those of the chunks, the sequence stands behind them, and the other
  sequences stand where they stood.
\<close>

theorem media_prefill_exact:
  assumes "logs e fed" "ctxs w i = Some r" "c_ctx r = Some n" "projs j = Some (Some c)"
    and "nat seq_id < length (c_per_seq r)"
    and "nif_media_prefill api e load it projs (media_args i j ptxt its seq_id opts) w =
      Some (w', Term (ETuple [atom_ok, EInt nt, EInt np]))"
  shows "\<exists>prompt items bms cs n' r'. iolist_bytes ptxt = Some prompt \<and>
    read_media_items (list_cells its) = Some items \<and> load_items load items [] = Inr bms \<and>
    mtmd_tokenize c prompt (get_map_bool opts ''add_special'' \<noteq> Some False) True bms = Some (Inr cs) \<and>
    ctxs w' = (ctxs w)(i \<mapsto> r') \<and> c_ctx r' = Some n' \<and>
    fed n' = fed n @ prompt_rows c e seq_id True (next_pos (seq_of r seq_id)) cs \<and>
    nt = int (helper_n_tokens cs) \<and> np = helper_n_pos cs \<and>
    next_pos (seq_of r' seq_id) = next_pos (seq_of r seq_id) + np \<and>
    (\<forall>s. nat s \<noteq> nat seq_id \<longrightarrow> seq_of r' s = seq_of r s)"
proof (rule media_prefill_ok_rows [OF assms], goal_cases)
  case (1 prompt items bms cs n' r')
  then show ?case
    by (intro exI [of _ prompt] exI [of _ items] exI [of _ bms] exI [of _ cs] exI [of _ n'] exI [of _ r']) simp
qed

theorem media_prefill_exact_witness:
  "\<exists>w' cs n' r'. media_demo_call 1 [60, 109, 62, 65, 66, 67, 68] [media_item ''image'' [1]] =
       Some (w', Term (ETuple [atom_ok, EInt 10, EInt 8])) \<and>
     ctxs w' 0 = Some r' \<and> c_ctx r' = Some (prompt_rows media_demo (media_demo_engine 1) 2 True 0 cs) \<and>
     helper_n_pos cs = 8 \<and> next_pos (seq_of r' 2) = 8"
proof -
  obtain w' where w': "media_demo_call 1 [60, 109, 62, 65, 66, 67, 68] [media_item ''image'' [1]] =
       Some (w', Term (ETuple [atom_ok, EInt 10, EInt 8]))"
    using media_demo_reply(1) by auto
  from media_prefill_exact [OF media_demo_logs media_demo_state(1,2) _ _ w' [unfolded media_demo_call_def]] w'
  show ?thesis by (auto simp: media_demo_state)
qed

text \<open>The rows of media, and so of a prompt that ends in media, ask for no logits.\<close>

lemma media_rows_no_logits: "\<not> is_text ch \<Longrightarrow> x \<in> set (chunk_rows c e seq_id n_past want ch) \<Longrightarrow> \<not> r_logits x"
  by (cases ch) (auto simp: chunk_rows_def)

lemma prompt_rows_no_logits:
  "cs = [] \<or> \<not> is_text (last cs) \<Longrightarrow> x \<in> set (prompt_rows c e seq_id want n_past cs) \<Longrightarrow> \<not> r_logits x"
proof (induction cs arbitrary: n_past)
  case (Cons ch cs)
  show ?case
  proof (cases "cs = []")
    case True
    then show ?thesis using Cons.prems media_rows_no_logits [of ch x] by auto
  next
    case False
    have "\<not> r_logits y" if "y \<in> set (chunk_rows c e seq_id n_past False ch)" for y
      using that by (auto simp: chunk_rows_def split: chunk.splits)
    then show ?thesis using False Cons by auto
  qed
qed simp

text \<open>
  A prompt whose last chunk is media asks for no logits at all; the context is marked ready for a
  sampler all the same, with the logits of the last row of the batch.
\<close>

theorem media_prefill_no_logits:
  assumes "logs e fed" "ctxs w i = Some r" "c_ctx r = Some n" "projs j = Some (Some c)"
    and "nat seq_id < length (c_per_seq r)"
    and "nif_media_prefill api e load it projs (media_args i j ptxt its seq_id opts) w =
      Some (w', Term (ETuple [atom_ok, EInt nt, EInt np]))"
    and "iolist_bytes ptxt = Some prompt" "read_media_items (list_cells its) = Some items"
    and "load_items load items [] = Inr bms"
    and "mtmd_tokenize c prompt (get_map_bool opts ''add_special'' \<noteq> Some False) True bms = Some (Inr cs)"
    and "cs = [] \<or> \<not> is_text (last cs)"
  shows "\<exists>r' n' rows. ctxs w' i = Some r' \<and> c_ctx r' = Some n' \<and> fed n' = fed n @ rows \<and>
    (\<forall>x \<in> set rows. \<not> r_logits x) \<and> decode_ready r' \<and> last_logits_idx (seq_of r' seq_id) = ERLLAMA_LOGITS_LAST"
proof -
  let ?p = "next_pos (seq_of r seq_id)"
  obtain prompt' items' bms' cs' n' r' where q: "iolist_bytes ptxt = Some prompt'"
      "read_media_items (list_cells its) = Some items'" "load_items load items' [] = Inr bms'"
      "mtmd_tokenize c prompt' (get_map_bool opts ''add_special'' \<noteq> Some False) True bms' = Some (Inr cs')"
    and r': "ctxs w' = (ctxs w)(i \<mapsto> r')" "c_ctx r' = Some n'" "decode_ready r'"
      "fed n' = fed n @ prompt_rows c e seq_id True ?p cs'"
      "seq_of r' seq_id = \<lparr>last_logits_idx = ERLLAMA_LOGITS_LAST, next_pos = ?p + np\<rparr>"
    by (rule media_prefill_ok_rows [OF assms(1-6)])
  have "cs' = cs" using q assms(7-10) by simp
  moreover have "\<not> r_logits x" if "x \<in> set (prompt_rows c e seq_id True ?p cs)" for x
    by (rule prompt_rows_no_logits [OF assms(11) that])
  ultimately show ?thesis using r'
    by (intro exI [of _ r'] exI [of _ n'] exI [of _ "prompt_rows c e seq_id True ?p cs"]) auto
qed

theorem media_prefill_no_logits_witness:
  "\<exists>w' r' rows. media_demo_call 1 [65, 60, 109, 62] [media_item ''audio'' [82, 3]] =
       Some (w', Term (ETuple [atom_ok, EInt 4, EInt 4])) \<and>
     ctxs w' 0 = Some r' \<and> c_ctx r' = Some rows \<and> (\<forall>x \<in> set rows. \<not> r_logits x) \<and> decode_ready r' \<and>
     last_logits_idx (seq_of r' 2) = ERLLAMA_LOGITS_LAST"
proof -
  obtain w' where w': "media_demo_call 1 [65, 60, 109, 62] [media_item ''audio'' [82, 3]] =
       Some (w', Term (ETuple [atom_ok, EInt 4, EInt 4]))"
    using media_demo_reply(2) by auto
  have args: "iolist_bytes (EBin [65, 60, 109, 62]) = Some [65, 60, 109, 62]"
    "read_media_items (list_cells (mk_list [media_item ''audio'' [82, 3]])) = Some [(True, [82, 3])]"
    "load_items media_demo_load [(True, [82, 3])] [] = Inr [media_demo_clip]"
    "mtmd_tokenize media_demo [65, 60, 109, 62] (get_map_bool (EMap []) ''add_special'' \<noteq> Some False) True [media_demo_clip] =
       Some (Inr [TextChunk [1, 65], AudioChunk 2 8])"
    by code_simp+
  from media_prefill_no_logits [OF media_demo_logs media_demo_state(1,2) _ _ w' [unfolded media_demo_call_def] args] w'
  show ?thesis by (auto simp: media_demo_state)
qed

subsection \<open>Safety\<close>



text \<open>The call does not check that the projector is one for the model of the context.\<close>

theorem media_prefill_foreign_projector:
  "media_demo_call 2 [65, 60, 109, 62] [media_item ''image'' [1]] = None"
  by code_simp

text \<open>A clip of one sample trips an assertion of the tokenizer.\<close>

theorem media_prefill_one_sample_aborts:
  "media_demo_call 1 [65, 60, 109, 62] [media_item ''audio'' [82]] = None"
  by code_simp

end
