(* ===== verification/Model_Load.thy ===== *)
theory Model_Load
  imports Nif_Util
begin

text \<open>
  \<open>nif_load_model\<close> of \<open>erllama_nif_model.c\<close> with its option parsers, the arena of buffer
  overrides, the progress callback, and the load and device shims of \<open>erllama_safe.cpp\<close>. The record
  \<open>load_env\<close> holds what the call asks of llama.cpp: devices by name, buffer types, the fitting of parameters
  and the load itself, which reports its progress and logs lines.

  Memory is explicit where the code computes with it: the arena has slots for the entries and bytes
  for the patterns, unset until written, and an access outside is \<open>None\<close>. The outcome of a call lists the native
  models and arenas that it made and freed. \<open>fl\<close> rounds to a float.
\<close>

definition ERLLAMA_MAX_DEVICES :: nat where
  "ERLLAMA_MAX_DEVICES = 16"

definition ascii :: "string \<Rightarrow> byte list" where
  "ascii s = map of_char s"

text \<open>What a C string function sees of a buffer that ends in NUL.\<close>

definition c_text :: "byte list \<Rightarrow> byte list" where
  "c_text bs = takeWhile (\<lambda>b. b \<noteq> 0) bs"

record model_params =
  mp_n_gpu_layers :: int
  mp_main_gpu :: int
  mp_load_mode :: int
  mp_split_mode :: int
  mp_vocab_only :: bool
  mp_tensor_split :: bool
  mp_devices :: "nat list option"
  mp_tbo :: bool
  mp_progress :: bool

definition LOAD_MODE_TABLE :: "(string \<times> int) list" where
  "LOAD_MODE_TABLE =
     [(''auto'', -1), (''none'', 0), (''mmap'', 1), (''mlock'', 2), (''mmap_mlock'', 3), (''direct_io'', 4)]"

definition SPLIT_MODE_TABLE :: "(string \<times> int) list" where
  "SPLIT_MODE_TABLE = [(''none'', 0), (''layer'', 1), (''row'', 2), (''tensor'', 3)]"

subsection \<open>The arena of overrides\<close>

text \<open>A slot is unset, the final entry with null pointers, or a pattern's offset and a buffer type.\<close>

datatype tbo_slot = TboUnset | TboEnd | TboEntry nat nat

record arena =
  ar_slots :: "tbo_slot list"
  ar_bytes :: "byte option list"

definition poke_bytes :: "nat \<Rightarrow> byte list \<Rightarrow> byte option list \<Rightarrow> byte option list option" where
  "poke_bytes off bs mem =
     (if off + length bs \<le> length mem then Some (take off mem @ map Some bs @ drop (off + length bs) mem) else None)"

definition set_slot :: "nat \<Rightarrow> tbo_slot \<Rightarrow> arena \<Rightarrow> arena option" where
  "set_slot k t a = (if k < length (ar_slots a) then Some (a\<lparr>ar_slots := (ar_slots a)[k := t]\<rparr>) else None)"

text \<open>A pattern with its NUL at the cursor, and the next entry.\<close>

type_synonym tbo_state = "nat \<times> nat \<times> arena"

definition tbo_put :: "byte list \<Rightarrow> nat \<Rightarrow> tbo_state \<Rightarrow> tbo_state option" where
  "tbo_put pat buft s =
     (let (k, cur, a) = s in
      Option.bind (poke_bytes cur (pat @ [0]) (ar_bytes a)) (\<lambda>mem.
        map_option (\<lambda>a'. (Suc k, cur + length pat + 1, a')) (set_slot k (TboEntry cur buft) (a\<lparr>ar_bytes := mem\<rparr>))))"

subsection \<open>What the call asks of llama.cpp\<close>

record fit_out =
  fo_status :: "nat exc"
  fo_params :: model_params
  fo_cparams :: cparams
  fo_tensor_split :: "rat list"
  fo_arena :: arena

record load_run =
  lr_progress :: "rat list"
  lr_log :: "(int \<times> byte list) list"
  lr_model :: "nat option exc"

record load_env =
  le_backend :: bool
  le_max_devices :: nat
  le_params :: model_params
  le_cparams :: cparams
  le_dev_by_name :: "byte list \<Rightarrow> nat option exc"
  le_dev_type :: "nat \<Rightarrow> int exc"
  le_dev_buft :: "nat \<Rightarrow> nat option exc"
  le_cpu_buft :: "nat option exc"
  le_fit :: "byte list \<Rightarrow> model_params \<Rightarrow> cparams \<Rightarrow> rat list \<Rightarrow> nat list \<Rightarrow> int \<Rightarrow> fit_out"
  le_load :: "byte list \<Rightarrow> model_params \<Rightarrow> load_run"

definition erllama_safe_cpu_buffer_type :: "load_env \<Rightarrow> nat option" where
  "erllama_safe_cpu_buffer_type e = catch_all (le_cpu_buft e) None"

definition erllama_safe_dev_default_buft_by_name :: "load_env \<Rightarrow> byte list \<Rightarrow> nat option" where
  "erllama_safe_dev_default_buft_by_name e name =
     (case le_dev_by_name e name of
        Ret (Some d) \<Rightarrow> catch_all (le_dev_buft e d) None
      | _ \<Rightarrow> None)"

text \<open>\<open>erllama_safe_resolve_devices\<close>: the handles, or the index reported as bad.\<close>

fun resolve_from :: "load_env \<Rightarrow> nat \<Rightarrow> byte list list \<Rightarrow> nat + nat list" where
  "resolve_from e i [] = Inr []"
| "resolve_from e i (name # names) =
     (case le_dev_by_name e name of
        Throw \<Rightarrow> Inl 0
      | Ret None \<Rightarrow> Inl i
      | Ret (Some d) \<Rightarrow>
          (case le_dev_type e d of
             Throw \<Rightarrow> Inl 0
           | Ret t \<Rightarrow>
               if t = 0 then Inl i
               else (case resolve_from e (Suc i) names of Inl b \<Rightarrow> Inl b | Inr ds \<Rightarrow> Inr (d # ds))))"

definition erllama_safe_resolve_devices :: "load_env \<Rightarrow> byte list list \<Rightarrow> nat + nat list" where
  "erllama_safe_resolve_devices e names = resolve_from e 0 names"

subsection \<open>Devices\<close>

datatype 'a parsed = PAbsent | PBad | PUnknown eterm | POom | PSet 'a

fun device_names :: "eterm list \<Rightarrow> byte list list option" where
  "device_names [] = Some []"
| "device_names (h # hs) =
     (case iolist_bytes h of
        None \<Rightarrow> None
      | Some b \<Rightarrow> if b = [] \<or> length b \<ge> 64 then None else map_option (Cons (c_text b)) (device_names hs))"

definition parse_devices :: "load_env \<Rightarrow> eterm \<Rightarrow> nat list parsed" where
  "parse_devices e m =
     (case enif_get_map_value m ''devices'' of
        None \<Rightarrow> PAbsent
      | Some v \<Rightarrow>
          if v = EAtom ''none'' then PSet []
          else case enif_get_list_length v of
            None \<Rightarrow> PBad
          | Some n \<Rightarrow>
              if n = 0 \<or> n > ERLLAMA_MAX_DEVICES then PBad
              else case device_names (list_cells v) of
                None \<Rightarrow> PBad
              | Some names \<Rightarrow>
                  (case erllama_safe_resolve_devices e names of
                     Inl bad \<Rightarrow> PUnknown (list_cells v ! bad)
                   | Inr ds \<Rightarrow> PSet ds))"

subsection \<open>Overrides\<close>

definition LLM_FFN_EXPS_REGEX :: "byte list" where
  "LLM_FFN_EXPS_REGEX = ascii (CHR 0x5C # ''.ffn_(up|down|gate|gate_up)_(ch|)exps'')"

fun dec_digits :: "nat \<Rightarrow> byte list" where
  "dec_digits n = (if n < 10 then [of_nat (48 + n)] else dec_digits (n div 10) @ [of_nat (48 + n mod 10)])"

declare dec_digits.simps [simp del]

definition llm_ffn_exps_block_regex :: "nat \<Rightarrow> byte list" where
  "llm_ffn_exps_block_regex idx = ascii (''blk'' @ [CHR 0x5C] @ ''.'') @ dec_digits idx @ LLM_FFN_EXPS_REGEX"

text \<open>\<open>erllama_safe_ffn_exps_block_regex\<close> with a buffer of \<open>cap\<close> bytes: what it holds.\<close>

definition erllama_safe_ffn_exps_block_regex :: "nat \<Rightarrow> nat \<Rightarrow> byte list option" where
  "erllama_safe_ffn_exps_block_regex idx cap =
     (let pat = llm_ffn_exps_block_regex idx in if length pat + 1 > cap then None else Some pat)"

definition ERLLAMA_BLOCK_REGEX_CAP :: nat where
  "ERLLAMA_BLOCK_REGEX_CAP = 160"

text \<open>\<open>cpu_moe\<close>: 0 is off, -1 all blocks, \<open>n\<close> the first \<open>n\<close>.\<close>

definition cpu_moe :: "eterm \<Rightarrow> int option" where
  "cpu_moe m =
     (case enif_get_map_value m ''cpu_moe'' of
        None \<Rightarrow> Some 0
      | Some v \<Rightarrow>
          if v = atom_true then Some (-1)
          else case enif_get_long v of None \<Rightarrow> None | Some l \<Rightarrow> if l < 1 then None else Some l)"

definition override_pat :: "eterm \<Rightarrow> (byte list \<times> eterm) option" where
  "override_pat h =
     (case enif_get_tuple h of
        Some [p, d] \<Rightarrow>
          (case iolist_bytes p of None \<Rightarrow> None | Some pat \<Rightarrow> if pat = [] then None else Some (pat, d))
      | _ \<Rightarrow> None)"

text \<open>Pass 1: the bytes of the patterns.\<close>

fun list_bytes :: "eterm list \<Rightarrow> nat option" where
  "list_bytes [] = Some 0"
| "list_bytes (h # hs) =
     (case override_pat h of None \<Rightarrow> None | Some (pat, _) \<Rightarrow> map_option (\<lambda>n. length pat + 1 + n) (list_bytes hs))"

fun block_bytes :: "nat list \<Rightarrow> nat option" where
  "block_bytes [] = Some 0"
| "block_bytes (i # is) =
     (case erllama_safe_ffn_exps_block_regex i ERLLAMA_BLOCK_REGEX_CAP of
        None \<Rightarrow> None
      | Some buf \<Rightarrow> map_option (\<lambda>n. length buf + 1 + n) (block_bytes is))"

definition moe_bytes :: "int \<Rightarrow> nat option" where
  "moe_bytes moe_n = (if moe_n < 0 then Some (length LLM_FFN_EXPS_REGEX + 1) else block_bytes [0..<nat moe_n])"

text \<open>Pass 2.\<close>

definition override_buft :: "load_env \<Rightarrow> eterm \<Rightarrow> nat parsed" where
  "override_buft e d =
     (if d = EAtom ''cpu'' then (case erllama_safe_cpu_buffer_type e of None \<Rightarrow> PBad | Some b \<Rightarrow> PSet b)
      else case iolist_bytes d of
        None \<Rightarrow> PBad
      | Some nameb \<Rightarrow>
          if nameb = [] \<or> length nameb \<ge> 64 then PBad
          else case erllama_safe_dev_default_buft_by_name e (c_text nameb) of
            None \<Rightarrow> PUnknown d
          | Some b \<Rightarrow> PSet b)"

fun fill_list :: "load_env \<Rightarrow> eterm list \<Rightarrow> tbo_state \<Rightarrow> tbo_state parsed option" where
  "fill_list e [] s = Some (PSet s)"
| "fill_list e (h # hs) s =
     (case override_pat h of
        None \<Rightarrow> None
      | Some (pat, d) \<Rightarrow>
          (case override_buft e d of
             PSet b \<Rightarrow> Option.bind (tbo_put pat b s) (fill_list e hs)
           | PUnknown t \<Rightarrow> Some (PUnknown t)
           | _ \<Rightarrow> Some PBad))"

fun fill_blocks :: "nat \<Rightarrow> nat list \<Rightarrow> tbo_state \<Rightarrow> tbo_state option" where
  "fill_blocks b [] s = Some s"
| "fill_blocks b (i # is) s =
     (case erllama_safe_ffn_exps_block_regex i ERLLAMA_BLOCK_REGEX_CAP of
        None \<Rightarrow> None
      | Some buf \<Rightarrow> Option.bind (tbo_put buf b s) (fill_blocks b is))"

definition fill_moe :: "load_env \<Rightarrow> int \<Rightarrow> tbo_state \<Rightarrow> tbo_state parsed option" where
  "fill_moe e moe_n s =
     (if moe_n = 0 then Some (PSet s)
      else case erllama_safe_cpu_buffer_type e of
        None \<Rightarrow> Some PBad
      | Some b \<Rightarrow>
          map_option PSet (if moe_n < 0 then tbo_put LLM_FFN_EXPS_REGEX b s else fill_blocks b [0..<nat moe_n] s))"

definition fill_arena :: "load_env \<Rightarrow> eterm list \<Rightarrow> int \<Rightarrow> arena \<Rightarrow> arena parsed option" where
  "fill_arena e hs moe_n a =
     Option.bind (fill_list e hs (0, 0, a)) (\<lambda>r. case r of
        PSet s \<Rightarrow> Option.bind (fill_moe e moe_n s) (\<lambda>r'. case r' of
            PSet (k, _, a') \<Rightarrow> map_option PSet (set_slot k TboEnd a')
          | _ \<Rightarrow> Some PBad)
      | PUnknown t \<Rightarrow> Some (PUnknown t)
      | _ \<Rightarrow> Some PBad)"

text \<open>The result with the number of arenas allocated; on an error of pass 2 the arena is freed.\<close>

definition build_tbo :: "load_env \<Rightarrow> bool \<Rightarrow> eterm \<Rightarrow> (arena parsed \<times> nat) option" where
  "build_tbo e alloc m =
     (let lst = enif_get_map_value m ''tensor_buft_overrides'';
          hs = (case lst of None \<Rightarrow> [] | Some v \<Rightarrow> list_cells v) in
      case (case lst of None \<Rightarrow> Some 0 | Some v \<Rightarrow> enif_get_list_length v) of
        None \<Rightarrow> Some (PBad, 0)
      | Some n_list \<Rightarrow>
          (case cpu_moe m of
             None \<Rightarrow> Some (PBad, 0)
           | Some moe_n \<Rightarrow>
               let n_total = n_list + (if moe_n < 0 then 1 else nat moe_n) in
               if n_total = 0 then Some (PAbsent, 0)
               else if n_total > 4096 then Some (PBad, 0)
               else (case (list_bytes hs, moe_bytes moe_n) of
                  (Some p, Some q) \<Rightarrow>
                    if \<not> alloc then Some (POom, 0)
                    else map_option (\<lambda>r. (r, 1))
                      (fill_arena e hs moe_n \<lparr>ar_slots = replicate (n_total + 1) TboUnset, ar_bytes = replicate (p + q) None\<rparr>)
                | _ \<Rightarrow> Some (PBad, 0))))"

text \<open>What llama.cpp reads: patterns as C strings up to the entry with a null pattern.\<close>

fun cstr_at :: "byte option list \<Rightarrow> byte list option" where
  "cstr_at [] = None"
| "cstr_at (None # bs) = None"
| "cstr_at (Some b # bs) = (if b = 0 then Some [] else map_option (Cons b) (cstr_at bs))"

fun overrides_of :: "byte option list \<Rightarrow> tbo_slot list \<Rightarrow> (byte list \<times> nat) list option" where
  "overrides_of mem [] = None"
| "overrides_of mem (TboUnset # ts) = None"
| "overrides_of mem (TboEnd # ts) = Some []"
| "overrides_of mem (TboEntry off b # ts) =
     (case cstr_at (drop off mem) of None \<Rightarrow> None | Some p \<Rightarrow> map_option (Cons (p, b)) (overrides_of mem ts))"

end
