(* ===== verification/Model_Arena.thy ===== *)
theory Model_Arena
  imports Model_Load
begin

text \<open>
  The two passes over the overrides agree: what pass 1 measures is what pass 2 writes, so no write
  leaves the arena, and llama.cpp reads from it the overrides that were asked for. \<open>state_of\<close> is the arena
  after the entries \<open>ds\<close>.
\<close>

fun blob :: "(byte list \<times> nat) list \<Rightarrow> byte list" where
  "blob [] = []"
| "blob ((p, b) # ds) = p @ 0 # blob ds"

fun entries_of :: "nat \<Rightarrow> (byte list \<times> nat) list \<Rightarrow> tbo_slot list" where
  "entries_of off [] = []"
| "entries_of off ((p, b) # ds) = TboEntry off b # entries_of (off + length p + 1) ds"

definition state_of :: "nat \<Rightarrow> nat \<Rightarrow> (byte list \<times> nat) list \<Rightarrow> tbo_state" where
  "state_of n_slots n_bytes ds =
     (length ds, length (blob ds),
      \<lparr>ar_slots = entries_of 0 ds @ replicate (n_slots - length ds) TboUnset,
       ar_bytes = map Some (blob ds) @ replicate (n_bytes - length (blob ds)) None\<rparr>)"

lemma blob_append [simp]: "blob (ds @ es) = blob ds @ blob es"
  by (induction ds rule: blob.induct) simp_all

lemma length_entries [simp]: "length (entries_of off ds) = length ds"
  by (induction off ds rule: entries_of.induct) simp_all

lemma entries_append [simp]:
  "entries_of off (ds @ es) = entries_of off ds @ entries_of (off + length (blob ds)) es"
  by (induction off ds rule: entries_of.induct) (simp_all add: ac_simps)

lemma tbo_put_state:
  assumes "length ds < n_slots" "length (blob ds) + length p + 1 \<le> n_bytes"
  shows "tbo_put p b (state_of n_slots n_bytes ds) = Some (state_of n_slots n_bytes (ds @ [(p, b)]))"
proof -
  obtain i where i: "n_slots - length ds = Suc i" "n_slots - Suc (length ds) = i" using assms(1)
    by (metis Suc_diff_Suc)
  have "n_bytes - length (blob ds) - Suc (length p) = n_bytes - (length (blob ds) + Suc (length p))" by simp
  then show ?thesis using assms i
    by (simp add: tbo_put_def state_of_def poke_bytes_def set_slot_def list_update_append)
qed

subsection \<open>What is asked for\<close>

definition list_req :: "load_env \<Rightarrow> eterm \<Rightarrow> byte list \<times> nat" where
  "list_req e h =
     (case override_pat h of
        Some (p, d) \<Rightarrow> (p, case override_buft e d of PSet b \<Rightarrow> b | _ \<Rightarrow> 0)
      | None \<Rightarrow> ([], 0))"

definition moe_patterns :: "int \<Rightarrow> byte list list" where
  "moe_patterns moe_n =
     (if moe_n < 0 then [LLM_FFN_EXPS_REGEX] else map llm_ffn_exps_block_regex [0..<nat moe_n])"

definition asked :: "load_env \<Rightarrow> eterm list \<Rightarrow> int \<Rightarrow> (byte list \<times> nat) list" where
  "asked e hs moe_n =
     map (list_req e) hs @ map (\<lambda>p. (p, the (erllama_safe_cpu_buffer_type e))) (moe_patterns moe_n)"

lemma length_blob_map [simp]: "length (blob (map (\<lambda>p. (p, b)) ps)) = sum_list (map (\<lambda>p. length p + 1) ps)"
  by (induction ps) simp_all

lemma list_bytes_eq: "list_bytes hs = Some n \<Longrightarrow> length (blob (map (list_req e) hs)) = n"
proof (induction hs arbitrary: n)
  case (Cons h hs)
  then show ?case by (auto simp: list_req_def split: option.splits)
qed simp

lemma block_bytes_eq: "block_bytes js = Some n \<Longrightarrow> sum_list (map (\<lambda>i. length (llm_ffn_exps_block_regex i) + 1) js) = n"
proof (induction js arbitrary: n)
  case (Cons j js)
  then show ?case by (auto simp: erllama_safe_ffn_exps_block_regex_def Let_def split: option.splits if_splits)
qed simp

lemma moe_bytes_eq: "moe_bytes moe_n = Some n \<Longrightarrow> sum_list (map (\<lambda>p. length p + 1) (moe_patterns moe_n)) = n"
  using block_bytes_eq [of "[0..<nat moe_n]" n] by (auto simp: moe_bytes_def moe_patterns_def comp_def split: if_splits)

subsection \<open>Filling\<close>

lemma fill_list_state:
  assumes "list_bytes hs = Some n" "length ds + length hs \<le> n_slots" "length (blob ds) + n \<le> n_bytes"
  obtains r where "fill_list e hs (state_of n_slots n_bytes ds) = Some r"
    "\<And>s. r = PSet s \<Longrightarrow> s = state_of n_slots n_bytes (ds @ map (list_req e) hs) \<and>
       (\<forall>h \<in> set hs. \<exists>p d b. override_pat h = Some (p, d) \<and> override_buft e d = PSet b)"
proof -
  have "\<exists>r. fill_list e hs (state_of n_slots n_bytes ds) = Some r \<and>
     (\<forall>s. r = PSet s \<longrightarrow> s = state_of n_slots n_bytes (ds @ map (list_req e) hs) \<and>
       (\<forall>h \<in> set hs. \<exists>p d b. override_pat h = Some (p, d) \<and> override_buft e d = PSet b))"
    using assms
  proof (induction hs arbitrary: n ds)
    case (Cons h hs)
    obtain p d m where pat: "override_pat h = Some (p, d)" and m: "list_bytes hs = Some m" "n = length p + 1 + m"
      using Cons.prems(1) by (auto split: option.splits)
    show ?case
    proof (cases "override_buft e d")
      case (PSet b)
      have put: "tbo_put p b (state_of n_slots n_bytes ds) = Some (state_of n_slots n_bytes (ds @ [(p, b)]))"
        using Cons.prems m by (intro tbo_put_state) auto
      obtain r where "fill_list e hs (state_of n_slots n_bytes (ds @ [(p, b)])) = Some r"
        "\<forall>s. r = PSet s \<longrightarrow> s = state_of n_slots n_bytes ((ds @ [(p, b)]) @ map (list_req e) hs) \<and>
          (\<forall>h \<in> set hs. \<exists>p d b. override_pat h = Some (p, d) \<and> override_buft e d = PSet b)"
        using Cons.IH [OF m(1), of "ds @ [(p, b)]"] Cons.prems m by auto
      moreover have "list_req e h = (p, b)" by (simp add: list_req_def pat PSet)
      ultimately show ?thesis using pat put PSet by (intro exI [of _ r]) simp
    qed (use pat in auto)
  qed simp
  then show ?thesis using that by blast
qed

lemma fill_blocks_state:
  assumes "block_bytes js = Some n" "length ds + length js \<le> n_slots" "length (blob ds) + n \<le> n_bytes"
  shows "fill_blocks b js (state_of n_slots n_bytes ds) =
     Some (state_of n_slots n_bytes (ds @ map (\<lambda>p. (p, b)) (map llm_ffn_exps_block_regex js)))"
  using assms
proof (induction js arbitrary: n ds)
  case (Cons j js)
  let ?p = "llm_ffn_exps_block_regex j"
  obtain m where blk: "erllama_safe_ffn_exps_block_regex j ERLLAMA_BLOCK_REGEX_CAP = Some ?p"
    and m: "block_bytes js = Some m" "n = length ?p + 1 + m"
    using Cons.prems(1) by (auto simp: erllama_safe_ffn_exps_block_regex_def Let_def split: option.splits if_splits)
  have "tbo_put ?p b (state_of n_slots n_bytes ds) = Some (state_of n_slots n_bytes (ds @ [(?p, b)]))"
    using Cons.prems m by (intro tbo_put_state) auto
  then show ?case using Cons.IH [OF m(1), of "ds @ [(?p, b)]"] Cons.prems m by (simp add: blk)
qed simp

lemma moe_state:
  assumes "moe_bytes moe_n = Some n" "length ds + length (moe_patterns moe_n) \<le> n_slots" "length (blob ds) + n \<le> n_bytes"
  obtains r where "fill_moe e moe_n (state_of n_slots n_bytes ds) = Some r"
    "\<And>s. r = PSet s \<Longrightarrow> s = state_of n_slots n_bytes
       (ds @ map (\<lambda>p. (p, the (erllama_safe_cpu_buffer_type e))) (moe_patterns moe_n))"
proof (cases "moe_n = 0")
  case True
  then show ?thesis using that by (auto simp: fill_moe_def moe_patterns_def)
next
  case False
  show ?thesis
  proof (cases "erllama_safe_cpu_buffer_type e")
    case None
    then show ?thesis using that False by (auto simp: fill_moe_def)
  next
    case (Some b)
    have "moe_n < 0 \<Longrightarrow> tbo_put LLM_FFN_EXPS_REGEX b (state_of n_slots n_bytes ds) =
        Some (state_of n_slots n_bytes (ds @ [(LLM_FFN_EXPS_REGEX, b)]))"
      using assms by (intro tbo_put_state) (auto simp: moe_patterns_def moe_bytes_def)
    moreover have "\<not> moe_n < 0 \<Longrightarrow> fill_blocks b [0..<nat moe_n] (state_of n_slots n_bytes ds) =
        Some (state_of n_slots n_bytes (ds @ map (\<lambda>p. (p, b)) (map llm_ffn_exps_block_regex [0..<nat moe_n])))"
      using assms by (intro fill_blocks_state [of _ n]) (auto simp: moe_patterns_def moe_bytes_def)
    ultimately show ?thesis using that False Some
      by (cases "moe_n < 0") (auto simp: fill_moe_def moe_patterns_def)
  qed
qed

subsection \<open>Reading\<close>

lemma cstr_at_blob: "cstr_at (map Some p @ Some 0 # rest) = Some (c_text p)"
  by (induction p) (auto simp: c_text_def)

lemma overrides_of_entries:
  "overrides_of (map Some pre @ map Some (blob ds) @ rest) (entries_of (length pre) ds @ TboEnd # ts) =
     Some (map (\<lambda>(p, b). (c_text p, b)) ds)"
proof (induction ds arbitrary: pre rule: blob.induct)
  case (2 p b ds)
  have "cstr_at (drop (length pre) (map Some pre @ map Some (p @ 0 # blob ds) @ rest)) = Some (c_text p)"
    by (simp add: cstr_at_blob)
  moreover have "map Some pre @ map Some (p @ 0 # blob ds) @ rest = map Some (pre @ p @ [0]) @ map Some (blob ds) @ rest" by simp
  moreover have "length pre + length p + 1 = length (pre @ p @ [0])" by simp
  ultimately show ?case using 2 [of "pre @ p @ [0]"] by (simp only: blob.simps entries_of.simps append_Cons overrides_of.simps option.case option.map list.map prod.case)
qed simp

lemma state_read:
  assumes "length ds < n_slots" "set_slot (length ds) TboEnd (snd (snd (state_of n_slots n_bytes ds))) = Some a"
  shows "overrides_of (ar_bytes a) (ar_slots a) = Some (map (\<lambda>(p, b). (c_text p, b)) ds)"
proof -
  obtain i where "n_slots - length ds = Suc i" using assms(1) by (metis Suc_diff_Suc)
  then have "ar_slots a = entries_of 0 ds @ TboEnd # replicate i TboUnset"
    "ar_bytes a = map Some (blob ds) @ replicate (n_bytes - length (blob ds)) None"
    using assms by (auto simp: set_slot_def state_of_def list_update_append)
  then show ?thesis using overrides_of_entries [of "[]" ds] by simp
qed

lemma fill_arena_asked:
  assumes "list_bytes hs = Some p" "moe_bytes moe_n = Some q"
  obtains r where "fill_arena e hs moe_n
      \<lparr>ar_slots = replicate (length hs + length (moe_patterns moe_n) + 1) TboUnset, ar_bytes = replicate (p + q) None\<rparr> = Some r"
    "\<And>a. r = PSet a \<Longrightarrow>
       overrides_of (ar_bytes a) (ar_slots a) = Some (map (\<lambda>(p, b). (c_text p, b)) (asked e hs moe_n)) \<and>
       (\<forall>h \<in> set hs. \<exists>p d b. override_pat h = Some (p, d) \<and> override_buft e d = PSet b)"
proof -
  let ?n = "length hs + length (moe_patterns moe_n) + 1" and ?ds = "map (list_req e) hs"
  let ?a = "\<lparr>ar_slots = replicate ?n TboUnset, ar_bytes = replicate (p + q) None\<rparr>"
  have start: "(0, 0, ?a) = state_of ?n (p + q) []" by (simp add: state_of_def)
  have lens: "length (asked e hs moe_n) < ?n" "length (blob ?ds) = p"
    using list_bytes_eq [OF assms(1)] by (simp_all add: asked_def)
  obtain r1 where r1: "fill_list e hs (0, 0, ?a) = Some r1"
    "\<And>s. r1 = PSet s \<Longrightarrow> s = state_of ?n (p + q) ?ds \<and>
       (\<forall>h \<in> set hs. \<exists>p d b. override_pat h = Some (p, d) \<and> override_buft e d = PSet b)"
    unfolding start by (rule fill_list_state [OF assms(1), of "[]" ?n "p + q"]) auto
  show ?thesis
  proof (cases r1)
    case (PSet s)
    with r1(2) have s: "s = state_of ?n (p + q) ?ds"
      and ok: "\<forall>h \<in> set hs. \<exists>p d b. override_pat h = Some (p, d) \<and> override_buft e d = PSet b" by auto
    obtain r2 where r2: "fill_moe e moe_n s = Some r2" "\<And>t. r2 = PSet t \<Longrightarrow> t = state_of ?n (p + q) (asked e hs moe_n)"
      unfolding s asked_def by (rule moe_state [OF assms(2), of ?ds ?n "p + q"]) (auto simp: lens(2))
    show ?thesis
    proof (cases r2)
      case (PSet t)
      with r2(2) have t: "t = state_of ?n (p + q) (asked e hs moe_n)" by simp
      obtain a' where a': "set_slot (length (asked e hs moe_n)) TboEnd (snd (snd t)) = Some a'"
        using lens(1) by (simp add: t state_of_def set_slot_def)
      have "fst t = length (asked e hs moe_n)" by (simp add: t state_of_def)
      then have "fill_arena e hs moe_n ?a = Some (PSet a')"
        using r1(1) r2(1) \<open>r1 = PSet s\<close> PSet a' by (cases t) (simp add: fill_arena_def)
      then show ?thesis using state_read [OF lens(1) a' [unfolded t]] ok by (intro that) auto
    qed (use r1(1) r2(1) \<open>r1 = PSet s\<close> that in \<open>auto simp: fill_arena_def\<close>)
  qed (use r1(1) that in \<open>auto simp: fill_arena_def\<close>)
qed

end
