(* ===== verification/Model_Nif.thy ===== *)
theory Model_Nif
  imports Model_Load
begin

text \<open>
  The entry point \<open>nif_load_model\<close>: options, fitting, progress reports, the load, and who owns what
  afterwards; and the log callback that the load installs, with its receiver.
\<close>

subsection \<open>Options\<close>

definition load_mode_sugar :: "eterm \<Rightarrow> model_params \<Rightarrow> model_params" where
  "load_mode_sugar m p =
     (let mmap = get_map_bool m ''use_mmap''; mlock = get_map_bool m ''use_mlock'';
          use_mmap = (case mmap of Some b \<Rightarrow> b | None \<Rightarrow> True); use_mlock = (case mlock of Some b \<Rightarrow> b | None \<Rightarrow> False)
      in if mmap \<noteq> None \<or> mlock \<noteq> None
         then p\<lparr>mp_load_mode := (if use_mmap then (if use_mlock then 3 else 1) else (if use_mlock then 2 else 0))\<rparr>
         else p)"

definition load_params :: "eterm \<Rightarrow> model_params \<Rightarrow> model_params option" where
  "load_params m p0 =
     (let p1 = put_opt (get_map_int32 m ''n_gpu_layers'') (\<lambda>i p. p\<lparr>mp_n_gpu_layers := i\<rparr>) p0;
          p2 = put_opt (get_map_int31 m ''main_gpu'') (\<lambda>i p. p\<lparr>mp_main_gpu := i\<rparr>) p1
      in case (case get_map_atom_enum m ''load_mode'' LOAD_MODE_TABLE of
                 EnumBad \<Rightarrow> None
               | EnumValue i \<Rightarrow> Some (p2\<lparr>mp_load_mode := i\<rparr>)
               | EnumAbsent \<Rightarrow> Some (load_mode_sugar m p2)) of
           None \<Rightarrow> None
         | Some p3 \<Rightarrow>
             put_enum (get_map_atom_enum m ''split_mode'' SPLIT_MODE_TABLE) (\<lambda>i p. p\<lparr>mp_split_mode := i\<rparr>)
               (Some (put_opt (get_map_bool m ''vocab_only'') (\<lambda>b p. p\<lparr>mp_vocab_only := b\<rparr>) p3)))"

fun read_margins :: "eterm list \<Rightarrow> nat list \<Rightarrow> nat list option" where
  "read_margins [] acc = (if acc = [] then None else Some (acc @ replicate (ERLLAMA_MAX_DEVICES - length acc) (last acc)))"
| "read_margins (h # hs) acc =
     (if length acc \<ge> ERLLAMA_MAX_DEVICES then None
      else case enif_get_ulong h of
        None \<Rightarrow> None
      | Some mib \<Rightarrow> read_margins hs (acc @ [nat ((mib * 1024 * 1024) mod 2 ^ 64)]))"

definition fit_margins :: "eterm \<Rightarrow> nat list option" where
  "fit_margins fitv =
     (case enif_get_map_value fitv ''margins_mib'' of
        None \<Rightarrow> Some (replicate ERLLAMA_MAX_DEVICES (1024 * 1024 * 1024))
      | Some v \<Rightarrow> read_margins (list_cells v) [])"

definition fit_cparams :: "load_env \<Rightarrow> eterm \<Rightarrow> eterm \<Rightarrow> cparams option" where
  "fit_cparams e m fitv =
     map_option (\<lambda>p. if get_map_bool fitv ''n_ctx_auto'' = Some True then p\<lparr>cp_n_ctx := 0\<rparr> else p)
       (case enif_get_map_value m ''fit_context'' of
          Some fctx \<Rightarrow> if enif_is_map fctx then erllama_parse_cparams fctx (le_cparams e) else Some (le_cparams e)
        | None \<Rightarrow> Some (le_cparams e))"

subsection \<open>Progress\<close>

record progress_ctx =
  pc_last_pct :: nat
  pc_sent_final :: bool

text \<open>One report \<open>p\<close>, the \<open>i\<close>-th: the message, if one is sent.\<close>

definition erllama_load_progress_cb ::
  "(rat \<Rightarrow> rat) \<Rightarrow> (nat \<Rightarrow> bool) \<Rightarrow> nat \<Rightarrow> rat \<Rightarrow> progress_ctx \<Rightarrow> progress_ctx \<times> rat list" where
  "erllama_load_progress_cb fl alloc i p pc =
     (let pct = nat \<lfloor>fl (p * 100)\<rfloor>; final = (p \<ge> 1) in
      if (if final then pc_sent_final pc else pct \<le> pc_last_pct pc) then (pc, [])
      else (\<lparr>pc_last_pct = pct, pc_sent_final = (final \<or> pc_sent_final pc)\<rparr>, if alloc i then [p] else []))"

fun progress_sent :: "(rat \<Rightarrow> rat) \<Rightarrow> (nat \<Rightarrow> bool) \<Rightarrow> nat \<Rightarrow> rat list \<Rightarrow> progress_ctx \<Rightarrow> rat list" where
  "progress_sent fl alloc i [] pc = []"
| "progress_sent fl alloc i (p # ps) pc =
     (let (pc', out) = erllama_load_progress_cb fl alloc i p pc in out @ progress_sent fl alloc (Suc i) ps pc')"

subsection \<open>Logs\<close>

record log_fwd =
  g_log_fwd_enabled :: bool
  g_log_fwd_min_level :: int
  g_log_fwd_pid :: nat

definition erllama_log_forward :: "(nat \<Rightarrow> bool) \<Rightarrow> nat \<Rightarrow> log_fwd \<Rightarrow> int \<Rightarrow> byte list \<Rightarrow> (nat \<times> eterm) list" where
  "erllama_log_forward alloc i g level txt =
     (if level = 0 \<or> level = 5 \<or> \<not> g_log_fwd_enabled g \<or> level < g_log_fwd_min_level g then []
      else if \<not> alloc i then []
      else [(g_log_fwd_pid g, ETuple [EAtom ''llama_log'', EInt level, EBin txt])])"

text \<open>\<open>erllama_log_capture\<close>: the thread's buffer of 512 bytes, and what is forwarded.\<close>

definition erllama_log_capture ::
  "(nat \<Rightarrow> bool) \<Rightarrow> nat \<Rightarrow> log_fwd \<Rightarrow> int \<Rightarrow> byte list \<Rightarrow> byte list \<times> (nat \<times> eterm) list" where
  "erllama_log_capture alloc i g level txt = (take 511 txt, erllama_log_forward alloc i g level txt)"

fun captured :: "(int \<times> byte list) list \<Rightarrow> byte list \<Rightarrow> byte list" where
  "captured [] t = t"
| "captured ((level, txt) # ls) t = captured ls (take 511 txt)"

definition strstr :: "byte list \<Rightarrow> byte list \<Rightarrow> bool" where
  "strstr xs d = list_ex (\<lambda>i. take (length d) (drop i xs) = d) [0..<length xs + 1]"

definition nif_set_log_receiver :: "eterm \<Rightarrow> eterm \<Rightarrow> log_fwd \<Rightarrow> log_fwd \<times> nif_ret" where
  "nif_set_log_receiver a0 a1 g =
     (case (enif_get_local_pid a0, enif_get_int a1) of
        (Some pid, Some lvl) \<Rightarrow>
          (\<lparr>g_log_fwd_enabled = True, g_log_fwd_min_level = lvl, g_log_fwd_pid = pid\<rparr>, Term atom_ok)
      | _ \<Rightarrow> (g, Badarg))"

definition nif_clear_log_receiver :: "log_fwd \<Rightarrow> log_fwd \<times> nif_ret" where
  "nif_clear_log_receiver g = (g\<lparr>g_log_fwd_enabled := False\<rparr>, Term atom_ok)"

datatype load_status = ERLLAMA_LOAD_OK | ERLLAMA_LOAD_FAILED | ERLLAMA_LOAD_MALFORMED | ERLLAMA_LOAD_EXCEPTION

definition erllama_safe_model_load_from_file_v2 :: "load_run \<Rightarrow> nat option \<times> load_status" where
  "erllama_safe_model_load_from_file_v2 run =
     (case lr_model run of
        Throw \<Rightarrow> (None, ERLLAMA_LOAD_EXCEPTION)
      | Ret (Some m) \<Rightarrow> (Some m, ERLLAMA_LOAD_OK)
      | Ret None \<Rightarrow>
          (None, if strstr (captured (lr_log run) []) (ascii ''GGML_ASSERT'') then ERLLAMA_LOAD_MALFORMED else ERLLAMA_LOAD_FAILED))"

subsection \<open>The resource and its owner\<close>

record model_obj =
  mo_model :: "nat option"
  mo_mu_inited :: bool
  mo_tensor_split :: "rat list"
  mo_has_tensor_split :: bool
  mo_tbo :: "arena option"

definition new_model_obj :: model_obj where
  "new_model_obj = \<lparr>mo_model = None, mo_mu_inited = False, mo_tensor_split = replicate ERLLAMA_MAX_DEVICES 0,
     mo_has_tensor_split = False, mo_tbo = None\<rparr>"

text \<open>
  What came of a call: the reply, the resource it refers to, the native models made and freed, the arenas
  made and freed, and the progress messages.
\<close>

record load_out =
  lo_ret :: nif_ret
  lo_res :: "model_obj option"
  lo_made :: "nat list"
  lo_freed :: "nat list"
  lo_arenas :: nat
  lo_arenas_freed :: nat
  lo_sent :: "(nat \<times> byte list \<times> rat) list"

definition no_load :: "nif_ret \<Rightarrow> load_out" where
  "no_load ret = \<lparr>lo_ret = ret, lo_res = None, lo_made = [], lo_freed = [], lo_arenas = 0, lo_arenas_freed = 0, lo_sent = []\<rparr>"

text \<open>\<open>enif_release_resource\<close> on the only reference, which runs \<open>model_dtor\<close>; then the reply.\<close>

definition give_up :: "nat \<Rightarrow> nat \<Rightarrow> model_obj \<Rightarrow> nif_ret \<Rightarrow> load_out" where
  "give_up n_made n_freed r ret =
     (no_load ret)\<lparr>lo_freed := (case mo_model r of None \<Rightarrow> [] | Some p \<Rightarrow> [p]),
       lo_arenas := n_made, lo_arenas_freed := n_freed + (if mo_tbo r = None then 0 else 1)\<rparr>"

definition unknown_device :: "eterm \<Rightarrow> nif_ret" where
  "unknown_device t = erllama_error (ETuple [EAtom ''unknown_device'', t])"

text \<open>The fit: its parameters, whether it succeeded and the context size; a failed fit is forgotten.\<close>

definition fit_stage ::
  "load_env \<Rightarrow> bool \<Rightarrow> byte list \<Rightarrow> eterm \<Rightarrow> nat \<Rightarrow> model_obj \<Rightarrow> model_params \<Rightarrow>
   load_out + (nat \<times> model_obj \<times> model_params \<times> (bool \<times> int) option)" where
  "fit_stage e alloc path m n r p =
     (case enif_get_map_value m ''fit'' of
        None \<Rightarrow> Inr (n, r, p, None)
      | Some fitv \<Rightarrow>
          if \<not> enif_is_map fitv \<or> mo_tbo r \<noteq> None then Inl (give_up n 0 r Badarg)
          else (case (fit_margins fitv, fit_cparams e m fitv) of
             (Some margins, Some fcp) \<Rightarrow>
               if \<not> alloc then Inl (give_up n 0 r (err ''oom''))
               else
                 let min_ctx = (case get_map_uint fitv ''min_ctx'' of Some u \<Rightarrow> u | None \<Rightarrow> 4096);
                     out = le_fit e path p fcp (mo_tensor_split r) margins min_ctx;
                     r' = r\<lparr>mo_tensor_split := fo_tensor_split out, mo_tbo := Some (fo_arena out)\<rparr>
                 in Inr (Suc n, r', if fo_status out = Ret 0 then fo_params out else p,
                      Some (fo_status out = Ret 0, cp_n_ctx (fo_cparams out)))
           | _ \<Rightarrow> Inl (give_up n 0 r Badarg)))"

text \<open>The receiver of progress reports and the tag.\<close>

definition progress_to :: "bool \<Rightarrow> eterm \<Rightarrow> (nat \<times> byte list) option" where
  "progress_to alloc m =
     (case Option.bind (enif_get_map_value m ''progress_to'') enif_get_local_pid of
        None \<Rightarrow> None
      | Some pid \<Rightarrow>
          if \<not> alloc then None
          else Some (pid, case Option.bind (enif_get_map_value m ''progress_tag'') iolist_bytes of
                            None \<Rightarrow> [] | Some tag \<Rightarrow> take 128 tag))"

definition fit_info :: "model_params \<Rightarrow> model_obj \<Rightarrow> bool \<times> int \<Rightarrow> eterm" where
  "fit_info p r fit =
     EMap ([(EAtom ''fit'', EAtom (if fst fit then ''ok'' else ''failed'')),
            (EAtom ''n_gpu_layers'', EInt (mp_n_gpu_layers p)), (EAtom ''n_ctx'', EInt (snd fit))]
           @ (if fst fit \<and> mp_tensor_split p then [(EAtom ''tensor_split'', mk_list (map EFloat (mo_tensor_split r)))] else []))"

definition load_stage ::
  "load_env \<Rightarrow> (rat \<Rightarrow> rat) \<Rightarrow> (string \<Rightarrow> nat \<Rightarrow> bool) \<Rightarrow> nat \<Rightarrow> byte list \<Rightarrow> eterm \<Rightarrow> nat \<Rightarrow> model_obj \<Rightarrow> model_params \<Rightarrow>
   (bool \<times> int) option \<Rightarrow> load_out" where
  "load_stage e fl alloc i path m n r p fit =
     (let rcv = progress_to (alloc ''env'' 0) m;
          p' = (if rcv = None then p else p\<lparr>mp_progress := True\<rparr>);
          run = le_load e path p';
          sent = (case rcv of None \<Rightarrow> []
                  | Some (pid, tag) \<Rightarrow>
                      map (\<lambda>x. (pid, tag, x)) (progress_sent fl (alloc ''msg'') 0 (lr_progress run) \<lparr>pc_last_pct = 0, pc_sent_final = False\<rparr>))
      in case erllama_safe_model_load_from_file_v2 run of
           (None, status) \<Rightarrow>
             (give_up n 0 r (err (if status = ERLLAMA_LOAD_MALFORMED then ''malformed_gguf'' else ''load_failed'')))\<lparr>lo_sent := sent\<rparr>
         | (Some md, _) \<Rightarrow>
             if \<not> alloc ''mutex'' 0 then
               (let out = give_up n 0 r (err ''oom'') in out\<lparr>lo_made := [md], lo_freed := md # lo_freed out, lo_sent := sent\<rparr>)
             else
               \<lparr>lo_ret = Term (ETuple ([atom_ok, ERes MODEL_RT i] @ (case fit of None \<Rightarrow> [] | Some f \<Rightarrow> [fit_info p' r f]))),
                lo_res = Some (r\<lparr>mo_model := Some md, mo_mu_inited := True\<rparr>), lo_made = [md], lo_freed = [],
                lo_arenas = n, lo_arenas_freed = 0, lo_sent = sent\<rparr>)"

text \<open>Overrides, fit and load, once the devices are known.\<close>

definition tbo_stage ::
  "load_env \<Rightarrow> (rat \<Rightarrow> rat) \<Rightarrow> (string \<Rightarrow> nat \<Rightarrow> bool) \<Rightarrow> nat \<Rightarrow> byte list \<Rightarrow> eterm \<Rightarrow> model_obj \<Rightarrow> model_params \<Rightarrow> load_out option" where
  "tbo_stage e fl alloc i path m r p =
     (case build_tbo e (alloc ''tbo'' 0) m of
        None \<Rightarrow> None
      | Some (PBad, n) \<Rightarrow> Some (give_up n n r Badarg)
      | Some (PUnknown t, n) \<Rightarrow> Some (give_up n n r (unknown_device t))
      | Some (POom, n) \<Rightarrow> Some (give_up n n r (err ''oom''))
      | Some (tbo, n) \<Rightarrow>
          let r2 = (case tbo of PSet a \<Rightarrow> r\<lparr>mo_tbo := Some a\<rparr> | _ \<Rightarrow> r);
              p2 = (case tbo of PSet a \<Rightarrow> p\<lparr>mp_tbo := True\<rparr> | _ \<Rightarrow> p)
          in (case fit_stage e (alloc ''tbo'' 1) path m n r2 p2 of
                Inl out \<Rightarrow> Some out
              | Inr (n', r3, p3, fit) \<Rightarrow> Some (load_stage e fl alloc i path m n' r3 p3 fit)))"

definition nif_load_model ::
  "load_env \<Rightarrow> (rat \<Rightarrow> rat) \<Rightarrow> (string \<Rightarrow> nat \<Rightarrow> bool) \<Rightarrow> nat \<Rightarrow> eterm \<Rightarrow> eterm \<Rightarrow> load_out option" where
  "nif_load_model e fl alloc i a0 m =
     (case copy_path a0 4097 of
        None \<Rightarrow> Some (no_load Badarg)
      | Some path \<Rightarrow>
          if \<not> enif_is_map m then Some (no_load Badarg)
          else if \<not> le_backend e then Some (no_load (err ''load_failed''))
          else if \<not> alloc ''resource'' 0 then Some (no_load (err ''oom''))
          else let r0 = new_model_obj in
          case load_params m (le_params e) of
            None \<Rightarrow> Some (give_up 0 0 r0 Badarg)
          | Some p1 \<Rightarrow>
              if le_max_devices e > ERLLAMA_MAX_DEVICES then Some (give_up 0 0 r0 (err ''load_failed''))
              else case get_map_float_list fl m ''tensor_split'' ERLLAMA_MAX_DEVICES of
                None \<Rightarrow> Some (give_up 0 0 r0 Badarg)
              | Some ts \<Rightarrow>
                  let r1 = (if ts = [] then r0
                            else r0\<lparr>mo_tensor_split := ts @ drop (length ts) (mo_tensor_split r0), mo_has_tensor_split := True\<rparr>);
                      p2 = (if ts = [] then p1 else p1\<lparr>mp_tensor_split := True\<rparr>)
                  in case parse_devices e m of
                    PUnknown t \<Rightarrow> Some (give_up 0 0 r1 (unknown_device t))
                  | PBad \<Rightarrow> Some (give_up 0 0 r1 Badarg)
                  | devs \<Rightarrow>
                      tbo_stage e fl alloc i path m r1 (case devs of PSet ds \<Rightarrow> p2\<lparr>mp_devices := Some ds\<rparr> | _ \<Rightarrow> p2))"

end
