(* ===== verification/Model_Query.thy ===== *)
theory Model_Query
  imports Model_Load Lifecycle Vocab_Text
begin

text \<open>
  The probes of \<open>erllama_nif_model.c\<close>: what a model is, what its vocabulary holds, and what devices there
  are. \<open>model_api\<close> and \<open>dev_api\<close> are the llama.cpp and ggml calls behind the shims; a model resource is
  that of \<open>Lifecycle\<close>. Sizes in bytes are 64-bit words. \<open>alloc s\<close> says whether the binary for key
  \<open>s\<close> can be made.
\<close>

record model_api =
  ma_size :: "nat \<Rightarrow> u64 exc"
  ma_n_layer :: "nat \<Rightarrow> int exc"
  ma_meta :: "nat \<Rightarrow> string \<Rightarrow> byte list option exc"
  ma_desc :: "nat \<Rightarrow> byte list exc"
  ma_n_ctx_train :: "nat \<Rightarrow> int exc"
  ma_n_params :: "nat \<Rightarrow> u64 exc"
  ma_n_embd :: "nat \<Rightarrow> int exc"
  ma_n_head :: "nat \<Rightarrow> int exc"
  ma_n_swa :: "nat \<Rightarrow> int exc"
  ma_is_recurrent :: "nat \<Rightarrow> bool exc"
  ma_is_hybrid :: "nat \<Rightarrow> bool exc"
  ma_is_diffusion :: "nat \<Rightarrow> bool exc"
  ma_has_encoder :: "nat \<Rightarrow> bool exc"
  ma_has_decoder :: "nat \<Rightarrow> bool exc"
  ma_ftype :: "nat \<Rightarrow> int exc"
  ma_vocab :: "nat \<Rightarrow> nat option"
  ma_n_tokens :: "nat \<Rightarrow> int exc"
  ma_add_bos :: "nat \<Rightarrow> bool exc"
  ma_add_eos :: "nat \<Rightarrow> bool exc"
  ma_special :: "string \<Rightarrow> nat \<Rightarrow> int exc"

text \<open>\<open>erllama_lock_model\<close>: the native model of a resource term.\<close>

definition erllama_lock_model :: "(nat \<rightharpoonup> model_res) \<Rightarrow> eterm \<Rightarrow> nat option option" where
  "erllama_lock_model ms t = map_option m_model (Option.bind (enif_get_resource MODEL_RT t) ms)"

definition with_model :: "(nat \<rightharpoonup> model_res) \<Rightarrow> eterm \<Rightarrow> (nat \<Rightarrow> nif_ret) \<Rightarrow> nif_ret" where
  "with_model ms t f =
     (case erllama_lock_model ms t of None \<Rightarrow> Badarg | Some None \<Rightarrow> err ''released'' | Some (Some p) \<Rightarrow> f p)"

definition erllama_safe_model_size :: "model_api \<Rightarrow> nat \<Rightarrow> u64" where
  "erllama_safe_model_size a p = catch_all (ma_size a p) 0"

definition erllama_safe_model_n_layer :: "model_api \<Rightarrow> nat \<Rightarrow> int" where
  "erllama_safe_model_n_layer a p = catch_all (ma_n_layer a p) 0"

definition nif_model_size :: "model_api \<Rightarrow> (nat \<rightharpoonup> model_res) \<Rightarrow> eterm \<Rightarrow> nif_ret" where
  "nif_model_size a ms t = with_model ms t (\<lambda>p. Term (EInt (uint (erllama_safe_model_size a p))))"

definition nif_model_n_layer :: "model_api \<Rightarrow> (nat \<rightharpoonup> model_res) \<Rightarrow> eterm \<Rightarrow> nif_ret" where
  "nif_model_n_layer a ms t = with_model ms t (\<lambda>p. Term (EInt (erllama_safe_model_n_layer a p)))"

subsection \<open>The family\<close>

text \<open>
  \<open>snprintf(buf, cap, "%s", s)\<close>: the length of the string, and the string in the buffer. A missing key is
  the code -1 and the empty string.
\<close>

definition snprintf_s :: "nat \<Rightarrow> byte list \<Rightarrow> int \<times> byte list" where
  "snprintf_s cap s = (int (length (c_text s)), take (cap - 1) (c_text s))"

definition erllama_safe_model_meta_val_str :: "model_api \<Rightarrow> nat \<Rightarrow> string \<Rightarrow> nat \<Rightarrow> int \<times> byte list" where
  "erllama_safe_model_meta_val_str a p key cap =
     (case ma_meta a p key of Ret (Some s) \<Rightarrow> snprintf_s cap s | _ \<Rightarrow> (-1, []))"

definition erllama_safe_model_desc :: "model_api \<Rightarrow> nat \<Rightarrow> nat \<Rightarrow> int \<times> byte list" where
  "erllama_safe_model_desc a p cap = (case ma_desc a p of Ret s \<Rightarrow> snprintf_s cap s | Throw \<Rightarrow> (-1, []))"

definition family_str :: "bool \<Rightarrow> int \<times> byte list \<Rightarrow> eterm" where
  "family_str alloc r =
     (if alloc then EBin (if fst r < 0 then [] else snd r) else EAtom ''undefined'')"

definition bool_term :: "bool \<Rightarrow> eterm" where
  "bool_term b = (if b then atom_true else atom_false)"

definition nif_model_family :: "model_api \<Rightarrow> (string \<Rightarrow> bool) \<Rightarrow> (nat \<rightharpoonup> model_res) \<Rightarrow> eterm \<Rightarrow> nif_ret" where
  "nif_model_family a alloc ms t = with_model ms t (\<lambda>p. Term (EMap [
     (EAtom ''arch'', family_str (alloc ''arch'') (erllama_safe_model_meta_val_str a p ''general.architecture'' 128)),
     (EAtom ''name'', family_str (alloc ''name'') (erllama_safe_model_meta_val_str a p ''general.name'' 256)),
     (EAtom ''desc'', family_str (alloc ''desc'') (erllama_safe_model_desc a p 256)),
     (EAtom ''n_ctx_train'', EInt (catch_all (ma_n_ctx_train a p) 0)),
     (EAtom ''n_params'', EInt (uint (catch_all (ma_n_params a p) 0))),
     (EAtom ''n_embd'', EInt (catch_all (ma_n_embd a p) 0)),
     (EAtom ''n_layer'', EInt (erllama_safe_model_n_layer a p)),
     (EAtom ''n_head'', EInt (catch_all (ma_n_head a p) 0)),
     (EAtom ''n_swa'', EInt (catch_all (ma_n_swa a p) 0)),
     (EAtom ''recurrent'', bool_term (catch_all (ma_is_recurrent a p) False)),
     (EAtom ''hybrid'', bool_term (catch_all (ma_is_hybrid a p) False)),
     (EAtom ''diffusion'', bool_term (catch_all (ma_is_diffusion a p) False)),
     (EAtom ''has_encoder'', bool_term (catch_all (ma_has_encoder a p) False)),
     (EAtom ''has_decoder'', bool_term (catch_all (ma_has_decoder a p) False)),
     (EAtom ''ftype'', EInt (catch_all (ma_ftype a p) (-1)))]))"

subsection \<open>The vocabulary\<close>

definition vocab_tok_term :: "int \<Rightarrow> eterm" where
  "vocab_tok_term t = (if t = LLAMA_TOKEN_NULL then EAtom ''undefined'' else EInt t)"

definition erllama_safe_vocab_token :: "model_api \<Rightarrow> string \<Rightarrow> nat \<Rightarrow> int" where
  "erllama_safe_vocab_token a name v = catch_all (ma_special a name v) LLAMA_TOKEN_NULL"

definition special_names :: "string list" where
  "special_names = [''bos'', ''eos'', ''eot'', ''sep'', ''nl'', ''pad'', ''mask'', ''fim_pre'', ''fim_suf'', ''fim_mid'',
     ''fim_pad'', ''fim_rep'', ''fim_sep'']"

definition nif_vocab_info :: "model_api \<Rightarrow> (nat \<rightharpoonup> model_res) \<Rightarrow> eterm \<Rightarrow> nif_ret" where
  "nif_vocab_info a ms t = with_model ms t (\<lambda>p.
     case ma_vocab a p of
       None \<Rightarrow> err ''exception''
     | Some v \<Rightarrow> Term (EMap (
         [(EAtom ''n_vocab'', EInt (catch_all (ma_n_tokens a v) 0)),
          (EAtom ''add_bos'', bool_term (catch_all (ma_add_bos a v) False)),
          (EAtom ''add_eos'', bool_term (catch_all (ma_add_eos a v) False))]
         @ map (\<lambda>s. (EAtom s, vocab_tok_term (erllama_safe_vocab_token a s v))) special_names)))"

subsection \<open>Devices\<close>

record dev_props =
  dp_name :: "byte list option"
  dp_description :: "byte list option"
  dp_device_id :: "byte list option"
  dp_memory_free :: u64
  dp_memory_total :: u64
  dp_type :: int
  dp_async :: bool
  dp_host_buffer :: bool
  dp_from_host_ptr :: bool
  dp_events :: bool
  dp_mmap :: bool

record dev_api =
  da_backend :: bool
  da_count :: "nat exc"
  da_get :: "nat \<Rightarrow> nat option exc"
  da_memory :: "nat \<Rightarrow> (u64 \<times> u64) exc"
  da_type :: "nat \<Rightarrow> int exc"
  da_props :: "nat \<Rightarrow> dev_props exc"

text \<open>\<open>enum ggml_backend_dev_type\<close>: 0 CPU, 1 GPU, 2 integrated GPU, 3 accelerator, 4 meta.\<close>

definition erllama_safe_backend_dev_count :: "dev_api \<Rightarrow> nat" where
  "erllama_safe_backend_dev_count a = catch_all (da_count a) 0"

text \<open>Free bytes, total bytes and the type of device \<open>idx\<close>.\<close>

definition erllama_safe_backend_dev_info :: "dev_api \<Rightarrow> nat \<Rightarrow> (u64 \<times> u64 \<times> int) option" where
  "erllama_safe_backend_dev_info a idx =
     (case da_get a idx of
        Ret (Some d) \<Rightarrow>
          (case (da_memory a d, da_type a d) of (Ret (f, t), Ret dt) \<Rightarrow> Some (f, t, dt) | _ \<Rightarrow> None)
      | _ \<Rightarrow> None)"

record vram_sums =
  total_sum :: u64
  free_sum :: u64
  found_non_cpu :: bool

definition vram_step :: "dev_api \<Rightarrow> nat \<Rightarrow> vram_sums \<Rightarrow> vram_sums" where
  "vram_step a i s =
     (case erllama_safe_backend_dev_info a i of
        None \<Rightarrow> s
      | Some (f, t, dt) \<Rightarrow>
          if dt = 1 \<or> dt = 2 \<or> dt = 3
          then \<lparr>total_sum = total_sum s + t, free_sum = free_sum s + f, found_non_cpu = True\<rparr> else s)"

definition nif_vram_info :: "dev_api \<Rightarrow> nif_ret" where
  "nif_vram_info a =
     (if \<not> da_backend a then err ''exception''
      else
        let s = fold (vram_step a) [0..<erllama_safe_backend_dev_count a] \<lparr>total_sum = 0, free_sum = 0, found_non_cpu = False\<rparr> in
        if \<not> found_non_cpu s then err ''no_gpu''
        else
          let used = (if total_sum s > free_sum s then total_sum s - free_sum s else 0) in
          Term (ETuple [atom_ok, EMap [(EAtom ''total_b'', EInt (uint (total_sum s))),
            (EAtom ''free_b'', EInt (uint (free_sum s))), (EAtom ''used_b'', EInt (uint used))]]))"

definition copy_prop_str :: "nat \<Rightarrow> byte list option \<Rightarrow> byte list" where
  "copy_prop_str cap src = (case src of None \<Rightarrow> [] | Some s \<Rightarrow> take (cap - 1) (c_text s))"

definition dev_type_atom :: "int \<Rightarrow> eterm" where
  "dev_type_atom t =
     EAtom (if t = 0 then ''cpu'' else if t = 1 then ''gpu'' else if t = 2 then ''igpu'' else if t = 3 then ''accel'' else ''meta'')"

definition prop_str_bin :: "bool \<Rightarrow> byte list \<Rightarrow> eterm" where
  "prop_str_bin alloc s = (if alloc then EBin s else EAtom ''undefined'')"

text \<open>\<open>erllama_safe_backend_dev_props\<close> with the strings cut to their fields.\<close>

definition erllama_safe_backend_dev_props :: "dev_api \<Rightarrow> nat \<Rightarrow> dev_props option" where
  "erllama_safe_backend_dev_props a idx =
     (case da_get a idx of
        Ret (Some d) \<Rightarrow>
          (case da_props a d of
             Throw \<Rightarrow> None
           | Ret p \<Rightarrow> Some (p\<lparr>dp_name := Some (copy_prop_str 128 (dp_name p)),
               dp_description := Some (copy_prop_str 256 (dp_description p)),
               dp_device_id := map_option (\<lambda>s. copy_prop_str 64 (Some s)) (dp_device_id p)\<rparr>))
      | _ \<Rightarrow> None)"

definition dev_term :: "(string \<Rightarrow> nat \<Rightarrow> bool) \<Rightarrow> nat \<Rightarrow> dev_props \<Rightarrow> eterm" where
  "dev_term alloc idx p =
     EMap [(EAtom ''index'', EInt (int idx)),
       (EAtom ''name'', prop_str_bin (alloc ''name'' idx) (the (dp_name p))),
       (EAtom ''description'', prop_str_bin (alloc ''description'' idx) (the (dp_description p))),
       (EAtom ''type'', dev_type_atom (dp_type p)),
       (EAtom ''free_b'', EInt (uint (dp_memory_free p))),
       (EAtom ''total_b'', EInt (uint (dp_memory_total p))),
       (EAtom ''device_id'', case dp_device_id p of None \<Rightarrow> EAtom ''undefined'' | Some s \<Rightarrow> prop_str_bin (alloc ''device_id'' idx) s),
       (EAtom ''caps'', EMap [(EAtom ''async'', bool_term (dp_async p)), (EAtom ''host_buffer'', bool_term (dp_host_buffer p)),
          (EAtom ''buffer_from_host_ptr'', bool_term (dp_from_host_ptr p)), (EAtom ''events'', bool_term (dp_events p)),
          (EAtom ''mmap_support'', bool_term (dp_mmap p))])]"

text \<open>The loop runs from the last device down and conses.\<close>

definition nif_list_devices :: "dev_api \<Rightarrow> (string \<Rightarrow> nat \<Rightarrow> bool) \<Rightarrow> nif_ret" where
  "nif_list_devices a alloc =
     (if \<not> da_backend a then err ''exception''
      else Term (ETuple [atom_ok,
        fold (\<lambda>idx l. case erllama_safe_backend_dev_props a idx of None \<Rightarrow> l | Some p \<Rightarrow> ECons (dev_term alloc idx p) l)
          (rev [0..<erllama_safe_backend_dev_count a]) ENil]))"

end
