(* ===== verification/Model_Props.thy ===== *)
theory Model_Props
  imports Model_Arena Model_Nif Model_Query
begin

text \<open>
  The properties of model loading: the overrides that llama.cpp gets, who owns the native model and the
  arena after any outcome, the progress messages, the classification of a failed load, and the memory that
  \<open>nif_vram_info\<close> reports.
\<close>

subsection \<open>Overrides\<close>

definition override_cells :: "eterm \<Rightarrow> eterm list" where
  "override_cells m = (case enif_get_map_value m ''tensor_buft_overrides'' of None \<Rightarrow> [] | Some v \<Rightarrow> list_cells v)"

lemma build_tbo_cases:
  obtains (early) r where "build_tbo e alloc m = Some (r, 0)" "\<And>a. r \<noteq> PSet a"
  | (fill) moe_n p q where "cpu_moe m = Some moe_n" "list_bytes (override_cells m) = Some p" "moe_bytes moe_n = Some q"
      "build_tbo e alloc m = map_option (\<lambda>r. (r, 1)) (fill_arena e (override_cells m) moe_n
         \<lparr>ar_slots = replicate (length (override_cells m) + length (moe_patterns moe_n) + 1) TboUnset,
          ar_bytes = replicate (p + q) None\<rparr>)"
proof -
  let ?v = "enif_get_map_value m ''tensor_buft_overrides''"
  let ?len = "case ?v of None \<Rightarrow> Some 0 | Some v \<Rightarrow> enif_get_list_length v"
  note d = build_tbo_def Let_def override_cells_def
  show ?thesis
  proof (cases ?len)
    case None
    then show ?thesis by (intro early [of PBad]) (simp_all add: d)
  next
    case len: (Some k)
    show ?thesis
    proof (cases "cpu_moe m")
      case None
      then show ?thesis using len by (intro early [of PBad]) (simp_all add: d)
    next
      case moe: (Some moe_n)
      have k: "k = length (override_cells m)"
        using len by (auto simp: override_cells_def enif_get_list_length_def split: option.splits if_splits)
      have n: "(if moe_n < 0 then 1 else nat moe_n) = length (moe_patterns moe_n)" by (simp add: moe_patterns_def)
      note go = build_tbo_def [of e alloc m, unfolded Let_def, folded override_cells_def, unfolded len moe option.case n k]
      consider "length (override_cells m) + length (moe_patterns moe_n) = 0"
        | "length (override_cells m) + length (moe_patterns moe_n) > 4096"
        | "list_bytes (override_cells m) = None \<or> moe_bytes moe_n = None"
        | p q where "length (override_cells m) + length (moe_patterns moe_n) \<noteq> 0"
          "\<not> length (override_cells m) + length (moe_patterns moe_n) > 4096"
          "list_bytes (override_cells m) = Some p" "moe_bytes moe_n = Some q"
        by fastforce
      then show ?thesis
      proof cases
        case 1
        then show ?thesis by (intro early [of PAbsent]) (simp_all add: go)
      next
        case 2
        then show ?thesis by (intro early [of PBad]) (auto simp: go)
      next
        case 3
        then show ?thesis
          by (cases "length (override_cells m) + length (moe_patterns moe_n) = 0")
             (auto simp: go intro: early [of PAbsent] early [of PBad] split: option.splits)
      next
        case 4
        show ?thesis
        proof (cases alloc)
          case True
          then show ?thesis using 4(1,2) by (intro fill [OF moe 4(3,4)]) (unfold go, simp only: 4(3,4) if_False prod.case option.case simp_thms)
        next
          case False
          then show ?thesis using 4(1,2) by (intro early [of POom], unfold go) (simp_all only: 4(3,4) if_False if_True prod.case option.case simp_thms parsed.distinct not_False_eq_True)
        qed
      qed
    qed
  qed
qed

text \<open>
  C19: Building the overrides never writes outside the arena that its first pass has measured, whatever
  the options are. When it succeeds, llama.cpp reads from the arena exactly the overrides asked for: the explicit
  ones in order, each with the buffer type of its device, then those of \<open>cpu_moe\<close>, all up to a NUL in a pattern.
\<close>

theorem build_tbo_exact:
  "\<exists>r n. build_tbo e alloc m = Some (r, n) \<and>
     (\<forall>a. r = PSet a \<longrightarrow>
        overrides_of (ar_bytes a) (ar_slots a) =
          Some (map (\<lambda>(p, b). (c_text p, b)) (asked e (override_cells m) (the (cpu_moe m)))) \<and>
        (\<forall>h \<in> set (override_cells m). \<exists>p d b. override_pat h = Some (p, d) \<and> override_buft e d = PSet b))"
proof (cases rule: build_tbo_cases [of e alloc m])
  case (fill moe_n p q)
  show ?thesis
  proof (rule fill_arena_asked [OF fill(2,3), of e], goal_cases)
    case (1 r)
    then show ?case using fill(1,4) by (intro exI [of _ r] exI [of _ 1]) simp
  qed
qed blast

definition demo_load_env :: load_env where
  "demo_load_env =
     \<lparr>le_backend = True, le_max_devices = 16,
      le_params = \<lparr>mp_n_gpu_layers = 0, mp_main_gpu = 0, mp_load_mode = -1, mp_split_mode = 1, mp_vocab_only = False,
        mp_tensor_split = False, mp_devices = None, mp_tbo = False, mp_progress = False\<rparr>,
      le_cparams = \<lparr>cp_n_ctx = 512, cp_n_batch = 512, cp_n_ubatch = 512, cp_n_seq_max = 1, cp_n_rs_seq = 0, cp_n_threads = 4,
        cp_n_threads_batch = 4, cp_embeddings = False, cp_offload_kqv = True, cp_kv_unified = False, cp_flash_attn_type = -1,
        cp_type_k = 1, cp_type_v = 1\<rparr>,
      le_dev_by_name = (\<lambda>_. Ret None), le_dev_type = (\<lambda>_. Ret 0), le_dev_buft = (\<lambda>_. Ret None), le_cpu_buft = Ret (Some 5),
      le_fit = (\<lambda>path mp cp ts ns i. \<lparr>fo_status = Throw, fo_params = mp, fo_cparams = cp, fo_tensor_split = ts,
        fo_arena = \<lparr>ar_slots = [], ar_bytes = []\<rparr>\<rparr>),
      le_load = (\<lambda>_ _. \<lparr>lr_progress = [], lr_log = [], lr_model = Throw\<rparr>)\<rparr>"

abbreviation demo_overrides :: eterm where
  "demo_overrides \<equiv> EMap [(EAtom ''tensor_buft_overrides'', mk_list [ETuple [EBin [120, 46], EAtom ''cpu'']])]"

theorem build_tbo_exact_witness:
  "\<exists>a. build_tbo demo_load_env True demo_overrides = Some (PSet a, 1) \<and>
     overrides_of (ar_bytes a) (ar_slots a) = Some [([120, 46], 5)]"
proof -
  have run: "map_option (\<lambda>(r, n). (case r of PSet _ \<Rightarrow> True | _ \<Rightarrow> False, n)) (build_tbo demo_load_env True demo_overrides) = Some (True, 1)"
    by code_simp
  from run obtain z where z: "build_tbo demo_load_env True demo_overrides = Some z"
      "(case z of (r, n) \<Rightarrow> (case r of PSet _ \<Rightarrow> True | _ \<Rightarrow> False, n)) = (True, 1)"
    unfolding map_option_eq_Some by blast
  obtain r n where rn: "z = (r, n)" by (cases z)
  obtain a where "r = PSet a" "n = 1" using z(2) that unfolding rn by (cases r) simp_all
  with z(1) rn have a: "build_tbo demo_load_env True demo_overrides = Some (PSet a, 1)" by simp
  have "asked demo_load_env (override_cells demo_overrides) (the (cpu_moe demo_overrides)) = [([120, 46], 5)]"
    by (simp add: asked_def override_cells_def cpu_moe_def list_req_def moe_patterns_def override_pat_def override_buft_def
        demo_load_env_def erllama_safe_cpu_buffer_type_def)
  moreover have "c_text [120, 46] = [120, 46]" by (simp add: c_text_def)
  ultimately show ?thesis using build_tbo_exact [of demo_load_env True demo_overrides] a by auto
qed

subsection \<open>Ownership\<close>

definition accounted :: "load_out \<Rightarrow> bool" where
  "accounted out \<longleftrightarrow>
     (case lo_res out of
        None \<Rightarrow> lo_freed out = lo_made out \<and> lo_arenas_freed out = lo_arenas out
      | Some r \<Rightarrow> lo_freed out = [] \<and> lo_made out = [the (mo_model r)] \<and> mo_model r \<noteq> None \<and> mo_mu_inited r \<and>
          lo_arenas_freed out = 0 \<and> lo_arenas out = (if mo_tbo r = None then 0 else 1)) \<and>
     (lo_res out = None \<longleftrightarrow> (\<nexists>ts. lo_ret out = Term (ETuple (atom_ok # ts))))"

lemma no_ok [simp]:
  "err why \<noteq> Term (ETuple (atom_ok # ts))" "unknown_device t \<noteq> Term (ETuple (atom_ok # ts))"
  "Badarg \<noteq> Term (ETuple (atom_ok # ts))"
  by (simp_all add: err_def erllama_error_def unknown_device_def)

lemma accounted_no_load [simp]: "(\<And>ts. ret \<noteq> Term (ETuple (atom_ok # ts))) \<Longrightarrow> accounted (no_load ret)"
  by (simp add: accounted_def no_load_def)

text \<open>The resource of a load in progress: no native model, and an arena for each one not freed.\<close>

definition load_holds :: "nat \<Rightarrow> nat \<Rightarrow> model_obj \<Rightarrow> bool" where
  "load_holds n f r \<longleftrightarrow> mo_model r = None \<and> n = f + (if mo_tbo r = None then 0 else 1)"

lemma accounted_give_up: "load_holds n f r \<Longrightarrow> (\<And>ts. ret \<noteq> Term (ETuple (atom_ok # ts))) \<Longrightarrow> accounted (give_up n f r ret)"
  by (simp add: accounted_def give_up_def no_load_def load_holds_def)

lemma accounted_sent [simp]: "accounted (out\<lparr>lo_sent := x\<rparr>) = accounted out"
  by (cases "lo_res out") (simp_all add: accounted_def)

lemma accounted_load_stage: "load_holds n 0 r \<Longrightarrow> accounted (load_stage e fl alloc i path m n r p fit)"
  by (auto simp: load_stage_def Let_def accounted_give_up split: option.split prod.split)
     (auto simp: accounted_def give_up_def no_load_def load_holds_def)

lemma fit_stage_holds:
  assumes "load_holds n 0 r"
  shows "(\<forall>out. fit_stage e alloc path m n r p = Inl out \<longrightarrow> accounted out) \<and>
     (\<forall>n' r' p' fit. fit_stage e alloc path m n r p = Inr (n', r', p', fit) \<longrightarrow> load_holds n' 0 r')"
  using assms
  by (auto simp: fit_stage_def Let_def accounted_give_up load_holds_def split: option.splits if_splits)

lemma fill_arena_some: "fill_arena e hs moe_n a \<noteq> Some PAbsent"
proof (cases "fill_list e hs (0, 0, a)")
  case (Some y)
  show ?thesis
  proof (cases y)
    case (PSet s)
    show ?thesis
    proof (cases "fill_moe e moe_n s")
      case (Some z)
      then show ?thesis using PSet \<open>fill_list e hs (0, 0, a) = Some y\<close> by (cases z) (auto simp: fill_arena_def)
    qed (use PSet Some in \<open>simp add: fill_arena_def\<close>)
  qed (use Some in \<open>simp_all add: fill_arena_def\<close>)
qed (simp add: fill_arena_def)

lemma build_tbo_count:
  "\<exists>r n. build_tbo e alloc m = Some (r, n) \<and> n \<le> 1 \<and> (\<forall>a. r = PSet a \<longrightarrow> n = 1) \<and> (r = PAbsent \<longrightarrow> n = 0)"
proof (cases rule: build_tbo_cases [of e alloc m])
  case (fill moe_n p q)
  show ?thesis
  proof (rule fill_arena_asked [OF fill(2,3), of e], goal_cases)
    case (1 r)
    then show ?case using fill(4) fill_arena_some by (intro exI [of _ r] exI [of _ 1]) auto
  qed
qed auto

lemma tbo_stage_owns:
  assumes "mo_model r = None" "mo_tbo r = None"
  shows "\<exists>out. tbo_stage e fl alloc i path m r p = Some out \<and> accounted out"
proof -
  obtain t n where t: "build_tbo e (alloc ''tbo'' 0) m = Some (t, n)" "n \<le> 1" "\<forall>a. t = PSet a \<longrightarrow> n = 1" "t = PAbsent \<longrightarrow> n = 0"
    using build_tbo_count by blast
  have go: "\<exists>out. (case fit_stage e (alloc ''tbo'' 1) path m n r2 p2 of Inl out \<Rightarrow> Some out
       | Inr (n', r3, p3, fit) \<Rightarrow> Some (load_stage e fl alloc i path m n' r3 p3 fit)) = Some out \<and> accounted out"
    if "load_holds n 0 r2" for r2 p2
    using fit_stage_holds [OF that, of e "alloc ''tbo'' 1" path m p2] accounted_load_stage
    by (auto split: sum.split)
  have hold: "load_holds n n r" "t = PAbsent \<Longrightarrow> load_holds n 0 r" "\<And>a. t = PSet a \<Longrightarrow> load_holds n 0 (r\<lparr>mo_tbo := Some a\<rparr>)"
    using assms t by (simp_all add: load_holds_def)
  show ?thesis
  proof (cases t)
    case PAbsent
    then show ?thesis using go [OF hold(2)] by (simp add: tbo_stage_def t(1))
  next
    case (PSet a)
    then show ?thesis using go [OF hold(3)] by (simp add: tbo_stage_def t(1))
  qed (simp_all add: tbo_stage_def t(1) accounted_give_up hold(1))
qed

text \<open>
  C20: Whatever fails, a load accounts for what it made: without a resource in the reply every native
  model and every arena has been freed, each once; with one, the resource owns the model just loaded and the only
  arena. The process never touches memory it must not.
\<close>

theorem load_model_owns:
  "\<exists>out. nif_load_model e fl alloc i a0 m = Some out \<and> accounted out"
proof -
  have start: "load_holds 0 0 (r\<lparr>mo_tensor_split := x, mo_has_tensor_split := y\<rparr>)" "load_holds 0 0 new_model_obj"
    if "r = new_model_obj" for r x y
    using that by (simp_all add: load_holds_def new_model_obj_def)
  have tail: "\<exists>out. tbo_stage e fl alloc i path m r p = Some out \<and> accounted out" if "load_holds 0 0 r" for path r p
    using that by (intro tbo_stage_owns) (auto simp: load_holds_def split: if_splits)
  show ?thesis
    unfolding nif_load_model_def Let_def
    by (simp add: accounted_give_up start tail split: option.split parsed.split)
qed

subsection \<open>Progress\<close>

text \<open>Rounding to a float keeps the order and 100.\<close>

definition rounds :: "(rat \<Rightarrow> rat) \<Rightarrow> bool" where
  "rounds fl \<longleftrightarrow> mono fl \<and> fl 100 = 100"

definition percent :: "(rat \<Rightarrow> rat) \<Rightarrow> rat \<Rightarrow> nat" where
  "percent fl p = nat \<lfloor>fl (p * 100)\<rfloor>"

lemma percent_bounds:
  assumes "rounds fl"
  shows "p < 1 \<Longrightarrow> percent fl p \<le> 100" "1 \<le> p \<Longrightarrow> 100 \<le> percent fl p"
proof -
  have m: "mono fl" "fl 100 = 100" using assms by (simp_all add: rounds_def)
  have "p < 1 \<Longrightarrow> fl (p * 100) \<le> 100" "1 \<le> p \<Longrightarrow> 100 \<le> fl (p * 100)"
    using monoD [OF m(1), of "p * 100" 100] monoD [OF m(1), of 100 "p * 100"] m(2) by simp_all
  then show "p < 1 \<Longrightarrow> percent fl p \<le> 100" "1 \<le> p \<Longrightarrow> 100 \<le> percent fl p"
    by (simp_all add: percent_def nat_le_iff le_nat_iff floor_le_iff le_floor_iff)
qed

lemma progress_cb_cases:
  obtains (skip) "erllama_load_progress_cb fl alloc i p pc = (pc, [])" "1 \<le> p \<longrightarrow> pc_sent_final pc"
      "p < 1 \<longrightarrow> percent fl p \<le> pc_last_pct pc"
  | (final) "1 \<le> p" "\<not> pc_sent_final pc"
      "erllama_load_progress_cb fl alloc i p pc = (\<lparr>pc_last_pct = percent fl p, pc_sent_final = True\<rparr>, if alloc i then [p] else [])"
  | (step) "p < 1" "pc_last_pct pc < percent fl p"
      "erllama_load_progress_cb fl alloc i p pc =
         (\<lparr>pc_last_pct = percent fl p, pc_sent_final = pc_sent_final pc\<rparr>, if alloc i then [p] else [])"
proof (cases "1 \<le> p")
  case True
  then show ?thesis using skip final by (cases "pc_sent_final pc") (auto simp: erllama_load_progress_cb_def percent_def Let_def)
next
  case False
  then show ?thesis using skip step
    by (cases "pc_last_pct pc < percent fl p") (auto simp: erllama_load_progress_cb_def percent_def Let_def)
qed

lemma progress_sent_inv:
  assumes "rounds fl" "pc_sent_final pc \<longrightarrow> 100 \<le> pc_last_pct pc"
  shows "let out = progress_sent fl alloc i ps pc in sorted_wrt (\<lambda>p q. percent fl p < percent fl q) (filter (\<lambda>p. p < 1) out) \<and>
     (\<forall>p \<in> set out. p < 1 \<longrightarrow> pc_last_pct pc < percent fl p) \<and>
     length (filter (\<lambda>p. p < 1) out) + pc_last_pct pc \<le> max 100 (pc_last_pct pc) \<and>
     length (filter (\<lambda>p. 1 \<le> p) out) \<le> (if pc_sent_final pc then 0 else 1)"
  using assms(2) unfolding Let_def
proof (induction ps arbitrary: i pc)
  case (Cons p ps)
  show ?case
  proof (cases rule: progress_cb_cases [of fl alloc i p pc])
    case skip
    then show ?thesis using Cons by simp
  next
    case final
    let ?pc = "\<lparr>pc_last_pct = percent fl p, pc_sent_final = True\<rparr>"
    have hi: "100 \<le> percent fl p" by (rule percent_bounds(2) [OF assms(1) final(1)])
    note ih = Cons.IH [of ?pc "Suc i"]
    have "filter (\<lambda>p. p < 1) (progress_sent fl alloc (Suc i) ps ?pc) = []" using ih hi by simp
    moreover have "filter (\<lambda>p. 1 \<le> p) (progress_sent fl alloc (Suc i) ps ?pc) = []" using ih hi by simp
    ultimately show ?thesis using final by (auto simp: filter_empty_conv not_less)
  next
    case step
    let ?pc = "\<lparr>pc_last_pct = percent fl p, pc_sent_final = pc_sent_final pc\<rparr>"
    have lo: "percent fl p \<le> 100" by (rule percent_bounds(1) [OF assms(1) step(1)])
    then have nf: "\<not> pc_sent_final pc" using Cons.prems step(2) by auto
    have "sorted_wrt (\<lambda>p q. percent fl p < percent fl q) (filter (\<lambda>p. p < 1) (progress_sent fl alloc (Suc i) ps ?pc)) \<and>
      (\<forall>q \<in> set (progress_sent fl alloc (Suc i) ps ?pc). q < 1 \<longrightarrow> percent fl p < percent fl q) \<and>
      length (filter (\<lambda>p. p < 1) (progress_sent fl alloc (Suc i) ps ?pc)) + percent fl p \<le> 100 \<and>
      length (filter (\<lambda>p. 1 \<le> p) (progress_sent fl alloc (Suc i) ps ?pc)) \<le> 1"
      using Cons.IH [of ?pc "Suc i"] lo nf by simp
    then show ?thesis using step nf by auto
  qed
qed simp

lemma progress_final_sent:
  "\<not> pc_sent_final pc \<Longrightarrow> \<exists>p \<in> set ps. 1 \<le> p \<Longrightarrow> \<exists>p \<in> set (progress_sent fl (\<lambda>i. True) i ps pc). 1 \<le> p"
proof (induction ps arbitrary: i pc)
  case (Cons p ps)
  show ?case
  proof (cases rule: progress_cb_cases [of fl "\<lambda>i. True" i p pc])
    case step
    then show ?thesis using Cons.IH [of "\<lparr>pc_last_pct = percent fl p, pc_sent_final = pc_sent_final pc\<rparr>" "Suc i"] Cons.prems
      by auto
  qed (use Cons in auto)
qed simp

text \<open>
  C34: However often llama.cpp reports, a load sends at most 101 progress messages: strictly increasing percentages
  below 1.0, and one message of 1.0 or more at most, which is sent if it is reported and memory lasts.
\<close>

theorem load_progress_bounded:
  assumes "rounds fl"
  shows "let out = progress_sent fl alloc 0 ps \<lparr>pc_last_pct = 0, pc_sent_final = False\<rparr> in
    length out \<le> 101 \<and> length (filter (\<lambda>p. 1 \<le> p) out) \<le> 1 \<and>
    sorted_wrt (\<lambda>p q. percent fl p < percent fl q) (filter (\<lambda>p. p < 1) out) \<and>
    ((\<forall>i. alloc i) \<and> (\<exists>p \<in> set ps. 1 \<le> p) \<longrightarrow> (\<exists>p \<in> set out. 1 \<le> p))"
proof -
  let ?pc = "\<lparr>pc_last_pct = 0, pc_sent_final = False\<rparr>"
  let ?out = "progress_sent fl alloc 0 ps ?pc"
  note inv = progress_sent_inv [OF assms(1), of ?pc alloc 0 ps, unfolded Let_def, simplified]
  have "length ?out = length (filter (\<lambda>p. p < 1) ?out) + length (filter (\<lambda>p. 1 \<le> p) ?out)"
    using sum_length_filter_compl [of "\<lambda>p. p < 1" ?out] by (simp add: not_less)
  then have "length ?out \<le> 101" using inv by simp
  moreover have "(\<forall>i. alloc i) \<and> (\<exists>p \<in> set ps. 1 \<le> p) \<longrightarrow> (\<exists>p \<in> set ?out. 1 \<le> p)"
  proof (intro impI, elim conjE)
    assume "\<forall>i. alloc i" "\<exists>p \<in> set ps. 1 \<le> p"
    moreover from this have "alloc = (\<lambda>i. True)" by auto
    ultimately show "\<exists>p \<in> set ?out. 1 \<le> p" using progress_final_sent [of ?pc ps fl 0] by simp
  qed
  ultimately show ?thesis using inv by (simp add: Let_def)
qed

theorem load_progress_bounded_witness:
  "length (progress_sent (\<lambda>x. x) (\<lambda>i. True) 0 [1/200, 1/2, 1/2, 1, 1] \<lparr>pc_last_pct = 0, pc_sent_final = False\<rparr>) \<le> 101"
  using load_progress_bounded [of "\<lambda>x. x" "\<lambda>i. True" "[1/200, 1/2, 1/2, 1, 1]"] by (simp add: rounds_def mono_def Let_def)

subsection \<open>Failed loads\<close>

text \<open>
  A failed load is called malformed exactly if the last line that the thread logged has the marker
  in its first 511 bytes: a line after the one with the marker hides it.
\<close>

lemma captured_last: "captured ls t = (if ls = [] then t else take 511 (snd (last ls)))"
  by (induction ls t rule: captured.induct) auto

lemma load_status_last_line:
  assumes "lr_model run = Ret None" "lr_log run = ls @ [(level, line)]"
  shows "snd (erllama_safe_model_load_from_file_v2 run) = ERLLAMA_LOAD_MALFORMED \<longleftrightarrow> strstr (take 511 line) (ascii ''GGML_ASSERT'')"
  using assms by (simp add: erllama_safe_model_load_from_file_v2_def captured_last)

subsection \<open>Device memory\<close>

text \<open>The devices that count: those whose memory and type can be read and that are not a CPU or meta device.\<close>

definition gpus :: "dev_api \<Rightarrow> (u64 \<times> u64) list" where
  "gpus a = concat (map (\<lambda>i. case erllama_safe_backend_dev_info a i of
       Some (f, t, dt) \<Rightarrow> if dt = 1 \<or> dt = 2 \<or> dt = 3 then [(f, t)] else [] | None \<Rightarrow> [])
     [0..<erllama_safe_backend_dev_count a])"

lemma vram_fold:
  "fold (vram_step a) js s =
     (let g = concat (map (\<lambda>i. case erllama_safe_backend_dev_info a i of
          Some (f, t, dt) \<Rightarrow> if dt = 1 \<or> dt = 2 \<or> dt = 3 then [(f, t)] else [] | None \<Rightarrow> []) js) in
      \<lparr>total_sum = total_sum s + sum_list (map snd g), free_sum = free_sum s + sum_list (map fst g),
       found_non_cpu = (found_non_cpu s \<or> g \<noteq> [])\<rparr>)"
  by (induction js arbitrary: s) (auto simp: vram_step_def Let_def split: option.split)

lemma unat_sum_list:
  "sum_list (map (\<lambda>x. unat (f x)) xs) < 2 ^ 64 \<Longrightarrow> unat (sum_list (map f xs) :: u64) = sum_list (map (\<lambda>x. unat (f x)) xs)"
proof (induction xs)
  case (Cons x xs)
  then show ?case by (simp add: unat_word_ariths)
qed simp

text \<open>
  As long as the totals fit 64 bits and no device reports more free memory than it has, the reply is
  the memory of the non-CPU devices: the sum of the totals, that of the free bytes, and that of the bytes in
  use; without such a device it is \<open>no_gpu\<close>.
\<close>

theorem vram_info_exact:
  assumes "da_backend a" "\<forall>(f, t) \<in> set (gpus a). unat f \<le> unat t" "sum_list (map (\<lambda>g. unat (snd g)) (gpus a)) < 2 ^ 64"
  shows "nif_vram_info a =
    (if gpus a = [] then err ''no_gpu''
     else Term (ETuple [atom_ok, EMap [
       (EAtom ''total_b'', EInt (int (sum_list (map (\<lambda>g. unat (snd g)) (gpus a))))),
       (EAtom ''free_b'', EInt (int (sum_list (map (\<lambda>g. unat (fst g)) (gpus a))))),
       (EAtom ''used_b'', EInt (int (sum_list (map (\<lambda>g. unat (snd g) - unat (fst g)) (gpus a)))))]]))"
proof -
  let ?T = "sum_list (map snd (gpus a))" and ?F = "sum_list (map fst (gpus a))"
  have le: "sum_list (map (\<lambda>g. unat (fst g)) gs) \<le> sum_list (map (\<lambda>g. unat (snd g)) gs) \<and>
      sum_list (map (\<lambda>g. unat (snd g) - unat (fst g)) gs) =
      sum_list (map (\<lambda>g. unat (snd g)) gs) - sum_list (map (\<lambda>g. unat (fst g)) gs)"
    if "\<forall>(f, t) \<in> set gs. unat f \<le> unat t" for gs :: "(u64 \<times> u64) list"
    using that by (induction gs) auto
  note le = le [OF assms(2)]
  have T: "unat ?T = sum_list (map (\<lambda>g. unat (snd g)) (gpus a))" by (rule unat_sum_list [OF assms(3)])
  have F: "unat ?F = sum_list (map (\<lambda>g. unat (fst g)) (gpus a))" using le assms(3) by (intro unat_sum_list) simp
  have "unat ?F \<le> unat ?T" using le T F by simp
  then have "?F \<le> ?T" by (simp add: word_le_nat_alt)
  then have used: "(if ?T > ?F then ?T - ?F else 0) = ?T - ?F" "unat (?T - ?F) = unat ?T - unat ?F"
    by (auto simp: unat_sub)
  have s: "fold (vram_step a) [0..<erllama_safe_backend_dev_count a] \<lparr>total_sum = 0, free_sum = 0, found_non_cpu = False\<rparr> =
      \<lparr>total_sum = ?T, free_sum = ?F, found_non_cpu = (gpus a \<noteq> [])\<rparr>"
    by (simp add: vram_fold gpus_def Let_def)
  have U: "uint ?T = int (sum_list (map (\<lambda>g. unat (snd g)) (gpus a)))" "uint ?F = int (sum_list (map (\<lambda>g. unat (fst g)) (gpus a)))"
    "uint (?T - ?F) = int (sum_list (map (\<lambda>g. unat (snd g) - unat (fst g)) (gpus a)))"
    using le T F used(2) by (simp_all only: uint_nat)
  show ?thesis unfolding nif_vram_info_def s Let_def vram_sums.select_convs used(1) U by (simp add: assms(1))
qed

definition demo_devs :: dev_api where
  "demo_devs = \<lparr>da_backend = True, da_count = Ret 3, da_get = (\<lambda>i. Ret (Some i)),
     da_memory = (\<lambda>d. Ret (if d = 0 then (5, 9) else (100, 300))), da_type = (\<lambda>d. Ret (int d)), da_props = (\<lambda>d. Throw)\<rparr>"

theorem vram_info_exact_witness:
  "nif_vram_info demo_devs = Term (ETuple [atom_ok, EMap [(EAtom ''total_b'', EInt 600), (EAtom ''free_b'', EInt 200),
     (EAtom ''used_b'', EInt 400)]])"
proof -
  have g: "gpus demo_devs = [(100, 300), (100, 300)]"
    by (simp add: gpus_def demo_devs_def erllama_safe_backend_dev_count_def erllama_safe_backend_dev_info_def upt_rec)
  have "da_backend demo_devs" by (simp add: demo_devs_def)
  from vram_info_exact [OF this] show ?thesis by (simp add: g)
qed

end
