(* ===== verification/Chat_Detect.thy ===== *)
theory Chat_Detect
  imports Erllama_Base
begin

text \<open>
  The chat templates of \<open>llama-chat.cpp\<close>: their names, and the guess of the template from the text of
  the model's metadata. A \<open>std::string\<close> is a list of characters, which are bytes; the texts that are not ASCII
  are written as the bytes of their UTF-8 encoding. \<open>isspace\<close> and \<open>toupper\<close> are those of the C locale.
\<close>

datatype llm_chat_template =
    CHATML | LLAMA_2 | LLAMA_2_SYS | LLAMA_2_SYS_BOS | LLAMA_2_SYS_STRIP
  | MISTRAL_V1 | MISTRAL_V3 | MISTRAL_V3_TEKKEN | MISTRAL_V7 | MISTRAL_V7_TEKKEN
  | PHI_3 | PHI_4 | FALCON_3 | ZEPHYR | MONARCH | GEMMA | ORION | OPENCHAT | VICUNA | VICUNA_ORCA
  | DEEPSEEK | DEEPSEEK_2 | DEEPSEEK_3 | DEEPSEEK_OCR | COMMAND_R | LLAMA_3 | CHATGLM_3 | CHATGLM_4
  | GLMEDGE | MINICPM | EXAONE_3 | EXAONE_4 | EXAONE_MOE | RWKV_WORLD
  | GRANITE_3_X | GRANITE_4_0 | GRANITE_4_1 | GIGACHAT | MEGREZ | YANDEX
  | BAILING | BAILING_THINK | BAILING2 | LLAMA4 | SMOLVLM | DOTS1 | HUNYUAN_MOE | OPENAI_MOE
  | HUNYUAN_DENSE | HUNYUAN_VL | KIMI_K2 | SEED_OSS | GROK_2 | PANGU_EMBED | SOLAR_OPEN | UNKNOWN

definition lf :: string where "lf = [CHR 0x0A]"

text \<open>The fullwidth bar and the low block of some special tokens.\<close>

definition fwbar :: string where "fwbar = [CHR 0xEF, CHR 0xBD, CHR 0x9C]"
definition lowbar :: string where "lowbar = [CHR 0xE2, CHR 0x96, CHR 0x81]"

text \<open>The special tokens and the words that are not ASCII.\<close>

definition w_eos :: string where "w_eos = ''<'' @ fwbar @ ''end'' @ lowbar @ ''of'' @ lowbar @ ''sentence'' @ fwbar @ ''>''"
definition w_assistant :: string where "w_assistant = ''<'' @ fwbar @ ''Assistant'' @ fwbar @ ''>''"
definition w_user :: string where "w_user = ''<'' @ fwbar @ ''User'' @ fwbar @ ''>''"
definition w_hy_assistant :: string where "w_hy_assistant = ''<'' @ fwbar @ ''hy_Assistant'' @ fwbar @ ''>''"
definition w_hy_user :: string where "w_hy_user = ''<'' @ fwbar @ ''hy_User'' @ fwbar @ ''>''"
definition w_hy_holder2 :: string where "w_hy_holder2 = ''<'' @ fwbar @ ''hy_place'' @ lowbar @ ''holder'' @ lowbar @ ''no'' @ lowbar @ ''2'' @ fwbar @ ''>''"
definition w_hy_holder3 :: string where "w_hy_holder3 = ''<'' @ fwbar @ ''hy_place'' @ lowbar @ ''holder'' @ lowbar @ ''no'' @ lowbar @ ''3'' @ fwbar @ ''>''"
definition w_hy_begin :: string where "w_hy_begin = ''<'' @ fwbar @ ''hy_begin'' @ lowbar @ ''of'' @ lowbar @ ''sentence'' @ fwbar @ ''>''"
definition w_ru_user :: string where
  "w_ru_user = [CHR 0xD0, CHR 0x9F, CHR 0xD0, CHR 0xBE, CHR 0xD0, CHR 0xBB, CHR 0xD1, CHR 0x8C, CHR 0xD0, CHR 0xB7,
     CHR 0xD0, CHR 0xBE, CHR 0xD0, CHR 0xB2, CHR 0xD0, CHR 0xB0, CHR 0xD1, CHR 0x82, CHR 0xD0, CHR 0xB5,
     CHR 0xD0, CHR 0xBB, CHR 0xD1, CHR 0x8C]"
definition w_ru_assistant :: string where
  "w_ru_assistant = [CHR 0xD0, CHR 0x90, CHR 0xD1, CHR 0x81, CHR 0xD1, CHR 0x81, CHR 0xD0, CHR 0xB8, CHR 0xD1, CHR 0x81,
     CHR 0xD1, CHR 0x82, CHR 0xD0, CHR 0xB5, CHR 0xD0, CHR 0xBD, CHR 0xD1, CHR 0x82]"
definition w_zh_user :: string where
  "w_zh_user = [CHR 0xE7, CHR 0x94, CHR 0xA8, CHR 0xE6, CHR 0x88, CHR 0xB7]"
definition w_zh_system :: string where
  "w_zh_system = [CHR 0xE7, CHR 0xB3, CHR 0xBB, CHR 0xE7, CHR 0xBB, CHR 0x9F, CHR 0xEF, CHR 0xBC, CHR 0x9A]"
definition w_zh_user_colon :: string where
  "w_zh_user_colon = [CHR 0xE7, CHR 0x94, CHR 0xA8, CHR 0xE6, CHR 0x88, CHR 0xB7, CHR 0xEF, CHR 0xBC, CHR 0x9A]"
definition w_zh_assistant :: string where
  "w_zh_assistant = [CHR 0xE5, CHR 0x8A, CHR 0xA9, CHR 0xE6, CHR 0x89, CHR 0x8B, CHR 0xEF, CHR 0xBC, CHR 0x9A]"
definition w_zh_tool :: string where
  "w_zh_tool = [CHR 0xE5, CHR 0xB7, CHR 0xA5, CHR 0xE5, CHR 0x85, CHR 0xB7, CHR 0xEF, CHR 0xBC, CHR 0x9A]"
definition w_zh_function :: string where
  "w_zh_function = [CHR 0xE6, CHR 0x96, CHR 0xB9, CHR 0xE6, CHR 0xB3, CHR 0x95, CHR 0xEF, CHR 0xBC, CHR 0x9A]"

definition is_space_c :: "char \<Rightarrow> bool" where
  "is_space_c c = (c \<in> {CHR 0x20, CHR 0x09, CHR 0x0A, CHR 0x0B, CHR 0x0C, CHR 0x0D})"

definition trim_s :: "string \<Rightarrow> string" where
  "trim_s s = rev (dropWhile is_space_c (rev (dropWhile is_space_c s)))"

definition LLM_CHAT_TEMPLATES :: "(string \<times> llm_chat_template) list" where
  "LLM_CHAT_TEMPLATES =
     [(''chatml'', CHATML), (''llama2'', LLAMA_2), (''llama2-sys'', LLAMA_2_SYS),
      (''llama2-sys-bos'', LLAMA_2_SYS_BOS), (''llama2-sys-strip'', LLAMA_2_SYS_STRIP),
      (''mistral-v1'', MISTRAL_V1), (''mistral-v3'', MISTRAL_V3), (''mistral-v3-tekken'', MISTRAL_V3_TEKKEN),
      (''mistral-v7'', MISTRAL_V7), (''mistral-v7-tekken'', MISTRAL_V7_TEKKEN), (''phi3'', PHI_3),
      (''phi4'', PHI_4), (''falcon3'', FALCON_3), (''zephyr'', ZEPHYR), (''monarch'', MONARCH),
      (''gemma'', GEMMA), (''orion'', ORION), (''openchat'', OPENCHAT), (''vicuna'', VICUNA),
      (''vicuna-orca'', VICUNA_ORCA), (''deepseek'', DEEPSEEK), (''deepseek2'', DEEPSEEK_2),
      (''deepseek3'', DEEPSEEK_3), (''deepseek-ocr'', DEEPSEEK_OCR), (''command-r'', COMMAND_R),
      (''llama3'', LLAMA_3), (''chatglm3'', CHATGLM_3), (''chatglm4'', CHATGLM_4), (''glmedge'', GLMEDGE),
      (''minicpm'', MINICPM), (''exaone3'', EXAONE_3), (''exaone4'', EXAONE_4), (''exaone-moe'', EXAONE_MOE),
      (''rwkv-world'', RWKV_WORLD), (''granite'', GRANITE_3_X), (''granite-4.0'', GRANITE_4_0),
      (''granite-4.1'', GRANITE_4_1), (''gigachat'', GIGACHAT), (''megrez'', MEGREZ), (''yandex'', YANDEX),
      (''bailing'', BAILING), (''bailing-think'', BAILING_THINK), (''bailing2'', BAILING2),
      (''llama4'', LLAMA4), (''smolvlm'', SMOLVLM), (''hunyuan-moe'', HUNYUAN_MOE), (''gpt-oss'', OPENAI_MOE),
      (''hunyuan-dense'', HUNYUAN_DENSE), (''hunyuan-vl'', HUNYUAN_VL), (''kimi-k2'', KIMI_K2),
      (''seed_oss'', SEED_OSS), (''grok-2'', GROK_2), (''pangu-embedded'', PANGU_EMBED),
      (''solar-open'', SOLAR_OPEN)]"

text \<open>\<open>std::map::at\<close> throws for a name that is not there.\<close>

definition llm_chat_template_from_str :: "string \<Rightarrow> llm_chat_template exc" where
  "llm_chat_template_from_str name =
     (case map_of LLM_CHAT_TEMPLATES name of None \<Rightarrow> Throw | Some t \<Rightarrow> Ret t)"

subsection \<open>Guessing the template\<close>

definition starts_with :: "string \<Rightarrow> string \<Rightarrow> bool" where
  "starts_with p s = (take (length p) s = p)"

fun contains_s :: "string \<Rightarrow> string \<Rightarrow> bool" where
  "contains_s p [] = (p = [])"
| "contains_s p (c # s) = (starts_with p (c # s) \<or> contains_s p s)"

text \<open>The branch for a text with \<open>[INST]\<close>.\<close>

definition detect_inst :: "string \<Rightarrow> llm_chat_template" where
  "detect_inst tmpl =
     (if contains_s (''[SYSTEM_PROMPT]'') tmpl then MISTRAL_V7
      else if contains_s ([CHR 0x27] @ '' [INST] ' + system_message'') tmpl \<or> contains_s (''[AVAILABLE_TOOLS]'') tmpl then
        (if contains_s ('' [INST]'') tmpl then MISTRAL_V1
         else if contains_s ([CHR 0x22] @ ''[INST]'' @ [CHR 0x22]) tmpl then MISTRAL_V3_TEKKEN
         else MISTRAL_V3)
      else
        let support_system_message = contains_s (''<<SYS>>'') tmpl;
            add_bos_inside_history = contains_s (''bos_token + '[INST]'') tmpl;
            strip_message = contains_s (''content.strip()'') tmpl
        in if strip_message then LLAMA_2_SYS_STRIP
           else if add_bos_inside_history then LLAMA_2_SYS_BOS
           else if support_system_message then LLAMA_2_SYS
           else LLAMA_2)"

text \<open>The tests from \<open>rwkv-world\<close> on.\<close>

definition detect_late :: "string \<Rightarrow> llm_chat_template" where
  "detect_late tmpl =
     (if contains_s (''rwkv-world'') tmpl \<or>
         contains_s (''{{- 'User: ' + message['content']|trim + '' @ [CHR 0x27, CHR 0x5C] @ ''n'' @ [CHR 0x5C] @ ''n' -}}'') tmpl then RWKV_WORLD
      else if contains_s (''<|start_of_role|>'') tmpl then
        (if contains_s (''<tool_call>'') tmpl \<or> contains_s (''<tools>'') tmpl then
           (if contains_s (''g4_default_system_message'') tmpl then GRANITE_4_0 else GRANITE_4_1)
         else GRANITE_3_X)
      else if contains_s (''message['role'] + additional_special_tokens[0] + message['content'] + additional_special_tokens[1]'') tmpl
        then GIGACHAT
      else if contains_s (''<|role_start|>'') tmpl then MEGREZ
      else if contains_s ('' '' @ w_ru_assistant @ '':'') tmpl then YANDEX
      else if contains_s (''<role>ASSISTANT</role>'') tmpl \<and> contains_s ([CHR 0x27] @ ''HUMAN'' @ [CHR 0x27]) tmpl then BAILING
      else if contains_s (''<role>ASSISTANT</role>'') tmpl \<and> contains_s ([CHR 0x22] @ ''HUMAN'' @ [CHR 0x22]) tmpl \<and> contains_s (''<think>'') tmpl
        then BAILING_THINK
      else if contains_s (''<role>ASSISTANT</role>'') tmpl \<and> contains_s (''<role>HUMAN</role>'') tmpl \<and>
              contains_s (''<|role_end|>'') tmpl then BAILING2
      else if contains_s (''<|header_start|>'') tmpl \<and> contains_s (''<|header_end|>'') tmpl then LLAMA4
      else if contains_s (''<|endofuserprompt|>'') tmpl then DOTS1
      else if contains_s (''<|extra_0|>'') tmpl \<and> contains_s (''<|extra_4|>'') tmpl then HUNYUAN_MOE
      else if contains_s (''<|start|>'') tmpl \<and> contains_s (''<|channel|>'') tmpl then OPENAI_MOE
      else if contains_s (w_hy_assistant) tmpl \<and> contains_s (w_hy_begin) tmpl then HUNYUAN_VL
      else if contains_s (w_hy_assistant) tmpl \<and> contains_s (w_hy_holder3) tmpl then HUNYUAN_DENSE
      else if contains_s (''<|im_assistant|>assistant<|im_middle|>'') tmpl then KIMI_K2
      else if contains_s (''<seed:bos>'') tmpl then SEED_OSS
      else if contains_s ([CHR 0x27] @ ''Assistant: '  + message['content'] + '<|separator|>'') tmpl then GROK_2
      else if contains_s (''[unused9]'' @ w_zh_system @ ''[unused10]'') tmpl then PANGU_EMBED
      else if contains_s (''<|begin|>'') tmpl \<and> contains_s (''<|end|>'') tmpl \<and> contains_s (''<|content|>'') tmpl then SOLAR_OPEN
      else UNKNOWN)"

definition detect_by_text :: "string \<Rightarrow> llm_chat_template" where
  "detect_by_text tmpl =
     (if contains_s (''<|im_start|>'') tmpl then
        (if contains_s (''<|im_sep|>'') tmpl then PHI_4
         else if contains_s (''<end_of_utterance>'') tmpl then SMOLVLM else CHATML)
      else if starts_with (''mistral'') tmpl \<or> contains_s (''[INST]'') tmpl then detect_inst tmpl
      else if contains_s (''<|assistant|>'') tmpl \<and> contains_s (''<|end|>'') tmpl then PHI_3
      else if contains_s (''[gMASK]<sop>'') tmpl then CHATGLM_4
      else if contains_s (''<|assistant|>'') tmpl \<and> contains_s (''<|user|>'') tmpl then
        (if contains_s (''<|tool_declare|>'') tmpl then EXAONE_MOE
         else if contains_s (''</s>'') tmpl then FALCON_3 else GLMEDGE)
      else if contains_s (''<|{{ item['role'] }}|>'') tmpl \<and> contains_s (''<|begin_of_image|>'') tmpl then GLMEDGE
      else if contains_s (''<|user|>'') tmpl \<and> contains_s (''<|endoftext|>'') tmpl then ZEPHYR
      else if contains_s (''bos_token + message['role']'') tmpl then MONARCH
      else if contains_s (''<start_of_turn>'') tmpl then GEMMA
      else if contains_s ([CHR 0x27, CHR 0x5C] @ ''n'' @ [CHR 0x5C] @ ''nAssistant: ' + eos_token'') tmpl then ORION
      else if contains_s (''GPT4 Correct '') tmpl then OPENCHAT
      else if contains_s (''USER: '') tmpl \<and> contains_s (''ASSISTANT: '') tmpl then
        (if contains_s (''SYSTEM: '') tmpl then VICUNA_ORCA else VICUNA)
      else if contains_s (''### Instruction:'') tmpl \<and> contains_s (''<|EOT|>'') tmpl then DEEPSEEK
      else if contains_s (''<|START_OF_TURN_TOKEN|>'') tmpl \<and> contains_s (''<|USER_TOKEN|>'') tmpl then COMMAND_R
      else if contains_s (''<|start_header_id|>'') tmpl \<and> contains_s (''<|end_header_id|>'') tmpl then LLAMA_3
      else if contains_s (''[gMASK]sop'') tmpl then CHATGLM_3
      else if contains_s (''<'' @ w_zh_user @ ''>'') tmpl then MINICPM
      else if contains_s ([CHR 0x27] @ ''Assistant: ' + message['content'] + eos_token'') tmpl then DEEPSEEK_2
      else if contains_s (w_assistant) tmpl \<and> contains_s (w_user) tmpl \<and>
              contains_s (w_eos) tmpl then DEEPSEEK_3
      else if contains_s (''[|system|]'') tmpl \<and> contains_s (''[|assistant|]'') tmpl \<and> contains_s (''[|endofturn|]'') tmpl then
        (if contains_s (''[|tool|]'') tmpl then EXAONE_4 else EXAONE_3)
      else detect_late tmpl)"

definition llm_chat_detect_template :: "string \<Rightarrow> llm_chat_template" where
  "llm_chat_detect_template tmpl =
     (case llm_chat_template_from_str tmpl of Ret t \<Rightarrow> t | Throw \<Rightarrow> detect_by_text tmpl)"

end
