(* ===== verification/Chat_Render.thy ===== *)
theory Chat_Render
  imports Chat_Detect
begin

text \<open>
  \<open>llm_chat_apply_template\<close> of \<open>llama-chat.cpp\<close>: the text of a list of messages in each of the templates.
  The function is one chain of tests on the template; every branch is a definition here, with the name of its
  template, and what the branch writes to the string stream is its value. A loop over the messages that keeps no
  variable is \<open>each_msg\<close>; the others carry the variable of the source.
\<close>

record chat_msg =
  msg_role :: string
  msg_content :: string

definition each_msg :: "(chat_msg \<Rightarrow> string) \<Rightarrow> chat_msg list \<Rightarrow> string" where
  "each_msg f chat = concat (map f chat)"

text \<open>\<open>if (add_ass) { ss << s; }\<close>\<close>

definition gen_if :: "bool \<Rightarrow> string \<Rightarrow> string" where
  "gen_if add_ass s = (if add_ass then s else [])"

definition to_upper_c :: "char \<Rightarrow> char" where
  "to_upper_c c = (if (97 :: nat) \<le> of_char c \<and> of_char c \<le> (122 :: nat) then char_of (of_char c - (32 :: nat)) else c)"

subsection \<open>ChatML, Mistral and Llama 2\<close>

definition r_chatml :: "chat_msg list \<Rightarrow> bool \<Rightarrow> string" where
  "r_chatml chat add_ass =
     each_msg (\<lambda>m. ''<|im_start|>'' @ msg_role m @ lf @ msg_content m @ ''<|im_end|>'' @ lf) chat
     @ gen_if add_ass (''<|im_start|>assistant'' @ lf)"

definition r_mistral_v7 :: "llm_chat_template \<Rightarrow> chat_msg list \<Rightarrow> string" where
  "r_mistral_v7 tmpl chat =
     (let trailing_space = (if tmpl = MISTRAL_V7 then '' '' else []) in
      each_msg (\<lambda>m.
        if msg_role m = ''system'' then ''[SYSTEM_PROMPT]'' @ trailing_space @ msg_content m @ ''[/SYSTEM_PROMPT]''
        else if msg_role m = ''user'' then ''[INST]'' @ trailing_space @ msg_content m @ ''[/INST]''
        else trailing_space @ msg_content m @ ''</s>'') chat)"

fun mistral_loop :: "string \<Rightarrow> string \<Rightarrow> bool \<Rightarrow> bool \<Rightarrow> chat_msg list \<Rightarrow> string" where
  "mistral_loop leading_space trailing_space trim_assistant is_inside_turn [] = []"
| "mistral_loop leading_space trailing_space trim_assistant is_inside_turn (m # chat) =
     (if \<not> is_inside_turn then leading_space @ ''[INST]'' @ trailing_space else [])
     @ (if msg_role m = ''system'' then
          msg_content m @ lf @ lf @ mistral_loop leading_space trailing_space trim_assistant True chat
        else if msg_role m = ''user'' then
          msg_content m @ leading_space @ ''[/INST]'' @ mistral_loop leading_space trailing_space trim_assistant True chat
        else
          trailing_space @ (if trim_assistant then trim_s (msg_content m) else msg_content m) @ ''</s>''
          @ mistral_loop leading_space trailing_space trim_assistant False chat)"

definition r_mistral :: "llm_chat_template \<Rightarrow> chat_msg list \<Rightarrow> string" where
  "r_mistral tmpl chat =
     (let leading_space = (if tmpl = MISTRAL_V1 then '' '' else []);
          trailing_space = (if tmpl = MISTRAL_V3_TEKKEN then [] else '' '');
          trim_assistant_message = (tmpl = MISTRAL_V3)
      in mistral_loop leading_space trailing_space trim_assistant_message False chat)"

fun llama2_loop :: "bool \<Rightarrow> bool \<Rightarrow> bool \<Rightarrow> bool \<Rightarrow> chat_msg list \<Rightarrow> string" where
  "llama2_loop support_system add_bos strip is_inside_turn [] = []"
| "llama2_loop support_system add_bos strip is_inside_turn (m # chat) =
     (let content = (if strip then trim_s (msg_content m) else msg_content m) in
      (if \<not> is_inside_turn then (if add_bos then ''<s>[INST] '' else ''[INST] '') else [])
      @ (if msg_role m = ''system'' then
           (if support_system then ''<<SYS>>'' @ lf @ content @ lf @ ''<</SYS>>'' @ lf @ lf else content @ lf)
           @ llama2_loop support_system add_bos strip True chat
         else if msg_role m = ''user'' then
           content @ '' [/INST]'' @ llama2_loop support_system add_bos strip True chat
         else content @ ''</s>'' @ llama2_loop support_system add_bos strip False chat))"

definition r_llama2 :: "llm_chat_template \<Rightarrow> chat_msg list \<Rightarrow> string" where
  "r_llama2 tmpl chat =
     (let support_system_message = (tmpl \<noteq> LLAMA_2);
          add_bos_inside_history = (tmpl = LLAMA_2_SYS_BOS);
          strip_message = (tmpl = LLAMA_2_SYS_STRIP)
      in ''[INST] '' @ llama2_loop support_system_message add_bos_inside_history strip_message True chat)"

subsection \<open>From Phi 3 to Command R\<close>

definition r_phi3 :: "chat_msg list \<Rightarrow> bool \<Rightarrow> string" where
  "r_phi3 chat add_ass =
     each_msg (\<lambda>m. ''<|'' @ msg_role m @ ''|>'' @ lf @ msg_content m @ ''<|end|>'' @ lf) chat
     @ gen_if add_ass (''<|assistant|>'' @ lf)"

definition r_phi4 :: "chat_msg list \<Rightarrow> bool \<Rightarrow> string" where
  "r_phi4 chat add_ass =
     each_msg (\<lambda>m. ''<|im_start|>'' @ msg_role m @ ''<|im_sep|>'' @ msg_content m @ ''<|im_end|>'') chat
     @ gen_if add_ass (''<|im_start|>assistant<|im_sep|>'')"

definition r_falcon3 :: "chat_msg list \<Rightarrow> bool \<Rightarrow> string" where
  "r_falcon3 chat add_ass =
     each_msg (\<lambda>m. ''<|'' @ msg_role m @ ''|>'' @ lf @ msg_content m @ lf) chat
     @ gen_if add_ass (''<|assistant|>'' @ lf)"

definition r_zephyr :: "chat_msg list \<Rightarrow> bool \<Rightarrow> string" where
  "r_zephyr chat add_ass =
     each_msg (\<lambda>m. ''<|'' @ msg_role m @ ''|>'' @ lf @ msg_content m @ ''<|endoftext|>'' @ lf) chat
     @ gen_if add_ass (''<|assistant|>'' @ lf)"

text \<open>\<open>message == chat.front()\<close> holds of the first message only.\<close>

fun monarch_loop :: "bool \<Rightarrow> chat_msg list \<Rightarrow> string" where
  "monarch_loop is_front [] = []"
| "monarch_loop is_front (m # chat) =
     (if is_front then [] else ''<s>'') @ msg_role m @ lf @ msg_content m @ ''</s>'' @ lf @ monarch_loop False chat"

definition r_monarch :: "chat_msg list \<Rightarrow> bool \<Rightarrow> string" where
  "r_monarch chat add_ass = monarch_loop True chat @ gen_if add_ass (''<s>assistant'' @ lf)"

fun gemma_loop :: "string \<Rightarrow> chat_msg list \<Rightarrow> string" where
  "gemma_loop system_prompt [] = []"
| "gemma_loop system_prompt (m # chat) =
     (if msg_role m = ''system'' then gemma_loop (system_prompt @ trim_s (msg_content m)) chat
      else
        let role = (if msg_role m = ''assistant'' then ''model'' else msg_role m);
            merge = (system_prompt \<noteq> [] \<and> role \<noteq> ''model'')
        in ''<start_of_turn>'' @ role @ lf @ (if merge then system_prompt @ lf @ lf else [])
           @ trim_s (msg_content m) @ ''<end_of_turn>'' @ lf @ gemma_loop (if merge then [] else system_prompt) chat)"

definition r_gemma :: "chat_msg list \<Rightarrow> bool \<Rightarrow> string" where
  "r_gemma chat add_ass = gemma_loop [] chat @ gen_if add_ass (''<start_of_turn>model'' @ lf)"

fun orion_loop :: "string \<Rightarrow> chat_msg list \<Rightarrow> string" where
  "orion_loop system_prompt [] = []"
| "orion_loop system_prompt (m # chat) =
     (if msg_role m = ''system'' then orion_loop (system_prompt @ msg_content m) chat
      else if msg_role m = ''user'' then
        ''Human: '' @ (if system_prompt \<noteq> [] then system_prompt @ lf @ lf else [])
        @ msg_content m @ lf @ lf @ ''Assistant: </s>'' @ orion_loop [] chat
      else msg_content m @ ''</s>'' @ orion_loop system_prompt chat)"

definition r_orion :: "chat_msg list \<Rightarrow> string" where
  "r_orion chat = orion_loop [] chat"

text \<open>\<open>role[0] = toupper(role[0])\<close>: of an empty role the terminating NUL is written back.\<close>

definition upper_first :: "string \<Rightarrow> string" where
  "upper_first role = (case role of [] \<Rightarrow> [] | c # cs \<Rightarrow> to_upper_c c # cs)"

definition r_openchat :: "chat_msg list \<Rightarrow> bool \<Rightarrow> string" where
  "r_openchat chat add_ass =
     each_msg (\<lambda>m.
       if msg_role m = ''system'' then msg_content m @ ''<|end_of_turn|>''
       else ''GPT4 Correct '' @ upper_first (msg_role m) @ '': '' @ msg_content m @ ''<|end_of_turn|>'') chat
     @ gen_if add_ass (''GPT4 Correct Assistant:'')"

definition r_vicuna :: "llm_chat_template \<Rightarrow> chat_msg list \<Rightarrow> bool \<Rightarrow> string" where
  "r_vicuna tmpl chat add_ass =
     each_msg (\<lambda>m.
       if msg_role m = ''system'' then
         (if tmpl = VICUNA_ORCA then ''SYSTEM: '' @ msg_content m @ lf else msg_content m @ lf @ lf)
       else if msg_role m = ''user'' then ''USER: '' @ msg_content m @ lf
       else if msg_role m = ''assistant'' then ''ASSISTANT: '' @ msg_content m @ ''</s>'' @ lf
       else []) chat
     @ gen_if add_ass (''ASSISTANT:'')"

definition r_deepseek :: "chat_msg list \<Rightarrow> bool \<Rightarrow> string" where
  "r_deepseek chat add_ass =
     each_msg (\<lambda>m.
       if msg_role m = ''system'' then msg_content m
       else if msg_role m = ''user'' then ''### Instruction:'' @ lf @ msg_content m @ lf
       else if msg_role m = ''assistant'' then ''### Response:'' @ lf @ msg_content m @ lf @ ''<|EOT|>'' @ lf
       else []) chat
     @ gen_if add_ass (''### Response:'' @ lf)"

definition r_command_r :: "chat_msg list \<Rightarrow> bool \<Rightarrow> string" where
  "r_command_r chat add_ass =
     each_msg (\<lambda>m.
       if msg_role m = ''system'' then
         ''<|START_OF_TURN_TOKEN|><|SYSTEM_TOKEN|>'' @ trim_s (msg_content m) @ ''<|END_OF_TURN_TOKEN|>''
       else if msg_role m = ''user'' then
         ''<|START_OF_TURN_TOKEN|><|USER_TOKEN|>'' @ trim_s (msg_content m) @ ''<|END_OF_TURN_TOKEN|>''
       else if msg_role m = ''assistant'' then
         ''<|START_OF_TURN_TOKEN|><|CHATBOT_TOKEN|>'' @ trim_s (msg_content m) @ ''<|END_OF_TURN_TOKEN|>''
       else []) chat
     @ gen_if add_ass (''<|START_OF_TURN_TOKEN|><|CHATBOT_TOKEN|>'')"

subsection \<open>From Llama 3 to the Exaone templates\<close>

definition r_llama3 :: "chat_msg list \<Rightarrow> bool \<Rightarrow> string" where
  "r_llama3 chat add_ass =
     each_msg (\<lambda>m. ''<|start_header_id|>'' @ msg_role m @ ''<|end_header_id|>'' @ lf @ lf @ trim_s (msg_content m) @ ''<|eot_id|>'') chat
     @ gen_if add_ass (''<|start_header_id|>assistant<|end_header_id|>'' @ lf @ lf)"

definition r_chatglm3 :: "chat_msg list \<Rightarrow> bool \<Rightarrow> string" where
  "r_chatglm3 chat add_ass =
     ''[gMASK]'' @ ''sop'' @ each_msg (\<lambda>m. ''<|'' @ msg_role m @ ''|>'' @ lf @ '' '' @ msg_content m) chat
     @ gen_if add_ass (''<|assistant|>'')"

definition r_chatglm4 :: "chat_msg list \<Rightarrow> bool \<Rightarrow> string" where
  "r_chatglm4 chat add_ass =
     ''[gMASK]'' @ ''<sop>'' @ each_msg (\<lambda>m. ''<|'' @ msg_role m @ ''|>'' @ lf @ msg_content m) chat
     @ gen_if add_ass (''<|assistant|>'' @ lf)"

definition r_glmedge :: "chat_msg list \<Rightarrow> bool \<Rightarrow> string" where
  "r_glmedge chat add_ass =
     each_msg (\<lambda>m. ''<|'' @ msg_role m @ ''|>'' @ lf @ msg_content m) chat
     @ gen_if add_ass (''<|assistant|>'')"

definition r_minicpm :: "chat_msg list \<Rightarrow> string" where
  "r_minicpm chat =
     each_msg (\<lambda>m.
       if msg_role m = ''user'' then ''<'' @ w_zh_user @ ''>'' @ trim_s (msg_content m) @ ''<AI>''
       else trim_s (msg_content m)) chat"

definition r_deepseek2 :: "chat_msg list \<Rightarrow> bool \<Rightarrow> string" where
  "r_deepseek2 chat add_ass =
     each_msg (\<lambda>m.
       if msg_role m = ''system'' then msg_content m @ lf @ lf
       else if msg_role m = ''user'' then ''User: '' @ msg_content m @ lf @ lf
       else if msg_role m = ''assistant'' then ''Assistant: '' @ msg_content m @ w_eos
       else []) chat
     @ gen_if add_ass (''Assistant:'')"

definition r_deepseek3 :: "chat_msg list \<Rightarrow> bool \<Rightarrow> string" where
  "r_deepseek3 chat add_ass =
     each_msg (\<lambda>m.
       if msg_role m = ''system'' then msg_content m @ lf @ lf
       else if msg_role m = ''user'' then w_user @ msg_content m
       else if msg_role m = ''assistant'' then w_assistant @ msg_content m @ w_eos
       else []) chat
     @ gen_if add_ass (w_assistant)"

definition r_deepseek_ocr :: "chat_msg list \<Rightarrow> string" where
  "r_deepseek_ocr chat = each_msg msg_content chat"

definition r_exaone3 :: "chat_msg list \<Rightarrow> bool \<Rightarrow> string" where
  "r_exaone3 chat add_ass =
     each_msg (\<lambda>m.
       if msg_role m = ''system'' then ''[|system|]'' @ trim_s (msg_content m) @ ''[|endofturn|]'' @ lf
       else if msg_role m = ''user'' then ''[|user|]'' @ trim_s (msg_content m) @ lf
       else if msg_role m = ''assistant'' then ''[|assistant|]'' @ trim_s (msg_content m) @ ''[|endofturn|]'' @ lf
       else []) chat
     @ gen_if add_ass (''[|assistant|]'')"

definition r_exaone4 :: "chat_msg list \<Rightarrow> bool \<Rightarrow> string" where
  "r_exaone4 chat add_ass =
     each_msg (\<lambda>m.
       if msg_role m = ''system'' then ''[|system|]'' @ trim_s (msg_content m) @ ''[|endofturn|]'' @ lf
       else if msg_role m = ''user'' then ''[|user|]'' @ trim_s (msg_content m) @ lf
       else if msg_role m = ''assistant'' then ''[|assistant|]'' @ trim_s (msg_content m) @ ''[|endofturn|]'' @ lf
       else if msg_role m = ''tool'' then ''[|tool|]'' @ trim_s (msg_content m) @ ''[|endofturn|]'' @ lf
       else []) chat
     @ gen_if add_ass (''[|assistant|]'')"

definition r_exaone_moe :: "chat_msg list \<Rightarrow> bool \<Rightarrow> string" where
  "r_exaone_moe chat add_ass =
     each_msg (\<lambda>m.
       if msg_role m = ''system'' then ''<|system|>'' @ lf @ trim_s (msg_content m) @ ''<|endofturn|>'' @ lf
       else if msg_role m = ''user'' then ''<|user|>'' @ lf @ trim_s (msg_content m) @ ''<|endofturn|>'' @ lf
       else if msg_role m = ''assistant'' then ''<|assistant|>'' @ lf @ trim_s (msg_content m) @ ''<|endofturn|>'' @ lf
       else if msg_role m = ''tool'' then ''<|tool|>'' @ lf @ trim_s (msg_content m) @ ''<|endofturn|>'' @ lf
       else []) chat
     @ gen_if add_ass (''<|assistant|>'' @ lf)"

subsection \<open>From RWKV to Bailing 2\<close>

fun rwkv_loop :: "chat_msg list \<Rightarrow> string" where
  "rwkv_loop [] = []"
| "rwkv_loop (m # chat) =
     (if msg_role m = ''system'' then ''System: '' @ trim_s (msg_content m) @ lf @ lf
      else if msg_role m = ''user'' then
        ''User: '' @ trim_s (msg_content m) @ lf @ lf @ (if chat = [] then ''Assistant:'' else [])
      else if msg_role m = ''assistant'' then ''Assistant: '' @ trim_s (msg_content m) @ lf @ lf
      else [])
     @ rwkv_loop chat"

definition r_granite3 :: "chat_msg list \<Rightarrow> bool \<Rightarrow> string" where
  "r_granite3 chat add_ass =
     each_msg (\<lambda>m. ''<|start_of_role|>'' @ msg_role m @ ''<|end_of_role|>''
       @ (if msg_role m = ''assistant_tool_call'' then ''<|tool_call|>'' else [])
       @ msg_content m @ ''<|end_of_text|>'' @ lf) chat
     @ gen_if add_ass (''<|start_of_role|>assistant<|end_of_role|>'')"

definition r_granite40 :: "chat_msg list \<Rightarrow> bool \<Rightarrow> string" where
  "r_granite40 chat add_ass =
     each_msg (\<lambda>m.
       (if msg_role m = ''assistant_tool_call'' then ''<|start_of_role|>assistant<|end_of_role|><|tool_call|>''
        else ''<|start_of_role|>'' @ msg_role m @ ''<|end_of_role|>'')
       @ msg_content m @ ''<|end_of_text|>'' @ lf) chat
     @ gen_if add_ass (''<|start_of_role|>assistant<|end_of_role|>'')"

definition r_granite41 :: "chat_msg list \<Rightarrow> bool \<Rightarrow> string" where
  "r_granite41 chat add_ass =
     each_msg (\<lambda>m.
       (if msg_role m = ''assistant_tool_call'' then ''<|start_of_role|>assistant<|end_of_role|><|tool_call|>''
        else ''<|start_of_role|>'' @ msg_role m @ ''<|end_of_role|>'')
       @ msg_content m @ ''<|end_of_text|>'' @ lf) chat
     @ gen_if add_ass (''<|start_of_role|>assistant<|end_of_role|>'')"

text \<open>\<open>!chat.empty() && chat[0]->role == "system"\<close>\<close>

definition first_is_system :: "chat_msg list \<Rightarrow> bool" where
  "first_is_system chat = (chat \<noteq> [] \<and> msg_role (hd chat) = ''system'')"

definition r_gigachat :: "chat_msg list \<Rightarrow> bool \<Rightarrow> string" where
  "r_gigachat chat add_ass =
     (let has_system = first_is_system chat in
      (if has_system then ''<s>'' @ msg_content (hd chat) @ ''<|message_sep|>'' else ''<s>'')
      @ each_msg (\<lambda>m.
          if msg_role m = ''user'' then
            ''user<|role_sep|>'' @ msg_content m @ ''<|message_sep|>'' @ ''available functions<|role_sep|>[]<|message_sep|>''
          else if msg_role m = ''assistant'' then ''assistant<|role_sep|>'' @ msg_content m @ ''<|message_sep|>''
          else []) (drop (if has_system then 1 else 0) chat)
      @ gen_if add_ass (''assistant<|role_sep|>''))"

definition r_megrez :: "chat_msg list \<Rightarrow> bool \<Rightarrow> string" where
  "r_megrez chat add_ass =
     each_msg (\<lambda>m. ''<|role_start|>'' @ msg_role m @ ''<|role_end|>'' @ msg_content m @ ''<|turn_end|>'') chat
     @ gen_if add_ass (''<|role_start|>assistant<|role_end|>'')"

definition r_yandex :: "chat_msg list \<Rightarrow> bool \<Rightarrow> string" where
  "r_yandex chat add_ass =
     each_msg (\<lambda>m.
       if msg_role m = ''user'' then
         '' '' @ w_ru_user @ '': ''
         @ msg_content m @ lf @ lf
       else if msg_role m = ''assistant'' then
         '' '' @ w_ru_assistant @ '': ''
         @ msg_content m @ lf @ lf
       else []) chat
     @ gen_if add_ass ('' '' @ w_ru_assistant @ '':[SEP]'')"

definition bailing_role :: "string \<Rightarrow> string" where
  "bailing_role role = (if role = ''user'' then ''HUMAN'' else map to_upper_c role)"

definition r_bailing :: "llm_chat_template \<Rightarrow> chat_msg list \<Rightarrow> bool \<Rightarrow> string" where
  "r_bailing tmpl chat add_ass =
     each_msg (\<lambda>m. ''<role>'' @ bailing_role (msg_role m) @ ''</role>'' @ msg_content m) chat
     @ gen_if add_ass (''<role>ASSISTANT</role>'' @ (if tmpl = BAILING_THINK then ''<think>'' else []))"

definition r_bailing2 :: "chat_msg list \<Rightarrow> bool \<Rightarrow> string" where
  "r_bailing2 chat add_ass =
     (if \<not> first_is_system chat then ''<role>SYSTEM</role>detailed thinking off<|role_end|>'' else [])
     @ each_msg (\<lambda>m. ''<role>'' @ bailing_role (msg_role m) @ ''</role>'' @ msg_content m @ ''<|role_end|>'') chat
     @ gen_if add_ass (''<role>ASSISTANT</role>'')"

subsection \<open>From Llama 4 to Solar\<close>

definition r_llama4 :: "chat_msg list \<Rightarrow> bool \<Rightarrow> string" where
  "r_llama4 chat add_ass =
     each_msg (\<lambda>m. ''<|header_start|>'' @ msg_role m @ ''<|header_end|>'' @ lf @ lf @ trim_s (msg_content m) @ ''<|eot|>'') chat
     @ gen_if add_ass (''<|header_start|>assistant<|header_end|>'' @ lf @ lf)"

definition r_smolvlm :: "chat_msg list \<Rightarrow> bool \<Rightarrow> string" where
  "r_smolvlm chat add_ass =
     ''<|im_start|>''
     @ each_msg (\<lambda>m.
         if msg_role m = ''system'' then msg_content m @ lf @ lf
         else if msg_role m = ''user'' then ''User: '' @ msg_content m @ ''<end_of_utterance>'' @ lf
         else ''Assistant: '' @ msg_content m @ ''<end_of_utterance>'' @ lf) chat
     @ gen_if add_ass (''Assistant:'')"

definition r_dots1 :: "chat_msg list \<Rightarrow> bool \<Rightarrow> string" where
  "r_dots1 chat add_ass =
     each_msg (\<lambda>m.
       if msg_role m = ''system'' then ''<|system|>'' @ msg_content m @ ''<|endofsystem|>''
       else if msg_role m = ''user'' then ''<|userprompt|>'' @ msg_content m @ ''<|endofuserprompt|>''
       else ''<|response|>'' @ msg_content m @ ''<|endofresponse|>'') chat
     @ gen_if add_ass (''<|response|>'')"

definition r_hunyuan_moe :: "chat_msg list \<Rightarrow> string" where
  "r_hunyuan_moe chat =
     each_msg (\<lambda>m.
       if msg_role m = ''system'' then ''<|startoftext|>'' @ msg_content m @ ''<|extra_4|>''
       else if msg_role m = ''assistant'' then msg_content m @ ''<|eos|>''
       else ''<|startoftext|>'' @ msg_content m @ ''<|extra_0|>'') chat"

definition r_openai_moe :: "chat_msg list \<Rightarrow> bool \<Rightarrow> string" where
  "r_openai_moe chat add_ass =
     each_msg (\<lambda>m. ''<|start|>'' @ msg_role m @ ''<|message|>'' @ msg_content m
       @ (if msg_role m = ''assistant'' then ''<|return|>'' else ''<|end|>'')) chat
     @ gen_if add_ass (''<|start|>assistant'')"

text \<open>The loops that look at the index only test \<open>i == 0\<close>.\<close>

fun hunyuan_dense_loop :: "bool \<Rightarrow> chat_msg list \<Rightarrow> string" where
  "hunyuan_dense_loop is_first [] = []"
| "hunyuan_dense_loop is_first (m # chat) =
     (if is_first \<and> msg_role m = ''system'' then msg_content m @ w_hy_holder3 else [])
     @ (if msg_role m = ''assistant'' then w_hy_assistant @ msg_content m @ w_hy_holder2
        else if msg_role m = ''user'' then w_hy_user @ msg_content m @ w_hy_assistant
        else [])
     @ hunyuan_dense_loop False chat"

fun hunyuan_vl_loop :: "bool \<Rightarrow> chat_msg list \<Rightarrow> string" where
  "hunyuan_vl_loop is_first [] = []"
| "hunyuan_vl_loop is_first (m # chat) =
     (if is_first \<and> msg_role m = ''system'' then msg_content m @ w_hy_holder3
      else if msg_role m = ''user'' then msg_content m @ w_hy_user
      else if msg_role m = ''assistant'' then msg_content m @ w_hy_assistant
      else [])
     @ hunyuan_vl_loop False chat"

definition r_hunyuan_vl :: "chat_msg list \<Rightarrow> string" where
  "r_hunyuan_vl chat = w_hy_begin @ hunyuan_vl_loop True chat"

definition r_kimi_k2 :: "chat_msg list \<Rightarrow> bool \<Rightarrow> string" where
  "r_kimi_k2 chat add_ass =
     each_msg (\<lambda>m.
       (if msg_role m = ''system'' then ''<|im_system|>system<|im_middle|>''
        else if msg_role m = ''user'' then ''<|im_user|>user<|im_middle|>''
        else if msg_role m = ''assistant'' then ''<|im_assistant|>assistant<|im_middle|>''
        else if msg_role m = ''tool'' then ''<|im_system|>tool<|im_middle|>''
        else [])
       @ msg_content m @ ''<|im_end|>'') chat
     @ gen_if add_ass (''<|im_assistant|>assistant<|im_middle|>'')"

definition r_seed_oss :: "chat_msg list \<Rightarrow> bool \<Rightarrow> string" where
  "r_seed_oss chat add_ass =
     each_msg (\<lambda>m. ''<seed:bos>'' @ msg_role m @ lf
       @ (if msg_role m = ''assistant'' then trim_s (msg_content m) else msg_content m) @ ''<seed:eos>'') chat
     @ gen_if add_ass (''<seed:bos>assistant'' @ lf)"

definition r_grok2 :: "chat_msg list \<Rightarrow> bool \<Rightarrow> string" where
  "r_grok2 chat add_ass =
     each_msg (\<lambda>m.
       if msg_role m = ''system'' then ''System: '' @ trim_s (msg_content m) @ ''<|separator|>'' @ lf @ lf
       else if msg_role m = ''user'' then ''Human: '' @ trim_s (msg_content m) @ ''<|separator|>'' @ lf @ lf
       else if msg_role m = ''assistant'' then ''Assistant: '' @ msg_content m @ ''<|separator|>'' @ lf @ lf
       else []) chat
     @ gen_if add_ass (''Assistant:'')"

fun pangu_loop :: "bool \<Rightarrow> chat_msg list \<Rightarrow> string" where
  "pangu_loop is_first [] = []"
| "pangu_loop is_first (m # chat) =
     (if is_first \<and> msg_role m \<noteq> ''system'' then ''[unused9]'' @ w_zh_system @ ''[unused10]'' else [])
     @ (if msg_role m = ''system'' then ''[unused9]'' @ w_zh_system @ msg_content m @ ''[unused10]''
        else if msg_role m = ''user'' then ''[unused9]'' @ w_zh_user_colon @ msg_content m @ ''[unused10]''
        else if msg_role m = ''assistant'' then ''[unused9]'' @ w_zh_assistant @ msg_content m @ ''[unused10]''
        else if msg_role m = ''tool'' then ''[unused9]'' @ w_zh_tool @ msg_content m @ ''[unused10]''
        else if msg_role m = ''function'' then ''[unused9]'' @ w_zh_function @ msg_content m @ ''[unused10]''
        else [])
     @ pangu_loop False chat"

definition r_pangu :: "chat_msg list \<Rightarrow> bool \<Rightarrow> string" where
  "r_pangu chat add_ass = pangu_loop True chat @ gen_if add_ass (''[unused9]'' @ w_zh_assistant)"

definition r_solar_open :: "chat_msg list \<Rightarrow> bool \<Rightarrow> string" where
  "r_solar_open chat add_ass =
     each_msg (\<lambda>m. ''<|begin|>'' @ msg_role m @ ''<|content|>'' @ msg_content m @ ''<|end|>'') chat
     @ gen_if add_ass (''<|begin|>assistant'')"

subsection \<open>The chain of tests\<close>

text \<open>The text written to \<open>dest\<close>; \<open>None\<close> is the return value -1.\<close>

fun llm_chat_apply_template :: "llm_chat_template \<Rightarrow> chat_msg list \<Rightarrow> bool \<Rightarrow> string option" where
  "llm_chat_apply_template CHATML chat add_ass = Some (r_chatml chat add_ass)"
| "llm_chat_apply_template MISTRAL_V7 chat add_ass = Some (r_mistral_v7 MISTRAL_V7 chat)"
| "llm_chat_apply_template MISTRAL_V7_TEKKEN chat add_ass = Some (r_mistral_v7 MISTRAL_V7_TEKKEN chat)"
| "llm_chat_apply_template MISTRAL_V1 chat add_ass = Some (r_mistral MISTRAL_V1 chat)"
| "llm_chat_apply_template MISTRAL_V3 chat add_ass = Some (r_mistral MISTRAL_V3 chat)"
| "llm_chat_apply_template MISTRAL_V3_TEKKEN chat add_ass = Some (r_mistral MISTRAL_V3_TEKKEN chat)"
| "llm_chat_apply_template LLAMA_2 chat add_ass = Some (r_llama2 LLAMA_2 chat)"
| "llm_chat_apply_template LLAMA_2_SYS chat add_ass = Some (r_llama2 LLAMA_2_SYS chat)"
| "llm_chat_apply_template LLAMA_2_SYS_BOS chat add_ass = Some (r_llama2 LLAMA_2_SYS_BOS chat)"
| "llm_chat_apply_template LLAMA_2_SYS_STRIP chat add_ass = Some (r_llama2 LLAMA_2_SYS_STRIP chat)"
| "llm_chat_apply_template PHI_3 chat add_ass = Some (r_phi3 chat add_ass)"
| "llm_chat_apply_template PHI_4 chat add_ass = Some (r_phi4 chat add_ass)"
| "llm_chat_apply_template FALCON_3 chat add_ass = Some (r_falcon3 chat add_ass)"
| "llm_chat_apply_template ZEPHYR chat add_ass = Some (r_zephyr chat add_ass)"
| "llm_chat_apply_template MONARCH chat add_ass = Some (r_monarch chat add_ass)"
| "llm_chat_apply_template GEMMA chat add_ass = Some (r_gemma chat add_ass)"
| "llm_chat_apply_template ORION chat add_ass = Some (r_orion chat)"
| "llm_chat_apply_template OPENCHAT chat add_ass = Some (r_openchat chat add_ass)"
| "llm_chat_apply_template VICUNA chat add_ass = Some (r_vicuna VICUNA chat add_ass)"
| "llm_chat_apply_template VICUNA_ORCA chat add_ass = Some (r_vicuna VICUNA_ORCA chat add_ass)"
| "llm_chat_apply_template DEEPSEEK chat add_ass = Some (r_deepseek chat add_ass)"
| "llm_chat_apply_template COMMAND_R chat add_ass = Some (r_command_r chat add_ass)"
| "llm_chat_apply_template LLAMA_3 chat add_ass = Some (r_llama3 chat add_ass)"
| "llm_chat_apply_template CHATGLM_3 chat add_ass = Some (r_chatglm3 chat add_ass)"
| "llm_chat_apply_template CHATGLM_4 chat add_ass = Some (r_chatglm4 chat add_ass)"
| "llm_chat_apply_template GLMEDGE chat add_ass = Some (r_glmedge chat add_ass)"
| "llm_chat_apply_template MINICPM chat add_ass = Some (r_minicpm chat)"
| "llm_chat_apply_template DEEPSEEK_2 chat add_ass = Some (r_deepseek2 chat add_ass)"
| "llm_chat_apply_template DEEPSEEK_3 chat add_ass = Some (r_deepseek3 chat add_ass)"
| "llm_chat_apply_template DEEPSEEK_OCR chat add_ass = Some (r_deepseek_ocr chat)"
| "llm_chat_apply_template EXAONE_3 chat add_ass = Some (r_exaone3 chat add_ass)"
| "llm_chat_apply_template EXAONE_4 chat add_ass = Some (r_exaone4 chat add_ass)"
| "llm_chat_apply_template EXAONE_MOE chat add_ass = Some (r_exaone_moe chat add_ass)"
| "llm_chat_apply_template RWKV_WORLD chat add_ass = Some (rwkv_loop chat)"
| "llm_chat_apply_template GRANITE_3_X chat add_ass = Some (r_granite3 chat add_ass)"
| "llm_chat_apply_template GRANITE_4_0 chat add_ass = Some (r_granite40 chat add_ass)"
| "llm_chat_apply_template GRANITE_4_1 chat add_ass = Some (r_granite41 chat add_ass)"
| "llm_chat_apply_template GIGACHAT chat add_ass = Some (r_gigachat chat add_ass)"
| "llm_chat_apply_template MEGREZ chat add_ass = Some (r_megrez chat add_ass)"
| "llm_chat_apply_template YANDEX chat add_ass = Some (r_yandex chat add_ass)"
| "llm_chat_apply_template BAILING chat add_ass = Some (r_bailing BAILING chat add_ass)"
| "llm_chat_apply_template BAILING_THINK chat add_ass = Some (r_bailing BAILING_THINK chat add_ass)"
| "llm_chat_apply_template BAILING2 chat add_ass = Some (r_bailing2 chat add_ass)"
| "llm_chat_apply_template LLAMA4 chat add_ass = Some (r_llama4 chat add_ass)"
| "llm_chat_apply_template SMOLVLM chat add_ass = Some (r_smolvlm chat add_ass)"
| "llm_chat_apply_template DOTS1 chat add_ass = Some (r_dots1 chat add_ass)"
| "llm_chat_apply_template HUNYUAN_MOE chat add_ass = Some (r_hunyuan_moe chat)"
| "llm_chat_apply_template OPENAI_MOE chat add_ass = Some (r_openai_moe chat add_ass)"
| "llm_chat_apply_template HUNYUAN_DENSE chat add_ass = Some (hunyuan_dense_loop True chat)"
| "llm_chat_apply_template HUNYUAN_VL chat add_ass = Some (r_hunyuan_vl chat)"
| "llm_chat_apply_template KIMI_K2 chat add_ass = Some (r_kimi_k2 chat add_ass)"
| "llm_chat_apply_template SEED_OSS chat add_ass = Some (r_seed_oss chat add_ass)"
| "llm_chat_apply_template GROK_2 chat add_ass = Some (r_grok2 chat add_ass)"
| "llm_chat_apply_template PANGU_EMBED chat add_ass = Some (r_pangu chat add_ass)"
| "llm_chat_apply_template SOLAR_OPEN chat add_ass = Some (r_solar_open chat add_ass)"
| "llm_chat_apply_template UNKNOWN chat add_ass = None"

end
