(* ===== verification/Chat_Extend.thy ===== *)
theory Chat_Extend
  imports Chat_Render
begin

text \<open>
  How the text of a conversation grows. The session cache keeps what was decoded for a prompt; it can be used
  for the next prompt only as far as the two texts agree. Shown: which templates only append when messages are
  added, and which continue a generated reply in place.
\<close>

lemma each_msg_simps [simp]:
  "each_msg f [] = []" "each_msg f (m # ms) = f m @ each_msg f ms"
  "each_msg f (ms @ ns) = each_msg f ms @ each_msg f ns"
  by (simp_all add: each_msg_def)

lemma gen_if_simps [simp]: "gen_if True s = s" "gen_if False s = []"
  by (simp_all add: gen_if_def)

subsection \<open>The loops with a variable\<close>

lemma mistral_loop_append:
  "\<exists>b'. \<forall>ns. mistral_loop l t a b (ms @ ns) = mistral_loop l t a b ms @ mistral_loop l t a b' ns"
proof (induction ms arbitrary: b)
  case (Cons m ms)
  show ?case by (cases "msg_role m = ''system'' \<or> msg_role m = ''user''")
      (use Cons.IH [of True] Cons.IH [of False] in auto)
qed auto

lemma llama2_loop_append:
  "\<exists>b'. \<forall>ns. llama2_loop s t a b (ms @ ns) = llama2_loop s t a b ms @ llama2_loop s t a b' ns"
proof (induction ms arbitrary: b)
  case (Cons m ms)
  show ?case by (cases "msg_role m = ''system'' \<or> msg_role m = ''user''")
      (use Cons.IH [of True] Cons.IH [of False] in \<open>auto simp: Let_def\<close>)
qed auto

lemma gemma_loop_append:
  "\<exists>s'. \<forall>ns. gemma_loop s (ms @ ns) = gemma_loop s ms @ gemma_loop s' ns"
proof (induction ms arbitrary: s)
  case (Cons m ms)
  show ?case
  proof (cases "msg_role m = ''system''")
    case True
    then show ?thesis using Cons.IH by simp
  next
    case False
    then show ?thesis using Cons.IH [of "[]"] Cons.IH [of s] by (auto simp: Let_def)
  qed
qed auto

lemma orion_loop_append:
  "\<exists>s'. \<forall>ns. orion_loop s (ms @ ns) = orion_loop s ms @ orion_loop s' ns"
proof (induction ms arbitrary: s)
  case (Cons m ms)
  show ?case
    by (cases "msg_role m = ''system''"; cases "msg_role m = ''user''")
      (use Cons.IH [of "[]"] Cons.IH [of s] Cons.IH [of "s @ msg_content m"] in auto)
qed auto

text \<open>The state after a message of the user does not depend on what came before.\<close>

lemma loops_after_user:
  assumes "msg_role u = ''user''"
  shows "mistral_loop l t a b ((ms @ [u]) @ ns) = mistral_loop l t a b (ms @ [u]) @ mistral_loop l t a True ns"
    "llama2_loop sy bo st b ((ms @ [u]) @ ns) = llama2_loop sy bo st b (ms @ [u]) @ llama2_loop sy bo st True ns"
    "gemma_loop sp ((ms @ [u]) @ ns) = gemma_loop sp (ms @ [u]) @ gemma_loop [] ns"
    "orion_loop sp ((ms @ [u]) @ ns) = orion_loop sp (ms @ [u]) @ orion_loop [] ns"
proof -
  show "mistral_loop l t a b ((ms @ [u]) @ ns) = mistral_loop l t a b (ms @ [u]) @ mistral_loop l t a True ns"
    by (induction ms arbitrary: b) (use assms in auto)
  show "llama2_loop sy bo st b ((ms @ [u]) @ ns) = llama2_loop sy bo st b (ms @ [u]) @ llama2_loop sy bo st True ns"
    by (induction ms arbitrary: b) (use assms in \<open>auto simp: Let_def\<close>)
  show "gemma_loop sp ((ms @ [u]) @ ns) = gemma_loop sp (ms @ [u]) @ gemma_loop [] ns"
    by (induction ms arbitrary: sp) (use assms in \<open>auto simp: Let_def\<close>)
  show "orion_loop sp ((ms @ [u]) @ ns) = orion_loop sp (ms @ [u]) @ orion_loop [] ns"
    by (induction ms arbitrary: sp) (use assms in auto)
qed

lemma first_loops_append:
  assumes "ms \<noteq> []"
  shows "monarch_loop b (ms @ ns) = monarch_loop b ms @ monarch_loop False ns"
    "hunyuan_dense_loop b (ms @ ns) = hunyuan_dense_loop b ms @ hunyuan_dense_loop False ns"
    "hunyuan_vl_loop b (ms @ ns) = hunyuan_vl_loop b ms @ hunyuan_vl_loop False ns"
    "pangu_loop b (ms @ ns) = pangu_loop b ms @ pangu_loop False ns"
proof -
  have "monarch_loop b (m # ms @ ns) = monarch_loop b (m # ms) @ monarch_loop False ns" for b m ms
    by (induction ms arbitrary: b m) auto
  moreover have "hunyuan_dense_loop b (m # ms @ ns) = hunyuan_dense_loop b (m # ms) @ hunyuan_dense_loop False ns" for b m ms
    by (induction ms arbitrary: b m) auto
  moreover have "hunyuan_vl_loop b (m # ms @ ns) = hunyuan_vl_loop b (m # ms) @ hunyuan_vl_loop False ns" for b m ms
    by (induction ms arbitrary: b m) auto
  moreover have "pangu_loop b (m # ms @ ns) = pangu_loop b (m # ms) @ pangu_loop False ns" for b m ms
    by (induction ms arbitrary: b m) auto
  ultimately show "monarch_loop b (ms @ ns) = monarch_loop b ms @ monarch_loop False ns"
    "hunyuan_dense_loop b (ms @ ns) = hunyuan_dense_loop b ms @ hunyuan_dense_loop False ns"
    "hunyuan_vl_loop b (ms @ ns) = hunyuan_vl_loop b ms @ hunyuan_vl_loop False ns"
    "pangu_loop b (ms @ ns) = pangu_loop b ms @ pangu_loop False ns"
    using assms by (cases ms; simp)+
qed

lemma first_is_system_append [simp]: "ms \<noteq> [] \<Longrightarrow> first_is_system (ms @ ns) = first_is_system ms"
  by (simp add: first_is_system_def)

lemma first_is_system_nonempty: "first_is_system ms \<Longrightarrow> ms \<noteq> []"
  by (auto simp: first_is_system_def)

lemma drop_system_append:
  "ms \<noteq> [] \<Longrightarrow> drop (if first_is_system ms then 1 else 0) (ms @ ns) = drop (if first_is_system ms then 1 else 0) ms @ ns"
  by (cases ms) auto

subsection \<open>Every known template has a text\<close>

lemma apply_template_None_iff: "llm_chat_apply_template t ms a = None \<longleftrightarrow> t = UNKNOWN"
  by (cases t) simp_all

lemma names_known: "t \<in> snd ` set LLM_CHAT_TEMPLATES \<Longrightarrow> t \<noteq> UNKNOWN"
  by (auto simp: LLM_CHAT_TEMPLATES_def)

subsection \<open>Adding messages\<close>

text \<open>A text to which another one appends.\<close>

definition grows :: "string \<Rightarrow> string \<Rightarrow> bool" where
  "grows p q \<longleftrightarrow> (\<exists>rest. q = p @ rest)"

lemma grows_append: "grows p (p @ q)"
  by (auto simp: grows_def)

lemma grows_each:
  "grows (each_msg f ms) (each_msg f (ms @ ns))"
  "grows (each_msg f ms @ gen_if False g) (each_msg f (ms @ ns) @ gen_if a g)"
  by (simp_all add: grows_def)

lemma grows_pre: "grows p q \<Longrightarrow> grows (s @ p) (s @ q)"
  by (auto simp: grows_def)

lemma grows_loop: "grows p q \<Longrightarrow> grows (p @ gen_if False g) (q @ gen_if a g)"
  by (auto simp: grows_def)

lemma each_grows:
  "grows (r_chatml ms False) (r_chatml (ms @ ns) a)"
  "grows (r_phi3 ms False) (r_phi3 (ms @ ns) a)"
  "grows (r_phi4 ms False) (r_phi4 (ms @ ns) a)"
  "grows (r_falcon3 ms False) (r_falcon3 (ms @ ns) a)"
  "grows (r_zephyr ms False) (r_zephyr (ms @ ns) a)"
  "grows (r_openchat ms False) (r_openchat (ms @ ns) a)"
  "grows (r_vicuna t ms False) (r_vicuna t (ms @ ns) a)"
  "grows (r_deepseek ms False) (r_deepseek (ms @ ns) a)"
  "grows (r_command_r ms False) (r_command_r (ms @ ns) a)"
  "grows (r_llama3 ms False) (r_llama3 (ms @ ns) a)"
  "grows (r_glmedge ms False) (r_glmedge (ms @ ns) a)"
  "grows (r_deepseek2 ms False) (r_deepseek2 (ms @ ns) a)"
  "grows (r_deepseek3 ms False) (r_deepseek3 (ms @ ns) a)"
  "grows (r_exaone3 ms False) (r_exaone3 (ms @ ns) a)"
  "grows (r_exaone4 ms False) (r_exaone4 (ms @ ns) a)"
  "grows (r_exaone_moe ms False) (r_exaone_moe (ms @ ns) a)"
  "grows (r_granite3 ms False) (r_granite3 (ms @ ns) a)"
  "grows (r_granite40 ms False) (r_granite40 (ms @ ns) a)"
  "grows (r_granite41 ms False) (r_granite41 (ms @ ns) a)"
  "grows (r_megrez ms False) (r_megrez (ms @ ns) a)"
  "grows (r_yandex ms False) (r_yandex (ms @ ns) a)"
  "grows (r_bailing t ms False) (r_bailing t (ms @ ns) a)"
  "grows (r_llama4 ms False) (r_llama4 (ms @ ns) a)"
  "grows (r_dots1 ms False) (r_dots1 (ms @ ns) a)"
  "grows (r_openai_moe ms False) (r_openai_moe (ms @ ns) a)"
  "grows (r_kimi_k2 ms False) (r_kimi_k2 (ms @ ns) a)"
  "grows (r_seed_oss ms False) (r_seed_oss (ms @ ns) a)"
  "grows (r_grok2 ms False) (r_grok2 (ms @ ns) a)"
  "grows (r_solar_open ms False) (r_solar_open (ms @ ns) a)"
  unfolding r_chatml_def r_phi3_def r_phi4_def r_falcon3_def r_zephyr_def r_openchat_def r_vicuna_def
    r_deepseek_def r_command_r_def r_llama3_def r_glmedge_def r_deepseek2_def r_deepseek3_def r_exaone3_def
    r_exaone4_def r_exaone_moe_def r_granite3_def r_granite40_def r_granite41_def r_megrez_def r_yandex_def
    r_bailing_def r_llama4_def r_dots1_def r_openai_moe_def r_kimi_k2_def r_seed_oss_def r_grok2_def
    r_solar_open_def
  by (rule grows_each)+

lemma other_grows:
  "grows (r_mistral_v7 t ms) (r_mistral_v7 t (ms @ ns))"
  "grows (r_minicpm ms) (r_minicpm (ms @ ns))"
  "grows (r_deepseek_ocr ms) (r_deepseek_ocr (ms @ ns))"
  "grows (r_hunyuan_moe ms) (r_hunyuan_moe (ms @ ns))"
  "grows (r_chatglm3 ms False) (r_chatglm3 (ms @ ns) a)"
  "grows (r_chatglm4 ms False) (r_chatglm4 (ms @ ns) a)"
  "grows (r_smolvlm ms False) (r_smolvlm (ms @ ns) a)"
  unfolding r_mistral_v7_def Let_def r_minicpm_def r_deepseek_ocr_def r_hunyuan_moe_def r_chatglm3_def
    r_chatglm4_def r_smolvlm_def
  by (intro grows_pre grows_each)+

lemma loop_grows:
  "grows (r_mistral t ms) (r_mistral t (ms @ ns))"
  "grows (r_llama2 t ms) (r_llama2 t (ms @ ns))"
  "grows (r_gemma ms False) (r_gemma (ms @ ns) a)"
  "grows (r_orion ms) (r_orion (ms @ ns))"
proof -
  have "grows (mistral_loop l tr ta b ms) (mistral_loop l tr ta b (ms @ ns))" for l tr ta b
    using mistral_loop_append [of l tr ta b ms] by (auto simp: grows_def)
  then show "grows (r_mistral t ms) (r_mistral t (ms @ ns))" by (simp add: r_mistral_def Let_def)
  have "grows (llama2_loop l tr ta b ms) (llama2_loop l tr ta b (ms @ ns))" for l tr ta b
    using llama2_loop_append [of l tr ta b ms] by (auto simp: grows_def)
  then show "grows (r_llama2 t ms) (r_llama2 t (ms @ ns))" unfolding r_llama2_def Let_def by (intro grows_pre)
  have "grows (gemma_loop [] ms) (gemma_loop [] (ms @ ns))"
    using gemma_loop_append [of "[]" ms] by (auto simp: grows_def)
  then show "grows (r_gemma ms False) (r_gemma (ms @ ns) a)" unfolding r_gemma_def by (rule grows_loop)
  show "grows (r_orion ms) (r_orion (ms @ ns))"
    using orion_loop_append [of "[]" ms] by (auto simp: grows_def r_orion_def)
qed

lemma first_grows:
  assumes "ms \<noteq> []"
  shows "grows (r_monarch ms False) (r_monarch (ms @ ns) a)"
    "grows (hunyuan_dense_loop True ms) (hunyuan_dense_loop True (ms @ ns))"
    "grows (r_hunyuan_vl ms) (r_hunyuan_vl (ms @ ns))"
    "grows (r_pangu ms False) (r_pangu (ms @ ns) a)"
    "grows (r_bailing2 ms False) (r_bailing2 (ms @ ns) a)"
    "grows (r_gigachat ms False) (r_gigachat (ms @ ns) a)"
proof -
  note first = first_loops_append [OF assms]
  show "grows (r_monarch ms False) (r_monarch (ms @ ns) a)"
    unfolding r_monarch_def first by (intro grows_loop grows_append)
  show "grows (hunyuan_dense_loop True ms) (hunyuan_dense_loop True (ms @ ns))"
    unfolding first by (intro grows_append)
  show "grows (r_hunyuan_vl ms) (r_hunyuan_vl (ms @ ns))"
    unfolding r_hunyuan_vl_def first by (intro grows_pre grows_append)
  show "grows (r_pangu ms False) (r_pangu (ms @ ns) a)"
    unfolding r_pangu_def first by (intro grows_loop grows_append)
  show "grows (r_bailing2 ms False) (r_bailing2 (ms @ ns) a)"
    unfolding r_bailing2_def first_is_system_append [OF assms] by (intro grows_pre grows_each)
  have hd: "hd (ms @ ns) = hd ms" using assms by simp
  show "grows (r_gigachat ms False) (r_gigachat (ms @ ns) a)"
    unfolding r_gigachat_def Let_def first_is_system_append [OF assms] drop_system_append [OF assms] hd
    by (intro grows_pre grows_each)
qed

lemma render_grows:
  assumes "ms \<noteq> []" and "t \<noteq> RWKV_WORLD" and "t \<noteq> UNKNOWN"
  shows "grows (the (llm_chat_apply_template t ms False)) (the (llm_chat_apply_template t (ms @ ns) a))"
  using assms(2,3)
  by (cases t; simp only: llm_chat_apply_template.simps option.sel simp_thms each_grows other_grows
      loop_grows first_grows [OF assms(1)])

lemma render_extends:
  assumes "llm_chat_apply_template t ms False = Some p" and "ms \<noteq> []" and "t \<noteq> RWKV_WORLD"
  shows "\<exists>rest. llm_chat_apply_template t (ms @ ns) a = Some (p @ rest)"
proof -
  have "t \<noteq> UNKNOWN" using assms(1) by (metis apply_template_None_iff option.distinct(1))
  then show ?thesis
    using render_grows [OF assms(2,3), of ns a] assms(1) apply_template_None_iff [of t "ms @ ns" a]
    by (auto simp: grows_def)
qed

end
