(* ===== verification/Chat_Reply.thy ===== *)
theory Chat_Reply
  imports Chat_Extend
begin

text \<open>
  Which templates continue a reply in place: with the reply added to the conversation, the text is the prompt
  that the model answered, then the reply, then the end of the turn.
\<close>

abbreviation user_msg :: "string \<Rightarrow> chat_msg" where
  "user_msg s \<equiv> \<lparr>msg_role = ''user'', msg_content = s\<rparr>"

abbreviation assistant_msg :: "string \<Rightarrow> chat_msg" where
  "assistant_msg s \<equiv> \<lparr>msg_role = ''assistant'', msg_content = s\<rparr>"

definition reply_breaks :: "llm_chat_template set" where
  "reply_breaks =
     {MISTRAL_V1, MISTRAL_V3, MISTRAL_V7, OPENCHAT, VICUNA, VICUNA_ORCA, CHATGLM_3, GLMEDGE, DEEPSEEK_2,
      RWKV_WORLD, YANDEX, BAILING_THINK, SMOLVLM, OPENAI_MOE, HUNYUAN_DENSE, GROK_2, SOLAR_OPEN}"

lemma upper_assistant: "bailing_role ''assistant'' = ''ASSISTANT''"
  by code_simp

lemma grows_reply_each:
  assumes "grows (g @ r) (f m)"
  shows "grows ((each_msg f ms @ gen_if True g) @ r) (each_msg f (ms @ [m]) @ gen_if False g)"
  using assms by (auto simp: grows_def)

lemma grows_reply_bare:
  assumes "grows r (f m)"
  shows "grows (each_msg f ms @ r) (each_msg f (ms @ [m]))"
  using assms by (auto simp: grows_def)

lemma grows_reply_loop:
  assumes "grows (g @ r) q"
  shows "grows ((p @ gen_if True g) @ r) ((p @ q) @ gen_if False g)"
  using assms by (auto simp: grows_def)

lemma grows_pre_assoc: "grows (p @ r) q \<Longrightarrow> grows ((s @ p) @ r) (s @ q)"
  by (auto simp: grows_def)

lemma grows_front: "grows r (r @ q)" "grows p q \<Longrightarrow> grows (s @ p) (s @ q)"
  by (auto simp: grows_def)

lemma each_reply:
  assumes "trim_s r = r"
  shows "grows (r_chatml ms True @ r) (r_chatml (ms @ [assistant_msg r]) False)"
    "grows (r_phi3 ms True @ r) (r_phi3 (ms @ [assistant_msg r]) False)"
    "grows (r_phi4 ms True @ r) (r_phi4 (ms @ [assistant_msg r]) False)"
    "grows (r_falcon3 ms True @ r) (r_falcon3 (ms @ [assistant_msg r]) False)"
    "grows (r_zephyr ms True @ r) (r_zephyr (ms @ [assistant_msg r]) False)"
    "grows (r_deepseek ms True @ r) (r_deepseek (ms @ [assistant_msg r]) False)"
    "grows (r_command_r ms True @ r) (r_command_r (ms @ [assistant_msg r]) False)"
    "grows (r_llama3 ms True @ r) (r_llama3 (ms @ [assistant_msg r]) False)"
    "grows (r_deepseek3 ms True @ r) (r_deepseek3 (ms @ [assistant_msg r]) False)"
    "grows (r_exaone3 ms True @ r) (r_exaone3 (ms @ [assistant_msg r]) False)"
    "grows (r_exaone4 ms True @ r) (r_exaone4 (ms @ [assistant_msg r]) False)"
    "grows (r_exaone_moe ms True @ r) (r_exaone_moe (ms @ [assistant_msg r]) False)"
    "grows (r_granite3 ms True @ r) (r_granite3 (ms @ [assistant_msg r]) False)"
    "grows (r_granite40 ms True @ r) (r_granite40 (ms @ [assistant_msg r]) False)"
    "grows (r_granite41 ms True @ r) (r_granite41 (ms @ [assistant_msg r]) False)"
    "grows (r_megrez ms True @ r) (r_megrez (ms @ [assistant_msg r]) False)"
    "grows (r_bailing BAILING ms True @ r) (r_bailing BAILING (ms @ [assistant_msg r]) False)"
    "grows (r_llama4 ms True @ r) (r_llama4 (ms @ [assistant_msg r]) False)"
    "grows (r_dots1 ms True @ r) (r_dots1 (ms @ [assistant_msg r]) False)"
    "grows (r_kimi_k2 ms True @ r) (r_kimi_k2 (ms @ [assistant_msg r]) False)"
    "grows (r_seed_oss ms True @ r) (r_seed_oss (ms @ [assistant_msg r]) False)"
  unfolding r_chatml_def r_phi3_def r_phi4_def r_falcon3_def r_zephyr_def r_deepseek_def r_command_r_def
    r_llama3_def r_deepseek3_def r_exaone3_def r_exaone4_def r_exaone_moe_def r_granite3_def r_granite40_def
    r_granite41_def r_megrez_def r_bailing_def r_llama4_def r_dots1_def r_kimi_k2_def r_seed_oss_def
  by (rule grows_reply_each; simp add: grows_def assms upper_assistant)+

lemma other_reply:
  assumes "trim_s r = r"
  shows "grows (r_mistral_v7 MISTRAL_V7_TEKKEN ms @ r) (r_mistral_v7 MISTRAL_V7_TEKKEN (ms @ [assistant_msg r]))"
    "grows (r_minicpm ms @ r) (r_minicpm (ms @ [assistant_msg r]))"
    "grows (r_deepseek_ocr ms @ r) (r_deepseek_ocr (ms @ [assistant_msg r]))"
    "grows (r_hunyuan_moe ms @ r) (r_hunyuan_moe (ms @ [assistant_msg r]))"
    "grows (r_chatglm4 ms True @ r) (r_chatglm4 (ms @ [assistant_msg r]) False)"
proof -
  show "grows (r_mistral_v7 MISTRAL_V7_TEKKEN ms @ r) (r_mistral_v7 MISTRAL_V7_TEKKEN (ms @ [assistant_msg r]))"
    "grows (r_minicpm ms @ r) (r_minicpm (ms @ [assistant_msg r]))"
    "grows (r_deepseek_ocr ms @ r) (r_deepseek_ocr (ms @ [assistant_msg r]))"
    "grows (r_hunyuan_moe ms @ r) (r_hunyuan_moe (ms @ [assistant_msg r]))"
    unfolding r_mistral_v7_def Let_def r_minicpm_def r_deepseek_ocr_def r_hunyuan_moe_def
    by (rule grows_reply_bare; simp add: grows_def assms)+
  show "grows (r_chatglm4 ms True @ r) (r_chatglm4 (ms @ [assistant_msg r]) False)"
    unfolding r_chatglm4_def
    by (rule grows_pre_assoc, rule grows_pre_assoc, rule grows_reply_each) (simp add: grows_def lf_def)
qed

lemma loop_reply:
  assumes "trim_s r = r" and "msg_role u = ''user''"
  shows "grows (r_mistral MISTRAL_V3_TEKKEN (ms @ [u]) @ r) (r_mistral MISTRAL_V3_TEKKEN ((ms @ [u]) @ [assistant_msg r]))"
    "grows (r_llama2 t (ms @ [u]) @ r) (r_llama2 t ((ms @ [u]) @ [assistant_msg r]))"
    "grows (r_gemma (ms @ [u]) True @ r) (r_gemma ((ms @ [u]) @ [assistant_msg r]) False)"
    "grows (r_orion (ms @ [u]) @ r) (r_orion ((ms @ [u]) @ [assistant_msg r]))"
proof -
  note after = loops_after_user [OF assms(2)]
  show "grows (r_mistral MISTRAL_V3_TEKKEN (ms @ [u]) @ r) (r_mistral MISTRAL_V3_TEKKEN ((ms @ [u]) @ [assistant_msg r]))"
    unfolding r_mistral_def Let_def after by (simp add: grows_def)
  show "grows (r_llama2 t (ms @ [u]) @ r) (r_llama2 t ((ms @ [u]) @ [assistant_msg r]))"
    unfolding r_llama2_def Let_def after by (simp add: grows_def assms(1) Let_def)
  show "grows (r_gemma (ms @ [u]) True @ r) (r_gemma ((ms @ [u]) @ [assistant_msg r]) False)"
    unfolding r_gemma_def after by (rule grows_reply_loop) (simp add: grows_def assms(1) Let_def)
  show "grows (r_orion (ms @ [u]) @ r) (r_orion ((ms @ [u]) @ [assistant_msg r]))"
    unfolding r_orion_def after by (simp add: grows_def)
qed

lemma first_reply:
  assumes "ms \<noteq> []"
  shows "grows (r_monarch ms True @ r) (r_monarch (ms @ [assistant_msg r]) False)"
    "grows (r_hunyuan_vl ms @ r) (r_hunyuan_vl (ms @ [assistant_msg r]))"
    "grows (r_pangu ms True @ r) (r_pangu (ms @ [assistant_msg r]) False)"
    "grows (r_bailing2 ms True @ r) (r_bailing2 (ms @ [assistant_msg r]) False)"
    "grows (r_gigachat ms True @ r) (r_gigachat (ms @ [assistant_msg r]) False)"
proof -
  note first = first_loops_append [OF assms]
  show "grows (r_monarch ms True @ r) (r_monarch (ms @ [assistant_msg r]) False)"
    unfolding r_monarch_def first by (rule grows_reply_loop) (simp add: grows_def)
  show "grows (r_hunyuan_vl ms @ r) (r_hunyuan_vl (ms @ [assistant_msg r]))"
    unfolding r_hunyuan_vl_def first by (simp add: grows_def)
  show "grows (r_pangu ms True @ r) (r_pangu (ms @ [assistant_msg r]) False)"
    unfolding r_pangu_def first by (rule grows_reply_loop) (simp add: grows_def)
  show "grows (r_bailing2 ms True @ r) (r_bailing2 (ms @ [assistant_msg r]) False)"
    unfolding r_bailing2_def first_is_system_append [OF assms]
    by (rule grows_pre_assoc, rule grows_reply_each) (simp add: grows_def upper_assistant)
  have hd: "hd (ms @ ns) = hd ms" for ns using assms by simp
  show "grows (r_gigachat ms True @ r) (r_gigachat (ms @ [assistant_msg r]) False)"
    unfolding r_gigachat_def Let_def first_is_system_append [OF assms] drop_system_append [OF assms] hd
    by (rule grows_pre_assoc, rule grows_reply_each) (simp add: grows_def)
qed

lemma reply_grows:
  assumes "t \<notin> reply_breaks" and "t \<noteq> UNKNOWN" and "msg_role u = ''user''" and "trim_s r = r"
  shows "grows (the (llm_chat_apply_template t (ms @ [u]) True) @ r)
     (the (llm_chat_apply_template t ((ms @ [u]) @ [assistant_msg r]) False))"
proof -
  have ne: "ms @ [u] \<noteq> []" by simp
  show ?thesis
    using assms(1,2) unfolding reply_breaks_def
    by (cases t; simp only: llm_chat_apply_template.simps option.sel insert_iff simp_thms each_reply [OF assms(4)]
        other_reply [OF assms(4)] loop_reply [OF assms(4,3)] first_reply [OF ne])
qed

text \<open>The others, on one short conversation.\<close>

lemma reply_broken:
  assumes "t \<in> reply_breaks"
  shows "\<not> grows (the (llm_chat_apply_template t [user_msg ''a''] True) @ ''b'')
     (the (llm_chat_apply_template t [user_msg ''a'', assistant_msg ''b''] False))"
proof -
  have "take (length (p @ ''b'')) q \<noteq> p @ ''b'' \<Longrightarrow> \<not> grows (p @ ''b'') q" for p q
    by (auto simp: grows_def)
  moreover have "\<forall>t \<in> reply_breaks. take (length (the (llm_chat_apply_template t [user_msg ''a''] True) @ ''b''))
      (the (llm_chat_apply_template t [user_msg ''a'', assistant_msg ''b''] False))
    \<noteq> the (llm_chat_apply_template t [user_msg ''a''] True) @ ''b''"
    unfolding reply_breaks_def by code_simp
  ultimately show ?thesis using assms by blast
qed

end
