(* ===== verification/Chat_Nif.thy ===== *)
theory Chat_Nif
  imports Tokens_Nif Chat_Reply
begin

text \<open>
  \<open>nif_apply_chat_template\<close> of \<open>erllama_nif_chat_template.c\<close>. Every block that the call allocates and the lock
  it takes is an entry of \<open>live\<close>: \<open>enif_free\<close> of a block that is not live, a write outside a buffer or a
  \<open>NULL\<close> string is \<open>None\<close>. \<open>alloc k i\<close> says whether an allocation succeeds, as in \<open>Tokens_Nif\<close>;
  \<open>ce_meta\<close> is what the metadata of a model says of its template, and \<open>ce_throws i\<close> whether the \<open>i\<close>th rendering
  throws. Bytes of terms become characters and back; a C string ends at its first NUL. The lists of a request have
  fewer than \<open>2 ^ 31\<close> cells.
\<close>

datatype chat_block = LockBlk | MsgsBlk | RoleBlk nat | ContentBlk nat | PromptBlk | TokensBlk

type_synonym live = "chat_block list"

definition enif_free :: "chat_block \<Rightarrow> live \<Rightarrow> live option" where
  "enif_free b live = (if b \<in> set live then Some (remove1 b live) else None)"

record chat_meta =
  cm_template :: "byte list option"
  cm_pre_tekken :: bool
  cm_n_layers :: nat

record chat_env =
  ce_text :: text_env
  ce_meta :: "nat \<Rightarrow> chat_meta exc"
  ce_throws :: "nat \<Rightarrow> bool"

definition to_chars :: "byte list \<Rightarrow> string" where
  "to_chars bs = map (\<lambda>b. char_of (unat b)) bs"

definition to_bytes :: "string \<Rightarrow> byte list" where
  "to_bytes s = map of_char s"

definition c_chars :: "byte list \<Rightarrow> string" where
  "c_chars bs = to_chars (takeWhile (\<lambda>b. b \<noteq> 0) bs)"

subsection \<open>The engine's side\<close>

definition llama_model_chat_template :: "chat_meta \<Rightarrow> string option" where
  "llama_model_chat_template cm =
     (case cm_template cm of
        None \<Rightarrow> if cm_pre_tekken cm \<and> cm_n_layers cm = 40 then Some ''mistral-v7-tekken'' else None
      | Some t \<Rightarrow> Some (c_chars t))"

definition erllama_safe_model_chat_template :: "chat_env \<Rightarrow> nat \<Rightarrow> string option" where
  "erllama_safe_model_chat_template ce p =
     catch_all (case ce_meta ce p of Throw \<Rightarrow> Throw | Ret cm \<Rightarrow> Ret (llama_model_chat_template cm)) None"

text \<open>\<open>strncpy\<close> into a buffer of \<open>n\<close> bytes, and the conversion of a \<open>size_t\<close> to \<open>int32_t\<close>.\<close>

definition strncpy_s :: "nat \<Rightarrow> string \<Rightarrow> byte list" where
  "strncpy_s n s =
     (let t = takeWhile (\<lambda>c. c \<noteq> CHR 0x00) s in to_bytes (take n t) @ replicate (n - length t) 0)"

definition as_int32 :: "nat \<Rightarrow> int" where
  "as_int32 n = signed_take_bit 31 (int n)"

text \<open>The return value and the buffer.\<close>

definition llama_chat_apply_template :: "string option \<Rightarrow> chat_msg list \<Rightarrow> bool \<Rightarrow> byte list \<Rightarrow> int \<times> byte list" where
  "llama_chat_apply_template tmpl chat add_ass buf =
     (let curr_tmpl = (case tmpl of None \<Rightarrow> ''chatml'' | Some t \<Rightarrow> t);
          detected_tmpl = llm_chat_detect_template curr_tmpl
      in if detected_tmpl = UNKNOWN then (-1, buf)
         else case llm_chat_apply_template detected_tmpl chat add_ass of
           None \<Rightarrow> (-1, buf)
         | Some formatted_chat \<Rightarrow>
             let res = as_int32 (length formatted_chat) in
             if res < 0 then (res, buf)
             else if buf \<noteq> [] then (res, strncpy_s (length buf) formatted_chat)
             else (res, buf))"

definition erllama_safe_chat_apply_template :: "bool \<Rightarrow> string option \<Rightarrow> chat_msg list \<Rightarrow> bool \<Rightarrow> byte list \<Rightarrow> int \<times> byte list" where
  "erllama_safe_chat_apply_template throws tmpl chat add_ass buf =
     (if throws then (INT32_MIN, buf) else llama_chat_apply_template tmpl chat add_ass buf)"

subsection \<open>Messages\<close>

definition get_map_bin :: "eterm \<Rightarrow> string \<Rightarrow> byte list option" where
  "get_map_bin m key = (case enif_get_map_value m key of None \<Rightarrow> None | Some v \<Rightarrow> iolist_bytes v)"

text \<open>The array of messages: the strings of a slot, or \<open>NULL\<close>.\<close>

type_synonym chat_slot = "string option \<times> string option"

definition free_if :: "'s option \<Rightarrow> chat_block \<Rightarrow> live \<Rightarrow> live option" where
  "free_if ptr b live = (case ptr of None \<Rightarrow> Some live | Some _ \<Rightarrow> enif_free b live)"

text \<open>\<open>free_chat_msgs\<close> on the slots from index \<open>i\<close> to \<open>i + n\<close>.\<close>

fun free_chat_msgs :: "chat_slot list \<Rightarrow> nat \<Rightarrow> nat \<Rightarrow> live \<Rightarrow> live option" where
  "free_chat_msgs slots i 0 live = Some live"
| "free_chat_msgs slots i (Suc n) live =
     (if i < length slots then
        Option.bind (free_if (fst (slots ! i)) (RoleBlk i) live) (\<lambda>l1.
        Option.bind (free_if (snd (slots ! i)) (ContentBlk i) l1) (\<lambda>l2.
        free_chat_msgs slots (Suc i) n l2))
      else None)"

text \<open>One message: \<open>Inl\<close> is the value of \<open>err\<close>.\<close>

definition take_chat_msg :: "text_allocs \<Rightarrow> nat \<Rightarrow> eterm \<Rightarrow> live \<Rightarrow> ((int + chat_slot) \<times> live) option" where
  "take_chat_msg alloc idx head live =
     (if \<not> enif_is_map head then Some (Inl (-1), live)
      else case get_map_bin head ''role'' of
        None \<Rightarrow> Some (Inl (-1), live)
      | Some role_bin \<Rightarrow>
          (case enif_get_map_value head ''content'' of
             None \<Rightarrow> Some (Inl (-1), live)
           | Some content_term \<Rightarrow>
               (case iolist_bytes content_term of
                  None \<Rightarrow> Some (Inl (-3), live)
                | Some content_bin \<Rightarrow>
                    if \<not> alloc ''role'' idx then Some (Inl (-2), live)
                    else
                      let live1 = RoleBlk idx # live in
                      if \<not> alloc ''content'' idx then
                        map_option (\<lambda>l. (Inl (-2), l)) (enif_free (RoleBlk idx) live1)
                      else Some (Inr (Some (c_chars (role_bin @ [0])), Some (c_chars (content_bin @ [0]))),
                                 ContentBlk idx # live1))))"

text \<open>The loop: the return value or \<open>err\<close>, the index it stopped at, the slots and the live blocks.\<close>

fun build_msgs_loop :: "text_allocs \<Rightarrow> nat \<Rightarrow> nat \<Rightarrow> eterm list \<Rightarrow> chat_slot list \<Rightarrow> live \<Rightarrow>
    (int option \<times> nat \<times> chat_slot list \<times> live) option" where
  "build_msgs_loop alloc max_out idx [] out live = Some (None, idx, out, live)"
| "build_msgs_loop alloc max_out idx (head # tail) out live =
     (if idx \<ge> max_out then Some (Some (-1), idx, out, live)
      else case take_chat_msg alloc idx head live of
        None \<Rightarrow> None
      | Some (Inl e, l) \<Rightarrow> Some (Some e, idx, out, l)
      | Some (Inr s, l) \<Rightarrow>
          if idx < length out then build_msgs_loop alloc max_out (Suc idx) tail (out[idx := s]) l else None)"

definition build_chat_msgs_from_list :: "text_allocs \<Rightarrow> eterm \<Rightarrow> chat_slot list \<Rightarrow> nat \<Rightarrow> nat \<Rightarrow> live \<Rightarrow>
    (int \<times> chat_slot list \<times> live) option" where
  "build_chat_msgs_from_list alloc list out max_out idx0 live =
     (case build_msgs_loop alloc max_out idx0 (list_cells list) out live of
        None \<Rightarrow> None
      | Some (None, idx, out', l) \<Rightarrow> Some (int idx, out', l)
      | Some (Some e, idx, out', l) \<Rightarrow>
          map_option (\<lambda>l'. (e, out', l')) (free_chat_msgs out' idx0 (idx - idx0) l))"

subsection \<open>The system message\<close>

text \<open>A buffer with its write position. \<open>put_s\<close> is \<open>memcpy(buf + pos, s, n); pos += n\<close>.\<close>

type_synonym writer = "nat \<times> byte list"

definition put_s :: "byte list \<Rightarrow> writer \<Rightarrow> writer option" where
  "put_s s w = map_option (\<lambda>b. (fst w + length s, b)) (poke (fst w) s (snd w))"

text \<open>Room for \<open>need\<close> bytes and a NUL: \<open>None\<close> if the reallocation fails.\<close>

definition reserve :: "text_env \<Rightarrow> bool \<Rightarrow> nat \<Rightarrow> writer \<Rightarrow> writer option" where
  "reserve e ok need w =
     (let (pos, buf) = w in
      if pos + need + 1 > length buf then
        if ok then Some (pos, grown_buf e buf ((pos + need + 1) * 2)) else None
      else Some (pos, buf))"

definition put_tool :: "byte list \<Rightarrow> byte list option \<Rightarrow> writer \<Rightarrow> writer option" where
  "put_tool name_bin desc w =
     Option.bind (put_s (to_bytes ''  - '') w) (\<lambda>w1.
     Option.bind (put_s name_bin w1) (\<lambda>w2.
     Option.bind (case desc of None \<Rightarrow> Some w2
                  | Some d \<Rightarrow> Option.bind (put_s (to_bytes '': '') w2) (put_s d)) (\<lambda>w3.
     put_s [10] w3)))"

text \<open>The list of tools: \<open>None\<close> is an access outside the buffer, \<open>Some None\<close> a failed reallocation.\<close>

fun tools_loop :: "text_env \<Rightarrow> text_allocs \<Rightarrow> nat \<Rightarrow> eterm list \<Rightarrow> writer \<Rightarrow> writer option option" where
  "tools_loop e alloc i [] w = Some (Some w)"
| "tools_loop e alloc i (head # tail) w =
     (if \<not> enif_is_map head then tools_loop e alloc (Suc i) tail w
      else case get_map_bin head ''name'' of
        None \<Rightarrow> tools_loop e alloc (Suc i) tail w
      | Some name_bin \<Rightarrow>
          let desc = get_map_bin head ''description'';
              needed = 4 + length name_bin + 2 + (case desc of None \<Rightarrow> 0 | Some d \<Rightarrow> length d) + 1
          in case reserve e (alloc ''sys_tool'' i) needed w of
               None \<Rightarrow> Some None
             | Some w1 \<Rightarrow>
                 (case put_tool name_bin desc w1 of
                    None \<Rightarrow> None
                  | Some w2 \<Rightarrow> tools_loop e alloc (Suc i) tail w2))"

definition tools_header :: "bool \<Rightarrow> byte list" where
  "tools_header has_system =
     to_bytes (if has_system then lf @ lf @ ''Available tools:'' @ lf else ''Available tools:'' @ lf)"

definition write_tools :: "text_env \<Rightarrow> text_allocs \<Rightarrow> bool \<Rightarrow> eterm \<Rightarrow> writer \<Rightarrow> writer option option" where
  "write_tools e alloc has_system tools_term w =
     (let header = tools_header has_system in
      case reserve e (alloc ''sys_header'' 0) (length header) w of
        None \<Rightarrow> Some None
      | Some w1 \<Rightarrow>
          (case put_s header w1 of
             None \<Rightarrow> None
           | Some w2 \<Rightarrow> tools_loop e alloc 0 (list_cells tools_term) w2))"

definition tools_of :: "eterm \<Rightarrow> eterm option" where
  "tools_of req =
     (case enif_get_map_value req ''tools'' of None \<Rightarrow> None | Some t \<Rightarrow> if enif_is_list t then Some t else None)"

text \<open>The returned string (its block is \<open>ContentBlk 0\<close>) or \<open>NULL\<close>, and the live blocks.\<close>

definition build_system_content :: "text_env \<Rightarrow> text_allocs \<Rightarrow> eterm \<Rightarrow> live \<Rightarrow> (string option \<times> live) option" where
  "build_system_content e alloc req live =
     (let system_bin = get_map_bin req ''system''; tools = tools_of req in
      if system_bin = None \<and> tools = None then Some (None, live)
      else
        let cap = 256 + (case system_bin of None \<Rightarrow> 0 | Some s \<Rightarrow> length s) in
        if \<not> alloc ''sys'' 0 then Some (None, live)
        else
          let live1 = ContentBlk 0 # live in
          case (case system_bin of None \<Rightarrow> Some (0, fresh_buf e cap) | Some s \<Rightarrow> put_s s (0, fresh_buf e cap)) of
            None \<Rightarrow> None
          | Some w \<Rightarrow>
              (case (case tools of None \<Rightarrow> Some (Some w) | Some t \<Rightarrow> write_tools e alloc (system_bin \<noteq> None) t w) of
                 None \<Rightarrow> None
               | Some None \<Rightarrow> map_option (\<lambda>l. (None, l)) (enif_free (ContentBlk 0) live1)
               | Some (Some (pos, buf)) \<Rightarrow>
                   map_option (\<lambda>b. (Some (c_chars b), live1)) (poke pos [0] buf)))"

subsection \<open>The entry point\<close>

text \<open>
  The answers after the array is built: the exit that unlocks the model, frees the messages, the array and
  the prompt buffer, where they are live.
\<close>

definition leave :: "bool \<Rightarrow> chat_slot list \<Rightarrow> nat \<Rightarrow> bool \<Rightarrow> nif_ret \<Rightarrow> live \<Rightarrow> (nif_ret \<times> live) option" where
  "leave locked slots n_msgs has_buf r live =
     Option.bind (if locked then enif_free LockBlk live else Some live) (\<lambda>l1.
     Option.bind (free_chat_msgs slots 0 n_msgs l1) (\<lambda>l2.
     Option.bind (enif_free MsgsBlk l2) (\<lambda>l3.
     Option.bind (if has_buf then enif_free PromptBlk l3 else Some l3) (\<lambda>l4.
     Some (r, l4)))))"

definition tokens_reply :: "tok_status \<Rightarrow> nif_ret" where
  "tokens_reply st =
     (case st of
        ERLLAMA_TOK_OK ts \<Rightarrow> Term (ETuple [atom_ok, mk_list (map EInt ts)])
      | _ \<Rightarrow> tok_reply st)"

text \<open>Tokenizing the first \<open>written\<close> bytes of the buffer.\<close>

definition tokenize_prompt :: "chat_env \<Rightarrow> text_allocs \<Rightarrow> nat \<Rightarrow> chat_slot list \<Rightarrow> nat \<Rightarrow> int \<Rightarrow> byte list \<Rightarrow> live \<Rightarrow> (nif_ret \<times> live) option" where
  "tokenize_prompt ce alloc p slots n_msgs written buf live =
     (case fst (erllama_model_vocab (ce_text ce) p) of
        None \<Rightarrow> leave True slots n_msgs True (err ''exception'') live
      | Some v \<Rightarrow>
          if v_none v \<or> nat written > length buf then None
          else
            let st = erllama_tokenize_grow (te_tokenize (ce_text ce) v (take (nat written) buf) True True)
                       (alloc ''tokens'' 0) (alloc ''tokens'' 1) written;
                live1 = (case st of ERLLAMA_TOK_OK _ \<Rightarrow> TokensBlk # live | _ \<Rightarrow> live)
            in Option.bind (leave True slots n_msgs True (tokens_reply st) live1) (\<lambda>(r, l).
               case st of ERLLAMA_TOK_OK _ \<Rightarrow> map_option (\<lambda>l'. (r, l')) (enif_free TokensBlk l)
               | _ \<Rightarrow> Some (r, l)))"

definition check_written :: "chat_env \<Rightarrow> text_allocs \<Rightarrow> nat \<Rightarrow> chat_slot list \<Rightarrow> nat \<Rightarrow> int \<times> byte list \<Rightarrow> live \<Rightarrow> (nif_ret \<times> live) option" where
  "check_written ce alloc p slots n_msgs w live =
     (let (written, buf) = w in
      if written < 0 then
        leave True slots n_msgs True (err (if written = INT32_MIN then ''exception'' else ''template_failed'')) live
      else tokenize_prompt ce alloc p slots n_msgs written buf live)"

text \<open>The two renderings: \<open>strncpy\<close> truncates silently, so the size returned is compared with the buffer's.\<close>

definition render_prompt :: "chat_env \<Rightarrow> text_allocs \<Rightarrow> nat \<Rightarrow> string \<Rightarrow> chat_msg list \<Rightarrow> chat_slot list \<Rightarrow> nat \<Rightarrow> live \<Rightarrow> (nif_ret \<times> live) option" where
  "render_prompt ce alloc p tmpl chat slots n_msgs live =
     (if \<not> alloc ''buf'' 0 then leave True slots n_msgs False (err ''oom'') live
      else
        let live1 = PromptBlk # live;
            (written, buf) = erllama_safe_chat_apply_template (ce_throws ce 0) (Some tmpl) chat True (fresh_buf (ce_text ce) 4096)
        in if written > 0 \<and> written > 4096 then
             if written > int ERLLAMA_MAX_TOKEN_TEXT then leave True slots n_msgs True (err ''too_large'') live1
             else Option.bind (enif_free PromptBlk live1) (\<lambda>live2.
               let buf_size = written + 16 in
               if \<not> alloc ''buf'' 1 then leave True slots n_msgs False (err ''oom'') live2
               else
                 let live3 = PromptBlk # live2;
                     (written2, buf2) = erllama_safe_chat_apply_template (ce_throws ce 1) (Some tmpl) chat True
                                          (fresh_buf (ce_text ce) (nat buf_size))
                 in if written2 > buf_size then leave True slots n_msgs True (err ''template_failed'') live3
                    else check_written ce alloc p slots n_msgs (written2, buf2) live3)
           else check_written ce alloc p slots n_msgs (written, buf) live1)"

definition read_slot :: "chat_slot \<Rightarrow> chat_msg option" where
  "read_slot s = (case s of (Some r, Some c) \<Rightarrow> Some \<lparr>msg_role = r, msg_content = c\<rparr> | _ \<Rightarrow> None)"

definition with_template :: "chat_env \<Rightarrow> text_allocs \<Rightarrow> model_res \<Rightarrow> chat_slot list \<Rightarrow> nat \<Rightarrow> live \<Rightarrow> (nif_ret \<times> live) option" where
  "with_template ce alloc m slots n_msgs live =
     (case erllama_lock_model_live m of
        None \<Rightarrow> leave False slots n_msgs False (err ''released'') live
      | Some p \<Rightarrow>
          let live1 = LockBlk # live in
          (case erllama_safe_model_chat_template ce p of
             None \<Rightarrow> leave True slots n_msgs False (err ''no_template'') live1
           | Some tmpl \<Rightarrow>
               if tmpl = [] then leave True slots n_msgs False (err ''no_template'') live1
               else case those (map read_slot (take n_msgs slots)) of
                 None \<Rightarrow> None
               | Some chat \<Rightarrow> render_prompt ce alloc p tmpl chat slots n_msgs live1))"

definition build_failed :: "int \<Rightarrow> nif_ret" where
  "build_failed built =
     (if built = -2 then err ''oom'' else if built = -3 then err ''invalid_content'' else Badarg)"

definition with_messages :: "chat_env \<Rightarrow> text_allocs \<Rightarrow> model_res \<Rightarrow> eterm \<Rightarrow> nat \<Rightarrow> chat_slot list \<Rightarrow> nat \<Rightarrow> live \<Rightarrow> (nif_ret \<times> live) option" where
  "with_messages ce alloc m messages_term max_msgs slots n_msgs live =
     (case build_chat_msgs_from_list alloc messages_term slots max_msgs n_msgs live of
        None \<Rightarrow> None
      | Some (built, slots', l) \<Rightarrow>
          if built < 0 then leave False slots' n_msgs False (build_failed built) l
          else with_template ce alloc m slots' (nat built) l)"

definition nif_apply_chat_template :: "chat_env \<Rightarrow> text_allocs \<Rightarrow> eterm \<Rightarrow> eterm \<Rightarrow> (nif_ret \<times> live) option" where
  "nif_apply_chat_template ce alloc a0 a1 =
     (case Option.bind (enif_get_resource MODEL_RT a0) (te_models (ce_text ce)) of
        None \<Rightarrow> Some (Badarg, [])
      | Some m \<Rightarrow>
          if \<not> enif_is_map a1 then Some (Badarg, [])
          else case enif_get_map_value a1 ''messages'' of
            None \<Rightarrow> Some (Badarg, [])
          | Some messages_term \<Rightarrow>
              if \<not> enif_is_list messages_term then Some (Badarg, [])
              else case enif_get_list_length messages_term of
                None \<Rightarrow> Some (Badarg, [])
              | Some msg_len \<Rightarrow>
                  let max_msgs = msg_len + 1 in
                  if \<not> alloc ''msgs'' 0 then Some (err ''oom'', [])
                  else
                    let slots = replicate max_msgs (None, None); live1 = [MsgsBlk] in
                    (case build_system_content (ce_text ce) alloc a1 live1 of
                       None \<Rightarrow> None
                     | Some (None, live2) \<Rightarrow> with_messages ce alloc m messages_term max_msgs slots 0 live2
                     | Some (Some synthetic, live2) \<Rightarrow>
                         if \<not> alloc ''sys_role'' 0 then
                           Option.bind (enif_free (ContentBlk 0) live2) (\<lambda>l1.
                           Option.bind (enif_free MsgsBlk l1) (\<lambda>l2. Some (err ''oom'', l2)))
                         else with_messages ce alloc m messages_term max_msgs
                                (slots[0 := (Some ''system'', Some synthetic)]) 1 (RoleBlk 0 # live2)))"

end
