(* ===== verification/Chat_Nul.thy ===== *)
theory Chat_Nul
  imports Chat_Reply
begin

text \<open>The text of messages without NUL characters has none, so that \<open>strncpy\<close> copies all of it.\<close>

definition nul_free :: "string \<Rightarrow> bool" where
  "nul_free s \<longleftrightarrow> CHR 0x00 \<notin> set s"

definition nul_free_msgs :: "chat_msg list \<Rightarrow> bool" where
  "nul_free_msgs ms \<longleftrightarrow> (\<forall>m \<in> set ms. nul_free (msg_role m) \<and> nul_free (msg_content m))"

lemma nul_free_simps [simp]:
  "nul_free []" "nul_free (c # s) \<longleftrightarrow> c \<noteq> CHR 0x00 \<and> nul_free s"
  "nul_free (s @ t) \<longleftrightarrow> nul_free s \<and> nul_free t"
  by (auto simp: nul_free_def)

lemma nul_free_lf [simp]: "nul_free lf"
  by (simp add: lf_def)

lemma nul_free_words [simp]:
  "nul_free w_eos" "nul_free w_assistant" "nul_free w_user" "nul_free w_hy_assistant" "nul_free w_hy_user"
  "nul_free w_hy_holder2" "nul_free w_hy_holder3" "nul_free w_hy_begin" "nul_free w_ru_user"
  "nul_free w_ru_assistant" "nul_free w_zh_user" "nul_free w_zh_system" "nul_free w_zh_user_colon"
  "nul_free w_zh_assistant" "nul_free w_zh_tool" "nul_free w_zh_function"
  by (simp_all add: w_eos_def w_assistant_def w_user_def w_hy_assistant_def w_hy_user_def w_hy_holder2_def
      w_hy_holder3_def w_hy_begin_def w_ru_user_def w_ru_assistant_def w_zh_user_def w_zh_system_def
      w_zh_user_colon_def w_zh_assistant_def w_zh_tool_def w_zh_function_def fwbar_def lowbar_def)

lemma nul_free_trim [simp]: "nul_free s \<Longrightarrow> nul_free (trim_s s)"
  unfolding nul_free_def trim_s_def by (auto dest!: set_dropWhileD)

lemma nul_free_upper: "to_upper_c c = CHR 0x00 \<Longrightarrow> c = CHR 0x00"
proof -
  have "to_upper_c c \<noteq> CHR 0x00" if "c \<noteq> CHR 0x00"
  proof (cases "(97 :: nat) \<le> of_char c \<and> of_char c \<le> (122 :: nat)")
    case True
    then have "(of_char c - 32) mod 256 = (of_char c - 32 :: nat)" "(0 :: nat) < of_char c - 32" by auto
    then have "of_char (char_of (of_char c - 32 :: nat)) \<noteq> (0 :: nat)" by (simp only: of_char_of)
    moreover have "of_char (CHR 0x00) = (0 :: nat)" by simp
    ultimately have "char_of (of_char c - 32 :: nat) \<noteq> CHR 0x00" by metis
    with True show ?thesis by (simp add: to_upper_c_def)
  next
    case False
    then have "to_upper_c c = c" unfolding to_upper_c_def by (rule if_not_P)
    with that show ?thesis by simp
  qed
  then show "to_upper_c c = CHR 0x00 \<Longrightarrow> c = CHR 0x00" by blast
qed

lemma nul_free_roles [simp]:
  "nul_free s \<Longrightarrow> nul_free (upper_first s)" "nul_free s \<Longrightarrow> nul_free (bailing_role s)"
  unfolding upper_first_def bailing_role_def
  by (auto simp: nul_free_def dest: nul_free_upper nul_free_upper [OF sym] split: list.splits)

lemma nul_free_gen_if [simp]: "nul_free g \<Longrightarrow> nul_free (gen_if a g)"
  by (simp add: gen_if_def)

lemma nul_free_each:
  assumes "nul_free_msgs ms" and "\<And>m. nul_free (msg_role m) \<Longrightarrow> nul_free (msg_content m) \<Longrightarrow> nul_free (f m)"
  shows "nul_free (each_msg f ms)"
  using assms(1) by (induction ms) (simp_all add: nul_free_msgs_def assms(2))

lemma nul_free_each_gen:
  assumes "nul_free_msgs ms" and "\<And>m. nul_free (msg_role m) \<Longrightarrow> nul_free (msg_content m) \<Longrightarrow> nul_free (f m)"
    and "nul_free g"
  shows "nul_free (each_msg f ms @ gen_if a g)"
  using nul_free_each [OF assms(1,2)] assms(3) by simp

lemma nul_free_pre: "nul_free s \<Longrightarrow> nul_free t \<Longrightarrow> nul_free (s @ t)"
  by simp

lemma nul_free_loops:
  assumes "nul_free_msgs ms"
  shows "nul_free l \<Longrightarrow> nul_free t \<Longrightarrow> nul_free (mistral_loop l t ta b ms)"
    "nul_free (llama2_loop sy bo st b ms)" "nul_free (monarch_loop b ms)"
    "nul_free sp \<Longrightarrow> nul_free (gemma_loop sp ms)" "nul_free sp \<Longrightarrow> nul_free (orion_loop sp ms)"
    "nul_free (rwkv_loop ms)" "nul_free (hunyuan_dense_loop b ms)" "nul_free (hunyuan_vl_loop b ms)"
    "nul_free (pangu_loop b ms)"
proof -
  show "nul_free l \<Longrightarrow> nul_free t \<Longrightarrow> nul_free (mistral_loop l t ta b ms)"
    using assms by (induction ms arbitrary: b) (simp_all add: nul_free_msgs_def)
  show "nul_free (llama2_loop sy bo st b ms)"
    using assms by (induction ms arbitrary: b) (simp_all add: nul_free_msgs_def Let_def)
  show "nul_free (monarch_loop b ms)"
    using assms by (induction ms arbitrary: b) (simp_all add: nul_free_msgs_def)
  show "nul_free sp \<Longrightarrow> nul_free (gemma_loop sp ms)"
    using assms by (induction ms arbitrary: sp) (simp_all add: nul_free_msgs_def Let_def)
  show "nul_free sp \<Longrightarrow> nul_free (orion_loop sp ms)"
    using assms by (induction ms arbitrary: sp) (simp_all add: nul_free_msgs_def)
  show "nul_free (rwkv_loop ms)"
    using assms by (induction ms) (simp_all add: nul_free_msgs_def)
  show "nul_free (hunyuan_dense_loop b ms)" 
    using assms by (induction ms arbitrary: b) (simp_all add: nul_free_msgs_def)
  show "nul_free (hunyuan_vl_loop b ms)"
    using assms by (induction ms arbitrary: b) (simp_all add: nul_free_msgs_def)
  show "nul_free (pangu_loop b ms)"
    using assms by (induction ms arbitrary: b) (simp_all add: nul_free_msgs_def)
qed

lemma nul_free_templates:
  assumes "nul_free_msgs ms"
  shows "nul_free (r_chatml ms a)" "nul_free (r_phi3 ms a)" "nul_free (r_phi4 ms a)" "nul_free (r_falcon3 ms a)"
    "nul_free (r_zephyr ms a)" "nul_free (r_openchat ms a)" "nul_free (r_vicuna t ms a)" "nul_free (r_deepseek ms a)"
    "nul_free (r_command_r ms a)" "nul_free (r_llama3 ms a)" "nul_free (r_glmedge ms a)" "nul_free (r_deepseek2 ms a)"
    "nul_free (r_deepseek3 ms a)" "nul_free (r_exaone3 ms a)" "nul_free (r_exaone4 ms a)" "nul_free (r_exaone_moe ms a)"
    "nul_free (r_granite3 ms a)" "nul_free (r_granite40 ms a)" "nul_free (r_granite41 ms a)" "nul_free (r_megrez ms a)"
    "nul_free (r_yandex ms a)" "nul_free (r_bailing t ms a)" "nul_free (r_llama4 ms a)" "nul_free (r_dots1 ms a)"
    "nul_free (r_openai_moe ms a)" "nul_free (r_kimi_k2 ms a)" "nul_free (r_seed_oss ms a)" "nul_free (r_grok2 ms a)"
    "nul_free (r_solar_open ms a)"
  unfolding r_chatml_def r_phi3_def r_phi4_def r_falcon3_def r_zephyr_def r_openchat_def r_vicuna_def
    r_deepseek_def r_command_r_def r_llama3_def r_glmedge_def r_deepseek2_def r_deepseek3_def r_exaone3_def
    r_exaone4_def r_exaone_moe_def r_granite3_def r_granite40_def r_granite41_def r_megrez_def r_yandex_def
    r_bailing_def r_llama4_def r_dots1_def r_openai_moe_def r_kimi_k2_def r_seed_oss_def r_grok2_def
    r_solar_open_def
  by (rule nul_free_each_gen [OF assms]; simp)+

lemma nul_free_others:
  assumes "nul_free_msgs ms"
  shows "nul_free (r_mistral_v7 t ms)" "nul_free (r_minicpm ms)" "nul_free (r_deepseek_ocr ms)"
    "nul_free (r_hunyuan_moe ms)" "nul_free (r_chatglm3 ms a)" "nul_free (r_chatglm4 ms a)" "nul_free (r_smolvlm ms a)"
    "nul_free (r_bailing2 ms a)" "nul_free (r_gigachat ms a)" "nul_free (r_mistral t ms)" "nul_free (r_llama2 t ms)"
    "nul_free (r_monarch ms a)" "nul_free (r_gemma ms a)" "nul_free (r_orion ms)" "nul_free (r_hunyuan_vl ms)"
    "nul_free (r_pangu ms a)"
proof -
  note each = nul_free_each [OF assms] and loops = nul_free_loops [OF assms]
  show "nul_free (r_mistral_v7 t ms)" "nul_free (r_minicpm ms)" "nul_free (r_deepseek_ocr ms)" "nul_free (r_hunyuan_moe ms)"
    unfolding r_mistral_v7_def Let_def r_minicpm_def r_deepseek_ocr_def r_hunyuan_moe_def by (rule each; simp)+
  show "nul_free (r_chatglm3 ms a)" "nul_free (r_chatglm4 ms a)" "nul_free (r_smolvlm ms a)" "nul_free (r_bailing2 ms a)"
    unfolding r_chatglm3_def r_chatglm4_def r_smolvlm_def r_bailing2_def
    by (simp_all add: each)
  have hd: "nul_free (msg_content (hd ms))" if "first_is_system ms"
    using that assms by (cases ms) (auto simp: first_is_system_def nul_free_msgs_def)
  have drop: "nul_free_msgs (drop k ms)" for k
    using assms by (auto simp: nul_free_msgs_def dest: in_set_dropD)
  show "nul_free (r_gigachat ms a)"
    unfolding r_gigachat_def Let_def by (simp add: nul_free_each [OF drop] hd)
  show "nul_free (r_mistral t ms)" "nul_free (r_llama2 t ms)" "nul_free (r_monarch ms a)" "nul_free (r_gemma ms a)"
    "nul_free (r_orion ms)" "nul_free (r_hunyuan_vl ms)" "nul_free (r_pangu ms a)"
    unfolding r_mistral_def Let_def r_llama2_def r_monarch_def r_gemma_def r_orion_def r_hunyuan_vl_def r_pangu_def
    by (simp_all add: loops)
qed

lemma render_nul_free:
  assumes "nul_free_msgs ms" and "llm_chat_apply_template t ms a = Some s"
  shows "nul_free s"
proof -
  have "t \<noteq> UNKNOWN" using assms(2) by auto
  then have "nul_free (the (llm_chat_apply_template t ms a))"
    by (cases t; simp only: llm_chat_apply_template.simps option.sel nul_free_templates [OF assms(1)]
        nul_free_others [OF assms(1)] nul_free_loops [OF assms(1)] simp_thms)
  with assms(2) show ?thesis by simp
qed

end
