(* ===== verification/Chat_Live.thy ===== *)
theory Chat_Live
  imports Chat_Nif Chat_Nul "HOL-Library.Multiset"
begin

text \<open>
  Who owns the blocks of \<open>nif_apply_chat_template\<close>: each step is stated by the multiset of the live blocks before
  and after it, and what it wrote.
\<close>

lemma enif_free_ok:
  "mset live = add_mset b M \<Longrightarrow> \<exists>l. enif_free b live = Some l \<and> mset l = M"
  by (metis enif_free_def mset_remove1 set_mset_mset union_single_eq_member add_mset_remove_trivial)

fun slot_blocks :: "nat \<Rightarrow> nat \<Rightarrow> chat_block multiset" where
  "slot_blocks i 0 = {#}"
| "slot_blocks i (Suc n) = {#RoleBlk i, ContentBlk i#} + slot_blocks (Suc i) n"

lemma slot_blocks_add: "slot_blocks i (n + k) = slot_blocks i n + slot_blocks (i + n) k"
  by (induction n arbitrary: i) simp_all

lemma slot_blocks_Suc: "slot_blocks i (Suc n) = slot_blocks i n + {#RoleBlk (i + n), ContentBlk (i + n)#}"
  using slot_blocks_add [of i n 1] by simp

definition filled :: "chat_slot \<Rightarrow> bool" where
  "filled s \<longleftrightarrow> fst s \<noteq> None \<and> snd s \<noteq> None"

lemma free_chat_msgs_ok:
  assumes "i + n \<le> length slots" and "\<forall>j. i \<le> j \<and> j < i + n \<longrightarrow> filled (slots ! j)"
    and "mset live = slot_blocks i n + M"
  shows "\<exists>l. free_chat_msgs slots i n live = Some l \<and> mset l = M"
  using assms
proof (induction n arbitrary: i live)
  case (Suc n)
  have f: "filled (slots ! i)" "i < length slots" using Suc.prems(1,2) by auto
  then obtain r c where rc: "slots ! i = (Some r, Some c)" by (cases "slots ! i") (auto simp: filled_def)
  have "mset live = add_mset (RoleBlk i) (add_mset (ContentBlk i) (slot_blocks (Suc i) n + M))"
    using Suc.prems(3) by simp
  from enif_free_ok [OF this] obtain l1 where l1: "enif_free (RoleBlk i) live = Some l1"
    "mset l1 = add_mset (ContentBlk i) (slot_blocks (Suc i) n + M)" by blast
  from enif_free_ok [OF l1(2)] obtain l2 where l2: "enif_free (ContentBlk i) l1 = Some l2"
    "mset l2 = slot_blocks (Suc i) n + M" by blast
  have "\<exists>l. free_chat_msgs slots (Suc i) n l2 = Some l \<and> mset l = M"
    by (rule Suc.IH) (use Suc.prems(1,2) l2(2) in auto)
  then show ?case using l1(1) l2(1) rc f(2) by (auto simp: free_if_def)
qed simp

subsection \<open>Messages\<close>

lemma c_chars_nul [simp]: "c_chars (bs @ [0]) = c_chars bs"
proof -
  have "takeWhile (\<lambda>b. b \<noteq> 0) (bs @ [0]) = takeWhile (\<lambda>b. b \<noteq> (0 :: byte)) bs"
    by (induction bs) simp_all
  then show ?thesis by (simp add: c_chars_def)
qed

text \<open>A message of a request: the message, or the value of \<open>err\<close>.\<close>

definition message_of :: "eterm \<Rightarrow> int + chat_msg" where
  "message_of t =
     (if \<not> enif_is_map t then Inl (-1)
      else case get_map_bin t ''role'' of
        None \<Rightarrow> Inl (-1)
      | Some r \<Rightarrow> (case enif_get_map_value t ''content'' of
          None \<Rightarrow> Inl (-1)
        | Some ct \<Rightarrow> (case iolist_bytes ct of
            None \<Rightarrow> Inl (-3)
          | Some c \<Rightarrow> Inr \<lparr>msg_role = c_chars r, msg_content = c_chars c\<rparr>)))"

fun messages_of :: "eterm list \<Rightarrow> int + chat_msg list" where
  "messages_of [] = Inr []"
| "messages_of (t # ts) =
     (case message_of t of Inl e \<Rightarrow> Inl e
      | Inr m \<Rightarrow> (case messages_of ts of Inl e \<Rightarrow> Inl e | Inr ms \<Rightarrow> Inr (m # ms)))"

definition slot_of :: "chat_msg \<Rightarrow> chat_slot" where
  "slot_of m = (Some (msg_role m), Some (msg_content m))"

lemma filled_slot_of [simp]: "filled (slot_of m)"
  by (simp add: filled_def slot_of_def)

lemma take_chat_msg_ok:
  "(case message_of head of
      Inl e \<Rightarrow> e \<in> {-1, -3} \<and> take_chat_msg alloc idx head live = Some (Inl e, live)
    | Inr m \<Rightarrow> take_chat_msg alloc idx head live = Some (Inr (slot_of m), ContentBlk idx # RoleBlk idx # live)
        \<or> take_chat_msg alloc idx head live = Some (Inl (-2), live) \<and> \<not> (alloc ''role'' idx \<and> alloc ''content'' idx))"
  by (auto simp: message_of_def take_chat_msg_def slot_of_def enif_free_def Let_def split: option.split)

text \<open>What the loop leaves: the slots it filled, and their blocks.\<close>

lemma build_msgs_loop_ok:
  assumes "idx + length cells \<le> max_out" and "length out = max_out" and "mset live = M"
  shows "\<exists>e idx' out' l. build_msgs_loop alloc max_out idx cells out live = Some (e, idx', out', l) \<and>
     idx \<le> idx' \<and> idx' \<le> max_out \<and> length out' = max_out \<and>
     (\<forall>j < idx. out' ! j = out ! j) \<and> (\<forall>j. idx \<le> j \<and> j < idx' \<longrightarrow> filled (out' ! j)) \<and>
     mset l = M + slot_blocks idx (idx' - idx) \<and>
     (case e of Some c \<Rightarrow> messages_of cells = Inl c \<and> c \<in> {-1, -3} \<or> c = -2 \<and> (\<exists>k j. \<not> alloc k j)
      | None \<Rightarrow> idx' = idx + length cells \<and>
          (\<exists>ms. messages_of cells = Inr ms \<and> take (length cells) (drop idx out') = map slot_of ms))"
  using assms
proof (induction cells arbitrary: idx out live M)
  case (Cons head tail)
  have small: "idx < max_out" "idx < length out" using Cons.prems(1,2) by auto
  show ?case
  proof (cases "message_of head")
    case (Inl e)
    then have "take_chat_msg alloc idx head live = Some (Inl e, live)" "e \<in> {-1, -3}"
      using take_chat_msg_ok [where head = head and alloc = alloc and idx = idx and live = live] by auto
    then show ?thesis using small Cons.prems Inl by auto
  next
    case (Inr m)
    then consider (ok) "take_chat_msg alloc idx head live = Some (Inr (slot_of m), ContentBlk idx # RoleBlk idx # live)"
      | (oom) "take_chat_msg alloc idx head live = Some (Inl (-2), live)" "\<not> (alloc ''role'' idx \<and> alloc ''content'' idx)"
      using take_chat_msg_ok [where head = head and alloc = alloc and idx = idx and live = live] by auto
    then show ?thesis
    proof cases
      case oom
      then show ?thesis using small Cons.prems by auto
    next
      case ok
      let ?out = "out[idx := slot_of m]" and ?live = "ContentBlk idx # RoleBlk idx # live"
      obtain e idx' out' l where IH: "build_msgs_loop alloc max_out (Suc idx) tail ?out ?live = Some (e, idx', out', l)"
        "Suc idx \<le> idx'" "idx' \<le> max_out" "length out' = max_out" "\<forall>j < Suc idx. out' ! j = ?out ! j"
        "\<forall>j. Suc idx \<le> j \<and> j < idx' \<longrightarrow> filled (out' ! j)"
        "mset l = (M + {#RoleBlk idx, ContentBlk idx#}) + slot_blocks (Suc idx) (idx' - Suc idx)"
        "case e of Some c \<Rightarrow> messages_of tail = Inl c \<and> c \<in> {-1, -3} \<or> c = -2 \<and> (\<exists>k j. \<not> alloc k j)
         | None \<Rightarrow> idx' = Suc idx + length tail \<and>
             (\<exists>ms. messages_of tail = Inr ms \<and> take (length tail) (drop (Suc idx) out') = map slot_of ms)"
        using Cons.IH [of "Suc idx" ?out ?live "M + {#RoleBlk idx, ContentBlk idx#}"] Cons.prems by auto
      have run: "build_msgs_loop alloc max_out idx (head # tail) out live = Some (e, idx', out', l)"
        using small ok IH(1) by simp
      have at: "out' ! idx = slot_of m" using IH(5) small by simp
      have gap: "idx' - idx = Suc (idx' - Suc idx)" using IH(2) by simp
      have "filled (out' ! j)" if "idx \<le> j" "j < idx'" for j
        using that at IH(6) by (cases "j = idx") auto
      moreover have "mset l = M + slot_blocks idx (idx' - idx)" using IH(7) gap by simp
      moreover have "drop idx out' = slot_of m # drop (Suc idx) out'"
        using at IH(3,4) small by (metis Cons_nth_drop_Suc)
      ultimately show ?thesis
        using run IH(2-5,8) Inr small
        by (intro exI [of _ e] exI [of _ idx'] exI [of _ out'] exI [of _ l]) (auto split: option.splits sum.splits)
    qed
  qed
qed auto

text \<open>The helper: on failure nothing of it is left, on success the slots hold the messages.\<close>

lemma build_chat_msgs_ok:
  assumes "idx0 + length (list_cells list) \<le> max_out" and "length out = max_out" and "mset live = M"
  shows "(\<exists>e out' l. build_chat_msgs_from_list alloc list out max_out idx0 live = Some (e, out', l) \<and> mset l = M \<and>
            length out' = max_out \<and> (\<forall>j < idx0. out' ! j = out ! j) \<and>
            (messages_of (list_cells list) = Inl e \<and> e \<in> {-1, -3} \<or> e = -2 \<and> (\<exists>k j. \<not> alloc k j)))
       \<or> (\<exists>ms out' l. build_chat_msgs_from_list alloc list out max_out idx0 live =
              Some (int (idx0 + length (list_cells list)), out', l) \<and>
            mset l = M + slot_blocks idx0 (length (list_cells list)) \<and> length out' = max_out \<and>
            (\<forall>j < idx0. out' ! j = out ! j) \<and> messages_of (list_cells list) = Inr ms \<and>
            take (length (list_cells list)) (drop idx0 out') = map slot_of ms)"
proof -
  let ?cells = "list_cells list"
  obtain e idx' out' l where run: "build_msgs_loop alloc max_out idx0 ?cells out live = Some (e, idx', out', l)"
     "idx0 \<le> idx'" "idx' \<le> max_out" "length out' = max_out"
     "\<forall>j < idx0. out' ! j = out ! j" "\<forall>j. idx0 \<le> j \<and> j < idx' \<longrightarrow> filled (out' ! j)"
     "mset l = M + slot_blocks idx0 (idx' - idx0)"
     "case e of Some c \<Rightarrow> messages_of ?cells = Inl c \<and> c \<in> {-1, -3} \<or> c = -2 \<and> (\<exists>k j. \<not> alloc k j)
      | None \<Rightarrow> idx' = idx0 + length ?cells \<and>
          (\<exists>ms. messages_of ?cells = Inr ms \<and> take (length ?cells) (drop idx0 out') = map slot_of ms)"
    using build_msgs_loop_ok [OF assms, of alloc] by blast
  show ?thesis
  proof (cases e)
    case None
    then show ?thesis using run by (simp add: build_chat_msgs_from_list_def)
  next
    case (Some c)
    have "\<exists>l'. free_chat_msgs out' idx0 (idx' - idx0) l = Some l' \<and> mset l' = M"
      by (rule free_chat_msgs_ok) (use run in auto)
    then show ?thesis using run Some by (auto simp: build_chat_msgs_from_list_def)
  qed
qed

end
