(* ===== verification/Chat_System.thy ===== *)
theory Chat_System
  imports Chat_Live
begin

text \<open>
  \<open>build_system_content\<close>: the buffer is never overrun, and it holds the system text, the header and one line for
  each tool that has a name.
\<close>

text \<open>The writer has written \<open>s\<close> and has room for a NUL.\<close>

definition wrote :: "writer \<Rightarrow> byte list \<Rightarrow> bool" where
  "wrote w s \<longleftrightarrow> fst w = length s \<and> length s < length (snd w) \<and> take (length s) (snd w) = s"

lemma put_s_ok:
  assumes "wrote w s" and "length s + length t < length (snd w)"
  shows "\<exists>w'. put_s t w = Some w' \<and> wrote w' (s @ t) \<and> length (snd w') = length (snd w)"
proof -
  obtain b where "poke (length s) t (snd w) = Some b" "length b = length (snd w)"
    "take (length s + length t) b = take (length s) (snd w) @ t"
    using poke_ok [of "length s" t "snd w"] assms(2) by auto
  with assms show ?thesis by (simp add: put_s_def wrote_def)
qed

lemma reserve_cases:
  assumes "wrote w s"
  obtains (oom) "reserve e ok need w = None" "\<not> ok"
    | (room) w' where "reserve e ok need w = Some w'" "wrote w' s" "length s + need < length (snd w')"
proof (cases "length s + need + 1 > length (snd w)")
  case True
  have len: "length (snd w) \<le> (length s + need + 1) * 2" using True by simp
  have "take (length s) (grown_buf e (snd w) ((length s + need + 1) * 2)) = s"
    using take_grown [of "length s" "snd w" "(length s + need + 1) * 2" e] len assms by (simp add: wrote_def)
  then have "wrote (length s, grown_buf e (snd w) ((length s + need + 1) * 2)) s"
    using length_bufs(2) [OF len, of e] by (simp add: wrote_def)
  moreover have "reserve e ok need w =
      (if ok then Some (length s, grown_buf e (snd w) ((length s + need + 1) * 2)) else None)"
    using True assms by (cases w) (simp add: reserve_def wrote_def)
  ultimately show ?thesis using that length_bufs(2) [OF len, of e] by (cases ok) simp_all
next
  case False
  then have "reserve e ok need w = Some w" using assms by (cases w) (simp add: reserve_def wrote_def)
  then show ?thesis using that(2) [of w] assms False by simp
qed

definition tool_line :: "byte list \<Rightarrow> byte list option \<Rightarrow> byte list" where
  "tool_line nm desc =
     to_bytes ''  - '' @ nm @ (case desc of None \<Rightarrow> [] | Some d \<Rightarrow> to_bytes '': '' @ d) @ [10]"

lemma length_to_bytes [simp]: "length (to_bytes s) = length s"
  by (simp add: to_bytes_def)

lemma put_tool_ok:
  assumes "wrote w s"
    and "length s + (4 + length nm + 2 + (case desc of None \<Rightarrow> 0 | Some d \<Rightarrow> length d) + 1) < length (snd w)"
  shows "\<exists>w'. put_tool nm desc w = Some w' \<and> wrote w' (s @ tool_line nm desc)"
proof -
  obtain w1 where w1: "put_s (to_bytes ''  - '') w = Some w1" "wrote w1 (s @ to_bytes ''  - '')"
    "length (snd w1) = length (snd w)"
    using put_s_ok [OF assms(1), of "to_bytes ''  - ''"] assms(2) by auto
  obtain w2 where w2: "put_s nm w1 = Some w2" "wrote w2 (s @ to_bytes ''  - '' @ nm)" "length (snd w2) = length (snd w)"
    using put_s_ok [OF w1(2), of nm] assms(2) w1(3) by auto
  show ?thesis
  proof (cases desc)
    case None
    then show ?thesis
      using put_s_ok [OF w2(2), of "[10]"] assms(2) w1 w2 by (auto simp: put_tool_def tool_line_def)
  next
    case (Some d)
    obtain w3 where w3: "put_s (to_bytes '': '') w2 = Some w3" "wrote w3 (s @ to_bytes ''  - '' @ nm @ to_bytes '': '')"
      "length (snd w3) = length (snd w)"
      using put_s_ok [OF w2(2), of "to_bytes '': ''"] assms(2) w2(3) Some by auto
    obtain w4 where w4: "put_s d w3 = Some w4" "wrote w4 (s @ to_bytes ''  - '' @ nm @ to_bytes '': '' @ d)"
      "length (snd w4) = length (snd w)"
      using put_s_ok [OF w3(2), of d] assms(2) w3(3) Some by auto
    show ?thesis
      using put_s_ok [OF w4(2), of "[10]"] assms(2) w1 w2 w3 w4 Some by (auto simp: put_tool_def tool_line_def)
  qed
qed

definition tool_text :: "eterm \<Rightarrow> byte list" where
  "tool_text t =
     (if \<not> enif_is_map t then []
      else case get_map_bin t ''name'' of None \<Rightarrow> []
      | Some nm \<Rightarrow> tool_line nm (get_map_bin t ''description''))"

lemma tools_loop_ok:
  assumes "wrote w s"
  shows "tools_loop e alloc i cells w = Some None \<and> (\<exists>j. \<not> alloc ''sys_tool'' j)
     \<or> (\<exists>w'. tools_loop e alloc i cells w = Some (Some w') \<and> wrote w' (s @ concat (map tool_text cells)))"
  using assms
proof (induction cells arbitrary: i w s)
  case (Cons head tail)
  show ?case
  proof (cases "enif_is_map head \<and> get_map_bin head ''name'' \<noteq> None")
    case False
    then have "tool_text head = []" "tools_loop e alloc i (head # tail) w = tools_loop e alloc (Suc i) tail w"
      by (auto simp: tool_text_def)
    with Cons.IH [OF Cons.prems, of "Suc i"] show ?thesis by simp
  next
    case True
    then obtain nm where nm: "enif_is_map head" "get_map_bin head ''name'' = Some nm" by auto
    let ?d = "get_map_bin head ''description''"
    let ?need = "4 + length nm + 2 + (case ?d of None \<Rightarrow> 0 | Some d \<Rightarrow> length d) + 1"
    have line: "tool_text head = tool_line nm ?d" using nm by (simp add: tool_text_def)
    show ?thesis
    proof (rule reserve_cases [OF Cons.prems, of e "alloc ''sys_tool'' i" ?need], goal_cases)
      case 1
      then show ?thesis using nm by auto
    next
      case (2 w1)
      obtain w2 where w2: "put_tool nm ?d w1 = Some w2" "wrote w2 (s @ tool_text head)"
        using put_tool_ok [OF 2(2,3)] line by auto
      have "tools_loop e alloc i (head # tail) w = tools_loop e alloc (Suc i) tail w2"
        using nm 2(1) w2(1) by (simp add: Let_def)
      with Cons.IH [OF w2(2), of "Suc i"] show ?thesis by simp
    qed
  qed
qed simp

lemma write_tools_ok:
  assumes "wrote w s"
  shows "write_tools e alloc b t w = Some None \<and> (\<exists>k j. \<not> alloc k j)
     \<or> (\<exists>w'. write_tools e alloc b t w = Some (Some w') \<and>
           wrote w' (s @ tools_header b @ concat (map tool_text (list_cells t))))"
proof (rule reserve_cases [OF assms, of e "alloc ''sys_header'' 0" "length (tools_header b)"], goal_cases)
  case 1
  then show ?thesis by (auto simp: write_tools_def Let_def)
next
  case (2 w1)
  obtain w2 where w2: "put_s (tools_header b) w1 = Some w2" "wrote w2 (s @ tools_header b)"
    using put_s_ok [OF 2(2,3)] by blast
  have "write_tools e alloc b t w = tools_loop e alloc 0 (list_cells t) w2"
    using 2(1) w2(1) by (simp add: write_tools_def Let_def)
  then show ?thesis using tools_loop_ok [OF w2(2), of e alloc 0 "list_cells t"] by auto
qed

text \<open>The text of the synthetic system message.\<close>

definition system_text :: "eterm \<Rightarrow> byte list option" where
  "system_text req =
     (let sys = get_map_bin req ''system''; tools = tools_of req in
      if sys = None \<and> tools = None then None
      else Some ((case sys of None \<Rightarrow> [] | Some s \<Rightarrow> s)
        @ (case tools of None \<Rightarrow> [] | Some t \<Rightarrow> tools_header (sys \<noteq> None) @ concat (map tool_text (list_cells t)))))"

lemma c_chars_prefix: "c_chars (s @ 0 # rest) = c_chars s"
proof -
  have "takeWhile (\<lambda>b. b \<noteq> 0) (s @ 0 # rest) = takeWhile (\<lambda>b. b \<noteq> (0 :: byte)) s"
    by (induction s) simp_all
  then show ?thesis by (simp add: c_chars_def)
qed

lemma close_text:
  assumes "wrote (pos, buf) s"
  shows "\<exists>b. poke pos [0] buf = Some b \<and> c_chars b = c_chars s"
proof -
  have "poke pos [0] buf = Some (s @ 0 # drop (pos + 1) buf)" using assms by (simp add: poke_def wrote_def)
  then show ?thesis by (auto simp: c_chars_prefix)
qed

lemma build_system_content_ok:
  assumes "mset live = M"
  shows "(\<exists>l. build_system_content e alloc req live = Some (None, l) \<and> mset l = M \<and>
            (system_text req = None \<or> (\<exists>k j. \<not> alloc k j)))
       \<or> (\<exists>s l. build_system_content e alloc req live = Some (Some (c_chars s), l) \<and>
            mset l = add_mset (ContentBlk 0) M \<and> system_text req = Some s)"
proof (cases "get_map_bin req ''system'' = None \<and> tools_of req = None \<or> \<not> alloc ''sys'' 0")
  case True
  then show ?thesis using assms by (auto simp: build_system_content_def system_text_def Let_def)
next
  case False
  let ?sys = "case get_map_bin req ''system'' of None \<Rightarrow> [] | Some s \<Rightarrow> s"
  let ?cap = "256 + (case get_map_bin req ''system'' of None \<Rightarrow> 0 | Some s \<Rightarrow> length s)"
  have start: "wrote (0, fresh_buf e ?cap) []" by (simp add: wrote_def)
  obtain w where w: "(case get_map_bin req ''system'' of None \<Rightarrow> Some (0, fresh_buf e ?cap)
       | Some s \<Rightarrow> put_s s (0, fresh_buf e ?cap)) = Some w" "wrote w ?sys"
  proof (cases "get_map_bin req ''system''")
    case None
    then show ?thesis using start that by simp
  next
    case (Some s)
    then show ?thesis using put_s_ok [OF start, of s] that by auto
  qed
  have alive: "mset (ContentBlk 0 # live) = add_mset (ContentBlk 0) M" using assms by simp
  from enif_free_ok [OF alive] obtain l0 where l0: "enif_free (ContentBlk 0) (ContentBlk 0 # live) = Some l0" "mset l0 = M"
    by blast
  show ?thesis
  proof (cases "tools_of req")
    case None
    obtain pos buf where pb: "w = (pos, buf)" by (cases w)
    obtain b where "poke pos [0] buf = Some b" "c_chars b = c_chars ?sys"
      using close_text w(2) pb by blast
    then show ?thesis using False None w(1) pb alive
      by (auto simp: build_system_content_def system_text_def Let_def)
  next
    case (Some t)
    let ?full = "?sys @ tools_header (get_map_bin req ''system'' \<noteq> None) @ concat (map tool_text (list_cells t))"
    consider "write_tools e alloc (get_map_bin req ''system'' \<noteq> None) t w = Some None" "\<exists>k j. \<not> alloc k j"
      | w' where "write_tools e alloc (get_map_bin req ''system'' \<noteq> None) t w = Some (Some w')" "wrote w' ?full"
      using write_tools_ok [OF w(2), of e alloc "get_map_bin req ''system'' \<noteq> None" t] by blast
    then show ?thesis
    proof cases
      case 1
      then show ?thesis using False Some w(1) l0 by (simp add: build_system_content_def Let_def)
    next
      case (2 w')
      obtain pos buf where pb: "w' = (pos, buf)" by (cases w')
      obtain b where "poke pos [0] buf = Some b" "c_chars b = c_chars ?full"
        using close_text 2(2) pb by blast
      then show ?thesis using False Some w(1) 2(1) pb alive
        by (auto simp: build_system_content_def system_text_def Let_def)
    qed
  qed
qed

end
