(* ===== verification/Chat_Props.thy ===== *)
theory Chat_Props
  imports Chat_System Tokens_Props
begin

text \<open>
  What \<open>nif_apply_chat_template\<close> answers, and what it leaves behind.
\<close>

lemma leave_ok:
  assumes "n \<le> length slots" and "\<forall>j < n. filled (slots ! j)"
    and "mset live = (if locked then {#LockBlk#} else {#}) + slot_blocks 0 n + {#MsgsBlk#} + (if has_buf then {#PromptBlk#} else {#}) + X"
  shows "\<exists>l. leave locked slots n has_buf r live = Some (r, l) \<and> mset l = X"
proof -
  let ?P = "if has_buf then {#PromptBlk#} else {#}"
  obtain l1 where l1: "(if locked then enif_free LockBlk live else Some live) = Some l1"
    "mset l1 = slot_blocks 0 n + ({#MsgsBlk#} + ?P + X)"
    using enif_free_ok [of live LockBlk "slot_blocks 0 n + {#MsgsBlk#} + ?P + X"] assms(3) by (cases locked) auto
  obtain l2 where l2: "free_chat_msgs slots 0 n l1 = Some l2" "mset l2 = {#MsgsBlk#} + ?P + X"
    using free_chat_msgs_ok [of 0 n slots l1 "{#MsgsBlk#} + ?P + X"] assms(1,2) l1(2) by auto
  obtain l3 where l3: "enif_free MsgsBlk l2 = Some l3" "mset l3 = ?P + X"
    using enif_free_ok [of l2 MsgsBlk "?P + X"] l2(2) by auto
  obtain l4 where l4: "(if has_buf then enif_free PromptBlk l3 else Some l3) = Some l4" "mset l4 = X"
    using enif_free_ok [of l3 PromptBlk X] l3(2) by (cases has_buf) auto
  show ?thesis using l1 l2 l3 l4 by (simp add: leave_def)
qed

text \<open>The same when nothing else is live.\<close>

lemma leave_all:
  assumes "n \<le> length slots" and "\<forall>j < n. filled (slots ! j)"
    and "mset live = (if locked then {#LockBlk#} else {#}) + slot_blocks 0 n + {#MsgsBlk#} + (if has_buf then {#PromptBlk#} else {#})"
  shows "leave locked slots n has_buf r live = Some (r, [])"
  using leave_ok [of n slots live locked has_buf "{#}" r] assms by auto

definition no_dead_vocab :: "chat_env \<Rightarrow> bool" where
  "no_dead_vocab ce \<longleftrightarrow> (\<forall>p v. te_vocab (ce_text ce) p = Some v \<longrightarrow> \<not> v_none v)"

definition prompt_status :: "chat_env \<Rightarrow> text_allocs \<Rightarrow> vocab \<Rightarrow> byte list \<Rightarrow> tok_status" where
  "prompt_status ce alloc v bs =
     erllama_tokenize_grow (te_tokenize (ce_text ce) v bs True True) (alloc ''tokens'' 0) (alloc ''tokens'' 1)
       (int (length bs))"

lemma tokenize_prompt_ok:
  assumes "n \<le> length slots" and "\<forall>j < n. filled (slots ! j)"
    and "mset live = {#LockBlk#} + slot_blocks 0 n + {#MsgsBlk#} + {#PromptBlk#}"
    and "no_dead_vocab ce" and "0 \<le> written" and "nat written \<le> length buf"
  shows "tokenize_prompt ce alloc p slots n written buf live =
     Some (case te_vocab (ce_text ce) p of None \<Rightarrow> err ''exception''
           | Some v \<Rightarrow> tokens_reply (prompt_status ce alloc v (take (nat written) buf)), [])"
proof (cases "te_vocab (ce_text ce) p")
  case None
  then show ?thesis
    using leave_all [of n slots live True True] assms(1-3)
    by (simp add: tokenize_prompt_def erllama_model_vocab_def)
next
  case (Some v)
  have len: "int (length (take (nat written) buf)) = written" using assms(5,6) by simp
  let ?st = "erllama_tokenize_grow (te_tokenize (ce_text ce) v (take (nat written) buf) True True)
    (alloc ''tokens'' 0) (alloc ''tokens'' 1) written"
  have st: "prompt_status ce alloc v (take (nat written) buf) = ?st"
    by (simp only: prompt_status_def len)
  have out: "leave True slots n True r live = Some (r, [])" for r
    by (rule leave_all) (use assms(1-3) in simp_all)
  have "\<exists>l. leave True slots n True r (TokensBlk # live) = Some (r, l) \<and> mset l = {#TokensBlk#}" for r
    by (rule leave_ok) (use assms(1-3) in simp_all)
  then have out2: "leave True slots n True r (TokensBlk # live) = Some (r, [TokensBlk])" for r
    by (metis mset_single_iff)
  have "\<not> v_none v" using assms(4) Some by (simp add: no_dead_vocab_def)
  then have "tokenize_prompt ce alloc p slots n written buf live = Some (tokens_reply ?st, [])"
    using Some assms(6) out out2
    by (cases ?st) (simp_all add: tokenize_prompt_def erllama_model_vocab_def Let_def enif_free_def)
  then show ?thesis using Some st by simp
qed

lemma check_written_ok:
  assumes "n \<le> length slots" and "\<forall>j < n. filled (slots ! j)"
    and "mset live = {#LockBlk#} + slot_blocks 0 n + {#MsgsBlk#} + {#PromptBlk#}"
    and "no_dead_vocab ce" and "nat written \<le> length buf"
  shows "check_written ce alloc p slots n (written, buf) live =
     Some (if written < 0 then err (if written = INT32_MIN then ''exception'' else ''template_failed'')
           else case te_vocab (ce_text ce) p of None \<Rightarrow> err ''exception''
           | Some v \<Rightarrow> tokens_reply (prompt_status ce alloc v (take (nat written) buf)), [])"
proof (cases "written < 0")
  case True
  then show ?thesis using leave_all [of n slots live True True] assms(1-3) by (simp add: check_written_def)
next
  case False
  then show ?thesis using tokenize_prompt_ok [OF assms(1-4), of written buf alloc p] assms(5)
    by (simp add: check_written_def)
qed

lemma length_strncpy [simp]: "length (strncpy_s n s) = n"
  by (simp add: strncpy_s_def Let_def to_bytes_def)

lemma length_rendered [simp]:
  "length (snd (erllama_safe_chat_apply_template th t chat a buf)) = length buf"
  by (auto simp: erllama_safe_chat_apply_template_def llama_chat_apply_template_def Let_def split: option.split)

lemma render_prompt_safe:
  assumes "n \<le> length slots" and "\<forall>j < n. filled (slots ! j)"
    and "mset live = {#LockBlk#} + slot_blocks 0 n + {#MsgsBlk#}" and "no_dead_vocab ce"
  shows "\<exists>r. render_prompt ce alloc p tmpl chat slots n live = Some (r, [])"
proof -
  obtain w b where wb: "erllama_safe_chat_apply_template (ce_throws ce 0) (Some tmpl) chat True (fresh_buf (ce_text ce) 4096) = (w, b)"
    by (cases "erllama_safe_chat_apply_template (ce_throws ce 0) (Some tmpl) chat True (fresh_buf (ce_text ce) 4096)")
  have lb: "length b = 4096"
    using length_rendered [of "ce_throws ce 0" "Some tmpl" chat True "fresh_buf (ce_text ce) 4096"] unfolding wb by simp
  obtain w2 b2 where wb2: "erllama_safe_chat_apply_template (ce_throws ce 1) (Some tmpl) chat True
      (fresh_buf (ce_text ce) (nat (w + 16))) = (w2, b2)"
    by (cases "erllama_safe_chat_apply_template (ce_throws ce 1) (Some tmpl) chat True (fresh_buf (ce_text ce) (nat (w + 16)))")
  have lb2: "length b2 = nat (w + 16)"
    using length_rendered [of "ce_throws ce 1" "Some tmpl" chat True "fresh_buf (ce_text ce) (nat (w + 16))"] unfolding wb2 by simp
  have no_buf: "leave True slots n False r live = Some (r, [])" for r
    by (rule leave_all) (use assms(1-3) in simp_all)
  have with_buf: "leave True slots n True r (PromptBlk # live) = Some (r, [])" for r
    by (rule leave_all) (use assms(1-3) in simp_all)
  have m: "mset (PromptBlk # live) = {#LockBlk#} + slot_blocks 0 n + {#MsgsBlk#} + {#PromptBlk#}"
    using assms(3) by simp
  have chk: "\<exists>r. check_written ce alloc p slots n (x, y) (PromptBlk # live) = Some (r, [])" if "nat x \<le> length y" for x y
    using check_written_ok [OF assms(1,2) m assms(4) that] by blast
  have free: "enif_free PromptBlk (PromptBlk # live) = Some live" by (simp add: enif_free_def)
  have "nat w2 \<le> length b2" if "\<not> w2 > w + 16" using that lb2 by simp
  moreover have "nat w \<le> length b" if "\<not> (w > 0 \<and> w > 4096)" using that lb by auto
  ultimately show ?thesis
    using no_buf with_buf chk [of w2 b2] chk [of w b] free
    by (auto simp: render_prompt_def Let_def wb wb2 simp del: mset.simps One_nat_def)
qed


subsection \<open>What is tokenized\<close>

definition prompt_fits :: "string \<Rightarrow> chat_msg list \<Rightarrow> bool" where
  "prompt_fits tmpl chat \<longleftrightarrow>
     (\<forall>s. llm_chat_apply_template (llm_chat_detect_template tmpl) chat True = Some s \<longrightarrow> length s < 2 ^ 31)"

definition calm :: "chat_env \<Rightarrow> text_allocs \<Rightarrow> bool" where
  "calm ce alloc \<longleftrightarrow> (\<forall>k j. alloc k j) \<and> (\<forall>i. \<not> ce_throws ce i)"

definition render_reply :: "chat_env \<Rightarrow> text_allocs \<Rightarrow> nat \<Rightarrow> string \<Rightarrow> chat_msg list \<Rightarrow> nif_ret" where
  "render_reply ce alloc p tmpl chat =
     (case llm_chat_apply_template (llm_chat_detect_template tmpl) chat True of
        None \<Rightarrow> err ''template_failed''
      | Some s \<Rightarrow>
          if length s > ERLLAMA_MAX_TOKEN_TEXT then err ''too_large''
          else case te_vocab (ce_text ce) p of
            None \<Rightarrow> err ''exception''
          | Some v \<Rightarrow> tokens_reply (prompt_status ce alloc v (to_bytes s)))"

lemma as_int32_small: "n < 2 ^ 31 \<Longrightarrow> as_int32 n = int n"
  unfolding as_int32_def by (rule signed_take_bit_int_eq_self) auto

lemma take_strncpy:
  assumes "nul_free s" and "length s \<le> n"
  shows "take (length s) (strncpy_s n s) = to_bytes s"
proof -
  have all: "takeWhile (\<lambda>c. c \<noteq> CHR 0x00) s = s"
    using assms(1) by (auto simp: nul_free_def takeWhile_eq_all_conv)
  show ?thesis unfolding strncpy_s_def Let_def all using assms(2) by simp
qed

lemma rendered:
  assumes "llm_chat_apply_template (llm_chat_detect_template tmpl) chat True = Some s" and "length s < 2 ^ 31" and "buf \<noteq> []"
  shows "erllama_safe_chat_apply_template False (Some tmpl) chat True buf = (int (length s), strncpy_s (length buf) s)"
proof -
  have "llm_chat_detect_template tmpl \<noteq> UNKNOWN" using assms(1) by auto
  then show ?thesis
    using assms as_int32_small [OF assms(2)]
    by (simp add: erllama_safe_chat_apply_template_def llama_chat_apply_template_def Let_def)
qed

lemma fresh_buf_Nil [simp]: "fresh_buf e n = [] \<longleftrightarrow> n = 0"
  by (simp add: fresh_buf_def)

lemma render_prompt_exact:
  assumes "n \<le> length slots" and "\<forall>j < n. filled (slots ! j)"
    and "mset live = {#LockBlk#} + slot_blocks 0 n + {#MsgsBlk#}" and "no_dead_vocab ce"
    and "calm ce alloc" and "nul_free_msgs chat" and "prompt_fits tmpl chat"
  shows "render_prompt ce alloc p tmpl chat slots n live = Some (render_reply ce alloc p tmpl chat, [])"
proof -
  have ok: "alloc k j" "\<not> ce_throws ce i" for k j i using assms(5) by (simp_all add: calm_def)
  have with_buf: "leave True slots n True r (PromptBlk # live) = Some (r, [])" for r
    by (rule leave_all) (use assms(1-3) in simp_all)
  have m: "mset (PromptBlk # live) = {#LockBlk#} + slot_blocks 0 n + {#MsgsBlk#} + {#PromptBlk#}"
    using assms(3) by simp
  note chk = check_written_ok [OF assms(1,2) m assms(4)]
  have free: "enif_free PromptBlk (PromptBlk # live) = Some live" by (simp add: enif_free_def)
  show ?thesis
  proof (cases "llm_chat_apply_template (llm_chat_detect_template tmpl) chat True")
    case None
    then have "llm_chat_detect_template tmpl = UNKNOWN" by (simp add: apply_template_None_iff)
    then have "erllama_safe_chat_apply_template False (Some tmpl) chat True buf = (-1, buf)" for buf
      by (simp add: erllama_safe_chat_apply_template_def llama_chat_apply_template_def)
    then show ?thesis using None ok chk [of "-1" "fresh_buf (ce_text ce) 4096" alloc p]
      by (simp add: render_prompt_def render_reply_def)
  next
    case (Some s)
    have len: "length s < 2 ^ 31" using assms(7) Some by (simp add: prompt_fits_def)
    have nul: "nul_free s" by (rule render_nul_free [OF assms(6) Some])
    note run = rendered [OF Some len]
    show ?thesis
    proof (cases "length s \<le> 4096")
      case True
      then have "take (length s) (strncpy_s 4096 s) = to_bytes s" by (rule take_strncpy [OF nul])
      then have "check_written ce alloc p slots n (int (length s), strncpy_s 4096 s) (PromptBlk # live) =
          Some (case te_vocab (ce_text ce) p of None \<Rightarrow> err ''exception''
                | Some v \<Rightarrow> tokens_reply (prompt_status ce alloc v (to_bytes s)), [])"
        using True chk [of "int (length s)" "strncpy_s 4096 s" alloc p] by (simp cong: option.case_cong)
      then show ?thesis
        using True Some ok run [of "fresh_buf (ce_text ce) 4096"]
        by (simp add: render_prompt_def render_reply_def ERLLAMA_MAX_TOKEN_TEXT_def)
    next
      case False
      have size: "nat (int (length s) + 16) = length s + 16" by simp
      have "take (length s) (strncpy_s (length s + 16) s) = to_bytes s" by (rule take_strncpy [OF nul]) simp
      then have "check_written ce alloc p slots n (int (length s), strncpy_s (length s + 16) s) (PromptBlk # live) =
          Some (case te_vocab (ce_text ce) p of None \<Rightarrow> err ''exception''
                | Some v \<Rightarrow> tokens_reply (prompt_status ce alloc v (to_bytes s)), [])"
        using chk [of "int (length s)" "strncpy_s (length s + 16) s" alloc p] by (simp cong: option.case_cong)
      then show ?thesis
        using False Some ok run [of "fresh_buf (ce_text ce) 4096"] run [of "fresh_buf (ce_text ce) (length s + 16)"]
          with_buf free
        by (auto simp: render_prompt_def render_reply_def Let_def size)
    qed
  qed
qed

subsection \<open>The whole call\<close>

definition template_reply :: "chat_env \<Rightarrow> text_allocs \<Rightarrow> model_res \<Rightarrow> chat_msg list \<Rightarrow> nif_ret" where
  "template_reply ce alloc m chat =
     (case erllama_lock_model_live m of
        None \<Rightarrow> err ''released''
      | Some p \<Rightarrow>
          (case erllama_safe_model_chat_template ce p of
             None \<Rightarrow> err ''no_template''
           | Some tmpl \<Rightarrow> if tmpl = [] then err ''no_template'' else render_reply ce alloc p tmpl chat))"

text \<open>The prompt that the model's template makes of these messages stays below 2 GiB.\<close>

definition chat_fits :: "chat_env \<Rightarrow> model_res \<Rightarrow> chat_msg list \<Rightarrow> bool" where
  "chat_fits ce m chat \<longleftrightarrow>
     (\<forall>p tmpl. erllama_lock_model_live m = Some p \<and> erllama_safe_model_chat_template ce p = Some tmpl \<longrightarrow> prompt_fits tmpl chat)"

lemma with_template_ok:
  assumes "n \<le> length slots" and "take n slots = map slot_of chat" and "n = length chat"
    and "mset live = slot_blocks 0 n + {#MsgsBlk#}" and "no_dead_vocab ce"
  shows "\<exists>r. with_template ce alloc m slots n live = Some (r, []) \<and>
     (calm ce alloc \<and> nul_free_msgs chat \<and> chat_fits ce m chat \<longrightarrow> r = template_reply ce alloc m chat)"
proof -
  have filled: "\<forall>j < n. filled (slots ! j)"
    using assms(1-3) by (metis filled_slot_of nth_map nth_take)
  have "read_slot \<circ> slot_of = Some" by (auto simp: read_slot_def slot_of_def)
  moreover have "those (map Some cs) = Some cs" for cs :: "chat_msg list" by (induction cs) simp_all
  ultimately have read: "those (map read_slot (take n slots)) = Some chat" by (simp add: assms(2))
  have out: "leave False slots n False r live = Some (r, [])" "leave True slots n False r (LockBlk # live) = Some (r, [])" for r
    by (rule leave_all, use assms(1,4) filled in simp_all)+
  have m: "mset (LockBlk # live) = {#LockBlk#} + slot_blocks 0 n + {#MsgsBlk#}" using assms(4) by simp
  have "\<exists>r. render_prompt ce alloc p tmpl chat slots n (LockBlk # live) = Some (r, []) \<and>
      (calm ce alloc \<and> nul_free_msgs chat \<and> prompt_fits tmpl chat \<longrightarrow> r = render_reply ce alloc p tmpl chat)" for p tmpl
    using render_prompt_safe [OF assms(1) filled m assms(5), of alloc p tmpl chat]
      render_prompt_exact [OF assms(1) filled m assms(5), of alloc chat tmpl p] by auto
  then show ?thesis
    by (auto simp: with_template_def template_reply_def chat_fits_def out read Let_def split: option.split)
qed

lemma nul_free_c_chars [simp]: "nul_free (c_chars bs)"
proof -
  have nz: "char_of (unat b) \<noteq> CHR 0x00" if "b \<noteq> (0 :: byte)" for b
  proof -
    have "unat b < 256" using unsigned_less [of b, where 'a = nat] by simp
    moreover have "unat b \<noteq> 0" using that by (simp add: unat_eq_zero)
    ultimately have "unat b mod 256 \<noteq> 0" by simp
    then have "of_char (char_of (unat b)) \<noteq> (0 :: nat)" by (simp only: of_char_of not_False_eq_True)
    moreover have "of_char (CHR 0x00) = (0 :: nat)" by simp
    ultimately show ?thesis by metis
  qed
  show ?thesis
    by (auto simp: nul_free_def c_chars_def to_chars_def dest!: set_takeWhileD) (metis nz)
qed

lemma messages_nul_free: "messages_of cells = Inr ms \<Longrightarrow> nul_free_msgs ms"
  by (induction cells arbitrary: ms)
    (auto simp: nul_free_msgs_def message_of_def split: sum.splits option.splits if_splits)

text \<open>What the messages of a request are answered with, after the system message \<open>sys\<close>.\<close>

definition messages_reply :: "chat_env \<Rightarrow> text_allocs \<Rightarrow> model_res \<Rightarrow> chat_msg list \<Rightarrow> eterm list \<Rightarrow> nif_ret" where
  "messages_reply ce alloc m sys cells =
     (case messages_of cells of Inl e \<Rightarrow> build_failed e | Inr ms \<Rightarrow> template_reply ce alloc m (sys @ ms))"

definition messages_fit :: "chat_env \<Rightarrow> model_res \<Rightarrow> chat_msg list \<Rightarrow> eterm list \<Rightarrow> bool" where
  "messages_fit ce m sys cells \<longleftrightarrow> (\<forall>ms. messages_of cells = Inr ms \<longrightarrow> chat_fits ce m (sys @ ms))"

lemma with_messages_ok:
  assumes "n0 + length (list_cells list) \<le> max_msgs" and "length slots = max_msgs"
    and "mset live = slot_blocks 0 n0 + {#MsgsBlk#}" and "take n0 slots = map slot_of sys" and "n0 = length sys"
    and "no_dead_vocab ce"
  shows "\<exists>r. with_messages ce alloc m list max_msgs slots n0 live = Some (r, []) \<and>
     (calm ce alloc \<and> nul_free_msgs sys \<and> messages_fit ce m sys (list_cells list)
       \<longrightarrow> r = messages_reply ce alloc m sys (list_cells list))"
  using build_chat_msgs_ok [OF assms(1,2) refl, of alloc live]
proof (elim disjE [where P = "\<exists>e out' l. build_chat_msgs_from_list alloc list slots max_msgs n0 live = Some (e, out', l) \<and> _ e out' l"] exE conjE)
  fix e out' l
  assume run: "build_chat_msgs_from_list alloc list slots max_msgs n0 live = Some (e, out', l)" "mset l = mset live"
    "length out' = max_msgs" "\<forall>j < n0. out' ! j = slots ! j"
    and neg: "messages_of (list_cells list) = Inl e \<and> e \<in> {-1, -3} \<or> e = -2 \<and> (\<exists>k j. \<not> alloc k j)"
  have "\<forall>j < n0. filled (out' ! j)"
    using assms(1,2,4,5) run(4) by (metis filled_slot_of nth_map nth_take)
  then have "leave False out' n0 False r l = Some (r, [])" for r
    by (intro leave_all) (use assms(1,3) run(2,3) in simp_all)
  moreover have "e < 0" using neg by auto
  moreover have "calm ce alloc \<Longrightarrow> messages_of (list_cells list) = Inl e" using neg by (auto simp: calm_def)
  ultimately show ?thesis using run(1) by (auto simp: with_messages_def messages_reply_def)
next
  fix ms out' l
  let ?n = "n0 + length (list_cells list)"
  assume run: "build_chat_msgs_from_list alloc list slots max_msgs n0 live = Some (int ?n, out', l)"
    "mset l = mset live + slot_blocks n0 (length (list_cells list))"
    "length out' = max_msgs" "\<forall>j < n0. out' ! j = slots ! j" "messages_of (list_cells list) = Inr ms"
    "take (length (list_cells list)) (drop n0 out') = map slot_of ms"
  have front: "take n0 out' = map slot_of sys"
    using assms(1,2,4) run(3,4) by (metis add_leD1 nth_take_lemma)
  have slots: "take ?n out' = map slot_of (sys @ ms)"
    using front run(6) by (simp add: take_add)
  have lens: "?n = length (sys @ ms)"
    using arg_cong [OF run(6), of length] assms(1,5) run(3) by simp
  have m: "mset l = slot_blocks 0 ?n + {#MsgsBlk#}"
    using run(2) assms(3) by (simp add: slot_blocks_add)
  have "\<exists>r. with_template ce alloc m out' ?n l = Some (r, []) \<and>
      (calm ce alloc \<and> nul_free_msgs (sys @ ms) \<and> chat_fits ce m (sys @ ms) \<longrightarrow> r = template_reply ce alloc m (sys @ ms))"
    by (rule with_template_ok [OF _ slots lens m assms(6)]) (use assms(1) run(3) in simp)
  moreover have "nul_free_msgs sys \<Longrightarrow> nul_free_msgs (sys @ ms)"
    using messages_nul_free [OF run(5)] by (auto simp: nul_free_msgs_def)
  ultimately show ?thesis
    using run(1,5) by (auto simp: with_messages_def messages_reply_def messages_fit_def nat_int_add)
qed


text \<open>The synthetic message in front.\<close>

definition system_msgs :: "eterm \<Rightarrow> chat_msg list" where
  "system_msgs req =
     (case system_text req of None \<Rightarrow> [] | Some s \<Rightarrow> [\<lparr>msg_role = ''system'', msg_content = c_chars s\<rparr>])"

lemma nul_free_system_msgs: "nul_free_msgs (system_msgs req)"
  unfolding system_msgs_def nul_free_msgs_def by (auto split: option.split)

lemma apply_chat_ok:
  assumes "no_dead_vocab ce" and "te_models (ce_text ce) i = Some m" and "enif_is_map req"
    and "enif_get_map_value req ''messages'' = Some list" and "proper_list list"
  shows "\<exists>r. nif_apply_chat_template ce alloc (ERes MODEL_RT i) req = Some (r, []) \<and>
     (calm ce alloc \<and> messages_fit ce m (system_msgs req) (list_cells list)
       \<longrightarrow> r = messages_reply ce alloc m (system_msgs req) (list_cells list))"
proof (cases "alloc ''msgs'' 0")
  case False
  have "enif_is_list list" using assms(5) by (cases list) (simp_all add: enif_is_list_def)
  with False assms show ?thesis
    by (auto simp: nif_apply_chat_template_def enif_get_list_length_def calm_def)
next
  case True
  let ?n = "length (list_cells list)" and ?slots = "replicate (length (list_cells list) + 1) (None, None) :: chat_slot list"
  have list: "enif_is_list list" "enif_get_list_length list = Some ?n"
    using assms(5) by (cases list; simp add: enif_is_list_def) (simp add: enif_get_list_length_def assms(5))
  have run: "nif_apply_chat_template ce alloc (ERes MODEL_RT i) req =
     (case build_system_content (ce_text ce) alloc req [MsgsBlk] of
        None \<Rightarrow> None
      | Some (None, live2) \<Rightarrow> with_messages ce alloc m list (?n + 1) ?slots 0 live2
      | Some (Some synthetic, live2) \<Rightarrow>
          if \<not> alloc ''sys_role'' 0 then
            Option.bind (enif_free (ContentBlk 0) live2) (\<lambda>l1.
            Option.bind (enif_free MsgsBlk l1) (\<lambda>l2. Some (err ''oom'', l2)))
          else with_messages ce alloc m list (?n + 1) (?slots[0 := (Some ''system'', Some synthetic)]) 1 (RoleBlk 0 # live2))"
    unfolding nif_apply_chat_template_def Let_def
    by (simp only: enif_get_resource_ERes bind.bind_lunit assms(2-4) True list option.case simp_thms if_True if_False)
  have "mset [MsgsBlk] = {#MsgsBlk#}" by simp
  from build_system_content_ok [OF this, of "ce_text ce" alloc req] show ?thesis
  proof (elim disjE [where P = "\<exists>l. _ l \<and> _ l \<and> _ l"] exE conjE)
    fix l
    assume b: "build_system_content (ce_text ce) alloc req [MsgsBlk] = Some (None, l)" "mset l = {#MsgsBlk#}"
      and why: "system_text req = None \<or> (\<exists>k j. \<not> alloc k j)"
    have "\<exists>r. with_messages ce alloc m list (?n + 1) ?slots 0 l = Some (r, []) \<and>
        (calm ce alloc \<and> nul_free_msgs [] \<and> messages_fit ce m [] (list_cells list)
          \<longrightarrow> r = messages_reply ce alloc m [] (list_cells list))"
      by (rule with_messages_ok) (use b(2) assms(1) in simp_all)
    moreover have "calm ce alloc \<Longrightarrow> system_msgs req = []" using why by (auto simp: calm_def system_msgs_def)
    ultimately show ?thesis using run b(1) by (auto simp: nul_free_msgs_def)
  next
    fix s l
    assume b: "build_system_content (ce_text ce) alloc req [MsgsBlk] = Some (Some (c_chars s), l)"
      "mset l = add_mset (ContentBlk 0) {#MsgsBlk#}" "system_text req = Some s"
    have sys: "system_msgs req = [\<lparr>msg_role = ''system'', msg_content = c_chars s\<rparr>]" using b(3) by (simp add: system_msgs_def)
    show ?thesis
    proof (cases "alloc ''sys_role'' 0")
      case False
      obtain l1 where l1: "enif_free (ContentBlk 0) l = Some l1" "mset l1 = {#MsgsBlk#}" using enif_free_ok [OF b(2)] by blast
      then obtain l2 where "enif_free MsgsBlk l1 = Some l2" "mset l2 = {#}" using enif_free_ok [of l1 MsgsBlk "{#}"] by auto
      with False run b(1) l1(1) show ?thesis by (auto simp: calm_def)
    next
      case True
      let ?out = "?slots[0 := (Some ''system'', Some (c_chars s))]"
      have "\<exists>r. with_messages ce alloc m list (?n + 1) ?out 1 (RoleBlk 0 # l) = Some (r, []) \<and>
          (calm ce alloc \<and> nul_free_msgs (system_msgs req) \<and> messages_fit ce m (system_msgs req) (list_cells list)
            \<longrightarrow> r = messages_reply ce alloc m (system_msgs req) (list_cells list))"
        by (rule with_messages_ok) (use b(2) assms(1) sys in \<open>simp_all add: slot_of_def\<close>)
      then show ?thesis using run b(1) True nul_free_system_msgs by simp
    qed
  qed
qed

subsection \<open>The properties\<close>

text \<open>
  C25: Whatever the terms and whichever allocations or calls fail, \<open>nif_apply_chat_template\<close> returns: it never
  writes outside the buffer of the system message or reads past the prompt buffer, frees no block twice, and leaves no
  block and no lock behind.
\<close>

theorem chat_template_frees:
  assumes "no_dead_vocab ce"
  shows "\<exists>r. nif_apply_chat_template ce alloc a0 a1 = Some (r, [])"
proof (cases "\<exists>i m list. a0 = ERes MODEL_RT i \<and> te_models (ce_text ce) i = Some m \<and> enif_is_map a1 \<and>
    enif_get_map_value a1 ''messages'' = Some list \<and> proper_list list")
  case True
  then show ?thesis using apply_chat_ok [OF assms] by blast
next
  case False
  then show ?thesis
    by (cases a0) (auto simp: nif_apply_chat_template_def enif_get_resource_def enif_get_list_length_def split: option.split)
qed

definition demo_chat_env :: chat_env where
  "demo_chat_env =
     \<lparr>ce_text = demo_tok_env, ce_meta = (\<lambda>_. Ret \<lparr>cm_template = Some (to_bytes ''chatml''), cm_pre_tekken = False, cm_n_layers = 2\<rparr>),
      ce_throws = (\<lambda>_. False)\<rparr>"

lemma demo_chat_no_dead: "no_dead_vocab demo_chat_env"
  by (simp add: no_dead_vocab_def demo_chat_env_def demo_tok_env_def demo_text_env_def demo_vocab_def)

theorem chat_template_frees_witness:
  "\<exists>r. nif_apply_chat_template demo_chat_env (\<lambda>k i. k \<noteq> ''content'') (ERes MODEL_RT 0)
     (EMap [(EAtom ''messages'', mk_list [EMap [(EAtom ''role'', EBin [117]), (EAtom ''content'', EBin [72])]])]) = Some (r, [])"
  by (rule chat_template_frees [OF demo_chat_no_dead])

text \<open>
  C24: If nothing fails, the tokens answered are those of the whole prompt that the model's template makes of the synthetic
  system message and the messages of the request, whatever its size up to the limit. A message without role or content is
  a bad argument, content that is no byte list is \<open>invalid_content\<close>, an unknown template \<open>template_failed\<close>.
\<close>

theorem chat_template_exact:
  assumes "no_dead_vocab ce" and "calm ce alloc" and "te_models (ce_text ce) i = Some m"
    and "erllama_lock_model_live m = Some p" and "erllama_safe_model_chat_template ce p = Some tmpl" and "tmpl \<noteq> []"
    and "te_vocab (ce_text ce) p = Some v"
    and "\<forall>bs. length bs \<le> ERLLAMA_MAX_TOKEN_TEXT \<longrightarrow>
           te_tokenize (ce_text ce) v bs True True = llama_vocab_tokenize (toks bs) \<and> int (length (toks bs)) < INT32_MAX"
    and "enif_is_map req" and "enif_get_map_value req ''messages'' = Some (mk_list ms)"
    and "\<forall>chat. messages_of ms = Inr chat \<longrightarrow> prompt_fits tmpl (system_msgs req @ chat)"
  shows "nif_apply_chat_template ce alloc (ERes MODEL_RT i) req = Some (
     case messages_of ms of
       Inl e \<Rightarrow> if e = -3 then err ''invalid_content'' else Badarg
     | Inr chat \<Rightarrow>
         (case llm_chat_apply_template (llm_chat_detect_template tmpl) (system_msgs req @ chat) True of
            None \<Rightarrow> err ''template_failed''
          | Some prompt \<Rightarrow>
              if length prompt > ERLLAMA_MAX_TOKEN_TEXT then err ''too_large''
              else if int (length (toks (to_bytes prompt))) > ERLLAMA_MAX_TOKENS then err ''too_large''
              else Term (ETuple [atom_ok, mk_list (map EInt (toks (to_bytes prompt)))])), [])"
proof -
  have "messages_fit ce m (system_msgs req) ms"
    using assms(4,5,11) by (auto simp: messages_fit_def chat_fits_def)
  then have run: "nif_apply_chat_template ce alloc (ERes MODEL_RT i) req = Some (messages_reply ce alloc m (system_msgs req) ms, [])"
    using apply_chat_ok [OF assms(1,3,9,10), of alloc] assms(2) by auto
  have alloc: "alloc k j" for k j using assms(2) by (simp add: calm_def)
  have status: "prompt_status ce alloc v bs =
      (if int (length (toks bs)) > ERLLAMA_MAX_TOKENS then ERLLAMA_TOK_TOO_LARGE else ERLLAMA_TOK_OK (toks bs))"
    if "length bs \<le> ERLLAMA_MAX_TOKEN_TEXT" for bs
    using assms(8) that by (simp add: prompt_status_def tokenize_grow_complete alloc)
  have bad: "messages_of cs = Inl e \<Longrightarrow> e \<in> {-1, -3}" for cs e
    by (induction cs arbitrary: e) (auto simp: message_of_def split: sum.splits option.splits if_splits)
  show ?thesis
    unfolding run messages_reply_def template_reply_def render_reply_def
    using assms(4-7) bad [of ms]
    by (auto simp: build_failed_def status tokens_reply_def tok_reply_def not_less split: sum.split option.split)
qed

theorem chat_template_exact_witness:
  "nif_apply_chat_template demo_chat_env always (ERes MODEL_RT 0)
     (EMap [(EAtom ''system'', EBin (to_bytes ''S'')), (EAtom ''tools'', mk_list [EMap [(EAtom ''name'', EBin (to_bytes ''t''))]]),
            (EAtom ''messages'', mk_list [EMap [(EAtom ''role'', EBin (to_bytes ''user'')), (EAtom ''content'', EBin (to_bytes ''Hi''))]])]) =
   Some (Term (ETuple [atom_ok, mk_list (map EInt (0 # map uint (to_bytes (
     ''<|im_start|>system'' @ lf @ ''S'' @ lf @ lf @ ''Available tools:'' @ lf @ ''  - t'' @ lf @ ''<|im_end|>'' @ lf @
     ''<|im_start|>user'' @ lf @ ''Hi<|im_end|>'' @ lf @ ''<|im_start|>assistant'' @ lf))))]), [])"
proof -
  let ?sys = "to_bytes (''S'' @ lf @ lf @ ''Available tools:'' @ lf @ ''  - t'' @ lf)"
  let ?prompt = "''<|im_start|>system'' @ lf @ ''S'' @ lf @ lf @ ''Available tools:'' @ lf @ ''  - t'' @ lf @ ''<|im_end|>'' @ lf @
     ''<|im_start|>user'' @ lf @ ''Hi<|im_end|>'' @ lf @ ''<|im_start|>assistant'' @ lf"
  let ?msgs = "[EMap [(EAtom ''role'', EBin (to_bytes ''user'')), (EAtom ''content'', EBin (to_bytes ''Hi''))]]"
  let ?req = "EMap [(EAtom ''system'', EBin (to_bytes ''S'')), (EAtom ''tools'', mk_list [EMap [(EAtom ''name'', EBin (to_bytes ''t''))]]),
            (EAtom ''messages'', mk_list ?msgs)]"
  have msgs: "messages_of ?msgs = Inr [user_msg ''Hi'']" by code_simp
  have sys: "system_msgs ?req = [\<lparr>msg_role = ''system'', msg_content = ''S'' @ lf @ lf @ ''Available tools:'' @ lf @ ''  - t'' @ lf\<rparr>]"
    by code_simp
  have tmpl: "erllama_safe_model_chat_template demo_chat_env p = Some ''chatml''" for p
    by (simp add: erllama_safe_model_chat_template_def demo_chat_env_def llama_model_chat_template_def) code_simp
  have detect: "llm_chat_detect_template ''chatml'' = CHATML" by code_simp
  have prompt: "llm_chat_apply_template CHATML (system_msgs ?req @ [user_msg ''Hi'']) True = Some ?prompt"
    unfolding sys by (simp add: r_chatml_def)
  have len: "length ?prompt \<le> 2 ^ 20" by (simp add: lf_def)
  have env: "te_models (ce_text demo_chat_env) 0 = Some \<lparr>m_model = Some 7, active_contexts = 0, active_adapters = 0,
      active_mtmd = 0, release_pending = False, m_keeps = 0, m_term = True\<rparr>" (is "_ = Some ?m")
    "te_vocab (ce_text demo_chat_env) 7 = Some demo_vocab"
    by (simp_all add: demo_chat_env_def demo_tok_env_def demo_text_env_def)
  have lock: "erllama_lock_model_live ?m = Some 7" by (simp add: erllama_lock_model_live_def)
  have tok: "\<forall>bs. length bs \<le> ERLLAMA_MAX_TOKEN_TEXT \<longrightarrow>
      te_tokenize (ce_text demo_chat_env) demo_vocab bs True True = llama_vocab_tokenize (0 # map uint bs) \<and>
      int (length (0 # map uint bs)) < INT32_MAX"
    by (simp add: demo_chat_env_def demo_tok_env_def ERLLAMA_MAX_TOKEN_TEXT_def)
  have calm: "calm demo_chat_env always" by (simp add: calm_def demo_chat_env_def)
  have req: "enif_is_map ?req" "enif_get_map_value ?req ''messages'' = Some (mk_list ?msgs)"
    by (simp_all add: enif_is_map_def)
  have fits: "\<forall>chat. messages_of ?msgs = Inr chat \<longrightarrow> prompt_fits ''chatml'' (system_msgs ?req @ chat)"
    unfolding msgs prompt_fits_def detect using prompt len by auto
  have small: "\<not> length ?prompt > ERLLAMA_MAX_TOKEN_TEXT" "\<not> int (length (0 # map uint (to_bytes ?prompt))) > ERLLAMA_MAX_TOKENS"
    using len by (simp_all add: ERLLAMA_MAX_TOKEN_TEXT_def ERLLAMA_MAX_TOKENS_def)
  note run = chat_template_exact [OF demo_chat_no_dead calm env(1) lock tmpl _ env(2) tok req fits]
  show ?thesis
    by (subst run) (simp, simp only: msgs detect prompt small sum.case option.case if_False)
qed

subsection \<open>What goes wrong\<close>

text \<open>
  The comment of the shim promises a negative size when the buffer is too small; the size is positive and the buffer
  holds the beginning of the text.
\<close>

lemma chat_apply_truncates:
  assumes "llm_chat_apply_template (llm_chat_detect_template tmpl) chat True = Some s" and "length s < 2 ^ 31"
    and "buf \<noteq> []" and "length buf < length s"
  shows "fst (erllama_safe_chat_apply_template False (Some tmpl) chat True buf) > int (length buf)"
  using rendered [OF assms(1-3)] assms(4) by simp

text \<open>
  A failed allocation of the system text is taken for a request without one: with the memory for the other steps the
  prompt is rendered without the system message and the tools.
\<close>

lemma chat_system_dropped:
  assumes "\<not> alloc ''sys'' 0"
  shows "build_system_content e alloc req live = Some (None, live)"
  using assms by (simp add: build_system_content_def Let_def)

text \<open>What follows a NUL byte of a content is lost.\<close>

lemma chat_content_cut:
  "message_of (EMap [(EAtom ''role'', EBin [117]), (EAtom ''content'', EBin [97, 0, 98])]) =
   message_of (EMap [(EAtom ''role'', EBin [117]), (EAtom ''content'', EBin [97])])"
  by code_simp

end
