(* ===== verification/Chat_Api.thy ===== *)
theory Chat_Api
  imports Chat_Nif
begin

text \<open>
  The entry points of \<open>erllama_chat_nif.cpp\<close>: preparing a model's Jinja templates, rendering a request through them,
  and parsing what the model wrote. The Jinja engine and the parsers behind \<open>common_chat_*\<close> are the record
  \<open>chat_engine\<close>; a call of it returns or throws. The two kinds of resources are tables with reference counts: the reference
  that \<open>enif_alloc_resource\<close> gives, one for each term, and the destructor runs when the last one goes.
\<close>

text \<open>What a C++ call may do: \<open>std::exception\<close> has a text.\<close>

datatype 'a cxx = StdExc "byte list" | OtherExc | Val 'a

fun bind_cxx :: "'a cxx \<Rightarrow> ('a \<Rightarrow> 'b cxx) \<Rightarrow> 'b cxx" where
  "bind_cxx (Val x) f = f x"
| "bind_cxx (StdExc w) f = StdExc w"
| "bind_cxx OtherExc f = OtherExc"

subsection \<open>The data of the chat library\<close>

record ('m, 't) chat_inputs =
  ci_messages :: "'m list"
  ci_json_schema :: "byte list"
  ci_continue_final :: int
  ci_use_jinja :: bool
  ci_tools :: "'t list"
  ci_tool_choice :: int
  ci_parallel_tool_calls :: bool
  ci_reasoning_format :: int
  ci_enable_thinking :: bool

definition chat_inputs_default :: "('m, 't) chat_inputs" where
  "chat_inputs_default =
     \<lparr>ci_messages = [], ci_json_schema = [], ci_continue_final = 0, ci_use_jinja = True, ci_tools = [],
      ci_tool_choice = 0, ci_parallel_tool_calls = False, ci_reasoning_format = 0, ci_enable_thinking = True\<rparr>"

datatype trigger_type = TRIGGER_TOKEN | TRIGGER_WORD | TRIGGER_PATTERN | TRIGGER_PATTERN_FULL

record grammar_trigger =
  gt_type :: trigger_type
  gt_value :: "byte list"
  gt_token :: llama_token

record chat_params =
  ch_format :: int
  ch_prompt :: "byte list"
  ch_grammar :: "byte list"
  ch_grammar_lazy :: bool
  ch_generation_prompt :: "byte list"
  ch_supports_thinking :: bool
  ch_thinking_start_tag :: "byte list"
  ch_thinking_end_tags :: "byte list list"
  ch_grammar_triggers :: "grammar_trigger list"
  ch_additional_stops :: "byte list list"
  ch_parser :: "byte list"

record chat_tool_call =
  tc_name :: "byte list"
  tc_arguments :: "byte list"
  tc_id :: "byte list"

record parsed_msg =
  pm_role :: "byte list"
  pm_content :: "byte list"
  pm_reasoning_content :: "byte list"
  pm_tool_calls :: "chat_tool_call list"

text \<open>
  \<open>eg_messages\<close> is \<open>common_json::parse\<close> followed by \<open>common_chat_msgs_parse_oaicompat\<close>, \<open>eg_tools\<close> likewise;
  \<open>eg_parse\<close> is \<open>parser.load\<close> on the saved parser followed by \<open>common_chat_parse\<close>, which of the saved parameters gets
  the format and the generation prompt. Copies of strings never fail.
\<close>

record ('tm, 'm, 't) chat_engine =
  eg_init :: "nat \<Rightarrow> byte list \<Rightarrow> 'tm option cxx"
  eg_messages :: "byte list \<Rightarrow> 'm list cxx"
  eg_tools :: "byte list \<Rightarrow> 't list cxx"
  eg_apply :: "'tm \<Rightarrow> ('m, 't) chat_inputs \<Rightarrow> chat_params cxx"
  eg_parse :: "byte list \<Rightarrow> int \<Rightarrow> byte list \<Rightarrow> byte list \<Rightarrow> bool \<Rightarrow> parsed_msg cxx"

subsection \<open>Resources\<close>

type_synonym 'a res_table = "nat \<Rightarrow> ('a \<times> nat) option"

record 'tm chat_state =
  cs_templates :: "'tm res_table"
  cs_params :: "chat_params res_table"

text \<open>\<open>enif_alloc_resource\<close> with the placement new, \<open>enif_make_resource\<close> and \<open>enif_release_resource\<close>.\<close>

definition res_alloc :: "nat \<Rightarrow> 'a \<Rightarrow> 'a res_table \<Rightarrow> 'a res_table" where
  "res_alloc i x t = t(i \<mapsto> (x, 1))"

definition res_term :: "nat \<Rightarrow> 'a res_table \<Rightarrow> 'a res_table" where
  "res_term i t = (case t i of None \<Rightarrow> t | Some (x, n) \<Rightarrow> t(i \<mapsto> (x, n + 1)))"

definition res_release :: "nat \<Rightarrow> 'a res_table \<Rightarrow> 'a res_table" where
  "res_release i t = (case t i of None \<Rightarrow> t | Some (x, n) \<Rightarrow> if n \<le> 1 then t(i := None) else t(i \<mapsto> (x, n - 1)))"

definition res_lookup :: "nat \<Rightarrow> 'a res_table \<Rightarrow> 'a option" where
  "res_lookup i t = map_option fst (t i)"

subsection \<open>Errors and strings\<close>

definition mk_string_bin :: "text_allocs \<Rightarrow> string \<Rightarrow> nat \<Rightarrow> byte list \<Rightarrow> eterm" where
  "mk_string_bin alloc k i s = (if alloc k i then EBin s else EAtom ''undefined'')"

definition mk_error_str :: "text_allocs \<Rightarrow> byte list \<Rightarrow> nif_ret" where
  "mk_error_str alloc reason =
     (if \<not> alloc ''error'' 0 then err ''alloc_failed''
      else erllama_error (ETuple [EAtom ''chat_parse_failed'', EBin reason]))"

definition term_is_undefined :: "eterm \<Rightarrow> bool" where
  "term_is_undefined t = (case enif_get_atom 16 t of None \<Rightarrow> False | Some s \<Rightarrow> s = ''undefined'')"

text \<open>The three \<open>catch\<close> clauses of an entry point.\<close>

definition chat_catch :: "text_allocs \<Rightarrow> 'a cxx \<Rightarrow> (nif_ret \<times> 's) \<Rightarrow> ('a \<Rightarrow> nif_ret \<times> 's) \<Rightarrow> nif_ret \<times> 's" where
  "chat_catch alloc r dflt k =
     (case r of
        StdExc w \<Rightarrow> (mk_error_str alloc w, snd dflt)
      | OtherExc \<Rightarrow> (err ''unknown_exception'', snd dflt)
      | Val x \<Rightarrow> k x)"

subsection \<open>Preparing templates\<close>

text \<open>\<open>i\<close> is the address that a new resource gets. The model is read without its lock.\<close>

definition nif_chat_templates_init ::
  "('tm, 'm, 't) chat_engine \<Rightarrow> text_allocs \<Rightarrow> (nat \<Rightarrow> model_res option) \<Rightarrow> nat \<Rightarrow> eterm \<Rightarrow> eterm \<Rightarrow> 'tm chat_state
   \<Rightarrow> nif_ret \<times> 'tm chat_state" where
  "nif_chat_templates_init eg alloc ms i a0 a1 s =
     (case Option.bind (enif_get_resource MODEL_RT a0) ms of
        None \<Rightarrow> (err ''invalid_model'', s)
      | Some m \<Rightarrow>
          (case m_model m of
             None \<Rightarrow> (err ''model_released'', s)
           | Some p \<Rightarrow>
               let have_override = \<not> term_is_undefined a1 in
               if have_override \<and> iolist_bytes a1 = None then (Badarg, s)
               else
                 let override = (if have_override then the (iolist_bytes a1) else []) in
                 chat_catch alloc (eg_init eg p override) (Badarg, s) (\<lambda>ptr.
                   case ptr of
                     None \<Rightarrow> (err ''templates_init_failed'', s)
                   | Some tm \<Rightarrow>
                       if \<not> alloc ''resource'' 0 then (err ''alloc_failed'', s)
                       else (Term (ETuple [atom_ok, ERes CHAT_TEMPLATES_RT i]),
                             s\<lparr>cs_templates := res_release i (res_term i (res_alloc i tm (cs_templates s)))\<rparr>))))"

subsection \<open>The inputs of a request\<close>

definition TOOL_CHOICE_TABLE :: "(string \<times> int) list" where
  "TOOL_CHOICE_TABLE = [(''auto'', 0), (''required'', 1), (''none'', 2)]"

definition REASONING_FORMAT_TABLE :: "(string \<times> int) list" where
  "REASONING_FORMAT_TABLE = [(''none'', 0), (''deepseek'', 3)]"

definition CONTINUATION_TABLE :: "(string \<times> int) list" where
  "CONTINUATION_TABLE = [(''none'', 0), (''auto'', 1), (''content'', 3), (''reasoning'', 2)]"

definition map_tool_choice :: "eterm \<Rightarrow> int option" where
  "map_tool_choice m =
     (case get_map_atom_enum m ''tool_choice'' TOOL_CHOICE_TABLE of
        EnumBad \<Rightarrow> None | EnumAbsent \<Rightarrow> Some 0 | EnumValue v \<Rightarrow> Some v)"

definition map_get_bool :: "eterm \<Rightarrow> string \<Rightarrow> bool \<Rightarrow> bool option" where
  "map_get_bool m key deflt =
     (case enif_get_map_value m key of None \<Rightarrow> Some deflt | Some _ \<Rightarrow> get_map_bool m key)"

text \<open>The result keeps the old value \<open>old\<close> when the key is absent.\<close>

definition map_reasoning_format :: "eterm \<Rightarrow> int \<Rightarrow> int option" where
  "map_reasoning_format m old =
     (case get_map_atom_enum m ''reasoning_format'' REASONING_FORMAT_TABLE of
        EnumBad \<Rightarrow> None | EnumAbsent \<Rightarrow> Some old | EnumValue v \<Rightarrow> Some v)"

definition map_continuation :: "eterm \<Rightarrow> int \<Rightarrow> int option" where
  "map_continuation m old =
     (case get_map_atom_enum m ''continue_final_message'' CONTINUATION_TABLE of
        EnumBad \<Rightarrow> None | EnumAbsent \<Rightarrow> Some old | EnumValue v \<Rightarrow> Some v)"

text \<open>The options after messages and tools: \<open>Inl\<close> is the atom in \<open>err_out\<close>.\<close>

definition chat_options :: "eterm \<Rightarrow> ('m, 't) chat_inputs \<Rightarrow> string + ('m, 't) chat_inputs" where
  "chat_options m inp =
     (case map_tool_choice m of
        None \<Rightarrow> Inl ''invalid_tool_choice''
      | Some tc \<Rightarrow>
     (case map_get_bool m ''parallel_tool_calls'' False of
        None \<Rightarrow> Inl ''invalid_parallel_tool_calls''
      | Some par \<Rightarrow>
          let schema = (case get_map_bin m ''json_schema'' of Some s \<Rightarrow> if s \<noteq> [] then s else ci_json_schema inp
                        | None \<Rightarrow> ci_json_schema inp) in
     (case map_get_bool m ''enable_thinking'' (ci_enable_thinking inp) of
        None \<Rightarrow> Inl ''invalid_enable_thinking''
      | Some think \<Rightarrow>
     (case map_reasoning_format m (ci_reasoning_format inp) of
        None \<Rightarrow> Inl ''invalid_reasoning_format''
      | Some rf \<Rightarrow>
     (case map_continuation m (ci_continue_final inp) of
        None \<Rightarrow> Inl ''invalid_continue_final_message''
      | Some cont \<Rightarrow>
          Inr (inp\<lparr>ci_tool_choice := tc, ci_parallel_tool_calls := par, ci_json_schema := schema,
                   ci_enable_thinking := think, ci_reasoning_format := rf, ci_continue_final := cont\<rparr>))))))"

definition build_chat_inputs_from_map ::
  "('tm, 'm, 't) chat_engine \<Rightarrow> eterm \<Rightarrow> (string + ('m, 't) chat_inputs) cxx" where
  "build_chat_inputs_from_map eg m =
     (case get_map_bin m ''messages'' of
        None \<Rightarrow> Val (Inl ''missing_messages'')
      | Some messages_json \<Rightarrow>
          let tools_json = get_map_bin m ''tools''; inp = chat_inputs_default\<lparr>ci_use_jinja := True\<rparr> in
          bind_cxx (eg_messages eg messages_json) (\<lambda>msgs.
          bind_cxx (case tools_json of
                      Some t \<Rightarrow> if t \<noteq> [] then eg_tools eg t else Val (ci_tools inp)
                    | None \<Rightarrow> Val (ci_tools inp)) (\<lambda>tools.
          Val (chat_options m (inp\<lparr>ci_messages := msgs, ci_tools := tools\<rparr>)))))"

subsection \<open>The render map\<close>

definition regex_special :: "byte set" where
  "regex_special = {46, 94, 36, 124, 40, 41, 42, 43, 63, 91, 93, 123, 125, 92}"

text \<open>A backslash before every special character.\<close>

fun regex_escape :: "byte list \<Rightarrow> byte list" where
  "regex_escape [] = []"
| "regex_escape (c # s) = (if c \<in> regex_special then 92 # c # regex_escape s else c # regex_escape s)"

definition anchored :: "byte list \<Rightarrow> byte list" where
  "anchored v =
     (if v = [] then [94, 36]
      else (if hd v = 94 then [] else [94]) @ v @ (if last v = 36 then [] else [36]))"

fun convert_triggers :: "grammar_trigger list \<Rightarrow> byte list list \<times> llama_token list \<Rightarrow> byte list list \<times> llama_token list" where
  "convert_triggers [] out = out"
| "convert_triggers (t # ts) (patterns, tokens) =
     convert_triggers ts
       (case gt_type t of
          TRIGGER_WORD \<Rightarrow> (patterns @ [regex_escape (gt_value t)], tokens)
        | TRIGGER_PATTERN \<Rightarrow> (patterns @ [gt_value t], tokens)
        | TRIGGER_PATTERN_FULL \<Rightarrow> (patterns @ [anchored (gt_value t)], tokens)
        | TRIGGER_TOKEN \<Rightarrow> (patterns, tokens @ [gt_token t]))"

definition common_chat_format_name :: "int \<Rightarrow> byte list cxx" where
  "common_chat_format_name f =
     (if f = 0 then Val (to_bytes ''Content-only'')
      else if f = 1 then Val (to_bytes ''peg-simple'')
      else if f = 2 then Val (to_bytes ''peg-native'')
      else if f = 3 then Val (to_bytes ''peg-gemma4'')
      else if f = 4 then Val (to_bytes ''peg-minimax-m3'')
      else StdExc (to_bytes ''Unknown chat format''))"

definition mk_bool :: "bool \<Rightarrow> eterm" where
  "mk_bool b = (if b then atom_true else atom_false)"

definition mk_bin_list :: "text_allocs \<Rightarrow> string \<Rightarrow> byte list list \<Rightarrow> eterm" where
  "mk_bin_list alloc k v = mk_list (map (\<lambda>(i, s). mk_string_bin alloc k i s) (enumerate 0 v))"

text \<open>A vector of the function that cannot grow throws \<open>std::bad_alloc\<close>. A map from distinct keys is always made.\<close>

definition render_map :: "text_allocs \<Rightarrow> chat_params \<Rightarrow> eterm cxx" where
  "render_map alloc p =
     (let (patterns, tokens) = convert_triggers (ch_grammar_triggers p) ([], []) in
      if \<not> alloc ''vectors'' 0 then StdExc (to_bytes ''std::bad_alloc'')
      else bind_cxx (common_chat_format_name (ch_format p)) (\<lambda>fmt.
        Val (EMap
          [(EAtom ''prompt'', mk_string_bin alloc ''prompt'' 0 (ch_prompt p)),
           (EAtom ''format'', mk_string_bin alloc ''format'' 0 fmt),
           (EAtom ''grammar'', mk_string_bin alloc ''grammar'' 0 (ch_grammar p)),
           (EAtom ''grammar_lazy'', mk_bool (ch_grammar_lazy p)),
           (EAtom ''trigger_patterns'', mk_bin_list alloc ''trigger_patterns'' patterns),
           (EAtom ''trigger_tokens'', mk_list (map EInt tokens)),
           (EAtom ''additional_stops'', mk_bin_list alloc ''additional_stops'' (ch_additional_stops p)),
           (EAtom ''generation_prompt'', mk_string_bin alloc ''generation_prompt'' 0 (ch_generation_prompt p)),
           (EAtom ''supports_thinking'', mk_bool (ch_supports_thinking p)),
           (EAtom ''thinking_start_tag'', mk_string_bin alloc ''thinking_start_tag'' 0 (ch_thinking_start_tag p)),
           (EAtom ''thinking_end_tags'', mk_bin_list alloc ''thinking_end_tags'' (ch_thinking_end_tags p))])))"

subsection \<open>Rendering a request\<close>

definition params_with :: "'tm chat_state \<Rightarrow> (chat_params res_table \<Rightarrow> chat_params res_table) \<Rightarrow> 'tm chat_state" where
  "params_with s f = s\<lparr>cs_params := f (cs_params s)\<rparr>"

text \<open>After \<open>common_chat_templates_apply\<close>: an exception of \<open>render_map\<close> skips \<open>enif_release_resource\<close>.\<close>

definition keep_params :: "text_allocs \<Rightarrow> nat \<Rightarrow> chat_params \<Rightarrow> 'tm chat_state \<Rightarrow> nif_ret \<times> 'tm chat_state" where
  "keep_params alloc i p s =
     (if \<not> alloc ''resource'' 0 then (err ''alloc_failed'', s)
      else
        let s1 = params_with s (\<lambda>t. res_term i (res_alloc i p t)) in
        chat_catch alloc (render_map alloc p) (Badarg, s1) (\<lambda>render.
          (Term (ETuple [atom_ok, ERes CHAT_PARAMS_RT i, render]), params_with s1 (res_release i))))"

definition nif_chat_templates_apply ::
  "('tm, 'm, 't) chat_engine \<Rightarrow> text_allocs \<Rightarrow> nat \<Rightarrow> eterm \<Rightarrow> eterm \<Rightarrow> 'tm chat_state \<Rightarrow> nif_ret \<times> 'tm chat_state" where
  "nif_chat_templates_apply eg alloc i a0 a1 s =
     (case Option.bind (enif_get_resource CHAT_TEMPLATES_RT a0) (\<lambda>r. res_lookup r (cs_templates s)) of
        None \<Rightarrow> (err ''invalid_templates'', s)
      | Some tm \<Rightarrow>
          if \<not> enif_is_map a1 then (Badarg, s)
          else chat_catch alloc (build_chat_inputs_from_map eg a1) (Badarg, s) (\<lambda>b.
            case b of
              Inl e \<Rightarrow> (err e, s)
            | Inr inp \<Rightarrow> chat_catch alloc (eg_apply eg tm inp) (Badarg, s) (\<lambda>p. keep_params alloc i p s)))"

subsection \<open>Parsing a reply\<close>

definition call_term :: "text_allocs \<Rightarrow> nat \<Rightarrow> chat_tool_call \<Rightarrow> eterm" where
  "call_term alloc j c =
     EMap [(EAtom ''name'', mk_string_bin alloc ''name'' j (tc_name c)),
           (EAtom ''arguments_json'', mk_string_bin alloc ''arguments'' j (tc_arguments c)),
           (EAtom ''id'', if tc_id c = [] then EAtom ''undefined'' else mk_string_bin alloc ''id'' j (tc_id c))]"

definition marshal_msg :: "text_allocs \<Rightarrow> parsed_msg \<Rightarrow> eterm cxx" where
  "marshal_msg alloc msg =
     (if \<not> alloc ''vectors'' 0 then StdExc (to_bytes ''std::bad_alloc'')
      else Val (EMap [(EAtom ''role'', mk_string_bin alloc ''role'' 0 (pm_role msg)),
           (EAtom ''content'', mk_string_bin alloc ''content'' 0 (pm_content msg)),
           (EAtom ''reasoning_content'',
              if pm_reasoning_content msg = [] then EAtom ''undefined''
              else mk_string_bin alloc ''reasoning'' 0 (pm_reasoning_content msg)),
           (EAtom ''tool_calls'', mk_list (map (\<lambda>(j, c). call_term alloc j c) (enumerate 0 (pm_tool_calls msg))))]))"

definition nif_chat_parse ::
  "('tm, 'm, 't) chat_engine \<Rightarrow> text_allocs \<Rightarrow> eterm \<Rightarrow> eterm \<Rightarrow> eterm \<Rightarrow> 'tm chat_state \<Rightarrow> nif_ret \<times> 'tm chat_state" where
  "nif_chat_parse eg alloc a0 a1 a2 s =
     (case Option.bind (enif_get_resource CHAT_PARAMS_RT a0) (\<lambda>r. res_lookup r (cs_params s)) of
        None \<Rightarrow> (err ''invalid_params'', s)
      | Some p \<Rightarrow>
          (case iolist_bytes a1 of
             None \<Rightarrow> (Badarg, s)
           | Some input \<Rightarrow>
               (case enif_get_atom 8 a2 of
                  None \<Rightarrow> (Badarg, s)
                | Some ispart \<Rightarrow>
                    chat_catch alloc
                      (bind_cxx (eg_parse eg (ch_parser p) (ch_format p) (ch_generation_prompt p) input (ispart = ''true''))
                         (marshal_msg alloc))
                      (Badarg, s) (\<lambda>msg. (Term (ETuple [atom_ok, msg]), s)))))"

end
