(* ===== verification/Chat_Api_Props.thy ===== *)
theory Chat_Api_Props
  imports Chat_Api "HOL-Library.Multiset"
begin

text \<open>
  The trigger patterns that a grammar gets, and the reference counts of the chat resources over all runs of the
  three entry points and of the garbage collector.
\<close>

subsection \<open>Triggers\<close>

text \<open>The word that a regular expression of literal characters matches.\<close>

fun regex_literal :: "byte list \<Rightarrow> byte list option" where
  "regex_literal [] = Some []"
| "regex_literal (c # s) =
     (if c = 92 then (case s of [] \<Rightarrow> None
         | d # s' \<Rightarrow> if d \<in> regex_special then map_option (Cons d) (regex_literal s') else None)
      else if c \<in> regex_special then None
      else map_option (Cons c) (regex_literal s))"

lemma regex_literal_escape: "regex_literal (regex_escape w) = Some w"
  by (induction w) (auto simp: regex_special_def)

lemma convert_triggers_out:
  "convert_triggers ts (ps, ks) =
     (ps @ fst (convert_triggers ts ([], [])), ks @ snd (convert_triggers ts ([], [])))"
proof (induction ts arbitrary: ps ks)
  case (Cons t ts)
  show ?case
    by (cases "gt_type t")
      (simp_all add: Cons.IH [of "ps @ _"] Cons.IH [of ps "ks @ _"] Cons.IH [of "[_]" "[]"] Cons.IH [of "[]" "[_]"])
qed simp

lemma anchored_ends:
  "\<exists>pre post. anchored v = pre @ v @ post \<and> set pre \<subseteq> {94} \<and> set post \<subseteq> {36} \<and> hd (anchored v) = 94 \<and> last (anchored v) = 36"
proof (cases "v = []")
  case True
  then show ?thesis by (intro exI [of _ "[94]"] exI [of _ "[36]"]) (simp add: anchored_def)
next
  case False
  then show ?thesis
    by (intro exI [of _ "if hd v = 94 then [] else [94]"] exI [of _ "if last v = 36 then [] else [36]"])
      (simp add: anchored_def)
qed

text \<open>What pattern a trigger asks for.\<close>

definition trigger_pattern_ok :: "grammar_trigger \<Rightarrow> byte list \<Rightarrow> bool" where
  "trigger_pattern_ok t p =
     (case gt_type t of
        TRIGGER_WORD \<Rightarrow> regex_literal p = Some (gt_value t)
      | TRIGGER_PATTERN \<Rightarrow> p = gt_value t
      | TRIGGER_PATTERN_FULL \<Rightarrow> hd p = 94 \<and> last p = 36 \<and>
          (\<exists>pre post. p = pre @ gt_value t @ post \<and> set pre \<subseteq> {94} \<and> set post \<subseteq> {36})
      | TRIGGER_TOKEN \<Rightarrow> False)"


text \<open>An escaped dollar sign at the end counts as the anchor.\<close>

lemma anchored_escaped_dollar: "anchored [97, 92, 36] = [94, 97, 92, 36]"
  by (simp add: anchored_def)

subsection \<open>References\<close>

lemma res_simps [simp]:
  "res_release i (res_term i (res_alloc i x t)) = t(i \<mapsto> (x, 1))"
  "res_term i (res_alloc i x t) = t(i \<mapsto> (x, 2))"
  "res_release i (t(i \<mapsto> (x, 2))) = t(i \<mapsto> (x, 1))"
  by (auto simp: res_release_def res_term_def res_alloc_def)

lemma templates_init_cases:
  "(\<exists>tm r. nif_chat_templates_init eg alloc ms i a0 a1 s = (Term (ETuple [atom_ok, ERes CHAT_TEMPLATES_RT i]),
       s\<lparr>cs_templates := (cs_templates s)(i \<mapsto> (tm, 1))\<rparr>))
   \<or> (\<exists>r. nif_chat_templates_init eg alloc ms i a0 a1 s = (r, s) \<and> (\<nexists>ts. r = Term (ETuple (atom_ok # ts))))"
  by (auto simp: nif_chat_templates_init_def chat_catch_def mk_error_str_def Let_def err_def erllama_error_def
      split: option.split cxx.split)

lemma parse_state: "snd (nif_chat_parse eg alloc a0 a1 a2 s) = s"
  by (auto simp: nif_chat_parse_def chat_catch_def split: option.split cxx.split)

text \<open>The rendering does not throw: there is memory for its vectors, and the engine names a known format.\<close>

definition renders :: "('tm, 'm, 't) chat_engine \<Rightarrow> text_allocs \<Rightarrow> bool" where
  "renders eg alloc \<longleftrightarrow> alloc ''vectors'' 0 \<and>
     (\<forall>tm inp p. eg_apply eg tm inp = Val p \<longrightarrow> ch_format p \<in> {0, 1, 2, 3, 4})"

lemma render_map_Val:
  assumes "alloc ''vectors'' 0" and "ch_format p \<in> {0, 1, 2, 3, 4}"
  shows "\<exists>t. render_map alloc p = Val t"
  using assms by (cases "convert_triggers (ch_grammar_triggers p) ([], [])")
    (auto simp: render_map_def common_chat_format_name_def)

lemma keep_params_cases:
  assumes "alloc ''vectors'' 0" and "ch_format p \<in> {0, 1, 2, 3, 4}"
  shows "(\<exists>t. keep_params alloc i p s = (Term (ETuple [atom_ok, ERes CHAT_PARAMS_RT i, t]),
       s\<lparr>cs_params := (cs_params s)(i \<mapsto> (p, 1))\<rparr>))
   \<or> keep_params alloc i p s = (err ''alloc_failed'', s)"
  using render_map_Val [of alloc p, OF assms] by (auto simp: keep_params_def chat_catch_def params_with_def Let_def)

lemma templates_apply_branches:
  "(\<exists>tm inp p. eg_apply eg tm inp = Val p \<and> nif_chat_templates_apply eg alloc i a0 a1 s = keep_params alloc i p s)
   \<or> (\<exists>r. nif_chat_templates_apply eg alloc i a0 a1 s = (r, s) \<and> (\<nexists>ts. r = Term (ETuple (atom_ok # ts))))"
  by (auto simp: nif_chat_templates_apply_def chat_catch_def mk_error_str_def err_def erllama_error_def
      split: option.split cxx.split sum.split)

lemma templates_apply_cases:
  assumes "renders eg alloc"
  shows "(\<exists>p t. nif_chat_templates_apply eg alloc i a0 a1 s = (Term (ETuple [atom_ok, ERes CHAT_PARAMS_RT i, t]),
       s\<lparr>cs_params := (cs_params s)(i \<mapsto> (p, 1))\<rparr>))
   \<or> (\<exists>r. nif_chat_templates_apply eg alloc i a0 a1 s = (r, s) \<and> (\<nexists>ts. r = Term (ETuple (atom_ok # ts))))"
  using templates_apply_branches [of eg alloc i a0 a1 s]
proof (elim disjE exE conjE)
  fix tm inp p
  assume p: "eg_apply eg tm inp = Val p" and run: "nif_chat_templates_apply eg alloc i a0 a1 s = keep_params alloc i p s"
  have "alloc ''vectors'' 0" "ch_format p \<in> {0, 1, 2, 3, 4}" using assms p unfolding renders_def by blast+
  from keep_params_cases [of alloc p i s, OF this] show ?thesis
    unfolding run by (auto simp: err_def erllama_error_def)
qed blast

text \<open>
  Runs: the entry points in any order with any failures, where a new resource gets an address that is not in use; a process
  copies a term to another one, or a term is collected. \<open>live_refs\<close> are the terms.
\<close>

type_synonym live_refs = "(rtype \<times> nat) multiset"

definition state_term :: "rtype \<Rightarrow> nat \<Rightarrow> 'tm chat_state \<Rightarrow> 'tm chat_state" where
  "state_term rt i s =
     (if rt = CHAT_TEMPLATES_RT then s\<lparr>cs_templates := res_term i (cs_templates s)\<rparr>
      else s\<lparr>cs_params := res_term i (cs_params s)\<rparr>)"

definition state_release :: "rtype \<Rightarrow> nat \<Rightarrow> 'tm chat_state \<Rightarrow> 'tm chat_state" where
  "state_release rt i s =
     (if rt = CHAT_TEMPLATES_RT then s\<lparr>cs_templates := res_release i (cs_templates s)\<rparr>
      else s\<lparr>cs_params := res_release i (cs_params s)\<rparr>)"

definition returned_refs :: "nif_ret \<Rightarrow> live_refs" where
  "returned_refs r = (case r of Term (ETuple (EAtom a # ERes rt i # _)) \<Rightarrow> if a = ''ok'' then {#(rt, i)#} else {#} | _ \<Rightarrow> {#})"

inductive chat_run :: "('tm, 'm, 't) chat_engine \<Rightarrow> 'tm chat_state \<Rightarrow> live_refs \<Rightarrow> bool" for eg where
  run_start: "chat_run eg \<lparr>cs_templates = Map.empty, cs_params = Map.empty\<rparr> {#}"
| run_init: "chat_run eg s T \<Longrightarrow> cs_templates s i = None \<Longrightarrow>
    nif_chat_templates_init eg alloc ms i a0 a1 s = (r, s') \<Longrightarrow> chat_run eg s' (T + returned_refs r)"
| run_apply: "chat_run eg s T \<Longrightarrow> cs_params s i = None \<Longrightarrow> renders eg alloc \<Longrightarrow>
    nif_chat_templates_apply eg alloc i a0 a1 s = (r, s') \<Longrightarrow> chat_run eg s' (T + returned_refs r)"
| run_parse: "chat_run eg s T \<Longrightarrow> nif_chat_parse eg alloc a0 a1 a2 s = (r, s') \<Longrightarrow> chat_run eg s' T"
| run_copy: "chat_run eg s T \<Longrightarrow> (rt, i) \<in># T \<Longrightarrow> chat_run eg (state_term rt i s) (T + {#(rt, i)#})"
| run_collect: "chat_run eg s T \<Longrightarrow> (rt, i) \<in># T \<Longrightarrow> chat_run eg (state_release rt i s) (T - {#(rt, i)#})"

text \<open>The count of a resource; a table has no resource without references.\<close>

definition res_count :: "'a res_table \<Rightarrow> nat \<Rightarrow> nat" where
  "res_count t i = (case t i of None \<Rightarrow> 0 | Some (_, n) \<Rightarrow> n)"

definition refs_ok :: "rtype \<Rightarrow> 'a res_table \<Rightarrow> live_refs \<Rightarrow> bool" where
  "refs_ok rt t T \<longleftrightarrow> (\<forall>i. res_count t i = count T (rt, i) \<and> (t i = None \<or> 0 < res_count t i))"

lemma res_count_upd [simp]:
  "res_count (t(i \<mapsto> (x, n))) j = (if j = i then n else res_count t j)"
  "res_count (t(i := None)) j = (if j = i then 0 else res_count t j)"
  by (simp_all add: res_count_def)

lemma res_count_Some: "0 < res_count t i \<Longrightarrow> \<exists>x. t i = Some (x, res_count t i)"
  by (auto simp: res_count_def split: option.splits)

lemma res_count_None: "t i = None \<Longrightarrow> res_count t i = 0"
  by (simp add: res_count_def)

lemma refs_ok_new:
  assumes "refs_ok rt t T" and "t i = None"
  shows "refs_ok rt (t(i \<mapsto> (x, Suc 0))) (add_mset (rt, i) T)"
proof -
  have "count T (rt, i) = 0" using assms by (metis refs_ok_def res_count_None)
  with assms(1) show ?thesis by (auto simp: refs_ok_def)
qed

lemma refs_ok_at:
  assumes "refs_ok rt t T"
  shows "res_count t i = count T (rt, i)" and "t i = None \<longleftrightarrow> (rt, i) \<notin># T"
proof -
  have "res_count t i = count T (rt, i) \<and> (t i = None \<or> 0 < res_count t i)"
    using assms unfolding refs_ok_def by (rule spec)
  note n = conjunct1 [OF this] and pos = conjunct2 [OF this]
  from n show "res_count t i = count T (rt, i)" .
  show "t i = None \<longleftrightarrow> (rt, i) \<notin># T"
  proof (cases "t i = None")
    case True
    then have "count T (rt, i) = 0" using n res_count_None [of t i] by simp
    with True show ?thesis by (simp add: count_eq_zero_iff)
  next
    case False
    with n pos have "0 < count T (rt, i)" by metis
    with False show ?thesis by simp
  qed
qed

lemma refs_ok_other: "rt \<noteq> rt' \<Longrightarrow> refs_ok rt t (add_mset (rt', i) T) = refs_ok rt t T"
  by (simp add: refs_ok_def)

lemma refs_ok_less: "rt \<noteq> rt' \<Longrightarrow> refs_ok rt t (T - {#(rt', i)#}) = refs_ok rt t T"
  by (simp add: refs_ok_def)

lemma refs_ok_held:
  assumes "refs_ok rt t T" and "(rt, i) \<in># T"
  obtains x n where "t i = Some (x, n)" and "n = count T (rt, i)" and "0 < n"
proof -
  have n: "res_count t i = count T (rt, i)" using assms(1) by (simp add: refs_ok_def)
  moreover have "0 < count T (rt, i)" using assms(2) by simp
  ultimately show ?thesis using that res_count_Some [of t i] by (metis (no_types))
qed

lemma refs_ok_copy:
  assumes "refs_ok rt t T" and "(rt, i) \<in># T"
  shows "refs_ok rt (res_term i t) (add_mset (rt, i) T)"
proof -
  obtain x n where t: "t i = Some (x, n)" "n = count T (rt, i)" "0 < n" using refs_ok_held [OF assms] .
  show ?thesis using assms(1) t by (auto simp: refs_ok_def res_term_def)
qed

lemma refs_ok_collect:
  assumes "refs_ok rt t T" and "(rt, i) \<in># T"
  shows "refs_ok rt (res_release i t) (T - {#(rt, i)#})"
proof -
  obtain x n where t: "t i = Some (x, n)" "n = count T (rt, i)" "0 < n" using refs_ok_held [OF assms] .
  show ?thesis using assms(1) t by (auto simp: refs_ok_def res_release_def)
qed

definition known_refs :: "live_refs \<Rightarrow> bool" where
  "known_refs T \<longleftrightarrow> (\<forall>x \<in># T. fst x = CHAT_TEMPLATES_RT \<or> fst x = CHAT_PARAMS_RT)"

lemma returned_refs_simps [simp]:
  "returned_refs (Term (ETuple (atom_ok # ERes rt i # ts))) = {#(rt, i)#}"
  "(\<nexists>ts. r = Term (ETuple (atom_ok # ts))) \<Longrightarrow> returned_refs r = {#}"
  by (auto simp: returned_refs_def split: nif_ret.split eterm.split list.split)

lemma chat_run_counts:
  assumes "chat_run eg s T"
  shows "refs_ok CHAT_TEMPLATES_RT (cs_templates s) T \<and> refs_ok CHAT_PARAMS_RT (cs_params s) T \<and> known_refs T"
  using assms
proof induction
  case run_start
  then show ?case by (simp add: refs_ok_def known_refs_def res_count_def)
next
  case (run_init s T i alloc ms a0 a1 r s')
  then show ?case
    using templates_init_cases [of eg alloc ms i a0 a1 s] refs_ok_new [of CHAT_TEMPLATES_RT "cs_templates s" T i]
    by (auto simp: refs_ok_other known_refs_def simp del: fun_upd_apply)
next
  case (run_apply s T i alloc a0 a1 r s')
  then show ?case
    using templates_apply_cases [OF run_apply.hyps(3), of i a0 a1 s] refs_ok_new [of CHAT_PARAMS_RT "cs_params s" T i]
    by (auto simp: refs_ok_other known_refs_def simp del: fun_upd_apply)
next
  case (run_parse s T alloc a0 a1 a2 r s')
  then show ?case using parse_state [of eg alloc a0 a1 a2 s] by simp
next
  case (run_copy s T rt i)
  then have "rt = CHAT_TEMPLATES_RT \<or> rt = CHAT_PARAMS_RT" by (auto simp: known_refs_def)
  with run_copy show ?case
    by (auto simp: state_term_def refs_ok_copy refs_ok_other known_refs_def)
next
  case (run_collect s T rt i)
  then have "rt = CHAT_TEMPLATES_RT \<or> rt = CHAT_PARAMS_RT" by (auto simp: known_refs_def)
  moreover have "known_refs (T - {#(rt, i)#})" using run_collect.IH by (auto simp: known_refs_def dest: in_diffD)
  ultimately show ?case using run_collect
    by (auto simp: state_release_def refs_ok_collect refs_ok_less)
qed

text \<open>
  C29: Whatever the calls and their failures, as long as the rendering of a result does not throw, the reference count of every
  chat resource is the number of terms that hold it: no term refers to a destroyed resource, and when the last term
  is collected nothing is left.
\<close>

theorem chat_resources_counted:
  assumes "chat_run eg s T"
  shows "res_count (cs_templates s) i = count T (CHAT_TEMPLATES_RT, i) \<and>
         res_count (cs_params s) i = count T (CHAT_PARAMS_RT, i) \<and>
         (cs_templates s i = None \<longleftrightarrow> (CHAT_TEMPLATES_RT, i) \<notin># T) \<and>
         (cs_params s i = None \<longleftrightarrow> (CHAT_PARAMS_RT, i) \<notin># T)"
  using chat_run_counts [OF assms] by (simp add: refs_ok_at)

definition demo_chat :: "(nat, unit, unit) chat_engine" where
  "demo_chat =
     \<lparr>eg_init = (\<lambda>m t. Val (Some m)), eg_messages = (\<lambda>j. Val []), eg_tools = (\<lambda>j. Val []),
      eg_apply = (\<lambda>tm inp. OtherExc), eg_parse = (\<lambda>p f g i b. OtherExc)\<rparr>"

definition demo_chat_model :: model_res where
  "demo_chat_model =
     \<lparr>m_model = Some 3, active_contexts = 0, active_adapters = 0, active_mtmd = 0, release_pending = False,
      m_keeps = 1, m_term = True\<rparr>"

definition demo_chat_state :: "nat chat_state" where
  "demo_chat_state = \<lparr>cs_templates = [7 \<mapsto> (3, 1)], cs_params = Map.empty\<rparr>"

lemma demo_chat_init:
  "nif_chat_templates_init demo_chat (\<lambda>k i. True) (\<lambda>r. Some demo_chat_model) 7
     (ERes MODEL_RT 1) (EAtom ''undefined'') \<lparr>cs_templates = Map.empty, cs_params = Map.empty\<rparr>
   = (Term (ETuple [atom_ok, ERes CHAT_TEMPLATES_RT 7]), demo_chat_state)"
  by (simp add: nif_chat_templates_init_def demo_chat_def demo_chat_state_def demo_chat_model_def chat_catch_def
      term_is_undefined_def enif_get_atom_def)

lemma demo_chat_run: "chat_run demo_chat demo_chat_state {#(CHAT_TEMPLATES_RT, 7)#}"
  using chat_run.run_init [OF chat_run.run_start _ demo_chat_init] by simp

theorem chat_resources_counted_witness:
  "res_count (cs_templates demo_chat_state) 7 = 1 \<and> cs_params demo_chat_state 7 = None"
  using chat_resources_counted [OF demo_chat_run, of 7] by simp

text \<open>An exception while the result is rendered keeps a reference that no term holds.\<close>

lemma chat_render_throw_leaks:
  assumes "alloc ''resource'' 0" and "\<not> alloc ''vectors'' 0"
  shows "snd (keep_params alloc i p s) = s\<lparr>cs_params := (cs_params s)(i \<mapsto> (p, 2))\<rparr>"
  using assms by (cases "convert_triggers (ch_grammar_triggers p) ([], [])")
    (simp add: keep_params_def chat_catch_def render_map_def params_with_def Let_def)

end
