(* ===== verification/Spec2Isabelle.thy ===== *)
theory Spec2Isabelle
  imports Erllama_Base Crc32c Nif_Util Lifecycle Kv_Slots Nif_Kv Nif_State Spec_Nif Nif_Spec_Step
    Sampler_Props Adapter_Props Tokens_Props Mtmd_Props Model_Props
    Chat_Props Chat_Templates Chat_Api_Props
begin

text \<open>
  A model of the native layer of erllama: the NIF library under \<open>c_src/\<close> that gives Erlang
  processes llama.cpp models, contexts, samplers and adapters, and the parts of the vendored
  llama.cpp whose state that layer has to track.

  The parts of the program and how they interact. Erlang holds resources (model, context,
  sampler, adapter, projector). Every entry point takes its arguments as Erlang terms, takes the
  lock of the resource, checks that the native object is still there, calls llama.cpp through
  the shims of \<open>erllama_safe.cpp\<close>, and returns a term. A context keeps for each of 256
  sequences the position of its next token and the row of logits it samples from; these must
  agree with the KV cache, which the engine owns.

  Theories, in the order of the imports:
  \<^item> \<open>Erllama_Base\<close>: integer types, outcomes of calls that may throw, loops with assertions.
  \<^item> \<open>Crc32c\<close> (\<open>crc32c.c\<close>, \<open>nif_crc32c\<close>): the table, its once-initialisation, the update loop.
    Shown: the table loop is bit-serial division, digests compose, bursts are detected.
  \<^item> \<open>Erl_Term\<close>: terms and the getters of \<open>erl_nif.h\<close>.
  \<^item> \<open>Nif_Util\<close> (\<open>erllama_nif_util.c\<close>): option maps, paths, token lists, the tokenize
    grow-retry protocol (against the locale \<open>sized_call\<close>), context parameters.
  \<^item> \<open>Lifecycle\<close> (\<open>erllama_nif.c\<close>, the new and free entry points): reference counts, deferred
    release and destructors as a step relation. Shown over all reachable states: no use after
    free by contexts and adapters, no double free, the deferred-release contract; and the run
    that breaks it for projectors.
  \<^item> \<open>Kv_Cells\<close>, \<open>Kv_Cache\<close>, \<open>Kv_Slots\<close> (\<open>llama-kv-cells.h\<close>, \<open>llama-kv-cache.cpp\<close>): the cell
    table refined against a list of abstract cells, the sequence operations (locale
    \<open>kv_memory\<close>, interpreted on the cache), slot search, batch placement and its undoing.
    A violated assertion is \<open>None\<close>; the search loop is a \<open>partial_function\<close> whose
    termination is a theorem.
  \<^item> \<open>Kv_State\<close>, \<open>Kv_State_Write\<close>, \<open>Kv_State_Data\<close>, \<open>Kv_Roundtrip\<close> (\<open>llama-kv-cache.cpp\<close>,
    \<open>llama-context.cpp\<close>, \<open>ggml-backend.cpp\<close>): saving and restoring sequences with their tensors.
    Shown: the bytes of a saved sequence, the effect of storing the queued rows, the round trip
    between caches; and two restores that report success without restoring.
  \<^item> \<open>Safe_Shim\<close> (\<open>erllama_safe.cpp\<close>): the shims over the engine parameter \<open>llama_api\<close>.
  \<^item> \<open>Nif_Context\<close> (\<open>erllama_nif_context.c\<close>, \<open>erllama_nif_kv.c\<close>): context and sampler
    resources, the decode interrupt, pack, unpack, removal and copy.
  \<^item> \<open>Nif_Decode\<close> (\<open>erllama_nif_decode.c\<close>): the multi-sequence tick, prefill, single decode,
    embeddings, argmax pass. \<open>Demo_Engine\<close> is the small engine that the witnesses run on.
  \<^item> \<open>Nif_Props\<close>, \<open>Nif_Kv\<close>: what a caller may rely on. Tokens returned are committed, errors
    keep the tracking, batches stay within \<open>n_batch\<close>, KV operations resynchronise; on an
    engine whose memory is the modelled KV cache, trimming and forking a session are exact.
    \<open>Nif_State\<close>: on one whose memory has the modelled tensors too, packing and unpacking moves
    a session between contexts.
  \<^item> \<open>Ngram_Mod\<close> (\<open>ngram-mod.cpp\<close>, the ngram-mod part of \<open>speculative.cpp\<close>) and \<open>Spec_Nif\<close>
    (\<open>erllama_spec_nif.cpp\<close>): the hash table of n-grams, drafting, the occupancy and acceptance
    resets, and the entry points of a speculator. Shown: a draft is a chain of table lookups, and no
    sequence of calls trips an assertion unless \<open>n_match\<close> wraps to 0.
  \<^item> \<open>Nif_Spec_Step\<close> (\<open>nif_spec_step\<close> of \<open>erllama_nif_decode.c\<close>): the verification of a draft.
    Shown: on an engine whose logits depend only on the tokens of the sequence, a speculative
    step returns what single decodes would, and leaves the cache and the tracking they would.
  \<^item> \<open>Sampler_Heap\<close>, \<open>Sampler_Chain\<close>, \<open>Sampler_Nif\<close> (\<open>erllama_nif_sampler.c\<close>, the ownership of samplers in
    \<open>llama-sampler.cpp\<close>): the chain builder, the cache of compiled grammars, the entry points that
    install, use and free chains, as operations on a heap of native objects where a double free is
    \<open>None\<close>. \<open>Sampler_Steps\<close>, \<open>Sampler_Build\<close>, \<open>Sampler_Grammar\<close>, \<open>Sampler_Inv\<close>,
    \<open>Sampler_Runs\<close>, \<open>Sampler_Safe\<close>, \<open>Sampler_Exec\<close> prove, step by step of the builder, who owns what;
    \<open>Sampler_Cache\<close> refines the cache to an LRU list; \<open>Sampler_Props\<close> states the results for all runs:
    no undefined behaviour and no leak under any failures, every chain ends in its one selecting
    stage (so \<open>llama_sampler_sample\<close> never trips its assertion on the selected token), a
    configuration is installed as asked for or not at all; and the collision of cache keys.
  \<^item> \<open>Adapter_Nif\<close>, \<open>Adapter_Locks\<close>, \<open>Adapter_Props\<close> (\<open>erllama_nif_adapter.c\<close>, the adapter table of
    \<open>llama-context.cpp\<close>): \<open>nif_set_adapters\<close> as threads that interleave at every mutex with
    releases, decodes and other such calls. Shown: no deadlock (locale \<open>ordered_locks\<close>) and a bound on
    the steps, no adapter is freed under the native call, the table is what was asked for; and
    two ways it is not.
  \<^item> \<open>Vocab_Text\<close>, \<open>Vocab_Clean\<close>, \<open>Vocab_Detok\<close> (\<open>llama-vocab.cpp\<close>) and \<open>Tokens_Nif\<close>, \<open>Tokens_Props\<close>
    (\<open>erllama_nif_tokens.c\<close>): pieces, \<open>detokenize\<close> with its in-place passes over the buffer, and the
    three text NIFs. Shown: the passes stay in the text and are list functions, the answers do
    not depend on how the buffers were first sized (locale \<open>grow_call\<close>), cache keys extend; and two
    inputs that end the process.
  \<^item> \<open>Mtmd_Chunks\<close>, \<open>Mtmd_Eval\<close> (\<open>tools/mtmd/mtmd.cpp\<close>, \<open>mtmd-helper.cpp\<close>) and \<open>Mtmd_Nif\<close>
    (\<open>erllama_mtmd_nif.cpp\<close>, \<open>nif_media_prefill\<close>): a prompt with media markers becomes chunks, which are
    encoded and decoded in batches. \<open>Mtmd_Flat\<close> shows what the chunks hold, \<open>Mtmd_Rows\<close> which rows
    the engine gets, \<open>Mtmd_Safe\<close> that the views stay in bounds; \<open>Mtmd_Props\<close> states this for the call, and
    shows the calls that go wrong.
  \<^item> \<open>Model_Load\<close>, \<open>Model_Nif\<close>, \<open>Model_Query\<close> (\<open>erllama_nif_model.c\<close>, the device, load and log
    shims): loading a model with its overrides, fit, progress reports and log lines, and the probes. \<open>Model_Arena\<close>
    shows that the arena of overrides is filled as measured; \<open>Model_Props\<close> that a load never leaks, sends a
    bounded number of messages, and that the memory probe adds up.
  \<^item> \<open>Chat_Detect\<close>, \<open>Chat_Render\<close> (\<open>llama-chat.cpp\<close>): the guess of a model's chat template and the texts
    of all templates. \<open>Chat_Extend\<close>, \<open>Chat_Reply\<close>, \<open>Chat_Nul\<close> prove how these texts grow; \<open>Chat_Templates\<close>
    states which templates only append when messages are added, and which continue a reply in place.
  \<^item> \<open>Chat_Nif\<close> (\<open>erllama_nif_chat_template.c\<close>): the entry point that renders and tokenizes a request, with
    its buffers, blocks and lock; \<open>Chat_Live\<close> and \<open>Chat_System\<close> account for them step by step, and
    \<open>Chat_Props\<close> shows what it answers and that it leaves nothing behind.
  \<^item> \<open>Chat_Api\<close>, \<open>Chat_Api_Props\<close> (\<open>erllama_chat_nif.cpp\<close>): the entry points that render a request with
    the Jinja templates of a model and parse the reply, over the parameter \<open>chat_engine\<close>. Shown: what patterns
    the triggers of a grammar become, and that the references of the two resources are counted right over
    all runs, unless an exception interrupts the result map.

  Conventions. Token ids, positions and sequence ids are \<open>int\<close>, the limits of \<open>int32\<close> written
  out where the source casts or compares; clocks and bit patterns are words. Heap allocation,
  clock readings and concurrent abort requests are parameters. A call under a mutex is one
  step, except where the locks are the subject (\<open>Adapter_Nif\<close>). Floats are rationals, their rounding operations parameters.

  Not modelled: the numeric engine (graphs, kernels, quantisation, the arithmetic of samplers,
  GGUF loading), which is the parameter \<open>llama_api\<close>; the variants of the state functions that keep
  data on the device or write files; the Erlang layer above; what a sampler stage does to the
  logits, and a sampling call that throws, which changes no ownership; the tokenizers
  themselves and the loading of a vocabulary; the preprocessors and encoders of media (fields of
  \<open>mtmd_ctx\<close> and \<open>media_engine\<close>); the reading of a model file and the fitting of parameters
  (fields of \<open>load_env\<close>); the Jinja engine and the parsers of
  \<open>common/chat.cpp\<close> (fields of \<open>chat_engine\<close>).
\<close>

end
